(* ===== verification/Prelude.thy ===== *)
theory Prelude
  imports Main "HOL-Library.Word"
begin

text \<open>
  Shared vocabulary of the development: the C integer types of \<^verbatim>\<open>rtdef.h\<close> as words, the kernel's
  error codes, generic lemmas on lists and words, and the interface \<open>fifo\<close> of a bounded first-in
  first-out buffer that several components of the program provide (the mailbox ring, the message
  queue, the byte ring buffer).
\<close>

unbundle bit_operations_syntax

section \<open>C integer types and error codes\<close>

type_synonym u8 = "8 word"
type_synonym u16 = "16 word"
type_synonym u32 = "32 word"

text \<open>The codes of \<^verbatim>\<open>rtdef.h\<close>; the kernel returns them negated.\<close>

abbreviation (input) RT_EOK :: int where "RT_EOK \<equiv> 0"
abbreviation (input) RT_ERROR :: int where "RT_ERROR \<equiv> 1"
abbreviation (input) RT_ETIMEOUT :: int where "RT_ETIMEOUT \<equiv> 2"
abbreviation (input) RT_EFULL :: int where "RT_EFULL \<equiv> 3"
abbreviation (input) RT_EEMPTY :: int where "RT_EEMPTY \<equiv> 4"
abbreviation (input) RT_ENOMEM :: int where "RT_ENOMEM \<equiv> 5"
abbreviation (input) RT_EINTR :: int where "RT_EINTR \<equiv> 9"
abbreviation (input) RT_EINVAL :: int where "RT_EINVAL \<equiv> 10"

text \<open>\<^verbatim>\<open>RT_ALIGN(sz, RT_ALIGN_SIZE)\<close> and \<^verbatim>\<open>RT_ALIGN_DOWN\<close> for the alignment 4.\<close>

definition align4 :: "u32 \<Rightarrow> u32" where
  "align4 sz = (sz + 3) AND NOT 3"

definition align4_down :: "u32 \<Rightarrow> u32" where
  "align4_down sz = sz AND NOT 3"

lemma unat_align4_down: "unat (align4_down w) = unat w div 4 * 4"
proof -
  have m: "(3 :: u32) = mask 2" by (simp add: mask_eq_exp_minus_1)
  have "align4_down w = push_bit 2 (drop_bit 2 w)"
    unfolding align4_down_def m
  proof (rule bit_eqI)
    fix n
    show "bit (w AND NOT (mask 2)) n = bit (push_bit 2 (drop_bit 2 w)) n"
      by (cases "n < 2") (auto simp: bit_simps not_less dest!: le_Suc_ex)
  qed
  then have "unat (align4_down w) = unat (drop_bit 2 w) * 4 mod 2 ^ 32"
    by (simp add: push_bit_eq_mult unat_word_ariths)
  moreover have "unat (drop_bit 2 w) = unat w div 4" by (simp add: drop_bit_eq_div unat_div_distrib)
  moreover have "unat w < 4294967296" using unsigned_less[of w, where ?'a = nat] by simp
  ultimately show ?thesis by simp
qed

lemma unat_align4: "unat (align4 w) = (if unat w \<le> 4294967292 then (unat w + 3) div 4 * 4 else 0)"
proof -
  have a: "align4 w = align4_down (w + 3)" by (simp add: align4_def align4_down_def)
  have s: "unat (w + 3) = (unat w + 3) mod 4294967296" by (simp add: unat_word_ariths)
  have "unat w < 4294967296" using unsigned_less[of w, where ?'a = nat] by simp
  then show ?thesis by (auto simp: a unat_align4_down s mod_if)
qed

section \<open>Lists\<close>

named_theorems removeAll_simps "how unlinking acts on lists"

lemma removeAll_id_if_notin [removeAll_simps]: "t \<notin> set xs \<Longrightarrow> removeAll t xs = xs"
  by (induction xs) auto

lemma removeAll_remove1 [removeAll_simps]:
  "distinct xs \<Longrightarrow> removeAll t xs = remove1 t xs"
  by (simp add: distinct_remove1_removeAll)

lemma removeAll_hd: "distinct (x # xs) \<Longrightarrow> removeAll x (x # xs) = xs"
  by (simp add: removeAll_id_if_notin)

lemma take_Suc_drop_nth:
  "i < length xs \<Longrightarrow> drop i xs = xs ! i # drop (Suc i) xs"
  by (simp add: Cons_nth_drop_Suc)

text \<open>\<open>memcpy(&xs[i], ys, length ys)\<close> inside the bounds of \<open>xs\<close>.\<close>

definition blit :: "'a list \<Rightarrow> nat \<Rightarrow> 'a list \<Rightarrow> 'a list" where
  "blit xs i ys = take i xs @ ys @ drop (i + length ys) xs"

lemma length_blit [simp]: "i + length ys \<le> length xs \<Longrightarrow> length (blit xs i ys) = length xs"
  by (simp add: blit_def)

lemma take_blit [simp]: "j \<le> i \<Longrightarrow> i \<le> length xs \<Longrightarrow> take j (blit xs i ys) = take j xs"
  by (simp add: blit_def)

lemma take_blit_end [simp]:
  "i + length ys \<le> length xs \<Longrightarrow> j = i + length ys \<Longrightarrow> take j (blit xs i ys) = take i xs @ ys"
  by (simp add: blit_def)

lemma drop_blit [simp]:
  "i + length ys \<le> length xs \<Longrightarrow> i + length ys \<le> j \<Longrightarrow> drop j (blit xs i ys) = drop j xs"
  by (simp add: blit_def add.commute)

lemma drop_blit_front:
  "j \<le> i \<Longrightarrow> i + length ys \<le> length xs \<Longrightarrow>
   drop j (blit xs i ys) = take (i - j) (drop j xs) @ ys @ drop (i + length ys) xs"
  by (simp add: blit_def drop_take)

lemma blit_nth:
  "i + length ys \<le> length xs \<Longrightarrow> j < length xs \<Longrightarrow>
   blit xs i ys ! j = (if i \<le> j \<and> j < i + length ys then ys ! (j - i) else xs ! j)"
  by (auto simp: blit_def nth_append)

section \<open>Words\<close>

lemma unat_Suc_word:
  fixes x :: "'a::len word"
  assumes "Suc (unat x) < 2 ^ LENGTH('a)"
  shows "unat (x + 1) = Suc (unat x)"
  using assms by (simp add: unat_word_ariths)

lemma unat_dec_word:
  fixes x :: "'a::len word"
  assumes "x \<noteq> 0"
  shows "unat (x - 1) = unat x - 1"
  using assms by (simp add: unat_minus_one)

lemma unat_ucast_16_32: "unat (ucast (x :: u16) :: u32) = unat x"
proof -
  have "unat x < 2 ^ 16" by (rule order_less_le_trans[OF unsigned_less]) simp
  then show ?thesis by (simp add: unsigned_ucast_eq take_bit_nat_eq_self)
qed

lemma sint_eq_uint_if_nonneg:
  fixes x :: u32
  assumes "0 \<le> sint x"
  shows "sint x = uint x"
proof -
  have "uint x = uint (word_of_int (sint x) :: u32)" by simp
  also have "\<dots> = sint x mod 2 ^ 32" by (simp only: uint_word_of_int) simp
  also have "\<dots> = sint x" using assms sint_lt[of x] by simp
  finally show ?thesis ..
qed

section \<open>A bounded FIFO buffer\<close>

text \<open>
  \<open>inv\<close> is the representation invariant, \<open>abs\<close> the contents from the oldest to the newest element,
  \<open>cap\<close> the capacity; \<open>put\<close> refuses (\<open>None\<close>) exactly when the buffer is full and \<open>get\<close> exactly when
  it is empty.
\<close>

locale fifo =
  fixes inv :: "'s \<Rightarrow> bool"
    and abs :: "'s \<Rightarrow> 'a list"
    and cap :: "'s \<Rightarrow> nat"
    and put :: "'a \<Rightarrow> 's \<Rightarrow> 's option"
    and get :: "'s \<Rightarrow> ('a \<times> 's) option"
  assumes bounded: "inv s \<Longrightarrow> length (abs s) \<le> cap s"
    and put_room: "inv s \<Longrightarrow> length (abs s) < cap s \<Longrightarrow>
      \<exists>s'. put x s = Some s' \<and> inv s' \<and> abs s' = abs s @ [x] \<and> cap s' = cap s"
    and put_full: "inv s \<Longrightarrow> length (abs s) = cap s \<Longrightarrow> put x s = None"
    and get_some: "inv s \<Longrightarrow> abs s = x # xs \<Longrightarrow>
      \<exists>s'. get s = Some (x, s') \<and> inv s' \<and> abs s' = xs \<and> cap s' = cap s"
    and get_none: "inv s \<Longrightarrow> abs s = [] \<Longrightarrow> get s = None"

datatype 'a fifo_op = FPut 'a | FGet

text \<open>
  A run of operations collects the elements that were accepted and the elements that were delivered;
  refused operations leave the buffer as it is.
\<close>

fun fifo_run :: "('a \<Rightarrow> 's \<Rightarrow> 's option) \<Rightarrow> ('s \<Rightarrow> ('a \<times> 's) option) \<Rightarrow> 'a fifo_op list \<Rightarrow> 's
    \<Rightarrow> 'a list \<times> 'a list \<times> 's" where
  "fifo_run put get [] s = ([], [], s)"
| "fifo_run put get (FPut x # ops) s =
     (case put x s of
        None \<Rightarrow> fifo_run put get ops s
      | Some s' \<Rightarrow> (case fifo_run put get ops s' of (ins, outs, s'') \<Rightarrow> (x # ins, outs, s'')))"
| "fifo_run put get (FGet # ops) s =
     (case get s of
        None \<Rightarrow> fifo_run put get ops s
      | Some (x, s') \<Rightarrow> (case fifo_run put get ops s' of (ins, outs, s'') \<Rightarrow> (ins, x # outs, s'')))"

context fifo begin

lemma put_cases:
  assumes "inv s"
  obtains (full) "length (abs s) = cap s" "put x s = None"
  | (room) s' where "length (abs s) < cap s" "put x s = Some s'" "inv s'"
      "abs s' = abs s @ [x]" "cap s' = cap s"
  using assms bounded[of s] put_room[of s x] put_full[of s x]
  by (metis le_neq_implies_less)

lemma get_cases:
  assumes "inv s"
  obtains (empty) "abs s = []" "get s = None"
  | (elem) x xs s' where "abs s = x # xs" "get s = Some (x, s')" "inv s'" "abs s' = xs"
      "cap s' = cap s"
proof (cases "abs s")
  case Nil
  then show thesis using empty get_none[OF assms] by simp
next
  case (Cons x xs)
  obtain s' where "get s = Some (x, s')" "inv s'" "abs s' = xs" "cap s' = cap s"
    using get_some[OF assms Cons] by auto
  then show thesis by (rule elem[OF Cons])
qed

text \<open>Nothing is lost, duplicated or reordered.\<close>

lemma run_fifo:
  assumes "inv s" "fifo_run put get ops s = (ins, outs, s')"
  shows "inv s' \<and> cap s' = cap s \<and> abs s @ ins = outs @ abs s'"
  using assms
proof (induction ops arbitrary: s ins outs)
  case Nil
  then show ?case by simp
next
  case (Cons a ops)
  show ?case
  proof (cases a)
    case (FPut x)
    from Cons.prems(1) show ?thesis
    proof (cases rule: put_cases[where x = x])
      case full
      with Cons FPut show ?thesis by simp
    next
      case (room t)
      obtain i' o' where r: "fifo_run put get ops t = (i', o', s')" "ins = x # i'" "outs = o'"
        using Cons.prems(2) FPut room(2) by (auto split: prod.splits)
      with Cons.IH[OF room(3) r(1)] room show ?thesis by simp
    qed
  next
    case FGet
    from Cons.prems(1) show ?thesis
    proof (cases rule: get_cases)
      case empty
      with Cons.prems(2) FGet have "fifo_run put get ops s = (ins, outs, s')" by simp
      then show ?thesis by (rule Cons.IH[OF Cons.prems(1)])
    next
      case (elem x xs t)
      obtain i' o' where r: "fifo_run put get ops t = (i', o', s')" "ins = i'" "outs = x # o'"
        using Cons.prems(2) FGet elem(2) by (auto split: prod.splits)
      with Cons.IH[OF elem(3) r(1)] elem show ?thesis by simp
    qed
  qed
qed

end

end
