(* ===== verification/Kernel.thy ===== *)
theory Kernel
  imports Prelude
begin

text \<open>
  The state of the RT-Thread kernel in the single-core configuration of \<^verbatim>\<open>rtconfig.h\<close>
  (32 priorities, no SMP, no soft timers, timer skip list of level 1), the object type checks of
  \<^verbatim>\<open>object.c\<close>, the bit search of \<^verbatim>\<open>kservice.c\<close> and the timers of \<^verbatim>\<open>timer.c\<close>.

  Threads, timers and IPC objects are addressed by numbers, as the C code addresses them by pointers;
  what an address holds is recognised by the type byte of its object header. A thread hangs with its
  \<^verbatim>\<open>tlist\<close> node in one of the lists named by \<open>listid\<close>; \<open>lists\<close> gives the threads of each list in order,
  the abstraction of the pointer rings proved correct in theory DList.
  A failed \<^verbatim>\<open>RT_ASSERT\<close> (which loops for ever in \<^verbatim>\<open>rt_assert_handler\<close>) and a null or dangling
  dereference set \<open>stuck\<close>.
\<close>

section \<open>Constants\<close>

abbreviation (input) RT_THREAD_INIT :: u8 where "RT_THREAD_INIT \<equiv> 0"
abbreviation (input) RT_THREAD_READY :: u8 where "RT_THREAD_READY \<equiv> 1"
abbreviation (input) RT_THREAD_SUSPEND :: u8 where "RT_THREAD_SUSPEND \<equiv> 2"
abbreviation (input) RT_THREAD_RUNNING :: u8 where "RT_THREAD_RUNNING \<equiv> 3"
abbreviation (input) RT_THREAD_CLOSE :: u8 where "RT_THREAD_CLOSE \<equiv> 4"
abbreviation (input) RT_THREAD_STAT_MASK :: u8 where "RT_THREAD_STAT_MASK \<equiv> 15"

abbreviation (input) RT_Object_Class_Thread :: u8 where "RT_Object_Class_Thread \<equiv> 1"
abbreviation (input) RT_Object_Class_Semaphore :: u8 where "RT_Object_Class_Semaphore \<equiv> 2"
abbreviation (input) RT_Object_Class_Mutex :: u8 where "RT_Object_Class_Mutex \<equiv> 3"
abbreviation (input) RT_Object_Class_Event :: u8 where "RT_Object_Class_Event \<equiv> 4"
abbreviation (input) RT_Object_Class_MailBox :: u8 where "RT_Object_Class_MailBox \<equiv> 5"
abbreviation (input) RT_Object_Class_MemPool :: u8 where "RT_Object_Class_MemPool \<equiv> 8"
abbreviation (input) RT_Object_Class_Timer :: u8 where "RT_Object_Class_Timer \<equiv> 10"
abbreviation (input) RT_Object_Class_Static :: u8 where "RT_Object_Class_Static \<equiv> 128"

abbreviation (input) RT_TICK_MAX :: u32 where "RT_TICK_MAX \<equiv> 0xffffffff"
abbreviation (input) RT_TIMER_FLAG_ACTIVATED :: u8 where "RT_TIMER_FLAG_ACTIVATED \<equiv> 1"
abbreviation (input) RT_TIMER_FLAG_PERIODIC :: u8 where "RT_TIMER_FLAG_PERIODIC \<equiv> 2"

abbreviation (input) RT_IPC_FLAG_FIFO :: u8 where "RT_IPC_FLAG_FIFO \<equiv> 0"
abbreviation (input) RT_IPC_FLAG_PRIO :: u8 where "RT_IPC_FLAG_PRIO \<equiv> 1"

section \<open>Objects and kernel state\<close>

type_synonym tid = nat

datatype listid =
    ReadyL nat
  | DefunctL
  | SemL nat | MutexL nat | EventL nat | MbRecvL nat | MbSendL nat | MqL nat | MpL nat
  | CplL nat | DqPushL nat | DqPopL nat

datatype timerid = ThreadTimer tid | UserTimer nat

record rt_timer =
  tm_type :: u8
  tm_flag :: u8
  tm_init_tick :: u32
  tm_timeout_tick :: u32

record rt_thread =
  t_type :: u8
  t_stat :: u8
  t_current_priority :: u8
  t_init_priority :: u8
  t_number_mask :: u32
  t_init_tick :: u32
  t_remaining_tick :: u32
  t_error :: int
  t_event_set :: u32
  t_event_info :: u8
  t_cleanup :: bool
  t_stack_addr :: u32
  t_stack_size :: u32
  t_sp :: u32
  t_stack_guard :: u8

record rt_semaphore =
  s_type :: u8
  s_flag :: u8
  s_value :: u16

record rt_mutex =
  m_type :: u8
  m_flag :: u8
  m_value :: u16
  m_original_priority :: u8
  m_hold :: u8
  m_owner :: "tid option"

record rt_event =
  e_type :: u8
  e_flag :: u8
  e_set :: u32

record rt_mailbox =
  mb_type :: u8
  mb_flag :: u8
  mb_pool :: "u32 list"
  mb_size :: u16
  mb_entry :: u16
  mb_in_offset :: u16
  mb_out_offset :: u16

record rt_messagequeue =
  mq_type :: u8
  mq_flag :: u8
  mq_msg_size :: u16
  mq_max_msgs :: u16
  mq_entry :: u16
  mq_head :: "nat option"
  mq_tail :: "nat option"
  mq_free :: "nat option"
  mq_next :: "nat \<Rightarrow> nat option"
  mq_data :: "nat \<Rightarrow> u8 list"

text \<open>The first word of a pool block: the next free block, or the pool an allocated block belongs to.\<close>

datatype mp_cell = FreeNext "nat option" | OwnedBy nat

record rt_mempool =
  mp_type :: u8
  mp_size :: u32
  mp_block_size :: u32
  mp_block_list :: "nat option"
  mp_total_count :: u32
  mp_free_count :: u32
  mp_suspend_count :: u32
  mp_cells :: "nat \<Rightarrow> mp_cell"

record kernel =
  thr :: "tid \<Rightarrow> rt_thread"
  lists :: "listid \<Rightarrow> tid list"
  ready_group :: u32
  cur :: "tid option"
  cur_priority :: u8
  lock_nest :: "16 word"
  int_nest :: u8
  timers :: "timerid \<Rightarrow> rt_timer"
  timer_list :: "timerid list"
  tick :: u32
  sems :: "nat \<Rightarrow> rt_semaphore"
  mutexes :: "nat \<Rightarrow> rt_mutex"
  events :: "nat \<Rightarrow> rt_event"
  mboxes :: "nat \<Rightarrow> rt_mailbox"
  mqs :: "nat \<Rightarrow> rt_messagequeue"
  mps :: "nat \<Rightarrow> rt_mempool"
  stuck :: bool

definition rt_object_get_type :: "u8 \<Rightarrow> u8" where
  "rt_object_get_type ty = ty AND NOT RT_Object_Class_Static"

definition rt_object_is_systemobject :: "u8 \<Rightarrow> bool" where
  "rt_object_is_systemobject ty \<longleftrightarrow> ty AND RT_Object_Class_Static \<noteq> 0"

definition fail :: "kernel \<Rightarrow> kernel" where
  "fail s = s\<lparr>stuck := True\<rparr>"

definition upd_thr :: "tid \<Rightarrow> (rt_thread \<Rightarrow> rt_thread) \<Rightarrow> kernel \<Rightarrow> kernel" where
  "upd_thr t f s = s\<lparr>thr := (thr s)(t := f (thr s t))\<rparr>"

definition upd_timer :: "timerid \<Rightarrow> (rt_timer \<Rightarrow> rt_timer) \<Rightarrow> kernel \<Rightarrow> kernel" where
  "upd_timer i f s = s\<lparr>timers := (timers s)(i := f (timers s i))\<rparr>"

definition statm :: "kernel \<Rightarrow> tid \<Rightarrow> u8" where
  "statm s t = t_stat (thr s t) AND RT_THREAD_STAT_MASK"

definition prio :: "kernel \<Rightarrow> tid \<Rightarrow> nat" where
  "prio s t = unat (t_current_priority (thr s t))"

text \<open>\<open>stat = v | (stat & ~RT_THREAD_STAT_MASK)\<close>\<close>

definition set_stat :: "tid \<Rightarrow> u8 \<Rightarrow> kernel \<Rightarrow> kernel" where
  "set_stat t v = upd_thr t (\<lambda>th. th\<lparr>t_stat := v OR (t_stat th AND NOT RT_THREAD_STAT_MASK)\<rparr>)"

lemma or_and_not_mask: "(v OR (x AND NOT m)) AND m = v AND (m :: u8)"
  by (auto simp: bit_eq_iff bit_and_iff bit_or_iff bit_not_iff)

lemma stat_mask: "v AND 15 = v \<Longrightarrow> (v OR (x AND NOT 15)) AND 15 = (v :: u8)"
  by (simp only: or_and_not_mask)

lemma stat_mask_num [simp]: "v AND 15 = v \<Longrightarrow> (v OR (x AND -16)) AND 15 = (v :: u8)"
  using stat_mask[of v x] by simp

section \<open>The thread lists\<close>

definition list_remove :: "tid \<Rightarrow> kernel \<Rightarrow> kernel" where
  "list_remove t s = s\<lparr>lists := (\<lambda>l. removeAll t (lists s l))\<rparr>"

definition list_insert_before :: "listid \<Rightarrow> tid \<Rightarrow> kernel \<Rightarrow> kernel" where
  "list_insert_before l t s = s\<lparr>lists := (lists s)(l := lists s l @ [t])\<rparr>"

definition list_insert_after :: "listid \<Rightarrow> tid \<Rightarrow> kernel \<Rightarrow> kernel" where
  "list_insert_after l t s = s\<lparr>lists := (lists s)(l := t # lists s l)\<rparr>"

section \<open>First set bit\<close>

text \<open>The table \<^verbatim>\<open>__lowest_bit_bitmap\<close>, one row of the source per line.\<close>

definition lowest_bit_bitmap :: "nat list" where
  "lowest_bit_bitmap =
    [0, 0, 1, 0, 2, 0, 1, 0, 3, 0, 1, 0, 2, 0, 1, 0,
     4, 0, 1, 0, 2, 0, 1, 0, 3, 0, 1, 0, 2, 0, 1, 0,
     5, 0, 1, 0, 2, 0, 1, 0, 3, 0, 1, 0, 2, 0, 1, 0,
     4, 0, 1, 0, 2, 0, 1, 0, 3, 0, 1, 0, 2, 0, 1, 0,
     6, 0, 1, 0, 2, 0, 1, 0, 3, 0, 1, 0, 2, 0, 1, 0,
     4, 0, 1, 0, 2, 0, 1, 0, 3, 0, 1, 0, 2, 0, 1, 0,
     5, 0, 1, 0, 2, 0, 1, 0, 3, 0, 1, 0, 2, 0, 1, 0,
     4, 0, 1, 0, 2, 0, 1, 0, 3, 0, 1, 0, 2, 0, 1, 0,
     7, 0, 1, 0, 2, 0, 1, 0, 3, 0, 1, 0, 2, 0, 1, 0,
     4, 0, 1, 0, 2, 0, 1, 0, 3, 0, 1, 0, 2, 0, 1, 0,
     5, 0, 1, 0, 2, 0, 1, 0, 3, 0, 1, 0, 2, 0, 1, 0,
     4, 0, 1, 0, 2, 0, 1, 0, 3, 0, 1, 0, 2, 0, 1, 0,
     6, 0, 1, 0, 2, 0, 1, 0, 3, 0, 1, 0, 2, 0, 1, 0,
     4, 0, 1, 0, 2, 0, 1, 0, 3, 0, 1, 0, 2, 0, 1, 0,
     5, 0, 1, 0, 2, 0, 1, 0, 3, 0, 1, 0, 2, 0, 1, 0,
     4, 0, 1, 0, 2, 0, 1, 0, 3, 0, 1, 0, 2, 0, 1, 0]"

definition rt_ffs :: "u32 \<Rightarrow> nat" where
  "rt_ffs value =
     (if value = 0 then 0
      else if value AND 0xff \<noteq> 0 then lowest_bit_bitmap ! unat (value AND 0xff) + 1
      else if value AND 0xff00 \<noteq> 0 then lowest_bit_bitmap ! unat (drop_bit 8 (value AND 0xff00)) + 9
      else if value AND 0xff0000 \<noteq> 0
        then lowest_bit_bitmap ! unat (drop_bit 16 (value AND 0xff0000)) + 17
      else lowest_bit_bitmap ! unat (drop_bit 24 (value AND 0xff000000)) + 25)"

definition low_bit_ok :: "nat \<Rightarrow> nat \<Rightarrow> bool" where
  "low_bit_ok b x \<longleftrightarrow> x < 8 \<and> b mod 2 ^ (x + 1) = 2 ^ x"

fun check_low_bits :: "nat \<Rightarrow> nat list \<Rightarrow> bool" where
  "check_low_bits b [] \<longleftrightarrow> True"
| "check_low_bits b (x # xs) \<longleftrightarrow> low_bit_ok b x \<and> check_low_bits (b + 1) xs"

lemma check_low_bits_nth: "check_low_bits b xs \<Longrightarrow> i < length xs \<Longrightarrow> low_bit_ok (b + i) (xs ! i)"
proof (induction xs arbitrary: b i)
  case Nil
  then show ?case by simp
next
  case (Cons x xs)
  show ?case
  proof (cases i)
    case 0
    with Cons show ?thesis by simp
  next
    case (Suc j)
    with Cons.IH[of "b + 1" j] Cons.prems show ?thesis by simp
  qed
qed

lemma low_bit_table: "check_low_bits 1 (tl lowest_bit_bitmap)"
  by (simp add: lowest_bit_bitmap_def low_bit_ok_def)

lemma lowest_bit_length: "length lowest_bit_bitmap = 256"
  by (simp add: lowest_bit_bitmap_def)

lemma low_bit_ok_bits:
  assumes "low_bit_ok b x"
  shows "bit b x \<and> (\<forall>j < x. \<not> bit b j)"
proof -
  have t: "take_bit (x + 1) b = 2 ^ x"
    using assms by (simp add: low_bit_ok_def take_bit_eq_mod)
  have "bit b j \<longleftrightarrow> j = x" if "j \<le> x" for j
  proof -
    have "bit b j \<longleftrightarrow> bit (take_bit (x + 1) b) j" using that by (simp add: bit_take_bit_iff)
    also have "\<dots> \<longleftrightarrow> j = x" unfolding t by (auto simp: bit_exp_iff)
    finally show ?thesis .
  qed
  then show ?thesis by auto
qed

lemma low_bit_byte:
  assumes "b \<noteq> 0" "b < 256"
  shows "bit b (lowest_bit_bitmap ! b) \<and> (\<forall>j < lowest_bit_bitmap ! b. \<not> bit b j)"
proof -
  have "low_bit_ok (1 + (b - 1)) (tl lowest_bit_bitmap ! (b - 1))"
    by (rule check_low_bits_nth[OF low_bit_table]) (use assms in \<open>simp add: lowest_bit_length\<close>)
  moreover have "tl lowest_bit_bitmap ! (b - 1) = lowest_bit_bitmap ! b"
    using assms by (subst nth_tl) (simp_all add: lowest_bit_length)
  ultimately show ?thesis using low_bit_ok_bits assms by simp
qed

lemma bit_255: "bit (255 :: u32) j \<longleftrightarrow> j < 8"
proof -
  have "(255 :: u32) = mask 8" by (simp add: mask_eq_exp_minus_1)
  then show ?thesis by (simp only: bit_mask_iff) auto
qed

lemma ffs_byte:
  fixes v :: u32
  assumes "k + 8 \<le> 32" "v AND push_bit k 255 \<noteq> 0" "\<And>j. j < k \<Longrightarrow> \<not> bit v j"
  defines "r \<equiv> lowest_bit_bitmap ! unat (drop_bit k (v AND push_bit k 255)) + k"
  shows "bit v r \<and> (\<forall>j < r. \<not> bit v j)"
proof -
  let ?b = "drop_bit k (v AND push_bit k 255)"
  note m = bit_255
  have bb: "bit ?b j \<longleftrightarrow> bit v (k + j) \<and> j < 8" for j
    using assms(1) m bit_imp_le_length[of v "k + j"]
    by (auto simp: bit_drop_bit_eq bit_and_iff bit_push_bit_iff)
  have tb: "?b = take_bit 8 ?b" by (rule bit_eqI) (simp only: bit_take_bit_iff bb, blast)
  have "unat ?b = take_bit 8 (unat ?b)"
    using arg_cong[OF tb, of unat] by (simp only: unsigned_take_bit_eq)
  also have "\<dots> < 256" by (simp only: take_bit_eq_mod) simp
  finally have lt: "unat ?b < 256" .
  have ne: "unat ?b \<noteq> 0"
  proof
    assume "unat ?b = 0"
    then have "?b = 0" by (simp add: unat_eq_0)
    then have z: "\<not> bit ?b j" for j by simp
    have "v AND push_bit k 255 = 0"
    proof (rule bit_eqI)
      fix n
      have "\<not> (bit v n \<and> k \<le> n \<and> n - k < 8)"
        using z[of "n - k"] bb[of "n - k"] by auto
      then show "bit (v AND push_bit k 255) n = bit 0 n"
        using m[of "n - k"] by (auto simp: bit_and_iff bit_push_bit_iff)
    qed
    with assms(2) show False by simp
  qed
  note l = low_bit_byte[OF ne lt]
  let ?i = "lowest_bit_bitmap ! unat ?b"
  have i: "bit ?b ?i" and j: "\<And>j. j < ?i \<Longrightarrow> \<not> bit ?b j"
    using l by (simp_all add: bit_unsigned_iff)
  have i8: "?i < 8" using i bb by simp
  have "bit v r" using i bb[of ?i] by (simp add: r_def add.commute)
  moreover have "\<not> bit v n" if "n < r" for n
  proof (cases "n < k")
    case True
    with assms(3) show ?thesis by blast
  next
    case False
    then have "n - k < ?i" using that unfolding r_def by linarith
    with j[of "n - k"] bb[of "n - k"] i8 False show ?thesis by simp
  qed
  ultimately show ?thesis by blast
qed

lemma and_byte_zero:
  fixes v :: u32
  assumes "v AND push_bit k 255 = 0" "k \<le> j" "j < k + 8" "k + 8 \<le> 32"
  shows "\<not> bit v j"
proof
  assume b: "bit v j"
  then have "bit (v AND push_bit k 255) j"
    using assms(2-4) bit_255[of "j - k"] by (auto simp: bit_and_iff bit_push_bit_iff)
  with assms(1) show False by simp
qed

lemma byte_masks:
  "push_bit 0 255 = (0xff :: u32)" "push_bit 8 255 = (0xff00 :: u32)"
  "push_bit 16 255 = (0xff0000 :: u32)" "push_bit 24 255 = (0xff000000 :: u32)"
  by (simp_all add: push_bit_eq_mult)

lemma rt_ffs_correct:
  assumes "v \<noteq> 0"
  shows "0 < rt_ffs v \<and> bit v (rt_ffs v - 1) \<and> (\<forall>j < rt_ffs v - 1. \<not> bit v j)"
proof -
  have step: ?thesis
    if "rt_ffs v = lowest_bit_bitmap ! unat (drop_bit k (v AND push_bit k 255)) + (k + 1)"
      "k + 8 \<le> 32" "v AND push_bit k 255 \<noteq> 0" "\<And>j. j < k \<Longrightarrow> \<not> bit v j" for k
    using ffs_byte[OF that(2-4)] that(1) by simp
  consider (a) "v AND 0xff \<noteq> 0" | (b) "v AND 0xff = 0" "v AND 0xff00 \<noteq> 0"
    | (c) "v AND 0xff = 0" "v AND 0xff00 = 0" "v AND 0xff0000 \<noteq> 0"
    | (d) "v AND 0xff = 0" "v AND 0xff00 = 0" "v AND 0xff0000 = 0"
    by blast
  then show ?thesis
  proof cases
    case a
    then show ?thesis using assms by (intro step[of 0]) (simp_all only: byte_masks rt_ffs_def, simp_all)
  next
    case b
    have "\<not> bit v j" if "j < 8" for j using and_byte_zero[of v 0 j] that b by (simp add: byte_masks)
    with b show ?thesis using assms
      by (intro step[of 8]) (simp_all only: byte_masks rt_ffs_def, simp_all)
  next
    case c
    have "\<not> bit v j" if "j < 16" for j
      using and_byte_zero[of v 0 j] and_byte_zero[of v 8 j] that c
      by (cases "j < 8") (simp_all only: byte_masks, simp_all)
    with c show ?thesis using assms
      by (intro step[of 16]) (simp_all only: byte_masks rt_ffs_def, simp_all)
  next
    case d
    have z: "\<not> bit v j" if "j < 24" for j
      using and_byte_zero[of v 0 j] and_byte_zero[of v 8 j] and_byte_zero[of v 16 j] that d
      by (cases "j < 8"; cases "j < 16") (simp_all only: byte_masks, simp_all)
    have "v AND push_bit 24 255 \<noteq> 0"
    proof
      assume e: "v AND push_bit 24 255 = 0"
      have "v = 0"
      proof (rule bit_eqI)
        fix n assume n: "possible_bit TYPE(u32) n"
        show "bit v n = bit 0 n"
          using z[of n] and_byte_zero[OF e, of n] n by (cases "n < 24") auto
      qed
      with assms show False by simp
    qed
    with z d show ?thesis using assms
      by (intro step[of 24]) (simp_all only: byte_masks rt_ffs_def, simp_all)
  qed
qed

end
