(* ===== verification/Timer.thy ===== *)
theory Timer
  imports Kernel
begin

text \<open>
  The hard timers of \<^verbatim>\<open>rt-thread/src/timer.c\<close>. With \<^verbatim>\<open>RT_TIMER_SKIP_LIST_LEVEL\<close> 1 the skip list is one
  list ordered by expiry; ticks wrap around, so times are compared by the sign of their difference
  (\<open>< RT_TICK_MAX / 2\<close>). \<open>timer_sorted\<close> is the order of the list relative to a base time.
\<close>

section \<open>Operations\<close>

definition timer_unlink :: "timerid \<Rightarrow> kernel \<Rightarrow> kernel" where
  "timer_unlink i s = s\<lparr>timer_list := removeAll i (timer_list s)\<rparr>"

text \<open>\<^verbatim>\<open>rt_timer_init\<close> with \<^verbatim>\<open>_rt_timer_init\<close>; \<^verbatim>\<open>rt_object_init\<close> marks the object static.\<close>

definition rt_timer_init :: "timerid \<Rightarrow> u32 \<Rightarrow> u8 \<Rightarrow> kernel \<Rightarrow> kernel" where
  "rt_timer_init i time flag =
     upd_timer i (\<lambda>_. \<lparr>tm_type = RT_Object_Class_Timer OR RT_Object_Class_Static,
                       tm_flag = flag AND NOT RT_TIMER_FLAG_ACTIVATED,
                       tm_init_tick = time, tm_timeout_tick = 0\<rparr>)"

definition rt_timer_detach :: "timerid \<Rightarrow> kernel \<Rightarrow> kernel" where
  "rt_timer_detach i s =
     (if rt_object_get_type (tm_type (timers s i)) \<noteq> RT_Object_Class_Timer then fail s
      else if \<not> rt_object_is_systemobject (tm_type (timers s i)) then fail s
      else upd_timer i (\<lambda>t. t\<lparr>tm_type := 0\<rparr>) (timer_unlink i s))"

text \<open>The search loop of \<^verbatim>\<open>rt_timer_start\<close>, followed by the insertion where it stops.\<close>

fun timer_insert :: "(timerid \<Rightarrow> u32) \<Rightarrow> timerid \<Rightarrow> u32 \<Rightarrow> timerid list \<Rightarrow> timerid list" where
  "timer_insert tmo i tt [] = [i]"
| "timer_insert tmo i tt (p # ps) =
     (if tmo p - tt = 0 then p # timer_insert tmo i tt ps
      else if tmo p - tt < RT_TICK_MAX div 2 then i # p # ps
      else p # timer_insert tmo i tt ps)"

definition rt_timer_start :: "timerid \<Rightarrow> kernel \<Rightarrow> kernel" where
  "rt_timer_start i s =
     (if rt_object_get_type (tm_type (timers s i)) \<noteq> RT_Object_Class_Timer then fail s else
      let s1 = timer_unlink i s;
          s2 = upd_timer i (\<lambda>t. t\<lparr>tm_flag := tm_flag t AND NOT RT_TIMER_FLAG_ACTIVATED\<rparr>) s1
      in if \<not> tm_init_tick (timers s2 i) < RT_TICK_MAX div 2 then fail s2 else
      let s3 = upd_timer i (\<lambda>t. t\<lparr>tm_timeout_tick := tick s2 + tm_init_tick t\<rparr>) s2;
          s4 = s3\<lparr>timer_list := timer_insert (\<lambda>j. tm_timeout_tick (timers s3 j)) i
                     (tm_timeout_tick (timers s3 i)) (timer_list s3)\<rparr>
      in upd_timer i (\<lambda>t. t\<lparr>tm_flag := tm_flag t OR RT_TIMER_FLAG_ACTIVATED\<rparr>) s4)"

definition rt_timer_stop :: "timerid \<Rightarrow> kernel \<Rightarrow> int \<times> kernel" where
  "rt_timer_stop i s =
     (if rt_object_get_type (tm_type (timers s i)) \<noteq> RT_Object_Class_Timer then (-RT_ERROR, fail s)
      else if tm_flag (timers s i) AND RT_TIMER_FLAG_ACTIVATED = 0 then (-RT_ERROR, s)
      else (RT_EOK, upd_timer i (\<lambda>t. t\<lparr>tm_flag := tm_flag t AND NOT RT_TIMER_FLAG_ACTIVATED\<rparr>)
                      (timer_unlink i s)))"

text \<open>The commands are 0 (set time), 1 (get time), 2 (one shot), 3 (periodic); the result is the value
  that \<^verbatim>\<open>*arg\<close> holds afterwards.\<close>

definition rt_timer_control :: "timerid \<Rightarrow> nat \<Rightarrow> u32 \<Rightarrow> kernel \<Rightarrow> u32 \<times> kernel" where
  "rt_timer_control i cmd arg s =
     (if rt_object_get_type (tm_type (timers s i)) \<noteq> RT_Object_Class_Timer then (arg, fail s)
      else if cmd = 1 then (tm_init_tick (timers s i), s)
      else if cmd = 0 then (arg, upd_timer i (\<lambda>t. t\<lparr>tm_init_tick := arg\<rparr>) s)
      else if cmd = 2 then
        (arg, upd_timer i (\<lambda>t. t\<lparr>tm_flag := tm_flag t AND NOT RT_TIMER_FLAG_PERIODIC\<rparr>) s)
      else if cmd = 3 then
        (arg, upd_timer i (\<lambda>t. t\<lparr>tm_flag := tm_flag t OR RT_TIMER_FLAG_PERIODIC\<rparr>) s)
      else (arg, s))"

definition rt_timer_next_timeout_tick :: "kernel \<Rightarrow> u32" where
  "rt_timer_next_timeout_tick s =
     (case timer_list s of [] \<Rightarrow> RT_TICK_MAX | i # _ \<Rightarrow> tm_timeout_tick (timers s i))"

text \<open>\<open>rt_timer_control(SET_TIME, &time); rt_timer_start\<close>, the pair every blocking call uses.\<close>

definition start_thread_timer :: "tid \<Rightarrow> u32 \<Rightarrow> kernel \<Rightarrow> kernel" where
  "start_thread_timer t time s =
     rt_timer_start (ThreadTimer t) (snd (rt_timer_control (ThreadTimer t) 0 time s))"

section \<open>The order of the timer list\<close>

definition tkey :: "u32 \<Rightarrow> u32 \<Rightarrow> nat" where
  "tkey base x = unat (x - base)"

definition timer_sorted :: "u32 \<Rightarrow> (timerid \<Rightarrow> u32) \<Rightarrow> timerid list \<Rightarrow> bool" where
  "timer_sorted base tmo ts \<longleftrightarrow>
     sorted (map (\<lambda>i. tkey base (tmo i)) ts) \<and> (\<forall>i \<in> set ts. tkey base (tmo i) < 2147483647)"

lemma half_tick: "RT_TICK_MAX div 2 = (2147483647 :: u32)"
  by simp

lemma tick_compare:
  assumes "tkey base x < 2147483647" "tkey base y < 2147483647"
  shows "x - y = 0 \<longleftrightarrow> tkey base x = tkey base y"
    and "x - y \<noteq> 0 \<Longrightarrow> x - y < RT_TICK_MAX div 2 \<longleftrightarrow> tkey base y < tkey base x"
proof -
  have e: "x - y = (x - base) - (y - base)" by simp
  show eq: "x - y = 0 \<longleftrightarrow> tkey base x = tkey base y"
    by (simp add: tkey_def word_unat_eq_iff[symmetric])
  assume ne: "x - y \<noteq> 0"
  show "x - y < RT_TICK_MAX div 2 \<longleftrightarrow> tkey base y < tkey base x"
  proof (cases "tkey base y \<le> tkey base x")
    case True
    then have "unat (x - y) = tkey base x - tkey base y"
      unfolding e tkey_def by (intro unat_sub) (simp only: word_le_nat_alt)
    moreover have "tkey base x \<noteq> tkey base y" using ne eq by simp
    ultimately show ?thesis using True assms unfolding half_tick by (simp add: word_less_nat_alt)
  next
    case False
    then have "unat (y - x) = tkey base y - tkey base x"
      using unat_sub[of "x - base" "y - base"] unfolding tkey_def
      by (simp add: word_le_nat_alt)
    then have "unat (y - x) < 2147483647" "y - x \<noteq> 0" using assms ne by auto
    have "\<not> unat (x - y) < 2147483647"
    proof
      assume "unat (x - y) < 2147483647"
      with \<open>unat (y - x) < 2147483647\<close> have "unat ((x - y) + (y - x)) = unat (x - y) + unat (y - x)"
        by (subst unat_word_ariths) simp
      then have "unat (y - x) = 0" by simp
      with \<open>y - x \<noteq> 0\<close> show False by (simp only: unat_eq_0)
    qed
    with False show ?thesis unfolding half_tick by (simp add: word_less_nat_alt)
  qed
qed

lemma timer_insert_set [simp]: "set (timer_insert tmo i tt ps) = insert i (set ps)"
  by (induction ps) auto

lemma timer_insert_distinct [simp]:
  "i \<notin> set ps \<Longrightarrow> distinct (timer_insert tmo i tt ps) \<longleftrightarrow> distinct ps"
  by (induction ps) auto

text \<open>
  On a sorted list the search loop inserts the new timer behind all timers that expire no later:
  timers of equal expiry keep their start order.
\<close>

lemma timer_insert_split:
  assumes "timer_sorted base tmo ps" "tkey base tt < 2147483647"
  shows "timer_insert tmo i tt ps =
    takeWhile (\<lambda>j. tkey base (tmo j) \<le> tkey base tt) ps @ i #
    dropWhile (\<lambda>j. tkey base (tmo j) \<le> tkey base tt) ps"
  using assms
proof (induction ps)
  case Nil
  then show ?case by simp
next
  case (Cons p ps)
  then have IH: "timer_insert tmo i tt ps =
    takeWhile (\<lambda>j. tkey base (tmo j) \<le> tkey base tt) ps @ i #
    dropWhile (\<lambda>j. tkey base (tmo j) \<le> tkey base tt) ps"
    by (simp add: timer_sorted_def)
  have p: "tkey base (tmo p) < 2147483647" using Cons.prems by (simp add: timer_sorted_def)
  note c = tick_compare[OF p Cons.prems(2)]
  show ?case
  proof (cases "tmo p - tt = 0")
    case True
    with c IH show ?thesis by simp
  next
    case False
    with c(2)[OF False] IH show ?thesis by (auto simp: not_le not_less)
  qed
qed

lemma timer_insert_sorted:
  assumes "timer_sorted base tmo ps" "tkey base tt < 2147483647" "tmo i = tt"
  shows "timer_sorted base tmo (timer_insert tmo i tt ps)"
proof -
  let ?k = "\<lambda>j. tkey base (tmo j)"
  let ?P = "\<lambda>j. ?k j \<le> tkey base tt"
  have s: "sorted (map ?k ps)" using assms(1) by (simp add: timer_sorted_def)
  have "sorted (map ?k (takeWhile ?P ps) @ map ?k (dropWhile ?P ps))"
    using s by (simp flip: map_append)
  then have 1: "sorted (map ?k (takeWhile ?P ps))" "sorted (map ?k (dropWhile ?P ps))"
    "\<forall>x\<in>set (takeWhile ?P ps). \<forall>y\<in>set (dropWhile ?P ps). ?k x \<le> ?k y"
    by (auto simp: sorted_append)
  have 2: "\<forall>x\<in>set (takeWhile ?P ps). ?k x \<le> ?k i"
    using assms(3) by (auto dest: set_takeWhileD)
  have 3: "\<forall>y\<in>set (dropWhile ?P ps). ?k i \<le> ?k y"
  proof (cases "dropWhile ?P ps")
    case Nil
    show ?thesis unfolding Nil by simp
  next
    case (Cons y ys)
    then have "\<not> ?P y" by (simp add: dropWhile_eq_Cons_conv)
    moreover have "\<forall>z\<in>set ys. ?k y \<le> ?k z" using 1(2) unfolding Cons by simp
    ultimately show ?thesis unfolding Cons using assms(3) by auto
  qed
  have "sorted (map ?k (timer_insert tmo i tt ps))"
    unfolding timer_insert_split[OF assms(1,2)] using 1 2 3 by (auto simp: sorted_append)
  with assms show ?thesis by (auto simp: timer_sorted_def)
qed

end
