(* ===== verification/Scheduler.thy ===== *)
theory Scheduler
  imports Timer
begin

text \<open>
  The scheduler of \<^verbatim>\<open>rt-thread/src/scheduler.c\<close> (single core, 32 priorities, so the ready group is one
  word with one bit per priority). \<open>kbase X\<close> is the consistency of the ready lists, the bitmap, the
  wait lists and the thread states, in which the threads of \<open>X\<close> are in transit (in no list);
  \<open>kcur\<close> relates the lists to the running thread; \<open>kinv\<close> is their conjunction.
\<close>

section \<open>Operations\<close>

definition rt_system_scheduler_init :: "kernel \<Rightarrow> kernel" where
  "rt_system_scheduler_init s =
     s\<lparr>lock_nest := 0,
       lists := (\<lambda>l. case l of ReadyL p \<Rightarrow> if p < 32 then [] else lists s l
                             | DefunctL \<Rightarrow> [] | _ \<Rightarrow> lists s l),
       ready_group := 0\<rparr>"

text \<open>\<open>None\<close> is the dereference of an empty list head's neighbour (no thread is ready).\<close>

definition get_highest_priority_thread :: "kernel \<Rightarrow> (tid \<times> nat) option" where
  "get_highest_priority_thread s =
     (let p = rt_ffs (ready_group s) in
      if p = 0 then None
      else case lists s (ReadyL (p - 1)) of [] \<Rightarrow> None | t # _ \<Rightarrow> Some (t, p - 1))"

definition rt_schedule_insert_thread :: "tid \<Rightarrow> kernel \<Rightarrow> kernel" where
  "rt_schedule_insert_thread t s =
     (if cur s = Some t then set_stat t RT_THREAD_RUNNING s
      else
        let s1 = set_stat t RT_THREAD_READY s;
            s2 = list_insert_before (ReadyL (prio s1 t)) t s1
        in s2\<lparr>ready_group := ready_group s2 OR t_number_mask (thr s2 t)\<rparr>)"

definition rt_schedule_remove_thread :: "tid \<Rightarrow> kernel \<Rightarrow> kernel" where
  "rt_schedule_remove_thread t s =
     (let s1 = list_remove t s in
      if lists s1 (ReadyL (prio s1 t)) = []
      then s1\<lparr>ready_group := ready_group s1 AND NOT (t_number_mask (thr s1 t))\<rparr>
      else s1)"

datatype stack_state = StackOk | StackWarning | StackOverflow

text \<open>\<^verbatim>\<open>_rt_scheduler_stack_check\<close> (stacks grow down): an overflow spins for ever.\<close>

definition rt_scheduler_stack_check :: "rt_thread \<Rightarrow> stack_state" where
  "rt_scheduler_stack_check th =
     (if t_stack_guard th \<noteq> 35 \<or> t_sp th \<le> t_stack_addr th \<or>
         t_sp th > t_stack_addr th + t_stack_size th then StackOverflow
      else if t_sp th \<le> t_stack_addr th + 32 then StackWarning
      else StackOk)"

definition rt_system_scheduler_start :: "kernel \<Rightarrow> kernel" where
  "rt_system_scheduler_start s =
     (case get_highest_priority_thread s of
        None \<Rightarrow> fail s
      | Some (t, _) \<Rightarrow>
          upd_thr t (\<lambda>th. th\<lparr>t_stat := RT_THREAD_RUNNING\<rparr>)
            (rt_schedule_remove_thread t (s\<lparr>cur := Some t\<rparr>)))"

definition rt_schedule :: "kernel \<Rightarrow> kernel" where
  "rt_schedule s =
     (if lock_nest s = 0 \<and> ready_group s \<noteq> 0 then
        (case (get_highest_priority_thread s, cur s) of
           (Some (to0, hp), Some c) \<Rightarrow>
             let running = statm s c = RT_THREAD_RUNNING;
                 keep = running \<and> prio s c < hp;
                 to_thread = (if keep then c else to0);
                 need_insert_from_thread = running \<and> \<not> keep
             in if to_thread \<noteq> c then
                  let s1 = s\<lparr>cur_priority := word_of_nat hp, cur := Some to_thread\<rparr>;
                      s2 = (if need_insert_from_thread then rt_schedule_insert_thread c s1 else s1);
                      s3 = rt_schedule_remove_thread to_thread s2;
                      s4 = set_stat to_thread RT_THREAD_RUNNING s3
                  in if rt_scheduler_stack_check (thr s4 to_thread) = StackOverflow then fail s4 else s4
                else set_stat c RT_THREAD_RUNNING (rt_schedule_remove_thread c s)
         | _ \<Rightarrow> fail s)
      else s)"

definition rt_enter_critical :: "kernel \<Rightarrow> kernel" where
  "rt_enter_critical s = s\<lparr>lock_nest := lock_nest s + 1\<rparr>"

definition rt_exit_critical :: "kernel \<Rightarrow> kernel" where
  "rt_exit_critical s =
     (let s1 = s\<lparr>lock_nest := lock_nest s - 1\<rparr> in
      if sint (lock_nest s1) \<le> 0 then
        let s2 = s1\<lparr>lock_nest := 0\<rparr>
        in if cur s2 \<noteq> None then rt_schedule s2 else s2
      else s1)"

section \<open>The invariant\<close>

fun wait_list :: "listid \<Rightarrow> bool" where
  "wait_list (ReadyL p) = False"
| "wait_list DefunctL = False"
| "wait_list _ = True"

definition thread_ok :: "kernel \<Rightarrow> tid \<Rightarrow> bool" where
  "thread_ok s t \<longleftrightarrow>
     prio s t < 32 \<and> t_number_mask (thr s t) = push_bit (prio s t) 1 \<and>
     rt_object_get_type (t_type (thr s t)) = RT_Object_Class_Thread \<and>
     rt_object_get_type (tm_type (timers s (ThreadTimer t))) = RT_Object_Class_Timer \<and>
     rt_object_is_systemobject (tm_type (timers s (ThreadTimer t))) \<and>
     rt_scheduler_stack_check (thr s t) \<noteq> StackOverflow"

definition lists_ok :: "kernel \<Rightarrow> bool" where
  "lists_ok s \<longleftrightarrow> (\<forall>l. distinct (lists s l)) \<and>
     (\<forall>l l' t. t \<in> set (lists s l) \<longrightarrow> t \<in> set (lists s l') \<longrightarrow> l = l')"

definition members_ok :: "kernel \<Rightarrow> bool" where
  "members_ok s \<longleftrightarrow>
     (\<forall>p t. t \<in> set (lists s (ReadyL p)) \<longrightarrow> statm s t = RT_THREAD_READY \<and> prio s t = p) \<and>
     (\<forall>l t. wait_list l \<longrightarrow> t \<in> set (lists s l) \<longrightarrow> statm s t = RT_THREAD_SUSPEND) \<and>
     (\<forall>t. t \<in> set (lists s DefunctL) \<longrightarrow> statm s t = RT_THREAD_CLOSE)"

definition bits_ok :: "kernel \<Rightarrow> bool" where
  "bits_ok s \<longleftrightarrow> (\<forall>p < 32. bit (ready_group s) p \<longleftrightarrow> lists s (ReadyL p) \<noteq> [])"

definition timers_ok :: "kernel \<Rightarrow> bool" where
  "timers_ok s \<longleftrightarrow> distinct (timer_list s) \<and>
     (\<forall>t. ThreadTimer t \<in> set (timer_list s) \<longrightarrow> statm s t = RT_THREAD_SUSPEND \<and>
        tm_flag (timers s (ThreadTimer t)) AND RT_TIMER_FLAG_ACTIVATED \<noteq> 0)"

definition detached :: "kernel \<Rightarrow> tid \<Rightarrow> bool" where
  "detached s t \<longleftrightarrow> (\<forall>l. t \<notin> set (lists s l))"

definition live :: "u8 \<Rightarrow> bool" where
  "live st \<longleftrightarrow> st = RT_THREAD_READY \<or> st = RT_THREAD_SUSPEND \<or> st = RT_THREAD_RUNNING"

definition kbase :: "tid set \<Rightarrow> kernel \<Rightarrow> bool" where
  "kbase X s \<longleftrightarrow> lists_ok s \<and> members_ok s \<and> bits_ok s \<and> timers_ok s \<and>
     (\<forall>t \<in> X. detached s t) \<and>
     (\<forall>t. t \<notin> X \<longrightarrow> statm s t = RT_THREAD_READY \<longrightarrow> t \<in> set (lists s (ReadyL (prio s t)))) \<and>
     (\<forall>t. live (statm s t) \<longrightarrow> thread_ok s t)"

definition kcur :: "kernel \<Rightarrow> bool" where
  "kcur s \<longleftrightarrow> (\<forall>t. statm s t = RT_THREAD_RUNNING \<longrightarrow> cur s = Some t) \<and>
     (\<forall>t p. cur s = Some t \<longrightarrow> t \<notin> set (lists s (ReadyL p)))"

definition kinv :: "kernel \<Rightarrow> bool" where
  "kinv s \<longleftrightarrow> kbase {} s \<and> kcur s"


section \<open>Frame rules\<close>

text \<open>What the elementary updates leave alone.\<close>

named_theorems kframe "projections of elementary updates"

lemma set_stat_sel [kframe]:
  "lists (set_stat t v s) = lists s" "ready_group (set_stat t v s) = ready_group s"
  "timers (set_stat t v s) = timers s" "timer_list (set_stat t v s) = timer_list s"
  "cur (set_stat t v s) = cur s" "prio (set_stat t v s) u = prio s u"
  "t_number_mask (thr (set_stat t v s) u) = t_number_mask (thr s u)"
  "thread_ok (set_stat t v s) u = thread_ok s u"
  "lock_nest (set_stat t v s) = lock_nest s" "stuck (set_stat t v s) = stuck s"
  by (auto simp: set_stat_def upd_thr_def prio_def thread_ok_def rt_scheduler_stack_check_def)

lemma statm_set_stat [kframe]:
  "v AND 15 = v \<Longrightarrow> statm (set_stat t v s) u = (if u = t then v else statm s u)"
  by (simp add: set_stat_def upd_thr_def statm_def)

lemma list_remove_sel [kframe]:
  "lists (list_remove t s) l = removeAll t (lists s l)"
  "ready_group (list_remove t s) = ready_group s" "timers (list_remove t s) = timers s"
  "timer_list (list_remove t s) = timer_list s" "thr (list_remove t s) = thr s"
  "cur (list_remove t s) = cur s" "statm (list_remove t s) = statm s" "prio (list_remove t s) = prio s"
  "thread_ok (list_remove t s) = thread_ok s"
  "lock_nest (list_remove t s) = lock_nest s" "stuck (list_remove t s) = stuck s"
  by (simp_all add: list_remove_def statm_def prio_def thread_ok_def fun_eq_iff)

lemma list_insert_before_sel [kframe]:
  "lists (list_insert_before l t s) = (lists s)(l := lists s l @ [t])"
  "ready_group (list_insert_before l t s) = ready_group s"
  "timers (list_insert_before l t s) = timers s"
  "timer_list (list_insert_before l t s) = timer_list s" "thr (list_insert_before l t s) = thr s"
  "cur (list_insert_before l t s) = cur s" "statm (list_insert_before l t s) = statm s"
  "prio (list_insert_before l t s) = prio s" "thread_ok (list_insert_before l t s) = thread_ok s"
  "lock_nest (list_insert_before l t s) = lock_nest s" "stuck (list_insert_before l t s) = stuck s"
  by (simp_all add: list_insert_before_def statm_def prio_def thread_ok_def fun_eq_iff)

text \<open>Changing the priority bitmap or fields of other components.\<close>

lemma record_sel [kframe]:
  "statm (s\<lparr>ready_group := g\<rparr>) = statm s" "prio (s\<lparr>ready_group := g\<rparr>) = prio s"
  "thread_ok (s\<lparr>ready_group := g\<rparr>) = thread_ok s"
  "statm (s\<lparr>cur := c\<rparr>) = statm s" "prio (s\<lparr>cur := c\<rparr>) = prio s"
  "thread_ok (s\<lparr>cur := c\<rparr>) = thread_ok s"
  "statm (s\<lparr>cur_priority := cp\<rparr>) = statm s" "prio (s\<lparr>cur_priority := cp\<rparr>) = prio s"
  "thread_ok (s\<lparr>cur_priority := cp\<rparr>) = thread_ok s"
  "statm (s\<lparr>lists := ls\<rparr>) = statm s" "prio (s\<lparr>lists := ls\<rparr>) = prio s"
  "thread_ok (s\<lparr>lists := ls\<rparr>) = thread_ok s"
  by (simp_all add: statm_def prio_def thread_ok_def fun_eq_iff)

lemmas kbase_parts = lists_ok_def members_ok_def bits_ok_def timers_ok_def detached_def

lemma kbase_frame:
  assumes "lists s' = lists s" "ready_group s' = ready_group s" "timer_list s' = timer_list s"
    "timers s' = timers s" "statm s' = statm s" "prio s' = prio s" "thread_ok s' = thread_ok s"
  shows "kbase X s' \<longleftrightarrow> kbase X s"
  using assms by (simp add: kbase_def kbase_parts)

lemma kinv_frame:
  assumes "lists s' = lists s" "ready_group s' = ready_group s" "timer_list s' = timer_list s"
    "timers s' = timers s" "statm s' = statm s" "prio s' = prio s" "thread_ok s' = thread_ok s"
    "cur s' = cur s"
  shows "kinv s' \<longleftrightarrow> kinv s"
  using assms kbase_frame[of s' s "{}"] by (simp add: kinv_def kcur_def)

text \<open>Updates of a thread that touch none of the fields the scheduler looks at.\<close>

definition neutral :: "(rt_thread \<Rightarrow> rt_thread) \<Rightarrow> bool" where
  "neutral f \<longleftrightarrow> (\<forall>th. t_stat (f th) = t_stat th \<and>
     t_current_priority (f th) = t_current_priority th \<and> t_number_mask (f th) = t_number_mask th \<and>
     t_type (f th) = t_type th \<and> t_stack_guard (f th) = t_stack_guard th \<and> t_sp (f th) = t_sp th \<and>
     t_stack_addr (f th) = t_stack_addr th \<and> t_stack_size (f th) = t_stack_size th)"

lemma upd_thr_sel [kframe]:
  "lists (upd_thr t f s) = lists s" "ready_group (upd_thr t f s) = ready_group s"
  "timers (upd_thr t f s) = timers s" "timer_list (upd_thr t f s) = timer_list s"
  "cur (upd_thr t f s) = cur s" "lock_nest (upd_thr t f s) = lock_nest s"
  "stuck (upd_thr t f s) = stuck s"
  by (simp_all add: upd_thr_def)

lemma upd_thr_neutral [kframe]:
  assumes "neutral f"
  shows "statm (upd_thr t f s) = statm s" "prio (upd_thr t f s) = prio s"
    "thread_ok (upd_thr t f s) = thread_ok s"
  using assms
  by (auto simp: upd_thr_def neutral_def statm_def prio_def thread_ok_def
      rt_scheduler_stack_check_def fun_eq_iff)

lemma kinv_upd_thr: "neutral f \<Longrightarrow> kinv (upd_thr t f s) \<longleftrightarrow> kinv s"
  by (rule kinv_frame) (simp_all add: kframe)

lemma kbase_upd_thr: "neutral f \<Longrightarrow> kbase X (upd_thr t f s) \<longleftrightarrow> kbase X s"
  by (rule kbase_frame) (simp_all add: kframe)

section \<open>Elementary steps keep the base invariant\<close>

lemma bit_prio_mask: "bit (2 ^ p :: u32) q \<longleftrightarrow> p = q \<and> q < 32"
  by (auto simp: bit_exp_iff)

lemma bit_clear_mask:
  "q < 32 \<Longrightarrow> bit (g AND NOT (2 ^ p) :: u32) q \<longleftrightarrow> bit g q \<and> p \<noteq> q"
  by (auto simp: bit_and_iff bit_not_iff bit_exp_iff)

lemma bit_set_mask: "q < 32 \<Longrightarrow> bit (g OR 2 ^ p :: u32) q \<longleftrightarrow> bit g q \<or> p = q"
  by (auto simp: bit_or_iff bit_exp_iff)

lemma kbaseD:
  assumes "kbase X s"
  shows "lists_ok s" "members_ok s" "bits_ok s" "timers_ok s"
    "\<And>t. t \<in> X \<Longrightarrow> detached s t"
    "\<And>t. t \<notin> X \<Longrightarrow> statm s t = RT_THREAD_READY \<Longrightarrow> t \<in> set (lists s (ReadyL (prio s t)))"
    "\<And>t. live (statm s t) \<Longrightarrow> thread_ok s t"
  using assms by (auto simp: kbase_def)

lemma remove_thread_sel:
  "lists (rt_schedule_remove_thread t s) l = removeAll t (lists s l)"
  "timers (rt_schedule_remove_thread t s) = timers s"
  "timer_list (rt_schedule_remove_thread t s) = timer_list s"
  "thr (rt_schedule_remove_thread t s) = thr s" "cur (rt_schedule_remove_thread t s) = cur s"
  "statm (rt_schedule_remove_thread t s) = statm s"
  "prio (rt_schedule_remove_thread t s) = prio s"
  "thread_ok (rt_schedule_remove_thread t s) = thread_ok s"
  "lock_nest (rt_schedule_remove_thread t s) = lock_nest s"
  "stuck (rt_schedule_remove_thread t s) = stuck s"
  by (simp_all add: rt_schedule_remove_thread_def Let_def kframe)

declare remove_thread_sel [kframe]

lemma removeAll_members_ok: "members_ok s \<Longrightarrow> members_ok (list_remove t s)"
  by (auto simp: members_ok_def kframe)

lemma remove_thread_bits:
  assumes "members_ok s" "bits_ok s" "thread_ok s t"
  shows "bits_ok (rt_schedule_remove_thread t s)"
proof -
  have other: "removeAll t (lists s (ReadyL q)) = lists s (ReadyL q)" if "q \<noteq> prio s t" for q
    using assms(1) that by (intro removeAll_id_if_notin) (auto simp: members_ok_def)
  have m: "t_number_mask (thr s t) = 2 ^ prio s t" using assms(3) by (simp add: thread_ok_def)
  have ne: "lists s (ReadyL p) \<noteq> []" if "removeAll t (lists s (ReadyL p)) \<noteq> []" for p
    using that by auto
  show ?thesis
  proof (cases "removeAll t (lists s (ReadyL (prio s t))) = []")
    case True
    show ?thesis
      unfolding bits_ok_def
    proof (intro allI impI)
      fix q :: nat assume q: "q < 32"
      show "bit (ready_group (rt_schedule_remove_thread t s)) q \<longleftrightarrow>
        lists (rt_schedule_remove_thread t s) (ReadyL q) \<noteq> []"
        using True assms(2) q other[of q] m
        by (cases "q = prio s t")
          (simp_all add: rt_schedule_remove_thread_def Let_def kframe bit_clear_mask bits_ok_def)
    qed
  next
    case False
    show ?thesis
      unfolding bits_ok_def
    proof (intro allI impI)
      fix q :: nat assume q: "q < 32"
      show "bit (ready_group (rt_schedule_remove_thread t s)) q \<longleftrightarrow>
        lists (rt_schedule_remove_thread t s) (ReadyL q) \<noteq> []"
        using False assms(2) q other[of q] ne[of q]
        by (cases "q = prio s t") (simp_all add: rt_schedule_remove_thread_def Let_def kframe bits_ok_def)
    qed
  qed
qed

lemma kbase_remove_thread:
  assumes "kbase X s" "thread_ok s t"
  shows "kbase (insert t X) (rt_schedule_remove_thread t s)"
proof -
  note k = kbaseD[OF assms(1)]
  let ?s = "rt_schedule_remove_thread t s"
  have "lists_ok ?s" using k(1) by (auto simp: lists_ok_def kframe distinct_removeAll)
  moreover have "members_ok ?s" using k(2) by (auto simp: members_ok_def kframe)
  moreover have "timers_ok ?s" using k(4) by (simp add: timers_ok_def kframe)
  moreover note remove_thread_bits[OF k(2,3) assms(2)]
  ultimately show ?thesis using k(5,6,7) by (auto simp: kbase_def kframe detached_def)
qed

text \<open>A detached thread gets a new state that needs no list.\<close>

lemma kbase_set_stat:
  assumes "kbase (insert t X) s" "thread_ok s t" "v = RT_THREAD_SUSPEND \<or> v = RT_THREAD_RUNNING"
    and "v = RT_THREAD_RUNNING \<longrightarrow> ThreadTimer t \<notin> set (timer_list s)"
  shows "kbase X (set_stat t v s)"
proof -
  note k = kbaseD[OF assms(1)]
  have v: "v AND 15 = v" "v \<noteq> RT_THREAD_READY" using assms(3) by auto
  have d: "t \<notin> set (lists s l)" for l using k(5)[of t] by (simp add: detached_def)
  have st: "statm (set_stat t v s) u = (if u = t then v else statm s u)" for u
    using statm_set_stat[OF v(1)] .
  have "members_ok (set_stat t v s)" using k(2) d by (auto simp: members_ok_def kframe st)
  moreover have "timers_ok (set_stat t v s)"
    using k(4) assms(3,4) by (auto simp: timers_ok_def kframe st)
  ultimately show ?thesis using k(1,3,5,6,7) assms(2) v(2)
    by (auto simp: kbase_def kframe st lists_ok_def bits_ok_def detached_def)
qed

text \<open>A detached thread is appended to the ready list of its priority.\<close>

lemma kbase_insert_ready:
  assumes "kbase (insert t X) s" "thread_ok s t" "ThreadTimer t \<notin> set (timer_list s)"
    "cur s \<noteq> Some t" "t \<notin> X"
  shows "kbase X (rt_schedule_insert_thread t s)"
proof -
  note k = kbaseD[OF assms(1)]
  let ?s = "rt_schedule_insert_thread t s"
  have d: "t \<notin> set (lists s l)" for l using k(5)[of t] by (simp add: detached_def)
  have st: "statm ?s u = (if u = t then RT_THREAD_READY else statm s u)" for u
    using assms(4) by (simp add: rt_schedule_insert_thread_def Let_def kframe)
  have m: "t_number_mask (thr s t) = 2 ^ prio s t" using assms(2) by (simp add: thread_ok_def)
  have sel: "lists ?s = (lists s)(ReadyL (prio s t) := lists s (ReadyL (prio s t)) @ [t])"
    "prio ?s = prio s" "thread_ok ?s = thread_ok s" "timers ?s = timers s"
    "timer_list ?s = timer_list s" "ready_group ?s = ready_group s OR 2 ^ prio s t"
    using assms(4) m by (simp_all add: rt_schedule_insert_thread_def Let_def kframe fun_eq_iff)
  have "lists_ok ?s" using k(1) d by (auto simp: lists_ok_def sel)
  moreover have "members_ok ?s" using k(2) d by (auto simp: members_ok_def sel st)
  moreover have "bits_ok ?s" using k(3) by (auto simp: bits_ok_def sel bit_set_mask)
  moreover have "timers_ok ?s" using k(4) assms(3) by (auto simp: timers_ok_def sel st)
  moreover have "u \<in> set (lists ?s (ReadyL (prio s u)))"
    if "u \<notin> X" "statm ?s u = RT_THREAD_READY" for u
    using that k(6)[of u] by (cases "u = t") (auto simp: sel st)
  moreover have "detached ?s u" if "u \<in> X" for u
    using that k(5)[of u] assms(5) by (auto simp: detached_def sel)
  ultimately show ?thesis using k(7) assms(2)
    by (auto simp: kbase_def sel(2,3) st)
qed

section \<open>The choice of the next thread\<close>

lemma get_highest_spec:
  assumes "bits_ok s" "ready_group s \<noteq> 0"
  shows "\<exists>t hp ts. get_highest_priority_thread s = Some (t, hp) \<and> lists s (ReadyL hp) = t # ts \<and>
    hp < 32 \<and> (\<forall>q < hp. lists s (ReadyL q) = [])"
proof -
  let ?p = "rt_ffs (ready_group s)"
  note f = rt_ffs_correct[OF assms(2)]
  then have lt: "?p - 1 < 32" using bit_imp_le_length[of "ready_group s" "?p - 1"] by simp
  with f assms(1) have "lists s (ReadyL (?p - 1)) \<noteq> []" by (simp add: bits_ok_def)
  then obtain t ts where l: "lists s (ReadyL (?p - 1)) = t # ts" by (cases "lists s (ReadyL (?p - 1))") auto
  moreover have "get_highest_priority_thread s = Some (t, ?p - 1)"
    using l f by (simp add: get_highest_priority_thread_def Let_def)
  moreover have "lists s (ReadyL q) = []" if "q < ?p - 1" for q
    using that f assms(1) lt by (auto simp: bits_ok_def)
  ultimately show ?thesis using lt by blast
qed

lemma members_okD:
  assumes "members_ok s" "t \<in> set (lists s l)"
  shows "\<And>p. l = ReadyL p \<Longrightarrow> statm s t = RT_THREAD_READY"
    "\<And>p. l = ReadyL p \<Longrightarrow> prio s t = p"
    "wait_list l \<Longrightarrow> statm s t = RT_THREAD_SUSPEND"
    "l = DefunctL \<Longrightarrow> statm s t = RT_THREAD_CLOSE"
  using assms unfolding members_ok_def by blast+

lemma listid_cases: "wait_list l \<or> l = DefunctL \<or> (\<exists>p. l = ReadyL p)"
  by (cases l) auto

lemma members_stat:
  assumes "members_ok s" "t \<in> set (lists s l)"
  shows "statm s t = RT_THREAD_READY \<or> statm s t = RT_THREAD_SUSPEND \<or> statm s t = RT_THREAD_CLOSE"
  using listid_cases[of l] members_okD[OF assms] by blast

lemma detached_running:
  assumes "kbase X s" "statm s t = RT_THREAD_RUNNING"
  shows "detached s t"
  using members_stat[OF kbaseD(2)[OF assms(1)], of t] assms(2) by (auto simp: detached_def)

lemma kbase_insertX: "kbase X s \<Longrightarrow> detached s t \<Longrightarrow> kbase (insert t X) s"
  by (auto simp: kbase_def)

lemma kbase_cur [simp]: "kbase X (s\<lparr>cur := c\<rparr>) = kbase X s"
  by (rule kbase_frame) (simp_all add: kframe)

lemma kbase_cur_priority [simp]: "kbase X (s\<lparr>cur_priority := c\<rparr>) = kbase X s"
  by (rule kbase_frame) (simp_all add: kframe)

lemma timer_off:
  "kbase X s \<Longrightarrow> statm s t \<noteq> RT_THREAD_SUSPEND \<Longrightarrow> ThreadTimer t \<notin> set (timer_list s)"
  by (auto simp: kbase_def timers_ok_def)

text \<open>The three outcomes of \<open>rt_schedule\<close>, with the state it leaves.\<close>

definition switch_to :: "tid \<Rightarrow> nat \<Rightarrow> tid \<Rightarrow> bool \<Rightarrow> kernel \<Rightarrow> kernel" where
  "switch_to t hp c ins s =
     (let s1 = s\<lparr>cur_priority := word_of_nat hp, cur := Some t\<rparr>;
          s2 = (if ins then rt_schedule_insert_thread c s1 else s1)
      in set_stat t RT_THREAD_RUNNING (rt_schedule_remove_thread t s2))"

lemma insert_thread_sel:
  "cur s \<noteq> Some t \<Longrightarrow> statm (rt_schedule_insert_thread t s) u =
    (if u = t then RT_THREAD_READY else statm s u)"
  "prio (rt_schedule_insert_thread t s) = prio s"
  "thread_ok (rt_schedule_insert_thread t s) = thread_ok s"
  "timers (rt_schedule_insert_thread t s) = timers s"
  "timer_list (rt_schedule_insert_thread t s) = timer_list s"
  "cur (rt_schedule_insert_thread t s) = cur s"
  "lock_nest (rt_schedule_insert_thread t s) = lock_nest s"
  "stuck (rt_schedule_insert_thread t s) = stuck s"
  "cur s \<noteq> Some t \<Longrightarrow> lists (rt_schedule_insert_thread t s) =
    (lists s)(ReadyL (prio s t) := lists s (ReadyL (prio s t)) @ [t])"
  by (simp_all add: rt_schedule_insert_thread_def Let_def kframe fun_eq_iff)

lemma switch_to_stat:
  assumes "t \<noteq> c"
  shows "statm (switch_to t hp c ins s) u =
    (if u = t then RT_THREAD_RUNNING else if ins \<and> u = c then RT_THREAD_READY else statm s u)"
    "cur (switch_to t hp c ins s) = Some t" "prio (switch_to t hp c ins s) = prio s"
    "thread_ok (switch_to t hp c ins s) = thread_ok s"
    "stuck (switch_to t hp c ins s) = stuck s" "lock_nest (switch_to t hp c ins s) = lock_nest s"
    "timer_list (switch_to t hp c ins s) = timer_list s"
    "timers (switch_to t hp c ins s) = timers s"
    "lists (switch_to t hp c ins s) l = removeAll t (if ins \<and> l = ReadyL (prio s c)
       then lists s l @ [c] else lists s l)"
  using assms by (simp_all add: switch_to_def Let_def kframe insert_thread_sel fun_eq_iff)

lemma kbase_switch_to:
  assumes "kbase {} s" "t \<noteq> c" "statm s t = RT_THREAD_READY" "ins \<longrightarrow> statm s c = RT_THREAD_RUNNING"
  shows "kbase {} (switch_to t hp c ins s)"
proof -
  define s1 where "s1 = s\<lparr>cur_priority := word_of_nat hp, cur := Some t\<rparr>"
  define s2 where "s2 = (if ins then rt_schedule_insert_thread c s1 else s1)"
  have ok: "thread_ok s t" "ins \<Longrightarrow> thread_ok s c"
    using kbaseD(7)[OF assms(1)] assms(3,4) by (auto simp: live_def)
  have k1: "kbase {} s1" using assms(1) by (simp add: s1_def)
  have k2: "kbase {} s2"
  proof (cases ins)
    case True
    then have r: "statm s1 c = RT_THREAD_RUNNING" using assms(4) by (simp add: s1_def kframe)
    have "kbase {} (rt_schedule_insert_thread c s1)"
      by (rule kbase_insert_ready)
        (use kbase_insertX[OF k1 detached_running[OF k1 r]] timer_off[OF k1] r ok(2) True assms(2)
          in \<open>auto simp: s1_def kframe\<close>)
    with True show ?thesis by (simp add: s2_def)
  qed (use k1 s2_def in auto)
  have ok2: "thread_ok s2 t" using ok(1) by (simp add: s2_def s1_def kframe insert_thread_sel)
  have "ThreadTimer t \<notin> set (timer_list s2)"
    using timer_off[OF assms(1)] assms(3) by (simp add: s2_def s1_def insert_thread_sel)
  then have "kbase {} (set_stat t RT_THREAD_RUNNING (rt_schedule_remove_thread t s2))"
    by (intro kbase_set_stat kbase_remove_thread k2 ok2) (use ok2 in \<open>simp_all add: kframe\<close>)
  then show ?thesis unfolding switch_to_def Let_def s1_def[symmetric] s2_def[symmetric] .
qed

lemma kcur_switch_to:
  assumes "kbase {} s" "kcur s" "cur s = Some c" "t \<noteq> c" "ins \<longleftrightarrow> statm s c = RT_THREAD_RUNNING"
  shows "kcur (switch_to t hp c ins s)"
proof -
  have run: "u = c" if "statm s u = RT_THREAD_RUNNING" for u
    using assms(2,3) that unfolding kcur_def by (metis option.inject)
  have ut: "u = t" if "statm (switch_to t hp c ins s) u = RT_THREAD_RUNNING" for u
  proof (rule ccontr)
    assume "u \<noteq> t"
    then have "\<not> (ins \<and> u = c)" "statm s u = RT_THREAD_RUNNING"
      using that by (simp_all only: switch_to_stat(1)[OF assms(4)] if_False split: if_splits) simp_all
    with run[of u] assms(5) show False by blast
  qed
  show ?thesis
    unfolding kcur_def switch_to_stat(2,9)[OF assms(4)] using ut by fastforce
qed

definition stay :: "tid \<Rightarrow> kernel \<Rightarrow> kernel" where
  "stay c s = set_stat c RT_THREAD_RUNNING (rt_schedule_remove_thread c s)"

lemma kinv_stay:
  assumes "kinv s" "cur s = Some c" "statm s c = RT_THREAD_RUNNING"
  shows "kinv (stay c s)"
proof -
  have k: "kbase {} s" and kc: "kcur s" using assms(1) by (simp_all add: kinv_def)
  have ok: "thread_ok s c" using kbaseD(7)[OF k] assms(3) by (simp add: live_def)
  have "kbase {} (stay c s)"
    unfolding stay_def using timer_off[OF k, of c] assms(3)
    by (intro kbase_set_stat kbase_remove_thread k ok) (use ok in \<open>simp_all add: kframe\<close>)
  moreover have "kcur (stay c s)"
    using kc assms(2) by (auto simp: stay_def kcur_def kframe)
  ultimately show ?thesis by (simp add: kinv_def)
qed

lemma rt_schedule_cases:
  assumes "kinv s" "cur s = Some c"
  obtains (idle) "lock_nest s \<noteq> 0 \<or> ready_group s = 0" "rt_schedule s = s"
  | (keep) hp t ts where "lock_nest s = 0" "lists s (ReadyL hp) = t # ts" "hp < 32"
      "\<forall>q < hp. lists s (ReadyL q) = []" "statm s c = RT_THREAD_RUNNING" "prio s c < hp"
      "rt_schedule s = stay c s"
  | (switch) hp t ts where "lock_nest s = 0" "lists s (ReadyL hp) = t # ts" "hp < 32"
      "\<forall>q < hp. lists s (ReadyL q) = []" "t \<noteq> c" "statm s t = RT_THREAD_READY" "prio s t = hp"
      "statm s c = RT_THREAD_RUNNING \<Longrightarrow> hp \<le> prio s c"
      "rt_schedule s = switch_to t hp c (statm s c = RT_THREAD_RUNNING) s"
proof (cases "lock_nest s = 0 \<and> ready_group s \<noteq> 0")
  case False
  with idle show ?thesis by (auto simp: rt_schedule_def)
next
  case True
  have k: "kbase {} s" and kc: "kcur s" using assms(1) by (simp_all add: kinv_def)
  from get_highest_spec[OF kbaseD(3)[OF k]] True obtain t hp ts where
    g: "get_highest_priority_thread s = Some (t, hp)" "lists s (ReadyL hp) = t # ts" "hp < 32"
      "\<forall>q < hp. lists s (ReadyL q) = []" by auto
  have tr: "statm s t = RT_THREAD_READY" "prio s t = hp"
    using members_okD(1,2)[OF kbaseD(2)[OF k], of t "ReadyL hp" hp] g(2) by simp_all
  have tc: "t \<noteq> c" using kc assms(2) g(2) unfolding kcur_def by (metis list.set_intros(1))
  show ?thesis
  proof (cases "statm s c = RT_THREAD_RUNNING \<and> prio s c < hp")
    case run: True
    with True g assms(2) have "rt_schedule s = stay c s"
      by (simp add: rt_schedule_def Let_def stay_def)
    with keep[of hp t ts] g True run show ?thesis by blast
  next
    case False
    have ok: "thread_ok s t" using kbaseD(7)[OF k] tr by (simp add: live_def)
    then have so: "rt_scheduler_stack_check (thr (switch_to t hp c (statm s c = RT_THREAD_RUNNING) s) t)
        \<noteq> StackOverflow"
      using switch_to_stat(4)[OF tc, of hp "statm s c = RT_THREAD_RUNNING" s]
      by (metis thread_ok_def)
    have "rt_schedule s = switch_to t hp c (statm s c = RT_THREAD_RUNNING) s"
      using True g(1) assms(2) False tc so
      by (auto simp: rt_schedule_def Let_def switch_to_def)
    with switch[of hp t ts] g True False tr tc show ?thesis by auto
  qed
qed

theorem rt_schedule_kinv:
  assumes "kinv s" "cur s = Some c"
  shows "kinv (rt_schedule s)"
  using assms
proof (cases rule: rt_schedule_cases)
  case idle
  with assms show ?thesis by simp
next
  case keep
  with kinv_stay[OF assms] show ?thesis by simp
next
  case (switch hp t ts)
  have k: "kbase {} s" and kc: "kcur s" using assms(1) by (simp_all add: kinv_def)
  show ?thesis
    unfolding switch(9) kinv_def
    using kbase_switch_to[OF k switch(5,6)] kcur_switch_to[OF k kc assms(2) switch(5)] by simp
qed

lemma rt_schedule_sel:
  assumes "kinv s" "cur s = Some c"
  shows "stuck (rt_schedule s) = stuck s" "cur (rt_schedule s) \<noteq> None"
    "timer_list (rt_schedule s) = timer_list s" "timers (rt_schedule s) = timers s"
    "lock_nest (rt_schedule s) = lock_nest s" "prio (rt_schedule s) = prio s"
    "thread_ok (rt_schedule s) = thread_ok s"
  using assms
  by (cases rule: rt_schedule_cases;
      simp add: switch_to_stat stay_def kframe fun_eq_iff)+

text \<open>After a pass of the scheduler the running thread has the best priority among the ready ones.\<close>

lemma rt_schedule_best:
  assumes "kinv s" "cur s = Some c" "lock_nest s = 0"
    and "statm s c = RT_THREAD_RUNNING \<or> ready_group s \<noteq> 0"
  shows "\<exists>t. cur (rt_schedule s) = Some t \<and> statm (rt_schedule s) t = RT_THREAD_RUNNING \<and>
    (\<forall>u. statm (rt_schedule s) u = RT_THREAD_READY \<longrightarrow> prio (rt_schedule s) t \<le> prio (rt_schedule s) u)"
proof -
  have k: "kbase {} s" and kc: "kcur s" using assms(1) by (simp_all add: kinv_def)
  have rdy: "u \<in> set (lists s (ReadyL (prio s u)))" "prio s u < 32"
    if "statm s u = RT_THREAD_READY" for u
    using that kbaseD(6,7)[OF k, of u] by (auto simp: live_def thread_ok_def)
  have ge: "hp \<le> prio s u" if "\<forall>q < hp. lists s (ReadyL q) = []" "statm s u = RT_THREAD_READY" for u hp
    using that rdy[of u] by (metis empty_iff empty_set not_less)
  from assms(1,2) show ?thesis
  proof (cases rule: rt_schedule_cases)
    case idle
    then have g0: "ready_group s = 0" "statm s c = RT_THREAD_RUNNING" using assms(3,4) by auto
    have "statm s u \<noteq> RT_THREAD_READY" for u
      using rdy[of u] g0 kbaseD(3)[OF k] by (auto simp: bits_ok_def)
    with g0 idle assms(2) show ?thesis by auto
  next
    case (keep hp t ts)
    have "statm (stay c s) u = statm s u" for u using keep(5) by (simp add: stay_def kframe)
    with keep ge[OF keep(4)] assms(2) show ?thesis
      by (auto simp: stay_def kframe intro: less_imp_le less_le_trans)
  next
    case (switch hp t ts)
    with ge[OF switch(4)] show ?thesis by (auto simp: switch_to_stat)
  qed
qed

end
