(* ===== verification/Thread.thy ===== *)
theory Thread
  imports Scheduler
begin

text \<open>
  The thread operations of \<^verbatim>\<open>rt-thread/src/thread.c\<close> and the initial stack of
  \<^verbatim>\<open>libcpu/arm/cortex-m3/cpuport.c\<close>. A failed \<^verbatim>\<open>RT_ASSERT\<close> returns the state marked \<open>stuck\<close>. The entry
  function, its parameter, the name and the cleanup function are not part of the state; of the stack
  the model keeps its bounds, the saved stack pointer and the byte at its end that the overflow check
  reads. A blocking call is cut where it calls \<^verbatim>\<open>rt_schedule\<close>: what the thread does when it runs again is
  a definition of its own.
\<close>

section \<open>Operations\<close>

text \<open>The stack frame of 16 words lies below the aligned end of the stack.\<close>

definition rt_hw_stack_init :: "u32 \<Rightarrow> u32" where
  "rt_hw_stack_init stack_addr = ((stack_addr + 4) AND NOT 7) - 64"

definition thread_init_fields :: "u32 \<Rightarrow> u32 \<Rightarrow> u8 \<Rightarrow> u32 \<Rightarrow> rt_thread \<Rightarrow> rt_thread" where
  "thread_init_fields stack_start stack_size priority tck th =
     th\<lparr>t_stack_addr := stack_start, t_stack_size := stack_size,
        t_stack_guard := (if stack_size = 0 then t_stack_guard th else 35),
        t_sp := rt_hw_stack_init (stack_start + stack_size - 4),
        t_init_priority := priority, t_current_priority := priority, t_number_mask := 0,
        t_init_tick := tck, t_remaining_tick := tck, t_error := RT_EOK, t_stat := RT_THREAD_INIT,
        t_cleanup := False\<rparr>"

text \<open>\<^verbatim>\<open>_rt_thread_init\<close>; a thread whose priority is out of range stops at the assertion.\<close>

definition thread_init_common :: "tid \<Rightarrow> u32 \<Rightarrow> u32 \<Rightarrow> u8 \<Rightarrow> u32 \<Rightarrow> kernel \<Rightarrow> int \<times> kernel" where
  "thread_init_common t stack_start stack_size priority tck s =
     (if \<not> priority < 32 then (-RT_ERROR, fail s)
      else (RT_EOK, rt_timer_init (ThreadTimer t) 0 0
              (upd_thr t (thread_init_fields stack_start stack_size priority tck) s)))"

definition rt_thread_init :: "tid \<Rightarrow> u32 \<Rightarrow> u32 \<Rightarrow> u8 \<Rightarrow> u32 \<Rightarrow> kernel \<Rightarrow> int \<times> kernel" where
  "rt_thread_init t stack_start stack_size priority tck s =
     (if stack_start = 0 then (-RT_ERROR, fail s)
      else thread_init_common t stack_start stack_size priority tck
             (upd_thr t (\<lambda>th. th\<lparr>t_type := RT_Object_Class_Thread OR RT_Object_Class_Static\<rparr>) s))"

definition rt_thread_self :: "kernel \<Rightarrow> tid option" where
  "rt_thread_self s = cur s"

definition rt_thread_suspend :: "tid \<Rightarrow> kernel \<Rightarrow> int \<times> kernel" where
  "rt_thread_suspend t s =
     (if rt_object_get_type (t_type (thr s t)) \<noteq> RT_Object_Class_Thread then (-RT_ERROR, fail s)
      else if statm s t \<noteq> RT_THREAD_READY \<and> statm s t \<noteq> RT_THREAD_RUNNING then (-RT_ERROR, s)
      else if statm s t = RT_THREAD_RUNNING \<and> rt_thread_self s \<noteq> Some t then (-RT_ERROR, fail s)
      else
        let s1 = rt_schedule_remove_thread t s;
            s2 = set_stat t RT_THREAD_SUSPEND s1
        in (RT_EOK, snd (rt_timer_stop (ThreadTimer t) s2)))"

definition rt_thread_resume :: "tid \<Rightarrow> kernel \<Rightarrow> int \<times> kernel" where
  "rt_thread_resume t s =
     (if rt_object_get_type (t_type (thr s t)) \<noteq> RT_Object_Class_Thread then (-RT_ERROR, fail s)
      else if statm s t \<noteq> RT_THREAD_SUSPEND then (-RT_ERROR, s)
      else
        let s1 = list_remove t s;
            s2 = snd (rt_timer_stop (ThreadTimer t) s1)
        in (RT_EOK, rt_schedule_insert_thread t s2))"

definition rt_thread_startup :: "tid \<Rightarrow> kernel \<Rightarrow> int \<times> kernel" where
  "rt_thread_startup t s =
     (if statm s t \<noteq> RT_THREAD_INIT then (-RT_ERROR, fail s)
      else if rt_object_get_type (t_type (thr s t)) \<noteq> RT_Object_Class_Thread then (-RT_ERROR, fail s)
      else
        let s1 = upd_thr t (\<lambda>th. th\<lparr>t_current_priority := t_init_priority th\<rparr>) s;
            s2 = upd_thr t (\<lambda>th. th\<lparr>t_number_mask := push_bit (unat (t_current_priority th)) 1\<rparr>) s1;
            s3 = upd_thr t (\<lambda>th. th\<lparr>t_stat := RT_THREAD_SUSPEND\<rparr>) s2;
            s4 = snd (rt_thread_resume t s3)
        in (RT_EOK, if rt_thread_self s4 \<noteq> None then rt_schedule s4 else s4))"

text \<open>The end of \<^verbatim>\<open>rt_thread_exit\<close>, \<^verbatim>\<open>rt_thread_detach\<close> and \<^verbatim>\<open>rt_thread_delete\<close>.\<close>

definition thread_retire :: "tid \<Rightarrow> kernel \<Rightarrow> kernel" where
  "thread_retire t s =
     (let s1 = rt_timer_detach (ThreadTimer t) s;
          s2 = upd_thr t (\<lambda>th. th\<lparr>t_stat := RT_THREAD_CLOSE\<rparr>) s1
      in if rt_object_is_systemobject (t_type (thr s2 t)) \<and> \<not> t_cleanup (thr s2 t)
         then upd_thr t (\<lambda>th. th\<lparr>t_type := 0\<rparr>) s2
         else list_insert_after DefunctL t s2)"

definition rt_thread_exit :: "kernel \<Rightarrow> kernel" where
  "rt_thread_exit s =
     (case rt_thread_self s of
        None \<Rightarrow> fail s
      | Some t \<Rightarrow> rt_schedule (thread_retire t (rt_schedule_remove_thread t s)))"

definition rt_thread_detach :: "tid \<Rightarrow> kernel \<Rightarrow> int \<times> kernel" where
  "rt_thread_detach t s =
     (if rt_object_get_type (t_type (thr s t)) \<noteq> RT_Object_Class_Thread then (-RT_ERROR, fail s)
      else if \<not> rt_object_is_systemobject (t_type (thr s t)) then (-RT_ERROR, fail s)
      else (RT_EOK, thread_retire t
              (if statm s t \<noteq> RT_THREAD_INIT then rt_schedule_remove_thread t s else s)))"

text \<open>
  \<^verbatim>\<open>rt_thread_create\<close>: \<open>obj\<close> and \<open>stack\<close> are the results of the two heap allocations; the new object
  carries the type without the static bit.
\<close>

definition rt_thread_create :: "tid option \<Rightarrow> u32 option \<Rightarrow> u32 \<Rightarrow> u8 \<Rightarrow> u32 \<Rightarrow> kernel \<Rightarrow>
    tid option \<times> kernel" where
  "rt_thread_create obj stack stack_size priority tck s =
     (case obj of
        None \<Rightarrow> (None, s)
      | Some t \<Rightarrow>
          let s1 = upd_thr t (\<lambda>th. th\<lparr>t_type := RT_Object_Class_Thread, t_event_set := 0,
                t_event_info := 0\<rparr>) s
          in (case stack of
                None \<Rightarrow> (None, upd_thr t (\<lambda>th. th\<lparr>t_type := 0\<rparr>) s1)
              | Some a \<Rightarrow> (Some t, snd (thread_init_common t a stack_size priority tck s1))))"

definition rt_thread_delete :: "tid \<Rightarrow> kernel \<Rightarrow> int \<times> kernel" where
  "rt_thread_delete t s =
     (if rt_object_get_type (t_type (thr s t)) \<noteq> RT_Object_Class_Thread then (-RT_ERROR, fail s)
      else if rt_object_is_systemobject (t_type (thr s t)) then (-RT_ERROR, fail s)
      else
        let s1 = (if statm s t \<noteq> RT_THREAD_INIT then rt_schedule_remove_thread t s else s);
            s2 = rt_timer_detach (ThreadTimer t) s1;
            s3 = upd_thr t (\<lambda>th. th\<lparr>t_stat := RT_THREAD_CLOSE\<rparr>) s2
        in (RT_EOK, list_insert_after DefunctL t s3))"

definition rt_thread_yield :: "kernel \<Rightarrow> int \<times> kernel" where
  "rt_thread_yield s = (RT_EOK, rt_schedule s)"

text \<open>\<^verbatim>\<open>rt_thread_sleep\<close> up to the call of the scheduler, and from there on.\<close>

definition rt_thread_sleep :: "u32 \<Rightarrow> kernel \<Rightarrow> kernel" where
  "rt_thread_sleep tck s =
     (case rt_thread_self s of
        None \<Rightarrow> fail s
      | Some t \<Rightarrow>
          if rt_object_get_type (t_type (thr s t)) \<noteq> RT_Object_Class_Thread then fail s
          else rt_schedule (start_thread_timer t tck (snd (rt_thread_suspend t s))))"

definition rt_thread_sleep_return :: "tid \<Rightarrow> kernel \<Rightarrow> int \<times> kernel" where
  "rt_thread_sleep_return t s =
     (RT_EOK, if t_error (thr s t) = -RT_ETIMEOUT then upd_thr t (\<lambda>th. th\<lparr>t_error := RT_EOK\<rparr>) s else s)"

definition rt_thread_delay :: "u32 \<Rightarrow> kernel \<Rightarrow> kernel" where
  "rt_thread_delay tck = rt_thread_sleep tck"

text \<open>\<^verbatim>\<open>rt_thread_control\<close>: command 0 is start-up, 1 close, 2 change of priority.\<close>

definition set_priority :: "tid \<Rightarrow> u8 \<Rightarrow> kernel \<Rightarrow> kernel" where
  "set_priority t p =
     upd_thr t (\<lambda>th. th\<lparr>t_current_priority := p, t_number_mask := push_bit (unat p) 1\<rparr>)"

definition rt_thread_control :: "tid \<Rightarrow> nat \<Rightarrow> u8 \<Rightarrow> kernel \<Rightarrow> int \<times> kernel" where
  "rt_thread_control t cmd arg s =
     (if rt_object_get_type (t_type (thr s t)) \<noteq> RT_Object_Class_Thread then (-RT_ERROR, fail s)
      else if cmd = 2 then
        (RT_EOK,
         if statm s t = RT_THREAD_READY
         then rt_schedule_insert_thread t (set_priority t arg (rt_schedule_remove_thread t s))
         else set_priority t arg s)
      else if cmd = 0 then rt_thread_startup t s
      else if cmd = 1 then rt_thread_delete t s
      else (RT_EOK, s))"

definition rt_thread_timeout :: "tid \<Rightarrow> kernel \<Rightarrow> kernel" where
  "rt_thread_timeout t s =
     (if statm s t \<noteq> RT_THREAD_SUSPEND then fail s
      else if rt_object_get_type (t_type (thr s t)) \<noteq> RT_Object_Class_Thread then fail s
      else
        let s1 = upd_thr t (\<lambda>th. th\<lparr>t_error := -RT_ETIMEOUT\<rparr>) s;
            s2 = list_remove t s1;
            s3 = rt_schedule_insert_thread t s2
        in rt_schedule s3)"

section \<open>Frame rules of the timer operations\<close>

lemma fail_sel [kframe]:
  "lists (fail s) = lists s" "ready_group (fail s) = ready_group s" "timers (fail s) = timers s"
  "timer_list (fail s) = timer_list s" "cur (fail s) = cur s" "thr (fail s) = thr s"
  "statm (fail s) = statm s" "prio (fail s) = prio s" "thread_ok (fail s) = thread_ok s"
  "lock_nest (fail s) = lock_nest s" "stuck (fail s)" "tick (fail s) = tick s"
  by (simp_all add: fail_def statm_def prio_def thread_ok_def fun_eq_iff)

lemma kinv_fail [simp]: "kinv (fail s) = kinv s"
  by (rule kinv_frame) (simp_all add: kframe)

lemma timer_unlink_sel [kframe]:
  "lists (timer_unlink i s) = lists s" "ready_group (timer_unlink i s) = ready_group s"
  "timers (timer_unlink i s) = timers s" "timer_list (timer_unlink i s) = removeAll i (timer_list s)"
  "cur (timer_unlink i s) = cur s" "thr (timer_unlink i s) = thr s"
  "statm (timer_unlink i s) = statm s" "prio (timer_unlink i s) = prio s"
  "thread_ok (timer_unlink i s) = thread_ok s" "lock_nest (timer_unlink i s) = lock_nest s"
  "stuck (timer_unlink i s) = stuck s" "tick (timer_unlink i s) = tick s"
  by (simp_all add: timer_unlink_def statm_def prio_def thread_ok_def fun_eq_iff)

lemma upd_timer_sel [kframe]:
  "lists (upd_timer i f s) = lists s" "ready_group (upd_timer i f s) = ready_group s"
  "timer_list (upd_timer i f s) = timer_list s" "cur (upd_timer i f s) = cur s"
  "thr (upd_timer i f s) = thr s" "statm (upd_timer i f s) = statm s"
  "prio (upd_timer i f s) = prio s" "lock_nest (upd_timer i f s) = lock_nest s"
  "stuck (upd_timer i f s) = stuck s" "tick (upd_timer i f s) = tick s"
  "timers (upd_timer i f s) = (timers s)(i := f (timers s i))"
  by (simp_all add: upd_timer_def statm_def prio_def fun_eq_iff)

lemma thread_ok_upd_timer [kframe]:
  "(\<And>t. tm_type (f t) = tm_type t) \<Longrightarrow> thread_ok (upd_timer i f s) = thread_ok s"
  by (simp add: fun_eq_iff thread_ok_def kframe)

lemma timer_stop_sel [kframe]:
  "lists (snd (rt_timer_stop i s)) = lists s" "ready_group (snd (rt_timer_stop i s)) = ready_group s"
  "cur (snd (rt_timer_stop i s)) = cur s" "thr (snd (rt_timer_stop i s)) = thr s"
  "statm (snd (rt_timer_stop i s)) = statm s" "prio (snd (rt_timer_stop i s)) = prio s"
  "thread_ok (snd (rt_timer_stop i s)) = thread_ok s"
  "lock_nest (snd (rt_timer_stop i s)) = lock_nest s"
  by (simp_all add: rt_timer_stop_def kframe)

lemma timer_stop_stuck [kframe]:
  "rt_object_get_type (tm_type (timers s i)) = RT_Object_Class_Timer \<Longrightarrow>
   stuck (snd (rt_timer_stop i s)) = stuck s"
  by (simp add: rt_timer_stop_def kframe)

lemma kbase_timer_stop: "kbase X s \<Longrightarrow> kbase X (snd (rt_timer_stop i s))"
  by (auto simp: kbase_def lists_ok_def members_ok_def bits_ok_def detached_def kframe timers_ok_def
      rt_timer_stop_def distinct_removeAll)

lemma timer_stop_off:
  assumes "timers_ok s" "thread_ok s t"
  shows "ThreadTimer t \<notin> set (timer_list (snd (rt_timer_stop (ThreadTimer t) s)))"
  using assms by (auto simp: rt_timer_stop_def thread_ok_def timers_ok_def kframe)

lemma timer_stop_others:
  "set (timer_list (snd (rt_timer_stop i s))) \<subseteq> set (timer_list s)"
  by (auto simp: rt_timer_stop_def kframe)

section \<open>The thread operations keep the kernel invariant\<close>

text \<open>Arbitrary changes of a thread that hangs in no list and has no running timer.\<close>

lemma kbase_upd_free:
  assumes "kbase X s" "detached s t" "ThreadTimer t \<notin> set (timer_list s)"
    and "statm (upd_thr t f s) t = RT_THREAD_READY \<Longrightarrow> t \<in> X"
    and "live (statm (upd_thr t f s) t) \<Longrightarrow> thread_ok (upd_thr t f s) t"
  shows "kbase X (upd_thr t f s)"
proof -
  note k = kbaseD[OF assms(1)]
  have o: "statm (upd_thr t f s) u = statm s u" "prio (upd_thr t f s) u = prio s u"
    "thread_ok (upd_thr t f s) u = thread_ok s u" if "u \<noteq> t" for u
    using that by (simp_all add: upd_thr_def statm_def prio_def thread_ok_def)
  have d: "u \<noteq> t" if "u \<in> set (lists s l)" for u l using assms(2) that by (auto simp: detached_def)
  have "members_ok (upd_thr t f s)" using k(2) d by (auto simp: members_ok_def kframe o)
  moreover have "timers_ok (upd_thr t f s)"
    using k(4) assms(3) unfolding timers_ok_def by (metis upd_thr_sel(3,4) o(1))
  moreover have "lists_ok (upd_thr t f s)" "bits_ok (upd_thr t f s)"
    using k(1,3) by (simp_all add: lists_ok_def bits_ok_def kframe)
  moreover have "u \<in> set (lists (upd_thr t f s) (ReadyL (prio (upd_thr t f s) u)))"
    if "u \<notin> X" "statm (upd_thr t f s) u = RT_THREAD_READY" for u
    using that k(6)[of u] assms(4) by (cases "u = t") (auto simp: kframe o)
  moreover have "thread_ok (upd_thr t f s) u" if "live (statm (upd_thr t f s) u)" for u
    using that k(7)[of u] assms(5) by (cases "u = t") (auto simp: o)
  ultimately show ?thesis using k(5) by (simp add: kbase_def detached_def kframe)
qed

lemma kbase_list_remove:
  assumes "kbase X s" "statm s t \<noteq> RT_THREAD_READY"
  shows "kbase (insert t X) (list_remove t s)"
proof -
  note k = kbaseD[OF assms(1)]
  have "removeAll t (lists s (ReadyL p)) = lists s (ReadyL p)" for p
    using members_okD(1)[OF k(2), of t "ReadyL p" p] assms(2) by (intro removeAll_id_if_notin) auto
  then have "bits_ok (list_remove t s)" using k(3) by (simp add: bits_ok_def kframe)
  moreover have "lists_ok (list_remove t s)"
    using k(1) by (auto simp: lists_ok_def kframe distinct_removeAll)
  moreover have "timers_ok (list_remove t s)" using k(4) by (simp add: timers_ok_def kframe)
  ultimately show ?thesis using k(5,6,7) removeAll_members_ok[OF k(2), of t]
    by (auto simp: kbase_def kframe detached_def)
qed

lemma insert_thread_cur:
  "cur s = Some t \<Longrightarrow> rt_schedule_insert_thread t s = set_stat t RT_THREAD_RUNNING s"
  by (simp add: rt_schedule_insert_thread_def)

text \<open>Handing a detached thread to the scheduler.\<close>

lemma kinv_insert_thread:
  assumes "kbase {t} s" "kcur s" "thread_ok s t" "ThreadTimer t \<notin> set (timer_list s)"
  shows "kinv (rt_schedule_insert_thread t s)"
proof (cases "cur s = Some t")
  case True
  have "kbase {} (set_stat t RT_THREAD_RUNNING s)"
    by (rule kbase_set_stat) (use assms in auto)
  moreover have "kcur (set_stat t RT_THREAD_RUNNING s)"
    using assms(2) True by (auto simp: kcur_def kframe)
  ultimately show ?thesis by (simp add: kinv_def insert_thread_cur[OF True])
next
  case False
  have "kbase {} (rt_schedule_insert_thread t s)"
    by (rule kbase_insert_ready) (use assms False in auto)
  moreover have "kcur (rt_schedule_insert_thread t s)"
    using assms(2) False
    by (auto simp: kcur_def insert_thread_sel(1)[OF False] insert_thread_sel(6)
        insert_thread_sel(9)[OF False] split: if_splits)
  ultimately show ?thesis by (simp add: kinv_def)
qed

lemma kinv_partsD: "kinv s \<Longrightarrow> kbase {} s" "kinv s \<Longrightarrow> kcur s"
  by (simp_all add: kinv_def)

lemma suspend_cases:
  obtains (stuck) "snd (rt_thread_suspend t s) = fail s"
  | (disorder) "statm s t \<noteq> RT_THREAD_READY" "statm s t \<noteq> RT_THREAD_RUNNING"
      "rt_thread_suspend t s = (-RT_ERROR, s)"
  | (susp) "statm s t = RT_THREAD_READY \<or> statm s t = RT_THREAD_RUNNING \<and> cur s = Some t"
      "rt_object_get_type (t_type (thr s t)) = RT_Object_Class_Thread"
      "rt_thread_suspend t s = (RT_EOK, snd (rt_timer_stop (ThreadTimer t)
         (set_stat t RT_THREAD_SUSPEND (rt_schedule_remove_thread t s))))"
proof -
  consider "rt_object_get_type (t_type (thr s t)) \<noteq> RT_Object_Class_Thread"
    | "rt_object_get_type (t_type (thr s t)) = RT_Object_Class_Thread"
        "statm s t \<noteq> RT_THREAD_READY" "statm s t \<noteq> RT_THREAD_RUNNING"
    | "rt_object_get_type (t_type (thr s t)) = RT_Object_Class_Thread" "statm s t = RT_THREAD_READY"
    | "rt_object_get_type (t_type (thr s t)) = RT_Object_Class_Thread" "statm s t = RT_THREAD_RUNNING"
        "cur s = Some t"
    | "rt_object_get_type (t_type (thr s t)) = RT_Object_Class_Thread" "statm s t = RT_THREAD_RUNNING"
        "cur s \<noteq> Some t"
    by blast
  then show ?thesis
    by cases
      (use stuck disorder susp in \<open>auto simp: rt_thread_suspend_def rt_thread_self_def Let_def split: if_splits\<close>)
qed

lemma rt_thread_suspend_kinv:
  assumes "kinv s"
  shows "kinv (snd (rt_thread_suspend t s))"
proof (cases rule: suspend_cases[of t s])
  case susp
  let ?s2 = "set_stat t RT_THREAD_SUSPEND (rt_schedule_remove_thread t s)"
  note k = kinv_partsD[OF assms]
  have ok: "thread_ok s t" using kbaseD(7)[OF k(1)] susp(1) by (auto simp: live_def)
  have "kbase {} ?s2"
    by (intro kbase_set_stat kbase_remove_thread k(1) ok) (use ok in \<open>simp_all add: kframe\<close>)
  then have "kbase {} (snd (rt_timer_stop (ThreadTimer t) ?s2))" by (rule kbase_timer_stop)
  moreover have "kcur (snd (rt_timer_stop (ThreadTimer t) ?s2))"
    using k(2) by (auto simp: kcur_def kframe split: if_splits)
  ultimately show ?thesis unfolding susp(3) by (simp add: kinv_def)
qed (use assms in auto)

lemma suspend_sel [kframe]:
  "cur (snd (rt_thread_suspend t s)) = cur s" "prio (snd (rt_thread_suspend t s)) = prio s"
  "thread_ok (snd (rt_thread_suspend t s)) = thread_ok s"
  "lock_nest (snd (rt_thread_suspend t s)) = lock_nest s"
  by (cases rule: suspend_cases[of t s]; simp add: kframe fun_eq_iff)+

lemma kinv_wake:
  assumes "kinv s" "statm s t = RT_THREAD_SUSPEND"
  shows "kinv (rt_schedule_insert_thread t (snd (rt_timer_stop (ThreadTimer t) (list_remove t s))))"
proof -
  note k = kinv_partsD[OF assms(1)]
  have ok: "thread_ok s t" using kbaseD(7)[OF k(1)] assms(2) by (simp add: live_def)
  have b: "kbase {t} (list_remove t s)" by (rule kbase_list_remove[OF k(1)]) (use assms(2) in simp)
  show ?thesis
  proof (rule kinv_insert_thread)
    show "kbase {t} (snd (rt_timer_stop (ThreadTimer t) (list_remove t s)))"
      by (rule kbase_timer_stop[OF b])
    show "kcur (snd (rt_timer_stop (ThreadTimer t) (list_remove t s)))"
      using k(2) by (auto simp: kcur_def kframe)
    show "thread_ok (snd (rt_timer_stop (ThreadTimer t) (list_remove t s))) t"
      using ok by (simp add: kframe)
    show "ThreadTimer t \<notin> set (timer_list (snd (rt_timer_stop (ThreadTimer t) (list_remove t s))))"
      by (rule timer_stop_off[OF kbaseD(4)[OF b]]) (use ok in \<open>simp add: kframe\<close>)
  qed
qed

lemma rt_thread_resume_kinv:
  assumes "kinv s"
  shows "kinv (snd (rt_thread_resume t s))"
  using assms kinv_wake[OF assms, of t] by (simp add: rt_thread_resume_def Let_def)

lemma resume_cur [kframe]: "cur (snd (rt_thread_resume t s)) = cur s"
  by (simp add: rt_thread_resume_def Let_def kframe insert_thread_sel)

text \<open>The timeout function of a thread timer, which has been taken off the timer list.\<close>

lemma neutral_simps [simp]:
  "neutral (\<lambda>th. th\<lparr>t_error := e\<rparr>)" "neutral (\<lambda>th. th\<lparr>t_event_set := v\<rparr>)"
  "neutral (\<lambda>th. th\<lparr>t_event_info := i\<rparr>)" "neutral (\<lambda>th. th\<lparr>t_remaining_tick := n\<rparr>)"
  by (simp_all add: neutral_def)

definition timeout_wake :: "tid \<Rightarrow> kernel \<Rightarrow> kernel" where
  "timeout_wake t s = rt_schedule_insert_thread t (list_remove t
     (upd_thr t (\<lambda>th. th\<lparr>t_error := -RT_ETIMEOUT\<rparr>) s))"

lemma timeout_wake_kinv:
  assumes "kinv s" "statm s t = RT_THREAD_SUSPEND" "ThreadTimer t \<notin> set (timer_list s)"
  shows "kinv (timeout_wake t s)"
proof -
  let ?s1 = "upd_thr t (\<lambda>th. th\<lparr>t_error := -RT_ETIMEOUT\<rparr>) s"
  have i: "kinv ?s1" using assms(1) by (simp add: kinv_upd_thr)
  note k = kinv_partsD[OF i]
  have st: "statm ?s1 t = RT_THREAD_SUSPEND" using assms(2) by (simp add: kframe)
  have ok: "thread_ok ?s1 t" using kbaseD(7)[OF k(1)] st by (simp add: live_def)
  show ?thesis
    unfolding timeout_wake_def
  proof (rule kinv_insert_thread)
    show "kbase {t} (list_remove t ?s1)" by (rule kbase_list_remove[OF k(1)]) (use st in simp)
    show "kcur (list_remove t ?s1)" using k(2) by (auto simp: kcur_def kframe)
  qed (use ok assms(3) in \<open>simp_all add: kframe\<close>)
qed

lemma timeout_unfold:
  assumes "statm s t = RT_THREAD_SUSPEND" "thread_ok s t"
  shows "rt_thread_timeout t s = rt_schedule (timeout_wake t s)"
  using assms by (simp add: rt_thread_timeout_def timeout_wake_def Let_def thread_ok_def)

lemma timeout_wake_cur: "cur (timeout_wake t s) = cur s"
  by (simp add: timeout_wake_def insert_thread_sel kframe)

lemma rt_thread_timeout_kinv:
  assumes "kinv s" "statm s t = RT_THREAD_SUSPEND" "ThreadTimer t \<notin> set (timer_list s)"
    "cur s = Some c"
  shows "kinv (rt_thread_timeout t s)"
proof -
  have ok: "thread_ok s t"
    using kbaseD(7)[OF kinv_partsD(1)[OF assms(1)]] assms(2) by (simp add: live_def)
  show ?thesis
    unfolding timeout_unfold[OF assms(2) ok]
    by (rule rt_schedule_kinv[OF timeout_wake_kinv[OF assms(1-3)], of c])
      (simp add: timeout_wake_cur assms(4))
qed

lemma timer_list_upd_sel [kframe]:
  "lists (s\<lparr>timer_list := il\<rparr>) = lists s" "statm (s\<lparr>timer_list := il\<rparr>) = statm s"
  "prio (s\<lparr>timer_list := il\<rparr>) = prio s" "thread_ok (s\<lparr>timer_list := il\<rparr>) = thread_ok s"
  by (simp_all add: statm_def prio_def thread_ok_def fun_eq_iff)

lemma timer_start_sel [kframe]:
  "lists (rt_timer_start i s) = lists s" "ready_group (rt_timer_start i s) = ready_group s"
  "cur (rt_timer_start i s) = cur s" "thr (rt_timer_start i s) = thr s"
  "statm (rt_timer_start i s) = statm s" "prio (rt_timer_start i s) = prio s"
  "thread_ok (rt_timer_start i s) = thread_ok s"
  "lock_nest (rt_timer_start i s) = lock_nest s" "tick (rt_timer_start i s) = tick s"
  by (simp_all add: rt_timer_start_def Let_def kframe)

lemma timer_control_sel [kframe]:
  "lists (snd (rt_timer_control i c a s)) = lists s"
  "ready_group (snd (rt_timer_control i c a s)) = ready_group s"
  "cur (snd (rt_timer_control i c a s)) = cur s" "thr (snd (rt_timer_control i c a s)) = thr s"
  "statm (snd (rt_timer_control i c a s)) = statm s" "prio (snd (rt_timer_control i c a s)) = prio s"
  "thread_ok (snd (rt_timer_control i c a s)) = thread_ok s"
  "timer_list (snd (rt_timer_control i c a s)) = timer_list s"
  "lock_nest (snd (rt_timer_control i c a s)) = lock_nest s"
  "tick (snd (rt_timer_control i c a s)) = tick s"
  by (simp_all add: rt_timer_control_def kframe)

lemma timer_control_flag:
  "tm_flag (timers (snd (rt_timer_control i 0 a s)) j) = tm_flag (timers s j)"
  by (simp add: rt_timer_control_def kframe)

lemma or1_and1: "(x OR 1) AND 1 = (1 :: u8)"
  by (rule bit_eqI) (auto simp: bit_and_iff bit_or_iff bit_1_iff)

lemma timers_ok_start:
  assumes "timers_ok s" "statm s t = RT_THREAD_SUSPEND"
  shows "timers_ok (rt_timer_start (ThreadTimer t) s)"
  using assms
  by (auto simp: rt_timer_start_def Let_def kframe timers_ok_def distinct_removeAll or1_and1)

lemma kbase_timer_start:
  assumes "kbase X s" "statm s t = RT_THREAD_SUSPEND"
  shows "kbase X (rt_timer_start (ThreadTimer t) s)"
  using timers_ok_start[OF kbaseD(4)[OF assms(1)] assms(2)] assms(1)
  by (auto simp: kbase_def lists_ok_def members_ok_def bits_ok_def detached_def kframe)

lemma kbase_timer_control: "kbase X s \<Longrightarrow> kbase X (snd (rt_timer_control i 0 a s))"
  by (auto simp: kbase_def lists_ok_def members_ok_def bits_ok_def detached_def timers_ok_def kframe
      timer_control_flag)

lemma kbase_start_thread_timer:
  "kbase X s \<Longrightarrow> statm s t = RT_THREAD_SUSPEND \<Longrightarrow> kbase X (start_thread_timer t time s)"
  unfolding start_thread_timer_def
  by (intro kbase_timer_start kbase_timer_control) (simp_all add: kframe)

lemma start_thread_timer_sel [kframe]:
  "lists (start_thread_timer t time s) = lists s"
  "ready_group (start_thread_timer t time s) = ready_group s"
  "cur (start_thread_timer t time s) = cur s" "thr (start_thread_timer t time s) = thr s"
  "statm (start_thread_timer t time s) = statm s" "prio (start_thread_timer t time s) = prio s"
  "thread_ok (start_thread_timer t time s) = thread_ok s"
  "lock_nest (start_thread_timer t time s) = lock_nest s"
  "tick (start_thread_timer t time s) = tick s"
  by (simp_all add: start_thread_timer_def kframe)

lemma kinv_start_thread_timer:
  "kinv s \<Longrightarrow> statm s t = RT_THREAD_SUSPEND \<Longrightarrow> kinv (start_thread_timer t time s)"
  using kbase_start_thread_timer[of "{}" s t time] by (auto simp: kinv_def kcur_def kframe)

lemma rt_timer_start_stuck:
  assumes "rt_object_get_type (tm_type (timers s i)) = RT_Object_Class_Timer"
    "tm_init_tick (timers s i) < RT_TICK_MAX div 2"
  shows "stuck (rt_timer_start i s) = stuck s"
  using assms by (simp add: rt_timer_start_def Let_def kframe)

lemma start_thread_timer_stuck:
  assumes "thread_ok s t" "time < 2147483647"
  shows "stuck (start_thread_timer t time s) = stuck s"
proof -
  have ty: "rt_object_get_type (tm_type (timers s (ThreadTimer t))) = RT_Object_Class_Timer"
    using assms(1) by (simp add: thread_ok_def)
  have "stuck (start_thread_timer t time s) = stuck (snd (rt_timer_control (ThreadTimer t) 0 time s))"
    unfolding start_thread_timer_def
    by (rule rt_timer_start_stuck) (use ty assms(2) in \<open>simp_all add: rt_timer_control_def kframe\<close>)
  then show ?thesis using ty by (simp add: rt_timer_control_def kframe)
qed

text \<open>A running thread that goes to sleep.\<close>

lemma suspend_running:
  assumes "kinv s" "cur s = Some c" "statm s c = RT_THREAD_RUNNING"
  shows "rt_thread_suspend c s = (RT_EOK, snd (rt_timer_stop (ThreadTimer c)
         (set_stat c RT_THREAD_SUSPEND (rt_schedule_remove_thread c s))))"
    "statm (snd (rt_thread_suspend c s)) u = (if u = c then RT_THREAD_SUSPEND else statm s u)"
    "lists (snd (rt_thread_suspend c s)) = lists s"
    "stuck (snd (rt_thread_suspend c s)) = stuck s"
    "\<And>t. t_error (thr (snd (rt_thread_suspend c s)) t) = t_error (thr s t)"
proof -
  note k = kinv_partsD[OF assms(1)]
  have ok: "thread_ok s c" using kbaseD(7)[OF k(1)] assms(3) by (simp add: live_def)
  show e: "rt_thread_suspend c s = (RT_EOK, snd (rt_timer_stop (ThreadTimer c)
         (set_stat c RT_THREAD_SUSPEND (rt_schedule_remove_thread c s))))"
    using ok assms(2,3) by (simp add: rt_thread_suspend_def Let_def thread_ok_def rt_thread_self_def)
  show "statm (snd (rt_thread_suspend c s)) u = (if u = c then RT_THREAD_SUSPEND else statm s u)"
    unfolding e by (simp add: kframe)
  have "detached s c" by (rule detached_running[OF k(1) assms(3)])
  then show "lists (snd (rt_thread_suspend c s)) = lists s"
    unfolding e by (simp add: kframe fun_eq_iff detached_def removeAll_id_if_notin)
  show "stuck (snd (rt_thread_suspend c s)) = stuck s"
    unfolding e using ok by (simp add: kframe thread_ok_def)
  show "t_error (thr (snd (rt_thread_suspend c s)) t) = t_error (thr s t)" for t
    unfolding e by (simp add: kframe set_stat_def upd_thr_def)
qed

lemma rt_thread_sleep_kinv:
  assumes "kinv s" "cur s = Some c" "statm s c = RT_THREAD_RUNNING"
  shows "kinv (rt_thread_sleep tck s)"
proof -
  have "thread_ok s c"
    using kbaseD(7)[OF kinv_partsD(1)[OF assms(1)]] assms(3) by (simp add: live_def)
  then have e: "rt_thread_sleep tck s =
      rt_schedule (start_thread_timer c tck (snd (rt_thread_suspend c s)))"
    using assms(2) by (simp add: rt_thread_sleep_def rt_thread_self_def thread_ok_def)
  show ?thesis
    unfolding e
  proof (rule rt_schedule_kinv)
    show "kinv (start_thread_timer c tck (snd (rt_thread_suspend c s)))"
      by (rule kinv_start_thread_timer[OF rt_thread_suspend_kinv[OF assms(1)]])
        (simp add: suspend_running(2)[OF assms])
    show "cur (start_thread_timer c tck (snd (rt_thread_suspend c s))) = Some c"
      using assms(2) by (simp add: kframe)
  qed
qed

section \<open>Creation and removal of threads\<close>

lemma not_live_detached:
  assumes "kbase X s" "statm s t = RT_THREAD_INIT"
  shows "detached s t"
  using members_stat[OF kbaseD(2)[OF assms(1)], of t] assms(2) by (auto simp: detached_def)

lemma kbase_drop: "kbase (insert t X) s \<Longrightarrow> statm s t \<noteq> RT_THREAD_READY \<Longrightarrow> kbase X s"
  unfolding kbase_def by (metis insert_iff)

lemma kbase_timer_unlink: "kbase X s \<Longrightarrow> kbase X (timer_unlink i s)"
  by (auto simp: kbase_def lists_ok_def members_ok_def bits_ok_def detached_def timers_ok_def kframe
      distinct_removeAll)

lemma kbase_upd_timer_free:
  assumes "kbase X s" "\<not> live (statm s t)" "ThreadTimer t \<notin> set (timer_list s)"
  shows "kbase X (upd_timer (ThreadTimer t) f s)"
proof -
  note k = kbaseD[OF assms(1)]
  have "thread_ok (upd_timer (ThreadTimer t) f s) u" if "live (statm s u)" for u
    using k(7)[OF that] that assms(2) by (cases "u = t") (auto simp: thread_ok_def kframe)
  moreover have "timers_ok (upd_timer (ThreadTimer t) f s)"
    using k(4) assms(3) by (auto simp: timers_ok_def kframe)
  ultimately show ?thesis using k(1-3,5,6)
    by (simp add: kbase_def lists_ok_def members_ok_def bits_ok_def detached_def kframe)
qed

lemma kbase_insert_defunct:
  assumes "kbase (insert t X) s" "statm s t = RT_THREAD_CLOSE" "t \<notin> X"
  shows "kbase X (list_insert_after DefunctL t s)"
proof -
  note k = kbaseD[OF assms(1)]
  let ?s = "list_insert_after DefunctL t s"
  have sel: "lists ?s = (lists s)(DefunctL := t # lists s DefunctL)" "statm ?s = statm s"
    "prio ?s = prio s" "thread_ok ?s = thread_ok s" "timers ?s = timers s"
    "timer_list ?s = timer_list s" "ready_group ?s = ready_group s"
    by (simp_all add: list_insert_after_def statm_def prio_def thread_ok_def fun_eq_iff)
  have d: "t \<notin> set (lists s l)" for l using k(5)[of t] by (simp add: detached_def)
  have "lists_ok ?s" using k(1) d by (auto simp: lists_ok_def sel)
  moreover have "members_ok ?s" using k(2) assms(2) by (auto simp: members_ok_def sel)
  moreover have "detached ?s u" if "u \<in> X" for u
    using that k(5)[of u] assms(3) by (auto simp: detached_def sel)
  moreover have "u \<in> set (lists ?s (ReadyL (prio s u)))"
    if "u \<notin> X" "statm s u = RT_THREAD_READY" for u
    using that k(6)[of u] assms(2) by (cases "u = t") (auto simp: sel)
  ultimately show ?thesis using k(3,4,7)
    by (simp add: kbase_def sel bits_ok_def timers_ok_def)
qed

definition close_thread :: "tid \<Rightarrow> kernel \<Rightarrow> kernel" where
  "close_thread t s = upd_thr t (\<lambda>th. th\<lparr>t_stat := RT_THREAD_CLOSE\<rparr>) (rt_timer_detach (ThreadTimer t) s)"

lemma kbase_close_thread:
  assumes "kbase {t} s"
  shows "kbase {t} (close_thread t s)" "statm (close_thread t s) t = RT_THREAD_CLOSE"
    "u \<noteq> t \<Longrightarrow> statm (close_thread t s) u = statm s u" "cur (close_thread t s) = cur s"
    "lists (close_thread t s) = lists s" "timer_list (close_thread t s) = timer_list s \<or>
       timer_list (close_thread t s) = removeAll (ThreadTimer t) (timer_list s)"
proof -
  let ?i = "ThreadTimer t"
  let ?c = "\<lambda>th. th\<lparr>t_stat := RT_THREAD_CLOSE\<rparr>"
  note k = kbaseD[OF assms]
  show st: "statm (close_thread t s) t = RT_THREAD_CLOSE"
    by (simp add: close_thread_def upd_thr_def statm_def)
  show "statm (close_thread t s) u = statm s u" if "u \<noteq> t"
    using that by (simp add: close_thread_def upd_thr_def statm_def rt_timer_detach_def kframe)
  show "cur (close_thread t s) = cur s" "lists (close_thread t s) = lists s"
    "timer_list (close_thread t s) = timer_list s \<or>
       timer_list (close_thread t s) = removeAll (ThreadTimer t) (timer_list s)"
    by (simp_all add: close_thread_def rt_timer_detach_def kframe)
  have cl: "statm (upd_thr t ?c s') t = RT_THREAD_CLOSE" for s'
    by (simp add: upd_thr_def statm_def)
  have free: "kbase {t} (upd_thr t ?c s')" if "kbase {t} s'" "?i \<notin> set (timer_list s')" for s'
    by (rule kbase_upd_free[OF that(1) _ that(2)])
      (use kbaseD(5)[OF that(1)] cl in \<open>simp_all add: live_def\<close>)
  show "kbase {t} (close_thread t s)"
  proof (cases "rt_object_get_type (tm_type (timers s ?i)) = RT_Object_Class_Timer \<and>
      rt_object_is_systemobject (tm_type (timers s ?i))")
    case True
    let ?u = "timer_unlink ?i s"
    have off: "?i \<notin> set (timer_list ?u)" by (simp add: kframe)
    have "close_thread t s = upd_timer ?i (\<lambda>x. x\<lparr>tm_type := 0\<rparr>) (upd_thr t ?c ?u)"
      using True by (simp add: close_thread_def rt_timer_detach_def upd_timer_def upd_thr_def)
    moreover have "kbase {t} (upd_timer ?i (\<lambda>x. x\<lparr>tm_type := 0\<rparr>) (upd_thr t ?c ?u))"
    proof (rule kbase_upd_timer_free)
      show "kbase {t} (upd_thr t ?c ?u)" by (rule free[OF kbase_timer_unlink[OF assms] off])
    qed (use off cl[of ?u] in \<open>simp_all add: kframe live_def\<close>)
    ultimately show ?thesis by simp
  next
    case False
    then have "\<not> live (statm s t)" using k(7)[of t] by (auto simp: thread_ok_def)
    then have "?i \<notin> set (timer_list s)" using timer_off[OF assms] by (auto simp: live_def)
    moreover have "kbase {t} (fail s)" "timer_list (fail s) = timer_list s"
      using assms kbase_frame[of "fail s" s "{t}"] by (simp_all add: kframe)
    moreover have "close_thread t s = upd_thr t ?c (fail s)"
      using False by (auto simp: close_thread_def rt_timer_detach_def)
    ultimately show ?thesis using free[of "fail s"] by simp
  qed
qed

lemma thread_retire_close:
  "thread_retire t s = (let s2 = close_thread t s in
     if rt_object_is_systemobject (t_type (thr s2 t)) \<and> \<not> t_cleanup (thr s2 t)
     then upd_thr t (\<lambda>th. th\<lparr>t_type := 0\<rparr>) s2 else list_insert_after DefunctL t s2)"
  by (simp add: thread_retire_def close_thread_def Let_def)

lemma insert_after_sel [kframe]:
  "cur (list_insert_after l t s) = cur s" "statm (list_insert_after l t s) = statm s"
  "lists (list_insert_after l t s) = (lists s)(l := t # lists s l)"
  by (simp_all add: list_insert_after_def statm_def fun_eq_iff)

lemma kinv_defunct:
  assumes "kbase {t} s" "kcur s"
  shows "kinv (list_insert_after DefunctL t (close_thread t s))"
proof -
  note c = kbase_close_thread[OF assms(1)]
  have "kbase {} (list_insert_after DefunctL t (close_thread t s))"
    by (rule kbase_insert_defunct[OF c(1,2)]) simp
  moreover have "statm (close_thread t s) u = RT_THREAD_RUNNING \<Longrightarrow> statm s u = RT_THREAD_RUNNING" for u
    using c(2) c(3)[of u] by (cases "u = t") auto
  ultimately show ?thesis using assms(2)
    by (auto simp: kinv_def kcur_def kframe c(4,5))
qed

lemma kinv_retire:
  assumes "kbase {t} s" "kcur s"
  shows "kinv (thread_retire t s)"
proof -
  note c = kbase_close_thread[OF assms(1)]
  let ?s2 = "close_thread t s"
  let ?z = "upd_thr t (\<lambda>th. th\<lparr>t_type := 0\<rparr>) ?s2"
  have st: "statm ?z = statm ?s2" by (simp add: fun_eq_iff upd_thr_def statm_def)
  have off: "ThreadTimer t \<notin> set (timer_list ?s2)"
    by (rule timer_off[OF c(1)]) (simp add: c(2))
  have "kbase {t} ?z"
    by (rule kbase_upd_free[OF c(1) _ off])
      (use kbaseD(5)[OF c(1)] in \<open>simp_all add: st c(2) live_def\<close>)
  then have "kbase {} ?z" by (rule kbase_drop) (simp add: st c(2))
  moreover have "statm ?s2 u = RT_THREAD_RUNNING \<Longrightarrow> statm s u = RT_THREAD_RUNNING" for u
    using c(2) c(3)[of u] by (cases "u = t") auto
  ultimately have "kinv ?z" using assms(2) by (auto simp: kinv_def kcur_def kframe c(4,5) st)
  with kinv_defunct[OF assms] show ?thesis by (simp add: thread_retire_close Let_def)
qed

lemma kbase_gone:
  assumes "kinv s" "live (statm s t) \<or> statm s t = RT_THREAD_INIT"
  shows "kbase {t} (if statm s t \<noteq> RT_THREAD_INIT then rt_schedule_remove_thread t s else s)"
    and "kcur (if statm s t \<noteq> RT_THREAD_INIT then rt_schedule_remove_thread t s else s)"
proof -
  note k = kinv_partsD[OF assms(1)]
  show "kbase {t} (if statm s t \<noteq> RT_THREAD_INIT then rt_schedule_remove_thread t s else s)"
  proof (cases "statm s t = RT_THREAD_INIT")
    case True
    have "kbase {t} s" using kbase_insertX[OF k(1) not_live_detached[OF k(1) True]] by simp
    with True show ?thesis by simp
  next
    case False
    with assms(2) have "thread_ok s t" using kbaseD(7)[OF k(1)] by blast
    from kbase_remove_thread[OF k(1) this] False show ?thesis by simp
  qed
  show "kcur (if statm s t \<noteq> RT_THREAD_INIT then rt_schedule_remove_thread t s else s)"
    using k(2) by (auto simp: kcur_def kframe)
qed

lemma rt_thread_detach_kinv:
  assumes "kinv s" "live (statm s t) \<or> statm s t = RT_THREAD_INIT"
  shows "kinv (snd (rt_thread_detach t s))"
  using kinv_retire[OF kbase_gone[OF assms]] assms(1) by (simp add: rt_thread_detach_def)

lemma rt_thread_delete_kinv:
  assumes "kinv s" "live (statm s t) \<or> statm s t = RT_THREAD_INIT"
  shows "kinv (snd (rt_thread_delete t s))"
  using kinv_defunct[OF kbase_gone[OF assms]] assms(1)
  by (simp add: rt_thread_delete_def Let_def close_thread_def)

lemma thread_retire_cur: "cur (thread_retire t s) = cur s"
  by (simp add: thread_retire_def Let_def rt_timer_detach_def kframe)

lemma rt_thread_exit_kinv:
  assumes "kinv s" "cur s = Some c" "live (statm s c)"
  shows "kinv (rt_thread_exit s)"
proof -
  have e: "rt_thread_exit s = rt_schedule (thread_retire c (rt_schedule_remove_thread c s))"
    using assms(2) by (simp add: rt_thread_exit_def rt_thread_self_def)
  have "kinv (thread_retire c (rt_schedule_remove_thread c s))"
    using kinv_retire[OF kbase_gone[OF assms(1), of c]] assms(3) by (auto simp: live_def)
  then show ?thesis
    unfolding e using assms(2) by (intro rt_schedule_kinv) (simp_all add: thread_retire_cur kframe)
qed

lemma set_priority_sel:
  "lists (set_priority t p s) = lists s" "timers (set_priority t p s) = timers s"
  "timer_list (set_priority t p s) = timer_list s" "cur (set_priority t p s) = cur s"
  "ready_group (set_priority t p s) = ready_group s" "statm (set_priority t p s) = statm s"
  "u \<noteq> t \<Longrightarrow> prio (set_priority t p s) u = prio s u"
  "prio (set_priority t p s) t = unat p"
  "u \<noteq> t \<Longrightarrow> thread_ok (set_priority t p s) u = thread_ok s u"
  by (auto simp: set_priority_def upd_thr_def statm_def prio_def thread_ok_def fun_eq_iff)

lemma thread_ok_set_priority:
  "thread_ok s t \<Longrightarrow> p < 32 \<Longrightarrow> thread_ok (set_priority t p s) t"
proof -
  assume "thread_ok s t" "p < 32"
  moreover have "unat p < 32" using \<open>p < 32\<close> unat_mono[of p 32] by simp
  moreover have "rt_scheduler_stack_check (thr (set_priority t p s) t) =
      rt_scheduler_stack_check (thr s t)"
    by (simp add: set_priority_def upd_thr_def rt_scheduler_stack_check_def)
  ultimately show ?thesis by (simp add: set_priority_def upd_thr_def prio_def thread_ok_def)
qed

lemma kinv_set_priority:
  assumes "kinv s" "statm s t \<noteq> RT_THREAD_READY" "p < 32"
  shows "kinv (set_priority t p s)"
proof -
  note k = kinv_partsD[OF assms(1)]
  note b = kbaseD[OF k(1)]
  note z = set_priority_sel[where s = s and t = t and p = p]
  have nt: "u \<noteq> t" if "u \<in> set (lists s (ReadyL q))" for u q
    using members_okD(1)[OF b(2) that, of q] assms(2) by auto
  have "members_ok (set_priority t p s)"
    using b(2) nt unfolding members_ok_def z(1,6) by (metis z(7))
  moreover have "u \<in> set (lists s (ReadyL (prio (set_priority t p s) u)))"
    if "statm s u = RT_THREAD_READY" for u
    using that b(6)[of u] assms(2) z(7)[of u] by (cases "u = t") auto
  moreover have "thread_ok (set_priority t p s) u" if "live (statm s u)" for u
    using b(7)[OF that] thread_ok_set_priority[OF _ assms(3)] z(9)[of u] by (cases "u = t") auto
  ultimately have "kbase {} (set_priority t p s)"
    using b(1,3,4) by (simp add: kbase_def z(1-6) lists_ok_def bits_ok_def timers_ok_def)
  then show ?thesis using k(2) by (simp add: kinv_def kcur_def z(1,4,6))
qed

lemma rt_thread_control_priority_kinv:
  assumes "kinv s" "p < 32"
  shows "kinv (snd (rt_thread_control t 2 p s))"
proof (cases "statm s t = RT_THREAD_READY")
  case False
  with kinv_set_priority[OF assms(1) False assms(2)] assms(1) show ?thesis
    by (simp add: rt_thread_control_def)
next
  case True
  note k = kinv_partsD[OF assms(1)]
  let ?r = "rt_schedule_remove_thread t s"
  have ok: "thread_ok s t" using kbaseD(7)[OF k(1)] True by (simp add: live_def)
  have r: "kbase {t} ?r" using kbase_remove_thread[OF k(1) ok] by simp
  have off: "ThreadTimer t \<notin> set (timer_list s)" using timer_off[OF k(1)] True by simp
  have ok': "thread_ok (set_priority t p ?r) t"
    by (rule thread_ok_set_priority[OF _ assms(2)]) (use ok in \<open>simp add: kframe\<close>)
  have "kinv (rt_schedule_insert_thread t (set_priority t p ?r))"
  proof (rule kinv_insert_thread)
    show "kbase {t} (set_priority t p ?r)"
      unfolding set_priority_def
      by (rule kbase_upd_free[OF r])
        (use kbaseD(5)[OF r] off ok' in \<open>simp_all add: kframe set_priority_def\<close>)
    show "kcur (set_priority t p ?r)" using k(2) by (auto simp: kcur_def set_priority_sel kframe)
  qed (use ok' off in \<open>simp_all add: set_priority_sel kframe\<close>)
  with True assms(1) show ?thesis by (simp add: rt_thread_control_def)
qed

section \<open>Initialisation and start\<close>

definition startable :: "kernel \<Rightarrow> tid \<Rightarrow> bool" where
  "startable s t \<longleftrightarrow> statm s t = RT_THREAD_INIT \<and> t_init_priority (thr s t) < 32 \<and>
     rt_object_get_type (t_type (thr s t)) = RT_Object_Class_Thread \<and>
     rt_object_get_type (tm_type (timers s (ThreadTimer t))) = RT_Object_Class_Timer \<and>
     rt_object_is_systemobject (tm_type (timers s (ThreadTimer t))) \<and>
     rt_scheduler_stack_check (thr s t) \<noteq> StackOverflow"

text \<open>The saved stack pointer of a new thread passes the overflow check when the stack has room for a frame.\<close>

lemma unat_and_not7:
  fixes x :: u32
  shows "unat (x AND NOT 7) = unat x - unat x mod 8"
proof -
  have m: "bit (7 :: u32) n \<longleftrightarrow> n < 3" for n
  proof -
    have "(7 :: u32) = mask 3" by (simp add: mask_eq_exp_minus_1)
    then show ?thesis by (simp only: bit_mask_iff) auto
  qed
  have "x AND NOT 7 = push_bit 3 (drop_bit 3 x)"
  proof (rule bit_eqI)
    fix n assume "possible_bit TYPE(32 word) n"
    then have "n < 32" by simp
    then show "bit (x AND NOT 7) n = bit (push_bit 3 (drop_bit 3 x)) n"
      by (simp only: bit_and_iff bit_not_iff m bit_push_bit_iff bit_drop_bit_eq) auto
  qed
  then have "unat (x AND NOT 7) = take_bit 32 (unat x div 8 * 8)"
    by (simp add: push_bit_eq_mult drop_bit_eq_div unat_word_ariths unat_div take_bit_eq_mod
        mod_mult_left_eq)
  also have "\<dots> = unat x div 8 * 8"
  proof -
    have "unat x < 2 ^ 32" by (rule order_less_le_trans[OF unsigned_less]) simp
    then have "unat x div 8 * 8 < 2 ^ 32" by linarith
    then show ?thesis by (simp add: take_bit_eq_mod)
  qed
  also have "\<dots> = unat x - unat x mod 8" by (simp add: minus_mod_eq_div_mult)
  finally show ?thesis .
qed

lemma stack_init_ok:
  assumes "unat a + unat sz < 2 ^ 32 - 8" "72 < unat sz"
  shows "a < rt_hw_stack_init (a + sz - 4)" "rt_hw_stack_init (a + sz - 4) \<le> a + sz"
proof -
  have s: "unat (a + sz) = unat a + unat sz" using assms(1) by (simp add: unat_word_ariths)
  have al: "unat ((a + sz) AND NOT 7) = unat a + unat sz - (unat a + unat sz) mod 8"
    unfolding unat_and_not7 s ..
  have lt: "(unat a + unat sz) mod 8 < 8" by simp
  have "64 \<le> unat ((a + sz) AND NOT 7)" unfolding al using assms(2) lt by linarith
  then have u: "unat (((a + sz) AND NOT 7) - 64) = unat ((a + sz) AND NOT 7) - 64"
    by (subst unat_sub) (simp_all add: word_le_nat_alt)
  have e: "a + sz - 4 + 4 = a + sz" by simp
  have r: "unat (rt_hw_stack_init (a + sz - 4)) =
      unat a + unat sz - (unat a + unat sz) mod 8 - 64"
    unfolding rt_hw_stack_init_def e u al ..
  show "a < rt_hw_stack_init (a + sz - 4)"
    unfolding word_less_nat_alt r using assms(2) lt by linarith
  show "rt_hw_stack_init (a + sz - 4) \<le> a + sz"
    unfolding word_le_nat_alt r s by linarith
qed

lemma thread_init_eq:
  assumes "a \<noteq> 0" "p < 32"
  shows "rt_thread_init t a sz p n s = (RT_EOK,
    rt_timer_init (ThreadTimer t) 0 0
      (upd_thr t (\<lambda>th. thread_init_fields a sz p n
         (th\<lparr>t_type := RT_Object_Class_Thread OR RT_Object_Class_Static\<rparr>)) s))"
  using assms by (simp add: rt_thread_init_def thread_init_common_def upd_thr_def)

text \<open>
  Initialising an unused thread object keeps the invariant and makes the thread ready to be started;
  the stack must have more than 72 bytes and end 8 bytes below the top of the address space.
\<close>

lemma rt_thread_init_startable:
  assumes "kinv s" "\<not> live (statm s t)" "detached s t"
    and "a \<noteq> 0" "p < 32" "unat a + unat sz < 2 ^ 32 - 8" "72 < unat sz"
  shows "fst (rt_thread_init t a sz p n s) = RT_EOK"
    "kinv (snd (rt_thread_init t a sz p n s))" "startable (snd (rt_thread_init t a sz p n s)) t"
proof -
  note k = kinv_partsD[OF assms(1)]
  let ?f = "\<lambda>th. thread_init_fields a sz p n
    (th\<lparr>t_type := RT_Object_Class_Thread OR RT_Object_Class_Static\<rparr>)"
  let ?s = "upd_thr t ?f s"
  note e = thread_init_eq[OF assms(4,5), of t sz n s]
  show "fst (rt_thread_init t a sz p n s) = RT_EOK" by (simp add: e)
  have st: "statm ?s t = RT_THREAD_INIT" "u \<noteq> t \<Longrightarrow> statm ?s u = statm s u" for u
    by (simp_all add: upd_thr_def statm_def thread_init_fields_def)
  have off: "ThreadTimer t \<notin> set (timer_list s)"
    using timer_off[OF k(1)] assms(2) by (auto simp: live_def)
  have b: "kbase {} ?s"
    by (rule kbase_upd_free[OF k(1) assms(3) off]) (use st(1) in \<open>simp_all add: live_def\<close>)
  have "kbase {} (rt_timer_init (ThreadTimer t) 0 0 ?s)"
    unfolding rt_timer_init_def
    by (rule kbase_upd_timer_free[OF b]) (use off st in \<open>simp_all add: live_def kframe\<close>)
  moreover have "statm s u = RT_THREAD_RUNNING" if "statm ?s u = RT_THREAD_RUNNING" for u
    using that st(2)[of u] st(1) by (cases "u = t") simp_all
  then have "kcur (rt_timer_init (ThreadTimer t) 0 0 ?s)"
    using k(2) unfolding kcur_def rt_timer_init_def by (simp add: kframe)
  ultimately show "kinv (snd (rt_thread_init t a sz p n s))" by (simp add: e kinv_def)
  have "rt_scheduler_stack_check (?f (thr s t)) \<noteq> StackOverflow"
    using stack_init_ok[OF assms(6,7)] assms(7)
    by (auto simp: rt_scheduler_stack_check_def thread_init_fields_def)
  moreover have "statm (snd (rt_thread_init t a sz p n s)) t = RT_THREAD_INIT"
    using st(1) by (simp add: e rt_timer_init_def kframe)
  ultimately show "startable (snd (rt_thread_init t a sz p n s)) t"
    using assms(5) unfolding startable_def
    by (simp add: e rt_timer_init_def kframe upd_thr_def thread_init_fields_def
        rt_object_get_type_def rt_object_is_systemobject_def)
qed

definition started :: "tid \<Rightarrow> kernel \<Rightarrow> kernel" where
  "started t s = upd_thr t (\<lambda>th. th\<lparr>t_current_priority := t_init_priority th,
     t_number_mask := push_bit (unat (t_init_priority th)) 1, t_stat := RT_THREAD_SUSPEND\<rparr>) s"

lemma rt_thread_startup_unfold:
  assumes "startable s t"
  shows "rt_thread_startup t s = (let s4 = snd (rt_thread_resume t (started t s))
     in (RT_EOK, if cur s4 \<noteq> None then rt_schedule s4 else s4))"
  using assms
  by (simp add: rt_thread_startup_def startable_def started_def upd_thr_def Let_def rt_thread_self_def)

lemma started_kinv:
  assumes "kinv s" "startable s t"
  shows "kinv (started t s)" "statm (started t s) t = RT_THREAD_SUSPEND" "cur (started t s) = cur s"
    "prio (started t s) t = unat (t_init_priority (thr s t))"
    "u \<noteq> t \<Longrightarrow> statm (started t s) u = statm s u" "lists (started t s) = lists s"
    "timer_list (started t s) = timer_list s"
proof -
  note k = kinv_partsD[OF assms(1)]
  have init: "statm s t = RT_THREAD_INIT" using assms(2) by (simp add: startable_def)
  show st: "statm (started t s) t = RT_THREAD_SUSPEND"
    by (simp add: started_def upd_thr_def statm_def)
  show c: "cur (started t s) = cur s" by (simp add: started_def kframe)
  show pr: "prio (started t s) t = unat (t_init_priority (thr s t))"
    by (simp add: started_def upd_thr_def prio_def)
  show o: "statm (started t s) u = statm s u" if "u \<noteq> t" for u
    using that by (simp add: started_def upd_thr_def statm_def)
  show l: "lists (started t s) = lists s" "timer_list (started t s) = timer_list s"
    by (simp_all add: started_def kframe)
  have off: "ThreadTimer t \<notin> set (timer_list s)" using timer_off[OF k(1)] init by simp
  have lt: "unat (t_init_priority (thr s t)) < 32"
    using assms(2) unat_mono[of "t_init_priority (thr s t)" 32] by (simp add: startable_def)
  have ck: "rt_scheduler_stack_check (thr (started t s) t) = rt_scheduler_stack_check (thr s t)"
    by (simp add: started_def upd_thr_def rt_scheduler_stack_check_def)
  have "thread_ok (started t s) t"
    using assms(2) lt pr ck unfolding thread_ok_def startable_def
    by (simp add: started_def upd_thr_def)
  then have "kbase {} (started t s)"
    using st unfolding started_def
    by (intro kbase_upd_free[OF k(1) not_live_detached[OF k(1) init] off]) simp_all
  moreover have "statm (started t s) u = RT_THREAD_RUNNING \<Longrightarrow> statm s u = RT_THREAD_RUNNING" for u
    using o[of u] st by (cases "u = t") simp_all
  then have "kcur (started t s)" using k(2) unfolding kcur_def c l by blast
  ultimately show "kinv (started t s)" by (simp add: kinv_def)
qed

lemma rt_thread_startup_kinv:
  assumes "kinv s" "startable s t"
  shows "kinv (snd (rt_thread_startup t s))"
proof -
  have "kinv (snd (rt_thread_resume t (started t s)))"
    by (rule rt_thread_resume_kinv[OF started_kinv(1)[OF assms]])
  then show ?thesis
    by (auto simp: rt_thread_startup_unfold[OF assms(2)] Let_def intro: rt_schedule_kinv)
qed

end
