(* ===== verification/Clock.thy ===== *)
theory Clock
  imports Thread
begin

text \<open>
  The tick of \<^verbatim>\<open>rt-thread/src/clock.c\<close> and the expiry loop \<^verbatim>\<open>rt_timer_check\<close> of \<^verbatim>\<open>timer.c\<close>. The timeout
  functions of timers other than the thread timers are registered by the application; they are the
  parameter \<open>tf\<close>. The loop takes fuel, because a periodic timer of period zero restarts itself for
  ever; \<open>timer_check_threads\<close> shows that one unit per timer in the list and one more suffice when the
  list holds thread timers, and what the loop does with them.
\<close>

section \<open>Operations\<close>

definition rt_tick_get :: "kernel \<Rightarrow> u32" where
  "rt_tick_get s = tick s"

definition rt_tick_set :: "u32 \<Rightarrow> kernel \<Rightarrow> kernel" where
  "rt_tick_set v s = s\<lparr>tick := v\<rparr>"

definition timer_expired :: "u32 \<Rightarrow> u32 \<Rightarrow> bool" where
  "timer_expired current_tick timeout_tick \<longleftrightarrow> current_tick - timeout_tick < RT_TICK_MAX div 2"

definition timer_fire :: "(nat \<Rightarrow> kernel \<Rightarrow> kernel) \<Rightarrow> timerid \<Rightarrow> kernel \<Rightarrow> kernel" where
  "timer_fire tf i s =
     (case i of ThreadTimer t \<Rightarrow> rt_thread_timeout t s | UserTimer n \<Rightarrow> tf n s)"

definition timer_rearm :: "timerid \<Rightarrow> kernel \<Rightarrow> kernel" where
  "timer_rearm i s =
     (let clear = upd_timer i (\<lambda>t. t\<lparr>tm_flag := tm_flag t AND NOT RT_TIMER_FLAG_ACTIVATED\<rparr>) s in
      if tm_flag (timers s i) AND RT_TIMER_FLAG_PERIODIC \<noteq> 0 \<and>
         tm_flag (timers s i) AND RT_TIMER_FLAG_ACTIVATED \<noteq> 0
      then rt_timer_start i clear else clear)"

fun rt_timer_check_loop :: "(nat \<Rightarrow> kernel \<Rightarrow> kernel) \<Rightarrow> nat \<Rightarrow> u32 \<Rightarrow> kernel \<Rightarrow> kernel option" where
  "rt_timer_check_loop tf 0 current_tick s = None"
| "rt_timer_check_loop tf (Suc n) current_tick s =
     (case timer_list s of
        [] \<Rightarrow> Some s
      | i # _ \<Rightarrow>
          if timer_expired current_tick (tm_timeout_tick (timers s i)) then
            let s2 = timer_fire tf i (timer_unlink i s)
            in rt_timer_check_loop tf n (rt_tick_get s2) (timer_rearm i s2)
          else Some s)"

definition rt_timer_check :: "(nat \<Rightarrow> kernel \<Rightarrow> kernel) \<Rightarrow> nat \<Rightarrow> kernel \<Rightarrow> kernel option" where
  "rt_timer_check tf fuel s = rt_timer_check_loop tf fuel (rt_tick_get s) s"

definition tick_account :: "kernel \<Rightarrow> kernel" where
  "tick_account s =
     (let s1 = s\<lparr>tick := tick s + 1\<rparr> in
      case rt_thread_self s1 of
        None \<Rightarrow> fail s1
      | Some c \<Rightarrow>
          let s2 = upd_thr c (\<lambda>th. th\<lparr>t_remaining_tick := t_remaining_tick th - 1\<rparr>) s1
          in if t_remaining_tick (thr s2 c) = 0
             then snd (rt_thread_yield
                    (upd_thr c (\<lambda>th. th\<lparr>t_remaining_tick := t_init_tick th\<rparr>) s2))
             else s2)"

definition rt_tick_increase :: "(nat \<Rightarrow> kernel \<Rightarrow> kernel) \<Rightarrow> nat \<Rightarrow> kernel \<Rightarrow> kernel option" where
  "rt_tick_increase tf fuel s = rt_timer_check tf fuel (tick_account s)"

text \<open>\<open>ms\<close> is a signed argument; \<^verbatim>\<open>RT_TICK_PER_SECOND\<close> is 1000.\<close>

definition rt_tick_from_millisecond :: "u32 \<Rightarrow> u32" where
  "rt_tick_from_millisecond ms =
     (if sint ms < 0 then RT_TICK_MAX
      else word_of_int (1000 * (sint ms div 1000) + (1000 * (sint ms mod 1000) + 999) div 1000))"

definition rt_thread_mdelay :: "u32 \<Rightarrow> kernel \<Rightarrow> kernel" where
  "rt_thread_mdelay ms = rt_thread_sleep (rt_tick_from_millisecond ms)"

lemma tick_from_ms: "rt_tick_from_millisecond ms = (if sint ms < 0 then RT_TICK_MAX else ms)"
proof (cases "sint ms < 0")
  case False
  have "(1000 * (sint ms mod 1000) + 999) div 1000 = sint ms mod 1000" by simp
  then have "1000 * (sint ms div 1000) + (1000 * (sint ms mod 1000) + 999) div 1000 = sint ms"
    by simp
  with False show ?thesis by (simp add: rt_tick_from_millisecond_def)
qed (simp add: rt_tick_from_millisecond_def)

section \<open>What the scheduler leaves alone\<close>

lemma set_stat_keeps [kframe]:
  "tick (set_stat u v s) = tick s"
  "t_error (thr (set_stat u v s) t) = t_error (thr s t)"
  "t_event_set (thr (set_stat u v s) t) = t_event_set (thr s t)"
  "t_event_info (thr (set_stat u v s) t) = t_event_info (thr s t)"
  "sems (set_stat u v s) = sems s" "mutexes (set_stat u v s) = mutexes s"
  "events (set_stat u v s) = events s" "mboxes (set_stat u v s) = mboxes s"
  "mqs (set_stat u v s) = mqs s" "mps (set_stat u v s) = mps s"
  by (simp_all add: set_stat_def upd_thr_def)

lemma fail_keeps [kframe]:
  "tick (fail s) = tick s"
  "t_error (thr (fail s) t) = t_error (thr s t)"
  "t_event_set (thr (fail s) t) = t_event_set (thr s t)"
  "t_event_info (thr (fail s) t) = t_event_info (thr s t)"
  "sems (fail s) = sems s" "mutexes (fail s) = mutexes s"
  "events (fail s) = events s" "mboxes (fail s) = mboxes s"
  "mqs (fail s) = mqs s" "mps (fail s) = mps s"
  by (simp_all add: fail_def)

lemma remove_thread_keeps [kframe]:
  "tick (rt_schedule_remove_thread u s) = tick s"
  "t_error (thr (rt_schedule_remove_thread u s) t) = t_error (thr s t)"
  "t_event_set (thr (rt_schedule_remove_thread u s) t) = t_event_set (thr s t)"
  "t_event_info (thr (rt_schedule_remove_thread u s) t) = t_event_info (thr s t)"
  "sems (rt_schedule_remove_thread u s) = sems s" "mutexes (rt_schedule_remove_thread u s) = mutexes s"
  "events (rt_schedule_remove_thread u s) = events s" "mboxes (rt_schedule_remove_thread u s) = mboxes s"
  "mqs (rt_schedule_remove_thread u s) = mqs s" "mps (rt_schedule_remove_thread u s) = mps s"
  by (simp_all add: rt_schedule_remove_thread_def list_remove_def Let_def)

lemma list_remove_keeps [kframe]:
  "tick (list_remove u s) = tick s"
  "t_error (thr (list_remove u s) t) = t_error (thr s t)"
  "t_event_set (thr (list_remove u s) t) = t_event_set (thr s t)"
  "t_event_info (thr (list_remove u s) t) = t_event_info (thr s t)"
  "sems (list_remove u s) = sems s" "mutexes (list_remove u s) = mutexes s"
  "events (list_remove u s) = events s" "mboxes (list_remove u s) = mboxes s"
  "mqs (list_remove u s) = mqs s" "mps (list_remove u s) = mps s"
  by (simp_all add: list_remove_def)

lemma insert_thread_keeps [kframe]:
  "tick (rt_schedule_insert_thread u s) = tick s"
  "t_error (thr (rt_schedule_insert_thread u s) t) = t_error (thr s t)"
  "t_event_set (thr (rt_schedule_insert_thread u s) t) = t_event_set (thr s t)"
  "t_event_info (thr (rt_schedule_insert_thread u s) t) = t_event_info (thr s t)"
  "sems (rt_schedule_insert_thread u s) = sems s" "mutexes (rt_schedule_insert_thread u s) = mutexes s"
  "events (rt_schedule_insert_thread u s) = events s" "mboxes (rt_schedule_insert_thread u s) = mboxes s"
  "mqs (rt_schedule_insert_thread u s) = mqs s" "mps (rt_schedule_insert_thread u s) = mps s"
  by (simp_all add: rt_schedule_insert_thread_def list_insert_before_def set_stat_keeps Let_def)

lemma rt_schedule_keeps [kframe]:
  "tick (rt_schedule s) = tick s"
  "t_error (thr (rt_schedule s) t) = t_error (thr s t)"
  "t_event_set (thr (rt_schedule s) t) = t_event_set (thr s t)"
  "t_event_info (thr (rt_schedule s) t) = t_event_info (thr s t)"
  "sems (rt_schedule s) = sems s" "mutexes (rt_schedule s) = mutexes s"
  "events (rt_schedule s) = events s" "mboxes (rt_schedule s) = mboxes s"
  "mqs (rt_schedule s) = mqs s" "mps (rt_schedule s) = mps s"
  by (simp_all add: rt_schedule_def set_stat_keeps fail_keeps remove_thread_keeps insert_thread_keeps
      Let_def split: option.splits)

text \<open>Threads that are neither ready nor running keep their state and their place in the lists.\<close>

lemma rt_schedule_others:
  assumes "kinv s" "cur s = Some c"
  shows "statm s u \<noteq> RT_THREAD_READY \<Longrightarrow> statm s u \<noteq> RT_THREAD_RUNNING \<Longrightarrow>
      statm (rt_schedule s) u = statm s u"
    and "statm s u = RT_THREAD_READY \<or> statm s u = RT_THREAD_RUNNING \<Longrightarrow>
      statm (rt_schedule s) u = RT_THREAD_READY \<or> statm (rt_schedule s) u = RT_THREAD_RUNNING"
    and "wait_list l \<Longrightarrow> lists (rt_schedule s) l = lists s l"
proof -
  note k = kinv_partsD[OF assms(1)]
  have off: "t \<notin> set (lists s l)" if "wait_list l" "statm s t \<noteq> RT_THREAD_SUSPEND" for l t
    using members_okD(3)[OF kbaseD(2)[OF k(1)], of t l] that by blast
  have nr: "l \<noteq> ReadyL p" if "wait_list l" for l p using that by (cases l) auto
  show "statm s u \<noteq> RT_THREAD_READY \<Longrightarrow> statm s u \<noteq> RT_THREAD_RUNNING \<Longrightarrow>
      statm (rt_schedule s) u = statm s u"
    using assms by (cases rule: rt_schedule_cases) (auto simp: stay_def kframe switch_to_stat)
  show "statm s u = RT_THREAD_READY \<or> statm s u = RT_THREAD_RUNNING \<Longrightarrow>
      statm (rt_schedule s) u = RT_THREAD_READY \<or> statm (rt_schedule s) u = RT_THREAD_RUNNING"
    using assms by (cases rule: rt_schedule_cases) (auto simp: stay_def kframe switch_to_stat)
  show "lists (rt_schedule s) l = lists s l" if "wait_list l"
    using assms
  proof (cases rule: rt_schedule_cases)
    case idle
    then show ?thesis by simp
  next
    case keep
    then show ?thesis using off[OF that, of c] by (simp add: stay_def kframe removeAll_id_if_notin)
  next
    case (switch hp t ts)
    then show ?thesis using off[OF that, of t] nr[OF that]
      by (simp add: switch_to_stat removeAll_id_if_notin)
  qed
qed

text \<open>The IPC objects and pools are as before.\<close>

definition ipc_same :: "kernel \<Rightarrow> kernel \<Rightarrow> bool" where
  "ipc_same s s' \<longleftrightarrow> sems s' = sems s \<and> mutexes s' = mutexes s \<and> events s' = events s \<and>
     mboxes s' = mboxes s \<and> mqs s' = mqs s \<and> mps s' = mps s"

lemma ipc_same_refl [simp]: "ipc_same s s"
  by (simp add: ipc_same_def)

lemma ipc_same_trans: "ipc_same s s1 \<Longrightarrow> ipc_same s1 s2 \<Longrightarrow> ipc_same s s2"
  by (simp add: ipc_same_def)

section \<open>Expiry of thread timers\<close>

definition awake :: "kernel \<Rightarrow> tid \<Rightarrow> bool" where
  "awake s t \<longleftrightarrow> statm s t = RT_THREAD_READY \<or> statm s t = RT_THREAD_RUNNING"

definition one_shot :: "kernel \<Rightarrow> bool" where
  "one_shot s \<longleftrightarrow> (\<forall>t. tm_flag (timers s (ThreadTimer t)) AND RT_TIMER_FLAG_PERIODIC = 0)"

definition tmo :: "kernel \<Rightarrow> timerid \<Rightarrow> u32" where
  "tmo s i = tm_timeout_tick (timers s i)"

lemma timeout_wake_sel:
  "statm (timeout_wake t s) u = (if u = t then if cur s = Some t then RT_THREAD_RUNNING
     else RT_THREAD_READY else statm s u)"
  "timers (timeout_wake t s) = timers s" "timer_list (timeout_wake t s) = timer_list s"
  "stuck (timeout_wake t s) = stuck s" "tick (timeout_wake t s) = tick s"
  "wait_list l \<Longrightarrow> lists (timeout_wake t s) l = removeAll t (lists s l)"
  "t_error (thr (timeout_wake t s) u) = (if u = t then -RT_ETIMEOUT else t_error (thr s u))"
  by (cases "cur s = Some t"; cases l;
      simp add: timeout_wake_def insert_thread_cur insert_thread_sel kframe; simp add: upd_thr_def)+

lemma and_not1: "(x AND NOT 1) AND 2 = x AND (2 :: u8)"
proof (rule bit_eqI)
  fix n
  have "bit (2 :: u8) n \<Longrightarrow> \<not> bit (1 :: u8) n"
    using bit_exp_iff[of 1 n, where 'a = u8] by (auto simp: bit_1_iff)
  then show "bit ((x AND NOT 1) AND 2) n = bit (x AND 2) n"
    using bit_imp_le_length[of x n] by (auto simp: bit_and_iff bit_not_iff bit_1_iff)
qed

definition clear_active :: "timerid \<Rightarrow> kernel \<Rightarrow> kernel" where
  "clear_active i = upd_timer i (\<lambda>t. t\<lparr>tm_flag := tm_flag t AND NOT RT_TIMER_FLAG_ACTIVATED\<rparr>)"

lemma timer_rearm_oneshot:
  "tm_flag (timers s i) AND RT_TIMER_FLAG_PERIODIC = 0 \<Longrightarrow> timer_rearm i s = clear_active i s"
  by (simp add: timer_rearm_def clear_active_def)

lemma clear_active_sel [kframe]:
  "lists (clear_active i s) = lists s" "ready_group (clear_active i s) = ready_group s"
  "timer_list (clear_active i s) = timer_list s" "cur (clear_active i s) = cur s"
  "thr (clear_active i s) = thr s" "statm (clear_active i s) = statm s"
  "prio (clear_active i s) = prio s" "lock_nest (clear_active i s) = lock_nest s"
  "stuck (clear_active i s) = stuck s" "tick (clear_active i s) = tick s"
  "thread_ok (clear_active i s) = thread_ok s" "tmo (clear_active i s) = tmo s"
  "one_shot (clear_active i s) = one_shot s"
  by (auto simp: clear_active_def kframe tmo_def one_shot_def fun_eq_iff and_not1[simplified])

lemma kinv_clear_active:
  assumes "kinv s" "i \<notin> set (timer_list s)"
  shows "kinv (clear_active i s)"
proof -
  have "timers (clear_active i s) j = timers s j" if "j \<noteq> i" for j
    using that by (simp add: clear_active_def kframe)
  then have e: "timers (clear_active i s) (ThreadTimer t) = timers s (ThreadTimer t)"
    if "ThreadTimer t \<in> set (timer_list s)" for t
    using that assms(2) by metis
  note tok = kbaseD(4)[OF kinv_partsD(1)[OF assms(1)], unfolded timers_ok_def]
  have "timers_ok (clear_active i s)"
    unfolding timers_ok_def clear_active_sel
  proof (intro conjI allI impI)
    show "distinct (timer_list s)" using tok by blast
    fix t assume t: "ThreadTimer t \<in> set (timer_list s)"
    show "statm s t = RT_THREAD_SUSPEND" using tok t by blast
    show "tm_flag (timers (clear_active i s) (ThreadTimer t)) AND RT_TIMER_FLAG_ACTIVATED \<noteq> 0"
      unfolding e[OF t] using tok t by blast
  qed
  then have "kbase {} (clear_active i s)"
    using kbaseD(1-3,5-7)[OF kinv_partsD(1)[OF assms(1)]]
    by (simp add: kbase_def kframe lists_ok_def members_ok_def bits_ok_def detached_def)
  moreover have "kcur (clear_active i s)"
    using kinv_partsD(2)[OF assms(1)] unfolding kcur_def by (simp only: clear_active_sel)
  ultimately show ?thesis by (simp add: kinv_def)
qed

lemma kinv_timer_unlink: "kinv s \<Longrightarrow> kinv (timer_unlink i s)"
  using kbase_timer_unlink[of "{}" s i] by (simp add: kinv_def kcur_def kframe)

lemma timer_sel_rt_schedule:
  assumes "kinv s" "cur s = Some c"
  shows "tmo (rt_schedule s) = tmo s" "one_shot (rt_schedule s) = one_shot s"
  using rt_schedule_sel[OF assms] by (simp_all add: tmo_def one_shot_def fun_eq_iff)

text \<open>One round of the loop, with the timer of thread \<open>t\<close> at the head of the list.\<close>

lemma timer_round:
  fixes tf :: "nat \<Rightarrow> kernel \<Rightarrow> kernel"
  assumes "kinv s" "cur s = Some c" "timer_list s = ThreadTimer t # ts" "one_shot s"
  defines "s2 \<equiv> timer_fire tf (ThreadTimer t) (timer_unlink (ThreadTimer t) s)"
  defines "s3 \<equiv> timer_rearm (ThreadTimer t) s2"
  shows "kinv s3" "cur s3 \<noteq> None" "timer_list s3 = ts" "tmo s3 = tmo s" "tick s2 = tick s"
    "tick s3 = tick s"
    "one_shot s3" "stuck s3 = stuck s" "awake s3 t"
    "t_error (thr s3 u) = (if u = t then -RT_ETIMEOUT else t_error (thr s u))"
    "u \<noteq> t \<Longrightarrow> awake s u \<Longrightarrow> awake s3 u"
    "u \<noteq> t \<Longrightarrow> \<not> awake s u \<Longrightarrow> statm s3 u = statm s u"
    "wait_list l \<Longrightarrow> lists s3 l = removeAll t (lists s l)" "ipc_same s s3"
proof -
  let ?i = "ThreadTimer t"
  let ?u = "timer_unlink ?i s"
  let ?w = "timeout_wake t ?u"
  note k = kinv_partsD[OF assms(1)]
  note tok = kbaseD(4)[OF k(1)]
  have d: "distinct (?i # ts)" "statm s t = RT_THREAD_SUSPEND"
    using tok assms(3) by (simp_all add: timers_ok_def)
  have tl: "timer_list ?u = ts" using assms(3) d(1) by (simp add: kframe removeAll_id_if_notin)
  have su: "statm ?u t = RT_THREAD_SUSPEND" using d(2) by (simp add: kframe)
  have iu: "kinv ?u" by (rule kinv_timer_unlink[OF assms(1)])
  have off: "?i \<notin> set (timer_list ?u)" using d(1) tl by simp
  have ok: "thread_ok ?u t" using kbaseD(7)[OF kinv_partsD(1)[OF iu]] su by (simp add: live_def)
  have s2: "s2 = rt_schedule ?w" by (simp add: s2_def timer_fire_def timeout_unfold[OF su ok])
  have iw: "kinv ?w" by (rule timeout_wake_kinv[OF iu su off])
  have cw: "cur ?w = Some c" using assms(2) by (simp add: timeout_wake_cur kframe)
  note sch = rt_schedule_sel[OF iw cw]
  note oth = rt_schedule_others[OF iw cw]
  have os2: "one_shot s2" "tmo s2 = tmo s"
    unfolding s2 timer_sel_rt_schedule[OF iw cw]
    using assms(4) by (simp_all add: one_shot_def tmo_def timeout_wake_sel kframe fun_eq_iff)
  have s3: "s3 = clear_active ?i s2"
    unfolding s3_def by (rule timer_rearm_oneshot) (use os2(1) in \<open>simp add: one_shot_def\<close>)
  have tl2: "timer_list s2 = ts" by (simp add: s2 sch timeout_wake_sel tl)
  have i2: "kinv s2" unfolding s2 by (rule rt_schedule_kinv[OF iw cw])
  show "kinv s3" unfolding s3 by (rule kinv_clear_active[OF i2]) (use d(1) tl2 in simp)
  show "cur s3 \<noteq> None" unfolding s3 s2 using sch(2) by (simp add: kframe)
  show "timer_list s3 = ts" "tmo s3 = tmo s" "one_shot s3"
    unfolding s3 using tl2 os2 by (simp_all add: kframe)
  show t2: "tick s2 = tick s" unfolding s2 by (simp add: kframe timeout_wake_sel)
  show "tick s3 = tick s" unfolding s3 using t2 by (simp add: kframe)
  show "stuck s3 = stuck s" unfolding s3 s2 by (simp add: kframe sch(1) timeout_wake_sel)
  have st: "awake s3 v \<longleftrightarrow> awake s2 v" "statm s3 v = statm s2 v" for v
    by (simp_all add: s3 awake_def kframe)
  show "awake s3 t" unfolding st(1) unfolding s2 awake_def
    by (rule oth(2)) (simp add: timeout_wake_sel)
  show "t_error (thr s3 u) = (if u = t then -RT_ETIMEOUT else t_error (thr s u))"
    unfolding s3 s2 by (simp add: kframe timeout_wake_sel)
  show "awake s3 u" if "u \<noteq> t" "awake s u"
    unfolding st(1) unfolding s2 awake_def
    by (rule oth(2)) (use that in \<open>simp add: timeout_wake_sel kframe awake_def\<close>)
  show "statm s3 u = statm s u" if "u \<noteq> t" "\<not> awake s u"
    unfolding st(2) s2 using oth(1)[of u] that by (simp add: timeout_wake_sel kframe awake_def)
  show "ipc_same s s3"
    unfolding ipc_same_def s3 s2
    by (simp add: kframe clear_active_def timeout_wake_def upd_timer_def upd_thr_def timer_unlink_def)
  show "lists s3 l = removeAll t (lists s l)" if "wait_list l"
    unfolding s3 s2 using oth(3)[OF that] by (simp add: kframe timeout_wake_sel(6)[OF that])
qed

text \<open>
  The effect of timing out the threads of \<open>W\<close>: they are awake with error \<^verbatim>\<open>-RT_ETIMEOUT\<close> and have left
  the wait lists; every other thread keeps its error, stays blocked if it was, and keeps its place.
\<close>

definition timed_out :: "tid set \<Rightarrow> kernel \<Rightarrow> kernel \<Rightarrow> bool" where
  "timed_out W s s' \<longleftrightarrow>
     (\<forall>t \<in> W. awake s' t \<and> t_error (thr s' t) = -RT_ETIMEOUT) \<and>
     (\<forall>t. t \<notin> W \<longrightarrow> t_error (thr s' t) = t_error (thr s t) \<and> (awake s t \<longrightarrow> awake s' t) \<and>
        (\<not> awake s t \<longrightarrow> statm s' t = statm s t)) \<and>
     (\<forall>l. wait_list l \<longrightarrow> lists s' l = filter (\<lambda>t. t \<notin> W) (lists s l)) \<and>
     tick s' = tick s \<and> stuck s' = stuck s \<and> tmo s' = tmo s \<and> ipc_same s s'"

definition timers_idle :: "kernel \<Rightarrow> bool" where
  "timers_idle s \<longleftrightarrow> one_shot s \<and> (\<forall>i \<in> set (timer_list s). \<exists>t. i = ThreadTimer t)"

lemma timed_out_empty: "timed_out {} s s"
  by (simp add: timed_out_def)

lemma timed_out_insert:
  assumes "timed_out {t} s s1" "timed_out W s1 s'" "t \<notin> W"
  shows "timed_out (insert t W) s s'"
proof -
  note a = assms(1)[unfolded timed_out_def] and b = assms(2)[unfolded timed_out_def]
  have "awake s' t" "t_error (thr s' t) = -RT_ETIMEOUT" using a b assms(3) by simp_all
  moreover have "awake s' u" "t_error (thr s' u) = -RT_ETIMEOUT" if "u \<in> W" for u
    using b that by simp_all
  moreover have "t_error (thr s' u) = t_error (thr s u) \<and> (awake s u \<longrightarrow> awake s' u) \<and>
      (\<not> awake s u \<longrightarrow> statm s' u = statm s u)" if "u \<notin> insert t W" for u
  proof -
    have "t_error (thr s1 u) = t_error (thr s u) \<and> (awake s u \<longrightarrow> awake s1 u) \<and>
      (\<not> awake s u \<longrightarrow> statm s1 u = statm s u)" using a that by simp
    moreover have "t_error (thr s' u) = t_error (thr s1 u) \<and> (awake s1 u \<longrightarrow> awake s' u) \<and>
      (\<not> awake s1 u \<longrightarrow> statm s' u = statm s1 u)" using b that by simp
    ultimately show ?thesis by (auto simp: awake_def)
  qed
  moreover have "lists s' l = filter (\<lambda>u. u \<notin> insert t W) (lists s l)" if "wait_list l" for l
  proof -
    have "lists s1 l = filter (\<lambda>u. u \<noteq> t) (lists s l)" using a that by simp
    moreover have "lists s' l = filter (\<lambda>u. u \<notin> W) (lists s1 l)" using b that by simp
    ultimately show ?thesis by (simp add: conj_commute)
  qed
  moreover have "ipc_same s s'" using a b ipc_same_trans by blast
  ultimately show ?thesis using a b unfolding timed_out_def by simp
qed

lemma timer_round_timed_out:
  fixes tf :: "nat \<Rightarrow> kernel \<Rightarrow> kernel"
  assumes "kinv s" "cur s = Some c" "timer_list s = ThreadTimer t # ts" "one_shot s"
  shows "timed_out {t} s (timer_rearm (ThreadTimer t)
    (timer_fire tf (ThreadTimer t) (timer_unlink (ThreadTimer t) s)))"
proof -
  define s3 where "s3 = timer_rearm (ThreadTimer t)
    (timer_fire tf (ThreadTimer t) (timer_unlink (ThreadTimer t) s))"
  note r = timer_round[OF assms, where tf = tf, folded s3_def]
  have "lists s3 l = filter (\<lambda>u. u \<notin> {t}) (lists s l)" if "wait_list l" for l
  proof -
    have "removeAll t (lists s l) = filter (\<lambda>u. u \<notin> {t}) (lists s l)"
      unfolding removeAll_filter_not_eq by (rule filter_cong) auto
    then show ?thesis using r(13)[OF that] by simp
  qed
  moreover have "awake s3 t \<and> t_error (thr s3 t) = -RT_ETIMEOUT" using r(9) r(10)[of t] by simp
  moreover have "t_error (thr s3 u) = t_error (thr s u) \<and> (awake s u \<longrightarrow> awake s3 u) \<and>
        (\<not> awake s u \<longrightarrow> statm s3 u = statm s u)" if "u \<noteq> t" for u
    using r(10)[of u] r(11,12)[OF that] that by simp
  ultimately show ?thesis
    unfolding s3_def[symmetric] timed_out_def using r(4,6,8,14) by blast
qed

lemma timer_check_threads:
  fixes tf :: "nat \<Rightarrow> kernel \<Rightarrow> kernel"
  assumes "kinv s" "cur s \<noteq> None" "timers_idle s" "length (timer_list s) < fuel"
  shows "\<exists>s'. rt_timer_check_loop tf fuel (tick s) s = Some s' \<and> kinv s' \<and> cur s' \<noteq> None \<and>
    timers_idle s' \<and>
    timer_list s' = dropWhile (\<lambda>i. timer_expired (tick s) (tmo s i)) (timer_list s) \<and>
    timed_out {t. ThreadTimer t \<in>
      set (takeWhile (\<lambda>i. timer_expired (tick s) (tmo s i)) (timer_list s))} s s'"
  using assms
proof (induction "timer_list s" arbitrary: s fuel)
  case Nil
  then obtain n where f: "fuel = Suc n" by (cases fuel) auto
  show ?case
    using Nil(2-4) timed_out_empty[of s] by (auto simp: f Nil(1)[symmetric])
next
  case (Cons i ts)
  obtain n where f: "fuel = Suc n" using Cons(6) by (cases fuel) auto
  obtain t where i: "i = ThreadTimer t"
    using Cons(5) Cons(2)[symmetric] unfolding timers_idle_def by (metis list.set_intros(1))
  note tl = Cons(2)[symmetric, unfolded i]
  show ?case
  proof (cases "timer_expired (tick s) (tmo s (ThreadTimer t))")
    case False
    have "rt_timer_check_loop tf fuel (tick s) s = Some s"
      using False by (simp add: f tl tmo_def)
    with Cons(3-5) False timed_out_empty[of s] show ?thesis by (auto simp: tl)
  next
    case True
    obtain c where c: "cur s = Some c" using Cons(4) by auto
    have os: "one_shot s" using Cons(5) by (simp add: timers_idle_def)
    define s2 where "s2 = timer_fire tf (ThreadTimer t) (timer_unlink (ThreadTimer t) s)"
    define s3 where "s3 = timer_rearm (ThreadTimer t) s2"
    note r = timer_round[OF Cons(3) c tl os, where tf = tf, folded s2_def, folded s3_def]
    have step: "rt_timer_check_loop tf fuel (tick s) s = rt_timer_check_loop tf n (tick s3) s3"
      using True r(5,6) by (simp add: f tl tmo_def s2_def s3_def rt_tick_get_def Let_def)
    have d: "ThreadTimer t \<notin> set ts"
      using kbaseD(4)[OF kinv_partsD(1)[OF Cons(3)]] tl by (simp add: timers_ok_def)
    have idle: "timers_idle s3"
      using Cons(5) r(3,7) tl by (simp add: timers_idle_def)
    have len: "length (timer_list s3) < n" using Cons(6) r(3) tl by (simp add: f)
    obtain s' where s': "rt_timer_check_loop tf n (tick s3) s3 = Some s'" "kinv s'" "cur s' \<noteq> None"
      "timers_idle s'"
      "timer_list s' = dropWhile (\<lambda>i. timer_expired (tick s3) (tmo s3 i)) (timer_list s3)"
      "timed_out {t. ThreadTimer t \<in>
        set (takeWhile (\<lambda>i. timer_expired (tick s3) (tmo s3 i)) (timer_list s3))} s3 s'"
      using Cons(1)[OF r(3)[symmetric] r(1,2) idle len] by auto
    let ?E = "\<lambda>i. timer_expired (tick s) (tmo s i)"
    have "t \<notin> {u. ThreadTimer u \<in> set (takeWhile ?E ts)}"
      using d by (auto dest: set_takeWhileD)
    then have "timed_out (insert t {u. ThreadTimer u \<in> set (takeWhile ?E ts)}) s s'"
      using timed_out_insert[OF timer_round_timed_out[OF Cons(3) c tl os, of tf,
          folded s2_def, folded s3_def]] s'(6) unfolding r(3,4,6) by blast
    moreover have "insert t {u. ThreadTimer u \<in> set (takeWhile ?E ts)} =
        {u. ThreadTimer u \<in> set (takeWhile ?E (timer_list s))}"
      using True unfolding tl by auto
    moreover have "timer_list s' = dropWhile ?E (timer_list s)"
      using s'(5) True unfolding r(3,4,6) tl by simp
    ultimately show ?thesis using s'(1-4) unfolding step by simp
  qed
qed

section \<open>A tick\<close>

lemma expired_key:
  assumes "tkey b x < 2147483647" "tkey b ct < 2147483647"
  shows "timer_expired ct x \<longleftrightarrow> tkey b x \<le> tkey b ct"
proof (cases "ct - x = 0")
  case True
  then show ?thesis using tick_compare(1)[OF assms(2,1)] by (simp add: timer_expired_def)
next
  case False
  then show ?thesis
    using tick_compare(1)[OF assms(2,1)] tick_compare(2)[OF assms(2,1) False]
    by (simp add: timer_expired_def del: half_tick) auto
qed

lemma sorted_takeWhile:
  assumes "sorted (map f xs)"
  shows "takeWhile (\<lambda>x. f x \<le> k) xs = filter (\<lambda>x. f x \<le> k) xs"
    "dropWhile (\<lambda>x. f x \<le> k) xs = filter (\<lambda>x. \<not> f x \<le> (k :: nat)) xs"
  using assms
proof (induction xs)
  case (Cons x xs)
  {
    case 1
    then have "\<not> f x \<le> k \<Longrightarrow> filter (\<lambda>x. f x \<le> k) xs = []" by (auto simp: filter_empty_conv)
    with 1 Cons.IH(1) show ?case by simp
  next
    case 2
    then have "\<not> f x \<le> k \<Longrightarrow> filter (\<lambda>x. \<not> f x \<le> k) xs = xs" by (auto intro!: filter_True)
    with 2 Cons.IH(2) show ?case by simp
  }
qed simp_all

lemma tkey_step: "tkey b x \<noteq> 0 \<Longrightarrow> tkey (b + 1) x = tkey b x - 1"
proof -
  assume "tkey b x \<noteq> 0"
  then have "x - b \<noteq> 0" by (auto simp: tkey_def)
  then have "unat (x - b - 1) = unat (x - b) - 1" by (rule unat_dec_word)
  then show ?thesis by (simp add: tkey_def diff_diff_eq)
qed

lemma tkey_succ: "tkey b (b + 1) = 1"
  by (simp add: tkey_def)

lemma tick_account_props:
  assumes "kinv s" "cur s = Some c"
  shows "kinv (tick_account s)" "cur (tick_account s) \<noteq> None" "tick (tick_account s) = tick s + 1"
    "timer_list (tick_account s) = timer_list s" "timers (tick_account s) = timers s"
    "stuck (tick_account s) = stuck s" "t_error (thr (tick_account s) t) = t_error (thr s t)"
    "wait_list l \<Longrightarrow> lists (tick_account s) l = lists s l"
    "awake s t \<Longrightarrow> awake (tick_account s) t"
    "\<not> awake s t \<Longrightarrow> statm (tick_account s) t = statm s t" "ipc_same s (tick_account s)"
proof -
  let ?s1 = "s\<lparr>tick := tick s + 1\<rparr>"
  let ?s2 = "upd_thr c (\<lambda>th. th\<lparr>t_remaining_tick := t_remaining_tick th - 1\<rparr>) ?s1"
  let ?s3 = "upd_thr c (\<lambda>th. th\<lparr>t_remaining_tick := t_init_tick th\<rparr>) ?s2"
  have n: "neutral (\<lambda>th. th\<lparr>t_remaining_tick := t_remaining_tick th - 1\<rparr>)"
    "neutral (\<lambda>th. th\<lparr>t_remaining_tick := t_init_tick th\<rparr>)" by (simp_all add: neutral_def)
  have st1: "statm ?s1 = statm s" "prio ?s1 = prio s" "thread_ok ?s1 = thread_ok s"
    by (simp_all add: statm_def prio_def thread_ok_def fun_eq_iff)
  have i1: "kinv ?s1" using assms(1) by (subst kinv_frame) (simp_all add: st1)
  have i2: "kinv ?s2" using i1 by (simp add: kinv_upd_thr n)
  have i3: "kinv ?s3" using i2 by (simp add: kinv_upd_thr n)
  have c3: "cur ?s3 = Some c" using assms(2) by (simp add: kframe)
  note sch = rt_schedule_sel[OF i3 c3] and oth = rt_schedule_others[OF i3 c3]
  have st: "statm ?s2 = statm s" "statm ?s3 = statm s" by (simp_all add: kframe n st1)
  have er: "t_error (thr ?s2 t) = t_error (thr s t)" "t_error (thr ?s3 t) = t_error (thr s t)" for t
    by (simp_all add: upd_thr_def)
  have tk: "tick ?s2 = tick s + 1" "tick ?s3 = tick s + 1" by (simp_all add: upd_thr_def)
  have e: "tick_account s = (if t_remaining_tick (thr ?s2 c) = 0 then rt_schedule ?s3 else ?s2)"
    using assms(2) by (simp add: tick_account_def Let_def rt_thread_self_def rt_thread_yield_def)
  have r3: "kinv (rt_schedule ?s3)" by (rule rt_schedule_kinv[OF i3 c3])
  show "kinv (tick_account s)" using i2 r3 by (simp add: e)
  show "ipc_same s (tick_account s)"
    by (simp add: e ipc_same_def kframe) (simp add: upd_thr_def)
  show "cur (tick_account s) \<noteq> None" using sch(2) assms(2) by (simp add: e kframe)
  show "tick (tick_account s) = tick s + 1" using tk by (simp add: e kframe)
  show "timer_list (tick_account s) = timer_list s" "timers (tick_account s) = timers s"
    "stuck (tick_account s) = stuck s" using sch by (simp_all add: e kframe)
  show "t_error (thr (tick_account s) t) = t_error (thr s t)" using er by (simp add: e kframe)
  show "lists (tick_account s) l = lists s l" if "wait_list l"
    using oth(3)[OF that] by (simp add: e kframe)
  show "awake (tick_account s) t" if "awake s t"
    using oth(2)[of t] that by (simp add: e awake_def st)
  show "statm (tick_account s) t = statm s t" if "\<not> awake s t"
    using oth(1)[of t] that by (simp add: e awake_def st)
qed

text \<open>
  A tick wakes exactly the threads whose timers have expired, with error \<^verbatim>\<open>-RT_ETIMEOUT\<close>, in the order
  of the list, whatever the wrap-around of the counter.
\<close>

lemma tick_increase_threads:
  fixes tf :: "nat \<Rightarrow> kernel \<Rightarrow> kernel"
  assumes "kinv s" "cur s = Some c" "timers_idle s" "length (timer_list s) < fuel"
    and "timer_sorted (tick s) (tmo s) (timer_list s)"
  shows "\<exists>s'. rt_tick_increase tf fuel s = Some s' \<and> kinv s' \<and> cur s' \<noteq> None \<and> timers_idle s' \<and>
    tick s' = tick s + 1 \<and> timer_sorted (tick s') (tmo s') (timer_list s') \<and> stuck s' = stuck s \<and>
    timer_list s' = filter (\<lambda>i. \<not> tkey (tick s) (tmo s i) \<le> 1) (timer_list s) \<and>
    (\<forall>t. ThreadTimer t \<in> set (timer_list s) \<longrightarrow> tkey (tick s) (tmo s (ThreadTimer t)) \<le> 1 \<longrightarrow>
       awake s' t \<and> t_error (thr s' t) = -RT_ETIMEOUT) \<and>
    (\<forall>l. wait_list l \<longrightarrow> lists s' l = filter (\<lambda>t. \<not> (ThreadTimer t \<in> set (timer_list s) \<and>
       tkey (tick s) (tmo s (ThreadTimer t)) \<le> 1)) (lists s l)) \<and> ipc_same s s' \<and>
    (\<forall>t. \<not> (ThreadTimer t \<in> set (timer_list s) \<and> tkey (tick s) (tmo s (ThreadTimer t)) \<le> 1) \<longrightarrow>
       t_error (thr s' t) = t_error (thr s t) \<and> (\<not> awake s t \<longrightarrow> statm s' t = statm s t)) \<and>
    tmo s' = tmo s"
proof -
  let ?a = "tick_account s"
  note a = tick_account_props[OF assms(1,2)]
  let ?E = "\<lambda>i. timer_expired (tick ?a) (tmo ?a i)"
  let ?k = "\<lambda>i. tkey (tick s) (tmo s i)"
  have tmo: "tmo ?a = tmo s" by (simp add: tmo_def a(5) fun_eq_iff)
  have idle: "timers_idle ?a" using assms(3) by (simp add: timers_idle_def one_shot_def a(4,5))
  have len: "length (timer_list ?a) < fuel" using assms(4) by (simp add: a(4))
  obtain s' where s': "rt_timer_check_loop tf fuel (tick ?a) ?a = Some s'" "kinv s'" "cur s' \<noteq> None"
    "timers_idle s'" "timer_list s' = dropWhile ?E (timer_list ?a)"
    "timed_out {t. ThreadTimer t \<in> set (takeWhile ?E (timer_list ?a))} ?a s'"
    using timer_check_threads[OF a(1,2) idle len] by blast
  have srt: "sorted (map ?k (timer_list s))"
    and lt: "\<And>i. i \<in> set (timer_list s) \<Longrightarrow> ?k i < 2147483647"
    using assms(5) by (auto simp: timer_sorted_def)
  have E: "?E i \<longleftrightarrow> ?k i \<le> 1" if "i \<in> set (timer_list s)" for i
    using expired_key[OF lt[OF that], of "tick s + 1"] by (simp add: tmo a(3) tkey_succ)
  have tw: "takeWhile ?E (timer_list ?a) = filter (\<lambda>i. ?k i \<le> 1) (timer_list s)"
    "dropWhile ?E (timer_list ?a) = filter (\<lambda>i. \<not> ?k i \<le> 1) (timer_list s)"
    unfolding a(4) sorted_takeWhile[OF srt, symmetric]
    by (rule takeWhile_cong dropWhile_cong; simp add: E)+
  note to = s'(6)[unfolded tw(1) timed_out_def]
  have tl: "timer_list s' = filter (\<lambda>i. \<not> ?k i \<le> 1) (timer_list s)" using s'(5) tw(2) by simp
  have tk: "tick s' = tick s + 1" and tm: "tmo s' = tmo s" and stk: "stuck s' = stuck s"
    using to a(3,6) tmo by simp_all
  have "timer_sorted (tick s') (tmo s') (timer_list s')"
  proof -
    have key: "tkey (tick s') (tmo s' i) = ?k i - 1" if "i \<in> set (timer_list s')" for i
      using that tkey_step[of "tick s" "tmo s i"] unfolding tk tm tl by simp
    have "map (\<lambda>i. tkey (tick s') (tmo s' i)) (timer_list s') = map (\<lambda>n. n - 1) (map ?k (timer_list s'))"
      using key by simp
    moreover have "sorted (map ?k (timer_list s'))" unfolding tl using srt by (rule sorted_filter)
    ultimately have "sorted (map (\<lambda>i. tkey (tick s') (tmo s' i)) (timer_list s'))"
      by (simp add: sorted_map) (rule sorted_wrt_mono_rel[rotated], assumption, simp)
    moreover have "tkey (tick s') (tmo s' i) < 2147483647" if "i \<in> set (timer_list s')" for i
      using key[OF that] lt[of i] that unfolding tl by auto
    ultimately show ?thesis by (simp add: timer_sorted_def)
  qed
  moreover have "lists s' l = filter (\<lambda>t. \<not> (ThreadTimer t \<in> set (timer_list s) \<and>
       ?k (ThreadTimer t) \<le> 1)) (lists s l)" if "wait_list l" for l
    using to a(8)[OF that] that by simp
  moreover have "ipc_same s s'" using to a(11) ipc_same_trans by blast
  moreover have "awake s' t \<and> t_error (thr s' t) = -RT_ETIMEOUT"
    if "ThreadTimer t \<in> set (timer_list s)" "?k (ThreadTimer t) \<le> 1" for t
    using to that by simp
  moreover have "t_error (thr s' t) = t_error (thr s t) \<and> (\<not> awake s t \<longrightarrow> statm s' t = statm s t)"
    if "\<not> (ThreadTimer t \<in> set (timer_list s) \<and> ?k (ThreadTimer t) \<le> 1)" for t
  proof -
    have "t_error (thr s' t) = t_error (thr ?a t) \<and> (\<not> awake ?a t \<longrightarrow> statm s' t = statm ?a t)"
      using to that by simp
    moreover have "\<not> awake s t \<Longrightarrow> \<not> awake ?a t" using a(10)[of t] by (simp add: awake_def)
    ultimately show ?thesis using a(7,10)[of t] by simp
  qed
  moreover have "rt_tick_increase tf fuel s = Some s'"
    using s'(1) by (simp add: rt_tick_increase_def rt_timer_check_def rt_tick_get_def)
  ultimately show ?thesis using s'(2-4) tl tk stk tm
    by (intro exI[of _ s'] conjI allI impI) simp_all
qed

end
