(* ===== verification/Ipc.thy ===== *)
theory Ipc
  imports Clock
begin

text \<open>
  The common part of \<^verbatim>\<open>rt-thread/src/ipc.c\<close>: suspending the running thread on the wait list of an IPC
  object in arrival or priority order, waking the first or all waiting threads. A call that blocks ends
  at its \<^verbatim>\<open>rt_schedule\<close> with outcome \<open>Blocked\<close>; the value it returns when the thread runs again is given
  by a separate definition. Timeouts are the signed \<^verbatim>\<open>rt_int32_t\<close> values of the code, kept as words.
\<close>

datatype outcome = Ret int | Blocked

section \<open>Operations\<close>

definition in_thread_context :: "kernel \<Rightarrow> bool" where
  "in_thread_context s \<longleftrightarrow> rt_thread_self s \<noteq> None \<and> int_nest s = 0"

definition rt_ipc_object_init :: "listid \<Rightarrow> kernel \<Rightarrow> kernel" where
  "rt_ipc_object_init l s = s\<lparr>lists := (lists s)(l := [])\<rparr>"

text \<open>The priority order: behind the threads of equal or higher priority.\<close>

fun prio_insert :: "(tid \<Rightarrow> u8) \<Rightarrow> tid \<Rightarrow> tid list \<Rightarrow> tid list" where
  "prio_insert pr t [] = [t]"
| "prio_insert pr t (x # xs) = (if pr t < pr x then t # x # xs else x # prio_insert pr t xs)"

definition wait_insert :: "u8 \<Rightarrow> (tid \<Rightarrow> u8) \<Rightarrow> tid \<Rightarrow> tid list \<Rightarrow> tid list" where
  "wait_insert flag pr t q =
     (if flag = RT_IPC_FLAG_FIFO then q @ [t]
      else if flag = RT_IPC_FLAG_PRIO then prio_insert pr t q
      else q)"

definition rt_ipc_list_suspend :: "listid \<Rightarrow> tid \<Rightarrow> u8 \<Rightarrow> kernel \<Rightarrow> kernel" where
  "rt_ipc_list_suspend l t flag s =
     (let s1 = snd (rt_thread_suspend t s)
      in s1\<lparr>lists := (lists s1)(l :=
           wait_insert flag (\<lambda>u. t_current_priority (thr s1 u)) t (lists s1 l))\<rparr>)"

definition rt_ipc_list_resume :: "listid \<Rightarrow> kernel \<Rightarrow> kernel" where
  "rt_ipc_list_resume l s =
     (case lists s l of [] \<Rightarrow> fail s | t # _ \<Rightarrow> snd (rt_thread_resume t s))"

text \<open>
  The loop of \<^verbatim>\<open>rt_ipc_list_resume_all\<close>. A round that does not shorten the list repeats for ever, so
  running out of one unit of fuel per waiting thread is being stuck.
\<close>

fun resume_all_loop :: "nat \<Rightarrow> listid \<Rightarrow> kernel \<Rightarrow> kernel" where
  "resume_all_loop 0 l s = (if lists s l = [] then s else fail s)"
| "resume_all_loop (Suc n) l s =
     (case lists s l of
        [] \<Rightarrow> s
      | t # _ \<Rightarrow> resume_all_loop n l
          (snd (rt_thread_resume t (upd_thr t (\<lambda>th. th\<lparr>t_error := -RT_ERROR\<rparr>) s))))"

definition rt_ipc_list_resume_all :: "listid \<Rightarrow> kernel \<Rightarrow> kernel" where
  "rt_ipc_list_resume_all l s = resume_all_loop (length (lists s l)) l s"

text \<open>
  The part every blocking call shares: suspend the thread on the list, start its timer when the timeout
  is positive (a negative one waits for ever), and give up the processor.
\<close>

definition give_up :: "tid \<Rightarrow> u32 \<Rightarrow> kernel \<Rightarrow> kernel" where
  "give_up t time s = rt_schedule (if 0 < sint time then start_thread_timer t time s else s)"

definition block_on :: "listid \<Rightarrow> tid \<Rightarrow> u8 \<Rightarrow> u32 \<Rightarrow> kernel \<Rightarrow> kernel" where
  "block_on l t flag time s = give_up t time (rt_ipc_list_suspend l t flag s)"

section \<open>Waiting lists\<close>

lemma set_prio_insert [simp]: "set (prio_insert pr t q) = insert t (set q)"
  by (induction q) auto

lemma distinct_prio_insert [simp]: "distinct (prio_insert pr t q) \<longleftrightarrow> distinct q \<and> t \<notin> set q"
  by (induction q) auto

lemma set_wait_insert: "set (wait_insert flag pr t q) \<subseteq> insert t (set q)"
  by (auto simp: wait_insert_def)

lemma distinct_wait_insert: "distinct q \<Longrightarrow> t \<notin> set q \<Longrightarrow> distinct (wait_insert flag pr t q)"
  by (simp add: wait_insert_def)

text \<open>The queue discipline that is promised, apart from the loop of the code: at the end, or in front of the first thread of lower priority.\<close>

definition queued :: "u8 \<Rightarrow> (tid \<Rightarrow> u8) \<Rightarrow> tid \<Rightarrow> tid list \<Rightarrow> tid list" where
  "queued flag pr t q =
     (if flag = RT_IPC_FLAG_FIFO then q @ [t]
      else if flag = RT_IPC_FLAG_PRIO then takeWhile (\<lambda>x. pr x \<le> pr t) q @ t # dropWhile (\<lambda>x. pr x \<le> pr t) q
      else q)"

lemma prio_insert_split: "prio_insert pr t q = takeWhile (\<lambda>x. pr x \<le> pr t) q @ t # dropWhile (\<lambda>x. pr x \<le> pr t) q"
  by (induction q) auto

lemma wait_insert_queued: "wait_insert flag pr t q = queued flag pr t q"
  by (simp add: wait_insert_def queued_def prio_insert_split)

text \<open>The list stays sorted by priority, and threads of equal priority keep their arrival order.\<close>

lemma sorted_prio_insert: "sorted (map pr q) \<Longrightarrow> sorted (map pr (prio_insert pr t q))"
  by (induction q) auto

lemma queued_prio:
  assumes "sorted (map pr q)"
  shows "sorted (map pr (queued RT_IPC_FLAG_PRIO pr t q))"
    "filter (\<lambda>x. pr x = p) (queued RT_IPC_FLAG_PRIO pr t q) = filter (\<lambda>x. pr x = p) q @ (if pr t = p then [t] else [])"
proof -
  have "queued RT_IPC_FLAG_PRIO pr t q = prio_insert pr t q" by (simp add: queued_def prio_insert_split)
  moreover have "filter (\<lambda>x. pr x = p) (prio_insert pr t q) = filter (\<lambda>x. pr x = p) q @ (if pr t = p then [t] else [])"
    using assms proof (induction q)
    case (Cons x q)
    have "filter (\<lambda>y. pr y = pr t) q = []" if "pr t < pr x" using Cons.prems that by (fastforce simp: filter_empty_conv)
    then show ?case using Cons by auto
  qed simp
  ultimately show "sorted (map pr (queued RT_IPC_FLAG_PRIO pr t q))"
    "filter (\<lambda>x. pr x = p) (queued RT_IPC_FLAG_PRIO pr t q) = filter (\<lambda>x. pr x = p) q @ (if pr t = p then [t] else [])"
    using sorted_prio_insert[OF assms] by simp_all
qed

section \<open>The invariant\<close>

lemma kbase_wait_insert:
  assumes "kbase X s" "wait_list l" "statm s t = RT_THREAD_SUSPEND" "detached s t" "t \<notin> X"
    and q: "set q \<subseteq> insert t (set (lists s l))" "distinct q"
  shows "kbase X (s\<lparr>lists := (lists s)(l := q)\<rparr>)"
proof -
  note k = kbaseD[OF assms(1)]
  let ?s = "s\<lparr>lists := (lists s)(l := q)\<rparr>"
  have d: "t \<notin> set (lists s l')" for l' using assms(4) by (simp add: detached_def)
  have nl: "l \<noteq> ReadyL p" "l \<noteq> DefunctL" for p using assms(2) by auto
  have mem: "u = t \<and> l' = l \<or> u \<in> set (lists s l')" if "u \<in> set (lists ?s l')" for u l'
    using that q(1) by (cases "l' = l") auto
  have "distinct (lists ?s l')" for l'
    using k(1) q(2) by (auto simp: lists_ok_def)
  moreover have "l' = l''" if "u \<in> set (lists ?s l')" "u \<in> set (lists ?s l'')" for u l' l''
    using mem[OF that(1)] mem[OF that(2)] d k(1) unfolding lists_ok_def by blast
  ultimately have "lists_ok ?s" unfolding lists_ok_def by blast
  moreover have "members_ok ?s"
  proof -
    have "statm s u = RT_THREAD_SUSPEND" if "wait_list l'" "u \<in> set (lists ?s l')" for u l'
      using mem[OF that(2)] assms(3) members_okD(3)[OF k(2) _ that(1)] by blast
    then show ?thesis using k(2) nl nl[symmetric] unfolding members_ok_def by (simp add: kframe)
  qed
  moreover have "detached ?s u" if "u \<in> X" for u
    using k(5)[OF that] mem assms(5) that unfolding detached_def by blast
  ultimately show ?thesis using k(3,4,6,7) nl nl[symmetric]
    by (simp add: kbase_def kframe bits_ok_def timers_ok_def)
qed

lemma kcur_wait_insert:
  "wait_list l \<Longrightarrow> kcur (s\<lparr>lists := (lists s)(l := q)\<rparr>) = kcur s"
  by (cases l) (simp_all add: kcur_def kframe)

text \<open>Suspending the running thread and putting it into a wait list, which becomes \<open>q\<close>.\<close>

definition park :: "listid \<Rightarrow> tid list \<Rightarrow> tid \<Rightarrow> kernel \<Rightarrow> kernel" where
  "park l q t s = (let s1 = snd (rt_thread_suspend t s) in s1\<lparr>lists := (lists s1)(l := q)\<rparr>)"

lemma park_effect:
  fixes q :: "tid list"
  assumes "kinv s" "cur s = Some c" "statm s c = RT_THREAD_RUNNING" "wait_list l"
    and q: "set q \<subseteq> insert c (set (lists s l))" "distinct q"
  defines "s' \<equiv> park l q c s"
  shows "kinv s'" "cur s' = Some c" "lists s' = (lists s)(l := q)"
    "statm s' u = (if u = c then RT_THREAD_SUSPEND else statm s u)"
    "stuck s' = stuck s" "lock_nest s' = lock_nest s"
    "thread_ok s' = thread_ok s" "t_error (thr s' u) = t_error (thr s u)"
    "t_event_set (thr s' u) = t_event_set (thr s u)"
    "t_event_info (thr s' u) = t_event_info (thr s u)" "tick s' = tick s"
    "sems s' = sems s" "mutexes s' = mutexes s" "events s' = events s" "mboxes s' = mboxes s"
    "prio s' = prio s" "mqs s' = mqs s" "mps s' = mps s"
proof -
  let ?z = "snd (rt_thread_suspend c s)"
  note sr = suspend_running[OF assms(1-3)]
  note k = kinv_partsD[OF assms(1)]
  have iz: "kinv ?z" by (rule rt_thread_suspend_kinv[OF assms(1)])
  have e: "s' = ?z\<lparr>lists := (lists ?z)(l := q)\<rparr>" by (simp add: s'_def park_def Let_def)
  have d: "detached ?z c"
    using detached_running[OF k(1) assms(3)] by (simp add: detached_def sr(3))
  have "kbase {} s'"
    unfolding e
    by (rule kbase_wait_insert[OF kinv_partsD(1)[OF iz] assms(4) _ d]) (use q in \<open>simp_all add: sr(2,3)\<close>)
  moreover have "kcur s'"
    unfolding e kcur_wait_insert[OF assms(4)] by (rule kinv_partsD(2)[OF iz])
  ultimately show "kinv s'" by (simp add: kinv_def)
  show "cur s' = Some c" using assms(2) by (simp add: e kframe)
  show "lists s' = (lists s)(l := q)" by (simp add: e sr(3))
  show "statm s' u = (if u = c then RT_THREAD_SUSPEND else statm s u)" by (simp add: e kframe sr(2))
  show "stuck s' = stuck s" by (simp add: e sr(4))
  show "lock_nest s' = lock_nest s" "thread_ok s' = thread_ok s" "prio s' = prio s"
    by (simp_all add: e kframe)
  show "t_error (thr s' u) = t_error (thr s u)" "t_event_set (thr s' u) = t_event_set (thr s u)"
    "t_event_info (thr s' u) = t_event_info (thr s u)" "tick s' = tick s"
    "sems s' = sems s" "mutexes s' = mutexes s" "events s' = events s" "mboxes s' = mboxes s"
    "mqs s' = mqs s" "mps s' = mps s"
    unfolding e sr(1)
    by (simp_all add: kframe set_stat_def upd_thr_def rt_timer_stop_def timer_unlink_def upd_timer_def
        rt_schedule_remove_thread_def list_remove_def fail_def Let_def)
qed

lemma list_suspend_park:
  assumes "kinv s" "cur s = Some c" "statm s c = RT_THREAD_RUNNING"
  shows "rt_ipc_list_suspend l c flag s =
    park l (wait_insert flag (\<lambda>u. t_current_priority (thr s u)) c (lists s l)) c s"
proof -
  note sr = suspend_running[OF assms]
  have "t_current_priority (thr (snd (rt_thread_suspend c s)) u) = t_current_priority (thr s u)" for u
    unfolding sr(1) by (simp add: kframe set_stat_def upd_thr_def)
  then show ?thesis by (simp add: rt_ipc_list_suspend_def park_def Let_def sr(3))
qed

lemma start_thread_timer_keeps [kframe]:
  "t_error (thr (start_thread_timer t time s) u) = t_error (thr s u)"
  "t_event_set (thr (start_thread_timer t time s) u) = t_event_set (thr s u)"
  "t_event_info (thr (start_thread_timer t time s) u) = t_event_info (thr s u)"
  "sems (start_thread_timer t time s) = sems s" "mutexes (start_thread_timer t time s) = mutexes s"
  "events (start_thread_timer t time s) = events s" "mboxes (start_thread_timer t time s) = mboxes s"
  "mqs (start_thread_timer t time s) = mqs s" "mps (start_thread_timer t time s) = mps s"
  by (simp_all add: start_thread_timer_def rt_timer_start_def rt_timer_control_def fail_def
      upd_timer_def timer_unlink_def Let_def)

text \<open>What a blocking call leaves behind.\<close>

lemma give_up_effect:
  fixes q :: "tid list" and time :: u32
  assumes "kinv s" "cur s = Some c" "statm s c = RT_THREAD_RUNNING" "wait_list l"
    and q: "set q \<subseteq> insert c (set (lists s l))" "distinct q"
  defines "s' \<equiv> give_up c time (park l q c s)"
  shows "kinv s'" "cur s' \<noteq> None" "statm s' c = RT_THREAD_SUSPEND"
    "wait_list l' \<Longrightarrow> lists s' l' = (if l' = l then q else lists s l')"
    "u \<noteq> c \<Longrightarrow> awake s u \<Longrightarrow> awake s' u"
    "u \<noteq> c \<Longrightarrow> \<not> awake s u \<Longrightarrow> statm s' u = statm s u"
    "t_error (thr s' u) = t_error (thr s u)"
    "t_event_set (thr s' u) = t_event_set (thr s u)"
    "t_event_info (thr s' u) = t_event_info (thr s u)" "tick s' = tick s"
    "sems s' = sems s" "mutexes s' = mutexes s" "events s' = events s" "mboxes s' = mboxes s"
    "prio s' = prio s"
    "sint time < 2147483647 \<Longrightarrow> stuck s' = stuck s" "mqs s' = mqs s" "mps s' = mps s"
proof -
  let ?s1 = "park l q c s"
  let ?s2 = "if 0 < sint time then start_thread_timer c time ?s1 else ?s1"
  note e = park_effect[OF assms(1-4) q]
  have i2: "kinv ?s2" using e(1) kinv_start_thread_timer[OF e(1), of c time] e(4) by simp
  have c2: "cur ?s2 = Some c" using e(2) by (simp add: kframe)
  have st2: "statm ?s2 v = statm ?s1 v" "lists ?s2 = lists ?s1" for v by (simp_all add: kframe)
  have s': "s' = rt_schedule ?s2" by (simp add: s'_def give_up_def)
  note oth = rt_schedule_others[OF i2 c2] and sel = rt_schedule_sel[OF i2 c2]
  have aw: "awake ?s2 v \<longleftrightarrow> v \<noteq> c \<and> awake s v" for v unfolding awake_def st2 e(4) by simp
  show "kinv s'" unfolding s' by (rule rt_schedule_kinv[OF i2 c2])
  show "cur s' \<noteq> None" unfolding s' by (rule sel(2))
  show "statm s' c = RT_THREAD_SUSPEND" unfolding s' using oth(1)[of c] by (simp add: st2 e(4))
  show "lists s' l' = (if l' = l then q else lists s l')"
    if "wait_list l'"
    unfolding s' oth(3)[OF that] st2 e(3) by simp
  show "awake s' u" if "u \<noteq> c" "awake s u"
    using oth(2)[of u] aw[of u] that unfolding s' awake_def by blast
  show "statm s' u = statm s u" if "u \<noteq> c" "\<not> awake s u"
    using oth(1)[of u] that unfolding s' awake_def st2 e(4) by simp
  show "t_error (thr s' u) = t_error (thr s u)" "t_event_set (thr s' u) = t_event_set (thr s u)"
    "t_event_info (thr s' u) = t_event_info (thr s u)" "tick s' = tick s"
    "sems s' = sems s" "mutexes s' = mutexes s" "events s' = events s" "mboxes s' = mboxes s"
    "mqs s' = mqs s" "mps s' = mps s"
    unfolding s' by (simp_all add: kframe e(8-15,17,18))
  show "prio s' = prio s" unfolding s' sel(6) by (simp add: kframe e(16))
  show "stuck s' = stuck s" if "sint time < 2147483647"
  proof (cases "0 < sint time")
    case False
    then show ?thesis unfolding s' sel(1) by (simp add: e(5))
  next
    case True
    have "thread_ok s c"
      using kbaseD(7)[OF kinv_partsD(1)[OF assms(1)]] assms(3) by (simp add: live_def)
    then have ok: "thread_ok ?s1 c" by (simp add: e(7))
    have "sint time = uint time" using True by (intro sint_eq_uint_if_nonneg) simp
    then have "time < 2147483647" using that by (simp add: word_less_def)
    with start_thread_timer_stuck[OF ok] True show ?thesis unfolding s' sel(1) by (simp add: e(5))
  qed
qed

text \<open>The same for the wait lists of the IPC objects, in the order their flag asks for.\<close>

lemma block_on_effect:
  fixes flag :: u8 and time :: u32
  assumes "kinv s" "cur s = Some c" "statm s c = RT_THREAD_RUNNING" "wait_list l"
  defines "s' \<equiv> block_on l c flag time s"
  shows "kinv s'" "cur s' \<noteq> None" "statm s' c = RT_THREAD_SUSPEND"
    "wait_list l' \<Longrightarrow> lists s' l' = (if l' = l
       then wait_insert flag (\<lambda>u. t_current_priority (thr s u)) c (lists s l) else lists s l')"
    "u \<noteq> c \<Longrightarrow> awake s u \<Longrightarrow> awake s' u"
    "u \<noteq> c \<Longrightarrow> \<not> awake s u \<Longrightarrow> statm s' u = statm s u"
    "t_error (thr s' u) = t_error (thr s u)"
    "t_event_set (thr s' u) = t_event_set (thr s u)"
    "t_event_info (thr s' u) = t_event_info (thr s u)" "tick s' = tick s"
    "sems s' = sems s" "mutexes s' = mutexes s" "events s' = events s" "mboxes s' = mboxes s"
    "prio s' = prio s"
    "sint time < 2147483647 \<Longrightarrow> stuck s' = stuck s" "mqs s' = mqs s" "mps s' = mps s"
proof -
  have k: "kbase {} s" using assms(1) by (simp add: kinv_def)
  have "c \<notin> set (lists s l)" using detached_running[OF k assms(3)] by (simp add: detached_def)
  then have d: "distinct (wait_insert flag (\<lambda>u. t_current_priority (thr s u)) c (lists s l))"
    using kbaseD(1)[OF k] by (intro distinct_wait_insert) (simp_all add: lists_ok_def)
  have e: "s' = give_up c time
      (park l (wait_insert flag (\<lambda>u. t_current_priority (thr s u)) c (lists s l)) c s)"
    by (simp add: s'_def block_on_def list_suspend_park[OF assms(1-3)])
  note g = give_up_effect[OF assms(1-4) set_wait_insert d, where time = time, folded e]
  show "kinv s'" "cur s' \<noteq> None" "statm s' c = RT_THREAD_SUSPEND"
    "wait_list l' \<Longrightarrow> lists s' l' = (if l' = l
       then wait_insert flag (\<lambda>u. t_current_priority (thr s u)) c (lists s l) else lists s l')"
    "u \<noteq> c \<Longrightarrow> awake s u \<Longrightarrow> awake s' u"
    "u \<noteq> c \<Longrightarrow> \<not> awake s u \<Longrightarrow> statm s' u = statm s u"
    "t_error (thr s' u) = t_error (thr s u)"
    "t_event_set (thr s' u) = t_event_set (thr s u)"
    "t_event_info (thr s' u) = t_event_info (thr s u)" "tick s' = tick s"
    "sems s' = sems s" "mutexes s' = mutexes s" "events s' = events s" "mboxes s' = mboxes s"
    "prio s' = prio s"
    "sint time < 2147483647 \<Longrightarrow> stuck s' = stuck s" "mqs s' = mqs s" "mps s' = mps s"
    by (rule g; assumption?)+
qed

text \<open>Waking a suspended thread, wherever it waits.\<close>

lemma resume_effect:
  assumes "kinv s" "statm s t = RT_THREAD_SUSPEND"
  defines "s' \<equiv> snd (rt_thread_resume t s)"
  shows "kinv s'" "cur s' = cur s" "awake s' t"
    "wait_list l' \<Longrightarrow> lists s' l' = removeAll t (lists s l')"
    "u \<noteq> t \<Longrightarrow> statm s' u = statm s u"
    "t_error (thr s' u) = t_error (thr s u)"
    "t_event_set (thr s' u) = t_event_set (thr s u)"
    "t_event_info (thr s' u) = t_event_info (thr s u)" "tick s' = tick s"
    "sems s' = sems s" "mutexes s' = mutexes s" "events s' = events s" "mboxes s' = mboxes s"
    "prio s' = prio s" "stuck s' = stuck s" "mqs s' = mqs s" "mps s' = mps s"
proof -
  let ?z = "snd (rt_timer_stop (ThreadTimer t) (list_remove t s))"
  note k = kinv_partsD[OF assms(1)] and st = assms(2)
  have ok: "thread_ok s t" using kbaseD(7)[OF k(1)] st by (simp add: live_def)
  have s': "s' = rt_schedule_insert_thread t ?z"
    using st ok by (simp add: s'_def rt_thread_resume_def Let_def thread_ok_def)
  show "kinv s'" unfolding s' by (rule kinv_wake[OF assms(1) st])
  show "cur s' = cur s" unfolding s' by (simp add: insert_thread_sel kframe)
  have stz: "statm ?z v = statm s v" "cur ?z = cur s" for v by (simp_all add: kframe)
  have st': "statm s' v = (if v = t then if cur s = Some t then RT_THREAD_RUNNING
      else RT_THREAD_READY else statm s v)" for v
    unfolding s' using stz insert_thread_sel(1)[of ?z t v]
    by (cases "cur s = Some t") (simp_all add: insert_thread_cur kframe)
  show "awake s' t" by (simp add: awake_def st')
  show "statm s' u = statm s u" if "u \<noteq> t" using that by (simp add: st')
  show "lists s' l' = removeAll t (lists s l')" if "wait_list l'"
  proof -
    have nr: "l' \<noteq> ReadyL p" for p using that by auto
    have lz: "lists ?z l' = removeAll t (lists s l')" by (simp add: kframe)
    show ?thesis
      unfolding s' lz[symmetric] using nr insert_thread_sel(9)[of ?z t]
      by (cases "cur ?z = Some t") (simp_all add: insert_thread_cur kframe)
  qed
  show "t_error (thr s' u) = t_error (thr s u)" "t_event_set (thr s' u) = t_event_set (thr s u)"
    "t_event_info (thr s' u) = t_event_info (thr s u)" "tick s' = tick s"
    "sems s' = sems s" "mutexes s' = mutexes s" "events s' = events s" "mboxes s' = mboxes s"
    "mqs s' = mqs s" "mps s' = mps s"
    unfolding s'
    by (simp_all add: kframe rt_timer_stop_def timer_unlink_def upd_timer_def)
  show "prio s' = prio s" unfolding s' by (simp add: insert_thread_sel kframe)
  have "rt_object_get_type (tm_type (timers (list_remove t s) (ThreadTimer t))) = RT_Object_Class_Timer"
    using ok by (simp add: kframe thread_ok_def)
  then show "stuck s' = stuck s" unfolding s' by (simp add: insert_thread_sel kframe)
qed

lemma wait_list_member:
  assumes "kinv s" "wait_list l" "t \<in> set (lists s l)"
  shows "statm s t = RT_THREAD_SUSPEND" "distinct (lists s l)"
    "l' \<noteq> l \<Longrightarrow> t \<notin> set (lists s l')"
proof -
  note k = kinv_partsD(1)[OF assms(1)]
  show "statm s t = RT_THREAD_SUSPEND" by (rule members_okD(3)[OF kbaseD(2)[OF k] assms(3,2)])
  show "distinct (lists s l)" "l' \<noteq> l \<Longrightarrow> t \<notin> set (lists s l')"
    using kbaseD(1)[OF k] assms(3) unfolding lists_ok_def by blast+
qed

text \<open>Waking the first waiting thread.\<close>

lemma list_resume_effect:
  assumes "kinv s" "wait_list l" "lists s l = t # q"
  defines "s' \<equiv> rt_ipc_list_resume l s"
  shows "kinv s'" "cur s' = cur s" "awake s' t"
    "wait_list l' \<Longrightarrow> lists s' l' = (if l' = l then q else lists s l')"
    "u \<noteq> t \<Longrightarrow> statm s' u = statm s u"
    "t_error (thr s' u) = t_error (thr s u)"
    "t_event_set (thr s' u) = t_event_set (thr s u)"
    "t_event_info (thr s' u) = t_event_info (thr s u)" "tick s' = tick s"
    "sems s' = sems s" "mutexes s' = mutexes s" "events s' = events s" "mboxes s' = mboxes s"
    "prio s' = prio s" "stuck s' = stuck s" "statm s t = RT_THREAD_SUSPEND"
    "mqs s' = mqs s" "mps s' = mps s"
proof -
  have tl: "t \<in> set (lists s l)" using assms(3) by simp
  note m = wait_list_member[OF assms(1,2) tl]
  show "statm s t = RT_THREAD_SUSPEND" by (rule m(1))
  have e: "s' = snd (rt_thread_resume t s)" by (simp add: s'_def rt_ipc_list_resume_def assms(3))
  note r = resume_effect[OF assms(1) m(1), folded e]
  show "kinv s'" "cur s' = cur s" "awake s' t" "u \<noteq> t \<Longrightarrow> statm s' u = statm s u"
    "t_error (thr s' u) = t_error (thr s u)" "t_event_set (thr s' u) = t_event_set (thr s u)"
    "t_event_info (thr s' u) = t_event_info (thr s u)" "tick s' = tick s"
    "sems s' = sems s" "mutexes s' = mutexes s" "events s' = events s" "mboxes s' = mboxes s"
    "prio s' = prio s" "stuck s' = stuck s" "mqs s' = mqs s" "mps s' = mps s"
    by (rule r(1-3,5-17); assumption?)+
  show "lists s' l' = (if l' = l then q else lists s l')" if "wait_list l'"
  proof (cases "l' = l")
    case True
    have "t \<notin> set q" using m(2) assms(3) by simp
    then show ?thesis using r(4)[OF that] True assms(3) by (simp add: removeAll_id_if_notin)
  next
    case False
    then show ?thesis using r(4)[OF that] m(3)[OF False] by (simp add: removeAll_id_if_notin)
  qed
qed

text \<open>Waking all waiting threads, which see \<^verbatim>\<open>-RT_ERROR\<close>.\<close>

lemma set_error_sel [kframe]:
  "sems (upd_thr t f s) = sems s" "mutexes (upd_thr t f s) = mutexes s"
  "events (upd_thr t f s) = events s" "mboxes (upd_thr t f s) = mboxes s"
  "mqs (upd_thr t f s) = mqs s" "mps (upd_thr t f s) = mps s"
  "tick (upd_thr t f s) = tick s"
  by (simp_all add: upd_thr_def)

lemma resume_all_step:
  "lists s l = t # q \<Longrightarrow> resume_all_loop (Suc n) l s =
    resume_all_loop n l (rt_ipc_list_resume l (upd_thr t (\<lambda>th. th\<lparr>t_error := -RT_ERROR\<rparr>) s))"
  by (simp add: rt_ipc_list_resume_def kframe)

definition all_resumed :: "listid \<Rightarrow> kernel \<Rightarrow> kernel \<Rightarrow> bool" where
  "all_resumed l s s' \<longleftrightarrow> kinv s' \<and> cur s' = cur s \<and>
     (\<forall>l'. wait_list l' \<longrightarrow> lists s' l' = (if l' = l then [] else lists s l')) \<and>
     (\<forall>t \<in> set (lists s l). awake s' t \<and> t_error (thr s' t) = -RT_ERROR) \<and>
     (\<forall>t. t \<notin> set (lists s l) \<longrightarrow> statm s' t = statm s t \<and> t_error (thr s' t) = t_error (thr s t)) \<and>
     sems s' = sems s \<and> mutexes s' = mutexes s \<and> events s' = events s \<and> mboxes s' = mboxes s \<and>
     mqs s' = mqs s \<and> mps s' = mps s \<and>
     tick s' = tick s \<and> stuck s' = stuck s"

lemma resume_all_effect:
  assumes "kinv s" "wait_list l"
  shows "all_resumed l s (rt_ipc_list_resume_all l s)"
  unfolding rt_ipc_list_resume_all_def
  using assms(1)
proof (induction "lists s l" arbitrary: s)
  case Nil
  then have "lists s l = []" by simp
  with Nil(2) show ?case by (auto simp: all_resumed_def)
next
  case (Cons t q)
  note l = Cons(2)[symmetric]
  let ?e = "upd_thr t (\<lambda>th. th\<lparr>t_error := -RT_ERROR\<rparr>) s"
  have ie: "kinv ?e" using Cons(3) by (simp add: kinv_upd_thr)
  have le: "lists ?e l = t # q" by (simp add: kframe l)
  define s1 where "s1 = rt_ipc_list_resume l ?e"
  note r = list_resume_effect[OF ie assms(2) le, folded s1_def]
  have l1: "lists s1 l = q" using r(4)[OF assms(2)] by simp
  note IH = Cons(1)[of s1, OF l1[symmetric] r(1), unfolded l1]
  have tq: "t \<notin> set q"
    using kbaseD(1)[OF kinv_partsD(1)[OF Cons(3)]] l unfolding lists_ok_def
    by (metis distinct.simps(2))
  have er: "t_error (thr s1 u) = (if u = t then -RT_ERROR else t_error (thr s u))" for u
    using r(6)[of u] by (simp add: upd_thr_def)
  have st: "statm s1 u = statm s u" if "u \<noteq> t" for u using r(5)[OF that] by (simp add: kframe)
  have "resume_all_loop (length (lists s l)) l s = resume_all_loop (length q) l s1"
    unfolding l s1_def using resume_all_step[OF l] by simp
  moreover have "all_resumed l s (resume_all_loop (length q) l s1)"
    unfolding all_resumed_def
  proof (intro conjI ballI allI impI)
    let ?z = "resume_all_loop (length q) l s1"
    note z = IH[unfolded all_resumed_def l1]
    show "kinv ?z" "cur ?z = cur s" "sems ?z = sems s" "mutexes ?z = mutexes s" "events ?z = events s"
      "mboxes ?z = mboxes s" "mqs ?z = mqs s" "mps ?z = mps s" "tick ?z = tick s" "stuck ?z = stuck s"
      using z r(2,9-13,15,17,18) by (simp_all add: kframe)
    show "lists ?z l' = (if l' = l then [] else lists s l')" if "wait_list l'" for l'
      using z r(4)[OF that] that by (simp add: kframe)
    have zt: "statm ?z t = statm s1 t" "t_error (thr ?z t) = t_error (thr s1 t)"
      using z tq by blast+
    show "awake ?z u" if "u \<in> set (lists s l)" for u
      using that z zt(1) r(3) unfolding l by (auto simp: awake_def)
    show "t_error (thr ?z u) = -RT_ERROR" if "u \<in> set (lists s l)" for u
      using that z zt(2) er[of t] unfolding l by auto
    show "statm ?z u = statm s u" if "u \<notin> set (lists s l)" for u
      using that z st[of u] unfolding l by auto
    show "t_error (thr ?z u) = t_error (thr s u)" if "u \<notin> set (lists s l)" for u
      using that z er[of u] unfolding l by auto
  qed
  ultimately show ?case by simp
qed

text \<open>Waking the first thread of a queue, if there is one, and scheduling.\<close>

definition wake_first :: "listid \<Rightarrow> kernel \<Rightarrow> kernel" where
  "wake_first l s = (if lists s l \<noteq> [] then rt_schedule (rt_ipc_list_resume l s) else s)"

lemma wake_first_effect:
  assumes "kinv s" "cur s = Some c" "wait_list l"
  defines "s' \<equiv> wake_first l s"
  shows "kinv s'" "cur s' \<noteq> None" "lists s' l = tl (lists s l)"
    "wait_list l' \<Longrightarrow> l' \<noteq> l \<Longrightarrow> lists s' l' = lists s l'"
    "lists s l \<noteq> [] \<Longrightarrow> awake s' (hd (lists s l))"
    "t_error (thr s' u) = t_error (thr s u)" "mboxes s' = mboxes s" "mqs s' = mqs s"
    "stuck s' = stuck s"
proof -
  have "kinv s' \<and> cur s' \<noteq> None \<and> lists s' l = tl (lists s l) \<and>
      (wait_list l' \<longrightarrow> l' \<noteq> l \<longrightarrow> lists s' l' = lists s l') \<and> (lists s l \<noteq> [] \<longrightarrow> awake s' (hd (lists s l))) \<and>
      t_error (thr s' u) = t_error (thr s u) \<and> mboxes s' = mboxes s \<and> mqs s' = mqs s \<and>
      stuck s' = stuck s"
  proof (cases "lists s l")
    case Nil
    then show ?thesis using assms(1,2) by (simp add: s'_def wake_first_def)
  next
    case (Cons a as)
    note r = list_resume_effect[OF assms(1,3) Cons]
    have cr: "cur (rt_ipc_list_resume l s) = Some c" using r(2) assms(2) by simp
    have s': "s' = rt_schedule (rt_ipc_list_resume l s)" using Cons by (simp add: s'_def wake_first_def)
    note sel = rt_schedule_sel[OF r(1) cr] and oth = rt_schedule_others[OF r(1) cr]
    have "awake s' a" using oth(2)[of a] r(3) unfolding s' awake_def by blast
    moreover have "lists s' l = as" unfolding s' using oth(3)[OF assms(3)] r(4)[OF assms(3)] by simp
    moreover have "wait_list l' \<Longrightarrow> l' \<noteq> l \<Longrightarrow> lists s' l' = lists s l'"
      unfolding s' using oth(3)[of l'] r(4)[of l'] by simp
    moreover have "t_error (thr s' u) = t_error (thr s u)" "mboxes s' = mboxes s" "mqs s' = mqs s"
      unfolding s' using r(6)[of u] r(13,17) by (simp_all add: kframe)
    ultimately show ?thesis
      using Cons rt_schedule_kinv[OF r(1) cr] sel(1,2) r(15) unfolding s' by simp
  qed
  then show "kinv s'" "cur s' \<noteq> None" "lists s' l = tl (lists s l)"
    "wait_list l' \<Longrightarrow> l' \<noteq> l \<Longrightarrow> lists s' l' = lists s l'"
    "lists s l \<noteq> [] \<Longrightarrow> awake s' (hd (lists s l))"
    "t_error (thr s' u) = t_error (thr s u)" "mboxes s' = mboxes s" "mqs s' = mqs s"
    "stuck s' = stuck s" by auto
qed

end
