(* ===== verification/Semaphore.thy ===== *)
theory Semaphore
  imports Ipc
begin

text \<open>
  The semaphores of \<^verbatim>\<open>ipc.c\<close> (lines 198 to 515). \<open>sem_inv\<close>: a semaphore with a positive value has no
  waiting thread. The abstract semaphore is its count and its queue; the refinement lemmas give the
  effect of each operation on it.
\<close>

section \<open>Operations\<close>

definition upd_sem :: "nat \<Rightarrow> (rt_semaphore \<Rightarrow> rt_semaphore) \<Rightarrow> kernel \<Rightarrow> kernel" where
  "upd_sem n f s = s\<lparr>sems := (sems s)(n := f (sems s n))\<rparr>"

definition is_sem :: "nat \<Rightarrow> kernel \<Rightarrow> bool" where
  "is_sem n s \<longleftrightarrow> rt_object_get_type (s_type (sems s n)) = RT_Object_Class_Semaphore"

definition rt_sem_init :: "nat \<Rightarrow> u32 \<Rightarrow> u8 \<Rightarrow> kernel \<Rightarrow> int \<times> kernel" where
  "rt_sem_init n value flag s =
     (if \<not> value < 0x10000 then (-RT_ERROR, fail s)
      else (RT_EOK, upd_sem n (\<lambda>_. \<lparr>s_type = RT_Object_Class_Semaphore OR RT_Object_Class_Static,
                                    s_flag = flag, s_value = ucast value\<rparr>)
              (rt_ipc_object_init (SemL n) s)))"

definition rt_sem_detach :: "nat \<Rightarrow> kernel \<Rightarrow> int \<times> kernel" where
  "rt_sem_detach n s =
     (if \<not> is_sem n s then (-RT_ERROR, fail s)
      else if \<not> rt_object_is_systemobject (s_type (sems s n)) then (-RT_ERROR, fail s)
      else (RT_EOK, upd_sem n (\<lambda>x. x\<lparr>s_type := 0\<rparr>) (rt_ipc_list_resume_all (SemL n) s)))"

text \<open>\<open>obj\<close> is the result of \<^verbatim>\<open>rt_object_allocate\<close>.\<close>

definition rt_sem_create :: "nat option \<Rightarrow> u32 \<Rightarrow> u8 \<Rightarrow> kernel \<Rightarrow> nat option \<times> kernel" where
  "rt_sem_create obj value flag s =
     (if int_nest s \<noteq> 0 then (None, fail s)
      else if \<not> value < 0x10000 then (None, fail s)
      else case obj of
        None \<Rightarrow> (None, s)
      | Some n \<Rightarrow> (Some n, upd_sem n (\<lambda>_. \<lparr>s_type = RT_Object_Class_Semaphore,
                                         s_flag = flag, s_value = ucast value\<rparr>)
                            (rt_ipc_object_init (SemL n) s)))"

definition rt_sem_delete :: "nat \<Rightarrow> kernel \<Rightarrow> int \<times> kernel" where
  "rt_sem_delete n s =
     (if int_nest s \<noteq> 0 then (-RT_ERROR, fail s)
      else if \<not> is_sem n s then (-RT_ERROR, fail s)
      else if rt_object_is_systemobject (s_type (sems s n)) then (-RT_ERROR, fail s)
      else (RT_EOK, upd_sem n (\<lambda>x. x\<lparr>s_type := 0\<rparr>) (rt_ipc_list_resume_all (SemL n) s)))"

definition rt_sem_take :: "nat \<Rightarrow> u32 \<Rightarrow> kernel \<Rightarrow> outcome \<times> kernel" where
  "rt_sem_take n time s =
     (if \<not> is_sem n s then (Ret (-RT_ERROR), fail s)
      else if 0 < s_value (sems s n) then
        (Ret RT_EOK, upd_sem n (\<lambda>x. x\<lparr>s_value := s_value x - 1\<rparr>) s)
      else if time = 0 then (Ret (-RT_ETIMEOUT), s)
      else if \<not> in_thread_context s then (Ret (-RT_ERROR), fail s)
      else case rt_thread_self s of
        None \<Rightarrow> (Ret (-RT_ERROR), fail s)
      | Some t \<Rightarrow>
          (Blocked, block_on (SemL n) t (s_flag (sems s n)) time
                      (upd_thr t (\<lambda>th. th\<lparr>t_error := RT_EOK\<rparr>) s)))"

text \<open>What the blocked call returns when its thread runs again.\<close>

definition rt_sem_take_return :: "tid \<Rightarrow> kernel \<Rightarrow> int" where
  "rt_sem_take_return t s =
     (if t_error (thr s t) \<noteq> RT_EOK then t_error (thr s t) else RT_EOK)"

definition rt_sem_trytake :: "nat \<Rightarrow> kernel \<Rightarrow> outcome \<times> kernel" where
  "rt_sem_trytake n s = rt_sem_take n 0 s"

definition rt_sem_release :: "nat \<Rightarrow> kernel \<Rightarrow> int \<times> kernel" where
  "rt_sem_release n s =
     (if \<not> is_sem n s then (-RT_ERROR, fail s)
      else if lists s (SemL n) \<noteq> [] then
        (RT_EOK, rt_schedule (rt_ipc_list_resume (SemL n) s))
      else (RT_EOK, upd_sem n (\<lambda>x. x\<lparr>s_value := s_value x + 1\<rparr>) s))"

definition rt_sem_control :: "nat \<Rightarrow> nat \<Rightarrow> u32 \<Rightarrow> kernel \<Rightarrow> int \<times> kernel" where
  "rt_sem_control n cmd arg s =
     (if \<not> is_sem n s then (-RT_ERROR, fail s)
      else if cmd = 1 then
        (RT_EOK, rt_schedule (upd_sem n (\<lambda>x. x\<lparr>s_value := ucast arg\<rparr>)
                   (rt_ipc_list_resume_all (SemL n) s)))
      else (-RT_ERROR, s))"

section \<open>Correctness\<close>

definition sem_inv :: "nat \<Rightarrow> kernel \<Rightarrow> bool" where
  "sem_inv n s \<longleftrightarrow> is_sem n s \<and> (lists s (SemL n) \<noteq> [] \<longrightarrow> s_value (sems s n) = 0)"

lemma upd_sem_sel [kframe]:
  "lists (upd_sem n f s) = lists s" "ready_group (upd_sem n f s) = ready_group s"
  "timers (upd_sem n f s) = timers s" "timer_list (upd_sem n f s) = timer_list s"
  "cur (upd_sem n f s) = cur s" "thr (upd_sem n f s) = thr s" "statm (upd_sem n f s) = statm s"
  "prio (upd_sem n f s) = prio s" "thread_ok (upd_sem n f s) = thread_ok s"
  "lock_nest (upd_sem n f s) = lock_nest s" "stuck (upd_sem n f s) = stuck s"
  "tick (upd_sem n f s) = tick s" "sems (upd_sem n f s) = (sems s)(n := f (sems s n))"
  "awake (upd_sem n f s) = awake s"
  by (simp_all add: upd_sem_def statm_def prio_def thread_ok_def awake_def fun_eq_iff)

lemma kinv_upd_sem [simp]: "kinv (upd_sem n f s) = kinv s"
  by (rule kinv_frame) (simp_all add: kframe)

text \<open>The running thread takes the semaphore: the three outcomes.\<close>

lemma sem_take_effect:
  assumes "kinv s" "cur s = Some c" "statm s c = RT_THREAD_RUNNING" "int_nest s = 0" "sem_inv n s"
  shows "0 < s_value (sems s n) \<Longrightarrow> rt_sem_take n time s =
      (Ret RT_EOK, upd_sem n (\<lambda>x. x\<lparr>s_value := s_value x - 1\<rparr>) s)"
    and "s_value (sems s n) = 0 \<Longrightarrow> time = 0 \<Longrightarrow> rt_sem_take n time s = (Ret (-RT_ETIMEOUT), s)"
    and "s_value (sems s n) = 0 \<Longrightarrow> time \<noteq> 0 \<Longrightarrow> rt_sem_take n time s =
      (Blocked, block_on (SemL n) c (s_flag (sems s n)) time
        (upd_thr c (\<lambda>th. th\<lparr>t_error := RT_EOK\<rparr>) s))"
  using assms
  by (simp_all add: rt_sem_take_def sem_inv_def in_thread_context_def rt_thread_self_def
      word_neq_0_conv)

lemma sem_take_inv:
  assumes "kinv s" "cur s = Some c" "statm s c = RT_THREAD_RUNNING" "int_nest s = 0" "sem_inv n s"
  shows "kinv (snd (rt_sem_take n time s))" "sem_inv n (snd (rt_sem_take n time s))"
proof -
  let ?e = "upd_thr c (\<lambda>th. th\<lparr>t_error := RT_EOK\<rparr>) s"
  have ie: "kinv ?e" and ce: "cur ?e = Some c" and re: "statm ?e c = RT_THREAD_RUNNING"
    using assms(1-3) by (simp_all add: kinv_upd_thr kframe)
  note b = block_on_effect[OF ie ce re, of "SemL n", simplified]
  consider "0 < s_value (sems s n)" | "s_value (sems s n) = 0" "time = 0"
    | "s_value (sems s n) = 0" "time \<noteq> 0" using word_neq_0_conv by blast
  then have "kinv (snd (rt_sem_take n time s)) \<and> sem_inv n (snd (rt_sem_take n time s))"
  proof cases
    case 1
    then have "lists s (SemL n) = []" using assms(5) by (auto simp: sem_inv_def)
    then show ?thesis using assms sem_take_effect(1)[OF assms 1]
      by (simp add: sem_inv_def kframe is_sem_def)
  next
    case 2
    with sem_take_effect(2)[OF assms 2] assms show ?thesis by simp
  next
    case 3
    then show ?thesis
      using assms(5) b(1) b(11) sem_take_effect(3)[OF assms 3]
      by (simp add: sem_inv_def is_sem_def kframe)
  qed
  then show "kinv (snd (rt_sem_take n time s))" "sem_inv n (snd (rt_sem_take n time s))" by auto
qed

lemma sem_inv_frame: "sems s' = sems s \<Longrightarrow> lists s' (SemL n) = lists s (SemL n) \<Longrightarrow> sem_inv n s' = sem_inv n s"
  by (simp add: sem_inv_def is_sem_def)

text \<open>Releasing with a waiting thread hands the semaphore to the first one.\<close>

lemma sem_release_wakes:
  assumes "kinv s" "cur s = Some c" "sem_inv n s" "lists s (SemL n) = t # q"
  defines "s' \<equiv> snd (rt_sem_release n s)"
  shows "fst (rt_sem_release n s) = RT_EOK" "kinv s'" "cur s' \<noteq> None" "awake s' t"
    "lists s' (SemL n) = q" "sems s' = sems s" "t_error (thr s' u) = t_error (thr s u)"
    "u \<noteq> t \<Longrightarrow> \<not> awake s u \<Longrightarrow> statm s' u = statm s u" "stuck s' = stuck s"
    "wait_list l \<Longrightarrow> l \<noteq> SemL n \<Longrightarrow> lists s' l = lists s l"
proof -
  let ?r = "rt_ipc_list_resume (SemL n) s"
  note r = list_resume_effect[OF assms(1) _ assms(4), simplified]
  have e: "rt_sem_release n s = (RT_EOK, rt_schedule ?r)"
    using assms(3,4) by (simp add: rt_sem_release_def sem_inv_def)
  have cr: "cur ?r = Some c" using r(2) assms(2) by simp
  have s': "s' = rt_schedule ?r" by (simp add: s'_def e)
  note sel = rt_schedule_sel[OF r(1) cr] and oth = rt_schedule_others[OF r(1) cr]
  show "fst (rt_sem_release n s) = RT_EOK" by (simp add: e)
  show "kinv s'" unfolding s' by (rule rt_schedule_kinv[OF r(1) cr])
  show "cur s' \<noteq> None" unfolding s' by (rule sel(2))
  show "awake s' t" using oth(2)[of t] r(3) unfolding s' awake_def by blast
  show "lists s' (SemL n) = q" unfolding s' using oth(3)[of "SemL n"] r(4)[of "SemL n"] by simp
  show "lists s' l = lists s l" if "wait_list l" "l \<noteq> SemL n" for l
    unfolding s' using oth(3)[OF that(1)] r(4)[OF that(1)] that(2) by simp
  show "sems s' = sems s" unfolding s' by (simp add: kframe r(10))
  show "t_error (thr s' u) = t_error (thr s u)" unfolding s' by (simp add: kframe r(6))
  show "statm s' u = statm s u" if "u \<noteq> t" "\<not> awake s u"
    using oth(1)[of u] r(5)[OF that(1)] that(2) unfolding s' awake_def by simp
  show "stuck s' = stuck s" unfolding s' using sel(1) r(15) by simp
qed

lemma sem_release_counts:
  assumes "sem_inv n s" "lists s (SemL n) = []"
  shows "rt_sem_release n s = (RT_EOK, upd_sem n (\<lambda>x. x\<lparr>s_value := s_value x + 1\<rparr>) s)"
  using assms by (simp add: rt_sem_release_def sem_inv_def)

lemma sem_release_inv:
  assumes "kinv s" "cur s = Some c" "sem_inv n s"
  shows "kinv (snd (rt_sem_release n s))" "sem_inv n (snd (rt_sem_release n s))"
proof -
  have "kinv (snd (rt_sem_release n s)) \<and> sem_inv n (snd (rt_sem_release n s))"
  proof (cases "lists s (SemL n)")
    case Nil
    with sem_release_counts[OF assms(3) Nil] assms show ?thesis
      by (simp add: sem_inv_def is_sem_def kframe)
  next
    case (Cons t q)
    with sem_release_wakes(2,5,6)[OF assms Cons] assms(3) show ?thesis
      by (simp add: sem_inv_def is_sem_def)
  qed
  then show "kinv (snd (rt_sem_release n s))" "sem_inv n (snd (rt_sem_release n s))" by auto
qed

text \<open>Reset: all waiting threads leave with \<^verbatim>\<open>-RT_ERROR\<close>, the value is the low half of the argument.\<close>

lemma sem_reset_effect:
  fixes v :: u32
  assumes "kinv s" "cur s = Some c" "sem_inv n s"
  defines "s' \<equiv> snd (rt_sem_control n 1 v s)"
  shows "fst (rt_sem_control n 1 v s) = RT_EOK" "kinv s'" "sem_inv n s'" "lists s' (SemL n) = []"
    "s_value (sems s' n) = ucast v"
    "t \<in> set (lists s (SemL n)) \<Longrightarrow> awake s' t \<and> t_error (thr s' t) = -RT_ERROR"
proof -
  let ?a = "rt_ipc_list_resume_all (SemL n) s"
  let ?b = "upd_sem n (\<lambda>x. x\<lparr>s_value := ucast v\<rparr>) ?a"
  note a = resume_all_effect[OF assms(1), of "SemL n", simplified, unfolded all_resumed_def]
  have e: "rt_sem_control n 1 v s = (RT_EOK, rt_schedule ?b)"
    using assms(3) by (simp add: rt_sem_control_def sem_inv_def)
  have ib: "kinv ?b" and cb: "cur ?b = Some c" using a assms(2) by (simp_all add: kframe)
  have s': "s' = rt_schedule ?b" unfolding s'_def e by simp
  note oth = rt_schedule_others[OF ib cb]
  show "fst (rt_sem_control n 1 v s) = RT_EOK" unfolding e by simp
  show "kinv s'" unfolding s' by (rule rt_schedule_kinv[OF ib cb])
  show l: "lists s' (SemL n) = []" unfolding s' using oth(3)[of "SemL n"] a by (simp add: kframe)
  show v: "s_value (sems s' n) = ucast v" unfolding s' by (simp add: kframe)
  have "is_sem n s'" unfolding s' using a assms(3) by (simp add: is_sem_def sem_inv_def kframe)
  with l show "sem_inv n s'" by (simp add: sem_inv_def)
  show "awake s' t \<and> t_error (thr s' t) = -RT_ERROR" if "t \<in> set (lists s (SemL n))"
  proof -
    have "awake ?a t" "t_error (thr ?a t) = -RT_ERROR" using a that by simp_all
    then show ?thesis using oth(2)[of t] unfolding s' awake_def by (simp add: kframe)
  qed
qed

lemma sem_init_inv:
  assumes "value < 0x10000" "lists s (SemL n) = []"
  shows "fst (rt_sem_init n value flag s) = RT_EOK" "sem_inv n (snd (rt_sem_init n value flag s))"
    "s_value (sems (snd (rt_sem_init n value flag s)) n) = ucast value"
  using assms
  by (simp_all add: rt_sem_init_def sem_inv_def is_sem_def kframe rt_ipc_object_init_def
      rt_object_get_type_def)

section \<open>Refinement of a counting semaphore\<close>

text \<open>The abstract semaphore: the count and the queue of waiting threads.\<close>

definition sem_abs :: "nat \<Rightarrow> kernel \<Rightarrow> nat \<times> tid list" where
  "sem_abs n s = (unat (s_value (sems s n)), lists s (SemL n))"

definition spec_take :: "u8 \<Rightarrow> (tid \<Rightarrow> u8) \<Rightarrow> tid \<Rightarrow> bool \<Rightarrow> nat \<times> tid list \<Rightarrow> outcome \<times> (nat \<times> tid list)" where
  "spec_take flag pr t wait a =
     (case a of (v, q) \<Rightarrow>
        if 0 < v then (Ret RT_EOK, (v - 1, q))
        else if \<not> wait then (Ret (-RT_ETIMEOUT), (v, q))
        else (Blocked, (v, queued flag pr t q)))"

definition spec_release :: "nat \<times> tid list \<Rightarrow> nat \<times> tid list" where
  "spec_release a = (case a of (v, []) \<Rightarrow> (v + 1, []) | (v, t # q) \<Rightarrow> (v, q))"

lemma sem_take_refines:
  assumes "kinv s" "cur s = Some c" "statm s c = RT_THREAD_RUNNING" "int_nest s = 0" "sem_inv n s"
  shows "(fst (rt_sem_take n time s), sem_abs n (snd (rt_sem_take n time s))) =
    spec_take (s_flag (sems s n)) (\<lambda>u. t_current_priority (thr s u)) c (time \<noteq> 0) (sem_abs n s)"
proof -
  let ?e = "upd_thr c (\<lambda>th. th\<lparr>t_error := RT_EOK\<rparr>) s"
  have ie: "kinv ?e" and ce: "cur ?e = Some c" and re: "statm ?e c = RT_THREAD_RUNNING"
    using assms(1-3) by (simp_all add: kinv_upd_thr kframe)
  note b = block_on_effect(4,11)[OF ie ce re, of "SemL n", simplified]
  have pr: "t_current_priority (thr ?e u) = t_current_priority (thr s u)" for u
    by (simp add: upd_thr_def)
  consider "0 < s_value (sems s n)" | "s_value (sems s n) = 0" "time = 0"
    | "s_value (sems s n) = 0" "time \<noteq> 0" using word_neq_0_conv by blast
  then show ?thesis
  proof cases
    case 1
    then have "s_value (sems s n) \<noteq> 0" by simp
    with 1 show ?thesis
      by (simp add: sem_take_effect(1)[OF assms 1] sem_abs_def spec_take_def kframe unat_dec_word
          unat_gt_0)
  next
    case 2
    then show ?thesis
      unfolding sem_take_effect(2)[OF assms 2] by (simp add: sem_abs_def spec_take_def)
  next
    case 3
    then show ?thesis
      using b(1)[of "SemL n"] b(2)
      by (simp add: sem_take_effect(3)[OF assms 3] sem_abs_def spec_take_def kframe pr wait_insert_queued)
  qed
qed

lemma sem_release_refines:
  assumes "kinv s" "cur s = Some c" "sem_inv n s" "unat (s_value (sems s n)) < 65535"
  shows "sem_abs n (snd (rt_sem_release n s)) = spec_release (sem_abs n s)"
proof (cases "lists s (SemL n)")
  case Nil
  then show ?thesis
    using sem_release_counts[OF assms(3) Nil] assms(4)
    by (simp add: sem_abs_def spec_release_def kframe unat_Suc_word)
next
  case (Cons t q)
  then show ?thesis
    using sem_release_wakes(5,6)[OF assms(1-3) Cons] by (simp add: sem_abs_def spec_release_def)
qed

end
