(* ===== verification/Mutex.thy ===== *)
theory Mutex
  imports Ipc
begin

text \<open>
  The recursive mutexes of \<^verbatim>\<open>ipc.c\<close> (lines 529 to 900) with priority inheritance. \<open>mutex_inv\<close>: a mutex is
  either free (value 1, no owner, no hold, no waiting thread) or owned (value 0, hold positive).
\<close>

section \<open>Operations\<close>

definition upd_mutex :: "nat \<Rightarrow> (rt_mutex \<Rightarrow> rt_mutex) \<Rightarrow> kernel \<Rightarrow> kernel" where
  "upd_mutex n f s = s\<lparr>mutexes := (mutexes s)(n := f (mutexes s n))\<rparr>"

definition is_mutex :: "nat \<Rightarrow> kernel \<Rightarrow> bool" where
  "is_mutex n s \<longleftrightarrow> rt_object_get_type (m_type (mutexes s n)) = RT_Object_Class_Mutex"

definition rt_mutex_init :: "nat \<Rightarrow> u8 \<Rightarrow> kernel \<Rightarrow> int \<times> kernel" where
  "rt_mutex_init n flag s =
     (RT_EOK, upd_mutex n (\<lambda>_. \<lparr>m_type = RT_Object_Class_Mutex OR RT_Object_Class_Static,
                               m_flag = flag, m_value = 1, m_original_priority = 0xFF,
                               m_hold = 0, m_owner = None\<rparr>)
        (rt_ipc_object_init (MutexL n) s))"

definition rt_mutex_detach :: "nat \<Rightarrow> kernel \<Rightarrow> int \<times> kernel" where
  "rt_mutex_detach n s =
     (if \<not> is_mutex n s then (-RT_ERROR, fail s)
      else if \<not> rt_object_is_systemobject (m_type (mutexes s n)) then (-RT_ERROR, fail s)
      else (RT_EOK, upd_mutex n (\<lambda>x. x\<lparr>m_type := 0\<rparr>) (rt_ipc_list_resume_all (MutexL n) s)))"

definition rt_mutex_create :: "nat option \<Rightarrow> u8 \<Rightarrow> kernel \<Rightarrow> nat option \<times> kernel" where
  "rt_mutex_create obj flag s =
     (if int_nest s \<noteq> 0 then (None, fail s)
      else case obj of
        None \<Rightarrow> (None, s)
      | Some n \<Rightarrow> (Some n, upd_mutex n (\<lambda>_. \<lparr>m_type = RT_Object_Class_Mutex, m_flag = flag,
                               m_value = 1, m_original_priority = 0xFF, m_hold = 0, m_owner = None\<rparr>)
                            (rt_ipc_object_init (MutexL n) s)))"

definition rt_mutex_delete :: "nat \<Rightarrow> kernel \<Rightarrow> int \<times> kernel" where
  "rt_mutex_delete n s =
     (if int_nest s \<noteq> 0 then (-RT_ERROR, fail s)
      else if \<not> is_mutex n s then (-RT_ERROR, fail s)
      else if rt_object_is_systemobject (m_type (mutexes s n)) then (-RT_ERROR, fail s)
      else (RT_EOK, upd_mutex n (\<lambda>x. x\<lparr>m_type := 0\<rparr>) (rt_ipc_list_resume_all (MutexL n) s)))"

text \<open>The part of \<^verbatim>\<open>rt_mutex_take\<close> from the label \<^verbatim>\<open>__again\<close>; a null owner is dereferenced when value is 0.\<close>

definition mutex_again :: "nat \<Rightarrow> tid \<Rightarrow> u32 \<Rightarrow> kernel \<Rightarrow> outcome \<times> kernel" where
  "mutex_again n t time s =
     (if 0 < m_value (mutexes s n) then
        (Ret RT_EOK, upd_mutex n (\<lambda>x. x\<lparr>m_value := m_value x - 1, m_owner := Some t,
            m_original_priority := t_current_priority (thr s t), m_hold := m_hold x + 1\<rparr>) s)
      else if time = 0 then
        (Ret (-RT_ETIMEOUT), upd_thr t (\<lambda>th. th\<lparr>t_error := -RT_ETIMEOUT\<rparr>) s)
      else case m_owner (mutexes s n) of
        None \<Rightarrow> (Ret (-RT_ERROR), fail s)
      | Some w \<Rightarrow>
          let s1 = (if t_current_priority (thr s t) < t_current_priority (thr s w)
                    then snd (rt_thread_control w 2 (t_current_priority (thr s t)) s) else s)
          in (Blocked, block_on (MutexL n) t (m_flag (mutexes s1 n)) time s1))"

definition rt_mutex_take :: "nat \<Rightarrow> u32 \<Rightarrow> kernel \<Rightarrow> outcome \<times> kernel" where
  "rt_mutex_take n time s =
     (if \<not> in_thread_context s then (Ret (-RT_ERROR), fail s)
      else if \<not> is_mutex n s then (Ret (-RT_ERROR), fail s)
      else case rt_thread_self s of
        None \<Rightarrow> (Ret (-RT_ERROR), fail s)
      | Some t \<Rightarrow>
          let s1 = upd_thr t (\<lambda>th. th\<lparr>t_error := RT_EOK\<rparr>) s
          in if m_owner (mutexes s1 n) = Some t
             then (Ret RT_EOK, upd_mutex n (\<lambda>x. x\<lparr>m_hold := m_hold x + 1\<rparr>) s1)
             else mutex_again n t time s1)"

text \<open>The blocked call when its thread runs again; \<^verbatim>\<open>-RT_EINTR\<close> starts over.\<close>

definition rt_mutex_take_return :: "nat \<Rightarrow> u32 \<Rightarrow> tid \<Rightarrow> kernel \<Rightarrow> outcome \<times> kernel" where
  "rt_mutex_take_return n time t s =
     (if t_error (thr s t) \<noteq> RT_EOK then
        if t_error (thr s t) = -RT_EINTR then mutex_again n t time s
        else (Ret (t_error (thr s t)), s)
      else (Ret RT_EOK, s))"

definition rt_mutex_release :: "nat \<Rightarrow> kernel \<Rightarrow> int \<times> kernel" where
  "rt_mutex_release n s =
     (if \<not> is_mutex n s then (-RT_ERROR, fail s)
      else if \<not> in_thread_context s then (-RT_ERROR, fail s)
      else case rt_thread_self s of
        None \<Rightarrow> (-RT_ERROR, fail s)
      | Some t \<Rightarrow>
          if m_owner (mutexes s n) \<noteq> Some t then
            (-RT_ERROR, upd_thr t (\<lambda>th. th\<lparr>t_error := -RT_ERROR\<rparr>) s)
          else
            let s1 = upd_mutex n (\<lambda>x. x\<lparr>m_hold := m_hold x - 1\<rparr>) s
            in if m_hold (mutexes s1 n) \<noteq> 0 then (RT_EOK, s1)
               else
                 let s2 = (if m_original_priority (mutexes s1 n) \<noteq> t_current_priority (thr s1 t)
                           then snd (rt_thread_control t 2 (m_original_priority (mutexes s1 n)) s1)
                           else s1)
                 in case lists s2 (MutexL n) of
                      w # _ \<Rightarrow>
                        let s3 = upd_mutex n (\<lambda>x. x\<lparr>m_owner := Some w,
                              m_original_priority := t_current_priority (thr s2 w),
                              m_hold := m_hold x + 1\<rparr>) s2
                        in (RT_EOK, rt_schedule (rt_ipc_list_resume (MutexL n) s3))
                    | [] \<Rightarrow>
                        (RT_EOK, upd_mutex n (\<lambda>x. x\<lparr>m_value := m_value x + 1, m_owner := None,
                              m_original_priority := 0xff\<rparr>) s2))"

definition rt_mutex_control :: "nat \<Rightarrow> kernel \<Rightarrow> int \<times> kernel" where
  "rt_mutex_control n s =
     (if \<not> is_mutex n s then (-RT_ERROR, fail s) else (-RT_ERROR, s))"

section \<open>Correctness\<close>

definition mutex_inv :: "nat \<Rightarrow> kernel \<Rightarrow> bool" where
  "mutex_inv n s \<longleftrightarrow> is_mutex n s \<and>
     (case m_owner (mutexes s n) of
        None \<Rightarrow> m_value (mutexes s n) = 1 \<and> m_hold (mutexes s n) = 0 \<and> lists s (MutexL n) = []
      | Some w \<Rightarrow> m_value (mutexes s n) = 0 \<and> m_hold (mutexes s n) \<noteq> 0 \<and>
          m_original_priority (mutexes s n) < 32 \<and> w \<notin> set (lists s (MutexL n)))"

lemma upd_mutex_sel [kframe]:
  "lists (upd_mutex n f s) = lists s" "ready_group (upd_mutex n f s) = ready_group s"
  "timers (upd_mutex n f s) = timers s" "timer_list (upd_mutex n f s) = timer_list s"
  "cur (upd_mutex n f s) = cur s" "thr (upd_mutex n f s) = thr s" "statm (upd_mutex n f s) = statm s"
  "prio (upd_mutex n f s) = prio s" "thread_ok (upd_mutex n f s) = thread_ok s"
  "lock_nest (upd_mutex n f s) = lock_nest s" "stuck (upd_mutex n f s) = stuck s"
  "tick (upd_mutex n f s) = tick s" "mutexes (upd_mutex n f s) = (mutexes s)(n := f (mutexes s n))"
  "awake (upd_mutex n f s) = awake s"
  by (simp_all add: upd_mutex_def statm_def prio_def thread_ok_def awake_def fun_eq_iff)

lemma kinv_upd_mutex [simp]: "kinv (upd_mutex n f s) = kinv s"
  by (rule kinv_frame) (simp_all add: kframe)

text \<open>Changing a priority touches nothing else.\<close>

lemma set_priority_keeps [kframe]:
  "sems (set_priority t p s) = sems s" "mutexes (set_priority t p s) = mutexes s"
  "events (set_priority t p s) = events s" "mboxes (set_priority t p s) = mboxes s"
  "mqs (set_priority t p s) = mqs s" "mps (set_priority t p s) = mps s"
  "tick (set_priority t p s) = tick s"
  "t_error (thr (set_priority t p s) u) = t_error (thr s u)"
  "t_type (thr (set_priority t p s) u) = t_type (thr s u)"
  by (simp_all add: set_priority_def upd_thr_def)

lemma ready_not_cur:
  assumes "kinv s" "statm s t = RT_THREAD_READY"
  shows "cur s \<noteq> Some t"
proof
  assume "cur s = Some t"
  then have "t \<notin> set (lists s (ReadyL (prio s t)))"
    using kinv_partsD(2)[OF assms(1)] by (simp add: kcur_def)
  with kbaseD(6)[OF kinv_partsD(1)[OF assms(1)] _ assms(2)] show False by simp
qed

text \<open>The object is a thread: it was initialised and has not been detached or freed since.\<close>

definition is_thread :: "kernel \<Rightarrow> tid \<Rightarrow> bool" where
  "is_thread s t \<longleftrightarrow> rt_object_get_type (t_type (thr s t)) = RT_Object_Class_Thread"

lemma live_is_thread: "kinv s \<Longrightarrow> live (statm s t) \<Longrightarrow> is_thread s t"
  using kbaseD(7)[OF kinv_partsD(1)] by (simp add: thread_ok_def is_thread_def)

lemma control_priority_effect:
  fixes p :: u8
  assumes "kinv s" "is_thread s t" "p < 32"
  defines "s' \<equiv> snd (rt_thread_control t 2 p s)"
  shows "kinv s'" "cur s' = cur s" "wait_list l \<Longrightarrow> lists s' l = lists s l" "mutexes s' = mutexes s"
    "statm s' u = statm s u" "t_error (thr s' u) = t_error (thr s u)" "stuck s' = stuck s"
    "t_current_priority (thr s' u) = (if u = t then p else t_current_priority (thr s u))"
proof -
  have ty: "rt_object_get_type (t_type (thr s t)) = RT_Object_Class_Thread"
    using assms(2) by (simp add: is_thread_def)
  show "kinv s'" unfolding s'_def by (rule rt_thread_control_priority_kinv[OF assms(1,3)])
  let ?r = "set_priority t p (rt_schedule_remove_thread t s)"
  have e: "s' = (if statm s t = RT_THREAD_READY then rt_schedule_insert_thread t ?r
      else set_priority t p s)"
    unfolding s'_def using ty by (simp add: rt_thread_control_def)
  have nc: "statm s t = RT_THREAD_READY \<Longrightarrow> cur ?r \<noteq> Some t"
    using ready_not_cur[OF assms(1)] by (simp add: set_priority_sel kframe)
  show "cur s' = cur s" by (simp add: e insert_thread_sel set_priority_sel kframe)
  show "mutexes s' = mutexes s" "t_error (thr s' u) = t_error (thr s u)"
    by (simp_all add: e kframe)
  show "statm s' u = statm s u"
    using nc by (simp add: e insert_thread_sel(1) set_priority_sel kframe)
  show "stuck s' = stuck s"
    by (simp add: e insert_thread_sel set_priority_def kframe)
  have cp: "t_current_priority (thr (rt_schedule_insert_thread t z) v) = t_current_priority (thr z v)" for z v
    by (simp add: rt_schedule_insert_thread_def set_stat_def upd_thr_def list_insert_before_def Let_def)
  show "t_current_priority (thr s' u) = (if u = t then p else t_current_priority (thr s u))"
    by (simp add: e cp set_priority_def upd_thr_def kframe)
  show "lists s' l = lists s l" if "wait_list l"
  proof (cases "statm s t = RT_THREAD_READY")
    case True
    have "t \<notin> set (lists s l)"
      using members_okD(3)[OF kbaseD(2)[OF kinv_partsD(1)[OF assms(1)]] _ that] True by force
    then have "lists ?r l = lists s l"
      by (simp add: set_priority_sel kframe removeAll_id_if_notin)
    moreover have "l \<noteq> ReadyL q" for q using that by auto
    ultimately show ?thesis using True insert_thread_sel(9)[OF nc[OF True]] by (simp add: e)
  next
    case False
    then show ?thesis by (simp add: e set_priority_sel)
  qed
qed

lemma is_mutex_frame: "mutexes s' = mutexes s \<Longrightarrow> is_mutex n s' = is_mutex n s"
  by (simp add: is_mutex_def)

subsection \<open>Taking\<close>

text \<open>The branches of \<^verbatim>\<open>rt_mutex_take\<close> that return at once.\<close>

lemma mutex_take_now:
  assumes "cur s = Some c" "int_nest s = 0" "is_mutex n s"
  defines "e \<equiv> upd_thr c (\<lambda>th. th\<lparr>t_error := RT_EOK\<rparr>) s"
  shows "m_owner (mutexes s n) = Some c \<Longrightarrow>
      rt_mutex_take n time s = (Ret RT_EOK, upd_mutex n (\<lambda>x. x\<lparr>m_hold := m_hold x + 1\<rparr>) e)"
    and "m_owner (mutexes s n) \<noteq> Some c \<Longrightarrow> rt_mutex_take n time s = mutex_again n c time e"
  using assms
  by (simp_all add: rt_mutex_take_def in_thread_context_def rt_thread_self_def is_mutex_def kframe)

text \<open>A free mutex goes to the caller.\<close>

lemma prio_lt_word: "prio s t < 32 \<longleftrightarrow> t_current_priority (thr s t) < 32"
  by (simp add: prio_def word_less_nat_alt)

lemma running_prio:
  "kinv s \<Longrightarrow> live (statm s t) \<Longrightarrow> t_current_priority (thr s t) < 32"
  using kbaseD(7)[OF kinv_partsD(1)] prio_lt_word by (auto simp: thread_ok_def)

lemma mutex_take_free:
  fixes time :: u32
  assumes "kinv s" "cur s = Some c" "statm s c = RT_THREAD_RUNNING" "int_nest s = 0"
    "mutex_inv n s" "m_owner (mutexes s n) = None"
  defines "s' \<equiv> snd (rt_mutex_take n time s)"
  shows "fst (rt_mutex_take n time s) = Ret RT_EOK" "kinv s'" "mutex_inv n s'"
    "m_owner (mutexes s' n) = Some c" "m_hold (mutexes s' n) = 1" "lists s' = lists s"
    "t_current_priority (thr s' u) = t_current_priority (thr s u)"
proof -
  let ?e = "upd_thr c (\<lambda>th. th\<lparr>t_error := RT_EOK\<rparr>) s"
  have m: "is_mutex n s" "m_value (mutexes s n) = 1" "m_hold (mutexes s n) = 0" "lists s (MutexL n) = []"
    using assms(5,6) by (auto simp: mutex_inv_def)
  have pr: "t_current_priority (thr ?e u) = t_current_priority (thr s u)" for u
    by (simp add: upd_thr_def)
  have e: "rt_mutex_take n time s = (Ret RT_EOK, upd_mutex n (\<lambda>x. x\<lparr>m_value := m_value x - 1,
      m_owner := Some c, m_original_priority := t_current_priority (thr s c),
      m_hold := m_hold x + 1\<rparr>) ?e)"
    using mutex_take_now(2)[OF assms(2,4) m(1)] assms(6) m(2)
    by (simp add: mutex_again_def kframe pr)
  show "fst (rt_mutex_take n time s) = Ret RT_EOK" by (simp add: e)
  show "kinv s'" using assms(1) by (simp add: s'_def e kinv_upd_thr)
  show "m_owner (mutexes s' n) = Some c" "m_hold (mutexes s' n) = 1" "lists s' = lists s"
    "t_current_priority (thr s' u) = t_current_priority (thr s u)"
    by (simp_all add: s'_def e kframe m pr)
  have "t_current_priority (thr s c) < 32"
    by (rule running_prio[OF assms(1)]) (simp add: assms(3) live_def)
  then show "mutex_inv n s'"
    using m by (simp add: mutex_inv_def is_mutex_def s'_def e kframe)
qed

text \<open>The owner takes it again: only the hold counter moves.\<close>

lemma mutex_take_recursive:
  fixes time :: u32
  assumes "kinv s" "cur s = Some c" "int_nest s = 0"
    "mutex_inv n s" "m_owner (mutexes s n) = Some c" "m_hold (mutexes s n) \<noteq> 255"
  defines "s' \<equiv> snd (rt_mutex_take n time s)"
  shows "fst (rt_mutex_take n time s) = Ret RT_EOK" "kinv s'" "mutex_inv n s'"
    "mutexes s' = (mutexes s)(n := (mutexes s n)\<lparr>m_hold := m_hold (mutexes s n) + 1\<rparr>)"
    "lists s' = lists s"
proof -
  let ?e = "upd_thr c (\<lambda>th. th\<lparr>t_error := RT_EOK\<rparr>) s"
  have m: "is_mutex n s" using assms(4) by (simp add: mutex_inv_def)
  note e = mutex_take_now(1)[OF assms(2,3) m assms(5), of time]
  show "fst (rt_mutex_take n time s) = Ret RT_EOK" by (simp add: e)
  show "kinv s'" using assms(1) by (simp add: s'_def e kinv_upd_thr)
  show "mutexes s' = (mutexes s)(n := (mutexes s n)\<lparr>m_hold := m_hold (mutexes s n) + 1\<rparr>)"
    "lists s' = lists s"
    by (simp_all add: s'_def e kframe)
  have "m_hold (mutexes s n) + 1 \<noteq> 0"
  proof
    assume "m_hold (mutexes s n) + 1 = 0"
    then have "m_hold (mutexes s n) = - 1" by (simp add: eq_neg_iff_add_eq_0)
    with assms(6) show False by simp
  qed
  then show "mutex_inv n s'"
    using assms(4,5) by (simp add: mutex_inv_def is_mutex_def s'_def e kframe)
qed

text \<open>
  Owned by another thread \<open>w\<close>: with timeout 0 the call fails; otherwise the caller waits and the owner
  has at least the caller's priority from then on (a smaller number is a higher priority).
\<close>

lemma mutex_take_owned_try:
  assumes "kinv s" "cur s = Some c" "int_nest s = 0" "mutex_inv n s"
    "m_owner (mutexes s n) = Some w" "w \<noteq> c"
  shows "rt_mutex_take n 0 s = (Ret (-RT_ETIMEOUT),
    upd_thr c (\<lambda>th. th\<lparr>t_error := -RT_ETIMEOUT\<rparr>) s)"
proof -
  have m: "is_mutex n s" "m_value (mutexes s n) = 0" using assms(4,5) by (auto simp: mutex_inv_def)
  show ?thesis
    using mutex_take_now(2)[OF assms(2,3) m(1)] assms(5,6) m(2)
    by (simp add: mutex_again_def kframe) (simp add: upd_thr_def)
qed

definition inherit :: "tid \<Rightarrow> tid \<Rightarrow> kernel \<Rightarrow> kernel" where
  "inherit c w s = (if t_current_priority (thr s c) < t_current_priority (thr s w)
     then snd (rt_thread_control w 2 (t_current_priority (thr s c)) s) else s)"

text \<open>The owner can be raised: it is a thread, or it need not be raised.\<close>

definition can_inherit :: "tid \<Rightarrow> tid \<Rightarrow> kernel \<Rightarrow> bool" where
  "can_inherit c w s \<longleftrightarrow> (t_current_priority (thr s c) < t_current_priority (thr s w) \<longrightarrow> is_thread s w)"

lemma inherit_effect:
  assumes "kinv s" "can_inherit c w s" "live (statm s c)"
  shows "kinv (inherit c w s)" "cur (inherit c w s) = cur s"
    "wait_list l \<Longrightarrow> lists (inherit c w s) l = lists s l" "mutexes (inherit c w s) = mutexes s"
    "statm (inherit c w s) u = statm s u" "t_error (thr (inherit c w s) u) = t_error (thr s u)"
    "stuck (inherit c w s) = stuck s"
    "t_current_priority (thr (inherit c w s) u) = (if u = w
       then min (t_current_priority (thr s c)) (t_current_priority (thr s w))
       else t_current_priority (thr s u))"
  using assms control_priority_effect[OF assms(1) _ running_prio[OF assms(1,3)], of w]
  by (auto simp: inherit_def min_def can_inherit_def)

lemma mutex_take_blocks:
  fixes time :: u32
  assumes "kinv s" "cur s = Some c" "statm s c = RT_THREAD_RUNNING" "int_nest s = 0"
    "mutex_inv n s" "m_owner (mutexes s n) = Some w" "w \<noteq> c" "can_inherit c w s" "time \<noteq> 0"
  defines "s' \<equiv> snd (rt_mutex_take n time s)"
  shows "fst (rt_mutex_take n time s) = Blocked" "kinv s'" "mutex_inv n s'"
    "statm s' c = RT_THREAD_SUSPEND" "mutexes s' = mutexes s"
    "lists s' (MutexL n) = wait_insert (m_flag (mutexes s n))
       (\<lambda>u. t_current_priority (thr (inherit c w s) u)) c (lists s (MutexL n))"
    "prio s' u = (if u = w then min (prio s c) (prio s w) else prio s u)"
    "t_error (thr s' c) = RT_EOK"
proof -
  let ?e = "upd_thr c (\<lambda>th. th\<lparr>t_error := RT_EOK\<rparr>) s"
  have m: "is_mutex n s" "m_value (mutexes s n) = 0" using assms(5,6) by (auto simp: mutex_inv_def)
  have ie: "kinv ?e" using assms(1) by (simp add: kinv_upd_thr)
  have st: "statm ?e u = statm s u" for u by (simp add: kframe)
  have pe: "t_current_priority (thr ?e u) = t_current_priority (thr s u)" for u
    by (simp add: upd_thr_def)
  have lw: "can_inherit c w ?e" and lc: "live (statm ?e c)" using assms(3,8)
    by (simp_all add: st live_def can_inherit_def is_thread_def pe) (simp add: upd_thr_def)
  note h = inherit_effect[OF ie lw lc]
  have ce: "cur (inherit c w ?e) = Some c" using h(2) assms(2) by (simp add: kframe)
  have re: "statm (inherit c w ?e) c = RT_THREAD_RUNNING" using h(5)[of c] assms(3) by (simp add: st)
  note b = block_on_effect[OF h(1) ce re, of "MutexL n", simplified]
  have me: "mutexes ?e = mutexes s" by (simp add: kframe)
  have e: "rt_mutex_take n time s = (Blocked, block_on (MutexL n) c (m_flag (mutexes s n)) time
      (inherit c w ?e))"
    using mutex_take_now(2)[OF assms(2,4) m(1), of time] assms(6,7,9) m(2) h(4)
    by (simp add: mutex_again_def me Let_def inherit_def[symmetric])
  show "fst (rt_mutex_take n time s) = Blocked" by (simp add: e)
  show "kinv s'" unfolding s'_def e using b(1) by simp
  show "statm s' c = RT_THREAD_SUSPEND" unfolding s'_def e using b(3) by simp
  show ms: "mutexes s' = mutexes s" unfolding s'_def e using b(12) h(4) me by simp
  have ih: "t_current_priority (thr (inherit c w ?e) u) = t_current_priority (thr (inherit c w s) u)" for u
    using h(8)[of u] inherit_effect(8)[OF assms(1,8), of u] assms(3) by (simp add: pe live_def)
  show ls: "lists s' (MutexL n) = wait_insert (m_flag (mutexes s n))
       (\<lambda>u. t_current_priority (thr (inherit c w s) u)) c (lists s (MutexL n))"
    unfolding s'_def e using b(4)[of "MutexL n"] h(3)[of "MutexL n"] by (simp add: ih kframe)
  have "prio s' u = prio (inherit c w ?e) u" unfolding s'_def e using b(15) by simp
  then show "prio s' u = (if u = w then min (prio s c) (prio s w) else prio s u)"
    using h(8)[of u] by (simp add: prio_def pe min_def word_le_nat_alt)
  show "t_error (thr s' c) = RT_EOK"
    unfolding s'_def e using b(7) h(6)[of c] by (simp add: upd_thr_def)
  have "w \<notin> set (lists s' (MutexL n))"
    using assms(5,6,7) set_wait_insert unfolding ls by (fastforce simp: mutex_inv_def)
  then show "mutex_inv n s'"
    using assms(5,6) ms is_mutex_frame[OF ms, of n] by (simp add: mutex_inv_def)
qed

text \<open>
  The calls that the two cases above leave out: the 256th nested take, and a take that has to raise an owner that is no thread any more
  (it has exited, and its object was detached or freed). The first wraps the counter to 0, the second fails the assertion of
  \<^verbatim>\<open>rt_thread_control\<close>.
\<close>

definition mutex_usable :: "tid \<Rightarrow> nat \<Rightarrow> u32 \<Rightarrow> kernel \<Rightarrow> bool" where
  "mutex_usable c n time s \<longleftrightarrow> (m_owner (mutexes s n) = Some c \<longrightarrow> m_hold (mutexes s n) \<noteq> 255) \<and>
     (\<forall>w. m_owner (mutexes s n) = Some w \<longrightarrow> w \<noteq> c \<longrightarrow> time \<noteq> 0 \<longrightarrow> can_inherit c w s)"

lemma mutex_take_unusable:
  fixes time :: u32
  assumes "kinv s" "cur s = Some c" "statm s c = RT_THREAD_RUNNING" "int_nest s = 0" "is_mutex n s" "mutex_inv n s"
    "\<not> mutex_usable c n time s" "sint time < 2147483647"
  defines "s' \<equiv> snd (rt_mutex_take n time s)"
  shows "if m_owner (mutexes s n) = Some c then m_owner (mutexes s' n) = Some c \<and> m_hold (mutexes s' n) = 0 else stuck s'"
proof (cases "m_owner (mutexes s n) = Some c")
  case True
  then have "m_hold (mutexes s n) = 255" using assms(7) by (simp add: mutex_usable_def)
  with True show ?thesis using mutex_take_now(1)[OF assms(2,4,5) True, of time] by (simp add: s'_def kframe)
next
  case False
  with assms(7) obtain w where w: "m_owner (mutexes s n) = Some w" "w \<noteq> c" "time \<noteq> 0" "\<not> can_inherit c w s"
    by (auto simp: mutex_usable_def)
  let ?e = "upd_thr c (\<lambda>th. th\<lparr>t_error := RT_EOK\<rparr>) s"
  have "t_current_priority (thr ?e u) = t_current_priority (thr s u)" for u by (simp add: upd_thr_def)
  moreover have "rt_object_get_type (t_type (thr ?e w)) \<noteq> RT_Object_Class_Thread" using w(2,4)
    by (simp add: can_inherit_def is_thread_def upd_thr_def)
  ultimately have i: "inherit c w ?e = fail ?e" using w(4) by (simp add: inherit_def can_inherit_def rt_thread_control_def)
  have m: "m_value (mutexes s n) = 0" using assms(6) w(1) by (simp add: mutex_inv_def)
  have e: "rt_mutex_take n time s = (Blocked, block_on (MutexL n) c (m_flag (mutexes (fail ?e) n)) time (fail ?e))"
    using mutex_take_now(2)[OF assms(2,4,5) False, of time] w m i by (simp add: mutex_again_def Let_def inherit_def[symmetric] kframe)
  have "kinv (fail ?e)" "cur (fail ?e) = Some c" "statm (fail ?e) c = RT_THREAD_RUNNING"
    using assms(1-3) by (simp_all add: kinv_upd_thr kframe)
  from block_on_effect(16)[OF this, of "MutexL n" time] assms(8) False show ?thesis by (simp add: s'_def e kframe)
qed

subsection \<open>Releasing\<close>

lemma mutex_release_not_owner:
  assumes "cur s = Some c" "int_nest s = 0" "is_mutex n s" "m_owner (mutexes s n) \<noteq> Some c"
  shows "rt_mutex_release n s = (-RT_ERROR, upd_thr c (\<lambda>th. th\<lparr>t_error := -RT_ERROR\<rparr>) s)"
  using assms by (simp add: rt_mutex_release_def in_thread_context_def rt_thread_self_def)

text \<open>The state in which the last release decides who is next: hold 0, priority restored.\<close>

definition restore_prio :: "nat \<Rightarrow> tid \<Rightarrow> kernel \<Rightarrow> kernel" where
  "restore_prio n t s = (if m_original_priority (mutexes s n) \<noteq> t_current_priority (thr s t)
     then snd (rt_thread_control t 2 (m_original_priority (mutexes s n)) s) else s)"

lemma restore_prio_effect:
  assumes "kinv s" "live (statm s t)" "m_original_priority (mutexes s n) < 32"
  shows "kinv (restore_prio n t s)" "cur (restore_prio n t s) = cur s"
    "wait_list l \<Longrightarrow> lists (restore_prio n t s) l = lists s l"
    "mutexes (restore_prio n t s) = mutexes s"
    "statm (restore_prio n t s) u = statm s u" "stuck (restore_prio n t s) = stuck s"
    "t_current_priority (thr (restore_prio n t s) u) = (if u = t
       then m_original_priority (mutexes s n) else t_current_priority (thr s u))"
    "t_error (thr (restore_prio n t s) u) = t_error (thr s u)"
  using assms control_priority_effect[OF assms(1) live_is_thread[OF assms(1,2)] assms(3)]
  by (auto simp: restore_prio_def)

lemma mutex_release_unfold:
  assumes "cur s = Some c" "int_nest s = 0" "is_mutex n s" "m_owner (mutexes s n) = Some c"
  shows "rt_mutex_release n s =
    (let s1 = upd_mutex n (\<lambda>x. x\<lparr>m_hold := m_hold x - 1\<rparr>) s
     in if m_hold (mutexes s n) \<noteq> 1 then (RT_EOK, s1)
        else let s2 = restore_prio n c s1
             in case lists s2 (MutexL n) of
                  w # _ \<Rightarrow> (RT_EOK, rt_schedule (rt_ipc_list_resume (MutexL n)
                      (upd_mutex n (\<lambda>x. x\<lparr>m_owner := Some w,
                        m_original_priority := t_current_priority (thr s2 w),
                        m_hold := m_hold x + 1\<rparr>) s2)))
                | [] \<Rightarrow> (RT_EOK, upd_mutex n (\<lambda>x. x\<lparr>m_value := m_value x + 1, m_owner := None,
                          m_original_priority := 0xff\<rparr>) s2))"
  using assms
  by (simp add: rt_mutex_release_def in_thread_context_def rt_thread_self_def Let_def kframe
      restore_prio_def eq_iff_diff_eq_0[of _ 1, symmetric] split: list.splits)

lemma mutex_release_nested:
  assumes "kinv s" "cur s = Some c" "int_nest s = 0" "mutex_inv n s"
    "m_owner (mutexes s n) = Some c" "m_hold (mutexes s n) \<noteq> 1"
  defines "s' \<equiv> snd (rt_mutex_release n s)"
  shows "fst (rt_mutex_release n s) = RT_EOK" "kinv s'" "mutex_inv n s'"
    "mutexes s' = (mutexes s)(n := (mutexes s n)\<lparr>m_hold := m_hold (mutexes s n) - 1\<rparr>)"
    "lists s' = lists s"
proof -
  have m: "is_mutex n s" using assms(4) by (simp add: mutex_inv_def)
  have e: "rt_mutex_release n s = (RT_EOK, upd_mutex n (\<lambda>x. x\<lparr>m_hold := m_hold x - 1\<rparr>) s)"
    using mutex_release_unfold[OF assms(2,3) m assms(5)] assms(6) by (simp add: Let_def)
  show "fst (rt_mutex_release n s) = RT_EOK" by (simp add: e)
  show "kinv s'" using assms(1) by (simp add: s'_def e)
  show "mutexes s' = (mutexes s)(n := (mutexes s n)\<lparr>m_hold := m_hold (mutexes s n) - 1\<rparr>)"
    "lists s' = lists s" by (simp_all add: s'_def e kframe)
  show "mutex_inv n s'"
    using assms(4-6) by (simp add: mutex_inv_def is_mutex_def s'_def e kframe)
qed

lemma mutex_release_last:
  assumes "kinv s" "cur s = Some c" "statm s c = RT_THREAD_RUNNING" "int_nest s = 0"
    "mutex_inv n s" "m_owner (mutexes s n) = Some c" "m_hold (mutexes s n) = 1"
  defines "s2 \<equiv> restore_prio n c (upd_mutex n (\<lambda>x. x\<lparr>m_hold := m_hold x - 1\<rparr>) s)"
  shows "kinv s2" "cur s2 = Some c" "wait_list l \<Longrightarrow> lists s2 l = lists s l"
    "mutexes s2 = (mutexes s)(n := (mutexes s n)\<lparr>m_hold := 0\<rparr>)"
    "statm s2 u = statm s u" "stuck s2 = stuck s"
    "t_current_priority (thr s2 u) = (if u = c
       then m_original_priority (mutexes s n) else t_current_priority (thr s u))"
    "t_error (thr s2 u) = t_error (thr s u)"
proof -
  let ?s1 = "upd_mutex n (\<lambda>x. x\<lparr>m_hold := m_hold x - 1\<rparr>) s"
  have i: "kinv ?s1" "live (statm ?s1 c)" using assms(1,3) by (simp_all add: kframe live_def)
  have o: "m_original_priority (mutexes ?s1 n) < 32"
    using assms(5,6) by (simp add: mutex_inv_def kframe)
  note r = restore_prio_effect[OF i o, folded s2_def]
  show "kinv s2" by (rule r(1))
  show "cur s2 = Some c" "wait_list l \<Longrightarrow> lists s2 l = lists s l" "statm s2 u = statm s u"
    "stuck s2 = stuck s" "t_error (thr s2 u) = t_error (thr s u)"
    using r(2,5,6,8) r(3)[of l] assms(2) by (simp_all add: kframe)
  show "mutexes s2 = (mutexes s)(n := (mutexes s n)\<lparr>m_hold := 0\<rparr>)"
    using r(4) assms(7) by (simp add: kframe)
  show "t_current_priority (thr s2 u) = (if u = c
       then m_original_priority (mutexes s n) else t_current_priority (thr s u))"
    using r(7)[of u] by (simp add: kframe)
qed

text \<open>Nobody waits: the mutex is free again and the owner has its own priority back.\<close>

lemma mutex_release_frees:
  assumes "kinv s" "cur s = Some c" "statm s c = RT_THREAD_RUNNING" "int_nest s = 0"
    "mutex_inv n s" "m_owner (mutexes s n) = Some c" "m_hold (mutexes s n) = 1"
    "lists s (MutexL n) = []"
  defines "s' \<equiv> snd (rt_mutex_release n s)"
  shows "fst (rt_mutex_release n s) = RT_EOK" "kinv s'" "mutex_inv n s'"
    "m_owner (mutexes s' n) = None"
    "t_current_priority (thr s' c) = m_original_priority (mutexes s n)"
proof -
  have m: "is_mutex n s" "m_value (mutexes s n) = 0" using assms(5,6) by (simp_all add: mutex_inv_def)
  note r = mutex_release_last[OF assms(1-7)]
  have e: "rt_mutex_release n s = (RT_EOK, upd_mutex n (\<lambda>x. x\<lparr>m_value := m_value x + 1,
      m_owner := None, m_original_priority := 0xff\<rparr>)
      (restore_prio n c (upd_mutex n (\<lambda>x. x\<lparr>m_hold := m_hold x - 1\<rparr>) s)))"
    using mutex_release_unfold[OF assms(2,4) m(1) assms(6)] assms(7,8) r(3)[of "MutexL n"]
    by (simp add: Let_def)
  show "fst (rt_mutex_release n s) = RT_EOK" by (simp add: e)
  show "kinv s'" using r(1) by (simp add: s'_def e)
  show "m_owner (mutexes s' n) = None" by (simp add: s'_def e kframe)
  show "t_current_priority (thr s' c) = m_original_priority (mutexes s n)"
    using r(7)[of c] by (simp add: s'_def e kframe)
  show "mutex_inv n s'"
    using m r(3)[of "MutexL n"] assms(8) by (simp add: mutex_inv_def is_mutex_def s'_def e kframe r(4))
qed

text \<open>Somebody waits: the first waiting thread becomes the owner and wakes up.\<close>

lemma mutex_release_hands_over:
  assumes "kinv s" "cur s = Some c" "statm s c = RT_THREAD_RUNNING" "int_nest s = 0"
    "mutex_inv n s" "m_owner (mutexes s n) = Some c" "m_hold (mutexes s n) = 1"
    "lists s (MutexL n) = w # q"
  defines "s' \<equiv> snd (rt_mutex_release n s)"
  shows "fst (rt_mutex_release n s) = RT_EOK" "kinv s'" "mutex_inv n s'"
    "m_owner (mutexes s' n) = Some w" "m_hold (mutexes s' n) = 1" "lists s' (MutexL n) = q"
    "awake s' w" "t_error (thr s' w) = t_error (thr s w)"
    "prio s' u = (if u = c then unat (m_original_priority (mutexes s n)) else prio s u)"
    "stuck s' = stuck s"
proof -
  let ?s2 = "restore_prio n c (upd_mutex n (\<lambda>x. x\<lparr>m_hold := m_hold x - 1\<rparr>) s)"
  let ?s3 = "upd_mutex n (\<lambda>x. x\<lparr>m_owner := Some w,
                m_original_priority := t_current_priority (thr ?s2 w), m_hold := m_hold x + 1\<rparr>) ?s2"
  let ?s4 = "rt_ipc_list_resume (MutexL n) ?s3"
  have m: "is_mutex n s" "m_value (mutexes s n) = 0" "c \<notin> set (w # q)"
    using assms(5,6,8) by (simp_all add: mutex_inv_def)
  note r = mutex_release_last[OF assms(1-7)]
  have e: "rt_mutex_release n s = (RT_EOK, rt_schedule ?s4)"
    using mutex_release_unfold[OF assms(2,4) m(1) assms(6)] assms(7,8) r(3)[of "MutexL n"]
    by (simp add: Let_def)
  have i3: "kinv ?s3" using r(1) by simp
  have l3: "lists ?s3 (MutexL n) = w # q" using r(3)[of "MutexL n"] assms(8) by (simp add: kframe)
  note z = list_resume_effect[OF i3 _ l3, simplified]
  have c4: "cur ?s4 = Some c" using z(2) r(2) by (simp add: kframe)
  note sel = rt_schedule_sel[OF z(1) c4] and oth = rt_schedule_others[OF z(1) c4]
  have s': "s' = rt_schedule ?s4" by (simp add: s'_def e)
  show "fst (rt_mutex_release n s) = RT_EOK" by (simp add: e)
  show "kinv s'" unfolding s' by (rule rt_schedule_kinv[OF z(1) c4])
  have mm: "mutexes s' = mutexes ?s3" unfolding s' using z(11) by (simp add: kframe)
  show o: "m_owner (mutexes s' n) = Some w" "m_hold (mutexes s' n) = 1"
    unfolding mm by (simp_all add: kframe r(4))
  show l: "lists s' (MutexL n) = q" unfolding s' using oth(3)[of "MutexL n"] z(4)[of "MutexL n"] by simp
  show "awake s' w" using oth(2)[of w] z(3) unfolding s' awake_def by blast
  show "t_error (thr s' w) = t_error (thr s w)"
    unfolding s' using z(6)[of w] r(8)[of w] by (simp add: kframe)
  have "prio s' u = prio ?s3 u" unfolding s' sel(6) using z(14) by simp
  then show "prio s' u = (if u = c then unat (m_original_priority (mutexes s n)) else prio s u)"
    using r(7)[of u] by (simp add: prio_def kframe)
  show "stuck s' = stuck s" unfolding s' sel(1) using z(15) r(6) by (simp add: kframe)
  have lw: "live (statm s w)"
    using z(16) r(5)[of w] by (simp add: kframe live_def)
  have "m_original_priority (mutexes s' n) < 32"
    unfolding mm using r(7)[of w] running_prio[OF assms(1) lw] m(3) by (simp add: kframe)
  moreover have "w \<notin> set q"
    using kbaseD(1)[OF kinv_partsD(1)[OF assms(1)]] assms(8) unfolding lists_ok_def
    by (metis distinct.simps(2))
  moreover have "is_mutex n s'" "m_value (mutexes s' n) = 0"
    using m by (simp_all add: is_mutex_def mm kframe r(4))
  ultimately show "mutex_inv n s'" using o l by (simp add: mutex_inv_def)
qed

end
