(* ===== verification/Kstep.thy ===== *)
theory Kstep
  imports Semaphore Mutex
begin

text \<open>
  The kernel as a state machine: \<open>kstep\<close> is one call of a thread or semaphore operation by the running
  thread, or one tick. The guards of the rules are the documented conditions of use (a started thread
  object, a timeout below \<^verbatim>\<open>RT_TICK_MAX / 2\<close>, a priority in range). \<open>ksys\<close> is the invariant of the
  reachable states; it includes that no assertion has failed.
\<close>

section \<open>The timer list\<close>

definition tm_ok :: "kernel \<Rightarrow> bool" where
  "tm_ok s \<longleftrightarrow> timers_idle s \<and> timer_sorted (tick s) (tmo s) (timer_list s)"

lemma tm_ok_frame:
  assumes "timers s' = timers s" "timer_list s' = timer_list s" "tick s' = tick s"
  shows "tm_ok s' = tm_ok s"
proof -
  have "tmo s' = tmo s" using assms(1) by (simp add: tmo_def fun_eq_iff)
  then show ?thesis using assms by (simp add: tm_ok_def timers_idle_def one_shot_def)
qed

lemma tick_sel [kframe]:
  "tick (list_remove t s) = tick s" "tick (rt_schedule_remove_thread t s) = tick s"
  "tick (snd (rt_timer_stop i s)) = tick s"
  by (simp_all add: list_remove_def rt_schedule_remove_thread_def rt_timer_stop_def Let_def kframe)

lemma timer_sorted_removeAll: "timer_sorted b f ts \<Longrightarrow> timer_sorted b f (removeAll i ts)"
  by (auto simp: timer_sorted_def removeAll_filter_not_eq intro: sorted_filter)

lemma timer_sorted_cong:
  "(\<And>i. i \<in> set ts \<Longrightarrow> f i = g i) \<Longrightarrow> timer_sorted b f ts = timer_sorted b g ts"
  by (simp add: timer_sorted_def cong: map_cong)

lemma tm_ok_stop: "tm_ok s \<Longrightarrow> tm_ok (snd (rt_timer_stop i s))"
proof -
  assume t: "tm_ok s"
  let ?s = "snd (rt_timer_stop i s)"
  have "tmo ?s = tmo s" by (auto simp: tmo_def rt_timer_stop_def kframe fun_eq_iff)
  moreover have "one_shot ?s" using t
    by (auto simp: tm_ok_def timers_idle_def one_shot_def rt_timer_stop_def kframe and_not1[simplified])
  moreover have "timer_list ?s = timer_list s \<or> timer_list ?s = removeAll i (timer_list s)"
    by (auto simp: rt_timer_stop_def kframe)
  moreover have "tick ?s = tick s" by (simp add: kframe)
  ultimately show ?thesis using t timer_sorted_removeAll
    by (auto simp: tm_ok_def timers_idle_def)
qed

lemma or1_and2: "(x OR 1) AND 2 = x AND (2 :: u8)"
proof (rule bit_eqI)
  fix n
  have "bit (2 :: u8) n \<Longrightarrow> \<not> bit (1 :: u8) n"
    using bit_exp_iff[of 1 n, where 'a = u8] by (auto simp: bit_1_iff)
  then show "bit ((x OR 1) AND 2) n = bit (x AND 2) n"
    by (auto simp: bit_and_iff bit_or_iff)
qed

lemma start_thread_timer_state:
  fixes time :: u32
  assumes "rt_object_get_type (tm_type (timers s (ThreadTimer t))) = RT_Object_Class_Timer"
    "time < 2147483647"
  defines "s' \<equiv> start_thread_timer t time s"
  shows "tmo s' = (tmo s)(ThreadTimer t := tick s + time)"
    "timer_list s' = timer_insert ((tmo s)(ThreadTimer t := tick s + time)) (ThreadTimer t)
       (tick s + time) (removeAll (ThreadTimer t) (timer_list s))"
    "tm_flag (timers s' j) AND 2 = tm_flag (timers s j) AND 2"
proof -
  let ?i = "ThreadTimer t"
  let ?c = "snd (rt_timer_control ?i 0 time s)"
  have c: "?c = upd_timer ?i (\<lambda>x. x\<lparr>tm_init_tick := time\<rparr>) s"
    using assms(1) by (simp add: rt_timer_control_def)
  let ?u = "upd_timer ?i (\<lambda>x. x\<lparr>tm_flag := tm_flag x AND NOT RT_TIMER_FLAG_ACTIVATED\<rparr>)
    (timer_unlink ?i ?c)"
  let ?s3 = "upd_timer ?i (\<lambda>x. x\<lparr>tm_timeout_tick := tick ?u + tm_init_tick x\<rparr>) ?u"
  let ?s4 = "?s3\<lparr>timer_list := timer_insert (\<lambda>j. tm_timeout_tick (timers ?s3 j)) ?i
                     (tm_timeout_tick (timers ?s3 ?i)) (timer_list ?s3)\<rparr>"
  have ty: "rt_object_get_type (tm_type (timers ?c ?i)) = RT_Object_Class_Timer"
    using assms(1) by (simp add: c kframe)
  have ini: "tm_init_tick (timers ?u ?i) < RT_TICK_MAX div 2" using assms(2) by (simp add: c kframe)
  have s': "s' = upd_timer ?i (\<lambda>x. x\<lparr>tm_flag := tm_flag x OR RT_TIMER_FLAG_ACTIVATED\<rparr>) ?s4"
    unfolding s'_def start_thread_timer_def rt_timer_start_def Let_def
    using ty ini by (simp only: if_False simp_thms)
  have tm3: "(\<lambda>j. tm_timeout_tick (timers ?s3 j)) = (tmo s)(?i := tick s + time)"
    by (simp add: c kframe tmo_def fun_eq_iff)
  show "tmo s' = (tmo s)(?i := tick s + time)"
    unfolding s' by (simp add: tmo_def kframe c fun_eq_iff)
  show "timer_list s' = timer_insert ((tmo s)(?i := tick s + time)) ?i (tick s + time)
       (removeAll ?i (timer_list s))"
    unfolding s' tm3 by (simp add: kframe c)
  show "tm_flag (timers s' j) AND 2 = tm_flag (timers s j) AND 2"
    unfolding s' by (simp add: kframe c or1_and2 and_not1[simplified])
qed

lemma tm_ok_start:
  fixes time :: u32
  assumes "tm_ok s" "thread_ok s t" "time < 2147483647"
  shows "tm_ok (start_thread_timer t time s)"
proof -
  let ?i = "ThreadTimer t" and ?s = "start_thread_timer t time s"
  have ty: "rt_object_get_type (tm_type (timers s ?i)) = RT_Object_Class_Timer"
    using assms(2) by (simp add: thread_ok_def)
  note st = start_thread_timer_state[OF ty assms(3)]
  let ?r = "removeAll ?i (timer_list s)"
  let ?f = "(tmo s)(?i := tick s + time)"
  have "timer_sorted (tick s) (tmo s) ?r"
    using assms(1) by (simp add: tm_ok_def timer_sorted_removeAll)
  moreover have "timer_sorted (tick s) ?f ?r = timer_sorted (tick s) (tmo s) ?r"
    by (rule timer_sorted_cong) simp
  ultimately have r: "timer_sorted (tick s) ?f ?r" by simp
  have k: "tkey (tick s) (tick s + time) < 2147483647"
    using assms(3) by (simp add: tkey_def word_less_nat_alt)
  have "timer_sorted (tick s) ?f (timer_insert ?f ?i (tick s + time) ?r)"
    by (rule timer_insert_sorted[OF r k]) simp
  moreover have "one_shot ?s" using assms(1) st(3) by (simp add: tm_ok_def timers_idle_def one_shot_def)
  ultimately show ?thesis using assms(1)
    by (auto simp: tm_ok_def timers_idle_def st(1,2) kframe)
qed

section \<open>Operations that keep the timers in order\<close>

lemma upd_thr_timers [kframe]: "tm_ok (upd_thr t f s) = tm_ok s"
  by (rule tm_ok_frame) (simp_all add: upd_thr_def)

lemma set_stat_tm [kframe]: "tm_ok (set_stat t v s) = tm_ok s"
  by (simp add: set_stat_def kframe)

lemma tm_ok_frames [kframe]:
  "tm_ok (list_remove t s) = tm_ok s" "tm_ok (rt_schedule_remove_thread t s) = tm_ok s"
  "tm_ok (fail s) = tm_ok s" "tm_ok (upd_sem n g s) = tm_ok s" "tm_ok (s\<lparr>lists := h\<rparr>) = tm_ok s"
  by (rule tm_ok_frame; simp add: kframe)+

lemma tm_ok_insert_thread [kframe]: "tm_ok (rt_schedule_insert_thread t s) = tm_ok s"
  by (rule tm_ok_frame) (simp_all add: kframe insert_thread_sel)

lemma tm_ok_rt_schedule:
  assumes "kinv s" "cur s = Some c"
  shows "tm_ok (rt_schedule s) = tm_ok s"
  using rt_schedule_sel(3,4)[OF assms] by (intro tm_ok_frame) (simp_all add: kframe)

lemma tm_ok_suspend: "tm_ok s \<Longrightarrow> tm_ok (snd (rt_thread_suspend t s))"
  by (simp add: rt_thread_suspend_def Let_def tm_ok_stop kframe)

lemma tm_ok_resume: "tm_ok s \<Longrightarrow> tm_ok (snd (rt_thread_resume t s))"
  by (simp add: rt_thread_resume_def Let_def tm_ok_stop kframe)

lemma tm_ok_block:
  fixes flag :: u8 and time :: u32
  assumes "kinv s" "cur s = Some c" "statm s c = RT_THREAD_RUNNING" "wait_list l" "tm_ok s"
    "sint time < 2147483647"
  shows "tm_ok (block_on l c flag time s)"
proof -
  have k: "kbase {} s" using assms(1) by (simp add: kinv_def)
  let ?q = "wait_insert flag (\<lambda>u. t_current_priority (thr s u)) c (lists s l)"
  have "c \<notin> set (lists s l)" using detached_running[OF k assms(3)] by (simp add: detached_def)
  then have d: "distinct ?q"
    using kbaseD(1)[OF k] by (intro distinct_wait_insert) (simp_all add: lists_ok_def)
  let ?p = "park l ?q c s"
  note e = park_effect[OF assms(1-4) set_wait_insert d]
  have tp: "tm_ok ?p" using tm_ok_suspend[OF assms(5)] by (simp add: park_def Let_def kframe)
  let ?s2 = "if 0 < sint time then start_thread_timer c time ?p else ?p"
  have "thread_ok s c" using kbaseD(7)[OF k] assms(3) by (simp add: live_def)
  then have ok: "thread_ok ?p c" by (simp add: e(7))
  have "tm_ok ?s2"
  proof (cases "0 < sint time")
    case True
    then have "sint time = uint time" by (intro sint_eq_uint_if_nonneg) simp
    then have "time < 2147483647" using assms(6) by (simp add: word_less_def)
    with True show ?thesis using tm_ok_start[OF tp ok] by simp
  qed (use tp in simp)
  moreover have "kinv ?s2" using e(1) kinv_start_thread_timer[OF e(1), of c time] e(4) by simp
  moreover have "cur ?s2 = Some c" using e(2) by (simp add: kframe)
  moreover have "block_on l c flag time s = rt_schedule ?s2"
    by (simp add: block_on_def list_suspend_park[OF assms(1-3)] give_up_def)
  ultimately show ?thesis by (simp add: tm_ok_rt_schedule)
qed

section \<open>The transition system\<close>

definition running :: "kernel \<Rightarrow> tid \<Rightarrow> bool" where
  "running s c \<longleftrightarrow> cur s = Some c \<and> statm s c = RT_THREAD_RUNNING"

inductive kstep :: "(nat \<Rightarrow> kernel \<Rightarrow> kernel) \<Rightarrow> kernel \<Rightarrow> kernel \<Rightarrow> bool" for tf where
  tick: "rt_tick_increase tf fuel s = Some s' \<Longrightarrow> length (timer_list s) < fuel \<Longrightarrow> kstep tf s s'"
| yield: "kstep tf s (snd (rt_thread_yield s))"
| sleep: "running s c \<Longrightarrow> time < 2147483647 \<Longrightarrow> kstep tf s (rt_thread_sleep time s)"
| woken: "kstep tf s (snd (rt_thread_sleep_return t s))"
| suspend: "is_thread s t \<Longrightarrow> statm s t \<noteq> RT_THREAD_RUNNING \<or> cur s = Some t \<Longrightarrow>
    kstep tf s (snd (rt_thread_suspend t s))"
| resume: "is_thread s t \<Longrightarrow> kstep tf s (snd (rt_thread_resume t s))"
| startup: "startable s t \<Longrightarrow> kstep tf s (snd (rt_thread_startup t s))"
| priority: "is_thread s t \<Longrightarrow> p < 32 \<Longrightarrow> kstep tf s (snd (rt_thread_control t 2 p s))"
| exit: "running s c \<Longrightarrow> kstep tf s (rt_thread_exit s)"
| enter: "kstep tf s (rt_enter_critical s)"
| leave: "kstep tf s (rt_exit_critical s)"
| sem_take: "running s c \<Longrightarrow> int_nest s = 0 \<Longrightarrow> is_sem n s \<Longrightarrow> sint time < 2147483647 \<Longrightarrow>
    kstep tf s (snd (rt_sem_take n time s))"
| sem_release: "is_sem n s \<Longrightarrow> kstep tf s (snd (rt_sem_release n s))"
| sem_reset: "is_sem n s \<Longrightarrow> kstep tf s (snd (rt_sem_control n 1 v s))"

inductive kreach :: "(nat \<Rightarrow> kernel \<Rightarrow> kernel) \<Rightarrow> kernel \<Rightarrow> kernel \<Rightarrow> bool" for tf where
  start: "kreach tf s s"
| step: "kreach tf s s1 \<Longrightarrow> kstep tf s1 s2 \<Longrightarrow> kreach tf s s2"

inductive_cases kstepE: "kstep tf s s'"

definition sems_ok :: "kernel \<Rightarrow> bool" where
  "sems_ok s \<longleftrightarrow> (\<forall>n. is_sem n s \<longrightarrow> sem_inv n s)"

definition ksys :: "kernel \<Rightarrow> bool" where
  "ksys s \<longleftrightarrow> kinv s \<and> cur s \<noteq> None \<and> tm_ok s \<and> sems_ok s \<and> \<not> stuck s"

lemma ksysD:
  assumes "ksys s"
  shows "kinv s" "tm_ok s" "sems_ok s" "\<not> stuck s" "timers_idle s"
    "timer_sorted (tick s) (tmo s) (timer_list s)"
  using assms by (simp_all add: ksys_def tm_ok_def)

text \<open>Semaphores stay consistent when their lists only shrink.\<close>

lemma sems_ok_shrink:
  assumes "sems_ok s" "sems s' = sems s" "\<And>n. set (lists s' (SemL n)) \<subseteq> set (lists s (SemL n))"
  shows "sems_ok s'"
  unfolding sems_ok_def
proof (intro allI impI)
  fix n assume "is_sem n s'"
  then have "sem_inv n s" using assms(1,2) by (simp add: sems_ok_def is_sem_def)
  moreover have "lists s (SemL n) = [] \<Longrightarrow> lists s' (SemL n) = []" using assms(3)[of n] by simp
  ultimately show "sem_inv n s'" using assms(2) by (auto simp: sem_inv_def is_sem_def)
qed

lemma sems_ok_upd:
  assumes "sems_ok s" "\<And>m. m \<noteq> n \<Longrightarrow> sems s' m = sems s m"
    "\<And>m. m \<noteq> n \<Longrightarrow> lists s' (SemL m) = lists s (SemL m)" "sem_inv n s'"
  shows "sems_ok s'"
  unfolding sems_ok_def
proof (intro allI impI)
  fix m assume m: "is_sem m s'"
  show "sem_inv m s'"
  proof (cases "m = n")
    case False
    have "is_sem m s" using m assms(2)[OF False] by (simp add: is_sem_def)
    then have "sem_inv m s" using assms(1) by (simp add: sems_ok_def)
    then show ?thesis using assms(2,3)[OF False] by (simp add: sem_inv_def is_sem_def)
  qed (use assms(4) in simp)
qed

text \<open>Scheduling keeps the whole invariant.\<close>

lemma ksys_rt_schedule:
  assumes "kinv s" "cur s \<noteq> None" "tm_ok s" "sems_ok s" "\<not> stuck s"
  shows "ksys (rt_schedule s)"
proof -
  obtain c where c: "cur s = Some c" using assms(2) by auto
  have "sems_ok (rt_schedule s)"
    by (rule sems_ok_shrink[OF assms(4)])
      (simp_all add: kframe rt_schedule_others(3)[OF assms(1) c])
  then show ?thesis
    using assms rt_schedule_kinv[OF assms(1) c] rt_schedule_sel[OF assms(1) c]
      tm_ok_rt_schedule[OF assms(1) c]
    by (simp add: ksys_def)
qed

lemma timer_stop_keeps [kframe]:
  "sems (snd (rt_timer_stop i s)) = sems s" "lists (snd (rt_timer_stop i s)) = lists s"
  by (simp_all add: rt_timer_stop_def timer_unlink_def upd_timer_def fail_def)

lemma ksys_suspend:
  assumes "ksys s" "is_thread s t" "statm s t \<noteq> RT_THREAD_RUNNING \<or> cur s = Some t"
  shows "ksys (snd (rt_thread_suspend t s))"
proof -
  let ?s = "snd (rt_thread_suspend t s)"
  note d = ksysD[OF assms(1)]
  have ok: "live (statm s t) \<Longrightarrow> thread_ok s t" by (rule kbaseD(7)[OF kinv_partsD(1)[OF d(1)]])
  have "\<not> stuck ?s \<and> sems ?s = sems s \<and> (\<forall>l. set (lists ?s l) \<subseteq> set (lists s l))"
  proof (cases "statm s t = RT_THREAD_READY \<or> statm s t = RT_THREAD_RUNNING")
    case False
    then have "rt_thread_suspend t s = (-RT_ERROR, s)"
      using assms(2) by (simp add: rt_thread_suspend_def is_thread_def)
    with d show ?thesis by simp
  next
    case True
    then have "?s = snd (rt_timer_stop (ThreadTimer t)
        (set_stat t RT_THREAD_SUSPEND (rt_schedule_remove_thread t s)))"
      using assms(2,3) by (auto simp: rt_thread_suspend_def is_thread_def rt_thread_self_def Let_def)
    moreover have "thread_ok s t" using ok True by (auto simp: live_def)
    ultimately show ?thesis using d(4) by (auto simp: kframe thread_ok_def)
  qed
  then show ?thesis
    using rt_thread_suspend_kinv[OF d(1)] tm_ok_suspend[OF d(2)] sems_ok_shrink[OF d(3)] assms(1)
    by (simp add: ksys_def kframe)
qed

lemma ksys_resume:
  assumes "ksys s" "is_thread s t"
  shows "ksys (snd (rt_thread_resume t s))"
proof (cases "statm s t = RT_THREAD_SUSPEND")
  case False
  with assms show ?thesis by (simp add: rt_thread_resume_def is_thread_def)
next
  case True
  note d = ksysD[OF assms(1)]
  note r = resume_effect[OF d(1) True]
  have "sems_ok (snd (rt_thread_resume t s))"
    by (rule sems_ok_shrink[OF d(3) r(10)]) (auto simp: r(4))
  then show ?thesis
    using r(1,2,15) tm_ok_resume[OF d(2)] assms(1) by (simp add: ksys_def)
qed

lemma ksys_startup:
  assumes "ksys s" "startable s t"
  shows "ksys (snd (rt_thread_startup t s))"
proof -
  note d = ksysD[OF assms(1)]
  note st = started_kinv[OF d(1) assms(2)]
  have "ksys (started t s)"
    using st(1,3,6) sems_ok_shrink[OF d(3), of "started t s"] assms(1)
    by (simp add: ksys_def started_def kframe)
  moreover have "is_thread (started t s) t"
    using assms(2) by (simp add: is_thread_def started_def startable_def upd_thr_def)
  ultimately have r: "ksys (snd (rt_thread_resume t (started t s)))" by (rule ksys_resume)
  then show ?thesis
    using ksys_rt_schedule[of "snd (rt_thread_resume t (started t s))"]
    by (simp add: rt_thread_startup_unfold[OF assms(2)] Let_def ksys_def)
qed

lemma ksys_priority:
  assumes "ksys s" "is_thread s t" "p < 32"
  shows "ksys (snd (rt_thread_control t 2 p s))"
proof -
  note d = ksysD[OF assms(1)]
  note e = control_priority_effect[OF d(1) assms(2,3)]
  let ?s = "snd (rt_thread_control t 2 p s)"
  have tm: "timers ?s = timers s" "timer_list ?s = timer_list s" "tick ?s = tick s" "sems ?s = sems s"
    using e(1) assms(2)
    by (simp_all add: rt_thread_control_def is_thread_def set_priority_sel insert_thread_sel kframe)
  have "sems_ok ?s" by (rule sems_ok_shrink[OF d(3) tm(4)]) (simp add: e(3))
  then show ?thesis using e(1,2,7) tm_ok_frame[OF tm(1-3)] assms(1) by (simp add: ksys_def)
qed

lemma ksys_sleep:
  fixes time :: u32
  assumes "ksys s" "running s c" "time < 2147483647"
  shows "ksys (rt_thread_sleep time s)"
proof -
  note d = ksysD[OF assms(1)]
  have c: "cur s = Some c" and r: "statm s c = RT_THREAD_RUNNING" using assms(2) by (simp_all add: running_def)
  have ok: "thread_ok s c" using kbaseD(7)[OF kinv_partsD(1)[OF d(1)]] r by (simp add: live_def)
  let ?z = "snd (rt_thread_suspend c s)"
  let ?t = "start_thread_timer c time ?z"
  have z: "ksys ?z"
    by (rule ksys_suspend[OF assms(1)]) (use ok c in \<open>simp_all add: is_thread_def thread_ok_def\<close>)
  note dz = ksysD[OF z]
  have okz: "thread_ok ?z c" using ok by (simp add: kframe)
  have e: "rt_thread_sleep time s = rt_schedule ?t"
    using c ok by (simp add: rt_thread_sleep_def rt_thread_self_def thread_ok_def)
  show ?thesis
    unfolding e
  proof (rule ksys_rt_schedule)
    show "kinv ?t"
      by (rule kinv_start_thread_timer[OF dz(1)]) (simp add: suspend_running(2)[OF d(1) c r])
    show "cur ?t \<noteq> None" using c by (simp add: kframe)
    show "tm_ok ?t" by (rule tm_ok_start[OF dz(2) okz assms(3)])
    show "sems_ok ?t" by (rule sems_ok_shrink[OF dz(3)]) (simp_all add: kframe)
    show "\<not> stuck ?t" using dz(4) by (simp add: start_thread_timer_stuck[OF okz assms(3)])
  qed
qed

lemma ksys_exit:
  assumes "ksys s" "running s c"
  shows "ksys (rt_thread_exit s)"
proof -
  note d = ksysD[OF assms(1)]
  have c: "cur s = Some c" and r: "statm s c = RT_THREAD_RUNNING" using assms(2) by (simp_all add: running_def)
  have ok: "thread_ok s c" using kbaseD(7)[OF kinv_partsD(1)[OF d(1)]] r by (simp add: live_def)
  let ?z = "rt_schedule_remove_thread c s"
  let ?t = "thread_retire c ?z"
  have e: "rt_thread_exit s = rt_schedule ?t" using c by (simp add: rt_thread_exit_def rt_thread_self_def)
  have ty: "rt_object_get_type (tm_type (timers ?z (ThreadTimer c))) = RT_Object_Class_Timer"
    "rt_object_is_systemobject (tm_type (timers ?z (ThreadTimer c)))"
    using ok by (simp_all add: kframe thread_ok_def)
  have off: "ThreadTimer c \<notin> set (timer_list s)"
    using timer_off[OF kinv_partsD(1)[OF d(1)]] r by simp
  have tl: "timer_list ?t = timer_list s" "tick ?t = tick s" "stuck ?t = stuck s" "sems ?t = sems s"
    using ty off
    by (simp_all add: thread_retire_def rt_timer_detach_def Let_def kframe upd_thr_def upd_timer_def
        timer_unlink_def list_insert_after_def removeAll_id_if_notin rt_schedule_remove_thread_def
        list_remove_def)
  have tmf: "tmo ?t = tmo s" "one_shot ?t = one_shot s"
    using ty
    by (auto simp: thread_retire_def rt_timer_detach_def Let_def kframe upd_thr_def upd_timer_def
        timer_unlink_def list_insert_after_def tmo_def one_shot_def fun_eq_iff
        rt_schedule_remove_thread_def list_remove_def)
  have ls: "lists ?t (SemL n) = removeAll c (lists s (SemL n))" for n
    using ty
    by (simp add: thread_retire_def rt_timer_detach_def Let_def kframe)
  show ?thesis
    unfolding e
  proof (rule ksys_rt_schedule)
    show "kinv ?t" using kinv_retire[OF kbase_gone[OF d(1), of c]] r by (simp add: live_def)
    show "cur ?t \<noteq> None" using c by (simp add: thread_retire_cur kframe)
    show "tm_ok ?t" using d(2) by (simp add: tm_ok_def timers_idle_def tmf tl)
    show "sems_ok ?t" by (rule sems_ok_shrink[OF d(3) tl(4)]) (auto simp: ls)
    show "\<not> stuck ?t" using d(4) tl by simp
  qed
qed

lemma ksys_tick:
  assumes "ksys s" "rt_tick_increase tf fuel s = Some s'" "length (timer_list s) < fuel"
  shows "ksys s'"
proof -
  note d = ksysD[OF assms(1)]
  obtain c where c: "cur s = Some c" using assms(1) by (auto simp: ksys_def)
  obtain s2 where s2: "rt_tick_increase tf fuel s = Some s2" "kinv s2" "cur s2 \<noteq> None"
    "timers_idle s2" "timer_sorted (tick s2) (tmo s2) (timer_list s2)" "stuck s2 = stuck s"
    "\<And>l. wait_list l \<Longrightarrow> set (lists s2 l) \<subseteq> set (lists s l)" "ipc_same s s2"
    using tick_increase_threads[OF d(1) c d(5) assms(3) d(6), of tf] by (auto simp: subset_iff)
  have "sems_ok s2"
    by (rule sems_ok_shrink[OF d(3)]) (use s2(7,8) in \<open>simp_all add: ipc_same_def\<close>)
  with s2 assms(2) d(4) show ?thesis by (simp add: ksys_def tm_ok_def)
qed

lemma ksys_lock_nest: "ksys (s\<lparr>lock_nest := n\<rparr>) = ksys s"
proof -
  have "statm (s\<lparr>lock_nest := n\<rparr>) = statm s" "prio (s\<lparr>lock_nest := n\<rparr>) = prio s"
    "thread_ok (s\<lparr>lock_nest := n\<rparr>) = thread_ok s"
    by (simp_all add: statm_def prio_def thread_ok_def fun_eq_iff)
  then have "kinv (s\<lparr>lock_nest := n\<rparr>) = kinv s" by (intro kinv_frame) simp_all
  moreover have "tm_ok (s\<lparr>lock_nest := n\<rparr>) = tm_ok s" by (rule tm_ok_frame) simp_all
  ultimately show ?thesis by (simp add: ksys_def sems_ok_def sem_inv_def is_sem_def)
qed

lemma ksys_critical:
  assumes "ksys s"
  shows "ksys (rt_enter_critical s)" "ksys (rt_exit_critical s)"
proof -
  show "ksys (rt_enter_critical s)" using assms by (simp add: rt_enter_critical_def ksys_lock_nest)
  have "ksys (rt_schedule (s\<lparr>lock_nest := 0\<rparr>))"
  proof (rule ksys_rt_schedule)
    have k: "ksys (s\<lparr>lock_nest := 0\<rparr>)" using assms by (simp add: ksys_lock_nest)
    show "kinv (s\<lparr>lock_nest := 0\<rparr>)" "tm_ok (s\<lparr>lock_nest := 0\<rparr>)" "sems_ok (s\<lparr>lock_nest := 0\<rparr>)"
      "\<not> stuck (s\<lparr>lock_nest := 0\<rparr>)" by (rule ksysD[OF k])+
    show "cur (s\<lparr>lock_nest := 0\<rparr>) \<noteq> None" using k by (simp add: ksys_def)
  qed
  moreover have "ksys (s\<lparr>lock_nest := lock_nest s - 1\<rparr>)" using assms by (simp add: ksys_lock_nest)
  moreover have "cur s \<noteq> None" using assms by (simp add: ksys_def)
  ultimately show "ksys (rt_exit_critical s)" by (simp add: rt_exit_critical_def Let_def)
qed

lemma ksys_upd_error: "ksys (upd_thr t (\<lambda>th. th\<lparr>t_error := e\<rparr>) s) = ksys s"
  by (simp add: ksys_def kinv_upd_thr kframe sems_ok_def sem_inv_def is_sem_def)

lemma ksys_sem_take:
  fixes time :: u32
  assumes "ksys s" "running s c" "int_nest s = 0" "is_sem n s" "sint time < 2147483647"
  shows "ksys (snd (rt_sem_take n time s))"
proof -
  note d = ksysD[OF assms(1)]
  have c: "cur s = Some c" and r: "statm s c = RT_THREAD_RUNNING" using assms(2) by (simp_all add: running_def)
  have i: "sem_inv n s" using d(3) assms(4) by (simp add: sems_ok_def)
  note eff = sem_take_effect[OF d(1) c r assms(3) i, of time]
    and inv = sem_take_inv[OF d(1) c r assms(3) i, of time]
  let ?e = "upd_thr c (\<lambda>th. th\<lparr>t_error := RT_EOK\<rparr>) s"
  have e: "ksys ?e" using assms(1) by (simp add: ksys_upd_error)
  have ce: "cur ?e = Some c" and re: "statm ?e c = RT_THREAD_RUNNING" using c r by (simp_all add: kframe)
  note b = block_on_effect[OF ksysD(1)[OF e] ce re, of "SemL n", simplified]
  note tb = tm_ok_block[OF ksysD(1)[OF e] ce re _ ksysD(2)[OF e] assms(5), of "SemL n", simplified]
  consider (now) "0 < s_value (sems s n)" | (fail) "s_value (sems s n) = 0" "time = 0"
    | (wait) "s_value (sems s n) = 0" "time \<noteq> 0" using word_neq_0_conv by blast
  then show ?thesis
  proof cases
    case now
    let ?s = "upd_sem n (\<lambda>x. x\<lparr>s_value := s_value x - 1\<rparr>) s"
    have "sems_ok ?s"
      by (rule sems_ok_upd[OF d(3), where n = n]) (use inv(2) eff(1)[OF now] in \<open>simp_all add: kframe\<close>)
    then show ?thesis using assms(1) eff(1)[OF now] by (simp add: ksys_def kframe)
  next
    case fail
    with assms(1) eff(2) show ?thesis by simp
  next
    case wait
    let ?s = "block_on (SemL n) c (s_flag (sems s n)) time ?e"
    have s: "snd (rt_sem_take n time s) = ?s" using eff(3)[OF wait] by simp
    have "sems_ok ?s"
      by (rule sems_ok_upd[OF d(3), where n = n]) (use inv(2) s b(4,11) in \<open>simp_all add: kframe\<close>)
    then show ?thesis
      unfolding s using b(1,2,16) tb assms(5) ksysD(4)[OF e] by (simp add: ksys_def)
  qed
qed

lemma ksys_list_resume:
  assumes "ksys s" "wait_list l" "lists s l \<noteq> []"
  shows "ksys (rt_ipc_list_resume l s)"
proof -
  obtain t q where l: "lists s l = t # q" using assms(3) by (cases "lists s l") auto
  note m = wait_list_member[OF ksysD(1)[OF assms(1)] assms(2), of t]
  have "live (statm s t)" using m(1) l by (simp add: live_def)
  then have "is_thread s t"
    using kbaseD(7)[OF kinv_partsD(1)[OF ksysD(1)[OF assms(1)]]] by (simp add: thread_ok_def is_thread_def)
  from ksys_resume[OF assms(1) this] show ?thesis by (simp add: rt_ipc_list_resume_def l)
qed

lemma ksys_sem_release:
  assumes "ksys s" "is_sem n s"
  shows "ksys (snd (rt_sem_release n s))"
proof -
  note d = ksysD[OF assms(1)]
  have i: "sem_inv n s" using d(3) assms(2) by (simp add: sems_ok_def)
  show ?thesis
  proof (cases "lists s (SemL n) = []")
    case True
    let ?s = "upd_sem n (\<lambda>x. x\<lparr>s_value := s_value x + 1\<rparr>) s"
    have "sem_inv n ?s" using i True by (simp add: sem_inv_def is_sem_def kframe)
    then have "sems_ok ?s" by (intro sems_ok_upd[OF d(3), where n = n]) (simp_all add: kframe)
    then show ?thesis using assms(1) sem_release_counts[OF i True] by (simp add: ksys_def kframe)
  next
    case False
    have r: "ksys (rt_ipc_list_resume (SemL n) s)" by (rule ksys_list_resume[OF assms(1) _ False]) simp
    have "ksys (rt_schedule (rt_ipc_list_resume (SemL n) s))"
      by (rule ksys_rt_schedule) (use r in \<open>simp_all add: ksys_def\<close>)
    then show ?thesis using False assms(2) by (simp add: rt_sem_release_def)
  qed
qed

lemma ksys_resume_all:
  assumes "ksys s" "wait_list l"
  shows "ksys (resume_all_loop k l s) \<or> stuck (resume_all_loop k l s)"
  using assms(1)
proof (induction k arbitrary: s)
  case 0
  then show ?case by (simp add: kframe)
next
  case (Suc k)
  show ?case
  proof (cases "lists s l")
    case (Cons t q)
    let ?e = "upd_thr t (\<lambda>th. th\<lparr>t_error := -RT_ERROR\<rparr>) s"
    have e: "ksys ?e" using Suc.prems by (simp add: ksys_upd_error)
    have "ksys (rt_ipc_list_resume l ?e)"
      by (rule ksys_list_resume[OF e assms(2)]) (simp add: kframe Cons)
    then show ?thesis unfolding resume_all_step[OF Cons] by (rule Suc.IH)
  qed (use Suc.prems in simp)
qed

lemma ksys_sem_reset:
  assumes "ksys s" "is_sem n s"
  shows "ksys (snd (rt_sem_control n 1 v s))"
proof -
  note d = ksysD[OF assms(1)]
  let ?a = "rt_ipc_list_resume_all (SemL n) s"
  let ?b = "upd_sem n (\<lambda>x. x\<lparr>s_value := ucast v\<rparr>) ?a"
  note a = resume_all_effect[OF d(1), of "SemL n", simplified, unfolded all_resumed_def]
  have ka: "ksys ?a"
    using ksys_resume_all[OF assms(1), of "SemL n"] a d(4) by (auto simp: rt_ipc_list_resume_all_def)
  have "sem_inv n ?b" using a assms(2) by (simp add: sem_inv_def is_sem_def kframe)
  then have "sems_ok ?b" by (intro sems_ok_upd[OF ksysD(3)[OF ka], where n = n]) (simp_all add: kframe)
  then have "ksys (rt_schedule ?b)"
    using ka by (intro ksys_rt_schedule) (simp_all add: ksys_def kframe)
  moreover have "snd (rt_sem_control n 1 v s) = rt_schedule ?b"
    using assms(2) unfolding rt_sem_control_def by simp
  ultimately show ?thesis by simp
qed

lemma kstep_ksys:
  assumes "kstep tf s s'" "ksys s"
  shows "ksys s'"
  using assms
proof (cases rule: kstep.cases)
  case (tick fuel)
  with assms(2) ksys_tick show ?thesis by blast
next
  case yield
  have "ksys (rt_schedule s)" using assms(2) by (intro ksys_rt_schedule) (simp_all add: ksys_def)
  with yield show ?thesis by (simp add: rt_thread_yield_def)
next
  case (woken t)
  with assms(2) show ?thesis by (simp add: rt_thread_sleep_return_def ksys_upd_error)
next
  case (sleep c time)
  with ksys_sleep[OF assms(2)] show ?thesis by simp
next
  case (suspend t)
  with ksys_suspend[OF assms(2)] show ?thesis by simp
next
  case (resume t)
  with ksys_resume[OF assms(2)] show ?thesis by simp
next
  case (startup t)
  with ksys_startup[OF assms(2)] show ?thesis by simp
next
  case (priority t p)
  with ksys_priority[OF assms(2)] show ?thesis by simp
next
  case (exit c)
  with ksys_exit[OF assms(2)] show ?thesis by simp
next
  case enter
  with ksys_critical[OF assms(2)] show ?thesis by simp
next
  case leave
  with ksys_critical[OF assms(2)] show ?thesis by simp
next
  case (sem_take c n time)
  with ksys_sem_take[OF assms(2)] show ?thesis by simp
next
  case (sem_release n)
  with ksys_sem_release[OF assms(2)] show ?thesis by simp
next
  case (sem_reset n v)
  from sem_reset(1) ksys_sem_reset[OF assms(2) sem_reset(2)] show ?thesis by simp
qed

lemma kreach_ksys: "kreach tf s s' \<Longrightarrow> ksys s \<Longrightarrow> ksys s'"
  by (induction rule: kreach.induct) (use kstep_ksys in blast)+

end
