(* ===== verification/Event.thy ===== *)
theory Event
  imports Ipc
begin

text \<open>
  The event sets of \<^verbatim>\<open>ipc.c\<close> (lines 914 to 1276). \<open>event_inv\<close>: no waiting thread has its condition
  satisfied by the current set, that is no wake-up is lost. \<open>send_spec\<close> is the wake-up loop on plain
  data; \<open>send_loop_refines\<close> shows that the loop of the code computes it.
\<close>

section \<open>Operations\<close>

abbreviation (input) RT_EVENT_FLAG_AND :: u8 where "RT_EVENT_FLAG_AND \<equiv> 1"
abbreviation (input) RT_EVENT_FLAG_OR :: u8 where "RT_EVENT_FLAG_OR \<equiv> 2"
abbreviation (input) RT_EVENT_FLAG_CLEAR :: u8 where "RT_EVENT_FLAG_CLEAR \<equiv> 4"

definition upd_event :: "nat \<Rightarrow> (rt_event \<Rightarrow> rt_event) \<Rightarrow> kernel \<Rightarrow> kernel" where
  "upd_event n f s = s\<lparr>events := (events s)(n := f (events s n))\<rparr>"

definition is_event :: "nat \<Rightarrow> kernel \<Rightarrow> bool" where
  "is_event n s \<longleftrightarrow> rt_object_get_type (e_type (events s n)) = RT_Object_Class_Event"

definition rt_event_init :: "nat \<Rightarrow> u8 \<Rightarrow> kernel \<Rightarrow> int \<times> kernel" where
  "rt_event_init n flag s =
     (RT_EOK, upd_event n (\<lambda>_. \<lparr>e_type = RT_Object_Class_Event OR RT_Object_Class_Static,
                               e_flag = flag, e_set = 0\<rparr>)
        (rt_ipc_object_init (EventL n) s))"

definition rt_event_detach :: "nat \<Rightarrow> kernel \<Rightarrow> int \<times> kernel" where
  "rt_event_detach n s =
     (if \<not> is_event n s then (-RT_ERROR, fail s)
      else if \<not> rt_object_is_systemobject (e_type (events s n)) then (-RT_ERROR, fail s)
      else (RT_EOK, upd_event n (\<lambda>x. x\<lparr>e_type := 0\<rparr>) (rt_ipc_list_resume_all (EventL n) s)))"

definition rt_event_create :: "nat option \<Rightarrow> u8 \<Rightarrow> kernel \<Rightarrow> nat option \<times> kernel" where
  "rt_event_create obj flag s =
     (if int_nest s \<noteq> 0 then (None, fail s)
      else case obj of
        None \<Rightarrow> (None, s)
      | Some n \<Rightarrow> (Some n, upd_event n (\<lambda>_. \<lparr>e_type = RT_Object_Class_Event, e_flag = flag, e_set = 0\<rparr>)
                            (rt_ipc_object_init (EventL n) s)))"

definition rt_event_delete :: "nat \<Rightarrow> kernel \<Rightarrow> int \<times> kernel" where
  "rt_event_delete n s =
     (if \<not> is_event n s then (-RT_ERROR, fail s)
      else if rt_object_is_systemobject (e_type (events s n)) then (-RT_ERROR, fail s)
      else if int_nest s \<noteq> 0 then (-RT_ERROR, fail s)
      else (RT_EOK, upd_event n (\<lambda>x. x\<lparr>e_type := 0\<rparr>) (rt_ipc_list_resume_all (EventL n) s)))"

text \<open>The condition of a waiting thread, as the send loop and the receiver test it.\<close>

definition event_cond :: "u32 \<Rightarrow> u32 \<Rightarrow> u8 \<Rightarrow> bool" where
  "event_cond hv want info =
     (if info AND RT_EVENT_FLAG_AND \<noteq> 0 then want AND hv = want
      else if info AND RT_EVENT_FLAG_OR \<noteq> 0 then want AND hv \<noteq> 0
      else False)"

text \<open>What a woken thread finds in \<^verbatim>\<open>event_set\<close>.\<close>

definition event_got :: "u32 \<Rightarrow> u32 \<Rightarrow> u8 \<Rightarrow> u32" where
  "event_got hv want info = (if info AND RT_EVENT_FLAG_AND \<noteq> 0 then want else want AND hv)"

fun event_send_loop :: "nat \<Rightarrow> tid list \<Rightarrow> bool \<Rightarrow> kernel \<Rightarrow> bool \<times> kernel" where
  "event_send_loop n [] need_schedule s = (need_schedule, s)"
| "event_send_loop n (t # ts) need_schedule s =
     (if event_cond (e_set (events s n)) (t_event_set (thr s t)) (t_event_info (thr s t)) then
        let got = event_got (e_set (events s n)) (t_event_set (thr s t)) (t_event_info (thr s t));
            s1 = upd_thr t (\<lambda>th. th\<lparr>t_event_set := got\<rparr>) s;
            s2 = (if t_event_info (thr s1 t) AND RT_EVENT_FLAG_CLEAR \<noteq> 0
                  then upd_event n (\<lambda>e. e\<lparr>e_set := e_set e AND NOT got\<rparr>) s1 else s1)
        in event_send_loop n ts True (snd (rt_thread_resume t s2))
      else event_send_loop n ts need_schedule s)"

definition rt_event_send :: "nat \<Rightarrow> u32 \<Rightarrow> kernel \<Rightarrow> int \<times> kernel" where
  "rt_event_send n bits s =
     (if \<not> is_event n s then (-RT_ERROR, fail s)
      else if bits = 0 then (-RT_ERROR, s)
      else
        let s1 = upd_event n (\<lambda>e. e\<lparr>e_set := e_set e OR bits\<rparr>) s;
            (need_schedule, s2) = event_send_loop n (lists s1 (EventL n)) False s1
        in (RT_EOK, if need_schedule then rt_schedule s2 else s2))"

text \<open>The second component is what is stored through \<^verbatim>\<open>recved\<close>.\<close>

definition rt_event_recv :: "nat \<Rightarrow> u32 \<Rightarrow> u8 \<Rightarrow> u32 \<Rightarrow> kernel \<Rightarrow> outcome \<times> u32 option \<times> kernel" where
  "rt_event_recv n want option timeout s =
     (if \<not> in_thread_context s then (Ret (-RT_ERROR), None, fail s)
      else if \<not> is_event n s then (Ret (-RT_ERROR), None, fail s)
      else if want = 0 then (Ret (-RT_ERROR), None, s)
      else case rt_thread_self s of
        None \<Rightarrow> (Ret (-RT_ERROR), None, fail s)
      | Some t \<Rightarrow>
          let s1 = upd_thr t (\<lambda>th. th\<lparr>t_error := RT_EOK\<rparr>) s
          in if option AND RT_EVENT_FLAG_AND = 0 \<and> option AND RT_EVENT_FLAG_OR = 0
             then (Ret (-RT_ERROR), None, fail s1)
             else if event_cond (e_set (events s1 n)) want option then
               (Ret (t_error (thr s1 t)), Some (e_set (events s1 n) AND want),
                if option AND RT_EVENT_FLAG_CLEAR \<noteq> 0
                then upd_event n (\<lambda>e. e\<lparr>e_set := e_set e AND NOT want\<rparr>) s1 else s1)
             else if timeout = 0 then
               (Ret (-RT_ETIMEOUT), None, upd_thr t (\<lambda>th. th\<lparr>t_error := -RT_ETIMEOUT\<rparr>) s1)
             else
               (Blocked, None, block_on (EventL n) t (e_flag (events s1 n)) timeout
                  (upd_thr t (\<lambda>th. th\<lparr>t_event_set := want, t_event_info := option\<rparr>) s1)))"

definition rt_event_recv_return :: "tid \<Rightarrow> kernel \<Rightarrow> int \<times> u32 option" where
  "rt_event_recv_return t s =
     (if t_error (thr s t) \<noteq> RT_EOK then (t_error (thr s t), None)
      else (t_error (thr s t), Some (t_event_set (thr s t))))"

definition rt_event_control :: "nat \<Rightarrow> nat \<Rightarrow> kernel \<Rightarrow> int \<times> kernel" where
  "rt_event_control n cmd s =
     (if \<not> is_event n s then (-RT_ERROR, fail s)
      else if cmd = 1 then
        (RT_EOK, rt_schedule (upd_event n (\<lambda>e. e\<lparr>e_set := 0\<rparr>)
                   (rt_ipc_list_resume_all (EventL n) s)))
      else (-RT_ERROR, s))"

section \<open>The wake-up loop on plain data\<close>

text \<open>The result: the threads woken with what each receives, those left waiting, the final set.\<close>

fun send_spec :: "(tid \<Rightarrow> u32) \<Rightarrow> (tid \<Rightarrow> u8) \<Rightarrow> u32 \<Rightarrow> tid list \<Rightarrow> (tid \<times> u32) list \<times> tid list \<times> u32" where
  "send_spec want info hv [] = ([], [], hv)"
| "send_spec want info hv (t # ts) =
     (if event_cond hv (want t) (info t) then
        let got = event_got hv (want t) (info t);
            hv' = (if info t AND RT_EVENT_FLAG_CLEAR \<noteq> 0 then hv AND NOT got else hv)
        in case send_spec want info hv' ts of (ws, rs, h) \<Rightarrow> ((t, got) # ws, rs, h)
      else case send_spec want info hv ts of (ws, rs, h) \<Rightarrow> (ws, t # rs, h))"

text \<open>The loop only removes bits, and a condition that fails keeps failing when bits are removed.\<close>

lemma send_spec_shrinks: "send_spec want info hv ts = (ws, rs, h) \<Longrightarrow> h AND hv = h"
proof (induction ts arbitrary: hv ws rs h)
  case (Cons t ts)
  show ?case
  proof (cases "event_cond hv (want t) (info t)")
    case False
    with Cons show ?thesis by (auto split: prod.splits)
  next
    case True
    let ?h = "if info t AND RT_EVENT_FLAG_CLEAR \<noteq> 0
      then hv AND NOT (event_got hv (want t) (info t)) else hv"
    obtain ws' where "send_spec want info ?h ts = (ws', rs, h)"
      using Cons.prems True by (auto simp: Let_def split: prod.splits if_splits)
    then have "h AND ?h = h" by (rule Cons.IH)
    then show ?thesis by (auto simp: bit_eq_iff bit_and_iff bit_not_iff split: if_splits)
  qed
qed simp

lemma event_cond_antimono:
  "h AND hv = h \<Longrightarrow> \<not> event_cond hv want info \<Longrightarrow> \<not> event_cond h want info"
  by (auto simp: event_cond_def bit_eq_iff bit_and_iff split: if_splits)

lemma send_spec_rest:
  assumes "send_spec want info hv ts = (ws, rs, h)" "t \<in> set rs"
  shows "\<not> event_cond h (want t) (info t)"
  using assms
proof (induction ts arbitrary: hv ws rs h)
  case (Cons u ts)
  show ?case
  proof (cases "event_cond hv (want u) (info u)")
    case True
    let ?h = "if info u AND RT_EVENT_FLAG_CLEAR \<noteq> 0
      then hv AND NOT (event_got hv (want u) (info u)) else hv"
    obtain ws' where "send_spec want info ?h ts = (ws', rs, h)"
      using Cons.prems(1) True by (auto simp: Let_def split: prod.splits if_splits)
    then show ?thesis using Cons.prems(2) by (rule Cons.IH)
  next
    case False
    obtain rs' where r: "send_spec want info hv ts = (ws, rs', h)" "rs = u # rs'"
      using Cons.prems(1) False by (auto split: prod.splits)
    show ?thesis
    proof (cases "t = u")
      case True
      then show ?thesis using event_cond_antimono[OF send_spec_shrinks[OF r(1)] False] by simp
    next
      case False
      with Cons.prems(2) r show ?thesis by (intro Cons.IH[OF r(1)]) simp
    qed
  qed
qed simp

section \<open>Correctness of the operations\<close>

lemma upd_event_sel [kframe]:
  "lists (upd_event n f s) = lists s" "ready_group (upd_event n f s) = ready_group s"
  "timers (upd_event n f s) = timers s" "timer_list (upd_event n f s) = timer_list s"
  "cur (upd_event n f s) = cur s" "thr (upd_event n f s) = thr s" "statm (upd_event n f s) = statm s"
  "prio (upd_event n f s) = prio s" "thread_ok (upd_event n f s) = thread_ok s"
  "lock_nest (upd_event n f s) = lock_nest s" "stuck (upd_event n f s) = stuck s"
  "tick (upd_event n f s) = tick s" "events (upd_event n f s) = (events s)(n := f (events s n))"
  "awake (upd_event n f s) = awake s"
  by (simp_all add: upd_event_def statm_def prio_def thread_ok_def awake_def fun_eq_iff)

lemma kinv_upd_event [simp]: "kinv (upd_event n f s) = kinv s"
  by (rule kinv_frame) (simp_all add: kframe)

text \<open>One waiting thread whose condition holds.\<close>

definition event_wake :: "nat \<Rightarrow> tid \<Rightarrow> kernel \<Rightarrow> kernel" where
  "event_wake n t s =
     (let got = event_got (e_set (events s n)) (t_event_set (thr s t)) (t_event_info (thr s t));
          s1 = upd_thr t (\<lambda>th. th\<lparr>t_event_set := got\<rparr>) s;
          s2 = (if t_event_info (thr s1 t) AND RT_EVENT_FLAG_CLEAR \<noteq> 0
                then upd_event n (\<lambda>e. e\<lparr>e_set := e_set e AND NOT got\<rparr>) s1 else s1)
      in snd (rt_thread_resume t s2))"

lemma event_wake_effect:
  fixes n :: nat
  assumes "kinv s" "statm s t = RT_THREAD_SUSPEND"
  defines "got \<equiv> event_got (e_set (events s n)) (t_event_set (thr s t)) (t_event_info (thr s t))"
  defines "s' \<equiv> event_wake n t s"
  shows "kinv s'" "cur s' = cur s" "awake s' t"
    "wait_list l' \<Longrightarrow> lists s' l' = removeAll t (lists s l')"
    "u \<noteq> t \<Longrightarrow> statm s' u = statm s u" "t_error (thr s' u) = t_error (thr s u)"
    "t_event_set (thr s' u) = (if u = t then got else t_event_set (thr s u))"
    "t_event_info (thr s' u) = t_event_info (thr s u)"
    "events s' = (events s)(n := (events s n)\<lparr>e_set :=
       (if t_event_info (thr s t) AND RT_EVENT_FLAG_CLEAR \<noteq> 0
        then e_set (events s n) AND NOT got else e_set (events s n))\<rparr>)"
    "stuck s' = stuck s"
proof -
  let ?s1 = "upd_thr t (\<lambda>th. th\<lparr>t_event_set := got\<rparr>) s"
  let ?s2 = "if t_event_info (thr s t) AND RT_EVENT_FLAG_CLEAR \<noteq> 0
             then upd_event n (\<lambda>e. e\<lparr>e_set := e_set e AND NOT got\<rparr>) ?s1 else ?s1"
  have i: "t_event_info (thr ?s1 t) = t_event_info (thr s t)" by (simp add: upd_thr_def)
  have e: "s' = snd (rt_thread_resume t ?s2)"
    unfolding s'_def event_wake_def Let_def got_def[symmetric] by (simp only: i)
  have k2: "kinv ?s2" using assms(1) by (simp add: kinv_upd_thr)
  have st2: "statm ?s2 v = statm s v" for v by (simp add: kframe)
  have st: "statm ?s2 t = RT_THREAD_SUSPEND" using assms(2) by (simp add: st2)
  note r = resume_effect[OF k2 st, folded e]
  show "kinv s'" "awake s' t" by (rule r(1), rule r(3))
  show "cur s' = cur s" "stuck s' = stuck s" using r(2,15) by (simp_all add: kframe)
  show "lists s' l' = removeAll t (lists s l')" if "wait_list l'" using r(4)[OF that] by (simp add: kframe)
  show "statm s' u = statm s u" if "u \<noteq> t" using r(5)[OF that] by (simp add: st2)
  show "t_error (thr s' u) = t_error (thr s u)"
    using r(6)[of u] by (simp add: kframe) (simp add: upd_thr_def)
  show "t_event_set (thr s' u) = (if u = t then got else t_event_set (thr s u))"
    using r(7)[of u] by (simp add: kframe) (simp add: upd_thr_def)
  show "t_event_info (thr s' u) = t_event_info (thr s u)"
    using r(8)[of u] by (simp add: kframe) (simp add: upd_thr_def)
  show "events s' = (events s)(n := (events s n)\<lparr>e_set :=
       (if t_event_info (thr s t) AND RT_EVENT_FLAG_CLEAR \<noteq> 0
        then e_set (events s n) AND NOT got else e_set (events s n))\<rparr>)"
    using r(12) by (simp add: kframe)
qed

lemma event_loop_step:
  "event_send_loop n (t # ts) ns s =
     (if event_cond (e_set (events s n)) (t_event_set (thr s t)) (t_event_info (thr s t))
      then event_send_loop n ts True (event_wake n t s) else event_send_loop n ts ns s)"
  by (simp add: event_wake_def Let_def)

lemma send_spec_cong:
  "(\<And>t. t \<in> set ts \<Longrightarrow> want t = want' t \<and> info t = info' t) \<Longrightarrow>
   send_spec want info hv ts = send_spec want' info' hv ts"
  by (induction ts arbitrary: hv) (simp_all add: Let_def)

lemma send_spec_sets:
  "send_spec want info hv ts = (ws, rs, h) \<Longrightarrow>
   fst ` set ws \<union> set rs = set ts"
proof (induction ts arbitrary: hv ws rs h)
  case (Cons t ts)
  show ?case
  proof (cases "event_cond hv (want t) (info t)")
    case True
    let ?h = "if info t AND RT_EVENT_FLAG_CLEAR \<noteq> 0
      then hv AND NOT (event_got hv (want t) (info t)) else hv"
    obtain ws' where "send_spec want info ?h ts = (ws', rs, h)"
      "ws = (t, event_got hv (want t) (info t)) # ws'"
      using Cons.prems True by (auto simp: Let_def split: prod.splits if_splits)
    with Cons.IH[OF this(1)] show ?thesis by auto
  next
    case False
    obtain rs' where "send_spec want info hv ts = (ws, rs', h)" "rs = t # rs'"
      using Cons.prems False by (auto split: prod.splits)
    with Cons.IH[OF this(1)] show ?thesis by auto
  qed
qed simp

definition loop_result :: "nat \<Rightarrow> (tid \<times> u32) list \<Rightarrow> tid list \<Rightarrow> u32 \<Rightarrow> kernel \<Rightarrow> kernel \<Rightarrow> bool" where
  "loop_result n ws q h s s' \<longleftrightarrow> kinv s' \<and> cur s' = cur s \<and> stuck s' = stuck s \<and>
     lists s' (EventL n) = q \<and> (\<forall>l. wait_list l \<longrightarrow> l \<noteq> EventL n \<longrightarrow> lists s' l = lists s l) \<and>
     events s' = (events s)(n := (events s n)\<lparr>e_set := h\<rparr>) \<and>
     (\<forall>(t, g) \<in> set ws. awake s' t \<and> t_event_set (thr s' t) = g) \<and>
     (\<forall>t. t \<notin> fst ` set ws \<longrightarrow> statm s' t = statm s t \<and> t_event_set (thr s' t) = t_event_set (thr s t)) \<and>
     (\<forall>t. t_error (thr s' t) = t_error (thr s t) \<and> t_event_info (thr s' t) = t_event_info (thr s t))"

lemma loop_result_refl:
  "kinv s \<Longrightarrow> loop_result n [] (lists s (EventL n)) (e_set (events s n)) s s"
  by (simp add: loop_result_def)

text \<open>The loop of \<^verbatim>\<open>rt_event_send\<close> computes \<open>send_spec\<close>.\<close>

lemma send_loop_refines:
  assumes "kinv s" "lists s (EventL n) = pre @ ts"
    and "send_spec (\<lambda>t. t_event_set (thr s t)) (\<lambda>t. t_event_info (thr s t)) (e_set (events s n)) ts
      = (ws, rs, h)"
  shows "\<exists>s'. event_send_loop n ts ns s = (ns \<or> ws \<noteq> [], s') \<and> loop_result n ws (pre @ rs) h s s'"
  using assms
proof (induction ts arbitrary: s pre ws rs ns)
  case Nil
  then show ?case using loop_result_refl[of s n] by auto
next
  case (Cons t ts)
  let ?w = "\<lambda>t. t_event_set (thr s t)" and ?i = "\<lambda>t. t_event_info (thr s t)"
  let ?h0 = "e_set (events s n)"
  have tl: "t \<in> set (lists s (EventL n))" using Cons.prems(2) by simp
  note m = wait_list_member[OF Cons.prems(1) _ tl, simplified]
  have d: "t \<notin> set ts" "t \<notin> set pre" using m(2) Cons.prems(2) by auto
  show ?case
  proof (cases "event_cond ?h0 (?w t) (?i t)")
    case False
    obtain rs' where r: "send_spec ?w ?i ?h0 ts = (ws, rs', h)" "rs = t # rs'"
      using Cons.prems(3) False by (auto split: prod.splits)
    have l: "lists s (EventL n) = (pre @ [t]) @ ts" using Cons.prems(2) by simp
    obtain s' where "event_send_loop n ts ns s = (ns \<or> ws \<noteq> [], s')"
      "loop_result n ws ((pre @ [t]) @ rs') h s s'"
      using Cons.IH[OF Cons.prems(1) l r(1), of ns] by auto
    then show ?thesis
      unfolding event_loop_step using False r(2) by simp
  next
    case True
    let ?got = "event_got ?h0 (?w t) (?i t)"
    let ?h1 = "if ?i t AND RT_EVENT_FLAG_CLEAR \<noteq> 0 then ?h0 AND NOT ?got else ?h0"
    define s1 where "s1 = event_wake n t s"
    note e = event_wake_effect[OF Cons.prems(1) m(1), where n = n, folded s1_def]
    obtain ws' where r: "send_spec ?w ?i ?h1 ts = (ws', rs, h)" "ws = (t, ?got) # ws'"
      using Cons.prems(3) True by (auto simp: Let_def split: prod.splits if_splits)
    have l1: "lists s1 (EventL n) = pre @ ts"
      using e(4)[of "EventL n"] Cons.prems(2) d by (simp add: removeAll_id_if_notin)
    have h1: "e_set (events s1 n) = ?h1" using e(9) by simp
    have "send_spec (\<lambda>t. t_event_set (thr s1 t)) (\<lambda>t. t_event_info (thr s1 t)) (e_set (events s1 n)) ts
        = send_spec ?w ?i ?h1 ts"
      unfolding h1 by (rule send_spec_cong) (use d(1) e(7,8) in auto)
    with r(1) have sp: "send_spec (\<lambda>t. t_event_set (thr s1 t)) (\<lambda>t. t_event_info (thr s1 t))
        (e_set (events s1 n)) ts = (ws', rs, h)" by simp
    obtain s' where s': "event_send_loop n ts True s1 = (True, s')"
      "loop_result n ws' (pre @ rs) h s1 s'"
      using Cons.IH[OF e(1) l1 sp, of True] by auto
    note z = s'(2)[unfolded loop_result_def]
    have tw: "t \<notin> fst ` set ws'" using send_spec_sets[OF sp] d(1) by blast
    have "loop_result n ws (pre @ rs) h s s'"
      unfolding loop_result_def
    proof (intro conjI allI impI ballI)
      show "kinv s'" "cur s' = cur s" "stuck s' = stuck s" "lists s' (EventL n) = pre @ rs"
        using z e(2,10) by simp_all
      show "lists s' l = lists s l" if "wait_list l" "l \<noteq> EventL n" for l
        using z that e(4)[OF that(1)] m(3)[OF that(2)] by (simp add: removeAll_id_if_notin)
      show "events s' = (events s)(n := (events s n)\<lparr>e_set := h\<rparr>)" using z e(9) by simp
      show "t_error (thr s' u) = t_error (thr s u)" "t_event_info (thr s' u) = t_event_info (thr s u)"
        for u using z e(6,8) by simp_all
      show "statm s' u = statm s u" "t_event_set (thr s' u) = t_event_set (thr s u)"
        if "u \<notin> fst ` set ws" for u
        using z that e(5)[of u] e(7)[of u] unfolding r(2) by auto
      have "awake s' t \<and> t_event_set (thr s' t) = ?got"
        using z tw e(3) e(7)[of t] by (simp add: awake_def)
      moreover have "\<forall>(u, g) \<in> set ws'. awake s' u \<and> t_event_set (thr s' u) = g" using z by simp
      ultimately show "case x of (u, g) \<Rightarrow> awake s' u \<and> t_event_set (thr s' u) = g"
        if "x \<in> set ws" for x using that unfolding r(2) by auto
    qed
    then show ?thesis unfolding event_loop_step using True s'(1) r(2) by (simp add: s1_def)
  qed
qed

definition event_inv :: "nat \<Rightarrow> kernel \<Rightarrow> bool" where
  "event_inv n s \<longleftrightarrow> is_event n s \<and>
     (\<forall>t \<in> set (lists s (EventL n)).
        \<not> event_cond (e_set (events s n)) (t_event_set (thr s t)) (t_event_info (thr s t)))"

text \<open>
  Sending: the threads that \<open>send_spec\<close> names wake with the bits they are to receive, the others keep
  waiting in their order, and no thread whose condition holds is left waiting.
\<close>

lemma event_send_effect:
  assumes "kinv s" "cur s = Some c" "is_event n s" "bits \<noteq> 0"
    and sp: "send_spec (\<lambda>t. t_event_set (thr s t)) (\<lambda>t. t_event_info (thr s t))
      (e_set (events s n) OR bits) (lists s (EventL n)) = (ws, rs, h)"
  shows "\<exists>s'. rt_event_send n bits s = (RT_EOK, s') \<and> kinv s' \<and> cur s' \<noteq> None \<and> stuck s' = stuck s \<and>
    event_inv n s' \<and> e_set (events s' n) = h \<and> lists s' (EventL n) = rs \<and>
    (\<forall>(t, g) \<in> set ws. awake s' t \<and> t_event_set (thr s' t) = g) \<and>
    (\<forall>t \<in> set rs. statm s' t = RT_THREAD_SUSPEND) \<and>
    (\<forall>t. t_error (thr s' t) = t_error (thr s t))"
proof -
  let ?s1 = "upd_event n (\<lambda>e. e\<lparr>e_set := e_set e OR bits\<rparr>) s"
  have k1: "kinv ?s1" using assms(1) by simp
  have l1: "lists ?s1 (EventL n) = [] @ lists s (EventL n)" by (simp add: kframe)
  have sp1: "send_spec (\<lambda>t. t_event_set (thr ?s1 t)) (\<lambda>t. t_event_info (thr ?s1 t))
      (e_set (events ?s1 n)) (lists s (EventL n)) = (ws, rs, h)"
    using sp by (simp add: kframe)
  obtain s2 where s2: "event_send_loop n (lists s (EventL n)) False ?s1 = (ws \<noteq> [], s2)"
    "loop_result n ws rs h ?s1 s2"
    using send_loop_refines[OF k1 l1 sp1, of False] by auto
  note z = s2(2)[unfolded loop_result_def]
  define s' where "s' = (if ws \<noteq> [] then rt_schedule s2 else s2)"
  have e: "rt_event_send n bits s = (RT_EOK, s')"
    using assms(3,4) s2(1) by (simp add: rt_event_send_def s'_def Let_def kframe)
  have k2: "kinv s2" and c2: "cur s2 = Some c" using z assms(2) by (simp_all add: kframe)
  note sel = rt_schedule_sel[OF k2 c2] and oth = rt_schedule_others[OF k2 c2]
  have k': "kinv s'" using k2 rt_schedule_kinv[OF k2 c2] by (simp add: s'_def)
  have l': "lists s' (EventL n) = rs" using z oth(3)[of "EventL n"] by (simp add: s'_def)
  have ev: "events s' = events s2" "t_event_set (thr s' t) = t_event_set (thr s2 t)"
    "t_event_info (thr s' t) = t_event_info (thr s2 t)" "t_error (thr s' t) = t_error (thr s2 t)" for t
    by (simp_all add: s'_def kframe)
  have h: "e_set (events s' n) = h" using z by (simp add: ev(1))
  have aw: "awake s' t" if "awake s2 t" for t
    using that oth(2)[of t] by (simp add: s'_def awake_def)
  have "event_inv n s'"
  proof -
    have "is_event n s'" using assms(3) z by (simp add: is_event_def ev(1) kframe)
    moreover have "\<not> event_cond h (t_event_set (thr s' t)) (t_event_info (thr s' t))" if "t \<in> set rs" for t
    proof -
      have tl: "t \<in> set (lists s2 (EventL n))" using z that by simp
      have "t \<notin> fst ` set ws"
      proof
        assume "t \<in> fst ` set ws"
        then have "awake s2 t" using z by force
        with wait_list_member(1)[OF k2 _ tl] show False by (simp add: awake_def)
      qed
      then have "t_event_set (thr s' t) = t_event_set (thr s t)"
        "t_event_info (thr s' t) = t_event_info (thr s t)"
        using z by (simp_all add: ev(2,3) kframe)
      with send_spec_rest[OF sp that] show ?thesis by simp
    qed
    ultimately show ?thesis by (simp add: event_inv_def l' h)
  qed
  moreover have "statm s' t = RT_THREAD_SUSPEND" if "t \<in> set rs" for t
    by (rule wait_list_member(1)[OF k', of "EventL n"]) (use that l' in simp_all)
  moreover have "\<forall>(t, g) \<in> set ws. awake s' t \<and> t_event_set (thr s' t) = g"
    using z aw ev(2) by auto
  moreover have "cur s' \<noteq> None" "stuck s' = stuck s" using c2 sel z by (simp_all add: s'_def kframe)
  moreover have "t_error (thr s' t) = t_error (thr s t)" for t using z by (simp add: ev(4) kframe)
  ultimately show ?thesis using e k' h l' by blast
qed

text \<open>Receiving: at once when the condition holds, otherwise the caller waits and the invariant holds for it.\<close>

lemma event_recv_now:
  assumes "kinv s" "cur s = Some c" "int_nest s = 0" "is_event n s" "want \<noteq> 0"
    and "event_cond (e_set (events s n)) want option"
  shows "\<exists>s'. rt_event_recv n want option timeout s =
      (Ret RT_EOK, Some (e_set (events s n) AND want), s') \<and> kinv s' \<and>
    e_set (events s' n) = (if option AND RT_EVENT_FLAG_CLEAR \<noteq> 0
      then e_set (events s n) AND NOT want else e_set (events s n)) \<and> lists s' = lists s"
proof -
  let ?e = "upd_thr c (\<lambda>th. th\<lparr>t_error := RT_EOK\<rparr>) s"
  have o: "\<not> (option AND RT_EVENT_FLAG_AND = 0 \<and> option AND RT_EVENT_FLAG_OR = 0)"
    using assms(6) by (auto simp: event_cond_def)
  have er: "t_error (thr ?e c) = RT_EOK" by (simp add: upd_thr_def)
  have ev: "events ?e = events s" by (simp add: kframe)
  show ?thesis
    unfolding rt_event_recv_def Let_def
    using assms o er
    by (simp add: in_thread_context_def rt_thread_self_def ev kinv_upd_thr kframe)
qed

lemma event_recv_blocks:
  fixes timeout :: u32
  assumes "kinv s" "cur s = Some c" "statm s c = RT_THREAD_RUNNING" "int_nest s = 0" "event_inv n s"
    and "want \<noteq> 0" "timeout \<noteq> 0"
    and "option AND RT_EVENT_FLAG_AND \<noteq> 0 \<or> option AND RT_EVENT_FLAG_OR \<noteq> 0"
    and "\<not> event_cond (e_set (events s n)) want option"
  shows "\<exists>s'. rt_event_recv n want option timeout s = (Blocked, None, s') \<and> kinv s' \<and>
    event_inv n s' \<and> statm s' c = RT_THREAD_SUSPEND \<and> events s' = events s \<and>
    lists s' (EventL n) = wait_insert (e_flag (events s n)) (\<lambda>u. t_current_priority (thr s u)) c
      (lists s (EventL n)) \<and>
    t_event_set (thr s' c) = want \<and> t_event_info (thr s' c) = option"
proof -
  let ?e = "upd_thr c (\<lambda>th. th\<lparr>t_error := RT_EOK\<rparr>) s"
  let ?f = "upd_thr c (\<lambda>th. th\<lparr>t_event_set := want, t_event_info := option\<rparr>) ?e"
  have n: "neutral (\<lambda>th. th\<lparr>t_event_set := want, t_event_info := option\<rparr>)" by (simp add: neutral_def)
  have kf: "kinv ?f" and cf: "cur ?f = Some c" and rf: "statm ?f c = RT_THREAD_RUNNING"
    using assms(1-3) by (simp_all add: kinv_upd_thr n kframe)
  note b = block_on_effect[OF kf cf rf, of "EventL n", simplified]
  have pr: "t_current_priority (thr ?f u) = t_current_priority (thr s u)" for u
    by (simp add: upd_thr_def)
  let ?s' = "block_on (EventL n) c (e_flag (events s n)) timeout ?f"
  have m: "is_event n s" using assms(5) by (simp add: event_inv_def)
  have ev: "events ?e = events s" by (simp add: kframe)
  have "rt_event_recv n want option timeout s = (Blocked, None, ?s')"
    unfolding rt_event_recv_def Let_def
    using assms(2,4,6-9) m by (auto simp: in_thread_context_def rt_thread_self_def ev)
  moreover have evs: "events ?s' = events s" using b(13) by (simp add: kframe)
  moreover have ls: "lists ?s' (EventL n) = wait_insert (e_flag (events s n))
      (\<lambda>u. t_current_priority (thr s u)) c (lists s (EventL n))"
    using b(4)[of "EventL n"] by (simp add: kframe pr)
  moreover have fs: "t_event_set (thr ?s' u) = (if u = c then want else t_event_set (thr s u))"
    "t_event_info (thr ?s' u) = (if u = c then option else t_event_info (thr s u))" for u
    using b(8)[of _ _ u] b(9)[of _ _ u] by (simp_all add: upd_thr_def)
  moreover have "event_inv n ?s'"
    unfolding event_inv_def
  proof (intro conjI ballI)
    show "is_event n ?s'" using m by (simp add: is_event_def evs)
    fix t assume "t \<in> set (lists ?s' (EventL n))"
    then have "t = c \<or> t \<in> set (lists s (EventL n))"
      unfolding ls using set_wait_insert by fastforce
    then show "\<not> event_cond (e_set (events ?s' n)) (t_event_set (thr ?s' t)) (t_event_info (thr ?s' t))"
      unfolding evs fs using assms(5,9) by (auto simp: event_inv_def)
  qed
  ultimately show ?thesis using b(1,3) by simp
qed

end
