(* ===== verification/Mailbox.thy ===== *)
theory Mailbox
  imports Ipc
begin

text \<open>
  The mailboxes of \<^verbatim>\<open>ipc.c\<close> (lines 1293 to 1757): a ring of words with a queue of waiting receivers and a
  queue of waiting senders. The ring is an instance of the bounded FIFO buffer of theory Prelude. The
  loops of \<^verbatim>\<open>rt_mb_send_wait\<close> and \<^verbatim>\<open>rt_mb_recv\<close> are cut at \<^verbatim>\<open>rt_schedule\<close>: \<open>_again\<close> is the loop from its
  test on, \<open>_return\<close> what follows the wake-up.
\<close>

section \<open>The ring\<close>

definition mb_put :: "u32 \<Rightarrow> rt_mailbox \<Rightarrow> rt_mailbox" where
  "mb_put value mb =
     (let mb1 = mb\<lparr>mb_pool := (mb_pool mb)[unat (mb_in_offset mb) := value]\<rparr>;
          mb2 = mb1\<lparr>mb_in_offset := mb_in_offset mb1 + 1\<rparr>;
          mb3 = (if mb_size mb2 \<le> mb_in_offset mb2 then mb2\<lparr>mb_in_offset := 0\<rparr> else mb2)
      in mb3\<lparr>mb_entry := mb_entry mb3 + 1\<rparr>)"

definition mb_get :: "rt_mailbox \<Rightarrow> u32 \<times> rt_mailbox" where
  "mb_get mb =
     (let value = mb_pool mb ! unat (mb_out_offset mb);
          mb1 = mb\<lparr>mb_out_offset := mb_out_offset mb + 1\<rparr>;
          mb2 = (if mb_size mb1 \<le> mb_out_offset mb1 then mb1\<lparr>mb_out_offset := 0\<rparr> else mb1)
      in (value, mb2\<lparr>mb_entry := mb_entry mb2 - 1\<rparr>))"

definition mb_inv :: "rt_mailbox \<Rightarrow> bool" where
  "mb_inv mb \<longleftrightarrow>
     length (mb_pool mb) = unat (mb_size mb) \<and> 0 < unat (mb_size mb) \<and>
     unat (mb_out_offset mb) < unat (mb_size mb) \<and> unat (mb_entry mb) \<le> unat (mb_size mb) \<and>
     unat (mb_in_offset mb) = (unat (mb_out_offset mb) + unat (mb_entry mb)) mod unat (mb_size mb)"

text \<open>The stored words from the oldest to the newest.\<close>

definition mb_list :: "rt_mailbox \<Rightarrow> u32 list" where
  "mb_list mb = map (\<lambda>k. mb_pool mb ! ((unat (mb_out_offset mb) + k) mod unat (mb_size mb)))
     [0..<unat (mb_entry mb)]"

lemma length_mb_list [simp]: "length (mb_list mb) = unat (mb_entry mb)"
  by (simp add: mb_list_def)

text \<open>The step of an offset around the ring.\<close>

lemma ring_step:
  fixes off size :: u16
  assumes "unat off < unat size"
  shows "unat (if size \<le> off + 1 then 0 else off + 1) = (unat off + 1) mod unat size"
proof -
  have "unat off + 1 \<le> unat size" using assms by simp
  also have "unat size < 2 ^ 16" by (rule order_less_le_trans[OF unsigned_less]) simp
  finally have s: "unat (off + 1) = unat off + 1" by (simp add: unat_Suc_word)
  show ?thesis
  proof (cases "unat off + 1 = unat size")
    case True
    then show ?thesis using s by (simp add: word_le_nat_alt)
  next
    case False
    with assms s have "\<not> size \<le> off + 1" "unat off + 1 < unat size" by (simp_all add: word_le_nat_alt)
    then show ?thesis using s by simp
  qed
qed

lemma mb_put_sel:
  assumes "unat (mb_in_offset mb) < unat (mb_size mb)"
  shows "mb_pool (mb_put v mb) = (mb_pool mb)[unat (mb_in_offset mb) := v]"
    "mb_size (mb_put v mb) = mb_size mb" "mb_out_offset (mb_put v mb) = mb_out_offset mb"
    "mb_entry (mb_put v mb) = mb_entry mb + 1"
    "unat (mb_in_offset (mb_put v mb)) = (unat (mb_in_offset mb) + 1) mod unat (mb_size mb)"
    "mb_type (mb_put v mb) = mb_type mb" "mb_flag (mb_put v mb) = mb_flag mb"
  using ring_step[OF assms] by (simp_all add: mb_put_def Let_def split: if_splits)

lemma mb_get_sel:
  assumes "unat (mb_out_offset mb) < unat (mb_size mb)"
  shows "fst (mb_get mb) = mb_pool mb ! unat (mb_out_offset mb)"
    "mb_pool (snd (mb_get mb)) = mb_pool mb" "mb_size (snd (mb_get mb)) = mb_size mb"
    "mb_in_offset (snd (mb_get mb)) = mb_in_offset mb"
    "mb_entry (snd (mb_get mb)) = mb_entry mb - 1"
    "unat (mb_out_offset (snd (mb_get mb))) = (unat (mb_out_offset mb) + 1) mod unat (mb_size mb)"
    "mb_type (snd (mb_get mb)) = mb_type mb" "mb_flag (snd (mb_get mb)) = mb_flag mb"
  using ring_step[OF assms] by (simp_all add: mb_get_def Let_def split: if_splits)

lemma ring_inj:
  assumes "(a + i) mod m = (a + j) mod m" "i < m" "j < (m :: nat)"
  shows "i = j"
proof -
  have "i mod m = j mod m" using assms(1) by (simp add: nat_mod_eq_iff)
  with assms(2,3) show ?thesis by simp
qed

text \<open>The ring is a bounded FIFO buffer.\<close>

lemma mb_put_fifo:
  assumes "mb_inv mb" "unat (mb_entry mb) < unat (mb_size mb)"
  shows "mb_inv (mb_put v mb)" "mb_list (mb_put v mb) = mb_list mb @ [v]"
proof -
  note i = assms(1)[unfolded mb_inv_def]
  let ?n = "unat (mb_size mb)" and ?o = "unat (mb_out_offset mb)" and ?e = "unat (mb_entry mb)"
  have inl: "unat (mb_in_offset mb) < ?n" using i by simp
  note p = mb_put_sel[OF inl, of v]
  have "?n < 2 ^ 16" by (rule order_less_le_trans[OF unsigned_less]) simp
  then have e: "unat (mb_entry mb + 1) = ?e + 1" using assms(2) by (simp add: unat_Suc_word)
  have inm: "((?o + ?e) mod ?n + 1) mod ?n = (?o + (?e + 1)) mod ?n" by (simp add: mod_Suc_eq)
  show "mb_inv (mb_put v mb)" using i p e inm assms(2) by (simp add: mb_inv_def)
  have "mb_pool (mb_put v mb) ! ((?o + k) mod ?n) = (if k = ?e then v else mb_pool mb ! ((?o + k) mod ?n))"
    if "k < ?e + 1" for k
  proof (cases "k = ?e")
    case True
    then show ?thesis using i inl by (simp add: p)
  next
    case False
    then have "(?o + k) mod ?n \<noteq> (?o + ?e) mod ?n"
      using ring_inj[of ?o k ?n ?e] that assms(2) by auto
    then show ?thesis using False i by (simp add: p)
  qed
  then show "mb_list (mb_put v mb) = mb_list mb @ [v]"
    using p e by (simp add: mb_list_def)
qed

lemma mb_get_fifo:
  assumes "mb_inv mb" "mb_entry mb \<noteq> 0"
  shows "mb_inv (snd (mb_get mb))" "mb_list mb = fst (mb_get mb) # mb_list (snd (mb_get mb))"
proof -
  note i = assms(1)[unfolded mb_inv_def]
  let ?n = "unat (mb_size mb)" and ?o = "unat (mb_out_offset mb)" and ?e = "unat (mb_entry mb)"
  have ol: "?o < ?n" using i by simp
  note g = mb_get_sel[OF ol]
  have e0: "0 < ?e" using assms(2) by (simp add: unat_gt_0)
  have e: "unat (mb_entry mb - 1) = ?e - 1" by (rule unat_dec_word[OF assms(2)])
  have inm: "(?o + ?e) mod ?n = ((?o + 1) mod ?n + (?e - 1)) mod ?n"
  proof -
    have "((?o + 1) mod ?n + (?e - 1)) mod ?n = (?o + 1 + (?e - 1)) mod ?n" by (rule mod_add_left_eq)
    then show ?thesis using e0 by simp
  qed
  have bounds: "(?o + 1) mod ?n < ?n" "?e - 1 \<le> ?n" using i by auto
  show "mb_inv (snd (mb_get mb))" using i g e e0 inm bounds by (simp add: mb_inv_def)
  have "[0..<?e] = 0 # map Suc [0..<?e - 1]"
    using e0 by (cases ?e) (simp_all add: upt_conv_Cons map_Suc_upt del: upt_Suc)
  then have "mb_list mb = mb_pool mb ! (?o mod ?n) #
      map (\<lambda>k. mb_pool mb ! ((?o + Suc k) mod ?n)) [0..<?e - 1]"
    by (simp add: mb_list_def)
  moreover have "(?o + Suc k) mod ?n = ((?o + 1) mod ?n + k) mod ?n" for k
    using mod_add_left_eq[of "?o + 1" ?n k] by simp
  ultimately show "mb_list mb = fst (mb_get mb) # mb_list (snd (mb_get mb))"
    using ol by (simp add: mb_list_def g e)
qed

definition mb_put_opt :: "u32 \<Rightarrow> rt_mailbox \<Rightarrow> rt_mailbox option" where
  "mb_put_opt v mb = (if mb_entry mb = mb_size mb then None else Some (mb_put v mb))"

definition mb_get_opt :: "rt_mailbox \<Rightarrow> (u32 \<times> rt_mailbox) option" where
  "mb_get_opt mb = (if mb_entry mb = 0 then None else Some (mb_get mb))"

interpretation mb: fifo mb_inv mb_list "\<lambda>mb. unat (mb_size mb)" mb_put_opt mb_get_opt
proof
  fix s :: rt_mailbox and x and xs
  assume i: "mb_inv s"
  note d = i[unfolded mb_inv_def]
  show "length (mb_list s) \<le> unat (mb_size s)" using d by simp
  show "\<exists>s'. mb_put_opt x s = Some s' \<and> mb_inv s' \<and> mb_list s' = mb_list s @ [x] \<and>
      unat (mb_size s') = unat (mb_size s)" if "length (mb_list s) < unat (mb_size s)"
  proof -
    have l: "unat (mb_entry s) < unat (mb_size s)" using that by simp
    then have "mb_entry s \<noteq> mb_size s" by auto
    with mb_put_fifo[OF i l, of x] mb_put_sel(2)[of s x] d show ?thesis by (simp add: mb_put_opt_def)
  qed
  show "mb_put_opt x s = None" if "length (mb_list s) = unat (mb_size s)"
    using that by (simp add: mb_put_opt_def word_unat_eq_iff)
  show "\<exists>s'. mb_get_opt s = Some (x, s') \<and> mb_inv s' \<and> mb_list s' = xs \<and>
      unat (mb_size s') = unat (mb_size s)" if "mb_list s = x # xs"
  proof -
    have "mb_entry s \<noteq> 0" using that length_mb_list[of s] by auto
    with mb_get_fifo[OF i this] mb_get_sel(3)[of s] that d show ?thesis
      by (cases "mb_get s") (simp add: mb_get_opt_def)
  qed
  show "mb_get_opt s = None" if "mb_list s = []"
    using that length_mb_list[of s] by (simp add: mb_get_opt_def unat_eq_0)
qed

section \<open>Operations on the kernel state\<close>

definition upd_mb :: "nat \<Rightarrow> (rt_mailbox \<Rightarrow> rt_mailbox) \<Rightarrow> kernel \<Rightarrow> kernel" where
  "upd_mb n f s = s\<lparr>mboxes := (mboxes s)(n := f (mboxes s n))\<rparr>"

definition is_mb :: "nat \<Rightarrow> kernel \<Rightarrow> bool" where
  "is_mb n s \<longleftrightarrow> rt_object_get_type (mb_type (mboxes s n)) = RT_Object_Class_MailBox"

text \<open>\<open>pool\<close> is the memory the caller provides; \<^verbatim>\<open>mb->size\<close> keeps the low 16 bits of the size.\<close>

definition rt_mb_init :: "nat \<Rightarrow> u32 list \<Rightarrow> u32 \<Rightarrow> u8 \<Rightarrow> kernel \<Rightarrow> int \<times> kernel" where
  "rt_mb_init n pool sz flag s =
     (RT_EOK, upd_mb n (\<lambda>_. \<lparr>mb_type = RT_Object_Class_MailBox OR RT_Object_Class_Static,
          mb_flag = flag, mb_pool = pool, mb_size = ucast sz, mb_entry = 0, mb_in_offset = 0,
          mb_out_offset = 0\<rparr>)
        (rt_ipc_object_init (MbSendL n) (rt_ipc_object_init (MbRecvL n) s)))"

definition rt_mb_detach :: "nat \<Rightarrow> kernel \<Rightarrow> int \<times> kernel" where
  "rt_mb_detach n s =
     (if \<not> is_mb n s then (-RT_ERROR, fail s)
      else if \<not> rt_object_is_systemobject (mb_type (mboxes s n)) then (-RT_ERROR, fail s)
      else (RT_EOK, upd_mb n (\<lambda>x. x\<lparr>mb_type := 0\<rparr>)
              (rt_ipc_list_resume_all (MbSendL n) (rt_ipc_list_resume_all (MbRecvL n) s))))"

text \<open>\<open>obj\<close> and \<open>pool\<close> are the results of the two allocations.\<close>

definition rt_mb_create :: "nat option \<Rightarrow> u32 list option \<Rightarrow> u32 \<Rightarrow> u8 \<Rightarrow> kernel \<Rightarrow>
    nat option \<times> kernel" where
  "rt_mb_create obj pool sz flag s =
     (if int_nest s \<noteq> 0 then (None, fail s)
      else case obj of
        None \<Rightarrow> (None, s)
      | Some n \<Rightarrow>
          let s1 = rt_ipc_object_init (MbRecvL n) s
          in (case pool of
                None \<Rightarrow> (None, upd_mb n (\<lambda>x. x\<lparr>mb_type := 0, mb_flag := flag, mb_size := ucast sz\<rparr>) s1)
              | Some p \<Rightarrow> (Some n, upd_mb n (\<lambda>_. \<lparr>mb_type = RT_Object_Class_MailBox, mb_flag = flag,
                    mb_pool = p, mb_size = ucast sz, mb_entry = 0, mb_in_offset = 0,
                    mb_out_offset = 0\<rparr>) (rt_ipc_object_init (MbSendL n) s1))))"

definition rt_mb_delete :: "nat \<Rightarrow> kernel \<Rightarrow> int \<times> kernel" where
  "rt_mb_delete n s =
     (if int_nest s \<noteq> 0 then (-RT_ERROR, fail s)
      else if \<not> is_mb n s then (-RT_ERROR, fail s)
      else if rt_object_is_systemobject (mb_type (mboxes s n)) then (-RT_ERROR, fail s)
      else (RT_EOK, upd_mb n (\<lambda>x. x\<lparr>mb_type := 0\<rparr>)
              (rt_ipc_list_resume_all (MbSendL n) (rt_ipc_list_resume_all (MbRecvL n) s))))"

text \<open>The end of \<^verbatim>\<open>rt_mb_send_wait\<close>: store the word, wake a receiver.\<close>

definition mb_deposit :: "nat \<Rightarrow> u32 \<Rightarrow> kernel \<Rightarrow> int \<times> kernel" where
  "mb_deposit n value s =
     (let s1 = upd_mb n (mb_put value) s
      in if lists s1 (MbRecvL n) \<noteq> [] then (RT_EOK, rt_schedule (rt_ipc_list_resume (MbRecvL n) s1))
         else (RT_EOK, s1))"

text \<open>One round of the loop of \<^verbatim>\<open>rt_mb_send_wait\<close>.\<close>

definition mb_send_again :: "nat \<Rightarrow> u32 \<Rightarrow> u32 \<Rightarrow> kernel \<Rightarrow> outcome \<times> kernel" where
  "mb_send_again n value timeout s =
     (if mb_entry (mboxes s n) = mb_size (mboxes s n) then
        (case rt_thread_self s of
           None \<Rightarrow> (Ret (-RT_ERROR), fail s)
         | Some t \<Rightarrow>
             let s1 = upd_thr t (\<lambda>th. th\<lparr>t_error := RT_EOK\<rparr>) s
             in if timeout = 0 then (Ret (-RT_EFULL), s1)
                else if \<not> in_thread_context s1 then (Ret (-RT_ERROR), fail s1)
                else (Blocked, block_on (MbSendL n) t (mb_flag (mboxes s1 n)) timeout s1))
      else case mb_deposit n value s of (r, s1) \<Rightarrow> (Ret r, s1))"

definition rt_mb_send_wait :: "nat \<Rightarrow> u32 \<Rightarrow> u32 \<Rightarrow> kernel \<Rightarrow> outcome \<times> kernel" where
  "rt_mb_send_wait n value timeout s =
     (if \<not> is_mb n s then (Ret (-RT_ERROR), fail s)
      else if mb_entry (mboxes s n) = mb_size (mboxes s n) \<and> timeout = 0 then (Ret (-RT_EFULL), s)
      else mb_send_again n value timeout s)"

text \<open>The time left when the thread runs again; \<open>start\<close> is the tick at which it went to sleep.\<close>

definition time_left :: "u32 \<Rightarrow> u32 \<Rightarrow> u32 \<Rightarrow> u32" where
  "time_left start now timeout =
     (if 0 < sint timeout then
        let left = timeout - (now - start) in if sint left < 0 then 0 else left
      else timeout)"

definition mb_send_return :: "nat \<Rightarrow> u32 \<Rightarrow> u32 \<Rightarrow> u32 \<Rightarrow> tid \<Rightarrow> kernel \<Rightarrow> outcome \<times> kernel" where
  "mb_send_return n value start timeout t s =
     (if t_error (thr s t) \<noteq> RT_EOK then (Ret (t_error (thr s t)), s)
      else mb_send_again n value (time_left start (rt_tick_get s) timeout) s)"

definition rt_mb_send :: "nat \<Rightarrow> u32 \<Rightarrow> kernel \<Rightarrow> outcome \<times> kernel" where
  "rt_mb_send n value s = rt_mb_send_wait n value 0 s"

definition mb_fetch :: "nat \<Rightarrow> kernel \<Rightarrow> u32 \<times> kernel" where
  "mb_fetch n s =
     (let s1 = upd_mb n (\<lambda>x. snd (mb_get x)) s
      in (fst (mb_get (mboxes s n)),
          if lists s1 (MbSendL n) \<noteq> [] then rt_schedule (rt_ipc_list_resume (MbSendL n) s1) else s1))"

text \<open>The second component is what is stored through \<^verbatim>\<open>value\<close>.\<close>

definition mb_recv_again :: "nat \<Rightarrow> u32 \<Rightarrow> kernel \<Rightarrow> outcome \<times> u32 option \<times> kernel" where
  "mb_recv_again n timeout s =
     (if mb_entry (mboxes s n) = 0 then
        (case rt_thread_self s of
           None \<Rightarrow> (Ret (-RT_ERROR), None, fail s)
         | Some t \<Rightarrow>
             let s1 = upd_thr t (\<lambda>th. th\<lparr>t_error := RT_EOK\<rparr>) s
             in if timeout = 0 then
                  (Ret (-RT_ETIMEOUT), None, upd_thr t (\<lambda>th. th\<lparr>t_error := -RT_ETIMEOUT\<rparr>) s1)
                else if \<not> in_thread_context s1 then (Ret (-RT_ERROR), None, fail s1)
                else (Blocked, None, block_on (MbRecvL n) t (mb_flag (mboxes s1 n)) timeout s1))
      else case mb_fetch n s of (v, s1) \<Rightarrow> (Ret RT_EOK, Some v, s1))"

definition rt_mb_recv :: "nat \<Rightarrow> u32 \<Rightarrow> kernel \<Rightarrow> outcome \<times> u32 option \<times> kernel" where
  "rt_mb_recv n timeout s =
     (if \<not> is_mb n s then (Ret (-RT_ERROR), None, fail s)
      else if mb_entry (mboxes s n) = 0 \<and> timeout = 0 then (Ret (-RT_ETIMEOUT), None, s)
      else mb_recv_again n timeout s)"

definition mb_recv_return :: "nat \<Rightarrow> u32 \<Rightarrow> u32 \<Rightarrow> tid \<Rightarrow> kernel \<Rightarrow> outcome \<times> u32 option \<times> kernel" where
  "mb_recv_return n start timeout t s =
     (if t_error (thr s t) \<noteq> RT_EOK then (Ret (t_error (thr s t)), None, s)
      else mb_recv_again n (time_left start (rt_tick_get s) timeout) s)"

definition rt_mb_control :: "nat \<Rightarrow> nat \<Rightarrow> kernel \<Rightarrow> int \<times> kernel" where
  "rt_mb_control n cmd s =
     (if \<not> is_mb n s then (-RT_ERROR, fail s)
      else if cmd = 1 then
        (RT_EOK, rt_schedule (upd_mb n (\<lambda>x. x\<lparr>mb_entry := 0, mb_in_offset := 0, mb_out_offset := 0\<rparr>)
           (rt_ipc_list_resume_all (MbSendL n) (rt_ipc_list_resume_all (MbRecvL n) s))))
      else (-RT_ERROR, s))"

section \<open>Correctness of the operations\<close>

lemma upd_mb_sel [kframe]:
  "lists (upd_mb n f s) = lists s" "ready_group (upd_mb n f s) = ready_group s"
  "timers (upd_mb n f s) = timers s" "timer_list (upd_mb n f s) = timer_list s"
  "cur (upd_mb n f s) = cur s" "thr (upd_mb n f s) = thr s" "statm (upd_mb n f s) = statm s"
  "prio (upd_mb n f s) = prio s" "thread_ok (upd_mb n f s) = thread_ok s"
  "lock_nest (upd_mb n f s) = lock_nest s" "stuck (upd_mb n f s) = stuck s"
  "tick (upd_mb n f s) = tick s" "mboxes (upd_mb n f s) = (mboxes s)(n := f (mboxes s n))"
  "awake (upd_mb n f s) = awake s"
  by (simp_all add: upd_mb_def statm_def prio_def thread_ok_def awake_def fun_eq_iff)

lemma kinv_upd_mb [simp]: "kinv (upd_mb n f s) = kinv s"
  by (rule kinv_frame) (simp_all add: kframe)

text \<open>A word is accepted at the end of the ring, and a waiting receiver wakes.\<close>

lemma mb_send_stores:
  assumes "kinv s" "cur s = Some c" "is_mb n s" "mb_inv (mboxes s n)"
    "mb_entry (mboxes s n) \<noteq> mb_size (mboxes s n)"
  shows "\<exists>s'. rt_mb_send_wait n v timeout s = (Ret RT_EOK, s') \<and> kinv s' \<and>
    mb_inv (mboxes s' n) \<and> mb_list (mboxes s' n) = mb_list (mboxes s n) @ [v] \<and>
    lists s' (MbRecvL n) = tl (lists s (MbRecvL n)) \<and> lists s' (MbSendL n) = lists s (MbSendL n) \<and>
    (lists s (MbRecvL n) \<noteq> [] \<longrightarrow> awake s' (hd (lists s (MbRecvL n)))) \<and> stuck s' = stuck s"
proof -
  let ?s1 = "upd_mb n (mb_put v) s"
  have k1: "kinv ?s1" and c1: "cur ?s1 = Some c" using assms(1,2) by (simp_all add: kframe)
  have room: "unat (mb_entry (mboxes s n)) < unat (mb_size (mboxes s n))"
    using assms(4,5) by (simp add: mb_inv_def le_neq_implies_less word_unat_eq_iff)
  note p = mb_put_fifo[OF assms(4) room, of v]
  note w = wake_first_effect[OF k1 c1, of "MbRecvL n", simplified]
  have "rt_mb_send_wait n v timeout s = (Ret RT_EOK, wake_first (MbRecvL n) ?s1)"
    using assms(3,5)
    by (simp add: rt_mb_send_wait_def mb_send_again_def mb_deposit_def Let_def wake_first_def)
  moreover have "mboxes (wake_first (MbRecvL n) ?s1) n = mb_put v (mboxes s n)"
    using w(7) by (simp add: kframe)
  ultimately show ?thesis
    using w(1) w(3) w(4)[of "MbSendL n"] w(5) w(9) p by (simp add: kframe)
qed

text \<open>The oldest word is delivered, and a waiting sender wakes.\<close>

lemma mb_recv_delivers:
  assumes "kinv s" "cur s = Some c" "is_mb n s" "mb_inv (mboxes s n)"
    "mb_list (mboxes s n) = v # vs"
  shows "\<exists>s'. rt_mb_recv n timeout s = (Ret RT_EOK, Some v, s') \<and> kinv s' \<and>
    mb_inv (mboxes s' n) \<and> mb_list (mboxes s' n) = vs \<and>
    lists s' (MbSendL n) = tl (lists s (MbSendL n)) \<and> lists s' (MbRecvL n) = lists s (MbRecvL n) \<and>
    (lists s (MbSendL n) \<noteq> [] \<longrightarrow> awake s' (hd (lists s (MbSendL n)))) \<and> stuck s' = stuck s"
proof -
  let ?s1 = "upd_mb n (\<lambda>x. snd (mb_get x)) s"
  have k1: "kinv ?s1" and c1: "cur ?s1 = Some c" using assms(1,2) by (simp_all add: kframe)
  have ne: "mb_entry (mboxes s n) \<noteq> 0" using assms(5) length_mb_list[of "mboxes s n"] by auto
  note g = mb_get_fifo[OF assms(4) ne]
  have gv: "fst (mb_get (mboxes s n)) = v" "mb_list (snd (mb_get (mboxes s n))) = vs"
    using g(2) assms(5) by simp_all
  note w = wake_first_effect[OF k1 c1, of "MbSendL n", simplified]
  have "rt_mb_recv n timeout s = (Ret RT_EOK, Some v, wake_first (MbSendL n) ?s1)"
    using assms(3) ne gv(1)
    by (simp add: rt_mb_recv_def mb_recv_again_def mb_fetch_def Let_def wake_first_def)
  moreover have "mboxes (wake_first (MbSendL n) ?s1) n = snd (mb_get (mboxes s n))"
    using w(7) by (simp add: kframe)
  ultimately show ?thesis
    using w(1) w(3) w(4)[of "MbRecvL n"] w(5) w(9) g(1) gv by (simp add: kframe)
qed

text \<open>A full mailbox blocks a sender that may wait, an empty one a receiver that may wait.\<close>

lemma mb_send_blocks:
  fixes timeout :: u32
  assumes "kinv s" "cur s = Some c" "statm s c = RT_THREAD_RUNNING" "int_nest s = 0" "is_mb n s"
    "mb_entry (mboxes s n) = mb_size (mboxes s n)" "timeout \<noteq> 0"
  shows "\<exists>s'. rt_mb_send_wait n v timeout s = (Blocked, s') \<and> kinv s' \<and> mboxes s' = mboxes s \<and>
    statm s' c = RT_THREAD_SUSPEND \<and> t_error (thr s' c) = RT_EOK \<and>
    lists s' (MbSendL n) = wait_insert (mb_flag (mboxes s n)) (\<lambda>u. t_current_priority (thr s u)) c
      (lists s (MbSendL n))"
proof -
  let ?e = "upd_thr c (\<lambda>th. th\<lparr>t_error := RT_EOK\<rparr>) s"
  have ke: "kinv ?e" and ce: "cur ?e = Some c" and re: "statm ?e c = RT_THREAD_RUNNING"
    using assms(1-3) by (simp_all add: kinv_upd_thr kframe)
  have pr: "t_current_priority (thr ?e u) = t_current_priority (thr s u)" for u by (simp add: upd_thr_def)
  have nest: "int_nest ?e = 0" using assms(4) by (simp add: upd_thr_def)
  have er: "t_error (thr ?e c) = RT_EOK" by (simp add: upd_thr_def)
  note b = block_on_effect[OF ke ce re, of "MbSendL n", simplified]
  show ?thesis
    using assms b(1,3,14) b(4)[of "MbSendL n"] b(7) nest er
    by (simp add: rt_mb_send_wait_def mb_send_again_def rt_thread_self_def in_thread_context_def
        Let_def kframe pr)
qed

lemma mb_recv_blocks:
  fixes timeout :: u32
  assumes "kinv s" "cur s = Some c" "statm s c = RT_THREAD_RUNNING" "int_nest s = 0" "is_mb n s"
    "mb_entry (mboxes s n) = 0" "timeout \<noteq> 0"
  shows "\<exists>s'. rt_mb_recv n timeout s = (Blocked, None, s') \<and> kinv s' \<and> mboxes s' = mboxes s \<and>
    statm s' c = RT_THREAD_SUSPEND \<and> t_error (thr s' c) = RT_EOK \<and>
    lists s' (MbRecvL n) = wait_insert (mb_flag (mboxes s n)) (\<lambda>u. t_current_priority (thr s u)) c
      (lists s (MbRecvL n))"
proof -
  let ?e = "upd_thr c (\<lambda>th. th\<lparr>t_error := RT_EOK\<rparr>) s"
  have ke: "kinv ?e" and ce: "cur ?e = Some c" and re: "statm ?e c = RT_THREAD_RUNNING"
    using assms(1-3) by (simp_all add: kinv_upd_thr kframe)
  have pr: "t_current_priority (thr ?e u) = t_current_priority (thr s u)" for u by (simp add: upd_thr_def)
  have nest: "int_nest ?e = 0" using assms(4) by (simp add: upd_thr_def)
  have er: "t_error (thr ?e c) = RT_EOK" by (simp add: upd_thr_def)
  note b = block_on_effect[OF ke ce re, of "MbRecvL n", simplified]
  show ?thesis
    using assms b(1,3,14) b(4)[of "MbRecvL n"] b(7) nest er
    by (simp add: rt_mb_recv_def mb_recv_again_def rt_thread_self_def in_thread_context_def
        Let_def kframe pr)
qed

text \<open>Waiting does not extend the timeout: what is left is the timeout less the time slept, or 0.\<close>

lemma time_left_spec:
  assumes "0 < sint timeout" "unat (now - start) < 2147483648"
  shows "sint (time_left start now timeout) = max 0 (sint timeout - int (unat (now - start)))"
proof -
  let ?d = "now - start"
  have st: "sint timeout = uint timeout" using assms(1) by (intro sint_eq_uint_if_nonneg) simp
  have r: "sint timeout < 2147483648" using sint_lt[of timeout] by simp
  have d: "int (unat ?d) = uint ?d" by simp
  have eq: "timeout - ?d = word_of_int (uint timeout - uint ?d)" by (simp add: wi_hom_syms)
  have ran: "- 2147483648 \<le> uint timeout - uint ?d" "uint timeout - uint ?d < 2147483648"
    using assms(2) r st d uint_ge_0[of ?d] assms(1) by linarith+
  have "sint (timeout - ?d) = signed_take_bit 31 (uint timeout - uint ?d)"
    unfolding eq sint_sbintrunc' by simp
  also have "\<dots> = uint timeout - uint ?d"
    using ran by (intro signed_take_bit_int_eq_self) simp_all
  finally show ?thesis using assms(1) st d by (simp add: time_left_def Let_def max_def)
qed

end
