(* ===== verification/MsgQueue.thy ===== *)
theory MsgQueue
  imports Ipc
begin

text \<open>
  The message queues of \<^verbatim>\<open>ipc.c\<close> (lines 1780 to 2325). The pool is divided into slots, which the code
  links by their first word into a queue (head and tail pointer) and a list of free slots; a slot is
  a number here, a null pointer \<open>None\<close>. \<open>mq_inv\<close>: queue and free list are disjoint chains that cover the
  pool. The linked queue is an instance of the bounded FIFO buffer; \<^verbatim>\<open>rt_mq_urgent\<close> puts at the front.
  A message shorter than the slot leaves the rest of the slot's old bytes in place, as \<^verbatim>\<open>memcpy\<close> does.
\<close>

section \<open>The linked queue\<close>

text \<open>The loop that puts all slots on the free list, from slot \<open>temp\<close> on.\<close>

fun mq_free_loop :: "nat \<Rightarrow> nat \<Rightarrow> rt_messagequeue \<Rightarrow> rt_messagequeue" where
  "mq_free_loop 0 temp mq = mq"
| "mq_free_loop (Suc k) temp mq =
     mq_free_loop k (temp + 1)
       (mq\<lparr>mq_next := (mq_next mq)(temp := mq_free mq), mq_free := Some temp\<rparr>)"

definition mq_reset_queue :: "rt_messagequeue \<Rightarrow> rt_messagequeue" where
  "mq_reset_queue mq =
     (mq_free_loop (unat (mq_max_msgs mq)) 0
        (mq\<lparr>mq_head := None, mq_tail := None, mq_free := None\<rparr>))\<lparr>mq_entry := 0\<rparr>"

text \<open>\<open>fill\<close> is what copying the buffer makes of the bytes of the slot.\<close>

definition mq_enqueue :: "(u8 list \<Rightarrow> u8 list) \<Rightarrow> rt_messagequeue \<Rightarrow> rt_messagequeue option" where
  "mq_enqueue fill mq =
     (case mq_free mq of
        None \<Rightarrow> None
      | Some m \<Rightarrow>
          let mq1 = mq\<lparr>mq_free := mq_next mq m\<rparr>;
              mq2 = mq1\<lparr>mq_next := (mq_next mq1)(m := None)\<rparr>;
              mq3 = mq2\<lparr>mq_data := (mq_data mq2)(m := fill (mq_data mq2 m))\<rparr>;
              mq4 = (case mq_tail mq3 of
                       None \<Rightarrow> mq3
                     | Some t \<Rightarrow> mq3\<lparr>mq_next := (mq_next mq3)(t := Some m)\<rparr>);
              mq5 = mq4\<lparr>mq_tail := Some m\<rparr>;
              mq6 = (if mq_head mq5 = None then mq5\<lparr>mq_head := Some m\<rparr> else mq5)
          in Some (mq6\<lparr>mq_entry := mq_entry mq6 + 1\<rparr>))"

definition mq_push_front :: "(u8 list \<Rightarrow> u8 list) \<Rightarrow> rt_messagequeue \<Rightarrow> rt_messagequeue option" where
  "mq_push_front fill mq =
     (case mq_free mq of
        None \<Rightarrow> None
      | Some m \<Rightarrow>
          let mq1 = mq\<lparr>mq_free := mq_next mq m\<rparr>;
              mq2 = mq1\<lparr>mq_data := (mq_data mq1)(m := fill (mq_data mq1 m))\<rparr>;
              mq3 = mq2\<lparr>mq_next := (mq_next mq2)(m := mq_head mq2)\<rparr>;
              mq4 = mq3\<lparr>mq_head := Some m\<rparr>;
              mq5 = (if mq_tail mq4 = None then mq4\<lparr>mq_tail := Some m\<rparr> else mq4)
          in Some (mq5\<lparr>mq_entry := mq_entry mq5 + 1\<rparr>))"

text \<open>\<open>None\<close> is the null head pointer of an empty queue; the first component is the slot's content.\<close>

definition mq_dequeue :: "rt_messagequeue \<Rightarrow> (u8 list \<times> rt_messagequeue) option" where
  "mq_dequeue mq =
     (case mq_head mq of
        None \<Rightarrow> None
      | Some m \<Rightarrow>
          let mq1 = mq\<lparr>mq_head := mq_next mq m\<rparr>;
              mq2 = (if mq_tail mq1 = Some m then mq1\<lparr>mq_tail := None\<rparr> else mq1);
              mq3 = mq2\<lparr>mq_entry := mq_entry mq2 - 1\<rparr>;
              mq4 = mq3\<lparr>mq_next := (mq_next mq3)(m := mq_free mq3)\<rparr>
          in Some (mq_data mq m, mq4\<lparr>mq_free := Some m\<rparr>))"

text \<open>The loop of the reset command, one round per queued message.\<close>

fun mq_drain :: "nat \<Rightarrow> rt_messagequeue \<Rightarrow> rt_messagequeue option" where
  "mq_drain 0 mq = (if mq_head mq = None then Some mq else None)"
| "mq_drain (Suc k) mq =
     (case mq_head mq of
        None \<Rightarrow> Some mq
      | Some m \<Rightarrow>
          let mq1 = mq\<lparr>mq_head := mq_next mq m\<rparr>;
              mq2 = (if mq_tail mq1 = Some m then mq1\<lparr>mq_tail := None\<rparr> else mq1);
              mq3 = mq2\<lparr>mq_next := (mq_next mq2)(m := mq_free mq2)\<rparr>
          in mq_drain k (mq3\<lparr>mq_free := Some m\<rparr>))"

section \<open>Chains\<close>

fun chain_at :: "(nat \<Rightarrow> nat option) \<Rightarrow> nat option \<Rightarrow> nat list \<Rightarrow> bool" where
  "chain_at nx p [] \<longleftrightarrow> p = None"
| "chain_at nx p (m # ms) \<longleftrightarrow> p = Some m \<and> chain_at nx (nx m) ms"

fun chain_list :: "nat \<Rightarrow> (nat \<Rightarrow> nat option) \<Rightarrow> nat option \<Rightarrow> nat list" where
  "chain_list 0 nx p = []"
| "chain_list (Suc k) nx p = (case p of None \<Rightarrow> [] | Some m \<Rightarrow> m # chain_list k nx (nx m))"

lemma chain_list_at: "chain_at nx p ms \<Longrightarrow> chain_list (length ms) nx p = ms"
  by (induction ms arbitrary: p) auto

lemma chain_at_upd [simp]: "m \<notin> set ms \<Longrightarrow> chain_at (nx(m := v)) p ms = chain_at nx p ms"
  by (induction ms arbitrary: p) auto

lemma chain_at_None [simp]: "chain_at nx None ms \<longleftrightarrow> ms = []"
  by (cases ms) auto

lemma chain_at_Some: "chain_at nx (Some m) ms \<longleftrightarrow> (\<exists>ms'. ms = m # ms' \<and> chain_at nx (nx m) ms')"
  by (cases ms) auto

lemma chain_at_snoc:
  "chain_at nx p ms \<Longrightarrow> ms \<noteq> [] \<Longrightarrow> distinct ms \<Longrightarrow> m \<notin> set ms \<Longrightarrow>
   chain_at (nx(m := None, last ms := Some m)) p (ms @ [m])"
proof (induction ms arbitrary: p)
  case (Cons a ms)
  then show ?case
    by (cases ms) (auto simp: fun_upd_twist)
qed simp

text \<open>\<open>q\<close> are the queued slots in order, \<open>f\<close> the free ones.\<close>

definition mq_rep :: "rt_messagequeue \<Rightarrow> nat list \<Rightarrow> nat list \<Rightarrow> bool" where
  "mq_rep mq q f \<longleftrightarrow>
     chain_at (mq_next mq) (mq_head mq) q \<and> chain_at (mq_next mq) (mq_free mq) f \<and>
     distinct (q @ f) \<and> set (q @ f) = {0..<unat (mq_max_msgs mq)} \<and>
     mq_tail mq = (if q = [] then None else Some (last q)) \<and> unat (mq_entry mq) = length q"

definition mq_slots :: "rt_messagequeue \<Rightarrow> nat list" where
  "mq_slots mq = chain_list (unat (mq_entry mq)) (mq_next mq) (mq_head mq)"

definition mq_list :: "rt_messagequeue \<Rightarrow> u8 list list" where
  "mq_list mq = map (mq_data mq) (mq_slots mq)"

definition mq_inv :: "rt_messagequeue \<Rightarrow> bool" where
  "mq_inv mq \<longleftrightarrow> (\<exists>f. mq_rep mq (mq_slots mq) f)"

lemma mq_repD:
  assumes "mq_rep mq q f"
  shows "mq_slots mq = q" "mq_inv mq" "length q + length f = unat (mq_max_msgs mq)"
proof -
  show s: "mq_slots mq = q"
    using assms chain_list_at[of "mq_next mq" "mq_head mq" q] by (simp add: mq_rep_def mq_slots_def)
  then show "mq_inv mq" using assms by (auto simp: mq_inv_def)
  have "card (set (q @ f)) = length (q @ f)" using assms unfolding mq_rep_def by (metis distinct_card)
  then show "length q + length f = unat (mq_max_msgs mq)" using assms by (simp add: mq_rep_def)
qed

lemma length_mq_list: "mq_inv mq \<Longrightarrow> length (mq_list mq) = unat (mq_entry mq)"
  by (auto simp: mq_inv_def mq_rep_def mq_list_def)

lemma mq_free_loop_rep:
  assumes "chain_at (mq_next mq) (mq_free mq) f" "set f = {0..<temp}" "distinct f"
  shows "\<exists>f'. chain_at (mq_next (mq_free_loop k temp mq)) (mq_free (mq_free_loop k temp mq)) f' \<and>
    set f' = {0..<temp + k} \<and> distinct f' \<and> mq_head (mq_free_loop k temp mq) = mq_head mq \<and>
    mq_tail (mq_free_loop k temp mq) = mq_tail mq \<and>
    mq_max_msgs (mq_free_loop k temp mq) = mq_max_msgs mq \<and>
    mq_msg_size (mq_free_loop k temp mq) = mq_msg_size mq \<and>
    mq_type (mq_free_loop k temp mq) = mq_type mq \<and> mq_data (mq_free_loop k temp mq) = mq_data mq"
  using assms
proof (induction k arbitrary: temp mq f)
  case 0
  then show ?case by auto
next
  case (Suc k)
  let ?mq = "mq\<lparr>mq_next := (mq_next mq)(temp := mq_free mq), mq_free := Some temp\<rparr>"
  have "chain_at (mq_next ?mq) (mq_free ?mq) (temp # f)" "set (temp # f) = {0..<temp + 1}"
    "distinct (temp # f)"
    using Suc.prems by auto
  from Suc.IH[OF this] show ?case by simp
qed

lemma mq_reset_queue_inv:
  shows "mq_inv (mq_reset_queue mq)" "mq_list (mq_reset_queue mq) = []"
    "mq_max_msgs (mq_reset_queue mq) = mq_max_msgs mq" "mq_type (mq_reset_queue mq) = mq_type mq"
    "mq_msg_size (mq_reset_queue mq) = mq_msg_size mq"
proof -
  let ?m0 = "mq\<lparr>mq_head := None, mq_tail := None, mq_free := None\<rparr>"
  obtain f where f: "chain_at (mq_next (mq_reset_queue mq)) (mq_free (mq_reset_queue mq)) f"
    "set f = {0..<unat (mq_max_msgs mq)}" "distinct f" "mq_head (mq_reset_queue mq) = None"
    "mq_tail (mq_reset_queue mq) = None" "mq_max_msgs (mq_reset_queue mq) = mq_max_msgs mq"
    "mq_msg_size (mq_reset_queue mq) = mq_msg_size mq" "mq_type (mq_reset_queue mq) = mq_type mq"
    using mq_free_loop_rep[of ?m0 "[]" 0 "unat (mq_max_msgs mq)"] by (auto simp: mq_reset_queue_def)
  have e: "mq_entry (mq_reset_queue mq) = 0" by (simp add: mq_reset_queue_def)
  have "mq_rep (mq_reset_queue mq) [] f" using f e by (simp add: mq_rep_def)
  from mq_repD(1,2)[OF this] show "mq_inv (mq_reset_queue mq)" "mq_list (mq_reset_queue mq) = []"
    by (simp_all add: mq_list_def)
  show "mq_max_msgs (mq_reset_queue mq) = mq_max_msgs mq" "mq_type (mq_reset_queue mq) = mq_type mq"
    "mq_msg_size (mq_reset_queue mq) = mq_msg_size mq" using f by simp_all
qed

section \<open>The queue operations on chains\<close>

lemma mq_max_lt: "unat (mq_max_msgs mq) < 65536"
  by (rule order_less_le_trans[OF unsigned_less]) simp

lemma mq_enqueue_rep:
  assumes "mq_rep mq q (m # f)"
  shows "\<exists>mq'. mq_enqueue fill mq = Some mq' \<and> mq_rep mq' (q @ [m]) f \<and>
    mq_data mq' = (mq_data mq)(m := fill (mq_data mq m)) \<and> mq_max_msgs mq' = mq_max_msgs mq \<and>
    mq_msg_size mq' = mq_msg_size mq \<and> mq_type mq' = mq_type mq \<and> mq_flag mq' = mq_flag mq"
proof -
  note r = assms[unfolded mq_rep_def]
  have fr: "mq_free mq = Some m" "chain_at (mq_next mq) (mq_next mq m) f" using r by simp_all
  have d: "m \<notin> set q" "m \<notin> set f" "distinct q" "distinct f" "set q \<inter> set f = {}" using r by auto
  have sets: "set ((q @ [m]) @ f) = {0..<unat (mq_max_msgs mq)}" using r by auto
  have "Suc (length q) < 65536"
    using mq_repD(3)[OF assms] mq_max_lt[of mq] by simp
  then have e: "unat (mq_entry mq + 1) = length q + 1" using r by (simp add: unat_Suc_word)
  show ?thesis
  proof (cases "q = []")
    case True
    then have "mq_tail mq = None" "mq_head mq = None" using r by simp_all
    then show ?thesis
      using True fr d e sets by (simp add: mq_enqueue_def Let_def mq_rep_def)
  next
    case False
    then have t: "mq_tail mq = Some (last q)" and h: "mq_head mq = Some (hd q)"
      using r by (auto simp: chain_at_Some neq_Nil_conv)
    have "last q \<notin> set f" using False d(5) last_in_set by blast
    moreover have "chain_at ((mq_next mq)(m := None, last q := Some m)) (mq_head mq) (q @ [m])"
      using chain_at_snoc[OF _ False d(3,1)] r by blast
    ultimately show ?thesis
      using False fr d e sets t h r by (simp add: mq_enqueue_def Let_def mq_rep_def)
  qed
qed

lemma mq_push_front_rep:
  assumes "mq_rep mq q (m # f)"
  shows "\<exists>mq'. mq_push_front fill mq = Some mq' \<and> mq_rep mq' (m # q) f \<and>
    mq_data mq' = (mq_data mq)(m := fill (mq_data mq m)) \<and> mq_max_msgs mq' = mq_max_msgs mq \<and>
    mq_msg_size mq' = mq_msg_size mq \<and> mq_type mq' = mq_type mq \<and> mq_flag mq' = mq_flag mq"
proof -
  note r = assms[unfolded mq_rep_def]
  have fr: "mq_free mq = Some m" "chain_at (mq_next mq) (mq_next mq m) f" using r by simp_all
  have d: "m \<notin> set q" "m \<notin> set f" "distinct q" "distinct f" "set q \<inter> set f = {}" using r by auto
  have sets: "insert m (set q \<union> set f) = {0..<unat (mq_max_msgs mq)}" using r by auto
  have "Suc (length q) < 65536"
    using mq_repD(3)[OF assms] mq_max_lt[of mq] by simp
  then have e: "unat (mq_entry mq + 1) = length q + 1" using r by (simp add: unat_Suc_word)
  show ?thesis
    using r fr d e sets by (cases "q = []") (simp_all add: mq_push_front_def Let_def mq_rep_def)
qed

lemma mq_dequeue_rep:
  assumes "mq_rep mq (m # q) f"
  shows "\<exists>mq'. mq_dequeue mq = Some (mq_data mq m, mq') \<and> mq_rep mq' q (m # f) \<and>
    mq_data mq' = mq_data mq \<and> mq_max_msgs mq' = mq_max_msgs mq \<and>
    mq_msg_size mq' = mq_msg_size mq \<and> mq_type mq' = mq_type mq \<and> mq_flag mq' = mq_flag mq"
proof -
  note r = assms[unfolded mq_rep_def]
  have h: "mq_head mq = Some m" "chain_at (mq_next mq) (mq_next mq m) q" using r by simp_all
  have d: "m \<notin> set q" "m \<notin> set f" "distinct q" "distinct f" "set q \<inter> set f = {}" using r by auto
  have sets: "set q \<union> insert m (set f) = {0..<unat (mq_max_msgs mq)}" using r by auto
  have "mq_entry mq \<noteq> 0" using r by auto
  then have e: "unat (mq_entry mq - 1) = length q" using r by (simp add: unat_dec_word)
  show ?thesis
  proof (cases "q = []")
    case True
    then show ?thesis using r h d e sets by (simp add: mq_dequeue_def Let_def mq_rep_def)
  next
    case False
    then have "mq_tail mq = Some (last q)" "last q \<noteq> m" using r d(1) by auto
    then show ?thesis
      using False r h d e sets by (simp add: mq_dequeue_def Let_def mq_rep_def)
  qed
qed

lemma mq_full: "mq_rep mq q f \<Longrightarrow> mq_free mq = None \<longleftrightarrow> f = []"
  by (cases f) (auto simp: mq_rep_def)

text \<open>The linked queue is a bounded FIFO buffer of slot contents.\<close>

interpretation mq: fifo mq_inv mq_list "\<lambda>mq. unat (mq_max_msgs mq)"
  "\<lambda>x. mq_enqueue (\<lambda>_. x)" mq_dequeue
proof
  fix s :: rt_messagequeue and x and xs
  assume i: "mq_inv s"
  then obtain f where rep: "mq_rep s (mq_slots s) f" by (auto simp: mq_inv_def)
  have len: "length (mq_list s) = length (mq_slots s)" by (simp add: mq_list_def)
  note tot = mq_repD(3)[OF rep]
  show "length (mq_list s) \<le> unat (mq_max_msgs s)" using tot len by simp
  show "\<exists>s'. mq_enqueue (\<lambda>_. x) s = Some s' \<and> mq_inv s' \<and> mq_list s' = mq_list s @ [x] \<and>
      unat (mq_max_msgs s') = unat (mq_max_msgs s)" if "length (mq_list s) < unat (mq_max_msgs s)"
  proof -
    have "f \<noteq> []" using that tot len by auto
    then obtain m f' where f: "f = m # f'" by (cases f) auto
    obtain s' where s': "mq_enqueue (\<lambda>_. x) s = Some s'" "mq_rep s' (mq_slots s @ [m]) f'"
      "mq_data s' = (mq_data s)(m := x)" "mq_max_msgs s' = mq_max_msgs s"
      using mq_enqueue_rep[OF rep[unfolded f], of "\<lambda>_. x"] by auto
    have "m \<notin> set (mq_slots s)" using rep f by (auto simp: mq_rep_def)
    then have "mq_list s' = mq_list s @ [x]"
      using mq_repD(1)[OF s'(2)] s'(3) by (simp add: mq_list_def)
    with s' mq_repD(2)[OF s'(2)] show ?thesis by simp
  qed
  show "mq_enqueue (\<lambda>_. x) s = None" if "length (mq_list s) = unat (mq_max_msgs s)"
  proof -
    have "f = []" using that tot len by simp
    with mq_full[OF rep] show ?thesis by (simp add: mq_enqueue_def)
  qed
  show "\<exists>s'. mq_dequeue s = Some (x, s') \<and> mq_inv s' \<and> mq_list s' = xs \<and>
      unat (mq_max_msgs s') = unat (mq_max_msgs s)" if "mq_list s = x # xs"
  proof -
    have "mq_slots s \<noteq> []" using that by (auto simp: mq_list_def)
    then obtain m q where q: "mq_slots s = m # q" by (cases "mq_slots s") auto
    obtain s' where s': "mq_dequeue s = Some (mq_data s m, s')" "mq_rep s' q (m # f)"
      "mq_data s' = mq_data s" "mq_max_msgs s' = mq_max_msgs s"
      using mq_dequeue_rep[OF rep[unfolded q]] by auto
    have "x = mq_data s m" "xs = map (mq_data s) q" using that q by (simp_all add: mq_list_def)
    with s' mq_repD(1,2)[OF s'(2)] show ?thesis by (simp add: mq_list_def)
  qed
  show "mq_dequeue s = None" if "mq_list s = []"
    using that rep by (simp add: mq_list_def mq_dequeue_def mq_rep_def)
qed

text \<open>Draining returns every slot to the free list.\<close>

lemma mq_drain_rep:
  assumes "chain_at (mq_next mq) (mq_head mq) q" "chain_at (mq_next mq) (mq_free mq) f"
    "distinct (q @ f)" "mq_tail mq = (if q = [] then None else Some (last q))"
  shows "\<exists>mq'. mq_drain (length q) mq = Some mq' \<and> mq_head mq' = None \<and> mq_tail mq' = None \<and>
    chain_at (mq_next mq') (mq_free mq') (rev q @ f) \<and> mq_max_msgs mq' = mq_max_msgs mq \<and>
    mq_type mq' = mq_type mq"
  using assms
proof (induction q arbitrary: mq f)
  case (Cons m q)
  let ?mq = "mq\<lparr>mq_head := mq_next mq m, mq_tail := (if q = [] then None else mq_tail mq),
    mq_next := (mq_next mq)(m := mq_free mq), mq_free := Some m\<rparr>"
  have h: "mq_head mq = Some m" using Cons.prems(1) by simp
  have "mq_tail mq = Some m \<longleftrightarrow> q = []" using Cons.prems(3,4) last_in_set[of q] by auto
  then have "mq_drain (length (m # q)) mq = mq_drain (length q) ?mq" using h by (simp add: Let_def)
  moreover have "chain_at (mq_next ?mq) (mq_head ?mq) q" "chain_at (mq_next ?mq) (mq_free ?mq) (m # f)"
    "distinct (q @ m # f)" "mq_tail ?mq = (if q = [] then None else Some (last q))"
    using Cons.prems by auto
  note Cons.IH[OF this]
  ultimately show ?case by simp
qed simp

section \<open>Operations on the kernel state\<close>

abbreviation (input) RT_Object_Class_MessageQueue :: u8 where "RT_Object_Class_MessageQueue \<equiv> 6"

definition upd_mq :: "nat \<Rightarrow> (rt_messagequeue \<Rightarrow> rt_messagequeue) \<Rightarrow> kernel \<Rightarrow> kernel" where
  "upd_mq n f s = s\<lparr>mqs := (mqs s)(n := f (mqs s n))\<rparr>"

definition is_mq :: "nat \<Rightarrow> kernel \<Rightarrow> bool" where
  "is_mq n s \<longleftrightarrow> rt_object_get_type (mq_type (mqs s n)) = RT_Object_Class_MessageQueue"

text \<open>\<open>msg_size\<close> and \<open>max_msgs\<close> are stored in 16 bits; a message needs a link word of 4 bytes.\<close>

definition mq_setup :: "u8 \<Rightarrow> u8 \<Rightarrow> u16 \<Rightarrow> u16 \<Rightarrow> rt_messagequeue \<Rightarrow> rt_messagequeue" where
  "mq_setup ty flag msz maxm mq =
     mq_reset_queue (mq\<lparr>mq_type := ty, mq_flag := flag, mq_msg_size := msz, mq_max_msgs := maxm\<rparr>)"

definition rt_mq_init :: "nat \<Rightarrow> u32 \<Rightarrow> u32 \<Rightarrow> u8 \<Rightarrow> kernel \<Rightarrow> int \<times> kernel" where
  "rt_mq_init n msg_size pool_size flag s =
     (let msz = ucast (align4 msg_size) :: u16;
          maxm = ucast (pool_size div (ucast msz + 4)) :: u16
      in (RT_EOK, upd_mq n (mq_setup (RT_Object_Class_MessageQueue OR RT_Object_Class_Static) flag msz maxm)
           (rt_ipc_object_init (MqL n) s)))"

definition rt_mq_detach :: "nat \<Rightarrow> kernel \<Rightarrow> int \<times> kernel" where
  "rt_mq_detach n s =
     (if \<not> is_mq n s then (-RT_ERROR, fail s)
      else if \<not> rt_object_is_systemobject (mq_type (mqs s n)) then (-RT_ERROR, fail s)
      else (RT_EOK, upd_mq n (\<lambda>x. x\<lparr>mq_type := 0\<rparr>) (rt_ipc_list_resume_all (MqL n) s)))"

definition rt_mq_delete :: "nat \<Rightarrow> kernel \<Rightarrow> int \<times> kernel" where
  "rt_mq_delete n s =
     (if int_nest s \<noteq> 0 then (-RT_ERROR, fail s)
      else if \<not> is_mq n s then (-RT_ERROR, fail s)
      else if rt_object_is_systemobject (mq_type (mqs s n)) then (-RT_ERROR, fail s)
      else (RT_EOK, upd_mq n (\<lambda>x. x\<lparr>mq_type := 0\<rparr>) (rt_ipc_list_resume_all (MqL n) s)))"

text \<open>\<open>obj\<close> is the allocated object, \<open>pool\<close> tells whether the pool could be allocated.\<close>

definition rt_mq_create :: "nat option \<Rightarrow> bool \<Rightarrow> u32 \<Rightarrow> u32 \<Rightarrow> u8 \<Rightarrow> kernel \<Rightarrow> nat option \<times> kernel" where
  "rt_mq_create obj pool msg_size max_msgs flag s =
     (if int_nest s \<noteq> 0 then (None, fail s)
      else case obj of
        None \<Rightarrow> (None, s)
      | Some n \<Rightarrow>
          let s1 = rt_ipc_object_init (MqL n) s;
              msz = ucast (align4 msg_size) :: u16
          in if \<not> pool then
               (None, snd (rt_mq_delete n (upd_mq n (\<lambda>x. x\<lparr>mq_type := RT_Object_Class_MessageQueue,
                  mq_flag := flag, mq_msg_size := msz, mq_max_msgs := ucast max_msgs\<rparr>) s1)))
             else (Some n, upd_mq n (mq_setup RT_Object_Class_MessageQueue flag msz (ucast max_msgs)) s1))"

text \<open>
  \<^verbatim>\<open>rt_mq_send\<close> and \<^verbatim>\<open>rt_mq_urgent\<close>; \<open>sz\<close> bytes of \<open>buffer\<close> are copied over the first bytes of the slot.
  The code takes the free slot and links it in two critical sections; they are one step here.
\<close>

definition fill_slot :: "u8 list \<Rightarrow> u32 \<Rightarrow> u8 list \<Rightarrow> u8 list" where
  "fill_slot buffer sz old = blit old 0 (take (unat sz) buffer)"

definition mq_post :: "(rt_messagequeue \<Rightarrow> rt_messagequeue option) \<Rightarrow> nat \<Rightarrow> u32 \<Rightarrow> kernel \<Rightarrow> int \<times> kernel" where
  "mq_post put n sz s =
     (if \<not> is_mq n s then (-RT_ERROR, fail s)
      else if sz = 0 then (-RT_ERROR, fail s)
      else if ucast (mq_msg_size (mqs s n)) < sz then (-RT_ERROR, s)
      else case put (mqs s n) of
        None \<Rightarrow> (-RT_EFULL, s)
      | Some mq \<Rightarrow> (RT_EOK, wake_first (MqL n) (upd_mq n (\<lambda>_. mq) s)))"

definition rt_mq_send :: "nat \<Rightarrow> u8 list \<Rightarrow> u32 \<Rightarrow> kernel \<Rightarrow> int \<times> kernel" where
  "rt_mq_send n buffer sz s = mq_post (mq_enqueue (fill_slot buffer sz)) n sz s"

definition rt_mq_urgent :: "nat \<Rightarrow> u8 list \<Rightarrow> u32 \<Rightarrow> kernel \<Rightarrow> int \<times> kernel" where
  "rt_mq_urgent n buffer sz s = mq_post (mq_push_front (fill_slot buffer sz)) n sz s"

text \<open>One round of the loop of \<^verbatim>\<open>rt_mq_recv\<close>; the second component is what is copied to \<open>buffer\<close>.\<close>

definition mq_recv_again :: "nat \<Rightarrow> u32 \<Rightarrow> u32 \<Rightarrow> kernel \<Rightarrow> outcome \<times> u8 list option \<times> kernel" where
  "mq_recv_again n sz timeout s =
     (if mq_entry (mqs s n) = 0 then
        (case rt_thread_self s of
           None \<Rightarrow> (Ret (-RT_ERROR), None, fail s)
         | Some t \<Rightarrow>
             if \<not> in_thread_context s then (Ret (-RT_ERROR), None, fail s)
             else
               let s1 = upd_thr t (\<lambda>th. th\<lparr>t_error := RT_EOK\<rparr>) s
               in if timeout = 0 then
                    (Ret (-RT_ETIMEOUT), None, upd_thr t (\<lambda>th. th\<lparr>t_error := -RT_ETIMEOUT\<rparr>) s1)
                  else (Blocked, None, block_on (MqL n) t (mq_flag (mqs s1 n)) timeout s1))
      else case mq_dequeue (mqs s n) of
        None \<Rightarrow> (Ret (-RT_ERROR), None, fail s)
      | Some (msg, mq) \<Rightarrow>
          (Ret RT_EOK,
           Some (take (unat (if ucast (mq_msg_size (mqs s n)) < sz then ucast (mq_msg_size (mqs s n)) else sz)) msg),
           upd_mq n (\<lambda>_. mq) s))"

definition rt_mq_recv :: "nat \<Rightarrow> u32 \<Rightarrow> u32 \<Rightarrow> kernel \<Rightarrow> outcome \<times> u8 list option \<times> kernel" where
  "rt_mq_recv n sz timeout s =
     (if \<not> is_mq n s then (Ret (-RT_ERROR), None, fail s)
      else if sz = 0 then (Ret (-RT_ERROR), None, fail s)
      else if mq_entry (mqs s n) = 0 \<and> timeout = 0 then (Ret (-RT_ETIMEOUT), None, s)
      else mq_recv_again n sz timeout s)"

definition rt_mq_control :: "nat \<Rightarrow> nat \<Rightarrow> kernel \<Rightarrow> int \<times> kernel" where
  "rt_mq_control n cmd s =
     (if \<not> is_mq n s then (-RT_ERROR, fail s)
      else if cmd = 1 then
        let s1 = rt_ipc_list_resume_all (MqL n) s
        in (case mq_drain (unat (mq_max_msgs (mqs s1 n))) (mqs s1 n) of
              None \<Rightarrow> (-RT_ERROR, fail s1)
            | Some mq \<Rightarrow> (RT_EOK, rt_schedule (upd_mq n (\<lambda>_. mq\<lparr>mq_entry := 0\<rparr>) s1)))
      else (-RT_ERROR, s))"

section \<open>Correctness of the operations\<close>

lemma upd_mq_sel [kframe]:
  "lists (upd_mq n f s) = lists s" "ready_group (upd_mq n f s) = ready_group s"
  "timers (upd_mq n f s) = timers s" "timer_list (upd_mq n f s) = timer_list s"
  "cur (upd_mq n f s) = cur s" "thr (upd_mq n f s) = thr s" "statm (upd_mq n f s) = statm s"
  "prio (upd_mq n f s) = prio s" "thread_ok (upd_mq n f s) = thread_ok s"
  "lock_nest (upd_mq n f s) = lock_nest s" "stuck (upd_mq n f s) = stuck s"
  "tick (upd_mq n f s) = tick s" "mqs (upd_mq n f s) = (mqs s)(n := f (mqs s n))"
  "awake (upd_mq n f s) = awake s"
  by (simp_all add: upd_mq_def statm_def prio_def thread_ok_def awake_def fun_eq_iff)

lemma kinv_upd_mq [simp]: "kinv (upd_mq n f s) = kinv s"
  by (rule kinv_frame) (simp_all add: kframe)

lemma mq_setup_inv:
  "mq_inv (mq_setup ty flag msz maxm mq)" "mq_list (mq_setup ty flag msz maxm mq) = []"
  by (simp_all add: mq_setup_def mq_reset_queue_inv)

text \<open>
  A message that fits is queued behind the others (\<open>send\<close>) or before them (\<open>urgent\<close>), the first waiting
  receiver wakes; when no slot is free the call fails and changes nothing.
\<close>

lemma mq_wake:
  fixes n :: nat and mq :: rt_messagequeue
  assumes "kinv s" "cur s = Some c"
  defines "s' \<equiv> wake_first (MqL n) (upd_mq n (\<lambda>_. mq) s)"
  shows "kinv s'" "mqs s' n = mq" "lists s' (MqL n) = tl (lists s (MqL n))"
    "lists s (MqL n) \<noteq> [] \<Longrightarrow> awake s' (hd (lists s (MqL n)))" "stuck s' = stuck s"
proof -
  have k: "kinv (upd_mq n (\<lambda>_. mq) s)" and c: "cur (upd_mq n (\<lambda>_. mq) s) = Some c"
    using assms(1,2) by (simp_all add: kframe)
  note w = wake_first_effect[OF k c, of "MqL n", simplified, folded s'_def]
  show "kinv s'" "mqs s' n = mq" "lists s' (MqL n) = tl (lists s (MqL n))"
    "lists s (MqL n) \<noteq> [] \<Longrightarrow> awake s' (hd (lists s (MqL n)))" "stuck s' = stuck s"
    using w(1,3,5,8,9) by (simp_all add: kframe)
qed

lemma mq_list_fill:
  assumes "mq_rep mq q (m # f)" "mq_data mq' = (mq_data mq)(m := x)"
  shows "map (mq_data mq') q = mq_list mq" "mq_data mq' m = x"
proof -
  have "m \<notin> set q" using assms(1) by (auto simp: mq_rep_def)
  then show "map (mq_data mq') q = mq_list mq"
    using mq_repD(1)[OF assms(1)] assms(2) by (simp add: mq_list_def)
  show "mq_data mq' m = x" using assms(2) by simp
qed

lemma mq_send_effect:
  assumes "kinv s" "cur s = Some c" "is_mq n s" "mq_inv (mqs s n)" "sz \<noteq> 0"
    "unat sz \<le> unat (mq_msg_size (mqs s n))"
    "length (mq_list (mqs s n)) < unat (mq_max_msgs (mqs s n))"
  shows "\<exists>s' old. rt_mq_send n buf sz s = (RT_EOK, s') \<and> kinv s' \<and> mq_inv (mqs s' n) \<and>
    mq_list (mqs s' n) = mq_list (mqs s n) @ [fill_slot buf sz old] \<and>
    old \<in> range (mq_data (mqs s n)) \<and>
    lists s' (MqL n) = tl (lists s (MqL n)) \<and>
    (lists s (MqL n) \<noteq> [] \<longrightarrow> awake s' (hd (lists s (MqL n)))) \<and> stuck s' = stuck s \<and>
    is_mq n s' \<and> mq_msg_size (mqs s' n) = mq_msg_size (mqs s n)"
    (is ?send)
    and "\<exists>s' old. rt_mq_urgent n buf sz s = (RT_EOK, s') \<and> kinv s' \<and> mq_inv (mqs s' n) \<and>
    mq_list (mqs s' n) = fill_slot buf sz old # mq_list (mqs s n) \<and>
    old \<in> range (mq_data (mqs s n)) \<and>
    lists s' (MqL n) = tl (lists s (MqL n)) \<and>
    (lists s (MqL n) \<noteq> [] \<longrightarrow> awake s' (hd (lists s (MqL n)))) \<and> stuck s' = stuck s \<and>
    is_mq n s' \<and> mq_msg_size (mqs s' n) = mq_msg_size (mqs s n)"
    (is ?urgent)
proof -
  let ?mq = "mqs s n"
  obtain f where rep: "mq_rep ?mq (mq_slots ?mq) f" using assms(4) by (auto simp: mq_inv_def)
  have "f \<noteq> []" using mq_repD(3)[OF rep] assms(7) by (auto simp: mq_list_def)
  then obtain m f' where f: "f = m # f'" by (cases f) auto
  note rep' = rep[unfolded f]
  have fits: "\<not> ucast (mq_msg_size ?mq) < sz" using assms(6) by (simp add: word_less_nat_alt unat_ucast_16_32)
  have old: "mq_data ?mq m \<in> range (mq_data ?mq)" by simp
  show ?send
  proof -
    obtain mq' where e: "mq_enqueue (fill_slot buf sz) ?mq = Some mq'" "mq_rep mq' (mq_slots ?mq @ [m]) f'"
      "mq_data mq' = (mq_data ?mq)(m := fill_slot buf sz (mq_data ?mq m))"
      "mq_type mq' = mq_type ?mq" "mq_msg_size mq' = mq_msg_size ?mq"
      using mq_enqueue_rep[OF rep', of "fill_slot buf sz"] by auto
    have "rt_mq_send n buf sz s = (RT_EOK, wake_first (MqL n) (upd_mq n (\<lambda>_. mq') s))"
      using assms(3,5) fits e(1) by (simp add: rt_mq_send_def mq_post_def)
    moreover have "mq_list mq' = mq_list ?mq @ [fill_slot buf sz (mq_data ?mq m)]"
      using mq_repD(1)[OF e(2)] mq_list_fill[OF rep' e(3)] by (simp add: mq_list_def)
    moreover note mq_wake[OF assms(1,2), of n mq'] mq_repD(2)[OF e(2)]
    ultimately show ?thesis using old e(4,5) assms(3)
      by (intro exI[of _ "wake_first (MqL n) (upd_mq n (\<lambda>_. mq') s)"] exI[of _ "mq_data ?mq m"]) (simp add: is_mq_def)
  qed
  show ?urgent
  proof -
    obtain mq' where e: "mq_push_front (fill_slot buf sz) ?mq = Some mq'" "mq_rep mq' (m # mq_slots ?mq) f'"
      "mq_data mq' = (mq_data ?mq)(m := fill_slot buf sz (mq_data ?mq m))"
      "mq_type mq' = mq_type ?mq" "mq_msg_size mq' = mq_msg_size ?mq"
      using mq_push_front_rep[OF rep', of "fill_slot buf sz"] by auto
    have "rt_mq_urgent n buf sz s = (RT_EOK, wake_first (MqL n) (upd_mq n (\<lambda>_. mq') s))"
      using assms(3,5) fits e(1) by (simp add: rt_mq_urgent_def mq_post_def)
    moreover have "mq_list mq' = fill_slot buf sz (mq_data ?mq m) # mq_list ?mq"
      using mq_repD(1)[OF e(2)] mq_list_fill[OF rep' e(3)] by (simp add: mq_list_def)
    moreover note mq_wake[OF assms(1,2), of n mq'] mq_repD(2)[OF e(2)]
    ultimately show ?thesis using old e(4,5) assms(3)
      by (intro exI[of _ "wake_first (MqL n) (upd_mq n (\<lambda>_. mq') s)"] exI[of _ "mq_data ?mq m"]) (simp add: is_mq_def)
  qed
qed

lemma mq_send_full:
  assumes "is_mq n s" "mq_inv (mqs s n)" "sz \<noteq> 0" "unat sz \<le> unat (mq_msg_size (mqs s n))"
    "length (mq_list (mqs s n)) = unat (mq_max_msgs (mqs s n))"
  shows "rt_mq_send n buf sz s = (-RT_EFULL, s)" "rt_mq_urgent n buf sz s = (-RT_EFULL, s)"
proof -
  let ?mq = "mqs s n"
  obtain f where rep: "mq_rep ?mq (mq_slots ?mq) f" using assms(2) by (auto simp: mq_inv_def)
  have "f = []" using mq_repD(3)[OF rep] assms(5) by (simp add: mq_list_def)
  then have "mq_free ?mq = None" using mq_full[OF rep] by simp
  moreover have "\<not> ucast (mq_msg_size ?mq) < sz"
    using assms(4) by (simp add: word_less_nat_alt unat_ucast_16_32)
  ultimately show "rt_mq_send n buf sz s = (-RT_EFULL, s)" "rt_mq_urgent n buf sz s = (-RT_EFULL, s)"
    using assms(1,3)
    by (simp_all add: rt_mq_send_def rt_mq_urgent_def mq_post_def mq_enqueue_def mq_push_front_def)
qed

lemma mq_recv_effect:
  assumes "kinv s" "is_mq n s" "mq_inv (mqs s n)" "sz \<noteq> 0" "mq_list (mqs s n) = x # xs"
  shows "\<exists>s'. rt_mq_recv n sz timeout s = (Ret RT_EOK,
      Some (take (min (unat sz) (unat (mq_msg_size (mqs s n)))) x), s') \<and> kinv s' \<and>
    mq_inv (mqs s' n) \<and> mq_list (mqs s' n) = xs \<and> lists s' = lists s"
proof -
  let ?mq = "mqs s n"
  obtain mq' where d: "mq_dequeue ?mq = Some (x, mq')" "mq_inv mq'" "mq_list mq' = xs"
    using mq.get_some[OF assms(3,5)] by auto
  have ne: "mq_entry ?mq \<noteq> 0" using length_mq_list[OF assms(3)] assms(5) by auto
  have m: "unat (if ucast (mq_msg_size ?mq) < sz then ucast (mq_msg_size ?mq) else sz) =
      min (unat sz) (unat (mq_msg_size ?mq))"
    by (simp add: min_def word_less_nat_alt unat_ucast_16_32)
  show ?thesis
    unfolding rt_mq_recv_def mq_recv_again_def
    using assms(1,2,4) ne d by (simp add: m kframe)
qed

end
