(* ===== verification/Kworld.thy ===== *)
theory Kworld
  imports Kstep Event Mailbox MsgQueue
begin

text \<open>
  The kernel as a state machine, continued: the calls of mutexes, events, mailboxes and message queues join
  those of \<open>Kstep\<close>. \<open>wsys\<close> is the invariant of the reachable states: \<open>ksys\<close>, and every mutex, mailbox and
  message queue is consistent. A call that blocks and what its thread does after it was woken are two steps.
\<close>

section \<open>The invariant of the objects\<close>

definition objects_ok :: "kernel \<Rightarrow> bool" where
  "objects_ok s \<longleftrightarrow> (\<forall>n. is_mutex n s \<longrightarrow> mutex_inv n s) \<and> (\<forall>n. is_mb n s \<longrightarrow> mb_inv (mboxes s n)) \<and>
     (\<forall>n. is_mq n s \<longrightarrow> mq_inv (mqs s n))"

definition wsys :: "kernel \<Rightarrow> bool" where "wsys s \<longleftrightarrow> ksys s \<and> objects_ok s"

text \<open>The objects stay as they are, and waiting lists of mutexes at most lose members.\<close>

definition still :: "kernel \<Rightarrow> kernel \<Rightarrow> bool" where
  "still s s' \<longleftrightarrow> mutexes s' = mutexes s \<and> mboxes s' = mboxes s \<and> mqs s' = mqs s \<and>
     (\<forall>n. set (lists s' (MutexL n)) \<subseteq> set (lists s (MutexL n)))"

lemma still_refl [simp]: "still s s"
  by (simp add: still_def)

lemma still_trans [trans]: "still s s1 \<Longrightarrow> still s1 s2 \<Longrightarrow> still s s2"
  by (auto simp: still_def subset_iff)

lemma still_lists:
  "mutexes s' = mutexes s \<Longrightarrow> mboxes s' = mboxes s \<Longrightarrow> mqs s' = mqs s \<Longrightarrow>
   (\<And>n. lists s' (MutexL n) = lists s (MutexL n)) \<Longrightarrow> still s s'"
  by (simp add: still_def)

lemma objects_ok_still:
  assumes "objects_ok s" "still s s'"
  shows "objects_ok s'"
proof -
  have eq: "mutexes s' = mutexes s" "mboxes s' = mboxes s" "mqs s' = mqs s" using assms(2) by (simp_all add: still_def)
  have "mutex_inv n s'" if "is_mutex n s'" for n
  proof -
    have "mutex_inv n s" using that assms(1) eq by (simp add: objects_ok_def is_mutex_def)
    moreover have "set (lists s' (MutexL n)) \<subseteq> set (lists s (MutexL n))" using assms(2) by (simp add: still_def)
    moreover from this have "lists s (MutexL n) = [] \<Longrightarrow> lists s' (MutexL n) = []" by simp
    ultimately show ?thesis using eq that by (auto simp: mutex_inv_def split: option.splits)
  qed
  then show ?thesis using assms(1) eq by (simp add: objects_ok_def is_mb_def is_mq_def)
qed

section \<open>The calls of the first part leave the objects alone\<close>

lemma still_rt_schedule: "kinv s \<Longrightarrow> cur s = Some c \<Longrightarrow> still s (rt_schedule s)"
  by (rule still_lists) (simp_all add: kframe rt_schedule_others(3))

lemma still_ksys_schedule: "ksys s \<Longrightarrow> still s (rt_schedule s)"
  using still_rt_schedule by (auto simp: ksys_def)

lemma timer_keeps [kframe]:
  "mutexes (snd (rt_timer_stop i s)) = mutexes s" "mboxes (snd (rt_timer_stop i s)) = mboxes s"
  "mqs (snd (rt_timer_stop i s)) = mqs s"
  "mutexes (start_thread_timer t time s) = mutexes s" "mboxes (start_thread_timer t time s) = mboxes s"
  "mqs (start_thread_timer t time s) = mqs s"
  "mutexes (rt_timer_detach i s) = mutexes s" "mboxes (rt_timer_detach i s) = mboxes s"
  "mqs (rt_timer_detach i s) = mqs s" "lists (rt_timer_detach i s) = lists s"
  by (simp_all add: rt_timer_stop_def rt_timer_detach_def start_thread_timer_def rt_timer_start_def rt_timer_control_def
      timer_unlink_def upd_timer_def fail_def Let_def)

lemma still_suspend: "still s (snd (rt_thread_suspend t s))"
  by (auto simp: still_def rt_thread_suspend_def Let_def kframe)

lemma still_resume: "kinv s \<Longrightarrow> still s (snd (rt_thread_resume t s))"
proof (cases "statm s t = RT_THREAD_SUSPEND")
  case False
  then show ?thesis by (auto simp: still_def rt_thread_resume_def kframe)
next
  case True
  assume "kinv s"
  note r = resume_effect[OF this True]
  from r(4)[of "MutexL _"] show ?thesis by (auto simp: still_def r(11,13,16))
qed

lemma still_upd_thr: "still s (upd_thr t f s)"
  by (simp add: still_def upd_thr_def)

lemma still_startup:
  assumes "ksys s" "startable s t"
  shows "still s (snd (rt_thread_startup t s))"
proof -
  note st = started_kinv[OF ksysD(1)[OF assms(1)] assms(2)]
  have "still s (started t s)" by (simp add: started_def still_upd_thr)
  also have "still (started t s) (snd (rt_thread_resume t (started t s)))" by (rule still_resume[OF st(1)])
  also have "still \<dots> (snd (rt_thread_startup t s))"
    using still_rt_schedule[OF resume_effect(1)[OF st(1,2)]]
    by (auto simp: rt_thread_startup_unfold[OF assms(2)] Let_def)
  finally show ?thesis .
qed

lemma still_priority:
  assumes "ksys s" "is_thread s t" "p < 32"
  shows "still s (snd (rt_thread_control t 2 p s))"
proof -
  note e = control_priority_effect[OF ksysD(1)[OF assms(1)] assms(2,3)]
  have "mboxes (snd (rt_thread_control t 2 p s)) = mboxes s" "mqs (snd (rt_thread_control t 2 p s)) = mqs s"
    by (simp_all add: rt_thread_control_def kframe)
  with e show ?thesis by (intro still_lists) simp_all
qed

lemma still_sleep:
  fixes time :: u32
  assumes "ksys s" "running s c" "time < 2147483647"
  shows "still s (rt_thread_sleep time s)"
proof -
  note d = ksysD[OF assms(1)]
  have c: "cur s = Some c" and r: "statm s c = RT_THREAD_RUNNING" using assms(2) by (simp_all add: running_def)
  have ok: "thread_ok s c" using kbaseD(7)[OF kinv_partsD(1)[OF d(1)]] r by (simp add: live_def)
  let ?z = "snd (rt_thread_suspend c s)"
  let ?t = "start_thread_timer c time ?z"
  have z: "ksys ?z" by (rule ksys_suspend[OF assms(1)]) (use ok c in \<open>simp_all add: is_thread_def thread_ok_def\<close>)
  have k: "kinv ?t" by (rule kinv_start_thread_timer[OF ksysD(1)[OF z]]) (simp add: suspend_running(2)[OF d(1) c r])
  have "still s ?z" by (rule still_suspend)
  also have "still ?z ?t" by (rule still_lists) (simp_all add: kframe)
  also have "still ?t (rt_schedule ?t)" by (rule still_rt_schedule[OF k, of c]) (use c in \<open>simp add: kframe\<close>)
  finally show ?thesis using c ok by (simp add: rt_thread_sleep_def rt_thread_self_def thread_ok_def)
qed

lemma still_block:
  assumes "kinv s" "cur s = Some c" "statm s c = RT_THREAD_RUNNING" "wait_list l" "\<And>n. l \<noteq> MutexL n"
  shows "still s (block_on l c flag time s)"
  using block_on_effect[OF assms(1-4)] not_sym[OF assms(5)] by (intro still_lists) simp_all

lemma still_list_resume: "kinv s \<Longrightarrow> wait_list l \<Longrightarrow> still s (rt_ipc_list_resume l s)"
proof (cases "lists s l")
  case Nil
  then show ?thesis by (simp add: rt_ipc_list_resume_def still_def kframe)
next
  case (Cons t q)
  moreover assume "kinv s"
  ultimately show ?thesis using still_resume[of s t] by (simp add: rt_ipc_list_resume_def)
qed

lemma still_exit:
  assumes "ksys s" "running s c"
  shows "still s (rt_thread_exit s)"
proof -
  note d = ksysD[OF assms(1)]
  have c: "cur s = Some c" and r: "statm s c = RT_THREAD_RUNNING" using assms(2) by (simp_all add: running_def)
  let ?z = "rt_schedule_remove_thread c s"
  let ?t = "thread_retire c ?z"
  have "still s ?t" by (auto simp: still_def thread_retire_def Let_def kframe list_insert_after_def)
  also have "still ?t (rt_schedule ?t)"
  proof (rule still_rt_schedule)
    show "kinv ?t" using kinv_retire[OF kbase_gone[OF d(1), of c]] r by (simp add: live_def)
    show "cur ?t = Some c" using c by (simp add: thread_retire_cur kframe)
  qed
  finally show ?thesis using c by (simp add: rt_thread_exit_def rt_thread_self_def)
qed

lemma still_tick:
  assumes "ksys s" "rt_tick_increase tf fuel s = Some s'" "length (timer_list s) < fuel"
  shows "still s s'"
proof -
  note d = ksysD[OF assms(1)]
  obtain c where c: "cur s = Some c" using assms(1) by (auto simp: ksys_def)
  obtain s2 where s2: "rt_tick_increase tf fuel s = Some s2" "ipc_same s s2"
    "\<And>l. wait_list l \<Longrightarrow> set (lists s2 l) \<subseteq> set (lists s l)"
    using tick_increase_threads[OF d(1) c d(5) assms(3) d(6), of tf] by (auto simp: subset_iff)
  with assms(2) show ?thesis by (simp add: still_def ipc_same_def)
qed

lemma still_lock_nest [simp]: "still s (s\<lparr>lock_nest := n\<rparr>)"
  by (simp add: still_def)

lemma still_critical:
  assumes "ksys s"
  shows "still s (rt_enter_critical s)" "still s (rt_exit_critical s)"
proof -
  show "still s (rt_enter_critical s)" by (simp add: rt_enter_critical_def)
  have "still (s\<lparr>lock_nest := 0\<rparr>) (rt_schedule (s\<lparr>lock_nest := 0\<rparr>))"
    by (rule still_ksys_schedule) (simp add: ksys_lock_nest assms)
  then have "still s (rt_schedule (s\<lparr>lock_nest := 0\<rparr>))" using still_trans[OF still_lock_nest] by blast
  then show "still s (rt_exit_critical s)" by (simp add: rt_exit_critical_def Let_def)
qed

lemma sem_keeps [kframe]:
  "mutexes (upd_sem n f s) = mutexes s" "mboxes (upd_sem n f s) = mboxes s" "mqs (upd_sem n f s) = mqs s"
  by (simp_all add: upd_sem_def)

lemma still_upd_sem [simp]: "still s (upd_sem n f s)"
  by (simp add: still_def kframe)

lemma still_sem_take:
  fixes time :: u32
  assumes "ksys s" "running s c" "int_nest s = 0" "is_sem n s"
  shows "still s (snd (rt_sem_take n time s))"
proof -
  have c: "cur s = Some c" and r: "statm s c = RT_THREAD_RUNNING" using assms(2) by (simp_all add: running_def)
  let ?e = "upd_thr c (\<lambda>th. th\<lparr>t_error := RT_EOK\<rparr>) s"
  have e: "ksys ?e" using assms(1) by (simp add: ksys_upd_error)
  have "still s ?e" by (rule still_upd_thr)
  also have "still ?e (block_on (SemL n) c (s_flag (sems s n)) time ?e)"
    by (rule still_block[OF ksysD(1)[OF e]]) (use c r in \<open>simp_all add: kframe\<close>)
  finally show ?thesis using c assms(3,4) by (simp add: rt_sem_take_def rt_thread_self_def in_thread_context_def)
qed

lemma still_resume_schedule:
  assumes "ksys s" "wait_list l" "lists s l \<noteq> []"
  shows "still s (rt_schedule (rt_ipc_list_resume l s))"
  using still_trans[OF still_list_resume[OF ksysD(1)[OF assms(1)] assms(2)]
    still_ksys_schedule[OF ksys_list_resume[OF assms]]] .

lemma still_sem_release: "ksys s \<Longrightarrow> is_sem n s \<Longrightarrow> still s (snd (rt_sem_release n s))"
  using still_resume_schedule[of s "SemL n"] by (simp add: rt_sem_release_def)

lemma still_sem_reset:
  assumes "ksys s" "is_sem n s"
  shows "still s (snd (rt_sem_control n 1 v s))"
proof -
  let ?a = "rt_ipc_list_resume_all (SemL n) s"
  let ?b = "upd_sem n (\<lambda>x. x\<lparr>s_value := ucast v\<rparr>) ?a"
  note a = resume_all_effect[OF ksysD(1)[OF assms(1)], of "SemL n", simplified, unfolded all_resumed_def]
  obtain c where c: "cur s = Some c" using assms(1) by (auto simp: ksys_def)
  have "still s ?b" using a by (intro still_lists) (simp_all add: kframe)
  also have "still ?b (rt_schedule ?b)" by (rule still_rt_schedule[of _ c]) (use a c in \<open>simp_all add: kframe\<close>)
  finally show ?thesis using assms(2) unfolding rt_sem_control_def by simp
qed

lemma kstep_still:
  assumes "kstep tf s s'" "ksys s"
  shows "still s s'"
  using assms(1)
proof (cases rule: kstep.cases)
  case (tick fuel)
  with assms(2) still_tick show ?thesis by blast
next
  case yield
  with still_ksys_schedule[OF assms(2)] show ?thesis by (simp add: rt_thread_yield_def)
next
  case (woken t)
  then show ?thesis by (auto simp: rt_thread_sleep_return_def still_upd_thr)
next
  case (sem_reset n v)
  from sem_reset(1) still_sem_reset[OF assms(2) sem_reset(2)] show ?thesis by simp
qed (use assms(2) still_sleep still_suspend still_resume[OF ksysD(1)] still_startup still_priority still_exit
    still_critical still_sem_take still_sem_release in \<open>auto\<close>)

section \<open>The new calls keep the first part\<close>

lemma ksys_upd_objects [simp]:
  "ksys (upd_mutex n f s) = ksys s" "ksys (upd_mb n g s) = ksys s" "ksys (upd_mq n h s) = ksys s" "ksys (upd_event n e s) = ksys s"
proof -
  have t: "tm_ok (upd_mutex n f s) = tm_ok s" "tm_ok (upd_mb n g s) = tm_ok s" "tm_ok (upd_mq n h s) = tm_ok s"
    "tm_ok (upd_event n e s) = tm_ok s" by (rule tm_ok_frame; simp add: kframe)+
  moreover have "sems (upd_mutex n f s) = sems s" "sems (upd_mb n g s) = sems s" "sems (upd_mq n h s) = sems s"
    "sems (upd_event n e s) = sems s" by (simp_all add: upd_mutex_def upd_mb_def upd_mq_def upd_event_def)
  ultimately show "ksys (upd_mutex n f s) = ksys s" "ksys (upd_mb n g s) = ksys s" "ksys (upd_mq n h s) = ksys s"
    "ksys (upd_event n e s) = ksys s" by (simp_all add: ksys_def sems_ok_def sem_inv_def is_sem_def kframe)
qed

lemma ksys_upd_thr: "neutral f \<Longrightarrow> ksys (upd_thr t f s) = ksys s"
  by (simp add: ksys_def kinv_upd_thr kframe sems_ok_def sem_inv_def is_sem_def)

lemma running_upd_error [simp]: "running (upd_thr t (\<lambda>th. th\<lparr>t_error := e\<rparr>) s) c = running s c"
  by (simp add: running_def kframe)

lemma ksys_block:
  fixes time :: u32
  assumes "ksys s" "running s c" "wait_list l" "\<And>m. l \<noteq> SemL m" "sint time < 2147483647"
  shows "ksys (block_on l c flag time s)"
proof -
  note d = ksysD[OF assms(1)]
  have c: "cur s = Some c" and r: "statm s c = RT_THREAD_RUNNING" using assms(2) by (simp_all add: running_def)
  note b = block_on_effect[OF d(1) c r assms(3), where flag = flag and time = time]
  have "sems_ok (block_on l c flag time s)"
    by (rule sems_ok_shrink[OF d(3) b(11)]) (use b(4) not_sym[OF assms(4)] in simp)
  then show ?thesis using b(1,2,16) tm_ok_block[OF d(1) c r assms(3) d(2) assms(5)] assms(5) d(4) by (simp add: ksys_def)
qed

lemma ksys_wake: "ksys s \<Longrightarrow> wait_list l \<Longrightarrow> lists s l \<noteq> [] \<Longrightarrow> ksys (rt_schedule (rt_ipc_list_resume l s))"
  using ksys_list_resume[of s l] ksys_rt_schedule by (simp add: ksys_def)

lemma ksys_still_schedule: "ksys s \<Longrightarrow> ksys (rt_schedule s)"
  using ksys_rt_schedule by (simp add: ksys_def)

section \<open>Mutexes\<close>

lemma objects_ok_mutex:
  assumes "objects_ok s" "mboxes s' = mboxes s" "mqs s' = mqs s" "mutex_inv n s'"
    "\<And>m. m \<noteq> n \<Longrightarrow> mutexes s' m = mutexes s m \<and> lists s' (MutexL m) = lists s (MutexL m)"
  shows "objects_ok s'"
proof -
  have "mutex_inv m s'" if "is_mutex m s'" for m
  proof (cases "m = n")
    case False
    have "is_mutex m s" using that assms(5)[OF False] by (simp add: is_mutex_def)
    then have "mutex_inv m s" using assms(1) by (simp add: objects_ok_def)
    then show ?thesis using assms(5)[OF False] by (simp add: mutex_inv_def is_mutex_def split: option.splits)
  qed (use assms(4) in simp)
  then show ?thesis using assms(1-3) by (simp add: objects_ok_def is_mb_def is_mq_def)
qed

lemma mutex_keeps [kframe]:
  "mboxes (upd_mutex n f s) = mboxes s" "mqs (upd_mutex n f s) = mqs s"
  by (simp_all add: upd_mutex_def)

lemma inherit_still:
  assumes "ksys s" "can_inherit c w s" "live (statm s c)"
  shows "ksys (inherit c w s)" "still s (inherit c w s)" "cur (inherit c w s) = cur s" "statm (inherit c w s) u = statm s u"
    "lists (inherit c w s) (MutexL n) = lists s (MutexL n)"
proof -
  have "prio s c < 32" using assms(3) kbaseD(7)[OF kinv_partsD(1)[OF ksysD(1)[OF assms(1)]]] by (simp add: thread_ok_def)
  then have p: "t_current_priority (thr s c) < 32" by (simp add: prio_lt_word)
  show "ksys (inherit c w s)" "still s (inherit c w s)"
    using ksys_priority[OF assms(1) _ p, of w] still_priority[OF assms(1) _ p, of w] assms(1,2) by (simp_all add: inherit_def can_inherit_def)
  note i = inherit_effect[OF ksysD(1)[OF assms(1)] assms(2,3)]
  show "cur (inherit c w s) = cur s" "statm (inherit c w s) u = statm s u" by (rule i)+
  show "lists (inherit c w s) (MutexL n) = lists s (MutexL n)" by (rule i(3)) simp
qed

lemma wsys_mutex_take:
  fixes time :: u32
  assumes "wsys s" "running s c" "int_nest s = 0" "is_mutex n s" "mutex_usable c n time s" "sint time < 2147483647"
  shows "wsys (snd (rt_mutex_take n time s))"
proof -
  have k: "ksys s" and o: "objects_ok s" using assms(1) by (simp_all add: wsys_def)
  note d = ksysD[OF k]
  have c: "cur s = Some c" and r: "statm s c = RT_THREAD_RUNNING" using assms(2) by (simp_all add: running_def)
  have inv: "mutex_inv n s" using o assms(4) by (simp add: objects_ok_def)
  let ?e = "upd_thr c (\<lambda>th. th\<lparr>t_error := RT_EOK\<rparr>) s"
  have e: "ksys ?e" "running ?e c" using k assms(2) by (simp_all add: ksys_upd_error)
  have oe: "objects_ok ?e" by (rule objects_ok_still[OF o still_upd_thr])
  note now = mutex_take_now[OF c assms(3,4), of time]
  let ?s = "snd (rt_mutex_take n time s)"
  consider (own) "m_owner (mutexes s n) = Some c" | (free) "m_owner (mutexes s n) = None"
    | (attempt) w where "m_owner (mutexes s n) = Some w" "w \<noteq> c" "time = 0"
    | (wait) w where "m_owner (mutexes s n) = Some w" "w \<noteq> c" "time \<noteq> 0"
    by (cases "m_owner (mutexes s n)") auto
  then show ?thesis
  proof cases
    case own
    note t = mutex_take_recursive[OF d(1) c assms(3) inv own, of time]
    have s: "?s = upd_mutex n (\<lambda>x. x\<lparr>m_hold := m_hold x + 1\<rparr>) ?e" using now(1)[OF own] by simp
    have "objects_ok ?s"
    proof (rule objects_ok_mutex[OF o])
      show "mutex_inv n ?s" by (rule t(3)) (use assms(5) own in \<open>simp add: mutex_usable_def\<close>)
    qed (simp_all add: s kframe upd_thr_def)
    then show ?thesis using now(1)[OF own] e by (simp add: wsys_def)
  next
    case free
    note t = mutex_take_free[OF d(1) c r assms(3) inv free, of time]
    have s: "?s = upd_mutex n (\<lambda>x. x\<lparr>m_value := m_value x - 1, m_owner := Some c,
        m_original_priority := t_current_priority (thr ?e c), m_hold := m_hold x + 1\<rparr>) ?e"
      using now(2) free inv by (simp add: mutex_again_def mutex_inv_def kframe upd_thr_def)
    have "objects_ok ?s"
    proof (rule objects_ok_mutex[OF o])
      show "mutex_inv n ?s" by (rule t(3))
    qed (simp_all add: s kframe upd_thr_def)
    then show ?thesis using e by (simp add: wsys_def s)
  next
    case (attempt w)
    then show ?thesis using mutex_take_owned_try[OF d(1) c assms(3) inv attempt(1,2)] k objects_ok_still[OF o still_upd_thr]
      by (simp add: wsys_def ksys_upd_error)
  next
    case (wait w)
    have lw: "can_inherit c w ?e" "live (statm ?e c)" using assms(5) wait r
      by (auto simp: mutex_usable_def kframe live_def can_inherit_def is_thread_def) (simp_all add: upd_thr_def)
    note t = mutex_take_blocks[OF d(1) c r assms(3) inv wait(1,2) _ wait(3)]
    note i = inherit_still[OF e(1) lw]
    have s: "?s = block_on (MutexL n) c (m_flag (mutexes (inherit c w ?e) n)) time (inherit c w ?e)"
      using now(2) wait inv by (simp add: mutex_again_def mutex_inv_def kframe upd_thr_def inherit_def Let_def)
    have ri: "running (inherit c w ?e) c" using e(2) i(3,4) by (simp add: running_def)
    note b = block_on_effect[OF ksysD(1)[OF i(1)] ri[unfolded running_def, THEN conjunct1] ri[unfolded running_def, THEN conjunct2],
      where l = "MutexL n" and flag = "m_flag (mutexes (inherit c w ?e) n)" and time = time, simplified]
    have "ksys ?s" unfolding s by (rule ksys_block[OF i(1) ri]) (use assms(6) in simp_all)
    moreover have "objects_ok ?s"
    proof (rule objects_ok_mutex[OF o])
      show "mutex_inv n ?s" by (rule t(3)) (use assms(5) wait in \<open>simp add: mutex_usable_def\<close>)
    qed (use b i(2,5) in \<open>simp_all add: s still_def kframe upd_thr_def\<close>)
    ultimately show ?thesis by (simp add: wsys_def)
  qed
qed

lemma restore_still:
  assumes "ksys s" "live (statm s c)" "m_original_priority (mutexes s n) < 32"
  shows "ksys (restore_prio n c s)" "still s (restore_prio n c s)"
  using ksys_priority[OF assms(1) _ assms(3), of c] still_priority[OF assms(1) _ assms(3), of c] assms(1)
    live_is_thread[OF ksysD(1)[OF assms(1)] assms(2)] by (simp_all add: restore_prio_def)

lemma wsys_mutex_release:
  assumes "wsys s" "running s c" "int_nest s = 0" "is_mutex n s"
  shows "wsys (snd (rt_mutex_release n s))"
proof -
  have k: "ksys s" and o: "objects_ok s" using assms(1) by (simp_all add: wsys_def)
  note d = ksysD[OF k]
  have c: "cur s = Some c" and r: "statm s c = RT_THREAD_RUNNING" using assms(2) by (simp_all add: running_def)
  have inv: "mutex_inv n s" using o assms(4) by (simp add: objects_ok_def)
  let ?s = "snd (rt_mutex_release n s)"
  show ?thesis
  proof (cases "m_owner (mutexes s n) = Some c")
    case False
    then show ?thesis using mutex_release_not_owner[OF c assms(3,4) False] k objects_ok_still[OF o still_upd_thr]
      by (simp add: wsys_def ksys_upd_error)
  next
    case own: True
    note u = mutex_release_unfold[OF c assms(3,4) own]
    show ?thesis
    proof (cases "m_hold (mutexes s n) = 1")
      case False
      note t = mutex_release_nested[OF d(1) c assms(3) inv own False]
      have "objects_ok ?s"
      proof (rule objects_ok_mutex[OF o])
        show "mutex_inv n ?s" by (rule t(3))
      qed (simp_all add: u False Let_def kframe)
      then show ?thesis using k False by (simp add: wsys_def u Let_def)
    next
      case one: True
      let ?s1 = "upd_mutex n (\<lambda>x. x\<lparr>m_hold := m_hold x - 1\<rparr>) s"
      let ?s2 = "restore_prio n c ?s1"
      note l = mutex_release_last[OF d(1) c r assms(3) inv own one]
      have po: "m_original_priority (mutexes ?s1 n) < 32" using inv own by (simp add: mutex_inv_def kframe)
      have k1: "ksys ?s1" "live (statm ?s1 c)" using k r by (simp_all add: kframe live_def)
      note q = restore_still[OF k1 po]
      have mb: "mboxes ?s2 = mboxes s" "mqs ?s2 = mqs s" using q(2) by (simp_all add: still_def kframe)
      show ?thesis
      proof (cases "lists s (MutexL n)")
        case Nil
        then have s: "?s = upd_mutex n (\<lambda>x. x\<lparr>m_value := m_value x + 1, m_owner := None, m_original_priority := 0xff\<rparr>) ?s2"
          using l(3)[of "MutexL n"] one by (simp add: u Let_def)
        have "objects_ok ?s"
        proof (rule objects_ok_mutex[OF o])
          show "mutex_inv n ?s" by (rule mutex_release_frees(3)[OF d(1) c r assms(3) inv own one Nil])
        qed (use l mb in \<open>simp_all add: s kframe\<close>)
        then show ?thesis using q(1) by (simp add: wsys_def s)
      next
        case (Cons w ws)
        let ?s3 = "upd_mutex n (\<lambda>x. x\<lparr>m_owner := Some w, m_original_priority := t_current_priority (thr ?s2 w),
          m_hold := m_hold x + 1\<rparr>) ?s2"
        have s: "?s = rt_schedule (rt_ipc_list_resume (MutexL n) ?s3)"
          using l(3)[of "MutexL n"] one Cons by (simp add: u Let_def)
        have k3: "ksys ?s3" using q(1) by simp
        have l3: "lists ?s3 (MutexL m) = lists s (MutexL m)" for m using l(3)[of "MutexL m"] by (simp add: kframe)
        note e = list_resume_effect[OF ksysD(1)[OF k3], of "MutexL n" w ws, simplified, OF l3[of n, unfolded Cons]]
        have c3: "cur (rt_ipc_list_resume (MutexL n) ?s3) = Some c" using e(2) l(2) by (simp add: kframe)
        have "objects_ok ?s"
        proof (rule objects_ok_mutex[OF o])
          show "mutex_inv n ?s" by (rule mutex_release_hands_over(3)[OF d(1) c r assms(3) inv own one Cons])
          show "mboxes ?s = mboxes s" "mqs ?s = mqs s" using e mb by (simp_all add: s kframe)
          show "mutexes ?s m = mutexes s m \<and> lists ?s (MutexL m) = lists s (MutexL m)" if "m \<noteq> n" for m
            using that e(4)[of "MutexL m"] e(11) l(4) l3 rt_schedule_others(3)[OF e(1) c3, of "MutexL m"]
            by (simp add: s kframe)
        qed
        moreover have "ksys ?s" unfolding s by (rule ksys_wake[OF k3]) (simp_all add: l3 Cons)
        ultimately show ?thesis by (simp add: wsys_def)
      qed
    qed
  qed
qed

section \<open>Mailboxes, message queues and events\<close>

text \<open>Waiting on, and waking from, a list that no semaphore or mutex owns.\<close>

lemma wsys_block:
  fixes time :: u32
  assumes "wsys s" "running s c" "wait_list l" "\<And>m. l \<noteq> SemL m" "\<And>m. l \<noteq> MutexL m" "sint time < 2147483647"
  shows "wsys (block_on l c flag time s)"
  using assms ksys_block[OF _ assms(2-4,6)] still_block[OF ksysD(1) _ _ assms(3,5)] objects_ok_still
  by (auto simp: wsys_def running_def)

lemma wsys_wake:
  assumes "wsys s" "wait_list l"
  shows "wsys (wake_first l s)"
proof (cases "lists s l = []")
  case False
  have k: "ksys s" "objects_ok s" using assms(1) by (simp_all add: wsys_def)
  show ?thesis
    using ksys_wake[OF k(1) assms(2) False] objects_ok_still[OF k(2) still_resume_schedule[OF k(1) assms(2) False]] False
    by (simp add: wake_first_def wsys_def)
qed (use assms(1) in \<open>simp add: wake_first_def\<close>)

lemma wsys_schedule: "wsys s \<Longrightarrow> wsys (rt_schedule s)"
  using ksys_still_schedule still_ksys_schedule objects_ok_still by (auto simp: wsys_def)

lemma wsys_upd_thr: "neutral f \<Longrightarrow> wsys s \<Longrightarrow> wsys (upd_thr t f s)"
  using ksys_upd_thr[of f t s] objects_ok_still[OF _ still_upd_thr] by (simp add: wsys_def)

lemma wsys_upd_error: "wsys s \<Longrightarrow> wsys (upd_thr t (\<lambda>th. th\<lparr>t_error := e\<rparr>) s)"
  using ksys_upd_error[of t e s] objects_ok_still[OF _ still_upd_thr] by (simp add: wsys_def)

lemma wsys_upd_mb:
  assumes "wsys s" "mb_inv (f (mboxes s n))"
  shows "wsys (upd_mb n f s)"
proof -
  have "mutexes (upd_mb n f s) = mutexes s" "mqs (upd_mb n f s) = mqs s" by (simp_all add: upd_mb_def)
  with assms show ?thesis by (simp add: wsys_def objects_ok_def mutex_inv_def is_mutex_def is_mb_def is_mq_def kframe cong: option.case_cong)
qed

lemma wsys_upd_mq:
  assumes "wsys s" "mq_inv (f (mqs s n))"
  shows "wsys (upd_mq n f s)"
proof -
  have "mutexes (upd_mq n f s) = mutexes s" "mboxes (upd_mq n f s) = mboxes s" by (simp_all add: upd_mq_def)
  with assms show ?thesis by (simp add: wsys_def objects_ok_def mutex_inv_def is_mutex_def is_mb_def is_mq_def kframe cong: option.case_cong)
qed

lemma int_nest_upd_thr [kframe]: "int_nest (upd_thr t f s) = int_nest s"
  by (simp add: upd_thr_def)

lemma wsys_mb: "wsys s \<Longrightarrow> is_mb n s \<Longrightarrow> mb_inv (mboxes s n)"
  by (simp add: wsys_def objects_ok_def)

lemma wsys_mq: "wsys s \<Longrightarrow> is_mq n s \<Longrightarrow> mq_inv (mqs s n)"
  by (simp add: wsys_def objects_ok_def)

lemma wsys_mb_send_again:
  fixes timeout :: u32
  assumes "wsys s" "running s c" "int_nest s = 0" "is_mb n s" "sint timeout < 2147483647"
  shows "wsys (snd (mb_send_again n v timeout s))"
proof -
  have c: "cur s = Some c" using assms(2) by (simp add: running_def)
  note m = wsys_mb[OF assms(1,4)]
  let ?e = "upd_thr c (\<lambda>th. th\<lparr>t_error := RT_EOK\<rparr>) s"
  have e: "wsys ?e" "running ?e c" using wsys_upd_error[OF assms(1)] assms(2) by simp_all
  show ?thesis
  proof (cases "mb_entry (mboxes s n) = mb_size (mboxes s n)")
    case True
    have "wsys (block_on (MbSendL n) c (mb_flag (mboxes ?e n)) timeout ?e)"
      by (rule wsys_block[OF e]) (use assms(5) in simp_all)
    with e(1) True c assms(3) show ?thesis
      by (simp add: mb_send_again_def rt_thread_self_def Let_def in_thread_context_def kframe)
  next
    case False
    have "unat (mb_entry (mboxes s n)) < unat (mb_size (mboxes s n))"
      using False m by (simp add: mb_inv_def le_less word_unat_eq_iff)
    from mb_put_fifo(1)[OF m this, of v] have "wsys (upd_mb n (mb_put v) s)" by (rule wsys_upd_mb[OF assms(1)])
    from wsys_wake[OF this, of "MbRecvL n"] False show ?thesis
      by (auto simp: mb_send_again_def mb_deposit_def wake_first_def Let_def split: if_splits)
  qed
qed

lemma wsys_mb_recv_again:
  fixes timeout :: u32
  assumes "wsys s" "running s c" "int_nest s = 0" "is_mb n s" "sint timeout < 2147483647"
  shows "wsys (snd (snd (mb_recv_again n timeout s)))"
proof -
  have c: "cur s = Some c" using assms(2) by (simp add: running_def)
  note m = wsys_mb[OF assms(1,4)]
  let ?e = "upd_thr c (\<lambda>th. th\<lparr>t_error := RT_EOK\<rparr>) s"
  have e: "wsys ?e" "running ?e c" using wsys_upd_error[OF assms(1)] assms(2) by simp_all
  show ?thesis
  proof (cases "mb_entry (mboxes s n) = 0")
    case True
    have "wsys (block_on (MbRecvL n) c (mb_flag (mboxes ?e n)) timeout ?e)"
      by (rule wsys_block[OF e]) (use assms(5) in simp_all)
    with wsys_upd_error[OF e(1), of c "-RT_ETIMEOUT"] True c assms(3) show ?thesis
      by (simp add: mb_recv_again_def rt_thread_self_def Let_def in_thread_context_def kframe)
  next
    case False
    from mb_get_fifo(1)[OF m False] have "wsys (upd_mb n (\<lambda>x. snd (mb_get x)) s)"
      by (intro wsys_upd_mb[OF assms(1)])
    from wsys_wake[OF this, of "MbSendL n"] False show ?thesis
      by (auto simp: mb_recv_again_def mb_fetch_def wake_first_def Let_def split: if_splits)
  qed
qed

lemma time_left_bound:
  assumes "sint timeout < 2147483647" "unat (now - start) < 2147483648"
  shows "sint (time_left start now timeout) < 2147483647"
proof (cases "0 < sint timeout")
  case True
  have "0 \<le> int (unat (now - start))" by simp
  then show ?thesis unfolding time_left_spec[OF True assms(2)] max_less_iff_conj using assms(1) by linarith
qed (use assms in \<open>simp add: time_left_def\<close>)

lemma mq_put_inv:
  assumes "mq_inv mq"
  shows "mq_enqueue fill mq = Some mq' \<Longrightarrow> mq_inv mq'" "mq_push_front fill mq = Some mq' \<Longrightarrow> mq_inv mq'"
proof -
  obtain f where f: "mq_rep mq (mq_slots mq) f" using assms by (auto simp: mq_inv_def)
  have rep: "mq_rep m q g \<Longrightarrow> mq_inv m" for m q g by (rule mq_repD(2))
  show "mq_inv mq'" if "mq_enqueue fill mq = Some mq'"
    using f that mq_full[OF f] mq_enqueue_rep[of mq "mq_slots mq" "hd f" "tl f" fill] rep by (cases f) (auto simp: mq_enqueue_def)
  show "mq_inv mq'" if "mq_push_front fill mq = Some mq'"
    using f that mq_full[OF f] mq_push_front_rep[of mq "mq_slots mq" "hd f" "tl f" fill] rep by (cases f) (auto simp: mq_push_front_def)
qed

lemma wsys_mq_post:
  assumes "wsys s" "is_mq n s" "sz \<noteq> 0" "\<And>mq'. put (mqs s n) = Some mq' \<Longrightarrow> mq_inv mq'"
  shows "wsys (snd (mq_post put n sz s))"
proof (cases "put (mqs s n)")
  case None
  then show ?thesis using assms(1-3) by (simp add: mq_post_def)
next
  case (Some mq)
  have "wsys (upd_mq n (\<lambda>_. mq) s)" by (rule wsys_upd_mq[OF assms(1)]) (rule assms(4)[OF Some])
  from wsys_wake[OF this, of "MqL n"] show ?thesis using Some assms(1-3) by (simp add: mq_post_def)
qed

lemma wsys_mq_recv_again:
  fixes timeout :: u32
  assumes "wsys s" "running s c" "int_nest s = 0" "is_mq n s" "sint timeout < 2147483647"
  shows "wsys (snd (snd (mq_recv_again n sz timeout s)))"
proof -
  have c: "cur s = Some c" using assms(2) by (simp add: running_def)
  obtain f where f: "mq_rep (mqs s n) (mq_slots (mqs s n)) f" using wsys_mq[OF assms(1,4)] by (auto simp: mq_inv_def)
  let ?e = "upd_thr c (\<lambda>th. th\<lparr>t_error := RT_EOK\<rparr>) s"
  have e: "wsys ?e" "running ?e c" using wsys_upd_error[OF assms(1)] assms(2) by simp_all
  show ?thesis
  proof (cases "mq_slots (mqs s n)")
    case Nil
    then have z: "mq_entry (mqs s n) = 0" using f by (simp add: mq_rep_def unat_eq_0)
    have "wsys (block_on (MqL n) c (mq_flag (mqs ?e n)) timeout ?e)"
      by (rule wsys_block[OF e]) (use assms(5) in simp_all)
    with wsys_upd_error[OF e(1), of c "-RT_ETIMEOUT"] z c assms(3) show ?thesis
      by (simp add: mq_recv_again_def rt_thread_self_def Let_def in_thread_context_def kframe)
  next
    case (Cons m q)
    then have z: "mq_entry (mqs s n) \<noteq> 0" using f by (auto simp: mq_rep_def)
    obtain mq' where "mq_dequeue (mqs s n) = Some (mq_data (mqs s n) m, mq')" "mq_rep mq' q (m # f)"
      using mq_dequeue_rep[OF f[unfolded Cons]] by blast
    with wsys_upd_mq[OF assms(1), of "\<lambda>_. mq'" n] mq_repD(2)[of mq'] z show ?thesis by (simp add: mq_recv_again_def)
  qed
qed

lemma wsys_upd_event: "wsys s \<Longrightarrow> wsys (upd_event n f s)"
proof -
  have "still s (upd_event n f s)" by (simp add: still_def upd_event_def)
  then show "wsys s \<Longrightarrow> wsys (upd_event n f s)" using objects_ok_still by (auto simp: wsys_def)
qed

lemma wsys_resume:
  assumes "wsys s" "live (statm s t)"
  shows "wsys (snd (rt_thread_resume t s))" "live (statm s u) \<Longrightarrow> live (statm (snd (rt_thread_resume t s)) u)"
proof -
  have k: "ksys s" "objects_ok s" using assms(1) by (simp_all add: wsys_def)
  note kd = ksysD(1)[OF k(1)]
  have i: "is_thread s t" using kbaseD(7)[OF kinv_partsD(1)[OF kd] assms(2)] by (simp add: thread_ok_def is_thread_def)
  show "wsys (snd (rt_thread_resume t s))"
    using ksys_resume[OF k(1) i] objects_ok_still[OF k(2) still_resume[OF kd]] by (simp add: wsys_def)
  show "live (statm s u) \<Longrightarrow> live (statm (snd (rt_thread_resume t s)) u)"
  proof (cases "statm s t = RT_THREAD_SUSPEND")
    case True
    note r = resume_effect[OF kd True]
    show "live (statm s u) \<Longrightarrow> ?thesis" using r(3) r(5)[of u] by (cases "u = t") (auto simp: awake_def live_def)
  next
    case False
    then show "live (statm s u) \<Longrightarrow> ?thesis" using i by (simp add: rt_thread_resume_def is_thread_def)
  qed
qed

lemma wsys_event_loop:
  "wsys s \<Longrightarrow> \<forall>t \<in> set ts. live (statm s t) \<Longrightarrow> wsys (snd (event_send_loop n ts need s))"
proof (induction ts arbitrary: need s)
  case (Cons t ts)
  let ?got = "event_got (e_set (events s n)) (t_event_set (thr s t)) (t_event_info (thr s t))"
  let ?s1 = "upd_thr t (\<lambda>th. th\<lparr>t_event_set := ?got\<rparr>) s"
  let ?s2 = "if t_event_info (thr ?s1 t) AND RT_EVENT_FLAG_CLEAR \<noteq> 0
    then upd_event n (\<lambda>e. e\<lparr>e_set := e_set e AND NOT ?got\<rparr>) ?s1 else ?s1"
  have "wsys ?s1" by (rule wsys_upd_thr[OF _ Cons.prems(1)]) (simp add: neutral_def)
  then have s2: "wsys ?s2" using wsys_upd_event by simp
  have st: "statm ?s2 u = statm s u" for u by (simp add: kframe)
  have lv: "live (statm ?s2 t)" "\<forall>u \<in> set ts. live (statm ?s2 u)" using Cons.prems(2) by (simp_all add: st)
  note r = wsys_resume[OF s2 lv(1)]
  have "wsys (snd (event_send_loop n ts True (snd (rt_thread_resume t ?s2))))" by (rule Cons.IH[OF r(1)]) (use r(2) lv(2) in blast)
  moreover have "wsys (snd (event_send_loop n ts need s))" by (rule Cons.IH) (use Cons.prems in simp_all)
  ultimately show ?case by (simp add: Let_def)
qed simp

lemma wsys_event_send:
  assumes "wsys s" "is_event n s"
  shows "wsys (snd (rt_event_send n bits s))"
proof -
  let ?s1 = "upd_event n (\<lambda>e. e\<lparr>e_set := e_set e OR bits\<rparr>) s"
  have s1: "wsys ?s1" by (rule wsys_upd_event[OF assms(1)])
  have "kinv ?s1" using s1 ksysD(1) by (simp add: wsys_def)
  from wait_list_member(1)[OF this, of "EventL n"] have "\<forall>t \<in> set (lists ?s1 (EventL n)). live (statm ?s1 t)"
    by (simp add: live_def)
  note l = wsys_event_loop[OF s1 this, of n False]
  obtain b s2 where e: "event_send_loop n (lists ?s1 (EventL n)) False ?s1 = (b, s2)" by fastforce
  show ?thesis using l wsys_schedule[of s2] assms by (simp add: rt_event_send_def Let_def e)
qed

lemma wsys_event_recv:
  fixes timeout :: u32
  assumes "wsys s" "running s c" "int_nest s = 0" "is_event n s" "sint timeout < 2147483647"
    "option AND RT_EVENT_FLAG_AND \<noteq> 0 \<or> option AND RT_EVENT_FLAG_OR \<noteq> 0"
  shows "wsys (snd (snd (rt_event_recv n want option timeout s)))"
proof -
  have c: "cur s = Some c" using assms(2) by (simp add: running_def)
  let ?e = "upd_thr c (\<lambda>th. th\<lparr>t_error := RT_EOK\<rparr>) s"
  let ?f = "upd_thr c (\<lambda>th. th\<lparr>t_event_set := want, t_event_info := option\<rparr>) ?e"
  have e: "wsys ?e" "running ?e c" using wsys_upd_error[OF assms(1)] assms(2) by simp_all
  have f: "wsys ?f" by (rule wsys_upd_thr[OF _ e(1)]) (simp add: neutral_def)
  have "statm ?f = statm s" "cur ?f = cur s" by (simp_all add: statm_def upd_thr_def fun_eq_iff)
  then have rf: "running ?f c" using assms(2) by (simp add: running_def)
  have b: "wsys (block_on (EventL n) c (e_flag (events ?e n)) timeout ?f)" by (rule wsys_block[OF f rf]) (use assms(5) in simp_all)
  have i: "in_thread_context s" using c assms(3) by (simp add: in_thread_context_def rt_thread_self_def)
  show ?thesis
    using i assms(4,6) e(1) b wsys_upd_event[OF e(1)] wsys_upd_error[OF e(1), of c "-RT_ETIMEOUT"] assms(1) c
    by (auto simp: rt_event_recv_def rt_thread_self_def Let_def)
qed

section \<open>The transition system\<close>

inductive wstep :: "(nat \<Rightarrow> kernel \<Rightarrow> kernel) \<Rightarrow> kernel \<Rightarrow> kernel \<Rightarrow> bool" for tf where
  thread_or_sem: "kstep tf s s' \<Longrightarrow> wstep tf s s'"
| mutex_take: "running s c \<Longrightarrow> int_nest s = 0 \<Longrightarrow> is_mutex n s \<Longrightarrow> mutex_usable c n time s \<Longrightarrow> sint time < 2147483647 \<Longrightarrow>
    wstep tf s (snd (rt_mutex_take n time s))"
| mutex_release: "running s c \<Longrightarrow> int_nest s = 0 \<Longrightarrow> is_mutex n s \<Longrightarrow> wstep tf s (snd (rt_mutex_release n s))"
| event_send: "is_event n s \<Longrightarrow> wstep tf s (snd (rt_event_send n bits s))"
| event_recv: "running s c \<Longrightarrow> int_nest s = 0 \<Longrightarrow> is_event n s \<Longrightarrow> sint time < 2147483647 \<Longrightarrow>
    option AND RT_EVENT_FLAG_AND \<noteq> 0 \<or> option AND RT_EVENT_FLAG_OR \<noteq> 0 \<Longrightarrow>
    wstep tf s (snd (snd (rt_event_recv n want option time s)))"
| mb_send: "running s c \<Longrightarrow> int_nest s = 0 \<Longrightarrow> is_mb n s \<Longrightarrow> sint time < 2147483647 \<Longrightarrow>
    wstep tf s (snd (rt_mb_send_wait n v time s))"
| mb_send_woken: "running s c \<Longrightarrow> int_nest s = 0 \<Longrightarrow> is_mb n s \<Longrightarrow> sint time < 2147483647 \<Longrightarrow>
    unat (tick s - start) < 2147483648 \<Longrightarrow> wstep tf s (snd (mb_send_return n v start time c s))"
| mb_recv: "running s c \<Longrightarrow> int_nest s = 0 \<Longrightarrow> is_mb n s \<Longrightarrow> sint time < 2147483647 \<Longrightarrow>
    wstep tf s (snd (snd (rt_mb_recv n time s)))"
| mb_recv_woken: "running s c \<Longrightarrow> int_nest s = 0 \<Longrightarrow> is_mb n s \<Longrightarrow> sint time < 2147483647 \<Longrightarrow>
    unat (tick s - start) < 2147483648 \<Longrightarrow> wstep tf s (snd (snd (mb_recv_return n start time c s)))"
| mq_send: "is_mq n s \<Longrightarrow> sz \<noteq> 0 \<Longrightarrow> wstep tf s (snd (rt_mq_send n buf sz s))"
| mq_urgent: "is_mq n s \<Longrightarrow> sz \<noteq> 0 \<Longrightarrow> wstep tf s (snd (rt_mq_urgent n buf sz s))"
| mq_recv: "running s c \<Longrightarrow> int_nest s = 0 \<Longrightarrow> is_mq n s \<Longrightarrow> sz \<noteq> 0 \<Longrightarrow> sint time < 2147483647 \<Longrightarrow>
    wstep tf s (snd (snd (rt_mq_recv n sz time s)))"
| mq_recv_woken: "running s c \<Longrightarrow> int_nest s = 0 \<Longrightarrow> is_mq n s \<Longrightarrow> sint time < 2147483647 \<Longrightarrow>
    wstep tf s (snd (snd (mq_recv_again n sz time s)))"

inductive wreach :: "(nat \<Rightarrow> kernel \<Rightarrow> kernel) \<Rightarrow> kernel \<Rightarrow> kernel \<Rightarrow> bool" for tf where
  start: "wreach tf s s"
| step: "wreach tf s s1 \<Longrightarrow> wstep tf s1 s2 \<Longrightarrow> wreach tf s s2"

lemma wstep_wsys:
  assumes "wstep tf s s'" "wsys s"
  shows "wsys s'"
  using assms(1)
proof (cases rule: wstep.cases)
  case thread_or_sem
  then show ?thesis using assms(2) kstep_ksys kstep_still objects_ok_still by (auto simp: wsys_def)
next
  case (mutex_take c n time)
  with wsys_mutex_take[OF assms(2)] show ?thesis by simp
next
  case (mutex_release c n)
  with wsys_mutex_release[OF assms(2)] show ?thesis by simp
next
  case (event_send n bits)
  with wsys_event_send[OF assms(2)] show ?thesis by simp
next
  case (event_recv c n time option want)
  with wsys_event_recv[OF assms(2)] show ?thesis by simp
next
  case (mb_send c n time v)
  with wsys_mb_send_again[OF assms(2)] assms(2) show ?thesis by (simp add: rt_mb_send_wait_def)
next
  case (mb_send_woken c n time start v)
  with wsys_mb_send_again[OF assms(2) mb_send_woken(2-4) time_left_bound] assms(2) show ?thesis
    by (simp add: mb_send_return_def rt_tick_get_def)
next
  case (mb_recv c n time)
  with wsys_mb_recv_again[OF assms(2)] assms(2) show ?thesis by (simp add: rt_mb_recv_def)
next
  case (mb_recv_woken c n time start)
  with wsys_mb_recv_again[OF assms(2) mb_recv_woken(2-4) time_left_bound] assms(2) show ?thesis
    by (simp add: mb_recv_return_def rt_tick_get_def)
next
  case (mq_send n sz buf)
  with wsys_mq_post[OF assms(2) mq_send(2,3)] mq_put_inv(1)[OF wsys_mq[OF assms(2) mq_send(2)]] show ?thesis
    by (simp add: rt_mq_send_def)
next
  case (mq_urgent n sz buf)
  with wsys_mq_post[OF assms(2) mq_urgent(2,3)] mq_put_inv(2)[OF wsys_mq[OF assms(2) mq_urgent(2)]] show ?thesis
    by (simp add: rt_mq_urgent_def)
next
  case (mq_recv c n sz time)
  with wsys_mq_recv_again[OF assms(2)] assms(2) show ?thesis by (simp add: rt_mq_recv_def)
next
  case (mq_recv_woken c n time sz)
  with wsys_mq_recv_again[OF assms(2)] show ?thesis by simp
qed

lemma wreach_wsys: "wreach tf s s' \<Longrightarrow> wsys s \<Longrightarrow> wsys s'"
  by (induction rule: wreach.induct) (use wstep_wsys in blast)+

end
