(* ===== verification/MemPool.thy ===== *)
theory MemPool
  imports Mailbox
begin

text \<open>
  The memory pools of \<^verbatim>\<open>rt-thread/src/mempool.c\<close>. A block is its index in the pool; its first word links the
  free blocks or names the pool it was allocated from. The model ends where the code goes wrong: a pool
  of no blocks writes in front of its memory, and a release that finds the count of waiting threads
  positive but nobody waiting takes the list head for a thread; both are \<open>stuck\<close>. The second happens
  after any timeout of \<^verbatim>\<open>rt_mp_alloc\<close>, because a timeout takes the thread off the list but leaves the count.
\<close>

section \<open>Operations\<close>

definition upd_mp :: "nat \<Rightarrow> (rt_mempool \<Rightarrow> rt_mempool) \<Rightarrow> kernel \<Rightarrow> kernel" where
  "upd_mp n f s = s\<lparr>mps := (mps s)(n := f (mps s n))\<rparr>"

definition is_mp :: "nat \<Rightarrow> kernel \<Rightarrow> bool" where
  "is_mp n s \<longleftrightarrow> rt_object_get_type (mp_type (mps s n)) = RT_Object_Class_MemPool"

text \<open>The loop that links every block to the next one; the last block ends the list.\<close>

fun mp_link_loop :: "nat \<Rightarrow> nat \<Rightarrow> (nat \<Rightarrow> mp_cell) \<Rightarrow> nat \<Rightarrow> mp_cell" where
  "mp_link_loop 0 offset cells = cells(offset - 1 := FreeNext None)"
| "mp_link_loop (Suc k) offset cells =
     mp_link_loop k (offset + 1) (cells(offset := FreeNext (Some (offset + 1))))"

definition mp_setup :: "u8 \<Rightarrow> u32 \<Rightarrow> u32 \<Rightarrow> u32 \<Rightarrow> rt_mempool \<Rightarrow> rt_mempool" where
  "mp_setup ty sz block_size cnt mp =
     mp\<lparr>mp_type := ty, mp_size := sz, mp_block_size := block_size, mp_total_count := cnt,
        mp_free_count := cnt, mp_suspend_count := 0,
        mp_cells := mp_link_loop (unat cnt) 0 (mp_cells mp), mp_block_list := Some 0\<rparr>"

definition rt_mp_init :: "nat \<Rightarrow> u32 \<Rightarrow> u32 \<Rightarrow> kernel \<Rightarrow> int \<times> kernel" where
  "rt_mp_init n sz block_size s =
     (let asz = sz AND NOT 3;
          bsz = (block_size + 3) AND NOT 3;
          cnt = asz div (bsz + 4)
      in if cnt = 0 then (-RT_ERROR, fail s)
         else (RT_EOK, upd_mp n (mp_setup (RT_Object_Class_MemPool OR RT_Object_Class_Static) asz bsz cnt)
                (rt_ipc_object_init (MpL n) s)))"

text \<open>The wake-up loop of detach and delete; out of fuel it runs for ever.\<close>

fun mp_resume_loop :: "nat \<Rightarrow> nat \<Rightarrow> kernel \<Rightarrow> kernel" where
  "mp_resume_loop 0 n s = (if lists s (MpL n) = [] then s else fail s)"
| "mp_resume_loop (Suc k) n s =
     (case lists s (MpL n) of
        [] \<Rightarrow> s
      | t # _ \<Rightarrow> mp_resume_loop k n
          (upd_mp n (\<lambda>x. x\<lparr>mp_suspend_count := mp_suspend_count x - 1\<rparr>)
            (snd (rt_thread_resume t (upd_thr t (\<lambda>th. th\<lparr>t_error := -RT_ERROR\<rparr>) s)))))"

definition rt_mp_detach :: "nat \<Rightarrow> kernel \<Rightarrow> int \<times> kernel" where
  "rt_mp_detach n s =
     (if \<not> is_mp n s then (-RT_ERROR, fail s)
      else if \<not> rt_object_is_systemobject (mp_type (mps s n)) then (-RT_ERROR, fail s)
      else (RT_EOK, upd_mp n (\<lambda>x. x\<lparr>mp_type := 0\<rparr>) (mp_resume_loop (length (lists s (MpL n))) n s)))"

text \<open>\<open>obj\<close> is the allocated object, \<open>pool\<close> tells whether the memory could be allocated.\<close>

definition rt_mp_create :: "nat option \<Rightarrow> bool \<Rightarrow> u32 \<Rightarrow> u32 \<Rightarrow> kernel \<Rightarrow> nat option \<times> kernel" where
  "rt_mp_create obj pool block_count block_size s =
     (if int_nest s \<noteq> 0 then (None, fail s)
      else case obj of
        None \<Rightarrow> (None, s)
      | Some n \<Rightarrow>
          let bsz = (block_size + 3) AND NOT 3 in
          if \<not> pool then (None, upd_mp n (\<lambda>x. x\<lparr>mp_type := 0\<rparr>) s)
          else if block_count = 0 then (None, fail s)
          else (Some n, upd_mp n (mp_setup RT_Object_Class_MemPool ((bsz + 4) * block_count) bsz block_count)
                 (rt_ipc_object_init (MpL n) s)))"

definition rt_mp_delete :: "nat \<Rightarrow> kernel \<Rightarrow> int \<times> kernel" where
  "rt_mp_delete n s =
     (if int_nest s \<noteq> 0 then (-RT_ERROR, fail s)
      else if \<not> is_mp n s then (-RT_ERROR, fail s)
      else if rt_object_is_systemobject (mp_type (mps s n)) then (-RT_ERROR, fail s)
      else (RT_EOK, upd_mp n (\<lambda>x. x\<lparr>mp_type := 0\<rparr>) (mp_resume_loop (length (lists s (MpL n))) n s)))"

text \<open>\<^verbatim>\<open>rt_set_errno\<close> of \<^verbatim>\<open>kservice.c\<close>; the global errno of interrupts is not part of the state.\<close>

definition rt_set_errno :: "int \<Rightarrow> kernel \<Rightarrow> kernel" where
  "rt_set_errno error s =
     (if int_nest s \<noteq> 0 then s
      else case rt_thread_self s of
        None \<Rightarrow> s
      | Some t \<Rightarrow> upd_thr t (\<lambda>th. th\<lparr>t_error := error\<rparr>) s)"

text \<open>Taking the first free block.\<close>

definition mp_take :: "nat \<Rightarrow> rt_mempool \<Rightarrow> (nat \<times> rt_mempool) option" where
  "mp_take n mp =
     (case mp_block_list mp of
        None \<Rightarrow> None
      | Some b \<Rightarrow>
          (case mp_cells mp b of
             FreeNext nx \<Rightarrow> Some (b, mp\<lparr>mp_free_count := mp_free_count mp - 1, mp_block_list := nx,
                                   mp_cells := (mp_cells mp)(b := OwnedBy n)\<rparr>)
           | OwnedBy _ \<Rightarrow> None))"

text \<open>
  One round of the loop of \<^verbatim>\<open>rt_mp_alloc\<close>: the waiting thread is put at the front of the list. The result
  is the block; \<open>Ret\<close> carries the errno.
\<close>

definition mp_alloc_again :: "nat \<Rightarrow> u32 \<Rightarrow> kernel \<Rightarrow> outcome \<times> nat option \<times> kernel" where
  "mp_alloc_again n time s =
     (if mp_free_count (mps s n) = 0 then
        if time = 0 then
          (Ret (-RT_ETIMEOUT), None, rt_set_errno (-RT_ETIMEOUT) s)
        else if int_nest s \<noteq> 0 then (Ret (-RT_ERROR), None, fail s)
        else case rt_thread_self s of
          None \<Rightarrow> (Ret (-RT_ERROR), None, fail s)
        | Some t \<Rightarrow>
            let s1 = upd_thr t (\<lambda>th. th\<lparr>t_error := RT_EOK\<rparr>) s;
                s2 = list_insert_after (MpL n) t (snd (rt_thread_suspend t s1));
                s3 = upd_mp n (\<lambda>x. x\<lparr>mp_suspend_count := mp_suspend_count x + 1\<rparr>) s2
            in (Blocked, None, give_up t time s3)
      else case mp_take n (mps s n) of
        None \<Rightarrow> (Ret (-RT_ERROR), None, fail s)
      | Some (b, mp) \<Rightarrow> (Ret RT_EOK, Some b, upd_mp n (\<lambda>_. mp) s))"

definition rt_mp_alloc :: "nat \<Rightarrow> u32 \<Rightarrow> kernel \<Rightarrow> outcome \<times> nat option \<times> kernel" where
  "rt_mp_alloc n time s = mp_alloc_again n time s"

definition mp_alloc_return :: "nat \<Rightarrow> u32 \<Rightarrow> u32 \<Rightarrow> tid \<Rightarrow> kernel \<Rightarrow> outcome \<times> nat option \<times> kernel" where
  "mp_alloc_return n before_sleep time t s =
     (if t_error (thr s t) \<noteq> RT_EOK then (Ret (t_error (thr s t)), None, s)
      else mp_alloc_again n (time_left before_sleep (rt_tick_get s) time) s)"

text \<open>The pool is read from the block's first word; \<open>n\<close> is the pool whose memory the block lies in.\<close>

definition rt_mp_free :: "nat \<Rightarrow> nat \<Rightarrow> kernel \<Rightarrow> kernel" where
  "rt_mp_free n b s =
     (if mp_cells (mps s n) b \<noteq> OwnedBy n then fail s
      else
        let s1 = upd_mp n (\<lambda>x. x\<lparr>mp_free_count := mp_free_count x + 1,
               mp_cells := (mp_cells x)(b := FreeNext (mp_block_list x)), mp_block_list := Some b\<rparr>) s
        in if 0 < mp_suspend_count (mps s1 n) then
             (case lists s1 (MpL n) of
                [] \<Rightarrow> fail s1
              | t # _ \<Rightarrow>
                  let s2 = upd_thr t (\<lambda>th. th\<lparr>t_error := RT_EOK\<rparr>) s1;
                      s3 = snd (rt_thread_resume t s2);
                      s4 = upd_mp n (\<lambda>x. x\<lparr>mp_suspend_count := mp_suspend_count x - 1\<rparr>) s3
                  in rt_schedule s4)
           else s1)"

section \<open>The blocks\<close>

fun free_chain :: "(nat \<Rightarrow> mp_cell) \<Rightarrow> nat option \<Rightarrow> nat list \<Rightarrow> bool" where
  "free_chain cells p [] \<longleftrightarrow> p = None"
| "free_chain cells p (b # bs) \<longleftrightarrow> p = Some b \<and>
     (case cells b of FreeNext nx \<Rightarrow> free_chain cells nx bs | OwnedBy _ \<Rightarrow> False)"

text \<open>\<open>fl\<close> lists the free blocks; every other block of the pool belongs to it.\<close>

definition mp_rep :: "nat \<Rightarrow> rt_mempool \<Rightarrow> nat list \<Rightarrow> bool" where
  "mp_rep n mp fl \<longleftrightarrow>
     free_chain (mp_cells mp) (mp_block_list mp) fl \<and> distinct fl \<and>
     set fl \<subseteq> {0..<unat (mp_total_count mp)} \<and> unat (mp_free_count mp) = length fl \<and>
     (\<forall>b < unat (mp_total_count mp). b \<notin> set fl \<longrightarrow> mp_cells mp b = OwnedBy n)"

lemma free_chain_upd [simp]:
  "b \<notin> set bs \<Longrightarrow> free_chain (cells(b := c)) p bs = free_chain cells p bs"
  by (induction bs arbitrary: p) (auto split: mp_cell.splits)

lemma mp_link_loop_below: "b < offset - 1 \<Longrightarrow> mp_link_loop k offset cells b = cells b"
  by (induction k arbitrary: offset cells) auto

lemma mp_link_loop_chain:
  "0 < k \<Longrightarrow> free_chain (mp_link_loop k offset cells) (Some offset) [offset..<offset + k]"
proof (induction k arbitrary: offset cells)
  case (Suc k)
  show ?case
  proof (cases "k = 0")
    case True
    then show ?thesis by simp
  next
    case False
    let ?c = "cells(offset := FreeNext (Some (offset + 1)))"
    have "mp_link_loop k (offset + 1) ?c offset = FreeNext (Some (offset + 1))"
      using False by (cases k) (simp_all add: mp_link_loop_below)
    moreover have "[offset..<offset + Suc k] = offset # [offset + 1..<offset + 1 + k]"
      by (simp add: upt_conv_Cons)
    moreover have "free_chain (mp_link_loop k (offset + 1) ?c) (Some (offset + 1))
        [offset + 1..<offset + 1 + k]" using Suc.IH[of "offset + 1" ?c] False by blast
    ultimately show ?thesis by (simp del: upt_Suc fun_upd_apply)
  qed
qed simp

lemma mp_setup_rep:
  assumes "cnt \<noteq> 0"
  shows "mp_rep n (mp_setup ty sz bsz cnt mp) [0..<unat cnt]"
proof -
  have "0 < unat cnt" using assms by (simp add: unat_gt_0)
  from mp_link_loop_chain[OF this, of 0] show ?thesis by (simp add: mp_rep_def mp_setup_def)
qed

text \<open>An allocated block was free, lies in the pool, and is marked as allocated.\<close>

lemma mp_take_rep:
  assumes "mp_rep n mp (b # fl)"
  shows "\<exists>mp'. mp_take n mp = Some (b, mp') \<and> mp_rep n mp' fl \<and> mp_cells mp' b = OwnedBy n \<and>
    mp_total_count mp' = mp_total_count mp \<and> mp_suspend_count mp' = mp_suspend_count mp"
proof -
  note r = assms[unfolded mp_rep_def]
  obtain nx where c: "mp_cells mp b = FreeNext nx" "free_chain (mp_cells mp) nx fl"
    using r by (auto split: mp_cell.splits)
  have "mp_free_count mp \<noteq> 0" using r by auto
  then have "unat (mp_free_count mp - 1) = length fl" using r by (simp add: unat_dec_word)
  then show ?thesis using r c by (simp add: mp_take_def mp_rep_def)
qed

lemma mp_take_none: "mp_rep n mp [] \<Longrightarrow> mp_free_count mp = 0"
  by (simp add: mp_rep_def unat_eq_0)

text \<open>Giving a block back.\<close>

definition mp_put :: "nat \<Rightarrow> rt_mempool \<Rightarrow> rt_mempool" where
  "mp_put b x = x\<lparr>mp_free_count := mp_free_count x + 1,
     mp_cells := (mp_cells x)(b := FreeNext (mp_block_list x)), mp_block_list := Some b\<rparr>"

lemma mp_put_rep:
  assumes "mp_rep n mp fl" "b < unat (mp_total_count mp)" "b \<notin> set fl"
  shows "mp_rep n (mp_put b mp) (b # fl)"
proof -
  note r = assms(1)[unfolded mp_rep_def]
  have "card (set (b # fl)) \<le> card {0..<unat (mp_total_count mp)}"
    using r assms(2) by (intro card_mono) auto
  then have "Suc (length fl) \<le> unat (mp_total_count mp)"
    using distinct_card[of "b # fl"] r assms(3) by simp
  moreover have "unat (mp_total_count mp) < 2 ^ 32" by (rule order_less_le_trans[OF unsigned_less]) simp
  ultimately have "unat (mp_free_count mp + 1) = Suc (length fl)" using r by (simp add: unat_Suc_word)
  then show ?thesis using r assms(2,3) by (simp add: mp_rep_def mp_put_def)
qed

section \<open>Correctness of the operations\<close>

lemma upd_mp_sel [kframe]:
  "lists (upd_mp n f s) = lists s" "ready_group (upd_mp n f s) = ready_group s"
  "timers (upd_mp n f s) = timers s" "timer_list (upd_mp n f s) = timer_list s"
  "cur (upd_mp n f s) = cur s" "thr (upd_mp n f s) = thr s" "statm (upd_mp n f s) = statm s"
  "prio (upd_mp n f s) = prio s" "thread_ok (upd_mp n f s) = thread_ok s"
  "lock_nest (upd_mp n f s) = lock_nest s" "stuck (upd_mp n f s) = stuck s"
  "tick (upd_mp n f s) = tick s" "mps (upd_mp n f s) = (mps s)(n := f (mps s n))"
  "awake (upd_mp n f s) = awake s"
  by (simp_all add: upd_mp_def statm_def prio_def thread_ok_def awake_def fun_eq_iff)

lemma kinv_upd_mp [simp]: "kinv (upd_mp n f s) = kinv s"
  by (rule kinv_frame) (simp_all add: kframe)

lemma mp_alloc_succeeds:
  assumes "kinv s" "mp_rep n (mps s n) (b # fl)"
  shows "\<exists>s'. rt_mp_alloc n time s = (Ret RT_EOK, Some b, s') \<and> kinv s' \<and> mp_rep n (mps s' n) fl \<and>
    lists s' = lists s"
proof -
  obtain mp' where t: "mp_take n (mps s n) = Some (b, mp')" "mp_rep n mp' fl"
    using mp_take_rep[OF assms(2)] by auto
  have "mp_free_count (mps s n) \<noteq> 0" using assms(2) by (auto simp: mp_rep_def)
  then show ?thesis
    using t assms(1) by (simp add: rt_mp_alloc_def mp_alloc_again_def kframe)
qed

lemma mp_free_returns:
  assumes "kinv s" "mp_rep n (mps s n) fl" "b < unat (mp_total_count (mps s n))" "b \<notin> set fl"
    "mp_suspend_count (mps s n) = 0"
  shows "kinv (rt_mp_free n b s)" "mp_rep n (mps (rt_mp_free n b s) n) (b # fl)"
    "stuck (rt_mp_free n b s) = stuck s"
proof -
  have c: "mp_cells (mps s n) b = OwnedBy n" using assms(2-4) by (simp add: mp_rep_def)
  have "rt_mp_free n b s = upd_mp n (mp_put b) s"
    using c assms(5) by (simp add: rt_mp_free_def Let_def kframe mp_put_def[abs_def])
  then show "kinv (rt_mp_free n b s)" "mp_rep n (mps (rt_mp_free n b s) n) (b # fl)"
    "stuck (rt_mp_free n b s) = stuck s"
    using assms(1) mp_put_rep[OF assms(2-4)] by (simp_all add: kframe)
qed

text \<open>The count of waiting threads is a field that suspending a thread does not look at.\<close>

lemma upd_mp_commute:
  "set_stat t v (upd_mp n f s) = upd_mp n f (set_stat t v s)"
  "fail (upd_mp n f s) = upd_mp n f (fail s)"
  "list_remove t (upd_mp n f s) = upd_mp n f (list_remove t s)"
  "timer_unlink i (upd_mp n f s) = upd_mp n f (timer_unlink i s)"
  "upd_timer i g (upd_mp n f s) = upd_mp n f (upd_timer i g s)"
  "(upd_mp n f s)\<lparr>ready_group := w\<rparr> = upd_mp n f (s\<lparr>ready_group := w\<rparr>)"
  by (simp_all add: upd_mp_def set_stat_def upd_thr_def fail_def list_remove_def timer_unlink_def
      upd_timer_def)

lemma remove_upd_mp:
  "rt_schedule_remove_thread t (upd_mp n f s) = upd_mp n f (rt_schedule_remove_thread t s)"
  by (simp add: rt_schedule_remove_thread_def Let_def upd_mp_commute kframe)

lemma stop_upd_mp:
  "snd (rt_timer_stop i (upd_mp n f s)) = upd_mp n f (snd (rt_timer_stop i s))"
  by (simp add: rt_timer_stop_def upd_mp_commute kframe)

lemma suspend_upd_mp:
  "snd (rt_thread_suspend t (upd_mp n f s)) = upd_mp n f (snd (rt_thread_suspend t s))"
  by (simp add: rt_thread_suspend_def Let_def upd_mp_commute remove_upd_mp stop_upd_mp kframe
      rt_thread_self_def)

lemma park_upd_mp: "park l q t (upd_mp n f s) = upd_mp n f (park l q t s)"
proof -
  have "(upd_mp n f z)\<lparr>lists := h\<rparr> = upd_mp n f (z\<lparr>lists := h\<rparr>)" for z h by (simp add: upd_mp_def)
  then show ?thesis by (simp add: park_def suspend_upd_mp Let_def kframe)
qed

text \<open>With no free block a thread that may wait is put in front of those that already wait.\<close>

lemma mp_alloc_blocks:
  fixes time :: u32
  assumes "kinv s" "cur s = Some c" "statm s c = RT_THREAD_RUNNING" "int_nest s = 0"
    "mp_free_count (mps s n) = 0" "time \<noteq> 0"
  shows "\<exists>s'. rt_mp_alloc n time s = (Blocked, None, s') \<and> kinv s' \<and> cur s' \<noteq> None \<and>
    statm s' c = RT_THREAD_SUSPEND \<and> lists s' (MpL n) = c # lists s (MpL n) \<and>
    mps s' n = (mps s n)\<lparr>mp_suspend_count := mp_suspend_count (mps s n) + 1\<rparr> \<and>
    (sint time < 2147483647 \<longrightarrow> stuck s' = stuck s)"
proof -
  let ?f = "\<lambda>x. x\<lparr>mp_suspend_count := mp_suspend_count x + 1\<rparr>"
  let ?e = "upd_mp n ?f (upd_thr c (\<lambda>th. th\<lparr>t_error := RT_EOK\<rparr>) s)"
  let ?q = "c # lists s (MpL n)"
  have ke: "kinv ?e" and ce: "cur ?e = Some c" and re: "statm ?e c = RT_THREAD_RUNNING"
    using assms(1-3) by (simp_all add: kinv_upd_thr kframe)
  have k: "kbase {} s" using assms(1) by (simp add: kinv_def)
  have "c \<notin> set (lists s (MpL n))" using detached_running[OF k assms(3)] by (simp add: detached_def)
  then have q: "set ?q \<subseteq> insert c (set (lists ?e (MpL n)))" "distinct ?q"
    using kbaseD(1)[OF k] by (simp_all add: kframe lists_ok_def)
  let ?s' = "give_up c time (park (MpL n) ?q c ?e)"
  have ins: "list_insert_after (MpL n) c (snd (rt_thread_suspend c z)) =
      park (MpL n) (c # lists (snd (rt_thread_suspend c z)) (MpL n)) c z" for z
    by (simp add: list_insert_after_def park_def Let_def)
  have ls: "lists (snd (rt_thread_suspend c (upd_thr c (\<lambda>th. th\<lparr>t_error := RT_EOK\<rparr>) s))) = lists s"
    using suspend_running(3)[of "upd_thr c (\<lambda>th. th\<lparr>t_error := RT_EOK\<rparr>) s" c] assms(1-3)
    by (simp add: kinv_upd_thr kframe)
  have "rt_mp_alloc n time s = (Blocked, None, ?s')"
    using assms(2,4-6)
    by (simp add: rt_mp_alloc_def mp_alloc_again_def rt_thread_self_def Let_def ins ls park_upd_mp)
  moreover note g = give_up_effect[OF ke ce re _ q, where time = time, simplified]
  moreover have "mps ?e n = (mps s n)\<lparr>mp_suspend_count := mp_suspend_count (mps s n) + 1\<rparr>"
    by (simp add: kframe)
  ultimately show ?thesis using g(4)[of "MpL n"] by (simp add: kframe)
qed

text \<open>A release with a waiting thread wakes the first of the list.\<close>

lemma mp_free_wakes:
  assumes "kinv s" "cur s = Some c" "mp_rep n (mps s n) fl" "b < unat (mp_total_count (mps s n))"
    "b \<notin> set fl" "0 < mp_suspend_count (mps s n)" "lists s (MpL n) = t # q"
  defines "s' \<equiv> rt_mp_free n b s"
  shows "kinv s'" "mp_rep n (mps s' n) (b # fl)" "awake s' t" "lists s' (MpL n) = q"
    "mp_suspend_count (mps s' n) = mp_suspend_count (mps s n) - 1" "t_error (thr s' t) = RT_EOK"
proof -
  let ?s1 = "upd_mp n (mp_put b) s"
  let ?s2 = "upd_thr t (\<lambda>th. th\<lparr>t_error := RT_EOK\<rparr>) ?s1"
  let ?s3 = "snd (rt_thread_resume t ?s2)"
  let ?s4 = "upd_mp n (\<lambda>x. x\<lparr>mp_suspend_count := mp_suspend_count x - 1\<rparr>) ?s3"
  have c: "mp_cells (mps s n) b = OwnedBy n" using assms(3-5) by (simp add: mp_rep_def)
  have e: "s' = rt_schedule ?s4"
    using c assms(6,7) unfolding s'_def
    by (simp add: rt_mp_free_def Let_def kframe mp_put_def[abs_def])
  have k2: "kinv ?s2" using assms(1) by (simp add: kinv_upd_thr)
  have tl: "t \<in> set (lists ?s2 (MpL n))" using assms(7) by (simp add: kframe)
  note m = wait_list_member[OF k2 _ tl, simplified]
  note r = resume_effect[OF k2 m(1)]
  have k4: "kinv ?s4" using r(1) by simp
  have c4: "cur ?s4 = Some c" using r(2) assms(2) by (simp add: kframe)
  note oth = rt_schedule_others[OF k4 c4]
  have "distinct (t # q)" using m(2) assms(7) by (simp add: kframe)
  then have l3: "lists ?s3 (MpL n) = q" using r(4)[of "MpL n"] assms(7) by (simp add: kframe removeAll_id_if_notin)
  show "kinv s'" unfolding e by (rule rt_schedule_kinv[OF k4 c4])
  show "awake s' t" using oth(2)[of t] r(3) unfolding e awake_def by (simp add: kframe)
  show "lists s' (MpL n) = q" unfolding e using oth(3)[of "MpL n"] l3 by (simp add: kframe)
  have mp: "mps s' n = (mp_put b (mps s n))\<lparr>mp_suspend_count := mp_suspend_count (mps s n) - 1\<rparr>"
    unfolding e using r(17) by (simp add: kframe mp_put_def)
  show "mp_suspend_count (mps s' n) = mp_suspend_count (mps s n) - 1" by (simp add: mp)
  show "mp_rep n (mps s' n) (b # fl)"
    using mp_put_rep[OF assms(3-5)] by (simp add: mp mp_rep_def)
  show "t_error (thr s' t) = RT_EOK"
    unfolding e using r(6)[of t] by (simp add: kframe) (simp add: upd_thr_def)
qed

text \<open>
  A timeout takes the waiting thread off the list but leaves the count; when nobody else waits, the next
  release of a block takes the list head for a thread.
\<close>

lemma timeout_keeps_count:
  assumes "kinv s" "cur s = Some c" "statm s t = RT_THREAD_SUSPEND" "ThreadTimer t \<notin> set (timer_list s)"
  shows "mps (rt_thread_timeout t s) = mps s"
    "lists (rt_thread_timeout t s) (MpL n) = removeAll t (lists s (MpL n))"
proof -
  have ok: "thread_ok s t"
    using kbaseD(7)[OF kinv_partsD(1)[OF assms(1)]] assms(3) by (simp add: live_def)
  note u = timeout_unfold[OF assms(3) ok]
  have i: "kinv (timeout_wake t s)" by (rule timeout_wake_kinv[OF assms(1,3,4)])
  have cw: "cur (timeout_wake t s) = Some c" using assms(2) by (simp add: timeout_wake_cur)
  show "mps (rt_thread_timeout t s) = mps s" unfolding u by (simp add: kframe timeout_wake_def)
  show "lists (rt_thread_timeout t s) (MpL n) = removeAll t (lists s (MpL n))"
    unfolding u using rt_schedule_others(3)[OF i cw, of "MpL n"] by (simp add: timeout_wake_sel(6))
qed

lemma mp_free_after_timeout:
  assumes "mp_cells (mps s n) b = OwnedBy n" "0 < mp_suspend_count (mps s n)" "lists s (MpL n) = []"
  shows "stuck (rt_mp_free n b s)"
  using assms by (simp add: rt_mp_free_def Let_def kframe)

end
