(* ===== verification/Sample.thy ===== *)
theory Sample
  imports Kstep Mutex Event Mailbox MsgQueue MemPool
begin

text \<open>
  A concrete kernel state with a running, a ready and several waiting threads, at which the properties
  are instantiated. Thread 0 runs at priority 10; thread 1 is ready at 10; threads 2 to 8 wait for the
  semaphore 0, the mutex 0, the event 0, the mailbox 0 (receiver), the mailbox 1 (sender), the message
  queue 0 and the pool 0; thread 9 sleeps until tick 105; all others are not initialised.
\<close>

definition sample_thread :: "u8 \<Rightarrow> u8 \<Rightarrow> rt_thread" where
  "sample_thread st p =
     \<lparr>t_type = 129, t_stat = st, t_current_priority = p, t_init_priority = p,
      t_number_mask = push_bit (unat p) 1, t_init_tick = 10, t_remaining_tick = 1, t_error = 0,
      t_event_set = 5, t_event_info = 5, t_cleanup = False, t_stack_addr = 0x20000000,
      t_stack_size = 512, t_sp = 0x20000100, t_stack_guard = 35\<rparr>"

fun sample_home :: "tid \<Rightarrow> listid option" where
  "sample_home t =
     (if t = 1 then Some (ReadyL 10) else if t = 2 then Some (SemL 0) else if t = 3 then Some (MutexL 0)
      else if t = 4 then Some (EventL 0) else if t = 5 then Some (MbRecvL 0)
      else if t = 6 then Some (MbSendL 1) else if t = 7 then Some (MqL 0)
      else if t = 8 then Some (MpL 0) else None)"

definition sample_lists :: "listid \<Rightarrow> tid list" where
  "sample_lists l = filter (\<lambda>t. sample_home t = Some l) [1, 2, 3, 4, 5, 6, 7, 8]"

definition sample_mutex :: "u16 \<Rightarrow> u8 \<Rightarrow> u8 \<Rightarrow> tid option \<Rightarrow> rt_mutex" where
  "sample_mutex v p h w =
     \<lparr>m_type = 131, m_flag = 1, m_value = v, m_original_priority = p, m_hold = h, m_owner = w\<rparr>"

definition sample_mbox :: "u16 \<Rightarrow> rt_mailbox" where
  "sample_mbox e = \<lparr>mb_type = 133, mb_flag = 0, mb_pool = [7, 8], mb_size = 2, mb_entry = e,
     mb_in_offset = (if e = 1 then 1 else 0), mb_out_offset = 0\<rparr>"

definition sample_mq :: rt_messagequeue where
  "sample_mq = mq_setup 134 0 4 2 \<lparr>mq_type = 134, mq_flag = 0, mq_msg_size = 4, mq_max_msgs = 2,
     mq_entry = 0, mq_head = None, mq_tail = None, mq_free = None, mq_next = (\<lambda>_. None),
     mq_data = (\<lambda>_. [0, 0, 0, 0])\<rparr>"

definition sample_mp :: "nat \<Rightarrow> u32 \<Rightarrow> rt_mempool" where
  "sample_mp n w = \<lparr>mp_type = 136, mp_size = 16, mp_block_size = 4, mp_block_list = None,
     mp_total_count = 2, mp_free_count = 0, mp_suspend_count = w, mp_cells = (\<lambda>_. OwnedBy n)\<rparr>"

definition sample :: kernel where
  "sample =
     \<lparr>thr = (\<lambda>t. if t = 0 then sample_thread 3 10 else if t = 1 then sample_thread 1 10
              else if t \<le> 9 then sample_thread 2 12 else sample_thread 0 12),
      lists = sample_lists, ready_group = 1024, cur = Some 0, cur_priority = 10, lock_nest = 0,
      int_nest = 0,
      timers = (\<lambda>i. \<lparr>tm_type = 138, tm_flag = (if i = ThreadTimer 9 then 1 else 0), tm_init_tick = 5,
                    tm_timeout_tick = 105\<rparr>),
      timer_list = [ThreadTimer 9], tick = 100,
      sems = (\<lambda>n. \<lparr>s_type = 130, s_flag = 0, s_value = (if n = 1 then 3 else 0)\<rparr>),
      mutexes = (\<lambda>n. if n = 0 then sample_mutex 0 10 1 (Some 0)
                    else if n = 1 then sample_mutex 0 10 1 (Some 1)
                    else if n = 3 then sample_mutex 0 10 2 (Some 0)
                    else if n = 4 then sample_mutex 0 10 1 (Some 0)
                    else sample_mutex 1 255 0 None),
      events = (\<lambda>n. \<lparr>e_type = 132, e_flag = 0, e_set = (if n = 1 then 7 else 4)\<rparr>),
      mboxes = (\<lambda>n. sample_mbox (if n = 1 then 2 else if n = 2 then 1 else 0)),
      mqs = (\<lambda>n. sample_mq), mps = (\<lambda>n. if n = 1 then mp_setup 136 16 4 2 (sample_mp 1 0)
               else sample_mp n (if n = 0 \<or> n = 2 then 1 else 0)), stuck = False\<rparr>"

lemma sample_member: "t \<in> set (sample_lists l) \<longleftrightarrow> sample_home t = Some l"
  by (auto simp: sample_lists_def split: if_splits)

lemma sample_stat:
  "statm sample t = (if t = 0 then RT_THREAD_RUNNING else if t = 1 then RT_THREAD_READY
     else if t \<le> 9 then RT_THREAD_SUSPEND else RT_THREAD_INIT)"
  by (simp add: statm_def sample_def sample_thread_def)

lemma sample_prio: "prio sample t = (if t \<le> 1 then 10 else 12)"
  by (auto simp: prio_def sample_def sample_thread_def)

lemma sample_thread_fields:
  "t_type (sample_thread st p) = 129" "t_current_priority (sample_thread st p) = p"
  "t_number_mask (sample_thread st p) = push_bit (unat p) 1"
  "rt_scheduler_stack_check (sample_thread st p) = StackOk"
  by (simp_all add: sample_thread_def rt_scheduler_stack_check_def)

lemma sample_thr:
  "thr sample t = sample_thread (if t = 0 then 3 else if t = 1 then 1 else if t \<le> 9 then 2 else 0)
     (if t \<le> 1 then 10 else 12)"
  by (simp add: sample_def)

lemma sample_timer: "tm_type (timers sample i) = 138"
  by (simp add: sample_def)

lemma sample_thread_ok: "thread_ok sample t"
  by (simp add: thread_ok_def prio_def sample_thr sample_thread_fields sample_timer
      rt_object_get_type_def rt_object_is_systemobject_def)

lemma sample_bit: "bit (1024 :: u32) p \<longleftrightarrow> p = 10"
proof -
  have "(1024 :: u32) = 2 ^ 10" by simp
  then show ?thesis by (simp only: bit_prio_mask) auto
qed

lemma sample_kinv: "kinv sample"
proof -
  have l: "lists sample = sample_lists" by (simp add: sample_def)
  have r: "ready_group sample = 1024" by (simp add: sample_def)
  have n: "lists sample (ReadyL p) \<noteq> [] \<longleftrightarrow> p = 10" for p
    by (auto simp: l sample_lists_def)
  have "lists_ok sample"
    by (simp add: lists_ok_def l sample_member) (simp add: sample_lists_def)
  moreover have "members_ok sample"
    by (auto simp: members_ok_def l sample_member sample_stat sample_prio split: if_splits)
  moreover have "bits_ok sample" by (simp only: bits_ok_def r n sample_bit) simp
  moreover have "timers_ok sample"
    by (simp add: timers_ok_def sample_stat) (simp add: sample_def)
  moreover have "t \<in> set (lists sample (ReadyL (prio sample t)))" if "statm sample t = RT_THREAD_READY" for t
    using that by (auto simp: sample_stat l sample_member sample_prio split: if_splits)
  moreover have "kcur sample"
    by (auto simp: kcur_def sample_stat l sample_member split: if_splits) (auto simp: sample_def)
  ultimately show ?thesis by (simp add: kinv_def kbase_def sample_thread_ok)
qed


lemma sample_sel:
  "cur sample = Some 0" "int_nest sample = 0" "lock_nest sample = 0" "tick sample = 100"
  "stuck sample = False" "timer_list sample = [ThreadTimer 9]" "ready_group sample = 1024"
  "timers sample i = \<lparr>tm_type = 138, tm_flag = (if i = ThreadTimer 9 then 1 else 0), tm_init_tick = 5,
     tm_timeout_tick = 105\<rparr>"
  "sems sample n = \<lparr>s_type = 130, s_flag = 0, s_value = (if n = 1 then 3 else 0)\<rparr>"
  "mutexes sample n = (if n = 0 then sample_mutex 0 10 1 (Some 0)
     else if n = 1 then sample_mutex 0 10 1 (Some 1) else if n = 3 then sample_mutex 0 10 2 (Some 0)
     else if n = 4 then sample_mutex 0 10 1 (Some 0) else sample_mutex 1 255 0 None)"
  "events sample n = \<lparr>e_type = 132, e_flag = 0, e_set = (if n = 1 then 7 else 4)\<rparr>"
  "mboxes sample n = sample_mbox (if n = 1 then 2 else if n = 2 then 1 else 0)"
  "mqs sample n = sample_mq" 
  "mps sample n = (if n = 1 then mp_setup 136 16 4 2 (sample_mp 1 0)
     else sample_mp n (if n = 0 \<or> n = 2 then 1 else 0))"
  by (simp_all add: sample_def)

lemma sample_list:
  "lists sample (ReadyL p) = (if p = 10 then [1] else [])" "lists sample DefunctL = []"
  "lists sample (SemL n) = (if n = 0 then [2] else [])"
  "lists sample (MutexL n) = (if n = 0 then [3] else [])"
  "lists sample (EventL n) = (if n = 0 then [4] else [])"
  "lists sample (MbRecvL n) = (if n = 0 then [5] else [])"
  "lists sample (MbSendL n) = (if n = 1 then [6] else [])"
  "lists sample (MqL n) = (if n = 0 then [7] else [])"
  "lists sample (MpL n) = (if n = 0 then [8] else [])"
  by (simp_all add: sample_def sample_lists_def)

lemma sample_live: "t \<le> 9 \<Longrightarrow> live (statm sample t)"
  by (auto simp: sample_stat live_def)

lemma sample_run: "running sample 0"
  by (simp add: running_def sample_sel sample_stat)

lemma sample_tm_ok: "tm_ok sample"
  by (simp add: tm_ok_def timers_idle_def one_shot_def timer_sorted_def tkey_def tmo_def sample_sel)

lemma sample_sem_inv: "sem_inv n sample"
  by (simp add: sem_inv_def is_sem_def rt_object_get_type_def sample_sel sample_list)

lemma sample_ksys: "ksys sample"
  by (simp add: ksys_def sample_kinv sample_tm_ok sems_ok_def sample_sem_inv sample_sel)

lemma sample_is:
  "is_sem n sample" "is_mutex n sample" "is_event n sample" "is_mb n sample" "is_mq n sample" "is_mp n sample"
  by (simp_all add: is_sem_def is_mutex_def is_event_def is_mb_def is_mq_def is_mp_def sample_sel
      rt_object_get_type_def sample_mutex_def sample_mbox_def sample_mq_def mq_setup_def
      sample_mp_def mp_setup_def mq_reset_queue_inv)

lemma sample_mutex_inv: "mutex_inv n sample"
  by (simp add: mutex_inv_def sample_is sample_sel sample_mutex_def sample_list)

lemma sample_event_inv: "event_inv 0 sample"
  by (simp add: event_inv_def sample_is sample_sel sample_list event_cond_def sample_thr sample_thread_def)

lemma sample_mb: "mb_inv (mboxes sample n)" "mb_list (mboxes sample 0) = []"
  "mb_list (mboxes sample 1) = [7, 8]" "mb_list (mboxes sample 2) = [7]"
  by (simp_all add: mb_inv_def mb_list_def sample_sel sample_mbox_def upt_rec)

lemma sample_mq: "mq_inv (mqs sample n)" "mq_list (mqs sample n) = []"
  "mq_max_msgs (mqs sample n) = 2" "mq_msg_size (mqs sample n) = 4"
  by (simp_all only: sample_sel sample_mq_def mq_setup_inv) (simp_all add: mq_setup_def mq_reset_queue_inv)

lemma sample_mp:
  "n \<noteq> 1 \<Longrightarrow> mp_rep n (mps sample n) []" "mp_rep 1 (mps sample 1) [0, 1]"
  "mp_total_count (mps sample n) = 2" "mp_suspend_count (mps sample n) = (if n = 0 \<or> n = 2 then 1 else 0)"
  "n \<noteq> 1 \<Longrightarrow> mp_cells (mps sample n) b = OwnedBy n"
  using mp_setup_rep[of 2 1 136 16 4 "sample_mp 1 0"]
  by (simp_all add: sample_sel sample_mp_def mp_rep_def mp_setup_def upt_rec)

end
