(* ===== verification/Timeout.thy ===== *)
theory Timeout
  imports Kstep
begin

text \<open>
  How long a thread waits: a thread that sleeps, or waits for an object with a time limit, for \<open>n\<close> ticks
  stays suspended during the first \<open>n - 1\<close> ticks and is ready again after tick \<open>n\<close>, with the error
  \<^verbatim>\<open>-RT_ETIMEOUT\<close>, when nothing else wakes it.
\<close>

fun run_ticks :: "(nat \<Rightarrow> kernel \<Rightarrow> kernel) \<Rightarrow> nat \<Rightarrow> nat \<Rightarrow> kernel \<Rightarrow> kernel option" where
  "run_ticks tf fuel 0 s = Some s"
| "run_ticks tf fuel (Suc k) s =
     (case rt_tick_increase tf fuel s of None \<Rightarrow> None | Some s' \<Rightarrow> run_ticks tf fuel k s')"

definition pending :: "kernel \<Rightarrow> tid \<Rightarrow> nat \<Rightarrow> bool" where
  "pending s t n \<longleftrightarrow> ThreadTimer t \<in> set (timer_list s) \<and> tkey (tick s) (tmo s (ThreadTimer t)) = n"

lemma pending_suspended: "ksys s \<Longrightarrow> pending s t n \<Longrightarrow> statm s t = RT_THREAD_SUSPEND"
  using timer_off[OF kinv_partsD(1)[OF ksysD(1)]] by (auto simp: pending_def)

lemma tick_pending:
  assumes "ksys s" "length (timer_list s) < fuel" "pending s t n" "0 < n"
  shows "\<exists>s'. rt_tick_increase tf fuel s = Some s' \<and> ksys s' \<and> length (timer_list s') < fuel \<and>
    (if n = 1 then awake s' t \<and> t_error (thr s' t) = -RT_ETIMEOUT \<and>
         (\<forall>l. wait_list l \<longrightarrow> t \<notin> set (lists s' l))
     else pending s' t (n - 1) \<and> t_error (thr s' t) = t_error (thr s t) \<and>
         (\<forall>l. wait_list l \<longrightarrow> t \<in> set (lists s' l) \<longleftrightarrow> t \<in> set (lists s l)))"
proof -
  note d = ksysD[OF assms(1)]
  obtain c where c: "cur s = Some c" using assms(1) by (auto simp: ksys_def)
  let ?k = "tkey (tick s) (tmo s (ThreadTimer t))"
  have p: "ThreadTimer t \<in> set (timer_list s)" "?k = n" using assms(3) by (simp_all add: pending_def)
  obtain s' where s': "rt_tick_increase tf fuel s = Some s'" "tick s' = tick s + 1" "tmo s' = tmo s"
    "timer_list s' = filter (\<lambda>i. \<not> tkey (tick s) (tmo s i) \<le> 1) (timer_list s)"
    "?k \<le> 1 \<Longrightarrow> awake s' t \<and> t_error (thr s' t) = -RT_ETIMEOUT"
    "\<And>l. wait_list l \<Longrightarrow> lists s' l = filter (\<lambda>t. \<not> (ThreadTimer t \<in> set (timer_list s) \<and>
       tkey (tick s) (tmo s (ThreadTimer t)) \<le> 1)) (lists s l)"
    "\<not> ?k \<le> 1 \<Longrightarrow> t_error (thr s' t) = t_error (thr s t)"
    using tick_increase_threads[OF d(1) c d(5) assms(2) d(6), of tf] p(1) by blast
  have "ksys s'" by (rule ksys_tick[OF assms(1) s'(1) assms(2)])
  moreover have "length (timer_list s') < fuel"
    using assms(2) le_less_trans[OF length_filter_le] by (simp add: s'(4))
  moreover have "pending s' t (n - 1)" if "n \<noteq> 1"
    using p that assms(4) tkey_step[of "tick s" "tmo s (ThreadTimer t)"]
    by (simp add: pending_def s'(2-4))
  ultimately show ?thesis using s'(1,5-7) p assms(4) by auto
qed

lemma run_ticks_pending:
  assumes "ksys s" "length (timer_list s) < fuel" "pending s t n" "k < n"
  shows "\<exists>s'. run_ticks tf fuel k s = Some s' \<and> ksys s' \<and> length (timer_list s') < fuel \<and>
    pending s' t (n - k) \<and> t_error (thr s' t) = t_error (thr s t) \<and>
    (\<forall>l. wait_list l \<longrightarrow> t \<in> set (lists s' l) \<longleftrightarrow> t \<in> set (lists s l))"
  using assms
proof (induction k arbitrary: s n)
  case 0
  then show ?case by simp
next
  case (Suc k)
  have n: "n \<noteq> 1" "0 < n" using Suc.prems(4) by simp_all
  obtain s1 where s1: "rt_tick_increase tf fuel s = Some s1" "ksys s1" "length (timer_list s1) < fuel"
    "pending s1 t (n - 1)" "t_error (thr s1 t) = t_error (thr s t)"
    "\<And>l. wait_list l \<Longrightarrow> t \<in> set (lists s1 l) \<longleftrightarrow> t \<in> set (lists s l)"
    using tick_pending[OF Suc.prems(1-3) n(2), of tf] n(1) by auto
  with Suc.IH[OF s1(2-4)] Suc.prems(4) show ?case by auto
qed

lemma run_ticks_Suc:
  "run_ticks tf fuel (Suc k) s =
     (case run_ticks tf fuel k s of None \<Rightarrow> None | Some s' \<Rightarrow> rt_tick_increase tf fuel s')"
proof (induction k arbitrary: s)
  case 0
  then show ?case by (simp split: option.splits)
next
  case (Suc k)
  show ?case
  proof (cases "rt_tick_increase tf fuel s")
    case (Some s1)
    with Suc[of s1] show ?thesis by simp
  qed simp
qed

text \<open>The whole wait of a thread whose timer runs off in \<open>n\<close> ticks.\<close>

definition times_out :: "(nat \<Rightarrow> kernel \<Rightarrow> kernel) \<Rightarrow> nat \<Rightarrow> tid \<Rightarrow> nat \<Rightarrow> kernel \<Rightarrow> bool" where
  "times_out tf fuel t n s \<longleftrightarrow>
     (\<forall>k < n. \<exists>s'. run_ticks tf fuel k s = Some s' \<and> ksys s' \<and> statm s' t = RT_THREAD_SUSPEND \<and>
        t_error (thr s' t) = t_error (thr s t)) \<and>
     (\<exists>s'. run_ticks tf fuel n s = Some s' \<and> ksys s' \<and> awake s' t \<and>
        t_error (thr s' t) = -RT_ETIMEOUT \<and> (\<forall>l. wait_list l \<longrightarrow> t \<notin> set (lists s' l)))"

lemma pending_times_out:
  assumes "ksys s" "length (timer_list s) < fuel" "pending s t n" "0 < n"
  shows "times_out tf fuel t n s"
proof -
  have wait: "\<exists>s'. run_ticks tf fuel k s = Some s' \<and> ksys s' \<and> statm s' t = RT_THREAD_SUSPEND \<and>
        t_error (thr s' t) = t_error (thr s t)" if "k < n" for k
    using run_ticks_pending[OF assms(1-3) that, of tf] pending_suspended by blast
  obtain m where m: "n = Suc m" using assms(4) by (cases n) auto
  obtain s1 where s1: "run_ticks tf fuel m s = Some s1" "ksys s1" "length (timer_list s1) < fuel"
    "pending s1 t 1"
    using run_ticks_pending[OF assms(1-3), of m tf] m by auto
  from tick_pending[OF s1(2-4), of tf] obtain s2 where "rt_tick_increase tf fuel s1 = Some s2" "ksys s2"
    "awake s2 t" "t_error (thr s2 t) = -RT_ETIMEOUT" "\<forall>l. wait_list l \<longrightarrow> t \<notin> set (lists s2 l)"
    by auto
  moreover from this(1) s1(1) have "run_ticks tf fuel n s = Some s2"
    unfolding m run_ticks_Suc by simp
  ultimately show ?thesis using wait by (auto simp: times_out_def)
qed

text \<open>Where the timers are armed.\<close>

lemma armed:
  fixes time :: u32
  assumes "thread_ok s t" "time < 2147483647" "kinv (start_thread_timer t time s)"
    and "cur (start_thread_timer t time s) = Some c"
  shows "pending (rt_schedule (start_thread_timer t time s)) t (unat time)"
    "length (timer_list (rt_schedule (start_thread_timer t time s))) \<le> Suc (length (timer_list s))"
proof -
  have ty: "rt_object_get_type (tm_type (timers s (ThreadTimer t))) = RT_Object_Class_Timer"
    using assms(1) by (simp add: thread_ok_def)
  note st = start_thread_timer_state[OF ty assms(2)]
  have sel: "timer_list (rt_schedule (start_thread_timer t time s)) = timer_list (start_thread_timer t time s)"
    "tmo (rt_schedule (start_thread_timer t time s)) = tmo (start_thread_timer t time s)"
    "tick (rt_schedule (start_thread_timer t time s)) = tick s"
    using rt_schedule_sel(3,4)[OF assms(3,4)] by (simp_all add: tmo_def fun_eq_iff kframe)
  show "pending (rt_schedule (start_thread_timer t time s)) t (unat time)"
    by (simp add: pending_def sel st(1,2) tkey_def)
  have "length (timer_insert f i x ts) = Suc (length ts)" for f i x ts
    by (induction ts) auto
  then show "length (timer_list (rt_schedule (start_thread_timer t time s))) \<le> Suc (length (timer_list s))"
    by (simp add: sel st(2) length_removeAll_less_eq)
qed

lemma sleep_armed:
  fixes time :: u32
  assumes "ksys s" "running s c" "time < 2147483647"
  shows "pending (rt_thread_sleep time s) c (unat time)"
    "length (timer_list (rt_thread_sleep time s)) \<le> Suc (length (timer_list s))"
proof -
  note d = ksysD[OF assms(1)]
  have c: "cur s = Some c" and r: "statm s c = RT_THREAD_RUNNING" using assms(2) by (simp_all add: running_def)
  have ok: "thread_ok s c" using kbaseD(7)[OF kinv_partsD(1)[OF d(1)]] r by (simp add: live_def)
  let ?z = "snd (rt_thread_suspend c s)"
  have z: "ksys ?z"
    by (rule ksys_suspend[OF assms(1)]) (use ok c in \<open>simp_all add: is_thread_def thread_ok_def\<close>)
  have okz: "thread_ok ?z c" using ok by (simp add: kframe)
  have e: "rt_thread_sleep time s = rt_schedule (start_thread_timer c time ?z)"
    using c ok by (simp add: rt_thread_sleep_def rt_thread_self_def thread_ok_def)
  have k: "kinv (start_thread_timer c time ?z)"
    by (rule kinv_start_thread_timer[OF ksysD(1)[OF z]]) (simp add: suspend_running(2)[OF d(1) c r])
  have cz: "cur (start_thread_timer c time ?z) = Some c" using c by (simp add: kframe)
  have off: "timer_list ?z = timer_list s"
    using timer_off[OF kinv_partsD(1)[OF d(1)], of c] r ok
    by (auto simp: suspend_running(1)[OF d(1) c r] rt_timer_stop_def kframe removeAll_id_if_notin)
  show "pending (rt_thread_sleep time s) c (unat time)"
    "length (timer_list (rt_thread_sleep time s)) \<le> Suc (length (timer_list s))"
    using armed[OF okz assms(3) k cz] by (simp_all add: e off)
qed

lemma block_on_armed:
  fixes flag :: u8 and time :: u32
  assumes "kinv s" "cur s = Some c" "statm s c = RT_THREAD_RUNNING" "wait_list l"
    and "0 < sint time" "sint time < 2147483647"
  shows "pending (block_on l c flag time s) c (unat time)"
    "length (timer_list (block_on l c flag time s)) \<le> Suc (length (timer_list s))"
proof -
  have k: "kbase {} s" using assms(1) by (simp add: kinv_def)
  let ?q = "wait_insert flag (\<lambda>u. t_current_priority (thr s u)) c (lists s l)"
  have "c \<notin> set (lists s l)" using detached_running[OF k assms(3)] by (simp add: detached_def)
  then have d: "distinct ?q"
    using kbaseD(1)[OF k] by (intro distinct_wait_insert) (simp_all add: lists_ok_def)
  let ?p = "park l ?q c s"
  note e = park_effect[OF assms(1-4) set_wait_insert d]
  have ok: "thread_ok ?p c" using kbaseD(7)[OF k] assms(3) by (simp add: live_def e(7))
  have "sint time = uint time" using assms(5) by (intro sint_eq_uint_if_nonneg) simp
  then have t: "time < 2147483647" using assms(6) by (simp add: word_less_def)
  have kp: "kinv (start_thread_timer c time ?p)" by (rule kinv_start_thread_timer[OF e(1)]) (simp add: e(4))
  have cp: "cur (start_thread_timer c time ?p) = Some c" using e(2) by (simp add: kframe)
  have b: "block_on l c flag time s = rt_schedule (start_thread_timer c time ?p)"
    using assms(5) by (simp add: block_on_def list_suspend_park[OF assms(1-3)] give_up_def)
  have off: "timer_list ?p = timer_list s"
    using timer_off[OF k, of c] assms(3) ok e(7)
    by (auto simp: park_def Let_def suspend_running(1)[OF assms(1-3)] rt_timer_stop_def kframe
        removeAll_id_if_notin)
  show "pending (block_on l c flag time s) c (unat time)"
    "length (timer_list (block_on l c flag time s)) \<le> Suc (length (timer_list s))"
    using armed[OF ok t kp cp] by (simp_all add: b off)
qed

end
