(* ===== verification/SchedProps.thy ===== *)
theory SchedProps
  imports Sample Timeout
begin

text \<open>
  The properties of threads, scheduler, clock and timers, each with an instance at the sample state.
\<close>

section \<open>Scheduling\<close>

text \<open>C4: Whenever the scheduler is not locked, a call of \<^verbatim>\<open>rt_schedule\<close> leaves a running thread whose
  priority is at least as good as that of every ready thread, and the kernel consistent.\<close>

theorem schedule_runs_highest_priority:
  assumes "kinv s" "cur s = Some c" "lock_nest s = 0"
    and "statm s c = RT_THREAD_RUNNING \<or> ready_group s \<noteq> 0"
  shows "kinv (rt_schedule s) \<and> stuck (rt_schedule s) = stuck s \<and>
    (\<exists>t. cur (rt_schedule s) = Some t \<and> statm (rt_schedule s) t = RT_THREAD_RUNNING \<and>
      (\<forall>u. statm (rt_schedule s) u = RT_THREAD_READY \<longrightarrow>
        prio (rt_schedule s) t \<le> prio (rt_schedule s) u))"
  using rt_schedule_kinv[OF assms(1,2)] rt_schedule_sel(1)[OF assms(1,2)] rt_schedule_best[OF assms]
  by blast

lemma schedule_runs_highest_priority_witness:
  "kinv (rt_schedule sample) \<and> (\<exists>t. statm (rt_schedule sample) t = RT_THREAD_RUNNING)"
  using schedule_runs_highest_priority[OF sample_kinv, of 0] by (auto simp: sample_sel sample_stat)

text \<open>Yielding is fair among equals: when the best ready threads have the priority of the caller,
  the first of them runs next and the caller goes to the end of their queue.\<close>

theorem yield_round_robin:
  assumes "kinv s" "cur s = Some c" "statm s c = RT_THREAD_RUNNING" "lock_nest s = 0"
    and "lists s (ReadyL (prio s c)) = t # ts" "\<forall>q < prio s c. lists s (ReadyL q) = []"
  shows "fst (rt_thread_yield s) = RT_EOK \<and> cur (snd (rt_thread_yield s)) = Some t \<and>
    statm (snd (rt_thread_yield s)) t = RT_THREAD_RUNNING \<and>
    statm (snd (rt_thread_yield s)) c = RT_THREAD_READY \<and>
    lists (snd (rt_thread_yield s)) (ReadyL (prio s c)) = ts @ [c] \<and>
    kinv (snd (rt_thread_yield s))"
proof -
  note b = kbaseD[OF kinv_partsD(1)[OF assms(1)]]
  have ok: "prio s c < 32" using b(7)[of c] assms(3) by (simp add: live_def thread_ok_def)
  have tc: "t \<noteq> c" using members_okD(1)[OF b(2), of t "ReadyL (prio s c)", OF _ refl] assms(3,5) by auto
  have d: "t \<notin> set ts" using b(1) assms(5) unfolding lists_ok_def by (metis distinct.simps(2))
  from assms(1,2) show ?thesis
  proof (cases rule: rt_schedule_cases)
    case idle
    then have "\<not> bit (ready_group s) (prio s c)" using assms(4) by simp
    with b(3) ok assms(5) show ?thesis by (simp add: bits_ok_def)
  next
    case (keep hp u us)
    with assms(5) show ?thesis by simp
  next
    case (switch hp u us)
    have "hp = prio s c" using switch(2,4,8) assms(3,5,6) by (metis list.distinct(1) nat_less_le)
    with switch assms(3,5) tc d rt_schedule_kinv[OF assms(1,2)] show ?thesis
      by (simp add: rt_thread_yield_def switch_to_stat removeAll_id_if_notin)
  qed
qed

lemma yield_round_robin_witness:
  "cur (snd (rt_thread_yield sample)) = Some 1 \<and> statm (snd (rt_thread_yield sample)) 0 = RT_THREAD_READY"
  using yield_round_robin[OF sample_kinv, of 0 1 "[]"]
  by (simp add: sample_sel sample_stat sample_list sample_prio)

text \<open>The time slice: a tick only counts down the slice of the running thread until the slice is
  used up; then the slice is refilled and the thread makes room for the next one of its priority.\<close>

theorem time_slice:
  assumes "kinv s" "cur s = Some c" "statm s c = RT_THREAD_RUNNING" "lock_nest s = 0"
    and "lists s (ReadyL (prio s c)) = t # ts" "\<forall>q < prio s c. lists s (ReadyL q) = []"
  shows "(t_remaining_tick (thr s c) \<noteq> 1 \<longrightarrow> cur (tick_account s) = Some c \<and>
      t_remaining_tick (thr (tick_account s) c) = t_remaining_tick (thr s c) - 1 \<and>
      lists (tick_account s) = lists s) \<and>
    (t_remaining_tick (thr s c) = 1 \<longrightarrow> cur (tick_account s) = Some t \<and>
      t_remaining_tick (thr (tick_account s) c) = t_init_tick (thr s c) \<and>
      lists (tick_account s) (ReadyL (prio s c)) = ts @ [c])"
proof (cases "t_remaining_tick (thr s c) = 1")
  case False
  then have "t_remaining_tick (thr s c) - 1 \<noteq> 0" by simp
  then show ?thesis using False assms(2)
    by (simp add: tick_account_def rt_thread_self_def Let_def upd_thr_def)
next
  case True
  let ?m = "upd_thr c (\<lambda>th. th\<lparr>t_remaining_tick := t_init_tick th\<rparr>)
    (upd_thr c (\<lambda>th. th\<lparr>t_remaining_tick := t_remaining_tick th - 1\<rparr>) (s\<lparr>tick := tick s + 1\<rparr>))"
  have e: "tick_account s = snd (rt_thread_yield ?m)"
    using True assms(2) by (simp add: tick_account_def rt_thread_self_def Let_def upd_thr_def)
  have n: "neutral (\<lambda>th. th\<lparr>t_remaining_tick := t_init_tick th\<rparr>)"
    "neutral (\<lambda>th. th\<lparr>t_remaining_tick := t_remaining_tick th - 1\<rparr>)"
    by (simp_all add: neutral_def)
  have k: "kinv ?m" using assms(1) kinv_frame[of "s\<lparr>tick := tick s + 1\<rparr>" s]
    by (simp add: kinv_upd_thr n statm_def prio_def thread_ok_def fun_eq_iff)
  have sel: "cur ?m = Some c" "lock_nest ?m = 0" "lists ?m = lists s" "statm ?m = statm s"
    "prio ?m = prio s" "t_remaining_tick (thr ?m c) = t_init_tick (thr s c)"
    using assms(2,4) by (auto simp: upd_thr_def statm_def prio_def fun_eq_iff)
  from k sel(1) show ?thesis
  proof (cases rule: rt_schedule_cases)
    case idle
    then have "\<not> bit (ready_group ?m) (prio s c)" using sel(2) by simp
    moreover have "prio s c < 32"
      using kbaseD(7)[OF kinv_partsD(1)[OF assms(1)], of c] assms(3) by (simp add: live_def thread_ok_def)
    ultimately show ?thesis
      using kbaseD(3)[OF kinv_partsD(1)[OF k]] assms(5) unfolding bits_ok_def sel(3) by simp
  next
    case (keep hp u us)
    with assms(5) show ?thesis by (simp add: sel)
  next
    case (switch hp u us)
    have hp: "hp = prio s c"
      using switch(2,4,8) assms(3,5,6) unfolding sel(3-5) by (metis list.distinct(1) nat_less_le)
    have u: "u = t" "us = ts" using switch(2) assms(5) unfolding sel(3) hp by simp_all
    have d: "t \<notin> set ts"
      using kbaseD(1)[OF kinv_partsD(1)[OF assms(1)]] assms(5) unfolding lists_ok_def
      by (metis distinct.simps(2))
    have "tick_account s = switch_to t hp c True ?m"
      using switch(9) assms(3) unfolding e rt_thread_yield_def sel(4) u by simp
    moreover have "t_remaining_tick (thr (switch_to t hp c True ?m) c) = t_remaining_tick (thr ?m c)"
      using switch(5) unfolding u
      by (simp add: switch_to_def Let_def rt_schedule_insert_thread_def set_stat_def upd_thr_def
          list_insert_before_def rt_schedule_remove_thread_def list_remove_def)
    ultimately show ?thesis using True assms(3,5) switch(5) d sel hp unfolding u
      by (simp add: switch_to_stat removeAll_id_if_notin)
  qed
qed

lemma time_slice_witness:
  "cur (tick_account sample) = Some 1 \<and> t_remaining_tick (thr (tick_account sample) 0) = 10"
  using time_slice[OF sample_kinv, of 0 1 "[]"]
  by (simp add: sample_sel sample_stat sample_list sample_prio sample_thr sample_thread_def)

section \<open>The life of a thread\<close>

text \<open>A thread initialised on a stack with room for a context frame and then started is ready or
  running at its initial priority, and the kernel stays consistent.\<close>

theorem init_startup_runs:
  assumes "kinv s" "cur s = Some c" "\<not> live (statm s t)" "detached s t" "a \<noteq> 0" "p < 32"
    and "unat a + unat sz < 2 ^ 32 - 8" "72 < unat sz"
  shows "fst (rt_thread_init t a sz p sl s) = RT_EOK \<and>
    fst (rt_thread_startup t (snd (rt_thread_init t a sz p sl s))) = RT_EOK \<and>
    (let s' = snd (rt_thread_startup t (snd (rt_thread_init t a sz p sl s)))
     in kinv s' \<and> awake s' t \<and> prio s' t = unat p)"
proof -
  let ?i = "snd (rt_thread_init t a sz p sl s)"
  note i = rt_thread_init_startable[OF assms(1,3-8), of sl]
  note st = started_kinv[OF i(2,3)]
  let ?r = "snd (rt_thread_resume t (started t ?i))"
  note r = resume_effect[OF st(1,2)]
  have e: "?i = rt_timer_init (ThreadTimer t) 0 0 (upd_thr t (\<lambda>th. thread_init_fields a sz p sl
    (th\<lparr>t_type := RT_Object_Class_Thread OR RT_Object_Class_Static\<rparr>)) s)"
    using thread_init_eq[OF assms(5,6), of t sz sl s] by simp
  have ip: "t_init_priority (thr ?i t) = p" "cur ?i = Some c"
    using assms(2) by (simp_all add: e rt_timer_init_def upd_timer_def upd_thr_def thread_init_fields_def)
  have c: "cur ?r = Some c" using r(2) st(3) ip(2) by simp
  have "rt_thread_startup t ?i = (RT_EOK, rt_schedule ?r)"
    using c by (simp add: rt_thread_startup_unfold[OF i(3)])
  moreover have "awake (rt_schedule ?r) t"
    using rt_schedule_others(2)[OF r(1) c] r(3) by (simp add: awake_def)
  moreover have "prio (rt_schedule ?r) t = unat p"
    using rt_schedule_sel(6)[OF r(1) c] r(14) st(4) ip(1) by simp
  ultimately show ?thesis using i(1) rt_schedule_kinv[OF r(1) c] by simp
qed

lemma init_startup_runs_witness:
  "awake (snd (rt_thread_startup 20 (snd (rt_thread_init 20 0x20002000 512 5 10 sample)))) 20"
proof -
  have "detached sample 20"
    by (auto simp: detached_def sample_member sample_def)
  then show ?thesis
    using init_startup_runs[OF sample_kinv, of 0 20 "0x20002000" 5 512 10]
    by (simp add: sample_sel sample_stat live_def Let_def)
qed

text \<open>Suspending a ready thread takes it out of every list; resuming it then puts it at the end of
  the queue of its priority, and all other threads keep their states.\<close>

theorem suspend_resume:
  assumes "kinv s" "statm s t = RT_THREAD_READY" "cur s \<noteq> Some t"
  defines "s1 \<equiv> snd (rt_thread_suspend t s)"
  shows "fst (rt_thread_suspend t s) = RT_EOK \<and> fst (rt_thread_resume t s1) = RT_EOK \<and>
    statm s1 t = RT_THREAD_SUSPEND \<and> detached s1 t \<and> kinv s1 \<and>
    statm (snd (rt_thread_resume t s1)) = statm s \<and> kinv (snd (rt_thread_resume t s1)) \<and>
    lists (snd (rt_thread_resume t s1)) (ReadyL (prio s t)) =
      removeAll t (lists s (ReadyL (prio s t))) @ [t]"
proof -
  note k = kinv_partsD[OF assms(1)]
  have ok: "thread_ok s t" using kbaseD(7)[OF k(1)] assms(2) by (simp add: live_def)
  have ty: "rt_object_get_type (t_type (thr s t)) = RT_Object_Class_Thread"
    "rt_object_get_type (tm_type (timers s (ThreadTimer t))) = RT_Object_Class_Timer"
    using ok by (simp_all add: thread_ok_def)
  have e: "rt_thread_suspend t s = (RT_EOK, snd (rt_timer_stop (ThreadTimer t)
      (set_stat t RT_THREAD_SUSPEND (rt_schedule_remove_thread t s))))"
    using ty assms(2) by (simp add: rt_thread_suspend_def Let_def)
  have sel: "statm s1 u = (if u = t then RT_THREAD_SUSPEND else statm s u)"
    "lists s1 l = removeAll t (lists s l)" "cur s1 = cur s" "prio s1 = prio s" "thread_ok s1 = thread_ok s"
    for u l by (simp_all add: s1_def e kframe fun_eq_iff)
  have k1: "kinv s1" unfolding s1_def by (rule rt_thread_suspend_kinv[OF assms(1)])
  have "rt_object_get_type (t_type (thr s1 t)) = RT_Object_Class_Thread"
    using ok unfolding sel(5)[symmetric] by (simp add: thread_ok_def)
  then have r: "rt_thread_resume t s1 = (RT_EOK, rt_schedule_insert_thread t
      (snd (rt_timer_stop (ThreadTimer t) (list_remove t s1))))"
    by (simp add: rt_thread_resume_def sel Let_def)
  have "statm (snd (rt_thread_resume t s1)) = statm s"
    using assms(2,3) by (auto simp: r insert_thread_sel kframe sel fun_eq_iff)
  moreover have "lists (snd (rt_thread_resume t s1)) (ReadyL (prio s t)) =
      removeAll t (lists s (ReadyL (prio s t))) @ [t]"
    using assms(3) by (simp add: r insert_thread_sel kframe sel)
  ultimately show ?thesis
    using k1 rt_thread_resume_kinv[OF k1, of t] by (simp add: e r sel detached_def)
qed

lemma suspend_resume_witness:
  "detached (snd (rt_thread_suspend 1 sample)) 1 \<and>
   lists (snd (rt_thread_resume 1 (snd (rt_thread_suspend 1 sample)))) (ReadyL 10) = [1]"
  using suspend_resume[OF sample_kinv, of 1]
  by (simp add: sample_sel sample_stat sample_list sample_prio)

text \<open>A thread that exits is closed, hangs in no waiting or ready queue, and its timer is off; the
  processor goes to another thread when one is ready.\<close>

theorem exit_closes:
  assumes "kinv s" "cur s = Some c" "statm s c = RT_THREAD_RUNNING" "lock_nest s = 0"
    and "ready_group s \<noteq> 0"
  shows "kinv (rt_thread_exit s) \<and> statm (rt_thread_exit s) c = RT_THREAD_CLOSE \<and>
    (\<forall>l. c \<in> set (lists (rt_thread_exit s) l) \<longrightarrow> l = DefunctL) \<and>
    ThreadTimer c \<notin> set (timer_list (rt_thread_exit s)) \<and>
    (\<exists>t. t \<noteq> c \<and> cur (rt_thread_exit s) = Some t \<and> statm (rt_thread_exit s) t = RT_THREAD_RUNNING)"
proof -
  note k = kinv_partsD[OF assms(1)]
  have lv: "live (statm s c)" using assms(3) by (simp add: live_def)
  let ?z = "rt_schedule_remove_thread c s"
  let ?t = "thread_retire c ?z"
  have e: "rt_thread_exit s = rt_schedule ?t"
    using assms(2) by (simp add: rt_thread_exit_def rt_thread_self_def)
  have k': "kinv (rt_thread_exit s)" by (rule rt_thread_exit_kinv[OF assms(1,2) lv])
  have z: "kbase {c} ?z" "kcur ?z" using kbase_gone[OF assms(1) disjI1[OF lv]] assms(3) by simp_all
  have kt: "kinv ?t" by (rule kinv_retire[OF z])
  have st: "statm ?t c = RT_THREAD_CLOSE"
    using kbase_close_thread(2)[OF z(1)]
    by (simp add: thread_retire_close Let_def kframe) (simp add: upd_thr_def statm_def)
  have ct: "cur ?t = Some c" using assms(2) by (simp add: thread_retire_cur kframe)
  have g: "lists s (ReadyL p) = lists ?z (ReadyL p)" for p
    using k(2) assms(2) by (simp add: kframe kcur_def removeAll_id_if_notin)
  have gz: "ready_group ?t = ready_group ?z" "lock_nest ?t = 0"
    using assms(4)
    by (simp_all add: thread_retire_def Let_def rt_timer_detach_def kframe upd_thr_def upd_timer_def
        timer_unlink_def list_insert_after_def fail_def rt_schedule_remove_thread_def list_remove_def)
  have "bit (ready_group ?z) p \<longleftrightarrow> bit (ready_group s) p" if "p < 32" for p
    using kbaseD(3)[OF k(1)] kbaseD(3)[OF z(1)] that g[of p] by (simp add: bits_ok_def)
  then have "ready_group ?z = ready_group s" by (intro bit_eqI) simp
  then have ne: "ready_group ?t \<noteq> 0" using gz assms(5) by simp
  obtain t where t: "cur (rt_thread_exit s) = Some t" "statm (rt_thread_exit s) t = RT_THREAD_RUNNING"
    using rt_schedule_best[OF kt ct gz(2)] ne unfolding e by blast
  have st': "statm (rt_thread_exit s) c = RT_THREAD_CLOSE"
    using rt_schedule_others(1)[OF kt ct, of c] st unfolding e by simp
  have b: "kbase {} (rt_thread_exit s)" using kinv_partsD[OF k'] by simp
  have "l = DefunctL" if "c \<in> set (lists (rt_thread_exit s) l)" for l
    using members_okD[OF kbaseD(2)[OF b] that] st' by (cases l) auto
  moreover have "ThreadTimer c \<notin> set (timer_list (rt_thread_exit s))"
    using timer_off[OF b] st' by simp
  moreover have "t \<noteq> c" using st' t(2) by auto
  ultimately show ?thesis using k' st' t by blast
qed

lemma exit_closes_witness:
  "statm (rt_thread_exit sample) 0 = RT_THREAD_CLOSE \<and> (\<exists>t. t \<noteq> 0 \<and> cur (rt_thread_exit sample) = Some t)"
  using exit_closes[OF sample_kinv, of 0] by (auto simp: sample_sel sample_stat)

text \<open>Changing the priority of a ready thread moves it to the end of the queue of the new priority.\<close>

theorem change_priority_moves:
  assumes "kinv s" "statm s t = RT_THREAD_READY" "cur s \<noteq> Some t" "p < 32"
  shows "fst (rt_thread_control t 2 p s) = RT_EOK \<and> kinv (snd (rt_thread_control t 2 p s)) \<and>
    prio (snd (rt_thread_control t 2 p s)) t = unat p \<and>
    statm (snd (rt_thread_control t 2 p s)) = statm s \<and>
    lists (snd (rt_thread_control t 2 p s)) (ReadyL (unat p)) =
      removeAll t (lists s (ReadyL (unat p))) @ [t] \<and>
    (\<forall>q. q \<noteq> unat p \<longrightarrow> t \<notin> set (lists (snd (rt_thread_control t 2 p s)) (ReadyL q)))"
proof -
  have ok: "thread_ok s t"
    using kbaseD(7)[OF kinv_partsD(1)[OF assms(1)]] assms(2) by (simp add: live_def)
  then have e: "rt_thread_control t 2 p s =
      (RT_EOK, rt_schedule_insert_thread t (set_priority t p (rt_schedule_remove_thread t s)))"
    using assms(2) by (simp add: rt_thread_control_def thread_ok_def)
  have "prio (snd (rt_thread_control t 2 p s)) t = unat p"
    by (simp add: e insert_thread_sel set_priority_sel)
  moreover have "statm (snd (rt_thread_control t 2 p s)) = statm s"
    using assms(2,3) by (auto simp: e insert_thread_sel set_priority_sel kframe fun_eq_iff)
  ultimately show ?thesis
    using assms(3) rt_thread_control_priority_kinv[OF assms(1,4), of t]
    by (simp add: e insert_thread_sel set_priority_sel kframe)
qed

lemma change_priority_moves_witness:
  "lists (snd (rt_thread_control 1 2 7 sample)) (ReadyL 7) = [1]"
  using change_priority_moves[OF sample_kinv, of 1 7] by (simp add: sample_sel sample_stat sample_list)

section \<open>Clock and timers\<close>

text \<open>C10: A tick wakes exactly the threads whose timers have expired, with the error
  \<^verbatim>\<open>-RT_ETIMEOUT\<close>, takes them off the objects they wait for without disturbing the order of the others,
  and keeps the timer list sorted, whatever the wrap-around of the 32-bit counter.\<close>

theorem tick_wakes_expired:
  fixes tf :: "nat \<Rightarrow> kernel \<Rightarrow> kernel"
  assumes "kinv s" "cur s = Some c" "timers_idle s" "length (timer_list s) < fuel"
    and "timer_sorted (tick s) (tmo s) (timer_list s)"
  defines "due \<equiv> \<lambda>t. ThreadTimer t \<in> set (timer_list s) \<and> tkey (tick s) (tmo s (ThreadTimer t)) \<le> 1"
  shows "\<exists>s'. rt_tick_increase tf fuel s = Some s' \<and> kinv s' \<and> tick s' = tick s + 1 \<and>
    stuck s' = stuck s \<and> timer_sorted (tick s') (tmo s') (timer_list s') \<and>
    (\<forall>t. due t \<longrightarrow> awake s' t \<and> t_error (thr s' t) = -RT_ETIMEOUT) \<and>
    (\<forall>t. \<not> due t \<longrightarrow> t_error (thr s' t) = t_error (thr s t) \<and>
       (\<not> awake s t \<longrightarrow> statm s' t = statm s t)) \<and>
    (\<forall>l. wait_list l \<longrightarrow> lists s' l = filter (\<lambda>t. \<not> due t) (lists s l))"
  unfolding due_def
  by (insert tick_increase_threads[OF assms(1-5), of tf], elim exE conjE, intro exI conjI, assumption, assumption, assumption, assumption, assumption,
      blast, blast, assumption)

lemma tick_wakes_expired_witness:
  "\<exists>s'. rt_tick_increase (\<lambda>_ s. s) 2 sample = Some s' \<and> tick s' = 101 \<and> statm s' 9 = RT_THREAD_SUSPEND"
proof -
  have t: "timer_sorted (tick sample) (tmo sample) (timer_list sample)" "timers_idle sample"
    using sample_tm_ok by (simp_all add: tm_ok_def)
  have n: "length (timer_list sample) < 2" "\<not> tkey (tick sample) (tmo sample (ThreadTimer 9)) \<le> 1"
    "\<not> awake sample 9" "statm sample 9 = RT_THREAD_SUSPEND" "tick sample + 1 = 101"
    by (simp_all add: sample_sel tkey_def tmo_def awake_def sample_stat)
  from tick_wakes_expired[OF sample_kinv sample_sel(1) t(2) n(1) t(1), of "\<lambda>_ s. s"] n(2-5)
  show ?thesis by auto
qed

text \<open>A thread that sleeps for \<open>n\<close> ticks is suspended for \<open>n - 1\<close> ticks and ready again after tick
  \<open>n\<close>, on every run of the clock in which nothing else happens.\<close>

theorem sleep_lasts:
  fixes time :: u32
  assumes "ksys s" "running s c" "0 < time" "time < 2147483647" "Suc (length (timer_list s)) < fuel"
  shows "times_out tf fuel c (unat time) (rt_thread_sleep time s)"
proof (rule pending_times_out)
  show "ksys (rt_thread_sleep time s)" by (rule ksys_sleep[OF assms(1,2,4)])
  show "pending (rt_thread_sleep time s) c (unat time)" by (rule sleep_armed(1)[OF assms(1,2,4)])
  show "length (timer_list (rt_thread_sleep time s)) < fuel"
    using sleep_armed(2)[OF assms(1,2,4)] assms(5) by simp
  show "0 < unat time" using assms(3) by (simp add: word_less_nat_alt)
qed

lemma sleep_lasts_witness: "times_out (\<lambda>_ s. s) 3 0 20 (rt_thread_sleep 20 sample)"
  using sleep_lasts[OF sample_ksys sample_run, of 20 3 "\<lambda>_ s. s"] by (simp add: sample_sel)

text \<open>Starting a timer keeps the timer list sorted by the distance to the present tick, and behind
  the timers that expire at the same time.\<close>

theorem timer_start_sorted:
  fixes tmo :: "timerid \<Rightarrow> u32"
  assumes "timer_sorted base tmo ps" "tkey base (tmo i) < 2147483647"
  shows "timer_sorted base tmo (timer_insert tmo i (tmo i) ps) \<and>
    (\<exists>us vs. timer_insert tmo i (tmo i) ps = us @ i # vs \<and> ps = us @ vs \<and>
      (\<forall>j \<in> set us. tkey base (tmo j) \<le> tkey base (tmo i)) \<and>
      (\<forall>j \<in> set vs. tkey base (tmo i) < tkey base (tmo j)))"
proof -
  let ?le = "\<lambda>j. tkey base (tmo j) \<le> tkey base (tmo i)"
  have s: "sorted (map (\<lambda>j. tkey base (tmo j)) ps)" using assms(1) by (simp add: timer_sorted_def)
  have "dropWhile ?le ps = filter (\<lambda>j. \<not> ?le j) ps" "takeWhile ?le ps = filter ?le ps"
    using sorted_takeWhile[OF s, of "tkey base (tmo i)"] by simp_all
  then have "(\<forall>j \<in> set (takeWhile ?le ps). ?le j) \<and>
      (\<forall>j \<in> set (dropWhile ?le ps). tkey base (tmo i) < tkey base (tmo j))" by auto
  moreover have "ps = takeWhile ?le ps @ dropWhile ?le ps" by simp
  ultimately show ?thesis
    using timer_insert_sorted[OF assms refl] timer_insert_split[OF assms] by blast
qed

lemma timer_start_sorted_witness:
  "timer_insert (\<lambda>i. case i of UserTimer k \<Rightarrow> word_of_nat k - 2 | _ \<Rightarrow> 5) (UserTimer 3) 1
     [UserTimer 1, UserTimer 4] = [UserTimer 1, UserTimer 3, UserTimer 4]"
proof -
  let ?f = "\<lambda>i. case i of UserTimer k \<Rightarrow> word_of_nat k - 2 | _ \<Rightarrow> (5 :: u32)"
  have "timer_sorted (-3) ?f [UserTimer 1, UserTimer 4]" by (simp add: timer_sorted_def tkey_def)
  from timer_start_sorted[OF this, of "UserTimer 3"] show ?thesis
    by (simp add: tkey_def)
qed

text \<open>The bit search finds the lowest set bit, hence the best ready priority.\<close>

theorem ffs_lowest_bit:
  assumes "v \<noteq> 0"
  shows "0 < rt_ffs v \<and> rt_ffs v \<le> 32 \<and> bit v (rt_ffs v - 1) \<and> (\<forall>j < rt_ffs v - 1. \<not> bit v j)"
proof -
  have f: "0 < rt_ffs v" "bit v (rt_ffs v - 1)" "\<forall>j < rt_ffs v - 1. \<not> bit v j"
    using rt_ffs_correct[OF assms] by simp_all
  have "rt_ffs v - 1 < 32" using bit_imp_le_length[OF f(2)] by simp
  with f show ?thesis by simp
qed

lemma ffs_lowest_bit_witness: "bit (0xf0010000 :: u32) (rt_ffs 0xf0010000 - 1)"
  using ffs_lowest_bit[of "0xf0010000"] by simp

text \<open>Milliseconds become ticks at 1000 ticks per second; a negative time means for ever.\<close>

theorem millisecond_is_tick:
  "rt_tick_from_millisecond ms = (if sint ms < 0 then RT_TICK_MAX else ms)"
  by (rule tick_from_ms)

end
