(* ===== verification/UserTimer.thy ===== *)
theory UserTimer
  imports Timeout Sample
begin

text \<open>
  Timers of the application (\<^verbatim>\<open>rt_timer_create\<close>, \<^verbatim>\<open>rt_timer_delete\<close> of \<^verbatim>\<open>src/timer.c\<close>), and what the expiry loop of the tick does
  with them: a periodic timer calls its function once in every period; a timer of period zero never lets the tick interrupt end;
  a one-shot timer that its own function starts anew runs, but can no longer be stopped.
\<close>

section \<open>Operations\<close>

text \<open>\<open>obj\<close> is the object from the heap.\<close>

definition rt_timer_create :: "nat option \<Rightarrow> u32 \<Rightarrow> u8 \<Rightarrow> kernel \<Rightarrow> nat option \<times> kernel" where
  "rt_timer_create obj time flag s =
     (case obj of
        None \<Rightarrow> (None, s)
      | Some n \<Rightarrow> (Some n, upd_timer (UserTimer n) (\<lambda>_. \<lparr>tm_type = RT_Object_Class_Timer,
                    tm_flag = flag AND NOT RT_TIMER_FLAG_ACTIVATED, tm_init_tick = time, tm_timeout_tick = 0\<rparr>) s))"

definition rt_timer_delete :: "nat \<Rightarrow> kernel \<Rightarrow> int \<times> kernel" where
  "rt_timer_delete n s =
     (if rt_object_get_type (tm_type (timers s (UserTimer n))) \<noteq> RT_Object_Class_Timer then (-RT_ERROR, fail s)
      else if rt_object_is_systemobject (tm_type (timers s (UserTimer n))) then (-RT_ERROR, fail s)
      else (RT_EOK, upd_timer (UserTimer n) (\<lambda>t. t\<lparr>tm_type := 0\<rparr>) (timer_unlink (UserTimer n) s)))"

section \<open>A running timer\<close>

definition is_timer :: "timerid \<Rightarrow> kernel \<Rightarrow> bool" where
  "is_timer i s \<longleftrightarrow> rt_object_get_type (tm_type (timers s i)) = RT_Object_Class_Timer"

text \<open>The timer \<open>n\<close> is the only one in the list and expires in \<open>d\<close> ticks.\<close>

definition ticking :: "nat \<Rightarrow> u32 \<Rightarrow> nat \<Rightarrow> kernel \<Rightarrow> bool" where
  "ticking n p d s \<longleftrightarrow> kinv s \<and> cur s \<noteq> None \<and> timer_list s = [UserTimer n] \<and> is_timer (UserTimer n) s \<and>
     tm_init_tick (timers s (UserTimer n)) = p \<and> tkey (tick s) (tm_timeout_tick (timers s (UserTimer n))) = d"

definition periodic_on :: "u8 \<Rightarrow> bool" where
  "periodic_on fl \<longleftrightarrow> fl AND RT_TIMER_FLAG_PERIODIC \<noteq> 0 \<and> fl AND RT_TIMER_FLAG_ACTIVATED \<noteq> 0"

text \<open>A function that, called in this state, leaves the timers and the clock alone.\<close>

definition tame :: "(kernel \<Rightarrow> kernel) \<Rightarrow> kernel \<Rightarrow> bool" where
  "tame f s \<longleftrightarrow> kinv (f s) \<and> cur (f s) \<noteq> None \<and> tick (f s) = tick s \<and> timers (f s) = timers s \<and> timer_list (f s) = timer_list s"

lemma flag_bits: "(x AND NOT 1) AND 1 = (0 :: u8)" "(x OR 1) AND 1 = (1 :: u8)" "((x AND NOT 1) OR 1) AND 2 = x AND (2 :: u8)"
  using or1_and2[of "x AND NOT 1"] and_not1[of x] by (auto simp: bit_eq_iff bit_and_iff bit_or_iff bit_not_iff bit_1_iff)

lemma kinv_user_timer:
  assumes "kinv s" "timers s' = (timers s)(UserTimer n := x)" "timer_list s' = timer_list s \<or> timer_list s' = [] \<or> timer_list s' = [UserTimer n]"
    "lists s' = lists s" "ready_group s' = ready_group s" "thr s' = thr s" "cur s' = cur s"
  shows "kinv s'"
proof -
  have st: "statm s' = statm s" "prio s' = prio s" using assms(6) by (simp_all add: statm_def prio_def fun_eq_iff)
  have ok: "thread_ok s' t = thread_ok s t" for t using assms(2,6) st(2) by (simp add: thread_ok_def)
  have "timers_ok s'" using kbaseD(4)[OF kinv_partsD(1)[OF assms(1)]] assms(2,3) st by (auto simp: timers_ok_def)
  then have "kbase {} s'" using kinv_partsD(1)[OF assms(1)] assms(4,5) ok st
    by (simp add: kbase_def lists_ok_def members_ok_def bits_ok_def detached_def)
  moreover have "kcur s'" using kinv_partsD(2)[OF assms(1)] assms(4,7) st by (simp add: kcur_def)
  ultimately show ?thesis by (simp add: kinv_def)
qed

text \<open>What the loop makes of a periodic timer after its function has returned.\<close>

lemma rearm_periodic:
  assumes "is_timer i s" "tm_flag (timers s i) AND RT_TIMER_FLAG_PERIODIC \<noteq> 0" "tm_flag (timers s i) AND RT_TIMER_FLAG_ACTIVATED \<noteq> 0"
    "tm_init_tick (timers s i) < 2147483647" "timer_list s = []"
  defines "x \<equiv> timers s i"
  shows "timer_rearm i s = s\<lparr>timer_list := [i], timers := (timers s)(i := x\<lparr>tm_timeout_tick := tick s + tm_init_tick x,
     tm_flag := (tm_flag x AND NOT 1) OR 1\<rparr>)\<rparr>"
proof -
  have n: "((f AND NOT 1) AND NOT 1) = (f AND NOT 1 :: u8)" for f by (simp add: and.assoc)
  show ?thesis
    using assms(1-5) n[simplified]
    by (simp add: x_def timer_rearm_def rt_timer_start_def is_timer_def upd_timer_def timer_unlink_def Let_def)
qed

text \<open>A tick before the expiry only accounts for the time; the tick of the expiry calls the function.\<close>

lemma ticking_tick:
  assumes "ticking n p d s" "0 < d" "d \<le> unat p" "p < 2147483647"
  defines "a \<equiv> tick_account s"
  shows "d \<noteq> 1 \<Longrightarrow> rt_tick_increase tf (Suc k) s = Some a" "d \<noteq> 1 \<Longrightarrow> ticking n p (d - 1) a"
    "d = 1 \<Longrightarrow> rt_tick_increase tf (Suc k) s = (let f = tf n (timer_unlink (UserTimer n) a)
       in rt_timer_check_loop tf k (tick f) (timer_rearm (UserTimer n) f))"
    "timers a = timers s" "kinv (timer_unlink (UserTimer n) a)" "cur (timer_unlink (UserTimer n) a) \<noteq> None"
    "timer_list (timer_unlink (UserTimer n) a) = []" "ipc_same s a" "wait_list l \<Longrightarrow> lists a l = lists s l"
proof -
  let ?i = "UserTimer n"
  note b = assms(1)[unfolded ticking_def is_timer_def]
  obtain c where c: "cur s = Some c" using b by auto
  note a = tick_account_props[OF conjunct1[OF b] c, folded a_def]
  have lp: "unat p < 2147483647" using assms(4) by (simp add: word_less_nat_alt)
  have d0: "tkey (tick s) (tm_timeout_tick (timers a ?i)) = d" using b a(5) by simp
  have t1: "tkey (tick s) (tick a) = 1" using a(3) by (simp add: tkey_def)
  have ex: "timer_expired (tick a) (tm_timeout_tick (timers a ?i)) \<longleftrightarrow> d \<le> 1"
    using expired_key[of "tick s" "tm_timeout_tick (timers a ?i)" "tick a"] d0 t1 assms(3) lp by simp
  have da: "tkey (tick a) (tm_timeout_tick (timers a ?i)) = d - 1"
    using tkey_step[of "tick s" "tm_timeout_tick (timers a ?i)"] d0 assms(2) a(3) by simp
  have la: "timer_list a = [?i]" using b a(4) by simp
  show "timers a = timers s" "ipc_same s a" "wait_list l \<Longrightarrow> lists a l = lists s l" using a by simp_all
  show "kinv (timer_unlink ?i a)" "cur (timer_unlink ?i a) \<noteq> None" "timer_list (timer_unlink ?i a) = []"
    using kinv_timer_unlink[OF a(1)] a(2) la by (simp_all add: kframe)
  show "rt_tick_increase tf (Suc k) s = Some a" "ticking n p (d - 1) a" if "d \<noteq> 1"
  proof -
    have "\<not> timer_expired (tick a) (tm_timeout_tick (timers a ?i))" using ex that assms(2) by simp
    then show "rt_tick_increase tf (Suc k) s = Some a"
      using la by (simp add: rt_tick_increase_def rt_timer_check_def rt_tick_get_def a_def)
    show "ticking n p (d - 1) a" using la b a(1,2,5) da by (simp add: ticking_def is_timer_def)
  qed
  show "rt_tick_increase tf (Suc k) s = (let f = tf n (timer_unlink ?i a)
       in rt_timer_check_loop tf k (tick f) (timer_rearm ?i f))" if "d = 1"
  proof -
    have "timer_expired (tick a) (tm_timeout_tick (timers a ?i))" using ex that by simp
    then show ?thesis using la
      by (simp add: rt_tick_increase_def rt_timer_check_def rt_tick_get_def timer_fire_def Let_def flip: a_def)
  qed
qed

text \<open>The loop ends when the only timer left expires in more than no time.\<close>

lemma loop_ends:
  assumes "timer_list s = [i]" "tm_timeout_tick (timers s i) = now + p" "0 < p" "p < 2147483647"
  shows "rt_timer_check_loop tf (Suc k) now s = Some s"
proof -
  have "unat p < 2147483647" "0 < unat p" using assms(3,4) by (simp_all add: word_less_nat_alt)
  then have "\<not> timer_expired now (tm_timeout_tick (timers s i))"
    using expired_key[of now "tm_timeout_tick (timers s i)" now] assms(2) by (simp add: tkey_def)
  then show ?thesis using assms(1) by simp
qed

section \<open>A periodic timer\<close>

lemma periodic_fires:
  assumes "ticking n p 1 s" "periodic_on (tm_flag (timers s (UserTimer n)))" "0 < p" "p < 2147483647"
    "tame (tf n) (timer_unlink (UserTimer n) (tick_account s))"
  obtains s' where "rt_tick_increase tf (Suc (Suc k)) s = Some s'" "ticking n p (unat p) s'"
    "periodic_on (tm_flag (timers s' (UserTimer n)))" "sems s' = sems (tf n (timer_unlink (UserTimer n) (tick_account s)))"
    "lists s' = lists (tf n (timer_unlink (UserTimer n) (tick_account s)))"
proof -
  let ?i = "UserTimer n"
  let ?f = "tf n (timer_unlink ?i (tick_account s))"
  have up: "1 \<le> unat p" using assms(3) by (simp add: word_less_nat_alt)
  note t = ticking_tick[OF assms(1) zero_less_one up assms(4)]
  note b = assms(1)[unfolded ticking_def]
  have f: "kinv ?f" "cur ?f \<noteq> None" "timers ?f = timers s" "timer_list ?f = []"
    using assms(5) t(4,7) by (simp_all add: tame_def kframe)
  let ?x = "timers s ?i"
  let ?s = "timer_rearm ?i ?f"
  have r: "?s = ?f\<lparr>timer_list := [?i], timers := (timers ?f)(?i := ?x\<lparr>tm_timeout_tick := tick ?f + p, tm_flag := (tm_flag ?x AND NOT 1) OR 1\<rparr>)\<rparr>"
    using rearm_periodic[of ?i ?f] b f(3,4) assms(2,4) by (simp add: is_timer_def periodic_on_def)
  show ?thesis
  proof (rule that)
    show "rt_tick_increase tf (Suc (Suc k)) s = Some ?s"
      unfolding t(3)[OF refl] Let_def by (rule loop_ends[OF _ _ assms(3,4), of _ ?i]) (simp_all add: r)
    have "kinv ?s" by (rule kinv_user_timer[OF f(1), of _ n]) (simp_all add: r)
    then show "ticking n p (unat p) ?s" using f(2,3) b by (simp add: r ticking_def is_timer_def tkey_def)
    show "periodic_on (tm_flag (timers ?s ?i))" using assms(2) flag_bits(2,3) by (simp add: r periodic_on_def)
    show "sems ?s = sems ?f" "lists ?s = lists ?f" by (simp_all add: r)
  qed
qed

section \<open>Periods are kept\<close>

text \<open>The function of the timer releases the semaphore \<open>k\<close>, on which nobody waits.\<close>

definition releases :: "nat \<Rightarrow> nat \<Rightarrow> kernel \<Rightarrow> kernel" where
  "releases k n s = snd (rt_sem_release k s)"

definition counted :: "nat \<Rightarrow> nat \<Rightarrow> kernel \<Rightarrow> bool" where
  "counted k v s \<longleftrightarrow> is_sem k s \<and> lists s (SemL k) = [] \<and> unat (s_value (sems s k)) = v"

lemma release_tame:
  assumes "kinv s" "cur s \<noteq> None" "counted k v s" "v < 65535"
  shows "tame (releases k n) s" "counted k (v + 1) (releases k n s)"
proof -
  have inv: "sem_inv k s" using assms(3) by (simp add: counted_def sem_inv_def)
  have e: "releases k n s = upd_sem k (\<lambda>x. x\<lparr>s_value := s_value x + 1\<rparr>) s"
    using sem_release_counts[OF inv] assms(3) by (simp add: releases_def counted_def)
  show "tame (releases k n) s" using assms(1,2) by (simp add: tame_def e kframe)
  have "unat (s_value (sems s k) + 1) = v + 1" using assms(3,4) by (simp add: counted_def unat_Suc_word)
  then show "counted k (v + 1) (releases k n s)" using assms(3) by (simp add: counted_def e is_sem_def kframe)
qed

lemma periodic_run:
  assumes "ticking n p d s" "periodic_on (tm_flag (timers s (UserTimer n)))" "0 < d" "d \<le> unat p" "p < 2147483647"
    "counted k v s" "v + (m + (unat p - d)) div unat p < 65536" "1 < fuel"
  shows "\<exists>s'. run_ticks (releases k) fuel m s = Some s' \<and> counted k (v + (m + (unat p - d)) div unat p) s' \<and>
    timer_list s' = [UserTimer n] \<and> kinv s'"
  using assms
proof (induction m arbitrary: s d v)
  case 0
  then show ?case by (simp add: ticking_def)
next
  case (Suc m)
  note q = Suc.prems
  have "fuel = Suc (Suc (fuel - 2))" using q(8) by simp
  then obtain j where j: "fuel = Suc (Suc j)" ..
  let ?a = "tick_account s"
  note t = ticking_tick[OF q(1,3-5)]
  have cs: "is_sem k ?a" "lists ?a (SemL k) = []" "sems ?a = sems s"
    using t(8) t(9)[of "SemL k"] q(6) by (simp_all add: counted_def is_sem_def ipc_same_def)
  show ?case
  proof (cases "d = 1")
    case False
    have e: "m + (unat p - (d - 1)) = Suc m + (unat p - d)" using q(3,4) False by simp
    have "\<exists>s'. run_ticks (releases k) fuel m ?a = Some s' \<and> counted k (v + (m + (unat p - (d - 1))) div unat p) s' \<and>
        timer_list s' = [UserTimer n] \<and> kinv s'"
    proof (rule Suc.IH)
      show "ticking n p (d - 1) ?a" by (rule t(2)[OF False])
      show "counted k v ?a" using q(6) cs by (simp add: counted_def)
      show "v + (m + (unat p - (d - 1))) div unat p < 65536" unfolding e by (rule q(7))
      show "0 < d - 1" "d - 1 \<le> unat p" using q(3,4) False by simp_all
    qed (use q t(4) in simp_all)
    then show ?thesis unfolding e using t(1)[OF False, of "releases k" "Suc j"] j by simp
  next
    case True
    let ?u = "timer_unlink (UserTimer n) ?a"
    have up: "0 < unat p" using q(3,4) by simp
    then have p0: "0 < p" by (simp add: word_less_nat_alt)
    have div: "(Suc m + (unat p - d)) div unat p = Suc (m div unat p)"
      using True up div_add_self2[of "unat p" m] by simp
    have cu: "counted k v ?u" using q(6) cs by (simp add: counted_def is_sem_def timer_unlink_def)
    note r = release_tame[OF t(5,6) cu, of n]
    have v: "v < 65535" using q(7) div by simp
    obtain s' where s': "rt_tick_increase (releases k) (Suc (Suc j)) s = Some s'" "ticking n p (unat p) s'"
      "periodic_on (tm_flag (timers s' (UserTimer n)))" "sems s' = sems (releases k n ?u)" "lists s' = lists (releases k n ?u)"
      using periodic_fires[where tf = "releases k" and k = j, OF q(1)[unfolded True] q(2) p0 q(5) r(1)[OF v]] by blast
    have "counted k (v + 1) s'" using r(2)[OF v] s'(4,5) by (simp add: counted_def is_sem_def)
    then have "\<exists>s''. run_ticks (releases k) fuel m s' = Some s'' \<and> counted k (v + 1 + (m + (unat p - unat p)) div unat p) s'' \<and>
        timer_list s'' = [UserTimer n] \<and> kinv s''"
      by (intro Suc.IH[OF s'(2,3)]) (use up q(5,7,8) div in simp_all)
    then show ?thesis using s'(1) j div by simp
  qed
qed

lemma create_start:
  fixes n :: nat and flag :: u8
  assumes "kinv s" "cur s \<noteq> None" "timer_list s = []" "p < 2147483647"
  defines "s' \<equiv> rt_timer_start (UserTimer n) (snd (rt_timer_create (Some n) p flag s))"
  shows "ticking n p (unat p) s'" "tm_flag (timers s' (UserTimer n)) = (flag AND NOT 1) OR 1" "sems s' = sems s" "lists s' = lists s"
proof -
  let ?x = "\<lparr>tm_type = 10, tm_flag = (flag AND NOT 1) OR 1, tm_init_tick = p, tm_timeout_tick = tick s + p\<rparr>"
  have n: "((f AND NOT 1) AND NOT 1) = (f AND NOT 1 :: u8)" for f by (simp add: and.assoc)
  have e: "s' = s\<lparr>timer_list := [UserTimer n], timers := (timers s)(UserTimer n := ?x)\<rparr>"
    using assms(3,4) n[simplified]
    by (simp add: s'_def rt_timer_create_def rt_timer_start_def upd_timer_def timer_unlink_def Let_def rt_object_get_type_def)
  have "kinv s'" by (rule kinv_user_timer[OF assms(1), of _ n ?x]) (simp_all add: e)
  then show "ticking n p (unat p) s'" using assms(2) by (simp add: ticking_def e is_timer_def rt_object_get_type_def tkey_def)
  show "tm_flag (timers s' (UserTimer n)) = (flag AND NOT 1) OR 1" "sems s' = sems s" "lists s' = lists s" by (simp_all add: e)
qed

text \<open>C11: A periodic timer keeps time: created with a period of \<open>p\<close> ticks and started while no other timer runs, it calls its function,
  here a release of a semaphore, exactly once in every period: after \<open>m\<close> ticks the semaphore has been
  released \<open>m div p\<close> times, and the timer is still in the list.\<close>

theorem timer_periodic:
  assumes "kinv s" "cur s \<noteq> None" "timer_list s = []" "0 < p" "p < 2147483647" "is_sem k s" "lists s (SemL k) = []"
    "unat (s_value (sems s k)) + m div unat p < 65536" "1 < fuel"
  shows "\<exists>s'. run_ticks (releases k) fuel m (rt_timer_start (UserTimer n) (snd (rt_timer_create (Some n) p RT_TIMER_FLAG_PERIODIC s))) = Some s' \<and>
    unat (s_value (sems s' k)) = unat (s_value (sems s k)) + m div unat p \<and> timer_list s' = [UserTimer n] \<and> kinv s'"
proof -
  let ?s = "rt_timer_start (UserTimer n) (snd (rt_timer_create (Some n) p RT_TIMER_FLAG_PERIODIC s))"
  note c = create_start[OF assms(1-3,5), of n RT_TIMER_FLAG_PERIODIC]
  have "0 < unat p" using assms(4) by (simp add: word_less_nat_alt)
  moreover have "periodic_on (tm_flag (timers ?s (UserTimer n)))" unfolding c(2) by (simp add: periodic_on_def)
  moreover have "counted k (unat (s_value (sems s k))) ?s" using c(3,4) assms(6,7) by (simp add: counted_def is_sem_def)
  ultimately show ?thesis
    using periodic_run[OF c(1), of k "unat (s_value (sems s k))" m fuel] assms(5,8,9) by (auto simp: counted_def)
qed

lemma timer_periodic_witness:
  "\<exists>s'. run_ticks (releases 3) 2 12 (rt_timer_start (UserTimer 0)
     (snd (rt_timer_create (Some 0) 5 RT_TIMER_FLAG_PERIODIC (timer_unlink (ThreadTimer 9) sample)))) = Some s' \<and>
   unat (s_value (sems s' 3)) = 2"
proof -
  let ?k = "timer_unlink (ThreadTimer 9) sample"
  have "kinv ?k" by (rule kinv_timer_unlink[OF sample_kinv])
  moreover have "cur ?k \<noteq> None" "timer_list ?k = []" "is_sem 3 ?k" "lists ?k (SemL 3) = []" "s_value (sems ?k 3) = 0"
    using sample_is(1)[of 3] by (simp_all add: timer_unlink_def sample_sel sample_list is_sem_def)
  ultimately show ?thesis using timer_periodic[of ?k 5 3 12 2 0] by auto
qed

section \<open>A timer that starts itself\<close>

text \<open>The timer \<open>n\<close> is in the list without being marked as active.\<close>

definition stray :: "nat \<Rightarrow> kernel \<Rightarrow> bool" where
  "stray n s \<longleftrightarrow> timer_list s = [UserTimer n] \<and> is_timer (UserTimer n) s \<and> tm_flag (timers s (UserTimer n)) AND RT_TIMER_FLAG_ACTIVATED = 0"

lemma stray_stop: "stray n s \<Longrightarrow> rt_timer_stop (UserTimer n) s = (-RT_ERROR, s)"
  by (simp add: stray_def is_timer_def rt_timer_stop_def)

definition restarts :: "nat \<Rightarrow> kernel \<Rightarrow> kernel" where
  "restarts n s = rt_timer_start (UserTimer n) s"

lemma restart_fires:
  assumes "ticking n p 1 s" "tm_flag (timers s (UserTimer n)) AND RT_TIMER_FLAG_PERIODIC = 0" "0 < p" "p < 2147483647"
  obtains s' where "rt_tick_increase restarts (Suc (Suc k)) s = Some s'" "ticking n p (unat p) s'" "stray n s'"
    "tm_flag (timers s' (UserTimer n)) AND RT_TIMER_FLAG_PERIODIC = 0"
proof -
  let ?i = "UserTimer n"
  let ?u = "timer_unlink ?i (tick_account s)"
  let ?f = "restarts n ?u"
  let ?x = "timers s ?i"
  have up: "1 \<le> unat p" using assms(3) by (simp add: word_less_nat_alt)
  note t = ticking_tick[OF assms(1) zero_less_one up assms(4)]
  note b = assms(1)[unfolded ticking_def is_timer_def]
  let ?y = "?x\<lparr>tm_timeout_tick := tick ?u + p, tm_flag := (tm_flag ?x AND NOT 1) OR 1\<rparr>"
  have f: "?f = ?u\<lparr>timer_list := [?i], timers := (timers ?u)(?i := ?y)\<rparr>"
    using b t(4,7) assms(4)
    by (simp add: restarts_def rt_timer_start_def upd_timer_def timer_unlink_def Let_def)
  define z where "z = timer_rearm ?i ?f"
  have "tm_flag ?y AND 2 = 0" using assms(2) flag_bits(3)[of "tm_flag ?x"] by simp
  then have z: "z = ?u\<lparr>timer_list := [?i], timers := (timers ?u)(?i := ?y\<lparr>tm_flag := ((tm_flag ?x AND NOT 1) OR 1) AND NOT 1\<rparr>)\<rparr>"
    unfolding z_def f by (simp add: timer_rearm_def Let_def upd_timer_def)
  have zx: "timers z ?i = ?y\<lparr>tm_flag := ((tm_flag ?x AND NOT 1) OR 1) AND NOT 1\<rparr>" "timer_list z = [?i]" by (simp_all add: z)
  show ?thesis
  proof (rule that)
    show "rt_tick_increase restarts (Suc (Suc k)) s = Some z"
      unfolding t(3)[OF refl] Let_def z_def[symmetric]
      by (rule loop_ends[OF zx(2) _ assms(3,4)]) (simp add: zx f)
    have "kinv z" by (rule kinv_user_timer[OF t(5), of _ n]) (simp_all add: z)
    then show "ticking n p (unat p) z" using t(4,6) b by (simp add: z ticking_def is_timer_def tkey_def kframe)
    show "stray n z" using b flag_bits(1)[of "(tm_flag ?x AND NOT 1) OR 1"] by (simp add: stray_def is_timer_def zx)
    show "tm_flag (timers z ?i) AND RT_TIMER_FLAG_PERIODIC = 0"
      using assms(2) flag_bits(3)[of "tm_flag ?x"] and_not1[of "(tm_flag ?x AND NOT 1) OR 1"] by (simp add: zx)
  qed
qed

lemma stray_run:
  assumes "ticking n p d s" "stray n s" "tm_flag (timers s (UserTimer n)) AND RT_TIMER_FLAG_PERIODIC = 0" "0 < d" "d \<le> unat p"
    "p < 2147483647" "1 < fuel"
  shows "\<exists>s'. run_ticks restarts fuel m s = Some s' \<and> stray n s'"
  using assms
proof (induction m arbitrary: s d)
  case (Suc m)
  note q = Suc.prems
  have "fuel = Suc (Suc (fuel - 2))" using q(7) by simp
  then obtain j where j: "fuel = Suc (Suc j)" ..
  note t = ticking_tick[OF q(1,4-6)]
  have p0: "0 < p" using q(4,5) by (simp add: word_less_nat_alt)
  show ?case
  proof (cases "d = 1")
    case False
    have l: "timer_list (tick_account s) = [UserTimer n]" using t(2)[OF False] by (simp add: ticking_def)
    have "\<exists>s'. run_ticks restarts fuel m (tick_account s) = Some s' \<and> stray n s'"
      by (rule Suc.IH[OF t(2)[OF False]]) (use q False t(4) l in \<open>simp_all add: stray_def is_timer_def\<close>)
    then show ?thesis using t(1)[OF False, of restarts "Suc j"] j by simp
  next
    case True
    obtain s' where s': "rt_tick_increase restarts (Suc (Suc j)) s = Some s'" "ticking n p (unat p) s'" "stray n s'"
      "tm_flag (timers s' (UserTimer n)) AND RT_TIMER_FLAG_PERIODIC = 0"
      using restart_fires[OF _ q(3) p0 q(6), of j] q(1) True by blast
    have "\<exists>s''. run_ticks restarts fuel m s' = Some s'' \<and> stray n s''"
      by (rule Suc.IH[OF s'(2-4)]) (use q True in simp_all)
    then show ?thesis using s'(1) j by simp
  qed
qed simp

text \<open>A one-shot timer whose own function starts it again cannot be stopped any more: the loop of the tick clears the mark of the timer as
  active after the function has returned, although the function put it back into the list. From its first expiry on the timer
  stays in the list for ever and goes on expiring, and \<open>rt_timer_stop\<close> refuses it with \<open>-RT_ERROR\<close> and changes nothing.\<close>

theorem timer_restart_unstoppable:
  assumes "kinv s" "cur s \<noteq> None" "timer_list s = []" "0 < p" "p < 2147483647" "unat p \<le> m" "1 < fuel"
  shows "\<exists>s'. run_ticks restarts fuel m (rt_timer_start (UserTimer n) (snd (rt_timer_create (Some n) p 0 s))) = Some s' \<and>
    timer_list s' = [UserTimer n] \<and> rt_timer_stop (UserTimer n) s' = (-RT_ERROR, s')"
proof -
  let ?s = "rt_timer_start (UserTimer n) (snd (rt_timer_create (Some n) p 0 s))"
  note c = create_start[OF assms(1-3,5), of n 0]
  have up: "0 < unat p" using assms(4) by (simp add: word_less_nat_alt)
  have "fuel = Suc (Suc (fuel - 2))" using assms(7) by simp
  then obtain j where j: "fuel = Suc (Suc j)" ..
  have first: "\<exists>s'. run_ticks restarts fuel (d + i) u = Some s' \<and> stray n s'"
    if "ticking n p (Suc d) u" "tm_flag (timers u (UserTimer n)) AND RT_TIMER_FLAG_PERIODIC = 0" "d < unat p" "0 < i" for d i u
    using that
  proof (induction d arbitrary: u)
    case 0
    obtain s' where s': "rt_tick_increase restarts (Suc (Suc j)) u = Some s'" "ticking n p (unat p) s'" "stray n s'"
      "tm_flag (timers s' (UserTimer n)) AND RT_TIMER_FLAG_PERIODIC = 0"
      using restart_fires[OF _ 0(2) assms(4,5), of j] 0(1) by auto
    from stray_run[OF s'(2,3,4) up le_refl assms(5,7), of "i - 1"] s'(1) 0(4) j
    show ?case by (cases i) auto
  next
    case (Suc d)
    note t = ticking_tick[OF Suc.prems(1) _ _ assms(5), simplified]
    have "\<exists>s'. run_ticks restarts fuel (d + i) (tick_account u) = Some s' \<and> stray n s'"
      by (rule Suc.IH) (use Suc.prems ticking_tick(2,4)[OF Suc.prems(1) _ _ assms(5)] in simp_all)
    moreover have "rt_tick_increase restarts fuel u = Some (tick_account u)"
      using ticking_tick(1)[OF Suc.prems(1) _ _ assms(5), of restarts "Suc j"] Suc.prems(3) j by simp
    ultimately show ?case by simp
  qed
  have "\<exists>s'. run_ticks restarts fuel ((unat p - 1) + (m - (unat p - 1))) ?s = Some s' \<and> stray n s'"
  proof (rule first)
    show "ticking n p (Suc (unat p - 1)) ?s" using c(1) up by simp
    show "tm_flag (timers ?s (UserTimer n)) AND RT_TIMER_FLAG_PERIODIC = 0" unfolding c(2) by simp
  qed (use up assms(6) in simp_all)
  then show ?thesis using assms(6) up stray_stop by (auto simp: stray_def)
qed

lemma timer_restart_unstoppable_witness:
  "\<exists>s'. run_ticks restarts 2 9 (rt_timer_start (UserTimer 0) (snd (rt_timer_create (Some 0) 5 0 (timer_unlink (ThreadTimer 9) sample)))) = Some s' \<and>
    rt_timer_stop (UserTimer 0) s' = (-RT_ERROR, s')"
proof -
  let ?k = "timer_unlink (ThreadTimer 9) sample"
  have "kinv ?k" by (rule kinv_timer_unlink[OF sample_kinv])
  moreover have "cur ?k \<noteq> None" "timer_list ?k = []" by (simp_all add: timer_unlink_def sample_sel)
  ultimately show ?thesis using timer_restart_unstoppable[of ?k 5 9 2 0] by auto
qed

section \<open>A period of zero\<close>

text \<open>A periodic timer of period zero expires again at once: the loop never ends, whatever the fuel.\<close>

lemma zero_period_hangs:
  assumes "timer_list s = [UserTimer n]" "is_timer (UserTimer n) s" "periodic_on (tm_flag (timers s (UserTimer n)))"
    "tm_init_tick (timers s (UserTimer n)) = 0" "tm_timeout_tick (timers s (UserTimer n)) = now" "tick s = now"
  shows "rt_timer_check_loop (\<lambda>_ s. s) fuel now s = None"
  using assms
proof (induction fuel arbitrary: s)
  case (Suc k)
  note q = Suc.prems
  let ?i = "UserTimer n"
  let ?u = "timer_unlink ?i s"
  have u: "timers ?u = timers s" "timer_list ?u = []" "tick ?u = now" using q(1,6) by (simp_all add: timer_unlink_def)
  let ?x = "timers s ?i"
  have r: "timer_rearm ?i ?u = ?u\<lparr>timer_list := [?i], timers := (timers ?u)(?i := ?x\<lparr>tm_timeout_tick := now,
      tm_flag := (tm_flag ?x AND NOT 1) OR 1\<rparr>)\<rparr>"
    using rearm_periodic[of ?i ?u] q(2-4) u by (simp add: is_timer_def periodic_on_def)
  have "rt_timer_check_loop (\<lambda>_ s. s) k now (timer_rearm ?i ?u) = None"
  proof (rule Suc.IH)
    show "periodic_on (tm_flag (timers (timer_rearm ?i ?u) ?i))" using q(3) flag_bits(2,3) by (simp add: r periodic_on_def)
  qed (use q(2,4) u(3) in \<open>simp_all add: r is_timer_def\<close>)
  then show ?case using q(1,5) u(3) by (simp add: timer_expired_def timer_fire_def Let_def rt_tick_get_def)
qed simp

end
