(* ===== verification/IpcProps.thy ===== *)
theory IpcProps
  imports Sample Timeout
begin

text \<open>
  The properties of semaphores, mutexes and events, each with an instance at the sample state. The
  abstract mutex is an owner with a lock count and a queue of waiters.
\<close>

section \<open>Semaphores\<close>

text \<open>C6: Taking a semaphore implements the abstract counting semaphore: it takes a unit when there is
  one, fails without a time limit, and otherwise queues the caller: with the flag FIFO at the end, with the flag PRIO behind
  the threads of the same or a better priority and in front of all others. A queue in the order of the priorities stays in
  that order, and threads of one priority stay in the order of their arrival. The kernel and the semaphore stay consistent.\<close>

theorem sem_take_spec:
  fixes n :: nat and s :: kernel and c :: tid and time :: u32
  assumes "kinv s" "running s c" "int_nest s = 0" "sem_inv n s"
  defines "s' \<equiv> snd (rt_sem_take n time s)" and "pr \<equiv> \<lambda>u. t_current_priority (thr s u)"
  shows "(fst (rt_sem_take n time s), sem_abs n s') = spec_take (s_flag (sems s n)) pr c (time \<noteq> 0) (sem_abs n s) \<and>
    kinv s' \<and> sem_inv n s' \<and>
    (fst (rt_sem_take n time s) = Blocked \<longrightarrow> s_flag (sems s n) = RT_IPC_FLAG_PRIO \<longrightarrow> sorted (map pr (lists s (SemL n))) \<longrightarrow>
      sorted (map pr (lists s' (SemL n))) \<and>
      (\<forall>p. filter (\<lambda>u. pr u = p) (lists s' (SemL n)) = filter (\<lambda>u. pr u = p) (lists s (SemL n)) @ (if pr c = p then [c] else [])))"
proof -
  have r: "(fst (rt_sem_take n time s), sem_abs n s') = spec_take (s_flag (sems s n)) pr c (time \<noteq> 0) (sem_abs n s)" "kinv s'" "sem_inv n s'"
    using sem_take_refines[OF assms(1) _ _ assms(3,4)] sem_take_inv[OF assms(1) _ _ assms(3,4)] assms(2)
    by (simp_all add: running_def s'_def pr_def)
  then have "lists s' (SemL n) = queued (s_flag (sems s n)) pr c (lists s (SemL n))" if "fst (rt_sem_take n time s) = Blocked"
    using that by (auto simp: spec_take_def sem_abs_def split: if_splits)
  with queued_prio[where pr = pr and q = "lists s (SemL n)" and t = c] r show ?thesis by simp
qed

lemma sem_take_spec_witness:
  "fst (rt_sem_take 1 0 sample) = Ret RT_EOK \<and> sem_abs 1 (snd (rt_sem_take 1 0 sample)) = (2, [])"
  using sem_take_spec[OF sample_kinv sample_run _ sample_sem_inv, of 1 0]
  by (simp add: sem_abs_def spec_take_def sample_sel sample_list)

text \<open>C7: Releasing a semaphore implements the abstract one: a waiting thread is released and the count
  stays, or the count goes up by one, as long as the 16-bit counter has room.\<close>

theorem sem_release_spec:
  assumes "kinv s" "cur s = Some c" "sem_inv n s" "unat (s_value (sems s n)) < 65535"
  shows "sem_abs n (snd (rt_sem_release n s)) = spec_release (sem_abs n s) \<and>
    kinv (snd (rt_sem_release n s)) \<and> sem_inv n (snd (rt_sem_release n s)) \<and>
    (\<forall>t q. lists s (SemL n) = t # q \<longrightarrow> awake (snd (rt_sem_release n s)) t)"
  using sem_release_refines[OF assms] sem_release_inv[OF assms(1-3)] sem_release_wakes(4)[OF assms(1-3)]
  by simp

lemma sem_release_spec_witness:
  "sem_abs 0 (snd (rt_sem_release 0 sample)) = (0, []) \<and> awake (snd (rt_sem_release 0 sample)) 2"
  using sem_release_spec[OF sample_kinv sample_sel(1) sample_sem_inv, of 0]
  by (simp add: sem_abs_def spec_release_def sample_sel sample_list)

text \<open>A counter at its maximum wraps: releasing a semaphore with 65535 units and no waiters leaves
  none.\<close>

theorem sem_release_wraps:
  assumes "sem_inv n s" "lists s (SemL n) = []" "s_value (sems s n) = 65535"
  shows "fst (rt_sem_release n s) = RT_EOK \<and> s_value (sems (snd (rt_sem_release n s)) n) = 0"
  using sem_release_counts[OF assms(1,2)] assms(3) by (simp add: upd_sem_def)

lemma sem_release_wraps_witness:
  "s_value (sems (snd (rt_sem_release 1 (upd_sem 1 (\<lambda>x. x\<lparr>s_value := 65535\<rparr>) sample))) 1) = 0"
proof -
  let ?s = "upd_sem 1 (\<lambda>x. x\<lparr>s_value := 65535\<rparr>) sample"
  have "sem_inv 1 ?s" "lists ?s (SemL 1) = []" "s_value (sems ?s 1) = 65535"
    by (simp_all add: sem_inv_def is_sem_def rt_object_get_type_def upd_sem_def sample_sel sample_list)
  from sem_release_wraps[OF this] show ?thesis by simp
qed

text \<open>C12: A thread that waits for a semaphore with a time limit of \<open>n\<close> ticks, and that nobody releases,
  waits for exactly \<open>n\<close> ticks and then returns \<^verbatim>\<open>-RT_ETIMEOUT\<close>, no longer in the queue.\<close>

theorem sem_take_times_out:
  fixes time :: u32
  assumes "ksys s" "running s c" "int_nest s = 0" "is_sem n s" "s_value (sems s n) = 0"
    and "0 < sint time" "sint time < 2147483647" "Suc (length (timer_list s)) < fuel"
  shows "fst (rt_sem_take n time s) = Blocked \<and>
    times_out tf fuel c (unat time) (snd (rt_sem_take n time s)) \<and>
    (\<exists>s'. run_ticks tf fuel (unat time) (snd (rt_sem_take n time s)) = Some s' \<and>
      rt_sem_take_return c s' = -RT_ETIMEOUT)"
proof -
  note d = ksysD[OF assms(1)]
  have c: "cur s = Some c" and r: "statm s c = RT_THREAD_RUNNING" using assms(2) by (simp_all add: running_def)
  have i: "sem_inv n s" using d(3) assms(4) by (simp add: sems_ok_def)
  let ?e = "upd_thr c (\<lambda>th. th\<lparr>t_error := RT_EOK\<rparr>) s"
  have nz: "time \<noteq> 0" using assms(6) by auto
  have e: "rt_sem_take n time s = (Blocked, block_on (SemL n) c (s_flag (sems s n)) time ?e)"
    by (rule sem_take_effect(3)[OF d(1) c r assms(3) i assms(5) nz])
  have ke: "kinv ?e" "cur ?e = Some c" "statm ?e c = RT_THREAD_RUNNING"
    using d(1) c r by (simp_all add: kinv_upd_thr kframe)
  have k: "ksys (snd (rt_sem_take n time s))" by (rule ksys_sem_take[OF assms(1-4,7)])
  note a = block_on_armed[OF ke _ assms(6,7), of "SemL n" "s_flag (sems s n)", simplified]
  have "length (timer_list (snd (rt_sem_take n time s))) < fuel"
    using a(2) assms(8) by (simp add: e kframe)
  moreover have "0 < unat time" using nz by (simp add: unat_gt_0)
  ultimately have "times_out tf fuel c (unat time) (snd (rt_sem_take n time s))"
    using k a(1) by (intro pending_times_out) (simp_all add: e)
  then show ?thesis by (auto simp: e times_out_def rt_sem_take_return_def)
qed

lemma sem_take_times_out_witness:
  "fst (rt_sem_take 0 20 sample) = Blocked \<and>
   (\<exists>s'. run_ticks (\<lambda>_ s. s) 3 20 (snd (rt_sem_take 0 20 sample)) = Some s' \<and>
     rt_sem_take_return 0 s' = -RT_ETIMEOUT)"
  using sem_take_times_out[OF sample_ksys sample_run _ sample_is(1), of 0 20 3 "\<lambda>_ s. s"]
  by (simp add: sample_sel)

section \<open>Mutexes\<close>

text \<open>The abstract mutex: owner, number of locks, waiters.\<close>

type_synonym mutex_view = "tid option \<times> nat \<times> tid list"

definition mutex_abs :: "nat \<Rightarrow> kernel \<Rightarrow> mutex_view" where
  "mutex_abs n s = (m_owner (mutexes s n), unat (m_hold (mutexes s n)), lists s (MutexL n))"

definition spec_lock :: "u8 \<Rightarrow> (tid \<Rightarrow> u8) \<Rightarrow> tid \<Rightarrow> bool \<Rightarrow> mutex_view \<Rightarrow> outcome \<times> mutex_view" where
  "spec_lock flag pr t wait v =
     (case v of
        (None, h, q) \<Rightarrow> (Ret RT_EOK, (Some t, 1, q))
      | (Some w, h, q) \<Rightarrow>
          if w = t then (Ret RT_EOK, (Some w, h + 1, q))
          else if \<not> wait then (Ret (-RT_ETIMEOUT), v)
          else (Blocked, (Some w, h, queued flag pr t q)))"

definition spec_unlock :: "tid \<Rightarrow> mutex_view \<Rightarrow> int \<times> mutex_view" where
  "spec_unlock t v =
     (case v of (w, h, q) \<Rightarrow>
        if w \<noteq> Some t then (-RT_ERROR, v)
        else if 1 < h then (RT_EOK, (w, h - 1, q))
        else case q of [] \<Rightarrow> (RT_EOK, (None, 0, [])) | u # r \<Rightarrow> (RT_EOK, (Some u, 1, r)))"

lemma prio_insert_cong:
  "pr t = pr' t \<Longrightarrow> (\<And>x. x \<in> set q \<Longrightarrow> pr x = pr' x) \<Longrightarrow> prio_insert pr t q = prio_insert pr' t q"
  by (induction q) auto

lemma wait_insert_cong:
  "pr t = pr' t \<Longrightarrow> (\<And>x. x \<in> set q \<Longrightarrow> pr x = pr' x) \<Longrightarrow> wait_insert flag pr t q = wait_insert flag pr' t q"
  using prio_insert_cong[of pr t pr' q] by (simp add: wait_insert_def)

lemma wait_insert_inherit:
  assumes "kinv s" "can_inherit c w s" "live (statm s c)" "w \<notin> set q" "w \<noteq> c"
  shows "wait_insert flag (\<lambda>u. t_current_priority (thr (inherit c w s) u)) c q =
    queued flag (\<lambda>u. t_current_priority (thr s u)) c q"
proof -
  have "wait_insert flag (\<lambda>u. t_current_priority (thr (inherit c w s) u)) c q = wait_insert flag (\<lambda>u. t_current_priority (thr s u)) c q"
    using assms inherit_effect(8)[OF assms(1-3)] by (intro wait_insert_cong) auto
  then show ?thesis by (simp only: wait_insert_queued)
qed

lemma mutex_take_usable:
  fixes time :: u32
  assumes "kinv s" "running s c" "int_nest s = 0" "mutex_inv n s" "mutex_usable c n time s"
  shows "(fst (rt_mutex_take n time s), mutex_abs n (snd (rt_mutex_take n time s))) =
      spec_lock (m_flag (mutexes s n)) (\<lambda>u. t_current_priority (thr s u)) c (time \<noteq> 0) (mutex_abs n s) \<and>
    kinv (snd (rt_mutex_take n time s)) \<and> mutex_inv n (snd (rt_mutex_take n time s))"
proof -
  have c: "cur s = Some c" and r: "statm s c = RT_THREAD_RUNNING" using assms(2) by (simp_all add: running_def)
  show ?thesis
  proof (cases "m_owner (mutexes s n)")
    case None
    note t = mutex_take_free[OF assms(1) c r assms(3,4) None, of time]
    show ?thesis using t None by (simp add: mutex_abs_def spec_lock_def)
  next
    case (Some w)
    show ?thesis
    proof (cases "w = c")
      case True
      have own: "m_owner (mutexes s n) = Some c" and h: "m_hold (mutexes s n) \<noteq> 255"
        using Some True assms(5) by (simp_all add: mutex_usable_def)
      note t = mutex_take_recursive[OF assms(1) c assms(3,4) own h, of time]
      have "unat (m_hold (mutexes s n)) \<noteq> 255" "unat (m_hold (mutexes s n)) < 256"
        using h unsigned_less[of "m_hold (mutexes s n)"] by (simp_all add: word_unat_eq_iff)
      then have "unat (m_hold (mutexes s n) + 1) = unat (m_hold (mutexes s n)) + 1"
        using unat_Suc_word[of "m_hold (mutexes s n)"] by simp
      then show ?thesis using t own by (simp add: mutex_abs_def spec_lock_def)
    next
      case False
      show ?thesis
      proof (cases "time = 0")
        case True
        have "rt_mutex_take n time s = (Ret (-RT_ETIMEOUT), upd_thr c (\<lambda>th. th\<lparr>t_error := -RT_ETIMEOUT\<rparr>) s)"
          unfolding True by (rule mutex_take_owned_try[OF assms(1) c assms(3,4) Some False])
        then show ?thesis using assms(1,4) Some False True
          by (simp add: mutex_abs_def spec_lock_def kinv_upd_thr kframe mutex_inv_def is_mutex_def)
      next
        case nz: False
        have lw: "can_inherit c w s" using assms(5) Some False nz by (simp add: mutex_usable_def)
        have lc: "live (statm s c)" using r by (simp add: live_def)
        have off: "w \<notin> set (lists s (MutexL n))" using assms(4) Some by (simp add: mutex_inv_def)
        note t = mutex_take_blocks[OF assms(1) c r assms(3,4) Some False lw nz]
        show ?thesis using t(1-3,5,6) Some False nz
          by (simp add: mutex_abs_def spec_lock_def wait_insert_inherit[OF assms(1) lw lc off False])
      qed
    qed
  qed
qed

text \<open>C8: Taking a mutex implements the abstract recursive mutex in every case: free, owned by the caller, owned by another
  thread with and without waiting, where the caller is queued as for a semaphore; with two exceptions, which are shown to
  break it. The 256th nested take of the owner wraps the counter to zero. And a caller that would have to wait for an owner
  of lower priority that is no thread any more, because it has exited without releasing the mutex, fails the assertion of
  \<open>rt_thread_control\<close> when it raises that owner.\<close>

theorem mutex_take_spec:
  fixes time :: u32
  assumes "kinv s" "running s c" "int_nest s = 0" "mutex_inv n s" "sint time < 2147483647"
  defines "s' \<equiv> snd (rt_mutex_take n time s)"
  shows "if mutex_usable c n time s
    then (fst (rt_mutex_take n time s), mutex_abs n s') =
        spec_lock (m_flag (mutexes s n)) (\<lambda>u. t_current_priority (thr s u)) c (time \<noteq> 0) (mutex_abs n s) \<and>
      kinv s' \<and> mutex_inv n s'
    else if m_owner (mutexes s n) = Some c then m_owner (mutexes s' n) = Some c \<and> m_hold (mutexes s' n) = 0
    else stuck s'"
proof (cases "mutex_usable c n time s")
  case False
  have "is_mutex n s" using assms(4) by (simp add: mutex_inv_def)
  with mutex_take_unusable[OF assms(1) _ _ assms(3) _ assms(4) False assms(5)] assms(2) False show ?thesis
    by (simp add: running_def s'_def)
next
  case usable: True
  then show ?thesis using mutex_take_usable[OF assms(1-4) usable] by (simp add: s'_def)
qed

lemma mutex_take_spec_witness:
  "fst (rt_mutex_take 1 5 sample) = Blocked \<and>
   mutex_abs 1 (snd (rt_mutex_take 1 5 sample)) = (Some 1, 1, [0])"
proof -
  have "\<not> t_current_priority (thr sample 0) < t_current_priority (thr sample 1)"
    using sample_prio[of 0] sample_prio[of 1] by (simp add: prio_def word_less_nat_alt)
  then have "mutex_usable 0 1 5 sample" by (simp add: mutex_usable_def can_inherit_def sample_sel sample_mutex_def)
  with mutex_take_spec[OF sample_kinv sample_run _ sample_mutex_inv, of 5 1] show ?thesis
    by (simp add: sample_sel mutex_abs_def spec_lock_def sample_mutex_def sample_list queued_def)
qed

text \<open>C9: Releasing a mutex implements the abstract one: only the owner may, an inner lock is undone
  first, and the last unlock hands the mutex to the first waiter, who becomes ready, or frees it.\<close>

theorem mutex_release_spec:
  assumes "kinv s" "running s c" "int_nest s = 0" "mutex_inv n s"
  shows "(fst (rt_mutex_release n s), mutex_abs n (snd (rt_mutex_release n s))) =
      spec_unlock c (mutex_abs n s) \<and>
    kinv (snd (rt_mutex_release n s)) \<and> mutex_inv n (snd (rt_mutex_release n s)) \<and>
    (\<forall>w q. m_owner (mutexes s n) = Some c \<longrightarrow> m_hold (mutexes s n) = 1 \<longrightarrow>
       lists s (MutexL n) = w # q \<longrightarrow> awake (snd (rt_mutex_release n s)) w)"
proof -
  have c: "cur s = Some c" and r: "statm s c = RT_THREAD_RUNNING" using assms(2) by (simp_all add: running_def)
  show ?thesis
  proof (cases "m_owner (mutexes s n) = Some c")
    case False
    have im: "is_mutex n s" using assms(4) by (simp add: mutex_inv_def)
    show ?thesis
      using assms(1,4) False mutex_release_not_owner[OF c assms(3) im False]
      by (simp add: mutex_abs_def spec_unlock_def kinv_upd_thr kframe mutex_inv_def is_mutex_def
          split: option.splits)
  next
    case own: True
    have nz: "m_hold (mutexes s n) \<noteq> 0" using assms(4) own by (simp add: mutex_inv_def)
    show ?thesis
    proof (cases "m_hold (mutexes s n) = 1")
      case False
      note t = mutex_release_nested[OF assms(1) c assms(3,4) own False]
      have "unat (m_hold (mutexes s n)) \<noteq> 0" "unat (m_hold (mutexes s n)) \<noteq> 1"
        using nz False by (simp_all add: word_unat_eq_iff)
      then show ?thesis
        using t own unat_dec_word[of "m_hold (mutexes s n)"] False nz
        by (simp add: mutex_abs_def spec_unlock_def)
    next
      case h: True
      show ?thesis
      proof (cases "lists s (MutexL n)")
        case Nil
        note t = mutex_release_frees[OF assms(1) c r assms(3,4) own h Nil]
        show ?thesis using t own h Nil by (simp add: mutex_abs_def spec_unlock_def mutex_inv_def)
      next
        case (Cons w q)
        note t = mutex_release_hands_over[OF assms(1) c r assms(3,4) own h Cons]
        show ?thesis using t(1-7) own h Cons by (simp add: mutex_abs_def spec_unlock_def)
      qed
    qed
  qed
qed

lemma mutex_release_spec_witness:
  "mutex_abs 0 (snd (rt_mutex_release 0 sample)) = (Some 3, 1, []) \<and>
   mutex_abs 3 (snd (rt_mutex_release 3 sample)) = (Some 0, 1, []) \<and>
   mutex_abs 4 (snd (rt_mutex_release 4 sample)) = (None, 0, []) \<and>
   fst (rt_mutex_release 1 sample) = -RT_ERROR"
  using mutex_release_spec[OF sample_kinv sample_run _ sample_mutex_inv, of 0]
    mutex_release_spec[OF sample_kinv sample_run _ sample_mutex_inv, of 1]
    mutex_release_spec[OF sample_kinv sample_run _ sample_mutex_inv, of 3]
    mutex_release_spec[OF sample_kinv sample_run _ sample_mutex_inv, of 4]
  by (simp add: sample_sel mutex_abs_def spec_unlock_def sample_mutex_def sample_list)

text \<open>Priority inheritance: while a better thread waits for a mutex its owner runs at least at the
  priority of the waiter; no other priority changes.\<close>

theorem mutex_inherits_priority:
  fixes time :: u32
  assumes "kinv s" "running s c" "int_nest s = 0" "mutex_inv n s"
    and "m_owner (mutexes s n) = Some w" "w \<noteq> c" "live (statm s w)" "time \<noteq> 0"
  shows "statm (snd (rt_mutex_take n time s)) c = RT_THREAD_SUSPEND \<and>
    prio (snd (rt_mutex_take n time s)) w = min (prio s c) (prio s w) \<and>
    (\<forall>u. u \<noteq> w \<longrightarrow> prio (snd (rt_mutex_take n time s)) u = prio s u)"
proof -
  have "can_inherit c w s" using live_is_thread[OF assms(1,7)] by (simp add: can_inherit_def)
  from mutex_take_blocks(4,7)[OF assms(1) _ _ assms(3-6) this assms(8)] assms(2) show ?thesis by (simp add: running_def)
qed

lemma mutex_inherits_priority_witness:
  "prio (snd (rt_mutex_take 1 5 (snd (rt_thread_control 0 2 4 sample)))) 1 = 4"
proof -
  let ?s = "snd (rt_thread_control 0 2 4 sample)"
  have k: "kinv ?s" by (rule rt_thread_control_priority_kinv[OF sample_kinv]) simp
  have e: "?s = set_priority 0 4 sample"
    using sample_thread_ok[of 0] by (simp add: rt_thread_control_def sample_stat thread_ok_def)
  have r: "running ?s 0" "int_nest ?s = 0" "live (statm ?s 1)" "prio ?s 0 = 4" "prio ?s 1 = 10"
    "mutexes ?s = mutexes sample" "lists ?s = lists sample"
    by (simp_all add: e running_def set_priority_sel sample_sel sample_stat sample_prio live_def)
      (simp_all add: set_priority_def upd_thr_def sample_sel)
  have "mutex_inv 1 ?s"
    using sample_mutex_inv[of 1] unfolding mutex_inv_def is_mutex_def r(6,7) .
  from mutex_inherits_priority[OF k r(1,2) this, of 1 5] r show ?thesis
    by (simp add: sample_sel sample_mutex_def)
qed

text \<open>The last unlock gives the owner back the priority it had when it took the mutex, and hands the
  mutex over without raising the new owner: a better thread still in the queue then waits for a worse
  owner.\<close>

theorem mutex_handover_priorities:
  assumes "kinv s" "running s c" "int_nest s = 0" "mutex_inv n s"
    and "m_owner (mutexes s n) = Some c" "m_hold (mutexes s n) = 1" "lists s (MutexL n) = w # q"
  shows "m_owner (mutexes (snd (rt_mutex_release n s)) n) = Some w \<and>
    prio (snd (rt_mutex_release n s)) c = unat (m_original_priority (mutexes s n)) \<and>
    (\<forall>u. u \<noteq> c \<longrightarrow> prio (snd (rt_mutex_release n s)) u = prio s u) \<and>
    (\<forall>v \<in> set q. v \<noteq> c \<longrightarrow> w \<noteq> c \<longrightarrow> prio s v < prio s w \<longrightarrow>
       v \<in> set (lists (snd (rt_mutex_release n s)) (MutexL n)) \<and>
       prio (snd (rt_mutex_release n s)) v < prio (snd (rt_mutex_release n s)) w)"
  using mutex_release_hands_over(4,6,9)[OF assms(1) _ _ assms(3-7)] assms(2) by (simp add: running_def)

lemma mutex_handover_priorities_witness:
  "prio (snd (rt_mutex_release 0 sample)) 0 = 10 \<and> prio (snd (rt_mutex_release 0 sample)) 3 = 12"
  using mutex_handover_priorities[OF sample_kinv sample_run _ sample_mutex_inv, of 0 3 "[]"]
  by (simp add: sample_sel sample_mutex_def sample_list sample_prio)

section \<open>Events\<close>

text \<open>C16: No lost wake-up: sending event bits wakes, in the order of the queue, every thread whose
  condition holds when its turn comes and hands it its bits; each thread left in the queue keeps
  waiting for a condition that the remaining bits do not satisfy.\<close>

theorem event_send_wakes:
  assumes "kinv s" "cur s = Some c" "is_event n s" "bits \<noteq> 0"
    and "send_spec (\<lambda>t. t_event_set (thr s t)) (\<lambda>t. t_event_info (thr s t))
      (e_set (events s n) OR bits) (lists s (EventL n)) = (ws, rs, h)"
  shows "\<exists>s'. rt_event_send n bits s = (RT_EOK, s') \<and> kinv s' \<and> stuck s' = stuck s \<and>
    e_set (events s' n) = h \<and> lists s' (EventL n) = rs \<and>
    (\<forall>(t, g) \<in> set ws. awake s' t \<and> t_event_set (thr s' t) = g) \<and>
    (\<forall>t \<in> set rs. statm s' t = RT_THREAD_SUSPEND \<and>
       \<not> event_cond h (t_event_set (thr s' t)) (t_event_info (thr s' t)))"
  using event_send_effect[OF assms] by (auto simp: event_inv_def)

lemma event_send_wakes_witness:
  "\<exists>s'. rt_event_send 0 3 sample = (RT_EOK, s') \<and> e_set (events s' 0) = 2 \<and>
     lists s' (EventL 0) = [] \<and> awake s' 4 \<and> t_event_set (thr s' 4) = 5"
  using event_send_wakes[OF sample_kinv sample_sel(1) sample_is(3), of 3 0 "[(4, 5)]" "[]" 2]
  by (auto simp: sample_list sample_sel sample_thr sample_thread_def event_cond_def event_got_def)

text \<open>Receiving an event whose condition holds returns the matching bits at once and clears them
  when asked to; no thread is disturbed.\<close>

theorem event_recv_at_once:
  assumes "kinv s" "cur s = Some c" "int_nest s = 0" "is_event n s" "want \<noteq> 0"
    and "event_cond (e_set (events s n)) want option"
  shows "\<exists>s'. rt_event_recv n want option timeout s =
      (Ret RT_EOK, Some (e_set (events s n) AND want), s') \<and> kinv s' \<and>
    e_set (events s' n) = (if option AND RT_EVENT_FLAG_CLEAR \<noteq> 0
      then e_set (events s n) AND NOT want else e_set (events s n)) \<and> lists s' = lists s"
  by (rule event_recv_now[OF assms])

lemma event_recv_at_once_witness:
  "\<exists>s'. rt_event_recv 1 3 6 0 sample = (Ret RT_EOK, Some 3, s') \<and> e_set (events s' 1) = 4"
  using event_recv_at_once[OF sample_kinv sample_sel(1) _ sample_is(3), of 3 1 6 0]
  by (auto simp add: sample_sel event_cond_def)

text \<open>Receiving an event whose condition does not hold suspends the caller with its condition
  recorded, in the order of the event's flag, so that every queued thread waits for a condition that
  does not hold.\<close>

theorem event_recv_waits:
  fixes timeout :: u32
  assumes "kinv s" "running s c" "int_nest s = 0" "event_inv n s" "want \<noteq> 0" "timeout \<noteq> 0"
    and "option AND RT_EVENT_FLAG_AND \<noteq> 0 \<or> option AND RT_EVENT_FLAG_OR \<noteq> 0"
    and "\<not> event_cond (e_set (events s n)) want option"
  shows "\<exists>s'. rt_event_recv n want option timeout s = (Blocked, None, s') \<and> kinv s' \<and>
    event_inv n s' \<and> statm s' c = RT_THREAD_SUSPEND \<and> events s' = events s \<and>
    lists s' (EventL n) = wait_insert (e_flag (events s n)) (\<lambda>u. t_current_priority (thr s u)) c
      (lists s (EventL n)) \<and>
    t_event_set (thr s' c) = want \<and> t_event_info (thr s' c) = option"
  using event_recv_blocks[OF assms(1) _ _ assms(3-8)] assms(2) by (simp add: running_def)

lemma event_recv_waits_witness:
  "\<exists>s'. rt_event_recv 0 3 1 100 sample = (Blocked, None, s') \<and> lists s' (EventL 0) = [4, 0]"
  using event_recv_waits[OF sample_kinv sample_run _ sample_event_inv, of 3 100 1]
  by (auto simp: sample_sel sample_list event_cond_def wait_insert_def)

end
