(* ===== verification/RingBuffer.thy ===== *)
theory RingBuffer
  imports Prelude
begin

text \<open>
  The byte ring buffer of \<^verbatim>\<open>rt-thread/components/drivers/src/ringbuffer.c\<close>, which the serial and AT
  layers use. The two mirror bits are one-bit fields (\<open>bool\<close>, complemented by \<open>~\<close>); the two indices
  are 15-bit fields, so a store into them is reduced modulo \<open>2 ^ 15\<close>. \<open>rb_list\<close> is the contents from
  the oldest to the newest byte.
\<close>

section \<open>State and operations\<close>

record rt_ringbuffer =
  buffer_ptr :: "u8 list"
  read_mirror :: bool
  read_index :: nat
  write_mirror :: bool
  write_index :: nat
  buffer_size :: nat

datatype rt_ringbuffer_state = RT_RINGBUFFER_EMPTY | RT_RINGBUFFER_FULL | RT_RINGBUFFER_HALFFULL

definition rt_ringbuffer_status :: "rt_ringbuffer \<Rightarrow> rt_ringbuffer_state" where
  "rt_ringbuffer_status rb =
     (if read_index rb = write_index rb
      then if read_mirror rb = write_mirror rb then RT_RINGBUFFER_EMPTY else RT_RINGBUFFER_FULL
      else RT_RINGBUFFER_HALFFULL)"

text \<open>\<^verbatim>\<open>RT_ALIGN_DOWN(size, RT_ALIGN_SIZE)\<close> with \<^verbatim>\<open>RT_ALIGN_SIZE\<close> 4; the assertion \<open>size > 0\<close> is the
  \<open>None\<close> branch.\<close>

definition rt_ringbuffer_init :: "u8 list \<Rightarrow> int \<Rightarrow> rt_ringbuffer option" where
  "rt_ringbuffer_init pool sz =
     (if sz > 0 then
        Some \<lparr>buffer_ptr = pool, read_mirror = False, read_index = 0,
              write_mirror = False, write_index = 0, buffer_size = nat (sz - sz mod 4)\<rparr>
      else None)"

definition rt_ringbuffer_data_len :: "rt_ringbuffer \<Rightarrow> nat" where
  "rt_ringbuffer_data_len rb =
     (case rt_ringbuffer_status rb of
        RT_RINGBUFFER_EMPTY \<Rightarrow> 0
      | RT_RINGBUFFER_FULL \<Rightarrow> buffer_size rb
      | RT_RINGBUFFER_HALFFULL \<Rightarrow>
          (if write_index rb > read_index rb then write_index rb - read_index rb
           else buffer_size rb - (read_index rb - write_index rb)))"

definition rt_ringbuffer_space_len :: "rt_ringbuffer \<Rightarrow> nat" where
  "rt_ringbuffer_space_len rb = buffer_size rb - rt_ringbuffer_data_len rb"

text \<open>The bytes at \<open>ptr\<close> are \<open>ptr\<close>'s first \<open>len\<close> elements; the result is the count returned.\<close>

definition rt_ringbuffer_put :: "u8 list \<Rightarrow> nat \<Rightarrow> rt_ringbuffer \<Rightarrow> nat \<times> rt_ringbuffer" where
  "rt_ringbuffer_put ptr len0 rb =
     (let size = rt_ringbuffer_space_len rb in
      if size = 0 then (0, rb) else
      let len = (if size < len0 then size else len0);
          w = write_index rb
      in if buffer_size rb - w > len then
           (len, rb\<lparr>buffer_ptr := blit (buffer_ptr rb) w (take len ptr),
                    write_index := (w + len) mod 2 ^ 15\<rparr>)
         else
           let k = buffer_size rb - w;
               b1 = blit (buffer_ptr rb) w (take k ptr);
               b2 = blit b1 0 (take (len - k) (drop k ptr))
           in (len, rb\<lparr>buffer_ptr := b2, write_mirror := \<not> write_mirror rb,
                       write_index := (len - k) mod 2 ^ 15\<rparr>))"

definition rt_ringbuffer_put_force :: "u8 list \<Rightarrow> nat \<Rightarrow> rt_ringbuffer \<Rightarrow> nat \<times> rt_ringbuffer" where
  "rt_ringbuffer_put_force ptr0 len0 rb =
     (let space = rt_ringbuffer_space_len rb;
          ptr = (if len0 > buffer_size rb then drop (len0 - buffer_size rb) ptr0 else ptr0);
          len = (if len0 > buffer_size rb then buffer_size rb else len0);
          w = write_index rb
      in if buffer_size rb - w > len then
           let rb1 = rb\<lparr>buffer_ptr := blit (buffer_ptr rb) w (take len ptr),
                        write_index := (w + len) mod 2 ^ 15\<rparr>
           in (len, if len > space then rb1\<lparr>read_index := write_index rb1\<rparr> else rb1)
         else
           let k = buffer_size rb - w;
               b1 = blit (buffer_ptr rb) w (take k ptr);
               b2 = blit b1 0 (take (len - k) (drop k ptr));
               rb1 = rb\<lparr>buffer_ptr := b2, write_mirror := \<not> write_mirror rb,
                        write_index := (len - k) mod 2 ^ 15\<rparr>
           in (len, if len > space
                    then rb1\<lparr>read_mirror := \<not> read_mirror rb1, read_index := write_index rb1\<rparr>
                    else rb1))"

text \<open>\<open>get\<close> returns the bytes it stores at \<open>ptr\<close>; their number is the C return value.\<close>

definition rt_ringbuffer_get :: "nat \<Rightarrow> rt_ringbuffer \<Rightarrow> u8 list \<times> rt_ringbuffer" where
  "rt_ringbuffer_get len0 rb =
     (let size = rt_ringbuffer_data_len rb in
      if size = 0 then ([], rb) else
      let len = (if size < len0 then size else len0);
          r = read_index rb
      in if buffer_size rb - r > len then
           (take len (drop r (buffer_ptr rb)), rb\<lparr>read_index := (r + len) mod 2 ^ 15\<rparr>)
         else
           let k = buffer_size rb - r
           in (take k (drop r (buffer_ptr rb)) @ take (len - k) (buffer_ptr rb),
               rb\<lparr>read_mirror := \<not> read_mirror rb, read_index := (len - k) mod 2 ^ 15\<rparr>))"

definition rt_ringbuffer_putchar :: "u8 \<Rightarrow> rt_ringbuffer \<Rightarrow> nat \<times> rt_ringbuffer" where
  "rt_ringbuffer_putchar ch rb =
     (if rt_ringbuffer_space_len rb = 0 then (0, rb) else
      let rb1 = rb\<lparr>buffer_ptr := (buffer_ptr rb)[write_index rb := ch]\<rparr> in
      if int (write_index rb1) = int (buffer_size rb1) - 1
      then (1, rb1\<lparr>write_mirror := \<not> write_mirror rb1, write_index := 0\<rparr>)
      else (1, rb1\<lparr>write_index := (write_index rb1 + 1) mod 2 ^ 15\<rparr>))"

definition rt_ringbuffer_putchar_force :: "u8 \<Rightarrow> rt_ringbuffer \<Rightarrow> nat \<times> rt_ringbuffer" where
  "rt_ringbuffer_putchar_force ch rb =
     (let old_state = rt_ringbuffer_status rb;
          rb1 = rb\<lparr>buffer_ptr := (buffer_ptr rb)[write_index rb := ch]\<rparr>
      in if int (write_index rb1) = int (buffer_size rb1) - 1
         then let rb2 = rb1\<lparr>write_mirror := \<not> write_mirror rb1, write_index := 0\<rparr>
              in (1, if old_state = RT_RINGBUFFER_FULL
                     then rb2\<lparr>read_mirror := \<not> read_mirror rb2, read_index := write_index rb2\<rparr>
                     else rb2)
         else let rb2 = rb1\<lparr>write_index := (write_index rb1 + 1) mod 2 ^ 15\<rparr>
              in (1, if old_state = RT_RINGBUFFER_FULL
                     then rb2\<lparr>read_index := write_index rb2\<rparr> else rb2))"

definition rt_ringbuffer_getchar :: "rt_ringbuffer \<Rightarrow> (u8 \<times> rt_ringbuffer) option" where
  "rt_ringbuffer_getchar rb =
     (if rt_ringbuffer_data_len rb = 0 then None else
      let ch = buffer_ptr rb ! read_index rb in
      if int (read_index rb) = int (buffer_size rb) - 1
      then Some (ch, rb\<lparr>read_mirror := \<not> read_mirror rb, read_index := 0\<rparr>)
      else Some (ch, rb\<lparr>read_index := (read_index rb + 1) mod 2 ^ 15\<rparr>))"

definition rt_ringbuffer_reset :: "rt_ringbuffer \<Rightarrow> rt_ringbuffer" where
  "rt_ringbuffer_reset rb =
     rb\<lparr>read_mirror := False, read_index := 0, write_mirror := False, write_index := 0\<rparr>"

section \<open>Invariant and contents\<close>

definition rb_inv :: "rt_ringbuffer \<Rightarrow> bool" where
  "rb_inv rb \<longleftrightarrow>
     length (buffer_ptr rb) = buffer_size rb \<and> buffer_size rb < 2 ^ 15 \<and>
     read_index rb < buffer_size rb \<and> write_index rb < buffer_size rb \<and>
     (if read_mirror rb = write_mirror rb then read_index rb \<le> write_index rb
      else write_index rb \<le> read_index rb)"

definition rb_list :: "rt_ringbuffer \<Rightarrow> u8 list" where
  "rb_list rb =
     (if read_mirror rb = write_mirror rb
      then take (write_index rb - read_index rb) (drop (read_index rb) (buffer_ptr rb))
      else drop (read_index rb) (buffer_ptr rb) @ take (write_index rb) (buffer_ptr rb))"

lemma data_len_length: "rb_inv rb \<Longrightarrow> rt_ringbuffer_data_len rb = length (rb_list rb)"
  by (auto simp: rb_inv_def rb_list_def rt_ringbuffer_data_len_def rt_ringbuffer_status_def
      split: if_splits)

lemma rb_list_bound: "rb_inv rb \<Longrightarrow> length (rb_list rb) \<le> buffer_size rb"
  by (auto simp: rb_inv_def rb_list_def split: if_splits)

lemma space_len: "rb_inv rb \<Longrightarrow> rt_ringbuffer_space_len rb = buffer_size rb - length (rb_list rb)"
  by (simp add: rt_ringbuffer_space_len_def data_len_length)

lemma status_full: "rb_inv rb \<Longrightarrow>
    rt_ringbuffer_status rb = RT_RINGBUFFER_FULL \<longleftrightarrow> length (rb_list rb) = buffer_size rb"
  by (auto simp: rb_inv_def rb_list_def rt_ringbuffer_status_def split: if_splits)

lemma init_inv:
  assumes "4 \<le> sz" "sz < 2 ^ 15" "length pool = nat (sz - sz mod 4)"
  shows "\<exists>rb. rt_ringbuffer_init pool sz = Some rb \<and> rb_inv rb \<and> rb_list rb = []"
proof -
  have "0 < sz - sz mod 4" using assms(1) pos_mod_bound[of 4 sz] by linarith
  then have "0 < nat (sz - sz mod 4)" by simp
  moreover have "nat (sz - sz mod 4) < 2 ^ 15"
    using assms(1,2) pos_mod_sign[of 4 sz] by (simp add: nat_less_iff)
  ultimately show ?thesis using assms by (simp add: rt_ringbuffer_init_def rb_inv_def rb_list_def)
qed

section \<open>Block operations\<close>

lemma put_nowrap:
  assumes "rb_inv rb" "length p \<le> buffer_size rb - length (rb_list rb)"
    and "buffer_size rb - write_index rb > length p"
  defines "rb' \<equiv> rb\<lparr>buffer_ptr := blit (buffer_ptr rb) (write_index rb) p,
    write_index := (write_index rb + length p) mod 2 ^ 15\<rparr>"
  shows "rb_inv rb' \<and> rb_list rb' = rb_list rb @ p"
proof -
  have w: "(write_index rb + length p) mod 2 ^ 15 = write_index rb + length p"
    using assms(1,3) less_diff_conv[of "length p" "buffer_size rb" "write_index rb"]
    by (intro mod_less) (simp add: rb_inv_def add.commute)
  show ?thesis
  proof (cases "read_mirror rb = write_mirror rb")
    case True
    then have "read_index rb \<le> write_index rb" using assms(1) by (simp add: rb_inv_def)
    then have "take (write_index rb + length p - read_index rb) (drop (read_index rb)
        (blit (buffer_ptr rb) (write_index rb) p)) =
      take (write_index rb - read_index rb) (drop (read_index rb) (buffer_ptr rb)) @ p"
      using assms(1,3) by (subst drop_blit_front) (auto simp: rb_inv_def)
    with True w assms show ?thesis by (auto simp: rb_inv_def rb_list_def)
  next
    case False
    with assms w show ?thesis by (auto simp: rb_inv_def rb_list_def)
  qed
qed

lemma put_wrap:
  assumes "rb_inv rb" "length p \<le> buffer_size rb - length (rb_list rb)"
    and "k = buffer_size rb - write_index rb" "k \<le> length p"
  defines "rb' \<equiv> rb\<lparr>buffer_ptr := blit (blit (buffer_ptr rb) (write_index rb) (take k p)) 0 (drop k p),
    write_mirror := \<not> write_mirror rb, write_index := (length p - k) mod 2 ^ 15\<rparr>"
  shows "rb_inv rb' \<and> rb_list rb' = rb_list rb @ p"
proof -
  note inv = assms(1)[unfolded rb_inv_def]
  have m: "read_mirror rb = write_mirror rb"
  proof (rule ccontr)
    assume "read_mirror rb \<noteq> write_mirror rb"
    with assms(2-4) inv show False by (auto simp: rb_list_def)
  qed
  with inv have rw: "read_index rb \<le> write_index rb" by simp
  from m rw inv have len: "length (rb_list rb) = write_index rb - read_index rb"
    by (auto simp: rb_list_def)
  have l2: "length p - k \<le> read_index rb" using assms(2-4) len rw inv by linarith
  then have w: "(length p - k) mod 2 ^ 15 = length p - k" using inv by simp
  have b1: "length (blit (buffer_ptr rb) (write_index rb) (take k p)) = buffer_size rb"
    using inv assms(3,4) by (subst length_blit) auto
  have "drop (read_index rb) (blit (buffer_ptr rb) (write_index rb) (take k p)) =
      take (write_index rb - read_index rb) (drop (read_index rb) (buffer_ptr rb)) @ take k p"
    using rw inv assms(3,4) by (subst drop_blit_front) auto
  with b1 l2 have "drop (read_index rb) (blit (blit (buffer_ptr rb) (write_index rb) (take k p)) 0 (drop k p)) =
      rb_list rb @ take k p"
    using inv m by (subst drop_blit) (auto simp: rb_list_def)
  moreover have "take (length p - k) (blit (blit (buffer_ptr rb) (write_index rb) (take k p)) 0 (drop k p)) =
      drop k p"
    using b1 l2 inv by (subst take_blit_end) auto
  ultimately have "rb_list rb' = rb_list rb @ p"
    using m w by (simp add: rb'_def rb_list_def)
  moreover have "rb_inv rb'"
    using inv m b1 l2 w by (auto simp: rb'_def rb_inv_def)
  ultimately show ?thesis by simp
qed

lemma put_spec:
  assumes "rb_inv rb" "len \<le> length ptr"
  shows "\<exists>rb'. rt_ringbuffer_put ptr len rb = (min len (rt_ringbuffer_space_len rb), rb') \<and>
    rb_inv rb' \<and> rb_list rb' = rb_list rb @ take (min len (rt_ringbuffer_space_len rb)) ptr"
proof (cases "rt_ringbuffer_space_len rb = 0")
  case True
  with assms show ?thesis by (simp add: rt_ringbuffer_put_def)
next
  case False
  define n where "n = min len (rt_ringbuffer_space_len rb)"
  define p where "p = take n ptr"
  have p: "length p = n" "n \<le> buffer_size rb - length (rb_list rb)"
    using assms space_len[OF assms(1)] by (auto simp: p_def n_def)
  have n: "(if rt_ringbuffer_space_len rb < len then rt_ringbuffer_space_len rb else len) = n"
    by (simp add: n_def)
  show ?thesis
  proof (cases "buffer_size rb - write_index rb > n")
    case True
    with put_nowrap[of rb p] p assms(1) False n show ?thesis
      unfolding n_def[symmetric] by (simp add: rt_ringbuffer_put_def Let_def p_def)
  next
    case wrap: False
    define k where "k = buffer_size rb - write_index rb"
    have "take k ptr = take k p" "take (n - k) (drop k ptr) = drop k p"
      using wrap by (auto simp: p_def k_def drop_take min_def)
    with put_wrap[of rb p k] p wrap assms(1) False n show ?thesis
      unfolding n_def[symmetric]
      by (simp add: rt_ringbuffer_put_def Let_def k_def[symmetric] p_def[symmetric])
  qed
qed

lemma get_spec:
  assumes "rb_inv rb"
  shows "\<exists>rb'. rt_ringbuffer_get len rb = (take len (rb_list rb), rb') \<and>
    rb_inv rb' \<and> rb_list rb' = drop len (rb_list rb) \<and> buffer_size rb' = buffer_size rb"
proof (cases "rb_list rb = []")
  case True
  with assms show ?thesis by (simp add: rt_ringbuffer_get_def data_len_length)
next
  case False
  note inv = assms[unfolded rb_inv_def]
  define n where "n = min len (length (rb_list rb))"
  have n: "(if length (rb_list rb) < len then length (rb_list rb) else len) = n"
    by (simp add: n_def)
  have ne: "length (rb_list rb) \<noteq> 0" using False by simp
  have tn: "take len (rb_list rb) = take n (rb_list rb)" "drop len (rb_list rb) = drop n (rb_list rb)"
    by (auto simp: n_def min_def)
  note unf = rt_ringbuffer_get_def data_len_length[OF assms] Let_def n if_not_P[OF ne] tn
  have nl: "n \<le> length (rb_list rb)" by (simp add: n_def)
  define k where "k = buffer_size rb - read_index rb"
  show ?thesis
  proof (cases "k > n")
    case True
    then have r: "(read_index rb + n) mod 2 ^ 15 = read_index rb + n"
      using inv less_diff_conv[of n "buffer_size rb" "read_index rb"]
      by (intro mod_less) (simp add: k_def add.commute)
    have "take n (drop (read_index rb) (buffer_ptr rb)) = take n (rb_list rb)"
      "rb_list (rb\<lparr>read_index := read_index rb + n\<rparr>) = drop n (rb_list rb)"
      "rb_inv (rb\<lparr>read_index := read_index rb + n\<rparr>)"
      using True inv nl by (auto simp: rb_list_def rb_inv_def k_def drop_take add.commute split: if_splits)
    with True r show ?thesis unfolding unf by (simp add: k_def)
  next
    case wrap: False
    have m: "read_mirror rb \<noteq> write_mirror rb"
    proof
      assume "read_mirror rb = write_mirror rb"
      then have "length (rb_list rb) \<le> write_index rb - read_index rb" by (simp add: rb_list_def)
      with wrap nl inv show False unfolding k_def by linarith
    qed
    have nk: "n - k \<le> write_index rb" using nl m inv by (auto simp: rb_list_def k_def)
    then have r: "(n - k) mod 2 ^ 15 = n - k" using inv by simp
    have ld: "length (drop (read_index rb) (buffer_ptr rb)) = k" using inv by (simp add: k_def)
    have "take k (drop (read_index rb) (buffer_ptr rb)) @ take (n - k) (buffer_ptr rb) = take n (rb_list rb)"
      using wrap m nk ld by (simp add: rb_list_def min_def)
    moreover have "rb_list (rb\<lparr>read_mirror := \<not> read_mirror rb, read_index := n - k\<rparr>) = drop n (rb_list rb)"
      using wrap m nk ld by (simp add: rb_list_def drop_take)
    moreover have "rb_inv (rb\<lparr>read_mirror := \<not> read_mirror rb, read_index := n - k\<rparr>)"
      using inv m nk by (auto simp: rb_inv_def)
    ultimately show ?thesis using wrap r unfolding unf by (simp add: k_def[symmetric])
  qed
qed


section \<open>Single bytes: a FIFO\<close>

lemma putchar_put:
  assumes "rb_inv rb"
  shows "rt_ringbuffer_putchar ch rb = rt_ringbuffer_put [ch] 1 rb"
proof -
  note inv = assms[unfolded rb_inv_def]
  have u: "(buffer_ptr rb)[write_index rb := ch] = blit (buffer_ptr rb) (write_index rb) [ch]"
    using inv by (simp add: blit_def upd_conv_take_nth_drop)
  show ?thesis
  proof (cases "buffer_size rb - write_index rb > 1")
    case True
    then have "int (write_index rb) \<noteq> int (buffer_size rb) - 1" by linarith
    with True u show ?thesis by (simp add: rt_ringbuffer_putchar_def rt_ringbuffer_put_def Let_def)
  next
    case False
    then have "buffer_size rb - write_index rb = 1" "int (write_index rb) = int (buffer_size rb) - 1"
      using inv by linarith+
    with u show ?thesis by (simp add: rt_ringbuffer_putchar_def rt_ringbuffer_put_def Let_def blit_def)
  qed
qed

lemma getchar_get:
  assumes "rb_inv rb"
  shows "rt_ringbuffer_getchar rb =
    (case rt_ringbuffer_get 1 rb of ([], _) \<Rightarrow> None | (c # _, rb') \<Rightarrow> Some (c, rb'))"
proof -
  note inv = assms[unfolded rb_inv_def]
  have d: "drop (read_index rb) (buffer_ptr rb) =
      buffer_ptr rb ! read_index rb # drop (Suc (read_index rb)) (buffer_ptr rb)"
    using inv by (simp add: Cons_nth_drop_Suc)
  show ?thesis
  proof (cases "buffer_size rb - read_index rb > 1")
    case True
    then have "int (read_index rb) \<noteq> int (buffer_size rb) - 1" by linarith
    with True d show ?thesis by (simp add: rt_ringbuffer_getchar_def rt_ringbuffer_get_def Let_def)
  next
    case False
    then have "buffer_size rb - read_index rb = 1" "int (read_index rb) = int (buffer_size rb) - 1"
      using inv by linarith+
    with d show ?thesis by (simp add: rt_ringbuffer_getchar_def rt_ringbuffer_get_def Let_def)
  qed
qed

text \<open>The byte interface in the shape of the FIFO locale: a refused byte is the return value 0.\<close>

definition rb_put_opt :: "u8 \<Rightarrow> rt_ringbuffer \<Rightarrow> rt_ringbuffer option" where
  "rb_put_opt ch rb = (case rt_ringbuffer_putchar ch rb of (n, rb') \<Rightarrow> if n = 0 then None else Some rb')"

lemma put_size: "rt_ringbuffer_put ptr len rb = (n, rb') \<Longrightarrow> buffer_size rb' = buffer_size rb"
  by (auto simp: rt_ringbuffer_put_def Let_def split: if_splits)

lemma rb_put_opt_room:
  assumes "rb_inv rb" "length (rb_list rb) < buffer_size rb"
  shows "\<exists>rb'. rb_put_opt ch rb = Some rb' \<and> rb_inv rb' \<and> rb_list rb' = rb_list rb @ [ch] \<and>
    buffer_size rb' = buffer_size rb"
proof -
  have "min 1 (rt_ringbuffer_space_len rb) = 1" using assms space_len by simp
  with put_spec[OF assms(1), of 1 "[ch]"] obtain rb' where
    r: "rt_ringbuffer_put [ch] 1 rb = (1, rb')" "rb_inv rb'" "rb_list rb' = rb_list rb @ [ch]"
    by auto
  with put_size[OF r(1)] show ?thesis
    by (simp add: rb_put_opt_def putchar_put[OF assms(1)])
qed

lemma rb_put_opt_full:
  "rb_inv rb \<Longrightarrow> length (rb_list rb) = buffer_size rb \<Longrightarrow> rb_put_opt ch rb = None"
  by (simp add: rb_put_opt_def rt_ringbuffer_putchar_def space_len)

lemma rb_getchar_some:
  assumes "rb_inv rb" "rb_list rb = x # xs"
  shows "\<exists>rb'. rt_ringbuffer_getchar rb = Some (x, rb') \<and> rb_inv rb' \<and> rb_list rb' = xs \<and>
    buffer_size rb' = buffer_size rb"
  using get_spec[OF assms(1), of 1] assms by (auto simp: getchar_get)

lemma rb_getchar_none: "rb_inv rb \<Longrightarrow> rb_list rb = [] \<Longrightarrow> rt_ringbuffer_getchar rb = None"
  by (simp add: rt_ringbuffer_getchar_def data_len_length)

interpretation rb: fifo rb_inv rb_list buffer_size rb_put_opt rt_ringbuffer_getchar
  by unfold_locales
    (auto intro: rb_list_bound rb_put_opt_room rb_put_opt_full rb_getchar_some rb_getchar_none)

section \<open>Forced writes\<close>

text \<open>
  A forced byte into a full buffer is a \<open>getchar\<close> that throws the oldest byte away, followed by a
  \<open>putchar\<close>.
\<close>

lemma putchar_force_full:
  assumes "rb_inv rb" "length (rb_list rb) = buffer_size rb" "rt_ringbuffer_getchar rb = Some (x, rb1)"
  shows "rt_ringbuffer_putchar_force ch rb = rt_ringbuffer_putchar ch rb1"
proof -
  note inv = assms(1)[unfolded rb_inv_def]
  have st: "rt_ringbuffer_status rb = RT_RINGBUFFER_FULL" using assms status_full by simp
  then have rw: "read_index rb = write_index rb" "read_mirror rb \<noteq> write_mirror rb"
    by (auto simp: rt_ringbuffer_status_def split: if_splits)
  have g: "rb_inv rb1" "length (rb_list rb1) < buffer_size rb1"
    using rb_getchar_some[OF assms(1)] assms(2,3) inv by (cases "rb_list rb"; auto)+
  then have sp: "rt_ringbuffer_space_len rb1 \<noteq> 0" by (simp add: space_len)
  show ?thesis
  proof (cases "int (write_index rb) = int (buffer_size rb) - 1")
    case True
    with assms(3) rw have "rb1 = rb\<lparr>read_mirror := \<not> read_mirror rb, read_index := 0\<rparr>"
      by (simp add: rt_ringbuffer_getchar_def Let_def split: if_splits)
    with True st rw sp show ?thesis
      by (simp add: rt_ringbuffer_putchar_force_def rt_ringbuffer_putchar_def Let_def)
  next
    case False
    with assms(3) rw have "rb1 = rb\<lparr>read_index := (read_index rb + 1) mod 2 ^ 15\<rparr>"
      by (simp add: rt_ringbuffer_getchar_def Let_def split: if_splits)
    with False st rw sp show ?thesis
      by (simp add: rt_ringbuffer_putchar_force_def rt_ringbuffer_putchar_def Let_def)
  qed
qed

lemma putchar_room:
  assumes "rb_inv rb" "length (rb_list rb) < buffer_size rb"
  shows "\<exists>rb'. rt_ringbuffer_putchar ch rb = (1, rb') \<and> rb_inv rb' \<and> rb_list rb' = rb_list rb @ [ch]"
proof -
  have "min 1 (rt_ringbuffer_space_len rb) = 1" using assms space_len by simp
  with put_spec[OF assms(1), of 1 "[ch]"] show ?thesis
    by (auto simp: putchar_put[OF assms(1)])
qed

lemma putchar_force_spec:
  assumes "rb_inv rb"
  shows "\<exists>rb'. rt_ringbuffer_putchar_force ch rb = (1, rb') \<and> rb_inv rb' \<and>
    rb_list rb' = (if length (rb_list rb) = buffer_size rb then tl (rb_list rb) else rb_list rb) @ [ch]"
proof (cases "length (rb_list rb) = buffer_size rb")
  case False
  then have "rt_ringbuffer_putchar_force ch rb = rt_ringbuffer_putchar ch rb"
    using assms status_full[OF assms] rb_list_bound[OF assms] space_len[OF assms]
    by (simp add: rt_ringbuffer_putchar_force_def rt_ringbuffer_putchar_def Let_def)
  with putchar_room[OF assms, of ch] False rb_list_bound[OF assms] show ?thesis by simp
next
  case True
  with assms obtain x xs where l: "rb_list rb = x # xs"
    by (cases "rb_list rb") (auto simp: rb_inv_def)
  obtain rb1 where g: "rt_ringbuffer_getchar rb = Some (x, rb1)" "rb_inv rb1" "rb_list rb1 = xs"
    "buffer_size rb1 = buffer_size rb"
    using rb_getchar_some[OF assms l] by auto
  with True l putchar_room[OF g(2), of ch] putchar_force_full[OF assms True g(1), of ch]
  show ?thesis by simp
qed

text \<open>
  A forced block that fits is appended. When it does not fit and the two mirror bits were equal, the
  code flips both of them, so the buffer that should be full counts as empty.
\<close>

lemma put_force_fits:
  assumes "rb_inv rb" "len \<le> length ptr" "0 < len" "len \<le> rt_ringbuffer_space_len rb"
  shows "rt_ringbuffer_put_force ptr len rb = rt_ringbuffer_put ptr len rb"
proof -
  have "len \<le> buffer_size rb" using assms(4) by (simp add: rt_ringbuffer_space_len_def)
  with assms show ?thesis
    by (auto simp: rt_ringbuffer_put_force_def rt_ringbuffer_put_def Let_def)
qed

lemma put_force_same_mirror_overflow:
  assumes "rb_inv rb" "read_mirror rb = write_mirror rb"
    and "min len (buffer_size rb) > rt_ringbuffer_space_len rb"
  shows "rb_list (snd (rt_ringbuffer_put_force ptr len rb)) = []"
proof -
  note inv = assms(1)[unfolded rb_inv_def]
  have "rt_ringbuffer_space_len rb = buffer_size rb - (write_index rb - read_index rb)"
    using space_len[OF assms(1)] assms(2) inv by (auto simp: rb_list_def)
  with assms(3) inv have nb: "\<not> buffer_size rb - write_index rb > min len (buffer_size rb)"
    by linarith
  have m: "(if len > buffer_size rb then buffer_size rb else len) = min len (buffer_size rb)"
    by simp
  show ?thesis
    unfolding rt_ringbuffer_put_force_def Let_def m if_not_P[OF nb] if_P[OF assms(3)]
    by (simp add: rb_list_def assms(2))
qed

end
