(* ===== verification/DList.thy ===== *)
theory DList
  imports Prelude
begin

text \<open>
  The intrusive lists of \<^verbatim>\<open>rt-thread/include/rtservice.h\<close> at pointer level: a heap gives every node
  its \<open>next\<close> and \<open>prev\<close> pointer, and each C routine is the sequence of its pointer assignments.
  \<open>dring h l xs\<close> says that the nodes \<open>xs\<close> hang, in this order, on the list head \<open>l\<close>. The kernel
  theories use the routines through this abstraction: \<open>insert_before\<close> on the head appends,
  \<open>insert_after\<close> on the head conses, \<open>remove\<close> deletes.
\<close>

section \<open>Doubly linked lists\<close>

record 'n lheap =
  nxt :: "'n \<Rightarrow> 'n"
  prv :: "'n \<Rightarrow> 'n"

definition set_nxt :: "'n \<Rightarrow> 'n \<Rightarrow> 'n lheap \<Rightarrow> 'n lheap" where
  "set_nxt a b h = h\<lparr>nxt := (nxt h)(a := b)\<rparr>"

definition set_prv :: "'n \<Rightarrow> 'n \<Rightarrow> 'n lheap \<Rightarrow> 'n lheap" where
  "set_prv a b h = h\<lparr>prv := (prv h)(a := b)\<rparr>"

lemma set_simps [simp]:
  "nxt (set_nxt a b h) = (nxt h)(a := b)" "prv (set_nxt a b h) = prv h"
  "nxt (set_prv a b h) = nxt h" "prv (set_prv a b h) = (prv h)(a := b)"
  by (simp_all add: set_nxt_def set_prv_def)

definition rt_list_init :: "'n \<Rightarrow> 'n lheap \<Rightarrow> 'n lheap" where
  "rt_list_init l h = set_nxt l l (set_prv l l h)"

definition rt_list_insert_after :: "'n \<Rightarrow> 'n \<Rightarrow> 'n lheap \<Rightarrow> 'n lheap" where
  "rt_list_insert_after l n h =
     (let h1 = set_prv (nxt h l) n h;
          h2 = set_nxt n (nxt h1 l) h1;
          h3 = set_nxt l n h2
      in set_prv n l h3)"

definition rt_list_insert_before :: "'n \<Rightarrow> 'n \<Rightarrow> 'n lheap \<Rightarrow> 'n lheap" where
  "rt_list_insert_before l n h =
     (let h1 = set_nxt (prv h l) n h;
          h2 = set_prv n (prv h1 l) h1;
          h3 = set_prv l n h2
      in set_nxt n l h3)"

definition rt_list_remove :: "'n \<Rightarrow> 'n lheap \<Rightarrow> 'n lheap" where
  "rt_list_remove n h =
     (let h1 = set_prv (nxt h n) (prv h n) h;
          h2 = set_nxt (prv h1 n) (nxt h1 n) h1
      in set_nxt n n (set_prv n n h2))"

definition rt_list_isempty :: "'n \<Rightarrow> 'n lheap \<Rightarrow> bool" where
  "rt_list_isempty l h \<longleftrightarrow> nxt h l = l"

text \<open>The loop of \<^verbatim>\<open>rt_list_len\<close> ends only on a well-formed ring, hence the option type.\<close>

partial_function (option) rt_list_len_loop :: "'n lheap \<Rightarrow> 'n \<Rightarrow> 'n \<Rightarrow> nat \<Rightarrow> nat option" where
  "rt_list_len_loop h l p len =
     (if nxt h p \<noteq> l then rt_list_len_loop h l (nxt h p) (Suc len) else Some len)"

definition rt_list_len :: "'n \<Rightarrow> 'n lheap \<Rightarrow> nat option" where
  "rt_list_len l h = rt_list_len_loop h l l 0"

section \<open>The ring a head carries\<close>

fun lseg :: "'n lheap \<Rightarrow> 'n \<Rightarrow> 'n list \<Rightarrow> 'n \<Rightarrow> bool" where
  "lseg h a [] b \<longleftrightarrow> nxt h a = b \<and> prv h b = a"
| "lseg h a (x # xs) b \<longleftrightarrow> nxt h a = x \<and> prv h x = a \<and> lseg h x xs b"

definition dring :: "'n lheap \<Rightarrow> 'n \<Rightarrow> 'n list \<Rightarrow> bool" where
  "dring h l xs \<longleftrightarrow> distinct (l # xs) \<and> lseg h l xs l"

lemma lseg_append:
  "lseg h a (xs @ y # ys) b \<longleftrightarrow> lseg h a xs y \<and> lseg h y ys b"
  by (induction xs arbitrary: a) auto

lemma lseg_frame:
  assumes "\<And>x. x \<in> insert a (set xs) \<Longrightarrow> nxt h' x = nxt h x"
    and "\<And>x. x \<in> insert b (set xs) \<Longrightarrow> prv h' x = prv h x"
  shows "lseg h' a xs b \<longleftrightarrow> lseg h a xs b"
  using assms by (induction xs arbitrary: a) auto

lemma dring_frame:
  assumes "\<And>x. x \<in> set (l # xs) \<Longrightarrow> nxt h' x = nxt h x \<and> prv h' x = prv h x"
  shows "dring h' l xs \<longleftrightarrow> dring h l xs"
  using lseg_frame[of l xs h' h l] assms by (simp add: dring_def)

lemma dring_init: "dring (rt_list_init l h) l []"
  by (simp add: dring_def rt_list_init_def)

lemma dring_isempty: "dring h l xs \<Longrightarrow> rt_list_isempty l h \<longleftrightarrow> xs = []"
  by (cases xs) (auto simp: dring_def rt_list_isempty_def)

lemma lseg_prv_end: "lseg h a xs b \<Longrightarrow> prv h b = last (a # xs)"
  by (induction xs arbitrary: a) auto

lemma lseg_nxt_start: "lseg h a xs b \<Longrightarrow> nxt h a = hd (xs @ [b])"
  by (cases xs) auto

lemma dring_nxt: "dring h l (x # xs) \<Longrightarrow> nxt h l = x"
  by (simp add: dring_def)

section \<open>What the routines do to rings\<close>

text \<open>
  \<open>insert_after a n\<close> and \<open>insert_before b n\<close> are the same splice when \<open>b\<close> follows \<open>a\<close>; a splice puts
  \<open>n\<close> between the two.
\<close>

lemma splice_after_before:
  assumes "nxt h a = b" "prv h b = a" "n \<noteq> a" "n \<noteq> b"
  shows "rt_list_insert_before b n h = rt_list_insert_after a n h"
proof (rule lheap.equality)
  show "nxt (rt_list_insert_before b n h) = nxt (rt_list_insert_after a n h)"
    using assms by (simp add: rt_list_insert_before_def rt_list_insert_after_def Let_def fun_eq_iff)
  show "prv (rt_list_insert_before b n h) = prv (rt_list_insert_after a n h)"
    using assms by (simp add: rt_list_insert_before_def rt_list_insert_after_def Let_def fun_eq_iff)
qed simp

lemma insert_after_ptrs:
  assumes "nxt h a = b" "n \<noteq> a" "n \<noteq> b"
  shows "nxt (rt_list_insert_after a n h) = (nxt h)(n := b, a := n)"
    and "prv (rt_list_insert_after a n h) = (prv h)(b := n, n := a)"
  using assms by (simp_all add: rt_list_insert_after_def Let_def)

lemma lseg_insert_after:
  assumes "lseg h a ys b" "n \<notin> set (a # b # ys)" "distinct ys" "a \<notin> set ys" "b \<notin> set ys"
  shows "lseg (rt_list_insert_after a n h) a (n # ys) b"
proof (cases ys)
  case Nil
  with assms have "nxt h a = b" "n \<noteq> a" "n \<noteq> b" by auto
  from insert_after_ptrs[OF this] Nil assms show ?thesis by auto
next
  case (Cons y zs)
  with assms have "nxt h a = y" "n \<noteq> a" "n \<noteq> y" by auto
  note p = insert_after_ptrs[OF this]
  from assms Cons have "lseg h y zs b" by simp
  then have "lseg (rt_list_insert_after a n h) y zs b"
    by (subst lseg_frame[where h = h]) (use p assms Cons in auto)
  with p assms Cons show ?thesis by auto
qed

theorem dring_insert_after:
  assumes "dring h l xs" "n \<notin> set (l # xs)"
  shows "dring (rt_list_insert_after l n h) l (n # xs)"
  using assms lseg_insert_after[of h l xs l n] by (auto simp: dring_def)

text \<open>Splicing in front of a member that is not the head, and in front of the head.\<close>

lemma dring_insert_before_member:
  assumes "dring h l (us @ y # vs)" "n \<notin> set (l # us @ y # vs)"
  shows "dring (rt_list_insert_before y n h) l (us @ n # y # vs)"
proof -
  define a where "a = last (l # us)"
  have seg: "lseg h l us y" "lseg h y vs l" and d: "distinct (l # us @ y # vs)"
    using assms(1) by (auto simp: dring_def lseg_append)
  have pa: "prv h y = a" using lseg_prv_end[OF seg(1)] by (simp add: a_def)
  have na: "nxt h a = y"
  proof (cases us rule: rev_cases)
    case Nil
    with seg show ?thesis by (simp add: a_def)
  next
    case (snoc ws z)
    with seg show ?thesis by (simp add: a_def lseg_append)
  qed
  have am: "a \<in> set (l # us)" by (simp add: a_def)
  have neq: "n \<noteq> a" "n \<noteq> y" "a \<noteq> y" using am d assms(2) by auto
  let ?h = "rt_list_insert_before y n h"
  have h: "?h = rt_list_insert_after a n h" using splice_after_before[OF na pa neq(1,2)] .
  note p = insert_after_ptrs[OF na neq(1,2), folded h]
  have tail: "lseg ?h y vs l"
    using seg(2) by (subst lseg_frame[where h = h]) (use p am d assms(2) in auto)
  have front: "lseg ?h l us n"
  proof (cases us rule: rev_cases)
    case Nil
    with p a_def show ?thesis by simp
  next
    case (snoc ws z)
    then have z: "a = z" by (simp add: a_def)
    from seg snoc have "lseg h l ws z" by (simp add: lseg_append)
    then have "lseg ?h l ws z"
      by (subst lseg_frame[where h = h]) (use p z snoc d assms(2) in auto)
    with snoc p z neq show ?thesis by (simp add: lseg_append)
  qed
  from front tail p neq have "lseg ?h l (us @ n # y # vs) l"
    by (simp add: lseg_append)
  with d assms(2) show ?thesis by (auto simp: dring_def)
qed

theorem dring_insert_before_head:
  assumes "dring h l xs" "n \<notin> set (l # xs)"
  shows "dring (rt_list_insert_before l n h) l (xs @ [n])"
proof (cases xs rule: rev_cases)
  case Nil
  with assms have "nxt h l = l" "prv h l = l" "n \<noteq> l" by (auto simp: dring_def)
  from splice_after_before[OF this(1,2,3,3)] dring_insert_after[OF assms] Nil
  show ?thesis by simp
next
  case (snoc ws z)
  have seg: "lseg h l ws z" "nxt h z = l" "prv h l = z" and d: "distinct (l # ws @ [z])"
    using assms(1) snoc by (auto simp: dring_def lseg_append)
  have neq: "n \<noteq> z" "n \<noteq> l" using assms(2) snoc by auto
  let ?h = "rt_list_insert_before l n h"
  have h: "?h = rt_list_insert_after z n h" using splice_after_before[OF seg(2,3) neq] .
  note p = insert_after_ptrs[OF seg(2) neq, folded h]
  have "lseg ?h l ws z"
    using seg(1) by (subst lseg_frame[where h = h]) (use p d snoc assms(2) in auto)
  with p neq d snoc have "lseg ?h l (ws @ z # [n]) l" by (subst lseg_append) auto
  with snoc d assms(2) show ?thesis by (auto simp: dring_def)
qed

text \<open>
  Removing a member closes the ring behind it and leaves the node linked to itself, so that a second
  removal is harmless: the kernel relies on this when it removes a thread that is in no list.
\<close>

theorem dring_remove:
  assumes "dring h l (us @ x # vs)"
  shows "dring (rt_list_remove x h) l (us @ vs) \<and> dring (rt_list_remove x h) x []"
proof -
  define a where "a = last (l # us)"
  define b where "b = hd (vs @ [l])"
  have seg: "lseg h l us x" "lseg h x vs l" and d: "distinct (l # us @ x # vs)"
    using assms by (auto simp: dring_def lseg_append)
  have pa: "prv h x = a" using lseg_prv_end[OF seg(1)] by (simp add: a_def)
  have nb: "nxt h x = b" using lseg_nxt_start[OF seg(2)] by (simp add: b_def)
  have am: "a \<in> set (l # us)" by (simp add: a_def)
  have bm: "b \<in> set (l # vs)" by (cases vs) (auto simp: b_def)
  have neq: "a \<noteq> x" "b \<noteq> x" using am bm d by auto
  let ?h = "rt_list_remove x h"
  have p: "nxt ?h = (nxt h)(a := b, x := x)" "prv ?h = (prv h)(b := a, x := x)"
    using pa nb neq by (simp_all add: rt_list_remove_def Let_def)
  have front: "lseg ?h l us b"
  proof (cases us rule: rev_cases)
    case Nil
    with p a_def neq show ?thesis by simp
  next
    case (snoc ws z)
    then have z: "a = z" by (simp add: a_def)
    from seg snoc have "lseg h l ws z" by (simp add: lseg_append)
    moreover have "b \<notin> set (ws @ [z])" using bm d snoc by auto
    ultimately have "lseg ?h l ws z"
      by (subst lseg_frame[where h = h]) (use p z snoc d in auto)
    with snoc p z neq show ?thesis by (simp add: lseg_append)
  qed
  have "lseg ?h l (us @ vs) l"
  proof (cases vs)
    case Nil
    with front show ?thesis by (simp add: b_def)
  next
    case (Cons y zs)
    then have b: "b = y" by (simp add: b_def)
    from seg Cons have "lseg h y zs l" by simp
    moreover have "a \<notin> set (y # zs)" using am d Cons by auto
    ultimately have "lseg ?h y zs l"
      by (subst lseg_frame[where h = h]) (use p b Cons d in auto)
    with front Cons b show ?thesis by (simp add: lseg_append)
  qed
  with d p show ?thesis by (auto simp: dring_def)
qed

text \<open>Rings on disjoint nodes do not notice each other's updates.\<close>

lemma dring_insert_after_frame:
  assumes "dring h k ys" "n \<notin> set (k # ys)" "l \<notin> set (k # ys)" "nxt h l \<notin> set (k # ys)"
  shows "dring (rt_list_insert_after l n h) k ys"
  using assms(1) by (subst dring_frame[where h = h])
    (use assms in \<open>auto simp: rt_list_insert_after_def Let_def\<close>)

lemma dring_insert_before_frame:
  assumes "dring h k ys" "n \<notin> set (k # ys)" "l \<notin> set (k # ys)" "prv h l \<notin> set (k # ys)"
  shows "dring (rt_list_insert_before l n h) k ys"
  using assms(1) by (subst dring_frame[where h = h])
    (use assms in \<open>auto simp: rt_list_insert_before_def Let_def\<close>)

lemma dring_remove_frame:
  assumes "dring h k ys" "x \<notin> set (k # ys)" "nxt h x \<notin> set (k # ys)" "prv h x \<notin> set (k # ys)"
  shows "dring (rt_list_remove x h) k ys"
  using assms(1) by (subst dring_frame[where h = h])
    (use assms in \<open>auto simp: rt_list_remove_def Let_def\<close>)

section \<open>Length\<close>

lemma rt_list_len_loop_lseg:
  assumes "lseg h p xs l" "l \<notin> set xs"
  shows "rt_list_len_loop h l p len = Some (len + length xs)"
  using assms
proof (induction xs arbitrary: p len)
  case Nil
  then show ?case by (subst rt_list_len_loop.simps) simp
next
  case (Cons x xs)
  then have "rt_list_len_loop h l x (Suc len) = Some (Suc len + length xs)" by simp
  moreover from Cons have "nxt h p = x" "x \<noteq> l" by auto
  ultimately show ?case by (subst rt_list_len_loop.simps) simp
qed

lemma dring_len: "dring h l xs \<Longrightarrow> rt_list_len l h = Some (length xs)"
  using rt_list_len_loop_lseg[of h l xs l 0] by (simp add: dring_def rt_list_len_def)

section \<open>A list head as a queue\<close>

text \<open>
  \<open>insert_before\<close> on the head and \<open>remove\<close> of the first entry make a FIFO queue of nodes; wait
  queues in FIFO order and the ready lists use a list head in exactly this way.
\<close>

definition dl_first :: "'n \<Rightarrow> 'n lheap \<Rightarrow> 'n option" where
  "dl_first l h = (if rt_list_isempty l h then None else Some (nxt h l))"

definition dl_pop :: "'n \<Rightarrow> 'n lheap \<Rightarrow> ('n \<times> 'n lheap) option" where
  "dl_pop l h = (case dl_first l h of None \<Rightarrow> None | Some x \<Rightarrow> Some (x, rt_list_remove x h))"

lemma dl_pop_Nil: "dring h l [] \<Longrightarrow> dl_pop l h = None"
  by (simp add: dl_pop_def dl_first_def dring_isempty)

lemma dl_pop_Cons:
  "dring h l (x # xs) \<Longrightarrow> \<exists>h'. dl_pop l h = Some (x, h') \<and> dring h' l xs \<and> dring h' x []"
  using dring_remove[of h l "[]" x xs]
  by (auto simp: dl_pop_def dl_first_def dring_isempty dring_nxt)

section \<open>Singly linked lists\<close>

text \<open>
  \<^verbatim>\<open>rt_slist_t\<close>: a null-terminated list; \<open>sn h a\<close> is \<open>a->next\<close>, \<open>None\<close> the null pointer.
\<close>

type_synonym 'n sheap = "'n \<Rightarrow> 'n option"

definition rt_slist_init :: "'n \<Rightarrow> 'n sheap \<Rightarrow> 'n sheap" where
  "rt_slist_init l h = h(l := None)"

definition rt_slist_insert :: "'n \<Rightarrow> 'n \<Rightarrow> 'n sheap \<Rightarrow> 'n sheap" where
  "rt_slist_insert l n h = (let h1 = h(n := h l) in h1(l := Some n))"

partial_function (option) rt_slist_tail :: "'n sheap \<Rightarrow> 'n \<Rightarrow> 'n option" where
  "rt_slist_tail h l = (case h l of None \<Rightarrow> Some l | Some m \<Rightarrow> rt_slist_tail h m)"

definition rt_slist_append :: "'n \<Rightarrow> 'n \<Rightarrow> 'n sheap \<Rightarrow> 'n sheap option" where
  "rt_slist_append l n h =
     (case rt_slist_tail h l of None \<Rightarrow> None
      | Some node \<Rightarrow> Some ((h(node := Some n))(n := None)))"

partial_function (option) rt_slist_len_loop :: "'n sheap \<Rightarrow> 'n option \<Rightarrow> nat \<Rightarrow> nat option" where
  "rt_slist_len_loop h p len =
     (case p of None \<Rightarrow> Some len | Some m \<Rightarrow> rt_slist_len_loop h (h m) (Suc len))"

definition rt_slist_len :: "'n \<Rightarrow> 'n sheap \<Rightarrow> nat option" where
  "rt_slist_len l h = rt_slist_len_loop h (h l) 0"

partial_function (option) rt_slist_find_prev :: "'n sheap \<Rightarrow> 'n \<Rightarrow> 'n \<Rightarrow> 'n option" where
  "rt_slist_find_prev h node n =
     (case h node of None \<Rightarrow> Some node
      | Some m \<Rightarrow> if m \<noteq> n then rt_slist_find_prev h m n else Some node)"

definition rt_slist_remove :: "'n \<Rightarrow> 'n \<Rightarrow> 'n sheap \<Rightarrow> 'n sheap option" where
  "rt_slist_remove l n h =
     (case rt_slist_find_prev h l n of None \<Rightarrow> None
      | Some node \<Rightarrow> (case h node of None \<Rightarrow> Some h | Some m \<Rightarrow> Some (h(node := h m))))"

fun sseg :: "'n sheap \<Rightarrow> 'n \<Rightarrow> 'n list \<Rightarrow> bool" where
  "sseg h a [] \<longleftrightarrow> h a = None"
| "sseg h a (x # xs) \<longleftrightarrow> h a = Some x \<and> sseg h x xs"

definition slist :: "'n sheap \<Rightarrow> 'n \<Rightarrow> 'n list \<Rightarrow> bool" where
  "slist h l xs \<longleftrightarrow> distinct (l # xs) \<and> sseg h l xs"

lemma sseg_frame: "(\<And>x. x \<in> set (a # xs) \<Longrightarrow> h' x = h x) \<Longrightarrow> sseg h' a xs \<longleftrightarrow> sseg h a xs"
  by (induction xs arbitrary: a) auto

lemma slist_insert:
  assumes "slist h l xs" "n \<notin> set (l # xs)"
  shows "slist (rt_slist_insert l n h) l (n # xs)"
proof -
  let ?h = "rt_slist_insert l n h"
  have p: "?h l = Some n" "?h n = h l" "\<And>x. x \<noteq> l \<Longrightarrow> x \<noteq> n \<Longrightarrow> ?h x = h x"
    using assms(2) by (auto simp: rt_slist_insert_def Let_def)
  have "sseg ?h n xs"
  proof (cases xs)
    case Nil
    with assms p show ?thesis by (simp add: slist_def)
  next
    case (Cons y ys)
    with assms have "sseg h y ys" "h l = Some y" by (auto simp: slist_def)
    moreover have "sseg ?h y ys \<longleftrightarrow> sseg h y ys"
      by (rule sseg_frame, rule p(3)) (use assms Cons in \<open>auto simp: slist_def\<close>)
    ultimately show ?thesis using Cons p by simp
  qed
  with p assms show ?thesis by (auto simp: slist_def)
qed

lemma rt_slist_tail_sseg: "sseg h a xs \<Longrightarrow> rt_slist_tail h a = Some (last (a # xs))"
proof (induction xs arbitrary: a)
  case Nil
  then show ?case by (subst rt_slist_tail.simps) simp
next
  case (Cons x xs)
  then show ?case by (subst rt_slist_tail.simps) simp
qed

lemma sseg_snoc:
  "sseg h a xs \<Longrightarrow> distinct (a # xs) \<Longrightarrow> n \<notin> set (a # xs) \<Longrightarrow>
   sseg ((h(last (a # xs) := Some n))(n := None)) a (xs @ [n])"
proof (induction xs arbitrary: a)
  case Nil
  then show ?case by simp
next
  case (Cons x xs)
  define z where "z = last (x # xs)"
  have z: "last (a # x # xs) = z" "z \<in> set (x # xs)" by (simp_all add: z_def)
  have "sseg ((h(z := Some n))(n := None)) x (xs @ [n])"
    unfolding z_def by (rule Cons.IH) (use Cons.prems in auto)
  moreover have "a \<noteq> z" "n \<noteq> a" "n \<noteq> x" using Cons.prems(2,3) z(2) by auto
  moreover have "h a = Some x" using Cons.prems(1) by simp
  ultimately show ?case
    unfolding z(1) by (simp del: fun_upd_apply add: fun_upd_same fun_upd_other)
qed

lemma slist_append:
  assumes "slist h l xs" "n \<notin> set (l # xs)"
  shows "\<exists>h'. rt_slist_append l n h = Some h' \<and> slist h' l (xs @ [n])"
  using assms sseg_snoc[of h l xs n] rt_slist_tail_sseg[of h l xs]
  by (auto simp: slist_def rt_slist_append_def)

lemma rt_slist_len_loop_sseg:
  "sseg h a xs \<Longrightarrow> rt_slist_len_loop h (h a) len = Some (len + length xs)"
proof (induction xs arbitrary: a len)
  case Nil
  then show ?case by (subst rt_slist_len_loop.simps) simp
next
  case (Cons x xs)
  then show ?case by (subst rt_slist_len_loop.simps) simp
qed

lemma slist_len: "slist h l xs \<Longrightarrow> rt_slist_len l h = Some (length xs)"
  using rt_slist_len_loop_sseg[of h l xs 0] by (simp add: slist_def rt_slist_len_def)

lemma find_prev_sseg:
  "sseg h a (us @ n # vs) \<Longrightarrow> n \<notin> set us \<Longrightarrow> rt_slist_find_prev h a n = Some (last (a # us))"
proof (induction us arbitrary: a)
  case Nil
  then show ?case by (subst rt_slist_find_prev.simps) simp
next
  case (Cons u us)
  then show ?case by (subst rt_slist_find_prev.simps) auto
qed

lemma sseg_unlink:
  "sseg h a (us @ n # vs) \<Longrightarrow> distinct (a # us @ n # vs) \<Longrightarrow>
   h (last (a # us)) = Some n \<and> sseg (h(last (a # us) := h n)) a (us @ vs)"
proof (induction us arbitrary: a)
  case Nil
  note prems = Nil.prems
  show ?case
  proof (cases vs)
    case Nil
    with prems show ?thesis by simp
  next
    case (Cons v ws)
    have "sseg (h(a := h n)) v ws"
      by (subst sseg_frame[where h = h]) (use prems Cons in auto)
    moreover have "h a = Some n" "h n = Some v" "a \<noteq> n" using prems Cons by auto
    ultimately show ?thesis using Cons by (simp del: fun_upd_apply add: fun_upd_same)
  qed
next
  case (Cons u us)
  define z where "z = last (u # us)"
  have z: "last (a # u # us) = z" "z \<in> set (u # us)" by (simp_all add: z_def)
  have "h z = Some n \<and> sseg (h(z := h n)) u (us @ vs)"
    unfolding z_def by (rule Cons.IH) (use Cons.prems in auto)
  moreover have "a \<noteq> z" using Cons.prems(2) z(2) by auto
  moreover have "h a = Some u" using Cons.prems(1) by simp
  ultimately show ?case
    unfolding z(1) by (simp del: fun_upd_apply add: fun_upd_same fun_upd_other)
qed

lemma slist_remove:
  assumes "slist h l (us @ n # vs)"
  shows "\<exists>h'. rt_slist_remove l n h = Some h' \<and> slist h' l (us @ vs)"
proof -
  have d: "distinct (l # us @ n # vs)" and s: "sseg h l (us @ n # vs)"
    using assms by (auto simp: slist_def)
  have f: "rt_slist_find_prev h l n = Some (last (l # us))"
    using find_prev_sseg[OF s] d by simp
  from sseg_unlink[OF s d] f d show ?thesis
    by (auto simp: rt_slist_remove_def slist_def)
qed

end
