(* ===== verification/QueueProps.thy ===== *)
theory QueueProps
  imports Sample RingBuffer DList
begin

text \<open>
  The properties of mailboxes, message queues, memory pools, the ring buffer and the linked lists, each
  with an instance at the sample state or on concrete data.
\<close>

section \<open>Mailboxes\<close>

text \<open>C18: On every sequence of deposits and fetches a mailbox is a bounded queue: what comes out, followed
  by what is left, is what was in, followed by what was accepted, in order and without loss.\<close>

theorem mailbox_fifo:
  assumes "mb_inv mb" "fifo_run mb_put_opt mb_get_opt ops mb = (ins, outs, mb')"
  shows "mb_inv mb' \<and> mb_size mb' = mb_size mb \<and> mb_list mb @ ins = outs @ mb_list mb'"
  using mb.run_fifo[OF assms] by (simp add: word_unat_eq_iff)

lemma mailbox_fifo_witness:
  "\<exists>ins outs mb'. fifo_run mb_put_opt mb_get_opt [FPut 5, FGet, FPut 6] (sample_mbox 1) =
     (ins, outs, mb') \<and> [7] @ ins = outs @ mb_list mb'"
proof -
  obtain ins outs mb' where r: "fifo_run mb_put_opt mb_get_opt [FPut 5, FGet, FPut 6]
      (sample_mbox 1) = (ins, outs, mb')" by (metis prod_cases3)
  have "mb_inv (sample_mbox 1)" "mb_list (sample_mbox 1) = [7]"
    using sample_mb(1)[of 2] sample_mb(4) by (simp_all add: sample_sel)
  with mailbox_fifo[OF _ r] r show ?thesis by auto
qed

text \<open>Sending to a mailbox with room appends the word and releases the first waiting receiver.\<close>

theorem mailbox_send:
  assumes "kinv s" "cur s = Some c" "is_mb n s" "mb_inv (mboxes s n)"
    "mb_entry (mboxes s n) \<noteq> mb_size (mboxes s n)"
  shows "\<exists>s'. rt_mb_send_wait n v timeout s = (Ret RT_EOK, s') \<and> kinv s' \<and> stuck s' = stuck s \<and>
    mb_inv (mboxes s' n) \<and> mb_list (mboxes s' n) = mb_list (mboxes s n) @ [v] \<and>
    lists s' (MbRecvL n) = tl (lists s (MbRecvL n)) \<and>
    (\<forall>t q. lists s (MbRecvL n) = t # q \<longrightarrow> awake s' t)"
  using mb_send_stores[OF assms, of v timeout] by auto

lemma mailbox_send_witness:
  "\<exists>s'. rt_mb_send_wait 0 9 0 sample = (Ret RT_EOK, s') \<and> mb_list (mboxes s' 0) = [9] \<and> awake s' 5"
  using mailbox_send[OF sample_kinv sample_sel(1) sample_is(4) sample_mb(1), of 0 9 0]
  by (auto simp: sample_sel sample_mbox_def sample_mb(2)[unfolded sample_sel] sample_list mb_list_def)

text \<open>Receiving from a mailbox that holds words returns the oldest one and releases the first
  waiting sender.\<close>

theorem mailbox_recv:
  assumes "kinv s" "cur s = Some c" "is_mb n s" "mb_inv (mboxes s n)"
    "mb_list (mboxes s n) = v # vs"
  shows "\<exists>s'. rt_mb_recv n timeout s = (Ret RT_EOK, Some v, s') \<and> kinv s' \<and> stuck s' = stuck s \<and>
    mb_inv (mboxes s' n) \<and> mb_list (mboxes s' n) = vs \<and>
    lists s' (MbSendL n) = tl (lists s (MbSendL n)) \<and>
    (\<forall>t q. lists s (MbSendL n) = t # q \<longrightarrow> awake s' t)"
  using mb_recv_delivers[OF assms, of timeout] by auto

lemma mailbox_recv_witness:
  "\<exists>s'. rt_mb_recv 1 0 sample = (Ret RT_EOK, Some 7, s') \<and> mb_list (mboxes s' 1) = [8] \<and> awake s' 6"
  using mailbox_recv[OF sample_kinv sample_sel(1) sample_is(4) sample_mb(1) sample_mb(3), of 0]
  by (auto simp: sample_list)

text \<open>A full mailbox makes a sender with a time limit wait in the order of the flag, and an empty one
  a receiver; the stored words stay.\<close>

theorem mailbox_waits:
  fixes timeout :: u32
  assumes "kinv s" "running s c" "int_nest s = 0" "is_mb n s" "timeout \<noteq> 0"
  shows "(mb_entry (mboxes s n) = mb_size (mboxes s n) \<longrightarrow>
      (\<exists>s'. rt_mb_send_wait n v timeout s = (Blocked, s') \<and> kinv s' \<and> mboxes s' = mboxes s \<and>
        statm s' c = RT_THREAD_SUSPEND \<and> lists s' (MbSendL n) = wait_insert (mb_flag (mboxes s n))
          (\<lambda>u. t_current_priority (thr s u)) c (lists s (MbSendL n)))) \<and>
    (mb_entry (mboxes s n) = 0 \<longrightarrow>
      (\<exists>s'. rt_mb_recv n timeout s = (Blocked, None, s') \<and> kinv s' \<and> mboxes s' = mboxes s \<and>
        statm s' c = RT_THREAD_SUSPEND \<and> lists s' (MbRecvL n) = wait_insert (mb_flag (mboxes s n))
          (\<lambda>u. t_current_priority (thr s u)) c (lists s (MbRecvL n))))"
  using mb_send_blocks[OF assms(1) _ _ assms(3,4) _ assms(5), of c v]
    mb_recv_blocks[OF assms(1) _ _ assms(3,4) _ assms(5), of c] assms(2)
  unfolding running_def by blast

lemma mailbox_waits_witness:
  "(\<exists>s'. rt_mb_send_wait 1 3 5 sample = (Blocked, s') \<and> lists s' (MbSendL 1) = [6, 0]) \<and>
   (\<exists>s'. rt_mb_recv 0 5 sample = (Blocked, None, s') \<and> lists s' (MbRecvL 0) = [5, 0])"
  using mailbox_waits[OF sample_kinv sample_run _ sample_is(4), of 5 1 3]
    mailbox_waits[OF sample_kinv sample_run _ sample_is(4), of 5 0 3]
  by (auto simp: sample_sel sample_mbox_def sample_list wait_insert_def)

section \<open>Message queues\<close>

text \<open>A message queue is a bounded queue of slots over its chain of free and used slots, on every
  sequence of sends and receives.\<close>

theorem message_queue_fifo:
  assumes "mq_inv mq" "fifo_run (\<lambda>x. mq_enqueue (\<lambda>_. x)) mq_dequeue ops mq = (ins, outs, mq')"
  shows "mq_inv mq' \<and> mq_max_msgs mq' = mq_max_msgs mq \<and> mq_list mq @ ins = outs @ mq_list mq'"
  using mq.run_fifo[OF assms] by (simp add: word_unat_eq_iff)

lemma message_queue_fifo_witness:
  "\<exists>ins outs mq'. fifo_run (\<lambda>x. mq_enqueue (\<lambda>_. x)) mq_dequeue [FPut [1], FPut [2], FGet] sample_mq
     = (ins, outs, mq') \<and> ins = outs @ mq_list mq'"
proof -
  obtain ins outs mq' where r: "fifo_run (\<lambda>x. mq_enqueue (\<lambda>_. x)) mq_dequeue [FPut [1], FPut [2], FGet]
      sample_mq = (ins, outs, mq')" by (metis prod_cases3)
  have "mq_inv sample_mq" "mq_list sample_mq = []"
    using sample_mq(1,2)[of 0] by (simp_all add: sample_sel)
  with message_queue_fifo[OF _ r] r show ?thesis by auto
qed

text \<open>A message sent to a queue with room goes to its end, an urgent one to its front; both release
  the first waiting receiver. The slot keeps the old bytes behind a message shorter than the slot.\<close>

theorem message_send:
  assumes "kinv s" "cur s = Some c" "is_mq n s" "mq_inv (mqs s n)" "sz \<noteq> 0"
    "unat sz \<le> unat (mq_msg_size (mqs s n))" "length (mq_list (mqs s n)) < unat (mq_max_msgs (mqs s n))"
  shows "(\<exists>s' old. rt_mq_send n buf sz s = (RT_EOK, s') \<and> kinv s' \<and> mq_inv (mqs s' n) \<and>
      mq_list (mqs s' n) = mq_list (mqs s n) @ [fill_slot buf sz old] \<and>
      lists s' (MqL n) = tl (lists s (MqL n)) \<and>
      (\<forall>t q. lists s (MqL n) = t # q \<longrightarrow> awake s' t)) \<and>
    (\<exists>s' old. rt_mq_urgent n buf sz s = (RT_EOK, s') \<and> kinv s' \<and> mq_inv (mqs s' n) \<and>
      mq_list (mqs s' n) = fill_slot buf sz old # mq_list (mqs s n) \<and>
      lists s' (MqL n) = tl (lists s (MqL n)) \<and>
      (\<forall>t q. lists s (MqL n) = t # q \<longrightarrow> awake s' t))"
proof -
  from mq_send_effect(1)[OF assms, of buf] obtain s1 o1 where
    1: "rt_mq_send n buf sz s = (RT_EOK, s1)" "kinv s1" "mq_inv (mqs s1 n)"
      "mq_list (mqs s1 n) = mq_list (mqs s n) @ [fill_slot buf sz o1]"
      "lists s1 (MqL n) = tl (lists s (MqL n))"
      "lists s (MqL n) \<noteq> [] \<longrightarrow> awake s1 (hd (lists s (MqL n)))" by blast
  from mq_send_effect(2)[OF assms, of buf] obtain s2 o2 where
    2: "rt_mq_urgent n buf sz s = (RT_EOK, s2)" "kinv s2" "mq_inv (mqs s2 n)"
      "mq_list (mqs s2 n) = fill_slot buf sz o2 # mq_list (mqs s n)"
      "lists s2 (MqL n) = tl (lists s (MqL n))"
      "lists s (MqL n) \<noteq> [] \<longrightarrow> awake s2 (hd (lists s (MqL n)))" by blast
  from 1 2 show ?thesis by (intro conjI exI[of _ s1] exI[of _ s2] exI[of _ o1] exI[of _ o2]) auto
qed

lemma message_send_witness:
  "\<exists>s' old. rt_mq_send 0 [1, 2] 2 sample = (RT_EOK, s') \<and>
     mq_list (mqs s' 0) = [fill_slot [1, 2] 2 old] \<and> awake s' 7"
  using message_send[OF sample_kinv sample_sel(1) sample_is(5) sample_mq(1), of 2 0 "[1, 2]"]
  by (auto simp: sample_mq sample_list)

text \<open>A full queue refuses a message and stays as it is.\<close>

theorem message_send_full:
  assumes "is_mq n s" "mq_inv (mqs s n)" "sz \<noteq> 0" "unat sz \<le> unat (mq_msg_size (mqs s n))"
    "length (mq_list (mqs s n)) = unat (mq_max_msgs (mqs s n))"
  shows "rt_mq_send n buf sz s = (-RT_EFULL, s) \<and> rt_mq_urgent n buf sz s = (-RT_EFULL, s)"
  using mq_send_full[OF assms] by simp

lemma message_send_full_witness:
  "rt_mq_send 0 [1] 1 (upd_mq 0 (mq_setup 134 0 4 0) sample)
     = (-RT_EFULL, upd_mq 0 (mq_setup 134 0 4 0) sample)"
proof -
  let ?s = "upd_mq 0 (mq_setup 134 0 4 0) sample"
  have m: "mqs ?s 0 = mq_setup 134 0 4 0 (mqs sample 0)" by (simp add: upd_mq_def)
  have "is_mq 0 ?s" by (simp add: is_mq_def m mq_setup_def mq_reset_queue_inv rt_object_get_type_def)
  moreover have "mq_inv (mqs ?s 0)" "mq_list (mqs ?s 0) = []" unfolding m by (rule mq_setup_inv)+
  moreover have "mq_max_msgs (mqs ?s 0) = 0" "mq_msg_size (mqs ?s 0) = 4"
    by (simp_all add: m mq_setup_def mq_reset_queue_inv)
  ultimately show ?thesis using message_send_full[of 0 ?s 1 "[1]"] by simp
qed

text \<open>Receiving copies the first message, cut to the buffer and to the slot, and recycles its slot.\<close>

theorem message_recv:
  assumes "kinv s" "is_mq n s" "mq_inv (mqs s n)" "sz \<noteq> 0" "mq_list (mqs s n) = x # xs"
  shows "\<exists>s'. rt_mq_recv n sz timeout s = (Ret RT_EOK,
      Some (take (min (unat sz) (unat (mq_msg_size (mqs s n)))) x), s') \<and> kinv s' \<and>
    mq_inv (mqs s' n) \<and> mq_list (mqs s' n) = xs \<and> lists s' = lists s"
  by (rule mq_recv_effect[OF assms])

lemma message_recv_witness:
  "\<exists>s1 s2 x. rt_mq_send 1 [1, 2] 2 sample = (RT_EOK, s1) \<and> mq_list (mqs s1 1) = [x] \<and>
     rt_mq_recv 1 1 0 s1 = (Ret RT_EOK, Some (take 1 x), s2) \<and> mq_list (mqs s2 1) = []"
proof -
  obtain s1 old where 1: "rt_mq_send 1 [1, 2] 2 sample = (RT_EOK, s1)" "kinv s1" "mq_inv (mqs s1 1)"
    "mq_list (mqs s1 1) = [fill_slot [1, 2] 2 old]" "is_mq 1 s1" "mq_msg_size (mqs s1 1) = 4"
    using mq_send_effect(1)[OF sample_kinv sample_sel(1) sample_is(5) sample_mq(1), of 2 1 "[1, 2]"]
    by (auto simp: sample_mq)
  from message_recv[OF 1(2,5,3) _ 1(4), of 1 0] 1(1,4,6) show ?thesis by (auto simp: min_def)
qed

text \<open>C17: What is sent through an empty queue is what is received, byte for byte, whatever the slot held
  before.\<close>

theorem message_roundtrip:
  assumes "kinv s" "cur s = Some c" "is_mq n s" "mq_inv (mqs s n)" "sz \<noteq> 0"
    "unat sz \<le> unat (mq_msg_size (mqs s n))" "mq_list (mqs s n) = []" "mq_max_msgs (mqs s n) \<noteq> 0"
    and "unat sz \<le> length buf"
  shows "\<exists>s1 s2. rt_mq_send n buf sz s = (RT_EOK, s1) \<and>
    rt_mq_recv n sz timeout s1 = (Ret RT_EOK, Some (take (unat sz) buf), s2) \<and> kinv s2 \<and>
    mq_inv (mqs s2 n) \<and> mq_list (mqs s2 n) = []"
proof -
  have "length (mq_list (mqs s n)) < unat (mq_max_msgs (mqs s n))"
    using assms(7,8) by (simp add: unat_gt_0)
  from mq_send_effect(1)[OF assms(1-6) this, of buf] obtain s1 old where
    1: "rt_mq_send n buf sz s = (RT_EOK, s1)" "kinv s1" "mq_inv (mqs s1 n)"
      "mq_list (mqs s1 n) = [fill_slot buf sz old]" "is_mq n s1"
      "mq_msg_size (mqs s1 n) = mq_msg_size (mqs s n)" using assms(7) by auto
  have "take (min (unat sz) (unat (mq_msg_size (mqs s1 n)))) (fill_slot buf sz old) = take (unat sz) buf"
    using assms(6,9) by (simp add: 1(6) fill_slot_def blit_def min_def)
  with mq_recv_effect[OF 1(2,5,3) assms(5) 1(4), of timeout] 1(1) show ?thesis by auto
qed

lemma message_roundtrip_witness:
  "\<exists>s1 s2. rt_mq_send 1 [1, 2, 3] 2 sample = (RT_EOK, s1) \<and>
     rt_mq_recv 1 2 0 s1 = (Ret RT_EOK, Some [1, 2], s2)"
  using message_roundtrip[OF sample_kinv sample_sel(1) sample_is(5) sample_mq(1), of 2 1 "[1, 2, 3]" 0]
  by (auto simp: sample_mq)

section \<open>Memory pools\<close>

text \<open>A new pool holds every block on its free chain, each once.\<close>

theorem pool_setup_complete:
  assumes "cnt \<noteq> 0"
  shows "mp_rep n (mp_setup ty sz bsz cnt mp) [0..<unat cnt]"
  by (rule mp_setup_rep[OF assms])

lemma pool_setup_complete_witness: "mp_rep 0 (mp_setup 136 24 4 3 (sample_mp 0 0)) [0, 1, 2]"
  using pool_setup_complete[of 3 0 136 24 4 "sample_mp 0 0"] by (simp add: upt_rec flip: numeral_2_eq_2)

text \<open>Allocating takes the first free block; freeing it afterwards puts it back on top, so that the
  pool is as before. No block is handed out twice.\<close>

theorem pool_alloc_free:
  assumes "kinv s" "mp_rep n (mps s n) (b # fl)"
  shows "\<exists>s'. rt_mp_alloc n time s = (Ret RT_EOK, Some b, s') \<and> kinv s' \<and> mp_rep n (mps s' n) fl \<and>
    b \<notin> set fl \<and> (mp_suspend_count (mps s n) = 0 \<longrightarrow>
      kinv (rt_mp_free n b s') \<and> mp_rep n (mps (rt_mp_free n b s') n) (b # fl) \<and>
      stuck (rt_mp_free n b s') = stuck s)"
proof -
  obtain mp' where mp': "mp_take n (mps s n) = Some (b, mp')" "mp_rep n mp' fl"
    "mp_total_count mp' = mp_total_count (mps s n)" "mp_suspend_count mp' = mp_suspend_count (mps s n)"
    using mp_take_rep[OF assms(2)] by blast
  have b: "b \<notin> set fl" "b < unat (mp_total_count (mps s n))"
    using assms(2) by (auto simp: mp_rep_def)
  have f: "mp_free_count (mps s n) \<noteq> 0"
    using assms(2) by (auto simp: mp_rep_def)
  have e: "rt_mp_alloc n time s = (Ret RT_EOK, Some b, upd_mp n (\<lambda>_. mp') s)"
    using mp'(1) f by (simp add: rt_mp_alloc_def mp_alloc_again_def)
  have s': "mps (upd_mp n (\<lambda>_. mp') s) n = mp'" "stuck (upd_mp n (\<lambda>_. mp') s) = stuck s"
    by (simp_all add: upd_mp_def)
  have k: "kinv (upd_mp n (\<lambda>_. mp') s)"
    using mp_alloc_succeeds[OF assms, of time] e by simp
  have r: "mp_rep n (mps (upd_mp n (\<lambda>_. mp') s) n) fl" unfolding s'(1) by (rule mp'(2))
  have t: "b < unat (mp_total_count (mps (upd_mp n (\<lambda>_. mp') s) n))" unfolding s'(1) mp'(3) by (rule b(2))
  have "mp_suspend_count (mps s n) = 0 \<longrightarrow> kinv (rt_mp_free n b (upd_mp n (\<lambda>_. mp') s)) \<and>
      mp_rep n (mps (rt_mp_free n b (upd_mp n (\<lambda>_. mp') s)) n) (b # fl) \<and>
      stuck (rt_mp_free n b (upd_mp n (\<lambda>_. mp') s)) = stuck s"
    using mp_free_returns[OF k r t b(1)] s' mp'(4) by simp
  with e k r b(1) show ?thesis by blast
qed

lemma pool_alloc_free_witness:
  "\<exists>s'. rt_mp_alloc 1 0 sample = (Ret RT_EOK, Some 0, s') \<and> mp_rep 1 (mps s' 1) [1] \<and>
     mp_rep 1 (mps (rt_mp_free 1 0 s') 1) [0, 1]"
  using pool_alloc_free[OF sample_kinv sample_mp(2), of 0] by (auto simp: sample_mp)

text \<open>A thread that finds the pool empty waits in front of the threads already waiting: the last to
  come is the first to get a block.\<close>

theorem pool_waiters_lifo:
  fixes time :: u32
  assumes "kinv s" "running s c" "int_nest s = 0" "mp_free_count (mps s n) = 0" "time \<noteq> 0"
  shows "\<exists>s'. rt_mp_alloc n time s = (Blocked, None, s') \<and> kinv s' \<and>
    statm s' c = RT_THREAD_SUSPEND \<and> lists s' (MpL n) = c # lists s (MpL n) \<and>
    mp_suspend_count (mps s' n) = mp_suspend_count (mps s n) + 1"
  using mp_alloc_blocks[OF assms(1) _ _ assms(3-5), of c] assms(2) by (auto simp: running_def)

lemma pool_waiters_lifo_witness:
  "\<exists>s'. rt_mp_alloc 0 7 sample = (Blocked, None, s') \<and> lists s' (MpL 0) = [0, 8]"
  using pool_waiters_lifo[OF sample_kinv sample_run, of 0 7]
  by (auto simp: sample_sel sample_list sample_mp_def)

text \<open>Freeing a block while threads wait puts the block back and wakes the first of them without an
  error.\<close>

theorem pool_free_wakes:
  assumes "kinv s" "cur s = Some c" "mp_rep n (mps s n) fl" "b < unat (mp_total_count (mps s n))"
    "b \<notin> set fl" "0 < mp_suspend_count (mps s n)" "lists s (MpL n) = t # q"
  shows "kinv (rt_mp_free n b s) \<and> mp_rep n (mps (rt_mp_free n b s) n) (b # fl) \<and>
    awake (rt_mp_free n b s) t \<and> t_error (thr (rt_mp_free n b s) t) = RT_EOK \<and>
    lists (rt_mp_free n b s) (MpL n) = q \<and>
    mp_suspend_count (mps (rt_mp_free n b s) n) = mp_suspend_count (mps s n) - 1"
  using mp_free_wakes[OF assms] by simp

lemma pool_free_wakes_witness:
  "awake (rt_mp_free 0 1 sample) 8 \<and> mp_rep 0 (mps (rt_mp_free 0 1 sample) 0) [1]"
  using pool_free_wakes[OF sample_kinv sample_sel(1) sample_mp(1), of 0 1 8 "[]"]
  by (simp add: sample_mp sample_list)

text \<open>C39: A waiter that times out leaves the counter of waiters too high: the next block freed makes the
  pool wake the head of its empty queue as if it were a thread, and the kernel is corrupted.\<close>

theorem pool_timeout_corrupts:
  assumes "kinv s" "cur s = Some c" "statm s t = RT_THREAD_SUSPEND" "ThreadTimer t \<notin> set (timer_list s)"
    and "lists s (MpL n) = [t]" "0 < mp_suspend_count (mps s n)" "mp_cells (mps s n) b = OwnedBy n"
  shows "lists (rt_thread_timeout t s) (MpL n) = [] \<and>
    mp_suspend_count (mps (rt_thread_timeout t s) n) = mp_suspend_count (mps s n) \<and>
    stuck (rt_mp_free n b (rt_thread_timeout t s))"
proof -
  note k = timeout_keeps_count[OF assms(1-4)]
  have l: "lists (rt_thread_timeout t s) (MpL n) = []" using k(2)[of n] assms(5) by simp
  moreover have "stuck (rt_mp_free n b (rt_thread_timeout t s))"
    using assms(6,7) k(1) l by (intro mp_free_after_timeout) simp_all
  ultimately show ?thesis using k(1) by simp
qed

lemma pool_timeout_corrupts_witness:
  "stuck (rt_mp_free 0 1 (rt_thread_timeout 8 sample))"
  using pool_timeout_corrupts[OF sample_kinv sample_sel(1), of 8 0 1]
  by (simp add: sample_stat sample_sel(6) sample_list sample_mp)

section \<open>The ring buffer\<close>

text \<open>Byte by byte the ring buffer is a bounded queue.\<close>

theorem ringbuffer_fifo:
  assumes "rb_inv rb" "fifo_run rb_put_opt rt_ringbuffer_getchar ops rb = (ins, outs, rb')"
  shows "rb_inv rb' \<and> buffer_size rb' = buffer_size rb \<and> rb_list rb @ ins = outs @ rb_list rb'"
  by (rule rb.run_fifo[OF assms])

lemma ringbuffer_fifo_witness:
  "\<exists>ins outs rb'. fifo_run rb_put_opt rt_ringbuffer_getchar [FPut 1, FGet, FPut 2]
     (the (rt_ringbuffer_init [0, 0, 0, 0] 4)) = (ins, outs, rb') \<and> ins = outs @ rb_list rb'"
proof -
  let ?r = "the (rt_ringbuffer_init [0, 0, 0, 0] 4)"
  obtain ins outs rb' where r: "fifo_run rb_put_opt rt_ringbuffer_getchar [FPut 1, FGet, FPut 2] ?r
      = (ins, outs, rb')" by (metis prod_cases3)
  have "rb_inv ?r" "rb_list ?r = []" by (simp_all add: rt_ringbuffer_init_def rb_inv_def rb_list_def)
  with ringbuffer_fifo[OF _ r] r show ?thesis by auto
qed

text \<open>A block written to the ring buffer is appended as far as it fits, and a block read takes the
  oldest bytes, across the end of the memory; neither ever leaves the buffer.\<close>

theorem ringbuffer_blocks:
  assumes "rb_inv rb" "len \<le> length ptr"
  shows "(\<exists>rb'. rt_ringbuffer_put ptr len rb = (min len (rt_ringbuffer_space_len rb), rb') \<and>
      rb_inv rb' \<and> rb_list rb' = rb_list rb @ take (min len (rt_ringbuffer_space_len rb)) ptr) \<and>
    (\<exists>rb'. rt_ringbuffer_get len rb = (take len (rb_list rb), rb') \<and>
      rb_inv rb' \<and> rb_list rb' = drop len (rb_list rb))"
  using put_spec[OF assms] get_spec[OF assms(1)] by blast

lemma ringbuffer_blocks_witness:
  "\<exists>rb'. rt_ringbuffer_put [1, 2, 3, 4, 5] 5 (the (rt_ringbuffer_init [0, 0, 0, 0] 4)) = (4, rb') \<and>
     rb_list rb' = [1, 2, 3, 4]"
proof -
  let ?r = "the (rt_ringbuffer_init [0, 0, 0, 0] 4)"
  have "rb_inv ?r" "rb_list ?r = []" "rt_ringbuffer_space_len ?r = 4"
    by (simp_all add: rt_ringbuffer_init_def rb_inv_def rb_list_def rt_ringbuffer_space_len_def
        rt_ringbuffer_data_len_def rt_ringbuffer_status_def)
  with ringbuffer_blocks[of ?r 5 "[1, 2, 3, 4, 5]"] show ?thesis by auto
qed

text \<open>A forced write that overtakes the reader within one lap turns both mirror bits, so that the
  full buffer counts as empty and all of its bytes are lost.\<close>

theorem ringbuffer_force_loses:
  assumes "rb_inv rb" "read_mirror rb = write_mirror rb"
    and "min len (buffer_size rb) > rt_ringbuffer_space_len rb"
  shows "rb_list (snd (rt_ringbuffer_put_force ptr len rb)) = []"
  by (rule put_force_same_mirror_overflow[OF assms])

lemma ringbuffer_force_loses_witness:
  "rb_list (snd (rt_ringbuffer_put_force [7, 8, 9] 3
     (snd (rt_ringbuffer_put [1, 2] 2 (the (rt_ringbuffer_init [0, 0, 0, 0] 4)))))) = []"
proof -
  let ?r = "snd (rt_ringbuffer_put [1, 2] 2 (the (rt_ringbuffer_init [0, 0, 0, 0] 4)))"
  have "rb_inv ?r" "read_mirror ?r = write_mirror ?r"
    "min 3 (buffer_size ?r) > rt_ringbuffer_space_len ?r"
    by (simp_all add: rt_ringbuffer_init_def rt_ringbuffer_put_def rb_inv_def blit_def Let_def
        rt_ringbuffer_space_len_def rt_ringbuffer_data_len_def rt_ringbuffer_status_def)
  from ringbuffer_force_loses[OF this] show ?thesis .
qed

section \<open>Linked lists\<close>

text \<open>The pointer updates of the doubly linked lists insert behind and before a node, and take a node
  out, of a well-formed ring, and leave the taken node a ring of its own.\<close>

theorem linked_list_updates:
  assumes "dring h l (us @ x # vs)" "n \<notin> set (l # us @ x # vs)"
  shows "dring (rt_list_insert_after l n h) l (n # us @ x # vs) \<and>
    dring (rt_list_insert_before l n h) l (us @ x # vs @ [n]) \<and>
    dring (rt_list_insert_before x n h) l (us @ n # x # vs) \<and>
    dring (rt_list_remove x h) l (us @ vs) \<and> dring (rt_list_remove x h) x [] \<and>
    rt_list_len l h = Some (length (us @ x # vs))"
  using dring_insert_after[OF assms] dring_insert_before_head[OF assms]
    dring_insert_before_member[OF assms] dring_remove[OF assms(1)] dring_len[OF assms(1)] by simp

lemma linked_list_updates_witness:
  "dring (rt_list_remove 1 (rt_list_insert_after 0 (1 :: nat) (rt_list_init 0 \<lparr>nxt = id, prv = id\<rparr>))) 0 []"
proof -
  let ?h = "rt_list_insert_after 0 (1 :: nat) (rt_list_init 0 \<lparr>nxt = id, prv = id\<rparr>)"
  have "dring ?h 0 ([] @ 1 # [])"
    by (simp add: dring_def rt_list_insert_after_def rt_list_init_def set_nxt_def set_prv_def Let_def)
  from linked_list_updates[OF this, of 2] show ?thesis by simp
qed

end
