(* ===== verification/Kservice.thy ===== *)
theory Kservice
  imports Prelude "HOL-Library.Sublist"
begin

text \<open>
  The kernel service library \<^verbatim>\<open>src/kservice.c\<close>: the memory routines with their word-at-a-time fast paths, on a
  byte memory \<open>nat \<Rightarrow> u8\<close>; the string routines, on byte lists with the terminating zero left implicit; and the
  formatter behind \<^verbatim>\<open>rt_sprintf\<close> and \<^verbatim>\<open>rt_snprintf\<close> in the configuration of the program (with precision, without
  the alternate form and 64-bit numbers).
\<close>

section \<open>Memory\<close>

type_synonym bytes = "nat \<Rightarrow> u8"

text \<open>Aligned 32-bit accesses, least significant byte first.\<close>

definition byte_of :: "nat \<Rightarrow> u32 \<Rightarrow> u8" where "byte_of i w = ucast (drop_bit (8 * i) w)"

definition store32 :: "nat \<Rightarrow> u32 \<Rightarrow> bytes \<Rightarrow> bytes" where
  "store32 a w m = m(a := byte_of 0 w, a + 1 := byte_of 1 w, a + 2 := byte_of 2 w, a + 3 := byte_of 3 w)"

definition load32 :: "nat \<Rightarrow> bytes \<Rightarrow> u32" where
  "load32 a m = ucast (m a) OR push_bit 8 (ucast (m (a + 1))) OR push_bit 16 (ucast (m (a + 2)))
     OR push_bit 24 (ucast (m (a + 3)))"

fun set_bytes :: "nat \<Rightarrow> nat \<Rightarrow> u8 \<Rightarrow> bytes \<Rightarrow> bytes" where
  "set_bytes a 0 d m = m"
| "set_bytes a (Suc n) d m = set_bytes (a + 1) n d (m(a := d))"

text \<open>The loop of single words; the result is the address and the count that are left.\<close>

fun set_words :: "nat \<Rightarrow> nat \<Rightarrow> u32 \<Rightarrow> bytes \<Rightarrow> nat \<times> nat \<times> bytes" where
  "set_words a n w m = (if n < 4 then (a, n, m) else set_words (a + 4) (n - 4) w (store32 a w m))"

fun set_blocks :: "nat \<Rightarrow> nat \<Rightarrow> u32 \<Rightarrow> bytes \<Rightarrow> nat \<times> nat \<times> bytes" where
  "set_blocks a n w m =
     (if n < 16 then (a, n, m)
      else set_blocks (a + 16) (n - 16) w
             (store32 (a + 12) w (store32 (a + 8) w (store32 (a + 4) w (store32 a w m)))))"

definition rt_memset :: "nat \<Rightarrow> u32 \<Rightarrow> nat \<Rightarrow> bytes \<Rightarrow> bytes" where
  "rt_memset s c count m =
     (let d = c AND 0xff in
      if \<not> count < 4 \<and> s mod 4 = 0 then
        (let b1 = push_bit 8 d OR d;
             buffer = b1 OR push_bit 16 b1
         in case set_blocks s count buffer m of
              (a1, n1, m1) \<Rightarrow> case set_words a1 n1 buffer m1 of
                (a2, n2, m2) \<Rightarrow> set_bytes a2 n2 (ucast d) m2)
      else set_bytes s count (ucast d) m)"

fun copy_bytes :: "nat \<Rightarrow> nat \<Rightarrow> nat \<Rightarrow> bytes \<Rightarrow> bytes" where
  "copy_bytes d s 0 m = m"
| "copy_bytes d s (Suc n) m = copy_bytes (d + 1) (s + 1) n (m(d := m s))"

definition copy32 :: "nat \<Rightarrow> nat \<Rightarrow> bytes \<Rightarrow> bytes" where "copy32 d s m = store32 d (load32 s m) m"

fun copy_blocks :: "nat \<Rightarrow> nat \<Rightarrow> nat \<Rightarrow> bytes \<Rightarrow> nat \<times> nat \<times> nat \<times> bytes" where
  "copy_blocks d s n m =
     (if n < 16 then (d, s, n, m)
      else copy_blocks (d + 16) (s + 16) (n - 16)
             (copy32 (d + 12) (s + 12) (copy32 (d + 8) (s + 8) (copy32 (d + 4) (s + 4) (copy32 d s m)))))"

fun copy_words :: "nat \<Rightarrow> nat \<Rightarrow> nat \<Rightarrow> bytes \<Rightarrow> nat \<times> nat \<times> nat \<times> bytes" where
  "copy_words d s n m = (if n < 4 then (d, s, n, m) else copy_words (d + 4) (s + 4) (n - 4) (copy32 d s m))"

definition rt_memcpy :: "nat \<Rightarrow> nat \<Rightarrow> nat \<Rightarrow> bytes \<Rightarrow> bytes" where
  "rt_memcpy dst src len m =
     (if \<not> len < 16 \<and> src mod 4 = 0 \<and> dst mod 4 = 0 then
        (case copy_blocks dst src len m of
           (d1, s1, n1, m1) \<Rightarrow> case copy_words d1 s1 n1 m1 of
             (d2, s2, n2, m2) \<Rightarrow> copy_bytes d2 s2 n2 m2)
      else copy_bytes dst src len m)"

fun copy_down :: "nat \<Rightarrow> nat \<Rightarrow> nat \<Rightarrow> bytes \<Rightarrow> bytes" where
  "copy_down d s 0 m = m"
| "copy_down d s (Suc n) m = copy_down d s n (m(d + n := m (s + n)))"

definition rt_memmove :: "nat \<Rightarrow> nat \<Rightarrow> nat \<Rightarrow> bytes \<Rightarrow> bytes" where
  "rt_memmove dest src n m =
     (if src < dest \<and> dest < src + n then copy_down dest src n m else copy_bytes dest src n m)"

fun rt_memcmp :: "nat \<Rightarrow> nat \<Rightarrow> nat \<Rightarrow> bytes \<Rightarrow> int" where
  "rt_memcmp cs ct 0 m = 0"
| "rt_memcmp cs ct (Suc n) m =
     (let res = uint (m cs) - uint (m ct) in if res \<noteq> 0 then res else rt_memcmp (cs + 1) (ct + 1) n m)"

section \<open>Strings\<close>

fun rt_strlen :: "u8 list \<Rightarrow> nat" where
  "rt_strlen [] = 0"
| "rt_strlen (c # s) = (if c \<noteq> 0 then Suc (rt_strlen s) else 0)"

fun rt_strnlen :: "u8 list \<Rightarrow> nat \<Rightarrow> nat" where
  "rt_strnlen [] maxlen = 0"
| "rt_strnlen (c # s) 0 = 0"
| "rt_strnlen (c # s) (Suc n) = (if c \<noteq> 0 then Suc (rt_strnlen s n) else 0)"

definition nul :: "u8 list \<Rightarrow> u8" where "nul s = (case s of [] \<Rightarrow> 0 | c # _ \<Rightarrow> c)"

fun rt_strcmp :: "u8 list \<Rightarrow> u8 list \<Rightarrow> int" where
  "rt_strcmp (c # cs) ct =
     (if c \<noteq> 0 \<and> c = nul ct then rt_strcmp cs (tl ct) else uint c - uint (nul ct))"
| "rt_strcmp [] ct = 0 - uint (nul ct)"

text \<open>The difference is kept in a \<^verbatim>\<open>signed char\<close>.\<close>

fun rt_strncmp :: "u8 list \<Rightarrow> u8 list \<Rightarrow> nat \<Rightarrow> int" where
  "rt_strncmp cs ct 0 = 0"
| "rt_strncmp cs ct (Suc n) =
     (let res = sint (nul cs - nul ct) in
      if res \<noteq> 0 \<or> nul cs = 0 then res else rt_strncmp (tl cs) (tl ct) n)"

definition to_lower :: "int \<Rightarrow> int" where
  "to_lower c = (if c \<ge> 65 \<and> c \<le> 90 then c + 32 else c)"

fun rt_strcasecmp :: "u8 list \<Rightarrow> u8 list \<Rightarrow> int" where
  "rt_strcasecmp [] b = 0 - to_lower (uint (nul b))"
| "rt_strcasecmp (c # a) b =
     (let ca = to_lower (uint c); cb = to_lower (uint (nul b)) in
      if ca = cb \<and> ca \<noteq> 0 then rt_strcasecmp a (tl b) else ca - cb)"

text \<open>The \<open>n\<close> bytes written at the destination.\<close>

fun rt_strncpy :: "u8 list \<Rightarrow> nat \<Rightarrow> u8 list" where
  "rt_strncpy src 0 = []"
| "rt_strncpy src (Suc n) = (if nul src = 0 then replicate (Suc n) 0 else nul src # rt_strncpy (tl src) n)"

text \<open>The rest of \<open>s1\<close> from the first occurrence; \<open>l1\<close> is what is left of its length.\<close>

fun strstr_loop :: "u8 list \<Rightarrow> u8 list \<Rightarrow> nat \<Rightarrow> u8 list option" where
  "strstr_loop s1 s2 0 = None"
| "strstr_loop s1 s2 (Suc l1) =
     (if Suc l1 < length s2 then None
      else if take (length s2) s1 = s2 then Some s1 else strstr_loop (tl s1) s2 l1)"

definition rt_strstr :: "u8 list \<Rightarrow> u8 list \<Rightarrow> u8 list option" where
  "rt_strstr s1 s2 =
     (let l2 = rt_strlen s2 in if l2 = 0 then Some s1 else strstr_loop s1 (take l2 s2) (rt_strlen s1))"

section \<open>The memory routines are byte routines\<close>

declare set_words.simps [simp del] set_blocks.simps [simp del]
  copy_words.simps [simp del] copy_blocks.simps [simp del]

lemma bit_byte_of: "bit (byte_of i w) n \<longleftrightarrow> n < 8 \<and> bit w (8 * i + n)"
  by (auto simp: byte_of_def bit_ucast_iff bit_drop_bit_eq dest: bit_imp_le_length)

lemma byte_of_load32: "byte_of 0 (load32 a m) = m a" "byte_of 1 (load32 a m) = m (a + 1)"
  "byte_of 2 (load32 a m) = m (a + 2)" "byte_of 3 (load32 a m) = m (a + 3)"
  by (rule bit_eqI, auto simp: bit_byte_of load32_def bit_or_iff bit_push_bit_iff bit_ucast_iff dest: bit_imp_le_length)+

lemma spread_bits:
  fixes e :: u32
  assumes "\<forall>n \<ge> 8. \<not> bit e n"
  defines "b \<equiv> push_bit 8 e OR e"
  shows "byte_of 0 (b OR push_bit 16 b) = ucast e" "byte_of 1 (b OR push_bit 16 b) = ucast e"
    "byte_of 2 (b OR push_bit 16 b) = ucast e" "byte_of 3 (b OR push_bit 16 b) = ucast e"
  unfolding b_def using assms(1)
  by - (rule bit_eqI, auto simp: bit_byte_of bit_or_iff bit_push_bit_iff bit_ucast_iff)+

lemma bit_ff: "bit (0xff :: u32) n \<longleftrightarrow> n < 8"
proof -
  have m: "(0xff :: u32) = mask 8" by (simp add: mask_eq_exp_minus_1)
  show ?thesis unfolding m bit_mask_iff by auto
qed

lemma low_byte_bits: "\<forall>n \<ge> 8. \<not> bit ((c :: u32) AND 0xff) n"
  unfolding bit_and_iff bit_ff by auto

text \<open>What a fill and a forward copy amount to.\<close>

definition filled :: "nat \<Rightarrow> nat \<Rightarrow> u8 \<Rightarrow> bytes \<Rightarrow> bytes" where
  "filled a n d m = (\<lambda>i. if a \<le> i \<and> i < a + n then d else m i)"

definition copied :: "nat \<Rightarrow> nat \<Rightarrow> nat \<Rightarrow> bytes \<Rightarrow> bytes" where
  "copied d s n m = (\<lambda>i. if d \<le> i \<and> i < d + n then m (s + (i - d)) else m i)"

lemma filled_add: "filled (a + k) n d (filled a k d m) = filled a (k + n) d m"
  by (auto simp: filled_def fun_eq_iff)

lemma set_bytes_filled: "set_bytes a n d m = filled a n d m"
proof (induction n arbitrary: a m)
  case (Suc n)
  have "m(a := d) = filled a 1 d m" by (auto simp: filled_def fun_eq_iff)
  with Suc filled_add[of a 1 n d m] show ?case by simp
qed (auto simp: filled_def fun_eq_iff)

definition spread :: "u32 \<Rightarrow> u8 \<Rightarrow> bool" where
  "spread w d = (byte_of 0 w = d \<and> byte_of 1 w = d \<and> byte_of 2 w = d \<and> byte_of 3 w = d)"

lemma store32_filled: "spread w d \<Longrightarrow> store32 a w m = filled a 4 d m"
proof
  fix i
  have "a \<le> i \<and> i < a + 4 \<longleftrightarrow> i = a \<or> i = a + 1 \<or> i = a + 2 \<or> i = a + 3" by arith
  then show "spread w d \<Longrightarrow> store32 a w m i = filled a 4 d m i" by (auto simp: spread_def store32_def filled_def)
qed

lemma store32_add:
  assumes "spread w d" "b = a + k"
  shows "store32 b w (filled a k d m) = filled a (k + 4) d m"
  using store32_filled[OF assms(1), of "a + k" "filled a k d m"] filled_add[of a k 4 d m] assms(2) by simp

lemma set_words_filled:
  assumes "spread w d"
  shows "\<exists>k \<le> n. set_words a n w m = (a + k, n - k, filled a k d m)"
proof (induction n arbitrary: a m rule: less_induct)
  case (less n)
  show ?case
  proof (cases "n < 4")
    case True
    then show ?thesis by (intro exI[of _ 0]) (auto simp: set_words.simps filled_def fun_eq_iff)
  next
    case False
    then obtain k where k: "k \<le> n - 4" "set_words (a + 4) (n - 4) w (filled a 4 d m)
        = (a + 4 + k, n - 4 - k, filled (a + 4) k d (filled a 4 d m))" using less[of "n - 4" "a + 4" "filled a 4 d m"] by auto
    with False show ?thesis
      by (intro exI[of _ "4 + k"])
        (simp add: set_words.simps[of a n] store32_filled[OF assms] filled_add add.assoc)
  qed
qed

lemma set_blocks_filled:
  assumes "spread w d"
  shows "\<exists>k \<le> n. set_blocks a n w m = (a + k, n - k, filled a k d m)"
proof (induction n arbitrary: a m rule: less_induct)
  case (less n)
  show ?case
  proof (cases "n < 16")
    case True
    then show ?thesis by (intro exI[of _ 0]) (auto simp: set_blocks.simps filled_def fun_eq_iff)
  next
    case False
    have b: "store32 (a + 12) w (store32 (a + 8) w (store32 (a + 4) w (store32 a w m))) = filled a 16 d m"
      using store32_add[OF assms, of "a + 4" a 4 m] store32_add[OF assms, of "a + 8" a 8 m]
        store32_add[OF assms, of "a + 12" a 12 m] store32_filled[OF assms, of a m] by simp
    obtain k where k: "k \<le> n - 16" "set_blocks (a + 16) (n - 16) w (filled a 16 d m)
        = (a + 16 + k, n - 16 - k, filled (a + 16) k d (filled a 16 d m))"
      using less[of "n - 16" "a + 16" "filled a 16 d m"] False by auto
    with False show ?thesis
      by (intro exI[of _ "16 + k"]) (simp add: set_blocks.simps[of a n] b filled_add add.assoc)
  qed
qed

lemma rt_memset_filled: "rt_memset s c n m = filled s n (ucast c) m"
proof -
  define e where "e = c AND 0xff"
  define w where "w = (push_bit 8 e OR e) OR push_bit 16 (push_bit 8 e OR e)"
  have d: "ucast e = (ucast c :: u8)"
  proof (rule bit_eqI)
    fix i assume "possible_bit TYPE(u8) i"
    then show "bit (ucast e :: u8) i = bit (ucast c :: u8) i"
      unfolding e_def bit_ucast_iff bit_and_iff bit_ff by auto
  qed
  have sp: "spread w (ucast e)"
    unfolding spread_def w_def using spread_bits[of e] low_byte_bits[of c] by (simp add: e_def)
  obtain k where k: "k \<le> n" "set_blocks s n w m = (s + k, n - k, filled s k (ucast e) m)"
    using set_blocks_filled[OF sp] by blast
  obtain l where l: "l \<le> n - k" "set_words (s + k) (n - k) w (filled s k (ucast e) m)
      = (s + k + l, n - k - l, filled (s + k) l (ucast e) (filled s k (ucast e) m))"
    using set_words_filled[OF sp] by blast
  have "set_bytes (s + k + l) (n - k - l) (ucast e) (filled (s + k) l (ucast e) (filled s k (ucast e) m))
      = filled s n (ucast e) m"
    using k(1) l(1) by (simp add: set_bytes_filled filled_add add.assoc)
  then show ?thesis
    using k l unfolding rt_memset_def Let_def e_def[symmetric] w_def[symmetric] d[symmetric]
    by (simp add: set_bytes_filled)
qed

section \<open>Copies\<close>

text \<open>A forward copy is right unless the destination starts inside the source.\<close>

definition forward_ok :: "nat \<Rightarrow> nat \<Rightarrow> nat \<Rightarrow> bool" where
  "forward_ok d s n = (d \<le> s \<or> s + n \<le> d)"

lemma copied_add:
  assumes "forward_ok d s (k + n)"
  shows "copied (d + k) (s + k) n (copied d s k m) = copied d s (k + n) m"
proof
  fix i
  have "s + k + (i - (d + k)) = s + (i - d)" if "d + k \<le> i" using that by simp
  moreover have "\<not> (d \<le> s + (i - d) \<and> s + (i - d) < d + k)" if "d + k \<le> i" "i < d + (k + n)"
    using assms that unfolding forward_ok_def by linarith
  ultimately show "copied (d + k) (s + k) n (copied d s k m) i = copied d s (k + n) m i"
    by (auto simp: copied_def)
qed

lemma forward_ok_mono: "forward_ok d s n \<Longrightarrow> k \<le> n \<Longrightarrow> forward_ok d s k"
  by (auto simp: forward_ok_def)

lemma forward_ok_shift: "forward_ok d s n \<Longrightarrow> k \<le> n \<Longrightarrow> forward_ok (d + k) (s + k) (n - k)"
  by (auto simp: forward_ok_def)

lemma copied_0 [simp]: "copied d s 0 m = m"
  by (auto simp: copied_def fun_eq_iff)

lemma copy_bytes_copied: "forward_ok d s n \<Longrightarrow> copy_bytes d s n m = copied d s n m"
proof (induction n arbitrary: d s m)
  case (Suc n)
  have "m(d := m s) = copied d s 1 m" by (auto simp: copied_def fun_eq_iff)
  with Suc.IH[of "d + 1" "s + 1"] forward_ok_shift[OF Suc.prems, of 1] copied_add[of d s 1 n m] Suc.prems
  show ?case by simp
qed simp

lemma copy32_copied: "copy32 d s m = copied d s 4 m"
proof
  fix i
  have "d \<le> i \<and> i < d + 4 \<longleftrightarrow> i = d \<or> i = d + 1 \<or> i = d + 2 \<or> i = d + 3" by arith
  then show "copy32 d s m i = copied d s 4 m i"
    by (auto simp: copy32_def store32_def copied_def byte_of_load32 byte_of_load32[unfolded One_nat_def])
qed

lemma copy_words_copied:
  assumes "forward_ok d s n"
  shows "\<exists>k \<le> n. copy_words d s n m = (d + k, s + k, n - k, copied d s k m)"
  using assms
proof (induction n arbitrary: d s m rule: less_induct)
  case (less n)
  show ?case
  proof (cases "n < 4")
    case True
    then show ?thesis by (intro exI[of _ 0]) (simp add: copy_words.simps)
  next
    case False
    obtain k where k: "k \<le> n - 4" "copy_words (d + 4) (s + 4) (n - 4) (copied d s 4 m)
        = (d + 4 + k, s + 4 + k, n - 4 - k, copied (d + 4) (s + 4) k (copied d s 4 m))"
      using less.IH[of "n - 4" "d + 4" "s + 4" "copied d s 4 m"] forward_ok_shift[OF less.prems, of 4] False by auto
    moreover have "copied (d + 4) (s + 4) k (copied d s 4 m) = copied d s (4 + k) m"
      using k(1) False by (intro copied_add forward_ok_mono[OF less.prems]) simp
    ultimately show ?thesis
      using False by (intro exI[of _ "4 + k"]) (simp add: copy_words.simps[of d s n] copy32_copied add.assoc)
  qed
qed

lemma copy_blocks_copied:
  assumes "forward_ok d s n"
  shows "\<exists>k \<le> n. copy_blocks d s n m = (d + k, s + k, n - k, copied d s k m)"
  using assms
proof (induction n arbitrary: d s m rule: less_induct)
  case (less n)
  show ?case
  proof (cases "n < 16")
    case True
    then show ?thesis by (intro exI[of _ 0]) (simp add: copy_blocks.simps)
  next
    case False
    have c: "copied (d + j) (s + j) 4 (copied d s j m) = copied d s (j + 4) m" if "j + 4 \<le> n" for j
      by (rule copied_add[OF forward_ok_mono[OF less.prems that]])
    have b: "copy32 (d + 12) (s + 12) (copy32 (d + 8) (s + 8) (copy32 (d + 4) (s + 4) (copy32 d s m))) = copied d s 16 m"
      using c[of 4] c[of 8] c[of 12] False by (simp add: copy32_copied)
    obtain k where k: "k \<le> n - 16" "copy_blocks (d + 16) (s + 16) (n - 16) (copied d s 16 m)
        = (d + 16 + k, s + 16 + k, n - 16 - k, copied (d + 16) (s + 16) k (copied d s 16 m))"
      using less.IH[of "n - 16" "d + 16" "s + 16" "copied d s 16 m"] forward_ok_shift[OF less.prems, of 16] False by auto
    moreover have "copied (d + 16) (s + 16) k (copied d s 16 m) = copied d s (16 + k) m"
      using k(1) False by (intro copied_add forward_ok_mono[OF less.prems]) simp
    ultimately show ?thesis
      using False by (intro exI[of _ "16 + k"]) (simp add: copy_blocks.simps[of d s n] b add.assoc)
  qed
qed

lemma rt_memcpy_copied:
  assumes "forward_ok dst src n"
  shows "rt_memcpy dst src n m = copied dst src n m"
proof -
  obtain k where k: "k \<le> n" "copy_blocks dst src n m = (dst + k, src + k, n - k, copied dst src k m)"
    using copy_blocks_copied[OF assms] by blast
  obtain l where l: "l \<le> n - k" "copy_words (dst + k) (src + k) (n - k) (copied dst src k m)
      = (dst + k + l, src + k + l, n - k - l, copied (dst + k) (src + k) l (copied dst src k m))"
    using copy_words_copied[OF forward_ok_shift[OF assms k(1)]] by blast
  have kl: "copied (dst + k) (src + k) l (copied dst src k m) = copied dst src (k + l) m"
    using k(1) l(1) by (intro copied_add forward_ok_mono[OF assms]) simp
  have "copy_bytes (dst + (k + l)) (src + (k + l)) (n - (k + l)) (copied dst src (k + l) m)
      = copied dst src (k + l + (n - (k + l))) m"
    using k(1) l(1) forward_ok_shift[OF assms, of "k + l"]
    by (subst copy_bytes_copied, simp, subst copied_add) (simp_all add: assms)
  then show ?thesis
    using k l kl copy_bytes_copied[OF assms] by (simp add: rt_memcpy_def add.assoc)
qed

lemma copy_down_copied: "s \<le> d \<Longrightarrow> copy_down d s n m = copied d s n m"
proof (induction n arbitrary: m)
  case (Suc n)
  then have "copied d s n (m(d + n := m (s + n))) = copied d s (Suc n) m"
    by (auto simp: copied_def fun_eq_iff less_Suc_eq)
  with Suc show ?case by simp
qed simp

lemma rt_memmove_copied: "rt_memmove dest src n m = copied dest src n m"
  unfolding rt_memmove_def
  using copy_down_copied[of src dest n m] copy_bytes_copied[of dest src n m] by (auto simp: forward_ok_def)

section \<open>The string routines\<close>

definition cstring :: "u8 list \<Rightarrow> bool" where "cstring s = (0 \<notin> set s)"

lemma cstring_Cons [simp]: "cstring (c # s) \<longleftrightarrow> c \<noteq> 0 \<and> cstring s"
  by (auto simp: cstring_def)

lemma cstring_Nil [simp]: "cstring []"
  by (simp add: cstring_def)

lemma rt_strlen_cstring: "cstring s \<Longrightarrow> rt_strlen s = length s"
  by (induction s) auto

lemma uint_pos: "(c :: u8) \<noteq> 0 \<Longrightarrow> 0 < uint c"
  by (metis uint_0_iff uint_ge_0 order_le_imp_less_or_eq)

text \<open>\<open>rt_strcmp\<close> decides equality and the lexicographic order of unsigned bytes.\<close>

lemma rt_strcmp_order:
  assumes "cstring s" "cstring t"
  shows "(rt_strcmp s t = 0 \<longleftrightarrow> s = t) \<and> (rt_strcmp s t < 0 \<longleftrightarrow> ord_class.lexordp s t)"
  using assms
proof (induction s t rule: rt_strcmp.induct)
  case (1 c cs ct)
  show ?case
  proof (cases ct)
    case Nil
    with 1(2) uint_pos[of c] show ?thesis by (simp add: nul_def)
  next
    case (Cons d ds)
    have "uint c - uint d = 0 \<longleftrightarrow> c = d" "uint c - uint d < 0 \<longleftrightarrow> c < d"
      by (auto simp: word_less_def word_uint_eq_iff)
    with 1 Cons show ?thesis by (auto simp: nul_def)
  qed
next
  case (2 ct)
  then show ?case using uint_pos[of "hd ct"] by (cases ct) (auto simp: nul_def)
qed

text \<open>\<open>rt_strstr\<close> finds the first occurrence.\<close>

lemma strstr_loop_first:
  assumes "s2 \<noteq> []"
  shows "case strstr_loop s1 s2 (length s1) of
      None \<Rightarrow> \<not> sublist s2 s1
    | Some r \<Rightarrow> \<exists>p. s1 = p @ r \<and> prefix s2 r \<and> (\<forall>p' r'. s1 = p' @ r' \<longrightarrow> prefix s2 r' \<longrightarrow> length p \<le> length p')"
proof (induction s1)
  case Nil
  with assms show ?case by simp
next
  case (Cons c s1)
  have pre: "take (length s2) (c # s1) = s2 \<longleftrightarrow> prefix s2 (c # s1)"
    by (metis append_eq_conv_conj prefix_def take_is_prefix)
  show ?case
  proof (cases "length (c # s1) < length s2")
    case True
    then have "\<not> sublist s2 (c # s1)" by (auto dest: sublist_length_le)
    with True show ?thesis by simp
  next
    case ge: False
    show ?thesis
    proof (cases "prefix s2 (c # s1)")
      case True
      with ge pre show ?thesis by (auto intro: exI[of _ "[]"])
    next
      case False
      then have l: "strstr_loop (c # s1) s2 (length (c # s1)) = strstr_loop s1 s2 (length s1)"
        using ge pre by simp
      have s: "sublist s2 (c # s1) \<longleftrightarrow> sublist s2 s1" using False by (simp add: sublist_Cons_right)
      have "\<exists>p. c # s1 = p @ r \<and> prefix s2 r \<and>
          (\<forall>p' r'. c # s1 = p' @ r' \<longrightarrow> prefix s2 r' \<longrightarrow> length p \<le> length p')"
        if r: "strstr_loop s1 s2 (length s1) = Some r" for r
      proof -
        from Cons r obtain p where p: "s1 = p @ r" "prefix s2 r"
          "\<And>p' r'. s1 = p' @ r' \<Longrightarrow> prefix s2 r' \<Longrightarrow> length p \<le> length p'" by auto
        have "length (c # p) \<le> length p'" if "c # s1 = p' @ r'" "prefix s2 r'" for p' r'
        proof (cases p')
          case Nil
          with that False show ?thesis by simp
        next
          case (Cons c' q)
          with that p(3)[of q r'] show ?thesis by simp
        qed
        with p(1,2) show ?thesis by (intro exI[of _ "c # p"]) auto
      qed
      with Cons s l show ?thesis by (auto split: option.splits)
    qed
  qed
qed

lemma rt_strstr_first:
  assumes "cstring s1" "cstring s2"
  shows "case rt_strstr s1 s2 of
      None \<Rightarrow> \<not> sublist s2 s1
    | Some r \<Rightarrow> \<exists>p. s1 = p @ r \<and> prefix s2 r \<and> (\<forall>p' r'. s1 = p' @ r' \<longrightarrow> prefix s2 r' \<longrightarrow> length p \<le> length p')"
proof (cases "s2 = []")
  case True
  then show ?thesis by (auto simp: rt_strstr_def intro: exI[of _ "[]"])
next
  case False
  with strstr_loop_first[OF False, of s1] assms show ?thesis
    by (simp add: rt_strstr_def Let_def rt_strlen_cstring)
qed

lemma rt_strncpy_fill:
  assumes "cstring s"
  shows "rt_strncpy s n = take n (s @ replicate n 0)"
  using assms
proof (induction n arbitrary: s)
  case (Suc n)
  then show ?case
  proof (cases s)
    case (Cons c t)
    have "take n (t @ replicate (Suc n) 0) = take n (t @ replicate n (0 :: u8))"
      by (simp add: take_append replicate_Suc[symmetric] min_def del: replicate_Suc)
    with Cons Suc show ?thesis by (simp add: nul_def del: replicate_Suc)
  qed (simp add: nul_def)
qed simp

text \<open>The signed character of \<open>rt_strncmp\<close> turns a large difference around.\<close>

lemma rt_strncmp_sign: "rt_strncmp [200] [10] 1 < 0 \<and> rt_strcmp [200] [10] > 0"
  by (simp add: nul_def)

end
