(* ===== verification/Kprintf.thy ===== *)
theory Kprintf
  imports Kservice
begin

text \<open>
  The formatter of \<^verbatim>\<open>src/kservice.c\<close> (\<^verbatim>\<open>print_number\<close>, \<^verbatim>\<open>rt_vsnprintf\<close> and its callers) in the program's
  configuration: precision on, alternate form and 64-bit numbers off, so \<^verbatim>\<open>long\<close> and the argument words are
  32 bits. Output is first the list of all characters produced; what reaches the buffer follows from
  its size. A missing or ill-typed argument is \<open>None\<close>.
\<close>

section \<open>Numbers\<close>

record pflags =
  zeropad :: bool
  sign_flag :: bool
  plus_flag :: bool
  space_flag :: bool
  left_flag :: bool
  large_flag :: bool

definition no_flags :: pflags where
  "no_flags = \<lparr>zeropad = False, sign_flag = False, plus_flag = False, space_flag = False,
     left_flag = False, large_flag = False\<rparr>"

text \<open>\<^verbatim>\<open>divide\<close> knows the bases 10 and, for everything else, 16.\<close>

definition divisor :: "nat \<Rightarrow> u32" where "divisor base = (if base = 10 then 10 else 16)"

definition digit :: "bool \<Rightarrow> u32 \<Rightarrow> u8" where
  "digit lg d = (if d < 10 then 48 + ucast d else if lg then 55 + ucast d else 87 + ucast d)"

text \<open>\<^verbatim>\<open>tmp\<close>: the digits of a number, the lowest first.\<close>

function digits_rev :: "nat \<Rightarrow> bool \<Rightarrow> u32 \<Rightarrow> u8 list" where
  "digits_rev base lg num =
     (if num = 0 then [] else digit lg (num mod divisor base) # digits_rev base lg (num div divisor base))"
  by pat_completeness auto
termination
proof (relation "measure (\<lambda>(base, lg, num). unat num)")
  fix base :: nat and lg and num :: u32
  assume "num \<noteq> 0"
  then have "0 < unat num" by (simp add: unat_gt_0)
  then have "unat num div unat (divisor base) < unat num" by (simp add: divisor_def)
  then show "((base, lg, num div divisor base), base, lg, num) \<in> measure (\<lambda>(base, lg, num). unat num)"
    by (simp add: unat_div_distrib)
qed simp

declare digits_rev.simps [simp del]

text \<open>\<^verbatim>\<open>while (size-- > 0)\<close>: the characters it prints and the value of \<open>size\<close> after it.\<close>

definition pad :: "int \<Rightarrow> u8 \<Rightarrow> u8 list" where "pad n c = replicate (nat n) c"
definition padded :: "int \<Rightarrow> int" where "padded n = (if n > 0 then -1 else n - 1)"

definition print_number :: "u32 \<Rightarrow> nat \<Rightarrow> int \<Rightarrow> int \<Rightarrow> pflags \<Rightarrow> u8 list" where
  "print_number num base s precision fl0 =
     (let fl = (if left_flag fl0 then fl0\<lparr>zeropad := False\<rparr> else fl0);
          c = (if zeropad fl then 48 else 32);
          sign = (if sign_flag fl then
                    (if sint num < 0 then [45] else if plus_flag fl then [43]
                     else if space_flag fl then [32] else [])
                  else []) :: u8 list;
          num1 = (if sign_flag fl \<and> sint num < 0 then - num else num);
          tmp = (if num1 = 0 then [48] else digits_rev base (large_flag fl) num1);
          i = int (length tmp);
          prec = (if i > precision then i else precision);
          sz = s - prec;
          blanks = \<not> (zeropad fl \<or> left_flag fl);
          sz1 = (if blanks \<and> sign \<noteq> [] \<and> sz > 0 then sz - 1 else sz);
          out1 = (if blanks then pad sz1 32 else []);
          sz2 = (if blanks then padded sz1 else sz1);
          sz3 = (if sign \<noteq> [] then sz2 - 1 else sz2);
          out2 = (if left_flag fl then [] else pad sz3 c);
          sz4 = (if left_flag fl then sz3 else padded sz3);
          out3 = pad (prec - i) 48;
          out4 = (if precision \<noteq> 0 then rev tmp else [])
      in out1 @ sign @ out2 @ out3 @ out4 @ pad sz4 32)"

section \<open>The format string\<close>

datatype parg = PInt u32 | PStr "u8 list option"

definition is_digit :: "u8 \<Rightarrow> bool" where "is_digit c = (48 \<le> c \<and> c \<le> 57)"

fun skip_atoi :: "u8 list \<Rightarrow> int \<Rightarrow> int \<times> u8 list" where
  "skip_atoi [] i = (i, [])"
| "skip_atoi (c # s) i = (if is_digit c then skip_atoi s (i * 10 + uint c - 48) else (i, c # s))"

text \<open>The flag \<^verbatim>\<open>#\<close> is accepted and, in this configuration, has no effect.\<close>

fun parse_flags :: "pflags \<Rightarrow> u8 list \<Rightarrow> pflags \<times> u8 list" where
  "parse_flags fl [] = (fl, [])"
| "parse_flags fl (c # fmt) =
     (if c = 45 then parse_flags (fl\<lparr>left_flag := True\<rparr>) fmt
      else if c = 43 then parse_flags (fl\<lparr>plus_flag := True\<rparr>) fmt
      else if c = 32 then parse_flags (fl\<lparr>space_flag := True\<rparr>) fmt
      else if c = 35 then parse_flags fl fmt
      else if c = 48 then parse_flags (fl\<lparr>zeropad := True\<rparr>) fmt
      else (fl, c # fmt))"

definition parse_width :: "pflags \<Rightarrow> u8 list \<Rightarrow> parg list \<Rightarrow> (int \<times> pflags \<times> u8 list \<times> parg list) option" where
  "parse_width fl fmt args =
     (if fmt \<noteq> [] \<and> is_digit (hd fmt) then (case skip_atoi fmt 0 of (w, r) \<Rightarrow> Some (w, fl, r, args))
      else if fmt \<noteq> [] \<and> hd fmt = 42 then
        (case args of
           PInt w # as \<Rightarrow>
             (if sint w < 0 then Some (- sint w, fl\<lparr>left_flag := True\<rparr>, tl fmt, as) else Some (sint w, fl, tl fmt, as))
         | _ \<Rightarrow> None)
      else Some (-1, fl, fmt, args))"

definition parse_precision :: "u8 list \<Rightarrow> parg list \<Rightarrow> (int \<times> u8 list \<times> parg list) option" where
  "parse_precision fmt args =
     (if fmt \<noteq> [] \<and> hd fmt = 46 then
        (let f = tl fmt in
         if f \<noteq> [] \<and> is_digit (hd f) then (case skip_atoi f 0 of (p, r) \<Rightarrow> Some (if p < 0 then 0 else p, r, args))
         else if f \<noteq> [] \<and> hd f = 42 then
           (case args of PInt p # as \<Rightarrow> Some (if sint p < 0 then 0 else sint p, tl f, as) | _ \<Rightarrow> None)
         else Some (0, f, args))
      else Some (-1, fmt, args))"

definition parse_qualifier :: "u8 list \<Rightarrow> u8 \<times> u8 list" where
  "parse_qualifier fmt = (if fmt \<noteq> [] \<and> (hd fmt = 104 \<or> hd fmt = 108) then (hd fmt, tl fmt) else (0, fmt))"

text \<open>A conversion with its character \<open>c\<close>; \<open>None\<close> outside is a character that is no conversion.\<close>

definition number_arg :: "u8 \<Rightarrow> bool \<Rightarrow> u32 \<Rightarrow> u32" where
  "number_arg qualifier sg a =
     (if qualifier = 104 then (if sg then scast (ucast a :: u16) else ucast (ucast a :: u16)) else a)"

definition put_string :: "u8 list \<Rightarrow> int \<Rightarrow> int \<Rightarrow> bool \<Rightarrow> u8 list" where
  "put_string str fw precision lft =
     (let len0 = int (rt_strlen str);
          len = (if precision > 0 \<and> len0 > precision then precision else len0);
          blank = pad (fw - len) 32
      in (if lft then [] else blank) @ take (nat len) str @ (if lft then blank else []))"

definition conversion :: "u8 \<Rightarrow> pflags \<Rightarrow> int \<Rightarrow> int \<Rightarrow> u8 \<Rightarrow> parg list \<Rightarrow> (u8 list \<times> parg list) option option" where
  "conversion c fl fw precision q args =
     (if c = 99 then Some (case args of
          PInt a # as \<Rightarrow> Some ((if left_flag fl then [] else pad (fw - 1) 32) @ [ucast a] @
                                 (if left_flag fl then pad (fw - 1) 32 else []), as)
        | _ \<Rightarrow> None)
      else if c = 115 then Some (case args of
          PStr s # as \<Rightarrow> Some (put_string (case s of None \<Rightarrow> [40, 78, 85, 76, 76, 41] | Some x \<Rightarrow> x) fw precision (left_flag fl), as)
        | _ \<Rightarrow> None)
      else if c = 112 then Some (case args of
          PInt a # as \<Rightarrow> Some (if fw = -1 then print_number a 16 8 precision (fl\<lparr>zeropad := True\<rparr>)
                               else print_number a 16 fw precision fl, as)
        | _ \<Rightarrow> None)
      else if c = 37 then Some (Some ([37], args))
      else if c \<in> {111, 88, 120, 100, 105, 117} then Some (case args of
          PInt a # as \<Rightarrow>
            (let base = (if c = 111 then 8 else if c = 88 \<or> c = 120 then 16 else 10);
                 fl1 = (if c = 88 then fl\<lparr>large_flag := True\<rparr> else if c = 100 \<or> c = 105 then fl\<lparr>sign_flag := True\<rparr> else fl)
             in Some (print_number (number_arg q (sign_flag fl1) a) base fw precision fl1, as))
        | _ \<Rightarrow> None)
      else None)"

text \<open>Everything from a percent sign to the end of its conversion: output, rest of the format, rest of the arguments.\<close>

definition directive :: "u8 list \<Rightarrow> parg list \<Rightarrow> (u8 list \<times> u8 list \<times> parg list) option" where
  "directive fmt args =
     (case parse_flags no_flags fmt of (fl0, f0) \<Rightarrow>
      case parse_width fl0 f0 args of None \<Rightarrow> None | Some (fw, fl, f1, a1) \<Rightarrow>
      case parse_precision f1 a1 of None \<Rightarrow> None | Some (precision, f2, a2) \<Rightarrow>
      case parse_qualifier f2 of (q, f3) \<Rightarrow>
      case f3 of
        [] \<Rightarrow> Some ([37], [], a2)
      | c # f4 \<Rightarrow>
          (case conversion c fl fw precision q a2 of
             None \<Rightarrow> Some ([37, c], f4, a2)
           | Some None \<Rightarrow> None
           | Some (Some (out, a3)) \<Rightarrow> Some (out, f4, a3)))"

lemma skip_atoi_shorter: "length (snd (skip_atoi s i)) \<le> length s"
  by (induction s arbitrary: i) (auto simp: le_SucI)

lemma parse_flags_shorter: "length (snd (parse_flags fl s)) \<le> length s"
  by (induction s arbitrary: fl) (auto simp: le_SucI)

lemma directive_shorter: "directive fmt args = Some (out, rest, as) \<Longrightarrow> length rest \<le> length fmt"
proof -
  have w: "parse_width fl f args = Some (w, fl', f', as') \<Longrightarrow> length f' \<le> length f" for fl f args w fl' f' as'
    using skip_atoi_shorter[of f 0] by (auto simp: parse_width_def split: if_splits prod.splits list.splits parg.splits)
  have p: "parse_precision f args = Some (w, f', as') \<Longrightarrow> length f' \<le> length f" for f args w f' as'
    using skip_atoi_shorter[of "tl f" 0]
    by (auto simp: parse_precision_def Let_def split: if_splits prod.splits list.splits parg.splits intro: le_trans)
  have q: "parse_qualifier f = (c, f') \<Longrightarrow> length f' \<le> length f" for f c f'
    by (auto simp: parse_qualifier_def split: if_splits)
  assume "directive fmt args = Some (out, rest, as)"
  then show ?thesis
    using parse_flags_shorter[of no_flags fmt] unfolding directive_def
    by (auto split: prod.splits option.splits list.splits dest!: w p q)
qed

function format_out :: "u8 list \<Rightarrow> parg list \<Rightarrow> u8 list option" where
  "format_out [] args = Some []"
| "format_out (c # fmt) args =
     (if c \<noteq> 37 then map_option ((#) c) (format_out fmt args)
      else case directive fmt args of
             None \<Rightarrow> None
           | Some (out, rest, as) \<Rightarrow> map_option ((@) out) (format_out rest as))"
  by pat_completeness auto
termination
  by (relation "measure (\<lambda>(fmt, args). length fmt)") (auto dest: directive_shorter)

section \<open>Into the buffer\<close>

text \<open>
  The buffer after the characters \<open>out\<close> were written up to \<open>size\<close>, with the terminator; \<open>None\<close> when the
  write leaves the buffer, which only happens if \<open>size\<close> is larger than it.
\<close>

definition rt_vsnprintf :: "u8 list \<Rightarrow> nat \<Rightarrow> u8 list \<Rightarrow> parg list \<Rightarrow> (nat \<times> u8 list) option" where
  "rt_vsnprintf buf sz fmt args =
     (case format_out fmt args of
        None \<Rightarrow> None
      | Some out \<Rightarrow>
          (let written = (if sz = 0 then []
                          else if length out < sz then out @ [0] else take (sz - 1) out @ [0])
           in if length written \<le> length buf then Some (length out, blit buf 0 written) else None))"

definition rt_snprintf :: "u8 list \<Rightarrow> nat \<Rightarrow> u8 list \<Rightarrow> parg list \<Rightarrow> (nat \<times> u8 list) option" where
  "rt_snprintf buf sz fmt args = rt_vsnprintf buf sz fmt args"

text \<open>\<^verbatim>\<open>rt_sprintf\<close> passes the size \<^verbatim>\<open>-1\<close>, which is cut to the end of the address space.\<close>

definition rt_sprintf :: "u8 list \<Rightarrow> u8 list \<Rightarrow> parg list \<Rightarrow> (nat \<times> u8 list) option" where
  "rt_sprintf buf fmt args =
     (case format_out fmt args of
        None \<Rightarrow> None
      | Some out \<Rightarrow> if length out < length buf then Some (length out, blit buf 0 (out @ [0])) else None)"

section \<open>Decimal numbers\<close>

text \<open>The reference: decimal notation without leading zeros, and its value.\<close>

fun dec :: "nat \<Rightarrow> u8 list" where
  "dec n = (if n < 10 then [48 + of_nat n] else dec (n div 10) @ [48 + of_nat (n mod 10)])"

declare dec.simps [simp del]

definition dec_value :: "u8 list \<Rightarrow> nat" where
  "dec_value ds = foldl (\<lambda>v c. 10 * v + (unat c - 48)) 0 ds"

definition dec_int :: "int \<Rightarrow> u8 list" where
  "dec_int i = (if i < 0 then 45 # dec (nat (- i)) else dec (nat i))"

lemma digit_char: "d < 10 \<Longrightarrow> unat (48 + of_nat d :: u8) = 48 + d"
  by (simp add: unat_word_ariths unat_of_nat)

lemma dec_value_dec: "dec_value (dec n) = n"
proof (induction n rule: dec.induct)
  case (1 n)
  show ?case
  proof (cases "n < 10")
    case True
    then show ?thesis by (simp add: dec.simps[of n] dec_value_def digit_char)
  next
    case False
    with 1 have "dec_value (dec (n div 10)) = n div 10" by simp
    with False show ?thesis by (simp add: dec.simps[of n] dec_value_def digit_char)
  qed
qed

lemma dec_digits: "c \<in> set (dec n) \<Longrightarrow> is_digit c"
proof (induction n rule: dec.induct)
  case (1 n)
  have d: "is_digit (48 + of_nat k)" if "k < 10" for k
    using digit_char[OF that] that by (simp add: is_digit_def word_le_nat_alt)
  from 1 d[of n] d[of "n mod 10"] show ?case by (subst (asm) (2) dec.simps) (auto split: if_splits)
qed

lemma dec_length: "n < 10 ^ k \<Longrightarrow> 0 < k \<Longrightarrow> length (dec n) \<le> k"
proof (induction n arbitrary: k rule: dec.induct)
  case (1 n)
  show ?case
  proof (cases "n < 10")
    case True
    with 1 show ?thesis by (simp add: dec.simps[of n])
  next
    case False
    obtain j where k: "k = Suc j" using 1(3) by (cases k) auto
    with False 1(2) have j: "0 < j" by (cases j) auto
    have "n div 10 < 10 ^ j" using 1(2) k by (simp add: less_mult_imp_div_less mult.commute)
    with 1(1)[OF False this j] False k show ?thesis by (simp add: dec.simps[of n])
  qed
qed

lemma ucast_of_nat_unat: "(ucast (w :: u32) :: u8) = of_nat (unat w)"
  by (simp add: word_unat_eq_iff unsigned_ucast_eq unat_of_nat take_bit_eq_mod)

lemma digits_rev_dec: "num \<noteq> 0 \<Longrightarrow> rev (digits_rev 10 lg num) = dec (unat num)"
proof (induction "unat num" arbitrary: num rule: less_induct)
  case less
  have d: "unat (num div 10) = unat num div 10" "unat (num mod 10) = unat num mod 10"
    by (simp_all add: unat_div_distrib unat_mod_distrib)
  have m: "num mod 10 < 10" using d(2) by (simp add: word_less_nat_alt)
  have c: "digit lg (num mod 10) = 48 + of_nat (unat num mod 10)"
    using m by (simp only: digit_def if_True ucast_of_nat_unat d(2))
  have u: "digits_rev 10 lg num = digit lg (num mod 10) # digits_rev 10 lg (num div 10)"
    using less.prems by (subst digits_rev.simps) (simp add: divisor_def)
  show ?case
  proof (cases "unat num < 10")
    case True
    then have "num div 10 = 0" using d(1) by (simp add: unat_eq_0[symmetric])
    moreover have "digits_rev 10 lg 0 = []" by (subst digits_rev.simps) simp
    ultimately show ?thesis using True c by (simp add: u dec.simps[of "unat num"])
  next
    case False
    then have "num div 10 \<noteq> 0" "unat (num div 10) < unat num" using d(1) by (auto simp: unat_eq_0[symmetric])
    from less.hyps[OF this(2,1)] c d False show ?thesis by (simp add: u dec.simps[of "unat num"])
  qed
qed

lemma print_number_plain:
  "print_number num base (-1) (-1) (no_flags\<lparr>sign_flag := sg\<rparr>) =
     (if sg \<and> sint num < 0 then 45 # rev (digits_rev base False (- num))
      else if num = 0 then [48] else rev (digits_rev base False num))"
proof -
  have "pad k c = []" if "k \<le> 0" for k c using that by (simp add: pad_def)
  moreover have "padded k \<le> 0" if "k \<le> 0" for k using that by (simp add: padded_def)
  moreover have "num \<noteq> 0" if "sint num < 0" using that by auto
  ultimately show ?thesis
    by (simp add: print_number_def no_flags_def Let_def padded_def pad_def)
qed

lemma unat_neg_sint: "sint (num :: u32) < 0 \<Longrightarrow> unat (- num) = nat (- sint num)"
proof -
  assume n: "sint num < 0"
  have "- num = word_of_int (- sint num)" by simp
  then have "uint (- num) = (- sint num) mod 2 ^ 32" by (simp only: uint_word_of_int) simp
  moreover have "- sint num < 2 ^ 32" using sint_ge[of num] by simp
  ultimately have "uint (- num) = - sint num" using n by simp
  then show ?thesis by (simp add: unat_eq_nat_uint)
qed

lemma print_decimal: "print_number num 10 (-1) (-1) (no_flags\<lparr>sign_flag := True\<rparr>) = dec_int (sint num)"
proof (cases "sint num < 0")
  case True
  then have "- num \<noteq> 0" by auto
  with True show ?thesis by (simp add: print_number_plain dec_int_def digits_rev_dec unat_neg_sint)
next
  case False
  then have "sint num = uint num" by (intro sint_eq_uint_if_nonneg) simp
  then have u: "unat num = nat (sint num)" by (simp only: unat_eq_nat_uint)
  have "(if num = 0 then [48] else rev (digits_rev 10 False num)) = dec (unat num)"
  proof (cases "num = 0")
    case True
    moreover have "dec 0 = [48]" by (subst dec.simps) simp
    ultimately show ?thesis by simp
  next
    case False
    with digits_rev_dec[OF False, of False] show ?thesis by simp
  qed
  with False u show ?thesis by (simp only: print_number_plain dec_int_def if_False simp_thms)
qed

section \<open>Formatting\<close>

lemma format_out_Nil [simp]: "format_out [] args = Some []"
  by simp

text \<open>Characters other than the percent sign are copied.\<close>

lemma format_out_text: "37 \<notin> set xs \<Longrightarrow> format_out (xs @ fmt) args = map_option ((@) xs) (format_out fmt args)"
proof (induction xs)
  case Nil
  show ?case by (cases "format_out fmt args") simp_all
next
  case (Cons c xs)
  then show ?case by (cases "format_out fmt args") simp_all
qed

lemma directive_d: "directive (100 # fmt) (PInt n # args) = Some (dec_int (sint n), fmt, args)"
proof -
  have "no_flags\<lparr>sign_flag := False\<rparr> = no_flags" by (simp add: no_flags_def)
  then show ?thesis
    using print_decimal[of n]
    by (simp add: directive_def parse_width_def parse_precision_def parse_qualifier_def conversion_def
      number_arg_def Let_def is_digit_def no_flags_def)
qed

lemma directive_s: "directive (115 # fmt) (PStr (Some x) # args) = Some (take (rt_strlen x) x, fmt, args)"
  by (simp add: directive_def parse_width_def parse_precision_def parse_qualifier_def conversion_def
    put_string_def pad_def Let_def is_digit_def no_flags_def)

lemma directive_c: "directive (99 # fmt) (PInt n # args) = Some ([ucast n], fmt, args)"
  by (simp add: directive_def parse_width_def parse_precision_def parse_qualifier_def conversion_def
    pad_def Let_def is_digit_def no_flags_def)

lemmas directives = directive_d directive_s directive_c

text \<open>The octal conversion divides by 16: it prints the same as the hexadecimal one.\<close>

lemma octal_is_hex: "conversion 111 fl fw precision q args = conversion 120 fl fw precision q args"
proof -
  have d: "digits_rev 8 lg num = digits_rev 16 lg num" for lg num
  proof (induction "unat num" arbitrary: num rule: less_induct)
    case less
    show ?case
    proof (cases "num = 0")
      case True
      then show ?thesis by (simp add: digits_rev.simps)
    next
      case False
      then have "unat num div 16 < unat num" using unat_gt_0[of num] by simp
      then have "unat (num div 16) < unat num" by (simp add: unat_div_distrib)
      from less[OF this] show ?thesis
        by (subst (1 2) digits_rev.simps) (simp add: divisor_def)
    qed
  qed
  then have "print_number num 8 s p f = print_number num 16 s p f" for num s p f
    by (simp only: print_number_def d)
  then show ?thesis by (simp add: conversion_def Let_def split: list.split parg.split)
qed

section \<open>Bounds\<close>

text \<open>\<open>rt_snprintf\<close> stays inside its size, terminates the string, and reports the full length.\<close>

lemma rt_snprintf_bounds:
  assumes "format_out fmt args = Some out" "0 < sz" "sz \<le> length buf"
  obtains buf' where "rt_snprintf buf sz fmt args = Some (length out, buf')" "length buf' = length buf"
    "drop sz buf' = drop sz buf" "take (min (length out) (sz - 1)) buf' = take (sz - 1) out"
    "buf' ! min (length out) (sz - 1) = 0"
proof
  let ?w = "if length out < sz then out @ [0] else take (sz - 1) out @ [0]"
  let ?k = "min (length out) (sz - 1)"
  have w: "?w = take (sz - 1) out @ [0]" using assms(2) by auto
  have l: "length ?w \<le> sz" "length ?w = ?k + 1" "length (take (sz - 1) out) = ?k" using assms(2) by auto
  show "rt_snprintf buf sz fmt args = Some (length out, blit buf 0 ?w)"
    using assms l(1) unfolding rt_snprintf_def rt_vsnprintf_def by (simp add: Let_def)
  show "length (blit buf 0 ?w) = length buf" using l(1) assms(3) by simp
  show "drop sz (blit buf 0 ?w) = drop sz buf" using l(1) assms(3) by simp
  have b: "blit buf 0 ?w = take (sz - 1) out @ 0 # drop (?k + 1) buf" unfolding blit_def l(2) unfolding w by simp
  show "take ?k (blit buf 0 ?w) = take (sz - 1) out" unfolding b using l(3) by (metis append_eq_conv_conj)
  show "blit buf 0 ?w ! ?k = 0" unfolding b using l(3) by (metis nth_append_length)
qed

lemma rt_sprintf_fits:
  "format_out fmt args = Some out \<Longrightarrow>
   rt_sprintf buf fmt args = (if length out < length buf then Some (length out, blit buf 0 (out @ [0])) else None)"
  by (simp add: rt_sprintf_def)

end
