(* ===== verification/LibProps.thy ===== *)
theory LibProps
  imports Kprintf
begin

text \<open>Properties of the kernel's own C library: memory blocks, strings and formatted output.\<close>

section \<open>Memory and strings\<close>

text \<open>C38: The word-at-a-time and block-at-a-time copies and fills do exactly what a byte loop does: every byte of the
  destination gets its source byte of the initial memory and every other byte is untouched. The moving copy
  does so for any overlap, the plain copy when the destination starts below the source or clear of it.\<close>

theorem memory_routines:
  assumes "forward_ok dst src n"
  shows "rt_memcpy dst src n m = copied dst src n m \<and> rt_memmove to from k m = copied to from k m \<and>
    rt_memset a c l m = filled a l (ucast c) m"
  by (simp add: rt_memcpy_copied[OF assms] rt_memmove_copied rt_memset_filled)

lemma memory_routines_witness:
  "rt_memcpy 4 6 21 of_nat 5 = 7 \<and> rt_memmove 6 4 21 of_nat 7 = 5 \<and> rt_memset 3 0x1ff 40 of_nat 42 = 0xff"
  using memory_routines[of 4 6 21 of_nat 6 4 21 3 "0x1ff" 40]
  by (simp add: forward_ok_def copied_def filled_def)

text \<open>String comparison returns zero exactly for equal strings and a negative number exactly when the first is
  earlier in the dictionary order of their bytes taken as unsigned.\<close>

theorem strcmp_order:
  assumes "cstring s" "cstring t"
  shows "(rt_strcmp s t = 0 \<longleftrightarrow> s = t) \<and> (rt_strcmp s t < 0 \<longleftrightarrow> ord_class.lexordp s t)"
  by (rule rt_strcmp_order[OF assms])

lemma strcmp_order_witness: "rt_strcmp [65, 66] [65, 200] < 0 \<and> rt_strcmp [65] [65] = 0"
  using strcmp_order[of "[65, 66]" "[65, 200]"] strcmp_order[of "[65]" "[65]"] by simp

text \<open>The search returns the first occurrence of the second string in the first, and fails only when there is none.\<close>

theorem strstr_first:
  assumes "cstring s1" "cstring s2"
  shows "case rt_strstr s1 s2 of
      None \<Rightarrow> \<not> sublist s2 s1
    | Some r \<Rightarrow> \<exists>p. s1 = p @ r \<and> prefix s2 r \<and> (\<forall>p' r'. s1 = p' @ r' \<longrightarrow> prefix s2 r' \<longrightarrow> length p \<le> length p')"
  by (rule rt_strstr_first[OF assms])

lemma strstr_first_witness: "\<exists>r. rt_strstr [1, 2, 3, 2] [2, 3] = Some r \<and> prefix [2, 3] r"
proof -
  have "sublist [2, 3] [1, 2, 3, 2 :: u8]" using sublist_appendI[of "[2, 3]" "[1]" "[2]"] by simp
  with strstr_first[of "[1, 2, 3, 2]" "[2, 3]"] show ?thesis
    by (cases "rt_strstr [1, 2, 3, 2] [2, 3]") (simp_all, blast)
qed

section \<open>Formatted output\<close>

text \<open>The text that \<open>%d\<close> prints for any 32-bit argument reads back as its signed value: a minus sign exactly when it
  is negative, then decimal digits whose value is its magnitude.\<close>

theorem decimal_roundtrip:
  "print_number num 10 (-1) (-1) (no_flags\<lparr>sign_flag := True\<rparr>) =
     (if sint num < 0 then [45] else []) @ dec (nat \<bar>sint num\<bar>) \<and>
   list_all is_digit (dec (nat \<bar>sint num\<bar>)) \<and> int (dec_value (dec (nat \<bar>sint num\<bar>))) = \<bar>sint num\<bar>"
  using dec_digits by (auto simp: print_decimal dec_int_def dec_value_dec list_all_iff)

text \<open>Printing into a buffer of a given size returns the length of the whole text, stores at most one byte less than
  the size, ends what it stored with a zero byte, and writes nothing behind the given size.\<close>

theorem snprintf_bounds:
  assumes "format_out fmt args = Some out" "0 < sz" "sz \<le> length buf"
  shows "\<exists>buf'. rt_snprintf buf sz fmt args = Some (length out, buf') \<and> length buf' = length buf \<and>
    drop sz buf' = drop sz buf \<and> take (min (length out) (sz - 1)) buf' = take (sz - 1) out \<and>
    buf' ! min (length out) (sz - 1) = 0"
  by (rule rt_snprintf_bounds[OF assms]) blast

lemma snprintf_bounds_witness:
  "\<exists>buf'. rt_snprintf [1, 1, 1, 1] 3 [116, 61, 37, 100] [PInt (-15)] = Some (5, buf') \<and> take 2 buf' = [116, 61] \<and>
     buf' ! 2 = 0 \<and> drop 3 buf' = [1]"
proof -
  have "sint (-15 :: u32) = -15" by simp
  then have f: "format_out [116, 61, 37, 100] [PInt (-15)] = Some ([116, 61] @ dec_int (-15))"
    by (simp add: directives)
  have l: "length (dec_int (-15)) = 3" by (simp add: dec_int_def dec.simps[of 15] dec.simps[of "Suc 0"])
  show ?thesis using snprintf_bounds[OF f, of 3 "[1, 1, 1, 1]"] l by auto
qed

end
