(* ===== verification/Mem.thy ===== *)
theory Mem
  imports Kservice
begin

text \<open>
  The heap of \<^verbatim>\<open>src/mem.c\<close> (the small-memory algorithm): \<^verbatim>\<open>rt_malloc\<close>, \<^verbatim>\<open>rt_free\<close>, \<^verbatim>\<open>rt_realloc\<close>, \<^verbatim>\<open>rt_calloc\<close>. A block is
  a header of 12 bytes and its data; blocks are chained by their offsets from the start of the heap, in both
  directions. The headers are a function of the offset, the data of the blocks a memory of bytes. A pointer to data
  is its offset, \<open>None\<close> the null pointer. The semaphore that protects the heap is not part of the state: each
  operation is one step. Nor is the nesting of interrupts: that a call does not come from an interrupt (\<^verbatim>\<open>RT_DEBUG_NOT_IN_INTERRUPT\<close>) is
  checked where the state of the kernel is at hand, in \<open>Object\<close> and \<open>Idle\<close>, and a condition of use elsewhere. A result \<open>None\<close> of an operation is a failed assertion, an access before the heap, or
  a loop that does not end.
\<close>

section \<open>Data\<close>

record heap_mem =
  h_magic :: u16
  h_used :: u16
  h_next :: nat
  h_prev :: nat

abbreviation (input) HEAP_MAGIC :: u16 where "HEAP_MAGIC \<equiv> 0x1ea0"

record heap =
  hblk :: "nat \<Rightarrow> heap_mem"
  hdata :: bytes
  mem_size :: nat
  lfree :: nat
  used_mem :: nat
  max_mem :: nat

definition heap_end :: "heap \<Rightarrow> nat" where "heap_end h = mem_size h + 12"

text \<open>The offsets are \<^verbatim>\<open>rt_size_t\<close>; a difference wraps.\<close>

definition sub32 :: "nat \<Rightarrow> nat \<Rightarrow> nat" where "sub32 a b = (a + 4294967296 - b) mod 4294967296"

definition set_next :: "nat \<Rightarrow> nat \<Rightarrow> heap \<Rightarrow> heap" where
  "set_next a v h = h\<lparr>hblk := (hblk h)(a := (hblk h a)\<lparr>h_next := v\<rparr>)\<rparr>"

definition set_prev :: "nat \<Rightarrow> nat \<Rightarrow> heap \<Rightarrow> heap" where
  "set_prev a v h = h\<lparr>hblk := (hblk h)(a := (hblk h a)\<lparr>h_prev := v\<rparr>)\<rparr>"

definition set_used :: "nat \<Rightarrow> u16 \<Rightarrow> heap \<Rightarrow> heap" where
  "set_used a v h = h\<lparr>hblk := (hblk h)(a := (hblk h a)\<lparr>h_used := v, h_magic := HEAP_MAGIC\<rparr>)\<rparr>"

section \<open>Operations\<close>

definition rt_system_heap_init :: "u32 \<Rightarrow> u32 \<Rightarrow> heap \<Rightarrow> heap" where
  "rt_system_heap_init begin_addr end_addr h =
     (let begin_align = align4 begin_addr; end_align = align4_down end_addr
      in if 24 < end_align \<and> begin_align \<le> end_align - 24
         then let sz = unat (end_align - begin_align - 24)
              in h\<lparr>mem_size := sz, lfree := 0,
                   hblk := (hblk h)(0 := \<lparr>h_magic = HEAP_MAGIC, h_used = 0, h_next = sz + 12, h_prev = 0\<rparr>,
                     sz + 12 := \<lparr>h_magic = HEAP_MAGIC, h_used = 1, h_next = sz + 12, h_prev = sz + 12\<rparr>)\<rparr>
         else h)"

text \<open>Two neighbours become one block, the second one's header disappears.\<close>

definition join :: "nat \<Rightarrow> nat \<Rightarrow> heap \<Rightarrow> heap" where
  "join p n h =
     (let h1 = (if lfree h = n then h\<lparr>lfree := p\<rparr> else h)
      in set_prev (h_next (hblk h n)) p (set_next p (h_next (hblk h n)) h1))"

definition plug_holes :: "nat \<Rightarrow> heap \<Rightarrow> heap option" where
  "plug_holes mem h =
     (if \<not> mem < heap_end h \<or> h_used (hblk h mem) \<noteq> 0 then None
      else
        let nmem = h_next (hblk h mem);
            h1 = (if mem \<noteq> nmem \<and> h_used (hblk h nmem) = 0 \<and> nmem \<noteq> heap_end h then join mem nmem h else h);
            pmem = h_prev (hblk h1 mem)
        in Some (if pmem \<noteq> mem \<and> h_used (hblk h1 pmem) = 0 then join pmem mem h1 else h1))"

text \<open>The search of \<^verbatim>\<open>rt_malloc\<close> from \<open>ptr\<close>; without fuel it has not ended.\<close>

fun find_fit :: "nat \<Rightarrow> heap \<Rightarrow> nat \<Rightarrow> nat \<Rightarrow> nat option option" where
  "find_fit 0 h sz ptr = None"
| "find_fit (Suc k) h sz ptr =
     (if ptr < sub32 (mem_size h) sz then
        (if h_used (hblk h ptr) = 0 \<and> sz \<le> sub32 (h_next (hblk h ptr)) (ptr + 12) then Some (Some ptr)
         else find_fit k h sz (h_next (hblk h ptr)))
      else Some None)"

definition count_used :: "nat \<Rightarrow> heap \<Rightarrow> heap" where
  "count_used n h = (let u = (used_mem h + n) mod 4294967296 in h\<lparr>used_mem := u, max_mem := max (max_mem h) u\<rparr>)"

text \<open>The block at \<open>ptr\<close> keeps \<open>n\<close> bytes; the rest becomes a free block behind it.\<close>

definition insert_rest :: "nat \<Rightarrow> nat \<Rightarrow> heap \<Rightarrow> heap" where
  "insert_rest ptr n h =
     (let nx = h_next (hblk h ptr);
          ptr2 = ptr + 12 + n;
          h1 = h\<lparr>hblk := (hblk h)(ptr2 := \<lparr>h_magic = HEAP_MAGIC, h_used = 0, h_next = nx, h_prev = ptr\<rparr>)\<rparr>;
          h2 = set_next ptr ptr2 h1
      in if nx \<noteq> heap_end h then set_prev nx ptr2 h2 else h2)"

definition carve :: "nat \<Rightarrow> nat \<Rightarrow> heap \<Rightarrow> heap" where
  "carve ptr sz h =
     (let nx = h_next (hblk h ptr)
      in if sz + 24 \<le> sub32 nx (ptr + 12)
         then count_used (sz + 12) (set_used ptr 1 (insert_rest ptr sz h))
         else count_used (sub32 nx ptr) (set_used ptr 1 h))"

fun next_free :: "nat \<Rightarrow> heap \<Rightarrow> nat \<Rightarrow> nat option" where
  "next_free 0 h p = None"
| "next_free (Suc k) h p =
     (if h_used (hblk h p) \<noteq> 0 \<and> p \<noteq> heap_end h then next_free k h (h_next (hblk h p)) else Some p)"

text \<open>More steps than there can be blocks.\<close>

definition heap_fuel :: "heap \<Rightarrow> nat" where "heap_fuel h = mem_size h + 14"

definition rt_malloc :: "u32 \<Rightarrow> heap \<Rightarrow> (nat option \<times> heap) option" where
  "rt_malloc sz h =
     (if sz = 0 then Some (None, h)
      else if mem_size h < unat (align4 sz) then Some (None, h)
      else
        let n = max (unat (align4 sz)) 12
        in case find_fit (heap_fuel h) h n (lfree h) of
             None \<Rightarrow> None
           | Some None \<Rightarrow> Some (None, h)
           | Some (Some ptr) \<Rightarrow>
               let h1 = carve ptr n h
               in case (if ptr = lfree h then next_free (heap_fuel h) h1 (lfree h1) else Some (lfree h1)) of
                    None \<Rightarrow> None
                  | Some f \<Rightarrow>
                      if ptr + 12 + n \<le> heap_end h \<and> (ptr + 12) mod 4 = 0
                      then Some (Some (ptr + 12), h1\<lparr>lfree := f\<rparr>) else None)"

definition rt_free :: "nat option \<Rightarrow> heap \<Rightarrow> heap option" where
  "rt_free rmem h =
     (case rmem of
        None \<Rightarrow> Some h
      | Some r \<Rightarrow>
          if r mod 4 \<noteq> 0 \<or> \<not> r < heap_end h \<or> r < 12 then None
          else
            let mem = r - 12
            in if h_used (hblk h mem) = 0 \<or> h_magic (hblk h mem) \<noteq> HEAP_MAGIC then None
               else
                 let h1 = set_used mem 0 h;
                     h2 = (if mem < lfree h1 then h1\<lparr>lfree := mem\<rparr> else h1);
                     h3 = h2\<lparr>used_mem := sub32 (used_mem h2) (sub32 (h_next (hblk h2 mem)) mem)\<rparr>
                 in plug_holes mem h3)"

definition shrink :: "nat \<Rightarrow> nat \<Rightarrow> nat \<Rightarrow> heap \<Rightarrow> heap option" where
  "shrink ptr sz n h =
     plug_holes (ptr + 12 + n) (insert_rest ptr n (h\<lparr>used_mem := sub32 (used_mem h) (sz - n)\<rparr>))"

definition rt_realloc :: "nat option \<Rightarrow> u32 \<Rightarrow> heap \<Rightarrow> (nat option \<times> heap) option" where
  "rt_realloc rmem newsize h =
     (let n = unat (align4 newsize)
      in if mem_size h < n then Some (None, h)
         else if n = 0 then map_option (Pair None) (rt_free rmem h)
         else case rmem of
           None \<Rightarrow> rt_malloc (align4 newsize) h
         | Some r \<Rightarrow>
             if \<not> r < heap_end h then Some (Some r, h)
             else if r < 12 then None
             else
               let ptr = r - 12; sz = sub32 (h_next (hblk h ptr)) (ptr + 12)
               in if sz = n then Some (Some r, h)
                  else if n + 24 < sz then map_option (Pair (Some r)) (shrink ptr sz n h)
                  else
                    (case rt_malloc (align4 newsize) h of
                       None \<Rightarrow> None
                     | Some (None, h1) \<Rightarrow> Some (None, h1)
                     | Some (Some a, h1) \<Rightarrow>
                         map_option (Pair (Some a))
                           (rt_free rmem (h1\<lparr>hdata := rt_memcpy a r (if sz < n then sz else n) (hdata h1)\<rparr>))))"

definition rt_calloc :: "u32 \<Rightarrow> u32 \<Rightarrow> heap \<Rightarrow> (nat option \<times> heap) option" where
  "rt_calloc count sz h =
     (case rt_malloc (count * sz) h of
        None \<Rightarrow> None
      | Some (None, h1) \<Rightarrow> Some (None, h1)
      | Some (Some a, h1) \<Rightarrow> Some (Some a, h1\<lparr>hdata := rt_memset a 0 (unat (count * sz)) (hdata h1)\<rparr>))"

definition rt_memory_info :: "heap \<Rightarrow> nat \<times> nat \<times> nat" where
  "rt_memory_info h = (mem_size h, used_mem h, max_mem h)"

section \<open>Chains of blocks\<close>

lemma sub32_le: "b \<le> a \<Longrightarrow> a < 4294967296 \<Longrightarrow> sub32 a b = a - b"
proof -
  assume a: "b \<le> a" "a < 4294967296"
  then have "a + 4294967296 - b = (a - b) + 4294967296" by simp
  then show ?thesis unfolding sub32_def by (metis a(2) less_imp_diff_less mod_add_self2 mod_less)
qed

text \<open>From offset \<open>p\<close> the blocks \<open>xs\<close> follow each other, contiguous and aligned, up to \<open>e\<close>.\<close>

fun seg :: "(nat \<Rightarrow> heap_mem) \<Rightarrow> nat \<Rightarrow> nat list \<Rightarrow> nat \<Rightarrow> bool" where
  "seg b p [] e \<longleftrightarrow> p = e"
| "seg b p (x # xs) e \<longleftrightarrow> x = p \<and> p + 12 < h_next (b p) \<and> h_next (b p) mod 4 = 0 \<and> h_magic (b p) = HEAP_MAGIC \<and>
     seg b (h_next (b p)) xs e"

fun links :: "(nat \<Rightarrow> heap_mem) \<Rightarrow> nat \<Rightarrow> nat list \<Rightarrow> bool" where
  "links b q [] \<longleftrightarrow> True"
| "links b q (x # xs) \<longleftrightarrow> h_prev (b x) = q \<and> links b x xs"

text \<open>No two neighbours are free.\<close>

definition apart :: "(nat \<Rightarrow> heap_mem) \<Rightarrow> nat list \<Rightarrow> bool" where
  "apart b xs = successively (\<lambda>x y. h_used (b x) \<noteq> 0 \<or> h_used (b y) \<noteq> 0) xs"

lemma seg_append [simp]: "seg b p (xs @ ys) e \<longleftrightarrow> (\<exists>m. seg b p xs m \<and> seg b m ys e)"
  by (induction xs arbitrary: p) auto

lemma links_append [simp]: "links b q (xs @ ys) \<longleftrightarrow> links b q xs \<and> links b (last (q # xs)) ys"
  by (induction xs arbitrary: q) auto

lemma seg_cong:
  "(\<And>x. x \<in> set xs \<Longrightarrow> h_next (b' x) = h_next (b x) \<and> h_magic (b' x) = h_magic (b x)) \<Longrightarrow> seg b' p xs e = seg b p xs e"
  by (induction xs arbitrary: p) auto

lemma links_cong: "(\<And>x. x \<in> set xs \<Longrightarrow> h_prev (b' x) = h_prev (b x)) \<Longrightarrow> links b' q xs = links b q xs"
  by (induction xs arbitrary: q) auto

lemma apart_cong: "(\<And>x. x \<in> set xs \<Longrightarrow> h_used (b' x) = h_used (b x)) \<Longrightarrow> apart b' xs = apart b xs"
  unfolding apart_def by (rule successively_cong) auto

lemma apart_Nil [simp]: "apart b []"
  by (simp add: apart_def)

lemma apart_append:
  "apart b (xs @ ys) \<longleftrightarrow> apart b xs \<and> apart b ys \<and> (xs = [] \<or> ys = [] \<or> h_used (b (last xs)) \<noteq> 0 \<or> h_used (b (hd ys)) \<noteq> 0)"
  by (simp add: apart_def successively_append_iff)

lemma apart_Cons: "apart b (x # ys) \<longleftrightarrow> apart b ys \<and> (ys = [] \<or> h_used (b x) \<noteq> 0 \<or> h_used (b (hd ys)) \<noteq> 0)"
  by (cases ys) (auto simp: apart_def)

lemma seg_range:
  "seg b p xs e \<Longrightarrow> p \<le> e \<and> (\<forall>x \<in> set xs. p \<le> x \<and> x + 12 < h_next (b x) \<and> h_next (b x) \<le> e)"
proof (induction xs arbitrary: p)
  case (Cons a xs)
  then have "p + 12 < h_next (b p)" "seg b (h_next (b p)) xs e" "a = p" by simp_all
  with Cons.IH[of "h_next (b p)"] show ?case by fastforce
qed simp

lemma seg_le: "seg b p xs e \<Longrightarrow> p \<le> e"
  and seg_mem: "seg b p xs e \<Longrightarrow> x \<in> set xs \<Longrightarrow> p \<le> x \<and> x + 12 < h_next (b x) \<and> h_next (b x) \<le> e"
  using seg_range by blast+

lemma seg_sorted: "seg b p xs e \<Longrightarrow> sorted_wrt (\<lambda>x y. h_next (b x) \<le> y) xs"
proof (induction xs arbitrary: p)
  case (Cons a xs)
  then show ?case using seg_mem[of b "h_next (b p)" xs e] by auto
qed simp

lemma seg_order:
  assumes "seg b p xs e" "x \<in> set xs" "y \<in> set xs" "x < y"
  shows "h_next (b x) \<le> y"
proof -
  obtain us vs where xs: "xs = us @ x # vs" using assms(2) by (auto simp: in_set_conv_decomp)
  have "y \<in> set us \<Longrightarrow> h_next (b y) \<le> x" using seg_sorted[OF assms(1)] by (simp add: xs sorted_wrt_append)
  then have "y \<notin> set us" using seg_mem[OF assms(1,3)] assms(4) by auto
  with assms(3,4) have "y \<in> set vs" by (auto simp: xs)
  then show ?thesis using seg_sorted[OF assms(1)] by (simp add: xs sorted_wrt_append)
qed

lemma seg_distinct: "seg b p xs e \<Longrightarrow> distinct xs"
proof (induction xs arbitrary: p)
  case (Cons a xs)
  then show ?case using seg_mem[of b "h_next (b p)" xs e p] by auto
qed simp

lemma seg_aligned: "seg b p xs e \<Longrightarrow> p mod 4 = 0 \<Longrightarrow> x \<in> set xs \<Longrightarrow> x mod 4 = 0"
  by (induction xs arbitrary: p) auto

lemma seg_magic: "seg b p xs e \<Longrightarrow> x \<in> set xs \<Longrightarrow> h_magic (b x) = HEAP_MAGIC"
  by (induction xs arbitrary: p) auto

lemma seg_length: "seg b p xs e \<Longrightarrow> p + 12 * length xs \<le> e"
proof (induction xs arbitrary: p)
  case (Cons a xs)
  then have "h_next (b p) + 12 * length xs \<le> e" "p + 12 < h_next (b p)" by (auto intro: Cons.IH)
  then show ?case by simp
qed simp

lemma seg_end: "seg b p xs e \<Longrightarrow> e \<notin> set xs"
  using seg_mem by fastforce

text \<open>The block at \<open>x\<close> inside a chain, what is before it and what is behind it.\<close>

lemma seg_split:
  assumes "seg b p (us @ x # vs) e"
  shows "seg b p us x" "seg b (h_next (b x)) vs e" "x + 12 < h_next (b x)" "h_next (b x) mod 4 = 0" "h_magic (b x) = HEAP_MAGIC"
    "x \<notin> set us" "x \<notin> set vs" "\<forall>u \<in> set us. u < x \<and> h_next (b u) \<le> x" "\<forall>v \<in> set vs. h_next (b x) \<le> v" "x < e"
    "vs \<noteq> [] \<Longrightarrow> hd vs = h_next (b x)" "h_next (b x) = e \<longleftrightarrow> vs = []"
proof -
  show s: "seg b p us x" "seg b (h_next (b x)) vs e" "x + 12 < h_next (b x)" "h_next (b x) mod 4 = 0" "h_magic (b x) = HEAP_MAGIC"
    using assms by auto
  show "\<forall>u \<in> set us. u < x \<and> h_next (b u) \<le> x" using seg_mem[OF s(1)] by fastforce
  then show "x \<notin> set us" by blast
  show "\<forall>v \<in> set vs. h_next (b x) \<le> v" using seg_mem[OF s(2)] by blast
  then show "x \<notin> set vs" using s(3) by fastforce
  show "x < e" using seg_le[OF s(2)] s(3) by simp
  show "vs \<noteq> [] \<Longrightarrow> hd vs = h_next (b x)" using s(2) by (cases vs) auto
  show "h_next (b x) = e \<longleftrightarrow> vs = []" using s(2) seg_end[OF s(2)] by (cases vs) auto
qed

section \<open>The invariant\<close>

definition heap_rep :: "heap \<Rightarrow> nat list \<Rightarrow> bool" where
  "heap_rep h ps \<longleftrightarrow> seg (hblk h) 0 ps (heap_end h) \<and> links (hblk h) 0 ps \<and> h_used (hblk h (heap_end h)) \<noteq> 0 \<and>
     (lfree h \<in> set ps \<or> lfree h = heap_end h) \<and> 12 \<le> mem_size h \<and> mem_size h + 24 \<le> 4294967296 \<and> mem_size h mod 4 = 0"

text \<open>The data areas in use, with their sizes, and the bytes they take with their headers.\<close>

definition allocs :: "(nat \<Rightarrow> heap_mem) \<Rightarrow> nat list \<Rightarrow> (nat \<times> nat) set" where
  "allocs b ps = set (map (\<lambda>x. (x + 12, h_next (b x) - (x + 12))) (filter (\<lambda>x. h_used (b x) \<noteq> 0) ps))"

definition bytes_of :: "(nat \<times> nat) set \<Rightarrow> nat" where "bytes_of A = (\<Sum>(a, n) \<in> A. n + 12)"

definition heap_inv :: "heap \<Rightarrow> nat list \<Rightarrow> bool" where
  "heap_inv h ps \<longleftrightarrow> heap_rep h ps \<and> apart (hblk h) ps \<and> used_mem h = bytes_of (allocs (hblk h) ps)"

text \<open>No free block is below \<open>lfree\<close>.\<close>

definition lowest :: "heap \<Rightarrow> nat list \<Rightarrow> bool" where
  "lowest h ps \<longleftrightarrow> (\<forall>x \<in> set ps. x < lfree h \<longrightarrow> h_used (hblk h x) \<noteq> 0)"

lemma heap_repD:
  assumes "heap_rep h ps"
  shows "seg (hblk h) 0 ps (heap_end h)" "links (hblk h) 0 ps" "heap_end h < 4294967296" "heap_end h mod 4 = 0"
  using assms by (auto simp: heap_rep_def heap_end_def)

lemma allocs_Nil [simp]: "allocs b [] = {}"
  by (simp add: allocs_def)

lemma allocs_Cons:
  "allocs b (x # xs) = (if h_used (b x) \<noteq> 0 then insert (x + 12, h_next (b x) - (x + 12)) (allocs b xs) else allocs b xs)"
  by (simp add: allocs_def)

lemma allocs_append [simp]: "allocs b (xs @ ys) = allocs b xs \<union> allocs b ys"
  by (simp add: allocs_def)

lemma allocs_cong:
  "(\<And>x. x \<in> set xs \<Longrightarrow> h_used (b' x) = h_used (b x) \<and> (h_used (b x) \<noteq> 0 \<longrightarrow> h_next (b' x) = h_next (b x))) \<Longrightarrow>
     allocs b' xs = allocs b xs"
  by (induction xs) (auto simp: allocs_Cons)

lemma finite_allocs [simp]: "finite (allocs b xs)"
  by (simp add: allocs_def)

lemma allocs_iff: "(a, n) \<in> allocs b xs \<longleftrightarrow> (\<exists>x \<in> set xs. h_used (b x) \<noteq> 0 \<and> a = x + 12 \<and> n = h_next (b x) - (x + 12))"
  by (auto simp: allocs_def)

lemma allocs_seg:
  assumes "seg b p xs e" "(a, n) \<in> allocs b xs"
  shows "p + 12 \<le> a" "a + n \<le> e"
  using assms(2) seg_mem[OF assms(1)] by (fastforce simp: allocs_iff)+

lemma bytes_of_insert: "finite A \<Longrightarrow> (a, n) \<notin> A \<Longrightarrow> bytes_of (insert (a, n) A) = n + 12 + bytes_of A"
  by (simp add: bytes_of_def)

lemma bytes_of_le: "seg b p xs e \<Longrightarrow> bytes_of (allocs b xs) + p \<le> e"
proof (induction xs arbitrary: p)
  case Nil
  then show ?case by (simp add: bytes_of_def)
next
  case (Cons x xs)
  then have x: "x = p" "p + 12 \<le> h_next (b p)" "seg b (h_next (b p)) xs e" by simp_all
  have new: "(p + 12, h_next (b p) - (p + 12)) \<notin> allocs b xs" using allocs_seg(1)[OF x(3)] x(2) by fastforce
  show ?case using Cons.IH[OF x(3)] x(1,2) new by (simp add: allocs_Cons bytes_of_insert)
qed

lemma allocs_disjoint:
  assumes "seg b p ps e" "(a, n) \<in> allocs b ps" "(a', n') \<in> allocs b ps" "a \<noteq> a'"
  shows "a + n + 12 \<le> a' \<or> a' + n' + 12 \<le> a"
proof -
  note s = assms(1)
  obtain x where x: "a = x + 12" "n = h_next (b x) - (x + 12)" "x \<in> set ps" using assms(2) by (auto simp: allocs_iff)
  obtain y where y: "a' = y + 12" "n' = h_next (b y) - (y + 12)" "y \<in> set ps" using assms(3) by (auto simp: allocs_iff)
  have "x \<noteq> y" using assms(4) x(1) y(1) by simp
  then show ?thesis
    using seg_order[OF s x(3) y(3)] seg_order[OF s y(3) x(3)] seg_mem[OF s x(3)] seg_mem[OF s y(3)] x y by linarith
qed

section \<open>Joining free blocks\<close>

lemma join_simps [simp]:
  "h_next (hblk (join p n h) x) = (if x = p then h_next (hblk h n) else h_next (hblk h x))"
  "h_prev (hblk (join p n h) x) = (if x = h_next (hblk h n) then p else h_prev (hblk h x))"
  "h_used (hblk (join p n h) x) = h_used (hblk h x)" "h_magic (hblk (join p n h) x) = h_magic (hblk h x)"
  "lfree (join p n h) = (if lfree h = n then p else lfree h)" "mem_size (join p n h) = mem_size h"
  "used_mem (join p n h) = used_mem h" "max_mem (join p n h) = max_mem h" "hdata (join p n h) = hdata h"
  "heap_end (join p n h) = heap_end h"
  by (simp_all add: join_def Let_def set_prev_def set_next_def heap_end_def)

lemma join_rep:
  assumes r: "heap_rep h (xs @ p # n # ys)"
  shows "heap_rep (join p n h) (xs @ p # ys)"
proof -
  note s = heap_repD(1)[OF r]
  note P = seg_split[OF s]
  have s2: "seg (hblk h) 0 ((xs @ [p]) @ n # ys) (heap_end h)" using s by simp
  note N = seg_split[OF s2]
  have n: "n = h_next (hblk h p)" using P(2) by simp
  let ?N = "h_next (hblk h n)" and ?b = "hblk (join p n h)"
  have lt: "p < n" "n < ?N" "p + 12 < ?N" using P(3) N(3) n by simp_all
  have "seg ?b 0 xs p" using P(1,6) by (subst seg_cong[where b = "hblk h"]) auto
  moreover have "seg ?b ?N ys (heap_end h)" using N(2) P(7) by (subst seg_cong[where b = "hblk h"]) auto
  ultimately have sg: "seg ?b 0 (xs @ p # ys) (heap_end h)" using N(4,5) P(5) lt by auto
  have l: "links (hblk h) 0 (xs @ [p])" "links (hblk h) n ys" using heap_repD(2)[OF r] by auto
  have a: "links ?b 0 (xs @ [p])" using l(1) N(8) lt by (subst links_cong[where b = "hblk h"]) auto
  have c: "links ?b p ys"
  proof (cases ys)
    case (Cons y zs)
    then have "y = ?N" "?N \<notin> set zs" using N(2,11) seg_distinct[OF N(2)] by auto
    then show ?thesis using l(2) Cons by (auto intro: links_cong[THEN iffD1, rotated])
  qed simp
  have lk: "links ?b 0 (xs @ p # ys)" using a c by simp
  show ?thesis using r sg lk by (auto simp: heap_rep_def)
qed

lemma join_rest:
  assumes r: "heap_rep h (xs @ p # n # ys)" and f: "h_used (hblk h p) = 0" "h_used (hblk h n) = 0"
  shows "allocs (hblk (join p n h)) (xs @ p # ys) = allocs (hblk h) (xs @ p # n # ys)"
    "lowest h (xs @ p # n # ys) \<Longrightarrow> lowest (join p n h) (xs @ p # ys)"
proof -
  note P = seg_split[OF heap_repD(1)[OF r]]
  have "allocs (hblk (join p n h)) (xs @ p # ys) = allocs (hblk h) (xs @ p # ys)" using f by (intro allocs_cong) auto
  then show "allocs (hblk (join p n h)) (xs @ p # ys) = allocs (hblk h) (xs @ p # n # ys)" using f by (simp add: allocs_Cons)
  have "p < n" using P(2,3) by simp
  then show "lowest h (xs @ p # n # ys) \<Longrightarrow> lowest (join p n h) (xs @ p # ys)" using f by (auto simp: lowest_def)
qed

lemma join_apart [simp]: "apart (hblk (join p n h)) xs = apart (hblk h) xs"
  by (rule apart_cong) simp

text \<open>What \<^verbatim>\<open>plug_holes\<close> leaves of the heap.\<close>

definition same_heap :: "heap \<Rightarrow> heap \<Rightarrow> bool" where
  "same_heap h h' \<longleftrightarrow> mem_size h' = mem_size h \<and> used_mem h' = used_mem h \<and> max_mem h' = max_mem h \<and> hdata h' = hdata h"

lemma plug_holes_spec:
  assumes r: "heap_rep h (xs @ m # ys)" and f: "h_used (hblk h m) = 0" and a: "apart (hblk h) xs" "apart (hblk h) ys"
    and l: "lowest h (xs @ m # ys) \<or> \<not> L"
  obtains h' ps where "plug_holes m h = Some h'" "heap_rep h' ps" "apart (hblk h') ps"
    "allocs (hblk h') ps = allocs (hblk h) (xs @ m # ys)" "same_heap h h'" "lowest h' ps \<or> \<not> L"
proof -
  note M = seg_split[OF heap_repD(1)[OF r]]
  define n where "n = h_next (hblk h m)"
  define h1 where "h1 = (if m \<noteq> n \<and> h_used (hblk h n) = 0 \<and> n \<noteq> heap_end h then join m n h else h)"
  obtain ys1 where one: "heap_rep h1 (xs @ m # ys1)" "apart (hblk h1) (m # ys1)" "apart (hblk h1) xs"
    "allocs (hblk h1) (xs @ m # ys1) = allocs (hblk h) (xs @ m # ys)" "same_heap h h1" "lowest h1 (xs @ m # ys1) \<or> \<not> L"
    "h_used (hblk h1 m) = 0"
  proof (cases "h_used (hblk h n) = 0 \<and> n \<noteq> heap_end h")
    case True
    then obtain zs where ys: "ys = n # zs" using M(11,12) by (cases ys) (auto simp: n_def)
    have h1: "h1 = join m n h" using True M(3) by (simp add: h1_def n_def)
    have "apart (hblk h) (m # zs)" using a(2) True f by (auto simp: ys apart_Cons)
    then show ?thesis
      using that[of zs] join_rep[of h xs m n zs] join_rest[of h xs m n zs] r a f l True by (auto simp: ys h1 same_heap_def)
  next
    case False
    then have h1: "h1 = h" by (auto simp: h1_def)
    have "apart (hblk h) (m # ys)" using a(2) False M(11,12) by (auto simp: apart_Cons n_def)
    then show ?thesis using that[of ys] r a f l by (simp add: h1 same_heap_def)
  qed
  define p where "p = h_prev (hblk h1 m)"
  have p: "p = last (0 # xs)" using heap_repD(2)[OF one(1)] by (simp add: p_def)
  have plug: "plug_holes m h = Some (if p \<noteq> m \<and> h_used (hblk h1 p) = 0 then join p m h1 else h1)"
    using M(10) f by (simp add: plug_holes_def Let_def h1_def n_def p_def)
  show ?thesis
  proof (cases "p \<noteq> m \<and> h_used (hblk h1 p) = 0")
    case True
    then have "xs \<noteq> []" using M(1) p by auto
    then obtain zs where xs: "xs = zs @ [p]" using p by (cases xs rule: rev_cases) auto
    have "apart (hblk h1) (zs @ p # ys1)"
      using one(2,3,7) True by (cases ys1) (auto simp: xs apart_append apart_Cons)
    then show ?thesis
      using that[of "join p m h1" "zs @ p # ys1"] plug True one join_rep[of h1 zs p m ys1] join_rest[of h1 zs p m ys1]
      by (auto simp: xs same_heap_def)
  next
    case False
    have "apart (hblk h1) (xs @ m # ys1)"
      using one(2,3) False p M(6) last_in_set[of xs] by (cases "xs = []") (auto simp: apart_append)
    then show ?thesis using that[of h1 "xs @ m # ys1"] plug False one by (auto simp: same_heap_def)
  qed
qed

section \<open>Searching\<close>

definition fits :: "heap \<Rightarrow> nat \<Rightarrow> nat \<Rightarrow> bool" where
  "fits h n p \<longleftrightarrow> p < mem_size h - n \<and> h_used (hblk h p) = 0 \<and> n \<le> h_next (hblk h p) - (p + 12)"

text \<open>From a block of the chain the search returns the first block that fits, if there is one.\<close>

lemma find_fit_spec:
  assumes "seg (hblk h) p ps (heap_end h)" "heap_end h < 4294967296" "n \<le> mem_size h" "heap_end h - p < k"
  shows "find_fit k h n p = Some (find (fits h n) ps)"
  using assms(1,4)
proof (induction ps arbitrary: p k)
  case Nil
  then obtain j where "k = Suc j" "p = heap_end h" by (cases k) auto
  moreover have "sub32 (mem_size h) n = mem_size h - n" using assms(2,3) by (simp add: sub32_le heap_end_def)
  moreover have "\<not> heap_end h < mem_size h - n" by (simp add: heap_end_def)
  ultimately show ?case by simp
next
  case (Cons x xs)
  then obtain j where k: "k = Suc j" by (cases k) auto
  have x: "x = p" "p + 12 \<le> h_next (hblk h p)" "seg (hblk h) (h_next (hblk h p)) xs (heap_end h)" using Cons.prems(1) by simp_all
  have le: "h_next (hblk h p) \<le> heap_end h" using seg_le[OF x(3)] .
  have w: "sub32 (mem_size h) n = mem_size h - n" "sub32 (h_next (hblk h p)) (p + 12) = h_next (hblk h p) - (p + 12)"
    using assms(2,3) x(2) le by (simp_all add: sub32_le heap_end_def)
  show ?case
  proof (cases "p < mem_size h - n")
    case True
    have "find_fit j h n (h_next (hblk h p)) = Some (find (fits h n) xs)"
      using Cons.IH[OF x(3)] Cons.prems(2) x(2) le by (simp add: k)
    then show ?thesis using True by (simp add: k w x(1) fits_def[of h n p])
  next
    case False
    have "\<forall>y \<in> set (x # xs). p \<le> y" using seg_mem[OF Cons.prems(1)] by blast
    then have "find (fits h n) (x # xs) = None" unfolding find_None_iff fits_def using False by (meson le_less_trans)
    then show ?thesis using False by (simp add: k w)
  qed
qed

lemma next_free_spec:
  assumes "seg (hblk h) p ps (heap_end h)" "h_used (hblk h (heap_end h)) \<noteq> 0" "heap_end h - p < k"
  shows "\<exists>f. next_free k h p = Some f \<and> (f \<in> set ps \<or> f = heap_end h) \<and> (\<forall>x \<in> set ps. x < f \<longrightarrow> h_used (hblk h x) \<noteq> 0)"
  using assms(1,3)
proof (induction ps arbitrary: p k)
  case Nil
  then obtain j where "k = Suc j" "p = heap_end h" by (cases k) auto
  then show ?case by simp
next
  case (Cons x xs)
  then obtain j where k: "k = Suc j" by (cases k) auto
  have x: "x = p" "p + 12 \<le> h_next (hblk h p)" "seg (hblk h) (h_next (hblk h p)) xs (heap_end h)" using Cons.prems(1) by simp_all
  have le: "h_next (hblk h p) \<le> heap_end h" using seg_le[OF x(3)] .
  show ?case
  proof (cases "h_used (hblk h p) = 0")
    case True
    have "\<forall>y \<in> set (x # xs). \<not> y < p" using seg_mem[OF Cons.prems(1)] by (meson leD)
    then show ?thesis using True by (intro exI[of _ p]) (simp add: k x(1))
  next
    case False
    have m: "heap_end h - h_next (hblk h p) < j" using Cons.prems(2) x(2) le by (simp add: k)
    obtain f where f: "next_free j h (h_next (hblk h p)) = Some f" "f \<in> set xs \<or> f = heap_end h"
      "\<forall>y \<in> set xs. y < f \<longrightarrow> h_used (hblk h y) \<noteq> 0"
      using Cons.IH[OF x(3) m] by blast
    moreover have "p \<noteq> heap_end h" using x(2) le by simp
    ultimately show ?thesis using False x(1) by (intro exI[of _ f]) (auto simp: k)
  qed
qed

section \<open>Changing one block\<close>

lemma set_used_simps [simp]:
  "h_next (hblk (set_used p v h) x) = h_next (hblk h x)" "h_prev (hblk (set_used p v h) x) = h_prev (hblk h x)"
  "h_used (hblk (set_used p v h) x) = (if x = p then v else h_used (hblk h x))"
  "h_magic (hblk (set_used p v h) x) = (if x = p then HEAP_MAGIC else h_magic (hblk h x))"
  "lfree (set_used p v h) = lfree h" "mem_size (set_used p v h) = mem_size h" "used_mem (set_used p v h) = used_mem h"
  "hdata (set_used p v h) = hdata h" "heap_end (set_used p v h) = heap_end h"
  by (simp_all add: set_used_def heap_end_def)

lemma set_used_rep:
  assumes "heap_rep h ps" "p \<in> set ps"
  shows "heap_rep (set_used p v h) ps"
proof -
  note D = heap_repD[OF assms(1)]
  have "seg (hblk (set_used p v h)) 0 ps (heap_end h)"
    using D(1) seg_magic[OF D(1)] by (subst seg_cong[where b = "hblk h"]) auto
  moreover have "links (hblk (set_used p v h)) 0 ps" using D(2) by (subst links_cong[where b = "hblk h"]) auto
  moreover have "heap_end h \<noteq> p" using seg_end[OF D(1)] assms(2) by blast
  ultimately show ?thesis using assms(1) by (simp add: heap_rep_def)
qed

lemma allocs_taken:
  "p \<in> set ps \<Longrightarrow> h_used (hblk h p) = 0 \<Longrightarrow>
     allocs (hblk (set_used p 1 h)) ps = insert (p + 12, h_next (hblk h p) - (p + 12)) (allocs (hblk h) ps)"
  by (auto simp: allocs_iff split: if_splits)

lemma allocs_given:
  "allocs (hblk (set_used p 0 h)) ps = allocs (hblk h) ps - {(p + 12, h_next (hblk h p) - (p + 12))}"
  by (auto simp: allocs_iff split: if_splits)

lemma apart_mono: "apart b xs \<Longrightarrow> (\<And>x. x \<in> set xs \<Longrightarrow> h_used (b x) \<noteq> 0 \<Longrightarrow> h_used (b' x) \<noteq> 0) \<Longrightarrow> apart b' xs"
  by (induction xs) (auto simp: apart_Cons)

lemma count_used_simps [simp]:
  "hblk (count_used m h) = hblk h" "lfree (count_used m h) = lfree h" "mem_size (count_used m h) = mem_size h"
  "hdata (count_used m h) = hdata h" "heap_end (count_used m h) = heap_end h"
  "used_mem (count_used m h) = (used_mem h + m) mod 4294967296"
  by (simp_all add: count_used_def Let_def heap_end_def)

lemma count_used_inv:
  assumes r: "heap_rep h ps" and a: "apart (hblk h) ps" and u: "bytes_of (allocs (hblk h) ps) = used_mem h + m"
  shows "heap_inv (count_used m h) ps"
proof -
  have "used_mem h + m < 4294967296" using bytes_of_le[OF heap_repD(1)[OF r]] heap_repD(3)[OF r] u by simp
  moreover have "heap_rep (count_used m h) ps" using r by (simp add: heap_rep_def)
  ultimately show ?thesis using a u by (simp add: heap_inv_def)
qed

lemma insert_rest_simps:
  assumes "p + 12 + n < h_next (hblk h p)"
  shows "h_next (hblk (insert_rest p n h) x) =
      (if x = p then p + 12 + n else if x = p + 12 + n then h_next (hblk h p) else h_next (hblk h x))"
    "h_prev (hblk (insert_rest p n h) x) = (if x = h_next (hblk h p) \<and> x \<noteq> heap_end h then p + 12 + n
       else if x = p + 12 + n then p else h_prev (hblk h x))"
    "h_used (hblk (insert_rest p n h) x) = (if x = p + 12 + n then 0 else h_used (hblk h x))"
    "h_magic (hblk (insert_rest p n h) x) = (if x = p + 12 + n then HEAP_MAGIC else h_magic (hblk h x))"
    "lfree (insert_rest p n h) = lfree h" "mem_size (insert_rest p n h) = mem_size h"
    "used_mem (insert_rest p n h) = used_mem h" "hdata (insert_rest p n h) = hdata h"
    "heap_end (insert_rest p n h) = heap_end h"
  using assms by (simp_all add: insert_rest_def Let_def set_next_def set_prev_def heap_end_def)

lemma insert_rest_rep:
  assumes r: "heap_rep h (xs @ p # ys)" and n: "p + 12 + n + 12 < h_next (hblk h p)" "n mod 4 = 0" "0 < n"
  shows "heap_rep (insert_rest p n h) (xs @ p # (p + 12 + n) # ys)" "p + 12 + n \<notin> set xs" "p + 12 + n \<notin> set ys"
proof -
  note D = heap_repD[OF r]
  note P = seg_split[OF D(1)]
  let ?N = "h_next (hblk h p)" and ?c = "insert_rest p n h" and ?q = "p + 12 + n"
  have c0: "?q < ?N" using n(1) by simp
  note c = insert_rest_simps[OF c0]
  show q: "?q \<notin> set xs" "?q \<notin> set ys" using P(8,9) n(1) by fastforce+
  have q2: "?q < heap_end h" using seg_le[OF P(2)] n(1) by simp
  have "p mod 4 = 0" using seg_aligned[OF D(1), of p] by simp
  then have q4: "?q mod 4 = 0" using n(2) by presburger
  have "seg (hblk ?c) 0 xs p" using P(1,6) q(1) by (subst seg_cong[where b = "hblk h"]) (auto simp: c)
  moreover have "seg (hblk ?c) ?N ys (heap_end h)" using P(2,7) q(2) by (subst seg_cong[where b = "hblk h"]) (auto simp: c)
  ultimately have sg: "seg (hblk ?c) 0 (xs @ p # ?q # ys) (heap_end h)" using P(4,5) q4 n(1,3) by (auto simp: c)
  have N: "?N \<notin> set xs" "?N \<noteq> p" using P(3,8) by fastforce+
  have "links (hblk ?c) 0 (xs @ [p])"
    using D(2) q N by (subst links_cong[where b = "hblk h"]) (auto simp: c)
  moreover have "links (hblk ?c) ?q ys"
  proof (cases ys)
    case (Cons y zs)
    then have y: "y = ?N" "?N \<notin> set zs" "?N \<noteq> heap_end h" "links (hblk h) y zs" "?q \<notin> set zs"
      using P(2,11,12) seg_distinct[OF P(2)] D(2) q(2) by auto
    then have "links (hblk ?c) y zs" by (subst links_cong[where b = "hblk h"]) (auto simp: c)
    then show ?thesis using y by (simp add: Cons c)
  qed simp
  ultimately have lk: "links (hblk ?c) 0 (xs @ p # ?q # ys)" using N n(1) by (simp add: c)
  show "heap_rep ?c (xs @ p # ?q # ys)" using r sg lk q2 by (auto simp: heap_rep_def c)
qed

lemma insert_rest_parts:
  assumes r: "heap_rep h (xs @ p # ys)" and n: "p + 12 + n + 12 < h_next (hblk h p)" "n mod 4 = 0" "0 < n"
  shows "allocs (hblk (insert_rest p n h)) (xs @ p # (p + 12 + n) # ys) =
      (if h_used (hblk h p) = 0 then allocs (hblk h) (xs @ p # ys)
       else insert (p + 12, n) (allocs (hblk h) (xs @ p # ys) - {(p + 12, h_next (hblk h p) - (p + 12))}))"
    "apart (hblk (insert_rest p n h)) xs = apart (hblk h) xs" "apart (hblk (insert_rest p n h)) ys = apart (hblk h) ys"
    "ys \<noteq> [] \<Longrightarrow> h_used (hblk (insert_rest p n h) (hd ys)) = h_used (hblk h (hd ys))"
proof -
  note P = seg_split[OF heap_repD(1)[OF r]]
  have c0: "p + 12 + n < h_next (hblk h p)" using n(1) by simp
  note c = insert_rest_simps[OF c0]
  note q = insert_rest_rep(2,3)[OF r n]
  have same: "allocs (hblk (insert_rest p n h)) xs = allocs (hblk h) xs" "allocs (hblk (insert_rest p n h)) ys = allocs (hblk h) ys"
    using P(6,7) q by (auto simp: c intro!: allocs_cong)
  have new: "(p + 12, h_next (hblk h p) - (p + 12)) \<notin> allocs (hblk h) xs \<union> allocs (hblk h) ys"
    using P(6,7) by (auto simp: allocs_iff)
  show "allocs (hblk (insert_rest p n h)) (xs @ p # (p + 12 + n) # ys) =
      (if h_used (hblk h p) = 0 then allocs (hblk h) (xs @ p # ys)
       else insert (p + 12, n) (allocs (hblk h) (xs @ p # ys) - {(p + 12, h_next (hblk h p) - (p + 12))}))"
    using new by (auto simp: allocs_Cons same c)
  show "apart (hblk (insert_rest p n h)) xs = apart (hblk h) xs" "apart (hblk (insert_rest p n h)) ys = apart (hblk h) ys"
    using q by (auto simp: c intro!: apart_cong)
  show "ys \<noteq> [] \<Longrightarrow> h_used (hblk (insert_rest p n h) (hd ys)) = h_used (hblk h (hd ys))"
    using q(2) hd_in_set[of ys] by (metis c(3))
qed

section \<open>Taking a block\<close>

lemma carve_rep:
  assumes r: "heap_inv h ps" and p: "p \<in> set ps" "h_used (hblk h p) = 0"
    and n: "n \<le> h_next (hblk h p) - (p + 12)" "12 \<le> n" "n mod 4 = 0"
  obtains ps' k where "heap_inv (carve p n h) ps'" "allocs (hblk (carve p n h)) ps' = insert (p + 12, k) (allocs (hblk h) ps)"
    "n \<le> k" "k < n + 24" "p \<in> set ps'"
    "\<And>x. x \<in> set ps' \<Longrightarrow> h_used (hblk (carve p n h) x) = 0 \<Longrightarrow> p < x \<or> x \<in> set ps \<and> h_used (hblk h x) = 0"
proof -
  obtain xs ys where ps: "ps = xs @ p # ys" using p(1) by (auto simp: in_set_conv_decomp)
  have rep: "heap_rep h (xs @ p # ys)" and ap: "apart (hblk h) (xs @ p # ys)"
    and um: "used_mem h = bytes_of (allocs (hblk h) (xs @ p # ys))" using r by (simp_all add: heap_inv_def ps)
  note D = heap_repD[OF rep]
  note P = seg_split[OF D(1)]
  let ?N = "h_next (hblk h p)"
  have "?N < 4294967296" using seg_le[OF P(2)] D(3) by simp
  then have w: "sub32 ?N (p + 12) = ?N - (p + 12)" "sub32 ?N p = ?N - p" using P(3) by (simp_all add: sub32_le)
  have new: "(p + 12, k) \<notin> allocs (hblk h) (xs @ p # ys)" for k using p(2) by (auto simp: allocs_iff)
  show ?thesis
  proof (cases "n + 24 \<le> ?N - (p + 12)")
    case True
    let ?h = "set_used p 1 (insert_rest p n h)" and ?ps = "xs @ p # (p + 12 + n) # ys"
    have c: "carve p n h = count_used (n + 12) ?h" using True by (simp add: carve_def w Let_def)
    have n1: "p + 12 + n + 12 < ?N" "0 < n" and n2: "p + 12 + n < ?N" using True n(2) by simp_all
    note I = insert_rest_rep[OF rep n1(1) n(3) n1(2)] and J = insert_rest_parts[OF rep n1(1) n(3) n1(2)] and K = insert_rest_simps[OF n2]
    have hr: "heap_rep ?h ?ps" by (rule set_used_rep[OF I(1)]) simp
    have "allocs (hblk (insert_rest p n h)) ?ps = allocs (hblk h) ps" unfolding J(1) ps using p(2) by simp
    then have al: "allocs (hblk ?h) ?ps = insert (p + 12, n) (allocs (hblk h) ps)"
      using allocs_taken[of p ?ps "insert_rest p n h"] p(2) n1(2) by (simp add: K del: allocs_append)
    have "apart (hblk (insert_rest p n h)) xs" "apart (hblk (insert_rest p n h)) ys"
      using ap unfolding J(2,3) by (auto simp: apart_append apart_Cons)
    then have ax: "apart (hblk ?h) xs" "apart (hblk ?h) ys" by (auto elim!: apart_mono split: if_splits)
    have "ys = [] \<or> h_used (hblk ?h (hd ys)) \<noteq> 0" using ap J(4) p(2) by (auto simp: apart_append apart_Cons)
    then have "apart (hblk ?h) ?ps" using ax by (auto simp: apart_append apart_Cons simp del: set_used_simps(3)) (simp_all add: set_used_simps(3))
    moreover have "bytes_of (allocs (hblk ?h) ?ps) = used_mem ?h + (n + 12)"
      unfolding al ps using um bytes_of_insert[OF _ new, of n] by (simp add: K del: allocs_append)
    ultimately have inv: "heap_inv (carve p n h) ?ps" unfolding c by (intro count_used_inv hr)
    have al': "allocs (hblk (carve p n h)) ?ps = insert (p + 12, n) (allocs (hblk h) ps)" unfolding c count_used_simps al ..
    show ?thesis
      by (rule that[OF inv al']) (auto simp: c K ps split: if_splits)
  next
    case False
    let ?h = "set_used p 1 h"
    have c: "carve p n h = count_used (?N - p) ?h" using False by (simp add: carve_def w Let_def)
    have hr: "heap_rep ?h ps" unfolding ps by (rule set_used_rep[OF rep]) simp
    have al: "allocs (hblk ?h) ps = insert (p + 12, ?N - (p + 12)) (allocs (hblk h) ps)" by (rule allocs_taken[OF p])
    have "apart (hblk ?h) ps" unfolding ps by (rule apart_mono[OF ap]) simp
    moreover have "bytes_of (allocs (hblk ?h) ps) = used_mem ?h + (?N - p)"
      unfolding al unfolding ps using um bytes_of_insert[OF _ new, of "?N - (p + 12)"] P(3) by (simp del: allocs_append)
    ultimately have inv: "heap_inv (carve p n h) ps" unfolding c by (intro count_used_inv hr)
    have al': "allocs (hblk (carve p n h)) ps = insert (p + 12, ?N - (p + 12)) (allocs (hblk h) ps)" unfolding c count_used_simps al ..
    show ?thesis by (rule that[OF inv al']) (use n p False in \<open>auto simp: c split: if_splits\<close>)
  qed
qed

lemma carve_simps [simp]: "mem_size (carve p n h) = mem_size h" "lfree (carve p n h) = lfree h" "hdata (carve p n h) = hdata h"
  "heap_end (carve p n h) = heap_end h"
  by (simp_all add: carve_def Let_def count_used_def set_next_def set_prev_def set_used_def insert_rest_def heap_end_def)

text \<open>The chain from one of its blocks.\<close>

lemma seg_from:
  assumes "heap_rep h ps" "q \<in> set ps \<or> q = heap_end h"
  shows "seg (hblk h) q (filter (\<lambda>x. q \<le> x) ps) (heap_end h)"
proof (cases "q \<in> set ps")
  case True
  then obtain us vs where ps: "ps = us @ q # vs" by (auto simp: in_set_conv_decomp)
  note P = seg_split[OF heap_repD(1)[OF assms(1), unfolded ps]]
  have "filter (\<lambda>x. q \<le> x) us = []" "filter (\<lambda>x. q \<le> x) vs = vs" using P(3,8,9) by (fastforce simp: filter_empty_conv filter_id_conv)+
  then show ?thesis using P(2,3,4,5) by (simp add: ps)
next
  case False
  then have "filter (\<lambda>x. q \<le> x) ps = []"
    using assms(2) seg_mem[OF heap_repD(1)[OF assms(1)]] by (fastforce simp: filter_empty_conv)
  then show ?thesis using False assms(2) by simp
qed

lemma heap_inv_lfree: "heap_inv h ps \<Longrightarrow> f \<in> set ps \<or> f = heap_end h \<Longrightarrow> heap_inv (h\<lparr>lfree := f\<rparr>) ps"
  by (auto simp: heap_inv_def heap_rep_def heap_end_def)

lemma align4_max:
  "(12::nat) \<le> max (unat (align4 sz)) 12" "max (unat (align4 sz)) 12 mod 4 = 0"
  by (auto simp: unat_align4 max_def)

lemma malloc_fails:
  assumes r: "heap_inv h ps" and z: "sz \<noteq> 0" "unat (align4 sz) \<le> mem_size h"
    and f: "find (fits h (max (unat (align4 sz)) 12)) (filter (\<lambda>x. lfree h \<le> x) ps) = None"
  shows "rt_malloc sz h = Some (None, h)"
proof -
  have rep: "heap_rep h ps" using r by (simp add: heap_inv_def)
  note D = heap_repD[OF rep]
  have "max (unat (align4 sz)) 12 \<le> mem_size h" using rep z by (simp add: heap_rep_def)
  then have "find_fit (heap_fuel h) h (max (unat (align4 sz)) 12) (lfree h) = Some None"
    using find_fit_spec[OF seg_from[OF rep] D(3), of "lfree h" "max (unat (align4 sz)) 12" "heap_fuel h"] rep f
    by (simp add: heap_rep_def heap_fuel_def heap_end_def)
  then show ?thesis using z by (simp add: rt_malloc_def Let_def)
qed

lemma malloc_takes:
  assumes r: "heap_inv h ps" and z: "sz \<noteq> 0" "unat (align4 sz) \<le> mem_size h" and n: "n = max (unat (align4 sz)) 12"
    and f: "find (fits h n) (filter (\<lambda>x. lfree h \<le> x) ps) = Some p"
  obtains h' ps' k where "rt_malloc sz h = Some (Some (p + 12), h')" "heap_inv h' ps'"
    "allocs (hblk h') ps' = insert (p + 12, k) (allocs (hblk h) ps)" "n \<le> k" "k < n + 24"
    "mem_size h' = mem_size h" "hdata h' = hdata h" "lowest h ps \<Longrightarrow> lowest h' ps'" "\<And>j. (p + 12, j) \<notin> allocs (hblk h) ps"
proof -
  have rep: "heap_rep h ps" using r by (simp add: heap_inv_def)
  note D = heap_repD[OF rep]
  have n3: "12 \<le> n" "n mod 4 = 0" "n \<le> mem_size h" using rep z align4_max[of sz] by (simp_all add: n heap_rep_def)
  have ff: "find_fit (heap_fuel h) h n (lfree h) = Some (Some p)"
    using find_fit_spec[OF seg_from[OF rep] D(3) n3(3), of "lfree h" "heap_fuel h"] rep f
    by (simp add: heap_rep_def heap_fuel_def heap_end_def)
  have p: "p \<in> set ps" "lfree h \<le> p" "h_used (hblk h p) = 0" "n \<le> h_next (hblk h p) - (p + 12)"
    using f by (auto simp: find_Some_iff fits_def dest: nth_mem)
  obtain ps' k where c: "heap_inv (carve p n h) ps'" "allocs (hblk (carve p n h)) ps' = insert (p + 12, k) (allocs (hblk h) ps)"
    "n \<le> k" "k < n + 24" "p \<in> set ps'"
    "\<And>x. x \<in> set ps' \<Longrightarrow> h_used (hblk (carve p n h) x) = 0 \<Longrightarrow> p < x \<or> x \<in> set ps \<and> h_used (hblk h x) = 0"
    using carve_rep[OF r p(1,3,4) n3(1,2)] by blast
  have rep1: "heap_rep (carve p n h) ps'" using c(1) by (simp add: heap_inv_def)
  obtain f' where f': "(if p = lfree h then next_free (heap_fuel h) (carve p n h) (lfree (carve p n h)) else Some (lfree (carve p n h))) = Some f'"
    "f' \<in> set ps' \<or> f' = heap_end h" "lowest h ps \<Longrightarrow> lowest (carve p n h\<lparr>lfree := f'\<rparr>) ps'"
  proof (cases "p = lfree h")
    case True
    have sg: "seg (hblk (carve p n h)) p (filter (\<lambda>x. p \<le> x) ps') (heap_end (carve p n h))"
      using seg_from[OF rep1, of p] c(5) by simp
    have u: "h_used (hblk (carve p n h) (heap_end (carve p n h))) \<noteq> 0" using rep1 by (simp add: heap_rep_def)
    have "heap_end (carve p n h) - p < heap_fuel h" by (simp add: heap_fuel_def heap_end_def)
    then obtain q where q0: "next_free (heap_fuel h) (carve p n h) p = Some q"
      "q \<in> set (filter (\<lambda>x. p \<le> x) ps') \<or> q = heap_end (carve p n h)"
      "\<forall>x \<in> set (filter (\<lambda>x. p \<le> x) ps'). x < q \<longrightarrow> h_used (hblk (carve p n h) x) \<noteq> 0"
      using next_free_spec[OF sg u] by blast
    then have q: "q \<in> set ps' \<or> q = heap_end h" "\<forall>x \<in> set ps'. p \<le> x \<and> x < q \<longrightarrow> h_used (hblk (carve p n h) x) \<noteq> 0"
      by auto
    have "lowest h ps \<Longrightarrow> lowest (carve p n h\<lparr>lfree := q\<rparr>) ps'"
      using q(2) c(6) True by (fastforce simp: lowest_def)
    then show ?thesis using that[of q] q(1) q0(1) True by simp
  next
    case False
    have "lowest h ps \<Longrightarrow> lowest (carve p n h) ps'" using c(6) p(2) by (fastforce simp: lowest_def)
    then show ?thesis using that[of "lfree h"] False rep1 by (simp add: heap_rep_def lowest_def)
  qed
  have "p + 12 + n \<le> heap_end h" using seg_mem[OF D(1) p(1)] p(4) n3(1) by linarith
  moreover have "(p + 12) mod 4 = 0" using seg_aligned[OF D(1) _ p(1)] by presburger
  ultimately have "rt_malloc sz h = Some (Some (p + 12), carve p n h\<lparr>lfree := f'\<rparr>)"
    using z ff f'(1) by (cases "p = lfree h") (simp_all add: rt_malloc_def Let_def n[symmetric])
  then show ?thesis
    using that[of "carve p n h\<lparr>lfree := f'\<rparr>" ps' k] c f' heap_inv_lfree[OF c(1), of f'] p(3) by (simp add: allocs_iff)
qed

section \<open>Giving a block back\<close>

lemma free_gives:
  assumes r: "heap_inv h ps" and a: "(a, k) \<in> allocs (hblk h) ps"
  obtains h' ps' where "rt_free (Some a) h = Some h'" "heap_inv h' ps'" "allocs (hblk h') ps' = allocs (hblk h) ps - {(a, k)}"
    "mem_size h' = mem_size h" "hdata h' = hdata h" "lowest h ps \<Longrightarrow> lowest h' ps'"
proof -
  obtain p where p: "a = p + 12" "k = h_next (hblk h p) - (p + 12)" "p \<in> set ps" "h_used (hblk h p) \<noteq> 0"
    using a by (auto simp: allocs_iff)
  obtain xs ys where ps: "ps = xs @ p # ys" using p(3) by (auto simp: in_set_conv_decomp)
  have rep: "heap_rep h ps" and ap: "apart (hblk h) ps" and um: "used_mem h = bytes_of (allocs (hblk h) ps)"
    using r by (simp_all add: heap_inv_def)
  note D = heap_repD[OF rep]
  note P = seg_split[OF D(1)[unfolded ps]]
  let ?N = "h_next (hblk h p)"
  define h2 where "h2 = (if p < lfree h then set_used p 0 h\<lparr>lfree := p\<rparr> else set_used p 0 h)"
  define h3 where "h3 = h2\<lparr>used_mem := sub32 (used_mem h) (?N - p)\<rparr>"
  have b: "hblk h3 = hblk (set_used p 0 h)" "heap_end h3 = heap_end h" "mem_size h3 = mem_size h" "hdata h3 = hdata h"
    by (simp_all add: h3_def h2_def heap_end_def)
  have lf: "lfree h3 = (if p < lfree h then p else lfree h)" by (simp add: h3_def h2_def)
  have "heap_rep (set_used p 0 h) ps" by (rule set_used_rep[OF rep p(3)])
  then have rep3: "heap_rep h3 (xs @ p # ys)" using lf p(3) unfolding heap_rep_def b ps[symmetric] by auto
  have "apart (hblk h) xs" "apart (hblk h) ys" using ap by (auto simp: ps apart_append apart_Cons)
  moreover have "apart (hblk h3) xs = apart (hblk h) xs" "apart (hblk h3) ys = apart (hblk h) ys"
    using P(6,7) by (auto simp: b intro!: apart_cong)
  ultimately have ap3: "apart (hblk h3) xs" "apart (hblk h3) ys" by simp_all
  have f3: "h_used (hblk h3 p) = 0" by (simp add: b)
  have l3: "lowest h3 (xs @ p # ys) \<or> \<not> lowest h ps" by (auto simp: lowest_def lf b ps)
  have al3: "allocs (hblk h3) (xs @ p # ys) = allocs (hblk h) ps - {(a, k)}" by (simp only: b allocs_given ps[symmetric] p(1,2))
  obtain h' ps' where h': "plug_holes p h3 = Some h'" "heap_rep h' ps'" "apart (hblk h') ps'"
    "allocs (hblk h') ps' = allocs (hblk h) ps - {(a, k)}" "same_heap h3 h'" "lowest h' ps' \<or> \<not> lowest h ps"
    using plug_holes_spec[OF rep3 f3 ap3 l3] unfolding al3 by blast
  have lt: "?N < 4294967296" "?N \<le> heap_end h" using seg_le[OF P(2)] D(3) by simp_all
  have w: "sub32 ?N p = ?N - p" using lt(1) P(3) by (simp add: sub32_le)
  moreover have "a mod 4 = 0" using seg_aligned[OF D(1) _ p(3)] p(1) by presburger
  moreover have "\<not> a < 12 \<and> a < heap_end h" using p(1) P(3) lt(2) seg_mem[OF D(1) p(3)] h'(1) p(4) by auto
  ultimately have run: "rt_free (Some a) h = Some h'"
    using h'(1) p P(5) w by (cases "p < lfree h") (simp_all add: rt_free_def Let_def h3_def h2_def)
  have new: "(a, k) \<notin> allocs (hblk h) ps - {(a, k)}" by simp
  have "used_mem h = k + 12 + bytes_of (allocs (hblk h) ps - {(a, k)})"
    using um bytes_of_insert[OF _ new] a by (simp add: insert_absorb)
  moreover have "k + 12 = ?N - p" using p(2) P(3) by simp
  moreover have "used_mem h < 4294967296" using bytes_of_le[OF D(1)] D(3) um by simp
  ultimately have "used_mem h3 = bytes_of (allocs (hblk h) ps - {(a, k)})" by (simp add: h3_def sub32_le)
  then have "heap_inv h' ps'" using h' by (simp add: heap_inv_def same_heap_def)
  moreover have "mem_size h' = mem_size h" "hdata h' = hdata h" using h'(5) by (simp_all add: same_heap_def b)
  ultimately show ?thesis using that[OF run _ h'(4)] h'(6) by blast
qed

section \<open>Changing the size of a block\<close>

lemma heap_inv_hdata [simp]: "heap_inv (h\<lparr>hdata := d\<rparr>) ps = heap_inv h ps"
  by (simp add: heap_inv_def heap_rep_def heap_end_def)

lemma shrink_gives:
  assumes r: "heap_inv h ps" and a: "(p + 12, k) \<in> allocs (hblk h) ps" and n: "n + 24 < k" "n mod 4 = 0" "0 < n"
  obtains h' ps' where "shrink p k n h = Some h'" "heap_inv h' ps'"
    "allocs (hblk h') ps' = insert (p + 12, n) (allocs (hblk h) ps - {(p + 12, k)})"
    "mem_size h' = mem_size h" "hdata h' = hdata h"
proof -
  have p: "k = h_next (hblk h p) - (p + 12)" "p \<in> set ps" "h_used (hblk h p) \<noteq> 0" using a by (auto simp: allocs_iff)
  obtain xs ys where ps: "ps = xs @ p # ys" using p(2) by (auto simp: in_set_conv_decomp)
  have rep: "heap_rep h (xs @ p # ys)" and ap: "apart (hblk h) (xs @ p # ys)" and um: "used_mem h = bytes_of (allocs (hblk h) ps)"
    using r by (simp_all add: heap_inv_def ps)
  note D = heap_repD[OF rep]
  note P = seg_split[OF D(1)]
  let ?q = "p + 12 + n"
  define h1 where "h1 = insert_rest p n h"
  define h2 where "h2 = h1\<lparr>used_mem := sub32 (used_mem h) (k - n)\<rparr>"
  have n1: "?q + 12 < h_next (hblk h p)" and n2: "?q < h_next (hblk h p)" using n p(1) by simp_all
  note I = insert_rest_rep[OF rep n1 n(2,3)] and J = insert_rest_parts[OF rep n1 n(2,3)] and K = insert_rest_simps[OF n2]
  have h2: "insert_rest p n (h\<lparr>used_mem := sub32 (used_mem h) (k - n)\<rparr>) = h2"
    by (simp add: h2_def h1_def insert_rest_def Let_def set_next_def set_prev_def heap_end_def)
  have b: "hblk h2 = hblk h1" "heap_end h2 = heap_end h1" "lfree h2 = lfree h1" "mem_size h2 = mem_size h1" "hdata h2 = hdata h1"
    by (simp_all add: h2_def heap_end_def)
  have "heap_rep h2 (xs @ p # ?q # ys)" using I(1) unfolding heap_rep_def b h1_def .
  then have rep2: "heap_rep h2 ((xs @ [p]) @ ?q # ys)" by simp
  have f2: "h_used (hblk h2 ?q) = 0" by (simp add: b h1_def K)
  have "apart (hblk h2) xs" "apart (hblk h2) ys"
    using ap unfolding b h1_def J(2,3) by (auto simp: apart_append apart_Cons)
  moreover have "h_used (hblk h2 p) \<noteq> 0" using p(3) n(3) by (simp add: b h1_def K)
  ultimately have ap2: "apart (hblk h2) (xs @ [p])" "apart (hblk h2) ys" by (simp_all add: apart_append apart_Cons)
  let ?A = "insert (p + 12, n) (allocs (hblk h) ps - {(p + 12, k)})"
  have al2: "allocs (hblk h2) ((xs @ [p]) @ ?q # ys) = ?A"
    using J(1) p(3) by (simp add: b h1_def p(1) ps del: allocs_append)
  obtain h' ps' where h': "plug_holes ?q h2 = Some h'" "heap_rep h' ps'" "apart (hblk h') ps'" "allocs (hblk h') ps' = ?A" "same_heap h2 h'"
    using plug_holes_spec[OF rep2 f2 ap2, of False] unfolding al2 by blast
  have run: "shrink p k n h = Some h'" using h'(1) by (simp add: shrink_def h2)
  have new: "(p + 12, k) \<notin> allocs (hblk h) ps - {(p + 12, k)}" "(p + 12, n) \<notin> allocs (hblk h) ps - {(p + 12, k)}"
    using p(1) by (auto simp: allocs_iff)
  have "used_mem h = k + 12 + bytes_of (allocs (hblk h) ps - {(p + 12, k)})"
    using um bytes_of_insert[OF _ new(1)] a by (simp add: insert_absorb)
  moreover have "bytes_of ?A = n + 12 + bytes_of (allocs (hblk h) ps - {(p + 12, k)})" by (rule bytes_of_insert[OF _ new(2)]) simp
  moreover have "used_mem h < 4294967296" using bytes_of_le[OF D(1)] D(3) um by (simp add: ps)
  ultimately have "used_mem h2 = bytes_of ?A" using n by (simp add: h2_def sub32_le)
  then have "heap_inv h' ps'" using h' by (simp add: heap_inv_def same_heap_def)
  moreover have "mem_size h' = mem_size h" "hdata h' = hdata h" using h'(5) by (simp_all add: same_heap_def b h1_def K)
  ultimately show ?thesis using that[OF run _ h'(4)] by blast
qed

text \<open>What a caller of \<^verbatim>\<open>rt_realloc\<close> gets for the block \<open>(a, k)\<close>, \<open>n\<close> the aligned new size: a block in its place with
  at least \<open>n\<close> bytes and the old contents; the data of the others stay.\<close>

definition moved :: "(nat \<times> nat) set \<Rightarrow> bytes \<Rightarrow> nat \<Rightarrow> nat \<Rightarrow> nat \<Rightarrow> (nat \<times> nat) set \<Rightarrow> bytes \<Rightarrow> nat \<Rightarrow> bool" where
  "moved A d a k n A' d' a' \<longleftrightarrow> (\<exists>k' \<ge> n. A' = insert (a', k') (A - {(a, k)})) \<and> (\<forall>i < min k n. d' (a' + i) = d (a + i)) \<and>
     (\<forall>(b, m) \<in> A - {(a, k)}. \<forall>i < m. d' (b + i) = d (b + i))"

lemma align4_align4: "align4 (align4 w) = align4 w"
  by (rule word_unat_eq_iff[THEN iffD2]) (simp add: unat_align4)

lemma realloc_moves:
  assumes r: "heap_inv h ps" and a: "(a, k) \<in> allocs (hblk h) ps"
    and n: "n = unat (align4 newsize)" "0 < n" "n \<le> mem_size h"
  obtains (same) "rt_realloc (Some a) newsize h = Some (None, h)"
  | (moved) a' h' ps' where "rt_realloc (Some a) newsize h = Some (Some a', h')" "heap_inv h' ps'" "mem_size h' = mem_size h"
      "moved (allocs (hblk h) ps) (hdata h) a k n (allocs (hblk h') ps') (hdata h') a'"
proof -
  let ?A = "allocs (hblk h) ps"
  obtain p where p: "a = p + 12" "k = h_next (hblk h p) - (p + 12)" "p \<in> set ps" using a by (auto simp: allocs_iff)
  have rep: "heap_rep h ps" using r by (simp add: heap_inv_def)
  note D = heap_repD[OF rep]
  have P: "p + 12 < h_next (hblk h p)" "h_next (hblk h p) \<le> heap_end h" using seg_mem[OF D(1) p(3)] by simp_all
  have w: "sub32 (h_next (hblk h p)) (p + 12) = k" using P D(3) p(2) by (simp add: sub32_le)
  have n4: "n mod 4 = 0" by (simp add: n(1) unat_align4)
  have c: "a - 12 = p" "a < heap_end h" "\<not> a < 12" "\<not> mem_size h < n" "n \<noteq> 0" using P p(1) n by simp_all
  have e: "rt_realloc (Some a) newsize h =
      (if k = n then Some (Some a, h)
       else if n + 24 < k then map_option (Pair (Some a)) (shrink p k n h)
       else case rt_malloc (align4 newsize) h of None \<Rightarrow> None | Some (None, h1) \<Rightarrow> Some (None, h1)
         | Some (Some a', h1) \<Rightarrow>
             map_option (Pair (Some a')) (rt_free (Some a) (h1\<lparr>hdata := rt_memcpy a' a (if k < n then k else n) (hdata h1)\<rparr>)))"
    unfolding rt_realloc_def Let_def n(1)[symmetric] option.case c(1) w by (simp add: c)
  consider "k = n" | "k \<noteq> n" "n + 24 < k" | "k \<noteq> n" "\<not> n + 24 < k" by blast
  then show ?thesis
  proof cases
    case 1
    have "Mem.moved ?A (hdata h) a k n ?A (hdata h) a" using a 1 by (auto simp: moved_def)
    then show ?thesis using moved[of a h ps] e 1 r by simp
  next
    case 2
    obtain h' ps' where s: "shrink p k n h = Some h'" "heap_inv h' ps'" "allocs (hblk h') ps' = insert (p + 12, n) (?A - {(p + 12, k)})"
      "mem_size h' = mem_size h" "hdata h' = hdata h"
      using shrink_gives[OF r a[unfolded p(1)] 2(2) n4 n(2)] by blast
    have "Mem.moved ?A (hdata h) a k n (allocs (hblk h') ps') (hdata h') a" using s(3,5) p(1) by (auto simp: moved_def)
    then show ?thesis using moved[of a h' ps'] e 2 s by simp
  next
    case 3
    let ?z = "align4 newsize" and ?m = "max (unat (align4 (align4 newsize))) 12"
    have z: "?z \<noteq> 0" "unat (align4 ?z) \<le> mem_size h" using n by (auto simp: align4_align4)
    have m: "n \<le> ?m" by (simp add: n(1) align4_align4)
    show ?thesis
    proof (cases "find (fits h ?m) (filter (\<lambda>x. lfree h \<le> x) ps)")
      case None
      have "rt_malloc ?z h = Some (None, h)" by (rule malloc_fails[OF r z None])
      then have "rt_realloc (Some a) newsize h = Some (None, h)" unfolding e by (simp add: 3)
      then show ?thesis by (rule same)
    next
      case (Some q)
      obtain h1 ps1 k' where m1: "rt_malloc ?z h = Some (Some (q + 12), h1)" "heap_inv h1 ps1"
        "allocs (hblk h1) ps1 = insert (q + 12, k') ?A" "?m \<le> k'" "mem_size h1 = mem_size h" "hdata h1 = hdata h"
        "\<And>j. (q + 12, j) \<notin> ?A"
        by (rule malloc_takes[OF r z refl Some], rule that)
      let ?c = "if k < n then k else n"
      let ?h2 = "h1\<lparr>hdata := rt_memcpy (q + 12) a ?c (hdata h1)\<rparr>"
      have i2: "heap_inv ?h2 ps1" "(a, k) \<in> allocs (hblk ?h2) ps1" using m1(2,3) a by simp_all
      obtain h' ps' where f: "rt_free (Some a) ?h2 = Some h'" "heap_inv h' ps'" "allocs (hblk h') ps' = allocs (hblk ?h2) ps1 - {(a, k)}"
        "mem_size h' = mem_size ?h2" "hdata h' = hdata ?h2"
        using free_gives[OF i2] by blast
      have "n \<le> k'" using m m1(4) by (rule order_trans)
      have qa: "q + 12 \<noteq> a" using m1(7) a by blast
      have s1: "seg (hblk h1) 0 ps1 (heap_end h1)" using m1(2) by (simp add: heap_inv_def heap_rep_def)
      have dis: "q + 12 + k' \<le> b \<or> b + j \<le> q + 12" if "(b, j) \<in> ?A" for b j
      proof -
        have "(q + 12, k') \<in> allocs (hblk h1) ps1" "(b, j) \<in> allocs (hblk h1) ps1" "q + 12 \<noteq> b" using m1(3,7) that by auto
        then show ?thesis using allocs_disjoint[OF s1] by fastforce
      qed
      have "forward_ok (q + 12) a ?c" using dis[OF a] m1(4) m by (auto simp: forward_ok_def)
      then have d: "hdata h' = copied (q + 12) a ?c (hdata h)" using f(5) m1(6) by (simp add: rt_memcpy_copied)
      have "allocs (hblk h') ps' = insert (q + 12, k') (?A - {(a, k)})" using f(3) m1(3) qa by auto
      moreover have "\<forall>(b, j) \<in> ?A - {(a, k)}. \<forall>i < j. hdata h' (b + i) = hdata h (b + i)"
      proof (intro ballI, clarify)
        fix b j i assume "(b, j) \<in> ?A" "i < j"
        then have "\<not> (q + 12 \<le> b + i \<and> b + i < q + 12 + ?c)" using dis[of b j] m1(4) m by auto
        then show "hdata h' (b + i) = hdata h (b + i)" unfolding d copied_def by (rule if_not_P)
      qed
      moreover have "\<forall>i < min k n. hdata h' (q + 12 + i) = hdata h (a + i)" by (auto simp: d copied_def)
      ultimately have "Mem.moved ?A (hdata h) a k n (allocs (hblk h') ps') (hdata h') (q + 12)"
        unfolding moved_def using \<open>n \<le> k'\<close> by blast
      moreover have "rt_realloc (Some a) newsize h = Some (Some (q + 12), h')" unfolding e by (simp add: 3 m1(1) f(1))
      moreover have "mem_size h' = mem_size h" using f(4) m1(5) by simp
      ultimately show ?thesis using moved f(2) by blast
    qed
  qed
qed

section \<open>The heap as a whole\<close>

text \<open>The blocks, read off the chain.\<close>

fun walk :: "nat \<Rightarrow> heap \<Rightarrow> nat \<Rightarrow> nat list" where
  "walk 0 h p = []"
| "walk (Suc k) h p = (if p = heap_end h then [] else p # walk k h (h_next (hblk h p)))"

definition blocks :: "heap \<Rightarrow> nat list" where "blocks h = walk (heap_fuel h) h 0"

definition heap_ok :: "heap \<Rightarrow> bool" where "heap_ok h = heap_inv h (blocks h)"

definition allocated :: "heap \<Rightarrow> (nat \<times> nat) set" where "allocated h = allocs (hblk h) (blocks h)"

lemma walk_seg: "seg (hblk h) p ps (heap_end h) \<Longrightarrow> length ps \<le> k \<Longrightarrow> walk k h p = ps"
proof (induction ps arbitrary: p k)
  case Nil
  then show ?case by (cases k) auto
next
  case (Cons x xs)
  then obtain j where k: "k = Suc j" by (cases k) auto
  have "p \<noteq> heap_end h" using seg_end[OF Cons.prems(1)] Cons.prems(1) by auto
  then show ?case using Cons by (simp add: k)
qed

lemma heap_inv_blocks: "heap_inv h ps \<Longrightarrow> blocks h = ps"
proof -
  assume "heap_inv h ps"
  then have s: "seg (hblk h) 0 ps (heap_end h)" by (simp add: heap_inv_def heap_rep_def)
  then have "length ps \<le> heap_fuel h" using seg_length[OF s] by (simp add: heap_fuel_def heap_end_def)
  then show "blocks h = ps" unfolding blocks_def by (rule walk_seg[OF s])
qed

lemma heap_okI: "heap_inv h ps \<Longrightarrow> heap_ok h \<and> allocated h = allocs (hblk h) ps"
  using heap_inv_blocks[of h ps] by (simp add: heap_ok_def allocated_def)

lemma heap_ok_seg: "heap_ok h \<Longrightarrow> seg (hblk h) 0 (blocks h) (heap_end h)"
  by (simp add: heap_ok_def heap_inv_def heap_rep_def)

text \<open>The allocated areas determine the blocks: free neighbours do not occur.\<close>

lemma layout_unique:
  assumes "seg b p xs e" "seg b' p ys e" "apart b xs" "apart b' ys" "allocs b xs = allocs b' ys"
  shows "xs = ys \<and> (\<forall>x \<in> set xs. h_next (b' x) = h_next (b x) \<and> (h_used (b' x) = 0 \<longleftrightarrow> h_used (b x) = 0))"
  using assms
proof (induction xs arbitrary: p ys)
  case Nil
  then show ?case by (cases ys) (auto dest: seg_le)
next
  case (Cons x xs)
  have e: "p \<noteq> e" using seg_end[OF Cons.prems(1)] Cons.prems(1) by auto
  then obtain zs where ys: "ys = p # zs" using Cons.prems(2) by (cases ys) auto
  have x: "x = p" "p + 12 < h_next (b p)" "seg b (h_next (b p)) xs e" using Cons.prems(1) by simp_all
  have y: "p + 12 < h_next (b' p)" "seg b' (h_next (b' p)) zs e" using Cons.prems(2) by (simp_all add: ys)
  have hd: "(p + 12, k) \<in> allocs b (x # xs) \<longleftrightarrow> h_used (b p) \<noteq> 0 \<and> k = h_next (b p) - (p + 12)"
    "(p + 12, k) \<in> allocs b' ys \<longleftrightarrow> h_used (b' p) \<noteq> 0 \<and> k = h_next (b' p) - (p + 12)" for k
    using seg_mem[OF x(3), of p] seg_mem[OF y(2), of p] x(1,2) y(1) by (auto simp: allocs_iff ys)
  have u: "h_used (b' p) = 0 \<longleftrightarrow> h_used (b p) = 0" using hd Cons.prems(5) by auto
  have "h_next (b' p) = h_next (b p)"
  proof (cases "h_used (b p) = 0")
    case False
    then show ?thesis using hd Cons.prems(5) u x(2) y(1) by fastforce
  next
    case True
    have "h_next (b' p) \<le> h_next (b p)"
    proof (cases xs)
      case Nil
      then show ?thesis using x(3) seg_le[OF y(2)] by simp
    next
      case (Cons v vs)
      then have "v = h_next (b p)" "h_used (b v) \<noteq> 0" using x(3) Cons.prems(3) True x(1) by (auto simp: apart_Cons)
      then have "(v + 12, h_next (b v) - (v + 12)) \<in> allocs b (x # xs)" using Cons by (auto simp: allocs_iff)
      then have "(v + 12, h_next (b v) - (v + 12)) \<in> allocs b' ys" using Cons.prems(5) by simp
      then have "v \<in> set ys" by (auto simp: allocs_iff)
      then show ?thesis using \<open>v = _\<close> x(2) seg_mem[OF y(2), of v] ys by auto
    qed
    moreover have "h_next (b p) \<le> h_next (b' p)"
    proof (cases zs)
      case Nil
      then show ?thesis using y(2) seg_le[OF x(3)] by simp
    next
      case (Cons v vs)
      then have "v = h_next (b' p)" "h_used (b' v) \<noteq> 0" using y(2) Cons.prems(4) True u by (auto simp: apart_Cons ys)
      then have "(v + 12, h_next (b' v) - (v + 12)) \<in> allocs b' ys" using Cons ys by (auto simp: allocs_iff)
      then have "(v + 12, h_next (b' v) - (v + 12)) \<in> allocs b (x # xs)" using Cons.prems(5) by simp
      then have "v \<in> set (x # xs)" by (auto simp: allocs_iff)
      then show ?thesis using \<open>v = _\<close> y(1) seg_mem[OF x(3), of v] x(1) by auto
    qed
    ultimately show ?thesis by simp
  qed
  then have n: "h_next (b' p) = h_next (b p)" .
  have "allocs b xs = allocs b (x # xs) - {(p + 12, h_next (b p) - (p + 12))}"
    "allocs b' zs = allocs b' ys - {(p + 12, h_next (b' p) - (p + 12))}"
    using seg_mem[OF x(3), of p] seg_mem[OF y(2), of p] x(1,2) y(1) by (auto simp: allocs_iff ys)
  then have "allocs b xs = allocs b' zs" using Cons.prems(5) n by simp
  then have "xs = zs \<and> (\<forall>x \<in> set xs. h_next (b' x) = h_next (b x) \<and> (h_used (b' x) = 0 \<longleftrightarrow> h_used (b x) = 0))"
    using Cons.IH[OF x(3) y(2)[unfolded n]] Cons.prems(3,4) by (simp add: apart_Cons ys)
  then show ?case using n u by (simp add: ys x(1))
qed

text \<open>The operations on a sound heap.\<close>

lemma heap_ok_cases:
  assumes "heap_ok h"
  obtains "heap_inv h (blocks h)" "allocated h = allocs (hblk h) (blocks h)" "used_mem h = bytes_of (allocated h)"
    "12 \<le> mem_size h" "mem_size h + 24 \<le> 4294967296" "heap_rep h (blocks h)"
  using assms that by (simp add: heap_ok_def heap_inv_def heap_rep_def allocated_def)

lemma malloc_ok:
  assumes h: "heap_ok h"
  obtains (none) "rt_malloc sz h = Some (None, h)"
  | (block) p h' n where "rt_malloc sz h = Some (Some (p + 12), h')" "heap_ok h'" "allocated h' = insert (p + 12, n) (allocated h)"
      "max (unat (align4 sz)) 12 \<le> n" "n < max (unat (align4 sz)) 12 + 24" "mem_size h' = mem_size h" "hdata h' = hdata h"
      "\<forall>j. (p + 12, j) \<notin> allocated h"
proof -
  have r: "heap_inv h (blocks h)" and al: "allocated h = allocs (hblk h) (blocks h)" using h by (simp_all add: heap_ok_def allocated_def)
  consider "sz = 0" | "mem_size h < unat (align4 sz)" | "sz \<noteq> 0" "unat (align4 sz) \<le> mem_size h" by force
  then show ?thesis
  proof cases
    case 1
    then show ?thesis using none by (simp add: rt_malloc_def)
  next
    case 2
    then have "rt_malloc sz h = Some (None, h)" by (auto simp: rt_malloc_def)
    then show ?thesis by (rule none)
  next
    case 3
    show ?thesis
    proof (cases "find (fits h (max (unat (align4 sz)) 12)) (filter (\<lambda>x. lfree h \<le> x) (blocks h))")
      case None
      show ?thesis by (rule none[OF malloc_fails[OF r 3 None]])
    next
      case (Some p)
      show ?thesis
      proof (rule malloc_takes[OF r 3 refl Some])
        fix h' ps' k
        assume m: "rt_malloc sz h = Some (Some (p + 12), h')" "heap_inv h' ps'"
          "allocs (hblk h') ps' = insert (p + 12, k) (allocs (hblk h) (blocks h))"
          "max (unat (align4 sz)) 12 \<le> k" "k < max (unat (align4 sz)) 12 + 24"
          "mem_size h' = mem_size h" "hdata h' = hdata h" "\<And>j. (p + 12, j) \<notin> allocs (hblk h) (blocks h)"
        then show ?thesis using block[OF m(1) _ _ m(4-7)] heap_okI[OF m(2)] by (simp add: al)
      qed
    qed
  qed
qed

lemma free_ok:
  assumes h: "heap_ok h" and a: "(a, k) \<in> allocated h"
  obtains h' where "rt_free (Some a) h = Some h'" "heap_ok h'" "allocated h' = allocated h - {(a, k)}"
    "mem_size h' = mem_size h" "hdata h' = hdata h"
proof -
  have r: "heap_inv h (blocks h)" and al: "allocated h = allocs (hblk h) (blocks h)" using h by (simp_all add: heap_ok_def allocated_def)
  show ?thesis
  proof (rule free_gives[OF r a[unfolded al]])
    fix h' ps'
    assume m: "rt_free (Some a) h = Some h'" "heap_inv h' ps'" "allocs (hblk h') ps' = allocs (hblk h) (blocks h) - {(a, k)}"
      "mem_size h' = mem_size h" "hdata h' = hdata h"
    then show ?thesis using that[OF m(1) _ _ m(4,5)] heap_okI[OF m(2)] by (simp add: al)
  qed
qed

lemma realloc_ok:
  assumes h: "heap_ok h" and a: "(a, k) \<in> allocated h" and n: "n = unat (align4 sz)" "0 < n" "n \<le> mem_size h"
  obtains (none) "rt_realloc (Some a) sz h = Some (None, h)"
  | (block) a' h' where "rt_realloc (Some a) sz h = Some (Some a', h')" "heap_ok h'" "mem_size h' = mem_size h"
      "moved (allocated h) (hdata h) a k n (allocated h') (hdata h') a'"
proof -
  have r: "heap_inv h (blocks h)" and al: "allocated h = allocs (hblk h) (blocks h)" using h by (simp_all add: heap_ok_def allocated_def)
  show ?thesis
  proof (rule realloc_moves[OF r a[unfolded al] n])
    fix a' h' ps'
    assume m: "rt_realloc (Some a) sz h = Some (Some a', h')" "heap_inv h' ps'" "mem_size h' = mem_size h"
      "moved (allocs (hblk h) (blocks h)) (hdata h) a k n (allocs (hblk h') ps') (hdata h') a'"
    then show ?thesis using block[OF m(1) _ m(3)] heap_okI[OF m(2)] by (simp add: al)
  qed (rule none)
qed

lemma heap_init_ok:
  assumes e: "36 \<le> end_align" "begin_align \<le> end_align - 36" and b: "begin_align = unat (align4 begin_addr)" "end_align = unat (align4_down end_addr)"
    and u: "used_mem h = 0"
  shows "heap_ok (rt_system_heap_init begin_addr end_addr h)"
    "blocks (rt_system_heap_init begin_addr end_addr h) = [0]"
    "mem_size (rt_system_heap_init begin_addr end_addr h) = end_align - begin_align - 24"
proof -
  let ?b = "align4 begin_addr" and ?e = "align4_down end_addr"
  let ?h = "rt_system_heap_init begin_addr end_addr h"
  have e24: "unat (?e - 24) = end_align - 24" using e(1) b(2) by (subst unat_sub) (simp_all add: word_le_nat_alt)
  have le: "24 < ?e" "?b \<le> ?e - 24" using e b e24 by (simp_all add: word_le_nat_alt word_less_nat_alt)
  have "unat (?e - ?b - 24) = unat (?e - 24 - ?b)" by (simp add: algebra_simps)
  also have "\<dots> = end_align - 24 - begin_align" using unat_sub[OF le(2)] e24 b(1) by simp
  finally have sz: "unat (?e - ?b - 24) = end_align - begin_align - 24" by simp
  define n where "n = end_align - begin_align - 24"
  have h: "?h = h\<lparr>mem_size := n, lfree := 0,
      hblk := (hblk h)(0 := \<lparr>h_magic = HEAP_MAGIC, h_used = 0, h_next = n + 12, h_prev = 0\<rparr>,
        n + 12 := \<lparr>h_magic = HEAP_MAGIC, h_used = 1, h_next = n + 12, h_prev = n + 12\<rparr>)\<rparr>"
    using le by (simp add: rt_system_heap_init_def Let_def sz n_def)
  have "end_align mod 4 = 0" "begin_align mod 4 = 0" by (simp_all add: b unat_align4 unat_align4_down)
  then have "n mod 4 = 0" "(n + 12) mod 4 = 0" using e unfolding n_def by presburger+
  moreover have "12 \<le> n" using e by (simp add: n_def)
  moreover have "n + 24 \<le> 4294967296" using unsigned_less[of ?e, where ?'a = nat] b(2) e by (simp add: n_def)
  ultimately have i: "heap_inv ?h [0]"
    using u by (simp add: h heap_inv_def heap_rep_def heap_end_def apart_def bytes_of_def allocs_Cons)
  show "heap_ok ?h" "blocks ?h = [0]" using heap_okI[OF i] heap_inv_blocks[OF i] by simp_all
  show "mem_size ?h = end_align - begin_align - 24" by (simp add: h n_def)
qed

section \<open>Heaps of a running program\<close>

text \<open>The region has room for one block between the headers, 36 bytes (\<^verbatim>\<open>rt_system_heap_init\<close> takes a region from 24 bytes on, in which no
  block fits). The program gives back, and resizes, only what it has; it writes its data, not the headers.\<close>

inductive heap_reach :: "heap \<Rightarrow> bool" where
  heap_start: "used_mem h = 0 \<Longrightarrow> 36 \<le> unat (align4_down e) \<Longrightarrow> unat (align4 b) \<le> unat (align4_down e) - 36 \<Longrightarrow>
    heap_reach (rt_system_heap_init b e h)"
| heap_malloc: "heap_reach h \<Longrightarrow> rt_malloc sz h = Some (r, h') \<Longrightarrow> heap_reach h'"
| heap_calloc: "heap_reach h \<Longrightarrow> rt_calloc c sz h = Some (r, h') \<Longrightarrow> heap_reach h'"
| heap_free: "heap_reach h \<Longrightarrow> (a, k) \<in> allocated h \<Longrightarrow> rt_free (Some a) h = Some h' \<Longrightarrow> heap_reach h'"
| heap_realloc: "heap_reach h \<Longrightarrow> (a, k) \<in> allocated h \<Longrightarrow> rt_realloc (Some a) sz h = Some (r, h') \<Longrightarrow> heap_reach h'"
| heap_write: "heap_reach h \<Longrightarrow> heap_reach (h\<lparr>hdata := d\<rparr>)"

lemma heap_ok_hdata: "heap_ok h \<Longrightarrow> heap_ok (h\<lparr>hdata := d\<rparr>) \<and> allocated (h\<lparr>hdata := d\<rparr>) = allocated h"
proof -
  assume "heap_ok h"
  then have i: "heap_inv (h\<lparr>hdata := d\<rparr>) (blocks h)" by (simp add: heap_ok_def)
  show ?thesis using heap_okI[OF i] by (simp add: allocated_def)
qed

lemma calloc_ok:
  assumes h: "heap_ok h"
  obtains (none) "rt_calloc c sz h = Some (None, h)"
  | (block) p h' n where "rt_calloc c sz h = Some (Some (p + 12), h')" "heap_ok h'" "allocated h' = insert (p + 12, n) (allocated h)"
      "unat (align4 (c * sz)) \<le> n" "hdata h' = filled (p + 12) (unat (c * sz)) 0 (hdata h)" "\<forall>j. (p + 12, j) \<notin> allocated h"
proof (rule malloc_ok[OF h, of "c * sz"])
  assume "rt_malloc (c * sz) h = Some (None, h)"
  then show ?thesis using none by (simp add: rt_calloc_def)
next
  fix p h' n
  assume m: "rt_malloc (c * sz) h = Some (Some (p + 12), h')" "heap_ok h'" "allocated h' = insert (p + 12, n) (allocated h)"
    "max (unat (align4 (c * sz))) 12 \<le> n" "hdata h' = hdata h" "\<forall>j. (p + 12, j) \<notin> allocated h"
  let ?h = "h'\<lparr>hdata := filled (p + 12) (unat (c * sz)) 0 (hdata h)\<rparr>"
  have "rt_calloc c sz h = Some (Some (p + 12), ?h)" using m by (simp add: rt_calloc_def rt_memset_filled)
  then show ?thesis using block[of p ?h n] m heap_ok_hdata[OF m(2)] by simp
qed

lemma realloc_any:
  assumes h: "heap_ok h" and a: "(a, k) \<in> allocated h"
  obtains r h' where "rt_realloc (Some a) sz h = Some (r, h')" "heap_ok h'"
proof -
  let ?n = "unat (align4 sz)"
  consider "mem_size h < ?n" | "?n = 0" | "0 < ?n" "?n \<le> mem_size h" by force
  then show ?thesis
  proof cases
    case 1
    then show ?thesis using that[of None h] h by (simp add: rt_realloc_def)
  next
    case 2
    then show ?thesis using that h free_ok[OF h a] by (auto simp: rt_realloc_def)
  next
    case 3
    show ?thesis by (rule realloc_ok[OF h a refl 3]) (use that h in blast)+
  qed
qed

lemma heap_reach_ok: "heap_reach h \<Longrightarrow> heap_ok h"
proof (induction rule: heap_reach.induct)
  case (heap_start h e b)
  then show ?case using heap_init_ok(1)[OF _ _ refl refl] by blast
next
  case (heap_malloc h sz r h')
  then show ?case by (cases rule: malloc_ok[OF heap_malloc.IH, of sz]) auto
next
  case (heap_calloc h c sz r h')
  then show ?case by (cases rule: calloc_ok[OF heap_calloc.IH, of c sz]) auto
next
  case (heap_free h a k h')
  then show ?case using free_ok[OF heap_free.IH heap_free.hyps(2)] by (metis option.inject)
next
  case (heap_realloc h a k sz r h')
  then show ?case using realloc_any[OF heap_realloc.IH heap_realloc.hyps(2), of sz] by (metis option.inject prod.inject)
next
  case (heap_write h d)
  then show ?case using heap_ok_hdata by blast
qed

end
