(* ===== verification/MemProps.thy ===== *)
theory MemProps
  imports Mem
begin

text \<open>
  The properties of the heap: what \<^verbatim>\<open>rt_malloc\<close> gives and when it gives nothing, that \<^verbatim>\<open>rt_free\<close> undoes it, what
  \<^verbatim>\<open>rt_realloc\<close> keeps, and that on every heap a program can reach the operations return.
\<close>

section \<open>A heap of one kilobyte\<close>

definition no_heap :: heap where
  "no_heap = \<lparr>hblk = \<lambda>_. \<lparr>h_magic = 0, h_used = 0, h_next = 0, h_prev = 0\<rparr>, hdata = \<lambda>i. of_nat i, mem_size = 0, lfree = 0,
     used_mem = 0, max_mem = 0\<rparr>"

definition small_heap :: heap where
  "small_heap = no_heap\<lparr>mem_size := 1000, hblk := (hblk no_heap)(0 := \<lparr>h_magic = HEAP_MAGIC, h_used = 0, h_next = 1012, h_prev = 0\<rparr>,
     1012 := \<lparr>h_magic = HEAP_MAGIC, h_used = 1, h_next = 1012, h_prev = 1012\<rparr>)\<rparr>"

text \<open>After a block of 100 bytes has been taken.\<close>

definition used_heap :: heap where
  "used_heap = small_heap\<lparr>lfree := 112, used_mem := 112, max_mem := 112,
     hblk := (hblk no_heap)(0 := \<lparr>h_magic = HEAP_MAGIC, h_used = 1, h_next = 112, h_prev = 0\<rparr>,
       112 := \<lparr>h_magic = HEAP_MAGIC, h_used = 0, h_next = 1012, h_prev = 0\<rparr>,
       1012 := \<lparr>h_magic = HEAP_MAGIC, h_used = 1, h_next = 1012, h_prev = 1012\<rparr>)\<rparr>"

lemma small_init: "rt_system_heap_init 0x20000000 0x20000400 no_heap = small_heap"
proof -
  have "align4 0x20000000 = 0x20000000" "align4_down 0x20000400 = 0x20000400"
    by (simp_all add: word_unat_eq_iff unat_align4 unat_align4_down)
  then show ?thesis by (simp add: rt_system_heap_init_def small_heap_def no_heap_def)
qed

lemma small_reach: "heap_reach small_heap"
  unfolding small_init[symmetric] by (rule heap_start) (simp_all add: no_heap_def unat_align4 unat_align4_down)

lemma small_inv: "heap_inv small_heap [0]"
  by (simp add: heap_inv_def heap_rep_def heap_end_def small_heap_def no_heap_def apart_def allocs_Cons bytes_of_def)

lemma find_fit_step: "0 < k \<Longrightarrow> find_fit k h n p =
    (if p < sub32 (mem_size h) n then
       (if h_used (hblk h p) = 0 \<and> n \<le> sub32 (h_next (hblk h p)) (p + 12) then Some (Some p)
        else find_fit (k - 1) h n (h_next (hblk h p)))
     else Some None)"
  by (cases k) auto

lemma next_free_step: "0 < k \<Longrightarrow> next_free k h p =
    (if h_used (hblk h p) \<noteq> 0 \<and> p \<noteq> heap_end h then next_free (k - 1) h (h_next (hblk h p)) else Some p)"
  by (cases k) auto

lemma small_simps [simp]: "mem_size small_heap = 1000" "lfree small_heap = 0" "heap_end small_heap = 1012"
    "hblk small_heap 0 = \<lparr>h_magic = HEAP_MAGIC, h_used = 0, h_next = 1012, h_prev = 0\<rparr>"
  and used_simps [simp]: "mem_size used_heap = 1000" "lfree used_heap = 112" "heap_end used_heap = 1012"
    "hblk used_heap 0 = \<lparr>h_magic = HEAP_MAGIC, h_used = 1, h_next = 112, h_prev = 0\<rparr>"
    "hblk used_heap 112 = \<lparr>h_magic = HEAP_MAGIC, h_used = 0, h_next = 1012, h_prev = 0\<rparr>"
    "hdata used_heap i = of_nat i"
  by (simp_all add: heap_end_def small_heap_def used_heap_def no_heap_def)

lemma small_malloc: "rt_malloc 100 small_heap = Some (Some 12, used_heap)"
proof -
  have f: "find_fit (heap_fuel small_heap) small_heap 100 0 = Some (Some 0)"
    by (simp add: find_fit_step heap_fuel_def sub32_def)
  have c: "carve 0 100 small_heap\<lparr>lfree := 112\<rparr> = used_heap"
    by (simp add: carve_def insert_rest_def count_used_def set_used_def set_next_def set_prev_def Let_def sub32_def heap_end_def
        small_heap_def used_heap_def no_heap_def fun_upd_twist)
  have "hblk (carve 0 100 small_heap\<lparr>lfree := 112\<rparr>) = hblk used_heap" unfolding c ..
  then have b: "hblk (carve 0 100 small_heap) = hblk used_heap" by simp
  have "next_free (heap_fuel small_heap) (carve 0 100 small_heap) 0 = Some 112"
    by (simp add: next_free_step b heap_fuel_def)
  then show ?thesis
    using f c by (simp add: rt_malloc_def Let_def unat_align4)
qed

lemma used_reach: "heap_reach used_heap"
  by (rule heap_malloc[OF small_reach small_malloc])

lemma used_inv: "heap_inv used_heap [0, 112]"
  by (simp add: heap_inv_def heap_rep_def heap_end_def used_heap_def small_heap_def no_heap_def apart_def allocs_Cons bytes_of_def)

lemma used_allocated: "allocated used_heap = {(12, 100)}"
  using heap_okI[OF used_inv] by (simp add: allocs_Cons used_heap_def no_heap_def)

lemma used_malloc:
  assumes "sz \<noteq> 0" "unat (align4 sz) < 800"
  obtains h1 where "rt_malloc sz used_heap = Some (Some 124, h1)"
proof -
  have "find (fits used_heap (max (unat (align4 sz)) 12)) (filter (\<lambda>x. lfree used_heap \<le> x) [0, 112]) = Some 112"
    using assms(2) by (simp add: fits_def)
  then show ?thesis
    using malloc_takes[OF used_inv assms(1) _ refl, of 112] assms(2) that by auto
qed

lemma used_realloc: "\<exists>X. rt_realloc (Some 12) 200 used_heap = map_option (Pair (Some 124)) X"
proof (rule used_malloc[of "align4 200"])
  fix h1 assume "rt_malloc (align4 200) used_heap = Some (Some 124, h1)"
  then show ?thesis by (auto simp: rt_realloc_def Let_def unat_align4 sub32_def)
qed (simp_all add: unat_align4 word_unat_eq_iff)

section \<open>Properties\<close>

text \<open>C26: \<^verbatim>\<open>rt_malloc\<close> returns on every sound heap and for every size. It returns nothing and changes nothing, or it gives an aligned
  block inside the heap and apart from every block in use; the heap stays sound and the counter \<^verbatim>\<open>used_mem\<close> counts the block with its
  header. For a size up to \<open>0xfffffffc\<close> the block has at least the requested size and less than 36 bytes more; a larger size wraps to 0 when it
  is aligned, and the block has less than 36 bytes.\<close>

theorem heap_alloc:
  assumes "heap_ok h"
  shows "\<exists>r h'. rt_malloc sz h = Some (r, h') \<and> heap_ok h' \<and>
    (case r of None \<Rightarrow> h' = h
     | Some a \<Rightarrow> \<exists>n. (if unat sz \<le> 4294967292 then unat sz \<le> n \<and> n < unat sz + 36 else n < 36) \<and> a mod 4 = 0 \<and> a + n \<le> heap_end h \<and>
         allocated h' = insert (a, n) (allocated h) \<and> (\<forall>(b, m) \<in> allocated h. a + n \<le> b \<or> b + m \<le> a) \<and>
         used_mem h' = used_mem h + n + 12)"
proof (cases rule: malloc_ok[OF assms(1), of sz, case_names none block])
  case none
  then show ?thesis using assms(1) by simp
next
  case (block p h' n)
  have n: "if unat sz \<le> 4294967292 then unat sz \<le> n \<and> n < unat sz + 36 else n < 36"
  proof (cases "unat sz \<le> 4294967292")
    case True
    then have "unat sz \<le> unat (align4 sz)" "unat (align4 sz) < unat sz + 4" by (simp_all add: unat_align4)
    then have "unat sz \<le> n \<and> n < unat sz + 36" using block(4,5) by linarith
    with True show ?thesis by simp
  next
    case False
    then have "unat (align4 sz) = 0" using unsigned_less[of sz] by (simp add: unat_align4)
    with False block(5) show ?thesis by simp
  qed
  note s = heap_ok_seg[OF block(2)]
  have i: "(p + 12, n) \<in> allocated h'" by (simp add: block(3))
  have e: "heap_end h' = heap_end h" by (simp add: heap_end_def block(6))
  have "p \<in> set (blocks h')" using i by (auto simp: allocated_def allocs_iff)
  then have "p mod 4 = 0" using seg_aligned[OF s] by simp
  then have a: "(p + 12) mod 4 = 0" by presburger
  have "p + 12 + n \<le> heap_end h" using allocs_seg(2)[OF s i[unfolded allocated_def]] by (simp add: e)
  moreover have "\<forall>(b, m) \<in> allocated h. p + 12 + n \<le> b \<or> b + m \<le> p + 12"
  proof (intro ballI, clarify)
    fix b m assume b: "(b, m) \<in> allocated h" "\<not> b + m \<le> p + 12"
    then have "(b, m) \<in> allocated h'" "p + 12 \<noteq> b" using block(3,8) by auto
    then show "p + 12 + n \<le> b" using allocs_disjoint[OF s i[unfolded allocated_def]] b(2) by (fastforce simp: allocated_def)
  qed
  moreover have "used_mem h' = used_mem h + n + 12"
  proof -
    have "bytes_of (allocated h') = n + 12 + bytes_of (allocated h)"
      unfolding block(3) by (rule bytes_of_insert) (use block(8) in \<open>simp_all add: allocated_def\<close>)
    then show ?thesis using heap_ok_cases[OF assms(1)] heap_ok_cases[OF block(2)] by (metis add.assoc add.commute)
  qed
  ultimately show ?thesis using block(1,2,3) n a by auto
qed

lemma heap_alloc_witness:
  "\<exists>r h'. rt_malloc 40 used_heap = Some (r, h') \<and> heap_ok h'"
  using heap_alloc[OF heap_reach_ok[OF used_reach], of 40] by blast

text \<open>C27: On a heap the program can reach, by initialising it on a region of at least 36 bytes and taking, resizing and giving back what it has, every
  operation returns: the searches along the chain end and no assertion fails.\<close>

theorem heap_returns:
  assumes "heap_reach h"
  shows "rt_malloc sz h \<noteq> None \<and> rt_calloc c sz h \<noteq> None \<and> rt_free None h \<noteq> None \<and>
    (\<forall>(a, k) \<in> allocated h. rt_free (Some a) h \<noteq> None \<and> rt_realloc (Some a) sz h \<noteq> None)"
proof -
  note h = heap_reach_ok[OF assms]
  have "rt_malloc sz h \<noteq> None" by (cases rule: malloc_ok[OF h, of sz]) simp_all
  moreover have "rt_calloc c sz h \<noteq> None" by (cases rule: calloc_ok[OF h, of c sz]) simp_all
  moreover have "rt_free (Some a) h \<noteq> None" if "(a, k) \<in> allocated h" for a k by (rule free_ok[OF h that]) simp
  moreover have "rt_realloc (Some a) sz h \<noteq> None" if "(a, k) \<in> allocated h" for a k by (rule realloc_any[OF h that, of sz]) simp
  ultimately show ?thesis by (auto simp: rt_free_def)
qed

lemma heap_returns_witness:
  "rt_malloc 40 used_heap \<noteq> None \<and> rt_free (Some 12) used_heap \<noteq> None \<and> rt_realloc (Some 12) 40 used_heap \<noteq> None"
  using heap_returns[OF used_reach, of 40 0] used_allocated by auto

text \<open>C28: A block that is given back right after it was taken leaves the heap as it was: the same blocks in the same places,
  free and in use as before, and the same amount in use; what was split off is joined again.\<close>

theorem heap_free_restores:
  assumes "heap_ok h" "rt_malloc sz h = Some (Some a, h1)"
  shows "\<exists>h2. rt_free (Some a) h1 = Some h2 \<and> heap_ok h2 \<and> allocated h2 = allocated h \<and> blocks h2 = blocks h \<and>
    used_mem h2 = used_mem h \<and> (\<forall>x \<in> set (blocks h). h_next (hblk h2 x) = h_next (hblk h x))"
proof (cases rule: malloc_ok[OF assms(1), of sz, case_names none block])
  case none
  then show ?thesis using assms(2) by simp
next
  case (block p h' n)
  have h': "h' = h1" "a = p + 12" using block(1) assms(2) by simp_all
  have i: "(a, n) \<in> allocated h1" using block(3) h' by simp
  obtain h2 where h2: "rt_free (Some a) h1 = Some h2" "heap_ok h2" "allocated h2 = allocated h1 - {(a, n)}" "mem_size h2 = mem_size h1"
    by (rule free_ok[OF block(2)[unfolded h'] i])
  have al: "allocated h2 = allocated h" using h2(3) block(3,8) h' by auto
  have e: "heap_end h2 = heap_end h" using h2(4) block(6) h' by (simp add: heap_end_def)
  have ap: "apart (hblk h) (blocks h)" "apart (hblk h2) (blocks h2)" using assms(1) h2(2) by (simp_all add: heap_ok_def heap_inv_def)
  note u = layout_unique[OF heap_ok_seg[OF assms(1)] heap_ok_seg[OF h2(2), unfolded e] ap al[symmetric, unfolded allocated_def]]
  have "used_mem h2 = used_mem h" using heap_ok_cases[OF assms(1)] heap_ok_cases[OF h2(2)] al by metis
  then show ?thesis using h2(1,2) al u by auto
qed

lemma heap_free_restores_witness:
  "\<exists>h1 h2. rt_malloc 40 used_heap = Some (Some 124, h1) \<and> rt_free (Some 124) h1 = Some h2 \<and> blocks h2 = [0, 112]"
proof (rule used_malloc[of 40])
  fix h1 assume "rt_malloc 40 used_heap = Some (Some 124, h1)"
  then show ?thesis using heap_free_restores[OF heap_reach_ok[OF used_reach], of 40 124 h1] heap_inv_blocks[OF used_inv] by auto
qed (simp_all add: unat_align4)

text \<open>\<^verbatim>\<open>rt_realloc\<close> of a block to a size of at least one byte that the heap can hold returns nothing and changes nothing,
  or a block with at least the new size that has the old contents up to the smaller of the sizes; it takes the place of the
  old block, and the data of every other block stay what they are.\<close>

theorem heap_realloc_moves:
  assumes "heap_ok h" "(a, k) \<in> allocated h" "n = unat (align4 sz)" "0 < n" "n \<le> mem_size h"
  shows "rt_realloc (Some a) sz h = Some (None, h) \<or>
    (\<exists>a' h' k'. rt_realloc (Some a) sz h = Some (Some a', h') \<and> heap_ok h' \<and> n \<le> k' \<and>
       allocated h' = insert (a', k') (allocated h - {(a, k)}) \<and> (\<forall>i < min k n. hdata h' (a' + i) = hdata h (a + i)) \<and>
       (\<forall>(b, m) \<in> allocated h - {(a, k)}. \<forall>i < m. hdata h' (b + i) = hdata h (b + i)))"
  by (cases rule: realloc_ok[OF assms]) (simp, unfold moved_def, blast)

lemma heap_realloc_moves_witness:
  "\<exists>h'. rt_realloc (Some 12) 200 used_heap = Some (Some 124, h') \<and> (\<forall>i < 100. hdata h' (124 + i) = of_nat (12 + i))"
proof -
  have a: "(12, 100) \<in> allocated used_heap" "(200::nat) = unat (align4 200)" "0 < (200::nat)" "200 \<le> mem_size used_heap"
    by (simp_all add: used_allocated unat_align4)
  obtain X where "rt_realloc (Some 12) 200 used_heap = map_option (Pair (Some 124)) X" using used_realloc ..
  then show ?thesis using heap_realloc_moves[OF heap_reach_ok[OF used_reach] a] by (cases X) auto
qed

text \<open>The search takes the first free block from \<^verbatim>\<open>lfree\<close> on that is large enough and starts before the offset
  \<open>mem_size - n\<close>, and fails when there is none; the last bytes of the heap are never an exact fit.\<close>

theorem heap_first_fit:
  assumes "heap_ok h" "sz \<noteq> 0" "unat (align4 sz) \<le> mem_size h" "n = max (unat (align4 sz)) 12"
  shows "map_option fst (rt_malloc sz h) =
    Some (map_option (\<lambda>p. p + 12) (find (\<lambda>p. p < mem_size h - n \<and> h_used (hblk h p) = 0 \<and> n \<le> h_next (hblk h p) - (p + 12))
      (filter (\<lambda>p. lfree h \<le> p) (blocks h))))"
proof -
  have r: "heap_inv h (blocks h)" using assms(1) by (simp add: heap_ok_def)
  have "map_option fst (rt_malloc sz h) = Some (map_option (\<lambda>p. p + 12) (find (fits h n) (filter (\<lambda>p. lfree h \<le> p) (blocks h))))"
  proof (cases "find (fits h n) (filter (\<lambda>p. lfree h \<le> p) (blocks h))")
    case None
    then show ?thesis using malloc_fails[OF r assms(2,3)] assms(4) by simp
  next
    case (Some p)
    show ?thesis by (rule malloc_takes[OF r assms(2,3,4) Some]) (simp add: Some)
  qed
  then show ?thesis unfolding fits_def[abs_def] .
qed

lemma heap_first_fit_witness: "map_option fst (rt_malloc 1000 small_heap) = Some None"
proof -
  have a: "(1000::u32) \<noteq> 0" "unat (align4 1000) \<le> mem_size small_heap" "1000 = max (unat (align4 1000)) 12"
    by (simp_all add: unat_align4)
  show ?thesis using heap_first_fit[OF heap_reach_ok[OF small_reach] a] heap_inv_blocks[OF small_inv] by simp
qed

text \<open>A size above \<open>0xfffffffc\<close> wraps to 0 when it is aligned, so the request is not refused: the block that is given
  has less than 36 bytes.\<close>

theorem heap_size_wraps:
  assumes "heap_ok h" "4294967292 < unat sz" "rt_malloc sz h = Some (Some a, h')"
  shows "\<exists>n < 36. allocated h' = insert (a, n) (allocated h) \<and> (a, n) \<notin> allocated h"
proof (cases rule: malloc_ok[OF assms(1), of sz, case_names none block])
  case none
  then show ?thesis using assms(3) by simp
next
  case (block p h1 n)
  have "unat (align4 sz) = 0" using assms(2) by (simp add: unat_align4)
  then show ?thesis using block assms(3) by (intro exI[of _ n]) auto
qed

lemma heap_size_wraps_witness:
  "\<exists>h' n. rt_malloc 0xffffffff small_heap = Some (Some 12, h') \<and> n < 36 \<and> allocated h' = {(12, n)}"
proof -
  have f: "find (fits small_heap (max (unat (align4 0xffffffff)) 12)) (filter (\<lambda>x. lfree small_heap \<le> x) [0]) = Some 0"
    by (simp add: fits_def unat_align4)
  obtain h' where h': "rt_malloc 0xffffffff small_heap = Some (Some 12, h')"
    by (rule malloc_takes[OF small_inv _ _ refl f]) (auto simp: unat_align4)
  have "allocated small_heap = {}" using heap_okI[OF small_inv] by (simp add: allocs_Cons)
  then show ?thesis using h' heap_size_wraps[OF heap_reach_ok[OF small_reach] _ h'] by auto
qed

text \<open>When \<^verbatim>\<open>rt_realloc\<close> cuts a block below \<open>lfree\<close> whose next block is in use, the rest becomes a free block
  below \<open>lfree\<close>, which is not moved: the search of \<^verbatim>\<open>rt_malloc\<close>, which starts at \<open>lfree\<close>, does not see it.\<close>

theorem heap_shrink_hides:
  assumes "heap_ok h" "(a, k) \<in> allocated h" "n = unat (align4 sz)" "0 < n" "n + 24 < k"
    "h_used (hblk h (a + k)) \<noteq> 0" "a < lfree h"
  shows "\<exists>h'. rt_realloc (Some a) sz h = Some (Some a, h') \<and> h_next (hblk h' (a - 12)) = a + n \<and> h_used (hblk h' (a + n)) = 0 \<and>
    h_next (hblk h' (a + n)) = a + k \<and> a + n < lfree h' \<and> lfree h' = lfree h"
proof -
  obtain p where p: "a = p + 12" "k = h_next (hblk h p) - (p + 12)" "p \<in> set (blocks h)" "h_used (hblk h p) \<noteq> 0"
    using assms(2) by (auto simp: allocated_def allocs_iff)
  have rep: "heap_rep h (blocks h)" using assms(1) by (simp add: heap_ok_def heap_inv_def)
  note D = heap_repD[OF rep]
  have N: "p + 12 < h_next (hblk h p)" "h_next (hblk h p) \<le> heap_end h" using seg_mem[OF D(1) p(3)] by simp_all
  have w: "sub32 (h_next (hblk h p)) (p + 12) = k" using N D(3) p(2) by (simp add: sub32_le)
  have ak: "a + k = h_next (hblk h p)" using N p(1,2) by simp
  define g where "g = h\<lparr>used_mem := sub32 (used_mem h) (k - n)\<rparr>"
  define h2 where "h2 = insert_rest p n g"
  have g: "hblk g = hblk h" "heap_end g = heap_end h" "lfree g = lfree h" by (simp_all add: g_def heap_end_def)
  have q: "p + 12 + n < h_next (hblk g p)" using assms(5) ak p(1) by (simp add: g)
  note K = insert_rest_simps[OF q, folded h2_def, unfolded g]
  have le: "h_next (hblk h p) \<le> lfree h"
    using rep seg_order[OF D(1) p(3), of "lfree h"] N(2) assms(7) p(1) by (auto simp: heap_rep_def)
  have "h_used (hblk h2 (a + k)) \<noteq> 0" using assms(5,6) by (simp add: K p(1))
  moreover have "h_used (hblk h2 p) \<noteq> 0" using p(4) assms(4) by (simp add: K)
  moreover have "p + 12 + n \<noteq> h_next (hblk h p)" "p + 12 + n < heap_end h" using assms(5) ak p(1) N(2) by simp_all
  ultimately have "plug_holes (p + 12 + n) h2 = Some h2" using assms(4) ak by (simp add: plug_holes_def K Let_def)
  then have s: "shrink p k n h = Some h2" by (simp add: shrink_def h2_def g_def)
  have "n \<le> mem_size h" using assms(5) ak N(2) by (simp add: heap_end_def)
  then have c: "a - 12 = p" "a < heap_end h" "\<not> a < 12" "\<not> mem_size h < n" "n \<noteq> 0" "k \<noteq> n" "n + 24 < k"
    using N p(1) assms(4,5) ak by simp_all
  have "rt_realloc (Some a) sz h = Some (Some a, h2)"
    unfolding rt_realloc_def Let_def assms(3)[symmetric] option.case c(1) w s by (simp add: c)
  moreover have "h_next (hblk h2 p) = a + n" "h_used (hblk h2 (a + n)) = 0" "h_next (hblk h2 (a + n)) = a + k"
    using assms(4) ak by (simp_all add: K p(1))
  ultimately show ?thesis using c(1,7) le ak by (auto simp: K)
qed

text \<open>Two blocks of 100 bytes, the first of which is cut to 12.\<close>

lemma full_heap:
  obtains h where "heap_inv h [0, 112, 224]" "hblk h 0 = \<lparr>h_magic = HEAP_MAGIC, h_used = 1, h_next = 112, h_prev = 0\<rparr>"
    "h_used (hblk h 112) = 1" "lfree h = 224"
proof -
  let ?h = "small_heap\<lparr>lfree := 224, used_mem := 224, max_mem := 224,
     hblk := (hblk no_heap)(0 := \<lparr>h_magic = HEAP_MAGIC, h_used = 1, h_next = 112, h_prev = 0\<rparr>,
       112 := \<lparr>h_magic = HEAP_MAGIC, h_used = 1, h_next = 224, h_prev = 0\<rparr>,
       224 := \<lparr>h_magic = HEAP_MAGIC, h_used = 0, h_next = 1012, h_prev = 112\<rparr>,
       1012 := \<lparr>h_magic = HEAP_MAGIC, h_used = 1, h_next = 1012, h_prev = 224\<rparr>)\<rparr>"
  have "heap_inv ?h [0, 112, 224]"
    by (simp add: heap_inv_def heap_rep_def heap_end_def small_heap_def no_heap_def apart_def allocs_Cons bytes_of_def)
  then show ?thesis by (rule that) simp_all
qed

lemma heap_shrink_hides_witness:
  "\<exists>h h'. rt_realloc (Some 12) 12 h = Some (Some 12, h') \<and> h_used (hblk h' 24) = 0 \<and> lfree h' = 224"
proof (rule full_heap)
  fix h assume h: "heap_inv h [0, 112, 224]" "hblk h 0 = \<lparr>h_magic = HEAP_MAGIC, h_used = 1, h_next = 112, h_prev = 0\<rparr>"
    "h_used (hblk h 112) = 1" "lfree h = 224"
  have a: "heap_ok h" "(12, 100) \<in> allocated h" using heap_okI[OF h(1)] h(2) by (auto simp: allocs_iff)
  have "(12::nat) = unat (align4 12)" by (simp add: unat_align4)
  from heap_shrink_hides[OF a this] show ?thesis using h by auto
qed

end
