(* ===== verification/Object.thy ===== *)
theory Object
  imports DList Kstep Mem
begin

text \<open>
  The object container of \<^verbatim>\<open>src/object.c\<close>: for each class of kernel objects a list of the objects of that class, on the
  pointers of theory \<open>DList\<close>. An object lies in the static data of the program or in the heap; a pointer to it is its list
  node. Searches hold the scheduler lock. A result \<open>None\<close> of an operation is a failed assertion or a loop that does not end.
  The sizes of the structures of the classes are an argument.
\<close>

section \<open>Data\<close>

text \<open>A node is the list head of a class, or an object of the static data or of the heap.\<close>

datatype onode = Head nat | Sobj nat | Hobj nat

record rt_object =
  o_name :: "u8 list"
  o_type :: u8
  o_flag :: u8

record osys =
  olinks :: "onode lheap"
  obj :: "onode \<Rightarrow> rt_object"
  oheap :: heap
  okern :: kernel

abbreviation (input) RT_ENOSYS :: int where "RT_ENOSYS \<equiv> 6"
abbreviation (input) RT_Object_Class_Unknown :: u8 where "RT_Object_Class_Unknown \<equiv> 12"

text \<open>The classes of \<^verbatim>\<open>rt_object_container\<close>: thread, semaphore, mutex, event, mailbox, message queue, memory heap, memory
  pool, device, timer.\<close>

definition container_types :: "u8 list" where "container_types = [1, 2, 3, 4, 5, 6, 7, 8, 9, 10]"

section \<open>Operations\<close>

definition rt_object_get_information :: "u8 \<Rightarrow> nat option" where
  "rt_object_get_information ty = find (\<lambda>i. container_types ! i = ty) [0 ..< length container_types]"

text \<open>The walk along a list that looks for the object itself; \<open>Some False\<close> is the failed assertion.\<close>

partial_function (option) absent_loop :: "onode lheap \<Rightarrow> onode \<Rightarrow> onode \<Rightarrow> onode \<Rightarrow> bool option" where
  "absent_loop l hn x node =
     (if node = hn then Some True else if node = x then Some False else absent_loop l hn x (nxt l node))"

definition rt_object_init :: "onode \<Rightarrow> u8 \<Rightarrow> u8 list \<Rightarrow> osys \<Rightarrow> osys option" where
  "rt_object_init x ty name s =
     (case rt_object_get_information ty of
        None \<Rightarrow> None
      | Some i \<Rightarrow>
          let s1 = s\<lparr>okern := rt_enter_critical (okern s)\<rparr>
          in if absent_loop (olinks s1) (Head i) x (nxt (olinks s1) (Head i)) \<noteq> Some True then None
             else
               let s2 = s1\<lparr>okern := rt_exit_critical (okern s1)\<rparr>;
                   s3 = s2\<lparr>obj := (obj s2)(x := (obj s2 x)\<lparr>o_type := ty OR RT_Object_Class_Static, o_name := rt_strncpy name 8\<rparr>)\<rparr>
               in Some (s3\<lparr>olinks := rt_list_insert_after (Head i) x (olinks s3)\<rparr>))"

definition rt_object_detach :: "onode \<Rightarrow> osys \<Rightarrow> osys" where
  "rt_object_detach x s =
     (let s1 = s\<lparr>obj := (obj s)(x := (obj s x)\<lparr>o_type := 0\<rparr>)\<rparr>
      in s1\<lparr>olinks := rt_list_remove x (olinks s1)\<rparr>)"

definition rt_object_allocate :: "(u8 \<Rightarrow> u32) \<Rightarrow> u8 \<Rightarrow> u8 list \<Rightarrow> osys \<Rightarrow> (onode option \<times> osys) option" where
  "rt_object_allocate object_size ty name s =
     (if int_nest (okern s) \<noteq> 0 then None
      else case rt_object_get_information ty of
        None \<Rightarrow> None
      | Some i \<Rightarrow>
          (case rt_malloc (object_size ty) (oheap s) of
             None \<Rightarrow> None
           | Some (None, hp) \<Rightarrow> Some (None, s\<lparr>oheap := hp\<rparr>)
           | Some (Some a, hp) \<Rightarrow>
               let hp1 = hp\<lparr>hdata := rt_memset a 0 (unat (object_size ty)) (hdata hp)\<rparr>;
                   s1 = s\<lparr>oheap := hp1, obj := (obj s)(Hobj a := \<lparr>o_name = rt_strncpy name 8, o_type = ty, o_flag = 0\<rparr>)\<rparr>
               in Some (Some (Hobj a), s1\<lparr>olinks := rt_list_insert_after (Head i) (Hobj a) (olinks s1)\<rparr>)))"

text \<open>Only a pointer into the heap can be freed, and not from an interrupt.\<close>

definition kernel_free :: "onode \<Rightarrow> heap \<Rightarrow> heap option" where
  "kernel_free x hp = (case x of Hobj a \<Rightarrow> rt_free (Some a) hp | _ \<Rightarrow> None)"

definition rt_object_delete :: "onode \<Rightarrow> osys \<Rightarrow> osys option" where
  "rt_object_delete x s =
     (if rt_object_is_systemobject (o_type (obj s x)) then None
      else
        let s1 = rt_object_detach x s
        in if int_nest (okern s1) \<noteq> 0 then None
           else case kernel_free x (oheap s1) of None \<Rightarrow> None | Some hp \<Rightarrow> Some (s1\<lparr>oheap := hp\<rparr>))"

partial_function (option) find_loop :: "osys \<Rightarrow> onode \<Rightarrow> u8 list \<Rightarrow> onode \<Rightarrow> onode option option" where
  "find_loop s hn name node =
     (if node = hn then Some None
      else if rt_strncmp (o_name (obj s node)) name 8 = 0 then Some (Some node)
      else find_loop s hn name (nxt (olinks s) node))"

definition rt_object_find :: "u8 list option \<Rightarrow> u8 \<Rightarrow> osys \<Rightarrow> (onode option \<times> osys) option" where
  "rt_object_find name ty s =
     (case name of
        None \<Rightarrow> Some (None, s)
      | Some nm \<Rightarrow>
          if ty > RT_Object_Class_Unknown then Some (None, s)
          else if int_nest (okern s) \<noteq> 0 then None
          else
            let s1 = s\<lparr>okern := rt_enter_critical (okern s)\<rparr>
            in case rt_object_get_information ty of
                 None \<Rightarrow> None
               | Some i \<Rightarrow>
                   (case find_loop s1 (Head i) nm (nxt (olinks s1) (Head i)) of
                      None \<Rightarrow> None
                    | Some r \<Rightarrow> Some (r, s1\<lparr>okern := rt_exit_critical (okern s1)\<rparr>)))"

section \<open>Names\<close>

lemma rt_strncmp_zero: "rt_strncmp cs ct n = 0 \<longleftrightarrow> rt_strncpy cs n = rt_strncpy ct n"
proof (induction cs ct n rule: rt_strncmp.induct)
  case (2 cs ct n)
  have "sint (nul cs - nul ct) = 0 \<longleftrightarrow> nul cs = nul ct" by (metis right_minus_eq signed_0 signed_eq_0_iff)
  then show ?case using 2 by (auto simp: Let_def)
qed simp

lemma rt_strncpy_length [simp]: "length (rt_strncpy s n) = n"
  by (induction n arbitrary: s) auto

lemma rt_strncpy_Nil [simp]: "rt_strncpy [] n = replicate n 0"
  by (cases n) (simp_all add: nul_def)

lemma rt_strncpy_zeros: "rt_strncpy (replicate m 0) n = replicate n 0"
  by (cases n; cases m) (simp_all add: nul_def)

lemma rt_strncpy_idem [simp]: "rt_strncpy (rt_strncpy s n) n = rt_strncpy s n"
proof (induction n arbitrary: s)
  case (Suc n)
  then show ?case by (cases "nul s = 0") (simp_all add: nul_def[of "_ # _"] rt_strncpy_zeros)
qed simp

section \<open>Walks\<close>

lemma absent_loop_lseg:
  "lseg l p xs h \<Longrightarrow> h \<notin> set xs \<Longrightarrow> absent_loop l h x (nxt l p) = Some (x \<notin> set xs)"
proof (induction xs arbitrary: p)
  case Nil
  then show ?case by (subst absent_loop.simps) simp
next
  case (Cons y ys)
  then have "absent_loop l h x (nxt l y) = Some (x \<notin> set ys)" "nxt l p = y" "y \<noteq> h" by auto
  then show ?case by (subst absent_loop.simps) auto
qed

lemma find_loop_lseg:
  "lseg (olinks s) p xs h \<Longrightarrow> h \<notin> set xs \<Longrightarrow>
     find_loop s h name (nxt (olinks s) p) = Some (find (\<lambda>x. rt_strncmp (o_name (obj s x)) name 8 = 0) xs)"
proof (induction xs arbitrary: p)
  case Nil
  then show ?case by (subst find_loop.simps) simp
next
  case (Cons y ys)
  then have "find_loop s h name (nxt (olinks s) y) = Some (find (\<lambda>x. rt_strncmp (o_name (obj s x)) name 8 = 0) ys)"
    "nxt (olinks s) p = y" "y \<noteq> h" by auto
  then show ?case by (subst find_loop.simps) auto
qed

section \<open>The invariant\<close>

text \<open>\<open>cs i\<close> are the objects in the list of the class with index \<open>i\<close>, the latest first.\<close>

definition rings :: "onode lheap \<Rightarrow> (nat \<Rightarrow> onode list) \<Rightarrow> bool" where
  "rings l cs \<longleftrightarrow> (\<forall>i < 10. dring l (Head i) (cs i)) \<and> (\<forall>i < 10. \<forall>j. Head j \<notin> set (cs i)) \<and>
     (\<forall>i < 10. \<forall>j < 10. i \<noteq> j \<longrightarrow> set (cs i) \<inter> set (cs j) = {})"

definition obj_ok :: "osys \<Rightarrow> u8 \<Rightarrow> onode \<Rightarrow> bool" where
  "obj_ok s ty x \<longleftrightarrow> rt_strncpy (o_name (obj s x)) 8 = o_name (obj s x) \<and>
     (case x of Head _ \<Rightarrow> False
      | Sobj _ \<Rightarrow> o_type (obj s x) = ty OR RT_Object_Class_Static
      | Hobj a \<Rightarrow> o_type (obj s x) = ty \<and> a \<in> fst ` allocated (oheap s))"

definition obj_inv :: "osys \<Rightarrow> (nat \<Rightarrow> onode list) \<Rightarrow> bool" where
  "obj_inv s cs \<longleftrightarrow> rings (olinks s) cs \<and> (\<forall>i < 10. \<forall>x \<in> set (cs i). obj_ok s (container_types ! i) x) \<and>
     heap_ok (oheap s) \<and> ksys (okern s)"

lemma container_types_length [simp]: "length container_types = 10"
  by (simp add: container_types_def)

lemma rings_disjoint: "rings l cs \<Longrightarrow> i < 10 \<Longrightarrow> j < 10 \<Longrightarrow> i \<noteq> j \<Longrightarrow> x \<in> set (cs i) \<Longrightarrow> x \<notin> set (cs j)"
  unfolding rings_def by blast

lemma rings_head: "rings l cs \<Longrightarrow> i < 10 \<Longrightarrow> Head j \<notin> set (cs i)"
  unfolding rings_def by blast

lemma get_information:
  "rt_object_get_information ty = Some i \<Longrightarrow> i < 10 \<and> container_types ! i = ty"
proof -
  assume "rt_object_get_information ty = Some i"
  then obtain k where "k < length [0 ..< 10 :: nat]" "container_types ! ([0 ..< 10] ! k) = ty" "i = [0 ..< 10] ! k"
    unfolding rt_object_get_information_def find_Some_iff container_types_length by blast
  then show ?thesis by simp
qed

lemma class_bound: "rt_object_get_information ty = Some i \<Longrightarrow> \<not> 12 < ty"
proof -
  assume "rt_object_get_information ty = Some i"
  then have "ty \<in> set container_types" using get_information[of ty i] nth_mem[of i container_types] by simp
  then show ?thesis by (auto simp: container_types_def)
qed

text \<open>The scheduler leaves the nesting of interrupts alone.\<close>

lemma nest_schedule: "int_nest (rt_schedule s) = int_nest s"
  by (auto simp: rt_schedule_def rt_schedule_insert_thread_def rt_schedule_remove_thread_def set_stat_def upd_thr_def list_remove_def
    list_insert_before_def fail_def Let_def split: option.splits)

lemma nest_critical: "int_nest (rt_enter_critical s) = int_nest s" "int_nest (rt_exit_critical s) = int_nest s"
  by (simp_all add: rt_enter_critical_def rt_exit_critical_def Let_def nest_schedule)

lemma container_cases: "i < 10 \<Longrightarrow> i \<in> {0, 1, 2, 3, 4, 5, 6, 7, 8, 9 :: nat}"
  by auto

lemma container_types_inj: "i < 10 \<Longrightarrow> rt_object_get_information (container_types ! i) = Some i"
  by (drule container_cases) (auto simp: rt_object_get_information_def container_types_def upt_conv_Cons)

lemma container_static: "i < 10 \<Longrightarrow> rt_object_get_type (container_types ! i OR RT_Object_Class_Static) = container_types ! i \<and>
    rt_object_get_type (container_types ! i) = container_types ! i \<and> \<not> rt_object_is_systemobject (container_types ! i)"
  by (drule container_cases) (auto simp: rt_object_get_type_def rt_object_is_systemobject_def container_types_def)

lemma dring_neighbours:
  assumes "dring l h (us @ x # vs)"
  shows "nxt l x \<in> set (h # us @ vs)" "prv l x \<in> set (h # us @ vs)"
proof -
  have s: "lseg l h us x" "lseg l x vs h" using assms by (auto simp: dring_def lseg_append)
  have "nxt l x = hd (vs @ [h])" by (rule lseg_nxt_start[OF s(2)])
  then show "nxt l x \<in> set (h # us @ vs)" by (cases vs) auto
  have "prv l x = last (h # us)" by (rule lseg_prv_end[OF s(1)])
  then show "prv l x \<in> set (h # us @ vs)" using last_in_set[of "h # us"] by auto
qed

lemma dring_first: "dring l h xs \<Longrightarrow> nxt l h \<in> set (h # xs)"
  by (cases xs) (auto simp: dring_def)

lemma rings_insert:
  assumes r: "rings l cs" and i: "i < 10" and x: "\<forall>j < 10. x \<notin> set (cs j)" "\<forall>j. x \<noteq> Head j"
  shows "rings (rt_list_insert_after (Head i) x l) (cs(i := x # cs i))"
proof -
  have d: "dring l (Head j) (cs j)" if "j < 10" for j using r that by (simp add: rings_def)
  have "dring (rt_list_insert_after (Head i) x l) (Head j) ((cs(i := x # cs i)) j)" if j: "j < 10" for j
  proof (cases "j = i")
    case True
    then show ?thesis using dring_insert_after[OF d[OF i], of x] x i by auto
  next
    case False
    have "nxt l (Head i) \<in> set (Head i # cs i)" by (rule dring_first[OF d[OF i]])
    then have "nxt l (Head i) \<notin> set (Head j # cs j)" "Head i \<notin> set (Head j # cs j)"
      using rings_disjoint[OF r i j] rings_head[OF r] i j False by auto
    then have "dring (rt_list_insert_after (Head i) x l) (Head j) (cs j)"
      using x j by (intro dring_insert_after_frame d) auto
    then show ?thesis using False by simp
  qed
  then show ?thesis using r x i unfolding rings_def by auto
qed

lemma rings_remove:
  assumes r: "rings l cs" and i: "i < 10" and x: "x \<in> set (cs i)"
  shows "rings (rt_list_remove x l) (cs(i := remove1 x (cs i)))"
proof -
  have d: "dring l (Head j) (cs j)" if "j < 10" for j using r that by (simp add: rings_def)
  obtain us vs where c: "cs i = us @ x # vs" "x \<notin> set us" using split_list_first[OF x] by blast
  have c': "remove1 x (cs i) = us @ vs" using c by (simp add: remove1_append)
  note nb = dring_neighbours[OF d[OF i, unfolded c(1)]]
  have f1: "dring (rt_list_remove x l) (Head j) ((cs(i := us @ vs)) j)" if j: "j < 10" for j
  proof (cases "j = i")
    case True
    then show ?thesis using dring_remove[OF d[OF i, unfolded c(1)]] by simp
  next
    case False
    have dj: "y \<notin> set (Head j # cs j)" if "y \<in> set (Head i # cs i)" for y
      using that rings_disjoint[OF r i j, of y] rings_head[OF r i, of j] rings_head[OF r j, of i] False by auto
    have "x \<notin> set (Head j # cs j)" by (rule dj) (simp add: x)
    moreover have "nxt l x \<notin> set (Head j # cs j)" by (rule dj) (use nb(1) in \<open>simp add: c(1), blast\<close>)
    moreover have "prv l x \<notin> set (Head j # cs j)" by (rule dj) (use nb(2) in \<open>simp add: c(1), blast\<close>)
    ultimately have "dring (rt_list_remove x l) (Head j) (cs j)" by (intro dring_remove_frame d j)
    then show ?thesis using False by simp
  qed
  have sub: "set ((cs(i := us @ vs)) j) \<subseteq> set (cs j)" for j using c(1) by auto
  have f2: "Head k \<notin> set ((cs(i := us @ vs)) j)" if "j < 10" for j k using sub[of j] rings_head[OF r that] by blast
  have f3: "set ((cs(i := us @ vs)) j) \<inter> set ((cs(i := us @ vs)) k) = {}" if "j < 10" "k < 10" "j \<noteq> k" for j k
    using sub[of j] sub[of k] rings_disjoint[OF r that] by blast
  show ?thesis unfolding rings_def c' by (intro conjI allI impI f1 f2 f3)
qed

lemma rings_distinct: "rings l cs \<Longrightarrow> i < 10 \<Longrightarrow> distinct (cs i)"
  by (simp add: rings_def dring_def)

section \<open>What the operations do\<close>

lemma obj_ok_frame: "obj s' y = obj s y \<Longrightarrow> fst ` allocated (oheap s) \<subseteq> fst ` allocated (oheap s') \<Longrightarrow> obj_ok s ty y \<Longrightarrow> obj_ok s' ty y"
  by (auto simp: obj_ok_def split: onode.splits)

lemma obj_ok_okern [simp]: "obj_ok (s\<lparr>okern := k\<rparr>) ty x = obj_ok s ty x"
  by (simp add: obj_ok_def split: onode.split)

lemma obj_invD: "obj_inv s cs \<Longrightarrow> i < 10 \<Longrightarrow> x \<in> set (cs i) \<Longrightarrow> obj_ok s (container_types ! i) x"
  by (simp add: obj_inv_def)

lemma object_init_adds:
  assumes inv: "obj_inv s cs" and ty: "rt_object_get_information ty = Some i" and x: "x = Sobj n" "\<forall>j < 10. x \<notin> set (cs j)"
  obtains s' where "rt_object_init x ty name s = Some s'" "obj_inv s' (cs(i := x # cs i))"
    "o_name (obj s' x) = rt_strncpy name 8" "\<forall>y. y \<noteq> x \<longrightarrow> obj s' y = obj s y"
proof -
  have i: "i < 10" "container_types ! i = ty" using get_information[OF ty] by simp_all
  have r: "rings (olinks s) cs" using inv by (simp add: obj_inv_def)
  have a: "absent_loop (olinks s) (Head i) x (nxt (olinks s) (Head i)) = Some True"
    using absent_loop_lseg[of "olinks s" "Head i" "cs i" "Head i" x] r i x(2) by (simp add: rings_def dring_def)
  let ?s = "s\<lparr>okern := rt_exit_critical (rt_enter_critical (okern s)),
      obj := (obj s)(x := (obj s x)\<lparr>o_type := ty OR RT_Object_Class_Static, o_name := rt_strncpy name 8\<rparr>),
      olinks := rt_list_insert_after (Head i) x (olinks s)\<rparr>"
  have run: "rt_object_init x ty name s = Some ?s" using ty a by (simp add: rt_object_init_def Let_def)
  have "rings (olinks ?s) (cs(i := x # cs i))" using rings_insert[OF r i(1) x(2)] x(1) by simp
  moreover have "obj_ok ?s (container_types ! j) y" if "j < 10" "y \<in> set ((cs(i := x # cs i)) j)" for j y
  proof (cases "y = x")
    case True
    then have "j = i" using that x(2) by (auto split: if_splits)
    then show ?thesis using True i(2) by (simp add: obj_ok_def x(1))
  next
    case False
    then have "y \<in> set (cs j)" using that by (auto split: if_splits)
    then show ?thesis using obj_ok_frame[OF _ _ obj_invD[OF inv that(1)]] False by simp
  qed
  moreover have "ksys (okern ?s)" using inv ksys_critical by (simp add: obj_inv_def)
  ultimately have "obj_inv ?s (cs(i := x # cs i))" using inv by (simp add: obj_inv_def)
  then show ?thesis using that[OF run] by simp
qed

lemma object_twice_fails:
  assumes inv: "obj_inv s cs" and ty: "rt_object_get_information ty = Some i" and x: "x \<in> set (cs i)"
  shows "rt_object_init x ty name s = None"
proof -
  have "rings (olinks s) cs" "i < 10" using inv get_information[OF ty] by (simp_all add: obj_inv_def)
  then have "absent_loop (olinks s) (Head i) x (nxt (olinks s) (Head i)) = Some False"
    using absent_loop_lseg[of "olinks s" "Head i" "cs i" "Head i" x] x by (simp add: rings_def dring_def)
  then show ?thesis using ty by (simp add: rt_object_init_def Let_def)
qed

lemma object_detach_removes:
  assumes inv: "obj_inv s cs" and i: "i < 10" and x: "x \<in> set (cs i)"
  shows "obj_inv (rt_object_detach x s) (cs(i := remove1 x (cs i)))"
proof -
  have r: "rings (olinks s) cs" using inv by (simp add: obj_inv_def)
  have "x \<notin> set ((cs(i := remove1 x (cs i))) j)" if "j < 10" for j
    using rings_disjoint[OF r i that] x rings_distinct[OF r i] by auto
  note gone = this
  have "obj_ok (rt_object_detach x s) (container_types ! j) y" if y: "j < 10" "y \<in> set ((cs(i := remove1 x (cs i))) j)" for j y
  proof -
    have "y \<noteq> x" "y \<in> set (cs j)" using gone[OF y(1)] y(2) set_remove1_subset[of x "cs i"] by (auto split: if_splits)
    then show ?thesis using obj_ok_frame[OF _ _ obj_invD[OF inv y(1)]] by (simp add: rt_object_detach_def Let_def)
  qed
  then show ?thesis
    using rings_remove[OF r i x] inv by (simp add: obj_inv_def rt_object_detach_def Let_def)
qed

lemma object_allocate_adds:
  assumes inv: "obj_inv s cs" and ty: "rt_object_get_information ty = Some i" and nest: "int_nest (okern s) = 0"
  obtains (none) "rt_object_allocate sizes ty name s = Some (None, s)"
  | (object) a s' where "rt_object_allocate sizes ty name s = Some (Some (Hobj a), s')" "obj_inv s' (cs(i := Hobj a # cs i))"
      "o_name (obj s' (Hobj a)) = rt_strncpy name 8" "\<forall>j < 10. Hobj a \<notin> set (cs j)"
proof -
  have i: "i < 10" "container_types ! i = ty" using get_information[OF ty] by simp_all
  have r: "rings (olinks s) cs" and h: "heap_ok (oheap s)" using inv by (simp_all add: obj_inv_def)
  show ?thesis
  proof (cases rule: malloc_ok[OF h, of "sizes ty", case_names none block])
    case none
    show ?thesis by (rule that(1)) (simp add: rt_object_allocate_def ty none nest)
  next
    case (block p hp n)
    let ?a = "p + 12"
    let ?hp = "hp\<lparr>hdata := rt_memset ?a 0 (unat (sizes ty)) (hdata hp)\<rparr>"
    let ?s = "s\<lparr>oheap := ?hp, obj := (obj s)(Hobj ?a := \<lparr>o_name = rt_strncpy name 8, o_type = ty, o_flag = 0\<rparr>),
        olinks := rt_list_insert_after (Head i) (Hobj ?a) (olinks s)\<rparr>"
    have run: "rt_object_allocate sizes ty name s = Some (Some (Hobj ?a), ?s)" by (simp add: rt_object_allocate_def ty block(1) nest)
    have new: "\<forall>j < 10. Hobj ?a \<notin> set (cs j)"
    proof (intro allI impI notI)
      fix j assume "j < 10" "Hobj ?a \<in> set (cs j)"
      then have "?a \<in> fst ` allocated (oheap s)" using obj_invD[OF inv] by (fastforce simp: obj_ok_def)
      then show False using block(8) by auto
    qed
    have hp: "heap_ok ?hp" "allocated ?hp = insert (?a, n) (allocated (oheap s))" using heap_ok_hdata[OF block(2)] block(3) by simp_all
    have "rings (olinks ?s) (cs(i := Hobj ?a # cs i))" using rings_insert[OF r i(1) new] by simp
    moreover have "obj_ok ?s (container_types ! j) y" if "j < 10" "y \<in> set ((cs(i := Hobj ?a # cs i)) j)" for j y
    proof (cases "y = Hobj ?a")
      case True
      then have "j = i" using that new by (auto split: if_splits)
      then show ?thesis using True i(2) hp(2) by (simp add: obj_ok_def)
    next
      case False
      then have "y \<in> set (cs j)" using that by (auto split: if_splits)
      moreover have "fst ` allocated (oheap s) \<subseteq> fst ` allocated (oheap ?s)" using hp(2) by auto
      ultimately show ?thesis using obj_ok_frame[OF _ _ obj_invD[OF inv that(1)]] False by simp
    qed
    ultimately have "obj_inv ?s (cs(i := Hobj ?a # cs i))" using inv hp(1) by (simp add: obj_inv_def)
    then show ?thesis using that(2)[OF run _ _ new] by simp
  qed
qed

lemma object_delete_removes:
  assumes inv: "obj_inv s cs" and i: "i < 10" and x: "Hobj a \<in> set (cs i)" and nest: "int_nest (okern s) = 0"
  obtains s' k where "rt_object_delete (Hobj a) s = Some s'" "obj_inv s' (cs(i := remove1 (Hobj a) (cs i)))"
    "(a, k) \<in> allocated (oheap s)" "allocated (oheap s') = allocated (oheap s) - {(a, k)}"
proof -
  let ?x = "Hobj a" and ?cs = "cs(i := remove1 (Hobj a) (cs i))"
  let ?s1 = "rt_object_detach ?x s"
  have o: "o_type (obj s ?x) = container_types ! i" "a \<in> fst ` allocated (oheap s)"
    using obj_invD[OF inv i x] by (simp_all add: obj_ok_def)
  then obtain k where k: "(a, k) \<in> allocated (oheap s)" by auto
  have h: "heap_ok (oheap s)" using inv by (simp add: obj_inv_def)
  obtain hp where hp: "rt_free (Some a) (oheap s) = Some hp" "heap_ok hp" "allocated hp = allocated (oheap s) - {(a, k)}"
    using free_ok[OF h k] by blast
  have s1: "oheap ?s1 = oheap s" "okern ?s1 = okern s" by (simp_all add: rt_object_detach_def Let_def)
  have run: "rt_object_delete ?x s = Some (?s1\<lparr>oheap := hp\<rparr>)"
    using container_static[OF i] by (simp add: rt_object_delete_def o(1) kernel_free_def Let_def s1 hp(1) nest)
  have inv1: "obj_inv ?s1 ?cs" by (rule object_detach_removes[OF inv i x])
  have gone: "?x \<notin> set (?cs j)" if "j < 10" for j
    using inv rings_disjoint[of "olinks s" cs i j ?x] rings_distinct[of "olinks s" cs i] that i x by (auto simp: obj_inv_def)
  have "obj_ok (?s1\<lparr>oheap := hp\<rparr>) (container_types ! j) y" if y: "j < 10" "y \<in> set (?cs j)" for j y
  proof -
    have ok: "obj_ok ?s1 (container_types ! j) y" by (rule obj_invD[OF inv1 y])
    show ?thesis
    proof (cases y)
      case (Hobj b)
      then have "b \<noteq> a" using gone[OF y(1)] y(2) by auto
      moreover have "b \<in> fst ` allocated (oheap s)" using ok Hobj by (simp add: obj_ok_def s1)
      ultimately have "b \<in> fst ` allocated hp" by (force simp: hp(3))
      then show ?thesis using ok Hobj by (simp add: obj_ok_def)
    qed (use ok in \<open>simp_all add: obj_ok_def\<close>)
  qed
  then have "obj_inv (?s1\<lparr>oheap := hp\<rparr>) ?cs" using inv1 hp(2) by (simp add: obj_inv_def)
  then show ?thesis using that[OF run _ k] hp(3) by simp
qed

lemma object_find_result:
  assumes inv: "obj_inv s cs" and ty: "rt_object_get_information ty = Some i" and nest: "int_nest (okern s) = 0"
  shows "rt_object_find (Some nm) ty s =
      Some (find (\<lambda>x. o_name (obj s x) = rt_strncpy nm 8) (cs i), s\<lparr>okern := rt_exit_critical (rt_enter_critical (okern s))\<rparr>)"
    "obj_inv (s\<lparr>okern := rt_exit_critical (rt_enter_critical (okern s))\<rparr>) cs"
proof -
  have i: "i < 10" "container_types ! i = ty" using get_information[OF ty] by simp_all
  let ?s1 = "s\<lparr>okern := rt_enter_critical (okern s)\<rparr>"
  have d: "dring (olinks ?s1) (Head i) (cs i)" using inv i(1) by (simp add: obj_inv_def rings_def)
  have "rt_strncmp (o_name (obj s x)) nm 8 = 0 \<longleftrightarrow> o_name (obj s x) = rt_strncpy nm 8" if "x \<in> set (cs i)" for x
    using obj_invD[OF inv i(1) that] by (simp add: rt_strncmp_zero obj_ok_def)
  then have "find (\<lambda>x. rt_strncmp (o_name (obj ?s1 x)) nm 8 = 0) (cs i) = find (\<lambda>x. o_name (obj s x) = rt_strncpy nm 8) (cs i)"
    by (intro find_cong) simp_all
  moreover have "find_loop ?s1 (Head i) nm (nxt (olinks ?s1) (Head i)) = Some (find (\<lambda>x. rt_strncmp (o_name (obj ?s1 x)) nm 8 = 0) (cs i))"
    using d by (intro find_loop_lseg) (simp_all add: dring_def)
  moreover note class_bound[OF ty]
  ultimately show "rt_object_find (Some nm) ty s =
      Some (find (\<lambda>x. o_name (obj s x) = rt_strncpy nm 8) (cs i), s\<lparr>okern := rt_exit_critical (rt_enter_critical (okern s))\<rparr>)"
    by (simp add: rt_object_find_def ty Let_def nest)
  show "obj_inv (s\<lparr>okern := rt_exit_critical (rt_enter_critical (okern s))\<rparr>) cs"
    using inv ksys_critical by (simp add: obj_inv_def)
qed

section \<open>The container of a running system\<close>

inductive obj_reach :: "osys \<Rightarrow> (nat \<Rightarrow> onode list) \<Rightarrow> bool" where
  obj_start: "\<forall>i < 10. dring (olinks s) (Head i) [] \<Longrightarrow> heap_ok (oheap s) \<Longrightarrow> ksys (okern s) \<Longrightarrow> obj_reach s (\<lambda>_. [])"
| obj_init: "obj_reach s cs \<Longrightarrow> \<forall>j < 10. Sobj n \<notin> set (cs j) \<Longrightarrow> rt_object_get_information ty = Some i \<Longrightarrow>
    rt_object_init (Sobj n) ty nm s = Some s' \<Longrightarrow> obj_reach s' (cs(i := Sobj n # cs i))"
| obj_allocate: "obj_reach s cs \<Longrightarrow> rt_object_get_information ty = Some i \<Longrightarrow>
    rt_object_allocate sizes ty nm s = Some (Some x, s') \<Longrightarrow> obj_reach s' (cs(i := x # cs i))"
| obj_detach: "obj_reach s cs \<Longrightarrow> i < 10 \<Longrightarrow> Sobj n \<in> set (cs i) \<Longrightarrow>
    obj_reach (rt_object_detach (Sobj n) s) (cs(i := remove1 (Sobj n) (cs i)))"
| obj_delete: "obj_reach s cs \<Longrightarrow> i < 10 \<Longrightarrow> Hobj a \<in> set (cs i) \<Longrightarrow> rt_object_delete (Hobj a) s = Some s' \<Longrightarrow>
    obj_reach s' (cs(i := remove1 (Hobj a) (cs i)))"
| obj_find: "obj_reach s cs \<Longrightarrow> rt_object_get_information ty = Some i \<Longrightarrow> rt_object_find (Some nm) ty s = Some (r, s') \<Longrightarrow> obj_reach s' cs"
| obj_other: "obj_reach s cs \<Longrightarrow> ksys k \<Longrightarrow> heap_ok hp \<Longrightarrow> fst ` allocated (oheap s) \<subseteq> fst ` allocated hp \<Longrightarrow>
    obj_reach (s\<lparr>okern := k, oheap := hp\<rparr>) cs"

lemma obj_reach_inv: "obj_reach s cs \<Longrightarrow> obj_inv s cs"
proof (induction rule: obj_reach.induct)
  case (obj_start s)
  then show ?case by (simp add: obj_inv_def rings_def)
next
  case (obj_init s cs n ty i nm s')
  then show ?case using object_init_adds[OF obj_init.IH obj_init.hyps(3) refl obj_init.hyps(2), of nm] by (metis option.inject)
next
  case (obj_allocate s cs ty i sizes nm x s')
  have n: "int_nest (okern s) = 0" using obj_allocate.hyps(3) by (auto simp: rt_object_allocate_def split: if_splits)
  show ?case
  proof (cases rule: object_allocate_adds[OF obj_allocate.IH obj_allocate.hyps(2) n, of sizes nm, case_names none object])
    case none
    then show ?thesis using obj_allocate.hyps(3) by simp
  next
    case (object a s1)
    then have "x = Hobj a" "s1 = s'" using obj_allocate.hyps(3) by simp_all
    then show ?thesis using object(2) by (simp add: fun_upd_def)
  qed
next
  case (obj_delete s cs i a s')
  then have "int_nest (okern s) = 0" by (auto simp: rt_object_delete_def rt_object_detach_def Let_def split: if_splits)
  then show ?case using object_delete_removes[OF obj_delete.IH obj_delete.hyps(2,3)] obj_delete.hyps(4) by (metis option.inject)
next
  case (obj_find s cs ty i nm r s')
  then have "int_nest (okern s) = 0" using class_bound by (auto simp: rt_object_find_def split: if_splits)
  then show ?case using object_find_result[OF obj_find.IH obj_find.hyps(2)] obj_find.hyps(3) by simp
next
  case (obj_other s cs k hp)
  have "obj_ok (s\<lparr>okern := k, oheap := hp\<rparr>) (container_types ! i) x" if "i < 10" "x \<in> set (cs i)" for i x
    using obj_ok_frame[OF _ _ obj_invD[OF obj_other.IH that]] obj_other.hyps by simp
  then show ?case using obj_other by (simp add: obj_inv_def)
qed (rule object_detach_removes)

end
