(* ===== verification/ObjProps.thy ===== *)
theory ObjProps
  imports Object MemProps Sample
begin

text \<open>The properties of the object container.\<close>

section \<open>An empty container\<close>

definition no_objects :: osys where
  "no_objects = \<lparr>olinks = \<lparr>nxt = \<lambda>n. n, prv = \<lambda>n. n\<rparr>, obj = \<lambda>_. \<lparr>o_name = [], o_type = 0, o_flag = 0\<rparr>, oheap = small_heap,
     okern = sample\<rparr>"

lemma no_objects_reach: "obj_reach no_objects (\<lambda>_. [])"
  by (rule obj_start) (simp_all add: no_objects_def dring_def heap_reach_ok[OF small_reach] sample_ksys)

lemma semaphore_class: "rt_object_get_information 2 = Some 1"
  using container_types_inj[of 1] by (simp add: container_types_def)

text \<open>A semaphore of the static data with the name "led".\<close>

definition led_name :: "u8 list" where "led_name = [0x6c, 0x65, 0x64]"

lemma object_init_nest: "rt_object_init x ty nm s = Some s1 \<Longrightarrow> int_nest (okern s1) = int_nest (okern s)"
  by (auto simp: rt_object_init_def Let_def nest_critical split: option.splits if_splits)

lemma one_object:
  obtains s where "rt_object_init (Sobj 0) 2 led_name no_objects = Some s" "obj_reach s ((\<lambda>_. [])(1 := [Sobj 0]))"
    "o_name (obj s (Sobj 0)) = rt_strncpy led_name 8" "int_nest (okern s) = 0"
proof -
  obtain s where s: "rt_object_init (Sobj 0) 2 led_name no_objects = Some s" "o_name (obj s (Sobj 0)) = rt_strncpy led_name 8"
    using object_init_adds[OF obj_reach_inv[OF no_objects_reach] semaphore_class refl] by (metis empty_iff empty_set)
  have "obj_reach s ((\<lambda>_. [])(1 := [Sobj 0]))"
    using obj_init[OF no_objects_reach _ semaphore_class s(1)] by simp
  moreover have "int_nest (okern s) = 0" using object_init_nest[OF s(1)] by (simp add: no_objects_def sample_sel)
  ultimately show ?thesis using that s by blast
qed

section \<open>Properties\<close>

text \<open>C29: Whatever objects a system initialises, allocates, detaches and deletes, an object that the search for a name in a class
  returns is of that class, has that name up to eight characters, and is marked as static exactly when it does not lie
  in the heap.\<close>

theorem object_types:
  assumes "obj_reach s cs" "rt_object_find (Some nm) ty s = Some (Some x, s')"
  shows "rt_object_get_type (o_type (obj s x)) = ty \<and> o_name (obj s x) = rt_strncpy nm 8 \<and>
    (rt_object_is_systemobject (o_type (obj s x)) \<longleftrightarrow> (\<exists>n. x = Sobj n))"
proof -
  note inv = obj_reach_inv[OF assms(1)]
  obtain i where i: "rt_object_get_information ty = Some i"
    using assms(2) by (auto simp: rt_object_find_def Let_def split: if_splits option.splits)
  note t = get_information[OF i]
  have "int_nest (okern s) = 0" using assms(2) by (auto simp: rt_object_find_def split: if_splits)
  then have "find (\<lambda>x. o_name (obj s x) = rt_strncpy nm 8) (cs i) = Some x"
    using object_find_result(1)[OF inv i, of nm] assms(2) by simp
  then have x: "x \<in> set (cs i)" "o_name (obj s x) = rt_strncpy nm 8" by (auto simp: find_Some_iff)
  show ?thesis
    using obj_invD[OF inv _ x(1)] t container_static[of i] x(2)
    by (cases x) (auto simp: obj_ok_def rt_object_is_systemobject_def)
qed

lemma object_types_witness:
  "\<exists>s s'. rt_object_find (Some led_name) 2 s = Some (Some (Sobj 0), s') \<and> rt_object_get_type (o_type (obj s (Sobj 0))) = 2"
proof (rule one_object)
  fix s assume s: "obj_reach s ((\<lambda>_. [])(1 := [Sobj 0]))" "o_name (obj s (Sobj 0)) = rt_strncpy led_name 8" "int_nest (okern s) = 0"
  obtain s' where f: "rt_object_find (Some led_name) 2 s = Some (Some (Sobj 0), s')"
    using object_find_result(1)[OF obj_reach_inv[OF s(1)] semaphore_class s(3), of led_name] s(2) by simp
  from object_types[OF s(1) f] f show ?thesis by blast
qed

text \<open>What the search for a name in a class answers; \<open>None\<close> is a failed assertion.\<close>

definition answer :: "osys \<Rightarrow> u8 \<Rightarrow> u8 list \<Rightarrow> onode option option" where
  "answer s ty nm = map_option fst (rt_object_find (Some nm) ty s)"

lemma answer_result:
  assumes "obj_inv s cs"
  shows "answer s ty nm = (if 12 < ty then Some None else if int_nest (okern s) \<noteq> 0 then None
    else map_option (\<lambda>i. find (\<lambda>x. o_name (obj s x) = rt_strncpy nm 8) (cs i)) (rt_object_get_information ty))"
proof (cases "rt_object_get_information ty")
  case None
  then show ?thesis by (simp add: answer_def rt_object_find_def Let_def)
next
  case (Some i)
  have "\<not> 12 < ty" by (rule class_bound[OF Some])
  moreover have "rt_object_find (Some nm) ty s = None" if "int_nest (okern s) \<noteq> 0"
    using that \<open>\<not> 12 < ty\<close> by (simp add: rt_object_find_def)
  ultimately show ?thesis using object_find_result(1)[OF assms Some, of nm] Some by (auto simp: answer_def)
qed

text \<open>C30: An object that is initialised is found by its name in its class, also when an older object of the class has the same name or
  another one with the same first eight characters; every other search, for another name or in another class, answers what it
  answered before. After the object is detached every search answers what it answered before the object was initialised. In an
  interrupt a search of a class fails an assertion, before and after.\<close>

theorem object_found:
  assumes "obj_reach s cs" "rt_object_get_information ty = Some i" "\<forall>j < 10. Sobj n \<notin> set (cs j)"
  shows "\<exists>s1. rt_object_init (Sobj n) ty nm s = Some s1 \<and>
    (\<forall>ty' nm'. answer s1 ty' nm' =
      (if ty' = ty \<and> rt_strncpy nm' 8 = rt_strncpy nm 8 then if int_nest (okern s) = 0 then Some (Some (Sobj n)) else None
       else answer s ty' nm')) \<and>
    (\<forall>ty' nm'. answer (rt_object_detach (Sobj n) s1) ty' nm' = answer s ty' nm')"
proof -
  note inv = obj_reach_inv[OF assms(1)]
  note i = get_information[OF assms(2)]
  obtain s1 where s1: "rt_object_init (Sobj n) ty nm s = Some s1" "obj_inv s1 (cs(i := Sobj n # cs i))"
    "o_name (obj s1 (Sobj n)) = rt_strncpy nm 8" "\<forall>y. y \<noteq> Sobj n \<longrightarrow> obj s1 y = obj s y"
    using object_init_adds[OF inv assms(2) refl assms(3)] by blast
  let ?d = "rt_object_detach (Sobj n) s1"
  have d: "obj_inv ?d cs" using object_detach_removes[OF s1(2), of i "Sobj n"] i by simp
  have nest: "int_nest (okern s1) = int_nest (okern s)" "int_nest (okern ?d) = int_nest (okern s)"
    using object_init_nest[OF s1(1)] by (simp_all add: rt_object_detach_def Let_def)
  have f: "find (\<lambda>x. o_name (obj t x) = m) (cs j) = find (\<lambda>x. o_name (obj s x) = m) (cs j)"
    if "\<forall>y. y \<noteq> Sobj n \<longrightarrow> obj t y = obj s y" "j < 10" for t m j
    using that assms(3) by (intro find_cong refl) (metis (no_types))
  have od: "\<forall>y. y \<noteq> Sobj n \<longrightarrow> obj ?d y = obj s y" using s1(4) by (simp add: rt_object_detach_def Let_def)
  have ne: "j \<noteq> i" if "rt_object_get_information ty' = Some j" "ty' \<noteq> ty" for j ty' using get_information[OF that(1)] i that(2) by auto
  have "\<not> 12 < ty" by (rule class_bound[OF assms(2)])
  then have "answer s1 ty' nm' = (if ty' = ty \<and> rt_strncpy nm' 8 = rt_strncpy nm 8 then if int_nest (okern s) = 0 then Some (Some (Sobj n)) else None
       else answer s ty' nm')" for ty' nm'
    using assms(2) s1(3) f[OF s1(4)] get_information[of ty'] ne[of ty'] i
    by (cases "rt_object_get_information ty'") (auto simp: answer_result[OF s1(2)] answer_result[OF inv] nest)
  moreover have "answer ?d ty' nm' = answer s ty' nm'" for ty' nm'
    using f[OF od] get_information[of ty']
    by (cases "rt_object_get_information ty'") (auto simp: answer_result[OF d] answer_result[OF inv] nest)
  ultimately show ?thesis using s1(1) by blast
qed

lemma object_found_witness:
  "\<exists>s1. rt_object_init (Sobj 0) 2 led_name no_objects = Some s1 \<and> answer s1 2 led_name = Some (Some (Sobj 0)) \<and>
     answer s1 9 led_name = answer no_objects 9 led_name"
  using object_found[OF no_objects_reach semaphore_class, of 0 led_name] by (auto simp: no_objects_def sample_sel)

text \<open>Initialising an object a second time fails an assertion, and so does searching for a name in a class that has no list
  (the null class, modules, the unknown class); a search without a name or in a class above the unknown one finds nothing.\<close>

theorem object_errors:
  assumes "obj_reach s cs" "i < 10" "x \<in> set (cs i)"
  shows "rt_object_init x (container_types ! i) nm s = None \<and> rt_object_find (Some nm) 0 s = None \<and>
    rt_object_find (Some nm) 11 s = None \<and> rt_object_find (Some nm) 12 s = None \<and> rt_object_find None ty s = Some (None, s) \<and>
    (12 < ty \<longrightarrow> rt_object_find (Some nm) ty s = Some (None, s))"
proof -
  have "rt_object_get_information ty = None" if "ty \<notin> set container_types" for ty
    using that by (auto simp: rt_object_get_information_def find_None_iff)
  then have "rt_object_get_information 0 = None" "rt_object_get_information 11 = None" "rt_object_get_information 12 = None"
    by (simp_all add: container_types_def)
  then show ?thesis
    using object_twice_fails[OF obj_reach_inv[OF assms(1)] container_types_inj[OF assms(2)] assms(3), of nm]
    by (simp add: rt_object_find_def)
qed

lemma object_errors_witness:
  "\<exists>s. rt_object_init (Sobj 0) 2 led_name s = None \<and> rt_object_find (Some led_name) 12 s = None"
proof (rule one_object)
  fix s assume s: "obj_reach s ((\<lambda>_. [])(1 := [Sobj 0]))"
  from object_errors[OF s, of 1 "Sobj 0" led_name 0] show ?thesis by (auto simp: container_types_def)
qed

end
