(* ===== verification/Byhm.thy ===== *)
theory Byhm
  imports Prelude
begin

text \<open>
  The weather station driver \<^verbatim>\<open>Mydevice/BYH_M.c\<close>: the Modbus RTU checksum and the three queries over the
  serial port. A query is a trace of bus operations and a result; \<open>got\<close> are the bytes the port delivers
  and \<open>junk\<close> is what the uninitialised receive buffer holds before.
\<close>

section \<open>The checksum\<close>

definition crc_bit :: "u16 \<Rightarrow> u16" where
  "crc_bit wCRCin = (if wCRCin AND 1 \<noteq> 0 then drop_bit 1 wCRCin XOR 0xa001 else drop_bit 1 wCRCin)"

definition crc_byte :: "u16 \<Rightarrow> u8 \<Rightarrow> u16" where
  "crc_byte wCRCin wChar = (crc_bit ^^ 8) (wCRCin XOR ucast wChar)"

definition crc_reg :: "u8 list \<Rightarrow> u16" where
  "crc_reg msg = foldl crc_byte 0xFFFF msg"

definition swap_bytes :: "u16 \<Rightarrow> u16" where
  "swap_bytes r = (push_bit 8 r AND 0xff00) OR (drop_bit 8 r AND 0xff)"

definition CRC16_ModbusRTU :: "u8 list \<Rightarrow> nat \<Rightarrow> u16" where
  "CRC16_ModbusRTU puchMsg usDataLen = swap_bytes (crc_reg (take usDataLen puchMsg))"

section \<open>The queries\<close>

text \<open>The measurements are signed 16-bit integers in the source; a word read with \<open>sint\<close> is such an integer.\<close>

record BYH_M_t =
  BYH_M_CMD :: "u8 list"
  Temperature_x10 :: u16
  Humidity_x10 :: u16
  Noise_x10 :: u16
  PM2_5 :: u16
  PM10 :: u16

datatype bus_op = BusOpen | BusConfig u32 | BusWrite "u8 list" | BusDelay int | BusRead nat

text \<open>\<open>found\<close>: the serial device of the given name exists.\<close>

definition BYH_M_init :: "bool \<Rightarrow> u32 \<Rightarrow> int \<times> bus_op list" where
  "BYH_M_init found baud_rate = (if \<not> found then (RT_ERROR, []) else (0, [BusOpen, BusConfig baud_rate]))"

text \<open>The command with its register address and count adjusted, and the checksum high byte first.\<close>

definition query_frame :: "u8 list \<Rightarrow> u8 \<Rightarrow> u8 \<Rightarrow> u8 list" where
  "query_frame cmd reg cnt =
     (let c = take 6 cmd;
          c1 = c[3 := c ! 3 + reg];
          c2 = c1[5 := c1 ! 5 + cnt];
          crc = CRC16_ModbusRTU c2 6
      in c2 @ [ucast (drop_bit 8 crc), ucast crc])"

definition word_at :: "u8 list \<Rightarrow> nat \<Rightarrow> u16" where
  "word_at temp i = push_bit 8 (ucast (temp ! i)) OR ucast (temp ! (i + 1))"

text \<open>The bytes of \<^verbatim>\<open>temp\<close> after \<^verbatim>\<open>rt_device_read(serial, 0, temp, n)\<close>.\<close>

definition received :: "nat \<Rightarrow> u8 list \<Rightarrow> u8 list \<Rightarrow> u8 list" where
  "received n junk got = take n got @ drop (length (take n got)) junk"

definition query_trace :: "u8 list \<Rightarrow> u8 \<Rightarrow> u8 \<Rightarrow> nat \<Rightarrow> bus_op list" where
  "query_trace cmd reg cnt n = [BusWrite (query_frame cmd reg cnt), BusDelay 100, BusRead n]"

definition BYH_M_get_humiture :: "u8 list \<Rightarrow> u8 list \<Rightarrow> BYH_M_t \<Rightarrow> int \<times> bus_op list \<times> BYH_M_t" where
  "BYH_M_get_humiture junk got b =
     (let ops = query_trace (BYH_M_CMD b) 0 2 9;
          temp = received 9 junk got
      in if word_at temp 7 \<noteq> CRC16_ModbusRTU temp 7 then (RT_ERROR, ops, b)
         else (RT_EOK, ops, b\<lparr>Humidity_x10 := word_at temp 3, Temperature_x10 := word_at temp 5\<rparr>))"

definition BYH_M_get_noise :: "u8 list \<Rightarrow> u8 list \<Rightarrow> BYH_M_t \<Rightarrow> int \<times> bus_op list \<times> BYH_M_t" where
  "BYH_M_get_noise junk got b =
     (let ops = query_trace (BYH_M_CMD b) 2 1 7;
          temp = received 7 junk got
      in if word_at temp 5 \<noteq> CRC16_ModbusRTU temp 5 then (RT_ERROR, ops, b)
         else (RT_EOK, ops, b\<lparr>Noise_x10 := word_at temp 3\<rparr>))"

definition BYH_M_get_PM_Data :: "u8 list \<Rightarrow> u8 list \<Rightarrow> BYH_M_t \<Rightarrow> int \<times> bus_op list \<times> BYH_M_t" where
  "BYH_M_get_PM_Data junk got b =
     (let ops = query_trace (BYH_M_CMD b) 3 2 9;
          temp = received 9 junk got
      in if word_at temp 7 \<noteq> CRC16_ModbusRTU temp 7 then (RT_ERROR, ops, b)
         else (RT_EOK, ops, b\<lparr>PM2_5 := word_at temp 3, PM10 := word_at temp 5\<rparr>))"

section \<open>The checksum detects errors\<close>

text \<open>One step of the register loses no information: the bit shifted out is the top bit of the result.\<close>

lemma bit_a001: "bit (0xa001 :: u16) n \<longleftrightarrow> n = 0 \<or> n = 13 \<or> n = 15"
proof -
  have "(0xa001 :: u16) = 2 ^ 0 OR 2 ^ 13 OR 2 ^ 15" by simp
  then show ?thesis by (simp only: bit_or_iff bit_exp_iff) auto
qed

lemma odd_and_1: "(r :: u16) AND 1 \<noteq> 0 \<longleftrightarrow> bit r 0"
  by (simp add: and_one_eq bit_0 odd_iff_mod_2_eq_one)

lemma crc_bit_bit:
  "n < 16 \<Longrightarrow> bit (crc_bit r) n \<longleftrightarrow> (bit r (Suc n) \<noteq> (bit r 0 \<and> bit (0xa001 :: u16) n))"
  by (auto simp: crc_bit_def odd_and_1 bit_drop_bit_eq bit_xor_iff)

lemma crc_bit_inj: "crc_bit r = crc_bit s \<Longrightarrow> r = s"
proof (rule bit_eqI)
  fix n
  assume e: "crc_bit r = crc_bit s" and n: "possible_bit TYPE(u16) n"
  have top: "bit (crc_bit x) 15 \<longleftrightarrow> bit x 0" for x
    using bit_imp_le_length[of x 16] by (auto simp: crc_bit_bit bit_a001)
  have 0: "bit r 0 = bit s 0" using e top[of r] top[of s] by simp
  show "bit r n = bit s n"
  proof (cases n)
    case 0
    with \<open>bit r 0 = bit s 0\<close> show ?thesis by simp
  next
    case (Suc m)
    with n have "m < 16" by simp
    with e crc_bit_bit[of m r] crc_bit_bit[of m s] \<open>bit r 0 = bit s 0\<close> Suc show ?thesis by auto
  qed
qed

lemma crc_bits_inj: "(crc_bit ^^ k) r = (crc_bit ^^ k) s \<Longrightarrow> r = s"
  by (induction k arbitrary: r s) (auto simp: funpow_Suc_right simp del: funpow.simps intro: crc_bit_inj)

lemma xor_cancel: "(x :: u16) XOR a = y XOR a \<longleftrightarrow> x = y" "a XOR x = a XOR y \<longleftrightarrow> x = y"
  by (auto simp: bit_eq_iff bit_xor_iff)

lemma crc_byte_reg_inj: "crc_byte r c = crc_byte s c \<Longrightarrow> r = s"
  using crc_bits_inj[of 8 "r XOR ucast c" "s XOR ucast c"]
  by (simp only: crc_byte_def xor_cancel)

lemma crc_byte_inj: "crc_byte r c = crc_byte r d \<Longrightarrow> c = d"
proof -
  assume "crc_byte r c = crc_byte r d"
  then have "r XOR ucast c = r XOR ucast d" unfolding crc_byte_def by (rule crc_bits_inj)
  then have "(ucast c :: u16) = ucast d" by (simp only: xor_cancel)
  then have b: "bit (ucast c :: u16) n = bit (ucast d :: u16) n" for n by simp
  show "c = d"
  proof (rule bit_eqI)
    fix n
    assume "possible_bit TYPE(u8) n"
    then show "bit c n = bit d n" using b[of n] by (simp add: bit_ucast_iff)
  qed
qed

lemma foldl_crc_inj: "foldl crc_byte r xs = foldl crc_byte s xs \<Longrightarrow> r = s"
  by (induction xs arbitrary: r s) (auto dest: crc_byte_reg_inj)

lemma crc_one_byte:
  assumes "c \<noteq> d"
  shows "crc_reg (xs @ c # ys) \<noteq> crc_reg (xs @ d # ys)"
proof
  assume "crc_reg (xs @ c # ys) = crc_reg (xs @ d # ys)"
  then have "crc_byte (foldl crc_byte 0xFFFF xs) c = crc_byte (foldl crc_byte 0xFFFF xs) d"
    by (auto simp: crc_reg_def dest: foldl_crc_inj)
  with crc_byte_inj assms show False by blast
qed

text \<open>A frame that ends with its checksum, low byte first, leaves the register empty, and only such a frame.\<close>

lemma crc_bits_shift: "\<forall>n < k. \<not> bit x n \<Longrightarrow> (crc_bit ^^ k) x = drop_bit k x"
proof (induction k)
  case 0
  then show ?case by simp
next
  case (Suc k)
  then have "(crc_bit ^^ Suc k) x = crc_bit (drop_bit k x)" by simp
  also have "\<dots> = drop_bit (Suc k) x"
    using Suc.prems by (simp add: crc_bit_def odd_and_1 bit_drop_bit_eq drop_bit_drop_bit)
  finally show ?case .
qed

definition lo_byte :: "u16 \<Rightarrow> u8" where "lo_byte r = ucast r"
definition hi_byte :: "u16 \<Rightarrow> u8" where "hi_byte r = ucast (drop_bit 8 r)"

lemma bit_lo_byte: "bit (lo_byte r) n \<longleftrightarrow> n < 8 \<and> bit r n"
  by (auto simp: lo_byte_def bit_ucast_iff dest: bit_imp_le_length)

lemma bit_hi_byte: "bit (hi_byte r) n \<longleftrightarrow> n < 8 \<and> bit r (n + 8)"
  by (auto simp: hi_byte_def bit_ucast_iff bit_drop_bit_eq add.commute dest: bit_imp_le_length)

lemma crc_byte_lo: "crc_byte r (lo_byte r) = drop_bit 8 r"
proof -
  have "\<forall>n < 8. \<not> bit (r XOR ucast (lo_byte r)) n"
    by (simp add: bit_xor_iff bit_ucast_iff bit_lo_byte)
  then have "crc_byte r (lo_byte r) = drop_bit 8 (r XOR ucast (lo_byte r))"
    unfolding crc_byte_def by (rule crc_bits_shift)
  also have "\<dots> = drop_bit 8 r"
    by (rule bit_eqI) (simp add: bit_drop_bit_eq bit_xor_iff bit_ucast_iff bit_lo_byte)
  finally show ?thesis .
qed

lemma crc_byte_hi: "crc_byte (drop_bit 8 r) (hi_byte r) = 0"
proof -
  have "drop_bit 8 r XOR ucast (hi_byte r) = 0"
  proof (rule bit_eqI)
    fix n
    have "bit r (n + 8) \<Longrightarrow> n < 8" using bit_imp_le_length[of r "n + 8"] by simp
    then show "bit (drop_bit 8 r XOR ucast (hi_byte r)) n = bit 0 n"
      by (auto simp: bit_drop_bit_eq bit_xor_iff bit_ucast_iff bit_hi_byte add.commute)
  qed
  then show ?thesis using crc_bits_shift[of 8 0] by (simp add: crc_byte_def del: funpow.simps)
qed

text \<open>Conversely zeros that come out at the top were zeros at the bottom.\<close>

lemma crc_bits_unshift:
  assumes "k \<le> 16" "\<forall>n. 16 - k \<le> n \<longrightarrow> \<not> bit ((crc_bit ^^ k) x) n"
  shows "\<forall>n < k. \<not> bit x n"
  using assms
proof (induction k)
  case 0
  then show ?case by simp
next
  case (Suc k)
  let ?y = "(crc_bit ^^ k) x"
  have z: "\<not> bit (crc_bit ?y) n" if "15 - k \<le> n" for n
    using Suc.prems(2) that by simp
  have y0: "\<not> bit ?y 0" using z[of 15] crc_bit_bit[of 15 ?y] bit_imp_le_length[of ?y 16]
    by (auto simp: bit_a001)
  have "\<not> bit ?y n" if "16 - k \<le> n" for n
  proof (cases "n < 16")
    case False
    then show ?thesis using bit_imp_le_length[of ?y n] by auto
  next
    case True
    have "n \<noteq> 0" using that Suc.prems(1) by linarith
    then obtain m where m: "n = Suc m" by (cases n) auto
    then have "15 - k \<le> m" using that by simp
    from z[OF this] show ?thesis using crc_bit_bit[of m ?y] True m y0 by simp
  qed
  then have low: "\<forall>n < k. \<not> bit x n" using Suc.IH Suc.prems(1) by simp
  with y0 have "\<not> bit x k" by (simp add: crc_bits_shift bit_drop_bit_eq)
  with low show ?case using less_Suc_eq by auto
qed

lemma crc_bits_zero: "(crc_bit ^^ k) x = 0 \<Longrightarrow> x = 0"
proof -
  have "(crc_bit ^^ k) 0 = 0" using crc_bits_shift[of k 0] by simp
  then show "(crc_bit ^^ k) x = 0 \<Longrightarrow> x = 0" using crc_bits_inj[of k x 0] by simp
qed

lemma crc_residue: "crc_reg (msg @ [c, d]) = 0 \<longleftrightarrow> c = lo_byte (crc_reg msg) \<and> d = hi_byte (crc_reg msg)"
proof
  let ?r = "crc_reg msg"
  have z: "crc_byte (crc_byte ?r (lo_byte ?r)) (hi_byte ?r) = 0" by (simp add: crc_byte_lo crc_byte_hi)
  { assume "c = lo_byte ?r \<and> d = hi_byte ?r"
    with z show "crc_reg (msg @ [c, d]) = 0" by (simp add: crc_reg_def) }
  assume a: "crc_reg (msg @ [c, d]) = 0"
  then have "crc_byte (crc_byte ?r c) d = 0" by (simp add: crc_reg_def)
  then have "crc_byte ?r c XOR ucast d = 0" unfolding crc_byte_def[of "crc_byte ?r c"] by (rule crc_bits_zero)
  then have "crc_byte ?r c = ucast d" using xor_cancel(1)[of "crc_byte ?r c" "ucast d" "ucast d"] by simp
  then have e: "(crc_bit ^^ 8) (?r XOR ucast c) = ucast d" by (simp only: crc_byte_def)
  have "\<forall>n. 16 - 8 \<le> n \<longrightarrow> \<not> bit ((crc_bit ^^ 8) (?r XOR ucast c)) n"
    using bit_imp_le_length[of d] unfolding e by (fastforce simp: bit_ucast_iff)
  then have "\<forall>n < 8. \<not> bit (?r XOR ucast c) n" by (intro crc_bits_unshift) simp_all
  then have "bit ?r n \<longleftrightarrow> bit c n" if "n < 8" for n using that by (simp add: bit_xor_iff bit_ucast_iff)
  then have c: "c = lo_byte ?r" by (intro bit_eqI) (simp add: bit_lo_byte)
  have "crc_byte (crc_byte ?r (lo_byte ?r)) d = crc_byte (crc_byte ?r (lo_byte ?r)) (hi_byte ?r)"
    using a z unfolding c by (simp add: crc_reg_def)
  from crc_byte_inj[OF this] c show "c = lo_byte ?r \<and> d = hi_byte ?r" by simp
qed

section \<open>The queries check the whole frame\<close>

lemma swap_bytes_concat:
  "push_bit 8 (ucast c) OR ucast d = swap_bytes r \<longleftrightarrow> c = lo_byte r \<and> d = hi_byte r"
proof -
  let ?w = "push_bit 8 (ucast c) OR ucast d :: u16"
  have w255: "(0xff :: u16) = mask 8" and w65280: "(0xff00 :: u16) = push_bit 8 (mask 8)"
    by (simp_all add: mask_eq_exp_minus_1 push_bit_eq_mult)
  have m: "bit (0xff :: u16) n \<longleftrightarrow> n < 8" "bit (0xff00 :: u16) n \<longleftrightarrow> 8 \<le> n \<and> n < 16" for n
    unfolding w255 w65280 by (auto simp: bit_push_bit_iff bit_mask_iff)
  have w: "bit ?w n \<longleftrightarrow> (8 \<le> n \<and> n < 16 \<and> bit c (n - 8)) \<or> bit d n" for n
    using bit_imp_le_length[of c "n - 8"] bit_imp_le_length[of d n]
    by (auto simp: bit_or_iff bit_push_bit_iff bit_ucast_iff)
  have s: "bit (swap_bytes r) n \<longleftrightarrow> n < 16 \<and> (if 8 \<le> n then bit r (n - 8) else bit r (n + 8))" for n
    unfolding swap_bytes_def bit_or_iff bit_and_iff bit_push_bit_iff bit_drop_bit_eq m
    by (auto simp: add.commute dest: bit_imp_le_length)
  show ?thesis
  proof
    assume e: "?w = swap_bytes r"
    have "bit c n = bit r n" if "n < 8" for n
      using w[of "n + 8"] s[of "n + 8"] e that bit_imp_le_length[of d "n + 8"] by auto
    moreover have "bit d n = bit r (n + 8)" if "n < 8" for n
      using w[of n] s[of n] e that by auto
    ultimately show "c = lo_byte r \<and> d = hi_byte r"
      by (intro conjI bit_eqI) (simp_all add: bit_lo_byte bit_hi_byte)
  next
    assume e: "c = lo_byte r \<and> d = hi_byte r"
    show "?w = swap_bytes r"
    proof (rule bit_eqI)
      fix n
      show "bit ?w n = bit (swap_bytes r) n"
        unfolding w s using e by (auto simp: bit_lo_byte bit_hi_byte)
    qed
  qed
qed

lemma frame_check:
  assumes "k + 2 \<le> length temp"
  shows "word_at temp k = CRC16_ModbusRTU temp k \<longleftrightarrow> crc_reg (take (k + 2) temp) = 0"
proof -
  have "take (k + 2) temp = take k temp @ [temp ! k, temp ! (k + 1)]"
    using assms by (simp add: take_Suc_conv_app_nth)
  then show ?thesis
    by (simp add: word_at_def CRC16_ModbusRTU_def swap_bytes_concat crc_residue)
qed

lemma received_full: "length got = n \<Longrightarrow> received n junk got = got @ drop n junk"
  by (simp add: received_def)

lemma word_at_append: "i + 1 < length xs \<Longrightarrow> word_at (xs @ ys) i = word_at xs i"
  by (simp add: word_at_def nth_append)

text \<open>Every command sent is a frame that passes the same check.\<close>

lemma query_frame_ok:
  assumes "6 \<le> length cmd"
  shows "length (query_frame cmd reg cnt) = 8" "crc_reg (query_frame cmd reg cnt) = 0"
proof -
  define c where "c = (take 6 cmd)[3 := take 6 cmd ! 3 + reg]"
  define c2 where "c2 = c[5 := c ! 5 + cnt]"
  have l: "length c2 = 6" using assms by (simp add: c2_def c_def)
  have sw: "swap_bytes r = push_bit 8 (ucast (lo_byte r)) OR ucast (hi_byte r)" for r
    using swap_bytes_concat[of "lo_byte r" "hi_byte r" r] by simp
  have hi: "ucast (drop_bit 8 (swap_bytes r)) = lo_byte r" for r
  proof (rule bit_eqI)
    fix n assume "possible_bit TYPE(u8) n"
    then have n: "n < 8" by simp
    have "bit (swap_bytes r) (8 + n) = bit r n"
      unfolding sw
      using n bit_imp_le_length[of "hi_byte r" "8 + n"]
      by (auto simp: bit_or_iff bit_push_bit_iff bit_ucast_iff bit_lo_byte)
    with n show "bit (ucast (drop_bit 8 (swap_bytes r)) :: u8) n = bit (lo_byte r) n"
      by (simp add: bit_ucast_iff bit_drop_bit_eq bit_lo_byte)
  qed
  have lo: "ucast (swap_bytes r) = hi_byte r" for r
  proof (rule bit_eqI)
    fix n assume "possible_bit TYPE(u8) n"
    then show "bit (ucast (swap_bytes r) :: u8) n = bit (hi_byte r) n"
      unfolding sw
      by (auto simp: bit_or_iff bit_push_bit_iff bit_ucast_iff bit_hi_byte)
  qed
  have "query_frame cmd reg cnt = c2 @ [lo_byte (crc_reg c2), hi_byte (crc_reg c2)]"
    using l unfolding query_frame_def Let_def c_def[symmetric] unfolding c2_def[symmetric]
    by (simp add: CRC16_ModbusRTU_def hi lo)
  then show "length (query_frame cmd reg cnt) = 8" "crc_reg (query_frame cmd reg cnt) = 0"
    using l by (simp_all add: crc_residue)
qed

text \<open>The answer of the station to a query for two registers.\<close>

definition answer2 :: "u8 \<Rightarrow> u8 \<Rightarrow> u16 \<Rightarrow> u16 \<Rightarrow> u8 list" where
  "answer2 addr fn a b =
     (let body = [addr, fn, 4, hi_byte a, lo_byte a, hi_byte b, lo_byte b]
      in body @ [lo_byte (crc_reg body), hi_byte (crc_reg body)])"

lemma word_of_bytes: "push_bit 8 (ucast (hi_byte a)) OR ucast (lo_byte a) = (a :: u16)"
proof (rule bit_eqI)
  fix n assume "possible_bit TYPE(u16) n"
  then show "bit (push_bit 8 (ucast (hi_byte a)) OR ucast (lo_byte a) :: u16) n = bit a n"
    by (auto simp: bit_or_iff bit_push_bit_iff bit_ucast_iff bit_hi_byte bit_lo_byte)
qed

lemma answer2_ok: "length (answer2 addr fn a b) = 9" "crc_reg (answer2 addr fn a b) = 0"
  "word_at (answer2 addr fn a b) 3 = a" "word_at (answer2 addr fn a b) 5 = b"
proof -
  show "crc_reg (answer2 addr fn a b) = 0"
    unfolding answer2_def Let_def by (simp only: crc_residue)
  show "length (answer2 addr fn a b) = 9" by (simp add: answer2_def Let_def)
  show "word_at (answer2 addr fn a b) 3 = a" "word_at (answer2 addr fn a b) 5 = b"
    by (simp_all add: answer2_def Let_def word_at_def word_of_bytes)
qed

lemma frame_check9:
  assumes "length got = 9"
  shows "word_at (received 9 junk got) 7 = CRC16_ModbusRTU (received 9 junk got) 7 \<longleftrightarrow> crc_reg got = 0"
  using frame_check[of 7 got] assms by (simp add: received_full word_at_append CRC16_ModbusRTU_def)

text \<open>A frame damaged in one byte is never accepted.\<close>

lemma damaged_frame:
  assumes "crc_reg got = 0" "i < length got" "c \<noteq> got ! i"
  shows "crc_reg (got[i := c]) \<noteq> 0"
proof -
  have "got = take i got @ got ! i # drop (Suc i) got" by (rule id_take_nth_drop[OF assms(2)])
  moreover have "got[i := c] = take i got @ c # drop (Suc i) got" by (rule upd_conv_take_nth_drop[OF assms(2)])
  ultimately show ?thesis using crc_one_byte[OF assms(3)] assms(1) by metis
qed

lemma humiture_ok:
  assumes "length got = 9" "crc_reg got = 0"
  shows "BYH_M_get_humiture junk got b = (RT_EOK, query_trace (BYH_M_CMD b) 0 2 9,
    b\<lparr>Humidity_x10 := word_at got 3, Temperature_x10 := word_at got 5\<rparr>)"
  using frame_check9[OF assms(1), of junk] assms
  by (simp add: BYH_M_get_humiture_def Let_def received_full word_at_append)

lemma humiture_bad:
  assumes "length got = 9" "crc_reg got \<noteq> 0"
  shows "BYH_M_get_humiture junk got b = (RT_ERROR, query_trace (BYH_M_CMD b) 0 2 9, b)"
  using frame_check9[OF assms(1), of junk] assms
  by (simp add: BYH_M_get_humiture_def Let_def)

lemma pm_ok:
  assumes "length got = 9" "crc_reg got = 0"
  shows "BYH_M_get_PM_Data junk got b = (RT_EOK, query_trace (BYH_M_CMD b) 3 2 9,
    b\<lparr>PM2_5 := word_at got 3, PM10 := word_at got 5\<rparr>)"
  using frame_check9[OF assms(1), of junk] assms
  by (simp add: BYH_M_get_PM_Data_def Let_def received_full word_at_append)

lemma pm_bad:
  assumes "length got = 9" "crc_reg got \<noteq> 0"
  shows "BYH_M_get_PM_Data junk got b = (RT_ERROR, query_trace (BYH_M_CMD b) 3 2 9, b)"
  using frame_check9[OF assms(1), of junk] assms
  by (simp add: BYH_M_get_PM_Data_def Let_def)

lemma frame_check7:
  assumes "length got = 7"
  shows "word_at (received 7 junk got) 5 = CRC16_ModbusRTU (received 7 junk got) 5 \<longleftrightarrow> crc_reg got = 0"
  using frame_check[of 5 got] assms by (simp add: received_full word_at_append CRC16_ModbusRTU_def)

lemma noise_ok:
  assumes "length got = 7" "crc_reg got = 0"
  shows "BYH_M_get_noise junk got b = (RT_EOK, query_trace (BYH_M_CMD b) 2 1 7,
    b\<lparr>Noise_x10 := word_at got 3\<rparr>)"
  using frame_check7[OF assms(1), of junk] assms
  by (simp add: BYH_M_get_noise_def Let_def received_full word_at_append)

lemma noise_bad:
  assumes "length got = 7" "crc_reg got \<noteq> 0"
  shows "BYH_M_get_noise junk got b = (RT_ERROR, query_trace (BYH_M_CMD b) 2 1 7, b)"
  using frame_check7[OF assms(1), of junk] assms
  by (simp add: BYH_M_get_noise_def Let_def)

end
