(* ===== verification/Led.thy ===== *)
theory Led
  imports Font
begin

text \<open>
  The driver \<^verbatim>\<open>Mydevice/LED_12.c\<close> of the LED wall: the frame buffer \<open>LED_DATA\<close>, the text routines that
  draw into it and the quarter-scan transfer. Drawing outside the buffer or reading outside a font
  table is \<open>None\<close>. The display is three panels of 16 pixel rows, 12 bytes wide; \<open>pix\<close> reads the buffer
  by pixel row and byte column.
\<close>

section \<open>The frame buffer\<close>

type_synonym led = "u8 list list"

definition LED_wf :: "led \<Rightarrow> bool" where
  "LED_wf d = (length d = 12 \<and> list_all (\<lambda>r. length r = 48) d)"

text \<open>\<^verbatim>\<open>LED_DATA[r][c] = font[g][k]\<close>, checked.\<close>

definition led_copy :: "u8 list list \<Rightarrow> nat \<Rightarrow> nat \<Rightarrow> nat \<Rightarrow> nat \<Rightarrow> led \<Rightarrow> led option" where
  "led_copy font g k r c d =
     (if g < length font \<and> k < length (font ! g) \<and> r < length d \<and> c < length (d ! r)
      then Some (d[r := (d ! r)[c := font ! g ! k]]) else None)"

fun for_loop :: "'a list \<Rightarrow> ('a \<Rightarrow> 's \<Rightarrow> 's option) \<Rightarrow> 's \<Rightarrow> 's option" where
  "for_loop [] f s = Some s"
| "for_loop (i # is) f s = (case f i s of None \<Rightarrow> None | Some s' \<Rightarrow> for_loop is f s')"

section \<open>Drawing\<close>

text \<open>The index expressions \<^verbatim>\<open>12+j-4*i-4*y\<close> and \<^verbatim>\<open>24+j-4*i-4*y\<close> are never negative in the loops.\<close>

definition LED_ShowChar :: "u16 \<Rightarrow> u16 \<Rightarrow> u16 \<Rightarrow> u8 \<Rightarrow> led \<Rightarrow> led option" where
  "LED_ShowChar x y0 sz ch d =
     (let g = unat (ch - 0x20);
          t = unat y0 div 4;
          y = unat y0 mod 4;
          font = (if sz = 12 then ASCII_12 else ASCII_16);
          c = 4 * unat x
      in case for_loop [(if sz = 12 \<and> y = 0 then 1 else 0)..<4 - y]
                (\<lambda>i. for_loop [0..<4] (\<lambda>j. led_copy font g (12 + j - 4 * i - 4 * y) (j + 4 * t) (i + c))) d of
           None \<Rightarrow> None
         | Some d1 \<Rightarrow>
             if t \<ge> 2 then Some d1
             else for_loop [(if sz = 12 then 5 - y else 4 - y)..<4]
                    (\<lambda>i. for_loop [4..<8] (\<lambda>j. led_copy font g (24 + j - 4 * i - 4 * y) (j + 4 * t) (i + c))) d1)"

fun LED_ShowString :: "u16 \<Rightarrow> u16 \<Rightarrow> u16 \<Rightarrow> u8 list \<Rightarrow> led \<Rightarrow> led option" where
  "LED_ShowString x y sz [] d = Some d"
| "LED_ShowString x y sz (ch # str) d =
     (if ch \<le> 0x7e \<and> 0x20 \<le> ch
      then (case LED_ShowChar x y sz ch d of
              None \<Rightarrow> None
            | Some d' \<Rightarrow> if x + 1 > 11 then Some d' else LED_ShowString (x + 1) y sz str d')
      else Some d)"

text \<open>The last entry whose first byte matches, entry 0 when none does.\<close>

definition chese_lookup :: "u8 list \<Rightarrow> nat" where
  "chese_lookup str = fold (\<lambda>i index. if hd str = hd (Chese_index ! i) then i * 2 else index) [0..<10] 0"

definition LED_ShowChese :: "u16 \<Rightarrow> u16 \<Rightarrow> u16 \<Rightarrow> u8 list \<Rightarrow> led \<Rightarrow> led option" where
  "LED_ShowChese x y0 sz str d =
     (let g = chese_lookup str;
          t = unat y0 div 4;
          y = unat y0 mod 4;
          font = (if sz = 12 then Chese_12 else Chese_16);
          c = 4 * unat x
      in case for_loop [(if sz = 12 \<and> y = 0 then 1 else 0)..<4 - y]
                (\<lambda>i. for_loop [0..<4] (\<lambda>j d. case led_copy font g (12 + j - 4 * i - 4 * y) (j + 4 * t) (i + c) d of
                   None \<Rightarrow> None
                 | Some d' \<Rightarrow> led_copy font (g + 1) (12 + j - 4 * i - 4 * y) (j + 4 * t) (i + c + 4) d')) d of
           None \<Rightarrow> None
         | Some d1 \<Rightarrow>
             if t \<ge> 2 then Some d1
             else for_loop [(if sz = 12 then 5 - y else 4 - y)..<4]
                    (\<lambda>i. for_loop [4..<8] (\<lambda>j d. case led_copy font g (24 + j - 4 * i - 4 * y) (j + 4 * t) (i + c) d of
                       None \<Rightarrow> None
                     | Some d' \<Rightarrow> led_copy font (g + 1) (24 + j - 4 * i - 4 * y) (j + 4 * t) (i + c + 4) d')) d1)"

text \<open>
  The loop of \<open>LED_ShowNChese\<close> ends: the counter \<open>n\<close> falls to zero, or, started at zero, wraps and the
  column passes 10 first. A string that ends early would be read past its end: \<open>None\<close>.
\<close>

function LED_ShowNChese :: "u16 \<Rightarrow> u16 \<Rightarrow> u16 \<Rightarrow> u16 \<Rightarrow> u8 list \<Rightarrow> led \<Rightarrow> led option" where
  "LED_ShowNChese x y sz n str d =
     (if str = [] then None
      else case LED_ShowChese x y sz str d of
             None \<Rightarrow> None
           | Some d' \<Rightarrow>
               if n - 1 = 0 \<or> x + 2 > 10 then Some d'
               else LED_ShowNChese (x + 2) y sz (n - 1) (drop 2 str) d')"
  by pat_completeness auto
termination by (relation "measure (\<lambda>(x, y, sz, n, str, d). length str)") auto

definition LED_Clear :: "led \<Rightarrow> led" where
  "LED_Clear d = map (\<lambda>i. map (\<lambda>j. 0) [0..<48]) [0..<12]"

section \<open>The transfer to the panels\<close>

datatype led_op = PinOutput nat | PinWrite nat nat | SpiAttach | SpiFind | SpiConfigure
  | SpiSend "u8 list" | UsDelay nat

text \<open>Pins: 11 and 12 select the scan line, 13, 14 and 15 are the active-low enables of the panels.\<close>

definition LED_12_Init :: "led_op list" where
  "LED_12_Init =
     [PinOutput 11, PinOutput 12, PinWrite 11 0, PinWrite 12 0,
      PinOutput 13, PinWrite 13 1, PinOutput 14, PinWrite 14 1, PinOutput 15, PinWrite 15 1,
      SpiAttach, SpiFind, SpiConfigure]"

definition LED_SelectLine :: "nat \<Rightarrow> led_op list" where
  "LED_SelectLine line = [PinWrite 11 (line AND 1), PinWrite 12 (line AND 2)]"

definition LED_SendData :: "led \<Rightarrow> led_op list" where
  "LED_SendData d = concat (map (\<lambda>row.
     [PinWrite 13 1] @ LED_SelectLine row @ [SpiSend (d ! row), PinWrite 13 0, UsDelay 800, PinWrite 13 1] @
     [PinWrite 14 1] @ LED_SelectLine row @ [SpiSend (d ! (row + 4)), PinWrite 14 0, UsDelay 800, PinWrite 14 1] @
     [PinWrite 15 1] @ LED_SelectLine row @ [SpiSend (d ! (row + 8)), PinWrite 15 0, UsDelay 800, PinWrite 15 1])
     [0..<4])"

section \<open>What the display shows\<close>

text \<open>The byte at pixel row \<open>r\<close> and byte column \<open>x\<close> of the wall.\<close>

definition pix :: "led \<Rightarrow> nat \<Rightarrow> nat \<Rightarrow> u8" where
  "pix d r x = d ! (r mod 4 + 4 * (r div 16)) ! (3 - (r mod 16) div 4 + 4 * x)"

lemma LED_wf_nth: "LED_wf d \<Longrightarrow> r < 12 \<Longrightarrow> length (d ! r) = 48"
  by (simp add: LED_wf_def list_all_length)

lemma for_loop_append:
  "for_loop (xs @ ys) f s = (case for_loop xs f s of None \<Rightarrow> None | Some s' \<Rightarrow> for_loop ys f s')"
  by (induction xs arbitrary: s) (auto split: option.splits)

lemma for_loop_map: "for_loop (map h xs) f s = for_loop xs (f \<circ> h) s"
  by (induction xs arbitrary: s) (auto split: option.splits)

lemma for_loop_nested:
  "for_loop il (\<lambda>i. for_loop js (f i)) s = for_loop (List.product il js) (\<lambda>(i, j). f i j) s"
proof (induction il arbitrary: s)
  case (Cons i il)
  have "for_loop (map (Pair i) js) (\<lambda>(i, j). f i j) s = for_loop js (f i) s" for s
    by (simp add: for_loop_map comp_def)
  with Cons show ?case by (simp add: for_loop_append case_prod_unfold split: option.splits)
qed simp

lemma for_loop_nested3:
  "for_loop il (\<lambda>i. for_loop js (\<lambda>j. for_loop es (f i j))) s
   = for_loop (List.product il (List.product js es)) (\<lambda>p. f (fst p) (fst (snd p)) (snd (snd p))) s"
proof -
  have "(\<lambda>i. for_loop js (\<lambda>j. for_loop es (f i j)))
      = (\<lambda>i. for_loop (List.product js es) (\<lambda>(j, e). f i j e))"
    by (intro ext) (rule for_loop_nested)
  then show ?thesis by (simp only: for_loop_nested) (simp add: case_prod_unfold)
qed

lemma led_copy_ok:
  assumes "LED_wf d" "g < length font" "k < length (font ! g)" "r < 12" "c < 48"
  shows "\<exists>d'. led_copy font g k r c d = Some d' \<and> LED_wf d' \<and>
    (\<forall>r' < 12. \<forall>c' < 48. d' ! r' ! c' = (if r' = r \<and> c' = c then font ! g ! k else d ! r' ! c'))"
proof -
  have l: "length d = 12" "\<And>r. r < 12 \<Longrightarrow> length (d ! r) = 48"
    using assms(1) by (auto simp: LED_wf_nth) (simp add: LED_wf_def)
  have "LED_wf (d[r := (d ! r)[c := font ! g ! k]])"
    using l assms(4) by (auto simp: LED_wf_def list_all_length nth_list_update)
  with l assms(2-5) show ?thesis by (auto simp: led_copy_def nth_list_update)
qed

text \<open>A sequence of copies paints the set of its cells.\<close>

lemma paint:
  assumes "LED_wf d"
    and "\<And>p. p \<in> set ps \<Longrightarrow> G p < length font \<and> K p < length (font ! G p) \<and> R p < 12 \<and> C p < 48
      \<and> font ! G p ! K p = v (R p) (C p)"
  shows "\<exists>d'. for_loop ps (\<lambda>p. led_copy font (G p) (K p) (R p) (C p)) d = Some d' \<and> LED_wf d' \<and>
    (\<forall>r < 12. \<forall>c < 48. d' ! r ! c = (if \<exists>p \<in> set ps. R p = r \<and> C p = c then v r c else d ! r ! c))"
  using assms
proof (induction ps arbitrary: d)
  case Nil
  then show ?case by simp
next
  case (Cons p ps)
  from Cons.prems(2)[of p] have p: "G p < length font" "K p < length (font ! G p)" "R p < 12" "C p < 48"
    "font ! G p ! K p = v (R p) (C p)" by auto
  from led_copy_ok[OF Cons.prems(1) p(1-4)] obtain d1 where d1:
    "led_copy font (G p) (K p) (R p) (C p) d = Some d1" "LED_wf d1"
    "\<forall>r < 12. \<forall>c < 48. d1 ! r ! c = (if r = R p \<and> c = C p then v (R p) (C p) else d ! r ! c)"
    using p(5) by auto
  from Cons.IH[OF d1(2)] Cons.prems(2) obtain d' where d':
    "for_loop ps (\<lambda>p. led_copy font (G p) (K p) (R p) (C p)) d1 = Some d'" "LED_wf d'"
    "\<forall>r < 12. \<forall>c < 48. d' ! r ! c = (if \<exists>p \<in> set ps. R p = r \<and> C p = c then v r c else d1 ! r ! c)"
    by auto
  have "\<forall>r < 12. \<forall>c < 48. d' ! r ! c
    = (if \<exists>q \<in> set (p # ps). R q = r \<and> C q = c then v r c else d ! r ! c)"
    using d'(3) d1(3) by auto
  with d' d1(1) show ?case by auto
qed

text \<open>Both drawing routines are the same two loops over glyphs \<open>g, g + 1, \<dots>\<close> side by side.\<close>

definition draw_part :: "nat \<Rightarrow> u8 list list \<Rightarrow> nat \<Rightarrow> nat \<Rightarrow> nat \<Rightarrow> nat \<Rightarrow> nat list \<Rightarrow> nat list \<Rightarrow> led \<Rightarrow> led option" where
  "draw_part w font g k t c il js =
     for_loop il (\<lambda>i. for_loop js (\<lambda>j. for_loop [0..<w]
       (\<lambda>e. led_copy font (g + e) (k + j - 4 * i) (j + 4 * t) (i + c + 4 * e))))"

definition prow :: "nat \<Rightarrow> nat \<Rightarrow> nat" where
  "prow r c = 16 * (r div 4) + 4 * (3 - c mod 4) + r mod 4"

lemma draw_part_paint:
  assumes d: "LED_wf d" and x: "x + w \<le> 12" and t: "t < 3" and il: "set il \<subseteq> {..<4}"
    and k: "\<And>i j. i \<in> set il \<Longrightarrow> j \<in> set js \<Longrightarrow> j + 4 * t < 12 \<and> 4 * i \<le> k + j
        \<and> y + (k + j - 4 * i) = prow (j + 4 * t) i \<and> k + j - 4 * i < h"
    and f: "\<And>e. e < w \<Longrightarrow> g + e < length font \<and> length (font ! (g + e)) = h"
  shows "\<exists>d'. draw_part w font g k t (4 * x) il js d = Some d' \<and> LED_wf d' \<and>
    (\<forall>r < 12. \<forall>c < 48. d' ! r ! c =
      (if (\<exists>i \<in> set il. \<exists>j \<in> set js. \<exists>e < w. j + 4 * t = r \<and> i + 4 * x + 4 * e = c)
       then font ! (g + (c div 4 - x)) ! (prow r c - y) else d ! r ! c))"
proof -
  let ?ps = "List.product il (List.product js [0..<w])"
  let ?G = "\<lambda>(i, j, e). g + e" and ?K = "\<lambda>(i, j, e). k + j - 4 * i"
    and ?R = "\<lambda>(i::nat, j, e::nat). j + 4 * t" and ?C = "\<lambda>(i, j::nat, e). i + 4 * x + 4 * e"
  have "draw_part w font g k t (4 * x) il js d
      = for_loop ?ps (\<lambda>p. led_copy font (?G p) (?K p) (?R p) (?C p)) d"
    unfolding draw_part_def for_loop_nested3 by (simp add: case_prod_unfold)
  moreover have "?G p < length font \<and> ?K p < length (font ! ?G p) \<and> ?R p < 12 \<and> ?C p < 48
      \<and> font ! ?G p ! ?K p = font ! (g + (?C p div 4 - x)) ! (prow (?R p) (?C p) - y)" if p: "p \<in> set ?ps" for p
  proof -
    obtain i j e where q: "p = (i, j, e)" "i \<in> set il" "j \<in> set js" "e < w" using p by auto
    from q(2) il have i: "i < 4" by auto
    have c: "(i + 4 * x + 4 * e) div 4 = x + e" "(i + 4 * x + 4 * e) mod 4 = i" using i by presburger+
    then have "prow (j + 4 * t) (i + 4 * x + 4 * e) = prow (j + 4 * t) i" using i by (simp add: prow_def)
    moreover from k[OF q(2,3)] have "prow (j + 4 * t) i - y = k + j - 4 * i" by linarith
    ultimately show ?thesis using k[OF q(2,3)] c(1) f[OF q(4)] q x i by simp
  qed
  ultimately show ?thesis
    using paint[OF d, of ?ps ?G font ?K ?R ?C "\<lambda>r c. font ! (g + (c div 4 - x)) ! (prow r c - y)"]
    by (simp add: Bex_def)
qed

lemma quad_eq:
  assumes "i < 4" "k < (4 :: nat)"
  shows "i + 4 * a = k + 4 * b \<longleftrightarrow> i = k \<and> a = b"
proof
  assume e: "i + 4 * a = k + 4 * b"
  have "(i + 4 * a) mod 4 = i" "(k + 4 * b) mod 4 = k" using assms by simp_all
  with e show "i = k \<and> a = b" by simp
qed simp

lemma row_split:
  fixes R :: nat
  assumes "R < 48"
  obtains q s m where "R = 16 * q + 4 * s + m" "q < 3" "s < 4" "m < 4"
    "R div 16 = q" "R mod 16 div 4 = s" "R mod 4 = m"
proof
  have "R = 16 * (R div 16) + R mod 16" by simp
  moreover have "R mod 16 = 4 * (R mod 16 div 4) + (R mod 16) mod 4" by (rule mult_div_mod_eq[symmetric])
  moreover have "(R mod 16) mod 4 = R mod 4" by (rule mod_mod_cancel) simp
  ultimately show "R = 16 * (R div 16) + 4 * (R mod 16 div 4) + R mod 4" by linarith
qed (use assms in auto)

text \<open>The same in pixel rows: byte group \<open>i\<close> holds the four rows from \<open>4 * (3 - i)\<close> of a panel.\<close>

lemma draw_part_pix:
  assumes d: "LED_wf d" and x: "x + w \<le> 12" and t: "t < 3" and il: "set il \<subseteq> {..<4}"
    and k: "\<And>i j. i \<in> set il \<Longrightarrow> j \<in> set js \<Longrightarrow> j + 4 * t < 12 \<and> 4 * i \<le> k + j
        \<and> y + (k + j - 4 * i) = prow (j + 4 * t) i \<and> k + j - 4 * i < h"
    and f: "\<And>e. e < w \<Longrightarrow> g + e < length font \<and> length (font ! (g + e)) = h"
  shows "\<exists>d'. draw_part w font g k t (4 * x) il js d = Some d' \<and> LED_wf d' \<and>
    (\<forall>R < 48. \<forall>X < 12. pix d' R X =
      (if x \<le> X \<and> X < x + w \<and> 3 - R mod 16 div 4 \<in> set il \<and> (\<exists>j \<in> set js. j + 4 * t = R mod 4 + 4 * (R div 16))
       then font ! (g + (X - x)) ! (R - y) else pix d R X))"
proof -
  from draw_part_paint[OF d x t il k f] obtain d' where d': "draw_part w font g k t (4 * x) il js d = Some d'"
    "LED_wf d'" "\<forall>r < 12. \<forall>c < 48. d' ! r ! c =
      (if (\<exists>i \<in> set il. \<exists>j \<in> set js. \<exists>e < w. j + 4 * t = r \<and> i + 4 * x + 4 * e = c)
       then font ! (g + (c div 4 - x)) ! (prow r c - y) else d ! r ! c)" by blast
  have "pix d' R X = (if x \<le> X \<and> X < x + w \<and> 3 - R mod 16 div 4 \<in> set il
      \<and> (\<exists>j \<in> set js. j + 4 * t = R mod 4 + 4 * (R div 16))
      then font ! (g + (X - x)) ! (R - y) else pix d R X)" if R: "R < 48" and X: "X < 12" for R X
  proof -
    obtain q s m where q: "R = 16 * q + 4 * s + m" "q < 3" "s < 4" "m < 4"
      and dm: "R div 16 = q" "R mod 16 div 4 = s" "R mod 4 = m" by (rule row_split[OF R])
    define r c k where "r = m + 4 * q" and "c = 3 - s + 4 * X" and "k = 3 - s"
    have k: "k < 4" "s = 3 - k" "c = k + 4 * X" using q(3) unfolding k_def c_def by auto
    have rc: "r < 12" "c < 48" using q k X unfolding r_def by linarith+
    have px: "pix e R X = e ! r ! c" for e unfolding r_def c_def pix_def dm ..
    have pr: "prow r c = R" "c div 4 = X" using q k(1) unfolding k(2,3) prow_def r_def by auto
    have "i + 4 * x + 4 * e = c \<longleftrightarrow> i = k \<and> x + e = X" if "i \<in> set il" for i e
      using il that quad_eq[of i k "x + e" X] k(1) unfolding k(3) by auto
    moreover have "(\<exists>e < w. x + e = X) \<longleftrightarrow> x \<le> X \<and> X < x + w" by (auto intro: exI[of _ "X - x"])
    ultimately have "(\<exists>i \<in> set il. \<exists>j \<in> set js. \<exists>e < w. j + 4 * t = r \<and> i + 4 * x + 4 * e = c)
      \<longleftrightarrow> x \<le> X \<and> X < x + w \<and> k \<in> set il \<and> (\<exists>j \<in> set js. j + 4 * t = r)" by blast
    then show ?thesis
      using d'(3)[rule_format, OF rc] unfolding px pr dm r_def[symmetric] k_def[symmetric] by simp
  qed
  with d'(1,2) show ?thesis by blast
qed

definition draw :: "nat \<Rightarrow> nat \<Rightarrow> u8 list list \<Rightarrow> nat \<Rightarrow> nat \<Rightarrow> nat \<Rightarrow> led \<Rightarrow> led option" where
  "draw w h font g x y d =
     (let t = y div 4; y' = y mod 4
      in case draw_part w font g (12 - 4 * y') t (4 * x) [(if h = 12 \<and> y' = 0 then 1 else 0)..<4 - y'] [0..<4] d of
           None \<Rightarrow> None
         | Some d1 \<Rightarrow>
             if t \<ge> 2 then Some d1
             else draw_part w font g (24 - 4 * y') t (4 * x) [(if h = 12 then 5 - y' else 4 - y')..<4] [4..<8] d1)"

lemma draw_glyph:
  assumes d: "LED_wf d" and x: "x + w \<le> 12" and y: "y < 12" and h: "h = 12 \<or> h = 16"
    and f: "\<And>e. e < w \<Longrightarrow> g + e < length font \<and> length (font ! (g + e)) = h"
  shows "\<exists>d'. draw w h font g x y d = Some d' \<and> LED_wf d' \<and>
    (\<forall>R < 48. \<forall>X < 12. pix d' R X =
      (if x \<le> X \<and> X < x + w \<and> 4 * y \<le> R \<and> R < 4 * y + h
       then font ! (g + (X - x)) ! (R - 4 * y) else pix d R X))"
proof -
  define t where "t = y div 4"
  define y' where "y' = y mod 4"
  let ?i1 = "[(if h = 12 \<and> y' = 0 then 1 else 0)..<4 - y']" and ?i2 = "[(if h = 12 then 5 - y' else 4 - y')..<4]"
  have ty: "y = 4 * t + y'" "y' < 4" "t < 3" using y by (auto simp: t_def y'_def)
  have r1: "(j + 4 * t) div 4 = t" "(j + 4 * t) mod 4 = j" if "j < 4" for j using that by simp_all
  have r2: "(j + 4 * t) div 4 = t + 1" "(j + 4 * t) mod 4 = j - 4" if "4 \<le> j" "j < 8" for j
    using that by presburger+
  have p1: "j + 4 * t < 12 \<and> 4 * i \<le> 12 - 4 * y' + j \<and>
      4 * y + (12 - 4 * y' + j - 4 * i) = prow (j + 4 * t) i \<and> 12 - 4 * y' + j - 4 * i < h"
    if "i \<in> set ?i1" "j \<in> set [0..<4]" for i j
    using that ty h r1[of j] by (auto simp: prow_def split: if_splits)
  have p2: "j + 4 * t < 12 \<and> 4 * i \<le> 24 - 4 * y' + j \<and>
      4 * y + (24 - 4 * y' + j - 4 * i) = prow (j + 4 * t) i \<and> 24 - 4 * y' + j - 4 * i < h"
    if "t < 2" "i \<in> set ?i2" "j \<in> set [4..<8]" for i j
    using that ty h r2[of j] by (auto simp: prow_def split: if_splits)
  have s: "set ?i1 \<subseteq> {..<4}" "set ?i2 \<subseteq> {..<4}" by auto
  obtain d1 where d1: "draw_part w font g (12 - 4 * y') t (4 * x) ?i1 [0..<4] d = Some d1" "LED_wf d1"
    "\<forall>R < 48. \<forall>X < 12. pix d1 R X = (if x \<le> X \<and> X < x + w \<and> 3 - R mod 16 div 4 \<in> set ?i1
        \<and> (\<exists>j \<in> set [0..<4]. j + 4 * t = R mod 4 + 4 * (R div 16))
      then font ! (g + (X - x)) ! (R - 4 * y) else pix d R X)"
    by (rule exE[OF draw_part_pix[OF d x ty(3) s(1) p1 f]]) (assumption | elim conjE | rule that)+
  have "\<exists>d2. (if t \<ge> 2 then Some d1
      else draw_part w font g (24 - 4 * y') t (4 * x) ?i2 [4..<8] d1) = Some d2 \<and> LED_wf d2 \<and>
    (\<forall>R < 48. \<forall>X < 12. pix d2 R X = (if t < 2 \<and> x \<le> X \<and> X < x + w \<and> 3 - R mod 16 div 4 \<in> set ?i2
        \<and> (\<exists>j \<in> set [4..<8]. j + 4 * t = R mod 4 + 4 * (R div 16))
      then font ! (g + (X - x)) ! (R - 4 * y) else pix d1 R X))"
  proof (cases "t < 2")
    case True
    then have "\<not> t \<ge> 2" by simp
    with draw_part_pix[OF d1(2) x ty(3) s(2) p2[OF True] f] True show ?thesis by (simp only: if_False simp_thms)
  next
    case False
    with d1(2) show ?thesis by auto
  qed
  then obtain d2 where d2: "draw w h font g x y d = Some d2" "LED_wf d2"
    "\<forall>R < 48. \<forall>X < 12. pix d2 R X = (if t < 2 \<and> x \<le> X \<and> X < x + w \<and> 3 - R mod 16 div 4 \<in> set ?i2
        \<and> (\<exists>j \<in> set [4..<8]. j + 4 * t = R mod 4 + 4 * (R div 16))
      then font ! (g + (X - x)) ! (R - 4 * y) else pix d1 R X)"
    using d1(1) unfolding draw_def Let_def t_def y'_def by (elim exE conjE) (simp only: option.case)
  have rows: "4 * y \<le> R \<and> R < 4 * y + h \<longleftrightarrow>
      (3 - R mod 16 div 4 \<in> set ?i1 \<and> (\<exists>j \<in> set [0..<4]. j + 4 * t = R mod 4 + 4 * (R div 16))) \<or>
      (t < 2 \<and> 3 - R mod 16 div 4 \<in> set ?i2 \<and> (\<exists>j \<in> set [4..<8]. j + 4 * t = R mod 4 + 4 * (R div 16)))"
    if R: "R < 48" for R
  proof -
    obtain q s m where q: "R = 16 * q + 4 * s + m" "q < 3" "s < 4" "m < 4"
      and dm: "R div 16 = q" "R mod 16 div 4 = s" "R mod 4 = m" by (rule row_split[OF R])
    have "(\<exists>j \<in> set [0..<4]. j + 4 * t = m + 4 * q) \<longleftrightarrow> q = t"
      "(\<exists>j \<in> set [4..<8]. j + 4 * t = m + 4 * q) \<longleftrightarrow> q = t + 1"
      using q(4) by (auto intro: bexI[of _ m] bexI[of _ "m + 4"])
    moreover have "4 * y \<le> R \<and> R < 4 * y + h \<longleftrightarrow> q = t \<and> 3 - s \<in> set ?i1 \<or> t < 2 \<and> q = t + 1 \<and> 3 - s \<in> set ?i2"
    proof (cases "q = t \<or> q = t + 1")
      case True
      have "s = 0 \<or> s = 1 \<or> s = 2 \<or> s = 3" using q(3) by linarith
      with True q ty h show ?thesis by (elim disjE) (auto split: if_splits)
    next
      case False
      then have "\<not> (4 * y \<le> R \<and> R < 4 * y + h)" using q ty h by linarith
      with False show ?thesis by blast
    qed
    ultimately show ?thesis unfolding dm by blast
  qed
  have "pix d2 R X = (if x \<le> X \<and> X < x + w \<and> 4 * y \<le> R \<and> R < 4 * y + h
       then font ! (g + (X - x)) ! (R - 4 * y) else pix d R X)" if R: "R < 48" and X: "X < 12" for R X
    unfolding d2(3)[rule_format, OF R X] d1(3)[rule_format, OF R X] rows[OF R]
    by (simp only: if_bool_eq_conj conj_assoc simp_thms split: if_split) argo
  with d2(1,2) show ?thesis by blast
qed

section \<open>The text routines\<close>

lemma for_loop_2:
  "for_loop [0..<2] f s = (case f 0 s of None \<Rightarrow> None | Some s' \<Rightarrow> f 1 s')"
  by (simp add: upt_rec split: option.splits)

lemma one_copy:
  "for_loop [0..<1] (\<lambda>e. led_copy font (g + e) k r (i + c + 4 * e)) = led_copy font g k r (i + c)"
  by (rule ext) (simp add: upt_rec split: option.splits)

lemma two_copies:
  "for_loop [0..<2] (\<lambda>e. led_copy font (g + e) k r (i + c + 4 * e)) =
   (\<lambda>d. case led_copy font g k r (i + c) d of None \<Rightarrow> None | Some d' \<Rightarrow> led_copy font (g + 1) k r (i + c + 4) d')"
  by (rule ext) (simp only: for_loop_2 mult_0_right add_0_right mult_1_right)

lemma glyph_index:
  "12 + j - 4 * i - 4 * (y mod 4) = 12 - 4 * (y mod 4) + j - 4 * (i :: nat)"
  "24 + j - 4 * i - 4 * (y mod 4) = 24 - 4 * (y mod 4) + j - 4 * (i :: nat)"
  using mod_less_divisor[of 4 y] by linarith+

definition font_height :: "u16 \<Rightarrow> nat" where "font_height sz = (if sz = 12 then 12 else 16)"
definition ascii_font :: "u16 \<Rightarrow> u8 list list" where "ascii_font sz = (if sz = 12 then ASCII_12 else ASCII_16)"
definition chese_font :: "u16 \<Rightarrow> u8 list list" where "chese_font sz = (if sz = 12 then Chese_12 else Chese_16)"

lemma LED_ShowChar_draw:
  "LED_ShowChar x y sz ch d = draw 1 (font_height sz) (ascii_font sz) (unat (ch - 0x20)) (unat x) (unat y) d"
  unfolding LED_ShowChar_def draw_def draw_part_def Let_def font_height_def ascii_font_def one_copy glyph_index
  by (cases "sz = 12") simp_all

lemma LED_ShowChese_draw:
  "LED_ShowChese x y sz str d =
   draw 2 (font_height sz) (chese_font sz) (chese_lookup str) (unat x) (unat y) d"
  unfolding LED_ShowChese_def draw_def draw_part_def Let_def two_copies font_height_def chese_font_def glyph_index
  by (cases "sz = 12") simp_all

lemma font_height: "font_height sz = 12 \<or> font_height sz = 16"
  by (simp add: font_height_def)

lemma ascii_glyph: "n < 95 \<Longrightarrow> n < length (ascii_font sz) \<and> length (ascii_font sz ! n) = font_height sz"
  by (simp add: ascii_font_def font_height_def font_lengths glyph_lengths)

lemma chese_glyph:
  "n < (if sz = 12 then 20 else 18) \<Longrightarrow> n < length (chese_font sz) \<and> length (chese_font sz ! n) = font_height sz"
  by (auto simp: chese_font_def font_height_def font_lengths glyph_lengths split: if_splits)

definition printable :: "u8 \<Rightarrow> bool" where "printable ch = (ch \<le> 0x7e \<and> 0x20 \<le> ch)"

lemma printable_glyph: "printable ch \<Longrightarrow> unat (ch - 0x20) < 95"
proof -
  assume "printable ch"
  then have "unat ch \<le> 126" "unat (0x20 :: u8) \<le> unat ch" "(0x20 :: u8) \<le> ch"
    by (auto simp: printable_def word_le_nat_alt)
  then show ?thesis by (simp add: unat_sub)
qed

definition glyph_row :: "u16 \<Rightarrow> u8 \<Rightarrow> nat \<Rightarrow> u8" where
  "glyph_row sz ch r = ascii_font sz ! unat (ch - 0x20) ! r"

lemma LED_ShowChar_pix:
  assumes "LED_wf d" "unat x < 12" "unat y < 12" "printable ch"
  shows "\<exists>d'. LED_ShowChar x y sz ch d = Some d' \<and> LED_wf d' \<and>
    (\<forall>R < 48. \<forall>X < 12. pix d' R X =
      (if X = unat x \<and> 4 * unat y \<le> R \<and> R < 4 * unat y + font_height sz
       then glyph_row sz ch (R - 4 * unat y) else pix d R X))"
proof -
  have f: "unat (ch - 0x20) + e < length (ascii_font sz) \<and>
      length (ascii_font sz ! (unat (ch - 0x20) + e)) = font_height sz" if "e < 1" for e
    using ascii_glyph[OF printable_glyph[OF assms(4)]] that by simp
  have x: "unat x + 1 \<le> 12" using assms(2) by simp
  have "unat x \<le> X \<and> X < unat x + 1 \<and> P \<longleftrightarrow> X = unat x \<and> P" for X P by auto
  moreover have "ascii_font sz ! (unat (ch - 0x20) + (X - unat x)) ! (R - 4 * unat y) = glyph_row sz ch (R - 4 * unat y)"
    if "X = unat x" for X R using that by (simp add: glyph_row_def)
  ultimately show ?thesis
    using draw_glyph[OF assms(1) x assms(3) font_height f] unfolding LED_ShowChar_draw
    by (simp cong: if_cong conj_cong)
qed

text \<open>A string: one glyph per column until the first character that is not printable, or the right edge.\<close>

lemma LED_ShowString_pix:
  assumes "LED_wf d" "unat x < 12" "unat y < 12"
  shows "\<exists>d'. LED_ShowString x y sz str d = Some d' \<and> LED_wf d' \<and>
    (\<forall>R < 48. \<forall>X < 12. pix d' R X =
      (if unat x \<le> X \<and> X - unat x < length (takeWhile printable str)
          \<and> 4 * unat y \<le> R \<and> R < 4 * unat y + font_height sz
       then glyph_row sz (str ! (X - unat x)) (R - 4 * unat y) else pix d R X))"
  using assms
proof (induction x y sz str d rule: LED_ShowString.induct)
  case (1 x y sz d)
  then show ?case by simp
next
  case (2 x y sz ch str d)
  show ?case
  proof (cases "printable ch")
    case False
    then have "LED_ShowString x y sz (ch # str) d = Some d" by (auto simp: printable_def)
    with False 2(2) show ?thesis by simp
  next
    case p: True
    then have c: "ch \<le> 0x7e \<and> 0x20 \<le> ch" by (simp add: printable_def)
    from LED_ShowChar_pix[OF 2(2-4) p, of sz] obtain d1 where d1: "LED_ShowChar x y sz ch d = Some d1" "LED_wf d1"
      "\<And>R X. R < 48 \<Longrightarrow> X < 12 \<Longrightarrow> pix d1 R X = (if X = unat x \<and> 4 * unat y \<le> R \<and> R < 4 * unat y + font_height sz
         then glyph_row sz ch (R - 4 * unat y) else pix d R X)" by blast
    have x1: "unat (x + 1) = unat x + 1" using 2(3) by (simp add: unat_Suc_word)
    show ?thesis
    proof (cases "x + 1 > 11")
      case True
      then have x11: "unat x = 11" using 2(3) x1 by (simp add: word_less_nat_alt)
      have s: "LED_ShowString x y sz (ch # str) d = Some d1" using c True d1(1) by simp
      have "pix d1 R X = (if unat x \<le> X \<and> X - unat x < length (takeWhile printable (ch # str))
          \<and> 4 * unat y \<le> R \<and> R < 4 * unat y + font_height sz
          then glyph_row sz ((ch # str) ! (X - unat x)) (R - 4 * unat y) else pix d R X)"
        if "R < 48" "X < 12" for R X
        using d1(3)[OF that] that x11 p by auto
      with s d1(2) show ?thesis by blast
    next
      case False
      then have lt: "unat (x + 1) < 12" by (simp add: word_less_nat_alt)
      from 2(1)[OF c d1(1) False d1(2) lt 2(4)] obtain d2 where
        d2: "LED_ShowString (x + 1) y sz str d1 = Some d2" "LED_wf d2"
        "\<And>R X. R < 48 \<Longrightarrow> X < 12 \<Longrightarrow> pix d2 R X = (if unat (x + 1) \<le> X
          \<and> X - unat (x + 1) < length (takeWhile printable str) \<and> 4 * unat y \<le> R \<and> R < 4 * unat y + font_height sz
          then glyph_row sz (str ! (X - unat (x + 1))) (R - 4 * unat y) else pix d1 R X)" by blast
      have s: "LED_ShowString x y sz (ch # str) d = Some d2" using c False d1(1) d2(1) by simp
      have "pix d2 R X = (if unat x \<le> X \<and> X - unat x < length (takeWhile printable (ch # str))
          \<and> 4 * unat y \<le> R \<and> R < 4 * unat y + font_height sz
          then glyph_row sz ((ch # str) ! (X - unat x)) (R - 4 * unat y) else pix d R X)"
        if "R < 48" "X < 12" for R X
      proof (cases "X - unat x")
        case 0
        with d2(3)[OF that] d1(3)[OF that] x1 p show ?thesis by auto
      next
        case (Suc n)
        then have "X - unat (x + 1) = n" "unat x \<le> X" "unat (x + 1) \<le> X" "X \<noteq> unat x" using x1 by auto
        with d2(3)[OF that] d1(3)[OF that] Suc p show ?thesis by simp
      qed
      with s d2(2) show ?thesis by blast
    qed
  qed
qed

section \<open>Chinese characters\<close>

definition chese_row :: "u16 \<Rightarrow> u8 list \<Rightarrow> nat \<Rightarrow> nat \<Rightarrow> u8" where
  "chese_row sz str half r = chese_font sz ! (chese_lookup str + half) ! r"

lemma chese_lookup_index: "i < 10 \<Longrightarrow> chese_lookup (Chese_index ! i @ rest) = 2 * i"
proof -
  have "list_all (\<lambda>i. chese_lookup (Chese_index ! i @ rest) = 2 * i) [0..<10]"
    by (simp add: chese_lookup_def Chese_index_def upt_rec)
  then show "i < 10 \<Longrightarrow> ?thesis" by (simp add: list_all_iff)
qed

lemma chese_lookup_range: "chese_lookup str < 20 \<and> even (chese_lookup str)"
proof -
  have "fold (\<lambda>i index. if hd str = hd (Chese_index ! i) then i * 2 else index) il n < 20 \<and>
      even (fold (\<lambda>i index. if hd str = hd (Chese_index ! i) then i * 2 else index) il n)"
    if "n < 20" "even n" "\<forall>i \<in> set il. i < 10" for il n
    using that by (induction il arbitrary: n) auto
  from this[of 0 "[0..<10]"] show ?thesis by (simp add: chese_lookup_def)
qed

lemma LED_ShowChese_pix:
  assumes "LED_wf d" "unat x < 11" "unat y < 12" "sz = 12 \<or> chese_lookup str \<noteq> 18"
  shows "\<exists>d'. LED_ShowChese x y sz str d = Some d' \<and> LED_wf d' \<and>
    (\<forall>R < 48. \<forall>X < 12. pix d' R X =
      (if unat x \<le> X \<and> X < unat x + 2 \<and> 4 * unat y \<le> R \<and> R < 4 * unat y + font_height sz
       then chese_row sz str (X - unat x) (R - 4 * unat y) else pix d R X))"
proof -
  have x: "unat x + 2 \<le> 12" using assms(2) by simp
  have "chese_lookup str + 1 < (if sz = 12 then 20 else 18)"
    using chese_lookup_range[of str] assms(4) by (auto elim!: evenE; presburger)
  then have f: "chese_lookup str + e < length (chese_font sz) \<and>
      length (chese_font sz ! (chese_lookup str + e)) = font_height sz" if "e < 2" for e
    using that by (intro chese_glyph) auto
  show ?thesis
    using draw_glyph[OF assms(1) x assms(3) font_height f] unfolding LED_ShowChese_draw chese_row_def .
qed

text \<open>The table of the large font is one character shorter than the index.\<close>

lemma LED_ShowChese_missing:
  assumes "sz \<noteq> 12" "chese_lookup str = 18" "unat y < 12"
  shows "LED_ShowChese x y sz str d = None"
proof -
  obtain n where n: "4 - unat y mod 4 = Suc n"
    using mod_less_divisor[of 4 "unat y"] by (metis Suc_diff_Suc zero_less_numeral)
  have "[0..<Suc n] = 0 # [Suc 0..<Suc n]" "[0..<4] = 0 # [Suc 0..<4]" by (simp_all add: upt_rec)
  then show ?thesis
    using assms(1,2) by (simp add: LED_ShowChese_def n led_copy_def font_lengths del: upt_Suc)
qed

text \<open>A line of characters.\<close>

lemma LED_ShowNChese_pix:
  assumes "LED_wf d" "unat x < 11" "unat y < 12" "n \<noteq> 0" "unat x + 2 * unat n \<le> 12" "2 * unat n \<le> length str"
    and "\<forall>k < unat n. sz = 12 \<or> chese_lookup (drop (2 * k) str) \<noteq> 18"
  shows "\<exists>d'. LED_ShowNChese x y sz n str d = Some d' \<and> LED_wf d' \<and>
    (\<forall>R < 48. \<forall>X < 12. pix d' R X =
      (if unat x \<le> X \<and> X < unat x + 2 * unat n \<and> 4 * unat y \<le> R \<and> R < 4 * unat y + font_height sz
       then chese_row sz (drop (2 * ((X - unat x) div 2)) str) ((X - unat x) mod 2) (R - 4 * unat y)
       else pix d R X))"
  using assms
proof (induction "unat n" arbitrary: x n str d)
  case 0
  then show ?case by (simp add: unat_eq_0)
next
  case (Suc m)
  have m: "unat (n - 1) = m" using Suc.hyps(2) Suc.prems(4) by (simp add: unat_dec_word)
  have str: "str \<noteq> []" using Suc.prems(6) Suc.hyps(2) by auto
  have "sz = 12 \<or> chese_lookup str \<noteq> 18" using Suc.prems(7)[rule_format, of 0] Suc.hyps(2) by simp
  from LED_ShowChese_pix[OF Suc.prems(1-3) this] obtain d1 where
    d1: "LED_ShowChese x y sz str d = Some d1" "LED_wf d1"
      "\<And>R X. R < 48 \<Longrightarrow> X < 12 \<Longrightarrow> pix d1 R X =
      (if unat x \<le> X \<and> X < unat x + 2 \<and> 4 * unat y \<le> R \<and> R < 4 * unat y + font_height sz
       then chese_row sz str (X - unat x) (R - 4 * unat y) else pix d R X)" by blast
  have x2: "unat (x + 2) = unat x + 2" using Suc.prems(2) by (simp add: unat_word_ariths)
  show ?case
  proof (cases m)
    case 0
    then have n1: "n - 1 = 0" using m by (simp add: unat_eq_0)
    have s: "LED_ShowNChese x y sz n str d = Some d1" using str d1(1) n1 by (subst LED_ShowNChese.simps) simp
    have "pix d1 R X = (if unat x \<le> X \<and> X < unat x + 2 * unat n \<and> 4 * unat y \<le> R \<and> R < 4 * unat y + font_height sz
       then chese_row sz (drop (2 * ((X - unat x) div 2)) str) ((X - unat x) mod 2) (R - 4 * unat y)
       else pix d R X)" if "R < 48" "X < 12" for R X
    proof -
      have "(X - unat x) div 2 = 0" "(X - unat x) mod 2 = X - unat x" if "X < unat x + 2" using that by auto
      then show ?thesis using d1(3)[OF that] 0 Suc.hyps(2) by auto
    qed
    with s d1(2) show ?thesis by blast
  next
    case (Suc m')
    then have n1: "n - 1 \<noteq> 0" and lt: "unat (x + 2) < 11" "\<not> x + 2 > 10"
      using m x2 Suc.prems(5) Suc.hyps(2) by (auto simp: word_less_nat_alt)
    have "\<exists>d'. LED_ShowNChese (x + 2) y sz (n - 1) (drop 2 str) d1 = Some d' \<and> LED_wf d' \<and>
    (\<forall>R < 48. \<forall>X < 12. pix d' R X =
      (if unat (x + 2) \<le> X \<and> X < unat (x + 2) + 2 * unat (n - 1) \<and> 4 * unat y \<le> R \<and> R < 4 * unat y + font_height sz
       then chese_row sz (drop (2 * ((X - unat (x + 2)) div 2)) (drop 2 str)) ((X - unat (x + 2)) mod 2) (R - 4 * unat y)
       else pix d1 R X))"
    proof (rule Suc.hyps(1)[OF m[symmetric] d1(2) lt(1) Suc.prems(3) n1])
      show "unat (x + 2) + 2 * unat (n - 1) \<le> 12" using x2 m Suc.hyps(2) Suc.prems(5) by simp
      show "2 * unat (n - 1) \<le> length (drop 2 str)" using m Suc.hyps(2) Suc.prems(6) by simp
      show "\<forall>k < unat (n - 1). sz = 12 \<or> chese_lookup (drop (2 * k) (drop 2 str)) \<noteq> 18"
        using Suc.prems(7)[rule_format, of "Suc k" for k] m Suc.hyps(2) by (simp add: add.commute)
    qed
    then obtain d2 where d2: "LED_ShowNChese (x + 2) y sz (n - 1) (drop 2 str) d1 = Some d2" "LED_wf d2"
      "\<And>R X. R < 48 \<Longrightarrow> X < 12 \<Longrightarrow> pix d2 R X =
      (if unat (x + 2) \<le> X \<and> X < unat (x + 2) + 2 * unat (n - 1) \<and> 4 * unat y \<le> R \<and> R < 4 * unat y + font_height sz
       then chese_row sz (drop (2 * ((X - unat (x + 2)) div 2)) (drop 2 str)) ((X - unat (x + 2)) mod 2) (R - 4 * unat y)
       else pix d1 R X)" by blast
    have s: "LED_ShowNChese x y sz n str d = Some d2"
      using str d1(1) n1 lt(2) d2(1) by (subst LED_ShowNChese.simps) simp
    have "pix d2 R X = (if unat x \<le> X \<and> X < unat x + 2 * unat n \<and> 4 * unat y \<le> R \<and> R < 4 * unat y + font_height sz
       then chese_row sz (drop (2 * ((X - unat x) div 2)) str) ((X - unat x) mod 2) (R - 4 * unat y)
       else pix d R X)" if RX: "R < 48" "X < 12" for R X
    proof (cases "unat x + 2 \<le> X")
      case True
      then obtain k where k: "X = unat x + 2 + k" using le_Suc_ex by blast
      show ?thesis using d2(3)[OF RX] d1(3)[OF RX] x2 m Suc.hyps(2) unfolding k
        by (simp add: add.commute)
    next
      case False
      then have "(X - unat x) div 2 = 0" "(X - unat x) mod 2 = X - unat x" by auto
      then show ?thesis using d2(3)[OF RX] d1(3)[OF RX] False x2 Suc.hyps(2) by auto
    qed
    with s d2(2) show ?thesis by blast
  qed
qed

section \<open>The scan\<close>

text \<open>
  What a trace of pin and bus operations makes visible: when the enable of a panel is low during a delay, the
  panel shows on the selected scan line the bytes last shifted out; \<open>glitch\<close> records that a scan line was
  selected or bytes were shifted while some panel was lit.
\<close>

record scan = pins :: "nat \<Rightarrow> nat" shifted :: "u8 list" shown :: "(nat \<times> nat \<times> u8 list) list" glitch :: bool

definition lit :: "scan \<Rightarrow> bool" where
  "lit s = (pins s 13 = 0 \<or> pins s 14 = 0 \<or> pins s 15 = 0)"

fun scan_step :: "led_op \<Rightarrow> scan \<Rightarrow> scan" where
  "scan_step (PinWrite p v) s =
     s\<lparr>pins := (pins s)(p := v), glitch := (glitch s \<or> ((p = 11 \<or> p = 12) \<and> lit s))\<rparr>"
| "scan_step (SpiSend bs) s = s\<lparr>shifted := bs, glitch := (glitch s \<or> lit s)\<rparr>"
| "scan_step (UsDelay n) s =
     s\<lparr>shown := shown s @ [(e, (if pins s 11 \<noteq> 0 then 1 else 0) + (if pins s 12 \<noteq> 0 then 2 else 0), shifted s).
                  e \<leftarrow> [13, 14, 15], pins s e = 0]\<rparr>"
| "scan_step _ s = s"

definition scan_run :: "led_op list \<Rightarrow> scan \<Rightarrow> scan" where
  "scan_run ops s = fold scan_step ops s"

lemma LED_SendData_shows:
  assumes "\<not> lit s"
  shows "shown (scan_run (LED_SendData d) s) = shown s @
      concat (map (\<lambda>row. [(13, row, d ! row), (14, row, d ! (row + 4)), (15, row, d ! (row + 8))]) [0..<4])
    \<and> \<not> lit (scan_run (LED_SendData d) s) \<and> glitch (scan_run (LED_SendData d) s) = glitch s"
proof -
  have "[0..<4] = [0, 1, 2, 3 :: nat]" by (simp add: upt_rec)
  then show ?thesis
    using assms by (simp add: scan_run_def LED_SendData_def LED_SelectLine_def lit_def)
qed

lemma LED_Init_dark: "\<not> lit (scan_run LED_12_Init s)"
  by (simp add: scan_run_def LED_12_Init_def lit_def)

lemma LED_Clear_pix: "LED_wf (LED_Clear d) \<and> (\<forall>R < 48. \<forall>X < 12. pix (LED_Clear d) R X = 0)"
proof -
  have "pix (LED_Clear d) R X = 0" if R: "R < 48" and X: "X < 12" for R X
  proof -
    obtain q s m where q: "R = 16 * q + 4 * s + m" "q < 3" "s < 4" "m < 4"
      and dm: "R div 16 = q" "R mod 16 div 4 = s" "R mod 4 = m" by (rule row_split[OF R])
    then have "m + 4 * q < 12" "3 - s + 4 * X < 48" using X by linarith+
    then show ?thesis by (simp add: pix_def LED_Clear_def dm del: upt_Suc)
  qed
  then show ?thesis by (simp add: LED_Clear_def LED_wf_def list_all_iff)
qed

end
