(* ===== verification/AppProps.thy ===== *)
theory AppProps
  imports Byhm Led
begin

text \<open>Properties of the station's own drivers: the weather sensor and the LED wall.\<close>

section \<open>The weather sensor\<close>

text \<open>Whatever two readings the sensor puts into a well-formed answer, the query decodes exactly them: humidity
  and temperature from one frame, the two particle counts from another, whatever the buffer held before.\<close>

theorem sensor_roundtrip:
  "BYH_M_get_humiture junk (answer2 addr fn h t) b =
     (RT_EOK, query_trace (BYH_M_CMD b) 0 2 9, b\<lparr>Humidity_x10 := h, Temperature_x10 := t\<rparr>) \<and>
   BYH_M_get_PM_Data junk (answer2 addr fn p q) b =
     (RT_EOK, query_trace (BYH_M_CMD b) 3 2 9, b\<lparr>PM2_5 := p, PM10 := q\<rparr>)"
  by (simp add: humiture_ok pm_ok answer2_ok)

text \<open>C32: A good answer in which any one byte was changed on the line is refused with \<open>RT_ERROR\<close> and leaves the
  stored measurements as they were, for all three queries.\<close>

theorem sensor_rejects_damage:
  assumes "crc_reg got = 0" "i < length got" "c \<noteq> got ! i"
  shows "(length got = 9 \<longrightarrow>
       BYH_M_get_humiture junk (got[i := c]) b = (RT_ERROR, query_trace (BYH_M_CMD b) 0 2 9, b) \<and>
       BYH_M_get_PM_Data junk (got[i := c]) b = (RT_ERROR, query_trace (BYH_M_CMD b) 3 2 9, b)) \<and>
     (length got = 7 \<longrightarrow>
       BYH_M_get_noise junk (got[i := c]) b = (RT_ERROR, query_trace (BYH_M_CMD b) 2 1 7, b))"
  using damaged_frame[OF assms] by (simp add: humiture_bad pm_bad noise_bad)

definition sensor0 :: BYH_M_t where
  "sensor0 = \<lparr>BYH_M_CMD = [0x0b, 0x03, 0x01, 0xf4, 0x00, 0x00], Temperature_x10 = 0, Humidity_x10 = 0,
     Noise_x10 = 0, PM2_5 = 0, PM10 = 0\<rparr>"

lemma sensor_rejects_damage_witness:
  "fst (BYH_M_get_humiture [] ((answer2 11 3 652 231)[4 := 0]) sensor0) = RT_ERROR"
proof -
  have "answer2 11 3 652 231 ! 4 = lo_byte 652" by (simp add: answer2_def Let_def)
  also have "\<dots> = 0x8c" by (simp add: lo_byte_def)
  finally have "(0 :: u8) \<noteq> answer2 11 3 652 231 ! 4" by simp
  with sensor_rejects_damage[of "answer2 11 3 652 231" 4 0 "[]" sensor0] show ?thesis
    by (simp add: answer2_ok)
qed

text \<open>Every command the driver sends is an eight-byte frame that carries its own checksum, so that the
  receiver's check over the whole frame leaves the register at zero.\<close>

theorem query_valid:
  assumes "6 \<le> length cmd"
  shows "length (query_frame cmd reg cnt) = 8 \<and> crc_reg (query_frame cmd reg cnt) = 0 \<and>
    take 3 (query_frame cmd reg cnt) = take 3 cmd \<and> query_frame cmd reg cnt ! 3 = cmd ! 3 + reg \<and>
    query_frame cmd reg cnt ! 5 = cmd ! 5 + cnt"
  using query_frame_ok[OF assms, of reg cnt] assms
  by (simp add: query_frame_def Let_def take_update_cancel nth_append)

lemma query_valid_witness:
  "crc_reg (query_frame [0x0b, 0x03, 0x01, 0xf4, 0, 0] 0 2) = 0"
  using query_valid[of "[0x0b, 0x03, 0x01, 0xf4, 0, 0]" 0 2] by simp

section \<open>The LED wall\<close>

text \<open>Drawing a string puts one glyph per byte column, row by row, from the given column until the first character
  that is not printable or the right edge; nothing else on the wall changes and no access leaves the buffer.\<close>

theorem led_string:
  assumes "LED_wf d" "unat x < 12" "unat y < 12"
  shows "\<exists>d'. LED_ShowString x y sz str d = Some d' \<and> LED_wf d' \<and>
    (\<forall>R < 48. \<forall>X < 12. pix d' R X =
      (if unat x \<le> X \<and> X - unat x < length (takeWhile printable str)
          \<and> 4 * unat y \<le> R \<and> R < 4 * unat y + font_height sz
       then glyph_row sz (str ! (X - unat x)) (R - 4 * unat y) else pix d R X))"
  by (rule LED_ShowString_pix[OF assms])

lemma led_string_witness:
  "\<exists>d'. LED_ShowString 4 3 12 [0x35, 0x36] (LED_Clear []) = Some d' \<and>
     pix d' 14 4 = glyph_row 12 0x35 2 \<and> pix d' 14 5 = glyph_row 12 0x36 2 \<and> pix d' 14 6 = 0"
proof -
  obtain d' where d': "LED_ShowString 4 3 12 [0x35, 0x36] (LED_Clear []) = Some d'"
    "\<And>R X. R < 48 \<Longrightarrow> X < 12 \<Longrightarrow> pix d' R X =
      (if 4 \<le> X \<and> X - 4 < length (takeWhile printable [0x35, 0x36])
          \<and> 12 \<le> R \<and> R < 12 + font_height 12
       then glyph_row 12 ([0x35, 0x36] ! (X - 4)) (R - 12) else pix (LED_Clear []) R X)"
    using led_string[OF conjunct1[OF LED_Clear_pix], of 4 3 12 "[0x35, 0x36]" "[]"] by auto
  show ?thesis
    using d'(1) d'(2)[of 14 4] d'(2)[of 14 5] d'(2)[of 14 6] conjunct2[OF LED_Clear_pix]
    by (auto simp: printable_def font_height_def)
qed

text \<open>Drawing \<open>n\<close> Chinese characters puts their two halves side by side, two byte columns each, when they fit on
  the wall; nothing else changes and no access leaves the buffer or a font table.\<close>

theorem led_chinese:
  assumes "LED_wf d" "unat x < 11" "unat y < 12" "n \<noteq> 0" "unat x + 2 * unat n \<le> 12" "2 * unat n \<le> length str"
    and "\<forall>k < unat n. sz = 12 \<or> chese_lookup (drop (2 * k) str) \<noteq> 18"
  shows "\<exists>d'. LED_ShowNChese x y sz n str d = Some d' \<and> LED_wf d' \<and>
    (\<forall>R < 48. \<forall>X < 12. pix d' R X =
      (if unat x \<le> X \<and> X < unat x + 2 * unat n \<and> 4 * unat y \<le> R \<and> R < 4 * unat y + font_height sz
       then chese_row sz (drop (2 * ((X - unat x) div 2)) str) ((X - unat x) mod 2) (R - 4 * unat y)
       else pix d R X))"
  by (rule LED_ShowNChese_pix[OF assms])

lemma led_chinese_witness:
  "\<exists>d'. LED_ShowNChese 3 0 12 4 [0xD1, 0xEF, 0xB3, 0xBE, 0xBC, 0xE0, 0xB2, 0xE2] (LED_Clear []) = Some d' \<and> LED_wf d'"
  using led_chinese[OF conjunct1[OF LED_Clear_pix], of 3 0 4
      "[0xD1, 0xEF, 0xB3, 0xBE, 0xBC, 0xE0, 0xB2, 0xE2]" 12 "[]"] by auto

text \<open>One transfer shows every scan line of every panel exactly once, with the bytes of its own buffer row, and
  ends with all panels dark; no scan line is selected and no bytes are shifted while a panel is lit.\<close>

theorem led_scan:
  assumes "\<not> lit s"
  shows "shown (scan_run (LED_SendData d) s) = shown s @
      concat (map (\<lambda>row. [(13, row, d ! row), (14, row, d ! (row + 4)), (15, row, d ! (row + 8))]) [0..<4])
    \<and> \<not> lit (scan_run (LED_SendData d) s) \<and> glitch (scan_run (LED_SendData d) s) = glitch s"
  by (rule LED_SendData_shows[OF assms])

lemma led_scan_witness:
  "length (shown (scan_run (LED_SendData (LED_Clear [])) (scan_run LED_12_Init \<lparr>pins = \<lambda>_. 0, shifted = [], shown = [], glitch = False\<rparr>))) = 12"
proof -
  let ?s = "scan_run LED_12_Init \<lparr>pins = \<lambda>_. 0, shifted = [], shown = [], glitch = False\<rparr>"
  have "shown ?s = []" by (simp add: scan_run_def LED_12_Init_def)
  with led_scan[of ?s "LED_Clear []"] LED_Init_dark[of "\<lparr>pins = \<lambda>_. 0, shifted = [], shown = [], glitch = False\<rparr>"] show ?thesis
    by (simp add: upt_rec)
qed

text \<open>In the large font the last listed character has no glyph: drawing it reads past the font table, which the
  small font does not.\<close>

theorem led_missing_glyph:
  assumes "sz \<noteq> 12" "unat y < 12"
  shows "LED_ShowChese x y sz (Chese_index ! 9) d = None"
  using LED_ShowChese_missing[OF assms(1) _ assms(2)] chese_lookup_index[of 9 "[]"] by simp

lemma led_missing_glyph_witness: "LED_ShowChese 2 3 16 (Chese_index ! 9) d = None"
  using led_missing_glyph[of 16 3 2 d] by simp

end
