(* ===== verification/AtClient.thy ===== *)
theory AtClient
  imports Prelude
begin

text \<open>
  The AT command client \<^verbatim>\<open>components/net/at/src/at_client.c\<close>: the line reader and the parser that run in
  the client's own thread, the response objects they fill for the thread that waits in \<open>at_obj_exec_cmd\<close>,
  and the accessors of a response. The serial line is the list of bytes it delivers; \<open>None\<close> from the
  reader means that it waits for more. Response objects are addressed, so that the parser and the
  waiting thread share them; a handler of an unsolicited result code is its index in the table, and a
  call of it is an event.
\<close>

section \<open>Data\<close>

record at_response =
  ar_buf :: "u8 list"
  buf_size :: nat
  line_num :: nat
  line_counts :: nat
  ar_timeout :: int

record at_urc =
  cmd_prefix :: "u8 list"
  cmd_suffix :: "u8 list"
  urc_fun :: "nat option"

datatype at_resp_status = AT_RESP_OK | AT_RESP_ERROR | AT_RESP_TIMEOUT | AT_RESP_BUFF_FULL

datatype at_status = AT_STATUS_UNINITIALIZED | AT_STATUS_INITIALIZED | AT_STATUS_CLI

text \<open>\<open>notices\<close> is the value of the semaphore \<open>resp_notice\<close>, \<open>heap\<close> the response objects in memory.\<close>

record at_client =
  status :: at_status
  end_sign :: u8
  recv_buffer :: "u8 list"
  recv_bufsz :: nat
  cur_recv_len :: nat
  resp :: "nat option"
  notices :: nat
  resp_status :: at_resp_status
  urc_table :: "at_urc list option"
  heap :: "nat \<Rightarrow> at_response option"

datatype at_event = UrcCall nat "u8 list" | Written "u8 list"

section \<open>C strings\<close>

definition cstr :: "u8 list \<Rightarrow> u8 list" where
  "cstr bs = takeWhile (\<lambda>b. b \<noteq> 0) bs"

fun strstr :: "u8 list \<Rightarrow> u8 list \<Rightarrow> bool" where
  "strstr [] needle = (needle = [])"
| "strstr (h # hay) needle = (take (length needle) (h # hay) = needle \<or> strstr hay needle)"

section \<open>Responses\<close>

text \<open>\<open>p\<close> is the address the allocator returns, \<open>None\<close> when memory is short.\<close>

definition at_create_resp :: "nat option \<Rightarrow> nat \<Rightarrow> nat \<Rightarrow> int \<Rightarrow> at_client \<Rightarrow> nat option \<times> at_client" where
  "at_create_resp p sz lines timeout c =
     (case p of
        None \<Rightarrow> (None, c)
      | Some a \<Rightarrow> (Some a, c\<lparr>heap := (heap c)(a \<mapsto> \<lparr>ar_buf = replicate sz 0, buf_size = sz, line_num = lines,
                                  line_counts = 0, ar_timeout = timeout\<rparr>)\<rparr>))"

definition at_delete_resp :: "nat option \<Rightarrow> at_client \<Rightarrow> at_client" where
  "at_delete_resp p c = (case p of None \<Rightarrow> c | Some a \<Rightarrow> c\<lparr>heap := (heap c)(a := None)\<rparr>)"

text \<open>A grown buffer has unknown new bytes \<open>junk\<close>; \<open>ok\<close>: the reallocation succeeds.\<close>

definition at_resp_set_info :: "bool \<Rightarrow> u8 list \<Rightarrow> nat \<Rightarrow> nat \<Rightarrow> int \<Rightarrow> at_response \<Rightarrow> bool \<times> at_response" where
  "at_resp_set_info ok junk sz lines timeout r =
     (if buf_size r \<noteq> sz then
        (if ok then (True, r\<lparr>buf_size := sz, ar_buf := take sz (ar_buf r @ junk), line_num := lines, ar_timeout := timeout\<rparr>)
         else (False, r\<lparr>buf_size := sz, ar_buf := []\<rparr>))
      else (True, r\<lparr>line_num := lines, ar_timeout := timeout\<rparr>))"

text \<open>The loop from line \<open>line\<close>, which starts at offset \<open>off\<close>, over \<open>n\<close> more lines.\<close>

fun get_line_loop :: "u8 list \<Rightarrow> nat \<Rightarrow> nat \<Rightarrow> nat \<Rightarrow> nat \<Rightarrow> nat option" where
  "get_line_loop buf 0 line want off = None"
| "get_line_loop buf (Suc n) line want off =
     (if want = line then Some off
      else get_line_loop buf n (line + 1) want (off + length (cstr (drop off buf)) + 1))"

definition at_resp_get_line :: "at_response \<Rightarrow> nat \<Rightarrow> u8 list option" where
  "at_resp_get_line r want =
     (if want > line_counts r \<or> want = 0 then None
      else map_option (\<lambda>off. drop off (ar_buf r)) (get_line_loop (ar_buf r) (line_counts r) 1 want 0))"

fun get_kw_loop :: "u8 list \<Rightarrow> nat \<Rightarrow> u8 list \<Rightarrow> nat \<Rightarrow> nat option" where
  "get_kw_loop buf 0 kw off = None"
| "get_kw_loop buf (Suc n) kw off =
     (if strstr (cstr (drop off buf)) kw then Some off
      else get_kw_loop buf n kw (off + length (cstr (drop off buf)) + 1))"

definition at_resp_get_line_by_kw :: "at_response \<Rightarrow> u8 list \<Rightarrow> u8 list option" where
  "at_resp_get_line_by_kw r kw =
     map_option (\<lambda>off. drop off (ar_buf r)) (get_kw_loop (ar_buf r) (line_counts r) kw 0)"

section \<open>The reader\<close>

definition urc_match :: "u8 list \<Rightarrow> nat \<Rightarrow> at_urc \<Rightarrow> bool" where
  "urc_match buffer buf_sz u =
     (length (cmd_prefix u) + length (cmd_suffix u) \<le> buf_sz \<and>
      take (length (cmd_prefix u)) buffer = cmd_prefix u \<and>
      take (length (cmd_suffix u)) (drop (buf_sz - length (cmd_suffix u)) buffer) = cmd_suffix u)"

definition get_urc_obj :: "at_client \<Rightarrow> at_urc option" where
  "get_urc_obj c =
     (case urc_table c of None \<Rightarrow> None
      | Some tbl \<Rightarrow> find (urc_match (recv_buffer c) (cur_recv_len c)) tbl)"

fun readline_loop :: "u8 list \<Rightarrow> nat \<Rightarrow> u8 \<Rightarrow> bool \<Rightarrow> at_client \<Rightarrow> (int \<times> u8 list \<times> at_client) option" where
  "readline_loop [] read_len last_ch is_full c = None"
| "readline_loop (ch # inp) read_len last_ch is_full c =
     (let room = read_len < recv_bufsz c;
          c1 = (if room then c\<lparr>recv_buffer := (recv_buffer c)[read_len := ch], cur_recv_len := read_len + 1\<rparr> else c);
          read_len1 = (if room then read_len + 1 else read_len);
          is_full1 = (is_full \<or> \<not> room)
      in if (ch = 10 \<and> last_ch = 13) \<or> (end_sign c1 \<noteq> 0 \<and> ch = end_sign c1) \<or> get_urc_obj c1 \<noteq> None
         then (if is_full1 then Some (-RT_EFULL, inp, c1\<lparr>recv_buffer := replicate (recv_bufsz c1) 0, cur_recv_len := 0\<rparr>)
               else Some (int read_len1, inp, c1))
         else readline_loop inp read_len1 ch is_full1 c1)"

definition at_recv_readline :: "u8 list \<Rightarrow> at_client \<Rightarrow> (int \<times> u8 list \<times> at_client) option" where
  "at_recv_readline inp c =
     readline_loop inp 0 0 False (c\<lparr>recv_buffer := replicate (recv_bufsz c) 0, cur_recv_len := 0\<rparr>)"

section \<open>The parser\<close>

definition s_OK :: "u8 list" where "s_OK = [79, 75]"
definition s_ERROR :: "u8 list" where "s_ERROR = [69, 82, 82, 79, 82]"
definition s_FAIL :: "u8 list" where "s_FAIL = [70, 65, 73, 76]"

text \<open>
  The client with the parser's locals \<open>resp_buf_len\<close> and \<open>line_counts\<close>, the bytes \<open>pending\<close> of a line that is not
  complete yet (the reader is in the middle of it), and the trace of handler calls and writes.
\<close>

record at_parser =
  cl :: at_client
  pending :: "u8 list"
  resp_buf_len :: nat
  line_cnt :: nat
  events :: "at_event list"

text \<open>How a line, the \<open>cnt\<close>-th one kept, ends a response that was asked for \<open>n\<close> lines, if it does.\<close>

definition line_verdict :: "nat \<Rightarrow> nat \<Rightarrow> u8 list \<Rightarrow> at_resp_status option" where
  "line_verdict n cnt line =
     (if take 2 line = s_OK \<and> n = 0 then Some AT_RESP_OK
      else if strstr (cstr line) s_ERROR \<or> take 4 line = s_FAIL then Some AT_RESP_ERROR
      else if cnt = n \<and> n \<noteq> 0 then Some AT_RESP_OK
      else None)"

text \<open>A line for a waiting response at address \<open>a\<close>.\<close>

definition resp_line :: "nat \<Rightarrow> at_response \<Rightarrow> at_parser \<Rightarrow> at_parser" where
  "resp_line a r p =
     (let c = cl p;
          len = cur_recv_len c;
          line = (recv_buffer c)[len - 1 := 0];
          fits = resp_buf_len p + len < buf_size r;
          r1 = (if fits then r\<lparr>ar_buf := blit (ar_buf r) (resp_buf_len p) (take len line)\<rparr> else r);
          st1 = (if fits then resp_status c else AT_RESP_BUFF_FULL);
          len1 = (if fits then resp_buf_len p + len else resp_buf_len p);
          cnt1 = (if fits then line_cnt p + 1 else line_cnt p);
          c1 = c\<lparr>recv_buffer := line, heap := (heap c)(a \<mapsto> r1), resp_status := st1\<rparr>
      in case line_verdict (line_num r) cnt1 line of
           None \<Rightarrow> p\<lparr>cl := c1, resp_buf_len := len1, line_cnt := cnt1\<rparr>
         | Some st \<Rightarrow> p\<lparr>cl := c1\<lparr>heap := (heap c)(a \<mapsto> r1\<lparr>line_counts := cnt1\<rparr>), resp_status := st,
                                  resp := None, notices := notices c1 + 1\<rparr>,
                        resp_buf_len := 0, line_cnt := 0\<rparr>)"

text \<open>
  A handler gets the line and the bytes that follow on the wire; it may consume some of them with
  \<open>at_client_recv\<close> and use the client itself.
\<close>

type_synonym at_handler = "nat \<Rightarrow> u8 list \<Rightarrow> u8 list \<Rightarrow> at_parser \<Rightarrow> nat \<times> at_parser"

text \<open>
  One turn of \<open>client_parser\<close> after the reader returned \<open>n\<close>; the number counts the bytes a handler consumed. A
  dangling response pointer, an object that was deleted while registered, is \<open>None\<close>.
\<close>

definition parser_turn :: "at_handler \<Rightarrow> int \<Rightarrow> u8 list \<Rightarrow> at_parser \<Rightarrow> (nat \<times> at_parser) option" where
  "parser_turn h n rest p =
     (if n > 0 then
        (case get_urc_obj (cl p) of
           Some u \<Rightarrow> (case urc_fun u of
                        None \<Rightarrow> Some (0, p)
                      | Some f \<Rightarrow>
                          let line = take (cur_recv_len (cl p)) (recv_buffer (cl p))
                          in Some (h f line rest (p\<lparr>events := events p @ [UrcCall f line]\<rparr>)))
         | None \<Rightarrow> (case resp (cl p) of
                      None \<Rightarrow> Some (0, p)
                    | Some a \<Rightarrow> (case heap (cl p) a of None \<Rightarrow> None | Some r \<Rightarrow> Some (0, resp_line a r p))))
      else Some (0, p))"

lemma readline_loop_shorter:
  "readline_loop inp n l f c = Some (k, rest, c') \<Longrightarrow> length rest < length inp"
proof (induction inp arbitrary: n l f c)
  case (Cons ch inp)
  then show ?case by (auto simp: Let_def less_Suc_eq split: if_splits)
qed simp

text \<open>The parser works off its input and keeps an unfinished line pending.\<close>

function client_parser :: "at_handler \<Rightarrow> u8 list \<Rightarrow> at_parser \<Rightarrow> at_parser option" where
  "client_parser h inp p =
     (case at_recv_readline inp (cl p) of
        None \<Rightarrow> Some (p\<lparr>pending := inp\<rparr>)
      | Some (n, rest, c) \<Rightarrow>
          (case parser_turn h n rest (p\<lparr>cl := c\<rparr>) of
             None \<Rightarrow> None
           | Some (k, p') \<Rightarrow> client_parser h (drop k rest) p'))"
  by pat_completeness auto
termination
  by (relation "measure (\<lambda>(h, inp, p). length inp)")
    (auto simp: at_recv_readline_def dest!: readline_loop_shorter)

declare client_parser.simps [simp del]

section \<open>Executing a command\<close>

text \<open>
  \<^verbatim>\<open>at_vprintf\<close> through the 128-byte buffer: \<^verbatim>\<open>vsnprintf\<close> returns the full length even when it truncates, and
  that many bytes are written. Longer than the buffer is a read past its end. The commands here are
  passed as the format itself, so a percent sign would read arguments that do not exist.
\<close>

definition at_vprintfln :: "u8 list \<Rightarrow> at_event list option" where
  "at_vprintfln cmd =
     (if 37 \<in> set cmd then None
      else if length cmd < 128 then Some [Written cmd, Written [13, 10]]
      else if length cmd = 128 then Some [Written (take 127 cmd @ [0]), Written [13, 10]]
      else None)"

text \<open>Up to the wait: \<open>Inl\<close> an early return.\<close>

definition exec_begin :: "nat option \<Rightarrow> u8 list \<Rightarrow> at_parser \<Rightarrow> (int + at_parser) option" where
  "exec_begin a cmd p =
     (if status (cl p) = AT_STATUS_CLI \<and> a \<noteq> None then Some (Inl (-7))
      else case at_vprintfln cmd of
             None \<Rightarrow> None
           | Some ev \<Rightarrow>
               Some (Inr (p\<lparr>events := events p @ ev,
                            cl := (cl p)\<lparr>resp_status := AT_RESP_OK, resp := a,
                                         heap := (case a of None \<Rightarrow> heap (cl p)
                                                  | Some x \<Rightarrow> (heap (cl p))(x := map_option (line_counts_update (\<lambda>_. 0)) (heap (cl p) x)))\<rparr>\<rparr>)))"

text \<open>After the wait; the semaphore was taken when a notice is there.\<close>

definition exec_end :: "nat option \<Rightarrow> at_parser \<Rightarrow> int \<times> at_parser" where
  "exec_end a p =
     (let c = cl p in
      if a = None then (RT_EOK, p\<lparr>cl := c\<lparr>resp := None\<rparr>\<rparr>)
      else if notices c = 0 then (-RT_ETIMEOUT, p\<lparr>cl := c\<lparr>resp_status := AT_RESP_TIMEOUT, resp := None\<rparr>\<rparr>)
      else if resp_status c \<noteq> AT_RESP_OK then (-RT_ERROR, p\<lparr>cl := c\<lparr>notices := notices c - 1, resp := None\<rparr>\<rparr>)
      else (RT_EOK, p\<lparr>cl := c\<lparr>notices := notices c - 1, resp := None\<rparr>\<rparr>))"

text \<open>
  \<open>inp\<close>: the bytes the device delivers before the response's timeout. A notice that is already there is taken
  at once.
\<close>

definition at_obj_exec_cmd :: "at_handler \<Rightarrow> nat option \<Rightarrow> u8 list \<Rightarrow> u8 list \<Rightarrow> at_parser \<Rightarrow> (int \<times> at_parser) option" where
  "at_obj_exec_cmd h a cmd inp p =
     (case exec_begin a cmd p of
        None \<Rightarrow> None
      | Some (Inl e) \<Rightarrow> Some (e, p)
      | Some (Inr p1) \<Rightarrow>
          (if a = None \<or> 0 < notices (cl p1) then Some (exec_end a p1)
           else (case client_parser h (pending p1 @ inp) p1 of None \<Rightarrow> None | Some p2 \<Rightarrow> Some (exec_end a p2))))"

text \<open>
  One round of \<open>at_client_obj_wait_connect\<close>: the ticks elapsed at its check and the bytes that arrive before
  its half second is over. \<open>None\<close> in the result: the rounds are used up and it still waits.
\<close>

fun wait_connect_loop :: "at_handler \<Rightarrow> nat \<Rightarrow> u32 \<Rightarrow> (u32 \<times> u8 list) list \<Rightarrow> at_parser \<Rightarrow> (int option \<times> at_parser) option" where
  "wait_connect_loop h a limit [] p = Some (None, p)"
| "wait_connect_loop h a limit ((elapsed, inp) # rounds) p =
     (if elapsed > limit then Some (Some (-RT_ETIMEOUT), p)
      else
        let p1 = p\<lparr>events := events p @ [Written [65, 84, 13, 10]],
                   cl := (cl p)\<lparr>heap := (heap (cl p))(a := map_option (line_counts_update (\<lambda>_. 0)) (heap (cl p) a))\<rparr>\<rparr>
        in case (if 0 < notices (cl p1) then Some p1 else client_parser h (pending p1 @ inp) p1) of
             None \<Rightarrow> None
           | Some p2 \<Rightarrow>
               if 0 < notices (cl p2)
               then Some (Some RT_EOK, p2\<lparr>cl := (cl p2)\<lparr>notices := notices (cl p2) - 1\<rparr>\<rparr>)
               else wait_connect_loop h a limit rounds p2)"

definition at_client_obj_wait_connect :: "at_handler \<Rightarrow> nat option \<Rightarrow> u32 \<Rightarrow> (u32 \<times> u8 list) list \<Rightarrow> at_parser
    \<Rightarrow> (int option \<times> at_parser) option" where
  "at_client_obj_wait_connect h a limit rounds p =
     (case at_create_resp a 16 0 500 (cl p) of
        (None, _) \<Rightarrow> Some (Some (-RT_ENOMEM), p)
      | (Some x, c) \<Rightarrow>
          (case wait_connect_loop h x limit rounds (p\<lparr>cl := c\<lparr>resp := Some x\<rparr>\<rparr>) of
             None \<Rightarrow> None
           | Some (None, p') \<Rightarrow> Some (None, p')
           | Some (Some e, p') \<Rightarrow> Some (Some e, p'\<lparr>cl := (at_delete_resp (Some x) (cl p'))\<lparr>resp := None\<rparr>\<rparr>)))"

text \<open>
  The resources of a new client in the order of their creation; \<open>avail\<close> says which can be had. The result and
  what the client holds afterwards.
\<close>

datatype at_resource = RecvBuffer | LockMutex | RxNotice | RespNotice | ParserThread

definition at_client_para_init :: "(at_resource \<Rightarrow> bool) \<Rightarrow> int \<times> at_resource list" where
  "at_client_para_init avail =
     (let got = takeWhile avail [RecvBuffer, LockMutex, RxNotice, RespNotice, ParserThread]
      in if length got < 5
         then (-RT_ENOMEM, filter (\<lambda>r. r \<notin> {LockMutex, RxNotice, RespNotice, RecvBuffer}) got)
         else (RT_EOK, got))"

definition at_obj_set_end_sign :: "u8 \<Rightarrow> at_client \<Rightarrow> at_client" where
  "at_obj_set_end_sign ch c = c\<lparr>end_sign := ch\<rparr>"

definition at_obj_set_urc_table :: "at_urc list \<Rightarrow> at_client \<Rightarrow> at_client" where
  "at_obj_set_urc_table tbl c = c\<lparr>urc_table := Some tbl\<rparr>"

text \<open>\<^verbatim>\<open>at_client_obj_recv\<close> inside a handler: the next \<open>n\<close> bytes of the line, or none in time.\<close>

definition at_client_obj_recv :: "nat \<Rightarrow> u8 list \<Rightarrow> u8 list option" where
  "at_client_obj_recv n inp = (if length inp < n then None else Some (take n inp))"

section \<open>Reading lines\<close>

lemma urc_match_take: "k \<le> length buffer \<Longrightarrow> urc_match (take k buffer) k u = urc_match buffer k u"
  by (auto simp: urc_match_def take_drop min_def)

text \<open>No unsolicited code matches the line or any of its beginnings.\<close>

definition quiet :: "at_client \<Rightarrow> u8 list \<Rightarrow> bool" where
  "quiet c line = (\<forall>tbl. urc_table c = Some tbl \<longrightarrow> (\<forall>u \<in> set tbl. \<forall>k \<le> length line. \<not> urc_match (take k line) k u))"

lemma quiet_urc:
  assumes "quiet c line" "urc_table c' = urc_table c" "recv_buffer c' = take k line @ junk" "cur_recv_len c' = k"
    "k \<le> length line"
  shows "get_urc_obj c' = None"
proof (cases "urc_table c")
  case (Some tbl)
  have "\<not> urc_match (take k line @ junk) k u" if "u \<in> set tbl" for u
    using assms(1,5) Some that urc_match_take[of k "take k line @ junk" u] by (simp add: quiet_def)
  with Some assms(2-4) show ?thesis by (simp add: get_urc_obj_def find_None_iff)
qed (use assms(2) in \<open>simp add: get_urc_obj_def\<close>)

lemma list_update_next: "(dn @ replicate (Suc m) x)[length dn := y] = (dn @ [y]) @ replicate m x"
  by simp

lemma readline_loop_line:
  assumes "10 \<notin> set l" "end_sign c = 0" "recv_buffer c = dn @ replicate m 0" "length l + 2 \<le> m"
    "recv_bufsz c = length dn + m" "quiet c (dn @ l @ [13, 10])"
  shows "readline_loop (l @ 13 # 10 # rest) (length dn) lst False c =
    Some (int (length dn + length l + 2), rest,
      c\<lparr>recv_buffer := dn @ l @ [13, 10] @ replicate (m - length l - 2) 0, cur_recv_len := length dn + length l + 2\<rparr>)"
  using assms
proof (induction l arbitrary: dn m lst c)
  case Nil
  then obtain m' where m: "m = Suc (Suc m')" by (metis add_2_eq_Suc le_Suc_ex list.size(3) add.commute add_0)
  define c1 where "c1 = c\<lparr>recv_buffer := (dn @ [13]) @ replicate (Suc m') 0, cur_recv_len := Suc (length dn)\<rparr>"
  have "get_urc_obj c1 = None"
    by (rule quiet_urc[OF Nil.prems(6), of _ "Suc (length dn)" "replicate (Suc m') 0"]) (simp_all add: c1_def)
  then have "readline_loop (13 # 10 # rest) (length dn) lst False c = readline_loop (10 # rest) (Suc (length dn)) 13 False c1"
    using Nil.prems m by (simp add: Let_def c1_def list_update_next del: replicate_Suc)
  also have "\<dots> = Some (int (length dn + 2), rest,
      c1\<lparr>recv_buffer := (dn @ [13])@ 10 # replicate m' 0, cur_recv_len := length dn + 2\<rparr>)"
    using Nil.prems m by (simp add: c1_def Let_def list_update_append)
  finally show ?case using m by (simp add: c1_def)
next
  case (Cons a l)
  then obtain m' where m: "m = Suc m'" by (cases m) auto
  define c1 where "c1 = c\<lparr>recv_buffer := (dn @ [a]) @ replicate m' 0, cur_recv_len := Suc (length dn)\<rparr>"
  have "get_urc_obj c1 = None"
    by (rule quiet_urc[OF Cons.prems(6), of _ "Suc (length dn)" "replicate m' 0"]) (simp_all add: c1_def)
  then have "readline_loop ((a # l) @ 13 # 10 # rest) (length dn) lst False c
      = readline_loop (l @ 13 # 10 # rest) (length (dn @ [a])) a False c1"
    using Cons.prems m by (simp add: Let_def c1_def list_update_next del: replicate_Suc)
  also have "\<dots> = Some (int (length (dn @ [a]) + length l + 2), rest,
      c1\<lparr>recv_buffer := (dn @ [a]) @ l @ [13, 10] @ replicate (m' - length l - 2) 0,
         cur_recv_len := length (dn @ [a]) + length l + 2\<rparr>)"
    using Cons.prems m by (intro Cons.IH) (auto simp: c1_def quiet_def)
  finally show ?case using m by (simp add: c1_def)
qed

definition plain :: "at_client \<Rightarrow> u8 list \<Rightarrow> bool" where
  "plain c l = (10 \<notin> set l \<and> length l + 2 \<le> recv_bufsz c \<and> end_sign c = 0 \<and> quiet c (l @ [13, 10]))"

lemma readline_plain:
  assumes "plain c l"
  shows "at_recv_readline (l @ 13 # 10 # rest) c = Some (int (length l + 2), rest,
    c\<lparr>recv_buffer := l @ [13, 10] @ replicate (recv_bufsz c - length l - 2) 0, cur_recv_len := length l + 2\<rparr>)"
  using readline_loop_line[of l "c\<lparr>recv_buffer := replicate (recv_bufsz c) 0, cur_recv_len := 0\<rparr>" "[]" "recv_bufsz c" rest 0] assms
  by (simp add: at_recv_readline_def plain_def quiet_def)

section \<open>Collecting a response\<close>

text \<open>What the response buffer holds after the lines \<open>ls\<close>: each with its carriage return, ended by a zero.\<close>

definition stored :: "u8 list list \<Rightarrow> u8 list" where
  "stored ls = concat (map (\<lambda>l. l @ [13, 0]) ls)"

lemma stored_simps [simp]:
  "stored [] = []" "stored (l # ls) = l @ [13, 0] @ stored ls" "stored (ls @ ls') = stored ls @ stored ls'"
  by (simp_all add: stored_def)

text \<open>
  The parser collects for the response at \<open>a\<close>, which ends with a verdict line (\<open>n\<close> is zero) or after \<open>n\<close> lines,
  and has the lines \<open>ls\<close>.
\<close>

definition collecting :: "nat \<Rightarrow> nat \<Rightarrow> nat \<Rightarrow> u8 list list \<Rightarrow> at_parser \<Rightarrow> bool" where
  "collecting a sz n ls p = (resp (cl p) = Some a \<and> resp_buf_len p = length (stored ls) \<and> line_cnt p = length ls \<and>
     (\<exists>r. heap (cl p) a = Some r \<and> line_num r = n \<and> buf_size r = sz \<and> length (ar_buf r) = sz \<and>
        take (length (stored ls)) (ar_buf r) = stored ls))"

text \<open>The response at \<open>a\<close> is complete.\<close>

definition complete :: "nat \<Rightarrow> u8 list list \<Rightarrow> at_parser \<Rightarrow> bool" where
  "complete a ls p = (resp (cl p) = None \<and> resp_buf_len p = 0 \<and> line_cnt p = 0 \<and>
     (\<exists>r. heap (cl p) a = Some r \<and> line_counts r = length ls \<and>
        take (length (stored ls)) (ar_buf r) = stored ls))"

text \<open>How the line \<open>l\<close>, the \<open>k\<close>-th that fits, ends the response, if it does.\<close>

definition verdict :: "nat \<Rightarrow> nat \<Rightarrow> u8 list \<Rightarrow> at_resp_status option" where
  "verdict n k l = (if take 2 l = s_OK \<and> n = 0 then Some AT_RESP_OK
     else if strstr (l @ [13]) s_ERROR \<or> take 4 l = s_FAIL then Some AT_RESP_ERROR
     else if k = n \<and> n \<noteq> 0 then Some AT_RESP_OK else None)"

lemma take_before_cr:
  assumes "13 \<notin> set w" "length w = n"
  shows "take n (l @ 13 # t) = w \<longleftrightarrow> take n l = (w :: u8 list)"
proof (cases "n \<le> length l")
  case False
  then have "13 \<in> set (take n (l @ 13 # t))" by (cases "n - length l") auto
  moreover have "take n l \<noteq> w" using False assms(2) by auto
  ultimately show ?thesis using assms(1) by auto
qed simp

lemma cstr_stop: "0 \<notin> set l \<Longrightarrow> cstr (l @ 0 # t) = l"
  by (induction l) (auto simp: cstr_def)

lemma blit_prefix:
  assumes "take n buf = st" "length st = n" "n + length xs \<le> length buf"
  shows "take (n + length xs) (blit buf n xs) = st @ xs"
  using assms by (simp add: blit_def)

lemma line_verdict_stored:
  assumes "0 \<notin> set l"
  shows "line_verdict n k (l @ 13 # 0 # z) = verdict n k l"
proof -
  have "take 2 (l @ 13 # 0 # z) = s_OK \<longleftrightarrow> take 2 l = s_OK" "take 4 (l @ 13 # 0 # z) = s_FAIL \<longleftrightarrow> take 4 l = s_FAIL"
    by (rule take_before_cr; simp add: s_OK_def s_FAIL_def)+
  moreover have "cstr (l @ 13 # 0 # z) = l @ [13]" using cstr_stop[of "l @ [13]" z] assms by simp
  ultimately show ?thesis by (simp only: line_verdict_def verdict_def)
qed

text \<open>One turn of the parser reads one line and hands it to the response.\<close>

definition with_line :: "u8 list \<Rightarrow> at_parser \<Rightarrow> at_parser" where
  "with_line l p = p\<lparr>cl := (cl p)\<lparr>recv_buffer := l @ [13, 10] @ replicate (recv_bufsz (cl p) - length l - 2) 0,
                                   cur_recv_len := length l + 2\<rparr>\<rparr>"

lemma parser_reads_line:
  assumes "plain (cl p) l" "resp (cl p) = Some a" "heap (cl p) a = Some r"
  shows "client_parser h (l @ 13 # 10 # rest) p = client_parser h rest (resp_line a r (with_line l p))"
proof -
  have "get_urc_obj (cl (with_line l p)) = None"
    by (rule quiet_urc[of "cl p" "l @ [13, 10]" _ "length l + 2" "replicate (recv_bufsz (cl p) - length l - 2) 0"])
      (use assms(1) in \<open>simp_all add: with_line_def plain_def\<close>)
  then have "parser_turn h (int (length l + 2)) rest (with_line l p) = Some (0, resp_line a r (with_line l p))"
    using assms(2,3) by (simp add: parser_turn_def with_line_def)
  then show ?thesis
    using readline_plain[OF assms(1), of rest] by (subst client_parser.simps) (simp add: with_line_def)
qed

text \<open>The line is collected when it fits.\<close>

lemma parser_line:
  assumes "collecting a sz n ls p" "plain (cl p) l" "0 \<notin> set l" "length (stored (ls @ [l])) < sz"
  obtains p' where "client_parser h (l @ 13 # 10 # rest) p = client_parser h rest p'"
    "recv_bufsz (cl p') = recv_bufsz (cl p)" "end_sign (cl p') = end_sign (cl p)" "urc_table (cl p') = urc_table (cl p)"
    "status (cl p') = status (cl p)" "events p' = events p"
    "case verdict n (length ls + 1) l of
       None \<Rightarrow> collecting a sz n (ls @ [l]) p' \<and> notices (cl p') = notices (cl p) \<and> resp_status (cl p') = resp_status (cl p)
     | Some st \<Rightarrow> complete a (ls @ [l]) p' \<and> notices (cl p') = notices (cl p) + 1 \<and> resp_status (cl p') = st"
proof -
  from assms(1) obtain r where r: "resp (cl p) = Some a" "heap (cl p) a = Some r" "line_num r = n" "buf_size r = sz"
    "length (ar_buf r) = sz" "take (length (stored ls)) (ar_buf r) = stored ls"
    "resp_buf_len p = length (stored ls)" "line_cnt p = length ls" by (auto simp: collecting_def)
  let ?z = "replicate (recv_bufsz (cl p) - length l - 2) 0"
  define c where "c = cl (with_line l p)"
  define p' where "p' = resp_line a r (with_line l p)"
  have run: "client_parser h (l @ 13 # 10 # rest) p = client_parser h rest p'"
    unfolding p'_def by (rule parser_reads_line[OF assms(2) r(1,2)])
  have line: "(l @ [13, 10] @ ?z)[length l + 2 - 1 := 0] = l @ 13 # 0 # ?z" by (simp add: list_update_append)
  have fits: "length (stored ls) + (length l + 2) < sz" using assms(4) by simp
  have b: "take (length (stored (ls @ [l]))) (blit (ar_buf r) (length (stored ls)) (l @ [13, 0])) = stored (ls @ [l])"
    using blit_prefix[OF r(6), of "l @ [13, 0]"] fits r(5) by simp
  have lb: "length (blit (ar_buf r) (length (stored ls)) (l @ [13, 0])) = sz"
    using fits r(5) by simp
  have tk: "take (length l + 2) (l @ 13 # 0 # ?z) = l @ [13, 0]" by simp
  have p': "p' = (case verdict n (length ls + 1) l of
      None \<Rightarrow> p\<lparr>cl := c\<lparr>recv_buffer := l @ 13 # 0 # ?z,
          heap := (heap (cl p))(a \<mapsto> r\<lparr>ar_buf := blit (ar_buf r) (length (stored ls)) (l @ [13, 0])\<rparr>)\<rparr>,
        resp_buf_len := length (stored ls) + (length l + 2), line_cnt := length ls + 1\<rparr>
    | Some st \<Rightarrow> p\<lparr>cl := c\<lparr>recv_buffer := l @ 13 # 0 # ?z,
          heap := (heap (cl p))(a \<mapsto> r\<lparr>ar_buf := blit (ar_buf r) (length (stored ls)) (l @ [13, 0]),
                                     line_counts := length ls + 1\<rparr>),
          resp_status := st, resp := None, notices := notices (cl p) + 1\<rparr>, resp_buf_len := 0, line_cnt := 0\<rparr>)"
    using fits line tk r(3,4,7,8) line_verdict_stored[OF assms(3), of n "length ls + 1" ?z]
    by (cases "verdict n (length ls + 1) l") (simp_all add: p'_def with_line_def resp_line_def Let_def c_def)
  show thesis
  proof (rule that[OF run])
    show "case verdict n (length ls + 1) l of
       None \<Rightarrow> collecting a sz n (ls @ [l]) p' \<and> notices (cl p') = notices (cl p) \<and> resp_status (cl p') = resp_status (cl p)
     | Some st \<Rightarrow> complete a (ls @ [l]) p' \<and> notices (cl p') = notices (cl p) + 1 \<and> resp_status (cl p') = st"
      using r b lb unfolding p' by (auto simp: c_def with_line_def collecting_def complete_def split: option.splits)
  qed (simp_all add: p' c_def with_line_def split: option.splits)
qed

lemma plain_cfg:
  "recv_bufsz c' = recv_bufsz c \<Longrightarrow> end_sign c' = end_sign c \<Longrightarrow> urc_table c' = urc_table c \<Longrightarrow> plain c' l = plain c l"
  by (simp add: plain_def quiet_def)

text \<open>A line that does not fit is dropped; the status remembers it until a verdict overwrites it.\<close>

lemma parser_line_overflow:
  assumes "collecting a sz n ls p" "plain (cl p) l" "0 \<notin> set l" "sz \<le> length (stored (ls @ [l]))"
  obtains p' where "client_parser h (l @ 13 # 10 # rest) p = client_parser h rest p'"
    "recv_bufsz (cl p') = recv_bufsz (cl p)" "end_sign (cl p') = end_sign (cl p)" "urc_table (cl p') = urc_table (cl p)"
    "status (cl p') = status (cl p)" "events p' = events p"
    "case verdict n (length ls) l of
       None \<Rightarrow> collecting a sz n ls p' \<and> notices (cl p') = notices (cl p) \<and> resp_status (cl p') = AT_RESP_BUFF_FULL
     | Some st \<Rightarrow> complete a ls p' \<and> notices (cl p') = notices (cl p) + 1 \<and> resp_status (cl p') = st"
proof -
  from assms(1) obtain r where r: "resp (cl p) = Some a" "heap (cl p) a = Some r" "line_num r = n" "buf_size r = sz"
    "length (ar_buf r) = sz" "take (length (stored ls)) (ar_buf r) = stored ls"
    "resp_buf_len p = length (stored ls)" "line_cnt p = length ls" by (auto simp: collecting_def)
  let ?z = "replicate (recv_bufsz (cl p) - length l - 2) 0"
  define c where "c = cl (with_line l p)"
  define p' where "p' = resp_line a r (with_line l p)"
  have run: "client_parser h (l @ 13 # 10 # rest) p = client_parser h rest p'"
    unfolding p'_def by (rule parser_reads_line[OF assms(2) r(1,2)])
  have line: "(l @ [13, 10] @ ?z)[length l + 2 - 1 := 0] = l @ 13 # 0 # ?z" by (simp add: list_update_append)
  have "\<not> length (stored ls) + (length l + 2) < sz" using assms(4) by simp
  then have p': "p' = (case verdict n (length ls) l of
      None \<Rightarrow> p\<lparr>cl := c\<lparr>recv_buffer := l @ 13 # 0 # ?z, heap := (heap (cl p))(a \<mapsto> r), resp_status := AT_RESP_BUFF_FULL\<rparr>\<rparr>
    | Some st \<Rightarrow> p\<lparr>cl := c\<lparr>recv_buffer := l @ 13 # 0 # ?z, heap := (heap (cl p))(a \<mapsto> r\<lparr>line_counts := length ls\<rparr>),
          resp_status := st, resp := None, notices := notices (cl p) + 1\<rparr>, resp_buf_len := 0, line_cnt := 0\<rparr>)"
    using line r(3,4,7,8) line_verdict_stored[OF assms(3), of n "length ls" ?z]
    by (cases "verdict n (length ls) l") (simp_all add: p'_def with_line_def resp_line_def Let_def c_def)
  show thesis
  proof (rule that[OF run])
    show "case verdict n (length ls) l of
       None \<Rightarrow> collecting a sz n ls p' \<and> notices (cl p') = notices (cl p) \<and> resp_status (cl p') = AT_RESP_BUFF_FULL
     | Some st \<Rightarrow> complete a ls p' \<and> notices (cl p') = notices (cl p) + 1 \<and> resp_status (cl p') = st"
      using r unfolding p' by (auto simp: c_def with_line_def collecting_def complete_def split: option.splits)
  qed (simp_all add: p' c_def with_line_def split: option.splits)
qed

text \<open>The lines that the response keeps: each that fits behind those kept before it, with its two end bytes, and leaves
  a byte free.\<close>

definition keep_line :: "nat \<Rightarrow> u8 list list \<Rightarrow> u8 list \<Rightarrow> u8 list list" where
  "keep_line sz ls l = (if length (stored ls) + length l + 2 < sz then ls @ [l] else ls)"

definition kept :: "nat \<Rightarrow> u8 list list \<Rightarrow> u8 list list" where
  "kept sz ls = foldl (keep_line sz) [] ls"

lemma kept_snoc: "kept sz (ls @ [l]) = keep_line sz (kept sz ls) l" and kept_Nil [simp]: "kept sz [] = []"
  by (simp_all add: kept_def)

lemma kept_set: "set (kept sz ls) \<subseteq> set ls"
  by (induction ls rule: rev_induct) (auto simp: kept_snoc keep_line_def)

lemma kept_all: "length (stored ls) < sz \<Longrightarrow> kept sz ls = ls"
  by (induction ls rule: rev_induct) (simp_all add: kept_snoc keep_line_def)

lemma parser_line_kept:
  assumes "collecting a sz n ls p" "plain (cl p) l" "0 \<notin> set l"
  obtains p' where "client_parser h (l @ 13 # 10 # rest) p = client_parser h rest p'"
    "recv_bufsz (cl p') = recv_bufsz (cl p)" "end_sign (cl p') = end_sign (cl p)" "urc_table (cl p') = urc_table (cl p)"
    "status (cl p') = status (cl p)" "events p' = events p"
    "case verdict n (length (keep_line sz ls l)) l of
       None \<Rightarrow> collecting a sz n (keep_line sz ls l) p' \<and> notices (cl p') = notices (cl p)
     | Some st \<Rightarrow> complete a (keep_line sz ls l) p' \<and> notices (cl p') = notices (cl p) + 1 \<and> resp_status (cl p') = st"
proof (cases "length (stored (ls @ [l])) < sz")
  case True
  then have k: "keep_line sz ls l = ls @ [l]" by (simp add: keep_line_def)
  show thesis by (rule parser_line[OF assms True, of h rest], erule (5) that) (auto simp: k split: option.splits)
next
  case False
  then have k: "keep_line sz ls l = ls" "sz \<le> length (stored (ls @ [l]))" by (auto simp: keep_line_def)
  show thesis by (rule parser_line_overflow[OF assms k(2), of h rest], erule (5) that) (auto simp: k(1) split: option.splits)
qed

definition wire :: "u8 list list \<Rightarrow> u8 list" where
  "wire ls = concat (map (\<lambda>l. l @ [13, 10]) ls)"

lemma wire_simps [simp]: "wire [] = []" "wire (l # ls) = l @ 13 # 10 # wire ls" "wire (ls @ ls') = wire ls @ wire ls'"
  by (simp_all add: wire_def)

text \<open>No line of \<open>ms\<close> ends the response.\<close>

definition open_lines :: "nat \<Rightarrow> nat \<Rightarrow> u8 list list \<Rightarrow> bool" where
  "open_lines n sz ms = (\<forall>i < length ms. verdict n (length (kept sz (take (i + 1) ms))) (ms ! i) = None)"

lemma open_snoc: "open_lines n sz (ms @ [m]) \<longleftrightarrow> open_lines n sz ms \<and> verdict n (length (kept sz (ms @ [m]))) m = None"
  by (auto simp: open_lines_def less_Suc_eq nth_append)

lemma parser_lines:
  assumes "collecting a sz n [] p" "\<forall>l \<in> set ms. plain (cl p) l \<and> 0 \<notin> set l" "open_lines n sz ms"
  shows "\<exists>p'. client_parser h (wire ms @ rest) p = client_parser h rest p' \<and> collecting a sz n (kept sz ms) p' \<and>
    (\<forall>l. plain (cl p') l = plain (cl p) l) \<and> notices (cl p') = notices (cl p) \<and>
    events p' = events p \<and> status (cl p') = status (cl p)"
  using assms(2,3)
proof (induction ms arbitrary: rest rule: rev_induct)
  case Nil
  with assms(1) show ?case by auto
next
  case (snoc m ms)
  from snoc.IH[of "m @ 13 # 10 # rest"] snoc.prems obtain p1 where
    p1: "client_parser h (wire ms @ m @ 13 # 10 # rest) p = client_parser h (m @ 13 # 10 # rest) p1"
      "collecting a sz n (kept sz ms) p1" "\<forall>l. plain (cl p1) l = plain (cl p) l" "notices (cl p1) = notices (cl p)"
      "events p1 = events p" "status (cl p1) = status (cl p)" by (auto simp: open_snoc)
  have m: "plain (cl p1) m" "0 \<notin> set m" using snoc.prems(1) p1(3) by auto
  obtain p2 where p2: "client_parser h (m @ 13 # 10 # rest) p1 = client_parser h rest p2"
    "recv_bufsz (cl p2) = recv_bufsz (cl p1)" "end_sign (cl p2) = end_sign (cl p1)" "urc_table (cl p2) = urc_table (cl p1)"
    "status (cl p2) = status (cl p1)" "events p2 = events p1"
    "collecting a sz n (kept sz (ms @ [m])) p2 \<and> notices (cl p2) = notices (cl p1)"
    by (rule parser_line_kept[OF p1(2) m, of h rest]) (use snoc.prems(2) in \<open>simp add: open_snoc kept_snoc\<close>)
  have "plain (cl p2) l = plain (cl p) l" for l using plain_cfg[OF p2(2-4), of l] p1(3) by simp
  with p1 p2 show ?case by auto
qed

lemma parser_end: "client_parser h [] p = Some (p\<lparr>pending := []\<rparr>)"
  by (subst client_parser.simps) (simp add: at_recv_readline_def)

text \<open>A whole answer: lines without a verdict, then one with.\<close>

lemma parser_answer:
  assumes "collecting a sz n [] p" "\<forall>l \<in> set (ms @ [f]). plain (cl p) l \<and> 0 \<notin> set l" "open_lines n sz ms"
    "verdict n (length (kept sz (ms @ [f]))) f = Some st"
  shows "\<exists>p'. client_parser h (wire (ms @ [f])) p = Some p' \<and> complete a (kept sz (ms @ [f])) p' \<and> pending p' = [] \<and>
    notices (cl p') = notices (cl p) + 1 \<and> resp_status (cl p') = st \<and> events p' = events p \<and> status (cl p') = status (cl p) \<and>
    (\<forall>l. plain (cl p') l = plain (cl p) l)"
proof -
  from parser_lines[OF assms(1) _ assms(3), of h "f @ [13, 10]"] assms(2) obtain p1 where
    p1: "client_parser h (wire ms @ f @ [13, 10]) p = client_parser h (f @ [13, 10]) p1" "collecting a sz n (kept sz ms) p1"
      "\<forall>l. plain (cl p1) l = plain (cl p) l" "notices (cl p1) = notices (cl p)" "events p1 = events p"
      "status (cl p1) = status (cl p)" by auto
  have f: "plain (cl p1) f" "0 \<notin> set f" using assms(2) p1(3) by auto
  obtain p2 where p2: "client_parser h (f @ [13, 10]) p1 = client_parser h [] p2"
      "recv_bufsz (cl p2) = recv_bufsz (cl p1)" "end_sign (cl p2) = end_sign (cl p1)" "urc_table (cl p2) = urc_table (cl p1)"
      "status (cl p2) = status (cl p1)" "events p2 = events p1"
      "complete a (kept sz (ms @ [f])) p2 \<and> notices (cl p2) = notices (cl p1) + 1 \<and> resp_status (cl p2) = st"
    by (rule parser_line_kept[OF p1(2) f, of h "[]"]) (use assms(4) in \<open>simp add: kept_snoc\<close>)
  have "plain (cl p2) l = plain (cl p) l" for l using plain_cfg[OF p2(2-4), of l] p1(3) by simp
  then have "plain (cl (p2\<lparr>pending := []\<rparr>)) l = plain (cl p) l" for l by simp
  with p1 p2 show ?thesis by (simp add: parser_end complete_def)
qed

section \<open>Reading a response\<close>

lemma stored_line:
  assumes "take (length (stored ls)) buf = stored ls" "j < length ls" "\<forall>l \<in> set ls. 0 \<notin> set l"
  shows "cstr (drop (length (stored (take j ls))) buf) = ls ! j @ [13]"
proof -
  have "ls = take j ls @ ls ! j # drop (Suc j) ls" by (rule id_take_nth_drop[OF assms(2)])
  then have st: "stored ls = stored (take j ls) @ ls ! j @ [13, 0] @ stored (drop (Suc j) ls)"
    by (metis stored_simps(2,3))
  have "buf = stored ls @ drop (length (stored ls)) buf" using append_take_drop_id[of "length (stored ls)" buf] assms(1) by simp
  also have "\<dots> = stored (take j ls) @ (ls ! j @ [13]) @ 0 # stored (drop (Suc j) ls) @ drop (length (stored ls)) buf"
    unfolding st by simp
  finally have "drop (length (stored (take j ls))) buf
      = (ls ! j @ [13]) @ 0 # stored (drop (Suc j) ls) @ drop (length (stored ls)) buf"
    by (metis append_eq_conv_conj)
  then show ?thesis using assms(2,3) cstr_stop[of "ls ! j @ [13]"] by simp
qed

lemma stored_next:
  "j < length ls \<Longrightarrow> length (stored (take j ls)) + length (ls ! j @ [13]) + 1 = length (stored (take (Suc j) ls))"
  by (simp add: take_Suc_conv_app_nth)

lemma get_line_loop_stored:
  assumes "take (length (stored ls)) buf = stored ls" "\<forall>l \<in> set ls. 0 \<notin> set l" "j + n = length ls" "j \<le> k" "k < length ls"
  shows "get_line_loop buf n (j + 1) (k + 1) (length (stored (take j ls))) = Some (length (stored (take k ls)))"
  using assms(3,4)
proof (induction n arbitrary: j)
  case 0
  then show ?case using assms(5) by simp
next
  case (Suc n)
  show ?case
  proof (cases "j = k")
    case False
    then have "j < length ls" using Suc.prems assms(5) by simp
    from stored_line[OF assms(1) this assms(2)] stored_next[OF this]
    have "get_line_loop buf (Suc n) (j + 1) (k + 1) (length (stored (take j ls)))
        = get_line_loop buf n (Suc j + 1) (k + 1) (length (stored (take (Suc j) ls)))"
      using False by simp
    with Suc.IH[of "Suc j"] Suc.prems False show ?thesis by simp
  qed simp
qed

lemma at_resp_get_line_stored:
  assumes "take (length (stored ls)) (ar_buf r) = stored ls" "\<forall>l \<in> set ls. 0 \<notin> set l" "line_counts r = length ls"
  shows "map_option cstr (at_resp_get_line r k) = (if 0 < k \<and> k \<le> length ls then Some (ls ! (k - 1) @ [13]) else None)"
proof (cases "0 < k \<and> k \<le> length ls")
  case True
  then have k: "k - 1 < length ls" "k = k - 1 + 1" by auto
  from get_line_loop_stored[OF assms(1,2), of 0 "length ls" "k - 1"] k
  have "get_line_loop (ar_buf r) (length ls) 1 k 0 = Some (length (stored (take (k - 1) ls)))" by simp
  with True stored_line[OF assms(1) k(1) assms(2)] show ?thesis by (simp add: at_resp_get_line_def assms(3))
qed (auto simp: at_resp_get_line_def assms(3))

lemma get_kw_loop_stored:
  assumes "take (length (stored ls)) buf = stored ls" "\<forall>l \<in> set ls. 0 \<notin> set l" "j + n = length ls"
  shows "map_option (\<lambda>off. cstr (drop off buf)) (get_kw_loop buf n kw (length (stored (take j ls)))) =
    map_option (\<lambda>l. l @ [13]) (find (\<lambda>l. strstr (l @ [13]) kw) (drop j ls))"
  using assms(3)
proof (induction n arbitrary: j)
  case 0
  then show ?case by simp
next
  case (Suc n)
  then have j: "j < length ls" by simp
  note c = stored_line[OF assms(1) j assms(2)]
  have d: "drop j ls = ls ! j # drop (Suc j) ls" using j by (rule take_Suc_drop_nth)
  show ?case
  proof (cases "strstr (ls ! j @ [13]) kw")
    case False
    then have "get_kw_loop buf (Suc n) kw (length (stored (take j ls)))
        = get_kw_loop buf n kw (length (stored (take (Suc j) ls)))"
      using c stored_next[OF j] by simp
    with Suc.IH[of "Suc j"] Suc.prems False show ?thesis by (simp add: d)
  qed (simp add: c d)
qed

lemma at_resp_get_line_by_kw_stored:
  assumes "take (length (stored ls)) (ar_buf r) = stored ls" "\<forall>l \<in> set ls. 0 \<notin> set l" "line_counts r = length ls"
  shows "map_option cstr (at_resp_get_line_by_kw r kw) =
    map_option (\<lambda>l. l @ [13]) (find (\<lambda>l. strstr (l @ [13]) kw) ls)"
  using get_kw_loop_stored[OF assms(1,2), of 0 "length ls" kw]
  by (simp add: at_resp_get_line_by_kw_def assms(3) option.map_comp comp_def)

section \<open>Executing a command\<close>

text \<open>Between commands: no notice, no half line, nothing collected.\<close>

definition at_idle :: "at_parser \<Rightarrow> bool" where
  "at_idle p = (status (cl p) \<noteq> AT_STATUS_CLI \<and> notices (cl p) = 0 \<and> pending p = [] \<and> resp_buf_len p = 0 \<and> line_cnt p = 0)"

definition fresh_resp :: "nat \<Rightarrow> at_parser \<Rightarrow> nat \<Rightarrow> nat \<Rightarrow> bool" where
  "fresh_resp a p sz n = (\<exists>r. heap (cl p) a = Some r \<and> line_num r = n \<and> buf_size r = sz \<and> length (ar_buf r) = sz)"

definition sendable :: "u8 list \<Rightarrow> bool" where
  "sendable cmd = (37 \<notin> set cmd \<and> length cmd < 128)"

definition body :: "at_client \<Rightarrow> nat \<Rightarrow> u8 list list \<Rightarrow> bool" where
  "body c n ms = ((\<forall>l \<in> set ms. plain c l \<and> 0 \<notin> set l) \<and> (\<forall>i < length ms. verdict n (i + 1) (ms ! i) = None))"

text \<open>The response holds the lines \<open>ls\<close>: what the accessors return.\<close>

definition resp_holds :: "at_response \<Rightarrow> u8 list list \<Rightarrow> bool" where
  "resp_holds r ls = (line_counts r = length ls \<and>
     (\<forall>k. map_option cstr (at_resp_get_line r k) = (if 0 < k \<and> k \<le> length ls then Some (ls ! (k - 1) @ [13]) else None)) \<and>
     (\<forall>kw. map_option cstr (at_resp_get_line_by_kw r kw) = map_option (\<lambda>l. l @ [13]) (find (\<lambda>l. strstr (l @ [13]) kw) ls)))"

definition holds :: "nat \<Rightarrow> at_parser \<Rightarrow> u8 list list \<Rightarrow> bool" where
  "holds a p ls = (\<exists>r. heap (cl p) a = Some r \<and> resp_holds r ls)"

lemma complete_holds:
  assumes "complete a ls p" "\<forall>l \<in> set ls. 0 \<notin> set l"
  shows "holds a p ls"
proof -
  obtain r where r: "heap (cl p) a = Some r" "line_counts r = length ls"
    "take (length (stored ls)) (ar_buf r) = stored ls" using assms(1) by (auto simp: complete_def)
  show ?thesis unfolding holds_def resp_holds_def
    by (intro exI[of _ r] conjI allI r(1,2) at_resp_get_line_stored[OF r(3) assms(2) r(2)]
      at_resp_get_line_by_kw_stored[OF r(3) assms(2) r(2)])
qed

lemma exec_begin_collecting:
  assumes "at_idle p" "fresh_resp a p sz n" "sendable cmd"
  obtains p1 where "exec_begin (Some a) cmd p = Some (Inr p1)" "collecting a sz n [] p1"
    "events p1 = events p @ [Written cmd, Written [13, 10]]" "notices (cl p1) = 0" "pending p1 = []"
    "status (cl p1) = status (cl p)" "\<And>l. plain (cl p1) l = plain (cl p) l" "resp_status (cl p1) = AT_RESP_OK"
proof -
  from assms(2) obtain r where r: "heap (cl p) a = Some r" "line_num r = n" "buf_size r = sz" "length (ar_buf r) = sz"
    by (auto simp: fresh_resp_def)
  define p1 where "p1 = p\<lparr>events := events p @ [Written cmd, Written [13, 10]],
      cl := (cl p)\<lparr>resp_status := AT_RESP_OK, resp := Some a,
        heap := (heap (cl p))(a := map_option (line_counts_update (\<lambda>_. 0)) (heap (cl p) a))\<rparr>\<rparr>"
  show thesis
  proof (rule that[of p1])
    show "exec_begin (Some a) cmd p = Some (Inr p1)"
      using assms(1,3) by (simp add: exec_begin_def at_vprintfln_def sendable_def at_idle_def p1_def)
    show "collecting a sz n [] p1" using assms(1) r by (simp add: collecting_def p1_def at_idle_def)
    show "plain (cl p1) l = plain (cl p) l" for l by (rule plain_cfg) (simp_all add: p1_def)
  qed (use assms(1) in \<open>simp_all add: p1_def at_idle_def\<close>)
qed

text \<open>A command whose answer ends with a verdict line within the timeout: the response keeps the lines that fit.\<close>

lemma exec_answered_kept:
  assumes "at_idle p" "fresh_resp a p sz n" "sendable cmd" "\<forall>l \<in> set (ms @ [f]). plain (cl p) l \<and> 0 \<notin> set l"
    "open_lines n sz ms" "verdict n (length (kept sz (ms @ [f]))) f = Some st"
  shows "\<exists>p'. at_obj_exec_cmd h (Some a) cmd (wire (ms @ [f])) p = Some (if st = AT_RESP_OK then RT_EOK else -RT_ERROR, p') \<and>
    holds a p' (kept sz (ms @ [f])) \<and> at_idle p' \<and> events p' = events p @ [Written cmd, Written [13, 10]] \<and>
    (\<forall>l. plain (cl p') l = plain (cl p) l)"
proof -
  obtain p1 where p1: "exec_begin (Some a) cmd p = Some (Inr p1)" "collecting a sz n [] p1"
    "events p1 = events p @ [Written cmd, Written [13, 10]]" "notices (cl p1) = 0" "pending p1 = []"
    "status (cl p1) = status (cl p)" "\<And>l. plain (cl p1) l = plain (cl p) l"
    using exec_begin_collecting[OF assms(1-3)] by blast
  from parser_answer[OF p1(2) _ assms(5,6), of h] assms(4) p1(4,7) obtain p2 where
    p2: "client_parser h (wire (ms @ [f])) p1 = Some p2" "complete a (kept sz (ms @ [f])) p2" "pending p2 = []"
      "notices (cl p2) = 1" "resp_status (cl p2) = st" "events p2 = events p1" "status (cl p2) = status (cl p1)"
      "\<forall>l. plain (cl p2) l = plain (cl p1) l" by auto
  define p3 where "p3 = p2\<lparr>cl := (cl p2)\<lparr>notices := 0, resp := None\<rparr>\<rparr>"
  have e: "at_obj_exec_cmd h (Some a) cmd (wire (ms @ [f])) p = Some (if st = AT_RESP_OK then RT_EOK else -RT_ERROR, p3)"
    using p1(1,4,5) p2(1,4,5) by (simp add: at_obj_exec_cmd_def exec_end_def Let_def p3_def)
  have c: "complete a (kept sz (ms @ [f])) p3" using p2(2) by (simp add: complete_def p3_def)
  then have "holds a p3 (kept sz (ms @ [f]))"
    by (rule complete_holds) (use assms(4) kept_set[of sz "ms @ [f]"] in blast)
  moreover have "at_idle p3"
    using p2(3,7) p1(6) assms(1) c by (simp add: at_idle_def p3_def complete_def)
  moreover have "plain (cl p3) l = plain (cl p2) l" for l by (rule plain_cfg) (simp_all add: p3_def)
  ultimately show ?thesis using e p1(3,7) p2(6,8) by (auto simp: p3_def)
qed

text \<open>When the whole answer fits, every line is kept.\<close>

lemma body_open:
  assumes "body c n ms" "length (stored ms) < sz"
  shows "open_lines n sz ms"
  unfolding open_lines_def
proof (intro allI impI)
  fix i assume i: "i < length ms"
  have "stored ms = stored (take (i + 1) ms) @ stored (drop (i + 1) ms)" by (metis append_take_drop_id stored_simps(3))
  then have "length (stored (take (i + 1) ms)) < sz" using assms(2) by simp
  with i assms(1) show "verdict n (length (kept sz (take (i + 1) ms))) (ms ! i) = None"
    by (simp add: kept_all body_def)
qed

lemma exec_answered:
  assumes "at_idle p" "fresh_resp a p sz n" "sendable cmd" "body (cl p) n ms"
    "plain (cl p) f" "0 \<notin> set f" "verdict n (length ms + 1) f = Some st" "length (stored (ms @ [f])) < sz"
  shows "\<exists>p'. at_obj_exec_cmd h (Some a) cmd (wire (ms @ [f])) p = Some (if st = AT_RESP_OK then RT_EOK else -RT_ERROR, p') \<and>
    holds a p' (ms @ [f]) \<and> at_idle p' \<and> events p' = events p @ [Written cmd, Written [13, 10]] \<and>
    (\<forall>l. plain (cl p') l = plain (cl p) l)"
proof -
  have l: "\<forall>l \<in> set (ms @ [f]). plain (cl p) l \<and> 0 \<notin> set l" using assms(4-6) by (auto simp: body_def)
  have "open_lines n sz ms" by (rule body_open[OF assms(4)]) (use assms(8) in simp)
  from exec_answered_kept[OF assms(1-3) l this, of st h] show ?thesis
    using assms(7) by (simp only: kept_all[OF assms(8)]) simp
qed

text \<open>A command whose answer is not complete in time: the parser keeps its counters.\<close>

lemma exec_timed_out:
  assumes "at_idle p" "fresh_resp a p sz n" "sendable cmd" "\<forall>l \<in> set ms. plain (cl p) l \<and> 0 \<notin> set l" "open_lines n sz ms"
  shows "\<exists>p'. at_obj_exec_cmd h (Some a) cmd (wire ms) p = Some (-RT_ETIMEOUT, p') \<and> resp (cl p') = None \<and>
    resp_status (cl p') = AT_RESP_TIMEOUT \<and> resp_buf_len p' = length (stored (kept sz ms)) \<and> line_cnt p' = length (kept sz ms)"
proof -
  obtain p1 where p1: "exec_begin (Some a) cmd p = Some (Inr p1)" "collecting a sz n [] p1"
    "notices (cl p1) = 0" "pending p1 = []" "\<And>l. plain (cl p1) l = plain (cl p) l"
    using exec_begin_collecting[OF assms(1-3)] by blast
  from parser_lines[OF p1(2) _ assms(5), of h "[]"] assms(4) p1(3,5) obtain p2 where
    p2: "client_parser h (wire ms) p1 = Some p2" "collecting a sz n (kept sz ms) p2" "notices (cl p2) = 0"
    by (auto simp: parser_end collecting_def)
  then show ?thesis
    using p1(1,3,4) by (simp add: at_obj_exec_cmd_def exec_end_def Let_def collecting_def)
qed

end
