(* ===== verification/NbIot.thy ===== *)
theory NbIot
  imports AtClient Kprintf
begin

text \<open>
  The driver \<^verbatim>\<open>Mydevice/NB_IOT.c\<close> of the narrow-band modem, on top of the AT client: identification, signal and
  registration queries, the four commands of an HTTP post, the older cloud commands, and the table of
  unsolicited codes. Each routine gets the address that the allocator returns for its response object
  (\<open>None\<close>: no memory) and the bytes that the modem sends before the time is up. \<open>None\<close> as a result is a
  crash: a null or dangling pointer or a buffer overrun. \<open>cs\<close> is a C string constant.
\<close>

definition cs :: "string \<Rightarrow> u8 list" where "cs s = map of_char s"

section \<open>Data\<close>

record IOT_DATA_t =
  NB_IMSI :: "u8 list"
  NB_CGSN :: "u8 list"
  NB_SIGNAL :: "u8 list"
  net_sta :: int
  HTTP_EXAMPLE :: u8
  HTTP_URL :: "u8 list"
  HTTP_HEADER :: "u8 list"
  HTTP_CONTENT :: "u8 list"
  HTTP_SEND_URL :: "u8 list"

text \<open>
  The part that all routines share: create a response, send the command, and delete the response at the
  end; the caller gets the response as it was before it was deleted.
\<close>

definition at_call :: "at_handler \<Rightarrow> nat option \<Rightarrow> nat \<Rightarrow> nat \<Rightarrow> u8 list \<Rightarrow> u8 list \<Rightarrow> at_parser
    \<Rightarrow> ((int \<times> at_response) option \<times> at_parser) option" where
  "at_call h a sz lines cmd inp q =
     (case at_create_resp a sz lines 5000 (cl q) of
        (None, c) \<Rightarrow> Some (None, q)
      | (Some x, c) \<Rightarrow>
          (case at_obj_exec_cmd h (Some x) cmd inp (q\<lparr>cl := c\<rparr>) of
             None \<Rightarrow> None
           | Some (e, q') \<Rightarrow>
               (case heap (cl q') x of
                  None \<Rightarrow> None
                | Some r \<Rightarrow> Some (Some (e, r), q'\<lparr>cl := at_delete_resp (Some x) (cl q')\<rparr>))))"

definition has_line :: "at_response \<Rightarrow> string \<Rightarrow> bool" where
  "has_line r kw = (at_resp_get_line_by_kw r (cs kw) \<noteq> None)"

section \<open>Queries\<close>

definition NB_IOT_GetCGSN :: "at_handler \<Rightarrow> nat option \<Rightarrow> u8 list \<Rightarrow> IOT_DATA_t \<Rightarrow> at_parser
    \<Rightarrow> (int \<times> IOT_DATA_t \<times> at_parser) option" where
  "NB_IOT_GetCGSN h a inp d q =
     (case at_call h a 64 0 (cs ''AT+CGSN=1'') inp q of
        None \<Rightarrow> None
      | Some (None, q') \<Rightarrow> Some (RT_ERROR, d, q')
      | Some (Some (e, r), q') \<Rightarrow>
          if e \<noteq> RT_EOK then Some (RT_ERROR, d, q')
          else if has_line r ''OK'' then
            (case at_resp_get_line_by_kw r (cs ''+CGSN:'') of
               None \<Rightarrow> None
             | Some s \<Rightarrow> if length s < 21 then None
                         else Some (RT_EOK, d\<lparr>NB_CGSN := take 15 (drop 6 s) @ [0]\<rparr>, q'))
          else Some (RT_ERROR, d, q'))"

definition NB_IOT_GetCIMI :: "at_handler \<Rightarrow> nat option \<Rightarrow> u8 list \<Rightarrow> IOT_DATA_t \<Rightarrow> at_parser
    \<Rightarrow> (int \<times> IOT_DATA_t \<times> at_parser) option" where
  "NB_IOT_GetCIMI h a inp d q =
     (case at_call h a 64 0 (cs ''AT+CIMI'') inp q of
        None \<Rightarrow> None
      | Some (None, q') \<Rightarrow> Some (RT_ERROR, d, q')
      | Some (Some (e, r), q') \<Rightarrow>
          if e \<noteq> RT_EOK then Some (RT_ERROR, d, q')
          else if has_line r ''OK'' then
            (case at_resp_get_line r 2 of
               None \<Rightarrow> None
             | Some s \<Rightarrow> if length s < 15 then None
                         else Some (RT_EOK, d\<lparr>NB_IMSI := take 15 s @ [0]\<rparr>, q'))
          else Some (RT_EOK, d, q'))"

text \<open>What the routine makes of the line that starts with \<open>+CSQ:\<close>; the old strength is kept in the last case.\<close>

definition signal_field :: "u8 list \<Rightarrow> u8 list \<Rightarrow> (int \<times> u8 list) option" where
  "signal_field s old =
     (if length s < 7 then None
      else if s ! 6 = 44 then Some (RT_EOK, [48, s ! 5])
      else if length s < 8 then None
      else if s ! 7 = 44 \<and> s ! 5 = 57 \<and> s ! 6 = 57 then Some (RT_ERROR, [57, 57])
      else if s ! 7 = 44 \<and> ((s ! 5 > 48 \<and> s ! 6 > 50) \<or> s ! 5 > 50) then Some (RT_EOK, [s ! 5, s ! 6])
      else Some (RT_EOK, old))"

definition NB_IOT_GetSignal :: "at_handler \<Rightarrow> nat option \<Rightarrow> u8 list \<Rightarrow> IOT_DATA_t \<Rightarrow> at_parser
    \<Rightarrow> (int \<times> IOT_DATA_t \<times> at_parser) option" where
  "NB_IOT_GetSignal h a inp d q =
     (case at_call h a 64 0 (cs ''AT+CSQ'') inp q of
        None \<Rightarrow> None
      | Some (None, q') \<Rightarrow> Some (RT_ERROR, d, q')
      | Some (Some (e, r), q') \<Rightarrow>
          if e \<noteq> RT_EOK then Some (RT_ERROR, d, q')
          else if has_line r ''OK'' then
            (case at_resp_get_line_by_kw r (cs ''+CSQ:'') of
               None \<Rightarrow> None
             | Some s \<Rightarrow> (case signal_field s (NB_SIGNAL d) of
                           None \<Rightarrow> None
                         | Some (e, f) \<Rightarrow> Some (e, d\<lparr>NB_SIGNAL := f\<rparr>, q')))
          else Some (RT_EOK, d, q'))"

definition NB_IOT_ConsultNet :: "at_handler \<Rightarrow> nat option \<Rightarrow> u8 list \<Rightarrow> at_parser \<Rightarrow> (int \<times> at_parser) option" where
  "NB_IOT_ConsultNet h a inp q =
     (case at_call h a 64 0 (cs ''AT+CEREG?'') inp q of
        None \<Rightarrow> None
      | Some (None, q') \<Rightarrow> Some (RT_ERROR, q')
      | Some (Some (e, r), q') \<Rightarrow>
          Some (if e = RT_EOK \<and> has_line r ''OK'' \<and> has_line r ''+CEREG:0,1'' then RT_EOK else RT_ERROR, q'))"

section \<open>HTTP\<close>

text \<open>\<^verbatim>\<open>rt_sprintf\<close> into a local array of \<open>n\<close> characters: the string it then holds.\<close>

definition local_sprintf :: "nat \<Rightarrow> string \<Rightarrow> parg list \<Rightarrow> u8 list option" where
  "local_sprintf n fmt args = map_option (\<lambda>(l, buf). cstr buf) (rt_sprintf (replicate n 0) (cs fmt) args)"

definition NB_IOT_HTTPCREATE :: "at_handler \<Rightarrow> nat option \<Rightarrow> u8 list \<Rightarrow> IOT_DATA_t \<Rightarrow> at_parser
    \<Rightarrow> (int \<times> IOT_DATA_t \<times> at_parser) option" where
  "NB_IOT_HTTPCREATE h a inp d q =
     (if a = None then Some (RT_ERROR, d, q)
      else case local_sprintf 50 ''AT+HTTPCREATE=\"%s\"'' [PStr (Some (HTTP_URL d))] of
             None \<Rightarrow> None
           | Some tmp \<Rightarrow>
      (case at_call h a 64 0 tmp inp q of
         None \<Rightarrow> None
       | Some (None, q') \<Rightarrow> Some (RT_ERROR, d, q')
       | Some (Some (e, r), q') \<Rightarrow>
           if e \<noteq> RT_EOK then Some (RT_ERROR, d, q')
           else if has_line r ''OK'' then
             (case at_resp_get_line_by_kw r (cs ''+HTTPCREATE:'') of
                None \<Rightarrow> None
              | Some s \<Rightarrow> if length s < 13 then None else Some (RT_EOK, d\<lparr>HTTP_EXAMPLE := s ! 12\<rparr>, q'))
           else Some (RT_EOK, d, q')))"

text \<open>The end that the three setting commands share; \<open>dflt\<close> is the initial result.\<close>

definition http_result :: "int \<Rightarrow> int \<Rightarrow> at_response \<Rightarrow> int" where
  "http_result dflt e r =
     (if e \<noteq> RT_EOK then (if e = -RT_ETIMEOUT then RT_ETIMEOUT else RT_ERROR)
      else if has_line r ''OK'' then RT_EOK else dflt)"

definition http_command :: "at_handler \<Rightarrow> nat option \<Rightarrow> nat \<Rightarrow> int \<Rightarrow> u8 list option \<Rightarrow> u8 list \<Rightarrow> at_parser
    \<Rightarrow> (int \<times> at_parser) option" where
  "http_command h a lines dflt tmp inp q =
     (if a = None then Some (RT_ERROR, q)
      else case tmp of
             None \<Rightarrow> None
           | Some cmd \<Rightarrow>
               (case at_call h a 64 lines cmd inp q of
                  None \<Rightarrow> None
                | Some (None, q') \<Rightarrow> Some (RT_ERROR, q')
                | Some (Some (e, r), q') \<Rightarrow> Some (http_result dflt e r, q')))"

definition NB_IOT_HTTPHEADER :: "at_handler \<Rightarrow> nat option \<Rightarrow> u8 list \<Rightarrow> IOT_DATA_t \<Rightarrow> at_parser \<Rightarrow> (int \<times> at_parser) option" where
  "NB_IOT_HTTPHEADER h a inp d q =
     http_command h a 0 RT_EOK (local_sprintf 128 ''AT+HTTPHEADER=%c,\"%s\"''
       [PInt (ucast (HTTP_EXAMPLE d)), PStr (Some (HTTP_HEADER d))]) inp q"

definition NB_IOT_HTTPCONTENT :: "at_handler \<Rightarrow> nat option \<Rightarrow> u8 list \<Rightarrow> IOT_DATA_t \<Rightarrow> at_parser \<Rightarrow> (int \<times> at_parser) option" where
  "NB_IOT_HTTPCONTENT h a inp d q =
     http_command h a 0 RT_ERROR (local_sprintf 128 ''AT+HTTPCONTENT=%c,\"%s\"''
       [PInt (ucast (HTTP_EXAMPLE d)), PStr (Some (HTTP_CONTENT d))]) inp q"

definition NB_IOT_HTTPSEND :: "at_handler \<Rightarrow> nat option \<Rightarrow> u8 list \<Rightarrow> u32 \<Rightarrow> IOT_DATA_t \<Rightarrow> at_parser \<Rightarrow> (int \<times> at_parser) option" where
  "NB_IOT_HTTPSEND h a inp mode d q =
     http_command h a 2 RT_ERROR (local_sprintf 128 ''AT+HTTPSEND=%c,%d,\"%s\"''
       [PInt (ucast (HTTP_EXAMPLE d)), PInt mode, PStr (Some (HTTP_SEND_URL d))]) inp q"

definition NB_IOT_HTTPCLOSE :: "at_handler \<Rightarrow> nat option \<Rightarrow> u8 list \<Rightarrow> IOT_DATA_t \<Rightarrow> at_parser \<Rightarrow> (int \<times> at_parser) option" where
  "NB_IOT_HTTPCLOSE h a inp d q =
     (if a = None then Some (RT_ERROR, q)
      else case local_sprintf 30 ''AT+HTTPCLOSE=%c'' [PInt (ucast (HTTP_EXAMPLE d))] of
             None \<Rightarrow> None
           | Some cmd \<Rightarrow>
               (case at_call h a 32 0 cmd inp q of
                  None \<Rightarrow> None
                | Some (None, q') \<Rightarrow> Some (RT_ERROR, q')
                | Some (Some (e, r), q') \<Rightarrow>
                    Some (if e = RT_EOK \<and> has_line r ''OK'' then RT_EOK else RT_ERROR, q')))"

section \<open>The older cloud commands\<close>

text \<open>The 25 characters of \<^verbatim>\<open>cmd\<close>: at most 17 of the address, which then has no terminator.\<close>

definition ncdp_command :: "u8 list \<Rightarrow> u8 list option" where
  "ncdp_command IP = (if length (cstr IP) < 17 then Some (cs ''AT+NCDP='' @ cstr IP) else None)"

definition NB_IOT_Connect :: "at_handler \<Rightarrow> nat option \<Rightarrow> u8 list \<Rightarrow> u8 list \<Rightarrow> at_parser \<Rightarrow> (int \<times> at_parser) option" where
  "NB_IOT_Connect h a inp IP q =
     (case ncdp_command IP of
        None \<Rightarrow> None
      | Some cmd \<Rightarrow>
          (case at_call h a 16 0 cmd inp q of
             None \<Rightarrow> None
           | Some (None, q') \<Rightarrow> Some (RT_ERROR, q')
           | Some (Some (e, r), q') \<Rightarrow>
               Some (if e \<noteq> RT_EOK then RT_ERROR
                     else if has_line r ''OK'' then RT_EOK
                     else if has_line r ''ERROR'' then RT_ERROR else RT_EOK, q')))"

definition Char2ASCII :: "u8 \<Rightarrow> u8 list" where
  "Char2ASCII ch = (if 48 \<le> ch \<and> ch \<le> 57 then [51, ch] else if ch = 46 then cs ''2E'' else cs ''00'')"

text \<open>The loop that appends the hex codes at \<open>i\<close>; characters without a code are skipped.\<close>

fun send_loop :: "u8 list \<Rightarrow> nat \<Rightarrow> u8 list \<Rightarrow> u8 list option" where
  "send_loop [] i cmd = Some cmd"
| "send_loop (ch # arr) i cmd =
     (if i \<ge> 100 then Some cmd
      else if hd (Char2ASCII ch) = 48 then send_loop arr i cmd
      else if i + 1 \<ge> 100 then None
      else send_loop arr (i + 2) (cmd[i := Char2ASCII ch ! 0, i + 1 := Char2ASCII ch ! 1]))"

definition send_command :: "u8 list \<Rightarrow> nat \<Rightarrow> u8 list option" where
  "send_command arr len =
     (let a = of_nat (len div 10 + 48) :: u8;
          b = of_nat (len mod 10 + 48) :: u8;
          cmd = cs ''AT+NMGS='' @ (if a = 48 then [b, 44, 48, 48] else [a, b, 44, 48, 48]);
          i = length cmd
      in case send_loop (cstr arr) i (cmd @ replicate (100 - i) 0) of
           None \<Rightarrow> None
         | Some c \<Rightarrow> if 0 \<in> set c then Some (cstr c) else None)"

definition NB_IOT_SendData :: "at_handler \<Rightarrow> nat option \<Rightarrow> u8 list \<Rightarrow> u8 list \<Rightarrow> nat \<Rightarrow> at_parser \<Rightarrow> (int \<times> at_parser) option" where
  "NB_IOT_SendData h a inp arr len q =
     (case send_command arr len of
        None \<Rightarrow> None
      | Some cmd \<Rightarrow>
          (case at_call h a 512 0 cmd inp q of
             None \<Rightarrow> None
           | Some (None, q') \<Rightarrow> Some (RT_ERROR, q')
           | Some (Some (e, r), q') \<Rightarrow>
               Some (if e \<noteq> RT_EOK \<or> has_line r ''ERROR'' then RT_ERROR else RT_EOK, q')))"

section \<open>Start-up\<close>

text \<open>The attempts to read the card number and the signal; one \<open>(address, input)\<close> pair per attempt.\<close>

fun cimi_loop :: "at_handler \<Rightarrow> (nat option \<times> u8 list) list \<Rightarrow> IOT_DATA_t \<Rightarrow> at_parser \<Rightarrow> (IOT_DATA_t \<times> at_parser) option" where
  "cimi_loop h [] d q = Some (d, q)"
| "cimi_loop h ((a, inp) # rest) d q =
     (case NB_IOT_GetCIMI h a inp d q of
        None \<Rightarrow> None
      | Some (e, d', q') \<Rightarrow> if e = RT_EOK then Some (d', q') else cimi_loop h rest d' q')"

fun signal_loop :: "at_handler \<Rightarrow> (nat option \<times> u8 list) list \<Rightarrow> IOT_DATA_t \<Rightarrow> at_parser \<Rightarrow> (IOT_DATA_t \<times> at_parser) option" where
  "signal_loop h [] d q = Some (d, q)"
| "signal_loop h ((a, inp) # rest) d q =
     (case NB_IOT_GetSignal h a inp d q of
        None \<Rightarrow> None
      | Some (e, d', q') \<Rightarrow> if NB_SIGNAL d' ! 0 \<noteq> 57 then Some (d', q') else signal_loop h rest d' q')"

text \<open>The wait for the network has no bound: \<open>False\<close> when the given attempts did not suffice.\<close>

fun net_loop :: "at_handler \<Rightarrow> (nat option \<times> u8 list) list \<Rightarrow> at_parser \<Rightarrow> (bool \<times> at_parser) option" where
  "net_loop h [] q = Some (False, q)"
| "net_loop h ((a, inp) # rest) q =
     (case NB_IOT_ConsultNet h a inp q of
        None \<Rightarrow> None
      | Some (e, q') \<Rightarrow> if e = RT_EOK then Some (True, q') else net_loop h rest q')"

section \<open>Unsolicited codes\<close>

definition nb_urc_table :: "at_urc list" where
  "nb_urc_table =
     [\<lparr>cmd_prefix = cs ''+NNMI:'', cmd_suffix = cs ''00'', urc_fun = Some 0\<rparr>,
      \<lparr>cmd_prefix = cs ''M5310-A'', cmd_suffix = [13, 10], urc_fun = Some 1\<rparr>,
      \<lparr>cmd_prefix = cs ''CONNECT OK'', cmd_suffix = [13, 10], urc_fun = Some 2\<rparr>,
      \<lparr>cmd_prefix = cs ''+HTTPDISCON:'', cmd_suffix = [13, 10], urc_fun = Some 3\<rparr>,
      \<lparr>cmd_prefix = cs ''+HTTPNMIH:'', cmd_suffix = [13, 10], urc_fun = Some 4\<rparr>,
      \<lparr>cmd_prefix = cs ''+HTTPNMIC:'', cmd_suffix = [13, 10], urc_fun = Some 5\<rparr>]"

definition at_client_port_init :: "at_client \<Rightarrow> at_client" where
  "at_client_port_init c = at_obj_set_urc_table nb_urc_table c"

text \<open>\<^verbatim>\<open>flag\<close>: the modem has announced itself.\<close>

definition nb_flag :: "at_parser \<Rightarrow> bool" where
  "nb_flag p = list_ex (\<lambda>e. case e of UrcCall f _ \<Rightarrow> f = 1 | _ \<Rightarrow> False) (events p)"

text \<open>The message of \<^verbatim>\<open>urc_func\<close>: \<^verbatim>\<open>strcmp\<close> is zero on a match, so a match reports failure.\<close>

definition urc_func_success :: "u8 list \<Rightarrow> bool" where
  "urc_func_success data = (rt_strcmp (cstr data) (cs ''+NNMI:4,AAAA0000'') \<noteq> 0)"

text \<open>
  \<^verbatim>\<open>urc_httpContent_func\<close>, run by the parser thread with no other command in progress (it would wait for the
  lock): it takes three bytes off the line and, for an empty content, tries to close the connection. The answer
  can only be read by the thread that waits for it here. Result: bytes consumed.
\<close>

definition urc_httpContent_func :: "nat option \<Rightarrow> u8 list \<Rightarrow> u8 list \<Rightarrow> at_parser \<Rightarrow> (nat \<times> at_parser) option" where
  "urc_httpContent_func a data rest p =
     (let k = min 3 (length rest) in
      if length data < 13 then None
      else if data ! 12 = 48 then
        (case at_create_resp a 64 2 500 (cl p) of
           (None, c) \<Rightarrow> None
         | (Some x, c) \<Rightarrow>
             (case local_sprintf 30 ''AT+HTTPCLOSE=%c'' [PInt (ucast (data ! 10))] of
                None \<Rightarrow> None
              | Some cmd \<Rightarrow>
                  (case exec_begin (Some x) cmd (p\<lparr>cl := c\<rparr>) of
                     None \<Rightarrow> None
                   | Some (Inl e) \<Rightarrow> Some (k, p)
                   | Some (Inr p1) \<Rightarrow>
                       (case exec_end (Some x) p1 of
                          (e, p2) \<Rightarrow> Some (k, p2\<lparr>cl := at_delete_resp (Some x) (cl p2)\<rparr>)))))
      else Some (k, p))"

text \<open>
  \<open>NB_IOT_Init\<close> after the client was created: the wait for the modem, unless it has announced itself, then the
  queries. \<open>None\<close> inside: not registered yet.
\<close>

definition NB_IOT_Init :: "at_handler \<Rightarrow> nat option \<Rightarrow> (u32 \<times> u8 list) list \<Rightarrow> nat option \<times> u8 list
    \<Rightarrow> (nat \<Rightarrow> nat option \<times> u8 list) \<Rightarrow> (nat \<Rightarrow> nat option \<times> u8 list) \<Rightarrow> (nat option \<times> u8 list) list
    \<Rightarrow> IOT_DATA_t \<Rightarrow> at_parser \<Rightarrow> (int option \<times> IOT_DATA_t \<times> at_parser) option" where
  "NB_IOT_Init h aw rounds cgsn cimis signals nets d q0 =
     (let q = q0\<lparr>cl := at_client_port_init (cl q0)\<rparr> in
      case (if nb_flag q then Some (Some RT_EOK, q) else at_client_obj_wait_connect h aw 500 rounds q) of
        None \<Rightarrow> None
      | Some (None, q1) \<Rightarrow> Some (None, d, q1)
      | Some (Some e, q1) \<Rightarrow>
          if e \<noteq> RT_EOK then Some (Some RT_ERROR, d, q1)
          else
            (case NB_IOT_GetCGSN h (fst cgsn) (snd cgsn) d q1 of
               None \<Rightarrow> None
             | Some (_, d1, q2) \<Rightarrow>
                 (case cimi_loop h (map cimis [0..<10]) d1 q2 of
                    None \<Rightarrow> None
                  | Some (d2, q3) \<Rightarrow>
                      (case signal_loop h (map signals [0..<10]) d2 q3 of
                         None \<Rightarrow> None
                       | Some (d3, q4) \<Rightarrow>
                           (case net_loop h nets q4 of
                              None \<Rightarrow> None
                            | Some (False, q5) \<Rightarrow> Some (None, d3, q5)
                            | Some (True, q5) \<Rightarrow> Some (Some RT_EOK, d3\<lparr>net_sta := 1\<rparr>, q5))))))"

section \<open>Answered commands\<close>

text \<open>An answer of the modem that a command for \<open>n\<close> lines accepts, in a response of \<open>sz\<close> bytes.\<close>

definition good_answer :: "at_client \<Rightarrow> nat \<Rightarrow> nat \<Rightarrow> u8 list list \<Rightarrow> bool" where
  "good_answer c sz n ls =
     (ls \<noteq> [] \<and> body c n (butlast ls) \<and> plain c (last ls) \<and> 0 \<notin> set (last ls) \<and>
      verdict n (length ls) (last ls) = Some AT_RESP_OK \<and> length (stored ls) < sz \<and>
      (\<exists>l \<in> set ls. strstr (l @ [13]) (cs ''OK'')))"

definition same_client :: "at_parser \<Rightarrow> at_parser \<Rightarrow> bool" where
  "same_client p p' = (\<forall>l. plain (cl p') l = plain (cl p) l)"

lemma good_answer_same: "same_client p p' \<Longrightarrow> good_answer (cl p') sz n ls = good_answer (cl p) sz n ls"
  by (simp add: good_answer_def body_def same_client_def)

definition sent :: "u8 list \<Rightarrow> at_event list" where "sent cmd = [Written cmd, Written [13, 10]]"

lemma at_call_answered:
  assumes "at_idle q" "sendable cmd" "good_answer (cl q) sz n ls"
  shows "\<exists>r q'. at_call h (Some x) sz n cmd (wire ls) q = Some (Some (RT_EOK, r), q') \<and> resp_holds r ls \<and> at_idle q' \<and>
    events q' = events q @ sent cmd \<and> same_client q q'"
proof -
  let ?c = "(cl q)\<lparr>heap := (heap (cl q))(x \<mapsto> \<lparr>ar_buf = replicate sz 0, buf_size = sz, line_num = n,
      line_counts = 0, ar_timeout = 5000\<rparr>)\<rparr>"
  have i: "at_idle (q\<lparr>cl := ?c\<rparr>)" and f: "fresh_resp x (q\<lparr>cl := ?c\<rparr>) sz n"
    using assms(1) by (simp_all add: at_idle_def fresh_resp_def)
  have pl: "plain ?c l = plain (cl q) l" for l by (rule plain_cfg) simp_all
  have b: "body ?c n (butlast ls)" using assms(3) pl by (simp add: good_answer_def body_def)
  have ls: "butlast ls @ [last ls] = ls" "Suc (length (butlast ls)) = length ls"
    using assms(3) by (simp_all add: good_answer_def)
  from exec_answered[OF i f assms(2), of "butlast ls" "last ls" AT_RESP_OK h] b assms(3) pl ls obtain q1 where
    q1: "at_obj_exec_cmd h (Some x) cmd (wire ls) (q\<lparr>cl := ?c\<rparr>) = Some (RT_EOK, q1)" "holds x q1 ls" "at_idle q1"
      "events q1 = events q @ sent cmd" "\<forall>l. plain (cl q1) l = plain (cl q) l"
    by (auto simp: good_answer_def sent_def)
  from q1(2) obtain r where r: "heap (cl q1) x = Some r" "resp_holds r ls" by (auto simp: holds_def)
  have pd: "plain (at_delete_resp (Some x) (cl q1)) l = plain (cl q1) l" for l
    by (rule plain_cfg) (simp_all add: at_delete_resp_def)
  show ?thesis
    using q1 r pd by (auto simp: at_call_def at_create_resp_def at_idle_def at_delete_resp_def same_client_def)
qed

lemma has_line_iff: "resp_holds r ls \<Longrightarrow> has_line r kw \<longleftrightarrow> (\<exists>l \<in> set ls. strstr (l @ [13]) (cs kw))"
proof -
  assume "resp_holds r ls"
  then have "map_option cstr (at_resp_get_line_by_kw r (cs kw)) = map_option (\<lambda>l. l @ [13]) (find (\<lambda>l. strstr (l @ [13]) (cs kw)) ls)"
    by (simp add: resp_holds_def)
  then have "at_resp_get_line_by_kw r (cs kw) = None \<longleftrightarrow> find (\<lambda>l. strstr (l @ [13]) (cs kw)) ls = None"
    by (metis option.map_disc_iff)
  then show ?thesis by (auto simp: has_line_def find_None_iff)
qed

text \<open>The characters of a line behind the pointer that an accessor returns.\<close>

lemma cstr_prefix: "cstr s = l \<Longrightarrow> i < length l \<Longrightarrow> i < length s \<and> s ! i = l ! i"
  unfolding cstr_def by (metis takeWhile_nth length_takeWhile_le order_less_le_trans)

lemma cstr_take: "cstr s = l \<Longrightarrow> k \<le> length l \<Longrightarrow> take k s = take k l \<and> k \<le> length s"
  unfolding cstr_def
  by (metis takeWhile_eq_take take_take min.absorb1 length_takeWhile_le order_trans)

lemma line_by_kw:
  assumes "resp_holds r ls" "find (\<lambda>l. strstr (l @ [13]) kw) ls = Some l"
  obtains s where "at_resp_get_line_by_kw r kw = Some s" "cstr s = l @ [13]"
proof -
  have "map_option cstr (at_resp_get_line_by_kw r kw) = Some (l @ [13])"
    using assms by (simp add: resp_holds_def)
  then show thesis using that by auto
qed

section \<open>The commands as they are sent\<close>

lemma local_sprintf_out:
  assumes "format_out (cs fmt) args = Some out" "length out < n" "0 \<notin> set out"
  shows "local_sprintf n fmt args = Some out"
proof -
  have "cstr (blit (replicate n 0) 0 (out @ [0])) = out"
    using assms(3) by (simp add: blit_def cstr_stop)
  with assms(1,2) show ?thesis by (simp add: local_sprintf_def rt_sprintf_def)
qed

definition create_cmd :: "u8 list \<Rightarrow> u8 list" where
  "create_cmd url = cs ''AT+HTTPCREATE=\"'' @ url @ cs ''\"''"

definition setting_cmd :: "string \<Rightarrow> u8 \<Rightarrow> u8 list \<Rightarrow> u8 list" where
  "setting_cmd name conn x = cs ''AT+'' @ cs name @ cs ''='' @ [conn] @ cs '',\"'' @ x @ cs ''\"''"

definition send_cmd :: "u8 \<Rightarrow> u32 \<Rightarrow> u8 list \<Rightarrow> u8 list" where
  "send_cmd conn mode url = cs ''AT+HTTPSEND='' @ [conn] @ cs '','' @ dec_int (sint mode) @ cs '',\"'' @ url @ cs ''\"''"

lemma ucast_back: "ucast (ucast (c :: u8) :: u32) = c"
  by (rule bit_eqI) (auto simp: bit_ucast_iff dest: bit_imp_le_length)

lemma create_format: "cstring url \<Longrightarrow> format_out (cs ''AT+HTTPCREATE=\"%s\"'') [PStr (Some url)] = Some (create_cmd url)"
  by (simp add: cs_def create_cmd_def directives rt_strlen_cstring)

lemma content_format:
  "cstring x \<Longrightarrow> format_out (cs ''AT+HTTPCONTENT=%c,\"%s\"'') [PInt (ucast conn), PStr (Some x)] = Some (setting_cmd ''HTTPCONTENT'' conn x)"
  by (simp add: cs_def setting_cmd_def directives rt_strlen_cstring ucast_back)

lemma header_format:
  "cstring x \<Longrightarrow> format_out (cs ''AT+HTTPHEADER=%c,\"%s\"'') [PInt (ucast conn), PStr (Some x)] = Some (setting_cmd ''HTTPHEADER'' conn x)"
  by (simp add: cs_def setting_cmd_def directives rt_strlen_cstring ucast_back)

lemma send_format:
  "cstring x \<Longrightarrow> format_out (cs ''AT+HTTPSEND=%c,%d,\"%s\"'') [PInt (ucast conn), PInt mode, PStr (Some x)] = Some (send_cmd conn mode x)"
  by (simp add: cs_def send_cmd_def directives rt_strlen_cstring ucast_back)

lemma cmd_zero:
  "cstring x \<Longrightarrow> 0 \<notin> set (create_cmd x)"
  "cstring x \<Longrightarrow> conn \<noteq> 0 \<Longrightarrow> 0 \<notin> set (setting_cmd ''HTTPCONTENT'' conn x)"
  "cstring x \<Longrightarrow> conn \<noteq> 0 \<Longrightarrow> 0 \<notin> set (setting_cmd ''HTTPHEADER'' conn x)"
  by (simp_all add: create_cmd_def setting_cmd_def cs_def cstring_def)

lemma dec_int_zero: "0 \<notin> set (dec_int i)"
  using dec_digits[of 0] by (auto simp: dec_int_def is_digit_def)

lemma send_cmd_zero: "cstring x \<Longrightarrow> conn \<noteq> 0 \<Longrightarrow> 0 \<notin> set (send_cmd conn mode x)"
  using dec_int_zero[of "sint mode"] by (simp add: send_cmd_def cs_def cstring_def)

lemma HTTPCREATE_ok:
  assumes "at_idle q" "cstring (HTTP_URL d)" "sendable (create_cmd (HTTP_URL d))" "length (create_cmd (HTTP_URL d)) < 50"
    "good_answer (cl q) 64 0 ls" "find (\<lambda>l. strstr (l @ [13]) (cs ''+HTTPCREATE:'')) ls = Some l" "12 < length l"
  shows "\<exists>q'. NB_IOT_HTTPCREATE h (Some x) (wire ls) d q = Some (RT_EOK, d\<lparr>HTTP_EXAMPLE := l ! 12\<rparr>, q') \<and> at_idle q' \<and>
    events q' = events q @ sent (create_cmd (HTTP_URL d)) \<and> same_client q q'"
proof -
  have t: "local_sprintf 50 ''AT+HTTPCREATE=\"%s\"'' [PStr (Some (HTTP_URL d))] = Some (create_cmd (HTTP_URL d))"
    by (rule local_sprintf_out[OF create_format assms(4) cmd_zero(1)]) (rule assms(2))+
  from at_call_answered[OF assms(1,3,5), of h x] obtain r q' where
    r: "at_call h (Some x) 64 0 (create_cmd (HTTP_URL d)) (wire ls) q = Some (Some (RT_EOK, r), q')" "resp_holds r ls"
      "at_idle q'" "events q' = events q @ sent (create_cmd (HTTP_URL d))" "same_client q q'" by blast
  have ok: "has_line r ''OK''" using has_line_iff[OF r(2)] assms(5) by (simp add: good_answer_def)
  obtain s where s: "at_resp_get_line_by_kw r (cs ''+HTTPCREATE:'') = Some s" "cstr s = l @ [13]"
    using line_by_kw[OF r(2) assms(6)] .
  have "s ! 12 = l ! 12" "\<not> length s < 13" using cstr_prefix[OF s(2), of 12] assms(7) by (auto simp: nth_append)
  with r t ok s(1) show ?thesis by (simp add: NB_IOT_HTTPCREATE_def)
qed

lemma http_command_ok:
  assumes "at_idle q" "sendable cmd" "good_answer (cl q) 64 n ls" "tmp = Some cmd"
  shows "\<exists>q'. http_command h (Some x) n dflt tmp (wire ls) q = Some (RT_EOK, q') \<and> at_idle q' \<and>
    events q' = events q @ sent cmd \<and> same_client q q'"
proof -
  from at_call_answered[OF assms(1-3), of h x] obtain r q' where
    r: "at_call h (Some x) 64 n cmd (wire ls) q = Some (Some (RT_EOK, r), q')" "resp_holds r ls"
      "at_idle q'" "events q' = events q @ sent cmd" "same_client q q'" by blast
  have "has_line r ''OK''" using has_line_iff[OF r(2)] assms(3) by (simp add: good_answer_def)
  with r assms(4) show ?thesis by (simp add: http_command_def http_result_def)
qed

lemma sendable_short: "sendable cmd \<Longrightarrow> length cmd < 128"
  by (simp add: sendable_def)

lemma HTTPCONTENT_ok:
  assumes "at_idle q" "cstring (HTTP_CONTENT d)" "HTTP_EXAMPLE d \<noteq> 0" "good_answer (cl q) 64 0 ls"
    "sendable (setting_cmd ''HTTPCONTENT'' (HTTP_EXAMPLE d) (HTTP_CONTENT d))"
  shows "\<exists>q'. NB_IOT_HTTPCONTENT h (Some x) (wire ls) d q = Some (RT_EOK, q') \<and> at_idle q' \<and>
    events q' = events q @ sent (setting_cmd ''HTTPCONTENT'' (HTTP_EXAMPLE d) (HTTP_CONTENT d)) \<and> same_client q q'"
  unfolding NB_IOT_HTTPCONTENT_def
  by (rule http_command_ok[OF assms(1,5,4)],
      rule local_sprintf_out[OF content_format sendable_short[OF assms(5)] cmd_zero(2)]) (rule assms(2,3))+

lemma HTTPHEADER_ok:
  assumes "at_idle q" "cstring (HTTP_HEADER d)" "HTTP_EXAMPLE d \<noteq> 0" "good_answer (cl q) 64 0 ls"
    "sendable (setting_cmd ''HTTPHEADER'' (HTTP_EXAMPLE d) (HTTP_HEADER d))"
  shows "\<exists>q'. NB_IOT_HTTPHEADER h (Some x) (wire ls) d q = Some (RT_EOK, q') \<and> at_idle q' \<and>
    events q' = events q @ sent (setting_cmd ''HTTPHEADER'' (HTTP_EXAMPLE d) (HTTP_HEADER d)) \<and> same_client q q'"
  unfolding NB_IOT_HTTPHEADER_def
  by (rule http_command_ok[OF assms(1,5,4)],
      rule local_sprintf_out[OF header_format sendable_short[OF assms(5)] cmd_zero(3)]) (rule assms(2,3))+

lemma HTTPSEND_ok:
  assumes "at_idle q" "cstring (HTTP_SEND_URL d)" "HTTP_EXAMPLE d \<noteq> 0" "good_answer (cl q) 64 2 ls"
    "sendable (send_cmd (HTTP_EXAMPLE d) mode (HTTP_SEND_URL d))"
  shows "\<exists>q'. NB_IOT_HTTPSEND h (Some x) (wire ls) mode d q = Some (RT_EOK, q') \<and> at_idle q' \<and>
    events q' = events q @ sent (send_cmd (HTTP_EXAMPLE d) mode (HTTP_SEND_URL d)) \<and> same_client q q'"
  unfolding NB_IOT_HTTPSEND_def
  by (rule http_command_ok[OF assms(1,5,4)],
      rule local_sprintf_out[OF send_format sendable_short[OF assms(5)] send_cmd_zero]) (rule assms(2,3))+

section \<open>Identification, signal, registration\<close>

lemma GetCGSN_ok:
  assumes "at_idle q" "good_answer (cl q) 64 0 ls" "find (\<lambda>l. strstr (l @ [13]) (cs ''+CGSN:'')) ls = Some l"
    "20 \<le> length l"
  shows "\<exists>q'. NB_IOT_GetCGSN h (Some x) (wire ls) d q
      = Some (RT_EOK, d\<lparr>NB_CGSN := take 15 (drop 6 (l @ [13])) @ [0]\<rparr>, q') \<and> at_idle q' \<and> same_client q q'"
proof -
  have sc: "sendable (cs ''AT+CGSN=1'')" by (simp add: sendable_def cs_def)
  from at_call_answered[OF assms(1) sc assms(2), of h x] obtain r q' where
    r: "at_call h (Some x) 64 0 (cs ''AT+CGSN=1'') (wire ls) q = Some (Some (RT_EOK, r), q')" "resp_holds r ls"
      "at_idle q'" "same_client q q'" by blast
  have ok: "has_line r ''OK''" using has_line_iff[OF r(2)] assms(2) by (simp add: good_answer_def)
  obtain s where s: "at_resp_get_line_by_kw r (cs ''+CGSN:'') = Some s" "cstr s = l @ [13]"
    using line_by_kw[OF r(2) assms(3)] .
  have t: "take 21 s = take 21 (l @ [13])" "21 \<le> length s" using cstr_take[OF s(2), of 21] assms(4) by auto
  have "take 15 (drop 6 s) = take 15 (drop 6 (l @ [13]))"
    using arg_cong[OF t(1), of "drop 6"] by (simp only: drop_take) simp
  with r ok s(1) t(2) show ?thesis by (simp add: NB_IOT_GetCGSN_def)
qed

lemma signal_strength:
  assumes "10 \<le> v" "v \<le> 31"
  shows "signal_field (cs ''+CSQ:'' @ dec v @ 44 # rest) old =
    Some (RT_EOK, if v \<in> {10, 11, 12, 20, 21, 22} then old else dec v)"
proof -
  define a b where "a = v div 10" and "b = v mod 10"
  have v: "v = 10 * a + b" "b < 10" "0 < a" "a \<le> 3" using assms by (auto simp: a_def b_def)
  define x y :: u8 where "x = 48 + of_nat a" and "y = 48 + of_nat b"
  have d: "dec v = [x, y]"
    using assms by (simp add: dec.simps[of v] dec.simps[of "v div 10"] x_def y_def a_def b_def)
  have u: "unat x = 48 + a" "unat y = 48 + b" using v digit_char[of a] digit_char[of b] by (simp_all add: x_def y_def)
  have c: "y \<noteq> 44" "x \<noteq> 57" "48 < x" "50 < y \<longleftrightarrow> 2 < b" "50 < x \<longleftrightarrow> 2 < a"
    using u v by (auto simp: word_less_nat_alt word_unat_eq_iff)
  have "signal_field (cs ''+CSQ:'' @ dec v @ 44 # rest) old = Some (RT_EOK, if 2 < b \<or> 2 < a then dec v else old)"
    using c unfolding d by (simp add: signal_field_def cs_def)
  moreover have "2 < b \<or> 2 < a \<longleftrightarrow> v \<notin> {10, 11, 12, 20, 21, 22}"
  proof -
    have "a = 1 \<or> a = 2 \<or> a = 3" using v by linarith
    then show ?thesis using v(1,2) by (elim disjE) auto
  qed
  ultimately show ?thesis by simp
qed

section \<open>The data command\<close>

definition has_code :: "u8 \<Rightarrow> bool" where "has_code c = (hd (Char2ASCII c) \<noteq> 48)"

lemma has_code_iff: "has_code c \<longleftrightarrow> (48 \<le> c \<and> c \<le> 57) \<or> c = 46"
  by (auto simp: has_code_def Char2ASCII_def cs_def)

lemma Char2ASCII_two: "length (Char2ASCII c) = 2"
  by (simp add: Char2ASCII_def cs_def)

lemma send_loop_codes:
  assumes "\<forall>c \<in> set arr. has_code c" "i + 2 * length arr \<le> 100" "length cmd = 100"
  shows "send_loop arr i cmd = Some (take i cmd @ concat (map Char2ASCII arr) @ drop (i + 2 * length arr) cmd)"
  using assms
proof (induction arr arbitrary: i cmd)
  case (Cons c arr)
  obtain a b where ab: "Char2ASCII c = [a, b]"
    using Char2ASCII_two[of c] by (metis (no_types, opaque_lifting) Suc_length_conv length_0_conv numeral_2_eq_2)
  let ?cmd = "cmd[i := a, Suc i := b]"
  have i: "i < 100" "Suc i < 100" "i + 2 + 2 * length arr \<le> 100" using Cons.prems(2) by auto
  have t: "take (i + 2) ?cmd = take i cmd @ [a, b]"
    using i Cons.prems(3) by (simp add: take_Suc_conv_app_nth nth_list_update take_update_cancel)
  have d: "drop (i + 2 + 2 * length arr) ?cmd = drop (i + 2 + 2 * length arr) cmd" by simp
  have "send_loop arr (i + 2) ?cmd = Some (take (i + 2) ?cmd @ concat (map Char2ASCII arr) @ drop (i + 2 + 2 * length arr) ?cmd)"
    using Cons.prems i by (intro Cons.IH) auto
  then show ?case using Cons.prems(1) i ab t d by (simp add: has_code_def)
qed simp

lemma send_loop_overflow:
  assumes "\<forall>c \<in> set arr. has_code c" "100 < i + 2 * length arr" "i < 100" "odd i"
  shows "send_loop arr i cmd = None"
  using assms
proof (induction arr arbitrary: i cmd)
  case (Cons c arr)
  show ?case
  proof (cases "i = 99")
    case True
    with Cons.prems(1) show ?thesis by (simp add: has_code_def)
  next
    case False
    with Cons.prems(3,4) have i: "i + 2 < 100" "odd (i + 2)" by (auto elim!: oddE)
    have "send_loop arr (i + 2) x = None" for x using Cons.prems(1,2) i by (intro Cons.IH) auto
    with Cons.prems(1) i show ?thesis by (simp add: has_code_def)
  qed
qed simp

lemma cstr_append0: "0 \<notin> set l \<Longrightarrow> cstr (l @ replicate n 0) = l"
  using cstr_stop[of l "replicate (n - 1) 0"] by (cases n) (auto simp: cstr_def)

text \<open>A declared length of two digits: the command is the codes of the data, or overruns its buffer.\<close>

lemma send_command_codes:
  assumes "\<forall>c \<in> set arr. has_code c" "10 \<le> len" "len < 100"
  shows "send_command arr len =
    (if length arr \<le> 43 then Some (cs ''AT+NMGS='' @ dec len @ cs '',00'' @ concat (map Char2ASCII arr)) else None)"
proof -
  have z: "0 \<notin> set arr" using assms(1) by (auto simp: has_code_iff)
  then have ca: "cstr arr = arr" using cstr_append0[of arr 0] by simp
  define a b :: u8 where "a = of_nat (len div 10 + 48)" and "b = of_nat (len mod 10 + 48)"
  have da: "a = 48 + of_nat (len div 10)" "b = 48 + of_nat (len mod 10)" by (simp_all add: a_def b_def add.commute)
  have dig: "len div 10 < 10" "len mod 10 < 10" "0 < len div 10" using assms(2,3) by auto
  have ua: "unat a = 48 + len div 10" "unat b = 48 + len mod 10" using digit_char dig by (simp_all add: da)
  have na: "a \<noteq> 48" "a \<noteq> 0" "b \<noteq> 0" using ua dig(3) by (auto simp: word_unat_eq_iff)
  have d: "dec len = [a, b]"
    using assms(2) dig by (simp add: dec.simps[of len] dec.simps[of "len div 10"] da)
  let ?p = "cs ''AT+NMGS='' @ [a, b, 44, 48, 48]"
  have lp: "length ?p = 13" by (simp add: cs_def)
  have sc: "send_command arr len = (case send_loop arr 13 (?p @ replicate 87 0) of None \<Rightarrow> None
      | Some c \<Rightarrow> if 0 \<in> set c then Some (cstr c) else None)"
  proof -
    have c: "cs ''AT+NMGS='' @ (if a = 48 then [b, 44, 48, 48] else [a, b, 44, 48, 48]) = ?p" using na(1) by simp
    show ?thesis unfolding send_command_def Let_def a_def[symmetric] b_def[symmetric] ca c lp by simp
  qed
  show ?thesis
  proof (cases "length arr \<le> 43")
    case True
    have codes: "length (concat (map Char2ASCII arr)) = 2 * length arr" for arr
      by (induction arr) (simp_all add: Char2ASCII_two)
    have "send_loop arr 13 (?p @ replicate 87 0)
        = Some (take 13 (?p @ replicate 87 0) @ concat (map Char2ASCII arr) @ drop (13 + 2 * length arr) (?p @ replicate 87 0))"
      using assms(1) True lp by (intro send_loop_codes) auto
    also have "take 13 (?p @ replicate 87 0) = ?p" using lp by simp
    also have "drop (13 + 2 * length arr) (?p @ replicate 87 0) = replicate (87 - 2 * length arr) 0"
    proof -
      have "drop (13 + 2 * length arr) ?p = []" by (rule drop_all) (unfold lp, simp)
      then show ?thesis unfolding drop_append lp drop_replicate by simp
    qed
    finally have sl: "send_loop arr 13 (?p @ replicate 87 0)
        = Some ((?p @ concat (map Char2ASCII arr)) @ replicate (87 - 2 * length arr) 0)" by simp
    have "0 \<notin> set (Char2ASCII c)" if "c \<in> set arr" for c using that z by (auto simp: Char2ASCII_def cs_def)
    then have nz: "0 \<notin> set (?p @ concat (map Char2ASCII arr))" using na by (auto simp: cs_def)
    have "0 \<in> set (replicate (87 - 2 * length arr) (0 :: u8))" using True by simp
    then show ?thesis
      unfolding sc sl using cstr_append0[OF nz] True d by (simp add: cs_def)
  next
    case False
    then have "send_loop arr 13 (?p @ replicate 87 0) = None"
      using assms(1) by (intro send_loop_overflow) auto
    with False show ?thesis unfolding sc by simp
  qed
qed

end
