(* ===== verification/Enviroment.thy ===== *)
theory Enviroment
  imports Semaphore Mailbox Byhm Led NbIot
begin

text \<open>
  The application \<^verbatim>\<open>applications/enviroment.c\<close>: the sensor thread measures and mails five readings to the
  modem thread and to the display thread, the modem thread posts them over HTTP, the display thread
  formats and draws them. The kernel calls are those of the kernel model; \<open>iot\<close>, \<open>led\<close> are the two
  mailboxes and \<open>one\<close>, \<open>two\<close> the two semaphores.
\<close>

section \<open>The sensor thread\<close>

text \<open>The three queries of a round; their results are not used.\<close>

definition byh_measure :: "u8 list \<Rightarrow> u8 list \<Rightarrow> u8 list \<Rightarrow> u8 list \<Rightarrow> BYH_M_t \<Rightarrow> BYH_M_t" where
  "byh_measure junk g1 g2 g3 b =
     (let b1 = snd (snd (BYH_M_get_humiture junk g1 b));
          b2 = snd (snd (BYH_M_get_noise junk g2 b1))
      in snd (snd (BYH_M_get_PM_Data junk g3 b2)))"

definition BYH_DATA0 :: BYH_M_t where
  "BYH_DATA0 = \<lparr>BYH_M_CMD = [0x0b, 0x03, 0x01, 0xf4, 0x00, 0x00], Temperature_x10 = 0, Humidity_x10 = 0,
     Noise_x10 = 0, PM2_5 = 0, PM10 = 0\<rparr>"

definition readings :: "BYH_M_t \<Rightarrow> u16 list" where
  "readings b = [Temperature_x10 b, Humidity_x10 b, Noise_x10 b, PM2_5 b, PM10 b]"

text \<open>\<^verbatim>\<open>(rt_uint32_t)\<close> of a signed 16-bit field.\<close>

definition mail :: "u16 \<Rightarrow> u32" where "mail w = scast w"

fun send_all :: "nat \<Rightarrow> u32 list \<Rightarrow> kernel \<Rightarrow> kernel" where
  "send_all n [] s = s"
| "send_all n (v # vs) s = send_all n vs (snd (rt_mb_send n v s))"

definition byh_publish :: "nat \<Rightarrow> nat \<Rightarrow> nat \<Rightarrow> nat \<Rightarrow> BYH_M_t \<Rightarrow> kernel \<Rightarrow> kernel" where
  "byh_publish iot led one two b s =
     (let s1 = send_all iot (map mail (readings b)) s;
          s2 = send_all led (map mail (readings b)) s1;
          s3 = snd (rt_sem_release one s2)
      in snd (rt_sem_release two s3))"

text \<open>The minute counter: \<open>True\<close> when a measurement is due.\<close>

definition byh_minute :: "nat \<Rightarrow> nat \<times> bool" where
  "byh_minute n = (if n + 1 = 60 then (0, True) else (n + 1, False))"

section \<open>The modem thread\<close>

text \<open>Receives in a row; the values that were there at once.\<close>

fun recv_all :: "nat \<Rightarrow> nat \<Rightarrow> u32 \<Rightarrow> kernel \<Rightarrow> u32 list \<times> kernel" where
  "recv_all n 0 timeout s = ([], s)"
| "recv_all n (Suc k) timeout s =
     (case rt_mb_recv n timeout s of
        (r, None, s1) \<Rightarrow> ([], s1)
      | (r, Some v, s1) \<Rightarrow> (case recv_all n k timeout s1 of (vs, s2) \<Rightarrow> (v # vs, s2)))"

definition iot_collect :: "nat \<Rightarrow> kernel \<Rightarrow> u32 list \<times> kernel" where
  "iot_collect iot s = recv_all iot 5 (-1) s"

definition post_format :: string where
  "post_format = ''user=xiaochunming&pawd=qwertyuiop&t=%d&h=%d&n=%d&p2=%d&p10=%d''"

definition iot_data0 :: IOT_DATA_t where
  "iot_data0 = \<lparr>NB_IMSI = replicate 16 0, NB_CGSN = replicate 16 0, NB_SIGNAL = [0, 0], net_sta = 0, HTTP_EXAMPLE = 0,
     HTTP_URL = cs ''www.ycdemo.cn'',
     HTTP_HEADER = cs ''Content-Type: application/x-www-form-urlencoded; charset=UTF-8'' @ [92, 114, 92, 110],
     HTTP_CONTENT = [],
     HTTP_SEND_URL = cs ''www.ycdemo.cn/api/postdata''\<rparr>"

text \<open>One post: each of the four commands with the address of its response object and its answer.\<close>

definition iot_post :: "at_handler \<Rightarrow> (nat option \<times> u8 list) \<times> (nat option \<times> u8 list) \<times> (nat option \<times> u8 list) \<times>
    (nat option \<times> u8 list) \<Rightarrow> u32 list \<Rightarrow> IOT_DATA_t \<Rightarrow> at_parser \<Rightarrow> (IOT_DATA_t \<times> at_parser) option" where
  "iot_post h io vals d q =
     (case io of ((a1, i1), (a2, i2), (a3, i3), (a4, i4)) \<Rightarrow>
      case local_sprintf 100 post_format (map PInt vals) of
        None \<Rightarrow> None
      | Some tmp \<Rightarrow>
          (case NB_IOT_HTTPCREATE h a1 i1 (d\<lparr>HTTP_CONTENT := tmp\<rparr>) q of
             None \<Rightarrow> None
           | Some (_, d1, q1) \<Rightarrow>
               (case NB_IOT_HTTPCONTENT h a2 i2 d1 q1 of
                  None \<Rightarrow> None
                | Some (_, q2) \<Rightarrow>
                    (case NB_IOT_HTTPHEADER h a3 i3 d1 q2 of
                       None \<Rightarrow> None
                     | Some (_, q3) \<Rightarrow>
                         (case NB_IOT_HTTPSEND h a4 i4 1 d1 q3 of
                            None \<Rightarrow> None
                          | Some (_, q4) \<Rightarrow> Some (d1, q4))))))"

section \<open>The display thread\<close>

text \<open>\<^verbatim>\<open>%0.1f\<close> of a number of tenths, as the C library prints it.\<close>

definition tenths :: "int \<Rightarrow> u8 list" where
  "tenths i = (if i < 0 then [45] else []) @ dec (nat (\<bar>i\<bar> div 10)) @ [46] @ dec (nat (\<bar>i\<bar> mod 10))"

text \<open>The arrays have 12 characters; a longer string overruns its array.\<close>

definition into12 :: "u8 list \<Rightarrow> u8 list option" where
  "into12 x = (if length x < 12 then Some x else None)"

record led_strings =
  s_t1 :: "u8 list"
  s_h1 :: "u8 list"
  s_z1 :: "u8 list"
  s_pm2_5 :: "u8 list"
  s_pm10 :: "u8 list"

definition led_strings0 :: led_strings where
  "led_strings0 = \<lparr>s_t1 = cs '':--.- C'', s_h1 = cs '':--.-'', s_z1 = cs '':--.-db'',
     s_pm2_5 = cs '' 2.5:--ug/m3'', s_pm10 = cs ''  10:--ug/m3''\<rparr>"

definition led_t1 :: "u32 \<Rightarrow> u8 list" where "led_t1 v = cs '':'' @ tenths (sint v) @ cs '' C''"
definition led_h1 :: "u32 \<Rightarrow> u8 list" where "led_h1 v = cs '':'' @ tenths (sint v)"
definition led_z1 :: "u32 \<Rightarrow> u8 list" where "led_z1 v = cs '':'' @ tenths (sint v) @ cs ''db''"
definition led_pm2_5 :: "u32 \<Rightarrow> u8 list" where "led_pm2_5 v = cs '' 2.5:'' @ dec_int (sint v) @ cs ''ug/m3''"
definition led_pm10 :: "u32 \<Rightarrow> u8 list" where "led_pm10 v = cs ''  10:'' @ dec_int (sint v) @ cs ''ug/m3''"

text \<open>A string is only rewritten when its mail arrived in time (\<open>Some\<close>).\<close>

definition redo :: "(u32 \<Rightarrow> u8 list) \<Rightarrow> u32 option \<Rightarrow> u8 list \<Rightarrow> u8 list option" where
  "redo f m old = (case m of None \<Rightarrow> Some old | Some v \<Rightarrow> into12 (f v))"

definition led_refresh :: "u32 option \<Rightarrow> u32 option \<Rightarrow> u32 option \<Rightarrow> u32 option \<Rightarrow> u32 option \<Rightarrow> led_strings \<Rightarrow> led_strings option" where
  "led_refresh t h n p2 p10 st =
     (case redo led_t1 t (s_t1 st) of None \<Rightarrow> None | Some a \<Rightarrow>
      case redo led_h1 h (s_h1 st) of None \<Rightarrow> None | Some b \<Rightarrow>
      case redo led_z1 n (s_z1 st) of None \<Rightarrow> None | Some c \<Rightarrow>
      case redo led_pm2_5 p2 (s_pm2_5 st) of None \<Rightarrow> None | Some d \<Rightarrow>
      case redo led_pm10 p10 (s_pm10 st) of None \<Rightarrow> None | Some e \<Rightarrow>
        Some \<lparr>s_t1 = a, s_h1 = b, s_z1 = c, s_pm2_5 = d, s_pm10 = e\<rparr>)"

text \<open>The texts of the program in GBK: the title, temperature, humidity, noise, and the single character.\<close>

definition gbk_title :: "u8 list" where "gbk_title = [0xd1, 0xef, 0xb3, 0xbe, 0xbc, 0xe0, 0xb2, 0xe2]"
definition gbk_temperature :: "u8 list" where "gbk_temperature = [0xce, 0xc2, 0xb6, 0xc8]"
definition gbk_humidity :: "u8 list" where "gbk_humidity = [0xca, 0xaa, 0xb6, 0xc8]"
definition gbk_noise :: "u8 list" where "gbk_noise = [0xd4, 0xeb, 0xd2, 0xf4]"
definition gbk_value :: "u8 list" where "gbk_value = [0xd6, 0xb5]"

definition and_then :: "led option \<Rightarrow> (led \<Rightarrow> led option) \<Rightarrow> led option" where
  "and_then m f = (case m of None \<Rightarrow> None | Some d \<Rightarrow> f d)"

definition led_screen1 :: "led_strings \<Rightarrow> led \<Rightarrow> led option" where
  "led_screen1 st d =
     and_then (and_then (and_then (and_then (and_then (and_then (and_then (LED_ShowNChese 3 0 12 4 gbk_title (LED_Clear d))
       (LED_ShowNChese 0 3 12 2 gbk_temperature)) (LED_ShowString 4 3 12 (s_t1 st)))
       (LED_ShowNChese 0 6 12 2 gbk_humidity)) (LED_ShowString 4 6 12 (s_h1 st)))
       (LED_ShowString 9 6 12 (cs ''%RH''))) (LED_ShowNChese 0 9 12 2 gbk_noise))
       (LED_ShowString 4 9 12 (s_z1 st))"

definition led_screen2 :: "led_strings \<Rightarrow> led \<Rightarrow> led option" where
  "led_screen2 st d =
     and_then (and_then (and_then (and_then (LED_ShowNChese 3 0 12 4 gbk_title (LED_Clear d))
       (LED_ShowString 0 3 12 (cs ''PM''))) (LED_ShowChese 2 3 12 gbk_value))
       (LED_ShowString 0 6 12 (s_pm2_5 st))) (LED_ShowString 0 9 12 (s_pm10 st))"

definition led_splash :: "led \<Rightarrow> led option" where
  "led_splash d =
     and_then (and_then (and_then (and_then (and_then (and_then (LED_ShowNChese 3 0 12 4 gbk_title d)
       (LED_ShowNChese 0 3 12 2 gbk_temperature)) (LED_ShowString 4 3 12 (cs '': --.- C'')))
       (LED_ShowNChese 0 6 12 2 gbk_humidity)) (LED_ShowString 4 6 12 (cs '':--.-%RH'')))
       (LED_ShowNChese 0 9 12 2 gbk_noise)) (LED_ShowString 4 9 12 (cs '':--.-db''))"

text \<open>
  The display thread gives way in two ways: it is preempted between its calls, and it is parked in
  \<^verbatim>\<open>rt_mb_recv\<close> (up to 500 ticks for each reading) and in \<^verbatim>\<open>rt_thread_mdelay\<close>. What everybody else does to the
  kernel at these points is a list of functions, one for each point in turn (the identity where nothing
  happens). The run of the loop ends there when the list does (\<open>Waiting\<close>), at a text that overruns its
  array (\<open>Overrun\<close>, with the value), or at a write outside the display's memory (\<open>Outside\<close>).
\<close>

type_synonym others = "(kernel \<Rightarrow> kernel) list"

datatype 'a turn = Waiting | Overrun u32 | Outside | Turn 'a

definition and_turn :: "'a turn \<Rightarrow> ('a \<Rightarrow> 'b turn) \<Rightarrow> 'b turn" where
  "and_turn m f = (case m of Waiting \<Rightarrow> Waiting | Overrun v \<Rightarrow> Overrun v | Outside \<Rightarrow> Outside | Turn x \<Rightarrow> f x)"

fun give_way :: "others \<Rightarrow> kernel \<Rightarrow> (others \<times> kernel) turn" where
  "give_way [] s = Waiting"
| "give_way (e # away) s = Turn (away, e s)"

text \<open>A receive that may be parked several times, to its return: the mail when the result is \<open>RT_EOK\<close>.\<close>

fun recv_wait :: "nat \<Rightarrow> u32 \<Rightarrow> u32 \<Rightarrow> tid \<Rightarrow> others \<Rightarrow> outcome \<times> u32 option \<times> kernel \<Rightarrow> (u32 option \<times> others \<times> kernel) turn" where
  "recv_wait n start timeout c away (Ret r, m, s) = Turn (if r = RT_EOK then m else None, away, s)"
| "recv_wait n start timeout c [] (Blocked, m, s) = Waiting"
| "recv_wait n start timeout c (e # away) (Blocked, m, s) =
     recv_wait n (rt_tick_get (e s)) (time_left start (rt_tick_get (e s)) timeout) c away
       (mb_recv_return n start timeout c (e s))"

text \<open>One reading: the text is rewritten when its mail arrived in time.\<close>

definition led_field :: "tid \<Rightarrow> nat \<Rightarrow> (u32 \<Rightarrow> u8 list) \<Rightarrow> u8 list \<Rightarrow> others \<Rightarrow> kernel \<Rightarrow> (u8 list \<times> others \<times> kernel) turn" where
  "led_field c box f old away s =
     and_turn (give_way away s) (\<lambda>(away1, s1).
     and_turn (recv_wait box (rt_tick_get s1) 500 c away1 (rt_mb_recv box 500 s1)) (\<lambda>(m, away2, s2).
       case m of None \<Rightarrow> Turn (old, away2, s2)
       | Some v \<Rightarrow> (case into12 (f v) of None \<Rightarrow> Overrun v | Some x \<Rightarrow> Turn (x, away2, s2))))"

text \<open>The news of a turn: five readings when the semaphore \<open>two\<close> has a unit, else none.\<close>

definition led_news :: "tid \<Rightarrow> nat \<Rightarrow> nat \<Rightarrow> led_strings \<Rightarrow> others \<Rightarrow> kernel \<Rightarrow> (led_strings \<times> others \<times> kernel) turn" where
  "led_news c two box st away s =
     and_turn (give_way away s) (\<lambda>(away0, s0).
     case rt_sem_trytake two s0 of (r, s1) \<Rightarrow>
       if r \<noteq> Ret RT_EOK then Turn (st, away0, s1)
       else
         and_turn (led_field c box led_t1 (s_t1 st) away0 s1) (\<lambda>(t1, away1, s2).
         and_turn (led_field c box led_h1 (s_h1 st) away1 s2) (\<lambda>(h1, away2, s3).
         and_turn (led_field c box led_z1 (s_z1 st) away2 s3) (\<lambda>(z1, away3, s4).
         and_turn (led_field c box led_pm2_5 (s_pm2_5 st) away3 s4) (\<lambda>(p2, away4, s5).
         and_turn (led_field c box led_pm10 (s_pm10 st) away4 s5) (\<lambda>(p10, away5, s6).
           Turn (\<lparr>s_t1 = t1, s_h1 = h1, s_z1 = z1, s_pm2_5 = p2, s_pm10 = p10\<rparr>, away5, s6)))))))"

text \<open>The drawing of a turn: the counter, which may start over, and the wall.\<close>

definition led_draw :: "led_strings \<Rightarrow> nat \<Rightarrow> led \<Rightarrow> (nat \<times> led) option" where
  "led_draw st i d =
     (case (if i mod 500 = 0 then led_screen1 st d else Some d) of None \<Rightarrow> None | Some d1 \<Rightarrow>
      case (if i mod 1000 = 0 then led_screen2 st d1 else Some d1) of None \<Rightarrow> None | Some d2 \<Rightarrow>
        Some (if i mod 1000 = 0 then 0 else i, d2))"

text \<open>The locals of the loop, the wall, and what the last turn transferred to it.\<close>

record display =
  dp_st :: led_strings
  dp_i :: nat
  dp_wall :: led
  dp_sent :: "led_op list"

definition led_turn :: "tid \<Rightarrow> nat \<Rightarrow> nat \<Rightarrow> display \<Rightarrow> others \<Rightarrow> kernel \<Rightarrow> (display \<times> others \<times> kernel) turn" where
  "led_turn c two box x away s =
     and_turn (led_news c two box (dp_st x) away s) (\<lambda>(st, away1, s1).
       case led_draw st (dp_i x) (dp_wall x) of None \<Rightarrow> Outside
       | Some (i, d) \<Rightarrow>
           and_turn (give_way away1 (rt_thread_mdelay 10 s1)) (\<lambda>(away2, s2).
             Turn (\<lparr>dp_st = st, dp_i = i + 1, dp_wall = d, dp_sent = LED_SendData d\<rparr>, away2,
               snd (rt_thread_sleep_return c s2))))"

fun led_turns :: "tid \<Rightarrow> nat \<Rightarrow> nat \<Rightarrow> nat \<Rightarrow> display \<Rightarrow> others \<Rightarrow> kernel \<Rightarrow> (display \<times> others \<times> kernel) turn" where
  "led_turns c two box 0 x away s = Turn (x, away, s)"
| "led_turns c two box (Suc k) x away s =
     and_turn (led_turns c two box k x away s) (\<lambda>(y, away1, s1). led_turn c two box y away1 s1)"

section \<open>Start\<close>

text \<open>A thread object with its stack from the heap; the result is the return value so far.\<close>

definition start_thread :: "tid option \<Rightarrow> u32 option \<Rightarrow> u8 \<Rightarrow> int \<times> kernel \<Rightarrow> int \<times> kernel" where
  "start_thread obj stack priority rs =
     (case rs of (ret, s) \<Rightarrow>
      case rt_thread_create obj stack 1024 priority 10 s of
        (None, s1) \<Rightarrow> (RT_ERROR, s1)
      | (Some t, s1) \<Rightarrow> (ret, snd (rt_thread_startup t s1)))"

text \<open>
  \<open>o1\<close>, \<open>o2\<close>: the semaphore objects of the heap. The check after the second creation looks at the first
  semaphore again. The handles are the first two components.
\<close>

definition Enviroment :: "nat option \<Rightarrow> nat option \<Rightarrow> nat \<Rightarrow> nat \<Rightarrow> (tid option \<times> u32 option) \<Rightarrow> (tid option \<times> u32 option)
    \<Rightarrow> (tid option \<times> u32 option) \<Rightarrow> kernel \<Rightarrow> nat option \<times> nat option \<times> int \<times> kernel" where
  "Enviroment o1 o2 iot led nb byh disp s =
     (case rt_sem_create o1 0 0 s of (sem_one, s1) \<Rightarrow>
      if sem_one = None then (None, None, -1, s1)
      else
      case rt_sem_create o2 0 0 s1 of (sem_two, s2) \<Rightarrow>
      if sem_one = None then (sem_one, sem_two, -1, s2)
      else
        let (r1, s3) = rt_mb_init iot (replicate 5 0) 5 0 s2
        in if r1 \<noteq> RT_EOK then (sem_one, sem_two, -1, s3)
           else
             let (r2, s4) = rt_mb_init led (replicate 5 0) 5 0 s3
             in if r2 \<noteq> RT_EOK then (sem_one, sem_two, -1, s4)
                else (sem_one, sem_two,
                      start_thread (fst disp) (snd disp) 25
                        (start_thread (fst byh) (snd byh) 24 (start_thread (fst nb) (snd nb) 24 (r2, s4)))))"

section \<open>The readings travel through the mailboxes\<close>

lemma sint_mail: "sint (mail w) = sint w"
proof -
  have "- (2 ^ 31) \<le> sint w" "sint w < 2 ^ 31" using sint_ge[of w] sint_lt[of w] by simp_all
  then show ?thesis by (simp add: mail_def signed_scast_eq signed_take_bit_int_eq_self)
qed

lemma mb_keep: "mb_inv mb \<Longrightarrow> mb_size (mb_put v mb) = mb_size mb \<and> mb_type (mb_put v mb) = mb_type mb"
  using mb_put_sel(2,6)[of mb v] by (simp add: mb_inv_def)

lemma send_all_stores:
  assumes "kinv s" "is_mb n s" "mb_inv (mboxes s n)" "lists s (MbRecvL n) = []"
    "length (mb_list (mboxes s n)) + length vs \<le> unat (mb_size (mboxes s n))"
  shows "\<exists>f. send_all n vs s = upd_mb n f s \<and> kinv (upd_mb n f s) \<and> mb_inv (f (mboxes s n)) \<and>
    mb_list (f (mboxes s n)) = mb_list (mboxes s n) @ vs \<and> mb_type (f (mboxes s n)) = mb_type (mboxes s n) \<and>
    mb_size (f (mboxes s n)) = mb_size (mboxes s n)"
  using assms
proof (induction vs arbitrary: s)
  case Nil
  have "upd_mb n (\<lambda>x. x) s = s" by (simp add: upd_mb_def)
  with Nil show ?case by (intro exI[of _ "\<lambda>x. x"]) simp
next
  case (Cons v vs)
  let ?s1 = "upd_mb n (mb_put v) s"
  have room: "unat (mb_entry (mboxes s n)) < unat (mb_size (mboxes s n))" using Cons.prems(5) by simp
  then have ne: "mb_entry (mboxes s n) \<noteq> mb_size (mboxes s n)" by auto
  have st: "snd (rt_mb_send n v s) = ?s1"
    using Cons.prems(2,4) ne by (simp add: rt_mb_send_def rt_mb_send_wait_def mb_send_again_def mb_deposit_def Let_def kframe)
  note p = mb_put_fifo[OF Cons.prems(3) room, of v] and q = mb_keep[OF Cons.prems(3), of v]
  have "\<exists>f. send_all n vs ?s1 = upd_mb n f ?s1 \<and> kinv (upd_mb n f ?s1) \<and> mb_inv (f (mboxes ?s1 n)) \<and>
    mb_list (f (mboxes ?s1 n)) = mb_list (mboxes ?s1 n) @ vs \<and> mb_type (f (mboxes ?s1 n)) = mb_type (mboxes ?s1 n) \<and>
    mb_size (f (mboxes ?s1 n)) = mb_size (mboxes ?s1 n)"
    using Cons.prems p q by (intro Cons.IH) (auto simp: kframe is_mb_def)
  then obtain f where f: "send_all n vs ?s1 = upd_mb n f ?s1" "mb_inv (f (mb_put v (mboxes s n)))"
    "mb_list (f (mb_put v (mboxes s n))) = mb_list (mboxes s n) @ v # vs"
    "mb_type (f (mb_put v (mboxes s n))) = mb_type (mboxes s n)"
    "mb_size (f (mb_put v (mboxes s n))) = mb_size (mboxes s n)"
    using p q by (auto simp: kframe)
  have "upd_mb n f ?s1 = upd_mb n (f \<circ> mb_put v) s" by (simp add: upd_mb_def)
  with f st Cons.prems(1) show ?case by (intro exI[of _ "f \<circ> mb_put v"]) (simp add: comp_def)
qed

lemma recv_all_delivers:
  assumes "kinv s" "is_mb n s" "mb_inv (mboxes s n)" "lists s (MbSendL n) = []"
    "mb_list (mboxes s n) = vs @ rest"
  shows "\<exists>f. recv_all n (length vs) timeout s = (vs, upd_mb n f s) \<and> mb_inv (f (mboxes s n)) \<and>
    mb_list (f (mboxes s n)) = rest"
  using assms
proof (induction vs arbitrary: s)
  case Nil
  have "upd_mb n (\<lambda>x. x) s = s" by (simp add: upd_mb_def)
  with Nil show ?case by (intro exI[of _ "\<lambda>x. x"]) simp
next
  case (Cons v vs)
  let ?g = "\<lambda>x. snd (mb_get x)"
  let ?s1 = "upd_mb n ?g s"
  have ne: "mb_entry (mboxes s n) \<noteq> 0" using Cons.prems(5) length_mb_list[of "mboxes s n"] by auto
  note g = mb_get_fifo[OF Cons.prems(3) ne]
  have gv: "fst (mb_get (mboxes s n)) = v" "mb_list (?g (mboxes s n)) = vs @ rest" using g(2) Cons.prems(5) by simp_all
  have ty: "mb_type (?g (mboxes s n)) = mb_type (mboxes s n)"
    using mb_get_sel(7)[of "mboxes s n"] Cons.prems(3) by (simp add: mb_inv_def)
  have r: "rt_mb_recv n timeout s = (Ret RT_EOK, Some v, ?s1)"
    using Cons.prems(2,4) ne gv(1) by (simp add: rt_mb_recv_def mb_recv_again_def mb_fetch_def Let_def kframe)
  have "\<exists>f. recv_all n (length vs) timeout ?s1 = (vs, upd_mb n f ?s1) \<and> mb_inv (f (mboxes ?s1 n)) \<and>
    mb_list (f (mboxes ?s1 n)) = rest"
    using Cons.prems g(1) gv ty by (intro Cons.IH) (auto simp: kframe is_mb_def)
  then obtain f where f: "recv_all n (length vs) timeout ?s1 = (vs, upd_mb n f ?s1)"
    "mb_inv (f (?g (mboxes s n)))" "mb_list (f (?g (mboxes s n))) = rest" by (auto simp: kframe)
  have "upd_mb n f ?s1 = upd_mb n (f \<circ> ?g) s" by (simp add: upd_mb_def comp_def)
  with f r show ?case by (intro exI[of _ "f \<circ> ?g"]) (simp add: comp_def)
qed

text \<open>What a release of a semaphore leaves alone.\<close>

lemma release_frame:
  assumes "kinv s" "cur s = Some c" "sem_inv n s"
  defines "s' \<equiv> snd (rt_sem_release n s)"
  shows "kinv s'" "cur s' \<noteq> None" "sem_inv n s'" "mboxes s' = mboxes s" "stuck s' = stuck s"
    "wait_list l \<Longrightarrow> l \<noteq> SemL n \<Longrightarrow> lists s' l = lists s l" "m \<noteq> n \<Longrightarrow> sems s' m = sems s m"
proof -
  have "kinv s' \<and> cur s' \<noteq> None \<and> sem_inv n s' \<and> mboxes s' = mboxes s \<and> stuck s' = stuck s \<and>
    (wait_list l \<longrightarrow> l \<noteq> SemL n \<longrightarrow> lists s' l = lists s l) \<and> (m \<noteq> n \<longrightarrow> sems s' m = sems s m)"
  proof (cases "lists s (SemL n)")
    case Nil
    have "mboxes (upd_sem n f s) = mboxes s" for f by (simp add: upd_sem_def)
    with sem_release_counts[OF assms(3) Nil] assms(2) sem_release_inv[OF assms(1-3)] show ?thesis
      by (simp add: s'_def kframe)
  next
    case (Cons t q)
    have "is_sem n s" using assms(3) by (simp add: sem_inv_def)
    with Cons have s': "s' = wake_first (SemL n) s" by (simp add: s'_def rt_sem_release_def wake_first_def)
    note w = wake_first_effect[OF assms(1,2), of "SemL n"]
    show ?thesis
      using sem_release_wakes(2,3,6,9,10)[OF assms(1-3) Cons] sem_release_inv[OF assms(1-3)] w(7)
      unfolding s'_def[symmetric] by (simp add: s')
  qed
  then show "kinv s'" "cur s' \<noteq> None" "sem_inv n s'" "mboxes s' = mboxes s" "stuck s' = stuck s"
    "wait_list l \<Longrightarrow> l \<noteq> SemL n \<Longrightarrow> lists s' l = lists s l" "m \<noteq> n \<Longrightarrow> sems s' m = sems s m" by auto
qed

text \<open>The mailboxes of the program: five places, nobody waiting.\<close>

definition box_ready :: "nat \<Rightarrow> kernel \<Rightarrow> bool" where
  "box_ready n s = (is_mb n s \<and> mb_inv (mboxes s n) \<and> mb_list (mboxes s n) = [] \<and> 5 \<le> unat (mb_size (mboxes s n)) \<and>
     lists s (MbRecvL n) = [] \<and> lists s (MbSendL n) = [])"

text \<open>A box that holds the readings, with no sender waiting.\<close>

definition box_holds :: "nat \<Rightarrow> u32 list \<Rightarrow> kernel \<Rightarrow> bool" where
  "box_holds n vs s = (is_mb n s \<and> mb_inv (mboxes s n) \<and> mb_list (mboxes s n) = vs \<and> lists s (MbSendL n) = [])"

lemma byh_publish_effect:
  fixes b :: BYH_M_t
  assumes k: "kinv s" "cur s = Some c" and b: "box_ready iot s" "box_ready led s" "iot \<noteq> led"
    and sm: "sem_inv one s" "sem_inv two s" "one \<noteq> two"
  defines "s' \<equiv> byh_publish iot led one two b s"
  shows "kinv s' \<and> stuck s' = stuck s \<and> box_holds iot (map mail (readings b)) s' \<and>
    box_holds led (map mail (readings b)) s' \<and> sem_inv one s' \<and> sem_inv two s'"
proof -
  let ?v = "map mail (readings b)"
  have l5: "length ?v = 5" by (simp add: readings_def)
  have i: "is_mb iot s" "mb_inv (mboxes s iot)" "mb_list (mboxes s iot) = []" "lists s (MbRecvL iot) = []"
    "5 \<le> unat (mb_size (mboxes s iot))" "lists s (MbSendL iot) = []" using b(1) by (simp_all add: box_ready_def)
  have l: "is_mb led s" "mb_inv (mboxes s led)" "mb_list (mboxes s led) = []" "lists s (MbRecvL led) = []"
    "5 \<le> unat (mb_size (mboxes s led))" "lists s (MbSendL led) = []" using b(2) by (simp_all add: box_ready_def)
  obtain f where f: "send_all iot ?v s = upd_mb iot f s" "mb_inv (f (mboxes s iot))" "mb_list (f (mboxes s iot)) = ?v"
    "mb_type (f (mboxes s iot)) = mb_type (mboxes s iot)"
    using send_all_stores[OF k(1) i(1,2,4), of ?v] i(3,5) l5 by auto
  define s1 where "s1 = upd_mb iot f s"
  have k1: "kinv s1" "cur s1 = Some c" using k by (simp_all add: s1_def kframe)
  have l1: "is_mb led s1" "mboxes s1 led = mboxes s led" "lists s1 = lists s"
    using l(1) b(3) by (simp_all add: s1_def is_mb_def kframe)
  obtain g where g: "send_all led ?v s1 = upd_mb led g s1" "mb_inv (g (mboxes s led))" "mb_list (g (mboxes s led)) = ?v"
    "mb_type (g (mboxes s led)) = mb_type (mboxes s led)"
    using send_all_stores[OF k1(1) l1(1), of ?v] l l1 l5 by auto
  define s2 where "s2 = upd_mb led g s1"
  have k2: "kinv s2" "cur s2 = Some c" "lists s2 = lists s" "sems s2 = sems s" "stuck s2 = stuck s"
    using k1 l1(3) by (simp_all add: s2_def kframe) (simp_all add: s1_def kframe upd_mb_def)
  have sem2: "sem_inv one s2" "sem_inv two s2" using sm k2 by (simp_all add: sem_inv_def is_sem_def)
  have m2: "mboxes s2 iot = f (mboxes s iot)" "mboxes s2 led = g (mboxes s led)"
    using b(3) by (simp_all add: s2_def s1_def kframe)
  define s3 where "s3 = snd (rt_sem_release one s2)"
  note r1 = release_frame[OF k2(1,2) sem2(1), folded s3_def]
  obtain c3 where c3: "cur s3 = Some c3" using r1(2) by auto
  have two3: "sem_inv two s3"
    using sem2(2) r1(6)[of "SemL two"] r1(7)[of two] sm(3) by (simp add: sem_inv_def is_sem_def)
  have s': "s' = snd (rt_sem_release two s3)"
    by (simp add: s'_def byh_publish_def Let_def f(1) g(1) s1_def[symmetric] s2_def[symmetric] s3_def)
  note r2 = release_frame[OF r1(1) c3 two3, folded s']
  have "sem_inv one s'"
    using r1(3) r2(6)[of "SemL one"] r2(7)[of one] sm(3) by (simp add: sem_inv_def is_sem_def)
  moreover have "box_holds iot ?v s'" "box_holds led ?v s'"
    using r1(4) r2(4) m2 f g i l r1(6)[of "MbSendL iot"] r2(6)[of "MbSendL iot"] r1(6)[of "MbSendL led"]
      r2(6)[of "MbSendL led"] k2(3) by (simp_all add: box_holds_def is_mb_def)
  ultimately show ?thesis using r1(5) r2(1,3,5) k2(5) by simp
qed

lemma collect_mail:
  assumes "kinv s" "box_holds n (map mail (readings b)) s"
  shows "fst (recv_all n 5 timeout s) = map mail (readings b)"
proof -
  have "length (map mail (readings b)) = 5" by (simp add: readings_def)
  with recv_all_delivers[OF assms(1), of n "map mail (readings b)" "[]" timeout] assms(2)
  show ?thesis by (auto simp: box_holds_def)
qed

lemma iot_collect_values:
  assumes "kinv s" "box_holds n (map mail (readings b)) s"
  shows "map sint (fst (iot_collect n s)) = map sint (readings b)"
  using collect_mail[OF assms] by (simp add: iot_collect_def sint_mail)

section \<open>The post\<close>

definition post_content :: "int list \<Rightarrow> u8 list" where
  "post_content is = cs ''user=xiaochunming&pawd=qwertyuiop&t='' @ dec_int (is ! 0) @ cs ''&h='' @ dec_int (is ! 1) @
     cs ''&n='' @ dec_int (is ! 2) @ cs ''&p2='' @ dec_int (is ! 3) @ cs ''&p10='' @ dec_int (is ! 4)"

lemma dec_int_short: "- 32768 \<le> i \<Longrightarrow> i < 32768 \<Longrightarrow> length (dec_int i) \<le> 6"
proof -
  assume "- 32768 \<le> i" "i < 32768"
  then have "nat (- i) < 10 ^ 5" "nat i < 10 ^ 5" by simp_all
  then show ?thesis using dec_length[of "nat (- i)" 5] dec_length[of "nat i" 5] by (simp add: dec_int_def)
qed

lemma dec_int_chars: "c \<in> set (dec_int i) \<Longrightarrow> is_digit c \<or> c = 45"
  using dec_digits by (auto simp: dec_int_def split: if_splits)

lemma dec_int_plain: "37 \<notin> set (dec_int i)" "0 \<notin> set (dec_int i)"
  using dec_int_chars[of 37 i] dec_int_chars[of 0 i] by (auto simp: is_digit_def)

lemma post_format_out:
  "length vs = 5 \<Longrightarrow> format_out (cs post_format) (map PInt vs) = Some (post_content (map sint vs))"
proof -
  assume "length vs = 5"
  then obtain a b c d e where "vs = [a, b, c, d, e]" by (auto simp: length_Suc_conv eval_nat_numeral)
  then show ?thesis by (simp add: cs_def post_format_def post_content_def directives)
qed

lemma post_content_plain: "37 \<notin> set (post_content is)" "cstring (post_content is)"
  using dec_int_plain by (simp_all add: post_content_def cs_def cstring_def)

lemma post_content_short:
  assumes "length is = 5" "\<forall>i \<in> set is. - 32768 \<le> i \<and> i < 32768"
  shows "length (post_content is) \<le> 81"
proof -
  have "length (dec_int (is ! k)) \<le> 6" if "k < 5" for k
    using assms that nth_mem[of k "is"] by (intro dec_int_short) auto
  from this[of 0] this[of 1] this[of 2] this[of 3] this[of 4] show ?thesis
    by (simp add: post_content_def cs_def)
qed

lemma readings_range: "\<forall>i \<in> set (map sint (readings b)). - 32768 \<le> i \<and> i < 32768"
proof -
  have "- 32768 \<le> sint (w :: u16) \<and> sint w < 32768" for w using sint_ge[of w] sint_lt[of w] by simp
  then show ?thesis by simp
qed

text \<open>The four commands of a post.\<close>

definition post_commands :: "u8 \<Rightarrow> int list \<Rightarrow> at_event list" where
  "post_commands conn is =
     sent (create_cmd (HTTP_URL iot_data0)) @ sent (setting_cmd ''HTTPCONTENT'' conn (post_content is)) @
     sent (setting_cmd ''HTTPHEADER'' conn (HTTP_HEADER iot_data0)) @ sent (send_cmd conn 1 (HTTP_SEND_URL iot_data0))"

text \<open>The record keeps the program's addresses and header.\<close>

definition iot_config :: "IOT_DATA_t \<Rightarrow> bool" where
  "iot_config d = (HTTP_URL d = HTTP_URL iot_data0 \<and> HTTP_HEADER d = HTTP_HEADER iot_data0 \<and>
     HTTP_SEND_URL d = HTTP_SEND_URL iot_data0)"

lemma iot_post_ok:
  assumes q: "at_idle q" and d: "iot_config d"
    and a: "good_answer (cl q) 64 0 ls1" "good_answer (cl q) 64 0 ls2" "good_answer (cl q) 64 0 ls3" "good_answer (cl q) 64 2 ls4"
    and l: "find (\<lambda>l. strstr (l @ [13]) (cs ''+HTTPCREATE:'')) ls1 = Some l" "12 < length l" "l ! 12 \<noteq> 0" "l ! 12 \<noteq> 37"
  shows "\<exists>d' q'. iot_post h ((Some x1, wire ls1), (Some x2, wire ls2), (Some x3, wire ls3), (Some x4, wire ls4))
      (map mail (readings b)) d q = Some (d', q') \<and> at_idle q' \<and> iot_config d' \<and>
      events q' = events q @ post_commands (l ! 12) (map sint (readings b))"
proof -
  let ?c = "post_content (map sint (readings b))"
  let ?d = "d\<lparr>HTTP_CONTENT := ?c\<rparr>" and ?d1 = "d\<lparr>HTTP_CONTENT := ?c, HTTP_EXAMPLE := l ! 12\<rparr>"
  have five: "length (readings b) = 5" by (simp add: readings_def)
  have sm: "map (sint \<circ> mail) (readings b) = map sint (readings b)" by (simp add: sint_mail)
  have len: "length ?c \<le> 81" using post_content_short[OF _ readings_range] five by simp
  have t: "local_sprintf 100 post_format (map PInt (map mail (readings b))) = Some ?c"
    using local_sprintf_out[OF post_format_out, of "map mail (readings b)" 100] five sm len
      post_content_plain(2)[of "map sint (readings b)"] by (simp add: cstring_def)
  have cfg: "HTTP_URL d = cs ''www.ycdemo.cn''"
    "HTTP_HEADER d = cs ''Content-Type: application/x-www-form-urlencoded; charset=UTF-8'' @ [92, 114, 92, 110]"
    "HTTP_SEND_URL d = cs ''www.ycdemo.cn/api/postdata''"
    using d by (simp_all add: iot_config_def iot_data0_def)
  have cst: "cstring (HTTP_URL d)" "cstring (HTTP_HEADER d)" "cstring (HTTP_SEND_URL d)"
    by (simp_all add: cfg cs_def)
  have s1: "sendable (create_cmd (HTTP_URL d))" "length (create_cmd (HTTP_URL d)) < 50"
    by (simp_all add: cfg create_cmd_def cs_def sendable_def)
  have s2: "sendable (setting_cmd ''HTTPCONTENT'' (l ! 12) ?c)"
    using len post_content_plain(1) l(4) by (simp add: setting_cmd_def cs_def sendable_def)
  have s3: "sendable (setting_cmd ''HTTPHEADER'' (l ! 12) (HTTP_HEADER d))"
    using l(4) by (simp add: cfg setting_cmd_def cs_def sendable_def)
  have s4: "sendable (send_cmd (l ! 12) 1 (HTTP_SEND_URL d))"
    using l(4) dec_int_plain(1)[of 1] dec_int_short[of 1] by (simp add: cfg send_cmd_def cs_def sendable_def)
  obtain q1 where q1: "NB_IOT_HTTPCREATE h (Some x1) (wire ls1) ?d q = Some (RT_EOK, ?d1, q1)" "at_idle q1"
      "events q1 = events q @ sent (create_cmd (HTTP_URL d))" "same_client q q1"
    using HTTPCREATE_ok[OF q, of ?d ls1 l h x1] cst(1) s1 a(1) l(1,2) by auto
  obtain q2 where q2: "NB_IOT_HTTPCONTENT h (Some x2) (wire ls2) ?d1 q1 = Some (RT_EOK, q2)" "at_idle q2"
      "events q2 = events q1 @ sent (setting_cmd ''HTTPCONTENT'' (l ! 12) ?c)" "same_client q1 q2"
    using HTTPCONTENT_ok[OF q1(2), of ?d1 ls2 h x2] post_content_plain(2) s2 a(2) good_answer_same[OF q1(4)] l(3) by auto
  obtain q3 where q3: "NB_IOT_HTTPHEADER h (Some x3) (wire ls3) ?d1 q2 = Some (RT_EOK, q3)" "at_idle q3"
      "events q3 = events q2 @ sent (setting_cmd ''HTTPHEADER'' (l ! 12) (HTTP_HEADER d))" "same_client q2 q3"
    using HTTPHEADER_ok[OF q2(2), of ?d1 ls3 h x3] cst(2) s3 a(3) good_answer_same[OF q1(4)] good_answer_same[OF q2(4)] l(3) by auto
  obtain q4 where q4: "NB_IOT_HTTPSEND h (Some x4) (wire ls4) 1 ?d1 q3 = Some (RT_EOK, q4)" "at_idle q4"
      "events q4 = events q3 @ sent (send_cmd (l ! 12) 1 (HTTP_SEND_URL d))" "same_client q3 q4"
    using HTTPSEND_ok[OF q3(2), of ?d1 ls4 1 h x4] cst(3) s4 a(4) good_answer_same[OF q1(4)] good_answer_same[OF q2(4)]
      good_answer_same[OF q3(4)] l(3) by auto
  have "iot_post h ((Some x1, wire ls1), (Some x2, wire ls2), (Some x3, wire ls3), (Some x4, wire ls4))
      (map mail (readings b)) d q = Some (?d1, q4)"
    by (simp only: iot_post_def case_prod_conv t q1(1) q2(1) q3(1) q4(1) option.case)
  moreover have "events q4 = events q @ post_commands (l ! 12) (map sint (readings b))"
    using q1(3) q2(3) q3(3) q4(3) d by (simp add: post_commands_def iot_config_def)
  moreover have "iot_config ?d1" using d by (simp add: iot_config_def)
  ultimately show ?thesis using q4(2) by blast
qed

section \<open>The display\<close>

text \<open>Sixteen-bit tenths fit their arrays; a particle count fits only as a single digit.\<close>

lemma tenths_short: "- 32768 \<le> i \<Longrightarrow> i < 32768 \<Longrightarrow> length (tenths i) \<le> 7"
proof -
  assume i: "- 32768 \<le> i" "i < 32768"
  have "length (dec (nat (\<bar>i\<bar> div 10))) \<le> 4" using i by (intro dec_length) auto
  moreover have "length (dec (nat (\<bar>i\<bar> mod 10))) \<le> 1" by (intro dec_length) auto
  ultimately show ?thesis by (auto simp: tenths_def abs_if split: if_splits)
qed

lemma led_tenths_fit:
  assumes "- 32768 \<le> sint v" "sint v < 32768"
  shows "into12 (led_t1 v) = Some (led_t1 v)" "into12 (led_h1 v) = Some (led_h1 v)" "into12 (led_z1 v) = Some (led_z1 v)"
  using tenths_short[OF assms] by (simp_all add: into12_def led_t1_def led_h1_def led_z1_def cs_def)

lemma dec_pos: "0 < length (dec n)"
  by (subst dec.simps) simp

lemma dec_int_single: "length (dec_int i) = 1 \<longleftrightarrow> 0 \<le> i \<and> i < 10"
proof (cases "i < 0")
  case True
  with dec_pos[of "nat (- i)"] show ?thesis by (simp add: dec_int_def)
next
  case False
  have "length (dec n) = 1 \<longleftrightarrow> n < 10" for n
    using dec_pos[of "n div 10"] by (subst dec.simps) simp
  with False show ?thesis by (simp add: dec_int_def) arith
qed

lemma led_particles_fit:
  "into12 (led_pm2_5 v) = (if 0 \<le> sint v \<and> sint v < 10 then Some (led_pm2_5 v) else None)"
  "into12 (led_pm10 v) = (if 0 \<le> sint v \<and> sint v < 10 then Some (led_pm10 v) else None)"
proof -
  have "0 < length (dec_int (sint v))" using dec_pos by (simp add: dec_int_def)
  then have "length (dec_int (sint v)) < 2 \<longleftrightarrow> 0 \<le> sint v \<and> sint v < 10"
    using dec_int_single[of "sint v"] by linarith
  then show "into12 (led_pm2_5 v) = (if 0 \<le> sint v \<and> sint v < 10 then Some (led_pm2_5 v) else None)"
    "into12 (led_pm10 v) = (if 0 \<le> sint v \<and> sint v < 10 then Some (led_pm10 v) else None)"
    by (simp_all add: into12_def led_pm2_5_def led_pm10_def cs_def)
qed

text \<open>Character \<open>k\<close> of a drawn text, blank behind its end, and half \<open>k\<close> of a Chinese text.\<close>

definition text_pix :: "u8 list \<Rightarrow> nat \<Rightarrow> nat \<Rightarrow> u8" where
  "text_pix str k r = (if k < length (takeWhile printable str) then glyph_row 12 (str ! k) r else 0)"

definition gbk_pix :: "u8 list \<Rightarrow> nat \<Rightarrow> nat \<Rightarrow> u8" where
  "gbk_pix str k r = chese_row 12 (drop (2 * (k div 2)) str) (k mod 2) r"

lemma draw_text:
  assumes "LED_wf d" "unat x < 12" "unat y < 12"
  obtains d' where "LED_ShowString x y 12 str d = Some d'" "LED_wf d'"
    "\<And>R X. R < 48 \<Longrightarrow> X < 12 \<Longrightarrow> pix d' R X = (if unat x \<le> X \<and> X - unat x < length (takeWhile printable str)
       \<and> 4 * unat y \<le> R \<and> R < 4 * unat y + 12 then glyph_row 12 (str ! (X - unat x)) (R - 4 * unat y) else pix d R X)"
  using LED_ShowString_pix[OF assms, of 12 str] by (auto simp: font_height_def)

lemma draw_gbk:
  assumes "LED_wf d" "unat x < 11" "unat y < 12" "n \<noteq> 0" "unat x + 2 * unat n \<le> 12" "2 * unat n \<le> length str"
  obtains d' where "LED_ShowNChese x y 12 n str d = Some d'" "LED_wf d'"
    "\<And>R X. R < 48 \<Longrightarrow> X < 12 \<Longrightarrow> pix d' R X = (if unat x \<le> X \<and> X < unat x + 2 * unat n \<and> 4 * unat y \<le> R \<and> R < 4 * unat y + 12
       then gbk_pix str (X - unat x) (R - 4 * unat y) else pix d R X)"
  using LED_ShowNChese_pix[OF assms, of 12] by (auto simp: font_height_def gbk_pix_def)

lemma gbk_lengths: "length gbk_title = 8" "length gbk_temperature = 4" "length gbk_humidity = 4" "length gbk_noise = 4"
  by (simp_all add: gbk_title_def gbk_temperature_def gbk_humidity_def gbk_noise_def)

text \<open>The first screen: three lines of label and value; the humidity value has five columns before its unit.\<close>

lemma led_screen1_shows:
  "\<exists>d'. led_screen1 st d = Some d' \<and> LED_wf d' \<and>
    (\<forall>r < 12. \<forall>X < 12.
      pix d' (12 + r) X = (if X < 4 then gbk_pix gbk_temperature X r else text_pix (s_t1 st) (X - 4) r) \<and>
      (X < 9 \<longrightarrow> pix d' (24 + r) X = (if X < 4 then gbk_pix gbk_humidity X r else text_pix (s_h1 st) (X - 4) r)) \<and>
      pix d' (36 + r) X = (if X < 4 then gbk_pix gbk_noise X r else text_pix (s_z1 st) (X - 4) r))"
proof -
  have c: "LED_wf (LED_Clear d)" "\<And>R X. R < 48 \<Longrightarrow> X < 12 \<Longrightarrow> pix (LED_Clear d) R X = 0"
    using LED_Clear_pix by auto
  obtain d1 where d1: "LED_ShowNChese 3 0 12 4 gbk_title (LED_Clear d) = Some d1" "LED_wf d1"
    "\<And>R X. R < 48 \<Longrightarrow> X < 12 \<Longrightarrow> pix d1 R X = (if 3 \<le> X \<and> X < 11 \<and> R < 12 then gbk_pix gbk_title (X - 3) R else 0)"
    by (rule draw_gbk[OF c(1), of 3 0 4 gbk_title]) (auto simp: gbk_lengths c(2))
  obtain d2 where d2: "LED_ShowNChese 0 3 12 2 gbk_temperature d1 = Some d2" "LED_wf d2"
    "\<And>R X. R < 48 \<Longrightarrow> X < 12 \<Longrightarrow> pix d2 R X = (if X < 4 \<and> 12 \<le> R \<and> R < 24 then gbk_pix gbk_temperature X (R - 12) else pix d1 R X)"
    by (rule draw_gbk[OF d1(2), of 0 3 2 gbk_temperature]) (auto simp: gbk_lengths)
  obtain d3 where d3: "LED_ShowString 4 3 12 (s_t1 st) d2 = Some d3" "LED_wf d3"
    "\<And>R X. R < 48 \<Longrightarrow> X < 12 \<Longrightarrow> pix d3 R X = (if 4 \<le> X \<and> X - 4 < length (takeWhile printable (s_t1 st)) \<and> 12 \<le> R \<and> R < 24
      then glyph_row 12 (s_t1 st ! (X - 4)) (R - 12) else pix d2 R X)"
    by (rule draw_text[OF d2(2), of 4 3 "s_t1 st"]) auto
  obtain d4 where d4: "LED_ShowNChese 0 6 12 2 gbk_humidity d3 = Some d4" "LED_wf d4"
    "\<And>R X. R < 48 \<Longrightarrow> X < 12 \<Longrightarrow> pix d4 R X = (if X < 4 \<and> 24 \<le> R \<and> R < 36 then gbk_pix gbk_humidity X (R - 24) else pix d3 R X)"
    by (rule draw_gbk[OF d3(2), of 0 6 2 gbk_humidity]) (auto simp: gbk_lengths)
  obtain d5 where d5: "LED_ShowString 4 6 12 (s_h1 st) d4 = Some d5" "LED_wf d5"
    "\<And>R X. R < 48 \<Longrightarrow> X < 12 \<Longrightarrow> pix d5 R X = (if 4 \<le> X \<and> X - 4 < length (takeWhile printable (s_h1 st)) \<and> 24 \<le> R \<and> R < 36
      then glyph_row 12 (s_h1 st ! (X - 4)) (R - 24) else pix d4 R X)"
    by (rule draw_text[OF d4(2), of 4 6 "s_h1 st"]) auto
  obtain d6 where d6: "LED_ShowString 9 6 12 (cs ''%RH'') d5 = Some d6" "LED_wf d6"
    "\<And>R X. R < 48 \<Longrightarrow> X < 12 \<Longrightarrow> pix d6 R X = (if 9 \<le> X \<and> X - 9 < length (takeWhile printable (cs ''%RH'')) \<and> 24 \<le> R \<and> R < 36
      then glyph_row 12 (cs ''%RH'' ! (X - 9)) (R - 24) else pix d5 R X)"
    by (rule draw_text[OF d5(2), of 9 6 "cs ''%RH''"]) auto
  obtain d7 where d7: "LED_ShowNChese 0 9 12 2 gbk_noise d6 = Some d7" "LED_wf d7"
    "\<And>R X. R < 48 \<Longrightarrow> X < 12 \<Longrightarrow> pix d7 R X = (if X < 4 \<and> 36 \<le> R \<and> R < 48 then gbk_pix gbk_noise X (R - 36) else pix d6 R X)"
    by (rule draw_gbk[OF d6(2), of 0 9 2 gbk_noise]) (auto simp: gbk_lengths)
  obtain d8 where d8: "LED_ShowString 4 9 12 (s_z1 st) d7 = Some d8" "LED_wf d8"
    "\<And>R X. R < 48 \<Longrightarrow> X < 12 \<Longrightarrow> pix d8 R X = (if 4 \<le> X \<and> X - 4 < length (takeWhile printable (s_z1 st)) \<and> 36 \<le> R \<and> R < 48
      then glyph_row 12 (s_z1 st ! (X - 4)) (R - 36) else pix d7 R X)"
    by (rule draw_text[OF d7(2), of 4 9 "s_z1 st"]) auto
  have "led_screen1 st d = Some d8"
    using d1(1) d2(1) d3(1) d4(1) d5(1) d6(1) d7(1) d8(1) by (simp add: led_screen1_def and_then_def)
  moreover have "pix d8 (12 + r) X = (if X < 4 then gbk_pix gbk_temperature X r else text_pix (s_t1 st) (X - 4) r)"
    "X < 9 \<Longrightarrow> pix d8 (24 + r) X = (if X < 4 then gbk_pix gbk_humidity X r else text_pix (s_h1 st) (X - 4) r)"
    "pix d8 (36 + r) X = (if X < 4 then gbk_pix gbk_noise X r else text_pix (s_z1 st) (X - 4) r)"
    if "r < 12" "X < 12" for r X
    using that by (auto simp: d8(3) d7(3) d6(3) d5(3) d4(3) d3(3) d2(3) d1(3) text_pix_def)
  ultimately show ?thesis using d8(2) by blast
qed

text \<open>The second screen: the two particle lines.\<close>

lemma led_screen2_shows:
  "\<exists>d'. led_screen2 st d = Some d' \<and> LED_wf d' \<and>
    (\<forall>r < 12. \<forall>X < 12. pix d' (24 + r) X = text_pix (s_pm2_5 st) X r \<and> pix d' (36 + r) X = text_pix (s_pm10 st) X r)"
proof -
  have c: "LED_wf (LED_Clear d)" "\<And>R X. R < 48 \<Longrightarrow> X < 12 \<Longrightarrow> pix (LED_Clear d) R X = 0"
    using LED_Clear_pix by auto
  obtain d1 where d1: "LED_ShowNChese 3 0 12 4 gbk_title (LED_Clear d) = Some d1" "LED_wf d1"
    "\<And>R X. R < 48 \<Longrightarrow> X < 12 \<Longrightarrow> 12 \<le> R \<Longrightarrow> pix d1 R X = 0"
    by (rule draw_gbk[OF c(1), of 3 0 4 gbk_title]) (auto simp: gbk_lengths c(2))
  obtain d2 where d2: "LED_ShowString 0 3 12 (cs ''PM'') d1 = Some d2" "LED_wf d2"
    "\<And>R X. R < 48 \<Longrightarrow> X < 12 \<Longrightarrow> pix d2 R X = (if X < length (takeWhile printable (cs ''PM'')) \<and> 12 \<le> R \<and> R < 24
      then glyph_row 12 (cs ''PM'' ! X) (R - 12) else pix d1 R X)"
    by (rule draw_text[OF d1(2), of 0 3 "cs ''PM''"]) auto
  have "\<exists>d'. LED_ShowChese 2 3 12 gbk_value d2 = Some d' \<and> LED_wf d' \<and>
    (\<forall>R < 48. \<forall>X < 12. pix d' R X = (if unat (2 :: u16) \<le> X \<and> X < unat (2 :: u16) + 2 \<and> 4 * unat (3 :: u16) \<le> R \<and>
       R < 4 * unat (3 :: u16) + font_height 12
      then chese_row 12 gbk_value (X - unat (2 :: u16)) (R - 4 * unat (3 :: u16)) else pix d2 R X))"
    by (rule LED_ShowChese_pix[OF d2(2)]) auto
  then obtain d3 where d3: "LED_ShowChese 2 3 12 gbk_value d2 = Some d3" "LED_wf d3"
    "\<And>R X. R < 48 \<Longrightarrow> X < 12 \<Longrightarrow> 24 \<le> R \<Longrightarrow> pix d3 R X = pix d2 R X"
    by (auto simp: font_height_def)
  obtain d4 where d4: "LED_ShowString 0 6 12 (s_pm2_5 st) d3 = Some d4" "LED_wf d4"
    "\<And>R X. R < 48 \<Longrightarrow> X < 12 \<Longrightarrow> pix d4 R X = (if X < length (takeWhile printable (s_pm2_5 st)) \<and> 24 \<le> R \<and> R < 36
      then glyph_row 12 (s_pm2_5 st ! X) (R - 24) else pix d3 R X)"
    by (rule draw_text[OF d3(2), of 0 6 "s_pm2_5 st"]) auto
  obtain d5 where d5: "LED_ShowString 0 9 12 (s_pm10 st) d4 = Some d5" "LED_wf d5"
    "\<And>R X. R < 48 \<Longrightarrow> X < 12 \<Longrightarrow> pix d5 R X = (if X < length (takeWhile printable (s_pm10 st)) \<and> 36 \<le> R \<and> R < 48
      then glyph_row 12 (s_pm10 st ! X) (R - 36) else pix d4 R X)"
    by (rule draw_text[OF d4(2), of 0 9 "s_pm10 st"]) auto
  have "led_screen2 st d = Some d5"
    using d1(1) d2(1) d3(1) d4(1) d5(1) by (simp add: led_screen2_def and_then_def)
  moreover have "pix d5 (24 + r) X = text_pix (s_pm2_5 st) X r" "pix d5 (36 + r) X = text_pix (s_pm10 st) X r"
    if "r < 12" "X < 12" for r X
    using that by (auto simp: d5(3) d4(3) d3(3) d2(3) d1(3) text_pix_def)
  ultimately show ?thesis using d5(2) by blast
qed

text \<open>The screen that stands after turn \<open>k\<close>.\<close>

definition screen_of :: "led_strings \<Rightarrow> nat \<Rightarrow> led \<Rightarrow> led option" where
  "screen_of st k d = (if (k - 1) mod 1000 < 500 then led_screen2 st d else led_screen1 st d)"

lemma screen_forgets: "led_screen1 st d = led_screen1 st d'" "led_screen2 st d = led_screen2 st d'"
  by (simp_all add: led_screen1_def led_screen2_def LED_Clear_def)

lemma screens_total: "\<exists>d'. led_screen1 st d = Some d'" "\<exists>d'. led_screen2 st d = Some d'"
  using led_screen1_shows[of st d] led_screen2_shows[of st d] by blast+

lemma and_turn_simps [simp]:
  "and_turn Waiting f = Waiting" "and_turn (Overrun v) f = Overrun v" "and_turn Outside f = Outside" "and_turn (Turn x) f = f x"
  by (simp_all add: and_turn_def)

lemma and_turn_is:
  "and_turn m f = Turn y \<longleftrightarrow> (\<exists>x. m = Turn x \<and> f x = Turn y)"
  "and_turn m f = Outside \<longleftrightarrow> m = Outside \<or> (\<exists>x. m = Turn x \<and> f x = Outside)"
  "and_turn m f = Overrun v \<longleftrightarrow> m = Overrun v \<or> (\<exists>x. m = Turn x \<and> f x = Overrun v)"
  by (cases m; simp)+

text \<open>How the reading of the news can end: it never leaves the display's memory, and only a value that is no single
  digit overruns its text.\<close>

lemma give_way_is: "give_way away s \<noteq> Outside" "give_way away s \<noteq> Overrun v"
  by (cases away; simp)+

lemma recv_wait_is: "recv_wait n start timeout c away r \<noteq> Outside" "recv_wait n start timeout c away r \<noteq> Overrun v"
  by (induction n start timeout c away r rule: recv_wait.induct) simp_all

lemma digit_fits:
  fixes v :: u32
  assumes "0 \<le> sint v" "sint v < 10" "f \<in> {led_t1, led_h1, led_z1, led_pm2_5, led_pm10}"
  shows "into12 (f v) \<noteq> None"
  using assms led_tenths_fit[of v] led_particles_fit[of v] by auto

lemma led_field_is:
  "led_field c box f old away s \<noteq> Outside"
  "led_field c box f old away s = Overrun v \<Longrightarrow> into12 (f v) = None"
  by (auto simp: led_field_def and_turn_is give_way_is recv_wait_is split: option.splits)

lemma led_field_digit:
  assumes "f \<in> {led_t1, led_h1, led_z1, led_pm2_5, led_pm10}" "0 \<le> sint v" "sint v < 10"
  shows "led_field c box f old away s \<noteq> Overrun v"
proof
  assume "led_field c box f old away s = Overrun v"
  then show False using digit_fits[OF assms(2,3,1)] led_field_is(2)[of c box f old away s v] by simp
qed

lemma led_news_is:
  "led_news c two box st away s \<noteq> Outside"
  "led_news c two box st away s = Overrun v \<Longrightarrow> \<not> (0 \<le> sint v \<and> sint v < 10)"
proof -
  show "led_news c two box st away s \<noteq> Outside"
    by (auto simp: led_news_def and_turn_is give_way_is led_field_is(1) split: prod.splits if_splits)
next
  assume o: "led_news c two box st away s = Overrun v"
  show "\<not> (0 \<le> sint v \<and> sint v < 10)"
  proof
    assume "0 \<le> sint v \<and> sint v < 10"
    then have "led_field c box f old a u \<noteq> Overrun v" if "f \<in> {led_t1, led_h1, led_z1, led_pm2_5, led_pm10}" for f old a u
      using led_field_digit[OF that] by blast
    with o show False
      by (auto simp: led_news_def and_turn_is give_way_is case_prod_beta split: if_splits)
  qed
qed

lemma led_draw_effect:
  "led_draw st i d = Some (if i mod 1000 = 0 then 0 else i,
     if i mod 1000 = 0 then the (led_screen2 st d) else if i mod 500 = 0 then the (led_screen1 st d) else d)"
proof -
  obtain d1 d2 where d: "led_screen1 st d = Some d1" "led_screen2 st d1 = Some d2" using screens_total by blast
  then have "led_screen2 st d = Some d2" using screen_forgets(2)[of st d d1] by simp
  moreover have "i mod 1000 = 0 \<Longrightarrow> i mod 500 = 0" by (simp add: mod_eq_0_iff_dvd) (erule dvd_trans[rotated], simp)
  ultimately show ?thesis using d by (simp add: led_draw_def)
qed

lemma led_turn_is:
  "led_turn c two box x away s \<noteq> Outside"
  "led_turn c two box x away s = Overrun v \<Longrightarrow> \<not> (0 \<le> sint v \<and> sint v < 10)"
  using led_news_is
  by (auto simp: led_turn_def led_draw_effect and_turn_is give_way_is)

lemma led_turns_is:
  "led_turns c two box k x away s \<noteq> Outside"
  "led_turns c two box k x away s = Overrun v \<Longrightarrow> \<not> (0 \<le> sint v \<and> sint v < 10)"
  by (induction k) (auto simp: and_turn_is led_turn_is(1) dest!: led_turn_is(2))

lemma led_turn_drawn:
  assumes "led_turn c two box x away s = Turn (y, away', s')"
  shows "led_draw (dp_st y) (dp_i x) (dp_wall x) = Some (dp_i y - 1, dp_wall y)" "0 < dp_i y" "dp_sent y = LED_SendData (dp_wall y)"
  using assms by (auto simp: led_turn_def and_turn_is split: option.splits prod.splits)

text \<open>
  The loop: after the first turn the second screen stands for 500 turns, then the first screen for 500 turns,
  and so on, each with the texts of the turn that drew it. The counter starts over at the turn that finds it at 1000.
\<close>

lemma half_turns: "m mod 500 = (if m mod 1000 < 500 then m mod 1000 else m mod 1000 - 500)" for m :: nat
proof -
  have "m mod 500 = m mod 1000 mod 500" by (rule mod_mod_cancel[symmetric]) simp
  also have "\<dots> = (if m mod 1000 < 500 then m mod 1000 else m mod 1000 - 500)"
    by (auto simp: mod_if[of "m mod 1000" 500] mod_if[of "m mod 1000 - 500" 500])
  finally show ?thesis .
qed

lemma led_turns_screen:
  assumes "dp_i x = 0" "led_turns c two box (Suc k) x away s = Turn (y, away', s')"
  shows "dp_i y = k mod 1000 + 1 \<and> dp_sent y = LED_SendData (dp_wall y) \<and>
    (\<exists>x' away1 s1. led_turns c two box (Suc (500 * (k div 500))) x away s = Turn (x', away1, s1) \<and>
       screen_of (dp_st x') (Suc k) d = Some (dp_wall y))"
  using assms(2)
proof (induction k arbitrary: y away' s')
  case 0
  then have t: "led_turn c two box x away s = Turn (y, away', s')" by simp
  obtain e where e: "led_screen2 (dp_st y) (dp_wall x) = Some e" using screens_total by blast
  show ?case
    using led_turn_drawn[OF t] assms(1) 0 e screen_forgets(2)[of "dp_st y" d "dp_wall x"]
    by (auto simp: led_draw_effect screen_of_def simp del: led_turns.simps)
next
  case (Suc k)
  obtain z away2 s2 where z: "led_turns c two box (Suc k) x away s = Turn (z, away2, s2)"
    and t: "led_turn c two box z away2 s2 = Turn (y, away', s')"
    using Suc.prems by (auto simp: and_turn_is simp del: led_turns.simps(1) led_turns.simps(2)[of _ _ _ k])
  note ih = Suc.IH[OF z] and dr = led_turn_drawn[OF t]
  let ?i = "k mod 1000 + 1"
  have i: "dp_i z = ?i" using ih by simp
  have m1: "?i mod 1000 = Suc k mod 1000" by (simp add: mod_Suc_eq)
  have m5: "?i mod 500 = Suc k mod 500"
  proof -
    have "Suc k mod 1000 mod 500 = Suc k mod 500" by (rule mod_mod_cancel) simp
    moreover have "?i mod 1000 mod 500 = ?i mod 500" by (rule mod_mod_cancel) simp
    ultimately show ?thesis using m1 by simp
  qed
  obtain e1 e2 where e: "led_screen1 (dp_st y) d = Some e1" "led_screen2 (dp_st y) d = Some e2" using screens_total by blast
  have f: "led_screen1 (dp_st y) (dp_wall z) = Some e1" "led_screen2 (dp_st y) (dp_wall z) = Some e2"
    using e screen_forgets[of "dp_st y" "dp_wall z" d] by simp_all
  have cnt: "dp_i y = Suc k mod 1000 + 1"
    using dr(1,2) i m1 by (auto simp: led_draw_effect mod_Suc split: if_splits)
  show ?case
  proof (cases "Suc k mod 500 = 0")
    case True
    then have q: "500 * (Suc k div 500) = Suc k" by (simp add: mod_eq_0_iff_dvd)
    have "Suc k mod 1000 = 0 \<or> Suc k mod 1000 = 500" using True half_turns[of "Suc k"] by (auto split: if_splits)
    then consider "Suc k mod 1000 = 0" | "Suc k mod 1000 = 500" by (rule disjE)
    then have "screen_of (dp_st y) (Suc (Suc k)) d = Some (dp_wall y)"
    proof cases
      case 1
      with dr(1) m1 e(2) f(2) show ?thesis by (simp add: i led_draw_effect screen_of_def)
    next
      case 2
      with dr(1) m1 m5 True e(1) f(1) show ?thesis by (simp add: i led_draw_effect screen_of_def)
    qed
    with Suc.prems cnt dr(3) q show ?thesis by (simp del: led_turns.simps)
  next
    case False
    then have q: "Suc k div 500 = k div 500" by (simp add: div_Suc)
    have n: "Suc k mod 1000 \<noteq> 0" using False half_turns[of "Suc k"] by (auto split: if_splits)
    have w: "dp_wall y = dp_wall z" using dr(1) i m1 m5 False n by (simp add: led_draw_effect)
    have "(Suc k mod 1000 < 500) = (k mod 1000 < 500)"
      using False half_turns[of "Suc k"] by (auto simp: mod_Suc split: if_splits)
    with ih w cnt dr(3) q show ?thesis by (simp add: screen_of_def del: led_turns.simps)
  qed
qed

text \<open>The readings of a release are already in the box when the display thread takes its unit: then no receive waits,
  provided that nobody else takes from the box.\<close>

definition leaves_box :: "nat \<Rightarrow> (kernel \<Rightarrow> kernel) \<Rightarrow> bool" where
  "leaves_box box e = (\<forall>s vs. kinv s \<longrightarrow> box_holds box vs s \<longrightarrow> kinv (e s) \<and> box_holds box vs (e s))"

lemma recv_ready:
  assumes "kinv s" "box_holds n (v # vs) s"
  obtains s' where "rt_mb_recv n timeout s = (Ret RT_EOK, Some v, s')" "kinv s'" "box_holds n vs s'"
proof -
  let ?s1 = "upd_mb n (\<lambda>x. snd (mb_get x)) s"
  have b: "is_mb n s" "mb_inv (mboxes s n)" "mb_list (mboxes s n) = v # vs" "lists s (MbSendL n) = []"
    using assms(2) by (simp_all add: box_holds_def)
  have ne: "mb_entry (mboxes s n) \<noteq> 0" using b(3) length_mb_list[of "mboxes s n"] by auto
  note g = mb_get_fifo[OF b(2) ne]
  have "rt_mb_recv n timeout s = (Ret RT_EOK, Some v, ?s1)"
    using b ne g(2) by (simp add: rt_mb_recv_def mb_recv_again_def mb_fetch_def Let_def kframe)
  moreover have "kinv ?s1" using assms(1) by simp
  moreover have "box_holds n vs ?s1"
    using b g mb_get_sel(7)[of "mboxes s n"] by (simp add: box_holds_def is_mb_def kframe mb_inv_def)
  ultimately show thesis by (rule that)
qed

lemma led_field_ready:
  assumes "kinv s" "box_holds box (v # vs) s" "leaves_box box e"
  obtains s' where "led_field c box f old (e # away) s =
      (case into12 (f v) of None \<Rightarrow> Overrun v | Some x \<Rightarrow> Turn (x, away, s'))" "kinv s'" "box_holds box vs s'"
proof -
  have "kinv (e s)" "box_holds box (v # vs) (e s)" using assms by (auto simp: leaves_box_def)
  then obtain s' where "rt_mb_recv box 500 (e s) = (Ret RT_EOK, Some v, s')" "kinv s'" "box_holds box vs s'"
    by (rule recv_ready)
  then show thesis by (intro that[of s']) (simp_all add: led_field_def)
qed

lemma led_news_ready:
  assumes "kinv (e s)" "is_sem two (e s)" "0 < s_value (sems (e s) two)" "box_holds box [t, h, n, p2, p10] (e s)"
    "\<forall>a \<in> {e1, e2, e3, e4, e5}. leaves_box box a"
    "into12 (led_t1 t) \<noteq> None" "into12 (led_h1 h) \<noteq> None" "into12 (led_z1 n) \<noteq> None"
  shows "\<exists>s'. led_news c two box st (e # e1 # e2 # e3 # e4 # e5 # away) s =
    (if into12 (led_pm2_5 p2) = None then Overrun p2 else if into12 (led_pm10 p10) = None then Overrun p10
     else Turn (the (led_refresh (Some t) (Some h) (Some n) (Some p2) (Some p10) st), away, s'))"
proof -
  define s1 where "s1 = upd_sem two (\<lambda>x. x\<lparr>s_value := s_value x - 1\<rparr>) (e s)"
  have k1: "kinv s1" using assms(1) by (simp add: s1_def)
  have b1: "box_holds box [t, h, n, p2, p10] s1"
    using assms(4) by (simp add: s1_def box_holds_def is_mb_def kframe upd_sem_def)
  have take: "rt_sem_trytake two (e s) = (Ret RT_EOK, s1)"
    using assms(2,3) by (simp add: rt_sem_trytake_def rt_sem_take_def s1_def)
  have e: "leaves_box box e1" "leaves_box box e2" "leaves_box box e3" "leaves_box box e4" "leaves_box box e5"
    using assms(5) by simp_all
  obtain s2 where f1: "led_field c box led_t1 (s_t1 st) (e1 # e2 # e3 # e4 # e5 # away) s1 =
      (case into12 (led_t1 t) of None \<Rightarrow> Overrun t | Some x \<Rightarrow> Turn (x, e2 # e3 # e4 # e5 # away, s2))"
    and k2: "kinv s2" "box_holds box [h, n, p2, p10] s2" by (rule led_field_ready[OF k1 b1 e(1)])
  obtain s3 where f2: "led_field c box led_h1 (s_h1 st) (e2 # e3 # e4 # e5 # away) s2 =
      (case into12 (led_h1 h) of None \<Rightarrow> Overrun h | Some x \<Rightarrow> Turn (x, e3 # e4 # e5 # away, s3))"
    and k3: "kinv s3" "box_holds box [n, p2, p10] s3" by (rule led_field_ready[OF k2 e(2)])
  obtain s4 where f3: "led_field c box led_z1 (s_z1 st) (e3 # e4 # e5 # away) s3 =
      (case into12 (led_z1 n) of None \<Rightarrow> Overrun n | Some x \<Rightarrow> Turn (x, e4 # e5 # away, s4))"
    and k4: "kinv s4" "box_holds box [p2, p10] s4" by (rule led_field_ready[OF k3 e(3)])
  obtain s5 where f4: "led_field c box led_pm2_5 (s_pm2_5 st) (e4 # e5 # away) s4 =
      (case into12 (led_pm2_5 p2) of None \<Rightarrow> Overrun p2 | Some x \<Rightarrow> Turn (x, e5 # away, s5))"
    and k5: "kinv s5" "box_holds box [p10] s5" by (rule led_field_ready[OF k4 e(4)])
  obtain s6 where f5: "led_field c box led_pm10 (s_pm10 st) (e5 # away) s5 =
      (case into12 (led_pm10 p10) of None \<Rightarrow> Overrun p10 | Some x \<Rightarrow> Turn (x, away, s6))"
    by (rule led_field_ready[OF k5 e(5)])
  from assms(6-8) show ?thesis
    by (auto simp: led_news_def take f1 f2 f3 f4 f5 led_refresh_def redo_def intro!: exI[of _ s6] split: option.splits)
qed

text \<open>What is to be read on the wall: the two particle lines, or the temperature, humidity and noise lines. The first
  four columns hold the label; the humidity text has five columns before its unit.\<close>

definition wall_shows :: "bool \<Rightarrow> led_strings \<Rightarrow> led \<Rightarrow> bool" where
  "wall_shows particles st d =
    (\<forall>r < 12. \<forall>X < 12.
      if particles
      then pix d (24 + r) X = text_pix (s_pm2_5 st) X r \<and> pix d (36 + r) X = text_pix (s_pm10 st) X r
      else pix d (12 + r) X = (if X < 4 then gbk_pix gbk_temperature X r else text_pix (s_t1 st) (X - 4) r) \<and>
        (X < 9 \<longrightarrow> pix d (24 + r) X = (if X < 4 then gbk_pix gbk_humidity X r else text_pix (s_h1 st) (X - 4) r)) \<and>
        pix d (36 + r) X = (if X < 4 then gbk_pix gbk_noise X r else text_pix (s_z1 st) (X - 4) r))"

lemma screen_shows: "screen_of st (Suc k) d = Some d' \<Longrightarrow> LED_wf d' \<and> wall_shows (k mod 1000 < 500) st d'"
  using led_screen1_shows[of st d] led_screen2_shows[of st d]
  by (cases "k mod 1000 < 500") (auto simp: screen_of_def wall_shows_def)

lemma led_turn_quiet:
  assumes "is_sem two (e s)" "s_value (sems (e s) two) = 0"
  shows "\<exists>y s'. led_turn c two box x (e # p # away) s = Turn (y, away, s') \<and> dp_st y = dp_st x"
  using assms by (simp add: led_turn_def led_news_def rt_sem_trytake_def rt_sem_take_def led_draw_effect)

lemma led_turn_ready:
  assumes "kinv (e s)" "is_sem two (e s)" "0 < s_value (sems (e s) two)"
    "box_holds box (map mail [t, h, n, p2, p10]) (e s)" "\<forall>a \<in> {e1, e2, e3, e4, e5}. leaves_box box a"
  shows "if 0 \<le> sint p2 \<and> sint p2 < 10 \<and> 0 \<le> sint p10 \<and> sint p10 < 10
     then \<exists>y s'. led_turn c two box x (e # e1 # e2 # e3 # e4 # e5 # p # away) s = Turn (y, away, s') \<and>
       led_refresh (Some (mail t)) (Some (mail h)) (Some (mail n)) (Some (mail p2)) (Some (mail p10)) (dp_st x) = Some (dp_st y)
     else led_turn c two box x (e # e1 # e2 # e3 # e4 # e5 # p # away) s =
       Overrun (mail (if 0 \<le> sint p2 \<and> sint p2 < 10 then p10 else p2))"
proof -
  have r: "- 32768 \<le> sint (mail w)" "sint (mail w) < 32768" for w
    using sint_ge[of w] sint_lt[of w] by (simp_all add: sint_mail)
  note fit = led_tenths_fit[OF r]
  have "\<exists>s'. led_news c two box (dp_st x) (e # e1 # e2 # e3 # e4 # e5 # p # away) s =
    (if into12 (led_pm2_5 (mail p2)) = None then Overrun (mail p2) else if into12 (led_pm10 (mail p10)) = None then Overrun (mail p10)
     else Turn (the (led_refresh (Some (mail t)) (Some (mail h)) (Some (mail n)) (Some (mail p2)) (Some (mail p10)) (dp_st x)),
       p # away, s'))"
    using assms(4) by (intro led_news_ready assms(1-3,5)) (simp_all add: fit)
  then show ?thesis
    by (auto simp: led_turn_def led_draw_effect led_particles_fit sint_mail led_refresh_def redo_def fit)
qed

section \<open>The start\<close>

text \<open>
  A second semaphore that could not be created goes unnoticed: the start reports success with no handle for it.
\<close>

lemma Enviroment_unchecked:
  assumes "int_nest s = 0"
  shows "\<exists>s'. Enviroment (Some a) None iot led (Some t1, Some k1) (Some t2, Some k2) (Some t3, Some k3) s =
    (Some a, None, RT_EOK, s')"
  using assms by (auto simp: Enviroment_def rt_sem_create_def rt_mb_init_def start_thread_def rt_thread_create_def Let_def kframe
      split: prod.splits)

text \<open>
  The modem thread releases the first semaphore for the sensor thread and takes it at once. When the sensor thread
  does not wait there yet, the modem thread takes its own unit back, and nothing is left for the sensor thread.
\<close>

definition nb_handshake :: "nat \<Rightarrow> kernel \<Rightarrow> outcome \<times> kernel" where
  "nb_handshake one s = rt_sem_take one (-1) (snd (rt_sem_release one s))"

lemma handshake_early:
  assumes "sem_inv one s" "sem_abs one s = (0, [])"
  shows "fst (nb_handshake one s) = Ret RT_EOK \<and> sem_abs one (snd (nb_handshake one s)) = (0, [])"
proof -
  have v: "s_value (sems s one) = 0" "lists s (SemL one) = []" using assms(2) by (auto simp: sem_abs_def unat_eq_0)
  show ?thesis
    using assms(1) v sem_release_counts[OF assms(1) v(2)]
    by (simp add: nb_handshake_def rt_sem_take_def sem_inv_def sem_abs_def kframe is_sem_def)
qed

end
