(* ===== verification/StationProps.thy ===== *)
theory StationProps
  imports Enviroment Sample
begin

text \<open>
  Properties of the AT client, of the modem driver on top of it, and of the station as a whole: from the
  sensor's readings through the mailboxes to the modem and to the LED wall.
\<close>

section \<open>A client to instantiate the properties at\<close>

definition idle_client :: at_client where
  "idle_client = at_client_port_init \<lparr>status = AT_STATUS_INITIALIZED, end_sign = 0, recv_buffer = replicate 512 0,
     recv_bufsz = 512, cur_recv_len = 0, resp = None, notices = 0, resp_status = AT_RESP_OK, urc_table = None,
     heap = (\<lambda>a. if a < 4 then Some \<lparr>ar_buf = replicate 8 0, buf_size = 8, line_num = 0, line_counts = 0, ar_timeout = 500\<rparr> else None)\<rparr>"

definition idle_parser :: at_parser where
  "idle_parser = \<lparr>cl = idle_client, pending = [], resp_buf_len = 0, line_cnt = 0, events = []\<rparr>"

text \<open>A handler that reads nothing and does nothing.\<close>

definition no_handler :: at_handler where "no_handler f line rest p = (0, p)"

text \<open>A line is no unsolicited code when it starts with none of the prefixes.\<close>

lemma quiet_prefix:
  assumes "\<And>tbl u. urc_table c = Some tbl \<Longrightarrow> u \<in> set tbl \<Longrightarrow> take (length (cmd_prefix u)) line \<noteq> cmd_prefix u"
  shows "quiet c line"
  using assms by (auto simp: quiet_def urc_match_def min_def)

lemma idle_plain:
  assumes "10 \<notin> set l" "length l \<le> 510" "list_all (\<lambda>u. take (length (cmd_prefix u)) (l @ [13, 10]) \<noteq> cmd_prefix u) nb_urc_table"
  shows "plain idle_client l"
proof -
  have "quiet idle_client (l @ [13, 10])"
    using assms(3) by (intro quiet_prefix) (auto simp: idle_client_def at_client_port_init_def at_obj_set_urc_table_def list_all_iff)
  with assms(1,2) show ?thesis
    by (simp add: plain_def idle_client_def at_client_port_init_def at_obj_set_urc_table_def)
qed

lemmas idle_line = idle_plain nb_urc_table_def cs_def

lemma idle_ok: "at_idle idle_parser" "fresh_resp 0 idle_parser 8 0" "cl idle_parser = idle_client"
  by (simp_all add: at_idle_def fresh_resp_def idle_parser_def idle_client_def at_client_port_init_def at_obj_set_urc_table_def)

section \<open>Commands to the modem\<close>

text \<open>C5: A command to an idle client, answered within its timeout, returns with the device's final line: \<open>RT_EOK\<close> for OK or
  for the expected number of lines, an error for ERROR or FAIL. The response object then holds, in order and retrievable
  by number and by keyword, the lines of the answer that fit its buffer: a line that does not fit behind those kept
  before it is dropped, and nothing but the missing line tells so, for the final line overwrites the status. When the
  lines with their two end bytes together are shorter than the buffer, all of them are held. The command was written
  once, and the client is idle again. The conditions of use: the command has no percent sign and fewer than 128
  characters; no line holds a zero or a line feed, is longer than the receive buffer, or begins like an unsolicited
  report or a prompt (\<open>plain\<close>).\<close>

theorem at_command_collects:
  assumes "at_idle p" "fresh_resp a p sz n" "sendable cmd" "\<forall>l \<in> set (ms @ [f]). plain (cl p) l \<and> 0 \<notin> set l"
    "\<forall>i < length ms. verdict n (length (kept sz (take (i + 1) ms))) (ms ! i) = None"
    "verdict n (length (kept sz (ms @ [f]))) f = Some st"
  shows "\<exists>p'. at_obj_exec_cmd h (Some a) cmd (wire (ms @ [f])) p = Some (if st = AT_RESP_OK then RT_EOK else -RT_ERROR, p') \<and>
    holds a p' (kept sz (ms @ [f])) \<and> (length (stored (ms @ [f])) < sz \<longrightarrow> kept sz (ms @ [f]) = ms @ [f]) \<and>
    at_idle p' \<and> events p' = events p @ [Written cmd, Written [13, 10]]"
  using exec_answered_kept[OF assms(1-4) _ assms(6), of h] kept_all[of "ms @ [f]" sz] assms(5)
  unfolding open_lines_def by blast

text \<open>The sample response has eight bytes: it keeps the line \<open>OK\<close> and drops the line before it.\<close>

lemma at_command_collects_witness:
  "\<exists>p'. at_obj_exec_cmd no_handler (Some 0) [65, 84] (wire [[49, 50, 51, 52, 53, 54, 55], [79, 75]]) idle_parser = Some (RT_EOK, p') \<and>
     holds 0 p' [[79, 75]] \<and> at_idle p' \<and> events p' = [Written [65, 84], Written [13, 10]]"
proof -
  have l: "plain idle_client [49, 50, 51, 52, 53, 54, 55]" "plain idle_client [79, 75]"
    by (rule idle_plain, simp_all add: nb_urc_table_def cs_def)+
  have k: "kept 8 [[49, 50, 51, 52, 53, 54, 55]] = []" "kept 8 [[49, 50, 51, 52, 53, 54, 55], [79, 75]] = [[79, 75]]"
    by (simp_all add: kept_def keep_line_def)
  show ?thesis
    using at_command_collects[OF idle_ok(1,2), of "[65, 84]" "[[49, 50, 51, 52, 53, 54, 55]]" "[79, 75]" AT_RESP_OK no_handler] l k
    by (auto simp: idle_ok sendable_def verdict_def s_OK_def s_ERROR_def s_FAIL_def idle_parser_def simp del: wire_simps)
qed

text \<open>After a command that timed out, the parser keeps its write position and line count: the lines that had arrived
  are still counted, so that the next answer is stored behind them.\<close>

theorem at_timeout_keeps_position:
  assumes "at_idle p" "fresh_resp a p sz n" "sendable cmd" "\<forall>l \<in> set ms. plain (cl p) l \<and> 0 \<notin> set l" "open_lines n sz ms"
  shows "\<exists>p'. at_obj_exec_cmd h (Some a) cmd (wire ms) p = Some (-RT_ETIMEOUT, p') \<and> resp (cl p') = None \<and>
    resp_status (cl p') = AT_RESP_TIMEOUT \<and> resp_buf_len p' = length (stored (kept sz ms)) \<and> line_cnt p' = length (kept sz ms)"
  by (rule exec_timed_out[OF assms])

lemma at_timeout_keeps_position_witness:
  "\<exists>p'. at_obj_exec_cmd no_handler (Some 0) [65, 84] (wire [[49, 50]]) idle_parser = Some (-RT_ETIMEOUT, p') \<and> resp_buf_len p' = 4 \<and>
     line_cnt p' = 1"
proof -
  have "plain idle_client [49, 50]" by (rule idle_plain) (simp_all add: nb_urc_table_def cs_def)
  moreover have "kept 8 [[49, 50]] = [[49, 50]]" by (simp add: kept_def keep_line_def)
  ultimately show ?thesis
    using at_timeout_keeps_position[OF idle_ok(1,2), of "[65, 84]" "[[49, 50]]" no_handler]
    by (auto simp: idle_ok sendable_def open_lines_def verdict_def s_OK_def s_ERROR_def s_FAIL_def stored_def simp del: wire_simps)
qed

section \<open>From the sensor to the server\<close>

text \<open>C3: A measurement reaches the server unchanged: the sensor thread mails its five readings to both mailboxes and
  releases the two semaphores, the modem thread receives from its mailbox and sends the four HTTP commands,
  and the content of the post is the five signed readings in decimal, in their order, on the connection
  number that the modem gave. No call fails or overruns a buffer.\<close>

theorem station_posts_readings:
  fixes b :: BYH_M_t
  assumes "kinv s" "cur s = Some c" "box_ready iot s" "box_ready led s" "iot \<noteq> led"
    "sem_inv one s" "sem_inv two s" "one \<noteq> two" "at_idle q" "iot_config d"
    "good_answer (cl q) 64 0 ls1" "good_answer (cl q) 64 0 ls2" "good_answer (cl q) 64 0 ls3" "good_answer (cl q) 64 2 ls4"
    "find (\<lambda>l. strstr (l @ [13]) (cs ''+HTTPCREATE:'')) ls1 = Some l" "12 < length l" "l ! 12 \<noteq> 0" "l ! 12 \<noteq> 37"
  shows "\<exists>d' q'. iot_post h ((Some x1, wire ls1), (Some x2, wire ls2), (Some x3, wire ls3), (Some x4, wire ls4))
      (fst (iot_collect iot (byh_publish iot led one two b s))) d q = Some (d', q') \<and> at_idle q' \<and> iot_config d' \<and>
    events q' = events q @ post_commands (l ! 12) (map sint (readings b))"
proof -
  note p = byh_publish_effect[OF assms(1-8), of b]
  have "fst (iot_collect iot (byh_publish iot led one two b s)) = map mail (readings b)"
    using collect_mail[of _ iot b] p by (simp add: iot_collect_def)
  then show ?thesis using iot_post_ok[OF assms(9-18), of h x1 x2 x3 x4 b] by simp
qed

text \<open>The sample state with two of its mailboxes made five places wide.\<close>

definition station_state :: kernel where
  "station_state = upd_mb 3 (\<lambda>x. x\<lparr>mb_pool := replicate 5 0, mb_size := 5\<rparr>)
     (upd_mb 4 (\<lambda>x. x\<lparr>mb_pool := replicate 5 0, mb_size := 5\<rparr>) sample)"

lemma station_boxes: "n = 3 \<or> n = 4 \<Longrightarrow> box_ready n station_state"
  using sample_is(4)[of n]
  by (auto simp: box_ready_def station_state_def kframe is_mb_def mb_inv_def mb_list_def sample_sel sample_mbox_def sample_list)

lemma station_state_ok: "kinv station_state" "cur station_state = Some 0" "sem_inv n station_state"
proof -
  have "sems (upd_mb k f s) = sems s" for k f s by (simp add: upd_mb_def)
  then show "kinv station_state" "cur station_state = Some 0" "sem_inv n station_state"
    using sample_sem_inv[of n] by (simp_all add: station_state_def sample_kinv sample_sel(1) kframe sem_inv_def is_sem_def)
qed

definition answer_create :: "u8 list list" where "answer_create = [cs ''+HTTPCREATE:1'', cs ''OK'']"
definition answer_ok :: "u8 list list" where "answer_ok = [cs ''OK'']"
definition answer_send :: "u8 list list" where "answer_send = [cs ''ACCEPTED'', cs ''OK'']"

lemma answers: "good_answer idle_client 64 0 answer_create" "good_answer idle_client 64 0 answer_ok"
  "good_answer idle_client 64 2 answer_send"
proof -
  have "plain idle_client (cs ''+HTTPCREATE:1'')" "plain idle_client (cs ''OK'')" "plain idle_client (cs ''ACCEPTED'')"
    by (rule idle_plain, simp_all add: nb_urc_table_def cs_def)+
  then show "good_answer idle_client 64 0 answer_create" "good_answer idle_client 64 0 answer_ok"
    "good_answer idle_client 64 2 answer_send"
    by (simp_all add: good_answer_def answer_create_def answer_ok_def answer_send_def body_def verdict_def
        s_OK_def s_ERROR_def s_FAIL_def stored_def cs_def)
qed

lemma station_posts_readings_witness:
  "\<exists>d' q'. iot_post no_handler ((Some 1, wire answer_create), (Some 1, wire answer_ok), (Some 1, wire answer_ok), (Some 1, wire answer_send))
      (fst (iot_collect 3 (byh_publish 3 4 0 1 BYH_DATA0 station_state))) iot_data0 idle_parser = Some (d', q') \<and>
    events q' = post_commands 49 [0, 0, 0, 0, 0]"
proof -
  have l: "find (\<lambda>l. strstr (l @ [13]) (cs ''+HTTPCREATE:'')) answer_create = Some (cs ''+HTTPCREATE:1'')"
    by (simp add: answer_create_def cs_def)
  note a = answers[folded idle_ok(3)]
  have "iot_config iot_data0" by (simp add: iot_config_def)
  from station_posts_readings[OF station_state_ok(1,2) station_boxes station_boxes _ station_state_ok(3) station_state_ok(3) _
      idle_ok(1) this a(1,2,2,3) l, of 3 4 0 1 no_handler 1 1 1 1 BYH_DATA0]
  show ?thesis by (auto simp: cs_def readings_def BYH_DATA0_def idle_parser_def)
qed

section \<open>From the sensor to the wall\<close>

text \<open>C15: The display's texts: the three tenth values of any 16-bit reading fit their arrays with one decimal place; a
  particle count fits only below ten, and from ten on the formatting writes behind its array.\<close>

theorem led_texts_fit:
  "led_refresh (Some (mail t)) (Some (mail h)) (Some (mail n)) (Some (mail p2)) (Some (mail p10)) st =
     (if 0 \<le> sint p2 \<and> sint p2 < 10 \<and> 0 \<le> sint p10 \<and> sint p10 < 10
      then Some \<lparr>s_t1 = cs '':'' @ tenths (sint t) @ cs '' C'', s_h1 = cs '':'' @ tenths (sint h),
        s_z1 = cs '':'' @ tenths (sint n) @ cs ''db'', s_pm2_5 = cs '' 2.5:'' @ dec_int (sint p2) @ cs ''ug/m3'',
        s_pm10 = cs ''  10:'' @ dec_int (sint p10) @ cs ''ug/m3''\<rparr>
      else None)"
proof -
  have r: "- 32768 \<le> sint (mail w)" "sint (mail w) < 32768" for w
    using sint_ge[of w] sint_lt[of w] by (simp_all add: sint_mail)
  show ?thesis
    by (simp add: led_refresh_def redo_def led_tenths_fit[OF r] led_particles_fit sint_mail)
      (simp add: led_t1_def led_h1_def led_z1_def led_pm2_5_def led_pm10_def sint_mail)
qed

text \<open>C13: The loop of the display thread, whatever the other threads do between its calls and while it is parked. The wall
  shows the two particle lines for 500 turns, then the temperature, humidity and noise lines for 500 turns, and so
  on, each screen with the texts as they were in the turn that drew it; every turn transfers the wall, and the
  counter stays below 1001. A turn fails in one way only: a reading that is no single digit may overrun its text. When
  the semaphore has no unit, a turn keeps the texts. When it has one, five readings are in the box and nobody else
  uses the box meanwhile, the turn rewrites the five texts without waiting for mail, unless a particle count is negative
  or above nine: then \<^verbatim>\<open>sprintf\<close> overruns its array. The list \<open>away\<close> is what the others do, and the run is
  \<open>Waiting\<close> where that list ends; the calls of \<^verbatim>\<open>rt_kprintf\<close> are left out.\<close>

theorem led_display:
  "(dp_i x = 0 \<longrightarrow>
     (case led_turns c two box (Suc k) x away s of
        Waiting \<Rightarrow> True
      | Overrun v \<Rightarrow> \<not> (0 \<le> sint v \<and> sint v < 10)
      | Outside \<Rightarrow> False
      | Turn (y, away', s') \<Rightarrow> dp_i y = k mod 1000 + 1 \<and> LED_wf (dp_wall y) \<and> dp_sent y = LED_SendData (dp_wall y) \<and>
          (\<exists>x' away1 s1. led_turns c two box (Suc (500 * (k div 500))) x away s = Turn (x', away1, s1) \<and>
             wall_shows (k mod 1000 < 500) (dp_st x') (dp_wall y)))) \<and>
   (is_sem two (e s) \<longrightarrow> s_value (sems (e s) two) = 0 \<longrightarrow>
     (\<exists>y s'. led_turn c two box x (e # p # away) s = Turn (y, away, s') \<and> dp_st y = dp_st x)) \<and>
   (kinv (e s) \<longrightarrow> is_sem two (e s) \<longrightarrow> 0 < s_value (sems (e s) two) \<longrightarrow>
     box_holds box (map mail [t, h, n, p2, p10]) (e s) \<longrightarrow> (\<forall>a \<in> {e1, e2, e3, e4, e5}. leaves_box box a) \<longrightarrow>
     (if 0 \<le> sint p2 \<and> sint p2 < 10 \<and> 0 \<le> sint p10 \<and> sint p10 < 10
      then \<exists>y s'. led_turn c two box x (e # e1 # e2 # e3 # e4 # e5 # p # away) s = Turn (y, away, s') \<and>
        led_refresh (Some (mail t)) (Some (mail h)) (Some (mail n)) (Some (mail p2)) (Some (mail p10)) (dp_st x) = Some (dp_st y)
      else led_turn c two box x (e # e1 # e2 # e3 # e4 # e5 # p # away) s =
        Overrun (mail (if 0 \<le> sint p2 \<and> sint p2 < 10 then p10 else p2))))"
proof (intro conjI impI)
  assume i: "dp_i x = 0"
  show "case led_turns c two box (Suc k) x away s of
      Waiting \<Rightarrow> True
    | Overrun v \<Rightarrow> \<not> (0 \<le> sint v \<and> sint v < 10)
    | Outside \<Rightarrow> False
    | Turn (y, away', s') \<Rightarrow> dp_i y = k mod 1000 + 1 \<and> LED_wf (dp_wall y) \<and> dp_sent y = LED_SendData (dp_wall y) \<and>
        (\<exists>x' away1 s1. led_turns c two box (Suc (500 * (k div 500))) x away s = Turn (x', away1, s1) \<and>
           wall_shows (k mod 1000 < 500) (dp_st x') (dp_wall y))"
    using led_turns_is[of c two box "Suc k" x away s] led_turns_screen[OF i, of c two box k away s _ _ _ "dp_wall x"] screen_shows
    by (auto split: turn.splits simp del: led_turns.simps)
qed (rule led_turn_quiet led_turn_ready; assumption)+

text \<open>The sample state with a unit in a semaphore and five readings in a mailbox, seen by the display thread on its first turn.\<close>

definition display_state :: kernel where
  "display_state = upd_sem 1 (\<lambda>x. x\<lparr>s_value := 1\<rparr>) (send_all 4 (map mail [253, 612, 471, 7, 9]) station_state)"

definition display0 :: display where
  "display0 = \<lparr>dp_st = led_strings0, dp_i = 0, dp_wall = LED_Clear [], dp_sent = []\<rparr>"

lemma display_state_ok: "kinv display_state" "is_sem 1 display_state" "0 < s_value (sems display_state 1)"
  "box_holds 4 (map mail [253, 612, 471, 7, 9]) display_state"
proof -
  let ?v = "map mail [253, 612, 471, 7, 9] :: u32 list"
  have b: "is_mb 4 station_state" "mb_inv (mboxes station_state 4)" "mb_list (mboxes station_state 4) = []"
    "lists station_state (MbRecvL 4) = []" "5 \<le> unat (mb_size (mboxes station_state 4))" "lists station_state (MbSendL 4) = []"
    using station_boxes[of 4] by (simp_all add: box_ready_def)
  have l: "length (mb_list (mboxes station_state 4)) + length ?v \<le> unat (mb_size (mboxes station_state 4))" using b(3,5) by simp
  obtain f where f: "send_all 4 ?v station_state = upd_mb 4 f station_state" "kinv (upd_mb 4 f station_state)"
    "mb_inv (f (mboxes station_state 4))" "mb_list (f (mboxes station_state 4)) = ?v"
    "mb_type (f (mboxes station_state 4)) = mb_type (mboxes station_state 4)"
    using send_all_stores[OF station_state_ok(1) b(1,2,4) l] b(3) by auto
  have d: "display_state = upd_sem 1 (\<lambda>x. x\<lparr>s_value := 1\<rparr>) (upd_mb 4 f station_state)"
    by (simp only: display_state_def f(1))
  show "kinv display_state" using f(2) by (simp add: d)
  show "is_sem 1 display_state" using station_state_ok(3)[of 1] by (simp add: d is_sem_def sem_inv_def upd_sem_def upd_mb_def)
  show "0 < s_value (sems display_state 1)" by (simp add: d upd_sem_def)
  show "box_holds 4 ?v display_state"
    using f b by (simp add: d box_holds_def is_mb_def upd_sem_def upd_mb_def)
qed

lemma led_display_witness:
  "\<exists>y s'. led_turns 0 1 4 (Suc 0) display0 (replicate 7 id) display_state = Turn (y, [], s') \<and>
     dp_st y = \<lparr>s_t1 = cs '':25.3 C'', s_h1 = cs '':61.2'', s_z1 = cs '':47.1db'',
       s_pm2_5 = cs '' 2.5:7ug/m3'', s_pm10 = cs ''  10:9ug/m3''\<rparr> \<and> wall_shows True (dp_st y) (dp_wall y)"
proof -
  have l: "leaves_box 4 id" by (simp add: leaves_box_def)
  have r: "replicate 7 id = [id, id, id, id, id, id, id]" by (simp add: eval_nat_numeral)
  note d = led_display[where x = display0 and c = 0 and two = 1 and box = 4]
  have "\<exists>y s'. led_turn 0 1 4 display0 [id, id, id, id, id, id, id] display_state = Turn (y, [], s') \<and>
    led_refresh (Some (mail 253)) (Some (mail 612)) (Some (mail 471)) (Some (mail 7)) (Some (mail 9)) (dp_st display0) = Some (dp_st y)"
    using d[where e = id and ?e1.0 = id and ?e2.0 = id and ?e3.0 = id and ?e4.0 = id and ?e5.0 = id and p = id and away = "[]"
        and s = display_state and t = 253 and h = 612 and n = 471 and ?p2.0 = 7 and ?p10.0 = 9, THEN conjunct2, THEN conjunct2]
      display_state_ok l
    by (simp only: id_apply) simp
  then obtain y s' where y: "led_turn 0 1 4 display0 (replicate 7 id) display_state = Turn (y, [], s')"
    "led_refresh (Some (mail 253)) (Some (mail 612)) (Some (mail 471)) (Some (mail 7)) (Some (mail 9)) led_strings0 = Some (dp_st y)"
    unfolding r by (auto simp: display0_def)
  then have t: "led_turns 0 1 4 (Suc 0) display0 (replicate 7 id) display_state = Turn (y, [], s')" by simp
  moreover have "wall_shows True (dp_st y) (dp_wall y)"
    using d[where k = 0 and away = "replicate 7 id" and s = display_state, THEN conjunct1] t by (simp add: display0_def)
  moreover have "dp_st y = \<lparr>s_t1 = cs '':25.3 C'', s_h1 = cs '':61.2'', s_z1 = cs '':47.1db'',
       s_pm2_5 = cs '' 2.5:7ug/m3'', s_pm10 = cs ''  10:9ug/m3''\<rparr>"
    using y(2) by (auto simp: led_refresh_def redo_def into12_def led_t1_def led_h1_def led_z1_def led_pm2_5_def led_pm10_def
        sint_mail tenths_def dec_int_def dec.simps cs_def)
  ultimately show ?thesis by blast
qed

end
