(* ===== verification/Startup.thy ===== *)
theory Startup
  imports Kworld
begin

text \<open>
  The start of the system: \<^verbatim>\<open>rtthread_startup\<close> and \<^verbatim>\<open>rt_application_init\<close> of \<^verbatim>\<open>src/components.c\<close>, \<^verbatim>\<open>rt_thread_idle_init\<close> of
  \<^verbatim>\<open>src/idle.c\<close>, \<^verbatim>\<open>rt_system_timer_init\<close> of \<^verbatim>\<open>src/timer.c\<close>. The initialisation of the board comes before the model begins; it uses
  no thread. \<open>presys\<close> is the invariant \<open>wsys\<close> without a running thread, as it holds while the system is being set up.
\<close>

section \<open>Operations\<close>

definition rt_system_timer_init :: "kernel \<Rightarrow> kernel" where
  "rt_system_timer_init s = s\<lparr>timer_list := []\<rparr>"

text \<open>\<open>obj\<close> and \<open>stack\<close> are the results of the heap allocations of the main thread; without them the assertion fails.\<close>

definition rt_application_init :: "tid option \<Rightarrow> u32 option \<Rightarrow> kernel \<Rightarrow> kernel" where
  "rt_application_init obj stack s =
     (case rt_thread_create obj stack 2048 10 20 s of
        (None, s1) \<Rightarrow> fail s1
      | (Some t, s1) \<Rightarrow> snd (rt_thread_startup t s1))"

text \<open>\<open>idle\<close> is the object of the idle thread and \<open>a\<close> the address of its stack, both static.\<close>

definition rt_thread_idle_init :: "tid \<Rightarrow> u32 \<Rightarrow> kernel \<Rightarrow> kernel" where
  "rt_thread_idle_init idle a s = snd (rt_thread_startup idle (snd (rt_thread_init idle a 256 31 32 s)))"

definition rtthread_startup :: "tid option \<Rightarrow> u32 option \<Rightarrow> tid \<Rightarrow> u32 \<Rightarrow> kernel \<Rightarrow> kernel" where
  "rtthread_startup obj stack idle a s =
     rt_system_scheduler_start (rt_thread_idle_init idle a
       (rt_application_init obj stack (rt_system_scheduler_init (rt_system_timer_init s))))"

section \<open>The invariant before the first thread runs\<close>

definition presys :: "kernel \<Rightarrow> bool" where
  "presys s \<longleftrightarrow> kinv s \<and> tm_ok s \<and> sems_ok s \<and> \<not> stuck s \<and> objects_ok s"

lemma wsys_presys: "wsys s \<longleftrightarrow> presys s \<and> cur s \<noteq> None"
  by (auto simp: wsys_def ksys_def presys_def)

definition unused :: "tid \<Rightarrow> kernel \<Rightarrow> bool" where
  "unused t s \<longleftrightarrow> \<not> live (statm s t) \<and> detached s t"

lemma presysD:
  assumes "presys s"
  shows "kinv s" "kbase {} s" "kcur s" "tm_ok s" "sems_ok s" "\<not> stuck s" "objects_ok s"
  using assms by (simp_all add: presys_def kinv_def)

lemma presysI:
  assumes "presys s" "kinv s'" "tm_ok s'" "stuck s' = stuck s" "sems s' = sems s" "still s s'"
    "\<And>n. set (lists s' (SemL n)) \<subseteq> set (lists s (SemL n))"
  shows "presys s'"
  using assms(2-4) sems_ok_shrink[OF presysD(5)[OF assms(1)] assms(5,7)] objects_ok_still[OF presysD(7)[OF assms(1)] assms(6)]
    presysD(6)[OF assms(1)] by (simp add: presys_def)

lemma unused_timer: "presys s \<Longrightarrow> unused t s \<Longrightarrow> ThreadTimer t \<notin> set (timer_list s)"
  using timer_off[of "{}" s t] by (auto simp: unused_def live_def presys_def kinv_def)

text \<open>The thread object of an unused thread may be written, as long as the thread stays dead.\<close>

lemma presys_upd_unused:
  assumes "presys s" "unused t s" "\<not> live (statm (upd_thr t f s) t)"
  shows "presys (upd_thr t f s)" "unused t (upd_thr t f s)"
proof -
  note d = presysD[OF assms(1)]
  have o: "statm (upd_thr t f s) u = statm s u" if "u \<noteq> t" for u using that by (simp add: upd_thr_def statm_def)
  have "kbase {} (upd_thr t f s)"
    by (rule kbase_upd_free[OF d(2) _ unused_timer[OF assms(1,2)]]) (use assms(2,3) in \<open>auto simp: unused_def live_def\<close>)
  moreover have "statm (upd_thr t f s) u = RT_THREAD_RUNNING \<Longrightarrow> statm s u = RT_THREAD_RUNNING" for u
    using o[of u] assms(3) by (cases "u = t") (auto simp: live_def)
  then have "kcur (upd_thr t f s)" using d(3) by (auto simp: kcur_def kframe)
  ultimately have "kinv (upd_thr t f s)" by (simp add: kinv_def)
  then show "presys (upd_thr t f s)"
    by (rule presysI[OF assms(1)]) (use d(4) still_upd_thr in \<open>simp_all add: kframe\<close>)
  show "unused t (upd_thr t f s)" using assms(2,3) by (simp add: unused_def detached_def kframe)
qed

lemma presys_timer_init:
  assumes "presys s" "unused t s"
  shows "presys (rt_timer_init (ThreadTimer t) 0 0 s)" "unused t (rt_timer_init (ThreadTimer t) 0 0 s)"
proof -
  note d = presysD[OF assms(1)]
  have off: "ThreadTimer t \<notin> set (timer_list s)" by (rule unused_timer[OF assms])
  let ?s = "rt_timer_init (ThreadTimer t) 0 0 s"
  have "kbase {} ?s" unfolding rt_timer_init_def
    by (rule kbase_upd_timer_free[OF d(2) _ off]) (use assms(2) in \<open>simp add: unused_def\<close>)
  moreover have "kcur ?s" using d(3) by (simp add: kcur_def rt_timer_init_def kframe)
  ultimately have k: "kinv ?s" by (simp add: kinv_def)
  have "timer_sorted (tick s) (tmo ?s) (timer_list s) = timer_sorted (tick s) (tmo s) (timer_list s)"
    using off by (intro timer_sorted_cong) (auto simp: tmo_def rt_timer_init_def kframe)
  then have t: "tm_ok ?s" using d(4) by (auto simp: tm_ok_def timers_idle_def one_shot_def rt_timer_init_def kframe)
  show "presys ?s"
    by (rule presysI[OF assms(1) k t]) (simp_all add: rt_timer_init_def upd_timer_def still_def)
  show "unused t ?s" using assms(2) by (simp add: unused_def detached_def rt_timer_init_def kframe)
qed

section \<open>Creating and starting threads\<close>

text \<open>A stack with room for a frame, not at the top of the address space.\<close>

definition stack_fits :: "u32 \<Rightarrow> u32 \<Rightarrow> bool" where
  "stack_fits a sz \<longleftrightarrow> a \<noteq> 0 \<and> unat a + unat sz < 2 ^ 32 - 8 \<and> 72 < unat sz"

lemma thread_init_common_ready:
  assumes "presys s" "unused t s" "rt_object_get_type (t_type (thr s t)) = RT_Object_Class_Thread" "p < 32" "stack_fits a sz"
  shows "fst (thread_init_common t a sz p n s) = RT_EOK" "presys (snd (thread_init_common t a sz p n s))"
    "startable (snd (thread_init_common t a sz p n s)) t" "unused t (snd (thread_init_common t a sz p n s))"
    "t_init_priority (thr (snd (thread_init_common t a sz p n s)) t) = p"
proof -
  let ?u = "upd_thr t (thread_init_fields a sz p n) s"
  have e: "thread_init_common t a sz p n s = (RT_EOK, rt_timer_init (ThreadTimer t) 0 0 ?u)"
    using assms(4) by (simp add: thread_init_common_def)
  have st: "statm ?u t = RT_THREAD_INIT" by (simp add: upd_thr_def statm_def thread_init_fields_def)
  have u: "presys ?u" "unused t ?u"
    by (rule presys_upd_unused[OF assms(1,2)]; simp add: st live_def)+
  note i = presys_timer_init[OF u]
  show "fst (thread_init_common t a sz p n s) = RT_EOK" "presys (snd (thread_init_common t a sz p n s))"
    "unused t (snd (thread_init_common t a sz p n s))" by (simp_all add: e i)
  show "t_init_priority (thr (snd (thread_init_common t a sz p n s)) t) = p"
    by (simp add: e rt_timer_init_def kframe upd_thr_def thread_init_fields_def)
  have "rt_scheduler_stack_check (thread_init_fields a sz p n (thr s t)) \<noteq> StackOverflow"
    using stack_init_ok[of a sz] assms(5)
    by (auto simp: rt_scheduler_stack_check_def thread_init_fields_def stack_fits_def)
  then show "startable (snd (thread_init_common t a sz p n s)) t"
    using assms(3,4) st unfolding startable_def
    by (simp add: e rt_timer_init_def kframe upd_thr_def thread_init_fields_def
        rt_object_get_type_def rt_object_is_systemobject_def)
qed

text \<open>What the creation of a thread leaves as it was.\<close>

definition same_world :: "tid \<Rightarrow> kernel \<Rightarrow> kernel \<Rightarrow> bool" where
  "same_world t s s' \<longleftrightarrow> lists s' = lists s \<and> cur s' = cur s \<and> lock_nest s' = lock_nest s \<and> int_nest s' = int_nest s \<and>
     (\<forall>u. u \<noteq> t \<longrightarrow> thr s' u = thr s u) \<and> sems s' = sems s \<and> mutexes s' = mutexes s \<and> events s' = events s \<and>
     mboxes s' = mboxes s \<and> mqs s' = mqs s \<and> mps s' = mps s \<and> tick s' = tick s"

lemma same_world_trans: "same_world t s s1 \<Longrightarrow> same_world t s1 s2 \<Longrightarrow> same_world t s s2"
  by (simp add: same_world_def)

lemma same_world_steps [simp]:
  "same_world t s (upd_thr t f s)" "same_world t s (rt_timer_init i m fl s)" "same_world t s (fail s)"
  by (simp_all add: same_world_def upd_thr_def rt_timer_init_def upd_timer_def fail_def)

lemma same_world_init_common: "same_world t s (snd (thread_init_common t a sz p n s))"
  using same_world_trans[OF same_world_steps(1) same_world_steps(2)] by (simp add: thread_init_common_def)

lemma thread_init_ready:
  assumes "presys s" "unused t s" "p < 32" "stack_fits a sz"
  shows "fst (rt_thread_init t a sz p n s) = RT_EOK" "presys (snd (rt_thread_init t a sz p n s))"
    "startable (snd (rt_thread_init t a sz p n s)) t" "t_init_priority (thr (snd (rt_thread_init t a sz p n s)) t) = p"
    "same_world t s (snd (rt_thread_init t a sz p n s))"
proof -
  let ?u = "upd_thr t (\<lambda>th. th\<lparr>t_type := RT_Object_Class_Thread OR RT_Object_Class_Static\<rparr>) s"
  have e: "rt_thread_init t a sz p n s = thread_init_common t a sz p n ?u"
    using assms(4) by (simp add: rt_thread_init_def stack_fits_def)
  have st: "statm ?u t = statm s t" by (simp add: upd_thr_def statm_def)
  have u: "presys ?u" "unused t ?u"
    by (rule presys_upd_unused[OF assms(1,2)]; use assms(2) st in \<open>simp add: unused_def\<close>)+
  have ty: "rt_object_get_type (t_type (thr ?u t)) = RT_Object_Class_Thread" by (simp add: upd_thr_def rt_object_get_type_def)
  note r = thread_init_common_ready[OF u ty assms(3,4), of n]
  show "fst (rt_thread_init t a sz p n s) = RT_EOK" "presys (snd (rt_thread_init t a sz p n s))"
    "startable (snd (rt_thread_init t a sz p n s)) t" "t_init_priority (thr (snd (rt_thread_init t a sz p n s)) t) = p"
    unfolding e by (rule r)+
  show "same_world t s (snd (rt_thread_init t a sz p n s))"
    unfolding e by (rule same_world_trans[OF same_world_steps(1) same_world_init_common])
qed

lemma thread_create_ready:
  assumes "presys s" "unused t s" "p < 32" "stack_fits a sz"
  shows "fst (rt_thread_create (Some t) (Some a) sz p n s) = Some t" "presys (snd (rt_thread_create (Some t) (Some a) sz p n s))"
    "startable (snd (rt_thread_create (Some t) (Some a) sz p n s)) t"
    "t_init_priority (thr (snd (rt_thread_create (Some t) (Some a) sz p n s)) t) = p"
    "same_world t s (snd (rt_thread_create (Some t) (Some a) sz p n s))"
proof -
  let ?u = "upd_thr t (\<lambda>th. th\<lparr>t_type := RT_Object_Class_Thread, t_event_set := 0, t_event_info := 0\<rparr>) s"
  have e: "rt_thread_create (Some t) (Some a) sz p n s = (Some t, snd (thread_init_common t a sz p n ?u))"
    by (simp add: rt_thread_create_def)
  have st: "statm ?u t = statm s t" by (simp add: upd_thr_def statm_def)
  have u: "presys ?u" "unused t ?u"
    by (rule presys_upd_unused[OF assms(1,2)]; use assms(2) st in \<open>simp add: unused_def\<close>)+
  have ty: "rt_object_get_type (t_type (thr ?u t)) = RT_Object_Class_Thread" by (simp add: upd_thr_def rt_object_get_type_def)
  note r = thread_init_common_ready[OF u ty assms(3,4), of n]
  show "fst (rt_thread_create (Some t) (Some a) sz p n s) = Some t" "presys (snd (rt_thread_create (Some t) (Some a) sz p n s))"
    "startable (snd (rt_thread_create (Some t) (Some a) sz p n s)) t"
    "t_init_priority (thr (snd (rt_thread_create (Some t) (Some a) sz p n s)) t) = p"
    by (simp_all add: e r)
  show "same_world t s (snd (rt_thread_create (Some t) (Some a) sz p n s))"
    unfolding e by (simp add: same_world_trans[OF same_world_steps(1) same_world_init_common])
qed

text \<open>Without memory for the object nothing happens, without memory for the stack the object is given back.\<close>

lemma thread_create_fails:
  assumes "presys s" "\<And>t. obj = Some t \<Longrightarrow> unused t s" "obj = None \<or> stack = None"
  shows "fst (rt_thread_create obj stack sz p n s) = None" "presys (snd (rt_thread_create obj stack sz p n s))"
    "cur (snd (rt_thread_create obj stack sz p n s)) = cur s"
proof -
  have "fst (rt_thread_create obj stack sz p n s) = None \<and> presys (snd (rt_thread_create obj stack sz p n s)) \<and>
    cur (snd (rt_thread_create obj stack sz p n s)) = cur s"
  proof (cases obj)
    case (Some t)
    let ?u = "upd_thr t (\<lambda>th. th\<lparr>t_type := RT_Object_Class_Thread, t_event_set := 0, t_event_info := 0\<rparr>) s"
    let ?v = "upd_thr t (\<lambda>th. th\<lparr>t_type := 0\<rparr>) ?u"
    have st: "statm ?u t = statm s t" "statm ?v t = statm s t" by (simp_all add: upd_thr_def statm_def)
    have nl: "\<not> live (statm s t)" using assms(2)[OF Some] by (simp add: unused_def)
    have u: "presys ?u" "unused t ?u" by (rule presys_upd_unused[OF assms(1) assms(2)[OF Some]]; use st nl in simp)+
    have "presys ?v" by (rule presys_upd_unused[OF u]) (use st nl in simp)
    then show ?thesis using Some assms(3) by (simp add: rt_thread_create_def kframe)
  qed (use assms(1) in \<open>simp add: rt_thread_create_def\<close>)
  then show "fst (rt_thread_create obj stack sz p n s) = None" "presys (snd (rt_thread_create obj stack sz p n s))"
    "cur (snd (rt_thread_create obj stack sz p n s)) = cur s" by simp_all
qed

text \<open>A thread that is started becomes ready behind the others of its priority; the scheduler runs when a thread runs.\<close>

definition readied :: "tid \<Rightarrow> kernel \<Rightarrow> kernel" where
  "readied t s = snd (rt_thread_resume t (started t s))"

lemma readied_effect:
  assumes "presys s" "startable s t"
  defines "s' \<equiv> readied t s"
  shows "presys s'" "cur s' = cur s" "u \<noteq> t \<Longrightarrow> statm s' u = statm s u" "prio s' t = unat (t_init_priority (thr s t))"
    "u \<noteq> t \<Longrightarrow> prio s' u = prio s u" "awake s' t" "still s s'"
    "cur s \<noteq> Some t \<Longrightarrow> lists s' l = (if l = ReadyL (unat (t_init_priority (thr s t))) then lists s l @ [t] else lists s l)"
    "lock_nest s' = lock_nest s" "events s' = events s" "sems s' = sems s" "mboxes s' = mboxes s" "int_nest s' = int_nest s"
proof -
  note d = presysD[OF assms(1)]
  note st = started_kinv[OF d(1) assms(2)]
  note r = resume_effect[OF st(1,2), folded readied_def]
  have e: "sems (started t s) = sems s" "stuck (started t s) = stuck s" "mboxes (started t s) = mboxes s"
    "events (started t s) = events s" "lock_nest (started t s) = lock_nest s" "int_nest (started t s) = int_nest s"
    by (simp_all add: started_def upd_thr_def)
  have tm: "tm_ok (readied t s)" using tm_ok_resume[of "started t s" t] d(4) by (simp add: readied_def started_def kframe)
  have "still s (started t s)" by (simp add: started_def still_upd_thr)
  also have "still (started t s) (readied t s)" unfolding readied_def by (rule still_resume[OF st(1)])
  finally have sl: "still s (readied t s)" .
  show "still s s'" unfolding s'_def by (rule sl)
  show "presys s'" unfolding s'_def
    by (rule presysI[OF assms(1) r(1) tm _ _ sl]) (use r e st(6) in auto)
  show "cur s' = cur s" using r(2) st(3) by (simp add: s'_def)
  show "statm s' u = statm s u" if "u \<noteq> t" using r(5)[OF that] st(5)[OF that] by (simp add: s'_def)
  show "prio s' t = unat (t_init_priority (thr s t))" using r(14) st(4) by (simp add: s'_def)
  show "prio s' u = prio s u" if "u \<noteq> t" using r(14) that by (simp add: s'_def started_def upd_thr_def prio_def)
  show "awake s' t" using r(3) by (simp add: s'_def)
  show "events s' = events s" "sems s' = sems s" "mboxes s' = mboxes s" using r e by (simp_all add: s'_def)
  let ?z = "snd (rt_timer_stop (ThreadTimer t) (list_remove t (started t s)))"
  have ty: "rt_object_get_type (t_type (thr (started t s) t)) = RT_Object_Class_Thread"
    using assms(2) by (simp add: startable_def started_def upd_thr_def)
  have s': "s' = rt_schedule_insert_thread t ?z" using ty st(2) by (simp add: s'_def readied_def rt_thread_resume_def Let_def)
  show "lock_nest s' = lock_nest s" using e(5) by (simp add: s' insert_thread_sel kframe)
  have iz: "int_nest ?z = int_nest s"
    using e(6) by (simp add: rt_timer_stop_def timer_unlink_def upd_timer_def fail_def list_remove_def)
  have ii: "int_nest (rt_schedule_insert_thread t k) = int_nest k" for k
    by (simp add: rt_schedule_insert_thread_def set_stat_def upd_thr_def list_insert_before_def Let_def)
  show "int_nest s' = int_nest s" unfolding s' ii by (rule iz)
  have det: "detached s t" using not_live_detached[OF d(2)] assms(2) by (simp add: startable_def)
  have lz: "lists ?z m = lists s m" for m
    using det removeAll_id_if_notin[of t "lists s m"] st(6) by (simp add: kframe detached_def)
  show "lists s' l = (if l = ReadyL (unat (t_init_priority (thr s t))) then lists s l @ [t] else lists s l)" if "cur s \<noteq> Some t"
  proof -
    have c: "cur ?z \<noteq> Some t" using that st(3) by (simp add: kframe)
    have p: "prio ?z t = unat (t_init_priority (thr s t))" using st(4) by (simp add: kframe)
    show ?thesis unfolding s' insert_thread_sel(9)[OF c] p by (simp add: lz)
  qed
qed

lemma startup_readied:
  assumes "startable s t"
  shows "snd (rt_thread_startup t s) = (if cur (readied t s) \<noteq> None then rt_schedule (readied t s) else readied t s)"
  by (simp add: rt_thread_startup_unfold[OF assms] readied_def Let_def)

lemma presys_startup:
  assumes "presys s" "startable s t"
  shows "presys (snd (rt_thread_startup t s))" "cur (snd (rt_thread_startup t s)) = None \<longleftrightarrow> cur s = None"
proof -
  note r = readied_effect[OF assms]
  have w: "cur s \<noteq> None \<Longrightarrow> wsys (rt_schedule (readied t s))" using wsys_schedule[of "readied t s"] r(1,2) by (simp add: wsys_presys)
  show "presys (snd (rt_thread_startup t s))" "cur (snd (rt_thread_startup t s)) = None \<longleftrightarrow> cur s = None"
    using r(1,2) w by (auto simp: startup_readied[OF assms(2)] wsys_presys)
qed

section \<open>The first thread\<close>

lemma scheduler_start_runs:
  assumes "presys s" "cur s = None" "lists s (ReadyL hp) = t # ts" "hp < 32" "\<And>q. q < hp \<Longrightarrow> lists s (ReadyL q) = []"
  defines "s' \<equiv> rt_system_scheduler_start s"
  shows "wsys s'" "running s' t" "lists s' l = removeAll t (lists s l)" "u \<noteq> t \<Longrightarrow> statm s' u = statm s u"
    "prio s' = prio s" "lock_nest s' = lock_nest s" "sems s' = sems s" "mboxes s' = mboxes s" "int_nest s' = int_nest s"
proof -
  note d = presysD[OF assms(1)]
  have g: "ready_group s \<noteq> 0"
  proof -
    have "bit (ready_group s) hp" using kbaseD(3)[OF d(2)] assms(3,4) by (simp add: bits_ok_def)
    then show ?thesis by auto
  qed
  have h: "get_highest_priority_thread s = Some (t, hp)"
  proof -
    obtain u h us where u: "get_highest_priority_thread s = Some (u, h)" "lists s (ReadyL h) = u # us" "h < 32" "\<forall>q < h. lists s (ReadyL q) = []"
      using get_highest_spec[OF kbaseD(3)[OF d(2)] g] by blast
    have "h = hp" using u(2,4) assms(3,5) by (metis linorder_neqE_nat list.distinct(1))
    with u assms(3) show ?thesis by simp
  qed
  let ?c = "s\<lparr>cur := Some t\<rparr>"
  let ?r = "rt_schedule_remove_thread t ?c"
  have s': "s' = upd_thr t (\<lambda>th. th\<lparr>t_stat := RT_THREAD_RUNNING\<rparr>) ?r" by (simp add: s'_def rt_system_scheduler_start_def h)
  have rd: "statm s t = RT_THREAD_READY" using members_okD(1)[OF kbaseD(2)[OF d(2)], of t "ReadyL hp" hp] assms(3) by simp
  have ok: "thread_ok s t" using kbaseD(7)[OF d(2)] rd by (simp add: live_def)
  have stt: "statm s' u = (if u = t then RT_THREAD_RUNNING else statm s u)" for u
    by (simp add: s' upd_thr_def statm_def rt_schedule_remove_thread_def list_remove_def Let_def)
  have pr: "prio s' = prio s" by (simp add: s' upd_thr_def prio_def rt_schedule_remove_thread_def list_remove_def Let_def fun_eq_iff)
  have ls: "lists s' m = removeAll t (lists s m)" for m by (simp add: s' kframe)
  have b: "kbase {t} ?r" using kbase_remove_thread[of "{}" ?c t] d(2) ok by (simp add: kframe)
  have off: "ThreadTimer t \<notin> set (timer_list ?r)" using timer_off[OF d(2)] rd by (simp add: kframe)
  have tok: "thread_ok s' t"
    using ok by (simp add: s' thread_ok_def prio_def upd_thr_def rt_scheduler_stack_check_def rt_schedule_remove_thread_def
 list_remove_def Let_def split: if_splits)
  have "kbase {t} s'" unfolding s'
    by (rule kbase_upd_free[OF b kbaseD(5)[OF b] off]) (use tok in \<open>simp_all add: s'\<close>)
  then have kb: "kbase {} s'" by (rule kbase_drop) (simp add: stt)
  have "statm s u \<noteq> RT_THREAD_RUNNING" for u using d(3) assms(2) by (auto simp: kcur_def)
  moreover have "cur s' = Some t" by (simp add: s' kframe)
  ultimately have "kcur s'" by (auto simp: kcur_def stt ls split: if_splits)
  with kb have k: "kinv s'" by (simp add: kinv_def)
  have sel: "timers s' = timers s" "timer_list s' = timer_list s" "stuck s' = stuck s" by (simp_all add: s' kframe)
  have tk: "tick s' = tick s" "sems s' = sems s" "mutexes s' = mutexes s" "mboxes s' = mboxes s" "mqs s' = mqs s"
    "int_nest s' = int_nest s" "cur s' = Some t" "lock_nest s' = lock_nest s"
    by (simp_all add: s' upd_thr_def rt_schedule_remove_thread_def list_remove_def Let_def)
  have "tm_ok s'" using d(4) tm_ok_frame[OF sel(1,2) tk(1)] by simp
  moreover have "still s s'" using tk by (auto simp: still_def ls)
  ultimately have "presys s'" by (intro presysI[OF assms(1) k]) (use tk sel in \<open>auto simp: ls\<close>)
  then show "wsys s'" by (simp add: wsys_presys tk)
  show "running s' t" by (simp add: running_def tk stt)
  show "lists s' l = removeAll t (lists s l)" "prio s' = prio s" "lock_nest s' = lock_nest s" "sems s' = sems s"
    "mboxes s' = mboxes s" "int_nest s' = int_nest s" by (simp_all add: ls pr tk)
  show "statm s' u = statm s u" if "u \<noteq> t" using that by (simp add: stt)
qed

section \<open>The boot\<close>

text \<open>Memory after the reset: no thread runs, every control block is zero; the ready lists and the timer list are not set up.\<close>

definition cold :: "kernel \<Rightarrow> bool" where
  "cold s \<longleftrightarrow> cur s = None \<and> \<not> stuck s \<and> (\<forall>t. statm s t = RT_THREAD_INIT) \<and> one_shot s \<and>
     (\<forall>l. wait_list l \<longrightarrow> lists s l = []) \<and> (\<forall>p. 32 \<le> p \<longrightarrow> lists s (ReadyL p) = []) \<and>
     (\<forall>n. \<not> is_sem n s \<and> \<not> is_mutex n s \<and> \<not> is_mb n s \<and> \<not> is_mq n s)"

definition prepared :: "kernel \<Rightarrow> kernel" where
  "prepared s = rt_system_scheduler_init (rt_system_timer_init s)"

lemma prepared_presys:
  assumes "cold s"
  shows "presys (prepared s)" "lists (prepared s) l = []" "cur (prepared s) = None" "unused t (prepared s)"
    "lock_nest (prepared s) = 0"
proof -
  let ?s = "prepared s"
  show l: "lists ?s l = []" for l
    using assms by (cases l) (simp_all add: cold_def prepared_def rt_system_scheduler_init_def rt_system_timer_init_def)
  have sel: "ready_group ?s = 0" "timer_list ?s = []" "cur ?s = cur s" "thr ?s = thr s" "timers ?s = timers s" "stuck ?s = stuck s"
    "sems ?s = sems s" "mutexes ?s = mutexes s" "mboxes ?s = mboxes s" "mqs ?s = mqs s" "lock_nest ?s = 0"
    by (simp_all add: prepared_def rt_system_scheduler_init_def rt_system_timer_init_def)
  have st: "statm ?s t = RT_THREAD_INIT" for t using assms sel by (simp add: cold_def statm_def)
  show "cur ?s = None" "lock_nest ?s = 0" using assms sel by (simp_all add: cold_def)
  show "unused t ?s" by (simp add: unused_def st live_def detached_def l)
  have "kbase {} ?s" by (simp add: kbase_def kbase_parts l st live_def sel)
  moreover have "kcur ?s" by (simp add: kcur_def st l)
  moreover have "tm_ok ?s" using assms sel by (simp add: tm_ok_def timers_idle_def timer_sorted_def one_shot_def cold_def)
  moreover have "sems_ok ?s" "objects_ok ?s"
    using assms sel by (simp_all add: sems_ok_def objects_ok_def cold_def is_sem_def is_mutex_def is_mb_def is_mq_def)
  ultimately show "presys ?s" using assms sel by (simp add: presys_def kinv_def cold_def)
qed

lemma awake_not_cur: "kcur s \<Longrightarrow> cur s = None \<Longrightarrow> awake s t \<Longrightarrow> statm s t = RT_THREAD_READY"
  by (auto simp: awake_def kcur_def)

lemma boot_runs:
  assumes "cold s" "m \<noteq> idle" "stack_fits b 2048" "stack_fits a 256"
  defines "s' \<equiv> rtthread_startup (Some m) (Some b) idle a s"
  shows "wsys s'" "running s' m" "prio s' m = 10" "statm s' idle = RT_THREAD_READY" "prio s' idle = 31"
    "lists s' l = (if l = ReadyL 31 then [idle] else [])" "t \<noteq> m \<Longrightarrow> t \<noteq> idle \<Longrightarrow> unused t s'" "lock_nest s' = 0"
    "int_nest s' = int_nest s" "sems s' = sems s" "mboxes s' = mboxes s"
proof -
  note p = prepared_presys[OF assms(1)]
  let ?p = "prepared s"
  let ?c = "snd (rt_thread_create (Some m) (Some b) 2048 10 20 ?p)"
  note c = thread_create_ready[OF p(1,4), of 10 b 2048 m 20, simplified, OF assms(3)]
  let ?m = "readied m ?c"
  note r = readied_effect[OF c(2,3)]
  have cc: "cur ?c = None" "lists ?c = lists ?p" "lock_nest ?c = 0" "int_nest ?c = int_nest ?p" "sems ?c = sems ?p" "mboxes ?c = mboxes ?p"
    using c(5) p(3,5) by (simp_all add: same_world_def)
  have mc: "cur ?m = None" using r(2) cc by simp
  have app: "rt_application_init (Some m) (Some b) ?p = ?m"
  proof -
    obtain k where k: "rt_thread_create (Some m) (Some b) 2048 10 20 ?p = (Some m, k)" using c(1) by (metis prod.collapse)
    then have "startable k m" "cur (readied m k) = None" using c(3) mc by simp_all
    then show ?thesis by (simp add: rt_application_init_def k startup_readied)
  qed
  have lm: "lists ?m l = (if l = ReadyL 10 then [m] else [])" for l
    using r(8)[of l] cc p(2) c(4) by simp
  have sm: "statm ?m m = RT_THREAD_READY" by (rule awake_not_cur[OF presysD(3)[OF r(1)] mc r(6)])
  have stc: "statm ?c t = RT_THREAD_INIT" if "t \<noteq> m" for t
  proof -
    have "statm ?c t = statm ?p t" using c(5) that by (simp add: same_world_def statm_def)
    moreover have "statm ?p t = RT_THREAD_INIT" using assms(1)
      by (simp add: cold_def statm_def prepared_def rt_system_scheduler_init_def rt_system_timer_init_def)
    ultimately show ?thesis by simp
  qed
  have ui: "unused t ?m" if "t \<noteq> m" for t
    using r(3)[of t] stc[OF that] that by (simp add: unused_def live_def detached_def lm)
  let ?i = "snd (rt_thread_init idle a 256 31 32 ?m)"
  note i = thread_init_ready[OF r(1) ui[OF not_sym[OF assms(2)]], of 31 a 256 32, simplified, OF assms(4)]
  note q = readied_effect[OF i(2,3)]
  let ?q = "readied idle ?i"
  have ic: "cur ?i = None" "lists ?i = lists ?m" "lock_nest ?i = 0" "int_nest ?i = int_nest ?m" "sems ?i = sems ?m" "mboxes ?i = mboxes ?m"
    using i(5) mc r(9) cc by (simp_all add: same_world_def)
  have qc: "cur ?q = None" using q(2) ic by simp
  have idl: "rt_thread_idle_init idle a ?m = ?q" using qc by (simp add: rt_thread_idle_init_def startup_readied[OF i(3)])
  have lq: "lists ?q l = (if l = ReadyL 10 then [m] else if l = ReadyL 31 then [idle] else [])" for l
    using q(8)[of l] ic lm i(4) by simp
  have sq: "statm ?q idle = RT_THREAD_READY" by (rule awake_not_cur[OF presysD(3)[OF q(1)] qc q(6)])
  have s': "s' = rt_system_scheduler_start ?q"
    by (simp add: s'_def rtthread_startup_def prepared_def[symmetric] app idl)
  have first: "lists ?q (ReadyL 10) = m # []" by (simp add: lq)
  have none: "lists ?q (ReadyL h) = []" if "h < 10" for h using that by (simp add: lq)
  note f = scheduler_start_runs[OF q(1) qc first _ none, simplified, folded s']
  show "wsys s'" "running s' m" by (rule f)+
  show "lists s' l = (if l = ReadyL 31 then [idle] else [])" using assms(2) by (simp add: f(3) lq)
  show "statm s' idle = RT_THREAD_READY" using f(4)[of idle] assms(2) sq by simp
  have im: "prio ?i m = prio ?m m" using i(5) assms(2) by (simp add: same_world_def prio_def)
  show "prio s' m = 10" using f(5) q(5)[OF assms(2)] im r(4) c(4) by simp
  show "prio s' idle = 31" using f(5) q(4) i(4) by simp
  show "lock_nest s' = 0" "int_nest s' = int_nest s" "sems s' = sems s" "mboxes s' = mboxes s"
    using f(6-9) q(9,11-13) ic r(9,11-13) cc
    by (simp_all add: prepared_def rt_system_scheduler_init_def rt_system_timer_init_def)
  show "unused t s'" if "t \<noteq> m" "t \<noteq> idle"
  proof -
    have "statm ?i t = statm ?m t" using i(5) that by (simp add: same_world_def statm_def)
    then have "statm s' t = RT_THREAD_INIT" using f(4)[OF that(1)] q(3)[OF that(2)] r(3)[OF that(1)] stc[OF that(1)] by simp
    then show ?thesis using that by (simp add: unused_def live_def detached_def f(3) lq)
  qed
qed

end
