(* ===== verification/Ksystem.thy ===== *)
theory Ksystem
  imports Startup
begin

text \<open>
  The whole kernel from power-up. \<open>sstep\<close> adds to the calls of \<open>Kworld\<close> the creation, initialisation, detaching, deletion and
  control of threads, semaphores, mutexes, events, mailboxes and message queues; \<open>sreach\<close> are the states that a system reaches
  after \<open>rtthread_startup\<close>. The guards are the documented conditions of use: an object that is initialised is not in use, a stack
  has room for a frame, what is deleted was created and what is detached was initialised.
\<close>

section \<open>Waking everybody\<close>

lemma wsys_resume_all:
  assumes "wsys s" "wait_list l"
  shows "wsys (rt_ipc_list_resume_all l s)" "lists (rt_ipc_list_resume_all l s) l = []"
    "sems (rt_ipc_list_resume_all l s) = sems s" "mutexes (rt_ipc_list_resume_all l s) = mutexes s"
    "mboxes (rt_ipc_list_resume_all l s) = mboxes s" "mqs (rt_ipc_list_resume_all l s) = mqs s"
    "wait_list l' \<Longrightarrow> lists (rt_ipc_list_resume_all l s) l' = (if l' = l then [] else lists s l')"
proof -
  have k: "ksys s" "objects_ok s" using assms(1) by (simp_all add: wsys_def)
  note d = ksysD[OF k(1)]
  note a = resume_all_effect[OF d(1) assms(2), unfolded all_resumed_def]
  let ?a = "rt_ipc_list_resume_all l s"
  have "ksys ?a" using ksys_resume_all[OF k(1) assms(2)] a d(4) by (auto simp: rt_ipc_list_resume_all_def)
  moreover have "still s ?a" using a by (simp add: still_def)
  ultimately show "wsys ?a" using objects_ok_still[OF k(2)] by (simp add: wsys_def)
  show "lists ?a l = []" "sems ?a = sems s" "mutexes ?a = mutexes s" "mboxes ?a = mboxes s" "mqs ?a = mqs s"
    "wait_list l' \<Longrightarrow> lists ?a l' = (if l' = l then [] else lists s l')" using a assms(2) by simp_all
qed

section \<open>Changing an object\<close>

lemma wsys_upd_sem:
  assumes "wsys s" "is_sem n (upd_sem n f s) \<Longrightarrow> sem_inv n (upd_sem n f s)"
  shows "wsys (upd_sem n f s)"
proof -
  have k: "ksys s" "objects_ok s" using assms(1) by (simp_all add: wsys_def)
  have "sem_inv m (upd_sem n f s)" if "is_sem m (upd_sem n f s)" for m
  proof (cases "m = n")
    case False
    then have "sem_inv m s" using that ksysD(3)[OF k(1)] by (simp add: sems_ok_def is_sem_def kframe)
    with False show ?thesis by (simp add: sem_inv_def is_sem_def kframe)
  qed (use that assms(2) in simp)
  then have "sems_ok (upd_sem n f s)" by (simp add: sems_ok_def)
  then show ?thesis using k objects_ok_still[OF k(2) still_upd_sem] by (simp add: wsys_def ksys_def kframe)
qed

lemma wsys_upd_mutex:
  assumes "wsys s" "is_mutex n (upd_mutex n f s) \<Longrightarrow> mutex_inv n (upd_mutex n f s)"
  shows "wsys (upd_mutex n f s)"
proof -
  have k: "ksys s" "objects_ok s" using assms(1) by (simp_all add: wsys_def)
  have "mutex_inv m (upd_mutex n f s)" if "is_mutex m (upd_mutex n f s)" for m
  proof (cases "m = n")
    case False
    then have "mutex_inv m s" using that k(2) by (simp add: objects_ok_def is_mutex_def kframe)
    with False show ?thesis by (simp add: mutex_inv_def is_mutex_def kframe cong: option.case_cong)
  qed (use that assms(2) in simp)
  then show ?thesis using k by (simp add: wsys_def objects_ok_def is_mb_def is_mq_def kframe)
qed

lemma wsys_upd_mb':
  assumes "wsys s" "is_mb n (upd_mb n f s) \<Longrightarrow> mb_inv (f (mboxes s n))"
  shows "wsys (upd_mb n f s)"
proof -
  have "mutexes (upd_mb n f s) = mutexes s" "mqs (upd_mb n f s) = mqs s" by (simp_all add: upd_mb_def)
  with assms show ?thesis by (simp add: wsys_def objects_ok_def mutex_inv_def is_mutex_def is_mb_def is_mq_def kframe cong: option.case_cong)
qed

lemma wsys_upd_mq':
  assumes "wsys s" "is_mq n (upd_mq n f s) \<Longrightarrow> mq_inv (f (mqs s n))"
  shows "wsys (upd_mq n f s)"
proof -
  have "mutexes (upd_mq n f s) = mutexes s" "mboxes (upd_mq n f s) = mboxes s" by (simp_all add: upd_mq_def)
  with assms show ?thesis by (simp add: wsys_def objects_ok_def mutex_inv_def is_mutex_def is_mb_def is_mq_def kframe cong: option.case_cong)
qed

lemma object_init_empty: "lists s l = [] \<Longrightarrow> rt_ipc_object_init l s = s"
  by (simp add: rt_ipc_object_init_def fun_upd_idem)

lemma type_bits: "rt_object_get_type 0 \<noteq> 2" "rt_object_get_type 0 \<noteq> 3" "rt_object_get_type 0 \<noteq> 5" "rt_object_get_type 0 \<noteq> 6"
  by (simp_all add: rt_object_get_type_def)

section \<open>Threads\<close>

lemma wsys_same_world: "wsys s \<Longrightarrow> presys s' \<Longrightarrow> cur s' = cur s \<Longrightarrow> wsys s'"
  by (simp add: wsys_presys)

lemma wsys_thread_init: "wsys s \<Longrightarrow> unused t s \<Longrightarrow> p < 32 \<Longrightarrow> stack_fits a sz \<Longrightarrow> wsys (snd (rt_thread_init t a sz p n s))"
  using thread_init_ready[of s t p a sz n] by (auto simp: wsys_presys same_world_def)

lemma wsys_thread_create:
  assumes "wsys s" "\<And>t. obj = Some t \<Longrightarrow> unused t s" "p < 32" "\<And>a. stack = Some a \<Longrightarrow> stack_fits a sz"
  shows "wsys (snd (rt_thread_create obj stack sz p n s))"
proof (cases "obj = None \<or> stack = None")
  case True
  then show ?thesis using thread_create_fails[of s obj stack sz p n] assms(1,2) by (simp add: wsys_presys)
next
  case False
  then obtain t a where "obj = Some t" "stack = Some a" by auto
  then show ?thesis using thread_create_ready[of s t p a sz n] assms by (auto simp: wsys_presys same_world_def)
qed

lemma timer_detach_keeps:
  assumes "rt_object_get_type (tm_type (timers s i)) = RT_Object_Class_Timer" "rt_object_is_systemobject (tm_type (timers s i))"
  shows "tm_ok s \<Longrightarrow> tm_ok (rt_timer_detach i s)" "stuck (rt_timer_detach i s) = stuck s" "sems (rt_timer_detach i s) = sems s"
proof -
  let ?d = "rt_timer_detach i s"
  have e: "?d = upd_timer i (\<lambda>t. t\<lparr>tm_type := 0\<rparr>) (timer_unlink i s)" using assms by (simp add: rt_timer_detach_def)
  show "stuck ?d = stuck s" "sems ?d = sems s" by (simp_all add: e upd_timer_def timer_unlink_def)
  assume t: "tm_ok s"
  have "tmo ?d = tmo s" by (auto simp: e tmo_def kframe fun_eq_iff)
  moreover have "one_shot ?d = one_shot s" by (auto simp: e one_shot_def kframe)
  ultimately show "tm_ok ?d"
    using t timer_sorted_removeAll by (auto simp: tm_ok_def timers_idle_def e kframe)
qed

text \<open>Closing a thread that was started or initialised.\<close>

definition closable :: "tid \<Rightarrow> kernel \<Rightarrow> bool" where
  "closable t s \<longleftrightarrow> is_thread s t \<and> (live (statm s t) \<or> startable s t)"

lemma closable_timer:
  assumes "wsys s" "closable t s"
  shows "rt_object_get_type (tm_type (timers s (ThreadTimer t))) = RT_Object_Class_Timer"
    "rt_object_is_systemobject (tm_type (timers s (ThreadTimer t)))" "live (statm s t) \<or> statm s t = RT_THREAD_INIT"
  using assms kbaseD(7)[of "{}" s t] by (auto simp: closable_def startable_def wsys_presys presys_def kinv_def thread_ok_def)

lemma wsys_retired:
  assumes "wsys s" "closable t s"
  defines "z \<equiv> if statm s t \<noteq> RT_THREAD_INIT then rt_schedule_remove_thread t s else s"
  shows "kinv s' \<Longrightarrow> s' = thread_retire t z \<or> s' = list_insert_after DefunctL t (close_thread t z) \<Longrightarrow> wsys s'"
proof -
  assume k: "kinv s'" and e: "s' = thread_retire t z \<or> s' = list_insert_after DefunctL t (close_thread t z)"
  note tm = closable_timer[OF assms(1,2)]
  have p: "presys s" and nc: "cur s \<noteq> None" using assms(1) by (simp_all add: wsys_presys)
  note d = presysD[OF p]
  have zs: "timers z = timers s" "stuck z = stuck s" "sems z = sems s" "cur z = cur s" "mutexes z = mutexes s"
    "mboxes z = mboxes s" "mqs z = mqs s" "set (lists z l) \<subseteq> set (lists s l)" for l
    by (auto simp: z_def kframe rt_schedule_remove_thread_def list_remove_def Let_def)
  have zt: "tm_ok z = tm_ok s" by (simp add: z_def kframe)
  let ?d = "rt_timer_detach (ThreadTimer t) z"
  have dt: "tm_ok ?d" "stuck ?d = stuck s" "sems ?d = sems s"
    using timer_detach_keeps[of z "ThreadTimer t"] tm(1,2) d(4) zs zt by simp_all
  have dc: "cur ?d = cur z" by (simp add: rt_timer_detach_def kframe)
  let ?c = "close_thread t z"
  have c: "?c = upd_thr t (\<lambda>th. th\<lparr>t_stat := RT_THREAD_CLOSE\<rparr>) ?d" by (simp add: close_thread_def)
  have cs: "tm_ok ?c" "stuck ?c = stuck s" "sems ?c = sems s" "cur ?c = cur s" "mutexes ?c = mutexes s" "mboxes ?c = mboxes s"
    "mqs ?c = mqs s" "lists ?c = lists z"
    using dt dc zs by (simp_all add: c kframe)
  have "(\<exists>f. s' = upd_thr t f ?c) \<or> s' = list_insert_after DefunctL t ?c"
    using e by (auto simp: thread_retire_close Let_def)
  moreover have "tm_ok (list_insert_after DefunctL t ?c)"
    using cs(1) tm_ok_frame[of "list_insert_after DefunctL t ?c" ?c] by (simp add: list_insert_after_def)
  ultimately have r: "tm_ok s'" "stuck s' = stuck s" "sems s' = sems s" "cur s' = cur s" "mutexes s' = mutexes s"
    "mboxes s' = mboxes s" "mqs s' = mqs s" "l \<noteq> DefunctL \<Longrightarrow> lists s' l = lists z l" for l
    using cs by (auto simp: upd_thr_timers) (auto simp: upd_thr_def list_insert_after_def)
  have rl: "l \<noteq> DefunctL \<Longrightarrow> set (lists s' l) \<subseteq> set (lists s l)" for l using r(8)[of l] zs(8)[of l] by simp
  have "still s s'" using r rl by (simp add: still_def)
  then have "presys s'" by (intro presysI[OF p k]) (use r rl in auto)
  then show "wsys s'" using nc r by (simp add: wsys_presys)
qed

lemma wsys_thread_detach:
  assumes "wsys s" "closable t s" "rt_object_is_systemobject (t_type (thr s t))"
  shows "wsys (snd (rt_thread_detach t s))"
proof (rule wsys_retired[OF assms(1,2)])
  show "kinv (snd (rt_thread_detach t s))"
    by (rule rt_thread_detach_kinv[OF _ closable_timer(3)[OF assms(1,2)]]) (use assms(1) in \<open>simp add: wsys_def ksys_def\<close>)
qed (use assms(2,3) in \<open>auto simp: rt_thread_detach_def closable_def is_thread_def\<close>)

lemma wsys_thread_delete:
  assumes "wsys s" "closable t s" "\<not> rt_object_is_systemobject (t_type (thr s t))"
  shows "wsys (snd (rt_thread_delete t s))"
proof (rule wsys_retired[OF assms(1,2)])
  show "kinv (snd (rt_thread_delete t s))"
    by (rule rt_thread_delete_kinv[OF _ closable_timer(3)[OF assms(1,2)]]) (use assms(1) in \<open>simp add: wsys_def ksys_def\<close>)
qed (use assms(2,3) in \<open>auto simp: rt_thread_delete_def closable_def is_thread_def Let_def close_thread_def\<close>)

section \<open>Semaphores and mutexes\<close>

lemma wsys_sem_new:
  assumes "wsys s" "lists s (SemL n) = []"
  shows "wsys (upd_sem n f s)"
  by (rule wsys_upd_sem[OF assms(1)]) (use assms(2) in \<open>simp add: sem_inv_def kframe\<close>)

lemma wsys_sem_gone:
  assumes "wsys s"
  shows "wsys (upd_sem n (\<lambda>x. x\<lparr>s_type := 0\<rparr>) (rt_ipc_list_resume_all (SemL n) s))"
  by (rule wsys_upd_sem[OF wsys_resume_all(1)[OF assms]]) (use type_bits in \<open>simp_all add: is_sem_def kframe\<close>)

lemma wsys_mutex_new:
  assumes "wsys s" "lists s (MutexL n) = []" "m_type m = 3 \<or> m_type m = 131" "m_value m = 1" "m_hold m = 0" "m_owner m = None"
  shows "wsys (upd_mutex n (\<lambda>_. m) s)"
  by (rule wsys_upd_mutex[OF assms(1)])
    (use assms(2-) in \<open>auto simp: mutex_inv_def is_mutex_def kframe rt_object_get_type_def\<close>)

lemma wsys_mutex_gone:
  assumes "wsys s"
  shows "wsys (upd_mutex n (\<lambda>x. x\<lparr>m_type := 0\<rparr>) (rt_ipc_list_resume_all (MutexL n) s))"
  by (rule wsys_upd_mutex[OF wsys_resume_all(1)[OF assms]]) (use type_bits in \<open>simp_all add: is_mutex_def kframe\<close>)

section \<open>Events, mailboxes and message queues\<close>

lemma wsys_event_gone: "wsys s \<Longrightarrow> wsys (upd_event n f (rt_ipc_list_resume_all (EventL n) s))"
  by (intro wsys_upd_event wsys_resume_all(1)) simp_all

lemma wsys_event_control:
  assumes "wsys s" "is_event n s"
  shows "wsys (snd (rt_event_control n cmd s))"
  using assms wsys_schedule[OF wsys_event_gone] by (simp add: rt_event_control_def)

lemma mb_fresh_inv:
  "length pool = unat sz \<Longrightarrow> 0 < unat sz \<Longrightarrow> unat sz < 65536 \<Longrightarrow>
   mb_inv \<lparr>mb_type = ty, mb_flag = fl, mb_pool = pool, mb_size = ucast (sz :: u32), mb_entry = 0, mb_in_offset = 0, mb_out_offset = 0\<rparr>"
  by (simp add: mb_inv_def unsigned_ucast_eq take_bit_eq_mod)

lemma wsys_mb_gone:
  assumes "wsys s"
  shows "wsys (upd_mb n (\<lambda>x. x\<lparr>mb_type := 0\<rparr>) (rt_ipc_list_resume_all (MbSendL n) (rt_ipc_list_resume_all (MbRecvL n) s)))"
  by (rule wsys_upd_mb'[OF wsys_resume_all(1)[OF wsys_resume_all(1)[OF assms]]])
    (use type_bits in \<open>simp_all add: is_mb_def kframe\<close>)

lemma wsys_mb_control:
  assumes "wsys s" "is_mb n s"
  shows "wsys (snd (rt_mb_control n cmd s))"
proof -
  let ?a = "rt_ipc_list_resume_all (MbRecvL n) s"
  let ?b = "rt_ipc_list_resume_all (MbSendL n) ?a"
  let ?f = "\<lambda>x. x\<lparr>mb_entry := 0, mb_in_offset := 0, mb_out_offset := 0\<rparr>"
  have a: "wsys ?a" "mboxes ?a = mboxes s" using wsys_resume_all[OF assms(1), of "MbRecvL n"] by simp_all
  have b: "wsys ?b" "mboxes ?b = mboxes s" using wsys_resume_all[OF a(1), of "MbSendL n"] a(2) by simp_all
  have "mb_inv (?f (mboxes ?b n))" using wsys_mb[OF assms] b(2) by (simp add: mb_inv_def)
  then have "wsys (upd_mb n ?f ?b)" by (rule wsys_upd_mb[OF b(1)])
  from wsys_schedule[OF this] show ?thesis using assms by (simp add: rt_mb_control_def)
qed

lemma mq_drain_more: "mq_drain k mq = Some x \<Longrightarrow> k \<le> j \<Longrightarrow> mq_drain j mq = Some x"
proof (induction k arbitrary: j mq)
  case 0
  then show ?case by (cases j) (auto split: if_splits)
next
  case (Suc k)
  then obtain i where i: "j = Suc i" "k \<le> i" by (cases j) auto
  show ?case
  proof (cases "mq_head mq")
    case (Some m)
    obtain q where q: "mq_drain (Suc n) mq = mq_drain n q" for n using Some by (simp add: Let_def)
    with Suc.prems(1) have "mq_drain k q = Some x" by simp
    from Suc.IH[OF this i(2)] show ?thesis using q i(1) by simp
  qed (use Suc.prems i in simp)
qed

lemma wsys_mq_control:
  assumes "wsys s" "is_mq n s"
  shows "wsys (snd (rt_mq_control n cmd s))"
proof -
  let ?a = "rt_ipc_list_resume_all (MqL n) s"
  let ?q = "mqs s n"
  have a: "wsys ?a" "mqs ?a = mqs s" using wsys_resume_all[OF assms(1), of "MqL n"] by simp_all
  obtain f where f: "mq_rep ?q (mq_slots ?q) f" using wsys_mq[OF assms] by (auto simp: mq_inv_def)
  note r = f[unfolded mq_rep_def]
  obtain mq where mq: "mq_drain (length (mq_slots ?q)) ?q = Some mq" "mq_head mq = None" "mq_tail mq = None"
    "chain_at (mq_next mq) (mq_free mq) (rev (mq_slots ?q) @ f)" "mq_max_msgs mq = mq_max_msgs ?q" "mq_type mq = mq_type ?q"
    using mq_drain_rep[of ?q "mq_slots ?q" f] r by blast
  have "length (mq_slots ?q) \<le> unat (mq_max_msgs ?q)" using mq_repD(3)[OF f] by simp
  from mq_drain_more[OF mq(1) this] have d: "mq_drain (unat (mq_max_msgs ?q)) ?q = Some mq" .
  have "mq_rep (mq\<lparr>mq_entry := 0\<rparr>) [] (rev (mq_slots ?q) @ f)"
    using r mq by (auto simp: mq_rep_def)
  then have "mq_inv (mq\<lparr>mq_entry := 0\<rparr>)" by (rule mq_repD(2))
  then have "wsys (upd_mq n (\<lambda>_. mq\<lparr>mq_entry := 0\<rparr>) ?a)" by (rule wsys_upd_mq[OF a(1)])
  from wsys_schedule[OF this] show ?thesis using assms a(2) d by (simp add: rt_mq_control_def Let_def)
qed

lemma wsys_mq_gone:
  assumes "wsys s"
  shows "wsys (upd_mq n (\<lambda>x. x\<lparr>mq_type := 0\<rparr>) (rt_ipc_list_resume_all (MqL n) s))"
  by (rule wsys_upd_mq'[OF wsys_resume_all(1)[OF assms]]) (use type_bits in \<open>simp_all add: is_mq_def kframe\<close>)

lemma wsys_mq_new: "wsys s \<Longrightarrow> lists s (MqL n) = [] \<Longrightarrow> wsys (snd (rt_mq_init n msg_size pool_size flag s))"
  by (simp add: rt_mq_init_def Let_def object_init_empty wsys_upd_mq mq_setup_inv)

lemma wsys_mq_create:
  assumes "wsys s" "\<And>n. obj = Some n \<Longrightarrow> lists s (MqL n) = []" "int_nest s = 0"
  shows "wsys (snd (rt_mq_create obj pool msg_size max_msgs flag s))"
proof (cases obj)
  case (Some n)
  note e = object_init_empty[OF assms(2)[OF Some]]
  show ?thesis
  proof (cases pool)
    case False
    let ?u = "upd_mq n (\<lambda>x. x\<lparr>mq_type := RT_Object_Class_MessageQueue, mq_flag := flag,
      mq_msg_size := ucast (align4 msg_size), mq_max_msgs := ucast max_msgs\<rparr>) s"
    have q: "is_mq n ?u" "\<not> rt_object_is_systemobject (mq_type (mqs ?u n))" "lists ?u (MqL n) = []"
      using assms(2)[OF Some] by (simp_all add: is_mq_def rt_object_get_type_def rt_object_is_systemobject_def kframe)
    have "int_nest ?u = 0" using assms(3) by (simp add: upd_mq_def)
    with q have "snd (rt_mq_delete n ?u) = upd_mq n (\<lambda>x. x\<lparr>mq_type := 0\<rparr>) ?u"
      by (simp add: rt_mq_delete_def rt_ipc_list_resume_all_def)
    also have "\<dots> = upd_mq n (\<lambda>x. x\<lparr>mq_flag := flag, mq_msg_size := ucast (align4 msg_size), mq_max_msgs := ucast max_msgs, mq_type := 0\<rparr>) s"
      by (simp add: upd_mq_def)
    also have "wsys \<dots>" by (rule wsys_upd_mq'[OF assms(1)]) (use type_bits in \<open>simp add: is_mq_def kframe\<close>)
    finally show ?thesis using Some False assms(3) by (simp add: rt_mq_create_def Let_def e)
  qed (use Some assms(1,3) in \<open>simp add: rt_mq_create_def Let_def e wsys_upd_mq mq_setup_inv\<close>)
qed (use assms(1,3) in \<open>simp add: rt_mq_create_def\<close>)

lemma wsys_mb_create:
  assumes "wsys s" "\<And>n. obj = Some n \<Longrightarrow> lists s (MbRecvL n) = [] \<and> lists s (MbSendL n) = []" "int_nest s = 0"
    "\<And>p. pool = Some p \<Longrightarrow> length p = unat sz" "0 < unat sz" "unat sz < 65536"
  shows "wsys (snd (rt_mb_create obj pool sz flag s))"
proof (cases obj)
  case (Some n)
  have e: "rt_ipc_object_init (MbRecvL n) s = s" "rt_ipc_object_init (MbSendL n) s = s"
    using assms(2)[OF Some] by (simp_all add: object_init_empty)
  show ?thesis
  proof (cases pool)
    case None
    have "wsys (upd_mb n (\<lambda>x. x\<lparr>mb_type := 0, mb_flag := flag, mb_size := ucast sz\<rparr>) s)"
      by (rule wsys_upd_mb'[OF assms(1)]) (use type_bits in \<open>simp add: is_mb_def kframe\<close>)
    then show ?thesis using Some None assms(3) by (simp add: rt_mb_create_def e)
  next
    case (Some p)
    then show ?thesis using \<open>obj = Some n\<close> assms(1,3) wsys_upd_mb[OF assms(1) mb_fresh_inv[OF assms(4)[OF Some] assms(5,6)]]
      by (simp add: rt_mb_create_def e)
  qed
qed (use assms(1,3) in \<open>simp add: rt_mb_create_def\<close>)

lemma wsys_mb_init:
  assumes "wsys s" "lists s (MbRecvL n) = []" "lists s (MbSendL n) = []" "length pool = unat sz" "0 < unat sz" "unat sz < 65536"
  shows "wsys (snd (rt_mb_init n pool sz flag s))"
  using assms by (simp add: rt_mb_init_def object_init_empty wsys_upd_mb mb_fresh_inv)

lemma wsys_sem_create:
  assumes "wsys s" "\<And>n. obj = Some n \<Longrightarrow> lists s (SemL n) = []" "int_nest s = 0" "value < 0x10000"
  shows "wsys (snd (rt_sem_create obj value flag s))"
  using assms by (cases obj) (simp_all add: rt_sem_create_def object_init_empty wsys_sem_new)

lemma wsys_mutex_create:
  assumes "wsys s" "\<And>n. obj = Some n \<Longrightarrow> lists s (MutexL n) = []" "int_nest s = 0"
  shows "wsys (snd (rt_mutex_create obj flag s))"
  using assms by (cases obj) (simp_all add: rt_mutex_create_def object_init_empty wsys_mutex_new)

lemma wsys_event_create:
  assumes "wsys s" "\<And>n. obj = Some n \<Longrightarrow> lists s (EventL n) = []" "int_nest s = 0"
  shows "wsys (snd (rt_event_create obj flag s))"
  using assms by (cases obj) (simp_all add: rt_event_create_def object_init_empty wsys_upd_event)

section \<open>The system\<close>

inductive sstep :: "(nat \<Rightarrow> kernel \<Rightarrow> kernel) \<Rightarrow> kernel \<Rightarrow> kernel \<Rightarrow> bool" for tf where
  run: "wstep tf s s' \<Longrightarrow> sstep tf s s'"
| thread_init: "unused t s \<Longrightarrow> p < 32 \<Longrightarrow> stack_fits a sz \<Longrightarrow> sstep tf s (snd (rt_thread_init t a sz p n s))"
| thread_create: "(\<And>t. obj = Some t \<Longrightarrow> unused t s) \<Longrightarrow> p < 32 \<Longrightarrow> (\<And>a. stack = Some a \<Longrightarrow> stack_fits a sz) \<Longrightarrow>
    sstep tf s (snd (rt_thread_create obj stack sz p n s))"
| thread_detach: "closable t s \<Longrightarrow> rt_object_is_systemobject (t_type (thr s t)) \<Longrightarrow> sstep tf s (snd (rt_thread_detach t s))"
| thread_delete: "closable t s \<Longrightarrow> \<not> rt_object_is_systemobject (t_type (thr s t)) \<Longrightarrow> sstep tf s (snd (rt_thread_delete t s))"
| sem_init: "lists s (SemL n) = [] \<Longrightarrow> value < 0x10000 \<Longrightarrow> sstep tf s (snd (rt_sem_init n value flag s))"
| sem_create: "(\<And>n. obj = Some n \<Longrightarrow> lists s (SemL n) = []) \<Longrightarrow> int_nest s = 0 \<Longrightarrow> value < 0x10000 \<Longrightarrow>
    sstep tf s (snd (rt_sem_create obj value flag s))"
| sem_detach: "is_sem n s \<Longrightarrow> rt_object_is_systemobject (s_type (sems s n)) \<Longrightarrow> sstep tf s (snd (rt_sem_detach n s))"
| sem_delete: "is_sem n s \<Longrightarrow> \<not> rt_object_is_systemobject (s_type (sems s n)) \<Longrightarrow> int_nest s = 0 \<Longrightarrow>
    sstep tf s (snd (rt_sem_delete n s))"
| mutex_init: "lists s (MutexL n) = [] \<Longrightarrow> sstep tf s (snd (rt_mutex_init n flag s))"
| mutex_create: "(\<And>n. obj = Some n \<Longrightarrow> lists s (MutexL n) = []) \<Longrightarrow> int_nest s = 0 \<Longrightarrow>
    sstep tf s (snd (rt_mutex_create obj flag s))"
| mutex_detach: "is_mutex n s \<Longrightarrow> rt_object_is_systemobject (m_type (mutexes s n)) \<Longrightarrow> sstep tf s (snd (rt_mutex_detach n s))"
| mutex_delete: "is_mutex n s \<Longrightarrow> \<not> rt_object_is_systemobject (m_type (mutexes s n)) \<Longrightarrow> int_nest s = 0 \<Longrightarrow>
    sstep tf s (snd (rt_mutex_delete n s))"
| event_init: "lists s (EventL n) = [] \<Longrightarrow> sstep tf s (snd (rt_event_init n flag s))"
| event_create: "(\<And>n. obj = Some n \<Longrightarrow> lists s (EventL n) = []) \<Longrightarrow> int_nest s = 0 \<Longrightarrow>
    sstep tf s (snd (rt_event_create obj flag s))"
| event_detach: "is_event n s \<Longrightarrow> rt_object_is_systemobject (e_type (events s n)) \<Longrightarrow> sstep tf s (snd (rt_event_detach n s))"
| event_delete: "is_event n s \<Longrightarrow> \<not> rt_object_is_systemobject (e_type (events s n)) \<Longrightarrow> int_nest s = 0 \<Longrightarrow>
    sstep tf s (snd (rt_event_delete n s))"
| event_control: "is_event n s \<Longrightarrow> sstep tf s (snd (rt_event_control n cmd s))"
| mb_init: "lists s (MbRecvL n) = [] \<Longrightarrow> lists s (MbSendL n) = [] \<Longrightarrow> length mail = unat sz \<Longrightarrow> 0 < unat sz \<Longrightarrow>
    unat sz < 65536 \<Longrightarrow> sstep tf s (snd (rt_mb_init n mail sz flag s))"
| mb_create: "(\<And>n. obj = Some n \<Longrightarrow> lists s (MbRecvL n) = [] \<and> lists s (MbSendL n) = []) \<Longrightarrow> int_nest s = 0 \<Longrightarrow>
    (\<And>p. pool = Some p \<Longrightarrow> length p = unat sz) \<Longrightarrow> 0 < unat sz \<Longrightarrow> unat sz < 65536 \<Longrightarrow>
    sstep tf s (snd (rt_mb_create obj pool sz flag s))"
| mb_detach: "is_mb n s \<Longrightarrow> rt_object_is_systemobject (mb_type (mboxes s n)) \<Longrightarrow> sstep tf s (snd (rt_mb_detach n s))"
| mb_delete: "is_mb n s \<Longrightarrow> \<not> rt_object_is_systemobject (mb_type (mboxes s n)) \<Longrightarrow> int_nest s = 0 \<Longrightarrow>
    sstep tf s (snd (rt_mb_delete n s))"
| mb_control: "is_mb n s \<Longrightarrow> sstep tf s (snd (rt_mb_control n cmd s))"
| mq_init: "lists s (MqL n) = [] \<Longrightarrow> sstep tf s (snd (rt_mq_init n msg_size pool_size flag s))"
| mq_create: "(\<And>n. obj = Some n \<Longrightarrow> lists s (MqL n) = []) \<Longrightarrow> int_nest s = 0 \<Longrightarrow>
    sstep tf s (snd (rt_mq_create obj got msg_size max_msgs flag s))"
| mq_detach: "is_mq n s \<Longrightarrow> rt_object_is_systemobject (mq_type (mqs s n)) \<Longrightarrow> sstep tf s (snd (rt_mq_detach n s))"
| mq_delete: "is_mq n s \<Longrightarrow> \<not> rt_object_is_systemobject (mq_type (mqs s n)) \<Longrightarrow> int_nest s = 0 \<Longrightarrow>
    sstep tf s (snd (rt_mq_delete n s))"
| mq_control: "is_mq n s \<Longrightarrow> sstep tf s (snd (rt_mq_control n cmd s))"

text \<open>The states of a system that was started with memory for the main thread.\<close>

inductive sreach :: "(nat \<Rightarrow> kernel \<Rightarrow> kernel) \<Rightarrow> kernel \<Rightarrow> bool" for tf where
  boot: "cold s \<Longrightarrow> m \<noteq> idle \<Longrightarrow> stack_fits b 2048 \<Longrightarrow> stack_fits a 256 \<Longrightarrow>
    sreach tf (rtthread_startup (Some m) (Some b) idle a s)"
| step: "sreach tf s \<Longrightarrow> sstep tf s s' \<Longrightarrow> sreach tf s'"

lemmas kernel_ops = rt_sem_init_def rt_sem_detach_def rt_sem_delete_def rt_mutex_init_def rt_mutex_detach_def rt_mutex_delete_def
  rt_event_init_def rt_event_detach_def rt_event_delete_def rt_mb_detach_def rt_mb_delete_def rt_mq_detach_def rt_mq_delete_def

lemmas wsys_new = wsys_sem_new wsys_mutex_new wsys_upd_event wsys_sem_gone wsys_mutex_gone wsys_event_gone wsys_mb_gone wsys_mq_gone

lemma sstep_wsys:
  assumes "sstep tf s s'" "wsys s"
  shows "wsys s'"
  using assms
proof (induction rule: sstep.induct)
  case (run s s')
  then show ?case by (rule wstep_wsys)
next
  case (thread_init t s p a sz n)
  then show ?case by (simp add: wsys_thread_init)
next
  case (thread_create obj s p stack sz n)
  then show ?case by (intro wsys_thread_create) auto
next
  case (sem_create obj s v flag)
  then show ?case by (intro wsys_sem_create) auto
next
  case (mutex_create obj s flag)
  then show ?case by (intro wsys_mutex_create) auto
next
  case (event_create obj s flag)
  then show ?case by (intro wsys_event_create) auto
next
  case (mb_create obj s pool sz flag)
  then show ?case by (intro wsys_mb_create) auto
next
  case (mq_create obj s got msg_size max_msgs flag)
  then show ?case by (intro wsys_mq_create) auto
qed (simp_all add: wsys_thread_detach wsys_thread_delete wsys_mb_init wsys_mq_new wsys_event_control wsys_mb_control wsys_mq_control
    kernel_ops wsys_new object_init_empty)

lemma sreach_wsys: "sreach tf s \<Longrightarrow> wsys s"
proof (induction rule: sreach.induct)
  case (boot s m idle b a)
  then show ?case by (rule boot_runs(1))
next
  case (step s s')
  then show ?case using sstep_wsys by blast
qed

end
