(* ===== verification/StationBoot.thy ===== *)
theory StationBoot
  imports Ksystem Enviroment Sample
begin

text \<open>
  From power-up to the running station: \<open>rtthread_startup\<close>, then the main thread calls \<open>Enviroment\<close> (an entry of the table of
  initialisation functions), which creates two semaphores, two mailboxes and the three threads of the application.
\<close>

section \<open>Starting threads from a thread of better priority\<close>

text \<open>The running thread, with a better priority than every ready one.\<close>

definition topmost :: "tid \<Rightarrow> kernel \<Rightarrow> bool" where
  "topmost c s \<longleftrightarrow> running s c \<and> (\<forall>u. statm s u = RT_THREAD_READY \<longrightarrow> prio s c < prio s u)"

lemma topmost_schedule:
  assumes "wsys s" "topmost c s"
  shows "lists (rt_schedule s) l = lists s l" "statm (rt_schedule s) = statm s" "prio (rt_schedule s) = prio s"
    "cur (rt_schedule s) = Some c" "sems (rt_schedule s) = sems s" "mboxes (rt_schedule s) = mboxes s"
    "int_nest (rt_schedule s) = int_nest s" "lock_nest (rt_schedule s) = lock_nest s"
proof -
  have k: "kinv s" using assms(1) by (simp add: wsys_def ksys_def)
  have c: "cur s = Some c" and r: "statm s c = RT_THREAD_RUNNING" using assms(2) by (simp_all add: topmost_def running_def)
  have det: "removeAll c (lists s m) = lists s m" for m
    using detached_running[OF kinv_partsD(1)[OF k] r] removeAll_id_if_notin[of c "lists s m"] by (simp add: detached_def)
  have st: "lists (stay c s) m = lists s m" "statm (stay c s) u = statm s u" "prio (stay c s) = prio s"
    "cur (stay c s) = Some c" "sems (stay c s) = sems s" "mboxes (stay c s) = mboxes s" "int_nest (stay c s) = int_nest s"
    "lock_nest (stay c s) = lock_nest s" for m u
    using c r det by (simp_all add: stay_def kframe fun_eq_iff)
      (simp_all add: set_stat_def upd_thr_def rt_schedule_remove_thread_def list_remove_def Let_def)
  have "rt_schedule s = s \<or> rt_schedule s = stay c s"
    using k c
  proof (cases rule: rt_schedule_cases)
    case (switch hp t ts)
    then have "prio s c < hp" "hp \<le> prio s c" using assms(2) r by (auto simp: topmost_def)
    then show ?thesis by simp
  qed simp_all
  then show "lists (rt_schedule s) l = lists s l" "statm (rt_schedule s) = statm s" "prio (rt_schedule s) = prio s"
    "cur (rt_schedule s) = Some c" "sems (rt_schedule s) = sems s" "mboxes (rt_schedule s) = mboxes s"
    "int_nest (rt_schedule s) = int_nest s" "lock_nest (rt_schedule s) = lock_nest s"
    using st c by (auto simp: fun_eq_iff)
qed

text \<open>What the start of a thread does besides making it ready.\<close>

definition joins :: "tid \<Rightarrow> nat \<Rightarrow> kernel \<Rightarrow> kernel \<Rightarrow> bool" where
  "joins t p s s' \<longleftrightarrow> (\<forall>l. lists s' l = (if l = ReadyL p then lists s l @ [t] else lists s l)) \<and>
     statm s' t = RT_THREAD_READY \<and> (\<forall>u. u \<noteq> t \<longrightarrow> unused u s \<longrightarrow> unused u s') \<and> sems s' = sems s \<and> mboxes s' = mboxes s \<and>
     int_nest s' = int_nest s \<and> lock_nest s' = lock_nest s"

lemma topmost_startup:
  assumes "wsys s" "topmost c s" "startable s t" "prio s c < unat (t_init_priority (thr s t))"
  defines "s' \<equiv> snd (rt_thread_startup t s)"
  shows "wsys s'" "topmost c s'" "joins t (unat (t_init_priority (thr s t))) s s'" "prio s' c = prio s c"
proof -
  have p: "presys s" and c: "cur s = Some c" and r: "statm s c = RT_THREAD_RUNNING"
    using assms(1,2) by (simp_all add: wsys_presys topmost_def running_def)
  note e = readied_effect[OF p assms(3)]
  let ?r = "readied t s"
  have tc: "t \<noteq> c" using assms(3) r by (auto simp: startable_def)
  have rw: "wsys ?r" using e(1,2) c by (simp add: wsys_presys)
  have rdy: "statm ?r t = RT_THREAD_READY" using e(2,6) c tc presysD(3)[OF e(1)] by (auto simp: awake_def kcur_def)
  have ru: "running ?r c" using e(2) e(3)[OF not_sym[OF tc]] c r by (simp add: running_def)
  have top: "topmost c ?r"
    unfolding topmost_def
  proof (intro conjI ru allI impI)
    fix u assume u: "statm ?r u = RT_THREAD_READY"
    show "prio ?r c < prio ?r u"
    proof (cases "u = t")
      case True
      then show ?thesis using assms(4) e(4) e(5)[OF not_sym[OF tc]] by simp
    next
      case False
      then have "prio s c < prio s u" using u e(3)[OF False] assms(2) by (simp add: topmost_def)
      then show ?thesis using e(5)[OF False] e(5)[OF not_sym[OF tc]] by simp
    qed
  qed
  note q = topmost_schedule[OF rw top]
  have s': "s' = rt_schedule ?r" using startup_readied[OF assms(3)] e(2) c by (simp add: s'_def)
  show "wsys s'" unfolding s' by (rule wsys_schedule[OF rw])
  show "topmost c s'" unfolding s' using top q(2-4) by (simp add: topmost_def running_def)
  show "prio s' c = prio s c" using q(3) e(5)[OF not_sym[OF tc]] by (simp add: s')
  have l: "lists s' l = (if l = ReadyL (unat (t_init_priority (thr s t))) then lists s l @ [t] else lists s l)" for l
    using q(1)[of l] e(8)[of l] c tc by (simp add: s')
  have st: "statm s' u = statm s u" if "u \<noteq> t" for u using q(2) e(3)[OF that] by (simp add: s')
  show "joins t (unat (t_init_priority (thr s t))) s s'"
    using l st q rdy e by (auto simp: joins_def s' unused_def detached_def)
qed

lemma start_thread_joins:
  assumes "wsys s" "topmost c s" "unused t s" "p < 32" "prio s c < unat p" "stack_fits a 1024"
  obtains s' where "start_thread (Some t) (Some a) p (ret, s) = (ret, s')" "wsys s'" "topmost c s'" "joins t (unat p) s s'"
    "prio s' c = prio s c"
proof -
  have ps: "presys s" using assms(1) by (simp add: wsys_presys)
  obtain k where k: "rt_thread_create (Some t) (Some a) 1024 p 10 s = (Some t, k)"
    using thread_create_ready(1)[OF ps assms(3,4,6), of 10] by (metis prod.collapse)
  note n = thread_create_ready(2-5)[OF ps assms(3,4,6), of 10, unfolded k snd_conv]
  have w: "lists k = lists s" "cur k = cur s" "sems k = sems s" "mboxes k = mboxes s" "int_nest k = int_nest s" "lock_nest k = lock_nest s"
    "u \<noteq> t \<Longrightarrow> thr k u = thr s u" for u using n(4) by (simp_all add: same_world_def)
  have st: "statm k u = statm s u" "prio k u = prio s u" if "u \<noteq> t" for u using w(7)[OF that] by (simp_all add: statm_def prio_def)
  have wk: "wsys k" using n(1) w(2) assms(1) by (simp add: wsys_presys)
  have tc: "t \<noteq> c" using assms(2,3) by (auto simp: topmost_def running_def unused_def live_def)
  have "prio k u > prio k c" if "statm k u = RT_THREAD_READY" for u
  proof -
    have "u \<noteq> t" using that n(2) by (auto simp: startable_def)
    then show ?thesis using that st[of u] st[of c] tc assms(2) by (simp add: topmost_def)
  qed
  then have tk: "topmost c k" using assms(2) st[of c] tc w(2) by (simp add: topmost_def running_def)
  have pc: "prio k c = prio s c" using st(2)[of c] tc by simp
  note j = topmost_startup[OF wk tk n(2), unfolded n(3) pc, OF assms(5)]
  have "joins t (unat p) s (snd (rt_thread_startup t k))"
    using j(3) w st by (auto simp: joins_def unused_def detached_def)
  with j show ?thesis using that[of "snd (rt_thread_startup t k)"] by (simp add: start_thread_def k)
qed

section \<open>The station starts\<close>

text \<open>The objects of the application before its threads are started.\<close>

definition station_objects :: "nat \<Rightarrow> nat \<Rightarrow> nat \<Rightarrow> nat \<Rightarrow> kernel \<Rightarrow> kernel" where
  "station_objects o1 o2 iot led s =
     snd (rt_mb_init led (replicate 5 0) 5 0 (snd (rt_mb_init iot (replicate 5 0) 5 0
       (snd (rt_sem_create (Some o2) 0 0 (snd (rt_sem_create (Some o1) 0 0 s)))))))"

lemma station_objects_made:
  assumes "wsys s" "int_nest s = 0" "o1 \<noteq> o2" "iot \<noteq> led"
    "\<forall>l \<in> {SemL o1, SemL o2, MbRecvL iot, MbSendL iot, MbRecvL led, MbSendL led}. lists s l = []"
  defines "s' \<equiv> station_objects o1 o2 iot led s"
  shows "wsys s'" "lists s' = lists s" "thr s' = thr s" "cur s' = cur s" "int_nest s' = 0" "lock_nest s' = lock_nest s"
    "n \<in> {o1, o2} \<Longrightarrow> is_sem n s' \<and> s_value (sems s' n) = 0"
    "n \<in> {iot, led} \<Longrightarrow> is_mb n s' \<and> mb_list (mboxes s' n) = [] \<and> mb_size (mboxes s' n) = 5"
    "Enviroment (Some o1) (Some o2) iot led nb byh disp s = (Some o1, Some o2,
       start_thread (fst disp) (snd disp) 25 (start_thread (fst byh) (snd byh) 24 (start_thread (fst nb) (snd nb) 24 (RT_EOK, s'))))"
proof -
  let ?sem = "\<lparr>s_type = RT_Object_Class_Semaphore, s_flag = 0, s_value = 0\<rparr>"
  let ?mb = "\<lparr>mb_type = 133, mb_flag = 0, mb_pool = replicate 5 0, mb_size = 5, mb_entry = 0, mb_in_offset = 0, mb_out_offset = 0\<rparr>"
  have l: "lists s (SemL o1) = []" "lists s (SemL o2) = []" "lists s (MbRecvL iot) = []" "lists s (MbSendL iot) = []"
    "lists s (MbRecvL led) = []" "lists s (MbSendL led) = []" using assms(5) by simp_all
  let ?a = "upd_sem o1 (\<lambda>_. ?sem) s"
  let ?b = "upd_sem o2 (\<lambda>_. ?sem) ?a"
  let ?c = "upd_mb iot (\<lambda>_. ?mb) ?b"
  let ?d = "upd_mb led (\<lambda>_. ?mb) ?c"
  have ni: "int_nest (upd_sem n f k) = int_nest k" for n f k by (simp add: upd_sem_def)
  have a: "rt_sem_create (Some o1) 0 0 s = (Some o1, ?a)" using assms(2) l by (simp add: rt_sem_create_def object_init_empty)
  have b: "rt_sem_create (Some o2) 0 0 ?a = (Some o2, ?b)" using assms(2) l by (simp add: rt_sem_create_def object_init_empty kframe ni)
  have c: "rt_mb_init iot (replicate 5 0) 5 0 ?b = (RT_EOK, ?c)" using l by (simp add: rt_mb_init_def object_init_empty kframe)
  have d: "rt_mb_init led (replicate 5 0) 5 0 ?c = (RT_EOK, ?d)" using l by (simp add: rt_mb_init_def object_init_empty kframe)
  have s': "s' = ?d" by (simp only: s'_def station_objects_def a b c d snd_conv)
  have mbi: "mb_inv ?mb" by (simp add: mb_inv_def)
  show "wsys s'" unfolding s'
    by (intro wsys_upd_mb wsys_sem_new assms(1) mbi) (use l in \<open>simp_all add: kframe\<close>)
  show "lists s' = lists s" "thr s' = thr s" "cur s' = cur s" by (simp_all add: s' kframe)
  show "int_nest s' = 0" "lock_nest s' = lock_nest s" using assms(2) by (simp_all add: s' upd_mb_def upd_sem_def)
  have ss: "sems s' = (sems s)(o1 := ?sem, o2 := ?sem)" by (simp add: s' upd_mb_def upd_sem_def)
  have ms: "mboxes s' = (mboxes s)(iot := ?mb, led := ?mb)" by (simp add: s' upd_mb_def upd_sem_def)
  show "n \<in> {o1, o2} \<Longrightarrow> is_sem n s' \<and> s_value (sems s' n) = 0"
    by (auto simp: is_sem_def ss rt_object_get_type_def)
  show "n \<in> {iot, led} \<Longrightarrow> is_mb n s' \<and> mb_list (mboxes s' n) = [] \<and> mb_size (mboxes s' n) = 5"
    by (auto simp: is_mb_def ms rt_object_get_type_def mb_list_def)
  show "Enviroment (Some o1) (Some o2) iot led nb byh disp s = (Some o1, Some o2,
     start_thread (fst disp) (snd disp) 25 (start_thread (fst byh) (snd byh) 24 (start_thread (fst nb) (snd nb) 24 (RT_EOK, s'))))"
    unfolding Enviroment_def Let_def a prod.case b c d s' by simp
qed

lemma station_up:
  assumes "wsys s" "topmost c s" "prio s c < 24" "int_nest s = 0" "o1 \<noteq> o2" "iot \<noteq> led" "distinct [nb, byh, disp]"
    "\<forall>l \<in> {SemL o1, SemL o2, MbRecvL iot, MbSendL iot, MbRecvL led, MbSendL led}. lists s l = []"
    "\<And>t. t \<in> {nb, byh, disp} \<Longrightarrow> unused t s" "stack_fits x 1024" "stack_fits y 1024" "stack_fits z 1024"
  obtains s' where "Enviroment (Some o1) (Some o2) iot led (Some nb, Some x) (Some byh, Some y) (Some disp, Some z) s
       = (Some o1, Some o2, RT_EOK, s')" "wsys s'" "topmost c s'" "lock_nest s' = lock_nest s"
    "\<And>l. lists s' l = (if l = ReadyL 24 then lists s l @ [nb, byh] else if l = ReadyL 25 then lists s l @ [disp] else lists s l)"
    "\<And>n. n \<in> {o1, o2} \<Longrightarrow> is_sem n s' \<and> s_value (sems s' n) = 0"
    "\<And>n. n \<in> {iot, led} \<Longrightarrow> is_mb n s' \<and> mb_list (mboxes s' n) = [] \<and> mb_size (mboxes s' n) = 5"
proof -
  note o = station_objects_made[OF assms(1,4-6,8)]
  let ?o = "station_objects o1 o2 iot led s"
  have st: "statm ?o = statm s" "prio ?o = prio s" using o(3) by (simp_all add: statm_def prio_def fun_eq_iff)
  have top: "topmost c ?o" using assms(2) st o(4) by (simp add: topmost_def running_def)
  have un: "t \<in> {nb, byh, disp} \<Longrightarrow> unused t ?o" for t using assms(9)[of t] st o(2) by (simp add: unused_def detached_def)
  obtain s1 where s1: "start_thread (Some nb) (Some x) 24 (RT_EOK, ?o) = (RT_EOK, s1)" "wsys s1" "topmost c s1" "joins nb 24 ?o s1"
    "prio s1 c = prio s c"
    using start_thread_joins[OF o(1) top un[of nb], of 24 x RT_EOK] assms(3,10) st by auto
  have u1: "unused byh s1" "unused disp s1" using s1(4) un assms(7) by (auto simp: joins_def)
  obtain s2 where s2: "start_thread (Some byh) (Some y) 24 (RT_EOK, s1) = (RT_EOK, s2)" "wsys s2" "topmost c s2" "joins byh 24 s1 s2"
    "prio s2 c = prio s c"
    using start_thread_joins[OF s1(2,3) u1(1), of 24 y RT_EOK] assms(3,11) s1(5) by auto
  have u2: "unused disp s2" using s2(4) u1 assms(7) by (auto simp: joins_def)
  obtain s3 where s3: "start_thread (Some disp) (Some z) 25 (RT_EOK, s2) = (RT_EOK, s3)" "wsys s3" "topmost c s3" "joins disp 25 s2 s3"
    using start_thread_joins[OF s2(2,3) u2, of 25 z RT_EOK] assms(3,12) s2(5) by auto
  have m: "sems s3 = sems ?o" "mboxes s3 = mboxes ?o" using s1(4) s2(4) s3(4) by (simp_all add: joins_def)
  show ?thesis
  proof (rule that)
    show "Enviroment (Some o1) (Some o2) iot led (Some nb, Some x) (Some byh, Some y) (Some disp, Some z) s = (Some o1, Some o2, RT_EOK, s3)"
      by (simp only: o(9) fst_conv snd_conv s1(1) s2(1) s3(1))
    show "wsys s3" "topmost c s3" by (rule s3)+
    show "lock_nest s3 = lock_nest s" using s1(4) s2(4) s3(4) o(6) by (simp add: joins_def)
    show "lists s3 l = (if l = ReadyL 24 then lists s l @ [nb, byh] else if l = ReadyL 25 then lists s l @ [disp] else lists s l)" for l
      using s1(4) s2(4) s3(4) o(2) by (simp add: joins_def)
    show "is_sem n s3 \<and> s_value (sems s3 n) = 0" if "n \<in> {o1, o2}" for n using o(7)[OF that] m by (simp add: is_sem_def)
    show "is_mb n s3 \<and> mb_list (mboxes s3 n) = [] \<and> mb_size (mboxes s3 n) = 5" if "n \<in> {iot, led}" for n
      using o(8)[OF that] m by (simp add: is_mb_def)
  qed
qed

text \<open>When the running thread sleeps, the first thread of the best priority runs.\<close>

lemma sleep_gives_way:
  fixes time :: u32
  assumes "wsys s" "running s c" "lock_nest s = 0" "lists s (ReadyL hp) = t # ts" "hp < 32" "\<And>q. q < hp \<Longrightarrow> lists s (ReadyL q) = []"
  shows "running (rt_thread_sleep time s) t"
proof -
  have k: "kinv s" using assms(1) by (simp add: wsys_def ksys_def)
  have c: "cur s = Some c" and r: "statm s c = RT_THREAD_RUNNING" using assms(2) by (simp_all add: running_def)
  note sr = suspend_running[OF k c r]
  have ok: "thread_ok s c" using kbaseD(7)[OF kinv_partsD(1)[OF k]] r by (simp add: live_def)
  let ?z = "start_thread_timer c time (snd (rt_thread_suspend c s))"
  have z: "kinv ?z"
    by (rule kinv_start_thread_timer[OF rt_thread_suspend_kinv[OF k]]) (simp add: sr(2))
  have zc: "cur ?z = Some c" "statm ?z c = RT_THREAD_SUSPEND" "lists ?z = lists s" "lock_nest ?z = 0"
    using c sr(2,3) assms(3) by (simp_all add: kframe rt_thread_suspend_def Let_def)
  have g: "ready_group ?z \<noteq> 0"
  proof -
    have "bit (ready_group ?z) hp" using kbaseD(3)[OF kinv_partsD(1)[OF z]] assms(4,5) zc(3) by (simp add: bits_ok_def)
    then show ?thesis by auto
  qed
  have e: "rt_thread_sleep time s = rt_schedule ?z" using c ok by (simp add: rt_thread_sleep_def rt_thread_self_def thread_ok_def)
  from z zc(1) have "running (rt_schedule ?z) t"
  proof (cases rule: rt_schedule_cases)
    case idle
    then show ?thesis using zc(4) g by simp
  next
    case keep
    then show ?thesis using zc(2) by simp
  next
    case (switch h u us)
    have "h = hp" using switch(2,4) zc(3) assms(4,6) by (metis linorder_neqE_nat list.distinct(1))
    then have "u = t" using switch(2) zc(3) assms(4) by simp
    with switch show ?thesis by (simp add: running_def switch_to_stat)
  qed
  then show ?thesis by (simp only: e)
qed

text \<open>C2: From power-up to the running station: when the heap gives the memory for its threads, the start of the kernel runs the main
  thread with only the idle thread ready beside it; \<open>Enviroment\<close>, called by the main thread, creates two semaphores of value 0 and two
  empty mailboxes, makes the three threads of the application ready in the order of their creation, and returns \<open>RT_EOK\<close>, with
  the main thread still running. When the main thread then sleeps, the modem's thread runs first.\<close>

theorem station_boots:
  assumes "cold s" "int_nest s = 0" "distinct [m, idle, nb, byh, disp]" "o1 \<noteq> o2" "iot \<noteq> led" "stack_fits b 2048" "stack_fits a 256"
    "stack_fits x 1024" "stack_fits y 1024" "stack_fits z 1024"
  shows "\<exists>s'. Enviroment (Some o1) (Some o2) iot led (Some nb, Some x) (Some byh, Some y) (Some disp, Some z)
       (rtthread_startup (Some m) (Some b) idle a s) = (Some o1, Some o2, RT_EOK, s') \<and>
     running s' m \<and> \<not> stuck s' \<and>
     lists s' = (\<lambda>l. if l = ReadyL 24 then [nb, byh] else if l = ReadyL 25 then [disp] else if l = ReadyL 31 then [idle] else []) \<and>
     (\<forall>n \<in> {o1, o2}. is_sem n s' \<and> s_value (sems s' n) = 0) \<and>
     (\<forall>n \<in> {iot, led}. is_mb n s' \<and> mb_list (mboxes s' n) = [] \<and> mb_size (mboxes s' n) = 5) \<and>
     running (rt_thread_mdelay 500 s') nb"
proof -
  have mi: "m \<noteq> idle" using assms(3) by simp
  note k = boot_runs[OF assms(1) mi assms(6,7)]
  let ?k = "rtthread_startup (Some m) (Some b) idle a s"
  have "prio ?k m < prio ?k u" if "statm ?k u = RT_THREAD_READY" for u
  proof -
    have "u = idle" using that k(2) k(7)[of u] by (cases "u = m") (auto simp: unused_def live_def running_def)
    then show ?thesis using k(3,5) by simp
  qed
  then have top: "topmost m ?k" using k(2) by (simp add: topmost_def)
  obtain s' where s': "Enviroment (Some o1) (Some o2) iot led (Some nb, Some x) (Some byh, Some y) (Some disp, Some z) ?k
       = (Some o1, Some o2, RT_EOK, s')" "wsys s'" "topmost m s'" "lock_nest s' = lock_nest ?k"
    "\<And>l. lists s' l = (if l = ReadyL 24 then lists ?k l @ [nb, byh] else if l = ReadyL 25 then lists ?k l @ [disp] else lists ?k l)"
    "\<And>n. n \<in> {o1, o2} \<Longrightarrow> is_sem n s' \<and> s_value (sems s' n) = 0"
    "\<And>n. n \<in> {iot, led} \<Longrightarrow> is_mb n s' \<and> mb_list (mboxes s' n) = [] \<and> mb_size (mboxes s' n) = 5"
    by (rule station_up[OF k(1) top, of o1 o2 iot led nb byh disp x y z]) (use assms k in auto)
  have l: "lists s' = (\<lambda>l. if l = ReadyL 24 then [nb, byh] else if l = ReadyL 25 then [disp] else if l = ReadyL 31 then [idle] else [])"
    by (auto simp: s'(5) k(6))
  have "running (rt_thread_mdelay 500 s') nb"
    unfolding rt_thread_mdelay_def
    by (rule sleep_gives_way[OF s'(2), of m 24 nb "[byh]"]) (use s'(3,4) k(8) in \<open>simp_all add: l topmost_def\<close>)
  then show ?thesis using s' l by (auto simp: topmost_def wsys_def ksys_def)
qed

text \<open>A kernel after the reset.\<close>

definition reset_kernel :: kernel where
  "reset_kernel = sample\<lparr>thr := (\<lambda>_. sample_thread 0 0), lists := (\<lambda>l. if l = ReadyL 3 then [7] else []), cur := None, timer_list := [ThreadTimer 4],
     sems := (\<lambda>_. \<lparr>s_type = 0, s_flag = 0, s_value = 0\<rparr>),
     mutexes := (\<lambda>_. \<lparr>m_type = 0, m_flag = 0, m_value = 0, m_original_priority = 0, m_hold = 0, m_owner = None\<rparr>),
     mboxes := (\<lambda>_. \<lparr>mb_type = 0, mb_flag = 0, mb_pool = [], mb_size = 0, mb_entry = 0, mb_in_offset = 0, mb_out_offset = 0\<rparr>),
     mqs := (\<lambda>_. sample_mq\<lparr>mq_type := 0\<rparr>)\<rparr>"

lemma reset_cold: "cold reset_kernel"
  by (simp add: cold_def reset_kernel_def statm_def sample_thread_def sample_sel one_shot_def is_sem_def is_mutex_def is_mb_def is_mq_def
      rt_object_get_type_def split: listid.split)

lemma stack_sample: "stack_fits 0x20000400 2048" "stack_fits 0x20001000 256" "stack_fits 0x20001400 1024"
  by (simp_all add: stack_fits_def)

lemma station_boots_witness:
  "\<exists>s'. snd (snd (Enviroment (Some 0) (Some 1) 0 1 (Some 3, Some 0x20001400) (Some 4, Some 0x20001400) (Some 5, Some 0x20001400)
     (rtthread_startup (Some 1) (Some 0x20000400) 2 0x20001000 reset_kernel))) = (RT_EOK, s') \<and> running (rt_thread_mdelay 500 s') 3"
proof -
  have i: "int_nest reset_kernel = 0" by (simp add: reset_kernel_def sample_sel)
  from station_boots[OF reset_cold i _ _ _ stack_sample(1,2) stack_sample(3) stack_sample(3) stack_sample(3), of 1 2 3 4 5 0 1 0 1]
  show ?thesis by auto
qed

end
