(* ===== verification/Idle.thy ===== *)
theory Idle
  imports Object
begin

text \<open>
  The idle thread, \<^verbatim>\<open>src/idle.c\<close>: the table of hooks and \<^verbatim>\<open>rt_thread_idle_excute\<close>, which takes the threads that have ended out
  of the list of defunct threads, calls their cleanup function, and gives the stack and the object of a created thread back to
  the heap. A thread is known to the scheduler by its number and to the container of objects by its node: \<open>node\<close> relates them.
  \<open>stk\<close> is the place in the heap of a stack address. The type byte of the object is also \<open>t_type\<close> of the thread.
\<close>

section \<open>Operations\<close>

text \<open>The table of hooks: a slot holds the address of a function or is null.\<close>

definition rt_thread_idle_sethook :: "nat option \<Rightarrow> nat option list \<Rightarrow> int \<times> nat option list" where
  "rt_thread_idle_sethook hook hs =
     (case find (\<lambda>i. hs ! i = None) [0 ..< 4] of None \<Rightarrow> (-RT_EFULL, hs) | Some i \<Rightarrow> (RT_EOK, hs[i := hook]))"

definition rt_thread_idle_delhook :: "nat option \<Rightarrow> nat option list \<Rightarrow> int \<times> nat option list" where
  "rt_thread_idle_delhook hook hs =
     (case find (\<lambda>i. hs ! i = hook) [0 ..< 4] of None \<Rightarrow> (-RT_ENOSYS, hs) | Some i \<Rightarrow> (RT_EOK, hs[i := None]))"

definition has_defunct_thread :: "osys \<Rightarrow> bool" where
  "has_defunct_thread s \<longleftrightarrow> lists (okern s) DefunctL \<noteq> []"

text \<open>Detaching or deleting the object clears its type byte, which the scheduler reads too.\<close>

definition untype :: "tid \<Rightarrow> osys \<Rightarrow> osys" where
  "untype t s = s\<lparr>okern := upd_thr t (\<lambda>th. th\<lparr>t_type := 0\<rparr>) (okern s)\<rparr>"

text \<open>The part of a round with interrupts disabled: the thread, and whether its object is static (the function then returns).\<close>

definition take_defunct :: "(tid \<Rightarrow> onode) \<Rightarrow> (tid \<Rightarrow> osys \<Rightarrow> osys) \<Rightarrow> tid \<Rightarrow> osys \<Rightarrow> bool \<times> osys" where
  "take_defunct node cleanup t s =
     (let s1 = s\<lparr>okern := list_remove t (okern s)\<rparr>;
          s2 = s1\<lparr>okern := rt_enter_critical (okern s1)\<rparr>;
          s3 = (if t_cleanup (thr (okern s2) t) then cleanup t s2 else s2)
      in if rt_object_is_systemobject (o_type (obj s3 (node t))) then
           let s4 = untype t (rt_object_detach (node t) s3) in (True, s4\<lparr>okern := rt_exit_critical (okern s4)\<rparr>)
         else (False, s3\<lparr>okern := rt_exit_critical (okern s3)\<rparr>))"

text \<open>The rest of the round for a created thread: its stack, then its object.\<close>

definition free_thread :: "(tid \<Rightarrow> onode) \<Rightarrow> (u32 \<Rightarrow> nat) \<Rightarrow> tid \<Rightarrow> osys \<Rightarrow> osys option" where
  "free_thread node stk t s =
     (case rt_free (Some (stk (t_stack_addr (thr (okern s) t)))) (oheap s) of
        None \<Rightarrow> None
      | Some hp \<Rightarrow> map_option (untype t) (rt_object_delete (node t) (s\<lparr>oheap := hp\<rparr>)))"

partial_function (option) rt_thread_idle_excute :: "(tid \<Rightarrow> onode) \<Rightarrow> (u32 \<Rightarrow> nat) \<Rightarrow> (tid \<Rightarrow> osys \<Rightarrow> osys) \<Rightarrow> osys \<Rightarrow> osys option" where
  "rt_thread_idle_excute node stk cleanup s =
     (if \<not> has_defunct_thread s then Some s
      else if int_nest (okern s) \<noteq> 0 then None
      else
        let t = hd (lists (okern s) DefunctL); r = take_defunct node cleanup t s
        in if fst r then Some (snd r)
           else case free_thread node stk t (snd r) of
                  None \<Rightarrow> None
                | Some s1 \<Rightarrow> rt_thread_idle_excute node stk cleanup s1)"

text \<open>One turn of the endless loop of the idle thread: the hooks in the order of the table, then the cleanup.\<close>

definition rt_thread_idle_entry :: "(nat \<Rightarrow> osys \<Rightarrow> osys) \<Rightarrow> nat option list \<Rightarrow> (tid \<Rightarrow> onode) \<Rightarrow> (u32 \<Rightarrow> nat) \<Rightarrow>
    (tid \<Rightarrow> osys \<Rightarrow> osys) \<Rightarrow> osys \<Rightarrow> osys option" where
  "rt_thread_idle_entry call hs node stk cleanup s =
     rt_thread_idle_excute node stk cleanup (fold (\<lambda>h s. case h of None \<Rightarrow> s | Some f \<Rightarrow> call f s) hs s)"

section \<open>The hooks\<close>

lemma find_slot:
  assumes "hs = us @ x # vs" "x \<notin> set us" "length hs = 4"
  shows "find (\<lambda>i. hs ! i = x) [0 ..< 4] = Some (length us)"
  unfolding find_Some_iff
proof (intro exI[of _ "length us"] conjI allI impI)
  show "length us < length [0 ..< 4]" "hs ! ([0 ..< 4] ! length us) = x" "length us = [0 ..< 4] ! length us"
    using assms by simp_all
  show "hs ! ([0 ..< 4] ! j) \<noteq> x" if "j < length us" for j
  proof -
    have "us ! j \<in> set us" using that by simp
    then have "us ! j \<noteq> x" using assms(2) by metis
    then show ?thesis using that assms by (simp add: nth_append)
  qed
qed

lemma sethook_full: "None \<notin> set hs \<Longrightarrow> length hs = 4 \<Longrightarrow> rt_thread_idle_sethook h hs = (-RT_EFULL, hs)"
  by (auto simp: rt_thread_idle_sethook_def find_None_iff in_set_conv_nth split: option.splits)

lemma sethook_slot:
  "length (us @ None # vs) = 4 \<Longrightarrow> None \<notin> set us \<Longrightarrow> rt_thread_idle_sethook h (us @ None # vs) = (RT_EOK, us @ h # vs)"
  using find_slot[of "us @ None # vs" us None vs] by (simp add: rt_thread_idle_sethook_def)

text \<open>Deleting a hook that was set frees its slot again.\<close>

lemma delhook_sethook:
  assumes "length hs = 4" "None \<in> set hs" "h \<notin> set hs"
  shows "rt_thread_idle_delhook h (snd (rt_thread_idle_sethook h hs)) = (RT_EOK, hs)"
proof -
  obtain us vs where u: "hs = us @ None # vs" "None \<notin> set us" using assms(2) by (meson split_list_first)
  have "find (\<lambda>i. (us @ h # vs) ! i = h) [0 ..< 4] = Some (length us)"
    by (rule find_slot[of _ us h vs]) (use u assms in simp_all)
  then show ?thesis using sethook_slot[of us vs h] u assms(1) by (simp add: rt_thread_idle_delhook_def)
qed

section \<open>A round\<close>

text \<open>The idle thread runs when nothing else can, with the scheduler unlocked.\<close>

definition idling :: "kernel \<Rightarrow> bool" where
  "idling k \<longleftrightarrow> ksys k \<and> ready_group k = 0 \<and> lock_nest k = 0 \<and> int_nest k = 0"

lemma allocated_fun: "(a, n) \<in> allocated h \<Longrightarrow> (a, n') \<in> allocated h \<Longrightarrow> n = n'"
  by (auto simp: allocated_def allocs_iff)

lemma allocated_without: "(a, n) \<in> allocated h \<Longrightarrow> allocated h - {(a, n)} = {p \<in> allocated h. fst p \<noteq> a}"
  by (auto dest: allocated_fun)

lemma idling_remove:
  assumes "idling k" "t \<in> set (lists k DefunctL)"
  shows "idling (list_remove t k)"
proof -
  have k: "kinv k" using assms(1) by (simp add: idling_def ksys_def)
  have st: "statm k t = RT_THREAD_CLOSE" using members_okD(4)[OF kbaseD(2)[OF kinv_partsD(1)[OF k]] assms(2)] by simp
  have "kbase {} (list_remove t k)"
    using kbase_list_remove[OF kinv_partsD(1)[OF k], of t] kbase_drop[of t "{}"] st by (simp add: kframe)
  moreover have "kcur (list_remove t k)" using kinv_partsD(2)[OF k] by (auto simp: kcur_def kframe)
  moreover have "sems_ok (list_remove t k)"
    by (rule sems_ok_shrink[of k]) (use assms(1) in \<open>auto simp: idling_def ksys_def list_remove_def\<close>)
  moreover have "int_nest (list_remove t k) = int_nest k" by (simp add: list_remove_def)
  ultimately show ?thesis using assms(1) by (simp add: idling_def ksys_def kinv_def kframe)
qed

lemma critical_idling: "idling k \<Longrightarrow> rt_exit_critical (rt_enter_critical k) = k"
  by (simp add: rt_exit_critical_def rt_enter_critical_def idling_def rt_schedule_def Let_def)

text \<open>The type of a thread that is dead may be cleared.\<close>

lemma idling_untype:
  assumes "idling k" "statm k t = RT_THREAD_CLOSE" "detached k t"
  shows "idling (upd_thr t (\<lambda>th. th\<lparr>t_type := 0\<rparr>) k)"
proof -
  let ?f = "\<lambda>th. th\<lparr>t_type := 0\<rparr> :: rt_thread"
  have k: "kinv k" using assms(1) by (simp add: idling_def ksys_def)
  have st: "statm (upd_thr t ?f k) = statm k" by (simp add: upd_thr_def statm_def fun_eq_iff)
  have off: "ThreadTimer t \<notin> set (timer_list k)" using timer_off[OF kinv_partsD(1)[OF k]] assms(2) by simp
  have "kbase {} (upd_thr t ?f k)"
    by (rule kbase_upd_free[OF kinv_partsD(1)[OF k] assms(3) off]) (use assms(2) st in \<open>simp_all add: live_def\<close>)
  moreover have "kcur (upd_thr t ?f k)" using kinv_partsD(2)[OF k] by (simp add: kcur_def st kframe)
  moreover have "sems_ok (upd_thr t ?f k)"
    by (rule sems_ok_shrink[of k]) (use assms(1) in \<open>auto simp: idling_def ksys_def kframe\<close>)
  moreover have "int_nest (upd_thr t ?f k) = int_nest k" by (simp add: upd_thr_def)
  ultimately show ?thesis using assms(1) by (simp add: idling_def ksys_def kinv_def kframe)
qed

lemma take_created:
  assumes "idling (okern s)" "t \<in> set (lists (okern s) DefunctL)" "cleanup = (\<lambda>_ s. s)"
    "\<not> rt_object_is_systemobject (o_type (obj s (node t)))"
  shows "take_defunct node cleanup t s = (False, s\<lparr>okern := list_remove t (okern s)\<rparr>)"
  using assms(3,4) critical_idling[OF idling_remove[OF assms(1,2)]] by (simp add: take_defunct_def Let_def)

lemma take_static:
  assumes "idling (okern s)" "t \<in> set (lists (okern s) DefunctL)" "cleanup = (\<lambda>_ s. s)"
    "rt_object_is_systemobject (o_type (obj s (node t)))"
  shows "take_defunct node cleanup t s = (True, untype t (rt_object_detach (node t) (s\<lparr>okern := list_remove t (okern s)\<rparr>)))"
proof -
  let ?k = "list_remove t (okern s)"
  let ?f = "\<lambda>th. th\<lparr>t_type := 0\<rparr> :: rt_thread"
  have i: "idling ?k" by (rule idling_remove[OF assms(1,2)])
  have k: "kinv (okern s)" using assms(1) by (simp add: idling_def ksys_def)
  have st: "statm ?k t = RT_THREAD_CLOSE"
    using members_okD(4)[OF kbaseD(2)[OF kinv_partsD(1)[OF k]] assms(2)] by (simp add: kframe)
  have u: "idling (upd_thr t ?f ?k)" by (rule idling_untype[OF i st]) (simp add: detached_def kframe)
  have "upd_thr t ?f (rt_enter_critical ?k) = rt_enter_critical (upd_thr t ?f ?k)"
    by (simp add: rt_enter_critical_def upd_thr_def)
  then show ?thesis using assms(3,4) critical_idling[OF u]
    by (simp add: take_defunct_def Let_def untype_def rt_object_detach_def)
qed

lemma defunct_closed:
  assumes "idling k" "t \<in> set (lists k DefunctL)"
  shows "statm (list_remove t k) t = RT_THREAD_CLOSE" "detached (list_remove t k) t"
    "lists k DefunctL = t # ts \<Longrightarrow> lists (list_remove t k) DefunctL = ts"
proof -
  have k: "kinv k" using assms(1) by (simp add: idling_def ksys_def)
  show "statm (list_remove t k) t = RT_THREAD_CLOSE"
    using members_okD(4)[OF kbaseD(2)[OF kinv_partsD(1)[OF k]] assms(2)] by (simp add: kframe)
  show "detached (list_remove t k) t" by (simp add: detached_def kframe)
  assume l: "lists k DefunctL = t # ts"
  then have "distinct (t # ts)" using kbaseD(1)[OF kinv_partsD(1)[OF k]] unfolding lists_ok_def by metis
  then show "lists (list_remove t k) DefunctL = ts" using l by (simp add: kframe)
qed

lemma free_created:
  assumes "obj_inv s cs" "idling (okern s)" "statm (okern s) t = RT_THREAD_CLOSE" "detached (okern s) t"
    "node t = Hobj a" "Hobj a \<in> set (cs 0)" "b = stk (t_stack_addr (thr (okern s) t))" "b \<in> fst ` allocated (oheap s)"
    "\<forall>j < 10. Hobj b \<notin> set (cs j)"
  obtains s' where "free_thread node stk t s = Some s'" "obj_inv s' (cs(0 := remove1 (Hobj a) (cs 0)))" "idling (okern s')"
    "lists (okern s') = lists (okern s)" "\<And>u. u \<noteq> t \<Longrightarrow> thr (okern s') u = thr (okern s) u"
    "allocated (oheap s') = {p \<in> allocated (oheap s). fst p \<noteq> a \<and> fst p \<noteq> b}"
proof -
  obtain n where n: "(b, n) \<in> allocated (oheap s)" using assms(8) by auto
  have h: "heap_ok (oheap s)" using assms(1) by (simp add: obj_inv_def)
  obtain hp where hp: "rt_free (Some b) (oheap s) = Some hp" "heap_ok hp" "allocated hp = allocated (oheap s) - {(b, n)}"
    using free_ok[OF h n] by blast
  let ?s1 = "s\<lparr>oheap := hp\<rparr>"
  have "obj_ok ?s1 (container_types ! j) y" if y: "j < 10" "y \<in> set (cs j)" for j y
  proof -
    have ok: "obj_ok s (container_types ! j) y" by (rule obj_invD[OF assms(1) y])
    show ?thesis
    proof (cases y)
      case (Hobj c)
      then have "c \<noteq> b" "c \<in> fst ` allocated (oheap s)" using assms(9) y ok by (auto simp: obj_ok_def)
      then have "c \<in> fst ` allocated hp" by (force simp: hp(3))
      then show ?thesis using ok Hobj by (simp add: obj_ok_def)
    qed (use ok in \<open>simp_all add: obj_ok_def\<close>)
  qed
  then have i1: "obj_inv ?s1 cs" using assms(1) hp(2) by (simp add: obj_inv_def)
  obtain s2 k where s2: "rt_object_delete (Hobj a) ?s1 = Some s2" "obj_inv s2 (cs(0 := remove1 (Hobj a) (cs 0)))"
    "(a, k) \<in> allocated (oheap ?s1)" "allocated (oheap s2) = allocated (oheap ?s1) - {(a, k)}"
    using object_delete_removes[OF i1 _ assms(6)] assms(2) by (auto simp: idling_def)
  have ok2: "okern s2 = okern s"
    using s2(1) by (auto simp: rt_object_delete_def rt_object_detach_def Let_def split: if_splits option.splits)
  have id: "idling (okern (untype t s2))" using idling_untype[OF assms(2-4)] by (simp add: untype_def ok2)
  show ?thesis
  proof (rule that)
    show "free_thread node stk t s = Some (untype t s2)" using hp(1) s2(1) assms(5,7) by (simp add: free_thread_def)
    show "obj_inv (untype t s2) (cs(0 := remove1 (Hobj a) (cs 0)))"
      using s2(2) id by (simp add: obj_inv_def untype_def idling_def)
    show "idling (okern (untype t s2))" by (rule id)
    show "lists (okern (untype t s2)) = lists (okern s)" by (simp add: untype_def ok2 kframe)
    show "thr (okern (untype t s2)) u = thr (okern s) u" if "u \<noteq> t" for u using that by (simp add: untype_def ok2 upd_thr_def)
    have "allocated (oheap (untype t s2)) = allocated (oheap s2)" by (simp add: untype_def)
    also have "\<dots> = allocated (oheap s) - {(b, n)} - {(a, k)}" using s2(4) hp(3) by simp
    also have "\<dots> = {p \<in> allocated (oheap s). fst p \<noteq> a \<and> fst p \<noteq> b}"
      using s2(3) hp(3) allocated_without[OF n] allocated_without[of a k "oheap s"] by auto
    finally show "allocated (oheap (untype t s2)) = {p \<in> allocated (oheap s). fst p \<noteq> a \<and> fst p \<noteq> b}" .
  qed
qed

section \<open>The cleanup\<close>

lemma remove1_filter: "distinct xs \<Longrightarrow> remove1 x xs = filter (\<lambda>y. y \<noteq> x) xs"
  by (simp add: distinct_remove1_removeAll removeAll_filter_not_eq eq_commute)

lemma idle_all:
  assumes "obj_inv s cs" "idling (okern s)" "lists (okern s) DefunctL = ds @ rest"
    "\<And>t. t \<in> set ds \<Longrightarrow> node t = Hobj (addr t) \<and> Hobj (addr t) \<in> set (cs 0) \<and> stack t = stk (t_stack_addr (thr (okern s) t)) \<and>
       stack t \<in> fst ` allocated (oheap s) \<and> (\<forall>j < 10. Hobj (stack t) \<notin> set (cs j))"
    "distinct (map addr ds)" "distinct (map stack ds)" "cleanup = (\<lambda>_ s. s)"
    "rest \<noteq> [] \<Longrightarrow> node (hd rest) = Sobj n \<and> Sobj n \<in> set (cs 0)"
  shows "\<exists>s'. rt_thread_idle_excute node stk cleanup s = Some s' \<and>
     obj_inv s' (cs(0 := filter (\<lambda>x. x \<notin> node ` set (ds @ take 1 rest)) (cs 0))) \<and>
     idling (okern s') \<and> lists (okern s') DefunctL = tl rest \<and>
     allocated (oheap s') = {p \<in> allocated (oheap s). fst p \<notin> addr ` set ds \<and> fst p \<notin> stack ` set ds}"
  using assms
proof (induction ds arbitrary: s cs)
  case Nil
  note p = Nil.prems
  show ?case
  proof (cases rest)
    case Nil
    then show ?thesis using p(1-3) by (subst rt_thread_idle_excute.simps) (auto simp: has_defunct_thread_def)
  next
    case (Cons t ts)
    have l: "lists (okern s) DefunctL = t # ts" using p(3) Cons by simp
    have t: "t \<in> set (lists (okern s) DefunctL)" by (simp add: l)
    have x: "node t = Sobj n" "Sobj n \<in> set (cs 0)" using p(8) Cons by simp_all
    have sys: "rt_object_is_systemobject (o_type (obj s (node t)))"
      using obj_invD[OF p(1) _ x(2)] x(1) by (simp add: obj_ok_def container_types_def rt_object_is_systemobject_def)
    let ?s1 = "s\<lparr>okern := list_remove t (okern s)\<rparr>"
    let ?s2 = "rt_object_detach (node t) ?s1"
    have i1: "idling (okern ?s1)" using idling_remove[OF p(2) t] by simp
    have o1: "obj_inv ?s1 cs" using p(1) i1 by (simp add: obj_inv_def idling_def)
    have o2: "obj_inv ?s2 (cs(0 := remove1 (node t) (cs 0)))" by (rule object_detach_removes[OF o1]) (use x in simp_all)
    have k2: "okern ?s2 = list_remove t (okern s)" "oheap ?s2 = oheap s" by (simp_all add: rt_object_detach_def Let_def)
    have i2: "idling (okern (untype t ?s2))"
      using idling_untype[OF idling_remove[OF p(2) t] defunct_closed(1,2)[OF p(2) t]] by (simp add: untype_def k2)
    have r: "rt_thread_idle_excute node stk cleanup s = Some (untype t ?s2)"
      using take_static[OF p(2) t p(7), of node, OF sys] l p(2) by (subst rt_thread_idle_excute.simps) (simp add: idling_def has_defunct_thread_def Let_def)
    have d: "distinct (cs 0)" using p(1) rings_distinct[of "olinks s" cs 0] by (simp add: obj_inv_def)
    have "obj_inv (untype t ?s2) (cs(0 := filter (\<lambda>x. x \<noteq> node t) (cs 0)))"
      using o2 i2 remove1_filter[OF d, of "node t"] by (simp add: obj_inv_def untype_def idling_def)
    moreover have "lists (okern (untype t ?s2)) DefunctL = ts"
      using defunct_closed(3)[OF p(2) t l] by (simp add: untype_def k2 kframe)
    moreover have "oheap (untype t ?s2) = oheap s" by (simp add: untype_def k2)
    ultimately show ?thesis using r i2 Cons by (simp add: fun_upd_def)
  qed
next
  case (Cons t ds)
  note p = Cons.prems
  have l: "lists (okern s) DefunctL = t # ds @ rest" using p(3) by simp
  have t: "t \<in> set (lists (okern s) DefunctL)" by (simp add: l)
  have x: "node t = Hobj (addr t)" "Hobj (addr t) \<in> set (cs 0)" "stack t = stk (t_stack_addr (thr (okern s) t))"
    "stack t \<in> fst ` allocated (oheap s)" "\<forall>j < 10. Hobj (stack t) \<notin> set (cs j)" using p(4)[OF list.set_intros(1)] by blast+
  have sys: "\<not> rt_object_is_systemobject (o_type (obj s (node t)))"
    using obj_invD[OF p(1) _ x(2)] x(1) by (simp add: obj_ok_def container_types_def rt_object_is_systemobject_def)
  let ?s1 = "s\<lparr>okern := list_remove t (okern s)\<rparr>"
  have i1: "idling (okern ?s1)" using idling_remove[OF p(2) t] by simp
  have o1: "obj_inv ?s1 cs" using p(1) i1 by (simp add: obj_inv_def idling_def)
  have dc: "statm (okern ?s1) t = RT_THREAD_CLOSE" "detached (okern ?s1) t" using defunct_closed(1,2)[OF p(2) t] by simp_all
  have st: "stack t = stk (t_stack_addr (thr (okern ?s1) t))" "stack t \<in> fst ` allocated (oheap ?s1)" by (simp add: x(3) kframe, simp add: x(4))
  obtain s' where s': "free_thread node stk t ?s1 = Some s'" "obj_inv s' (cs(0 := remove1 (Hobj (addr t)) (cs 0)))" "idling (okern s')"
    "lists (okern s') = lists (okern ?s1)" "\<And>u. u \<noteq> t \<Longrightarrow> thr (okern s') u = thr (okern ?s1) u"
    "allocated (oheap s') = {p \<in> allocated (oheap ?s1). fst p \<noteq> addr t \<and> fst p \<noteq> stack t}"
    using free_created[OF o1 i1 dc, of node "addr t" "stack t" stk, OF x(1,2) st x(5)] by blast
  let ?cs = "cs(0 := remove1 (Hobj (addr t)) (cs 0))"
  have r: "rt_thread_idle_excute node stk cleanup s = rt_thread_idle_excute node stk cleanup s'"
    using take_created[OF p(2) t p(7), of node, OF sys] l s'(1) p(2) by (subst rt_thread_idle_excute.simps) (simp add: idling_def has_defunct_thread_def Let_def)
  have tds: "t \<notin> set ds"
    using kbaseD(1)[of "{}" "okern s"] l p(2) unfolding lists_ok_def idling_def ksys_def kinv_def by (metis UnCI distinct.simps(2) set_append)
  have d: "distinct (cs 0)" using p(1) rings_distinct[of "olinks s" cs 0] by (simp add: obj_inv_def)
  have ih: "\<exists>s''. rt_thread_idle_excute node stk cleanup s' = Some s'' \<and>
     obj_inv s'' (?cs(0 := filter (\<lambda>x. x \<notin> node ` set (ds @ take 1 rest)) (?cs 0))) \<and>
     idling (okern s'') \<and> lists (okern s'') DefunctL = tl rest \<and>
     allocated (oheap s'') = {p \<in> allocated (oheap s'). fst p \<notin> addr ` set ds \<and> fst p \<notin> stack ` set ds}"
  proof (rule Cons.IH[OF s'(2,3)])
    show "lists (okern s') DefunctL = ds @ rest" using s'(4) defunct_closed(3)[OF p(2) t l] by simp
    show "node u = Hobj (addr u) \<and> Hobj (addr u) \<in> set (?cs 0) \<and> stack u = stk (t_stack_addr (thr (okern s') u)) \<and>
       stack u \<in> fst ` allocated (oheap s') \<and> (\<forall>j < 10. Hobj (stack u) \<notin> set (?cs j))" if "u \<in> set ds" for u
    proof -
      have q: "node u = Hobj (addr u)" "Hobj (addr u) \<in> set (cs 0)" "stack u = stk (t_stack_addr (thr (okern s) u))"
        "stack u \<in> fst ` allocated (oheap s)" "\<forall>j < 10. Hobj (stack u) \<notin> set (cs j)"
        using p(4)[OF list.set_intros(2)[OF that]] by blast+
      have "addr u \<in> addr ` set ds" "stack u \<in> stack ` set ds" using that by simp_all
      then have ut: "u \<noteq> t" "addr u \<noteq> addr t" "stack u \<noteq> stack t" using that tds p(5,6) by (auto simp del: image_eqI)
      have "stack u \<noteq> addr t" using q(5) x(2) by force
      moreover obtain n where "(stack u, n) \<in> allocated (oheap s)" using q(4) by auto
      ultimately have "(stack u, n) \<in> allocated (oheap s')" using ut(3) by (simp add: s'(6))
      then have m: "stack u \<in> fst ` allocated (oheap s')" by force
      have e: "stack u = stk (t_stack_addr (thr (okern s') u))" using q(3) s'(5)[OF ut(1)] by (simp add: kframe)
      have "Hobj (addr u) \<in> set (?cs 0)" "\<forall>j < 10. Hobj (stack u) \<notin> set (?cs j)" using q(2,5) ut(2) d by (auto simp: remove1_filter)
      then show ?thesis using q(1) m e by blast
    qed
    show "distinct (map addr ds)" "distinct (map stack ds)" using p(5,6) by simp_all
    show "cleanup = (\<lambda>_ s. s)" by (rule p(7))
    show "node (hd rest) = Sobj n \<and> Sobj n \<in> set (?cs 0)" if "rest \<noteq> []" using p(8)[OF that] d by (simp add: remove1_filter)
  qed
  have e: "?cs(0 := filter (\<lambda>x. x \<notin> node ` set (ds @ take 1 rest)) (?cs 0)) =
      cs(0 := filter (\<lambda>x. x \<notin> node ` set ((t # ds) @ take 1 rest)) (cs 0))"
    using d x(1) by (auto simp: remove1_filter intro!: ext filter_cong)
  show ?case using ih s'(6) unfolding r e by (auto simp: kframe fun_upd_def)
qed

end
