(* ===== verification/IdleProps.thy ===== *)
theory IdleProps
  imports Idle MemProps Sample
begin

text \<open>What the idle thread does with the threads that have ended.\<close>

section \<open>An idle system\<close>

text \<open>Thread 0 is the idle thread, thread 1 a created thread that was deleted; its object is at 12, its stack at 124.\<close>

definition idle_kernel :: kernel where
  "idle_kernel = sample\<lparr>thr := (\<lambda>t. if t = 0 then sample_thread 3 31 else if t = 1 then (sample_thread 4 12)\<lparr>t_type := 1\<rparr> else sample_thread 0 12),
     lists := (\<lambda>l. if l = DefunctL then [1] else []), ready_group := 0, timer_list := []\<rparr>"

lemma idle_kernel_stat: "statm idle_kernel t = (if t = 0 then RT_THREAD_RUNNING else if t = 1 then RT_THREAD_CLOSE else RT_THREAD_INIT)"
  by (simp add: statm_def idle_kernel_def sample_thread_def)

lemma idle_kernel_ok: "idling idle_kernel"
proof -
  have l: "lists idle_kernel l = (if l = DefunctL then [1] else [])" for l by (simp add: idle_kernel_def)
  have "thread_ok idle_kernel 0"
    by (simp add: thread_ok_def prio_def idle_kernel_def sample_thread_fields sample_sel rt_object_get_type_def rt_object_is_systemobject_def)
  then have "thread_ok idle_kernel t" if "live (statm idle_kernel t)" for t
    using that by (simp add: idle_kernel_stat live_def split: if_splits)
  moreover have "bits_ok idle_kernel" by (simp add: bits_ok_def l) (simp add: idle_kernel_def)
  moreover have "timers_ok idle_kernel" by (simp add: timers_ok_def idle_kernel_def)
  ultimately have "kbase {} idle_kernel"
    by (auto simp: kbase_def lists_ok_def members_ok_def l idle_kernel_stat split: if_splits)
  moreover have "kcur idle_kernel"
    by (auto simp: kcur_def idle_kernel_stat l split: if_splits) (simp_all add: idle_kernel_def sample_sel)
  moreover have "tm_ok idle_kernel"
    by (simp add: tm_ok_def timers_idle_def one_shot_def timer_sorted_def idle_kernel_def sample_sel)
  moreover have "sems_ok idle_kernel"
    by (simp add: sems_ok_def sem_inv_def l)
  ultimately show ?thesis by (simp add: idling_def ksys_def kinv_def) (simp add: idle_kernel_def sample_sel)
qed

definition idle_system :: "heap \<Rightarrow> osys" where
  "idle_system h = \<lparr>olinks = \<lparr>nxt = (\<lambda>n. n)(Head 0 := Hobj 12, Hobj 12 := Head 0), prv = (\<lambda>n. n)(Head 0 := Hobj 12, Hobj 12 := Head 0)\<rparr>,
     obj = (\<lambda>_. \<lparr>o_name = replicate 8 0, o_type = 1, o_flag = 0\<rparr>), oheap = h, okern = idle_kernel\<rparr>"

lemma idle_system_ok:
  assumes "heap_ok h" "12 \<in> fst ` allocated h"
  shows "obj_inv (idle_system h) (\<lambda>i. if i = 0 then [Hobj 12] else [])"
proof -
  have "rt_strncpy (replicate 8 0) 8 = replicate 8 0" by (rule rt_strncpy_zeros)
  then have "obj_ok (idle_system h) (container_types ! 0) (Hobj 12)"
    using assms(2) by (simp add: obj_ok_def idle_system_def container_types_def)
  then show ?thesis using assms(1) idle_kernel_ok
    by (auto simp: obj_inv_def rings_def dring_def idle_system_def idling_def)
qed

section \<open>The property\<close>

text \<open>C31: The idle thread cleans up: the created threads at the front of the list of defunct threads are gone after one call, each taken
  out of the list and out of the container of objects, and their stacks and objects, and nothing else, given back to the heap. The call
  ends with the first thread whose object is static: it is detached, and those behind it stay for the next call.\<close>

theorem idle_reclaims:
  assumes "obj_inv s cs" "idling (okern s)" "lists (okern s) DefunctL = ds @ rest"
    "\<And>t. t \<in> set ds \<Longrightarrow> node t = Hobj (addr t) \<and> Hobj (addr t) \<in> set (cs 0) \<and> stack t = stk (t_stack_addr (thr (okern s) t)) \<and>
       stack t \<in> fst ` allocated (oheap s) \<and> (\<forall>j < 10. Hobj (stack t) \<notin> set (cs j))"
    "distinct (map addr ds)" "distinct (map stack ds)" "cleanup = (\<lambda>_ s. s)"
    "rest \<noteq> [] \<Longrightarrow> node (hd rest) = Sobj n \<and> Sobj n \<in> set (cs 0)"
  shows "\<exists>s'. rt_thread_idle_excute node stk cleanup s = Some s' \<and>
     obj_inv s' (cs(0 := filter (\<lambda>x. x \<notin> node ` set (ds @ take 1 rest)) (cs 0))) \<and>
     lists (okern s') DefunctL = tl rest \<and>
     allocated (oheap s') = {p \<in> allocated (oheap s). fst p \<notin> addr ` set ds \<and> fst p \<notin> stack ` set ds}"
  using idle_all[OF assms] by blast

lemma idle_reclaims_witness:
  "\<exists>h s'. 12 \<in> fst ` allocated h \<and> 124 \<in> fst ` allocated h \<and>
     rt_thread_idle_excute (\<lambda>_. Hobj 12) (\<lambda>_. 124) (\<lambda>_ s. s) (idle_system h) = Some s' \<and> lists (okern s') DefunctL = [] \<and>
     12 \<notin> fst ` allocated (oheap s') \<and> 124 \<notin> fst ` allocated (oheap s')"
proof (rule full_heap)
  fix h assume h: "heap_inv h [0, 112, 224]" "hblk h 0 = \<lparr>h_magic = HEAP_MAGIC, h_used = 1, h_next = 112, h_prev = 0\<rparr>"
    "h_used (hblk h 112) = 1" "lfree h = 224"
  have a: "heap_ok h" "12 \<in> fst ` allocated h" "124 \<in> fst ` allocated h"
    using heap_okI[OF h(1)] h(2,3) by (auto simp: allocs_Cons)
  have l: "lists (okern (idle_system h)) DefunctL = [1] @ []" by (simp add: idle_system_def idle_kernel_def)
  have i: "idling (okern (idle_system h))" "oheap (idle_system h) = h" using idle_kernel_ok by (simp_all add: idle_system_def)
  from idle_reclaims[OF idle_system_ok[OF a(1,2)] i(1) l, of "\<lambda>_. Hobj 12" "\<lambda>_. 12" "\<lambda>_. 124" "\<lambda>_. 124" "\<lambda>_ s. s"]
  show ?thesis using a i(2) by fastforce
qed

end
