(* ===== verification/Device.thy ===== *)
theory Device
  imports Object
begin

text \<open>
  The device layer of \<^verbatim>\<open>src/device.c\<close>: devices are objects of their class in the container of theory \<open>Object\<close>, and an operation
  on a device is passed to its driver, a table of functions some of which may be missing. The operations are generic in
  what a driver keeps behind the common fields. A result \<open>None\<close> is a failed assertion.
\<close>

section \<open>Data\<close>

abbreviation (input) RT_EBUSY :: int where "RT_EBUSY \<equiv> 7"
abbreviation (input) RT_EIO :: int where "RT_EIO \<equiv> 8"
abbreviation (input) RT_Object_Class_Device :: u8 where "RT_Object_Class_Device \<equiv> 9"

abbreviation (input) RT_DEVICE_FLAG_STANDALONE :: u16 where "RT_DEVICE_FLAG_STANDALONE \<equiv> 0x008"
abbreviation (input) RT_DEVICE_FLAG_ACTIVATED :: u16 where "RT_DEVICE_FLAG_ACTIVATED \<equiv> 0x010"
abbreviation (input) RT_DEVICE_FLAG_SUSPENDED :: u16 where "RT_DEVICE_FLAG_SUSPENDED \<equiv> 0x020"
abbreviation (input) RT_DEVICE_FLAG_STREAM :: u16 where "RT_DEVICE_FLAG_STREAM \<equiv> 0x040"
abbreviation (input) RT_DEVICE_FLAG_INT_RX :: u16 where "RT_DEVICE_FLAG_INT_RX \<equiv> 0x100"
abbreviation (input) RT_DEVICE_FLAG_DMA_RX :: u16 where "RT_DEVICE_FLAG_DMA_RX \<equiv> 0x200"
abbreviation (input) RT_DEVICE_FLAG_INT_TX :: u16 where "RT_DEVICE_FLAG_INT_TX \<equiv> 0x400"
abbreviation (input) RT_DEVICE_FLAG_DMA_TX :: u16 where "RT_DEVICE_FLAG_DMA_TX \<equiv> 0x800"
abbreviation (input) RT_DEVICE_OFLAG_OPEN :: u16 where "RT_DEVICE_OFLAG_OPEN \<equiv> 0x008"
abbreviation (input) RT_DEVICE_OFLAG_MASK :: u16 where "RT_DEVICE_OFLAG_MASK \<equiv> 0xf0f"

text \<open>\<open>d_type\<close> is the class of the object a device starts with; of the call-backs it matters here whether they are set.\<close>

record device =
  d_type :: u8
  d_flag :: u16
  d_open_flag :: u16
  d_ref_count :: u8
  d_rx_indicate :: bool
  d_tx_complete :: bool

text \<open>A driver. What a read gives is a count and the bytes that are there when it returns; a control has an argument.\<close>

record ('d, 'a) dev_ops =
  op_init :: "('d \<Rightarrow> (int \<times> 'd) option) option"
  op_open :: "(u16 \<Rightarrow> 'd \<Rightarrow> (int \<times> 'd) option) option"
  op_close :: "('d \<Rightarrow> (int \<times> 'd) option) option"
  op_read :: "(nat \<Rightarrow> 'd \<Rightarrow> ((nat \<times> u8 list) \<times> 'd) option) option"
  op_write :: "(u8 list \<Rightarrow> 'd \<Rightarrow> (nat \<times> 'd) option) option"
  op_control :: "(int \<Rightarrow> 'a \<Rightarrow> 'd \<Rightarrow> (int \<times> 'd) option) option"

definition has_flag :: "u16 \<Rightarrow> u16 \<Rightarrow> bool" where "has_flag w f \<longleftrightarrow> w AND f \<noteq> 0"

definition is_device :: "'x device_scheme \<Rightarrow> bool" where
  "is_device d \<longleftrightarrow> rt_object_get_type (d_type d) = RT_Object_Class_Device"

section \<open>Devices in the container\<close>

text \<open>The search takes the lock only when there is a current thread.\<close>

definition rt_device_find :: "u8 list \<Rightarrow> osys \<Rightarrow> (onode option \<times> osys) option" where
  "rt_device_find name s =
     (let s1 = (if rt_thread_self (okern s) \<noteq> None then s\<lparr>okern := rt_enter_critical (okern s)\<rparr> else s)
      in case rt_object_get_information RT_Object_Class_Device of
           None \<Rightarrow> None
         | Some i \<Rightarrow>
             (case find_loop s1 (Head i) name (nxt (olinks s1) (Head i)) of
                None \<Rightarrow> None
              | Some r \<Rightarrow>
                  Some (r, if rt_thread_self (okern s1) \<noteq> None then s1\<lparr>okern := rt_exit_critical (okern s1)\<rparr> else s1)))"

text \<open>The fields of the device beside the object, after it was registered.\<close>

definition registered :: "u16 \<Rightarrow> 'x device_scheme \<Rightarrow> 'x device_scheme" where
  "registered flags d = d\<lparr>d_flag := flags, d_ref_count := 0, d_open_flag := 0\<rparr>"

definition rt_device_register :: "onode option \<Rightarrow> u8 list \<Rightarrow> u16 \<Rightarrow> 'x device_scheme \<Rightarrow> osys \<Rightarrow>
    (int \<times> 'x device_scheme \<times> osys) option" where
  "rt_device_register dev name flags d s =
     (case dev of
        None \<Rightarrow> Some (-RT_ERROR, d, s)
      | Some x \<Rightarrow>
          (case rt_device_find name s of
             None \<Rightarrow> None
           | Some (Some _, s1) \<Rightarrow> Some (-RT_ERROR, d, s1)
           | Some (None, s1) \<Rightarrow>
               (case rt_object_init x RT_Object_Class_Device name s1 of
                  None \<Rightarrow> None
                | Some s2 \<Rightarrow> Some (RT_EOK, registered flags (d\<lparr>d_type := o_type (obj s2 x)\<rparr>), s2))))"

definition rt_device_unregister :: "onode \<Rightarrow> osys \<Rightarrow> (int \<times> osys) option" where
  "rt_device_unregister x s =
     (if rt_object_get_type (o_type (obj s x)) \<noteq> RT_Object_Class_Device then None
      else if \<not> rt_object_is_systemobject (o_type (obj s x)) then None
      else Some (RT_EOK, rt_object_detach x s))"

text \<open>A device in the heap: \<open>head_size\<close> is \<^verbatim>\<open>sizeof(struct rt_device)\<close>.\<close>

definition rt_device_create :: "u32 \<Rightarrow> u32 \<Rightarrow> heap \<Rightarrow> (nat option \<times> heap) option" where
  "rt_device_create head_size attach_size h =
     (case rt_malloc (align4 head_size + align4 attach_size) h of
        None \<Rightarrow> None
      | Some (None, h1) \<Rightarrow> Some (None, h1)
      | Some (Some a, h1) \<Rightarrow> Some (Some a, h1\<lparr>hdata := rt_memset a 0 (unat head_size) (hdata h1)\<rparr>))"

definition rt_device_destroy :: "onode \<Rightarrow> osys \<Rightarrow> osys option" where
  "rt_device_destroy x s =
     (if rt_object_get_type (o_type (obj s x)) \<noteq> RT_Object_Class_Device then None
      else if rt_object_is_systemobject (o_type (obj s x)) then None
      else
        let s1 = rt_object_detach x s
        in case kernel_free x (oheap s1) of None \<Rightarrow> None | Some hp \<Rightarrow> Some (s1\<lparr>oheap := hp\<rparr>))"

section \<open>Operations on a device\<close>

definition rt_device_init :: "('x device_scheme, 'a) dev_ops \<Rightarrow> 'x device_scheme \<Rightarrow> (int \<times> 'x device_scheme) option" where
  "rt_device_init ops d =
     (case op_init ops of
        None \<Rightarrow> Some (RT_EOK, d)
      | Some f \<Rightarrow>
          if has_flag (d_flag d) RT_DEVICE_FLAG_ACTIVATED then Some (RT_EOK, d)
          else
            (case f d of
               None \<Rightarrow> None
             | Some (r, d1) \<Rightarrow> Some (r, if r \<noteq> RT_EOK then d1 else d1\<lparr>d_flag := d_flag d1 OR RT_DEVICE_FLAG_ACTIVATED\<rparr>)))"

text \<open>The first part of \<^verbatim>\<open>rt_device_open\<close>: a device that is not active is initialised.\<close>

definition activate :: "('x device_scheme, 'a) dev_ops \<Rightarrow> 'x device_scheme \<Rightarrow> (int \<times> 'x device_scheme) option" where
  "activate ops d =
     (if has_flag (d_flag d) RT_DEVICE_FLAG_ACTIVATED then Some (RT_EOK, d)
      else
        (case (case op_init ops of None \<Rightarrow> Some (RT_EOK, d) | Some f \<Rightarrow> f d) of
           None \<Rightarrow> None
         | Some (r, d1) \<Rightarrow>
             if r \<noteq> RT_EOK then Some (r, d1) else Some (RT_EOK, d1\<lparr>d_flag := d_flag d1 OR RT_DEVICE_FLAG_ACTIVATED\<rparr>)))"

definition call_open :: "('x device_scheme, 'a) dev_ops \<Rightarrow> u16 \<Rightarrow> 'x device_scheme \<Rightarrow> (int \<times> 'x device_scheme) option" where
  "call_open ops oflag d =
     (case op_open ops of
        None \<Rightarrow> Some (RT_EOK, d\<lparr>d_open_flag := oflag AND RT_DEVICE_OFLAG_MASK\<rparr>)
      | Some f \<Rightarrow> f oflag d)"

definition rt_device_open :: "('x device_scheme, 'a) dev_ops \<Rightarrow> u16 \<Rightarrow> 'x device_scheme \<Rightarrow> (int \<times> 'x device_scheme) option" where
  "rt_device_open ops oflag d =
     (if \<not> is_device d then None
      else
        case activate ops d of
          None \<Rightarrow> None
        | Some (r, d1) \<Rightarrow>
            if r \<noteq> RT_EOK then Some (r, d1)
            else if has_flag (d_flag d1) RT_DEVICE_FLAG_STANDALONE \<and> has_flag (d_open_flag d1) RT_DEVICE_OFLAG_OPEN
            then Some (-RT_EBUSY, d1)
            else
              (case call_open ops oflag d1 of
                 None \<Rightarrow> None
               | Some (r2, d2) \<Rightarrow>
                   if r2 = RT_EOK \<or> r2 = -RT_ENOSYS then
                     let d3 = d2\<lparr>d_open_flag := d_open_flag d2 OR RT_DEVICE_OFLAG_OPEN, d_ref_count := d_ref_count d2 + 1\<rparr>
                     in if d_ref_count d3 = 0 then None else Some (r2, d3)
                   else Some (r2, d2)))"

definition rt_device_close :: "('x device_scheme, 'a) dev_ops \<Rightarrow> 'x device_scheme \<Rightarrow> (int \<times> 'x device_scheme) option" where
  "rt_device_close ops d =
     (if \<not> is_device d then None
      else if d_ref_count d = 0 then Some (-RT_ERROR, d)
      else
        let d1 = d\<lparr>d_ref_count := d_ref_count d - 1\<rparr>
        in if d_ref_count d1 \<noteq> 0 then Some (RT_EOK, d1)
           else
             (case (case op_close ops of None \<Rightarrow> Some (RT_EOK, d1) | Some f \<Rightarrow> f d1) of
                None \<Rightarrow> None
              | Some (r, d2) \<Rightarrow> Some (r, if r = RT_EOK \<or> r = -RT_ENOSYS then d2\<lparr>d_open_flag := 0\<rparr> else d2)))"

text \<open>A read or write: what the driver returns, or the error number that is set while 0 is returned.\<close>

definition rt_device_read :: "('x device_scheme, 'a) dev_ops \<Rightarrow> nat \<Rightarrow> 'x device_scheme \<Rightarrow>
    ((int + nat \<times> u8 list) \<times> 'x device_scheme) option" where
  "rt_device_read ops sz d =
     (if \<not> is_device d then None
      else if d_ref_count d = 0 then Some (Inl (-RT_ERROR), d)
      else case op_read ops of
             None \<Rightarrow> Some (Inl (-RT_ENOSYS), d)
           | Some f \<Rightarrow> map_option (apfst Inr) (f sz d))"

definition rt_device_write :: "('x device_scheme, 'a) dev_ops \<Rightarrow> u8 list \<Rightarrow> 'x device_scheme \<Rightarrow>
    ((int + nat) \<times> 'x device_scheme) option" where
  "rt_device_write ops data d =
     (if \<not> is_device d then None
      else if d_ref_count d = 0 then Some (Inl (-RT_ERROR), d)
      else case op_write ops of
             None \<Rightarrow> Some (Inl (-RT_ENOSYS), d)
           | Some f \<Rightarrow> map_option (apfst Inr) (f data d))"

definition rt_device_control :: "('x device_scheme, 'a) dev_ops \<Rightarrow> int \<Rightarrow> 'a \<Rightarrow> 'x device_scheme \<Rightarrow> (int \<times> 'x device_scheme) option" where
  "rt_device_control ops cmd arg d =
     (if \<not> is_device d then None
      else case op_control ops of None \<Rightarrow> Some (-RT_ENOSYS, d) | Some f \<Rightarrow> f cmd arg d)"

definition rt_device_set_rx_indicate :: "bool \<Rightarrow> 'x device_scheme \<Rightarrow> (int \<times> 'x device_scheme) option" where
  "rt_device_set_rx_indicate f d = (if \<not> is_device d then None else Some (RT_EOK, d\<lparr>d_rx_indicate := f\<rparr>))"

definition rt_device_set_tx_complete :: "bool \<Rightarrow> 'x device_scheme \<Rightarrow> (int \<times> 'x device_scheme) option" where
  "rt_device_set_tx_complete f d = (if \<not> is_device d then None else Some (RT_EOK, d\<lparr>d_tx_complete := f\<rparr>))"

section \<open>Flags\<close>

lemma has_flag_or [simp]: "has_flag (a OR b) f \<longleftrightarrow> has_flag a f \<or> has_flag b f"
  by (simp add: has_flag_def word_ao_dist or_eq_0_iff)

lemma has_flag_masked: "m AND f = 0 \<Longrightarrow> \<not> has_flag (a AND m) f"
  by (simp add: has_flag_def and.assoc)

lemma has_flag_0 [simp]: "\<not> has_flag 0 f"
  by (simp add: has_flag_def)

lemma unat_add_one: "(w :: u8) + 1 \<noteq> 0 \<Longrightarrow> unat (w + 1) = unat w + 1"
  by (metis add.commute plus_1_eq_Suc unatSuc)

section \<open>What a driver keeps\<close>

text \<open>The contract of a driver: what it promises of its state holds after its functions and survives what the layer does to the
  common fields; the count of the users and the class are the layer's own.\<close>

definition same_head :: "'x device_scheme \<Rightarrow> 'x device_scheme \<Rightarrow> bool" where
  "same_head d d' \<longleftrightarrow> d_ref_count d' = d_ref_count d \<and> d_type d' = d_type d"

locale driver =
  fixes ops :: "('x device_scheme, 'a) dev_ops"
    and good :: "'x device_scheme \<Rightarrow> bool"
  assumes init_keeps: "good d \<Longrightarrow> \<not> has_flag (d_flag d) RT_DEVICE_FLAG_ACTIVATED \<Longrightarrow> op_init ops = Some f \<Longrightarrow>
      f d = Some (r, d') \<Longrightarrow> good d' \<and> same_head d d' \<and> r \<noteq> -RT_ENOSYS"
    and open_keeps: "good d \<Longrightarrow> has_flag (d_flag d) RT_DEVICE_FLAG_ACTIVATED \<Longrightarrow> call_open ops oflag d = Some (r, d') \<Longrightarrow>
      good d' \<and> same_head d d'"
    and close_keeps: "good d \<Longrightarrow> op_close ops = Some g \<Longrightarrow> g d = Some (r, d') \<Longrightarrow> good d' \<and> same_head d d'"
    and good_ref: "good (d\<lparr>d_ref_count := n\<rparr>) = good d"
    and good_active: "good d \<Longrightarrow> good (d\<lparr>d_flag := d_flag d OR RT_DEVICE_FLAG_ACTIVATED\<rparr>)"
    and good_opened: "good d \<Longrightarrow> good (d\<lparr>d_open_flag := d_open_flag d OR RT_DEVICE_OFLAG_OPEN\<rparr>)"
    and good_closed: "good d \<Longrightarrow> good (d\<lparr>d_open_flag := 0\<rparr>)"
begin

lemma activate_keeps:
  assumes "good d" "activate ops d = Some (r, d')"
  shows "good d' \<and> same_head d d' \<and> (r = RT_EOK \<longrightarrow> has_flag (d_flag d') RT_DEVICE_FLAG_ACTIVATED) \<and> r \<noteq> -RT_ENOSYS"
proof (cases "has_flag (d_flag d) RT_DEVICE_FLAG_ACTIVATED")
  case True
  then show ?thesis using assms by (auto simp: activate_def same_head_def)
next
  case False
  show ?thesis
  proof (cases "op_init ops")
    case None
    then show ?thesis using assms False good_active[OF assms(1)] by (auto simp: activate_def same_head_def has_flag_def)
  next
    case (Some f)
    then obtain r1 d1 where f: "f d = Some (r1, d1)"
      "(r, d') = (if r1 \<noteq> RT_EOK then (r1, d1) else (RT_EOK, d1\<lparr>d_flag := d_flag d1 OR RT_DEVICE_FLAG_ACTIVATED\<rparr>))"
      using assms(2) False by (auto simp: activate_def split: option.splits if_splits)
    have "good d1" "same_head d d1" "r1 \<noteq> -RT_ENOSYS" using init_keeps[OF assms(1) False Some f(1)] by simp_all
    then show ?thesis using f(2) good_active by (auto simp: same_head_def has_flag_def split: if_splits)
  qed
qed

lemma open_users:
  assumes "good d" "is_device d" "rt_device_open ops oflag d = Some (r, d')"
  shows "good d' \<and> is_device d' \<and>
    unat (d_ref_count d') = unat (d_ref_count d) + (if r = RT_EOK \<or> r = -RT_ENOSYS then 1 else 0)"
proof -
  obtain r1 d1 where a: "activate ops d = Some (r1, d1)" using assms(2,3) by (auto simp: rt_device_open_def split: option.splits)
  note A = activate_keeps[OF assms(1) a]
  have dev1: "is_device d1" using A assms(2) by (simp add: same_head_def is_device_def)
  show ?thesis
  proof (cases "r1 = RT_EOK \<and> \<not> (has_flag (d_flag d1) RT_DEVICE_FLAG_STANDALONE \<and> has_flag (d_open_flag d1) RT_DEVICE_OFLAG_OPEN)")
    case False
    then have "d' = d1 \<and> (r = r1 \<and> r1 \<noteq> RT_EOK \<or> r = -RT_EBUSY)"
      using assms(2,3) a by (auto simp: rt_device_open_def split: if_splits)
    then show ?thesis using A dev1 by (auto simp: same_head_def)
  next
    case True
    then obtain r2 d2 where c: "call_open ops oflag d1 = Some (r2, d2)"
      using assms(2,3) a by (auto simp: rt_device_open_def split: option.splits)
    have C: "good d2" "same_head d1 d2" using open_keeps[OF _ _ c] A True by simp_all
    show ?thesis
    proof (cases "r2 = RT_EOK \<or> r2 = -RT_ENOSYS")
      case False
      then have "r = r2" "d' = d2" using assms(2,3) a c True by (auto simp: rt_device_open_def)
      then show ?thesis using C A dev1 False by (simp add: same_head_def is_device_def)
    next
      case ok: True
      let ?d3 = "d2\<lparr>d_open_flag := d_open_flag d2 OR RT_DEVICE_OFLAG_OPEN, d_ref_count := d_ref_count d2 + 1\<rparr>"
      have "d_ref_count d2 + 1 \<noteq> 0" "r = r2" "d' = ?d3"
        using assms(2,3) a c True ok by (auto simp: rt_device_open_def Let_def split: if_splits)
      moreover have "good ?d3" using good_opened[OF C(1)] good_ref by simp
      moreover have "unat (w + 1) = unat w + 1" if "w + 1 \<noteq> 0" for w :: u8 using that by (rule unat_add_one)
      ultimately show ?thesis using C(2) A dev1 ok by (simp add: same_head_def is_device_def)
    qed
  qed
qed

lemma close_users:
  assumes "good d" "is_device d" "rt_device_close ops d = Some (r, d')"
  shows "good d' \<and> is_device d' \<and> unat (d_ref_count d') = unat (d_ref_count d) - 1"
proof (cases "d_ref_count d = 0")
  case True
  then show ?thesis using assms by (auto simp: rt_device_close_def)
next
  case False
  let ?d1 = "d\<lparr>d_ref_count := d_ref_count d - 1\<rparr>"
  have n: "unat (d_ref_count d - 1) = unat (d_ref_count d) - 1" using False by (simp add: unat_minus_one)
  have g: "good ?d1" "is_device ?d1" using assms(1,2) by (simp_all add: good_ref is_device_def)
  show ?thesis
  proof (cases "d_ref_count d - 1 = 0")
    case more: False
    then show ?thesis using assms(2,3) g n False by (auto simp: rt_device_close_def Let_def)
  next
    case last: True
    obtain d2 where d2: "good d2" "same_head ?d1 d2" "d' = d2 \<or> d' = d2\<lparr>d_open_flag := 0\<rparr>"
    proof (cases "op_close ops")
      case None
      then show ?thesis using that[of ?d1] assms(2,3) g False last by (auto simp: rt_device_close_def Let_def same_head_def)
    next
      case (Some f)
      then obtain r2 d2 where f: "f ?d1 = Some (r2, d2)" "d' = d2 \<or> d' = d2\<lparr>d_open_flag := 0\<rparr>"
        using assms(2,3) False last by (auto simp: rt_device_close_def Let_def split: option.splits if_splits)
      then show ?thesis using that[of d2] close_keeps[OF g(1) Some f(1)] by simp
    qed
    then show ?thesis using g(2) n good_closed by (auto simp: same_head_def is_device_def)
  qed
qed

end

end
