(* ===== verification/Serial.thy ===== *)
theory Serial
  imports Device
begin

text \<open>
  The serial driver: the framework \<^verbatim>\<open>components/drivers/serial/serial.c\<close> under the device layer, and the board's
  \<^verbatim>\<open>drivers/drv_usart.c\<close> below it. Bytes that reach the port are in \<open>s_line\<close> until they are fetched; what is asked of the
  port is the list \<open>s_port\<close>. The receive structures lie in the heap. The board opens its ports without transmit interrupts
  and without DMA; receiving with DMA is modelled up to the transfer itself, transmitting with interrupts or DMA is an argument.
\<close>

section \<open>Data\<close>

record serial_configure =
  baud_rate :: u32
  data_bits :: u32
  stop_bits :: u32
  parity :: u32
  bit_order :: u32
  invert :: u32
  bufsz :: u16

record rx_fifo =
  rx_buffer :: "u8 list"
  put_index :: u16
  get_index :: u16
  is_full :: bool

text \<open>\<^verbatim>\<open>serial_rx\<close> points to one of two structures, \<^verbatim>\<open>serial_tx\<close> too; the number is their place in the heap.\<close>

datatype serial_rx = Rx_fifo nat rx_fifo | Rx_dma nat bool
datatype serial_tx = Tx_fifo nat | Tx_dma nat bool

datatype port_op = Port_init serial_configure | Port_control int u16 | Port_putc u8 | Port_dma_rx nat

record serial = device +
  s_config :: serial_configure
  s_rx :: "serial_rx option"
  s_tx :: "serial_tx option"
  s_heap :: heap
  s_line :: "u8 list"
  s_port :: "port_op list"

abbreviation (input) RT_DEVICE_CTRL_RESUME :: int where "RT_DEVICE_CTRL_RESUME \<equiv> 0x01"
abbreviation (input) RT_DEVICE_CTRL_SUSPEND :: int where "RT_DEVICE_CTRL_SUSPEND \<equiv> 0x02"
abbreviation (input) RT_DEVICE_CTRL_CONFIG :: int where "RT_DEVICE_CTRL_CONFIG \<equiv> 0x03"
abbreviation (input) RT_DEVICE_CTRL_SET_INT :: int where "RT_DEVICE_CTRL_SET_INT \<equiv> 0x10"
abbreviation (input) RT_DEVICE_CTRL_CLR_INT :: int where "RT_DEVICE_CTRL_CLR_INT \<equiv> 0x11"

definition port :: "port_op \<Rightarrow> serial \<Rightarrow> serial" where "port x d = d\<lparr>s_port := s_port d @ [x]\<rparr>"

definition size_of :: "serial \<Rightarrow> nat" where "size_of d = unat (bufsz (s_config d))"

section \<open>The software FIFO\<close>

definition fifo_empty :: "rx_fifo \<Rightarrow> bool" where
  "fifo_empty f \<longleftrightarrow> get_index f = put_index f \<and> \<not> is_full f"

definition fifo_fetch :: "u16 \<Rightarrow> rx_fifo \<Rightarrow> u8 \<times> rx_fifo" where
  "fifo_fetch n f =
     (let ch = rx_buffer f ! unat (get_index f);
          g = get_index f + 1
      in (ch, f\<lparr>get_index := (if g \<ge> n then 0 else g), is_full := False\<rparr>))"

fun serial_int_rx :: "u16 \<Rightarrow> nat \<Rightarrow> rx_fifo \<Rightarrow> u8 list \<times> rx_fifo" where
  "serial_int_rx n 0 f = ([], f)"
| "serial_int_rx n (Suc k) f =
     (if fifo_empty f then ([], f)
      else case fifo_fetch n f of (ch, f1) \<Rightarrow> apfst (Cons ch) (serial_int_rx n k f1))"

definition fifo_store :: "u16 \<Rightarrow> u8 \<Rightarrow> rx_fifo \<Rightarrow> rx_fifo" where
  "fifo_store n ch f =
     (let f1 = f\<lparr>rx_buffer := (rx_buffer f)[unat (put_index f) := ch]\<rparr>;
          p = put_index f1 + 1;
          f2 = f1\<lparr>put_index := (if p \<ge> n then 0 else p)\<rparr>
      in if put_index f2 = get_index f2
         then let g = get_index f2 + 1
              in f2\<lparr>is_full := True, get_index := (if g \<ge> n then 0 else g)\<rparr>
         else f2)"

text \<open>All that waits at the port is fetched.\<close>

fun isr_fetch :: "u16 \<Rightarrow> u8 list \<Rightarrow> rx_fifo \<Rightarrow> rx_fifo" where
  "isr_fetch n [] f = f"
| "isr_fetch n (ch # rest) f = isr_fetch n rest (fifo_store n ch f)"

definition isr_length :: "nat \<Rightarrow> rx_fifo \<Rightarrow> nat" where
  "isr_length n f =
     (let p = unat (put_index f); g = unat (get_index f) in if p \<ge> g then p - g else n - (g - p))"

text \<open>The interrupt: the state, and the length with which the call-back of the device is called.\<close>

definition isr_rx_ind :: "serial \<Rightarrow> (serial \<times> nat option) option" where
  "isr_rx_ind d =
     (case s_rx d of
        Some (Rx_fifo a f) \<Rightarrow>
          let f1 = isr_fetch (bufsz (s_config d)) (s_line d) f;
              d1 = d\<lparr>s_rx := Some (Rx_fifo a f1), s_line := []\<rparr>;
              rx_length = isr_length (size_of d) f1
          in Some (d1, if d_rx_indicate d1 \<and> rx_length \<noteq> 0 then Some rx_length else None)
      | _ \<Rightarrow> None)"

definition fifo_recved_len :: "u16 \<Rightarrow> rx_fifo \<Rightarrow> nat" where
  "fifo_recved_len n f =
     (if put_index f = get_index f then (if \<not> is_full f then 0 else unat n)
      else if put_index f > get_index f then unat (put_index f) - unat (get_index f)
      else unat n - (unat (get_index f) - unat (put_index f)))"

definition dma_update_get_index :: "u16 \<Rightarrow> nat \<Rightarrow> rx_fifo \<Rightarrow> rx_fifo option" where
  "dma_update_get_index n len f =
     (if \<not> len \<le> fifo_recved_len n f then None
      else
        let f1 = (if is_full f \<and> len \<noteq> 0 then f\<lparr>is_full := False\<rparr> else f);
            g = get_index f1 + of_nat len
        in Some (f1\<lparr>get_index := (if g \<ge> n then g mod n else g)\<rparr>))"

definition dma_update_put_index :: "u16 \<Rightarrow> nat \<Rightarrow> rx_fifo \<Rightarrow> rx_fifo" where
  "dma_update_put_index n len f =
     (let p = put_index f + of_nat len;
          f1 = (if get_index f \<le> put_index f then
                  (if p \<ge> n then
                     let p1 = p mod n in f\<lparr>put_index := p1, is_full := (is_full f \<or> p1 \<ge> get_index f)\<rparr>
                   else f\<lparr>put_index := p\<rparr>)
                else if p \<ge> get_index f then f\<lparr>put_index := (if p \<ge> n then p mod n else p), is_full := True\<rparr>
                else f\<lparr>put_index := p\<rparr>);
          f2 = (if is_full f1 then f1\<lparr>get_index := put_index f1\<rparr> else f1)
      in if get_index f2 \<ge> n then f2\<lparr>get_index := 0\<rparr> else f2)"

text \<open>A transfer of \<open>len\<close> bytes into the FIFO is over.\<close>

definition isr_rx_dmadone :: "nat \<Rightarrow> serial \<Rightarrow> (serial \<times> nat option) option" where
  "isr_rx_dmadone len d =
     (if size_of d = 0 then
        (case s_rx d of
           Some (Rx_dma a _) \<Rightarrow>
             if d_rx_indicate d then Some (d\<lparr>s_rx := Some (Rx_dma a False)\<rparr>, Some len) else None
         | _ \<Rightarrow> None)
      else
        (case s_rx d of
           Some (Rx_fifo a f) \<Rightarrow>
             let f1 = dma_update_put_index (bufsz (s_config d)) len f;
                 n = fifo_recved_len (bufsz (s_config d)) f1
             in Some (d\<lparr>s_rx := Some (Rx_fifo a f1)\<rparr>, if d_rx_indicate d then Some n else None)
         | _ \<Rightarrow> None))"

section \<open>Reading and writing\<close>

text \<open>Without interrupts the bytes are taken from the port, up to a line feed.\<close>

fun serial_poll_rx :: "nat \<Rightarrow> u8 list \<Rightarrow> u8 list \<times> u8 list" where
  "serial_poll_rx 0 waiting = ([], waiting)"
| "serial_poll_rx (Suc k) [] = ([], [])"
| "serial_poll_rx (Suc k) (ch # rest) =
     (if ch = 10 then ([ch], rest) else apfst (Cons ch) (serial_poll_rx k rest))"

text \<open>Without a FIFO the transfer starts here and the bytes come later.\<close>

definition serial_dma_rx :: "nat \<Rightarrow> serial \<Rightarrow> ((nat \<times> u8 list) \<times> serial) option" where
  "serial_dma_rx len d =
     (if size_of d = 0 then
        (case s_rx d of
           Some (Rx_dma a act) \<Rightarrow>
             if \<not> act then Some ((len, []), port (Port_dma_rx len) (d\<lparr>s_rx := Some (Rx_dma a True)\<rparr>))
             else Some ((0, []), d)
         | _ \<Rightarrow> None)
      else
        (case s_rx d of
           Some (Rx_fifo a f) \<Rightarrow>
             let n = size_of d; g = unat (get_index f);
                 recved = fifo_recved_len (bufsz (s_config d)) f;
                 recv_len = (if len < recved then len else recved);
                 bs = (if g + recv_len < n then take recv_len (drop g (rx_buffer f))
                       else take (n - g) (drop g (rx_buffer f)) @ take (recv_len + g - n) (rx_buffer f))
             in (case dma_update_get_index (bufsz (s_config d)) recv_len f of
                   None \<Rightarrow> None
                 | Some f1 \<Rightarrow> Some ((recv_len, bs), d\<lparr>s_rx := Some (Rx_fifo a f1)\<rparr>))
         | _ \<Rightarrow> None))"

definition rt_serial_read :: "nat \<Rightarrow> serial \<Rightarrow> ((nat \<times> u8 list) \<times> serial) option" where
  "rt_serial_read sz d =
     (if sz = 0 then Some ((0, []), d)
      else if has_flag (d_open_flag d) RT_DEVICE_FLAG_INT_RX then
        (case s_rx d of
           Some (Rx_fifo a f) \<Rightarrow>
             (case serial_int_rx (bufsz (s_config d)) sz f of
                (bs, f1) \<Rightarrow> Some ((length bs, bs), d\<lparr>s_rx := Some (Rx_fifo a f1)\<rparr>))
         | _ \<Rightarrow> None)
      else if has_flag (d_open_flag d) RT_DEVICE_FLAG_DMA_RX then serial_dma_rx sz d
      else case serial_poll_rx sz (s_line d) of (bs, rest) \<Rightarrow> Some ((length bs, bs), d\<lparr>s_line := rest\<rparr>))"

fun serial_poll_tx :: "u8 list \<Rightarrow> serial \<Rightarrow> serial" where
  "serial_poll_tx [] d = d"
| "serial_poll_tx (ch # rest) d =
     (let d1 = (if ch = 10 \<and> has_flag (d_open_flag d) RT_DEVICE_FLAG_STREAM then port (Port_putc 13) d else d)
      in serial_poll_tx rest (port (Port_putc ch) d1))"

definition rt_serial_write :: "(u8 list \<Rightarrow> serial \<Rightarrow> (nat \<times> serial) option) \<Rightarrow> (u8 list \<Rightarrow> serial \<Rightarrow> (nat \<times> serial) option) \<Rightarrow>
    u8 list \<Rightarrow> serial \<Rightarrow> (nat \<times> serial) option" where
  "rt_serial_write int_tx dma_tx data d =
     (if data = [] then Some (0, d)
      else if has_flag (d_open_flag d) RT_DEVICE_FLAG_INT_TX then int_tx data d
      else if has_flag (d_open_flag d) RT_DEVICE_FLAG_DMA_TX then dma_tx data d
      else Some (length data, serial_poll_tx data d))"

section \<open>Initialisation, opening and closing\<close>

definition rt_serial_init :: "(serial_configure \<Rightarrow> int) \<Rightarrow> serial \<Rightarrow> (int \<times> serial) option" where
  "rt_serial_init configure d =
     (let d1 = d\<lparr>s_rx := None, s_tx := None\<rparr>
      in Some (configure (s_config d1), port (Port_init (s_config d1)) d1))"

text \<open>\<^verbatim>\<open>sizeof(struct rt_serial_rx_fifo)\<close> is 12, \<^verbatim>\<open>sizeof(struct rt_serial_rx_dma)\<close> 4.\<close>

definition new_fifo :: "serial \<Rightarrow> serial option" where
  "new_fifo d =
     (case rt_malloc (12 + ucast (bufsz (s_config d))) (s_heap d) of
        Some (Some a, h) \<Rightarrow>
          Some (d\<lparr>s_heap := h,
                  s_rx := Some (Rx_fifo a \<lparr>rx_buffer = replicate (size_of d) 0, put_index = 0, get_index = 0, is_full = False\<rparr>)\<rparr>)
      | _ \<Rightarrow> None)"

definition set_open_flag :: "u16 \<Rightarrow> serial \<Rightarrow> serial" where
  "set_open_flag f d = d\<lparr>d_open_flag := d_open_flag d OR f\<rparr>"

definition open_rx :: "u16 \<Rightarrow> serial \<Rightarrow> serial option" where
  "open_rx oflag d =
     (if s_rx d = None then
        (if has_flag oflag RT_DEVICE_FLAG_INT_RX then
           map_option (\<lambda>d1. port (Port_control RT_DEVICE_CTRL_SET_INT RT_DEVICE_FLAG_INT_RX) (set_open_flag RT_DEVICE_FLAG_INT_RX d1))
             (new_fifo d)
         else if has_flag oflag RT_DEVICE_FLAG_DMA_RX then
           (if size_of d = 0 then
              (case rt_malloc 4 (s_heap d) of
                 Some (Some a, h) \<Rightarrow> Some (set_open_flag RT_DEVICE_FLAG_DMA_RX (d\<lparr>s_heap := h, s_rx := Some (Rx_dma a False)\<rparr>))
               | _ \<Rightarrow> None)
            else
              map_option (\<lambda>d1. set_open_flag RT_DEVICE_FLAG_DMA_RX (port (Port_control RT_DEVICE_CTRL_CONFIG RT_DEVICE_FLAG_DMA_RX) d1))
                (new_fifo d))
         else Some d)
      else if has_flag oflag RT_DEVICE_FLAG_INT_RX then Some (set_open_flag RT_DEVICE_FLAG_INT_RX d)
      else if has_flag oflag RT_DEVICE_FLAG_DMA_RX then Some (set_open_flag RT_DEVICE_FLAG_DMA_RX d)
      else Some d)"

text \<open>\<^verbatim>\<open>sizeof(struct rt_serial_tx_fifo)\<close> is 12, \<^verbatim>\<open>sizeof(struct rt_serial_tx_dma)\<close> 40; \<open>dq_init\<close> is the initialisation of its data queue.\<close>

definition open_tx :: "(heap \<Rightarrow> heap) \<Rightarrow> u16 \<Rightarrow> serial \<Rightarrow> serial option" where
  "open_tx dq_init oflag d =
     (if s_tx d = None then
        (if has_flag oflag RT_DEVICE_FLAG_INT_TX then
           (case rt_malloc 12 (s_heap d) of
              Some (Some a, h) \<Rightarrow>
                Some (port (Port_control RT_DEVICE_CTRL_SET_INT RT_DEVICE_FLAG_INT_TX)
                       (set_open_flag RT_DEVICE_FLAG_INT_TX (d\<lparr>s_heap := h, s_tx := Some (Tx_fifo a)\<rparr>)))
            | _ \<Rightarrow> None)
         else if has_flag oflag RT_DEVICE_FLAG_DMA_TX then
           (case rt_malloc 40 (s_heap d) of
              Some (Some a, h) \<Rightarrow>
                Some (port (Port_control RT_DEVICE_CTRL_CONFIG RT_DEVICE_FLAG_DMA_TX)
                       (set_open_flag RT_DEVICE_FLAG_DMA_TX (d\<lparr>s_heap := dq_init h, s_tx := Some (Tx_dma a False)\<rparr>)))
            | _ \<Rightarrow> None)
         else Some d)
      else if has_flag oflag RT_DEVICE_FLAG_INT_TX then Some (set_open_flag RT_DEVICE_FLAG_INT_TX d)
      else if has_flag oflag RT_DEVICE_FLAG_DMA_TX then Some (set_open_flag RT_DEVICE_FLAG_DMA_TX d)
      else Some d)"

definition rt_serial_open :: "(heap \<Rightarrow> heap) \<Rightarrow> u16 \<Rightarrow> serial \<Rightarrow> (int \<times> serial) option" where
  "rt_serial_open dq_init oflag d =
     (if has_flag oflag RT_DEVICE_FLAG_DMA_RX \<and> \<not> has_flag (d_flag d) RT_DEVICE_FLAG_DMA_RX then Some (-RT_EIO, d)
      else if has_flag oflag RT_DEVICE_FLAG_DMA_TX \<and> \<not> has_flag (d_flag d) RT_DEVICE_FLAG_DMA_TX then Some (-RT_EIO, d)
      else if has_flag oflag RT_DEVICE_FLAG_INT_RX \<and> \<not> has_flag (d_flag d) RT_DEVICE_FLAG_INT_RX then Some (-RT_EIO, d)
      else if has_flag oflag RT_DEVICE_FLAG_INT_TX \<and> \<not> has_flag (d_flag d) RT_DEVICE_FLAG_INT_TX then Some (-RT_EIO, d)
      else
        let stream_flag = (if has_flag oflag RT_DEVICE_FLAG_STREAM \<or> has_flag (d_open_flag d) RT_DEVICE_FLAG_STREAM
                           then RT_DEVICE_FLAG_STREAM else 0);
            d1 = d\<lparr>d_open_flag := oflag AND 0xff\<rparr>
        in case open_rx oflag d1 of
             None \<Rightarrow> None
           | Some d2 \<Rightarrow> map_option (\<lambda>d3. (RT_EOK, set_open_flag stream_flag d3)) (open_tx dq_init oflag d2))"

definition clear_open_flag :: "u16 \<Rightarrow> serial \<Rightarrow> serial" where
  "clear_open_flag f d = d\<lparr>d_open_flag := d_open_flag d AND NOT f\<rparr>"

definition close_rx :: "serial \<Rightarrow> serial option" where
  "close_rx d =
     (if has_flag (d_open_flag d) RT_DEVICE_FLAG_INT_RX then
        (case s_rx d of
           Some (Rx_fifo a f) \<Rightarrow>
             map_option (\<lambda>h. port (Port_control RT_DEVICE_CTRL_CLR_INT RT_DEVICE_FLAG_INT_RX)
                 (clear_open_flag RT_DEVICE_FLAG_INT_RX (d\<lparr>s_heap := h, s_rx := None\<rparr>))) (rt_free (Some a) (s_heap d))
         | _ \<Rightarrow> None)
      else if has_flag (d_open_flag d) RT_DEVICE_FLAG_DMA_RX then
        (case s_rx d of
           Some rx \<Rightarrow>
             let a = (case rx of Rx_fifo a _ \<Rightarrow> a | Rx_dma a _ \<Rightarrow> a)
             in map_option (\<lambda>h. clear_open_flag RT_DEVICE_FLAG_DMA_RX ((port (Port_control RT_DEVICE_CTRL_CLR_INT RT_DEVICE_FLAG_DMA_RX)
                 (d\<lparr>s_heap := h\<rparr>))\<lparr>s_rx := None\<rparr>)) (rt_free (Some a) (s_heap d))
         | None \<Rightarrow> None)
      else Some d)"

definition close_tx :: "serial \<Rightarrow> serial option" where
  "close_tx d =
     (if has_flag (d_open_flag d) RT_DEVICE_FLAG_INT_TX then
        (case s_tx d of
           Some (Tx_fifo a) \<Rightarrow>
             map_option (\<lambda>h. port (Port_control RT_DEVICE_CTRL_CLR_INT RT_DEVICE_FLAG_INT_TX)
                 (clear_open_flag RT_DEVICE_FLAG_INT_TX (d\<lparr>s_heap := h, s_tx := None\<rparr>))) (rt_free (Some a) (s_heap d))
         | _ \<Rightarrow> None)
      else if has_flag (d_open_flag d) RT_DEVICE_FLAG_DMA_TX then
        (case s_tx d of
           Some (Tx_dma a _) \<Rightarrow>
             map_option (\<lambda>h. clear_open_flag RT_DEVICE_FLAG_DMA_TX (d\<lparr>s_heap := h, s_tx := None\<rparr>)) (rt_free (Some a) (s_heap d))
         | _ \<Rightarrow> None)
      else Some d)"

definition rt_serial_close :: "serial \<Rightarrow> (int \<times> serial) option" where
  "rt_serial_close d =
     (if d_ref_count d > 1 then Some (RT_EOK, d)
      else case close_rx d of None \<Rightarrow> None | Some d1 \<Rightarrow> map_option (Pair RT_EOK) (close_tx d1))"

text \<open>The configuration that comes with \<^verbatim>\<open>RT_DEVICE_CTRL_CONFIG\<close>; other commands go to the port.\<close>

definition rt_serial_control :: "(serial_configure \<Rightarrow> int) \<Rightarrow> (int \<Rightarrow> int) \<Rightarrow> int \<Rightarrow> serial_configure option \<Rightarrow> serial \<Rightarrow>
    (int \<times> serial) option" where
  "rt_serial_control configure control cmd arg d =
     (if cmd = RT_DEVICE_CTRL_SUSPEND then Some (RT_EOK, d\<lparr>d_flag := d_flag d OR RT_DEVICE_FLAG_SUSPENDED\<rparr>)
      else if cmd = RT_DEVICE_CTRL_RESUME then Some (RT_EOK, d\<lparr>d_flag := d_flag d AND NOT RT_DEVICE_FLAG_SUSPENDED\<rparr>)
      else if cmd = RT_DEVICE_CTRL_CONFIG then
        (case arg of
           None \<Rightarrow> Some (RT_EOK, d)
         | Some cfg \<Rightarrow>
             if bufsz cfg \<noteq> bufsz (s_config d) \<and> d_ref_count d \<noteq> 0 then Some (RT_EBUSY, d)
             else
               let d1 = d\<lparr>s_config := cfg\<rparr>
               in Some (RT_EOK, if d_ref_count d1 \<noteq> 0 then port (Port_init cfg) d1 else d1))
      else Some (control cmd, port (Port_control cmd 0) d))"

definition serial_ops :: "(serial_configure \<Rightarrow> int) \<Rightarrow> (int \<Rightarrow> int) \<Rightarrow> (heap \<Rightarrow> heap) \<Rightarrow>
    (u8 list \<Rightarrow> serial \<Rightarrow> (nat \<times> serial) option) \<Rightarrow> (u8 list \<Rightarrow> serial \<Rightarrow> (nat \<times> serial) option) \<Rightarrow>
    (serial, serial_configure option) dev_ops" where
  "serial_ops configure control dq_init int_tx dma_tx =
     \<lparr>op_init = Some (rt_serial_init configure), op_open = Some (rt_serial_open dq_init), op_close = Some rt_serial_close,
      op_read = Some rt_serial_read, op_write = Some (rt_serial_write int_tx dma_tx),
      op_control = Some (rt_serial_control configure control)\<rparr>"

definition rt_hw_serial_register :: "onode \<Rightarrow> u8 list \<Rightarrow> u16 \<Rightarrow> serial \<Rightarrow> osys \<Rightarrow> (int \<times> serial \<times> osys) option" where
  "rt_hw_serial_register x name flag d s =
     rt_device_register (Some x) name flag (d\<lparr>d_rx_indicate := False, d_tx_complete := False\<rparr>) s"

section \<open>The ports of the board\<close>

text \<open>What \<^verbatim>\<open>stm32_configure\<close> hands to the hardware library, which is an argument; the constants of the library are named
  by what they choose.\<close>

datatype word_length = Bits8 | Bits9
datatype stop_length = Stop1 | Stop2
datatype parity_mode = No_parity | Odd_parity | Even_parity

record uart_init =
  u_baud :: u32
  u_bits :: word_length
  u_stop :: stop_length
  u_parity :: parity_mode

definition stm32_uart_init :: "serial_configure \<Rightarrow> uart_init" where
  "stm32_uart_init cfg =
     \<lparr>u_baud = baud_rate cfg, u_bits = (if data_bits cfg = 9 then Bits9 else Bits8),
      u_stop = (if stop_bits cfg = 1 then Stop2 else Stop1),
      u_parity = (if parity cfg = 1 then Odd_parity else if parity cfg = 2 then Even_parity else No_parity)\<rparr>"

definition stm32_configure :: "(uart_init \<Rightarrow> bool) \<Rightarrow> serial_configure \<Rightarrow> int" where
  "stm32_configure hal_uart_init cfg = (if \<not> hal_uart_init (stm32_uart_init cfg) then RT_ERROR else RT_EOK)"

definition stm32_control :: "int \<Rightarrow> int" where "stm32_control cmd = RT_EOK"

definition RT_SERIAL_CONFIG_DEFAULT :: serial_configure where
  "RT_SERIAL_CONFIG_DEFAULT = \<lparr>baud_rate = 115200, data_bits = 8, stop_bits = 0, parity = 0, bit_order = 0, invert = 0, bufsz = 64\<rparr>"

text \<open>One port of \<^verbatim>\<open>rt_hw_usart_init\<close>: readable and writable, receiving with interrupts.\<close>

definition usart_init :: "onode \<Rightarrow> u8 list \<Rightarrow> serial \<Rightarrow> osys \<Rightarrow> (int \<times> serial \<times> osys) option" where
  "usart_init x name d s =
     rt_hw_serial_register x name (0x003 OR RT_DEVICE_FLAG_INT_RX) (d\<lparr>s_config := RT_SERIAL_CONFIG_DEFAULT\<rparr>) s"

end
