(* ===== verification/SerialFifo.thy ===== *)
theory SerialFifo
  imports Serial
begin

text \<open>
  The receive FIFO of the serial driver as a queue: with a buffer of \<open>n\<close> bytes it holds the last \<open>n - 1\<close> bytes that were not
  read, and the indices, which are 16-bit words, never leave the buffer.
\<close>

section \<open>Windows of a circular buffer\<close>

definition win :: "u8 list \<Rightarrow> nat \<Rightarrow> nat \<Rightarrow> u8 list" where
  "win b g k = map (\<lambda>i. b ! ((g + i) mod length b)) [0 ..< k]"

lemma win_length [simp]: "length (win b g k) = k"
  by (simp add: win_def)

lemma win_0 [simp]: "win b g 0 = []"
  by (simp add: win_def)

lemma win_mod [simp]: "win b (g mod length b) k = win b g k"
  by (simp add: win_def mod_add_left_eq)

lemma win_Suc_left: "win b g (Suc k) = b ! (g mod length b) # win b (Suc g) k"
  by (simp add: win_def map_upt_Suc del: upt_Suc)

lemma win_Suc_right: "win b g (Suc k) = win b g k @ [b ! ((g + k) mod length b)]"
  by (simp add: win_def)

lemma mod_window_inj: "i < k \<Longrightarrow> k < (n :: nat) \<Longrightarrow> (g + i) mod n \<noteq> (g + k) mod n"
proof
  assume a: "i < k" "k < n" "(g + i) mod n = (g + k) mod n"
  then have "n dvd (g + k) - (g + i)" by (metis add_le_cancel_left less_imp_le mod_eq_dvd_iff_nat)
  then show False using a by (auto dest: dvd_imp_le)
qed

lemma win_update: "k < length b \<Longrightarrow> win (b[(g + k) mod length b := c]) g k = win b g k"
proof -
  assume k: "k < length b"
  have "b[(g + k) mod length b := c] ! ((g + i) mod length b) = b ! ((g + i) mod length b)" if "i < k" for i
    using mod_window_inj[OF that k, of g] by simp
  then show ?thesis unfolding win_def length_list_update by (intro map_cong refl) simp
qed

lemma index_to_count: "g < (n :: nat) \<Longrightarrow> p < n \<Longrightarrow> (g + (p + n - g) mod n) mod n = p"
  by (auto simp: mod_if)

lemma count_to_index: "g < (n :: nat) \<Longrightarrow> k < n \<Longrightarrow> ((g + k) mod n + n - g) mod n = k"
  by (auto simp: mod_if)

section \<open>The FIFO\<close>

definition fifo_inv :: "u16 \<Rightarrow> rx_fifo \<Rightarrow> bool" where
  "fifo_inv n f \<longleftrightarrow> length (rx_buffer f) = unat n \<and> 2 \<le> unat n \<and> put_index f < n \<and> get_index f < n \<and>
     (is_full f \<longrightarrow> put_index f \<noteq> get_index f)"

definition fifo_count :: "u16 \<Rightarrow> rx_fifo \<Rightarrow> nat" where
  "fifo_count n f = (unat (put_index f) + unat n - unat (get_index f)) mod unat n"

definition fifo_list :: "u16 \<Rightarrow> rx_fifo \<Rightarrow> u8 list" where
  "fifo_list n f = win (rx_buffer f) (unat (get_index f)) (fifo_count n f)"

text \<open>The next index, which does not wrap as a word.\<close>

lemma next_index:
  assumes "i < (n :: u16)"
  shows "unat (if i + 1 \<ge> n then 0 else i + 1) = Suc (unat i) mod unat n" "(if i + 1 \<ge> n then 0 else i + 1) < n"
proof -
  have l: "unat i < unat n" using assms by (simp add: word_less_nat_alt)
  have "unat (i + 1) = Suc (unat i)" using l unsigned_less[of n, where ?'a = nat] by (simp add: unat_word_ariths)
  then show "unat (if i + 1 \<ge> n then 0 else i + 1) = Suc (unat i) mod unat n" "(if i + 1 \<ge> n then 0 else i + 1) < n"
    using l by (auto simp: word_le_nat_alt word_less_nat_alt mod_if)
qed

lemma fifo_inv_bounds:
  assumes "fifo_inv n f"
  shows "unat (put_index f) < unat n" "unat (get_index f) < unat n" "fifo_count n f < unat n"
    "(unat (get_index f) + fifo_count n f) mod unat n = unat (put_index f)"
  using assms index_to_count[of "unat (get_index f)" "unat n" "unat (put_index f)"]
  by (auto simp: fifo_inv_def fifo_count_def word_less_nat_alt)

lemma fifo_countI:
  assumes "unat (get_index f) < unat n" "k < unat n" "unat (put_index f) = (unat (get_index f) + k) mod unat n"
  shows "fifo_count n f = k"
  unfolding fifo_count_def assms(3) by (rule count_to_index[OF assms(1,2)])

lemma fifo_empty_list:
  assumes "fifo_inv n f"
  shows "fifo_empty f \<longleftrightarrow> fifo_list n f = []"
proof -
  have "fifo_count n f = 0 \<longleftrightarrow> put_index f = get_index f"
    using fifo_inv_bounds[OF assms] fifo_countI[of f n 0] by (auto simp: word_unat_eq_iff)
  then show ?thesis using assms by (auto simp: fifo_empty_def fifo_list_def fifo_inv_def simp flip: length_0_conv)
qed

lemma fifo_fetch_spec:
  assumes i: "fifo_inv n f" and l: "fifo_list n f = x # xs"
  shows "\<exists>f'. fifo_fetch n f = (x, f') \<and> fifo_inv n f' \<and> fifo_list n f' = xs"
proof -
  let ?g = "unat (get_index f)" and ?N = "unat n"
  note B = fifo_inv_bounds[OF i]
  obtain k where k: "fifo_count n f = Suc k" using l by (cases "fifo_count n f") (auto simp: fifo_list_def)
  have len: "length (rx_buffer f) = ?N" using i by (simp add: fifo_inv_def)
  have x: "x = rx_buffer f ! ?g" "xs = win (rx_buffer f) (Suc ?g) k"
    using l B(2) by (simp_all add: fifo_list_def k win_Suc_left len)
  define f' where "f' = snd (fifo_fetch n f)"
  have g: "get_index f < n" using i by (simp add: fifo_inv_def)
  have f': "fifo_fetch n f = (x, f')" "rx_buffer f' = rx_buffer f" "put_index f' = put_index f" "\<not> is_full f'"
    "unat (get_index f') = Suc ?g mod ?N" "get_index f' < n"
    using next_index[OF g] x(1) by (simp_all add: f'_def fifo_fetch_def Let_def)
  have "fifo_inv n f'" using i f' by (simp add: fifo_inv_def)
  moreover have "fifo_count n f' = k"
  proof (rule fifo_countI)
    show "unat (get_index f') < unat n" using f'(6) by (simp add: word_less_nat_alt)
    show "k < unat n" using B(3) k by simp
    show "unat (put_index f') = (unat (get_index f') + k) mod unat n"
      using B(4) by (simp add: f'(3,5) k mod_add_left_eq)
  qed
  ultimately show ?thesis using f' x(2) by (simp add: fifo_list_def flip: len)
qed

lemma serial_int_rx_spec:
  "fifo_inv n f \<Longrightarrow> \<exists>f'. serial_int_rx n k f = (take k (fifo_list n f), f') \<and> fifo_inv n f' \<and> fifo_list n f' = drop k (fifo_list n f)"
proof (induction k arbitrary: f)
  case (Suc k)
  show ?case
  proof (cases "fifo_list n f")
    case Nil
    then show ?thesis using Suc.prems fifo_empty_list by simp
  next
    case (Cons x xs)
    obtain f1 where f1: "fifo_fetch n f = (x, f1)" "fifo_inv n f1" "fifo_list n f1 = xs"
      using fifo_fetch_spec[OF Suc.prems Cons] by blast
    then show ?thesis using Suc.IH[OF f1(2)] fifo_empty_list[OF Suc.prems] Cons by auto
  qed
qed simp

text \<open>The last \<open>m\<close> elements of a list.\<close>

definition latest :: "nat \<Rightarrow> 'a list \<Rightarrow> 'a list" where "latest m xs = drop (length xs - m) xs"

lemma latest_snoc: "0 < m \<Longrightarrow> latest m (latest m xs @ [x]) = latest m (xs @ [x])"
  by (cases "m \<le> length xs") (auto simp: latest_def Suc_diff_le drop_Suc tl_drop)

lemma latest_short: "length xs \<le> m \<Longrightarrow> latest m xs = xs"
  by (simp add: latest_def)

lemma latest_append: "0 < m \<Longrightarrow> latest m (latest m xs @ ys) = latest m (xs @ ys)"
proof (induction ys arbitrary: xs)
  case Nil
  then show ?case by (simp add: latest_def)
next
  case (Cons y ys)
  have "latest m (latest m xs @ y # ys) = latest m ((latest m xs @ [y]) @ ys)" by simp
  also have "\<dots> = latest m (latest m (latest m xs @ [y]) @ ys)" using Cons by simp
  also have "\<dots> = latest m (xs @ y # ys)" using Cons by (simp add: latest_snoc)
  finally show ?case .
qed

lemma fifo_store_spec:
  assumes i: "fifo_inv n f"
  shows "fifo_inv n (fifo_store n c f)" "fifo_list n (fifo_store n c f) = latest (unat n - 1) (fifo_list n f @ [c])"
proof -
  let ?g = "unat (get_index f)" and ?p = "unat (put_index f)" and ?N = "unat n" and ?k = "fifo_count n f"
  note B = fifo_inv_bounds[OF i]
  have N: "2 \<le> ?N" and len: "length (rx_buffer f) = ?N" using i by (simp_all add: fifo_inv_def)
  let ?b = "(rx_buffer f)[?p := c]"
  define p' where "p' = (if put_index f + 1 \<ge> n then 0 else put_index f + 1)"
  define g' where "g' = (if get_index f + 1 \<ge> n then 0 else get_index f + 1)"
  have lt: "put_index f < n" "get_index f < n" using i by (simp_all add: fifo_inv_def)
  have p': "unat p' = Suc ?p mod ?N" "p' < n" using next_index[OF lt(1)] by (simp_all add: p'_def)
  have g': "unat g' = Suc ?g mod ?N" "g' < n" using next_index[OF lt(2)] by (simp_all add: g'_def)
  have s: "fifo_store n c f = (if p' = get_index f then f\<lparr>rx_buffer := ?b, put_index := p', is_full := True, get_index := g'\<rparr>
      else f\<lparr>rx_buffer := ?b, put_index := p'\<rparr>)"
    by (simp add: fifo_store_def Let_def p'_def g'_def)
  have w: "win ?b ?g (Suc ?k) = fifo_list n f @ [c]"
  proof -
    have "win ?b ?g ?k = win (rx_buffer f) ?g ?k" using win_update[of ?k "rx_buffer f" ?g c] B(3,4) by (simp add: len)
    then show ?thesis using B(1,4) by (simp add: win_Suc_right len fifo_list_def)
  qed
  have next_p: "Suc ?p mod ?N = (?g + Suc ?k) mod ?N" using B(4) by (metis add_Suc_right mod_Suc_eq)
  show "fifo_inv n (fifo_store n c f)" "fifo_list n (fifo_store n c f) = latest (?N - 1) (fifo_list n f @ [c])"
  proof (goal_cases)
    case 1
    have "g' \<noteq> p'" if "p' = get_index f"
    proof
      assume "g' = p'"
      then have "Suc ?g mod ?N = ?g" using g' that by simp
      then show False using N B(2) by (auto simp: mod_if split: if_splits)
    qed
    then show ?case using i p'(2) g'(2) by (auto simp: s fifo_inv_def)
  next
    case 2
    show ?case
    proof (cases "p' = get_index f")
      case True
      have "Suc ?k = ?N"
      proof (rule ccontr)
        assume "Suc ?k \<noteq> ?N"
        then have "Suc ?k < ?N" using B(3) by simp
        then have "(?g + 0) mod ?N \<noteq> (?g + Suc ?k) mod ?N" by (intro mod_window_inj) simp_all
        then show False using p'(1) True next_p B(2) by simp
      qed
      then have k: "?k = ?N - 1" by simp
      have "fifo_count n (fifo_store n c f) = ?k"
      proof (rule fifo_countI)
        show "unat (get_index (fifo_store n c f)) < ?N" using g'(2) True by (simp add: s word_less_nat_alt)
        show "?k < ?N" by (rule B)
        have "(Suc ?g mod ?N + ?k) mod ?N = (?g + Suc ?k) mod ?N" by (simp add: mod_add_left_eq)
        then show "unat (put_index (fifo_store n c f)) = (unat (get_index (fifo_store n c f)) + ?k) mod ?N"
          using True p'(1) g'(1) next_p by (simp add: s)
      qed
      then have "fifo_list n (fifo_store n c f) = win ?b (Suc ?g) ?k"
        using True g'(1) win_mod[of ?b "Suc ?g" ?k] by (simp add: fifo_list_def s len)
      also have "\<dots> = tl (win ?b ?g (Suc ?k))" by (simp add: win_Suc_left)
      also have "\<dots> = drop 1 (fifo_list n f @ [c])" unfolding w by (simp only: drop_Suc One_nat_def drop_0)
      also have "1 = length (fifo_list n f @ [c]) - (?N - 1)" using k N by (simp add: fifo_list_def)
      also have "drop \<dots> (fifo_list n f @ [c]) = latest (?N - 1) (fifo_list n f @ [c])" by (simp only: latest_def)
      finally show ?thesis .
    next
      case False
      have "Suc ?k < ?N"
      proof (rule ccontr)
        assume "\<not> Suc ?k < ?N"
        then have "Suc ?k = ?N" using B(3) by simp
        then have "unat p' = ?g" using p'(1) next_p B(2) by simp
        then show False using False by (simp add: word_unat_eq_iff)
      qed
      moreover have "fifo_count n (fifo_store n c f) = Suc ?k"
        using False B(2) p'(1) next_p calculation by (intro fifo_countI) (simp_all add: s)
      ultimately show ?thesis using False w by (simp add: fifo_list_def s latest_short)
    qed
  qed
qed

lemma isr_fetch_spec:
  "fifo_inv n f \<Longrightarrow> fifo_inv n (isr_fetch n bs f) \<and> fifo_list n (isr_fetch n bs f) = latest (unat n - 1) (fifo_list n f @ bs)"
proof (induction bs arbitrary: f)
  case Nil
  then show ?case using fifo_inv_bounds(3)[OF Nil] by (auto simp: fifo_list_def latest_def)
next
  case (Cons b bs)
  have "0 < unat n - 1" using Cons.prems by (simp add: fifo_inv_def)
  then show ?case using Cons.IH[OF fifo_store_spec(1)[OF Cons.prems]] fifo_store_spec(2)[OF Cons.prems]
    by (simp add: latest_append)
qed

lemma isr_length_count: "fifo_inv n f \<Longrightarrow> isr_length (unat n) f = length (fifo_list n f)"
proof -
  assume i: "fifo_inv n f"
  note B = fifo_inv_bounds[OF i]
  let ?p = "unat (put_index f)" and ?g = "unat (get_index f)"
  have "fifo_count n f = (if ?p \<ge> ?g then ?p - ?g else unat n - (?g - ?p))"
    by (rule fifo_countI[OF B(2)]) (use B(1,2) in \<open>auto simp: mod_if\<close>)
  then show ?thesis by (simp add: isr_length_def fifo_list_def Let_def)
qed

end
