(* ===== verification/SerialPort.thy ===== *)
theory SerialPort
  imports SerialFifo
begin

text \<open>
  A port of the board as a driver of the device layer: what stays true of it, whoever opens and closes it in whatever way,
  and the port as a queue of bytes between the interrupt and its readers.
\<close>

section \<open>The invariant of a port\<close>

text \<open>\<^verbatim>\<open>stm32_control\<close> switches the receive interrupt.\<close>

fun irq_step :: "bool \<Rightarrow> port_op \<Rightarrow> bool" where
  "irq_step b (Port_control c _) =
     (if c = RT_DEVICE_CTRL_SET_INT then True else if c = RT_DEVICE_CTRL_CLR_INT then False else b)"
| "irq_step b _ = b"

definition irq_on :: "serial \<Rightarrow> bool" where "irq_on d = foldl irq_step False (s_port d)"

fun rx_fits :: "u16 \<Rightarrow> heap \<Rightarrow> serial_rx option \<Rightarrow> bool" where
  "rx_fits n h None = True"
| "rx_fits n h (Some (Rx_fifo a f)) = (fifo_inv n f \<and> a \<in> fst ` allocated h)"
| "rx_fits n h (Some (Rx_dma _ _)) = False"

definition rx_ok :: "serial \<Rightarrow> bool" where "rx_ok d \<longleftrightarrow> rx_fits (bufsz (s_config d)) (s_heap d) (s_rx d)"

lemma rx_okE:
  assumes "rx_ok d" "s_rx d \<noteq> None"
  obtains a f where "s_rx d = Some (Rx_fifo a f)" "fifo_inv (bufsz (s_config d)) f" "a \<in> fst ` allocated (s_heap d)"
proof -
  obtain x where x: "s_rx d = Some x" using assms(2) by blast
  show ?thesis by (cases x) (use that assms(1) x in \<open>auto simp: rx_ok_def\<close>)
qed

definition plain_flags :: "u16 \<Rightarrow> bool" where
  "plain_flags w \<longleftrightarrow> \<not> has_flag w RT_DEVICE_FLAG_DMA_RX \<and> \<not> has_flag w RT_DEVICE_FLAG_INT_TX \<and> \<not> has_flag w RT_DEVICE_FLAG_DMA_TX"

definition serial_ok :: "serial \<Rightarrow> bool" where
  "serial_ok d \<longleftrightarrow> heap_ok (s_heap d) \<and> 2 \<le> unat (bufsz (s_config d)) \<and> plain_flags (d_flag d) \<and> plain_flags (d_open_flag d) \<and>
     s_tx d = None \<and> rx_ok d \<and> (has_flag (d_open_flag d) RT_DEVICE_FLAG_INT_RX \<or> irq_on d \<longrightarrow> s_rx d \<noteq> None) \<and>
     (\<not> has_flag (d_flag d) RT_DEVICE_FLAG_ACTIVATED \<longrightarrow> \<not> has_flag (d_open_flag d) RT_DEVICE_FLAG_INT_RX \<and> \<not> irq_on d)"

lemma port_simps [simp]:
  "irq_on (port x d) = irq_step (irq_on d) x" "s_heap (port x d) = s_heap d" "s_config (port x d) = s_config d"
  "s_rx (port x d) = s_rx d" "s_tx (port x d) = s_tx d" "s_line (port x d) = s_line d" "d_flag (port x d) = d_flag d"
  "d_open_flag (port x d) = d_open_flag d" "d_ref_count (port x d) = d_ref_count d" "d_type (port x d) = d_type d"
  "d_rx_indicate (port x d) = d_rx_indicate d" "rx_ok (port x d) = rx_ok d"
  by (simp_all add: port_def irq_on_def rx_ok_def)

lemma irq_on_frame [simp]:
  "irq_on (d\<lparr>d_ref_count := n\<rparr>) = irq_on d" "irq_on (d\<lparr>d_flag := fl\<rparr>) = irq_on d" "irq_on (d\<lparr>d_open_flag := fl\<rparr>) = irq_on d"
  "irq_on (d\<lparr>s_rx := x\<rparr>) = irq_on d" "irq_on (d\<lparr>s_tx := y\<rparr>) = irq_on d" "irq_on (d\<lparr>s_heap := h\<rparr>) = irq_on d"
  "irq_on (d\<lparr>s_line := l\<rparr>) = irq_on d"
  by (simp_all add: irq_on_def)

lemma rx_ok_frame [simp]:
  "rx_ok (d\<lparr>d_ref_count := n\<rparr>) = rx_ok d" "rx_ok (d\<lparr>d_flag := fl\<rparr>) = rx_ok d" "rx_ok (d\<lparr>d_open_flag := fl\<rparr>) = rx_ok d"
  "rx_ok (d\<lparr>s_line := l\<rparr>) = rx_ok d" "rx_ok (d\<lparr>s_tx := t\<rparr>) = rx_ok d"
  by (simp_all add: rx_ok_def)

lemma plain_flags_or [simp]: "plain_flags (a OR b) \<longleftrightarrow> plain_flags a \<and> plain_flags b"
  by (auto simp: plain_flags_def)

lemma plain_flags_consts [simp]: "plain_flags 0" "plain_flags 8" "plain_flags 16" "plain_flags 64" "plain_flags 256"
  by (simp_all add: plain_flags_def has_flag_def)

lemma plain_flags_and: "plain_flags a \<Longrightarrow> plain_flags (a AND m)"
proof -
  have "(a AND m) AND f = (a AND f) AND m" for f by (simp add: ac_simps)
  then show "plain_flags a \<Longrightarrow> plain_flags (a AND m)" by (simp add: plain_flags_def has_flag_def)
qed

lemma low_flags: "\<not> has_flag (w AND 0xff) 256" "plain_flags (w AND 0xff)"
  by (simp_all add: plain_flags_def has_flag_masked)

text \<open>What the layer does to the common fields.\<close>

lemma serial_ok_ref: "serial_ok (d\<lparr>d_ref_count := n\<rparr>) = serial_ok d"
  by (simp add: serial_ok_def)

lemma serial_ok_active: "serial_ok d \<Longrightarrow> serial_ok (d\<lparr>d_flag := d_flag d OR RT_DEVICE_FLAG_ACTIVATED\<rparr>)"
  by (simp add: serial_ok_def)

lemma serial_ok_opened: "serial_ok d \<Longrightarrow> serial_ok (d\<lparr>d_open_flag := d_open_flag d OR RT_DEVICE_OFLAG_OPEN\<rparr>)"
  by (simp add: serial_ok_def) (simp add: has_flag_def)

lemma serial_ok_closed: "serial_ok d \<Longrightarrow> serial_ok (d\<lparr>d_open_flag := 0\<rparr>)"
  by (simp add: serial_ok_def)

lemma serial_init_ok: "serial_ok d \<Longrightarrow> \<not> has_flag (d_flag d) RT_DEVICE_FLAG_ACTIVATED \<Longrightarrow>
    rt_serial_init configure d = Some (r, d') \<Longrightarrow> serial_ok d' \<and> same_head d d' \<and> r = configure (s_config d)"
  by (auto simp: rt_serial_init_def Let_def serial_ok_def same_head_def rx_ok_def)

section \<open>Opening and closing\<close>

lemma new_fifo_ok:
  assumes "heap_ok (s_heap d)" "2 \<le> unat (bufsz (s_config d))" "new_fifo d = Some d'"
  obtains a f h where "d' = d\<lparr>s_heap := h, s_rx := Some (Rx_fifo a f)\<rparr>" "heap_ok h" "a \<in> fst ` allocated h"
    "fifo_inv (bufsz (s_config d)) f" "fifo_list (bufsz (s_config d)) f = []" "allocated (s_heap d) \<subseteq> allocated h"
proof (cases rule: malloc_ok[OF assms(1), of "12 + ucast (bufsz (s_config d))", case_names none block])
  case none
  then show ?thesis using assms(3) by (simp add: new_fifo_def)
next
  case (block p h n)
  let ?f = "\<lparr>rx_buffer = replicate (size_of d) 0, put_index = 0, get_index = 0, is_full = False\<rparr>"
  have "d' = d\<lparr>s_heap := h, s_rx := Some (Rx_fifo (p + 12) ?f)\<rparr>" using assms(3) block(1) by (simp add: new_fifo_def)
  moreover have "fifo_inv (bufsz (s_config d)) ?f" using assms(2)
    by (simp add: fifo_inv_def size_of_def word_less_nat_alt)
  moreover have "fifo_list (bufsz (s_config d)) ?f = []" using calculation(2) by (simp flip: fifo_empty_list add: fifo_empty_def)
  moreover have "p + 12 \<in> fst ` allocated h" "allocated (s_heap d) \<subseteq> allocated h" by (auto simp: block(3))
  ultimately show ?thesis using that[OF _ block(2)] by blast
qed

lemma open_rx_ok:
  assumes ok: "heap_ok (s_heap d)" "2 \<le> unat (bufsz (s_config d))" "rx_ok d" "irq_on d \<longrightarrow> s_rx d \<noteq> None"
    and fl: "\<not> has_flag oflag RT_DEVICE_FLAG_DMA_RX" "plain_flags (d_open_flag d)" "\<not> has_flag (d_open_flag d) RT_DEVICE_FLAG_INT_RX"
    and run: "open_rx oflag d = Some d'"
  shows "heap_ok (s_heap d')" "s_config d' = s_config d" "rx_ok d'" "plain_flags (d_open_flag d')" "s_tx d' = s_tx d"
    "d_flag d' = d_flag d" "same_head d d'"
    "has_flag (d_open_flag d') RT_DEVICE_FLAG_INT_RX \<or> irq_on d' \<longrightarrow> s_rx d' \<noteq> None"
    "has_flag oflag RT_DEVICE_FLAG_INT_RX \<Longrightarrow> has_flag (d_open_flag d') RT_DEVICE_FLAG_INT_RX"
proof -
  have "heap_ok (s_heap d') \<and> s_config d' = s_config d \<and> rx_ok d' \<and> plain_flags (d_open_flag d') \<and> s_tx d' = s_tx d \<and>
    d_flag d' = d_flag d \<and> same_head d d' \<and> (has_flag (d_open_flag d') RT_DEVICE_FLAG_INT_RX \<or> irq_on d' \<longrightarrow> s_rx d' \<noteq> None) \<and>
    (has_flag oflag RT_DEVICE_FLAG_INT_RX \<longrightarrow> has_flag (d_open_flag d') RT_DEVICE_FLAG_INT_RX)"
  proof (cases "s_rx d = None \<and> has_flag oflag RT_DEVICE_FLAG_INT_RX")
    case True
    then obtain d1 where d1: "new_fifo d = Some d1"
      "d' = port (Port_control RT_DEVICE_CTRL_SET_INT RT_DEVICE_FLAG_INT_RX) (set_open_flag RT_DEVICE_FLAG_INT_RX d1)"
      using run by (auto simp: open_rx_def)
    obtain a f h where n: "d1 = d\<lparr>s_heap := h, s_rx := Some (Rx_fifo a f)\<rparr>" "heap_ok h" "a \<in> fst ` allocated h"
      "fifo_inv (bufsz (s_config d)) f"
      by (rule new_fifo_ok[OF ok(1,2) d1(1)], rule that)
    then show ?thesis using fl by (simp add: d1(2) set_open_flag_def same_head_def rx_ok_def) (simp add: has_flag_def)
  next
    case False
    then have "d' = d \<or> d' = set_open_flag RT_DEVICE_FLAG_INT_RX d \<and> s_rx d \<noteq> None" "has_flag oflag RT_DEVICE_FLAG_INT_RX \<longrightarrow> d' = set_open_flag RT_DEVICE_FLAG_INT_RX d"
      using run fl by (auto simp: open_rx_def split: if_splits)
    then show ?thesis using ok fl by (auto simp: set_open_flag_def same_head_def) (simp_all add: has_flag_def)
  qed
  then show "heap_ok (s_heap d')" "s_config d' = s_config d" "rx_ok d'" "plain_flags (d_open_flag d')" "s_tx d' = s_tx d"
    "d_flag d' = d_flag d" "same_head d d'"
    "has_flag (d_open_flag d') RT_DEVICE_FLAG_INT_RX \<or> irq_on d' \<longrightarrow> s_rx d' \<noteq> None"
    "has_flag oflag RT_DEVICE_FLAG_INT_RX \<Longrightarrow> has_flag (d_open_flag d') RT_DEVICE_FLAG_INT_RX" by blast+
qed

lemma serial_open_ok:
  assumes ok: "serial_ok d" and act: "has_flag (d_flag d) RT_DEVICE_FLAG_ACTIVATED" and run: "rt_serial_open dq oflag d = Some (r, d')"
  shows "serial_ok d' \<and> same_head d d'"
proof (cases "plain_flags oflag \<and> (has_flag oflag RT_DEVICE_FLAG_INT_RX \<longrightarrow> has_flag (d_flag d) RT_DEVICE_FLAG_INT_RX)")
  case False
  then have "d' = d" using run ok unfolding rt_serial_open_def serial_ok_def plain_flags_def by (auto split: if_splits)
  then show ?thesis using ok by (simp add: same_head_def)
next
  case True
  let ?d1 = "d\<lparr>d_open_flag := oflag AND 0xff\<rparr>"
  let ?st = "if has_flag oflag RT_DEVICE_FLAG_STREAM \<or> has_flag (d_open_flag d) RT_DEVICE_FLAG_STREAM then RT_DEVICE_FLAG_STREAM else 0"
  have fl: "\<not> has_flag oflag RT_DEVICE_FLAG_DMA_RX" "\<not> has_flag oflag RT_DEVICE_FLAG_INT_TX" "\<not> has_flag oflag RT_DEVICE_FLAG_DMA_TX"
    using True by (simp_all add: plain_flags_def)
  obtain d2 where d2: "open_rx oflag ?d1 = Some d2" using run fl True by (auto simp: rt_serial_open_def Let_def split: option.splits)
  have pre: "heap_ok (s_heap ?d1)" "2 \<le> unat (bufsz (s_config ?d1))" "rx_ok ?d1" "irq_on ?d1 \<longrightarrow> s_rx ?d1 \<noteq> None"
    "\<not> has_flag oflag RT_DEVICE_FLAG_DMA_RX" "plain_flags (d_open_flag ?d1)" "\<not> has_flag (d_open_flag ?d1) RT_DEVICE_FLAG_INT_RX"
    using ok fl low_flags by (simp_all add: serial_ok_def)
  note O = open_rx_ok[OF pre d2]
  have "open_tx dq oflag d2 = Some d2" using fl O(5) ok by (simp add: open_tx_def serial_ok_def)
  then have d': "d' = set_open_flag ?st d2" using run fl True d2
    by (cases "has_flag oflag RT_DEVICE_FLAG_INT_RX") (simp_all add: rt_serial_open_def Let_def split: if_splits)
  have "plain_flags ?st" "\<not> has_flag ?st RT_DEVICE_FLAG_INT_RX" by (auto simp: has_flag_def)
  then show ?thesis using O ok act unfolding d' by (auto simp: serial_ok_def set_open_flag_def same_head_def)
qed

lemma serial_close_ok:
  assumes ok: "serial_ok d" and run: "rt_serial_close d = Some (r, d')"
  shows "serial_ok d' \<and> same_head d d'"
proof (cases "d_ref_count d > 1 \<or> \<not> has_flag (d_open_flag d) RT_DEVICE_FLAG_INT_RX")
  case True
  then have "d' = d" using run ok
    by (auto simp: rt_serial_close_def close_rx_def close_tx_def serial_ok_def plain_flags_def split: if_splits)
  then show ?thesis using ok by (simp add: same_head_def)
next
  case False
  then have "rx_ok d" "s_rx d \<noteq> None" using ok by (simp_all add: serial_ok_def)
  then obtain a f where f: "s_rx d = Some (Rx_fifo a f)" "a \<in> fst ` allocated (s_heap d)" by (rule rx_okE)
  then obtain k where k: "(a, k) \<in> allocated (s_heap d)" by auto
  have "heap_ok (s_heap d)" using ok by (simp add: serial_ok_def)
  then obtain h where h: "rt_free (Some a) (s_heap d) = Some h" "heap_ok h" using free_ok[OF _ k] by blast
  let ?d1 = "port (Port_control RT_DEVICE_CTRL_CLR_INT RT_DEVICE_FLAG_INT_RX)
      (clear_open_flag RT_DEVICE_FLAG_INT_RX (d\<lparr>s_heap := h, s_rx := None\<rparr>))"
  have fl: "plain_flags (d_open_flag ?d1)" "\<not> has_flag (d_open_flag ?d1) RT_DEVICE_FLAG_INT_RX"
    using ok by (simp_all add: clear_open_flag_def serial_ok_def plain_flags_and has_flag_masked)
  have "close_rx d = Some ?d1" using False f h(1) by (simp add: close_rx_def)
  moreover have "close_tx ?d1 = Some ?d1" using fl(1) by (simp add: close_tx_def plain_flags_def)
  ultimately have "d' = ?d1" using run False by (simp add: rt_serial_close_def)
  then show ?thesis using ok fl h(2) by (simp add: serial_ok_def rx_ok_def same_head_def clear_open_flag_def)
qed

section \<open>The port as a driver\<close>

text \<open>The functions of a port of the board; \<open>hal\<close> is the initialisation of the hardware library. A port
  is never open for transmission with interrupts or DMA, so that these two arguments are not used.\<close>

definition uart_ops :: "(uart_init \<Rightarrow> bool) \<Rightarrow> (serial, serial_configure option) dev_ops" where
  "uart_ops hal = serial_ops (stm32_configure hal) stm32_control (\<lambda>h. h) (\<lambda>_ _. None) (\<lambda>_ _. None)"

interpretation uart: driver "uart_ops hal" serial_ok for hal
proof unfold_locales
  fix d f r d'
  assume "serial_ok d" "\<not> has_flag (d_flag d) RT_DEVICE_FLAG_ACTIVATED" "op_init (uart_ops hal) = Some f" "f d = Some (r, d')"
  then show "serial_ok d' \<and> same_head d d' \<and> r \<noteq> -RT_ENOSYS"
    using serial_init_ok[of d "stm32_configure hal" r d'] by (auto simp: uart_ops_def serial_ops_def stm32_configure_def)
next
  fix d oflag r d'
  assume "serial_ok d" "has_flag (d_flag d) RT_DEVICE_FLAG_ACTIVATED" "call_open (uart_ops hal) oflag d = Some (r, d')"
  then show "serial_ok d' \<and> same_head d d'" by (auto simp: uart_ops_def serial_ops_def call_open_def dest: serial_open_ok)
next
  fix d f r d'
  assume "serial_ok d" "op_close (uart_ops hal) = Some f" "f d = Some (r, d')"
  then show "serial_ok d' \<and> same_head d d'" by (auto simp: uart_ops_def serial_ops_def dest: serial_close_ok)
qed (fact serial_ok_ref serial_ok_active serial_ok_opened serial_ok_closed)+

section \<open>The port as a queue\<close>

definition port_open :: "serial \<Rightarrow> bool" where
  "port_open d \<longleftrightarrow> serial_ok d \<and> is_device d \<and> d_ref_count d \<noteq> 0 \<and> has_flag (d_open_flag d) RT_DEVICE_FLAG_INT_RX"

definition port_queue :: "serial \<Rightarrow> u8 list" where
  "port_queue d = (case s_rx d of Some (Rx_fifo a f) \<Rightarrow> fifo_list (bufsz (s_config d)) f | _ \<Rightarrow> [])"

lemma port_openE:
  assumes "port_open d"
  obtains a f where "s_rx d = Some (Rx_fifo a f)" "fifo_inv (bufsz (s_config d)) f" "port_queue d = fifo_list (bufsz (s_config d)) f"
    "\<And>f'. fifo_inv (bufsz (s_config d)) f' \<Longrightarrow> port_open (d\<lparr>s_rx := Some (Rx_fifo a f')\<rparr>)"
proof -
  have "rx_ok d" "s_rx d \<noteq> None" using assms by (simp_all add: port_open_def serial_ok_def)
  then obtain a f where f: "s_rx d = Some (Rx_fifo a f)" "fifo_inv (bufsz (s_config d)) f" "a \<in> fst ` allocated (s_heap d)" by (rule rx_okE)
  have "port_open (d\<lparr>s_rx := Some (Rx_fifo a f')\<rparr>)" if "fifo_inv (bufsz (s_config d)) f'" for f'
    using assms f(3) that by (auto simp: port_open_def serial_ok_def rx_ok_def is_device_def)
  then show ?thesis using that f(1,2) by (simp add: port_queue_def)
qed

lemma port_open_line [simp]: "port_open (d\<lparr>s_line := l\<rparr>) = port_open d"
  by (simp add: port_open_def serial_ok_def is_device_def)

text \<open>Bytes \<open>bs\<close> arrive and the interrupt fetches them.\<close>

definition arrive :: "u8 list \<Rightarrow> serial \<Rightarrow> (serial \<times> nat option) option" where
  "arrive bs d = isr_rx_ind (d\<lparr>s_line := s_line d @ bs\<rparr>)"

lemma arrive_queue:
  assumes "port_open d" "s_line d = []"
  obtains d' where "arrive bs d = Some (d', if d_rx_indicate d \<and> port_queue d' \<noteq> [] then Some (length (port_queue d')) else None)"
    "port_open d'" "s_line d' = []" "s_config d' = s_config d" "port_queue d' = latest (size_of d - 1) (port_queue d @ bs)"
    "s_port d' = s_port d" "d_rx_indicate d' = d_rx_indicate d" "d_open_flag d' = d_open_flag d"
proof -
  obtain a f where f: "s_rx d = Some (Rx_fifo a f)" "fifo_inv (bufsz (s_config d)) f" "port_queue d = fifo_list (bufsz (s_config d)) f"
    "\<And>f'. fifo_inv (bufsz (s_config d)) f' \<Longrightarrow> port_open (d\<lparr>s_rx := Some (Rx_fifo a f')\<rparr>)"
    using port_openE[OF assms(1)] by blast
  let ?f = "isr_fetch (bufsz (s_config d)) bs f"
  let ?d = "d\<lparr>s_rx := Some (Rx_fifo a ?f), s_line := []\<rparr>"
  have I: "fifo_inv (bufsz (s_config d)) ?f" "fifo_list (bufsz (s_config d)) ?f = latest (size_of d - 1) (port_queue d @ bs)"
    using isr_fetch_spec[OF f(2), of bs] f(3) by (simp_all add: size_of_def)
  have q: "port_queue ?d = fifo_list (bufsz (s_config d)) ?f" by (simp add: port_queue_def)
  have "arrive bs d = Some (?d, if d_rx_indicate d \<and> port_queue ?d \<noteq> [] then Some (length (port_queue ?d)) else None)"
    using isr_length_count[OF I(1)] unfolding q by (simp add: arrive_def isr_rx_ind_def f(1) assms(2) Let_def size_of_def)
  then show ?thesis using that[of ?d] f(4)[OF I(1)] I(2) q by simp
qed

lemma fetch_queue:
  assumes "port_open d"
  obtains d' where "rt_device_read (uart_ops hal) k d = Some (Inr (length (take k (port_queue d)), take k (port_queue d)), d')"
    "port_open d'" "s_line d' = s_line d" "s_config d' = s_config d" "port_queue d' = drop k (port_queue d)" "s_port d' = s_port d"
    "d_rx_indicate d' = d_rx_indicate d" "d_open_flag d' = d_open_flag d"
proof -
  have o: "is_device d" "d_ref_count d \<noteq> 0" "has_flag (d_open_flag d) RT_DEVICE_FLAG_INT_RX" using assms by (simp_all add: port_open_def)
  obtain a f where f: "s_rx d = Some (Rx_fifo a f)" "fifo_inv (bufsz (s_config d)) f" "port_queue d = fifo_list (bufsz (s_config d)) f"
    "\<And>f'. fifo_inv (bufsz (s_config d)) f' \<Longrightarrow> port_open (d\<lparr>s_rx := Some (Rx_fifo a f')\<rparr>)"
    using port_openE[OF assms] by blast
  show ?thesis
  proof (cases "k = 0")
    case True
    have "rt_device_read (uart_ops hal) k d = Some (Inr (length (take k (port_queue d)), take k (port_queue d)), d)"
      using o by (simp add: rt_device_read_def uart_ops_def serial_ops_def rt_serial_read_def True)
    then show ?thesis using that[of d] assms by (simp add: True)
  next
    case False
    obtain f1 where f1: "serial_int_rx (bufsz (s_config d)) k f = (take k (port_queue d), f1)"
      "fifo_inv (bufsz (s_config d)) f1" "fifo_list (bufsz (s_config d)) f1 = drop k (port_queue d)"
      using serial_int_rx_spec[OF f(2), of k] f(3) by auto
    let ?d = "d\<lparr>s_rx := Some (Rx_fifo a f1)\<rparr>"
    have "rt_device_read (uart_ops hal) k d = Some (Inr (length (take k (port_queue d)), take k (port_queue d)), ?d)"
      using o f(1) f1(1) False by (simp add: rt_device_read_def uart_ops_def serial_ops_def rt_serial_read_def)
    then show ?thesis using that[of ?d] f(4)[OF f1(2)] f1(3) by (simp add: port_queue_def)
  qed
qed

end
