(* ===== verification/SerialProps.thy ===== *)
theory SerialProps
  imports SerialPort Byhm Semaphore Sample MemProps
begin

text \<open>
  Properties of the serial ports: the port as a queue between its interrupt and its readers, the users of a device, and
  what the two clients of the board make of the ports, the sensor driver and the AT client.
\<close>

section \<open>A port to instantiate the properties at\<close>

definition sample_port :: serial where
  "sample_port = \<lparr>d_type = 0x89, d_flag = 0x113, d_open_flag = 0x10b, d_ref_count = 1, d_rx_indicate = True, d_tx_complete = False,
     s_config = RT_SERIAL_CONFIG_DEFAULT\<lparr>bufsz := 16\<rparr>,
     s_rx = Some (Rx_fifo 12 \<lparr>rx_buffer = replicate 16 0, put_index = 14, get_index = 14, is_full = False\<rparr>), s_tx = None,
     s_heap = used_heap, s_line = [], s_port = []\<rparr>"

lemma sample_port_open: "port_open sample_port"
  using heap_reach_ok[OF used_reach] used_allocated
  by (simp add: port_open_def serial_ok_def sample_port_def is_device_def rt_object_get_type_def has_flag_def plain_flags_def rx_ok_def
      fifo_inv_def irq_on_def RT_SERIAL_CONFIG_DEFAULT_def)

lemma sample_port_sel: "s_line sample_port = []" "port_queue sample_port = []" "size_of sample_port = 16" "d_rx_indicate sample_port"
    "s_config sample_port = RT_SERIAL_CONFIG_DEFAULT\<lparr>bufsz := 16\<rparr>"
  by (simp_all add: sample_port_def port_queue_def fifo_list_def fifo_count_def size_of_def RT_SERIAL_CONFIG_DEFAULT_def)

section \<open>The port as a queue\<close>

datatype port_event = Arrive "u8 list" | Fetch nat

text \<open>The driver, and the queue it implements: what each \<^verbatim>\<open>rt_device_read\<close> gives, and what is left.\<close>

fun port_run :: "(uart_init \<Rightarrow> bool) \<Rightarrow> port_event list \<Rightarrow> serial \<Rightarrow> (u8 list list \<times> serial) option" where
  "port_run hal [] d = Some ([], d)"
| "port_run hal (Arrive bs # es) d = (case arrive bs d of None \<Rightarrow> None | Some (d1, _) \<Rightarrow> port_run hal es d1)"
| "port_run hal (Fetch k # es) d =
     (case rt_device_read (uart_ops hal) k d of
        Some (Inr (_, bs), d1) \<Rightarrow> map_option (apfst (Cons bs)) (port_run hal es d1)
      | _ \<Rightarrow> None)"

fun queue_run :: "nat \<Rightarrow> port_event list \<Rightarrow> u8 list \<Rightarrow> u8 list list \<times> u8 list" where
  "queue_run m [] q = ([], q)"
| "queue_run m (Arrive bs # es) q = queue_run m es (latest m (q @ bs))"
| "queue_run m (Fetch k # es) q = apfst (Cons (take k q)) (queue_run m es (drop k q))"

lemma port_run_queue:
  "port_open d \<Longrightarrow> s_line d = [] \<Longrightarrow> size_of d = n \<Longrightarrow>
    \<exists>d'. port_run hal es d = Some (fst (queue_run (n - 1) es (port_queue d)), d') \<and> port_queue d' = snd (queue_run (n - 1) es (port_queue d)) \<and>
      port_open d' \<and> s_line d' = [] \<and> s_config d' = s_config d \<and> d_rx_indicate d' = d_rx_indicate d \<and>
      s_port d' = s_port d \<and> d_open_flag d' = d_open_flag d"
proof (induction es arbitrary: d)
  case (Cons e es)
  show ?case
  proof (cases e)
    case (Arrive bs)
    obtain d1 i where d1: "arrive bs d = Some (d1, i)" "port_open d1" "s_line d1 = []" "s_config d1 = s_config d"
      "port_queue d1 = latest (size_of d - 1) (port_queue d @ bs)" "d_rx_indicate d1 = d_rx_indicate d"
      "s_port d1 = s_port d" "d_open_flag d1 = d_open_flag d"
      by (rule arrive_queue[OF Cons.prems(1,2), of bs], rule that)
    have "size_of d1 = n" using d1(4) Cons.prems(3) by (simp add: size_of_def)
    then show ?thesis using Cons.IH[OF d1(2,3)] d1 Cons.prems(3) by (simp add: Arrive)
  next
    case (Fetch k)
    obtain d1 where d1: "rt_device_read (uart_ops hal) k d = Some (Inr (length (take k (port_queue d)), take k (port_queue d)), d1)"
      "port_open d1" "s_line d1 = s_line d" "s_config d1 = s_config d" "port_queue d1 = drop k (port_queue d)"
      "d_rx_indicate d1 = d_rx_indicate d" "s_port d1 = s_port d" "d_open_flag d1 = d_open_flag d"
      by (rule fetch_queue[OF Cons.prems(1), of hal k], rule that)
    have "size_of d1 = n" "s_line d1 = []" using d1(3,4) Cons.prems(2,3) by (simp_all add: size_of_def)
    then show ?thesis using Cons.IH[OF d1(2)] d1 by (auto simp: Fetch)
  qed
qed simp

text \<open>C19: On an open port any interleaving of arriving bytes, which the interrupt stores, and of \<^verbatim>\<open>rt_device_read\<close> is the
  queue that keeps the last \<open>bufsz - 1\<close> bytes: every read returns what that queue gives, in order, without failure,
  and what is left is the same.\<close>

theorem serial_queue:
  assumes "port_open d" "s_line d = []"
  shows "\<exists>d'. port_run hal es d = Some (fst (queue_run (size_of d - 1) es (port_queue d)), d') \<and>
    port_queue d' = snd (queue_run (size_of d - 1) es (port_queue d)) \<and> port_open d'"
  using port_run_queue[OF assms refl] by blast

lemma serial_queue_witness:
  "\<exists>d'. port_run (\<lambda>_. True) [Arrive [1, 2, 3], Fetch 2, Arrive (map of_nat [4 ..< 20]), Fetch 3] sample_port =
     Some ([[1, 2], [5, 6, 7]], d') \<and> port_queue d' = map of_nat [8 ..< 20]"
  using serial_queue[OF sample_port_open sample_port_sel(1), of "\<lambda>_. True" "[Arrive [1, 2, 3], Fetch 2, Arrive (map of_nat [4 ..< 20]), Fetch 3]"]
  by (auto simp: sample_port_sel latest_def upt_rec)

section \<open>The users of a port\<close>

lemma serial_close_returns:
  assumes "serial_ok d"
  shows "rt_serial_close d \<noteq> None"
proof (cases "d_ref_count d > 1 \<or> \<not> has_flag (d_open_flag d) RT_DEVICE_FLAG_INT_RX")
  case True
  then show ?thesis using assms by (auto simp: rt_serial_close_def close_rx_def close_tx_def serial_ok_def plain_flags_def)
next
  case False
  have "rx_ok d" "s_rx d \<noteq> None" "heap_ok (s_heap d)" using assms False by (simp_all add: serial_ok_def)
  then obtain a f k where f: "s_rx d = Some (Rx_fifo a f)" "(a, k) \<in> allocated (s_heap d)" by (auto elim!: rx_okE)
  then obtain h where h: "rt_free (Some a) (s_heap d) = Some h" using free_ok[OF \<open>heap_ok (s_heap d)\<close> f(2)] by blast
  then obtain d1 where d1: "close_rx d = Some d1" "d_open_flag d1 = d_open_flag d AND NOT RT_DEVICE_FLAG_INT_RX"
    using False f(1) by (simp add: close_rx_def clear_open_flag_def port_def)
  have "plain_flags (d_open_flag d1)" unfolding d1(2) using assms by (intro plain_flags_and) (simp add: serial_ok_def)
  then show ?thesis using False d1(1) by (simp add: rt_serial_close_def close_tx_def plain_flags_def)
qed

lemma serial_open_returns:
  assumes "serial_ok d" "new_fifo d \<noteq> None"
  shows "rt_serial_open dq oflag d \<noteq> None"
proof (cases "plain_flags oflag \<and> (has_flag oflag RT_DEVICE_FLAG_INT_RX \<longrightarrow> has_flag (d_flag d) RT_DEVICE_FLAG_INT_RX)")
  case False
  then show ?thesis using assms(1) by (auto simp: rt_serial_open_def serial_ok_def plain_flags_def)
next
  case True
  let ?d1 = "d\<lparr>d_open_flag := oflag AND 0xff\<rparr>"
  have n: "new_fifo ?d1 \<noteq> None" using assms(2) by (auto simp: new_fifo_def split: option.splits)
  have fl: "\<not> has_flag oflag RT_DEVICE_FLAG_DMA_RX" "\<not> has_flag oflag RT_DEVICE_FLAG_INT_TX" "\<not> has_flag oflag RT_DEVICE_FLAG_DMA_TX"
    using True by (simp_all add: plain_flags_def)
  have "open_rx oflag ?d1 \<noteq> None" using n fl by (auto simp: open_rx_def)
  then show ?thesis using True fl by (auto simp: rt_serial_open_def Let_def open_tx_def)
qed

lemma device_close_returns:
  assumes "serial_ok d" "is_device d"
  shows "rt_device_close (uart_ops hal) d \<noteq> None"
proof -
  have "rt_serial_close (d\<lparr>d_ref_count := d_ref_count d - 1\<rparr>) \<noteq> None" using assms(1) by (intro serial_close_returns) (simp add: serial_ok_ref)
  then show ?thesis using assms(2) by (auto simp: rt_device_close_def Let_def uart_ops_def serial_ops_def)
qed

lemma ref_room: "(w :: u8) \<noteq> 255 \<Longrightarrow> w + 1 \<noteq> 0"
proof
  assume w: "w \<noteq> 255" "w + 1 = 0"
  then have "w = -1" by (simp add: eq_neg_iff_add_eq_0)
  then show False using w(1) by simp
qed

lemma device_open_returns:
  assumes ok: "serial_ok d" and dev: "is_device d" and room: "d_ref_count d \<noteq> 255" "new_fifo d \<noteq> None"
  shows "rt_device_open (uart_ops hal) oflag d \<noteq> None"
proof -
  obtain r d1 where a: "activate (uart_ops hal) d = Some (r, d1)" "s_heap d1 = s_heap d" "s_config d1 = s_config d"
  proof (cases "has_flag (d_flag d) RT_DEVICE_FLAG_ACTIVATED \<or> stm32_configure hal (s_config d) = RT_EOK")
    case True
    then show ?thesis
      using that[of RT_EOK d] that by (cases "has_flag (d_flag d) RT_DEVICE_FLAG_ACTIVATED")
        (simp_all add: activate_def uart_ops_def serial_ops_def rt_serial_init_def Let_def)
  next
    case False
    then show ?thesis using that by (simp add: activate_def uart_ops_def serial_ops_def rt_serial_init_def Let_def)
  qed
  note A = uart.activate_keeps[OF ok a(1)]
  have n: "new_fifo d1 \<noteq> None" using room(2) a(2,3) by (auto simp: new_fifo_def split: option.splits)
  have o: "call_open (uart_ops hal) oflag d1 \<noteq> None" using serial_open_returns[of d1] A n by (simp add: call_open_def uart_ops_def serial_ops_def)
  have "d_ref_count d2 + 1 \<noteq> 0" if "call_open (uart_ops hal) oflag d1 = Some (r2, d2)" "r = RT_EOK" for r2 d2
  proof -
    have "d_ref_count d2 = d_ref_count d" using uart.open_keeps[OF _ _ that(1)] A that(2) by (simp add: same_head_def)
    then show ?thesis using ref_room[OF room(1)] by simp
  qed
  then show ?thesis using dev a(1) o by (auto simp: rt_device_open_def Let_def)
qed

datatype user_event = Open u16 | Close

text \<open>What a sequence of calls returns.\<close>

fun use_run :: "(uart_init \<Rightarrow> bool) \<Rightarrow> user_event list \<Rightarrow> serial \<Rightarrow> (int list \<times> serial) option" where
  "use_run hal [] d = Some ([], d)"
| "use_run hal (Open oflag # es) d =
     (case rt_device_open (uart_ops hal) oflag d of None \<Rightarrow> None | Some (r, d1) \<Rightarrow> map_option (apfst (Cons r)) (use_run hal es d1))"
| "use_run hal (Close # es) d =
     (case rt_device_close (uart_ops hal) d of None \<Rightarrow> None | Some (r, d1) \<Rightarrow> map_option (apfst (Cons r)) (use_run hal es d1))"

text \<open>The users that these results leave.\<close>

fun users :: "user_event list \<Rightarrow> int list \<Rightarrow> nat \<Rightarrow> nat" where
  "users (Open _ # es) (r # rs) n = users es rs (if r = RT_EOK \<or> r = -RT_ENOSYS then n + 1 else n)"
| "users (Close # es) (r # rs) n = users es rs (n - 1)"
| "users _ _ n = n"

lemma use_run_users:
  "serial_ok d \<Longrightarrow> is_device d \<Longrightarrow> use_run hal es d = Some (rs, d') \<Longrightarrow>
    serial_ok d' \<and> is_device d' \<and> unat (d_ref_count d') = users es rs (unat (d_ref_count d))"
proof (induction es arbitrary: d rs)
  case (Cons e es)
  show ?case
  proof (cases e)
    case (Open oflag)
    then obtain r d1 rs1 where s: "rt_device_open (uart_ops hal) oflag d = Some (r, d1)" "use_run hal es d1 = Some (rs1, d')" "rs = r # rs1"
      using Cons.prems(3) by (auto split: option.splits)
    note u = uart.open_users[OF Cons.prems(1,2) s(1)]
    then show ?thesis using Cons.IH[OF _ _ s(2)] by (simp add: Open s(3))
  next
    case Close
    then obtain r d1 rs1 where s: "rt_device_close (uart_ops hal) d = Some (r, d1)" "use_run hal es d1 = Some (rs1, d')" "rs = r # rs1"
      using Cons.prems(3) by (auto split: option.splits)
    note u = uart.close_users[OF Cons.prems(1,2) s(1)]
    then show ?thesis using Cons.IH[OF _ _ s(2)] by (simp add: Close s(3))
  qed
qed simp

text \<open>Whoever opens and closes a port in whatever order, with whatever flags: the invariant of the driver holds, with the FIFO
  in the heap whenever the interrupt is on, and the reference count is the number of successful opens less the closes. Closing always
  returns; opening does unless 255 users have the port or there is no memory for a FIFO, where an assertion fails.\<close>

theorem device_users:
  assumes "serial_ok d" "is_device d" "use_run hal es d = Some (rs, d')"
  shows "serial_ok d' \<and> unat (d_ref_count d') = users es rs (unat (d_ref_count d)) \<and> rt_device_close (uart_ops hal) d' \<noteq> None \<and>
    (d_ref_count d' \<noteq> 255 \<and> new_fifo d' \<noteq> None \<longrightarrow> rt_device_open (uart_ops hal) oflag d' \<noteq> None)"
  using use_run_users[OF assms] device_close_returns[of d' hal] device_open_returns[of d' hal] by simp

lemma device_users_witness:
  "\<exists>d'. use_run (\<lambda>_. True) [Open 0x103, Close] sample_port = Some ([RT_EOK, RT_EOK], d') \<and> unat (d_ref_count d') = 1"
proof -
  have "\<exists>d'. use_run (\<lambda>_. True) [Open 0x103, Close] sample_port = Some ([RT_EOK, RT_EOK], d')"
    by (simp add: rt_device_open_def rt_device_close_def activate_def call_open_def uart_ops_def serial_ops_def rt_serial_open_def
        open_rx_def open_tx_def set_open_flag_def sample_port_def is_device_def rt_object_get_type_def has_flag_def Let_def)
  then obtain d' where d': "use_run (\<lambda>_. True) [Open 0x103, Close] sample_port = Some ([RT_EOK, RT_EOK], d')" by blast
  have "serial_ok sample_port" "is_device sample_port" using sample_port_open by (simp_all add: port_open_def)
  from device_users[OF this d', of 0] d' show ?thesis by (simp add: sample_port_def)
qed

text \<open>An open without the receive flag on a port that is open with it succeeds and takes the flag away from all users: from then
  on a read polls the empty line and returns nothing, while the interrupt still stores into the FIFO.\<close>

theorem reopen_blinds:
  assumes "port_open d" "plain_flags oflag" "\<not> has_flag oflag RT_DEVICE_FLAG_INT_RX" "\<not> has_flag (d_flag d) RT_DEVICE_FLAG_STANDALONE"
    "d_ref_count d < 255" "s_line d = []"
  shows "\<exists>d'. rt_device_open (uart_ops hal) oflag d = Some (RT_EOK, d') \<and> port_queue d' = port_queue d \<and>
    rt_device_read (uart_ops hal) k d' = Some (Inr (0, []), d') \<and>
    (\<exists>d''. arrive bs d' = Some (d'', if d_rx_indicate d \<and> port_queue d'' \<noteq> [] then Some (length (port_queue d'')) else None) \<and>
       port_queue d'' = latest (size_of d - 1) (port_queue d @ bs))"
proof -
  obtain a f where f: "s_rx d = Some (Rx_fifo a f)" by (rule port_openE[OF assms(1)], rule that)
  have ok: "is_device d" "has_flag (d_flag d) RT_DEVICE_FLAG_ACTIVATED" "s_tx d = None" using assms(1) by (auto simp: port_open_def serial_ok_def)
  have fl: "\<not> has_flag oflag RT_DEVICE_FLAG_DMA_RX" "\<not> has_flag oflag RT_DEVICE_FLAG_INT_TX" "\<not> has_flag oflag RT_DEVICE_FLAG_DMA_TX"
    using assms(2) by (simp_all add: plain_flags_def)
  define st where "st = (if has_flag oflag RT_DEVICE_FLAG_STREAM \<or> has_flag (d_open_flag d) RT_DEVICE_FLAG_STREAM then RT_DEVICE_FLAG_STREAM else 0)"
  define w where "w = ((oflag AND 0xff) OR st) OR RT_DEVICE_OFLAG_OPEN"
  let ?d = "d\<lparr>d_open_flag := w, d_ref_count := d_ref_count d + 1\<rparr>"
  have "rt_serial_open (\<lambda>h. h) oflag d = Some (RT_EOK, d\<lparr>d_open_flag := (oflag AND 0xff) OR st\<rparr>)"
    using f fl assms(3) ok(3) by (simp add: rt_serial_open_def open_rx_def open_tx_def set_open_flag_def st_def)
  moreover have "d_ref_count d + 1 \<noteq> 0" using assms(5) by (intro ref_room) auto
  ultimately have o: "rt_device_open (uart_ops hal) oflag d = Some (RT_EOK, ?d)"
    using ok assms(4) by (simp add: rt_device_open_def activate_def call_open_def uart_ops_def serial_ops_def Let_def w_def)
  have "\<not> has_flag st RT_DEVICE_FLAG_INT_RX" "\<not> has_flag st RT_DEVICE_FLAG_DMA_RX" by (auto simp: st_def has_flag_def)
  then have nw: "\<not> has_flag w RT_DEVICE_FLAG_INT_RX" "\<not> has_flag w RT_DEVICE_FLAG_DMA_RX"
    by (simp_all add: w_def has_flag_masked) (simp_all add: has_flag_def)
  have "rt_device_read (uart_ops hal) k ?d = Some (Inr (0, []), ?d)"
    using ok(1) nw \<open>d_ref_count d + 1 \<noteq> 0\<close> assms(6)
    by (cases k) (simp_all add: rt_device_read_def uart_ops_def serial_ops_def rt_serial_read_def is_device_def)
  moreover obtain d1 where d1: "arrive bs d = Some (d1, if d_rx_indicate d \<and> port_queue d1 \<noteq> [] then Some (length (port_queue d1)) else None)"
    "port_queue d1 = latest (size_of d - 1) (port_queue d @ bs)"
    by (rule arrive_queue[OF assms(1,6), of bs], rule that)
  have "arrive bs ?d = Some (d1\<lparr>d_open_flag := w, d_ref_count := d_ref_count d + 1\<rparr>,
      if d_rx_indicate d \<and> port_queue d1 \<noteq> [] then Some (length (port_queue d1)) else None)"
    using d1(1) f by (auto simp: arrive_def isr_rx_ind_def Let_def size_of_def)
  moreover have "port_queue ?d = port_queue d" "port_queue (d1\<lparr>d_open_flag := w, d_ref_count := d_ref_count d + 1\<rparr>) = port_queue d1"
    by (simp_all add: port_queue_def split: option.split serial_rx.split)
  ultimately show ?thesis using o d1(2) by auto
qed

lemma reopen_blinds_witness:
  "\<exists>d'. rt_device_open (uart_ops (\<lambda>_. True)) 0x003 sample_port = Some (RT_EOK, d') \<and>
     rt_device_read (uart_ops (\<lambda>_. True)) 9 d' = Some (Inr (0, []), d') \<and>
     (\<exists>d'' i. arrive [1, 2, 3] d' = Some (d'', i) \<and> port_queue d'' = [1, 2, 3])"
proof -
  have "plain_flags 0x003" "\<not> has_flag 0x003 RT_DEVICE_FLAG_INT_RX" "\<not> has_flag (d_flag sample_port) RT_DEVICE_FLAG_STANDALONE"
    "d_ref_count sample_port < 255" by (simp_all add: plain_flags_def has_flag_def sample_port_def)
  from reopen_blinds[OF sample_port_open this sample_port_sel(1), of "\<lambda>_. True" 9 "[1, 2, 3]"] show ?thesis
    by (auto simp: sample_port_sel latest_def)
qed

end
