(* ===== verification/PortClients.thy ===== *)
theory PortClients
  imports SerialProps
begin

text \<open>
  The two clients of the ports: the weather sensor's driver, whose bus operations of theory \<open>Byhm\<close> are carried out by the device
  layer here, and the AT client's \<^verbatim>\<open>at_client_getchar\<close>, which waits for the interrupt on a semaphore of the kernel.
\<close>

section \<open>The bus of the sensor\<close>

text \<open>\<open>chunks\<close> arrive during the delay. The result is what the last read gave.\<close>

fun run_op :: "(uart_init \<Rightarrow> bool) \<Rightarrow> u8 list list \<Rightarrow> bus_op \<Rightarrow> u8 list \<times> serial \<Rightarrow> (u8 list \<times> serial) option" where
  "run_op hal chunks BusOpen (got, d) = map_option (\<lambda>(_, d1). (got, d1)) (rt_device_open (uart_ops hal) RT_DEVICE_FLAG_INT_RX d)"
| "run_op hal chunks (BusConfig b) (got, d) =
     map_option (\<lambda>(_, d1). (got, d1))
       (rt_device_control (uart_ops hal) RT_DEVICE_CTRL_CONFIG (Some (RT_SERIAL_CONFIG_DEFAULT\<lparr>baud_rate := b\<rparr>)) d)"
| "run_op hal chunks (BusWrite frame) (got, d) = map_option (\<lambda>(_, d1). (got, d1)) (rt_device_write (uart_ops hal) frame d)"
| "run_op hal chunks (BusDelay ms) (got, d) = map_option (\<lambda>(_, d1). (got, d1)) (port_run hal (map Arrive chunks) d)"
| "run_op hal chunks (BusRead n) (got, d) =
     (case rt_device_read (uart_ops hal) n d of Some (Inr (_, bs), d1) \<Rightarrow> Some (bs, d1) | Some (Inl _, d1) \<Rightarrow> Some ([], d1) | None \<Rightarrow> None)"

fun bus_run :: "(uart_init \<Rightarrow> bool) \<Rightarrow> u8 list list \<Rightarrow> bus_op list \<Rightarrow> u8 list \<times> serial \<Rightarrow> (u8 list \<times> serial) option" where
  "bus_run hal chunks [] s = Some s"
| "bus_run hal chunks (x # ops) s = (case run_op hal chunks x s of None \<Rightarrow> None | Some s1 \<Rightarrow> bus_run hal chunks ops s1)"

text \<open>Polling transmission: without the stream flag the bytes go out as they are.\<close>

lemma poll_tx_sel [simp]:
  "s_rx (serial_poll_tx bs d) = s_rx d" "s_config (serial_poll_tx bs d) = s_config d" "s_line (serial_poll_tx bs d) = s_line d"
  "d_open_flag (serial_poll_tx bs d) = d_open_flag d" "d_rx_indicate (serial_poll_tx bs d) = d_rx_indicate d"
  by (induction bs arbitrary: d) (simp_all add: Let_def)

lemma port_open_port [simp]: "irq_step (irq_on d) x = irq_on d \<Longrightarrow> port_open (port x d) = port_open d"
  by (simp add: port_open_def serial_ok_def is_device_def)

lemma port_open_poll_tx [simp]: "port_open (serial_poll_tx bs d) = port_open d"
  by (induction bs arbitrary: d) (simp_all add: Let_def)

lemma port_queue_poll_tx [simp]: "port_queue (serial_poll_tx bs d) = port_queue d"
  by (simp add: port_queue_def split: option.split serial_rx.split)

lemma poll_tx_out: "\<not> has_flag (d_open_flag d) RT_DEVICE_FLAG_STREAM \<Longrightarrow> s_port (serial_poll_tx bs d) = s_port d @ map Port_putc bs"
  by (induction bs arbitrary: d) (simp_all add: port_def)

lemma write_port:
  assumes "port_open d"
  shows "rt_device_write (uart_ops hal) bs d = Some (Inr (length bs), serial_poll_tx bs d)"
  using assms by (auto simp: rt_device_write_def uart_ops_def serial_ops_def rt_serial_write_def port_open_def serial_ok_def plain_flags_def)

lemma latest_length: "length (latest m xs) \<le> m"
  by (simp add: latest_def)

lemma arrivals_queue:
  "0 < m \<Longrightarrow> length q \<le> m \<Longrightarrow> queue_run m (map Arrive chunks) q = ([], latest m (q @ concat chunks))"
proof (induction chunks arbitrary: q)
  case (Cons c cs)
  show ?case using Cons.IH[OF Cons.prems(1) latest_length[of m "q @ c"]] Cons.prems(1) by (simp add: latest_append)
qed (simp add: latest_short)

lemma query_port:
  assumes "port_open d" "s_line d = []" "length (port_queue d @ concat chunks) < size_of d" "\<not> has_flag (d_open_flag d) RT_DEVICE_FLAG_STREAM"
  shows "\<exists>d'. bus_run hal chunks (query_trace cmd reg cnt n) (got, d) = Some (take n (port_queue d @ concat chunks), d') \<and>
    port_queue d' = drop n (port_queue d @ concat chunks) \<and> port_open d' \<and> s_line d' = [] \<and> s_config d' = s_config d \<and>
    s_port d' = s_port d @ map Port_putc (query_frame cmd reg cnt) \<and> d_open_flag d' = d_open_flag d"
proof -
  let ?d1 = "serial_poll_tx (query_frame cmd reg cnt) d" and ?q = "port_queue d @ concat chunks"
  have d1: "port_open ?d1" "s_line ?d1 = []" "port_queue ?d1 = port_queue d" "size_of ?d1 = size_of d"
    using assms(1,2) by (simp_all add: size_of_def)
  have m: "0 < size_of d - 1 \<and> length (port_queue d) \<le> size_of d - 1 \<and> length ?q \<le> size_of d - 1"
    using assms(1,3) by (auto simp: port_open_def serial_ok_def size_of_def)
  then have q: "queue_run (size_of d - 1) (map Arrive chunks) (port_queue d) = ([], ?q)"
    using latest_short[of ?q "size_of d - 1"] by (simp only: arrivals_queue)
  obtain d2 where d2: "port_run hal (map Arrive chunks) ?d1 = Some ([], d2)" "port_queue d2 = ?q" "port_open d2" "s_line d2 = []"
    "s_config d2 = s_config ?d1" "s_port d2 = s_port ?d1" "d_open_flag d2 = d_open_flag ?d1"
    using port_run_queue[OF d1(1,2,4), of hal "map Arrive chunks"] d1(3) q by auto
  obtain d3 where d3: "rt_device_read (uart_ops hal) n d2 = Some (Inr (length (take n (port_queue d2)), take n (port_queue d2)), d3)"
    "port_open d3" "s_line d3 = s_line d2" "s_config d3 = s_config d2" "port_queue d3 = drop n (port_queue d2)" "s_port d3 = s_port d2"
    "d_open_flag d3 = d_open_flag d2"
    by (rule fetch_queue[OF d2(3), of hal n], rule that)
  have "bus_run hal chunks (query_trace cmd reg cnt n) (got, d) = Some (take n ?q, d3)"
    using d2(1,2) d3(1) by (simp add: query_trace_def write_port[OF assms(1)])
  then show ?thesis using d2 d3 assms(4) by (simp add: poll_tx_out)
qed

section \<open>Opening a port for the first time\<close>

text \<open>A port as \<^verbatim>\<open>rt_hw_usart_init\<close> registers it, with memory for its FIFO and a hardware library that takes its configuration.\<close>

definition port_fresh :: "(uart_init \<Rightarrow> bool) \<Rightarrow> serial \<Rightarrow> bool" where
  "port_fresh hal d \<longleftrightarrow> serial_ok d \<and> is_device d \<and> d_flag d = 0x103 \<and> d_open_flag d = 0 \<and> d_ref_count d = 0 \<and>
     s_config d = RT_SERIAL_CONFIG_DEFAULT \<and> s_line d = [] \<and> new_fifo d \<noteq> None \<and> stm32_configure hal RT_SERIAL_CONFIG_DEFAULT = RT_EOK"

lemma open_fresh:
  assumes "port_fresh hal d" "has_flag oflag RT_DEVICE_FLAG_INT_RX" "plain_flags oflag" "\<not> has_flag oflag RT_DEVICE_FLAG_STREAM"
  shows "\<exists>d'. rt_device_open (uart_ops hal) oflag d = Some (RT_EOK, d') \<and> port_open d' \<and> port_queue d' = [] \<and> s_line d' = [] \<and>
    s_config d' = RT_SERIAL_CONFIG_DEFAULT \<and> \<not> has_flag (d_open_flag d') RT_DEVICE_FLAG_STREAM \<and> d_rx_indicate d' = d_rx_indicate d"
proof -
  have ok: "serial_ok d" "is_device d" "d_flag d = 0x103" "d_open_flag d = 0" "d_ref_count d = 0" "s_config d = RT_SERIAL_CONFIG_DEFAULT" "s_line d = []"
    "new_fifo d \<noteq> None" "stm32_configure hal RT_SERIAL_CONFIG_DEFAULT = RT_EOK" using assms(1) by (simp_all add: port_fresh_def)
  have fl: "\<not> has_flag oflag RT_DEVICE_FLAG_DMA_RX" "\<not> has_flag oflag RT_DEVICE_FLAG_INT_TX" "\<not> has_flag oflag RT_DEVICE_FLAG_DMA_TX"
    using assms(3) by (simp_all add: plain_flags_def)
  define d1 where "d1 = port (Port_init (s_config d)) (d\<lparr>s_rx := None, s_tx := None\<rparr>)\<lparr>d_flag := d_flag d OR RT_DEVICE_FLAG_ACTIVATED\<rparr>"
  have a: "activate (uart_ops hal) d = Some (RT_EOK, d1)" using ok
    by (simp add: activate_def uart_ops_def serial_ops_def rt_serial_init_def Let_def has_flag_def d1_def)
  let ?d1 = "d1\<lparr>d_open_flag := oflag AND 0xff\<rparr>"
  have n: "new_fifo ?d1 \<noteq> None" using ok(8) by (auto simp: new_fifo_def d1_def split: option.splits)
  then obtain d2 where d2: "new_fifo ?d1 = Some d2" by blast
  have h: "heap_ok (s_heap ?d1)" "2 \<le> unat (bufsz (s_config ?d1))" using ok(1) by (simp_all add: d1_def serial_ok_def)
  obtain x f h where f: "d2 = ?d1\<lparr>s_heap := h, s_rx := Some (Rx_fifo x f)\<rparr>" "fifo_list (bufsz (s_config ?d1)) f = []"
    by (rule new_fifo_ok[OF h d2], rule that)
  define d3 where "d3 = port (Port_control RT_DEVICE_CTRL_SET_INT RT_DEVICE_FLAG_INT_RX) (set_open_flag RT_DEVICE_FLAG_INT_RX d2)"
  have "rt_serial_open (\<lambda>h. h) oflag d1 = Some (RT_EOK, set_open_flag 0 d3)"
    using assms(2,4) fl d2 f ok(3,4) by (simp add: rt_serial_open_def open_rx_def open_tx_def d1_def d3_def Let_def) (simp add: has_flag_def)
  then have o: "rt_device_open (uart_ops hal) oflag d = Some (RT_EOK,
      d3\<lparr>d_open_flag := d_open_flag d3 OR RT_DEVICE_OFLAG_OPEN, d_ref_count := 1\<rparr>)" (is "_ = Some (_, ?d)")
    using a ok(2-5) f by (simp add: rt_device_open_def call_open_def uart_ops_def serial_ops_def Let_def d1_def d3_def set_open_flag_def
        has_flag_def)
  have "\<not> has_flag (d_open_flag ?d) RT_DEVICE_FLAG_STREAM" using assms(4) f
    by (simp add: d3_def set_open_flag_def) (simp add: has_flag_def and.assoc)
  moreover have "has_flag (d_open_flag ?d) RT_DEVICE_FLAG_INT_RX" by (simp add: d3_def set_open_flag_def) (simp add: has_flag_def)
  moreover have "serial_ok ?d" "is_device ?d" using uart.open_users[OF ok(1,2) o] by simp_all
  ultimately show ?thesis using o f ok by (simp add: port_open_def port_queue_def d3_def d1_def set_open_flag_def)
qed

lemma config_port:
  assumes "port_open d" "bufsz cfg = bufsz (s_config d)"
  shows "\<exists>d'. rt_device_control (uart_ops hal) RT_DEVICE_CTRL_CONFIG (Some cfg) d = Some (RT_EOK, d') \<and> port_open d' \<and>
    port_queue d' = port_queue d \<and> s_line d' = s_line d \<and> s_config d' = cfg \<and> d_open_flag d' = d_open_flag d \<and>
    s_port d' = s_port d @ [Port_init cfg] \<and> d_rx_indicate d' = d_rx_indicate d"
proof -
  let ?d = "port (Port_init cfg) (d\<lparr>s_config := cfg\<rparr>)"
  have "rt_device_control (uart_ops hal) RT_DEVICE_CTRL_CONFIG (Some cfg) d = Some (RT_EOK, ?d)"
    using assms by (simp add: rt_device_control_def port_open_def uart_ops_def serial_ops_def rt_serial_control_def Let_def)
  moreover have "port_open ?d" using assms
    by (auto simp: port_open_def serial_ok_def is_device_def rx_ok_def irq_on_def)
  moreover have "port_queue ?d = port_queue d" using assms(2) by (simp add: port_queue_def split: option.split serial_rx.split)
  ultimately show ?thesis by (simp add: port_def)
qed

lemma sensor_init_port:
  assumes "port_fresh hal d"
  shows "\<exists>d'. bus_run hal [] (snd (BYH_M_init True baud)) ([], d) = Some ([], d') \<and> port_open d' \<and> port_queue d' = [] \<and> s_line d' = [] \<and>
    s_config d' = RT_SERIAL_CONFIG_DEFAULT\<lparr>baud_rate := baud\<rparr> \<and> \<not> has_flag (d_open_flag d') RT_DEVICE_FLAG_STREAM \<and> size_of d' = 64"
proof -
  have "has_flag 0x100 RT_DEVICE_FLAG_INT_RX" "\<not> has_flag 0x100 RT_DEVICE_FLAG_STREAM" by (simp_all add: has_flag_def)
  from open_fresh[OF assms this(1) _ this(2)] obtain d1 where d1: "rt_device_open (uart_ops hal) 0x100 d = Some (RT_EOK, d1)" "port_open d1"
    "port_queue d1 = []" "s_line d1 = []" "s_config d1 = RT_SERIAL_CONFIG_DEFAULT" "\<not> has_flag (d_open_flag d1) RT_DEVICE_FLAG_STREAM" by auto
  let ?cfg = "RT_SERIAL_CONFIG_DEFAULT\<lparr>baud_rate := baud\<rparr>"
  have "bufsz ?cfg = bufsz (s_config d1)" by (simp add: d1(5))
  from config_port[OF d1(2) this, of hal] d1 show ?thesis
    by (auto simp: BYH_M_init_def size_of_def RT_SERIAL_CONFIG_DEFAULT_def)
qed

section \<open>The sensor over its port\<close>

text \<open>The answer of the station to the query for one register, and the three frames that a round of queries sends.\<close>

definition answer1 :: "u8 \<Rightarrow> u8 \<Rightarrow> u16 \<Rightarrow> u8 list" where
  "answer1 addr fn a = (let body = [addr, fn, 2, hi_byte a, lo_byte a] in body @ [lo_byte (crc_reg body), hi_byte (crc_reg body)])"

lemma answer1_ok: "length (answer1 addr fn a) = 7" "crc_reg (answer1 addr fn a) = 0" "word_at (answer1 addr fn a) 3 = a"
proof -
  show "crc_reg (answer1 addr fn a) = 0" unfolding answer1_def Let_def by (simp only: crc_residue)
  show "length (answer1 addr fn a) = 7" "word_at (answer1 addr fn a) 3 = a"
    by (simp_all add: answer1_def Let_def word_at_def word_of_bytes)
qed

text \<open>A command for register \<open>reg\<close> and count \<open>cnt\<close> after the address bytes of \<open>cmd\<close>, with a valid checksum.\<close>

definition asks :: "u8 list \<Rightarrow> u8 \<Rightarrow> u8 \<Rightarrow> u8 list \<Rightarrow> bool" where
  "asks cmd reg cnt f \<longleftrightarrow> length f = 8 \<and> take 6 f = (take 6 cmd)[3 := cmd ! 3 + reg, 5 := cmd ! 5 + cnt] \<and> crc_reg f = 0"

lemma query_frame_asks: "6 \<le> length cmd \<Longrightarrow> asks cmd reg cnt (query_frame cmd reg cnt)"
  using query_frame_ok[of cmd reg cnt] by (simp add: asks_def query_frame_def Let_def)

lemma query_port_open:
  assumes "port_open d" "s_line d = []" "port_queue d = []" "length (concat c) = n" "n < size_of d" "\<not> has_flag (d_open_flag d) RT_DEVICE_FLAG_STREAM"
    "6 \<le> length cmd"
  obtains d' f where "bus_run hal c (query_trace cmd reg cnt n) ([], d) = Some (concat c, d')" "port_queue d' = []" "port_open d'" "s_line d' = []"
    "size_of d' = size_of d" "\<not> has_flag (d_open_flag d') RT_DEVICE_FLAG_STREAM" "s_port d' = s_port d @ map Port_putc f" "asks cmd reg cnt f"
proof -
  have "length (port_queue d @ concat c) < size_of d" using assms(3-5) by simp
  from query_port[OF assms(1,2) this assms(6), of hal cmd reg cnt n "[]"] obtain d' where
    "bus_run hal c (query_trace cmd reg cnt n) ([], d) = Some (concat c, d')" "port_queue d' = []" "port_open d'" "s_line d' = []"
    "size_of d' = size_of d" "\<not> has_flag (d_open_flag d') RT_DEVICE_FLAG_STREAM" "s_port d' = s_port d @ map Port_putc (query_frame cmd reg cnt)"
    using assms(3,4,6) by (auto simp: size_of_def)
  then show ?thesis using that query_frame_asks[OF assms(7)] by blast
qed

text \<open>C23: After \<^verbatim>\<open>BYH_M_init\<close> on a port as it was registered, each of the three queries of a round puts exactly one frame on the port, byte for byte
  the command with the register and the count of that query and a valid checksum; and when the station's answer comes in through the
  interrupt during the delay, in any pieces, the driver decodes exactly the values the station sent, whatever its buffer held before: humidity and
  temperature, then noise, then the two particle counts. The port is empty at the end.\<close>

theorem sensor_over_port:
  assumes "port_fresh hal d" "6 \<le> length (BYH_M_CMD b)"
    "concat c1 = answer2 a1 f1 h t" "concat c2 = answer1 a2 f2 n" "concat c3 = answer2 a3 f3 p q"
  shows "\<exists>d1 d2 d3 d4 g1 g2 g3 q1 q2 q3 b1 b2. bus_run hal [] (snd (BYH_M_init True baud)) ([], d) = Some ([], d1) \<and>
    BYH_M_get_humiture j1 g1 b = (RT_EOK, q1, b1) \<and> bus_run hal c1 q1 ([], d1) = Some (g1, d2) \<and>
    BYH_M_get_noise j2 g2 b1 = (RT_EOK, q2, b2) \<and> bus_run hal c2 q2 ([], d2) = Some (g2, d3) \<and>
    BYH_M_get_PM_Data j3 g3 b2 = (RT_EOK, q3, b\<lparr>Humidity_x10 := h, Temperature_x10 := t, Noise_x10 := n, PM2_5 := p, PM10 := q\<rparr>) \<and>
    bus_run hal c3 q3 ([], d3) = Some (g3, d4) \<and> port_queue d4 = [] \<and>
    (\<exists>w1 w2 w3. s_port d2 = s_port d1 @ map Port_putc w1 \<and> s_port d3 = s_port d2 @ map Port_putc w2 \<and>
       s_port d4 = s_port d3 @ map Port_putc w3 \<and>
       asks (BYH_M_CMD b) 0 2 w1 \<and> asks (BYH_M_CMD b) 2 1 w2 \<and> asks (BYH_M_CMD b) 3 2 w3)"
proof -
  obtain d1 where d1: "bus_run hal [] (snd (BYH_M_init True baud)) ([], d) = Some ([], d1)" "port_open d1" "port_queue d1 = []" "s_line d1 = []"
    "\<not> has_flag (d_open_flag d1) RT_DEVICE_FLAG_STREAM" "size_of d1 = 64" using sensor_init_port[OF assms(1), of baud] by blast
  obtain d2 w1 where d2: "bus_run hal c1 (query_trace (BYH_M_CMD b) 0 2 9) ([], d1) = Some (concat c1, d2)" "port_queue d2 = []" "port_open d2"
    "s_line d2 = []" "size_of d2 = size_of d1" "\<not> has_flag (d_open_flag d2) RT_DEVICE_FLAG_STREAM" "s_port d2 = s_port d1 @ map Port_putc w1"
    "asks (BYH_M_CMD b) 0 2 w1"
    by (rule query_port_open[OF d1(2,4,3) _ _ d1(5) assms(2), of c1 9]) (simp_all add: assms(3) answer2_ok d1(6))
  obtain d3 w2 where d3: "bus_run hal c2 (query_trace (BYH_M_CMD b) 2 1 7) ([], d2) = Some (concat c2, d3)" "port_queue d3 = []" "port_open d3"
    "s_line d3 = []" "size_of d3 = size_of d2" "\<not> has_flag (d_open_flag d3) RT_DEVICE_FLAG_STREAM" "s_port d3 = s_port d2 @ map Port_putc w2"
    "asks (BYH_M_CMD b) 2 1 w2"
    by (rule query_port_open[OF d2(3,4,2) _ _ d2(6) assms(2), of c2 7]) (simp_all add: assms(4) answer1_ok d1(6) d2(5))
  obtain d4 w3 where d4: "bus_run hal c3 (query_trace (BYH_M_CMD b) 3 2 9) ([], d3) = Some (concat c3, d4)" "port_queue d4 = []"
    "s_port d4 = s_port d3 @ map Port_putc w3" "asks (BYH_M_CMD b) 3 2 w3"
    by (rule query_port_open[OF d3(3,4,2) _ _ d3(6) assms(2), of c3 9]) (simp_all add: assms(5) answer2_ok d1(6) d2(5) d3(5))
  let ?b1 = "b\<lparr>Humidity_x10 := h, Temperature_x10 := t\<rparr>"
  have "BYH_M_get_humiture j1 (concat c1) b = (RT_EOK, query_trace (BYH_M_CMD b) 0 2 9, ?b1)"
    using humiture_ok[of "concat c1" j1 b] by (simp add: assms(3) answer2_ok)
  moreover have "BYH_M_get_noise j2 (concat c2) ?b1 = (RT_EOK, query_trace (BYH_M_CMD b) 2 1 7, ?b1\<lparr>Noise_x10 := n\<rparr>)"
    using noise_ok[of "concat c2" j2 ?b1] by (simp add: assms(4) answer1_ok)
  moreover have "BYH_M_get_PM_Data j3 (concat c3) (?b1\<lparr>Noise_x10 := n\<rparr>) = (RT_EOK, query_trace (BYH_M_CMD b) 3 2 9,
      b\<lparr>Humidity_x10 := h, Temperature_x10 := t, Noise_x10 := n, PM2_5 := p, PM10 := q\<rparr>)"
    using pm_ok[of "concat c3" j3 "?b1\<lparr>Noise_x10 := n\<rparr>"] by (simp add: assms(5) answer2_ok)
  ultimately show ?thesis using d1(1) d2(1,7,8) d3(1,7,8) d4 by blast
qed

definition fresh_port :: serial where
  "fresh_port = \<lparr>d_type = 0x89, d_flag = 0x103, d_open_flag = 0, d_ref_count = 0, d_rx_indicate = False, d_tx_complete = False,
     s_config = RT_SERIAL_CONFIG_DEFAULT, s_rx = None, s_tx = None, s_heap = used_heap, s_line = [], s_port = []\<rparr>"

lemma fresh_port: "port_fresh (\<lambda>_. True) fresh_port"
proof -
  obtain h where "rt_malloc 76 used_heap = Some (Some 124, h)" by (rule used_malloc[of 76]) (simp_all add: unat_align4)
  then have "new_fifo fresh_port \<noteq> None" by (simp add: new_fifo_def fresh_port_def RT_SERIAL_CONFIG_DEFAULT_def)
  moreover have "serial_ok fresh_port" using heap_reach_ok[OF used_reach]
    by (simp add: serial_ok_def fresh_port_def RT_SERIAL_CONFIG_DEFAULT_def has_flag_def plain_flags_def rx_ok_def irq_on_def)
  ultimately show ?thesis
    by (simp add: port_fresh_def fresh_port_def stm32_configure_def is_device_def rt_object_get_type_def)
qed

definition sensor_start :: BYH_M_t where
  "sensor_start = \<lparr>BYH_M_CMD = [0x0b, 0x03, 0x01, 0xf4, 0x00, 0x00], Temperature_x10 = 0, Humidity_x10 = 0,
     Noise_x10 = 0, PM2_5 = 0, PM10 = 0\<rparr>"

lemma sensor_over_port_witness:
  "\<exists>d1 d2 g1 q1 b1 w1. bus_run (\<lambda>_. True) [] (snd (BYH_M_init True 4800)) ([], fresh_port) = Some ([], d1) \<and>
     BYH_M_get_humiture [] g1 sensor_start = (RT_EOK, q1, b1) \<and>
     bus_run (\<lambda>_. True) [take 4 (answer2 11 3 652 231), drop 4 (answer2 11 3 652 231)] q1 ([], d1) = Some (g1, d2) \<and>
     s_port d2 = s_port d1 @ map Port_putc w1 \<and> take 6 w1 = [0x0b, 0x03, 0x01, 0xf4, 0x00, 0x02]"
proof -
  have "6 \<le> length (BYH_M_CMD sensor_start)" by (simp add: sensor_start_def)
  from sensor_over_port[OF fresh_port this, of "[take 4 (answer2 11 3 652 231), drop 4 (answer2 11 3 652 231)]" 11 3 652 231
      "[answer1 11 3 405]" 11 3 405 "[answer2 11 3 35 50]" 11 3 35 50 4800 "[]" "[]" "[]"]
  show ?thesis by (simp add: asks_def sensor_start_def) blast
qed

text \<open>The driver does not empty the port before a query: an answer that came too late for the previous query is taken as the answer
  of the next one, whatever that asked for, and every later answer is one query behind. Humidity and temperature become particle counts.\<close>

theorem sensor_late_answer:
  assumes "port_open d" "s_line d = []" "\<not> has_flag (d_open_flag d) RT_DEVICE_FLAG_STREAM" "18 < size_of d"
    "port_queue d = answer2 a1 f1 h t" "concat c = answer2 a2 f2 p q"
  shows "\<exists>got d'. bus_run hal c (query_trace (BYH_M_CMD b) 3 2 9) ([], d) = Some (got, d') \<and>
    BYH_M_get_PM_Data junk got b = (RT_EOK, query_trace (BYH_M_CMD b) 3 2 9, b\<lparr>PM2_5 := h, PM10 := t\<rparr>) \<and>
    port_queue d' = answer2 a2 f2 p q"
proof -
  have "length (port_queue d @ concat c) < size_of d" using assms(4) by (simp add: assms(5,6) answer2_ok)
  from query_port[OF assms(1,2) this assms(3), of hal "BYH_M_CMD b" 3 2 9 "[]"] show ?thesis
    using pm_ok[OF answer2_ok(1,2), of junk a1 f1 h t b] by (auto simp: assms(5,6) answer2_ok)
qed

text \<open>A port that an answer has reached.\<close>

definition late_port :: serial where
  "late_port = sample_port\<lparr>s_config := RT_SERIAL_CONFIG_DEFAULT, s_rx := Some (Rx_fifo 12 \<lparr>rx_buffer = answer2 11 3 652 231 @ replicate 55 0,
     put_index = 9, get_index = 0, is_full = False\<rparr>)\<rparr>"

lemma sensor_late_answer_witness:
  "\<exists>got d'. bus_run (\<lambda>_. True) [answer2 11 3 35 50] (query_trace (BYH_M_CMD sensor_start) 3 2 9) ([], late_port) = Some (got, d') \<and>
     snd (snd (BYH_M_get_PM_Data [] got sensor_start)) = sensor_start\<lparr>PM2_5 := 652, PM10 := 231\<rparr>"
proof -
  have i: "fifo_inv 64 \<lparr>rx_buffer = answer2 11 3 652 231 @ replicate 55 0, put_index = 9, get_index = 0, is_full = False\<rparr>"
    by (simp add: fifo_inv_def answer2_ok)
  have "port_open late_port" using sample_port_open i
    by (auto simp: port_open_def serial_ok_def late_port_def sample_port_def is_device_def rx_ok_def irq_on_def RT_SERIAL_CONFIG_DEFAULT_def)
  moreover have "port_queue late_port = answer2 11 3 652 231"
    by (simp add: port_queue_def late_port_def fifo_list_def fifo_count_def RT_SERIAL_CONFIG_DEFAULT_def win_def nth_append answer2_ok
        cong: map_cong) (simp add: list_eq_iff_nth_eq answer2_ok nth_append)
  moreover have "s_line late_port = []" "\<not> has_flag (d_open_flag late_port) RT_DEVICE_FLAG_STREAM" "18 < size_of late_port"
    by (simp_all add: late_port_def sample_port_def has_flag_def size_of_def RT_SERIAL_CONFIG_DEFAULT_def)
  ultimately show ?thesis
    using sensor_late_answer[of late_port 11 3 652 231 "[answer2 11 3 35 50]" 11 3 35 50 "\<lambda>_. True" sensor_start "[]"] by fastforce
qed

end
