(* ===== verification/Console.thy ===== *)
theory Console
  imports PortClients Kprintf
begin

text \<open>
  The console, the last part of \<^verbatim>\<open>src/kservice.c\<close>: the device that \<^verbatim>\<open>rt_kprintf\<close> and \<^verbatim>\<open>rt_kputs\<close> write to. The devices of the board are its
  serial ports; they are the objects of the container and take their memory from its heap. \<open>None\<close> is a failed assertion or a crash.
\<close>

section \<open>State\<close>

abbreviation (input) RT_CONSOLEBUF_SIZE :: nat where "RT_CONSOLEBUF_SIZE \<equiv> 128"
abbreviation (input) RT_DEVICE_OFLAG_RDWR :: u16 where "RT_DEVICE_OFLAG_RDWR \<equiv> 0x003"

record io =
  console_device :: "onode option"
  rt_log_buf :: "u8 list"
  port_of :: "onode \<Rightarrow> serial"
  objs :: osys

text \<open>An operation on the port of an object, with the heap of the system.\<close>

definition the_port :: "onode \<Rightarrow> 'x io_scheme \<Rightarrow> serial" where
  "the_port x w = (port_of w x)\<lparr>s_heap := oheap (objs w)\<rparr>"

definition set_port :: "onode \<Rightarrow> serial \<Rightarrow> 'x io_scheme \<Rightarrow> 'x io_scheme" where
  "set_port x d w = w\<lparr>port_of := (port_of w)(x := d), objs := (objs w)\<lparr>oheap := s_heap d\<rparr>\<rparr>"

definition on_port :: "onode \<Rightarrow> (serial \<Rightarrow> ('r \<times> serial) option) \<Rightarrow> 'x io_scheme \<Rightarrow> ('r \<times> 'x io_scheme) option" where
  "on_port x f w = map_option (\<lambda>(r, d). (r, set_port x d w)) (f (the_port x w))"

section \<open>Operations\<close>

definition rt_console_get_device :: "'x io_scheme \<Rightarrow> onode option" where
  "rt_console_get_device w = console_device w"

definition rt_console_set_device :: "(uart_init \<Rightarrow> bool) \<Rightarrow> u8 list \<Rightarrow> 'x io_scheme \<Rightarrow> (onode option \<times> 'x io_scheme) option" where
  "rt_console_set_device hal name w =
     (let old = console_device w
      in case rt_device_find name (objs w) of
           None \<Rightarrow> None
         | Some (None, s1) \<Rightarrow> Some (old, w\<lparr>objs := s1\<rparr>)
         | Some (Some new, s1) \<Rightarrow>
             let w1 = w\<lparr>objs := s1\<rparr>
             in case (case console_device w1 of
                        None \<Rightarrow> Some w1
                      | Some c \<Rightarrow> map_option snd (on_port c (rt_device_close (uart_ops hal)) w1)) of
                  None \<Rightarrow> None
                | Some w2 \<Rightarrow>
                    map_option (\<lambda>(_, w3). (old, w3\<lparr>console_device := Some new\<rparr>))
                      (on_port new (rt_device_open (uart_ops hal) (RT_DEVICE_OFLAG_RDWR OR RT_DEVICE_FLAG_STREAM)) w2))"

text \<open>Writing to the console; without one the output goes nowhere (\<^verbatim>\<open>rt_hw_console_output\<close> is empty). For the time of the write the
  device is in stream mode.\<close>

definition console_write :: "(uart_init \<Rightarrow> bool) \<Rightarrow> u8 list \<Rightarrow> serial \<Rightarrow> ((int + nat) \<times> serial) option" where
  "console_write hal bs d =
     (let old_flag = d_open_flag d
      in case rt_device_write (uart_ops hal) bs (d\<lparr>d_open_flag := d_open_flag d OR RT_DEVICE_FLAG_STREAM\<rparr>) of
           None \<Rightarrow> None
         | Some (r, d1) \<Rightarrow> Some (r, d1\<lparr>d_open_flag := old_flag\<rparr>))"

definition console_put :: "(uart_init \<Rightarrow> bool) \<Rightarrow> u8 list \<Rightarrow> 'x io_scheme \<Rightarrow> 'x io_scheme option" where
  "console_put hal bs w =
     (case console_device w of None \<Rightarrow> Some w | Some c \<Rightarrow> map_option snd (on_port c (console_write hal bs) w))"

definition rt_kputs :: "(uart_init \<Rightarrow> bool) \<Rightarrow> u8 list option \<Rightarrow> 'x io_scheme \<Rightarrow> 'x io_scheme option" where
  "rt_kputs hal str w =
     (case str of None \<Rightarrow> Some w | Some str \<Rightarrow> console_put hal (take (rt_strlen str) str) w)"

definition rt_kprintf :: "(uart_init \<Rightarrow> bool) \<Rightarrow> u8 list \<Rightarrow> parg list \<Rightarrow> 'x io_scheme \<Rightarrow> 'x io_scheme option" where
  "rt_kprintf hal fmt args w =
     (case rt_vsnprintf (rt_log_buf w) (RT_CONSOLEBUF_SIZE - 1) fmt args of
        None \<Rightarrow> None
      | Some (len, buf) \<Rightarrow>
          let n = (if len > RT_CONSOLEBUF_SIZE - 1 then RT_CONSOLEBUF_SIZE - 1 else len)
          in console_put hal (take n buf) (w\<lparr>rt_log_buf := buf\<rparr>))"

section \<open>Looking for a device\<close>

lemma device_class: "rt_object_get_information RT_Object_Class_Device = Some 8"
  using container_types_inj[of 8] by (simp add: container_types_def)

text \<open>The kernel after a search: unchanged, or locked and unlocked.\<close>

definition searched :: "kernel \<Rightarrow> kernel" where
  "searched k = (if cur k \<noteq> None then rt_exit_critical (rt_enter_critical k) else k)"

text \<open>The part of \<open>obj_inv\<close> that a search needs: the lists of the classes and their objects.\<close>

definition listed :: "osys \<Rightarrow> (nat \<Rightarrow> onode list) \<Rightarrow> bool" where
  "listed s cs \<longleftrightarrow> rings (olinks s) cs \<and> (\<forall>i < 10. \<forall>x \<in> set (cs i). obj_ok s (container_types ! i) x)"

lemma device_find_result:
  assumes inv: "listed s cs"
  shows "rt_device_find name s = Some (find (\<lambda>x. o_name (obj s x) = rt_strncpy name 8) (cs 8), s\<lparr>okern := searched (okern s)\<rparr>)"
proof -
  define s1 where "s1 = (if rt_thread_self (okern s) \<noteq> None then s\<lparr>okern := rt_enter_critical (okern s)\<rparr> else s)"
  have i: "(8 :: nat) < 10" by simp
  have same: "olinks s1 = olinks s" "obj s1 = obj s" by (simp_all add: s1_def)
  have d: "dring (olinks s1) (Head 8) (cs 8)" using inv i by (simp add: listed_def rings_def same)
  have "rt_strncmp (o_name (obj s x)) name 8 = 0 \<longleftrightarrow> o_name (obj s x) = rt_strncpy name 8" if "x \<in> set (cs 8)" for x
  proof -
    have "obj_ok s (container_types ! 8) x" using inv i that by (simp add: listed_def)
    then show ?thesis by (simp add: rt_strncmp_zero obj_ok_def)
  qed
  then have "find (\<lambda>x. rt_strncmp (o_name (obj s1 x)) name 8 = 0) (cs 8) = find (\<lambda>x. o_name (obj s x) = rt_strncpy name 8) (cs 8)"
    by (intro find_cong) (simp_all add: same)
  moreover have "find_loop s1 (Head 8) name (nxt (olinks s1) (Head 8)) = Some (find (\<lambda>x. rt_strncmp (o_name (obj s1 x)) name 8 = 0) (cs 8))"
    using d by (intro find_loop_lseg) (simp_all add: dring_def)
  moreover have "(if rt_thread_self (okern s1) \<noteq> None then s1\<lparr>okern := rt_exit_critical (okern s1)\<rparr> else s1) = s\<lparr>okern := searched (okern s)\<rparr>"
    by (simp add: s1_def searched_def rt_thread_self_def rt_enter_critical_def)
  ultimately show ?thesis unfolding rt_device_find_def Let_def s1_def[symmetric] device_class by (simp only: option.case)
qed

section \<open>Opening a port\<close>

text \<open>A port that has no FIFO: as \<^verbatim>\<open>rt_hw_usart_init\<close> registers it, or open for polling only.\<close>

definition port_idle :: "(uart_init \<Rightarrow> bool) \<Rightarrow> serial \<Rightarrow> bool" where
  "port_idle hal d \<longleftrightarrow> serial_ok d \<and> is_device d \<and> has_flag (d_flag d) RT_DEVICE_FLAG_INT_RX \<and> \<not> has_flag (d_flag d) RT_DEVICE_FLAG_STANDALONE \<and>
     (if has_flag (d_flag d) RT_DEVICE_FLAG_ACTIVATED then s_rx d = None else stm32_configure hal (s_config d) = RT_EOK) \<and>
     s_line d = [] \<and> new_fifo d \<noteq> None"

text \<open>What the first part of the opening leaves.\<close>

definition woken :: "serial \<Rightarrow> serial" where
  "woken d = (if has_flag (d_flag d) RT_DEVICE_FLAG_ACTIVATED then d
     else port (Port_init (s_config d)) (d\<lparr>s_rx := None, s_tx := None\<rparr>)\<lparr>d_flag := d_flag d OR RT_DEVICE_FLAG_ACTIVATED\<rparr>)"

lemma woken_sel [simp]: "s_config (woken d) = s_config d" "s_line (woken d) = s_line d" "s_heap (woken d) = s_heap d" "d_open_flag (woken d) = d_open_flag d"
    "d_rx_indicate (woken d) = d_rx_indicate d" "d_ref_count (woken d) = d_ref_count d" "is_device (woken d) = is_device d" "irq_on (woken d) = irq_on d"
    "d_type (woken d) = d_type d"
  by (simp_all add: woken_def is_device_def)

lemma activate_idle:
  assumes "port_idle hal d"
  shows "activate (uart_ops hal) d = Some (RT_EOK, woken d)" "has_flag (d_flag (woken d)) RT_DEVICE_FLAG_ACTIVATED"
    "has_flag (d_flag (woken d)) RT_DEVICE_FLAG_INT_RX" "\<not> has_flag (d_flag (woken d)) RT_DEVICE_FLAG_STANDALONE"
    "s_rx (woken d) = None" "s_tx (woken d) = None" "serial_ok (woken d)"
proof -
  have a: "activate (uart_ops hal) d = Some (RT_EOK, woken d)"
    using assms by (auto simp: port_idle_def activate_def woken_def uart_ops_def serial_ops_def rt_serial_init_def Let_def)
  then show "activate (uart_ops hal) d = Some (RT_EOK, woken d)" "serial_ok (woken d)"
    using uart.activate_keeps[OF _ a] assms by (simp_all add: port_idle_def)
  show "has_flag (d_flag (woken d)) RT_DEVICE_FLAG_ACTIVATED" by (simp add: woken_def) (simp add: has_flag_def)
  have "\<not> has_flag 16 8" by (simp add: has_flag_def)
  then show "has_flag (d_flag (woken d)) RT_DEVICE_FLAG_INT_RX" "\<not> has_flag (d_flag (woken d)) RT_DEVICE_FLAG_STANDALONE"
    "s_rx (woken d) = None" "s_tx (woken d) = None"
    using assms by (auto simp: port_idle_def woken_def serial_ok_def)
qed

lemma open_idle:
  assumes "port_idle hal d" "has_flag oflag RT_DEVICE_FLAG_INT_RX" "plain_flags oflag" "d_ref_count d \<noteq> 255"
  shows "\<exists>d'. rt_device_open (uart_ops hal) oflag d = Some (RT_EOK, d') \<and> port_open d' \<and> port_queue d' = [] \<and> s_line d' = [] \<and>
    s_config d' = s_config d \<and> d_rx_indicate d' = d_rx_indicate d"
proof -
  have ok: "serial_ok d" "is_device d" "s_line d = []" "new_fifo d \<noteq> None" using assms(1) by (simp_all add: port_idle_def)
  note A = activate_idle[OF assms(1)]
  have fl: "\<not> has_flag oflag RT_DEVICE_FLAG_DMA_RX" "\<not> has_flag oflag RT_DEVICE_FLAG_INT_TX" "\<not> has_flag oflag RT_DEVICE_FLAG_DMA_TX"
    using assms(3) by (simp_all add: plain_flags_def)
  define st where "st = (if has_flag oflag RT_DEVICE_FLAG_STREAM \<or> has_flag (d_open_flag d) RT_DEVICE_FLAG_STREAM then RT_DEVICE_FLAG_STREAM else 0)"
  let ?d1 = "(woken d)\<lparr>d_open_flag := oflag AND 0xff\<rparr>"
  have "new_fifo ?d1 \<noteq> None" using ok(4) by (auto simp: new_fifo_def split: option.splits)
  then obtain d2 where d2: "new_fifo ?d1 = Some d2" by blast
  have h: "heap_ok (s_heap ?d1)" "2 \<le> unat (bufsz (s_config ?d1))" using ok(1) by (simp_all add: serial_ok_def)
  obtain x f h where f: "d2 = ?d1\<lparr>s_heap := h, s_rx := Some (Rx_fifo x f)\<rparr>" "fifo_list (bufsz (s_config ?d1)) f = []"
    by (rule new_fifo_ok[OF h d2], rule that)
  define d3 where "d3 = set_open_flag st (port (Port_control RT_DEVICE_CTRL_SET_INT RT_DEVICE_FLAG_INT_RX) (set_open_flag RT_DEVICE_FLAG_INT_RX d2))"
  have "rt_serial_open (\<lambda>h. h) oflag (woken d) = Some (RT_EOK, d3)"
    using assms(2) fl d2 f A(3,5,6) by (simp add: rt_serial_open_def open_rx_def open_tx_def d3_def Let_def set_open_flag_def st_def)
  moreover have "d_ref_count d3 + 1 \<noteq> 0" using ref_room[OF assms(4)] f by (simp add: d3_def set_open_flag_def)
  ultimately have o: "rt_device_open (uart_ops hal) oflag d = Some (RT_EOK,
      d3\<lparr>d_open_flag := d_open_flag d3 OR RT_DEVICE_OFLAG_OPEN, d_ref_count := d_ref_count d3 + 1\<rparr>)" (is "_ = Some (_, ?d)")
    using A(1,4) ok(2) by (simp add: rt_device_open_def call_open_def uart_ops_def serial_ops_def Let_def)
  have "has_flag (d_open_flag ?d) RT_DEVICE_FLAG_INT_RX" by (simp add: d3_def set_open_flag_def) (simp add: has_flag_def)
  moreover have "serial_ok ?d" "is_device ?d" using uart.open_users[OF ok(1,2) o] by simp_all
  ultimately show ?thesis using o f ok(3) \<open>d_ref_count d3 + 1 \<noteq> 0\<close> by (simp add: port_open_def port_queue_def d3_def set_open_flag_def)
qed

lemma open_polling:
  assumes "port_idle hal d" "\<not> has_flag oflag RT_DEVICE_FLAG_INT_RX" "plain_flags oflag" "d_ref_count d \<noteq> 255"
  shows "\<exists>d'. rt_device_open (uart_ops hal) oflag d = Some (RT_EOK, d') \<and> port_idle hal d' \<and> d_ref_count d' = d_ref_count d + 1 \<and>
    s_config d' = s_config d \<and> d_rx_indicate d' = d_rx_indicate d \<and> s_heap d' = s_heap d"
proof -
  have ok: "serial_ok d" "is_device d" "s_line d = []" "new_fifo d \<noteq> None" using assms(1) by (simp_all add: port_idle_def)
  note A = activate_idle[OF assms(1)]
  have fl: "\<not> has_flag oflag RT_DEVICE_FLAG_DMA_RX" "\<not> has_flag oflag RT_DEVICE_FLAG_INT_TX" "\<not> has_flag oflag RT_DEVICE_FLAG_DMA_TX"
    using assms(3) by (simp_all add: plain_flags_def)
  define st where "st = (if has_flag oflag RT_DEVICE_FLAG_STREAM \<or> has_flag (d_open_flag d) RT_DEVICE_FLAG_STREAM then RT_DEVICE_FLAG_STREAM else 0)"
  define d3 where "d3 = set_open_flag st ((woken d)\<lparr>d_open_flag := oflag AND 0xff\<rparr>)"
  have "rt_serial_open (\<lambda>h. h) oflag (woken d) = Some (RT_EOK, d3)"
    using assms(2) fl A(5,6) by (simp add: rt_serial_open_def open_rx_def open_tx_def d3_def Let_def set_open_flag_def st_def)
  moreover have "d_ref_count d3 + 1 \<noteq> 0" using ref_room[OF assms(4)] by (simp add: d3_def set_open_flag_def)
  ultimately have o: "rt_device_open (uart_ops hal) oflag d = Some (RT_EOK,
      d3\<lparr>d_open_flag := d_open_flag d3 OR RT_DEVICE_OFLAG_OPEN, d_ref_count := d_ref_count d3 + 1\<rparr>)" (is "_ = Some (_, ?d)")
    using A(1,4) ok(2) by (simp add: rt_device_open_def call_open_def uart_ops_def serial_ops_def Let_def)
  have "serial_ok ?d" "is_device ?d" using uart.open_users[OF ok(1,2) o] by simp_all
  moreover have "new_fifo ?d \<noteq> None" using ok(4) by (auto simp: new_fifo_def d3_def set_open_flag_def split: option.splits)
  ultimately show ?thesis using o A(2-5) ok(3) by (simp add: port_idle_def d3_def set_open_flag_def)
qed

section \<open>Output\<close>

text \<open>A terminal gets a carriage return before each line feed.\<close>

definition with_returns :: "u8 list \<Rightarrow> u8 list" where
  "with_returns bs = concat (map (\<lambda>c. if c = 10 then [13, 10] else [c]) bs)"

lemma poll_tx_stream: "has_flag (d_open_flag d) RT_DEVICE_FLAG_STREAM \<Longrightarrow>
    s_port (serial_poll_tx bs d) = s_port d @ map Port_putc (with_returns bs)"
proof (induction bs arbitrary: d)
  case (Cons c bs)
  have "s_port (serial_poll_tx (c # bs) d) = s_port (serial_poll_tx bs (port (Port_putc c) (if c = 10 then port (Port_putc 13) d else d)))"
    using Cons.prems by (simp add: Let_def)
  also have "\<dots> = s_port (port (Port_putc c) (if c = 10 then port (Port_putc 13) d else d)) @ map Port_putc (with_returns bs)"
    using Cons.prems by (intro Cons.IH) simp
  finally show ?case by (simp add: with_returns_def) (simp add: port_def)
qed (simp add: with_returns_def)

text \<open>Polling transmission changes nothing but the record of what the port was asked.\<close>

lemma poll_tx_only: "serial_poll_tx bs d = d\<lparr>s_port := s_port (serial_poll_tx bs d)\<rparr>"
  by (induction bs arbitrary: d) (simp_all add: Let_def port_def, metis (no_types, lifting) serial.surjective serial.update_convs(6))

lemma console_write_port:
  assumes "serial_ok d" "is_device d" "d_ref_count d \<noteq> 0"
  shows "console_write hal bs d = Some (Inr (length bs), d\<lparr>s_port := s_port d @ map Port_putc (with_returns bs)\<rparr>)"
proof -
  let ?d = "d\<lparr>d_open_flag := d_open_flag d OR RT_DEVICE_FLAG_STREAM\<rparr>"
  have st: "has_flag (d_open_flag ?d) RT_DEVICE_FLAG_STREAM" by simp (simp add: has_flag_def)
  have "plain_flags (d_open_flag ?d)" using assms(1) by (simp add: serial_ok_def)
  then have "rt_device_write (uart_ops hal) bs ?d = Some (Inr (length bs), serial_poll_tx bs ?d)"
    using assms(2,3) by (auto simp: rt_device_write_def uart_ops_def serial_ops_def rt_serial_write_def plain_flags_def is_device_def)
  moreover have "serial_poll_tx bs ?d = ?d\<lparr>s_port := s_port d @ map Port_putc (with_returns bs)\<rparr>"
    using poll_tx_only[of bs ?d] poll_tx_stream[OF st, of bs] by simp
  ultimately show ?thesis by (simp add: console_write_def)
qed

lemma kprintf_buffer:
  assumes "format_out fmt args = Some out" "length buf = 128"
  shows "\<exists>buf'. rt_vsnprintf buf 127 fmt args = Some (length out, buf') \<and> length buf' = 128 \<and>
    take (if length out > 127 then 127 else length out) buf' = (if length out < 127 then out else take 126 out @ [0])"
proof -
  let ?w = "take 126 out @ [0]"
  have w: "(if length out < 127 then out @ [0] else take (127 - 1) out @ [0]) = ?w" by auto
  have v: "rt_vsnprintf buf 127 fmt args = Some (length out, blit buf 0 ?w)"
    using assms unfolding rt_vsnprintf_def w[symmetric] by (simp add: Let_def)
  have b: "blit buf 0 ?w = ?w @ drop (length ?w) buf" by (simp add: blit_def)
  have "length (blit buf 0 ?w) = 128" using assms(2) by simp
  moreover have "take (if length out > 127 then 127 else length out) (blit buf 0 ?w) = (if length out < 127 then out else ?w)"
    unfolding b by (cases "length out < 127") auto
  ultimately show ?thesis using v by blast
qed

lemma console_put_port:
  assumes "console_device w = Some c" "serial_ok (the_port c w)" "is_device (the_port c w)" "d_ref_count (the_port c w) \<noteq> 0"
  shows "console_put hal bs w = Some (w\<lparr>port_of := (port_of w)(c := (the_port c w)\<lparr>s_port := s_port (port_of w c) @ map Port_putc (with_returns bs)\<rparr>)\<rparr>)"
  using console_write_port[OF assms(2-4), of hal bs]
  by (simp add: console_put_def assms(1) on_port_def set_port_def) (simp add: the_port_def)

text \<open>C35: What the kernel prints on a serial console: the formatted text goes out byte by byte, with a carriage return before each line feed,
  and nothing else of the device changes, its open flags included. A text of 127 characters or more is cut after 126, and a zero byte is sent
  behind it.\<close>

theorem console_prints:
  assumes "format_out fmt args = Some out" "length (rt_log_buf w) = RT_CONSOLEBUF_SIZE" "console_device w = Some c"
    "serial_ok (the_port c w)" "is_device (the_port c w)" "d_ref_count (the_port c w) \<noteq> 0"
  defines "sent \<equiv> (if length out < 127 then out else take 126 out @ [0])"
  shows "\<exists>buf. length buf = RT_CONSOLEBUF_SIZE \<and> rt_kprintf hal fmt args w = Some (w\<lparr>rt_log_buf := buf,
      port_of := (port_of w)(c := (the_port c w)\<lparr>s_port := s_port (port_of w c) @ map Port_putc (with_returns sent)\<rparr>)\<rparr>)"
proof -
  obtain buf where b: "rt_vsnprintf (rt_log_buf w) 127 fmt args = Some (length out, buf)" "length buf = 128"
    "take (if length out > 127 then 127 else length out) buf = sent"
    using kprintf_buffer[OF assms(1,2)] unfolding sent_def by blast
  let ?w = "w\<lparr>rt_log_buf := buf\<rparr>"
  have p: "the_port c ?w = the_port c w" by (simp add: the_port_def)
  have "console_put hal sent ?w = Some (?w\<lparr>port_of := (port_of ?w)(c := (the_port c ?w)\<lparr>s_port := s_port (port_of ?w c) @ map Port_putc (with_returns sent)\<rparr>)\<rparr>)"
    by (rule console_put_port) (use assms(3-6) p in simp_all)
  moreover have "rt_kprintf hal fmt args w = console_put hal sent ?w"
  proof -
    have "(128 :: nat) - 1 = 127" by simp
    then show ?thesis unfolding rt_kprintf_def by (simp only: b(1) option.case case_prod_conv Let_def b(3))
  qed
  ultimately show ?thesis using b(2) p by (intro exI[of _ buf]) simp
qed

definition console_world :: io where
  "console_world = \<lparr>console_device = Some (Sobj 0), rt_log_buf = replicate 128 0, port_of = (\<lambda>_. sample_port),
     objs = \<lparr>olinks = \<lparr>nxt = \<lambda>n. n, prv = \<lambda>n. n\<rparr>, obj = \<lambda>_. \<lparr>o_name = [], o_type = 0, o_flag = 0\<rparr>, oheap = used_heap, okern = sample\<rparr>\<rparr>"

lemma console_prints_witness:
  "\<exists>w'. rt_kprintf (\<lambda>_. True) [116, 37, 99, 10] [PInt 61] console_world = Some w' \<and>
     s_port (port_of w' (Sobj 0)) = map Port_putc [116, 61, 13, 10]"
proof -
  have f: "format_out [116, 37, 99, 10] [PInt 61] = Some [116, 61, 10]" by (simp add: directives)
  have p: "the_port (Sobj 0) console_world = sample_port" by (simp add: the_port_def console_world_def sample_port_def)
  have "length (rt_log_buf console_world) = 128" "console_device console_world = Some (Sobj 0)"
    "d_ref_count (the_port (Sobj 0) console_world) \<noteq> 0" by (simp_all add: console_world_def the_port_def sample_port_def)
  moreover have "serial_ok (the_port (Sobj 0) console_world)" "is_device (the_port (Sobj 0) console_world)"
    unfolding p using sample_port_open by (simp_all add: port_open_def)
  ultimately show ?thesis using console_prints[OF f, of console_world "Sobj 0" "\<lambda>_. True"]
    by (auto simp: with_returns_def console_world_def sample_port_def)
qed

end
