(* ===== verification/AtPort.thy ===== *)
theory AtPort
  imports PortClients
begin

text \<open>
  How the AT client waits for bytes: \<^verbatim>\<open>at_client_getchar\<close> reads the device and, when nothing is there, waits on the semaphore
  \<^verbatim>\<open>rx_notice\<close>, which the device's call-back \<^verbatim>\<open>at_client_rx_ind\<close> releases from the interrupt. The state is the port and the kernel.
\<close>

section \<open>The call-back\<close>

text \<open>A row of \<^verbatim>\<open>at_client_table\<close>: the device, if any, and the semaphore.\<close>

definition at_client_rx_ind :: "(nat option \<times> nat) list \<Rightarrow> nat \<Rightarrow> nat \<Rightarrow> kernel \<Rightarrow> kernel" where
  "at_client_rx_ind table dev sz s =
     foldl (\<lambda>s (device, rx_notice). if device = Some dev \<and> sz > 0 then snd (rt_sem_release rx_notice s) else s) s table"

definition rx_interrupt :: "(nat option \<times> nat) list \<Rightarrow> nat \<Rightarrow> u8 list \<Rightarrow> serial \<times> kernel \<Rightarrow> (serial \<times> kernel) option" where
  "rx_interrupt table dev bs = (\<lambda>(d, s).
     case arrive bs d of
       None \<Rightarrow> None
     | Some (d1, None) \<Rightarrow> Some (d1, s)
     | Some (d1, Some len) \<Rightarrow> Some (d1, at_client_rx_ind table dev len s))"

section \<open>Reading a character\<close>

text \<open>One turn of the loop: a character, another turn after the semaphore was taken at once, a wait, or an error. A wait that
  ends well is followed by another turn.\<close>

datatype getchar = Got u8 | Again | Waits | Failed int

definition getchar_wait :: "nat \<Rightarrow> u32 \<Rightarrow> kernel \<Rightarrow> getchar \<times> kernel" where
  "getchar_wait rx_notice timeout s =
     (case rt_sem_take rx_notice (rt_tick_from_millisecond timeout) (snd (rt_sem_control rx_notice 1 0 s)) of
        (Blocked, s1) \<Rightarrow> (Waits, s1)
      | (Ret r, s1) \<Rightarrow> (if r \<noteq> RT_EOK then Failed r else Again, s1))"

definition at_client_getchar :: "(uart_init \<Rightarrow> bool) \<Rightarrow> nat \<Rightarrow> u32 \<Rightarrow> serial \<times> kernel \<Rightarrow> (getchar \<times> serial \<times> kernel) option" where
  "at_client_getchar hal rx_notice timeout = (\<lambda>(d, s).
     case rt_device_read (uart_ops hal) 1 d of
       None \<Rightarrow> None
     | Some (Inr (Suc _, ch # _), d1) \<Rightarrow> Some (Got ch, d1, s)
     | Some (_, d1) \<Rightarrow> (case getchar_wait rx_notice timeout s of (r, s1) \<Rightarrow> Some (r, d1, s1)))"

section \<open>The waiting\<close>

text \<open>The client's thread runs and no ready thread has its priority or a better one.\<close>

definition on_top :: "tid \<Rightarrow> kernel \<Rightarrow> bool" where
  "on_top c s \<longleftrightarrow> running s c \<and> (\<forall>q \<le> prio s c. lists s (ReadyL q) = [])"

lemma int_nest_stay: "int_nest (stay c s) = int_nest s"
  by (simp add: stay_def set_stat_def upd_thr_def rt_schedule_remove_thread_def Let_def list_remove_def)

lemma top_stays:
  assumes "kinv s" "on_top c s"
  shows "running (rt_schedule s) c" "int_nest (rt_schedule s) = int_nest s"
proof -
  have c: "cur s = Some c" "statm s c = RT_THREAD_RUNNING" using assms(2) by (simp_all add: on_top_def running_def)
  have "running (rt_schedule s) c \<and> int_nest (rt_schedule s) = int_nest s"
    using assms(1) c(1)
  proof (cases rule: rt_schedule_cases)
    case idle
    then show ?thesis using c by (simp add: running_def)
  next
    case (keep hp t ts)
    then show ?thesis using c by (simp add: int_nest_stay) (simp add: running_def stay_def kframe)
  next
    case (switch hp t ts)
    then show ?thesis using assms(2) c(2) by (auto simp: on_top_def)
  qed
  then show "running (rt_schedule s) c" "int_nest (rt_schedule s) = int_nest s" by simp_all
qed

lemma take_waits:
  assumes "kinv s" "cur s = Some c" "statm s c = RT_THREAD_RUNNING" "int_nest s = 0" "sem_inv n s" "s_value (sems s n) = 0"
    "lists s (SemL n) = []" "t \<noteq> 0"
  obtains s' where "rt_sem_take n t s = (Blocked, s')" "kinv s'" "cur s' \<noteq> None" "sem_inv n s'" "s_flag (sems s n) = 0 \<Longrightarrow> lists s' (SemL n) = [c]"
    "t_error (thr s' c) = RT_EOK" "statm s' c = RT_THREAD_SUSPEND"
proof -
  let ?e = "upd_thr c (\<lambda>th. th\<lparr>t_error := RT_EOK\<rparr>) s" and ?f = "s_flag (sems s n)"
  have e: "kinv ?e" "cur ?e = Some c" "statm ?e c = RT_THREAD_RUNNING" "lists ?e (SemL n) = []" "t_error (thr ?e c) = RT_EOK"
    using assms(1-3,7) by (simp_all add: kinv_upd_thr kframe) (simp add: upd_thr_def)
  note b = block_on_effect[OF e(1-3), where l = "SemL n" and flag = ?f and time = t]
  have t: "rt_sem_take n t s = (Blocked, block_on (SemL n) c ?f t ?e)" by (rule sem_take_effect(3)[OF assms(1-6,8)])
  show ?thesis
  proof (rule that[OF t])
    show "sem_inv n (block_on (SemL n) c ?f t ?e)" using sem_take_inv(2)[OF assms(1-5), of t] by (simp add: t)
    show "lists (block_on (SemL n) c ?f t ?e) (SemL n) = [c]" if "?f = 0" using that b(4)[of "SemL n"] e(4) by (simp add: wait_insert_def)
    show "t_error (thr (block_on (SemL n) c ?f t ?e) c) = RT_EOK" using b(7)[of c] e(5) by simp
  qed (use b(1-3) in simp_all)
qed

lemma getchar_waits:
  assumes "kinv s" "on_top c s" "int_nest s = 0" "sem_inv n s" "lists s (SemL n) = []" "rt_tick_from_millisecond timeout \<noteq> 0"
  obtains s' where "getchar_wait n timeout s = (Waits, s')" "kinv s'" "cur s' \<noteq> None" "sem_inv n s'" "s_flag (sems s n) = 0 \<Longrightarrow> lists s' (SemL n) = [c]"
    "t_error (thr s' c) = RT_EOK" "statm s' c = RT_THREAD_SUSPEND"
proof -
  let ?z = "upd_sem n (\<lambda>x. x\<lparr>s_value := 0\<rparr>) s"
  define s1 where "s1 = snd (rt_sem_control n 1 0 s)"
  have cur: "cur s = Some c" using assms(2) by (simp add: on_top_def running_def)
  have s: "s1 = rt_schedule ?z" using assms(4,5) by (simp add: s1_def rt_sem_control_def sem_inv_def rt_ipc_list_resume_all_def)
  have top: "on_top c ?z" using assms(2) by (simp add: on_top_def running_def kframe)
  have "kinv ?z" "int_nest ?z = 0" using assms(1,3) by simp_all (simp add: upd_sem_def)
  then have r: "cur s1 = Some c" "statm s1 c = RT_THREAD_RUNNING" "int_nest s1 = 0"
    using top_stays[OF _ top] unfolding s running_def by simp_all
  have v: "kinv s1" "sem_inv n s1" "lists s1 (SemL n) = []" "s_value (sems s1 n) = 0"
    using sem_reset_effect(2-5)[OF assms(1) cur assms(4), of 0] by (simp_all only: ucast_0 s1_def)
  have f: "s_flag (sems s1 n) = s_flag (sems s n)" by (simp add: s kframe)
  obtain s' where s': "rt_sem_take n (rt_tick_from_millisecond timeout) s1 = (Blocked, s')" "kinv s'" "cur s' \<noteq> None" "sem_inv n s'"
    "s_flag (sems s1 n) = 0 \<Longrightarrow> lists s' (SemL n) = [c]" "t_error (thr s' c) = RT_EOK" "statm s' c = RT_THREAD_SUSPEND"
    by (rule take_waits[OF v(1) r v(2,4,3) assms(6)], rule that)
  have "getchar_wait n timeout s = (Waits, s')" by (simp only: getchar_wait_def s'(1) flip: s1_def) simp
  then show ?thesis using that s'(2-7) f by auto
qed

section \<open>A byte that arrives\<close>

lemma interrupt_stores:
  assumes "port_open d" "d_rx_indicate d" "s_line d = []" "bs \<noteq> []"
  obtains d' len where "arrive bs d = Some (d', Some len)" "0 < len" "port_open d'" "port_queue d' = latest (size_of d - 1) (port_queue d @ bs)"
    "port_queue d' \<noteq> []"
proof -
  obtain d' where d': "arrive bs d = Some (d', if d_rx_indicate d \<and> port_queue d' \<noteq> [] then Some (length (port_queue d')) else None)"
    "port_open d'" "port_queue d' = latest (size_of d - 1) (port_queue d @ bs)"
    by (rule arrive_queue[OF assms(1,3), of bs], rule that)
  have "2 \<le> size_of d" using assms(1) by (simp add: port_open_def serial_ok_def size_of_def)
  then have "port_queue d' \<noteq> []" using assms(4)
    by (cases bs) (auto simp: d'(3) latest_def)
  then show ?thesis using that[of d' "length (port_queue d')"] d' assms(2) by simp
qed

lemma rx_ind_one [simp]: "at_client_rx_ind [(Some u, n)] u len s = (if 0 < len then snd (rt_sem_release n s) else s)"
  by (simp add: at_client_rx_ind_def)

lemma read_empty: "port_open d \<Longrightarrow> port_queue d = [] \<Longrightarrow>
    \<exists>d'. rt_device_read (uart_ops hal) 1 d = Some (Inr (0, []), d') \<and> port_open d' \<and> port_queue d' = [] \<and> s_line d' = s_line d \<and>
      d_rx_indicate d' = d_rx_indicate d \<and> size_of d' = size_of d"
  by (erule fetch_queue[of d hal 1]) (simp add: size_of_def)

lemma getchar_got:
  assumes "port_open d" "port_queue d = ch # q"
  shows "\<exists>d'. at_client_getchar hal n timeout (d, s) = Some (Got ch, d', s) \<and> port_open d' \<and> port_queue d' = q"
  using assms(1) by (rule fetch_queue[of d hal 1]) (use assms(2) in \<open>auto simp: at_client_getchar_def\<close>)

lemma top_sample: "kinv (set_priority 0 4 sample)" "on_top 0 (set_priority 0 4 sample)" "int_nest (set_priority 0 4 sample) = 0"
  "sem_inv 1 (set_priority 0 4 sample)" "lists (set_priority 0 4 sample) (SemL 1) = []" "s_flag (sems (set_priority 0 4 sample) 1) = 0"
proof -
  let ?s = "set_priority 0 4 sample"
  have e: "snd (rt_thread_control 0 2 4 sample) = ?s"
    using sample_thread_ok[of 0] by (simp add: rt_thread_control_def sample_stat thread_ok_def)
  show "kinv ?s" using rt_thread_control_priority_kinv[OF sample_kinv, of 4 0] by (simp add: e)
  show "on_top 0 ?s" "int_nest ?s = 0" "sem_inv 1 ?s" "lists ?s (SemL 1) = []" "s_flag (sems ?s 1) = 0"
    using sample_sem_inv[of 1]
    by (simp_all add: on_top_def running_def set_priority_sel kframe sample_sel sample_stat sample_list sem_inv_def is_sem_def)
      (simp add: set_priority_def upd_thr_def sample_sel)
qed

lemma wait_500: "rt_tick_from_millisecond 500 \<noteq> 0"
  by (simp add: tick_from_ms)

text \<open>C24: With nothing in the FIFO the client's thread waits on \<^verbatim>\<open>rx_notice\<close>; when bytes arrive then, the interrupt stores them and
  makes the thread ready, the wait ends with \<^verbatim>\<open>RT_EOK\<close>, and the next turn of the loop returns the first byte.\<close>

theorem at_getchar_wakes:
  assumes "port_open d" "d_rx_indicate d" "s_line d = []" "port_queue d = []" "kinv s" "on_top c s" "int_nest s = 0" "sem_inv n s"
    "lists s (SemL n) = []" "rt_tick_from_millisecond timeout \<noteq> 0" "s_flag (sems s n) = 0" "bs \<noteq> []" "length bs < size_of d"
  shows "\<exists>d1 s1 d2 s2. at_client_getchar hal n timeout (d, s) = Some (Waits, d1, s1) \<and> statm s1 c = RT_THREAD_SUSPEND \<and>
    rx_interrupt [(Some u, n)] u bs (d1, s1) = Some (d2, s2) \<and> awake s2 c \<and> rt_sem_take_return c s2 = RT_EOK \<and>
    (\<forall>s3. \<exists>d3. at_client_getchar hal n timeout (d2, s3) = Some (Got (hd bs), d3, s3) \<and> port_queue d3 = tl bs)"
proof -
  obtain d1 where d1: "rt_device_read (uart_ops hal) 1 d = Some (Inr (0, []), d1)" "port_open d1" "port_queue d1 = []" "s_line d1 = []"
    "d_rx_indicate d1" "size_of d1 = size_of d" using read_empty[OF assms(1,4), of hal] assms(2,3) by auto
  obtain s1 where s1: "getchar_wait n timeout s = (Waits, s1)" "kinv s1" "cur s1 \<noteq> None" "sem_inv n s1" "s_flag (sems s n) = 0 \<Longrightarrow> lists s1 (SemL n) = [c]"
    "t_error (thr s1 c) = RT_EOK" "statm s1 c = RT_THREAD_SUSPEND" by (rule getchar_waits[OF assms(5-10)], rule that)
  obtain d2 len where d2: "arrive bs d1 = Some (d2, Some len)" "0 < len" "port_open d2" "port_queue d2 = latest (size_of d1 - 1) (port_queue d1 @ bs)"
    by (rule interrupt_stores[OF d1(2,5,4) assms(12)], rule that)
  obtain e where e: "cur s1 = Some e" using s1(3) by blast
  note w = sem_release_wakes[OF s1(2) e s1(4) s1(5)[OF assms(11)]]
  have q: "port_queue d2 = hd bs # tl bs" using d2(4) assms(12,13) by (simp add: d1(3,6) latest_short)
  have "at_client_getchar hal n timeout (d, s) = Some (Waits, d1, s1)" by (simp add: at_client_getchar_def d1(1)[simplified] s1(1))
  moreover have "rx_interrupt [(Some u, n)] u bs (d1, s1) = Some (d2, snd (rt_sem_release n s1))" using d2(1,2) by (simp add: rx_interrupt_def)
  moreover have "rt_sem_take_return c (snd (rt_sem_release n s1)) = RT_EOK" using w(7)[of c] s1(6) by (simp add: rt_sem_take_return_def)
  ultimately show ?thesis using w(4) s1(7) getchar_got[OF d2(3) q] by blast
qed

lemma at_getchar_wakes_witness:
  "\<exists>d1 s1 d2 s2. at_client_getchar (\<lambda>_. True) 1 500 (sample_port, set_priority 0 4 sample) = Some (Waits, d1, s1) \<and>
     rx_interrupt [(Some 2, 1)] 2 [79, 75] (d1, s1) = Some (d2, s2) \<and> awake s2 0"
  using at_getchar_wakes[OF sample_port_open sample_port_sel(4,1,2) top_sample(1-5) wait_500 top_sample(6), of "[79, 75]" "\<lambda>_. True" 2]
  by (auto simp: sample_port_sel)

text \<open>C25: A wake-up can be lost: when the byte arrives after the read found nothing and before \<^verbatim>\<open>rx_notice\<close> is reset, the interrupt
  counts the semaphore up, the reset clears it, and the thread goes to sleep although the byte is in the FIFO.\<close>

theorem at_wakeup_lost:
  assumes "port_open d" "d_rx_indicate d" "s_line d = []" "port_queue d = []" "kinv s" "on_top c s" "int_nest s = 0" "sem_inv n s"
    "lists s (SemL n) = []" "rt_tick_from_millisecond timeout \<noteq> 0"
  shows "\<exists>d1 d2 s1 s2. rt_device_read (uart_ops hal) 1 d = Some (Inr (0, []), d1) \<and>
    rx_interrupt [(Some u, n)] u [ch] (d1, s) = Some (d2, s1) \<and> s_value (sems s1 n) = s_value (sems s n) + 1 \<and>
    getchar_wait n timeout s1 = (Waits, s2) \<and> statm s2 c = RT_THREAD_SUSPEND \<and> port_queue d2 = [ch]"
proof -
  obtain d1 where d1: "rt_device_read (uart_ops hal) 1 d = Some (Inr (0, []), d1)" "port_open d1" "port_queue d1 = []" "s_line d1 = []"
    "d_rx_indicate d1" "size_of d1 = size_of d" using read_empty[OF assms(1,4), of hal] assms(2,3) by auto
  obtain d2 len where d2: "arrive [ch] d1 = Some (d2, Some len)" "0 < len" "port_open d2" "port_queue d2 = latest (size_of d1 - 1) (port_queue d1 @ [ch])"
    by (rule interrupt_stores[OF d1(2,5,4), of "[ch]"]) (simp, rule that)
  have "2 \<le> size_of d1" using d1(2) by (simp add: port_open_def serial_ok_def size_of_def)
  then have q: "port_queue d2 = [ch]" using d2(4) d1(3) by (simp add: latest_short)
  define s1 where "s1 = upd_sem n (\<lambda>x. x\<lparr>s_value := s_value x + 1\<rparr>) s"
  have s1: "rx_interrupt [(Some u, n)] u [ch] (d1, s) = Some (d2, s1)"
    using d2(1,2) sem_release_counts[OF assms(8,9)] by (simp add: rx_interrupt_def s1_def)
  have "kinv s1" "on_top c s1" "int_nest s1 = 0" "sem_inv n s1" "lists s1 (SemL n) = []"
    using assms(5-9) by (simp_all add: s1_def on_top_def running_def kframe sem_inv_def is_sem_def) (simp add: upd_sem_def)
  then obtain s2 where "getchar_wait n timeout s1 = (Waits, s2)" "statm s2 c = RT_THREAD_SUSPEND"
    using getchar_waits[OF _ _ _ _ _ assms(10), of s1 c n] by blast
  moreover have "s_value (sems s1 n) = s_value (sems s n) + 1" by (simp add: s1_def upd_sem_def)
  ultimately show ?thesis using d1(1) s1 q by blast
qed

lemma at_wakeup_lost_witness:
  "\<exists>d1 d2 s1 s2. rt_device_read (uart_ops (\<lambda>_. True)) 1 sample_port = Some (Inr (0, []), d1) \<and>
     rx_interrupt [(Some 2, 1)] 2 [79] (d1, set_priority 0 4 sample) = Some (d2, s1) \<and>
     getchar_wait 1 500 s1 = (Waits, s2) \<and> port_queue d2 = [79]"
  using at_wakeup_lost[OF sample_port_open sample_port_sel(4,1,2) top_sample(1-5) wait_500, of "\<lambda>_. True" 2 79] by blast

end
