(* ===== verification/Msh.thy ===== *)
theory Msh
  imports Prelude
begin

text \<open>
  The command interpreter \<^verbatim>\<open>components/finsh/msh.c\<close>: it splits a line in place, looks up the command in the table that the linker
  builds, and completes a prefix. A line is a buffer of bytes; an argument is a place in it. \<open>None\<close> is an access
  outside the buffer. What a command does is not modelled; that it is called, and with which arguments, is the result.
\<close>

section \<open>Splitting a line\<close>

abbreviation (input) FINSH_ARG_MAX :: nat where "FINSH_ARG_MAX \<equiv> 10"

definition is_blank :: "u8 \<Rightarrow> bool" where "is_blank c \<longleftrightarrow> c = 32 \<or> c = 9"

text \<open>\<open>n\<close> is the end of the line, \<open>p\<close> the position.\<close>

function skip_blanks :: "nat \<Rightarrow> u8 list \<Rightarrow> nat \<Rightarrow> (u8 list \<times> nat) option" where
  "skip_blanks n b p =
     (if \<not> p < length b then None
      else if is_blank (b ! p) \<and> p < n then skip_blanks n (b[p := 0]) (p + 1)
      else Some (b, p))"
  by pat_completeness auto
termination by (relation "measure (\<lambda>(n, b, p). n - p)") auto

function skip_word :: "nat \<Rightarrow> u8 list \<Rightarrow> nat \<Rightarrow> nat option" where
  "skip_word n b p =
     (if \<not> p < length b then None
      else if \<not> is_blank (b ! p) \<and> p < n then skip_word n b (p + 1)
      else Some p)"
  by pat_completeness auto
termination by (relation "measure (\<lambda>(n, b, p). n - p)") auto

text \<open>To the closing quotation mark; a backslash before one hides it.\<close>

function skip_string :: "nat \<Rightarrow> u8 list \<Rightarrow> nat \<Rightarrow> nat option" where
  "skip_string n b p =
     (if \<not> p < length b then None
      else if b ! p \<noteq> 34 \<and> p < n then
        (if b ! p = 92 then
           (if \<not> p + 1 < length b then None
            else if b ! (p + 1) = 34 then skip_string n b (p + 2)
            else skip_string n b (p + 1))
         else skip_string n b (p + 1))
      else Some p)"
  by pat_completeness auto
termination by (relation "measure (\<lambda>(n, b, p). n - p)") auto

declare skip_blanks.simps [simp del] skip_word.simps [simp del] skip_string.simps [simp del]

lemma skip_blanks_ends:
  "skip_blanks n b p = Some (b', p') \<Longrightarrow> p \<le> p' \<and> length b' = length b \<and> p' < length b' \<and> (p' < n \<longrightarrow> \<not> is_blank (b' ! p'))"
proof (induction n b p rule: skip_blanks.induct)
  case (1 n b p)
  then show ?case by (auto simp: skip_blanks.simps[of n b p] split: if_splits)
qed

lemma skip_word_ends: "skip_word n b p = Some p' \<Longrightarrow> p \<le> p' \<and> p' < length b \<and> (p' < n \<longrightarrow> is_blank (b ! p'))"
proof (induction n b p rule: skip_word.induct)
  case (1 n b p)
  then show ?case by (auto simp: skip_word.simps[of n b p] split: if_splits)
qed

lemma skip_string_ends: "skip_string n b p = Some p' \<Longrightarrow> p \<le> p' \<and> p' < length b"
proof (induction n b p rule: skip_string.induct)
  case (1 n b p)
  then show ?case by (auto simp: skip_string.simps[of n b p] split: if_splits)
qed

text \<open>The loop of \<^verbatim>\<open>msh_split\<close>: the places of the arguments, and the buffer with their ends set to zero.\<close>

function split_loop :: "nat \<Rightarrow> u8 list \<Rightarrow> nat \<Rightarrow> nat list \<Rightarrow> (nat list \<times> u8 list) option" where
  "split_loop n b p argv =
     (if p < n then
        (case skip_blanks n b p of
           None \<Rightarrow> None
         | Some (b1, p1) \<Rightarrow>
             if FINSH_ARG_MAX \<le> length argv then Some (argv, b1)
             else if n \<le> p1 then Some (argv, b1)
             else if b1 ! p1 = 34 then
               (case skip_string n b1 (p1 + 1) of
                  None \<Rightarrow> None
                | Some p2 \<Rightarrow>
                    if n \<le> p2 then Some (argv @ [p1 + 1], b1)
                    else split_loop n (b1[p2 := 0]) (p2 + 1) (argv @ [p1 + 1]))
             else
               (case skip_word n b1 p1 of
                  None \<Rightarrow> None
                | Some p2 \<Rightarrow>
                    if n \<le> p2 then Some (argv @ [p1], b1) else split_loop n b1 p2 (argv @ [p1])))
      else Some (argv, b))"
  by pat_completeness auto
termination
proof (relation "measure (\<lambda>(n, b, p, argv). n - p)", goal_cases)
  case (2 n b p argv x b1 p1 p2)
  then show ?case using skip_blanks_ends[of n b p b1 p1] skip_string_ends[of n b1 "p1 + 1" p2] by auto
next
  case (3 n b p argv x b1 p1 p2)
  have "p2 \<noteq> p1" using 3 skip_blanks_ends[of n b p b1 p1] skip_word_ends[of n b1 p1 p2] by auto
  then show ?case using 3 skip_blanks_ends[of n b p b1 p1] skip_word_ends[of n b1 p1 p2] by auto
qed simp

declare split_loop.simps [simp del]

text \<open>The line begins at \<open>p\<close>.\<close>

definition msh_split :: "u8 list \<Rightarrow> nat \<Rightarrow> nat \<Rightarrow> (nat list \<times> u8 list) option" where
  "msh_split b p len = split_loop (p + len) b p []"

text \<open>The zero-terminated string at a place, if it ends inside the buffer.\<close>

definition str_at :: "u8 list \<Rightarrow> nat \<Rightarrow> u8 list option" where
  "str_at b p = (if p < length b \<and> 0 \<in> set (drop p b) then Some (takeWhile (\<lambda>c. c \<noteq> 0) (drop p b)) else None)"

section \<open>Commands\<close>

text \<open>The names of the table, without their zero. Commands have the prefix \<^verbatim>\<open>__cmd_\<close>.\<close>

definition cmd_prefix6 :: "u8 list" where "cmd_prefix6 = [95, 95, 99, 109, 100, 95]"

definition is_cmd :: "u8 list \<Rightarrow> bool" where "is_cmd name \<longleftrightarrow> take 6 name = cmd_prefix6"

definition cmd_name :: "u8 list \<Rightarrow> u8 list" where "cmd_name name = drop 6 name"

fun get_cmd_loop :: "nat \<Rightarrow> u8 list list \<Rightarrow> u8 list \<Rightarrow> nat option" where
  "get_cmd_loop i [] word = None"
| "get_cmd_loop i (name # table) word = (if is_cmd name \<and> cmd_name name = word then Some i else get_cmd_loop (i + 1) table word)"

text \<open>\<open>word\<close> is the first \<open>size\<close> bytes of the line; the comparison and the test for the end of the name together ask for equality.\<close>

definition msh_get_cmd :: "u8 list list \<Rightarrow> u8 list \<Rightarrow> nat option" where
  "msh_get_cmd table word = get_cmd_loop 0 table word"

datatype msh_result = Empty_line | Called nat "u8 list list" | Not_found

text \<open>The arguments of a call are strings; \<open>None\<close> also when one has no end in the buffer.\<close>

fun arg_strings :: "u8 list \<Rightarrow> nat list \<Rightarrow> u8 list list option" where
  "arg_strings b [] = Some []"
| "arg_strings b (p # ps) =
     (case str_at b p of None \<Rightarrow> None | Some w \<Rightarrow> map_option (Cons w) (arg_strings b ps))"

definition msh_exec_cmd :: "u8 list list \<Rightarrow> u8 list \<Rightarrow> nat \<Rightarrow> nat \<Rightarrow> (msh_result \<times> u8 list) option" where
  "msh_exec_cmd table b p len =
     (case skip_word (p + len) b p of
        None \<Rightarrow> None
      | Some q \<Rightarrow>
          if q = p then Some (Not_found, b)
          else
            (case msh_get_cmd table (take (q - p) (drop p b)) of
               None \<Rightarrow> Some (Not_found, b)
             | Some i \<Rightarrow>
                 (case msh_split b p len of
                    None \<Rightarrow> None
                  | Some (argv, b1) \<Rightarrow>
                      if argv = [] then Some (Not_found, b1)
                      else map_option (\<lambda>ws. (Called i ws, b1)) (arg_strings b1 argv))))"

text \<open>\<^verbatim>\<open>msh_exec\<close>: blanks in front are stripped, whatever the length, which is an unsigned word.\<close>

function strip_front :: "u8 list \<Rightarrow> nat \<Rightarrow> u32 \<Rightarrow> (nat \<times> u32) option" where
  "strip_front b p len =
     (if \<not> p < length b then None
      else if is_blank (b ! p) then strip_front b (p + 1) (len - 1)
      else Some (p, len))"
  by pat_completeness auto
termination by (relation "measure (\<lambda>(b, p, len). length b - p)") auto

declare strip_front.simps [simp del]

text \<open>An unknown command is cut at its first space for the message.\<close>

definition cut_word :: "u8 list \<Rightarrow> nat \<Rightarrow> u8 list option" where
  "cut_word b p =
     (let k = length (takeWhile (\<lambda>c. c \<noteq> 32 \<and> c \<noteq> 0) (drop p b))
      in if p + k < length b then Some (b[p + k := 0]) else None)"

definition msh_exec :: "u8 list list \<Rightarrow> u8 list \<Rightarrow> u32 \<Rightarrow> (msh_result \<times> u8 list) option" where
  "msh_exec table b sz =
     (case strip_front b 0 sz of
        None \<Rightarrow> None
      | Some (p, len) \<Rightarrow>
          if len = 0 then Some (Empty_line, b)
          else
            (case msh_exec_cmd table b p (unat len) of
               None \<Rightarrow> None
             | Some (Not_found, b1) \<Rightarrow> map_option (Pair Not_found) (cut_word b1 p)
             | Some r \<Rightarrow> Some r))"

section \<open>Completion\<close>

fun str_common :: "u8 list \<Rightarrow> u8 list \<Rightarrow> nat" where
  "str_common (a # as) (b # bs) = (if a = b then Suc (str_common as bs) else 0)"
| "str_common _ _ = 0"

text \<open>The loop over the table: the first candidate and the length common to all so far.\<close>

fun complete_loop :: "u8 list \<Rightarrow> u8 list list \<Rightarrow> u8 list option \<Rightarrow> nat \<Rightarrow> u8 list option \<times> nat" where
  "complete_loop prefix [] name_ptr min_length = (name_ptr, min_length)"
| "complete_loop prefix (name # table) name_ptr min_length =
     (if is_cmd name \<and> take (length prefix) (cmd_name name) = prefix then
        (let (np, ml) = (if min_length = 0 then (cmd_name name, length (cmd_name name))
                         else (the name_ptr, min_length))
         in complete_loop prefix table (Some np) (min ml (str_common np (cmd_name name))))
      else complete_loop prefix table name_ptr min_length)"

text \<open>What is copied over the prefix.\<close>

definition msh_auto_complete :: "u8 list list \<Rightarrow> u8 list \<Rightarrow> u8 list" where
  "msh_auto_complete table prefix =
     (if prefix = [] then []
      else case complete_loop prefix table None 0 of
             (None, _) \<Rightarrow> []
           | (Some np, ml) \<Rightarrow> take ml np)"

end
