(* ===== verification/MshSpec.thy ===== *)
theory MshSpec
  imports Msh
begin

text \<open>
  What the interpreter makes of a line that was written down from words: the splitter finds exactly them, and the completion
  is the longest common prefix.
\<close>

section \<open>The scanners\<close>

lemma skip_blanks_run:
  "list_all is_blank g \<Longrightarrow> rest \<noteq> [] \<Longrightarrow> length pre + length g \<le> n \<Longrightarrow> n = length pre + length g \<or> \<not> is_blank (hd rest) \<Longrightarrow>
    skip_blanks n (pre @ g @ rest) (length pre) = Some (pre @ replicate (length g) 0 @ rest, length pre + length g)"
proof (induction g arbitrary: pre)
  case Nil
  then show ?case by (cases rest) (auto simp: skip_blanks.simps[of n _ "length pre"])
next
  case (Cons c g)
  have "skip_blanks n (pre @ (c # g) @ rest) (length pre) = skip_blanks n ((pre @ [0]) @ g @ rest) (length (pre @ [0]))"
    using Cons.prems by (simp add: skip_blanks.simps[of n _ "length pre"])
  also have "\<dots> = Some ((pre @ [0]) @ replicate (length g) 0 @ rest, length (pre @ [0]) + length g)"
    using Cons.prems by (intro Cons.IH) auto
  finally show ?case by simp
qed

lemma skip_word_run:
  "list_all (\<lambda>c. \<not> is_blank c) w \<Longrightarrow> rest \<noteq> [] \<Longrightarrow> length pre + length w \<le> n \<Longrightarrow> n = length pre + length w \<or> is_blank (hd rest) \<Longrightarrow>
    skip_word n (pre @ w @ rest) (length pre) = Some (length pre + length w)"
proof (induction w arbitrary: pre)
  case Nil
  then show ?case by (cases rest) (auto simp: skip_word.simps[of n _ "length pre"])
next
  case (Cons c w)
  have "skip_word n (pre @ (c # w) @ rest) (length pre) = skip_word n ((pre @ [c]) @ w @ rest) (length (pre @ [c]))"
    using Cons.prems by (simp add: skip_word.simps[of n _ "length pre"])
  also have "\<dots> = Some (length (pre @ [c]) + length w)" using Cons.prems by (intro Cons.IH) auto
  finally show ?case by simp
qed

lemma skip_string_run:
  "34 \<notin> set w \<Longrightarrow> w = [] \<or> last w \<noteq> 92 \<Longrightarrow> length pre + length w < n \<Longrightarrow>
    skip_string n (pre @ w @ 34 # rest) (length pre) = Some (length pre + length w)"
proof (induction w arbitrary: pre)
  case Nil
  then show ?case by (simp add: skip_string.simps[of n _ "length pre"])
next
  case (Cons c w)
  have "(pre @ (c # w) @ 34 # rest) ! Suc (length pre) \<noteq> 34" if "c = 92"
    using Cons.prems(1,2) that by (cases w) (auto simp: nth_append)
  then have "skip_string n (pre @ (c # w) @ 34 # rest) (length pre) = skip_string n ((pre @ [c]) @ w @ 34 # rest) (length (pre @ [c]))"
    using Cons.prems by (simp add: skip_string.simps[of n _ "length pre"])
  also have "\<dots> = Some (length (pre @ [c]) + length w)" using Cons.prems by (intro Cons.IH) (auto split: if_splits)
  finally show ?case by simp
qed

section \<open>Words and how they are written\<close>

datatype token = Plain "u8 list" | Quoted "u8 list"

fun content :: "token \<Rightarrow> u8 list" where
  "content (Plain w) = w"
| "content (Quoted w) = w"

fun written :: "token \<Rightarrow> u8 list" where
  "written (Plain w) = w"
| "written (Quoted w) = 34 # w @ [34]"

fun token_ok :: "token \<Rightarrow> bool" where
  "token_ok (Plain w) \<longleftrightarrow> w \<noteq> [] \<and> list_all (\<lambda>c. \<not> is_blank c) w \<and> 0 \<notin> set w \<and> hd w \<noteq> 34"
| "token_ok (Quoted w) \<longleftrightarrow> 34 \<notin> set w \<and> 0 \<notin> set w \<and> (w = [] \<or> last w \<noteq> 92)"

text \<open>A line: each token behind a gap of blanks, then some more blanks. A plain word ends at a blank or at the end.\<close>

definition line_of :: "(u8 list \<times> token) list \<Rightarrow> u8 list" where "line_of gts = concat (map (\<lambda>(g, t). g @ written t) gts)"

fun plain_before :: "token \<Rightarrow> (u8 list \<times> token) list \<Rightarrow> bool" where
  "plain_before (Plain w) ((g, t) # gts) \<longleftrightarrow> g \<noteq> []"
| "plain_before _ _ \<longleftrightarrow> True"

fun tokens_ok :: "(u8 list \<times> token) list \<Rightarrow> bool" where
  "tokens_ok [] \<longleftrightarrow> True"
| "tokens_ok ((g, t) # gts) \<longleftrightarrow> list_all is_blank g \<and> token_ok t \<and> plain_before t gts \<and> tokens_ok gts"

text \<open>What splitting makes of it: places, and the buffer with zeros in the gaps and for the closing marks.\<close>

fun place :: "nat \<Rightarrow> token \<Rightarrow> nat" where
  "place p (Plain w) = p"
| "place p (Quoted w) = p + 1"

fun places :: "nat \<Rightarrow> (u8 list \<times> token) list \<Rightarrow> nat list" where
  "places p [] = []"
| "places p ((g, t) # gts) = place (p + length g) t # places (p + length g + length (written t)) gts"

fun cut :: "token \<Rightarrow> u8 list" where
  "cut (Plain w) = w"
| "cut (Quoted w) = 34 # w @ [0]"

definition cut_line :: "(u8 list \<times> token) list \<Rightarrow> u8 list" where
  "cut_line gts = concat (map (\<lambda>(g, t). replicate (length g) 0 @ cut t) gts)"

lemma line_simps [simp]: "line_of [] = []" "line_of ((g, t) # gts) = g @ written t @ line_of gts"
    "cut_line [] = []" "cut_line ((g, t) # gts) = replicate (length g) 0 @ cut t @ cut_line gts"
  by (simp_all add: line_of_def cut_line_def)

lemma cut_length [simp]: "length (cut t) = length (written t)"
  by (cases t) simp_all

lemma cut_line_length [simp]: "length (cut_line gts) = length (line_of gts)"
  by (induction gts) auto

lemma written_head: "token_ok t \<Longrightarrow> written t \<noteq> [] \<and> \<not> is_blank (hd (written t))"
  by (cases t) (auto simp: is_blank_def neq_Nil_conv)

lemma split_loop_tokens:
  assumes "tokens_ok gts" "list_all is_blank trail" "length argv + length gts \<le> FINSH_ARG_MAX" "zs \<noteq> []"
  shows "split_loop (length pre + length (line_of gts) + length trail) (pre @ line_of gts @ trail @ zs) (length pre) argv =
    Some (argv @ places (length pre) gts, pre @ cut_line gts @ replicate (length trail) 0 @ zs)"
  using assms
proof (induction gts arbitrary: pre argv)
  case Nil
  have "skip_blanks (length pre + length trail) (pre @ trail @ zs) (length pre) =
      Some (pre @ replicate (length trail) 0 @ zs, length pre + length trail)"
    by (rule skip_blanks_run) (use Nil in auto)
  then show ?case by (auto simp: split_loop.simps[of _ _ "length pre"])
next
  case (Cons gt gts)
  obtain g t where gt: "gt = (g, t)" by (cases gt)
  let ?n = "length pre + length (line_of (gt # gts)) + length trail"
  let ?rest = "line_of gts @ trail @ zs" and ?pre = "pre @ replicate (length g) 0"
  have ok: "list_all is_blank g" "token_ok t" "plain_before t gts" "tokens_ok gts" using Cons.prems(1) by (simp_all add: gt)
  note w = written_head[OF ok(2)]
  have s: "skip_blanks ?n (pre @ line_of (gt # gts) @ trail @ zs) (length pre) = Some (?pre @ written t @ ?rest, length ?pre)"
  proof -
    have "skip_blanks ?n (pre @ g @ (written t @ ?rest)) (length pre) = Some (pre @ replicate (length g) 0 @ (written t @ ?rest), length pre + length g)"
      by (rule skip_blanks_run) (use ok(1) w in \<open>auto simp: gt\<close>)
    then show ?thesis by (simp add: gt)
  qed
  have n: "length pre < ?n" "length ?pre < ?n" using w by (auto simp: gt)
  have hdw: "(?pre @ written t @ ?rest) ! length ?pre = hd (written t)" using w by (cases "written t") (simp_all add: nth_append)
  show ?case
  proof (cases t)
    case (Plain v)
    have r: "?rest \<noteq> []" using Cons.prems(4) by simp
    have e: "?n = length ?pre + length v \<or> is_blank (hd ?rest)"
    proof (cases gts)
      case Nil
      then show ?thesis using Cons.prems(2) by (cases trail) (auto simp: gt Plain)
    next
      case (Cons b gts')
      then show ?thesis using ok(3,4) Plain by (cases b; cases "fst b") auto
    qed
    have k: "skip_word ?n (?pre @ v @ ?rest) (length ?pre) = Some (length ?pre + length v)"
      by (rule skip_word_run[OF _ r _ e]) (use ok(2) in \<open>simp_all add: gt Plain\<close>)
    have q: "hd v \<noteq> 34" using ok(2) by (simp add: Plain)
    have step: "split_loop ?n (pre @ line_of (gt # gts) @ trail @ zs) (length pre) argv =
      (if ?n \<le> length ?pre + length v then Some (argv @ [length ?pre], ?pre @ v @ ?rest)
       else split_loop ?n (?pre @ v @ ?rest) (length ?pre + length v) (argv @ [length ?pre]))"
      using n s hdw k q Cons.prems(3) by (subst split_loop.simps) (simp add: Plain)
    show ?thesis
    proof (cases "?n \<le> length ?pre + length v")
      case True
      have "gts = []"
      proof (rule ccontr)
        assume "gts \<noteq> []"
        then obtain g2 t2 gts2 where b: "gts = (g2, t2) # gts2" by (cases gts) auto
        then show False using True ok(3) by (auto simp: gt Plain)
      qed
      then show ?thesis using step True by (simp add: gt Plain)
    next
      case False
      have "split_loop (length (?pre @ v) + length (line_of gts) + length trail) ((?pre @ v) @ line_of gts @ trail @ zs) (length (?pre @ v)) (argv @ [length ?pre]) =
          Some ((argv @ [length ?pre]) @ places (length (?pre @ v)) gts, (?pre @ v) @ cut_line gts @ replicate (length trail) 0 @ zs)"
        using Cons.prems(2-4) ok(4) by (intro Cons.IH) simp_all
      then show ?thesis using step[unfolded if_not_P[OF False]] by (simp add: gt Plain add.assoc)
    qed
  next
    case (Quoted v)
    have k: "skip_string ?n ((?pre @ [34]) @ v @ 34 # ?rest) (length (?pre @ [34])) = Some (length (?pre @ [34]) + length v)"
      by (rule skip_string_run) (use ok(2) in \<open>simp_all add: gt Quoted\<close>)
    have u: "(?pre @ 34 # v @ 34 # ?rest)[length pre + length g + 1 + length v := 0] = ?pre @ 34 # v @ 0 # ?rest"
      by (simp add: list_update_append)
    have step: "split_loop ?n (pre @ line_of (gt # gts) @ trail @ zs) (length pre) argv =
      split_loop ?n (?pre @ 34 # v @ 0 # ?rest) (length ?pre + length v + 2) (argv @ [length ?pre + 1])"
      using n s hdw k u Cons.prems(3) by (subst split_loop.simps) (simp add: Quoted gt)
    have "split_loop (length (?pre @ 34 # v @ [0]) + length (line_of gts) + length trail) ((?pre @ 34 # v @ [0]) @ line_of gts @ trail @ zs)
        (length (?pre @ 34 # v @ [0])) (argv @ [length ?pre + 1]) =
      Some ((argv @ [length ?pre + 1]) @ places (length (?pre @ 34 # v @ [0])) gts, (?pre @ 34 # v @ [0]) @ cut_line gts @ replicate (length trail) 0 @ zs)"
      using Cons.prems(2-4) ok(4) by (intro Cons.IH) simp_all
    then show ?thesis using step by (simp add: gt Quoted add.assoc)
  qed
qed

section \<open>The call\<close>

lemma str_at_word: "0 \<notin> set w \<Longrightarrow> str_at (pre @ w @ 0 # rest) (length pre) = Some w"
proof -
  assume "0 \<notin> set w"
  then have "takeWhile (\<lambda>c. c \<noteq> 0) (w @ 0 # rest) = w" by (induction w) auto
  then show ?thesis by (simp add: str_at_def)
qed

lemma zero_behind:
  assumes "plain_before (Plain w) gts"
  obtains r where "cut_line gts @ replicate k 0 @ 0 # zs = 0 # r"
proof (cases gts)
  case Nil
  then show ?thesis using that by (cases k) auto
next
  case (Cons a gts')
  then obtain g t where a: "a = (g, t)" "g \<noteq> []" using assms by (cases a) auto
  then show ?thesis using that Cons by (cases g) auto
qed

lemma arg_strings_cut:
  "tokens_ok gts \<Longrightarrow>
    arg_strings (pre @ cut_line gts @ replicate k 0 @ 0 # zs) (places (length pre) gts) = Some (map (content \<circ> snd) gts)"
proof (induction gts arbitrary: pre)
  case (Cons gt gts)
  obtain g t where gt: "gt = (g, t)" by (cases gt)
  let ?b = "pre @ cut_line (gt # gts) @ replicate k 0 @ 0 # zs" and ?pre = "pre @ replicate (length g) 0"
  have ok: "token_ok t" "plain_before t gts" "tokens_ok gts" using Cons.prems by (simp_all add: gt)
  have "str_at ?b (place (length ?pre) t) = Some (content t)"
  proof (cases t)
    case (Plain w)
    obtain r where r: "cut_line gts @ replicate k 0 @ 0 # zs = 0 # r" using zero_behind[of w gts] ok(2) Plain by blast
    have "?b = ?pre @ w @ 0 # r" by (simp add: gt Plain r)
    then show ?thesis using str_at_word[of w ?pre r] ok(1) by (simp add: Plain)
  next
    case (Quoted w)
    have "?b = (?pre @ [34]) @ w @ 0 # cut_line gts @ replicate k 0 @ 0 # zs" by (simp add: gt Quoted)
    then show ?thesis using str_at_word[of w "?pre @ [34]" "cut_line gts @ replicate k 0 @ 0 # zs"] ok(1) by (simp add: Quoted)
  qed
  moreover have "arg_strings ?b (places (length (?pre @ cut t)) gts) = Some (map (content \<circ> snd) gts)"
    using Cons.IH[OF ok(3), of "?pre @ cut t"] by (simp add: gt)
  ultimately show ?case by (simp add: gt add.assoc)
qed simp

lemma strip_front_run:
  "list_all is_blank g \<Longrightarrow> rest \<noteq> [] \<Longrightarrow> \<not> is_blank (hd rest) \<Longrightarrow>
    strip_front (pre @ g @ rest) (length pre) len = Some (length pre + length g, len - of_nat (length g))"
proof (induction g arbitrary: pre len)
  case Nil
  then show ?case by (cases rest) (auto simp: strip_front.simps[of _ "length pre"])
next
  case (Cons c g)
  have "strip_front (pre @ (c # g) @ rest) (length pre) len = strip_front ((pre @ [c]) @ g @ rest) (length (pre @ [c])) (len - 1)"
    using Cons.prems by (simp add: strip_front.simps[of _ "length pre"])
  also have "\<dots> = Some (length (pre @ [c]) + length g, len - 1 - of_nat (length g))" using Cons.prems by (intro Cons.IH) auto
  finally show ?case by (simp add: algebra_simps)
qed

lemma takeWhile_short: "\<exists>x \<in> set xs. \<not> P x \<Longrightarrow> length (takeWhile P xs) < length xs"
  by (induction xs) auto

lemma cut_word_ok: "0 \<in> set (drop p b) \<Longrightarrow> cut_word b p \<noteq> None"
proof -
  assume "0 \<in> set (drop p b)"
  then have "length (takeWhile (\<lambda>c. c \<noteq> 32 \<and> c \<noteq> 0) (drop p b)) < length (drop p b)"
    by (intro takeWhile_short) auto
  then show ?thesis by (simp add: cut_word_def Let_def)
qed

lemma unat_u32: "k < 2 ^ 32 \<Longrightarrow> unat (of_nat k :: u32) = k"
  by (simp add: unat_of_nat)

lemma msh_exec_calls:
  fixes gts front trail zs cmd
  defines "text \<equiv> front @ line_of (([], Plain cmd) # gts) @ trail"
  assumes ok: "tokens_ok (([], Plain cmd) # gts)" "list_all is_blank front" "list_all is_blank trail" "length gts < FINSH_ARG_MAX"
    and size: "length text < 2 ^ 32"
  shows "msh_get_cmd table cmd = Some i \<Longrightarrow>
      \<exists>b. msh_exec table (text @ 0 # zs) (of_nat (length text)) = Some (Called i (cmd # map (content \<circ> snd) gts), b) \<and> length b = length (text @ 0 # zs)"
    and "msh_get_cmd table cmd = None \<Longrightarrow> \<exists>b. msh_exec table (text @ 0 # zs) (of_nat (length text)) = Some (Not_found, b)"
proof -
  let ?line = "line_of (([], Plain cmd) # gts)" and ?p = "length front" and ?b = "text @ 0 # zs"
  let ?n = "length ?line + length trail"
  have c: "cmd \<noteq> []" "list_all (\<lambda>c. \<not> is_blank c) cmd" using ok(1) by simp_all
  have b: "?b = front @ ?line @ trail @ 0 # zs" by (simp add: text_def)
  have "strip_front ([] @ front @ (?line @ trail @ 0 # zs)) (length ([] :: u8 list)) (of_nat (length text)) =
      Some (length ([] :: u8 list) + ?p, of_nat (length text) - of_nat ?p)"
    by (rule strip_front_run) (use ok(2) c in \<open>auto simp: neq_Nil_conv\<close>)
  moreover have "(of_nat (length text) - of_nat ?p :: u32) = of_nat ?n" by (simp add: text_def)
  ultimately have s: "strip_front ?b 0 (of_nat (length text)) = Some (?p, of_nat ?n)" by (simp add: b)
  have "?n < 2 ^ 32" using size by (simp add: text_def)
  then have n: "unat (of_nat ?n :: u32) = ?n" by (rule unat_u32)
  have "?n \<noteq> 0" using c(1) by simp
  then have nz: "(of_nat ?n :: u32) \<noteq> 0" using n by (metis unat_0)
  have k: "skip_word (?p + ?n) ?b ?p = Some (?p + length cmd)"
  proof -
    have e: "?p + ?n = length front + length cmd \<or> is_blank (hd (line_of gts @ trail @ 0 # zs))"
    proof (cases gts)
      case Nil
      then show ?thesis using ok(3) by (cases trail) auto
    next
      case (Cons a gts')
      then show ?thesis using ok(1) by (cases a; cases "fst a") auto
    qed
    have "skip_word (?p + ?n) (front @ cmd @ (line_of gts @ trail @ 0 # zs)) (length front) = Some (length front + length cmd)"
      by (rule skip_word_run[OF c(2) _ _ e]) simp_all
    then show ?thesis by (simp add: b)
  qed
  have w: "take length_cmd (drop ?p ?b) = cmd" if "length_cmd = length cmd" for length_cmd by (simp add: b that)
  have sp: "msh_split ?b ?p ?n = Some (places ?p (([], Plain cmd) # gts), front @ cut_line (([], Plain cmd) # gts) @ replicate (length trail) 0 @ 0 # zs)"
    using split_loop_tokens[OF ok(1,3), of "[]" "0 # zs" front] ok(4) by (simp add: msh_split_def b add.assoc)
  have a: "arg_strings (front @ cut_line (([], Plain cmd) # gts) @ replicate (length trail) 0 @ 0 # zs) (places ?p (([], Plain cmd) # gts)) =
      Some (map (content \<circ> snd) (([], Plain cmd) # gts))"
    by (rule arg_strings_cut[OF ok(1)])
  show "\<exists>b. msh_exec table ?b (of_nat (length text)) = Some (Called i (cmd # map (content \<circ> snd) gts), b) \<and> length b = length ?b"
    if "msh_get_cmd table cmd = Some i"
  proof -
    have "msh_exec_cmd table ?b ?p ?n = Some (Called i (cmd # map (content \<circ> snd) gts),
        front @ cut_line (([], Plain cmd) # gts) @ replicate (length trail) 0 @ 0 # zs)"
      unfolding msh_exec_cmd_def k sp using c(1) that w[OF refl] a by simp
    then show ?thesis using s n nz by (simp add: msh_exec_def) (simp add: b text_def)
  qed
  show "\<exists>b. msh_exec table ?b (of_nat (length text)) = Some (Not_found, b)" if "msh_get_cmd table cmd = None"
  proof -
    have "msh_exec_cmd table ?b ?p ?n = Some (Not_found, ?b)"
      unfolding msh_exec_cmd_def k using c(1) that w[OF refl] by simp
    moreover have "cut_word ?b ?p \<noteq> None" by (rule cut_word_ok) (simp add: b)
    ultimately show ?thesis using s n nz by (auto simp: msh_exec_def)
  qed
qed

section \<open>Completion\<close>

lemma str_common_le: "k \<le> str_common a b \<longleftrightarrow> k \<le> length a \<and> k \<le> length b \<and> take k a = take k b"
proof (induction a b arbitrary: k rule: str_common.induct)
  case (1 a as b bs)
  then show ?case by (cases k) auto
qed auto

definition candidates :: "u8 list list \<Rightarrow> u8 list \<Rightarrow> u8 list list" where
  "candidates table prefix = filter (\<lambda>c. take (length prefix) c = prefix) (map cmd_name (filter is_cmd table))"

lemma complete_loop_more:
  assumes "prefix \<noteq> []" "take (length prefix) np = prefix" "length prefix \<le> ml" "ml \<le> length np"
  shows "\<exists>m. complete_loop prefix table (Some np) ml = (Some np, m) \<and> m \<le> ml \<and>
    (\<forall>k. k \<le> m \<longleftrightarrow> k \<le> ml \<and> (\<forall>c \<in> set (candidates table prefix). k \<le> length c \<and> take k c = take k np))"
  using assms(3,4)
proof (induction table arbitrary: ml)
  case (Cons name table)
  show ?case
  proof (cases "is_cmd name \<and> take (length prefix) (cmd_name name) = prefix")
    case False
    then have "candidates (name # table) prefix = candidates table prefix" by (auto simp: candidates_def)
    then show ?thesis using Cons.IH[OF Cons.prems] by (simp only: complete_loop.simps if_not_P[OF False])
  next
    case True
    let ?m = "min ml (str_common np (cmd_name name))"
    have l: "length prefix \<le> length (cmd_name name)" using True by (metis length_take min.bounded_iff order_refl)
    then have "length prefix \<le> ?m" using Cons.prems assms(2) True by (simp add: str_common_le)
    moreover have le: "?m \<le> length np" using Cons.prems(2) by simp
    ultimately obtain m where m: "complete_loop prefix table (Some np) ?m = (Some np, m)" "m \<le> ?m"
      "\<forall>k. k \<le> m \<longleftrightarrow> k \<le> ?m \<and> (\<forall>c \<in> set (candidates table prefix). k \<le> length c \<and> take k c = take k np)"
      using Cons.IH[OF _ le] by blast
    have c: "candidates (name # table) prefix = cmd_name name # candidates table prefix" using True by (simp add: candidates_def)
    have "ml \<noteq> 0" using Cons.prems(1) assms(1) by (cases prefix) auto
    then have "complete_loop prefix (name # table) (Some np) ml = (Some np, m)" using True m(1) by simp
    moreover have "k \<le> m \<longleftrightarrow> k \<le> ml \<and> (\<forall>c \<in> set (candidates (name # table) prefix). k \<le> length c \<and> take k c = take k np)" for k
      using m(3) Cons.prems(2) by (auto simp: c str_common_le)
    ultimately show ?thesis using m(2) by auto
  qed
qed (simp add: candidates_def)

lemma complete_loop_first:
  assumes "prefix \<noteq> []"
  shows "candidates table prefix = [] \<Longrightarrow> complete_loop prefix table None 0 = (None, 0)"
    and "candidates table prefix \<noteq> [] \<Longrightarrow> \<exists>np m. complete_loop prefix table None 0 = (Some np, m) \<and> m \<le> length np \<and>
      (\<forall>k. k \<le> m \<longleftrightarrow> k \<le> length np \<and> (\<forall>c \<in> set (candidates table prefix). k \<le> length c \<and> take k c = take k np)) \<and>
      np \<in> set (candidates table prefix)"
proof (induction table)
  case (Cons name table)
  {
    case 1
    then show ?case using Cons.IH(1) by (auto simp: candidates_def split: if_splits)
  next
    case 2
    show ?case
    proof (cases "is_cmd name \<and> take (length prefix) (cmd_name name) = prefix")
      case False
      then have e: "candidates (name # table) prefix = candidates table prefix" by (auto simp: candidates_def)
      have "candidates table prefix \<noteq> []" using 2 by (simp add: e)
      from Cons.IH(2)[OF this] show ?thesis unfolding e complete_loop.simps if_not_P[OF False] .
    next
      case True
      let ?np = "cmd_name name"
      have l: "length prefix \<le> length ?np" using True by (metis length_take min.bounded_iff order_refl)
      have s: "min (length ?np) (str_common ?np ?np) = length ?np" using str_common_le[of "length ?np" ?np ?np] by simp
      obtain m where m: "complete_loop prefix table (Some ?np) (length ?np) = (Some ?np, m)" "m \<le> length ?np"
        "\<forall>k. k \<le> m \<longleftrightarrow> k \<le> length ?np \<and> (\<forall>c \<in> set (candidates table prefix). k \<le> length c \<and> take k c = take k ?np)"
        using complete_loop_more[OF assms _ l order_refl, where table = table] True by auto
      have c: "candidates (name # table) prefix = ?np # candidates table prefix" using True by (simp add: candidates_def)
      then show ?thesis using m True s by (auto simp: Let_def)
    qed
  }
qed (simp_all add: candidates_def)

lemma auto_complete_prefix:
  assumes "prefix \<noteq> []"
  shows "candidates table prefix = [] \<Longrightarrow> msh_auto_complete table prefix = []"
    and "candidates table prefix \<noteq> [] \<Longrightarrow> length prefix \<le> length (msh_auto_complete table prefix) \<and>
      (\<forall>c \<in> set (candidates table prefix). take (length (msh_auto_complete table prefix)) c = msh_auto_complete table prefix) \<and>
      (\<forall>q. (\<forall>c \<in> set (candidates table prefix). take (length q) c = q) \<longrightarrow> length q \<le> length (msh_auto_complete table prefix))"
proof -
  show "candidates table prefix = [] \<Longrightarrow> msh_auto_complete table prefix = []"
    using complete_loop_first(1)[OF assms, of table] assms by (simp add: msh_auto_complete_def)
  assume ne: "candidates table prefix \<noteq> []"
  obtain np m where m: "complete_loop prefix table None 0 = (Some np, m)" "m \<le> length np" "np \<in> set (candidates table prefix)"
    "\<forall>k. k \<le> m \<longleftrightarrow> k \<le> length np \<and> (\<forall>c \<in> set (candidates table prefix). k \<le> length c \<and> take k c = take k np)"
    using complete_loop_first(2)[OF assms ne] by blast
  have e: "msh_auto_complete table prefix = take m np" "length (take m np) = m" using m(1,2) assms by (simp_all add: msh_auto_complete_def)
  have pl: "length q \<le> length c" if "take (length q) c = q" for q c :: "u8 list" using that by (metis length_take min.bounded_iff order_refl)
  have p: "take (length prefix) c = prefix" if "c \<in> set (candidates table prefix)" for c using that by (simp add: candidates_def)
  have "length q \<le> m" if "\<forall>c \<in> set (candidates table prefix). take (length q) c = q" for q
    using m(3,4) that pl by auto
  moreover have "take m c = take m np" if "c \<in> set (candidates table prefix)" for c using m(4) that by blast
  ultimately show "length prefix \<le> length (msh_auto_complete table prefix) \<and>
      (\<forall>c \<in> set (candidates table prefix). take (length (msh_auto_complete table prefix)) c = msh_auto_complete table prefix) \<and>
      (\<forall>q. (\<forall>c \<in> set (candidates table prefix). take (length q) c = q) \<longrightarrow> length q \<le> length (msh_auto_complete table prefix))"
    unfolding e using p by auto
qed

end
