(* ===== verification/MshLines.thy ===== *)
theory MshLines
  imports MshSpec
begin

text \<open>
  Every line is handled: the scanners stop, and stay inside the buffer, whatever bytes a line holds, because there is a zero at its end.
\<close>

section \<open>The zero at the end\<close>

text \<open>With a zero at its end inside the buffer, no line makes the interpreter leave the buffer.\<close>

definition ends_at :: "nat \<Rightarrow> u8 list \<Rightarrow> bool" where "ends_at n b \<longleftrightarrow> n < length b \<and> b ! n = 0"

lemma ends_at_update [simp]: "ends_at n b \<Longrightarrow> ends_at n (b[p := 0])"
  by (cases "p = n") (simp_all add: ends_at_def)

lemma skip_blanks_total: "ends_at n b \<Longrightarrow> p \<le> n \<Longrightarrow> \<exists>b' p'. skip_blanks n b p = Some (b', p') \<and> ends_at n b' \<and> length b' = length b \<and> p \<le> p' \<and> p' \<le> n"
proof (induction n b p rule: skip_blanks.induct)
  case (1 n b p)
  show ?case
  proof (cases "is_blank (b ! p) \<and> p < n")
    case True
    then have l: "p < length b" "p + 1 \<le> n" using 1(2) by (simp_all add: ends_at_def)
    obtain b' p' where "skip_blanks n (b[p := 0]) (p + 1) = Some (b', p')" "ends_at n b'" "length b' = length b" "p + 1 \<le> p'" "p' \<le> n"
      using 1(1)[OF _ True ends_at_update[OF 1(2)] l(2)] l by auto
    then show ?thesis using True l by (simp add: skip_blanks.simps[of n b p])
  next
    case False
    then show ?thesis using 1 by (auto simp: skip_blanks.simps[of n b p] ends_at_def)
  qed
qed

lemma skip_word_total: "ends_at n b \<Longrightarrow> p \<le> n \<Longrightarrow> \<exists>p'. skip_word n b p = Some p' \<and> p \<le> p' \<and> p' \<le> n"
proof (induction n b p rule: skip_word.induct)
  case (1 n b p)
  show ?case
  proof (cases "\<not> is_blank (b ! p) \<and> p < n")
    case True
    then have l: "p < length b" "p + 1 \<le> n" using 1(2) by (simp_all add: ends_at_def)
    obtain p' where "skip_word n b (p + 1) = Some p'" "p + 1 \<le> p'" "p' \<le> n" using 1(1)[OF _ True 1(2) l(2)] l by auto
    then show ?thesis using True l by (simp add: skip_word.simps[of n b p])
  next
    case False
    then show ?thesis using 1 by (auto simp: skip_word.simps[of n b p] ends_at_def)
  qed
qed

lemma skip_string_total: "ends_at n b \<Longrightarrow> p \<le> n \<Longrightarrow> \<exists>p'. skip_string n b p = Some p' \<and> p \<le> p' \<and> p' \<le> n"
proof (induction n b p rule: skip_string.induct)
  case (1 n b p)
  have l: "p < length b" using 1(4,5) by (simp add: ends_at_def)
  show ?case
  proof (cases "b ! p \<noteq> 34 \<and> p < n")
    case False
    then show ?thesis using 1(4,5) l by (auto simp: skip_string.simps[of n b p])
  next
    case True
    then have l1: "Suc p < length b" "Suc p \<le> n" using 1(4,5) by (simp_all add: ends_at_def)
    show ?thesis
    proof (cases "b ! p = 92 \<and> b ! Suc p = 34")
      case esc: True
      then have "Suc p \<noteq> n" using 1(4) by (auto simp: ends_at_def)
      then have "p + 2 \<le> n" using l1 by simp
      then obtain p' where "skip_string n b (p + 2) = Some p'" "p + 2 \<le> p'" "p' \<le> n" using 1(1) 1(4) l l1 True esc by auto
      then show ?thesis using l l1 True esc by (simp add: skip_string.simps[of n b p])
    next
      case esc: False
      have "\<exists>p'. skip_string n b (p + 1) = Some p' \<and> p + 1 \<le> p' \<and> p' \<le> n"
        by (cases "b ! p = 92") (use 1(2,3) 1(4) l l1 True esc in auto)
      then show ?thesis using l l1 True esc by (auto simp: skip_string.simps[of n b p])
    qed
  qed
qed

lemma split_loop_total:
  "ends_at n b \<Longrightarrow> p \<le> n \<Longrightarrow> \<forall>a \<in> set argv. a \<le> n \<Longrightarrow>
    \<exists>argv' b'. split_loop n b p argv = Some (argv', b') \<and> ends_at n b' \<and> (\<forall>a \<in> set argv'. a \<le> n)"
proof (induction n b p argv rule: split_loop.induct)
  case (1 n b p argv)
  show ?case
  proof (cases "p < n")
    case False
    then show ?thesis using 1(3,5) by (auto simp: split_loop.simps[of n b p])
  next
    case True
    obtain b1 p1 where b1: "skip_blanks n b p = Some (b1, p1)" "ends_at n b1" "p \<le> p1" "p1 \<le> n"
      using skip_blanks_total[OF 1(3,4)] by blast
    show ?thesis
    proof (cases "FINSH_ARG_MAX \<le> length argv \<or> n \<le> p1")
      case stop: True
      then show ?thesis using True b1 1(5) by (auto simp: split_loop.simps[of n b p])
    next
      case go: False
      show ?thesis
      proof (cases "b1 ! p1 = 34")
        case str: True
        obtain p2 where p2: "skip_string n b1 (p1 + 1) = Some p2" "p1 + 1 \<le> p2" "p2 \<le> n"
          using skip_string_total[OF b1(2), of "p1 + 1"] go by auto
        have e: "split_loop n b p argv = (if n \<le> p2 then Some (argv @ [p1 + 1], b1) else split_loop n (b1[p2 := 0]) (p2 + 1) (argv @ [p1 + 1]))"
          using True b1(1) p2(1) go str by (simp add: split_loop.simps[of n b p])
        have "\<exists>argv' b'. split_loop n (b1[p2 := 0]) (p2 + 1) (argv @ [p1 + 1]) = Some (argv', b') \<and> ends_at n b' \<and> (\<forall>a \<in> set argv'. a \<le> n)" if "\<not> n \<le> p2"
          by (rule 1(1)[OF True b1(1) refl _ _ str p2(1) that]) (use go b1(2) p2 that 1(5) in auto)
        then show ?thesis using b1(2) p2 1(5) by (cases "n \<le> p2") (auto simp: e)
      next
        case word: False
        obtain p2 where p2: "skip_word n b1 p1 = Some p2" "p1 \<le> p2" "p2 \<le> n" using skip_word_total[OF b1(2), of p1] go by auto
        have e: "split_loop n b p argv = (if n \<le> p2 then Some (argv @ [p1], b1) else split_loop n b1 p2 (argv @ [p1]))"
          using True b1(1) p2(1) go word by (simp add: split_loop.simps[of n b p])
        have "\<exists>argv' b'. split_loop n b1 p2 (argv @ [p1]) = Some (argv', b') \<and> ends_at n b' \<and> (\<forall>a \<in> set argv'. a \<le> n)" if "\<not> n \<le> p2"
          by (rule 1(2)[OF True b1(1) refl _ _ word p2(1) that]) (use go b1(2,4) p2 1(5) in auto)
        then show ?thesis using b1(2,4) p2 1(5) by (cases "n \<le> p2") (auto simp: e)
      qed
    qed
  qed
qed

lemma str_at_total: "ends_at n b \<Longrightarrow> a \<le> n \<Longrightarrow> 0 \<in> set (drop a b)"
  by (auto simp: ends_at_def in_set_conv_nth intro!: exI[of _ "n - a"])

lemma arg_strings_total: "ends_at n b \<Longrightarrow> \<forall>a \<in> set argv. a \<le> n \<Longrightarrow> arg_strings b argv \<noteq> None"
proof (induction argv)
  case (Cons a argv)
  have "a < length b" using Cons.prems by (auto simp: ends_at_def)
  then show ?case using Cons str_at_total[of n b a] by (auto simp: str_at_def)
qed simp

lemma strip_front_total: "ends_at n b \<Longrightarrow> p \<le> n \<Longrightarrow> \<exists>p'. strip_front b p len = Some (p', len - of_nat (p' - p)) \<and> p \<le> p' \<and> p' \<le> n"
proof (induction b p len rule: strip_front.induct)
  case (1 b p len)
  have l: "p < length b" using 1(2,3) by (simp add: ends_at_def)
  show ?case
  proof (cases "is_blank (b ! p)")
    case True
    then have "p \<noteq> n" using 1(2) by (auto simp: ends_at_def is_blank_def)
    then have "p + 1 \<le> n" using 1(3) by simp
    then obtain p' where p': "strip_front b (p + 1) (len - 1) = Some (p', len - 1 - of_nat (p' - (p + 1)))" "p + 1 \<le> p'" "p' \<le> n"
      using 1(1)[OF _ True 1(2)] l by auto
    have "of_nat (p' - p) = (1 :: u32) + of_nat (p' - (p + 1))" using p'(2) by (metis Suc_diff_Suc Suc_eq_plus1 Suc_le_eq add.commute of_nat_Suc)
    then show ?thesis using p' l True by (auto simp: strip_front.simps[of b p] algebra_simps)
  next
    case False
    then show ?thesis using 1(3) l by (simp add: strip_front.simps[of b p])
  qed
qed

lemma msh_exec_total:
  assumes "ends_at n b" "n < 2 ^ 32"
  shows "msh_exec table b (of_nat n) \<noteq> None"
proof -
  obtain p where p: "strip_front b 0 (of_nat n) = Some (p, of_nat n - of_nat p)" "p \<le> n" using strip_front_total[OF assms(1), of 0 "of_nat n"] by auto
  have e: "(of_nat n - of_nat p :: u32) = of_nat (n - p)" using p(2) by (simp add: of_nat_diff)
  have u: "unat (of_nat (n - p) :: u32) = n - p" using assms(2) by (intro unat_u32) simp
  have "\<exists>r b1. msh_exec_cmd table b p (n - p) = Some (r, b1) \<and> ends_at n b1"
  proof -
    have pn: "p + (n - p) = n" using p(2) by simp
    obtain q where q: "skip_word n b p = Some q" using skip_word_total[OF assms(1) p(2)] by blast
    obtain argv b1 where s: "msh_split b p (n - p) = Some (argv, b1)" "ends_at n b1" "\<forall>a \<in> set argv. a \<le> n"
      using split_loop_total[OF assms(1) p(2), of "[]"] pn by (auto simp: msh_split_def)
    show ?thesis using assms(1) q s arg_strings_total[OF s(2,3)]
      by (cases "msh_get_cmd table (take (q - p) (drop p b))") (auto simp: msh_exec_cmd_def pn)
  qed
  then obtain r b1 where r: "msh_exec_cmd table b p (n - p) = Some (r, b1)" "ends_at n b1" by blast
  have "cut_word b1 p \<noteq> None" by (rule cut_word_ok[OF str_at_total[OF r(2) p(2)]])
  then show ?thesis using p(1) r(1) u by (cases r) (auto simp: msh_exec_def e)
qed

end
