(* ===== verification/Shell.thy ===== *)
theory Shell
  imports MshLines
begin

text \<open>
  The line editor of the shell, \<^verbatim>\<open>components/finsh/shell.c\<close>: what \<^verbatim>\<open>finsh_thread_entry\<close> does with each byte it reads, with the line, its
  cursor and the history of the last lines. \<open>None\<close> is an access outside the line or the history. What is echoed is not modelled;
  \<open>calls\<close> is what the interpreter made of the lines so far.
\<close>

section \<open>State\<close>

abbreviation (input) FINSH_CMD_SIZE :: nat where "FINSH_CMD_SIZE \<equiv> 80"
abbreviation (input) FINSH_HISTORY_LINES :: nat where "FINSH_HISTORY_LINES \<equiv> 5"

datatype input_stat = WAIT_NORMAL | WAIT_SPEC_KEY | WAIT_FUNC_KEY

record finsh_shell =
  sh_stat :: input_stat
  current_history :: u16
  history_count :: u16
  cmd_history :: "u8 list list"
  sh_line :: "u8 list"
  line_position :: u8
  line_curpos :: u8
  calls :: "msh_result list"

text \<open>The structure comes from \<^verbatim>\<open>rt_calloc\<close>.\<close>

definition shell_init :: finsh_shell where
  "shell_init = \<lparr>sh_stat = WAIT_NORMAL, current_history = 0, history_count = 0,
     cmd_history = replicate FINSH_HISTORY_LINES (replicate FINSH_CMD_SIZE 0), sh_line = replicate FINSH_CMD_SIZE 0,
     line_position = 0, line_curpos = 0, calls = []\<rparr>"

text \<open>\<^verbatim>\<open>strlen(shell->line)\<close>: the two positions follow the line in the structure.\<close>

definition line_strlen :: "finsh_shell \<Rightarrow> nat option" where
  "line_strlen s =
     (let bytes = sh_line s @ [line_position s, line_curpos s]
      in if 0 \<in> set bytes then Some (length (takeWhile (\<lambda>c. c \<noteq> 0) bytes)) else None)"

definition to_end :: "finsh_shell \<Rightarrow> finsh_shell option" where
  "to_end s = map_option (\<lambda>n. s\<lparr>line_position := of_nat n, line_curpos := of_nat n\<rparr>) (line_strlen s)"

text \<open>\<^verbatim>\<open>rt_memmove\<close> inside the line.\<close>

definition move_line :: "nat \<Rightarrow> nat \<Rightarrow> nat \<Rightarrow> finsh_shell \<Rightarrow> finsh_shell option" where
  "move_line dst src n s =
     (if src + n \<le> length (sh_line s) \<and> dst + n \<le> length (sh_line s)
      then Some (s\<lparr>sh_line := take dst (sh_line s) @ take n (drop src (sh_line s)) @ drop (dst + n) (sh_line s)\<rparr>)
      else None)"

definition put_line :: "nat \<Rightarrow> u8 \<Rightarrow> finsh_shell \<Rightarrow> finsh_shell option" where
  "put_line i c s = (if i < length (sh_line s) then Some (s\<lparr>sh_line := (sh_line s)[i := c]\<rparr>) else None)"

section \<open>History\<close>

definition recall :: "finsh_shell \<Rightarrow> finsh_shell option" where
  "recall s =
     (if unat (current_history s) < length (cmd_history s)
      then to_end (s\<lparr>sh_line := cmd_history s ! unat (current_history s)\<rparr>) else None)"

definition key_up :: "finsh_shell \<Rightarrow> finsh_shell option" where
  "key_up s = (if current_history s > 0 then recall (s\<lparr>current_history := current_history s - 1\<rparr>) else Some s)"

definition key_down :: "finsh_shell \<Rightarrow> finsh_shell option" where
  "key_down s =
     (if uint (current_history s) < uint (history_count s) - 1 then recall (s\<lparr>current_history := current_history s + 1\<rparr>)
      else if history_count s \<noteq> 0 then recall (s\<lparr>current_history := history_count s - 1\<rparr>)
      else Some s)"

definition shell_push_history :: "finsh_shell \<Rightarrow> finsh_shell option" where
  "shell_push_history s =
     (let pos = unat (line_position s); n = unat (history_count s);
          row = take pos (sh_line s) @ replicate (FINSH_CMD_SIZE - pos) 0;
          pushed =
            (if line_position s = 0 then Some s
             else if FINSH_HISTORY_LINES \<le> n then
               (if cmd_history s ! (FINSH_HISTORY_LINES - 1) \<noteq> sh_line s then
                  (if pos \<le> FINSH_CMD_SIZE
                   then Some (s\<lparr>cmd_history := tl (cmd_history s) @ [row], history_count := of_nat FINSH_HISTORY_LINES\<rparr>) else None)
                else Some s)
             else if n = 0 \<or> cmd_history s ! (n - 1) \<noteq> sh_line s then
               (if pos \<le> FINSH_CMD_SIZE
                then Some (s\<lparr>cmd_history := (cmd_history s)[n := row], history_count := history_count s + 1\<rparr>) else None)
             else Some s)
      in map_option (\<lambda>s1. s1\<lparr>current_history := history_count s1\<rparr>) pushed)"

section \<open>Keys\<close>

definition key_left :: "finsh_shell \<Rightarrow> finsh_shell option" where
  "key_left s = Some (if line_curpos s \<noteq> 0 then s\<lparr>line_curpos := line_curpos s - 1\<rparr> else s)"

definition key_right :: "finsh_shell \<Rightarrow> finsh_shell option" where
  "key_right s = Some (if line_curpos s < line_position s then s\<lparr>line_curpos := line_curpos s + 1\<rparr> else s)"

definition key_tab :: "u8 list list \<Rightarrow> finsh_shell \<Rightarrow> finsh_shell option" where
  "key_tab table s =
     (case line_strlen s of
        None \<Rightarrow> None
      | Some n \<Rightarrow>
          let full = msh_auto_complete table (take n (sh_line s @ [line_position s, line_curpos s]))
          in if length full \<le> length (sh_line s)
             then to_end (s\<lparr>sh_line := full @ drop (length full) (sh_line s)\<rparr>) else None)"

definition key_backspace :: "finsh_shell \<Rightarrow> finsh_shell option" where
  "key_backspace s =
     (if line_curpos s = 0 then Some s
      else
        let s1 = s\<lparr>line_position := line_position s - 1, line_curpos := line_curpos s - 1\<rparr>;
            pos = unat (line_position s1); cur = unat (line_curpos s1)
        in if pos > cur
           then (case move_line cur (cur + 1) (pos - cur) s1 of None \<Rightarrow> None | Some s2 \<Rightarrow> put_line pos 0 s2)
           else put_line pos 0 s1)"

definition key_enter :: "u8 list list \<Rightarrow> finsh_shell \<Rightarrow> finsh_shell option" where
  "key_enter table s =
     (case shell_push_history s of
        None \<Rightarrow> None
      | Some s1 \<Rightarrow>
          (case msh_exec table (sh_line s1) (ucast (line_position s1)) of
             None \<Rightarrow> None
           | Some (r, _) \<Rightarrow>
               Some (s1\<lparr>calls := calls s1 @ [r], sh_line := replicate FINSH_CMD_SIZE 0, line_position := 0, line_curpos := 0\<rparr>)))"

text \<open>An ordinary character. A line that gets full is started anew, but is not cleared.\<close>

definition key_char :: "u8 \<Rightarrow> finsh_shell \<Rightarrow> finsh_shell option" where
  "key_char ch s =
     (let s1 = (if unat (line_position s) \<ge> FINSH_CMD_SIZE then s\<lparr>line_position := 0\<rparr> else s);
          pos = unat (line_position s1); cur = unat (line_curpos s1);
          stored =
            (if cur < pos
             then (case move_line (cur + 1) cur (pos - cur) s1 of None \<Rightarrow> None | Some s2 \<Rightarrow> put_line cur ch s2)
             else put_line pos ch s1)
      in map_option (\<lambda>s2.
           let s3 = s2\<lparr>line_position := line_position s2 + 1, line_curpos := line_curpos s2 + 1\<rparr>
           in if unat (line_position s3) \<ge> FINSH_CMD_SIZE then s3\<lparr>line_position := 0, line_curpos := 0\<rparr> else s3) stored)"

definition plain_key :: "u8 list list \<Rightarrow> u8 \<Rightarrow> finsh_shell \<Rightarrow> finsh_shell option" where
  "plain_key table ch s =
     (if ch = 0 \<or> ch = 0xff then Some s
      else if ch = 9 then key_tab table s
      else if ch = 0x7f \<or> ch = 8 then key_backspace s
      else if ch = 13 \<or> ch = 10 then key_enter table s
      else key_char ch s)"

text \<open>One turn of the loop, with the sequences of the arrow keys.\<close>

definition shell_key :: "u8 list list \<Rightarrow> u8 \<Rightarrow> finsh_shell \<Rightarrow> finsh_shell option" where
  "shell_key table ch s =
     (if ch = 0x1b then Some (s\<lparr>sh_stat := WAIT_SPEC_KEY\<rparr>)
      else if sh_stat s = WAIT_SPEC_KEY \<and> ch = 0x5b then Some (s\<lparr>sh_stat := WAIT_FUNC_KEY\<rparr>)
      else
        let s1 = s\<lparr>sh_stat := WAIT_NORMAL\<rparr>
        in if sh_stat s = WAIT_FUNC_KEY \<and> ch = 0x41 then key_up s1
           else if sh_stat s = WAIT_FUNC_KEY \<and> ch = 0x42 then key_down s1
           else if sh_stat s = WAIT_FUNC_KEY \<and> ch = 0x44 then key_left s1
           else if sh_stat s = WAIT_FUNC_KEY \<and> ch = 0x43 then key_right s1
           else plain_key table ch s1)"

fun shell_run :: "u8 list list \<Rightarrow> u8 list \<Rightarrow> finsh_shell \<Rightarrow> finsh_shell option" where
  "shell_run table [] s = Some s"
| "shell_run table (ch # rest) s = (case shell_key table ch s of None \<Rightarrow> None | Some s1 \<Rightarrow> shell_run table rest s1)"

lemma shell_run_append:
  "shell_run table (xs @ ys) s = (case shell_run table xs s of None \<Rightarrow> None | Some s1 \<Rightarrow> shell_run table ys s1)"
  by (induction xs arbitrary: s) (auto split: option.splits)

section \<open>The line as text before and behind the cursor\<close>

definition holds_text :: "finsh_shell \<Rightarrow> u8 list \<Rightarrow> u8 list \<Rightarrow> bool" where
  "holds_text s l r \<longleftrightarrow> sh_line s = l @ r @ replicate (FINSH_CMD_SIZE - length l - length r) 0 \<and> length l + length r < FINSH_CMD_SIZE \<and>
     unat (line_position s) = length l + length r \<and> unat (line_curpos s) = length l \<and> 0 \<notin> set l \<and> 0 \<notin> set r"

definition row_ok :: "u8 list \<Rightarrow> bool" where
  "row_ok row \<longleftrightarrow> (\<exists>t. row = t @ replicate (FINSH_CMD_SIZE - length t) 0 \<and> length t < FINSH_CMD_SIZE \<and> 0 \<notin> set t)"

definition history_ok :: "finsh_shell \<Rightarrow> bool" where
  "history_ok s \<longleftrightarrow> length (cmd_history s) = FINSH_HISTORY_LINES \<and> list_all row_ok (cmd_history s) \<and>
     unat (history_count s) \<le> FINSH_HISTORY_LINES \<and> unat (current_history s) \<le> unat (history_count s)"

definition shell_ok :: "finsh_shell \<Rightarrow> bool" where
  "shell_ok s \<longleftrightarrow> history_ok s \<and> (\<exists>l r. holds_text s l r)"

definition same_rest :: "finsh_shell \<Rightarrow> finsh_shell \<Rightarrow> bool" where
  "same_rest s s' \<longleftrightarrow> sh_stat s' = sh_stat s \<and> current_history s' = current_history s \<and> history_count s' = history_count s \<and>
     cmd_history s' = cmd_history s \<and> calls s' = calls s"

lemma same_rest_history: "same_rest s s' \<Longrightarrow> history_ok s' = history_ok s"
  by (simp add: same_rest_def history_ok_def)

lemma shell_init_ok: "holds_text shell_init [] []" "shell_ok shell_init"
proof -
  have "row_ok (replicate FINSH_CMD_SIZE 0)" unfolding row_ok_def by (rule exI[of _ "[]"]) simp
  then show "holds_text shell_init [] []" "shell_ok shell_init"
    by (auto simp: shell_ok_def history_ok_def holds_text_def shell_init_def list_all_length intro!: exI[of _ "[]"])
qed

lemma u8_eqI: "unat (x :: u8) = n \<Longrightarrow> x = of_nat n"
  by auto

lemma unat_u8: "n < 256 \<Longrightarrow> unat (of_nat n :: u8) = n"
  by (simp add: unat_of_nat)

end
