(* ===== verification/ShellSpec.thy ===== *)
theory ShellSpec
  imports Shell
begin

text \<open>
  The line editor as a pair of lists, the text before and behind the cursor: each key does to the buffer what the editor does to
  the lists, as long as a line has less than 80 characters. The invariant of the shell, and what each key keeps of it.
\<close>

section \<open>Typing\<close>

lemma unat_inc: "unat (w :: u8) < 255 \<Longrightarrow> unat (w + 1) = unat w + 1"
  by (simp add: unat_word_ariths)

lemma unat_dec: "w \<noteq> 0 \<Longrightarrow> unat (w - 1 :: u8) = unat w - 1"
  by (rule unat_minus_one)

lemma holds_textD:
  assumes "holds_text s l r"
  shows "sh_line s = l @ r @ replicate (80 - length l - length r) 0" "length l + length r < 80"
    "unat (line_position s) = length l + length r" "unat (line_curpos s) = length l" "0 \<notin> set l" "0 \<notin> set r"
    "length (sh_line s) = 80" "line_curpos s = 0 \<longleftrightarrow> l = []" "line_curpos s < line_position s \<longleftrightarrow> r \<noteq> []"
  using assms by (auto simp: holds_text_def word_less_nat_alt unat_eq_0)

lemma key_char_text:
  assumes "holds_text s l r" "c \<noteq> 0" "length l + length r < 79"
  shows "\<exists>s'. key_char c s = Some s' \<and> holds_text s' (l @ [c]) r \<and> same_rest s s'"
proof -
  note H = holds_textD[OF assms(1)]
  let ?k = "79 - length l - length r"
  have z: "replicate (80 - length l - length r) (0 :: u8) = 0 # replicate ?k 0" using assms(3) by (simp flip: replicate_Suc add: Suc_diff_le)
  have inc: "unat (line_position s + 1) = Suc (length l + length r)" "unat (line_curpos s + 1) = Suc (length l)"
    using H(3,4) assms(3) by (simp_all add: unat_inc)
  let ?s = "s\<lparr>sh_line := l @ [c] @ r @ replicate ?k 0\<rparr>"
  let ?s' = "?s\<lparr>line_position := line_position s + 1, line_curpos := line_curpos s + 1\<rparr>"
  have "key_char c s = Some ?s'"
  proof (cases r)
    case Nil
    have "put_line (length l) c s = Some ?s" using H(1) z by (simp add: put_line_def Nil list_update_append)
    then show ?thesis using H(3,4) assms(3) inc by (simp add: key_char_def Nil)
  next
    case (Cons a q)
    have "sh_line s = (l @ [a]) @ q @ 0 # replicate ?k 0" using H(1) z by (simp add: Cons)
    then have "move_line (length l + 1) (length l) (length r) s = Some (s\<lparr>sh_line := l @ [a] @ r @ replicate ?k 0\<rparr>)"
      using assms(3) by (simp add: move_line_def Cons)
    moreover have "put_line (length l) c (s\<lparr>sh_line := l @ [a] @ r @ replicate ?k 0\<rparr>) = Some ?s" by (simp add: put_line_def)
    ultimately show ?thesis using H(3,4) assms(3) inc by (simp add: key_char_def Cons)
  qed
  moreover have "holds_text ?s' (l @ [c]) r" using assms H inc by (simp add: holds_text_def)
  ultimately show ?thesis by (simp add: same_rest_def)
qed

lemma key_backspace_text:
  assumes "holds_text s l r"
  shows "\<exists>s'. key_backspace s = Some s' \<and> holds_text s' (butlast l) r \<and> same_rest s s'"
proof (cases l rule: rev_cases)
  case Nil
  then show ?thesis using assms holds_textD(8)[OF assms] by (simp add: key_backspace_def same_rest_def)
next
  case (snoc m c)
  note H = holds_textD[OF assms, unfolded snoc]
  have nz: "line_curpos s \<noteq> 0" "line_position s \<noteq> 0" using H(3,4) by auto
  have dec: "unat (line_position s - 1) = length m + length r" "unat (line_curpos s - 1) = length m"
    using H(3,4) nz by (simp_all add: unat_dec)
  let ?k = "79 - length m - length r"
  let ?s1 = "s\<lparr>line_position := line_position s - 1, line_curpos := line_curpos s - 1\<rparr>"
  let ?s' = "?s1\<lparr>sh_line := m @ r @ 0 # replicate ?k 0\<rparr>"
  have l: "sh_line s = m @ c # r @ replicate ?k 0" using H(1) by simp
  have "key_backspace s = Some ?s'"
  proof (cases r rule: rev_cases)
    case Nil
    have "put_line (length m) 0 ?s1 = Some ?s'" using l by (simp add: put_line_def Nil)
    then show ?thesis using nz dec by (simp add: key_backspace_def Nil)
  next
    case (snoc q b)
    have "move_line (length m) (length m + 1) (length r) ?s1 = Some (?s1\<lparr>sh_line := m @ r @ b # replicate ?k 0\<rparr>)"
      using l H(2) by (simp add: move_line_def snoc)
    moreover have "put_line (length m + length r) 0 (?s1\<lparr>sh_line := m @ r @ b # replicate ?k 0\<rparr>) = Some ?s'"
      using list_update_append[of "m @ r" "b # replicate ?k 0" "length m + length r" 0] by (simp add: put_line_def)
    ultimately show ?thesis using nz dec by (simp add: key_backspace_def) (simp add: snoc)
  qed
  moreover have "holds_text ?s' m r" using dec H by (simp add: holds_text_def flip: replicate_Suc)
  ultimately show ?thesis by (simp add: same_rest_def snoc)
qed

lemma key_left_text:
  assumes "holds_text s l r"
  shows "\<exists>s'. key_left s = Some s' \<and> same_rest s s' \<and> holds_text s' (butlast l) (if l = [] then r else last l # r)"
proof (cases l rule: rev_cases)
  case Nil
  then show ?thesis using assms holds_textD(8)[OF assms] by (simp add: key_left_def same_rest_def)
next
  case (snoc m c)
  note H = holds_textD[OF assms, unfolded snoc]
  have "line_curpos s \<noteq> 0" using H(4) by auto
  then show ?thesis using H by (simp add: key_left_def same_rest_def snoc holds_text_def unat_dec)
qed

lemma key_right_text:
  assumes "holds_text s l r"
  shows "\<exists>s'. key_right s = Some s' \<and> same_rest s s' \<and> holds_text s' (if r = [] then l else l @ [hd r]) (tl r)"
proof (cases r)
  case Nil
  then show ?thesis using assms holds_textD(9)[OF assms] by (simp add: key_right_def same_rest_def)
next
  case (Cons c q)
  note H = holds_textD[OF assms, unfolded Cons]
  have "line_curpos s < line_position s" using H(9) by simp
  moreover have "unat (line_curpos s + 1) = Suc (length l)" using H(2,4) by (simp add: unat_inc)
  ultimately show ?thesis using H by (simp add: key_right_def same_rest_def Cons holds_text_def)
qed

section \<open>Whole lines\<close>

lemma takeWhile_zero: "0 \<notin> set t \<Longrightarrow> takeWhile (\<lambda>c. c \<noteq> 0) (t @ 0 # ys) = t"
  by (induction t) auto

lemma strlen_text: "holds_text s l r \<Longrightarrow> line_strlen s = Some (length l + length r)"
proof -
  assume "holds_text s l r"
  note H = holds_textD[OF this]
  obtain k where k: "80 - length l - length r = Suc k" using H(2) by (cases "80 - length l - length r") auto
  have "sh_line s @ [line_position s, line_curpos s] = (l @ r) @ 0 # replicate k 0 @ [line_position s, line_curpos s]"
    by (simp add: H(1) k del: diff_diff_left)
  then have "line_strlen s = Some (length (takeWhile (\<lambda>c. c \<noteq> 0) ((l @ r) @ 0 # replicate k 0 @ [line_position s, line_curpos s])))"
    unfolding line_strlen_def Let_def by simp
  then show ?thesis using takeWhile_zero[of "l @ r"] H(5,6) by simp
qed

lemma to_end_text:
  assumes "sh_line s = t @ replicate (80 - length t) 0" "length t < 80" "0 \<notin> set t"
  shows "\<exists>s'. to_end s = Some s' \<and> holds_text s' t [] \<and> same_rest s s'"
proof -
  obtain k where k: "80 - length t = Suc k" using assms(2) by (cases "80 - length t") auto
  have "line_strlen s = Some (length t)" using takeWhile_zero[OF assms(3)] by (simp add: line_strlen_def Let_def assms(1) k)
  then show ?thesis using assms by (simp add: to_end_def holds_text_def same_rest_def unat_u8)
qed

lemma recall_text:
  assumes "history_ok s" "unat (current_history s) < 5"
  shows "\<exists>s' t. recall s = Some s' \<and> holds_text s' t [] \<and> same_rest s s' \<and>
    cmd_history s ! unat (current_history s) = t @ replicate (80 - length t) 0"
proof -
  have "row_ok (cmd_history s ! unat (current_history s))" using assms by (simp add: history_ok_def list_all_length)
  then obtain t where t: "cmd_history s ! unat (current_history s) = t @ replicate (80 - length t) 0" "length t < 80" "0 \<notin> set t"
    by (auto simp: row_ok_def)
  let ?s = "s\<lparr>sh_line := cmd_history s ! unat (current_history s)\<rparr>"
  obtain s' where "to_end ?s = Some s'" "holds_text s' t []" "same_rest ?s s'" using to_end_text[of ?s t] t by auto
  moreover have "recall s = to_end ?s" using assms by (simp add: recall_def history_ok_def)
  ultimately show ?thesis using t(1) by (auto simp: same_rest_def)
qed

lemma key_tab_text:
  assumes "holds_text s l r" "\<forall>name \<in> set table. length (cmd_name name) < 80 \<and> 0 \<notin> set name"
  shows "\<exists>s'. key_tab table s = Some s' \<and> same_rest s s' \<and>
    holds_text s' (let full = msh_auto_complete table (l @ r) in if full = [] then l @ r else full) []"
proof -
  note H = holds_textD[OF assms(1)]
  let ?t = "l @ r" and ?full = "msh_auto_complete table (l @ r)"
  define t where "t = (if ?full = [] then ?t else ?full)"
  have n: "line_strlen s = Some (length l + length r)" by (rule strlen_text[OF assms(1)])
  have p: "take (length l + length r) (sh_line s @ [line_position s, line_curpos s]) = ?t" using H(1) by simp
  have full: "?full = [] \<or> length ?t \<le> length ?full \<and> length ?full < 80 \<and> 0 \<notin> set ?full"
  proof (cases "?t = [] \<or> candidates table ?t = []")
    case True
    then show ?thesis using auto_complete_prefix(1)[of ?t table] by (auto simp: msh_auto_complete_def)
  next
    case False
    then obtain c where c: "c \<in> set (candidates table ?t)" by (cases "candidates table ?t") auto
    note A = auto_complete_prefix(2)[of ?t table]
    have e: "take (length ?full) c = ?full" "length ?t \<le> length ?full" using A False c by auto
    obtain name where name: "name \<in> set table" "c = cmd_name name" using c by (auto simp: candidates_def)
    have "length c < 80" "0 \<notin> set c" using assms(2) name in_set_dropD[of 0 6 name] by (auto simp: cmd_name_def)
    then have "length ?full < 80" "0 \<notin> set ?full" using e(1) in_set_takeD[of 0 "length ?full" c]
      by (metis length_take min.strict_coboundedI1 min.commute, metis)
    then show ?thesis using e(2) by simp
  qed
  have "?full @ drop (length ?full) (sh_line s) = t @ replicate (80 - length t) 0" "length t < 80" "0 \<notin> set t"
    using full H(1,2,5,6) by (auto simp: t_def)
  then obtain s' where s': "to_end (s\<lparr>sh_line := ?full @ drop (length ?full) (sh_line s)\<rparr>) = Some s'" "holds_text s' t []"
    "same_rest (s\<lparr>sh_line := ?full @ drop (length ?full) (sh_line s)\<rparr>) s'"
    using to_end_text[of "s\<lparr>sh_line := ?full @ drop (length ?full) (sh_line s)\<rparr>" t] by auto
  have len: "length ?full \<le> length (sh_line s)" using full H(7) by auto
  have "key_tab table s = to_end (s\<lparr>sh_line := ?full @ drop (length ?full) (sh_line s)\<rparr>)"
    by (simp only: key_tab_def n option.case p Let_def if_P[OF len])
  with s' have "key_tab table s = Some s'" by simp
  then show ?thesis using s'(2,3) by (auto simp: t_def same_rest_def Let_def)
qed

section \<open>The history\<close>

lemma history_okD:
  assumes "history_ok s"
  shows "length (cmd_history s) = 5" "list_all row_ok (cmd_history s)" "unat (history_count s) \<le> 5"
    "unat (current_history s) \<le> unat (history_count s)"
  using assms by (simp_all add: history_ok_def)

lemma unat_u16_inc: "unat (w :: u16) < 5 \<Longrightarrow> unat (w + 1) = unat w + 1"
  by (simp add: unat_word_ariths)

lemma uint_below: "uint (a :: u16) < uint (b :: u16) - 1 \<Longrightarrow> unat a + 1 < unat b"
proof -
  assume a: "uint a < uint b - 1"
  have "int (unat a) = uint a" "int (unat b) = uint b" by simp_all
  then show ?thesis using a by linarith
qed

lemma row_of_text: "holds_text s l r \<Longrightarrow> row_ok (sh_line s)"
  unfolding row_ok_def by (rule exI[of _ "l @ r"]) (simp add: holds_text_def)

definition pushed_ok :: "finsh_shell \<Rightarrow> finsh_shell \<Rightarrow> bool" where
  "pushed_ok s s' \<longleftrightarrow> history_ok s' \<and> current_history s' = history_count s' \<and> sh_stat s' = sh_stat s \<and> calls s' = calls s \<and>
     sh_line s' = sh_line s \<and> line_position s' = line_position s \<and> line_curpos s' = line_curpos s"

lemma push_history_text:
  assumes "history_ok s" "holds_text s l r"
  shows "\<exists>s'. shell_push_history s = Some s' \<and> pushed_ok s s' \<and>
    (l @ r \<noteq> [] \<longrightarrow> 0 < unat (history_count s') \<and> cmd_history s' ! (unat (history_count s') - 1) = sh_line s)"
proof -
  note H = history_okD[OF assms(1)] and T = holds_textD[OF assms(2)]
  have row: "take (unat (line_position s)) (sh_line s) @ replicate (80 - unat (line_position s)) 0 = sh_line s" using T(1,3) by simp
  have pos: "unat (line_position s) \<le> 80" using T(2,3) by simp
  note def = shell_push_history_def row Let_def
  show ?thesis
  proof (cases "line_position s = 0")
    case True
    then have "l @ r = []" using T(3) by simp
    then show ?thesis using True assms(1) H by (auto simp: def pushed_ok_def history_ok_def)
  next
    case p: False
    show ?thesis
    proof (cases "5 \<le> unat (history_count s)")
      case full: True
      then have n: "unat (history_count s) = 5" using H(3) by simp
      show ?thesis
      proof (cases "cmd_history s ! 4 = sh_line s")
        case True
        then show ?thesis using p n H by (simp add: def pushed_ok_def history_ok_def)
      next
        case False
        have "list_all row_ok (tl (cmd_history s) @ [sh_line s])" using H(2) row_of_text[OF assms(2)] by (cases "cmd_history s") auto
        moreover have "(tl (cmd_history s) @ [sh_line s]) ! 4 = sh_line s" using H(1) by (simp add: nth_append)
        ultimately show ?thesis using False p pos n H by (simp add: def pushed_ok_def history_ok_def)
      qed
    next
      case False
      then have n: "unat (history_count s) < 5" by simp
      show ?thesis
      proof (cases "unat (history_count s) = 0 \<or> cmd_history s ! (unat (history_count s) - 1) \<noteq> sh_line s")
        case True
        have "list_all row_ok ((cmd_history s)[unat (history_count s) := sh_line s])"
          using H(2) row_of_text[OF assms(2)] by (auto simp: list_all_iff dest!: set_update_subset_insert[THEN subsetD])
        then show ?thesis using True p pos n H by (auto simp: def pushed_ok_def history_ok_def unat_u16_inc)
      next
        case same: False
        then show ?thesis using p n H by (auto simp: def pushed_ok_def history_ok_def)
      qed
    qed
  qed
qed

section \<open>Every key\<close>

lemma ends_at_text: "holds_text s l r \<Longrightarrow> ends_at (unat (line_position s)) (sh_line s)"
proof -
  assume "holds_text s l r"
  note H = holds_textD[OF this]
  obtain k where "80 - length l - length r = Suc k" using H(2) by (cases "80 - length l - length r") auto
  then have "sh_line s = (l @ r) @ 0 # replicate k 0" using H(1) by (simp del: diff_diff_left)
  then show ?thesis using H(3) by (simp add: ends_at_def nth_append)
qed

lemma ucast_pos: "(ucast (p :: u8) :: u32) = of_nat (unat p)"
  by simp

lemma key_enter_text:
  assumes "history_ok s" "holds_text s l r"
  shows "\<exists>s' x b. key_enter table s = Some s' \<and> msh_exec table (sh_line s) (of_nat (length (l @ r))) = Some (x, b) \<and>
    calls s' = calls s @ [x] \<and> sh_stat s' = sh_stat s \<and> history_ok s' \<and> current_history s' = history_count s' \<and> holds_text s' [] [] \<and>
    (l @ r \<noteq> [] \<longrightarrow> 0 < unat (history_count s') \<and> cmd_history s' ! (unat (history_count s') - 1) = sh_line s)"
proof -
  note T = holds_textD[OF assms(2)]
  obtain s1 where s1: "shell_push_history s = Some s1" "pushed_ok s s1"
    "l @ r \<noteq> [] \<longrightarrow> 0 < unat (history_count s1) \<and> cmd_history s1 ! (unat (history_count s1) - 1) = sh_line s"
    using push_history_text[OF assms] by blast
  have "msh_exec table (sh_line s) (of_nat (unat (line_position s))) \<noteq> None"
    by (rule msh_exec_total[OF ends_at_text[OF assms(2)]]) (use T(2,3) in simp)
  then obtain x b where x: "msh_exec table (sh_line s) (of_nat (length (l @ r))) = Some (x, b)" using T(3) by fastforce
  have eq: "line_position s1 = line_position s" "sh_line s1 = sh_line s" "unat (line_position s) = length (l @ r)"
    using T(3) s1(2) by (simp_all add: pushed_ok_def)
  have "key_enter table s = Some (s1\<lparr>calls := calls s1 @ [x], sh_line := replicate 80 0, line_position := 0, line_curpos := 0\<rparr>)"
    using s1(1) x by (simp only: key_enter_def option.case case_prod_conv eq ucast_pos)
  then show ?thesis using s1(2,3) x by (auto simp: pushed_ok_def history_ok_def holds_text_def)
qed

lemma key_up_text:
  assumes "history_ok s" "holds_text s l r"
  shows "\<exists>s' l' r'. key_up s = Some s' \<and> history_ok s' \<and> holds_text s' l' r' \<and> calls s' = calls s"
proof (cases "current_history s > 0")
  case True
  let ?s = "s\<lparr>current_history := current_history s - 1\<rparr>"
  note H = history_okD[OF assms(1)]
  have "current_history s \<noteq> 0" using True by auto
  then have u: "unat (current_history s - 1) = unat (current_history s) - 1" "0 < unat (current_history s)"
    by (simp_all add: unat_minus_one unat_gt_0)
  have "history_ok ?s" "unat (current_history ?s) < 5" using H u by (simp_all add: history_ok_def)
  from recall_text[OF this] obtain s' t where s': "recall ?s = Some s'" "holds_text s' t []" "same_rest ?s s'" by blast
  have "history_ok s'" using same_rest_history[OF s'(3)] \<open>history_ok ?s\<close> by simp
  moreover have "calls s' = calls s" using s'(3) by (simp add: same_rest_def)
  ultimately show ?thesis using True s'(1,2) by (auto simp: key_up_def)
qed (use assms in \<open>auto simp: key_up_def\<close>)

lemma key_down_text:
  assumes "history_ok s" "holds_text s l r"
  shows "\<exists>s' l' r'. key_down s = Some s' \<and> history_ok s' \<and> holds_text s' l' r' \<and> calls s' = calls s"
proof -
  note H = history_okD[OF assms(1)]
  have go: "\<exists>s' l' r'. recall (s\<lparr>current_history := c\<rparr>) = Some s' \<and> history_ok s' \<and> holds_text s' l' r' \<and> calls s' = calls s"
    if "unat c < unat (history_count s)" for c
  proof -
    let ?s = "s\<lparr>current_history := c\<rparr>"
    have "history_ok ?s" "unat (current_history ?s) < 5" using H that by (simp_all add: history_ok_def)
    from recall_text[OF this] obtain s' t where s': "recall ?s = Some s'" "holds_text s' t []" "same_rest ?s s'" by blast
    have "history_ok s'" using same_rest_history[OF s'(3)] \<open>history_ok ?s\<close> by simp
    moreover have "calls s' = calls s" using s'(3) by (simp add: same_rest_def)
    ultimately show ?thesis using s'(1,2) by blast
  qed
  consider (step) "uint (current_history s) < uint (history_count s) - 1" | (last) "\<not> uint (current_history s) < uint (history_count s) - 1"
      "history_count s \<noteq> 0" | (none) "\<not> uint (current_history s) < uint (history_count s) - 1" "history_count s = 0" by blast
  then show ?thesis
  proof cases
    case step
    then have lt: "unat (current_history s) + 1 < unat (history_count s)" by (rule uint_below)
    then have "unat (current_history s + 1) < unat (history_count s)" using H(3) by (simp add: unat_u16_inc)
    from go[OF this] show ?thesis using step by (simp add: key_down_def)
  next
    case last
    then have "unat (history_count s - 1) < unat (history_count s)" by (simp add: unat_minus_one unat_gt_0)
    from go[OF this] show ?thesis using last by (simp add: key_down_def)
  next
    case none
    then show ?thesis using assms by (auto simp: key_down_def)
  qed
qed

end
