(* ===== verification/ShellProps.thy ===== *)
theory ShellProps
  imports ShellSpec
begin

text \<open>
  The properties of the shell: the keys are an editor of text, an edited line followed by the return key calls the command with the
  words of the line, no key leaves the buffers as long as the line is not full, and what goes wrong once it is.
\<close>

section \<open>The editor\<close>

datatype edit = Type u8 | Back | Go_left | Go_right | Complete

fun edit_text :: "u8 list list \<Rightarrow> edit \<Rightarrow> u8 list \<times> u8 list \<Rightarrow> u8 list \<times> u8 list" where
  "edit_text table (Type c) (l, r) = (l @ [c], r)"
| "edit_text table Back (l, r) = (butlast l, r)"
| "edit_text table Go_left (l, r) = (if l = [] then (l, r) else (butlast l, last l # r))"
| "edit_text table Go_right (l, r) = (if r = [] then (l, r) else (l @ [hd r], tl r))"
| "edit_text table Complete (l, r) = (let full = msh_auto_complete table (l @ r) in (if full = [] then l @ r else full, []))"

text \<open>The bytes a terminal sends.\<close>

fun edit_keys :: "edit \<Rightarrow> u8 list" where
  "edit_keys (Type c) = [c]"
| "edit_keys Back = [0x7f]"
| "edit_keys Go_left = [0x1b, 0x5b, 0x44]"
| "edit_keys Go_right = [0x1b, 0x5b, 0x43]"
| "edit_keys Complete = [9]"

definition ordinary :: "u8 \<Rightarrow> bool" where
  "ordinary c \<longleftrightarrow> c \<notin> {0, 8, 9, 10, 13, 0x1b, 0x7f, 0xff}"

fun edit_fits :: "edit \<Rightarrow> u8 list \<times> u8 list \<Rightarrow> bool" where
  "edit_fits (Type c) (l, r) \<longleftrightarrow> ordinary c \<and> length l + length r < 79"
| "edit_fits _ _ \<longleftrightarrow> True"

fun edits_fit :: "u8 list list \<Rightarrow> edit list \<Rightarrow> u8 list \<times> u8 list \<Rightarrow> bool" where
  "edits_fit table [] p \<longleftrightarrow> True"
| "edits_fit table (e # es) p \<longleftrightarrow> edit_fits e p \<and> edits_fit table es (edit_text table e p)"

definition edited :: "u8 list list \<Rightarrow> edit list \<Rightarrow> u8 list \<times> u8 list \<Rightarrow> u8 list \<times> u8 list" where
  "edited table es p = fold (edit_text table) es p"

definition keys_of :: "edit list \<Rightarrow> u8 list" where "keys_of es = concat (map edit_keys es)"

definition names_ok :: "u8 list list \<Rightarrow> bool" where
  "names_ok table \<longleftrightarrow> (\<forall>name \<in> set table. length (cmd_name name) < 80 \<and> 0 \<notin> set name)"

lemma normal_again: "sh_stat s = WAIT_NORMAL \<Longrightarrow> s\<lparr>sh_stat := WAIT_NORMAL\<rparr> = s"
  by simp

lemma plain_keys:
  "sh_stat s = WAIT_NORMAL \<Longrightarrow> ordinary c \<Longrightarrow> shell_key table c s = key_char c s"
  "sh_stat s = WAIT_NORMAL \<Longrightarrow> shell_key table 0x7f s = key_backspace s"
  "sh_stat s = WAIT_NORMAL \<Longrightarrow> shell_key table 9 s = key_tab table s"
  "sh_stat s = WAIT_NORMAL \<Longrightarrow> shell_key table 13 s = key_enter table s"
  by (simp_all add: shell_key_def plain_key_def ordinary_def normal_again)

lemma arrow_keys:
  "sh_stat s = WAIT_NORMAL \<Longrightarrow> shell_run table [0x1b, 0x5b, 0x44] s = key_left s"
  "sh_stat s = WAIT_NORMAL \<Longrightarrow> shell_run table [0x1b, 0x5b, 0x43] s = key_right s"
  by (simp_all add: shell_key_def normal_again split: option.split)

lemma edit_step:
  assumes "names_ok table" "sh_stat s = WAIT_NORMAL" "holds_text s l r" "edit_fits e (l, r)"
  shows "\<exists>s'. shell_run table (edit_keys e) s = Some s' \<and> same_rest s s' \<and>
    holds_text s' (fst (edit_text table e (l, r))) (snd (edit_text table e (l, r)))"
proof (cases e)
  case (Type c)
  have c: "ordinary c" "c \<noteq> 0" "length l + length r < 79" using assms(4) by (simp_all add: Type ordinary_def)
  show ?thesis using key_char_text[OF assms(3) c(2,3)] c assms(2) by (auto simp: Type plain_keys)
next
  case Back
  then show ?thesis using key_backspace_text[OF assms(3)] assms(2) by (auto simp: plain_keys)
next
  case Go_left
  then show ?thesis using key_left_text[OF assms(3)] by (auto simp: arrow_keys[OF assms(2)] split: if_splits simp del: shell_run.simps)
next
  case Go_right
  then show ?thesis using key_right_text[OF assms(3)] by (auto simp: arrow_keys[OF assms(2)] split: if_splits simp del: shell_run.simps)
next
  case Complete
  have "\<forall>name \<in> set table. length (cmd_name name) < 80 \<and> 0 \<notin> set name" using assms(1) by (simp add: names_ok_def)
  from key_tab_text[OF assms(3) this] show ?thesis using assms(2) by (auto simp: Complete plain_keys Let_def)
qed

lemma edits_run:
  "names_ok table \<Longrightarrow> sh_stat s = WAIT_NORMAL \<Longrightarrow> holds_text s (fst p) (snd p) \<Longrightarrow> edits_fit table es p \<Longrightarrow>
    \<exists>s'. shell_run table (keys_of es) s = Some s' \<and> same_rest s s' \<and> holds_text s' (fst (edited table es p)) (snd (edited table es p))"
proof (induction es arbitrary: s p)
  case Nil
  then show ?case by (simp add: keys_of_def edited_def same_rest_def)
next
  case (Cons e es)
  obtain l r where p: "p = (l, r)" by (cases p)
  obtain s1 where s1: "shell_run table (edit_keys e) s = Some s1" "same_rest s s1"
    "holds_text s1 (fst (edit_text table e p)) (snd (edit_text table e p))"
    using edit_step[OF Cons.prems(1,2), of l r e] Cons.prems(3,4) by (auto simp: p)
  obtain s2 where s2: "shell_run table (keys_of es) s1 = Some s2" "same_rest s1 s2"
    "holds_text s2 (fst (edited table es (edit_text table e p))) (snd (edited table es (edit_text table e p)))"
    using Cons.IH[OF Cons.prems(1) _ s1(3)] Cons.prems(2,4) s1(2) by (auto simp: same_rest_def)
  have "shell_run table (keys_of (e # es)) s = Some s2" using s1(1) s2(1) by (simp add: keys_of_def shell_run_append)
  moreover have "same_rest s s2" using s1(2) s2(2) by (simp add: same_rest_def)
  ultimately show ?case using s2(3) by (auto simp: edited_def)
qed

section \<open>Any bytes, while there is room\<close>

fun roomy :: "u8 list list \<Rightarrow> u8 list \<Rightarrow> finsh_shell \<Rightarrow> bool" where
  "roomy table [] s \<longleftrightarrow> True"
| "roomy table (c # cs) s \<longleftrightarrow>
     unat (line_position s) < 79 \<and> (case shell_key table c s of None \<Rightarrow> True | Some s' \<Rightarrow> roomy table cs s')"

lemma plain_key_ok:
  assumes "names_ok table" "history_ok s" "holds_text s l r" "length l + length r < 79"
  shows "\<exists>s'. plain_key table c s = Some s' \<and> shell_ok s'"
proof -
  have keep: "\<exists>s'. f = Some s' \<and> shell_ok s'" if "\<exists>s' l' r'. f = Some s' \<and> same_rest s s' \<and> holds_text s' l' r'" for f
    using that same_rest_history assms(2) by (auto simp: shell_ok_def)
  have n: "\<forall>name \<in> set table. length (cmd_name name) < 80 \<and> 0 \<notin> set name" using assms(1) by (simp add: names_ok_def)
  consider (skip) "c = 0 \<or> c = 0xff" | (tab) "c = 9" | (del) "c = 0x7f \<or> c = 8" | (enter) "c = 13 \<or> c = 10"
    | (char) "\<not> (c = 0 \<or> c = 0xff)" "c \<noteq> 9" "\<not> (c = 0x7f \<or> c = 8)" "\<not> (c = 13 \<or> c = 10)" by blast
  then show ?thesis
  proof cases
    case skip
    then show ?thesis using assms(2,3) by (auto simp: plain_key_def shell_ok_def)
  next
    case tab
    have "plain_key table c s = key_tab table s" by (simp add: plain_key_def tab)
    then show ?thesis using keep[of "key_tab table s"] key_tab_text[OF assms(3) n] by auto
  next
    case del
    then have "plain_key table c s = key_backspace s" by (auto simp: plain_key_def)
    then show ?thesis using keep[of "key_backspace s"] key_backspace_text[OF assms(3)] by auto
  next
    case enter
    then have "plain_key table c s = key_enter table s" by (auto simp: plain_key_def)
    then show ?thesis using key_enter_text[OF assms(2,3), of table] by (auto simp: shell_ok_def)
  next
    case char
    then have "plain_key table c s = key_char c s" by (auto simp: plain_key_def)
    then show ?thesis using keep[of "key_char c s"] key_char_text[OF assms(3) _ assms(4), of c] char(1) by auto
  qed
qed

lemma shell_key_ok:
  assumes "names_ok table" "shell_ok s" "unat (line_position s) < 79"
  shows "\<exists>s'. shell_key table c s = Some s' \<and> shell_ok s'"
proof -
  obtain l r where lr: "history_ok s" "holds_text s l r" using assms(2) by (auto simp: shell_ok_def)
  define s1 where "s1 = s\<lparr>sh_stat := WAIT_NORMAL\<rparr>"
  have s1: "history_ok s1" "holds_text s1 l r" using lr by (simp_all add: s1_def history_ok_def holds_text_def)
  have room: "length l + length r < 79" using holds_textD(3)[OF lr(2)] assms(3) by simp
  have still: "shell_ok (s\<lparr>sh_stat := st\<rparr>)" for st using lr by (auto simp: shell_ok_def history_ok_def holds_text_def)
  have up: "\<exists>s'. key_up s1 = Some s' \<and> shell_ok s'" using key_up_text[OF s1] by (auto simp: shell_ok_def)
  have down: "\<exists>s'. key_down s1 = Some s' \<and> shell_ok s'" using key_down_text[OF s1] by (auto simp: shell_ok_def)
  have left: "\<exists>s'. key_left s1 = Some s' \<and> shell_ok s'"
    using key_left_text[OF s1(2)] s1(1) same_rest_history[of s1] by (auto simp: shell_ok_def)
  have right: "\<exists>s'. key_right s1 = Some s' \<and> shell_ok s'"
    using key_right_text[OF s1(2)] s1(1) same_rest_history[of s1] by (auto simp: shell_ok_def)
  show ?thesis unfolding shell_key_def Let_def s1_def[symmetric]
    using still up down left right plain_key_ok[OF assms(1) s1 room, of c] by simp
qed

lemma roomy_run:
  "names_ok table \<Longrightarrow> shell_ok s \<Longrightarrow> roomy table cs s \<Longrightarrow> \<exists>s'. shell_run table cs s = Some s' \<and> shell_ok s'"
proof (induction cs arbitrary: s)
  case (Cons c cs)
  obtain s1 where "shell_key table c s = Some s1" "shell_ok s1" using shell_key_ok[OF Cons.prems(1,2)] Cons.prems(3) by auto
  then show ?case using Cons.IH[OF Cons.prems(1)] Cons.prems(3) by simp
qed simp

section \<open>The history returns the line\<close>

lemma up_keys: "sh_stat s = WAIT_NORMAL \<Longrightarrow> shell_run table [0x1b, 0x5b, 0x41] s = key_up s"
  by (simp add: shell_key_def normal_again split: option.split)

lemma padded_eq:
  assumes "t @ replicate (80 - length t) 0 = u @ replicate (80 - length u) (0 :: u8)" "0 \<notin> set t" "0 \<notin> set u" "length t < 80" "length u < 80"
  shows "t = u"
proof -
  obtain k m where km: "80 - length t = Suc k" "80 - length u = Suc m" using assms(4,5) by (cases "80 - length t"; cases "80 - length u") auto
  have "takeWhile (\<lambda>c. c \<noteq> 0) (t @ 0 # replicate k 0) = takeWhile (\<lambda>c. c \<noteq> 0) (u @ 0 # replicate m 0)"
    using assms(1) by (simp add: km)
  then show ?thesis using takeWhile_zero[OF assms(2)] takeWhile_zero[OF assms(3)] by simp
qed

lemma recall_last:
  assumes "history_ok s" "holds_text s l r" "l @ r \<noteq> []" "sh_stat s = WAIT_NORMAL"
  shows "\<exists>s'. shell_run table [13, 0x1b, 0x5b, 0x41] s = Some s' \<and> holds_text s' (l @ r) [] \<and> history_ok s'"
proof -
  note H = holds_textD[OF assms(2)]
  from key_enter_text[OF assms(1,2), of table] obtain s1 where s1: "key_enter table s = Some s1" "sh_stat s1 = WAIT_NORMAL"
    "history_ok s1" "holds_text s1 [] []" "0 < unat (history_count s1)" "cmd_history s1 ! (unat (history_count s1) - 1) = sh_line s"
    "current_history s1 = history_count s1"
    using assms(3,4) by auto
  let ?s = "s1\<lparr>current_history := current_history s1 - 1\<rparr>"
  have nz: "history_count s1 \<noteq> 0" using s1(5) by (simp add: unat_gt_0)
  then have u: "unat (current_history ?s) = unat (history_count s1) - 1" by (simp add: s1(7) unat_minus_one)
  have ok: "history_ok ?s" "unat (current_history ?s) < 5" using history_okD[OF s1(3)] u s1(5) by (simp_all add: history_ok_def s1(7))
  obtain s2 t where s2: "recall ?s = Some s2" "holds_text s2 t []" "same_rest ?s s2"
    "cmd_history ?s ! unat (current_history ?s) = t @ replicate (80 - length t) 0" using recall_text[OF ok] by blast
  have "sh_line s = t @ replicate (80 - length t) 0" using s2(4) s1(6) by (simp only: u) simp
  then have "t @ replicate (80 - length t) 0 = (l @ r) @ replicate (80 - length (l @ r)) 0" using H(1) by simp
  then have "t = l @ r" by (rule padded_eq) (use H(2,5,6) holds_textD(2,5)[OF s2(2)] in simp_all)
  moreover have "shell_run table [13, 0x1b, 0x5b, 0x41] s = Some s2"
  proof -
    have "key_up s1 = Some s2" using s2(1) nz by (simp add: key_up_def s1(7) word_neq_0_conv)
    then have "shell_run table [0x1b, 0x5b, 0x41] s1 = Some s2" by (simp only: up_keys[OF s1(2)])
    then show ?thesis by (simp only: shell_run.simps(2)[of table 13] plain_keys(4)[OF assms(4)] s1(1) option.case)
  qed
  moreover have "history_ok s2" using same_rest_history[OF s2(3)] ok(1) by simp
  ultimately show ?thesis using s2(2) by blast
qed

section \<open>A full line\<close>

text \<open>The eightieth character starts the line anew, but what was typed stays in it.\<close>

lemma key_char_full:
  assumes "holds_text s l []" "length l = 79"
  shows "key_char c s = Some (s\<lparr>sh_line := l @ [c], line_position := 0, line_curpos := 0\<rparr>)"
proof -
  note H = holds_textD[OF assms(1)]
  have "unat (line_position s + 1) = 80" "unat (line_position s) = 79" "unat (line_curpos s) = 79" using H(3,4) assms(2) by (simp_all add: unat_inc)
  moreover have "put_line 79 c s = Some (s\<lparr>sh_line := l @ [c]\<rparr>)" using H(1) assms(2) by (simp add: put_line_def list_update_append)
  ultimately show ?thesis by (simp add: key_char_def)
qed

lemma no_candidates: "names_ok table \<Longrightarrow> 80 \<le> length t \<Longrightarrow> candidates table t = []"
proof (rule ccontr)
  assume a: "names_ok table" "80 \<le> length t" "candidates table t \<noteq> []"
  then obtain c where "c \<in> set (candidates table t)" by (cases "candidates table t") auto
  then obtain name where n: "name \<in> set table" "take (length t) (cmd_name name) = t" by (auto simp: candidates_def)
  then have "length t \<le> length (cmd_name name)" by (metis length_take min.bounded_iff order_refl)
  then show False using a(1,2) n(1) by (auto simp: names_ok_def)
qed

lemma full_line_keys:
  assumes "names_ok table" "sh_stat s = WAIT_NORMAL" "sh_line s = t" "length t = 80" "0 \<notin> set t" "line_position s = 0" "line_curpos s = 0" "ordinary c"
  shows "shell_run table [9, c, 0x7f, 0x7f] s = None"
proof -
  have len: "line_strlen s = Some 80" using takeWhile_zero[OF assms(5), of "[0]"] by (simp add: line_strlen_def Let_def assms(3,4,6,7))
  have none: "msh_auto_complete table t = []"
    by (rule auto_complete_prefix(1)[OF _ no_candidates[OF assms(1)]]) (use assms(4) in auto)
  let ?s1 = "s\<lparr>line_position := 80, line_curpos := 80\<rparr>"
  have "key_tab table s = to_end (s\<lparr>sh_line := t\<rparr>)" using len none assms(3,4,6,7) by (simp add: key_tab_def)
  also have "s\<lparr>sh_line := t\<rparr> = s" using assms(3) by auto
  finally have one: "key_tab table s = Some ?s1" using len by (simp add: to_end_def)
  let ?s2 = "s\<lparr>sh_line := t[0 := c], line_position := 1, line_curpos := 81\<rparr>"
  have two: "key_char c ?s1 = Some ?s2" using assms(3,4) by (simp add: key_char_def put_line_def)
  let ?s3 = "s\<lparr>sh_line := t[0 := 0], line_position := 0, line_curpos := 80\<rparr>"
  have three: "key_backspace ?s2 = Some ?s3" using assms(3,4) by (simp add: key_backspace_def put_line_def)
  have wrap: "unat (- 1 :: u8) = 255" by code_simp
  have four: "key_backspace ?s3 = None" using assms(3,4) by (simp add: key_backspace_def move_line_def Let_def wrap)
  show ?thesis using one two three four assms(2,8) by (simp add: plain_keys)
qed

text \<open>With the position at zero the return key takes the old characters for a line of length zero. When they begin with a blank, stripping it
  takes the length below zero: the command runs on through the memory behind the line.\<close>

lemma skip_word_off:
  "list_all (\<lambda>c. \<not> is_blank c) w \<Longrightarrow> length pre + length w \<le> n \<Longrightarrow> skip_word n (pre @ w) (length pre) = None"
proof (induction w arbitrary: pre)
  case Nil
  then show ?case by (simp add: skip_word.simps[of n _ "length pre"])
next
  case (Cons c w)
  have "skip_word n (pre @ (c # w)) (length pre) = skip_word n ((pre @ [c]) @ w) (length (pre @ [c]))"
    using Cons.prems by (simp add: skip_word.simps[of n _ "length pre"])
  also have "\<dots> = None" using Cons.prems by (intro Cons.IH) auto
  finally show ?case .
qed

lemma stale_line_runs_off:
  assumes "line = 32 # cmd @ 32 # w" "length line = 80" "cmd \<noteq> []" "list_all (\<lambda>c. \<not> is_blank c) cmd" "hd cmd \<noteq> 34"
    and "w \<noteq> []" "list_all (\<lambda>c. \<not> is_blank c) w" "hd w \<noteq> 34" "msh_get_cmd table cmd = Some i"
  shows "msh_exec table line 0 = None"
proof -
  define m where "m = unat (- 1 :: u32)"
  let ?n = "1 + m"
  have big: "80 < m" by (simp add: m_def unsigned_minus_1_eq_mask mask_eq_exp_minus_1)
  have s: "strip_front line 0 0 = Some (1, - 1)"
    using strip_front_run[of "[32]" "cmd @ 32 # w" "[]" 0] assms(3,4) by (auto simp: assms(1) is_blank_def neq_Nil_conv)
  have l: "length cmd + length w = 78" using assms(1,2) by simp
  have one: "skip_word ?n ([32] @ cmd @ 32 # w) (length [32 :: u8]) = Some (length [32 :: u8] + length cmd)"
    by (rule skip_word_run[OF assms(4)]) (use l big in \<open>auto simp: is_blank_def\<close>)
  have b1: "skip_blanks ?n ([32] @ [] @ cmd @ 32 # w) (length [32 :: u8]) = Some ([32] @ replicate (length ([] :: u8 list)) 0 @ cmd @ 32 # w, length [32 :: u8] + length ([] :: u8 list))"
    by (rule skip_blanks_run) (use assms(3,4) in \<open>auto simp: neq_Nil_conv\<close>)
  have b2: "skip_blanks ?n ((32 # cmd) @ [32] @ w) (length (32 # cmd)) = Some ((32 # cmd) @ replicate (length [32 :: u8]) 0 @ w, length (32 # cmd) + length [32 :: u8])"
    by (rule skip_blanks_run) (use assms(6,7) l big in \<open>auto simp: is_blank_def neq_Nil_conv\<close>)
  have off: "skip_word ?n ((32 # cmd @ [0]) @ w) (length (32 # cmd @ [0])) = None"
    by (rule skip_word_off) (use assms(7) l big in auto)
  have second: "split_loop ?n line (Suc (length cmd)) [Suc 0] = None"
  proof -
    have "(32 # cmd @ 0 # w) ! Suc (Suc (length cmd)) \<noteq> 34" using assms(6,8) by (cases w) (auto simp: nth_append)
    then show ?thesis using b2 off l big by (subst split_loop.simps) (simp add: assms(1))
  qed
  have "split_loop ?n line (Suc 0) [] = None"
  proof -
    have "(32 # cmd @ 32 # w) ! Suc 0 \<noteq> 34" using assms(3,5) by (cases cmd) auto
    then show ?thesis using b1 one second l big by (subst split_loop.simps) (simp add: assms(1))
  qed
  moreover have "take (length cmd) (drop 1 line) = cmd" by (simp add: assms(1))
  ultimately have "msh_exec_cmd table line 1 m = None"
    using one assms(3,9) by (simp add: msh_exec_cmd_def msh_split_def assms(1))
  then show ?thesis by (simp only: msh_exec_def s m_def option.case case_prod_conv) simp
qed

section \<open>A line from the first key to the call\<close>

text \<open>A line that was edited together and ended with the return key calls the command of its first word, with the words of the line
  as arguments: blanks in front, between and behind do not matter, a word in quotation marks keeps its blanks and loses the marks.
  The line is empty afterwards, and it is the newest of the history.\<close>

lemma typed_line_called:
  assumes "names_ok table" "shell_ok s" "sh_stat s = WAIT_NORMAL" "holds_text s [] []"
    and "edits_fit table es ([], [])" "edited table es ([], []) = (l, r)" "l @ r = front @ line_of (([], Plain cmd) # gts) @ trail"
    and "tokens_ok (([], Plain cmd) # gts)" "list_all is_blank front" "list_all is_blank trail" "length gts < FINSH_ARG_MAX"
    and "msh_get_cmd table cmd = Some i"
  shows "\<exists>s'. shell_run table (keys_of es @ [13]) s = Some s' \<and> calls s' = calls s @ [Called i (cmd # map (content \<circ> snd) gts)] \<and>
    holds_text s' [] [] \<and> shell_ok s' \<and> 0 < unat (history_count s') \<and>
    cmd_history s' ! (unat (history_count s') - 1) = l @ r @ replicate (80 - length (l @ r)) 0"
proof -
  let ?text = "front @ line_of (([], Plain cmd) # gts) @ trail"
  obtain s1 where s1: "shell_run table (keys_of es) s = Some s1" "same_rest s s1" "holds_text s1 l r"
    using edits_run[OF assms(1,3), of "([], [])" es] assms(4-6) by auto
  note H = holds_textD[OF s1(3)]
  have ok: "history_ok s1" "sh_stat s1 = WAIT_NORMAL" using same_rest_history[OF s1(2)] s1(2) assms(2,3) by (simp_all add: shell_ok_def same_rest_def)
  obtain k where k: "80 - length l - length r = Suc k" using H(2) by (cases "80 - length l - length r") auto
  have line: "sh_line s1 = ?text @ 0 # replicate k 0" using H(1) assms(7) by (simp add: k del: diff_diff_left)
  have size: "length ?text < 2 ^ 32" using H(2) arg_cong[OF assms(7), of length] by simp
  obtain b where b: "msh_exec table (sh_line s1) (of_nat (length ?text)) = Some (Called i (cmd # map (content \<circ> snd) gts), b)"
    unfolding line using msh_exec_calls(1)[OF assms(8-11) size assms(12), of "replicate k 0"] by blast
  have ne: "l @ r \<noteq> []" using assms(7,8) by auto
  obtain s2 where s2: "key_enter table s1 = Some s2" "calls s2 = calls s1 @ [Called i (cmd # map (content \<circ> snd) gts)]" "history_ok s2"
      "holds_text s2 [] []" "0 < unat (history_count s2)" "cmd_history s2 ! (unat (history_count s2) - 1) = sh_line s1"
    using key_enter_text[OF ok(1) s1(3), of table] b ne unfolding assms(7) by auto
  have "shell_run table (keys_of es @ [13]) s = Some s2" using s1(1) s2(1) by (simp add: shell_run_append plain_keys(4)[OF ok(2)])
  then show ?thesis using s2 s1(2) H(1) by (auto simp: shell_ok_def same_rest_def)
qed

section \<open>Properties\<close>

definition sample_table :: "u8 list list" where
  "sample_table = [[95, 95, 99, 109, 100, 95, 112, 115], [95, 95, 99, 109, 100, 95, 108, 105, 115, 116, 116], [95, 95, 99, 109, 100, 95, 108, 105, 115, 116, 109]]"

lemma sample_names: "names_ok sample_table"
  by (simp add: names_ok_def sample_table_def cmd_name_def)

text \<open>C36: The keys of the shell are an editor: typing a character puts it before the cursor, backspace deletes the one before it, the
  arrows move the cursor, TAB completes; whatever sequence of these keys comes, as long as the text stays below 80 characters the buffer
  holds exactly the edited text, padded with zeros, with the two positions of the structure at its end and at the cursor, and the
  history is untouched.\<close>

theorem shell_edits:
  assumes "names_ok table" "sh_stat s = WAIT_NORMAL" "holds_text s l r" "edits_fit table es (l, r)" "edited table es (l, r) = (l', r')"
  shows "\<exists>s'. shell_run table (keys_of es) s = Some s' \<and> same_rest s s' \<and> holds_text s' l' r'"
  using edits_run[OF assms(1,2), of "(l, r)" es] assms(3-5) by simp

lemma shell_edits_witness:
  "\<exists>s'. shell_run sample_table (keys_of [Type 108, Complete, Go_left, Back, Type 33, Go_right]) shell_init = Some s' \<and>
     same_rest shell_init s' \<and> holds_text s' [108, 105, 33, 116] []"
  by (rule shell_edits[OF sample_names _ shell_init_ok(1)])
    (simp_all add: shell_init_def sample_table_def edited_def ordinary_def msh_auto_complete_def is_cmd_def cmd_name_def cmd_prefix6_def)

text \<open>C37: Whatever bytes come, while the line has room for one more character before each of them the shell never reads or writes outside the
  line and the history, and it keeps its invariant: the line is a text, the history at most five texts, and the place in it exists.\<close>

theorem shell_safe:
  assumes "names_ok table" "shell_ok s" "roomy table cs s"
  shows "\<exists>s'. shell_run table cs s = Some s' \<and> shell_ok s'"
  by (rule roomy_run[OF assms])

lemma shell_safe_witness: "\<exists>s'. shell_run sample_table [0x1b, 0x5b, 0x42, 0x7f, 13, 0] shell_init = Some s' \<and> shell_ok s'"
proof (rule shell_safe[OF sample_names shell_init_ok(2)])
  have "strip_front (replicate 80 0) 0 0 = Some (0, 0)" by (simp add: strip_front.simps[of _ 0] is_blank_def)
  then show "roomy sample_table [0x1b, 0x5b, 0x42, 0x7f, 13, 0] shell_init"
    by (simp add: shell_init_def shell_key_def plain_key_def key_down_def key_backspace_def key_enter_def shell_push_history_def msh_exec_def)
qed

text \<open>A full line breaks it. The eightieth character sets the positions back to zero and leaves the characters; TAB then finds a line of
  80 characters, one more character makes the positions differ, and the second backspace takes the end of the line from 0 to 255: it
  moves 176 bytes inside a buffer of 80.\<close>

theorem shell_overflow:
  assumes "names_ok table" "sh_stat s = WAIT_NORMAL" "holds_text s [] []" "length t = 80" "list_all ordinary t" "ordinary c"
  shows "shell_run table (t @ [9, c, 0x7f, 0x7f]) s = None"
proof -
  obtain u d where t: "t = u @ [d]" using assms(4) by (cases t rule: rev_cases) auto
  have u: "length u = 79" "list_all ordinary u" "ordinary d" using assms(4,5) by (simp_all add: t)
  have typed: "list_all ordinary v \<Longrightarrow> length w + length v < 80 \<Longrightarrow>
      edits_fit table (map Type v) (w, []) \<and> edited table (map Type v) (w, []) = (w @ v, [])" for v w
    by (induction v arbitrary: w) (auto simp: edited_def)
  have keys: "keys_of (map Type v) = v" for v by (induction v) (simp_all add: keys_of_def)
  obtain s1 where s1: "shell_run table u s = Some s1" "same_rest s s1" "holds_text s1 u []"
    using edits_run[OF assms(1,2), of "([], [])" "map Type u"] typed[of u "[]"] keys[of u] u assms(3) by auto
  let ?s2 = "s1\<lparr>sh_line := t, line_position := 0, line_curpos := 0\<rparr>"
  have st: "sh_stat s1 = WAIT_NORMAL" using s1(2) assms(2) by (simp add: same_rest_def)
  have "shell_key table d s1 = Some ?s2" unfolding plain_keys(1)[OF st u(3)] using key_char_full[OF s1(3) u(1)] by (simp add: t)
  then have "shell_run table t s = Some ?s2" using s1(1) by (simp add: t shell_run_append)
  moreover have "shell_run table [9, c, 0x7f, 0x7f] ?s2 = None"
    by (rule full_line_keys[OF assms(1) _ _ assms(4) _ _ _ assms(6)]) (use st assms(5) in \<open>auto simp: list_all_iff ordinary_def\<close>)
  ultimately show ?thesis by (simp only: shell_run_append option.case)
qed

lemma shell_overflow_witness: "shell_run sample_table (replicate 80 97 @ [9, 98, 0x7f, 0x7f]) shell_init = None"
  by (rule shell_overflow[OF sample_names _ shell_init_ok(1)]) (simp_all add: shell_init_def ordinary_def list_all_length)

text \<open>TAB completes: when no command begins with the text the text stays; otherwise the line becomes the longest text with which all the
  commands begin that begin with the text.\<close>

theorem shell_completes:
  assumes "names_ok table" "sh_stat s = WAIT_NORMAL" "holds_text s l r" "l @ r \<noteq> []"
  shows "\<exists>s' full. shell_run table [9] s = Some s' \<and> same_rest s s' \<and> holds_text s' full [] \<and>
    (candidates table (l @ r) = [] \<longrightarrow> full = l @ r) \<and>
    (candidates table (l @ r) \<noteq> [] \<longrightarrow> length (l @ r) \<le> length full \<and>
       (\<forall>c \<in> set (candidates table (l @ r)). take (length full) c = full) \<and>
       (\<forall>q. (\<forall>c \<in> set (candidates table (l @ r)). take (length q) c = q) \<longrightarrow> length q \<le> length full))"
proof -
  let ?full = "msh_auto_complete table (l @ r)"
  obtain s' where s': "key_tab table s = Some s'" "same_rest s s'" "holds_text s' (if ?full = [] then l @ r else ?full) []"
    using key_tab_text[OF assms(3), of table] assms(1) unfolding names_ok_def Let_def by blast
  have "?full \<noteq> []" if "candidates table (l @ r) \<noteq> []" using auto_complete_prefix(2)[OF assms(4) that] assms(4) by auto
  then show ?thesis using auto_complete_prefix[OF assms(4), of table] s' by (simp add: plain_keys(3)[OF assms(2)]) auto
qed

lemma shell_completes_witness:
  "\<exists>s' full. shell_run sample_table [9] (shell_init\<lparr>sh_line := 108 # replicate 79 0, line_position := 1, line_curpos := 1\<rparr>) = Some s' \<and>
     same_rest (shell_init\<lparr>sh_line := 108 # replicate 79 0, line_position := 1, line_curpos := 1\<rparr>) s' \<and> holds_text s' full [] \<and>
     (candidates sample_table ([108] @ []) = [] \<longrightarrow> full = [108] @ []) \<and>
     (candidates sample_table ([108] @ []) \<noteq> [] \<longrightarrow> length ([108] @ [] :: u8 list) \<le> length full \<and>
       (\<forall>c \<in> set (candidates sample_table ([108] @ [])). take (length full) c = full) \<and>
       (\<forall>q. (\<forall>c \<in> set (candidates sample_table ([108] @ [])). take (length q) c = q) \<longrightarrow> length q \<le> length full))"
  by (rule shell_completes[OF sample_names]) (simp_all add: shell_init_def holds_text_def)

text \<open>The up key after the return key brings the line back, with the cursor behind it, however full the history was and whether or not the
  line was already its newest.\<close>

theorem shell_recalls:
  assumes "shell_ok s" "sh_stat s = WAIT_NORMAL" "holds_text s l r" "l @ r \<noteq> []"
  shows "\<exists>s'. shell_run table [13, 0x1b, 0x5b, 0x41] s = Some s' \<and> holds_text s' (l @ r) [] \<and> shell_ok s'"
  using recall_last[of s l r table] assms by (auto simp: shell_ok_def)

lemma shell_recalls_witness:
  "\<exists>s'. shell_run sample_table [13, 0x1b, 0x5b, 0x41] (shell_init\<lparr>sh_line := 108 # replicate 79 0, line_position := 1, line_curpos := 0\<rparr>) = Some s' \<and>
     holds_text s' ([] @ [108]) [] \<and> shell_ok s'"
proof (rule shell_recalls)
  let ?s = "shell_init\<lparr>sh_line := 108 # replicate 79 0, line_position := 1, line_curpos := 0\<rparr>"
  show t: "holds_text ?s [] [108]" by (simp add: shell_init_def holds_text_def)
  have "history_ok ?s" using shell_init_ok(2) by (simp add: shell_ok_def history_ok_def)
  then show "shell_ok ?s" using t by (auto simp: shell_ok_def)
qed (simp_all add: shell_init_def)

end
