(* ===== verification/ShellPort.thy ===== *)
theory ShellPort
  imports Console AtPort ShellProps ObjProps
begin

text \<open>
  The shell on its device: \<^verbatim>\<open>finsh_set_device\<close>, \<^verbatim>\<open>finsh_getchar\<close> with the semaphore \<^verbatim>\<open>rx_sem\<close>, which the call-back \<^verbatim>\<open>finsh_rx_ind\<close> releases from the
  interrupt, and the loop of \<^verbatim>\<open>finsh_thread_entry\<close> over both. The state is the console's with the shell.
\<close>

section \<open>State\<close>

record shell_io = io +
  shell :: finsh_shell
  shell_device :: "onode option"

text \<open>The kernel is the one of the object container; \<open>rx_sem\<close>, the number of the semaphore, is an argument.\<close>

abbreviation kern :: "'x io_scheme \<Rightarrow> kernel" where "kern w \<equiv> okern (objs w)"

definition set_kern :: "kernel \<Rightarrow> 'x io_scheme \<Rightarrow> 'x io_scheme" where
  "set_kern k w = w\<lparr>objs := (objs w)\<lparr>okern := k\<rparr>\<rparr>"

section \<open>The device\<close>

definition no_device_message :: "u8 list" where
  "no_device_message = map of_char ''finsh: can not find device: %s'' @ [10]"

definition finsh_set_device :: "(uart_init \<Rightarrow> bool) \<Rightarrow> u8 list \<Rightarrow> shell_io \<Rightarrow> shell_io option" where
  "finsh_set_device hal name w =
     (case rt_device_find name (objs w) of
        None \<Rightarrow> None
      | Some (None, s1) \<Rightarrow> rt_kprintf hal no_device_message [PStr (Some name)] (w\<lparr>objs := s1\<rparr>)
      | Some (Some dev, s1) \<Rightarrow>
          let w1 = w\<lparr>objs := s1\<rparr>
          in if shell_device w1 = Some dev then Some w1
             else
               (case on_port dev (rt_device_open (uart_ops hal) (RT_DEVICE_OFLAG_RDWR OR RT_DEVICE_FLAG_INT_RX OR RT_DEVICE_FLAG_STREAM)) w1 of
                  None \<Rightarrow> None
                | Some (r, w2) \<Rightarrow>
                    if r \<noteq> RT_EOK then Some w2
                    else
                      (case (case shell_device w2 of
                               None \<Rightarrow> Some w2
                             | Some old \<Rightarrow>
                                 (case on_port old (rt_device_close (uart_ops hal)) w2 of
                                    None \<Rightarrow> None
                                  | Some (_, w3) \<Rightarrow> map_option snd (on_port old (rt_device_set_rx_indicate False) w3))) of
                         None \<Rightarrow> None
                       | Some w4 \<Rightarrow>
                           let w5 = w4\<lparr>shell := (shell w4)\<lparr>sh_line := replicate FINSH_CMD_SIZE 0, line_position := 0, line_curpos := 0\<rparr>,
                                       shell_device := Some dev\<rparr>
                           in map_option snd (on_port dev (rt_device_set_rx_indicate True) w5))))"

text \<open>The thread takes the console's device when it has none. The name of an object has eight characters.\<close>

definition finsh_take_console :: "(uart_init \<Rightarrow> bool) \<Rightarrow> shell_io \<Rightarrow> shell_io option" where
  "finsh_take_console hal w =
     (if shell_device w \<noteq> None then Some w
      else case rt_console_get_device w of None \<Rightarrow> Some w | Some c \<Rightarrow> finsh_set_device hal (o_name (obj (objs w) c)) w)"

section \<open>Reading\<close>

definition finsh_rx_ind :: "nat \<Rightarrow> kernel \<Rightarrow> kernel" where
  "finsh_rx_ind rx_sem s = snd (rt_sem_release rx_sem s)"

text \<open>The wait of \<^verbatim>\<open>finsh_getchar\<close>; what \<^verbatim>\<open>rt_sem_take\<close> returns is not looked at.\<close>

definition getchar_take :: "nat \<Rightarrow> kernel \<Rightarrow> getchar \<times> kernel" where
  "getchar_take rx_sem s = (case rt_sem_take rx_sem (-1) s of (Blocked, s1) \<Rightarrow> (Waits, s1) | (Ret _, s1) \<Rightarrow> (Again, s1))"

text \<open>One turn of the loop in \<^verbatim>\<open>finsh_getchar\<close>: reading without a device fails an assertion.\<close>

definition finsh_getchar :: "(uart_init \<Rightarrow> bool) \<Rightarrow> nat \<Rightarrow> shell_io \<Rightarrow> (getchar \<times> shell_io) option" where
  "finsh_getchar hal rx_sem w =
     (case shell_device w of
        None \<Rightarrow> None
      | Some dev \<Rightarrow>
          (case on_port dev (rt_device_read (uart_ops hal) 1) w of
             None \<Rightarrow> None
           | Some (Inr (n, ch # _), w1) \<Rightarrow>
               if n = 1 then Some (Got ch, w1)
               else (case getchar_take rx_sem (kern w1) of (r, k) \<Rightarrow> Some (r, set_kern k w1))
           | Some (_, w1) \<Rightarrow> (case getchar_take rx_sem (kern w1) of (r, k) \<Rightarrow> Some (r, set_kern k w1))))"

text \<open>A turn of the thread: it reads, and handles what it read.\<close>

definition finsh_turn :: "(uart_init \<Rightarrow> bool) \<Rightarrow> nat \<Rightarrow> u8 list list \<Rightarrow> shell_io \<Rightarrow> (getchar \<times> shell_io) option" where
  "finsh_turn hal rx_sem table w =
     (case finsh_getchar hal rx_sem w of
        None \<Rightarrow> None
      | Some (Got ch, w1) \<Rightarrow> map_option (\<lambda>sh. (Got ch, w1\<lparr>shell := sh\<rparr>)) (shell_key table ch (shell w1))
      | Some (r, w1) \<Rightarrow> Some (r, w1))"

fun finsh_turns :: "nat \<Rightarrow> (uart_init \<Rightarrow> bool) \<Rightarrow> nat \<Rightarrow> u8 list list \<Rightarrow> shell_io \<Rightarrow> shell_io option" where
  "finsh_turns 0 hal rx_sem table w = Some w"
| "finsh_turns (Suc k) hal rx_sem table w =
     (case finsh_turn hal rx_sem table w of None \<Rightarrow> None | Some (_, w1) \<Rightarrow> finsh_turns k hal rx_sem table w1)"

text \<open>Bytes arrive at the shell's device, which calls \<^verbatim>\<open>finsh_rx_ind\<close> when it has a call-back.\<close>

definition finsh_interrupt :: "nat \<Rightarrow> onode \<Rightarrow> u8 list \<Rightarrow> shell_io \<Rightarrow> shell_io option" where
  "finsh_interrupt rx_sem dev bs w =
     (case arrive bs (port_of w dev) of
        None \<Rightarrow> None
      | Some (d, ind) \<Rightarrow>
          let w1 = w\<lparr>port_of := (port_of w)(dev := d)\<rparr>
          in Some (if ind = None then w1 else set_kern (finsh_rx_ind rx_sem (kern w1)) w1))"

section \<open>Ports in the system\<close>

lemma set_kern_sel [simp]: "kern (set_kern k w) = k" "the_port x (set_kern k w) = the_port x w" "port_of (set_kern k w) = port_of w"
    "console_device (set_kern k w) = console_device w" "shell (set_kern k w) = shell w" "shell_device (set_kern k w) = shell_device w"
    "olinks (objs (set_kern k w)) = olinks (objs w)" "obj (objs (set_kern k w)) = obj (objs w)"
  by (simp_all add: set_kern_def the_port_def)

lemma set_port_sel [simp]: "the_port x (set_port x d w) = d" "kern (set_port x d w) = kern w" "console_device (set_port x d w) = console_device w"
    "shell (set_port x d w) = shell w" "shell_device (set_port x d w) = shell_device w" "port_of (set_port x d w) = (port_of w)(x := d)"
    "olinks (objs (set_port x d w)) = olinks (objs w)" "obj (objs (set_port x d w)) = obj (objs w)"
  by (simp_all add: set_port_def the_port_def)

text \<open>The port of the shell: open, with the call-back, and nothing on the line.\<close>

definition shell_port :: "onode \<Rightarrow> shell_io \<Rightarrow> bool" where
  "shell_port x w \<longleftrightarrow> shell_device w = Some x \<and> port_open (the_port x w) \<and> d_rx_indicate (the_port x w) \<and> s_line (the_port x w) = []"

definition shell_queue :: "onode \<Rightarrow> shell_io \<Rightarrow> u8 list" where "shell_queue x w = port_queue (the_port x w)"

lemma shell_port_kern [simp]: "shell_port x (set_kern k w) = shell_port x w" "shell_queue x (set_kern k w) = shell_queue x w"
  by (simp_all add: shell_port_def shell_queue_def)

lemma turn_got:
  assumes "shell_port x w" "shell_queue x w = ch # q" "shell_key table ch (shell w) = Some sh"
  shows "\<exists>w'. finsh_turn hal n table w = Some (Got ch, w') \<and> shell_port x w' \<and> shell_queue x w' = q \<and> shell w' = sh \<and> kern w' = kern w"
proof -
  have p: "port_open (the_port x w)" "shell_device w = Some x" "d_rx_indicate (the_port x w)" "s_line (the_port x w) = []"
    using assms(1) by (simp_all add: shell_port_def)
  obtain d where d: "rt_device_read (uart_ops hal) 1 (the_port x w) = Some (Inr (1, [ch]), d)" "port_open d" "s_line d = s_line (the_port x w)"
    "port_queue d = q" "d_rx_indicate d = d_rx_indicate (the_port x w)"
    by (rule fetch_queue[OF p(1), of hal 1]) (use assms(2) in \<open>auto simp: shell_queue_def\<close>)
  have "finsh_getchar hal n w = Some (Got ch, set_port x d w)" using d(1) p(2) by (simp add: finsh_getchar_def on_port_def)
  then have "finsh_turn hal n table w = Some (Got ch, (set_port x d w)\<lparr>shell := sh\<rparr>)" using assms(3) by (simp add: finsh_turn_def)
  moreover have "the_port x ((set_port x d w)\<lparr>shell := sh\<rparr>) = d" "kern ((set_port x d w)\<lparr>shell := sh\<rparr>) = kern w"
    by (simp_all add: the_port_def set_port_def)
  ultimately show ?thesis using d(2-5) p(2-4) by (simp add: shell_port_def shell_queue_def)
qed

lemma turns_run:
  "shell_port x w \<Longrightarrow> shell_queue x w = bs \<Longrightarrow> shell_run table bs (shell w) = Some sh \<Longrightarrow>
    \<exists>w'. finsh_turns (length bs) hal n table w = Some w' \<and> shell_port x w' \<and> shell_queue x w' = [] \<and> shell w' = sh \<and> kern w' = kern w"
proof (induction bs arbitrary: w)
  case (Cons ch bs)
  obtain sh1 where sh1: "shell_key table ch (shell w) = Some sh1" "shell_run table bs sh1 = Some sh"
    using Cons.prems(3) by (auto split: option.splits)
  obtain w1 where w1: "finsh_turn hal n table w = Some (Got ch, w1)" "shell_port x w1" "shell_queue x w1 = bs" "shell w1 = sh1" "kern w1 = kern w"
    using turn_got[OF Cons.prems(1,2) sh1(1)] by blast
  show ?case using Cons.IH[OF w1(2,3)] w1 sh1(2) by auto
qed simp

lemma turn_empty:
  assumes "shell_port x w" "shell_queue x w = []"
  shows "\<exists>w'. finsh_turn hal n table w = Some (fst (getchar_take n (kern w)), set_kern (snd (getchar_take n (kern w))) w') \<and>
    shell_port x w' \<and> shell_queue x w' = [] \<and> shell w' = shell w \<and> size_of (the_port x w') = size_of (the_port x w)"
proof -
  have p: "port_open (the_port x w)" "shell_device w = Some x" "d_rx_indicate (the_port x w)" "s_line (the_port x w) = []"
    using assms(1) by (simp_all add: shell_port_def)
  obtain d where d: "rt_device_read (uart_ops hal) 1 (the_port x w) = Some (Inr (0, []), d)" "port_open d" "s_line d = s_line (the_port x w)"
    "port_queue d = []" "d_rx_indicate d = d_rx_indicate (the_port x w)" "s_config d = s_config (the_port x w)"
    by (rule fetch_queue[OF p(1), of hal 1]) (use assms(2) in \<open>auto simp: shell_queue_def\<close>)
  obtain r k where r: "getchar_take n (kern w) = (r, k)" by (cases "getchar_take n (kern w)") auto
  have "r = Waits \<or> r = Again" using r by (auto simp: getchar_take_def split: prod.splits outcome.splits)
  then have "finsh_turn hal n table w = Some (r, set_kern k (set_port x d w))"
    using d(1)[simplified] p(2) r by (auto simp: finsh_turn_def finsh_getchar_def on_port_def)
  then show ?thesis using d(2-6) p(2-4) by (simp add: r) (auto simp: shell_port_def shell_queue_def size_of_def intro!: exI[of _ "set_port x d w"])
qed

lemma interrupt_queue:
  assumes "shell_port x w" "bs \<noteq> []"
  shows "\<exists>w'. finsh_interrupt n x bs w = Some (set_kern (finsh_rx_ind n (kern w)) w') \<and> shell_port x w' \<and>
    shell_queue x w' = latest (size_of (the_port x w) - 1) (shell_queue x w @ bs) \<and> shell w' = shell w \<and> kern w' = kern w"
proof -
  have p: "port_open (the_port x w)" "shell_device w = Some x" "d_rx_indicate (the_port x w)" "s_line (the_port x w) = []"
    using assms(1) by (simp_all add: shell_port_def)
  obtain d' where d': "arrive bs (the_port x w) = Some (d', if d_rx_indicate (the_port x w) \<and> port_queue d' \<noteq> [] then Some (length (port_queue d')) else None)"
    "port_open d'" "s_line d' = []" "port_queue d' = latest (size_of (the_port x w) - 1) (port_queue (the_port x w) @ bs)"
    "d_rx_indicate d' = d_rx_indicate (the_port x w)"
    by (rule arrive_queue[OF p(1,4), of bs], rule that)
  have "2 \<le> size_of (the_port x w)" using p(1) by (simp add: port_open_def serial_ok_def size_of_def)
  then have ne: "port_queue d' \<noteq> []" using assms(2) by (cases bs) (auto simp: d'(4) latest_def)
  have "arrive bs (the_port x w) = map_option (\<lambda>(d, i). (d\<lparr>s_heap := oheap (objs w)\<rparr>, i)) (arrive bs (port_of w x))"
    by (simp add: arrive_def isr_rx_ind_def the_port_def size_of_def Let_def split: option.split serial_rx.split)
  then obtain d where d: "arrive bs (port_of w x) = Some (d, Some (length (port_queue d')))" "d' = d\<lparr>s_heap := oheap (objs w)\<rparr>"
    using d'(1) p(3) ne by (cases "arrive bs (port_of w x)") auto
  let ?w = "w\<lparr>port_of := (port_of w)(x := d)\<rparr>"
  have "finsh_interrupt n x bs w = Some (set_kern (finsh_rx_ind n (kern w)) ?w)" using d(1) by (simp add: finsh_interrupt_def)
  moreover have "the_port x ?w = d'" by (simp add: the_port_def d(2))
  ultimately show ?thesis using d' p by (intro exI[of _ ?w]) (simp add: shell_port_def shell_queue_def)
qed

section \<open>Taking the device\<close>

lemma find_some: "find P xs = Some x \<Longrightarrow> P x"
  by (auto simp: find_Some_iff)

lemma set_device_port:
  assumes "listed (objs w) cs" "find (\<lambda>x. o_name (obj (objs w) x) = rt_strncpy name 8) (cs 8) = Some x" "shell_device w = None"
    and "port_idle hal (the_port x w)" "d_ref_count (the_port x w) \<noteq> 255"
  shows "\<exists>w'. finsh_set_device hal name w = Some w' \<and> shell_port x w' \<and> shell_queue x w' = [] \<and> kern w' = searched (kern w) \<and>
    shell w' = (shell w)\<lparr>sh_line := replicate FINSH_CMD_SIZE 0, line_position := 0, line_curpos := 0\<rparr> \<and>
    size_of (the_port x w') = size_of (the_port x w)"
proof -
  have oflag: "has_flag 0x143 RT_DEVICE_FLAG_INT_RX" "plain_flags 0x143" by (simp_all add: has_flag_def plain_flags_def)
  obtain d where d: "rt_device_open (uart_ops hal) 0x143 (the_port x w) = Some (RT_EOK, d)" "port_open d" "port_queue d = []" "s_line d = []"
    "s_config d = s_config (the_port x w)" using open_idle[OF assms(4) oflag assms(5)] by auto
  let ?w1 = "w\<lparr>objs := (objs w)\<lparr>okern := searched (kern w)\<rparr>\<rparr>"
  let ?w5 = "(set_port x d ?w1)\<lparr>shell := (shell w)\<lparr>sh_line := replicate FINSH_CMD_SIZE 0, line_position := 0, line_curpos := 0\<rparr>, shell_device := Some x\<rparr>"
  have p1: "the_port x ?w1 = the_port x w" by (simp add: the_port_def)
  have o: "on_port x (rt_device_open (uart_ops hal) (RT_DEVICE_OFLAG_RDWR OR RT_DEVICE_FLAG_INT_RX OR RT_DEVICE_FLAG_STREAM)) ?w1 = Some (RT_EOK, set_port x d ?w1)"
    using d(1) by (simp add: on_port_def p1)
  have p5: "the_port x ?w5 = d" "is_device d" using d(2) by (simp_all add: the_port_def set_port_def port_open_def)
  have i: "on_port x (rt_device_set_rx_indicate True) ?w5 = Some (RT_EOK, set_port x (d\<lparr>d_rx_indicate := True\<rparr>) ?w5)"
    using p5 by (simp add: on_port_def rt_device_set_rx_indicate_def)
  have "finsh_set_device hal name w = Some (set_port x (d\<lparr>d_rx_indicate := True\<rparr>) ?w5)"
    using o i assms(3) by (simp add: finsh_set_device_def device_find_result[OF assms(1)] assms(2) Let_def)
  moreover have "port_open (d\<lparr>d_rx_indicate := True\<rparr>)"
    using d(2) by (auto simp: port_open_def serial_ok_def is_device_def rx_ok_def irq_on_def)
  moreover have "port_queue (d\<lparr>d_rx_indicate := True\<rparr>) = []"
    using d(3) by (simp add: port_queue_def split: option.splits serial_rx.splits)
  ultimately show ?thesis using d(4,5) by (simp add: shell_port_def shell_queue_def size_of_def)
qed

lemma console_set_port:
  assumes "listed (objs w) cs" "find (\<lambda>x. o_name (obj (objs w) x) = rt_strncpy name 8) (cs 8) = Some x" "console_device w = None"
    and "port_idle hal (the_port x w)" "d_ref_count (the_port x w) = 0"
  shows "\<exists>w'. rt_console_set_device hal name w = Some (None, w') \<and> console_device w' = Some x \<and> port_idle hal (the_port x w') \<and>
    d_ref_count (the_port x w') = 1 \<and> s_config (the_port x w') = s_config (the_port x w) \<and> olinks (objs w') = olinks (objs w) \<and>
    obj (objs w') = obj (objs w) \<and> oheap (objs w') = oheap (objs w) \<and> io.more w' = io.more w"
proof -
  have oflag: "\<not> has_flag 0x043 RT_DEVICE_FLAG_INT_RX" "plain_flags 0x043" by (simp_all add: has_flag_def plain_flags_def)
  have "d_ref_count (the_port x w) \<noteq> 255" using assms(5) by simp
  then obtain d where d: "rt_device_open (uart_ops hal) 0x043 (the_port x w) = Some (RT_EOK, d)" "port_idle hal d" "d_ref_count d = 1"
    "s_config d = s_config (the_port x w)" "s_heap d = s_heap (the_port x w)" using open_polling[OF assms(4) oflag] assms(5) by auto
  let ?w1 = "w\<lparr>objs := (objs w)\<lparr>okern := searched (kern w)\<rparr>\<rparr>"
  have p1: "the_port x ?w1 = the_port x w" by (simp add: the_port_def)
  have "rt_console_set_device hal name w = Some (None, (set_port x d ?w1)\<lparr>console_device := Some x\<rparr>)"
    using d(1) assms(3) by (simp add: rt_console_set_device_def device_find_result[OF assms(1)] assms(2) on_port_def p1)
  moreover have "the_port x ((set_port x d ?w1)\<lparr>console_device := Some x\<rparr>) = d" by (simp add: the_port_def set_port_def)
  moreover have "oheap (objs (set_port x d ?w1)) = oheap (objs w)" using d(5) by (simp add: set_port_def the_port_def)
  ultimately show ?thesis using d(2-4) by (simp add: set_port_def)
qed

section \<open>The kernel\<close>

lemma schedule_top:
  assumes "kinv s" "on_top c s"
  shows "on_top c (rt_schedule s)" "kinv (rt_schedule s)" "int_nest (rt_schedule s) = int_nest s" "sems (rt_schedule s) = sems s"
    "lists (rt_schedule s) (SemL n) = lists s (SemL n)"
proof -
  have c: "cur s = Some c" "statm s c = RT_THREAD_RUNNING" using assms(2) by (simp_all add: on_top_def running_def)
  show "kinv (rt_schedule s)" by (rule rt_schedule_kinv[OF assms(1) c(1)])
  note t = top_stays[OF assms]
  show "int_nest (rt_schedule s) = int_nest s" by (rule t(2))
  have "on_top c (rt_schedule s) \<and> sems (rt_schedule s) = sems s \<and> lists (rt_schedule s) (SemL n) = lists s (SemL n)"
    using assms(1) c(1)
  proof (cases rule: rt_schedule_cases)
    case idle
    then show ?thesis using assms(2) by simp
  next
    case (keep hp t ts)
    have r: "lists (stay c s) (ReadyL q) = []" if "q \<le> prio s c" for q
      using assms(2) that by (simp add: on_top_def stay_def kframe)
    have "members_ok s" using assms(1) by (auto simp: kinv_def dest: kbaseD(2))
    then have "c \<notin> set (lists s (SemL n))" using c(2) members_okD(3)[of s c "SemL n"] by auto
    then show ?thesis using keep top_stays(1)[OF assms] r by (simp add: on_top_def) (simp add: stay_def kframe)
  next
    case (switch hp t ts)
    then show ?thesis using assms(2) c(2) by (auto simp: on_top_def)
  qed
  then show "on_top c (rt_schedule s)" "sems (rt_schedule s) = sems s" "lists (rt_schedule s) (SemL n) = lists s (SemL n)" by simp_all
qed

lemma searched_top:
  assumes "kinv k" "on_top c k" "lock_nest k = 0"
  shows "on_top c (searched k)" "kinv (searched k)" "int_nest (searched k) = int_nest k" "sems (searched k) = sems k"
    "lists (searched k) (SemL n) = lists k (SemL n)"
proof -
  have "cur k = Some c" using assms(2) by (simp add: on_top_def running_def)
  then have "searched k = rt_schedule (k\<lparr>lock_nest := 0\<rparr>)"
    by (simp add: searched_def rt_exit_critical_def rt_enter_critical_def assms(3))
  moreover have "k\<lparr>lock_nest := 0\<rparr> = k" using assms(3) by simp
  ultimately have s: "searched k = rt_schedule k" by simp
  show "on_top c (searched k)" "kinv (searched k)" "int_nest (searched k) = int_nest k" "sems (searched k) = sems k"
    "lists (searched k) (SemL n) = lists k (SemL n)"
    unfolding s by (rule schedule_top[OF assms(1,2)])+
qed

text \<open>The shell's thread runs and would wait: no better or equal thread is ready and nobody has released its semaphore.\<close>

definition shell_rests :: "tid \<Rightarrow> nat \<Rightarrow> kernel \<Rightarrow> bool" where
  "shell_rests c n k \<longleftrightarrow> kinv k \<and> on_top c k \<and> int_nest k = 0 \<and> lock_nest k = 0 \<and> sem_inv n k \<and> s_value (sems k n) = 0 \<and>
     s_flag (sems k n) = 0 \<and> lists k (SemL n) = []"

lemma rests_searched:
  assumes "shell_rests c n k"
  obtains k' where "getchar_take n (searched k) = (Waits, k')" "kinv k'" "cur k' \<noteq> None" "sem_inv n k'" "lists k' (SemL n) = [c]"
    "t_error (thr k' c) = RT_EOK" "statm k' c = RT_THREAD_SUSPEND"
proof -
  have k: "kinv k" "on_top c k" "lock_nest k = 0" "sem_inv n k" "s_value (sems k n) = 0" "s_flag (sems k n) = 0" "lists k (SemL n) = []" "int_nest k = 0"
    using assms by (simp_all add: shell_rests_def)
  note s = searched_top[OF k(1-3)]
  have run: "cur (searched k) = Some c" "statm (searched k) c = RT_THREAD_RUNNING" using s(1) by (simp_all add: on_top_def running_def)
  have sem: "sem_inv n (searched k)" using k(4) s(4) s(5)[of n] by (simp add: sem_inv_def is_sem_def)
  have "s_value (sems (searched k) n) = 0" "lists (searched k) (SemL n) = []" "int_nest (searched k) = 0" "s_flag (sems (searched k) n) = 0"
    using k s by simp_all
  then obtain k' where "rt_sem_take n (-1) (searched k) = (Blocked, k')" "kinv k'" "cur k' \<noteq> None" "sem_inv n k'" "lists k' (SemL n) = [c]"
      "t_error (thr k' c) = RT_EOK" "statm k' c = RT_THREAD_SUSPEND"
    using take_waits[OF s(2) run _ sem, of "-1"] by auto
  then show ?thesis using that by (simp add: getchar_take_def)
qed

section \<open>Properties\<close>

text \<open>C33: The shell from the start of the board to a command: the console takes a port as it was registered, the shell's thread takes the console's
  device, finds nothing and waits. When the keys of an edited line and the return key arrive, the interrupt stores them and makes the thread ready,
  and its next turns handle them all: the command of the line is called with the words of the line.\<close>

theorem shell_over_port:
  assumes "listed (objs w) cs" "find (\<lambda>x. o_name (obj (objs w) x) = rt_strncpy name 8) (cs 8) = Some x"
    and "console_device w = None" "shell_device w = None" "shell w = shell_init" "port_idle hal (the_port x w)" "d_ref_count (the_port x w) = 0"
    and "shell_rests c n k"
    and "names_ok table" "edits_fit table es ([], [])" "edited table es ([], []) = (l, r)" "l @ r = front @ line_of (([], Plain cmd) # gts) @ trail"
    and "tokens_ok (([], Plain cmd) # gts)" "list_all is_blank front" "list_all is_blank trail" "length gts < FINSH_ARG_MAX"
    and "msh_get_cmd table cmd = Some i" "length (keys_of es) + 1 < size_of (the_port x w)"
  shows "\<exists>w1 w2 w3 w4. rt_console_set_device hal name w = Some (None, w1) \<and> finsh_take_console hal (set_kern k w1) = Some w2 \<and>
    finsh_turn hal n table w2 = Some (Waits, w3) \<and> statm (kern w3) c = RT_THREAD_SUSPEND \<and>
    finsh_interrupt n x (keys_of es @ [13]) w3 = Some w4 \<and> awake (kern w4) c \<and>
    (\<forall>k'. \<exists>w5. finsh_turns (length (keys_of es) + 1) hal n table (set_kern k' w4) = Some w5 \<and>
       calls (shell w5) = [Called i (cmd # map (content \<circ> snd) gts)] \<and> shell_queue x w5 = [])"
proof -
  obtain w1 where w1: "rt_console_set_device hal name w = Some (None, w1)" "console_device w1 = Some x" "port_idle hal (the_port x w1)"
    "d_ref_count (the_port x w1) = 1" "s_config (the_port x w1) = s_config (the_port x w)" "olinks (objs w1) = olinks (objs w)"
    "obj (objs w1) = obj (objs w)" "oheap (objs w1) = oheap (objs w)" "io.more w1 = io.more w"
    using console_set_port[OF assms(1-3,6,7)] by blast
  let ?w1 = "set_kern k w1"
  have sh: "shell ?w1 = shell_init" "shell_device ?w1 = None" using w1(9) assms(4,5) by (cases w; cases w1; simp)+
  have "obj_ok (objs ?w1) ty y = obj_ok (objs w) ty y" for ty y by (cases y) (simp_all add: obj_ok_def set_kern_def w1(7,8))
  then have inv: "listed (objs ?w1) cs" using assms(1) w1(6) by (simp add: listed_def)
  have "o_name (obj (objs w) x) = rt_strncpy name 8" using find_some[OF assms(2)] by simp
  then have f: "find (\<lambda>y. o_name (obj (objs ?w1) y) = rt_strncpy (o_name (obj (objs ?w1) x)) 8) (cs 8) = Some x" using assms(2) w1(7) by simp
  have "port_idle hal (the_port x ?w1)" "d_ref_count (the_port x ?w1) \<noteq> 255" using w1(3,4) by simp_all
  from set_device_port[OF inv f sh(2) this] obtain w2 where w2: "finsh_set_device hal (o_name (obj (objs ?w1) x)) ?w1 = Some w2" "shell_port x w2"
    "shell_queue x w2 = []" "kern w2 = searched k" "shell w2 = shell_init" "size_of (the_port x w2) = size_of (the_port x w)"
    using w1(5) sh(1) by (auto simp: size_of_def shell_init_def)
  have t: "finsh_take_console hal ?w1 = Some w2" using w2(1) sh(2) w1(2) by (simp add: finsh_take_console_def rt_console_get_device_def)
  obtain k1 where k1: "getchar_take n (searched k) = (Waits, k1)" "kinv k1" "cur k1 \<noteq> None" "sem_inv n k1" "lists k1 (SemL n) = [c]"
    "t_error (thr k1 c) = RT_EOK" "statm k1 c = RT_THREAD_SUSPEND" by (rule rests_searched[OF assms(8)], rule that)
  obtain v where v: "finsh_turn hal n table w2 = Some (Waits, set_kern k1 v)" "shell_port x v" "shell_queue x v = []" "shell v = shell_init"
    "size_of (the_port x v) = size_of (the_port x w)"
    using turn_empty[OF w2(2,3), of hal n table] k1(1) w2(4-6) by auto
  let ?w3 = "set_kern k1 v" and ?bs = "keys_of es @ [13]"
  have "shell_port x ?w3" using v(2) by simp
  from interrupt_queue[OF this, of ?bs n] obtain u where u: "finsh_interrupt n x ?bs ?w3 = Some (set_kern (finsh_rx_ind n k1) u)" "shell_port x u"
    "shell_queue x u = ?bs" "shell u = shell_init"
    using v(3-5) assms(18) by (auto simp: latest_short)
  let ?w4 = "set_kern (finsh_rx_ind n k1) u"
  obtain e where e: "cur k1 = Some e" using k1(3) by blast
  have a: "awake (kern ?w4) c" using sem_release_wakes(4)[OF k1(2) e k1(4,5)] by (simp add: finsh_rx_ind_def)
  have st: "sh_stat shell_init = WAIT_NORMAL" by (simp add: shell_init_def)
  obtain sh' where sh': "shell_run table ?bs shell_init = Some sh'" "calls sh' = calls shell_init @ [Called i (cmd # map (content \<circ> snd) gts)]"
    using typed_line_called[OF assms(9) shell_init_ok(2) st shell_init_ok(1) assms(10-17)] by blast
  have "\<exists>w5. finsh_turns (length (keys_of es) + 1) hal n table (set_kern k' ?w4) = Some w5 \<and>
       calls (shell w5) = [Called i (cmd # map (content \<circ> snd) gts)] \<and> shell_queue x w5 = []" for k'
  proof -
    have "shell_port x (set_kern k' ?w4)" "shell_queue x (set_kern k' ?w4) = ?bs" "shell_run table ?bs (shell (set_kern k' ?w4)) = Some sh'"
      using u(2-4) sh'(1) by simp_all
    from turns_run[OF this, of hal n] sh'(2) show ?thesis by (auto simp: shell_init_def)
  qed
  then show ?thesis using w1(1) t v(1) k1(7) u(1) a by (metis set_kern_sel(1))
qed

text \<open>C34: A byte that arrives after the thread has read nothing and before it waits is not lost: unless the 16-bit counter of the semaphore is
  at its maximum, the interrupt leaves the semaphore counted, the wait returns at once, and the next turn reads the byte. With the
  counter at 65535, which takes 65535 interrupts that nobody waited for, the release wraps it to 0 and the wait blocks with the byte in the
  queue.\<close>

theorem shell_wakeup_kept:
  assumes "shell_port x w" "shell_queue x w = []" "kinv (kern w)" "running (kern w) c" "int_nest (kern w) = 0" "sem_inv n (kern w)"
    "lists (kern w) (SemL n) = []"
  shows "\<exists>w1 w2 k. on_port x (rt_device_read (uart_ops hal) 1) w = Some (Inr (0, []), w1) \<and> finsh_interrupt n x [ch] w1 = Some w2 \<and>
    (if s_value (sems (kern w) n) = 65535 then fst (getchar_take n (kern w2)) = Waits \<and> shell_queue x w2 = [ch]
     else getchar_take n (kern w2) = (Again, k) \<and> (\<exists>w3. finsh_getchar hal n (set_kern k w2) = Some (Got ch, w3)))"
proof -
  have p: "port_open (the_port x w)" "shell_device w = Some x" "d_rx_indicate (the_port x w)" "s_line (the_port x w) = []"
    using assms(1) by (simp_all add: shell_port_def)
  obtain d where d: "rt_device_read (uart_ops hal) 1 (the_port x w) = Some (Inr (0, []), d)" "port_open d" "s_line d = s_line (the_port x w)"
    "port_queue d = []" "d_rx_indicate d = d_rx_indicate (the_port x w)"
    by (rule fetch_queue[OF p(1), of hal 1]) (use assms(2) in \<open>auto simp: shell_queue_def\<close>)
  let ?w1 = "set_port x d w"
  have w1: "shell_port x ?w1" "shell_queue x ?w1 = []" using d(2-5) p(2-4) by (simp_all add: shell_port_def shell_queue_def)
  have "2 \<le> size_of (the_port x ?w1)" using d(2) by (simp add: port_open_def serial_ok_def size_of_def)
  with interrupt_queue[OF w1(1), of "[ch]" n] obtain u where u: "finsh_interrupt n x [ch] ?w1 = Some (set_kern (finsh_rx_ind n (kern w)) u)"
    "shell_port x u" "shell_queue x u = [ch]" by (auto simp: w1(2) latest_short)
  let ?k = "upd_sem n (\<lambda>s. s\<lparr>s_value := s_value s + 1\<rparr>) (kern w)"
  have k: "finsh_rx_ind n (kern w) = ?k" using sem_release_counts[OF assms(6,7)] by (simp add: finsh_rx_ind_def)
  have nz: "s_value (sems ?k n) \<noteq> 0" if "s_value (sems (kern w) n) \<noteq> 65535"
  proof
    assume "s_value (sems ?k n) = 0"
    then have "s_value (sems (kern w) n) = -1" by (simp add: upd_sem_def eq_neg_iff_add_eq_0)
    then show False using that by simp
  qed
  have k1: "kinv ?k" "cur ?k = Some c" "statm ?k c = RT_THREAD_RUNNING" "int_nest ?k = 0" "sem_inv n ?k"
    using assms(3-7) by (simp_all add: running_def kframe sem_inv_def is_sem_def) (simp add: upd_sem_def)
  have t: "getchar_take n ?k = (Again, upd_sem n (\<lambda>x. x\<lparr>s_value := s_value x - 1\<rparr>) ?k)" if "s_value (sems (kern w) n) \<noteq> 65535"
    using sem_take_effect(1)[OF k1, of "-1"] nz[OF that] by (simp add: getchar_take_def word_neq_0_conv)
  have full: "fst (getchar_take n ?k) = Waits" if "s_value (sems (kern w) n) = 65535"
    using sem_take_effect(3)[OF k1, of "-1"] that by (simp add: getchar_take_def upd_sem_def)
  have "\<exists>w3. finsh_getchar hal n (set_kern k' (set_kern ?k u)) = Some (Got ch, w3)" for k'
  proof -
    have "port_open (the_port x u)" "port_queue (the_port x u) = [ch]" "shell_device u = Some x" using u(2,3) by (simp_all add: shell_port_def shell_queue_def)
    from this(1) show ?thesis by (rule fetch_queue[of _ hal 1]) (use \<open>port_queue (the_port x u) = [ch]\<close> \<open>shell_device u = Some x\<close> in
      \<open>auto simp: finsh_getchar_def on_port_def\<close>)
  qed
  moreover have "on_port x (rt_device_read (uart_ops hal) 1) w = Some (Inr (0, []), ?w1)" using d(1) by (simp add: on_port_def)
  moreover have "finsh_interrupt n x [ch] ?w1 = Some (set_kern ?k u)" using u(1) by (simp only: k)
  moreover have "kern (set_kern ?k u) = ?k" "shell_queue x (set_kern ?k u) = [ch]" using u(3) by (simp_all only: set_kern_sel shell_queue_def)
  ultimately show ?thesis using t full by (cases "s_value (sems (kern w) n) = 65535") (metis (no_types), metis (no_types))
qed

section \<open>Where they hold\<close>

definition uart1 :: "u8 list" where "uart1 = map of_char ''uart1''"

lemma resting_sample: "shell_rests 0 2 (set_priority 0 4 sample)"
proof -
  have "lock_nest (set_priority 0 4 sample) = 0" "sem_inv 2 (set_priority 0 4 sample)" "s_value (sems (set_priority 0 4 sample) 2) = 0"
    "s_flag (sems (set_priority 0 4 sample) 2) = 0" "lists (set_priority 0 4 sample) (SemL 2) = []"
    using sample_sem_inv[of 2] by (simp_all add: set_priority_sel sample_sel sample_list sem_inv_def is_sem_def)
      (simp_all add: set_priority_def upd_thr_def sample_sel)
  then show ?thesis using top_sample(1-3) by (simp add: shell_rests_def)
qed

text \<open>The board with one port that is registered as "uart1".\<close>

lemma one_port:
  obtains w :: shell_io where "listed (objs w) ((\<lambda>_. [])(8 := [Sobj 0]))" "find (\<lambda>x. o_name (obj (objs w) x) = rt_strncpy uart1 8) [Sobj 0] = Some (Sobj 0)"
    "console_device w = None" "shell_device w = None" "shell w = shell_init" "port_idle (\<lambda>_. True) (the_port (Sobj 0) w)"
    "d_ref_count (the_port (Sobj 0) w) = 0" "size_of (the_port (Sobj 0) w) = 64"
proof -
  define s0 where "s0 = no_objects\<lparr>oheap := used_heap\<rparr>"
  have inv: "obj_inv s0 (\<lambda>_. [])" using obj_reach_inv[OF no_objects_reach] heap_reach_ok[OF used_reach] by (simp add: obj_inv_def s0_def)
  obtain s where s: "rt_object_init (Sobj 0) 9 uart1 s0 = Some s" "obj_inv s ((\<lambda>_. [])(8 := [Sobj 0]))" "o_name (obj s (Sobj 0)) = rt_strncpy uart1 8"
    using object_init_adds[OF inv device_class refl] by (metis empty_iff empty_set)
  have h: "oheap s = used_heap" using s(1) by (auto simp: rt_object_init_def Let_def s0_def split: option.splits if_splits)
  define w :: shell_io where "w = \<lparr>console_device = None, rt_log_buf = replicate 128 0, port_of = \<lambda>_. fresh_port, objs = s, shell = shell_init, shell_device = None\<rparr>"
  have p: "the_port (Sobj 0) w = fresh_port" by (simp add: the_port_def w_def h fresh_port_def)
  have "port_idle (\<lambda>_. True) fresh_port" using fresh_port by (simp add: port_fresh_def port_idle_def) (simp add: has_flag_def)
  moreover have "listed (objs w) ((\<lambda>_. [])(8 := [Sobj 0]))" using s(2) by (simp add: obj_inv_def listed_def w_def)
  ultimately show ?thesis using that[of w] s(3) by (simp add: p) (simp add: w_def fresh_port_def size_of_def RT_SERIAL_CONFIG_DEFAULT_def)
qed

lemma shell_over_port_witness:
  "\<exists>w w1 w2 w3 w4 w5. rt_console_set_device (\<lambda>_. True) uart1 w = Some (None, w1) \<and>
     finsh_take_console (\<lambda>_. True) (set_kern (set_priority 0 4 sample) w1) = Some w2 \<and>
     finsh_turn (\<lambda>_. True) 2 sample_table w2 = Some (Waits, w3) \<and> finsh_interrupt 2 (Sobj 0) [112, 120, 0x7f, 115, 13] w3 = Some w4 \<and>
     finsh_turns 5 (\<lambda>_. True) 2 sample_table w4 = Some w5 \<and> calls (shell w5) = [Called 0 [[112, 115]]]"
proof (rule one_port)
  fix w :: shell_io
  assume w: "listed (objs w) ((\<lambda>_. [])(8 := [Sobj 0]))" "find (\<lambda>x. o_name (obj (objs w) x) = rt_strncpy uart1 8) [Sobj 0] = Some (Sobj 0)"
    "console_device w = None" "shell_device w = None" "shell w = shell_init" "port_idle (\<lambda>_. True) (the_port (Sobj 0) w)"
    "d_ref_count (the_port (Sobj 0) w) = 0" "size_of (the_port (Sobj 0) w) = 64"
  let ?es = "[Type 112, Type 120, Back, Type 115]"
  have k: "keys_of ?es = [112, 120, 0x7f, 115]" by (simp add: keys_of_def)
  have e: "edits_fit sample_table ?es ([], [])" "edited sample_table ?es ([], []) = ([112, 115], [])" by (simp_all add: ordinary_def edited_def)
  have l: "[112, 115] @ [] = ([] :: u8 list) @ line_of (([], Plain [112, 115]) # []) @ []" by (simp add: line_of_def)
  have t: "tokens_ok (([], Plain [112, 115]) # [])" "msh_get_cmd sample_table [112, 115] = Some 0"
    by (simp_all add: is_blank_def msh_get_cmd_def sample_table_def is_cmd_def cmd_name_def cmd_prefix6_def)
  have f: "find (\<lambda>x. o_name (obj (objs w) x) = rt_strncpy uart1 8) (((\<lambda>_. [])(8 := [Sobj 0])) 8) = Some (Sobj 0)" using w(2) by simp
  have sz: "length (keys_of ?es) + 1 < size_of (the_port (Sobj 0) w)" by (simp add: k w(8))
  obtain w1 w2 w3 w4 where r: "rt_console_set_device (\<lambda>_. True) uart1 w = Some (None, w1)"
    "finsh_take_console (\<lambda>_. True) (set_kern (set_priority 0 4 sample) w1) = Some w2" "finsh_turn (\<lambda>_. True) 2 sample_table w2 = Some (Waits, w3)"
    "finsh_interrupt 2 (Sobj 0) (keys_of ?es @ [13]) w3 = Some w4"
    "\<forall>k'. \<exists>w5. finsh_turns (length (keys_of ?es) + 1) (\<lambda>_. True) 2 sample_table (set_kern k' w4) = Some w5 \<and>
       calls (shell w5) = [Called 0 ([112, 115] # map (content \<circ> snd) ([] :: (u8 list \<times> token) list))] \<and> shell_queue (Sobj 0) w5 = []"
    using shell_over_port[OF w(1) f w(3-7) resting_sample sample_names e l t(1) _ _ _ t(2) sz] by auto
  have same: "set_kern (kern w4) w4 = w4" by (simp add: set_kern_def)
  have five: "length (keys_of ?es) + 1 = 5" by (simp add: k)
  have "\<exists>w5. finsh_turns 5 (\<lambda>_. True) 2 sample_table w4 = Some w5 \<and> calls (shell w5) = [Called 0 [[112, 115]]]"
    using r(5)[rule_format, of "kern w4", unfolded same five] by (auto simp del: finsh_turns.simps)
  moreover have "finsh_interrupt 2 (Sobj 0) [112, 120, 0x7f, 115, 13] w3 = Some w4" using r(4) by (simp add: k)
  ultimately show ?thesis using r(1-3) by blast
qed

lemma shell_wakeup_kept_witness:
  "\<exists>w w1 w2 k. on_port (Sobj 0) (rt_device_read (uart_ops (\<lambda>_. True)) 1) w = Some (Inr (0, []), w1) \<and> finsh_interrupt 1 (Sobj 0) [79] w1 = Some w2 \<and>
     getchar_take 1 (kern w2) = (Again, k) \<and> (\<exists>w3. finsh_getchar (\<lambda>_. True) 1 (set_kern k w2) = Some (Got 79, w3))"
proof -
  define w :: shell_io where "w = \<lparr>console_device = None, rt_log_buf = [], port_of = \<lambda>_. sample_port, objs = no_objects\<lparr>oheap := used_heap\<rparr>,
    shell = shell_init, shell_device = Some (Sobj 0)\<rparr>"
  have "the_port (Sobj 0) w = sample_port" by (simp add: the_port_def w_def sample_port_def)
  then have "shell_port (Sobj 0) w" "shell_queue (Sobj 0) w = []" using sample_port_open sample_port_sel
    by (simp_all add: shell_port_def shell_queue_def) (simp add: w_def)
  moreover have "kern w = sample" by (simp add: w_def no_objects_def)
  moreover have "running sample 0" by (simp add: running_def sample_sel sample_stat)
  ultimately have "\<exists>w1 w2 k. on_port (Sobj 0) (rt_device_read (uart_ops (\<lambda>_. True)) 1) w = Some (Inr (0, []), w1) \<and>
      finsh_interrupt 1 (Sobj 0) [79] w1 = Some w2 \<and> getchar_take 1 (kern w2) = (Again, k) \<and>
      (\<exists>w3. finsh_getchar (\<lambda>_. True) 1 (set_kern k w2) = Some (Got 79, w3))"
    using sample_kinv sample_sem_inv[of 1] shell_wakeup_kept[of "Sobj 0" w 0 1 "\<lambda>_. True" 79] by (simp add: sample_sel sample_list)
  then show ?thesis by blast
qed

end
