(* ===== verification/RingBlk.thy ===== *)
theory RingBlk
  imports Prelude
begin

text \<open>
  \<^verbatim>\<open>components/drivers/src/ringblk_buf.c\<close>: a ring buffer of blocks, which are filled and emptied in place. The blocks are the entries of the
  array \<^verbatim>\<open>blk_set\<close>; a block is known by its index in it. \<open>rb_list\<close> are the blocks in the list \<^verbatim>\<open>blk_list\<close>, in order. Addresses are
  \<^verbatim>\<open>u32\<close>, the size of a block is the bit field of 24 bits. \<open>None\<close> is a failed \<^verbatim>\<open>RT_ASSERT\<close> or an access behind the array.
\<close>

section \<open>Data\<close>

datatype rt_rbb_status = RT_RBB_BLK_UNUSED | RT_RBB_BLK_INITED | RT_RBB_BLK_PUT | RT_RBB_BLK_GET

record rt_rbb_blk =
  bk_status :: rt_rbb_status
  bk_size :: "24 word"
  bk_buf :: u32

record rt_rbb =
  rb_buf :: u32
  rb_size :: u32
  rb_set :: "rt_rbb_blk list"
  rb_max :: u32
  rb_list :: "nat list"

record rt_rbb_blk_queue =
  bq_blocks :: nat
  bq_num :: u32

abbreviation blk :: "rt_rbb \<Rightarrow> nat \<Rightarrow> rt_rbb_blk" where
  "blk r i \<equiv> rb_set r ! i"

definition upd_blk :: "nat \<Rightarrow> (rt_rbb_blk \<Rightarrow> rt_rbb_blk) \<Rightarrow> rt_rbb \<Rightarrow> rt_rbb" where
  "upd_blk i f r = r\<lparr>rb_set := (rb_set r)[i := f (blk r i)]\<rparr>"

definition bytes :: "rt_rbb_blk \<Rightarrow> u32" where
  "bytes b = ucast (bk_size b)"

section \<open>Operations\<close>

definition rt_rbb_init :: "u32 \<Rightarrow> u32 \<Rightarrow> rt_rbb_blk list \<Rightarrow> u32 \<Rightarrow> rt_rbb option" where
  "rt_rbb_init buf buf_size block_set blk_max_num =
     (if buf = 0 \<or> length block_set < unat blk_max_num then None
      else Some \<lparr>rb_buf = buf, rb_size = buf_size,
                 rb_set = map (\<lambda>b. b\<lparr>bk_status := RT_RBB_BLK_UNUSED\<rparr>) (take (unat blk_max_num) block_set) @ drop (unat blk_max_num) block_set,
                 rb_max = blk_max_num, rb_list = []\<rparr>)"

definition find_empty_blk_in_set :: "rt_rbb \<Rightarrow> nat option" where
  "find_empty_blk_in_set r = find (\<lambda>i. bk_status (blk r i) = RT_RBB_BLK_UNUSED) [0 ..< unat (rb_max r)]"

text \<open>The three assignments to a new block, after it was appended to the list.\<close>

definition place :: "nat \<Rightarrow> u32 \<Rightarrow> u32 \<Rightarrow> rt_rbb \<Rightarrow> rt_rbb" where
  "place i buf sz r = upd_blk i (\<lambda>_. \<lparr>bk_status = RT_RBB_BLK_INITED, bk_size = ucast sz, bk_buf = buf\<rparr>)
     (r\<lparr>rb_list := rb_list r @ [i]\<rparr>)"

definition rt_rbb_blk_alloc :: "u32 \<Rightarrow> rt_rbb \<Rightarrow> (nat option \<times> rt_rbb) option" where
  "rt_rbb_blk_alloc sz r =
     (if 0x1000000 \<le> sz then None
      else case find_empty_blk_in_set r of
        None \<Rightarrow> Some (None, r)
      | Some i \<Rightarrow>
          if \<not> of_nat (length (rb_list r)) < rb_max r then Some (None, r)
          else if rb_list r = [] then Some (Some i, place i (rb_buf r) sz r)
          else
            let head = blk r (hd (rb_list r)); tail = blk r (last (rb_list r)); past = bk_buf tail + bytes tail
            in if bk_buf head \<le> bk_buf tail then
                 if sz \<le> rb_buf r + rb_size r - past then Some (Some i, place i past sz r)
                 else if sz \<le> bk_buf head - rb_buf r then Some (Some i, place i (rb_buf r) sz r)
                 else Some (None, r)
               else if sz \<le> bk_buf head - past then Some (Some i, place i past sz r)
               else Some (None, r))"

definition rt_rbb_blk_put :: "nat \<Rightarrow> rt_rbb \<Rightarrow> rt_rbb option" where
  "rt_rbb_blk_put i r =
     (if bk_status (blk r i) \<noteq> RT_RBB_BLK_INITED then None
      else Some (upd_blk i (\<lambda>b. b\<lparr>bk_status := RT_RBB_BLK_PUT\<rparr>) r))"

definition rt_rbb_blk_get :: "rt_rbb \<Rightarrow> nat option \<times> rt_rbb" where
  "rt_rbb_blk_get r =
     (case find (\<lambda>i. bk_status (blk r i) = RT_RBB_BLK_PUT) (rb_list r) of
        None \<Rightarrow> (None, r)
      | Some i \<Rightarrow> (Some i, upd_blk i (\<lambda>b. b\<lparr>bk_status := RT_RBB_BLK_GET\<rparr>) r))"

definition rt_rbb_blk_size :: "nat \<Rightarrow> rt_rbb \<Rightarrow> u32" where
  "rt_rbb_blk_size i r = bytes (blk r i)"

definition rt_rbb_blk_buf :: "nat \<Rightarrow> rt_rbb \<Rightarrow> u32" where
  "rt_rbb_blk_buf i r = bk_buf (blk r i)"

definition rt_rbb_blk_free :: "nat \<Rightarrow> rt_rbb \<Rightarrow> rt_rbb option" where
  "rt_rbb_blk_free i r =
     (if bk_status (blk r i) = RT_RBB_BLK_UNUSED then None
      else Some (upd_blk i (\<lambda>b. b\<lparr>bk_status := RT_RBB_BLK_UNUSED\<rparr>) (r\<lparr>rb_list := remove1 i (rb_list r)\<rparr>)))"

text \<open>The loop of \<^verbatim>\<open>rt_rbb_blk_queue_get\<close>, over the blocks still ahead; \<open>q\<close> is the queue of the caller, \<open>lst\<close> the last block taken.\<close>

definition queue_take :: "nat \<Rightarrow> rt_rbb \<Rightarrow> rt_rbb" where
  "queue_take i r = upd_blk i (\<lambda>b. b\<lparr>bk_status := RT_RBB_BLK_GET\<rparr>) (r\<lparr>rb_list := remove1 i (rb_list r)\<rparr>)"

fun queue_loop :: "u32 \<Rightarrow> nat list \<Rightarrow> nat option \<Rightarrow> u32 \<Rightarrow> rt_rbb_blk_queue \<Rightarrow> rt_rbb \<Rightarrow> u32 \<times> rt_rbb_blk_queue \<times> rt_rbb" where
  "queue_loop len [] lst tot q r = (tot, q, r)"
| "queue_loop len (i # nodes) None tot q r =
     (if bk_status (blk r i) = RT_RBB_BLK_PUT
      then queue_loop len nodes (Some i) (tot + bytes (blk r i)) \<lparr>bq_blocks = i, bq_num = 1\<rparr> (queue_take i r)
      else queue_loop len nodes None tot q r)"
| "queue_loop len (i # nodes) (Some j) tot q r =
     (if bk_status (blk r i) \<noteq> RT_RBB_BLK_PUT \<or> bk_buf (blk r i) < bk_buf (blk r j) \<or> len < tot + bytes (blk r i)
      then (tot, q, r)
      else queue_loop len nodes (Some i) (tot + bytes (blk r i)) (q\<lparr>bq_num := bq_num q + 1\<rparr>) (queue_take i r))"

definition rt_rbb_blk_queue_get :: "u32 \<Rightarrow> rt_rbb_blk_queue \<Rightarrow> rt_rbb \<Rightarrow> u32 \<times> rt_rbb_blk_queue \<times> rt_rbb" where
  "rt_rbb_blk_queue_get len q r = queue_loop len (rb_list r) None 0 q r"

definition queue_range :: "rt_rbb_blk_queue \<Rightarrow> nat list" where
  "queue_range q = [bq_blocks q ..< bq_blocks q + unat (bq_num q)]"

definition rt_rbb_blk_queue_len :: "rt_rbb_blk_queue \<Rightarrow> rt_rbb \<Rightarrow> u32 option" where
  "rt_rbb_blk_queue_len q r =
     (if length (rb_set r) < bq_blocks q + unat (bq_num q) then None
      else Some (sum_list (map (\<lambda>i. bytes (blk r i)) (queue_range q))))"

definition rt_rbb_blk_queue_buf :: "rt_rbb_blk_queue \<Rightarrow> rt_rbb \<Rightarrow> u32" where
  "rt_rbb_blk_queue_buf q r = bk_buf (blk r (bq_blocks q))"

fun free_all :: "nat list \<Rightarrow> rt_rbb \<Rightarrow> rt_rbb option" where
  "free_all [] r = Some r"
| "free_all (i # is) r = (if length (rb_set r) \<le> i then None else Option.bind (rt_rbb_blk_free i r) (free_all is))"

definition rt_rbb_blk_queue_free :: "rt_rbb_blk_queue \<Rightarrow> rt_rbb \<Rightarrow> rt_rbb option" where
  "rt_rbb_blk_queue_free q r = free_all (queue_range q) r"

fun next_queue_loop :: "rt_rbb \<Rightarrow> nat list \<Rightarrow> nat option \<Rightarrow> u32 \<Rightarrow> u32" where
  "next_queue_loop r [] lst tot = tot"
| "next_queue_loop r (i # nodes) None tot =
     (if bk_status (blk r i) = RT_RBB_BLK_PUT then next_queue_loop r nodes (Some i) (tot + bytes (blk r i))
      else next_queue_loop r nodes None tot)"
| "next_queue_loop r (i # nodes) (Some j) tot =
     (if bk_status (blk r i) \<noteq> RT_RBB_BLK_PUT \<or> bk_buf (blk r i) < bk_buf (blk r j) then tot
      else next_queue_loop r nodes (Some i) (tot + bytes (blk r i)))"

definition rt_rbb_next_blk_queue_len :: "rt_rbb \<Rightarrow> u32" where
  "rt_rbb_next_blk_queue_len r = next_queue_loop r (rb_list r) None 0"

definition rt_rbb_get_buf_size :: "rt_rbb \<Rightarrow> u32" where
  "rt_rbb_get_buf_size r = rb_size r"

section \<open>Areas in a ring\<close>

text \<open>Areas, given by start and size, that follow each other between two addresses.\<close>

fun ascends :: "nat \<Rightarrow> (nat \<times> nat) list \<Rightarrow> nat \<Rightarrow> bool" where
  "ascends lo [] hi \<longleftrightarrow> lo \<le> hi"
| "ascends lo ((a, n) # as) hi \<longleftrightarrow> lo \<le> a \<and> 0 < n \<and> ascends (a + n) as hi"

text \<open>In a ring they may start again from the front once, up to the first area.\<close>

definition ring_ok :: "nat \<Rightarrow> nat \<Rightarrow> (nat \<times> nat) list \<Rightarrow> bool" where
  "ring_ok lo hi as \<longleftrightarrow> (\<exists>m xs ys. as = xs @ ys \<and> ascends m xs hi \<and> ascends lo ys m)"

definition apart :: "nat \<times> nat \<Rightarrow> nat \<times> nat \<Rightarrow> bool" where
  "apart x y \<longleftrightarrow> fst x + snd x \<le> fst y \<or> fst y + snd y \<le> fst x"

lemma ascends_le: "ascends lo as hi \<Longrightarrow> lo \<le> hi"
  by (induction lo as hi rule: ascends.induct) auto

lemma ascends_weaken: "ascends lo as hi \<Longrightarrow> lo' \<le> lo \<Longrightarrow> hi \<le> hi' \<Longrightarrow> ascends lo' as hi'"
proof (induction lo as hi arbitrary: lo' rule: ascends.induct)
  case (2 lo a n as hi)
  then show ?case using 2(1)[of "a + n"] by auto
qed auto

lemma ascends_append: "ascends lo (xs @ ys) hi \<longleftrightarrow> (\<exists>m. ascends lo xs m \<and> ascends m ys hi)"
proof (induction xs arbitrary: lo)
  case Nil
  then show ?case using ascends_weaken[of _ ys hi lo] by (auto intro: exI[of _ lo])
next
  case (Cons x xs)
  then show ?case by (cases x) auto
qed

lemma ascends_member: "ascends lo as hi \<Longrightarrow> x \<in> set as \<Longrightarrow> lo \<le> fst x \<and> 0 < snd x \<and> fst x + snd x \<le> hi"
proof (induction lo as hi rule: ascends.induct)
  case (2 lo a n as hi)
  then show ?case using ascends_le[of "a + n" as hi] by auto
qed simp

lemma ascends_apart: "ascends lo as hi \<Longrightarrow> i < j \<Longrightarrow> j < length as \<Longrightarrow> fst (as ! i) + snd (as ! i) \<le> fst (as ! j)"
proof (induction lo as hi arbitrary: i j rule: ascends.induct)
  case (2 lo a n as hi)
  then obtain j' where j: "j = Suc j'" by (cases j) auto
  show ?case
  proof (cases i)
    case 0
    have "as ! j' \<in> set as" using 2(4) j by simp
    then show ?thesis using ascends_member[of "a + n" as hi] 2(2) 0 j by auto
  next
    case (Suc i')
    then show ?thesis using 2(1)[of i' j'] 2(2-4) j by simp
  qed
qed simp

lemma ascends_drop_one: "ascends lo (xs @ x # ys) hi \<Longrightarrow> ascends lo (xs @ ys) hi"
proof -
  obtain a n where x: "x = (a, n)" by (cases x)
  assume "ascends lo (xs @ x # ys) hi"
  then obtain m where m: "ascends lo xs m" "m \<le> a" "ascends (a + n) ys hi" by (auto simp: x ascends_append)
  have "ascends m ys hi" by (rule ascends_weaken[OF m(3)]) (use m(2) in simp_all)
  with m(1) show "ascends lo (xs @ ys) hi" by (auto simp: ascends_append)
qed

lemma ring_drop_one: "ring_ok lo hi (as @ x # bs) \<Longrightarrow> ring_ok lo hi (as @ bs)"
proof -
  assume "ring_ok lo hi (as @ x # bs)"
  then obtain m xs ys where e: "as @ x # bs = xs @ ys" "ascends m xs hi" "ascends lo ys m" by (auto simp: ring_ok_def)
  then consider zs where "xs = as @ x # zs" "bs = zs @ ys" | zs where "as = xs @ zs" "ys = zs @ x # bs"
    by (auto simp: append_eq_append_conv2 append_eq_Cons_conv Cons_eq_append_conv)
  then show ?thesis
  proof cases
    case 1
    then show ?thesis using e(2,3) ascends_drop_one[of m as x zs hi] unfolding ring_ok_def by (intro exI[of _ m] exI[of _ "as @ zs"] exI[of _ ys]) simp
  next
    case 2
    then show ?thesis using e(2,3) ascends_drop_one[of lo zs x bs m] unfolding ring_ok_def by (intro exI[of _ m] exI[of _ xs] exI[of _ "zs @ bs"]) simp
  qed
qed

lemma ring_member: "ring_ok lo hi as \<Longrightarrow> x \<in> set as \<Longrightarrow> lo \<le> fst x \<and> 0 < snd x \<and> fst x + snd x \<le> hi"
proof -
  assume "ring_ok lo hi as" "x \<in> set as"
  then obtain m xs ys where e: "ascends m xs hi" "ascends lo ys m" "x \<in> set xs \<or> x \<in> set ys" by (auto simp: ring_ok_def)
  then show ?thesis using ascends_member[OF e(1), of x] ascends_member[OF e(2), of x] ascends_le[OF e(1)] ascends_le[OF e(2)] by auto
qed

lemma ring_apart: "ring_ok lo hi as \<Longrightarrow> i < j \<Longrightarrow> j < length as \<Longrightarrow> apart (as ! i) (as ! j)"
proof -
  assume "ring_ok lo hi as" and ij: "i < j" "j < length as"
  then obtain m xs ys where e: "as = xs @ ys" "ascends m xs hi" "ascends lo ys m" by (auto simp: ring_ok_def)
  consider "j < length xs" | "length xs \<le> i" | "i < length xs" "length xs \<le> j" by linarith
  then show ?thesis
  proof cases
    case 1
    then show ?thesis using ascends_apart[OF e(2), of i j] ij by (simp add: e(1) nth_append apart_def)
  next
    case 2
    then show ?thesis using ascends_apart[OF e(3), of "i - length xs" "j - length xs"] ij by (simp add: e(1) nth_append apart_def)
  next
    case 3
    have "as ! i \<in> set xs" "as ! j \<in> set ys" using 3 ij by (simp_all add: e(1) nth_append)
    then show ?thesis using ascends_member[OF e(2)] ascends_member[OF e(3)] by (fastforce simp: apart_def)
  qed
qed

text \<open>The order of first and last area tells the two shapes apart, and says where room is.\<close>

lemma ring_shape:
  assumes "ring_ok lo hi as" "as \<noteq> []"
  shows "fst (hd as) \<le> fst (last as) \<Longrightarrow> ascends lo as hi"
    "\<not> fst (hd as) \<le> fst (last as) \<Longrightarrow> \<exists>xs ys. as = xs @ ys \<and> xs \<noteq> [] \<and> ys \<noteq> [] \<and> ascends (fst (hd as)) xs hi \<and> ascends lo ys (fst (hd as))"
proof -
  obtain m xs ys where e: "as = xs @ ys" "ascends m xs hi" "ascends lo ys m" using assms(1) by (auto simp: ring_ok_def)
  have m: "lo \<le> m" "m \<le> hi" using ascends_le[OF e(2)] ascends_le[OF e(3)] by auto
  have wrapped: "fst (last as) < m" "m \<le> fst (hd as)" if "xs \<noteq> []" "ys \<noteq> []"
  proof -
    have "hd as \<in> set xs" "last as \<in> set ys" using that by (simp_all add: e(1))
    then show "fst (last as) < m" "m \<le> fst (hd as)" using ascends_member[OF e(2)] ascends_member[OF e(3)] by fastforce+
  qed
  have linear: "ascends lo as hi" if "xs = [] \<or> ys = []"
    using that e m ascends_weaken[OF e(2) m(1) order_refl] ascends_weaken[OF e(3) order_refl m(2)] by auto
  show "ascends lo as hi" if "fst (hd as) \<le> fst (last as)" using wrapped linear that by fastforce
  show "\<exists>xs ys. as = xs @ ys \<and> xs \<noteq> [] \<and> ys \<noteq> [] \<and> ascends (fst (hd as)) xs hi \<and> ascends lo ys (fst (hd as))"
    if n: "\<not> fst (hd as) \<le> fst (last as)"
  proof -
    have "xs \<noteq> []" "ys \<noteq> []"
    proof -
      have "\<not> ascends lo as hi"
      proof
        assume a: "ascends lo as hi"
        show False
        proof (cases "length as = 1")
          case True
          then show ?thesis using n by (auto simp: length_Suc_conv)
        next
          case False
          then have "0 < length as - 1" using assms(2) by (cases as) auto
          from ascends_apart[OF a this] n show ?thesis using assms(2) by (simp add: hd_conv_nth last_conv_nth)
        qed
      qed
      then show "xs \<noteq> []" "ys \<noteq> []" using linear by auto
    qed
    moreover have "ascends (fst (hd as)) xs hi" using e(2) \<open>xs \<noteq> []\<close> by (cases xs) (auto simp: e(1))
    moreover have "ascends lo ys (fst (hd as))" using ascends_weaken[OF e(3) order_refl wrapped(2)] \<open>xs \<noteq> []\<close> \<open>ys \<noteq> []\<close> by simp
    ultimately show ?thesis using e(1) by blast
  qed
qed

text \<open>The three places for a new area: behind the last one, at the front, and between the last and the first one.\<close>

lemma ascends_behind:
  assumes "ascends lo as hi'" "as \<noteq> []" "p = fst (last as) + snd (last as)" "p + n \<le> hi" "0 < n"
  shows "ascends lo (as @ [(p, n)]) hi"
proof -
  obtain a k where e: "as = butlast as @ [(a, k)]" "p = a + k"
    using assms(2,3) by (metis append_butlast_last_id prod.collapse)
  have "ascends lo (butlast as @ [(a, k)]) hi'" using assms(1) e(1) by simp
  then have "ascends lo (butlast as @ [(a, k)]) p" using e(2) by (auto simp: ascends_append)
  then have "ascends lo as p" using e(1) by simp
  then show ?thesis unfolding ascends_append using assms(4,5) by (intro exI[of _ p]) simp
qed

lemma ring_behind:
  assumes "ring_ok lo hi as" "as \<noteq> []" "fst (hd as) \<le> fst (last as)" "fst (last as) + snd (last as) + n \<le> hi" "0 < n"
  shows "ring_ok lo hi (as @ [(fst (last as) + snd (last as), n)])"
proof -
  note a = ring_shape(1)[OF assms(1-3)]
  have "ascends hi [] hi" by simp
  then show ?thesis using ascends_behind[OF a assms(2) refl assms(4,5)] unfolding ring_ok_def
    by (intro exI[of _ hi] exI[of _ "[]"] exI[of _ "as @ [(fst (last as) + snd (last as), n)]"]) simp
qed

lemma ring_front:
  assumes "ring_ok lo hi as" "as \<noteq> []" "fst (hd as) \<le> fst (last as)" "lo + n \<le> fst (hd as)" "0 < n"
  shows "ring_ok lo hi (as @ [(lo, n)])"
proof -
  have "ascends (fst (hd as)) as hi" using ring_shape(1)[OF assms(1-3)] assms(2) by (cases as) auto
  moreover have "ascends lo [(lo, n)] (fst (hd as))" using assms(4,5) by simp
  ultimately show ?thesis unfolding ring_ok_def by blast
qed

lemma ring_between:
  assumes "ring_ok lo hi as" "as \<noteq> []" "\<not> fst (hd as) \<le> fst (last as)"
  shows "fst (last as) + snd (last as) \<le> fst (hd as)"
    "fst (last as) + snd (last as) + n \<le> fst (hd as) \<Longrightarrow> 0 < n \<Longrightarrow> ring_ok lo hi (as @ [(fst (last as) + snd (last as), n)])"
proof -
  obtain xs ys where e: "as = xs @ ys" "ys \<noteq> []" "ascends (fst (hd as)) xs hi" "ascends lo ys (fst (hd as))"
    using ring_shape(2)[OF assms] by blast
  have l: "last ys = last as" using e(1,2) by simp
  show "fst (last as) + snd (last as) \<le> fst (hd as)" using ascends_member[OF e(4) last_in_set[OF e(2)], unfolded l] by linarith
  show "ring_ok lo hi (as @ [(fst (last as) + snd (last as), n)])"
    if "fst (last as) + snd (last as) + n \<le> fst (hd as)" "0 < n"
  proof -
    have "ascends lo (ys @ [(fst (last as) + snd (last as), n)]) (fst (hd as))"
      by (rule ascends_behind[OF e(4,2)]) (use that l in simp_all)
    then have "ring_ok lo hi (xs @ ys @ [(fst (last as) + snd (last as), n)])" unfolding ring_ok_def using e(3) by blast
    then show ?thesis using e(1) by simp
  qed
qed

section \<open>The invariant\<close>

definition area :: "rt_rbb \<Rightarrow> nat \<Rightarrow> nat \<times> nat" where
  "area r i = (unat (bk_buf (blk r i)), unat (bytes (blk r i)))"

definition used :: "rt_rbb \<Rightarrow> nat \<Rightarrow> bool" where
  "used r i \<longleftrightarrow> i < unat (rb_max r) \<and> bk_status (blk r i) \<noteq> RT_RBB_BLK_UNUSED"

definition low :: "rt_rbb \<Rightarrow> nat" where "low r = unat (rb_buf r)"
definition high :: "rt_rbb \<Rightarrow> nat" where "high r = unat (rb_buf r) + unat (rb_size r)"

definition rbb_inv :: "rt_rbb \<Rightarrow> bool" where
  "rbb_inv r \<longleftrightarrow> high r < 4294967296 \<and> unat (rb_max r) \<le> length (rb_set r) \<and> distinct (rb_list r) \<and>
     (\<forall>i\<in>set (rb_list r). used r i) \<and> ring_ok (low r) (high r) (map (area r) (rb_list r))"

text \<open>Every block in use is in the list.\<close>

definition all_listed :: "rt_rbb \<Rightarrow> bool" where
  "all_listed r \<longleftrightarrow> (\<forall>i. used r i \<longrightarrow> i \<in> set (rb_list r))"

lemma upd_blk_sel [simp]:
  "rb_buf (upd_blk i f r) = rb_buf r" "rb_size (upd_blk i f r) = rb_size r" "rb_max (upd_blk i f r) = rb_max r"
  "rb_list (upd_blk i f r) = rb_list r" "length (rb_set (upd_blk i f r)) = length (rb_set r)"
  "j \<noteq> i \<Longrightarrow> blk (upd_blk i f r) j = blk r j" "i < length (rb_set r) \<Longrightarrow> blk (upd_blk i f r) i = f (blk r i)"
  by (simp_all add: upd_blk_def)

lemma upd_blk_beyond: "\<not> i < length (rb_set r) \<Longrightarrow> upd_blk i f r = r"
  by (simp add: upd_blk_def list_update_beyond)

lemma low_high_cong: "rb_buf r' = rb_buf r \<Longrightarrow> rb_size r' = rb_size r \<Longrightarrow> low r' = low r \<and> high r' = high r"
  by (simp add: low_def high_def)

text \<open>A change of the status alone leaves the areas where they are.\<close>

definition set_status :: "rt_rbb_status \<Rightarrow> rt_rbb_blk \<Rightarrow> rt_rbb_blk" where
  "set_status x b = b\<lparr>bk_status := x\<rparr>"

lemma area_status: "area (upd_blk i (set_status x) r) j = area r j"
  by (cases "i < length (rb_set r)"; cases "j = i") (simp_all add: area_def bytes_def upd_blk_beyond set_status_def)

lemma inv_status:
  assumes "rbb_inv r" "x \<noteq> RT_RBB_BLK_UNUSED"
  shows "rbb_inv (upd_blk i (set_status x) r)"
proof -
  have "used (upd_blk i (set_status x) r) j" if "used r j" for j
    using that assms(2) by (cases "i < length (rb_set r)"; cases "j = i") (simp_all add: used_def upd_blk_beyond set_status_def)
  then show ?thesis using assms(1) low_high_cong[of "upd_blk i (set_status x) r" r] area_status by (simp add: rbb_inv_def cong: map_cong)
qed

lemma listed_status:
  assumes "all_listed r" "used r i"
  shows "all_listed (upd_blk i (set_status x) r)"
  unfolding all_listed_def
proof safe
  fix j
  assume "used (upd_blk i (set_status x) r) j"
  then show "j \<in> set (rb_list (upd_blk i (set_status x) r))"
    using assms by (cases "j = i") (auto simp: used_def all_listed_def)
qed

lemma ring_remove1:
  assumes "ring_ok lo hi (map f xs)"
  shows "ring_ok lo hi (map f (remove1 i xs))"
proof (cases "i \<in> set xs")
  case True
  then obtain as bs where e: "xs = as @ i # bs" "i \<notin> set as" by (meson split_list_first)
  then have "remove1 i xs = as @ bs" by (simp add: remove1_append)
  with ring_drop_one[of lo hi "map f as" "f i" "map f bs"] assms e show ?thesis by simp
qed (use assms in \<open>simp add: remove1_idem\<close>)

lemma inv_remove:
  assumes "rbb_inv r"
  shows "rbb_inv (r\<lparr>rb_list := remove1 i (rb_list r)\<rparr>)"
proof -
  have "area (r\<lparr>rb_list := l\<rparr>) = area r" "used (r\<lparr>rb_list := l\<rparr>) = used r" for l by (simp_all add: area_def used_def fun_eq_iff)
  then show ?thesis using assms ring_remove1 set_remove1_subset[of i "rb_list r"] by (auto simp: rbb_inv_def low_def high_def)
qed

text \<open>A status may become free once the block is not in the list.\<close>

lemma inv_unused:
  assumes "rbb_inv r" "i \<notin> set (rb_list r)"
  shows "rbb_inv (upd_blk i (set_status x) r)"
proof -
  have "used (upd_blk i (set_status x) r) j" if "used r j" "j \<noteq> i" for j
    using that by (simp add: used_def)
  then have "\<forall>j\<in>set (rb_list r). used (upd_blk i (set_status x) r) j" using assms by (metis rbb_inv_def)
  then show ?thesis using assms low_high_cong[of "upd_blk i (set_status x) r" r] area_status
    by (simp add: rbb_inv_def cong: map_cong)
qed

lemma free_inv:
  assumes "rbb_inv r" "rt_rbb_blk_free i r = Some r'"
  shows "rbb_inv r'" "i < unat (rb_max r) \<Longrightarrow> all_listed r \<Longrightarrow> all_listed r'"
proof -
  let ?u = "r\<lparr>rb_list := remove1 i (rb_list r)\<rparr>"
  have r': "r' = upd_blk i (set_status RT_RBB_BLK_UNUSED) ?u"
    using assms(2) by (auto simp: rt_rbb_blk_free_def set_status_def [abs_def] split: if_splits)
  have d: "distinct (rb_list r)" "unat (rb_max r) \<le> length (rb_set r)" using assms(1) by (simp_all add: rbb_inv_def)
  then show "rbb_inv r'" unfolding r' by (intro inv_unused inv_remove assms(1)) simp
  show "all_listed r'" if "i < unat (rb_max r)" "all_listed r"
    unfolding all_listed_def
  proof safe
    fix j
    assume "used r' j"
    then have "j \<noteq> i \<and> used r j" using that(1) d(2) by (cases "j = i") (simp_all add: used_def r' set_status_def)
    then show "j \<in> set (rb_list r')" using that(2) d(1) by (simp add: r' all_listed_def)
  qed
qed

lemma put_inv:
  assumes "rbb_inv r" "rt_rbb_blk_put i r = Some r'"
  shows "rbb_inv r'" "i < unat (rb_max r) \<Longrightarrow> all_listed r \<Longrightarrow> all_listed r'"
proof -
  have r': "r' = upd_blk i (set_status RT_RBB_BLK_PUT) r" and s: "bk_status (blk r i) = RT_RBB_BLK_INITED"
    using assms(2) by (auto simp: rt_rbb_blk_put_def set_status_def [abs_def] split: if_splits)
  show "rbb_inv r'" unfolding r' by (rule inv_status[OF assms(1)]) simp
  show "all_listed r'" if "i < unat (rb_max r)" "all_listed r"
    unfolding r' by (rule listed_status[OF that(2)]) (simp add: used_def that(1) s)
qed

lemma get_inv:
  assumes "rbb_inv r" "rt_rbb_blk_get r = (x, r')"
  shows "rbb_inv r'" "all_listed r \<Longrightarrow> all_listed r'"
proof -
  have "r' = r \<or> (\<exists>i\<in>set (rb_list r). r' = upd_blk i (set_status RT_RBB_BLK_GET) r)"
    using assms(2) by (auto simp: rt_rbb_blk_get_def set_status_def [abs_def] find_Some_iff split: option.splits)
  then show "rbb_inv r'" "all_listed r \<Longrightarrow> all_listed r'"
    using assms(1) inv_status[OF assms(1)] listed_status[of r] by (auto simp: rbb_inv_def)
qed

lemma take_inv: "rbb_inv r \<Longrightarrow> rbb_inv (queue_take i r)"
proof -
  assume a: "rbb_inv r"
  have "queue_take i r = upd_blk i (set_status RT_RBB_BLK_GET) (r\<lparr>rb_list := remove1 i (rb_list r)\<rparr>)"
    by (simp add: queue_take_def set_status_def [abs_def])
  then show ?thesis using inv_unused[OF inv_remove[OF a], of i i] a by (simp add: rbb_inv_def)
qed

lemma queue_loop_inv: "rbb_inv r \<Longrightarrow> rbb_inv (snd (snd (queue_loop len nodes lst tot q r)))"
  by (induction len nodes lst tot q r rule: queue_loop.induct) (auto simp: take_inv)

lemma rbb_init_inv:
  assumes "rt_rbb_init buf sz bs n = Some r" "unat buf + unat sz < 4294967296"
  shows "rbb_inv r" "all_listed r" "rb_list r = []"
proof -
  have ring: "ring_ok lo (lo + n) []" for lo n by (auto simp: ring_ok_def intro: le_add1)
  show "rbb_inv r" "all_listed r" "rb_list r = []"
    using assms ring[of "unat buf" "unat sz"]
    by (auto simp: rt_rbb_init_def rbb_inv_def all_listed_def used_def low_def high_def nth_append split: if_splits)
qed

section \<open>Allocation\<close>

lemma bytes_small: "sz < 0x1000000 \<Longrightarrow> bytes \<lparr>bk_status = x, bk_size = ucast sz, bk_buf = b\<rparr> = sz"
proof -
  assume "sz < 0x1000000"
  then have "unat sz < 2 ^ 24" by (simp add: word_less_nat_alt)
  then have "unat (ucast (ucast sz :: 24 word) :: u32) = unat sz"
    by (simp add: unsigned_ucast_eq unsigned_take_bit_eq take_bit_nat_eq_self)
  then show ?thesis unfolding bytes_def rt_rbb_blk.simps by (simp only: word_unat_eq_iff)
qed

text \<open>What a successful allocation at address \<open>b\<close> makes of the invariant.\<close>

lemma place_inv:
  assumes "rbb_inv r" "i < unat (rb_max r)" "\<not> used r i" "sz < 0x1000000"
    "ring_ok (low r) (high r) (map (area r) (rb_list r) @ [(unat b, unat sz)])"
  defines "r' \<equiv> place i b sz r"
  shows "rbb_inv r'" "all_listed r \<Longrightarrow> all_listed r'" "used r' i" "area r' i = (unat b, unat sz)" "j \<noteq> i \<Longrightarrow> blk r' j = blk r j"
    "rb_list r' = rb_list r @ [i]" "rb_max r' = rb_max r" "rb_buf r' = rb_buf r" "rb_size r' = rb_size r" "length (rb_set r') = length (rb_set r)"
proof -
  note d = assms(1)[unfolded rbb_inv_def]
  have i: "i < length (rb_set r)" "i \<notin> set (rb_list r)" using d assms(2,3) by auto
  show o: "blk r' j = blk r j" if "j \<noteq> i" for j using that by (simp add: r'_def place_def)
  show s: "rb_list r' = rb_list r @ [i]" "rb_max r' = rb_max r" "rb_buf r' = rb_buf r" "rb_size r' = rb_size r" "length (rb_set r') = length (rb_set r)"
    by (simp_all add: r'_def place_def)
  have b: "blk r' i = \<lparr>bk_status = RT_RBB_BLK_INITED, bk_size = ucast sz, bk_buf = b\<rparr>" using i(1) by (simp add: r'_def place_def)
  show u: "used r' i" using assms(2) by (simp add: used_def b s)
  show a: "area r' i = (unat b, unat sz)" by (simp add: area_def b bytes_small[OF assms(4)])
  have am: "map (area r') (rb_list r) = map (area r) (rb_list r)"
  proof (rule map_cong[OF refl])
    fix j
    assume "j \<in> set (rb_list r)"
    then have "j \<noteq> i" using i(2) by auto
    then show "area r' j = area r j" by (simp add: area_def o)
  qed
  have uo: "used r' j \<longleftrightarrow> used r j" if "j \<noteq> i" for j using o[OF that] by (simp add: used_def s)
  have uu: "used r' j" if "j \<in> set (rb_list r)" for j using that d u uo[of j] by (cases "j = i") auto
  show "rbb_inv r'" using d assms(5) i(2) u uu low_high_cong[OF s(3,4)] by (auto simp: rbb_inv_def s am a simp del: map_eq_conv)
  show "all_listed r'" if "all_listed r"
    unfolding all_listed_def
  proof safe
    fix j
    assume "used r' j"
    then show "j \<in> set (rb_list r')" using that uo[of j] by (cases "j = i") (auto simp: all_listed_def s)
  qed
qed


text \<open>The sizes that the code computes, when the blocks are in a ring.\<close>

lemma alloc_sizes:
  assumes "rbb_inv r" "rb_list r \<noteq> []"
  defines "h \<equiv> blk r (hd (rb_list r))" and "t \<equiv> blk r (last (rb_list r))" and "as \<equiv> map (area r) (rb_list r)"
  shows "unat (bk_buf h) = fst (hd as)" "unat (bk_buf t) = fst (last as)" "unat (bk_buf t + bytes t) = fst (last as) + snd (last as)"
    "unat (rb_buf r + rb_size r - (bk_buf t + bytes t)) = high r - (fst (last as) + snd (last as))"
    "unat (bk_buf h - rb_buf r) = fst (hd as) - low r" "low r \<le> fst (hd as)" "fst (last as) + snd (last as) \<le> high r"
    "fst (last as) + snd (last as) \<le> fst (hd as) \<Longrightarrow> unat (bk_buf h - (bk_buf t + bytes t)) = fst (hd as) - (fst (last as) + snd (last as))"
proof -
  have ne: "as \<noteq> []" using assms(2) by (simp add: as_def)
  have ring: "ring_ok (low r) (high r) as" and hi: "high r < 4294967296" using assms(1) by (simp_all add: rbb_inv_def as_def)
  show h: "unat (bk_buf h) = fst (hd as)" and t: "unat (bk_buf t) = fst (last as)"
    using assms(2) by (simp_all add: h_def t_def as_def area_def hd_map last_map)
  have tb: "unat (bytes t) = snd (last as)" using assms(2) by (simp add: t_def as_def area_def last_map)
  show me: "low r \<le> fst (hd as)" "fst (last as) + snd (last as) \<le> high r"
    using ring_member[OF ring hd_in_set[OF ne]] ring_member[OF ring last_in_set[OF ne]] by linarith+
  show past: "unat (bk_buf t + bytes t) = fst (last as) + snd (last as)" using me(2) hi t tb by (simp add: unat_word_ariths)
  have "unat (rb_buf r + rb_size r) = high r" using hi by (simp add: high_def unat_word_ariths)
  then show "unat (rb_buf r + rb_size r - (bk_buf t + bytes t)) = high r - (fst (last as) + snd (last as))"
    using me(2) past by (simp add: unat_sub word_le_nat_alt)
  show "unat (bk_buf h - rb_buf r) = fst (hd as) - low r" using me(1) h by (simp add: unat_sub word_le_nat_alt low_def)
  show "unat (bk_buf h - (bk_buf t + bytes t)) = fst (hd as) - (fst (last as) + snd (last as))"
    if "fst (last as) + snd (last as) \<le> fst (hd as)" using that past h by (simp add: unat_sub word_le_nat_alt)
qed

lemma alloc_place:
  assumes "rbb_inv r" "0 < sz" "sz \<le> rb_size r" "sz < 0x1000000"
  shows "rt_rbb_blk_alloc sz r = Some (None, r) \<or>
    (\<exists>i b. rt_rbb_blk_alloc sz r = Some (Some i, place i b sz r) \<and> i < unat (rb_max r) \<and> \<not> used r i \<and>
       ring_ok (low r) (high r) (map (area r) (rb_list r) @ [(unat b, unat sz)]))"
proof (cases "find_empty_blk_in_set r")
  case None
  then show ?thesis using assms(4) by (simp add: rt_rbb_blk_alloc_def)
next
  case (Some i)
  then have i: "i < unat (rb_max r)" "\<not> used r i"
    by (auto simp: find_empty_blk_in_set_def used_def find_Some_iff)
  let ?l = "rb_list r"
  let ?as = "map (area r) ?l"
  let ?h = "blk r (hd ?l)" and ?t = "blk r (last ?l)"
  let ?past = "bk_buf ?t + bytes ?t"
  note alloc = rt_rbb_blk_alloc_def[of sz r] Some assms(4)[unfolded not_le[symmetric]] Let_def
  have sz: "0 < unat sz" "unat sz \<le> unat (rb_size r)" using assms(2,3) by (simp_all add: word_less_nat_alt word_le_nat_alt)
  consider "\<not> of_nat (length ?l) < rb_max r" | "of_nat (length ?l) < rb_max r" "?l = []" | "of_nat (length ?l) < rb_max r" "?l \<noteq> []" by blast
  then show ?thesis
  proof cases
    case 2
    have "ascends (high r) [] (high r)" "ascends (low r) [(unat (rb_buf r), unat sz)] (high r)" using sz by (simp_all add: low_def high_def)
    then have "ring_ok (low r) (high r) (map (area r) ?l @ [(unat (rb_buf r), unat sz)])"
      unfolding ring_ok_def 2(2) list.map append_Nil by (metis append_Nil)
    moreover have "rt_rbb_blk_alloc sz r = Some (Some i, place i (rb_buf r) sz r)" using 2 by (simp add: alloc)
    ultimately show ?thesis using i by blast
  next
    case 3
    then have ne: "?as \<noteq> []" by simp
    have ring: "ring_ok (low r) (high r) ?as" using assms(1) by (simp add: rbb_inv_def)
    note z = alloc_sizes[OF assms(1) 3(2)]
    let ?c1 = "sz \<le> rb_buf r + rb_size r - ?past" and ?c2 = "sz \<le> bk_buf ?h - rb_buf r" and ?c3 = "sz \<le> bk_buf ?h - ?past"
    show ?thesis
    proof (cases "bk_buf ?h \<le> bk_buf ?t")
      case lin: True
      then have le: "fst (hd ?as) \<le> fst (last ?as)" by (simp add: word_le_nat_alt z(1,2))
      have "ring_ok (low r) (high r) (?as @ [(unat ?past, unat sz)])" if ?c1
        unfolding z(3) by (rule ring_behind[OF ring ne le _ sz(1)]) (use that z(4,7) in \<open>simp add: word_le_nat_alt\<close>)
      moreover have "ring_ok (low r) (high r) (?as @ [(unat (rb_buf r), unat sz)])" if ?c2
        unfolding low_def[symmetric] by (rule ring_front[OF ring ne le _ sz(1)]) (use that z(5,6) in \<open>simp add: word_le_nat_alt\<close>)
      moreover have "rt_rbb_blk_alloc sz r = (if ?c1 then Some (Some i, place i ?past sz r)
          else if ?c2 then Some (Some i, place i (rb_buf r) sz r) else Some (None, r))"
        using 3 lin by (simp add: alloc)
      ultimately show ?thesis using i by auto
    next
      case wrap: False
      then have le: "\<not> fst (hd ?as) \<le> fst (last ?as)" by (simp add: word_le_nat_alt z(1,2))
      note b = ring_between[OF ring ne le]
      have "ring_ok (low r) (high r) (?as @ [(unat ?past, unat sz)])" if ?c3
        unfolding z(3) by (rule b(2)[OF _ sz(1)]) (use that b(1) z(8) in \<open>simp add: word_le_nat_alt\<close>)
      moreover have "rt_rbb_blk_alloc sz r = (if ?c3 then Some (Some i, place i ?past sz r) else Some (None, r))"
        using 3 wrap by (simp add: alloc)
      ultimately show ?thesis using i by auto
    qed
  qed (use Some assms(4) in \<open>simp add: rt_rbb_blk_alloc_def\<close>)
qed

section \<open>What a user reaches\<close>

text \<open>The operations on single blocks, with sizes that are positive and fit the buffer; with \<open>qs\<close> also the block queues.\<close>

inductive rbb_reach :: "bool \<Rightarrow> rt_rbb \<Rightarrow> bool" for qs where
  init: "rt_rbb_init buf sz bs n = Some r \<Longrightarrow> unat buf + unat sz < 4294967296 \<Longrightarrow> rbb_reach qs r"
| alloc: "rbb_reach qs r \<Longrightarrow> 0 < sz \<Longrightarrow> sz \<le> rb_size r \<Longrightarrow> rt_rbb_blk_alloc sz r = Some (x, r') \<Longrightarrow> rbb_reach qs r'"
| put: "rbb_reach qs r \<Longrightarrow> i < unat (rb_max r) \<Longrightarrow> rt_rbb_blk_put i r = Some r' \<Longrightarrow> rbb_reach qs r'"
| get: "rbb_reach qs r \<Longrightarrow> rt_rbb_blk_get r = (x, r') \<Longrightarrow> rbb_reach qs r'"
| free: "rbb_reach qs r \<Longrightarrow> i < unat (rb_max r) \<Longrightarrow> rt_rbb_blk_free i r = Some r' \<Longrightarrow> rbb_reach qs r'"
| queue: "rbb_reach qs r \<Longrightarrow> qs \<Longrightarrow> rt_rbb_blk_queue_get len q r = (n, q', r') \<Longrightarrow> rbb_reach qs r'"

lemma alloc_inv:
  assumes "rbb_inv r" "0 < sz" "sz \<le> rb_size r" "rt_rbb_blk_alloc sz r = Some (x, r')"
  shows "rbb_inv r'" "all_listed r \<Longrightarrow> all_listed r'"
    "x = None \<Longrightarrow> r' = r"
    "x = Some i \<Longrightarrow> \<not> used r i \<and> used r' i \<and> snd (area r' i) = unat sz \<and> (\<forall>j. j \<noteq> i \<longrightarrow> blk r' j = blk r j)"
proof -
  have sz: "sz < 0x1000000" using assms(4) by (auto simp: rt_rbb_blk_alloc_def not_le split: if_splits)
  consider "x = None" "r' = r" | i' b where "x = Some i'" "r' = place i' b sz r" "i' < unat (rb_max r)" "\<not> used r i'"
      "ring_ok (low r) (high r) (map (area r) (rb_list r) @ [(unat b, unat sz)])"
    using alloc_place[OF assms(1-3) sz] assms(4) by auto
  then have "rbb_inv r' \<and> (all_listed r \<longrightarrow> all_listed r') \<and> (x = None \<longrightarrow> r' = r) \<and>
    (x = Some i \<longrightarrow> \<not> used r i \<and> used r' i \<and> snd (area r' i) = unat sz \<and> (\<forall>j. j \<noteq> i \<longrightarrow> blk r' j = blk r j))"
  proof cases
    case (2 i' b)
    note p = place_inv[OF assms(1) 2(3,4) sz 2(5)]
    show ?thesis using p(1-4) p(5)[of _] 2 by auto
  qed (use assms(1) in simp)
  then show "rbb_inv r'" "all_listed r \<Longrightarrow> all_listed r'" "x = None \<Longrightarrow> r' = r"
    "x = Some i \<Longrightarrow> \<not> used r i \<and> used r' i \<and> snd (area r' i) = unat sz \<and> (\<forall>j. j \<noteq> i \<longrightarrow> blk r' j = blk r j)"
    by auto
qed

lemma reach_inv: "rbb_reach qs r \<Longrightarrow> rbb_inv r \<and> (qs \<or> all_listed r)"
proof (induction rule: rbb_reach.induct)
  case (queue r len q n q' r')
  then show ?case using queue_loop_inv[of r len "rb_list r" None 0 q] by (simp add: rt_rbb_blk_queue_get_def)
next
  case (init buf sz bs n r)
  then show ?case using rbb_init_inv by blast
next
  case (alloc r sz x r')
  then show ?case using alloc_inv(1,2)[OF _ alloc(2-4)] by blast
next
  case (put r i r')
  then show ?case using put_inv[OF _ put(3)] by blast
next
  case (get r x r')
  then show ?case using get_inv[OF _ get(2)] by blast
next
  case (free r i r')
  then show ?case using free_inv[OF _ free(3)] by blast
qed

lemma listed_apart:
  assumes "rbb_inv r" "i \<in> set (rb_list r)" "j \<in> set (rb_list r)" "i \<noteq> j"
  shows "apart (area r i) (area r j)"
proof -
  obtain a b where ab: "a < length (rb_list r)" "b < length (rb_list r)" "rb_list r ! a = i" "rb_list r ! b = j"
    using assms(2,3) by (auto simp: in_set_conv_nth)
  have ring: "ring_ok (low r) (high r) (map (area r) (rb_list r))" using assms(1) by (simp add: rbb_inv_def)
  have "a \<noteq> b" using ab assms(4) by auto
  then have "a < b \<or> b < a" by linarith
  then show ?thesis using ring_apart[OF ring, of a b] ring_apart[OF ring, of b a] ab by (auto simp: apart_def)
qed

lemma listed_inside:
  assumes "rbb_inv r" "i \<in> set (rb_list r)"
  shows "low r \<le> fst (area r i)" "fst (area r i) + snd (area r i) \<le> high r"
  using ring_member[of "low r" "high r" "map (area r) (rb_list r)" "area r i"] assms by (auto simp: rbb_inv_def)

text \<open>C20: The blocks of a ring block buffer never overlap: whatever is allocated (with positive sizes up to that of the buffer), put, got and
  freed, in any order, all blocks in use lie inside the buffer and pairwise apart, and an allocation answers with a block that was not in
  use and has the size asked for, and leaves all the others as they are.\<close>

theorem rbb_blocks_apart:
  assumes "rbb_reach False r" "used r i"
  shows "low r \<le> fst (area r i) \<and> fst (area r i) + snd (area r i) \<le> high r \<and>
    (\<forall>j. used r j \<longrightarrow> j \<noteq> i \<longrightarrow> apart (area r i) (area r j)) \<and>
    (\<forall>sz k r'. 0 < sz \<longrightarrow> sz \<le> rb_size r \<longrightarrow> rt_rbb_blk_alloc sz r = Some (Some k, r') \<longrightarrow>
       k \<noteq> i \<and> snd (area r' k) = unat sz \<and> blk r' i = blk r i \<and> apart (area r' k) (area r i))"
proof (intro conjI allI impI)
  have inv: "rbb_inv r" "all_listed r" using reach_inv[OF assms(1)] by auto
  then have l: "i \<in> set (rb_list r)" using assms(2) by (simp add: all_listed_def)
  show "low r \<le> fst (area r i)" "fst (area r i) + snd (area r i) \<le> high r" using listed_inside[OF inv(1) l] by simp_all
  show "apart (area r i) (area r j)" if "used r j" "j \<noteq> i" for j using listed_apart[OF inv(1) l, of j] inv(2) that by (simp add: all_listed_def)
  fix sz k r'
  assume a: "0 < sz" "sz \<le> rb_size r" "rt_rbb_blk_alloc sz r = Some (Some k, r')"
  note n = alloc_inv[OF inv(1) a]
  show k: "k \<noteq> i" using n(4)[OF refl] assms(2) by auto
  then show e: "blk r' i = blk r i" using n(4)[OF refl] by auto
  show "snd (area r' k) = unat sz" using n(4)[OF refl] by auto
  have "rb_max r' = rb_max r" using a(3) by (auto simp: rt_rbb_blk_alloc_def place_def Let_def split: if_splits option.splits)
  then have "used r' i" using assms(2) e by (simp add: used_def)
  then have "apart (area r' k) (area r' i)"
    using listed_apart[OF n(1), of k i] n(2)[OF inv(2)] n(4)[OF refl] k by (auto simp: all_listed_def)
  then show "apart (area r' k) (area r i)" using e by (simp add: area_def)
qed

text \<open>A buffer of 128 bytes with four blocks.\<close>

definition sample_rbb :: rt_rbb where
  "sample_rbb = the (rt_rbb_init 0x20000000 128 (replicate 4 \<lparr>bk_status = RT_RBB_BLK_GET, bk_size = 7, bk_buf = 0\<rparr>) 4)"

definition alloced :: "u32 \<Rightarrow> rt_rbb \<Rightarrow> rt_rbb" where
  "alloced sz r = snd (the (rt_rbb_blk_alloc sz r))"

lemma alloced_reach: "rbb_reach qs r \<Longrightarrow> 0 < sz \<Longrightarrow> sz \<le> rb_size r \<Longrightarrow> sz < 0x1000000 \<Longrightarrow> rbb_reach qs (alloced sz r)"
  using alloc_place[of r sz] reach_inv[of qs r] rbb_reach.alloc[of qs r sz] unfolding alloced_def by (metis option.sel prod.collapse)

lemma alloced_size: "sz < 0x1000000 \<Longrightarrow> rb_size (alloced sz r) = rb_size r"
  by (auto simp: alloced_def rt_rbb_blk_alloc_def place_def Let_def not_le split: option.splits)

text \<open>The first two of three blocks of 16 bytes are in the buffer; the first was freed and its entry used again for a block behind the
  third one; a block of 8 bytes follows.\<close>

definition turned :: rt_rbb where
  "turned = alloced 8 (alloced 16 (the (rt_rbb_blk_free 0 (alloced 16 (alloced 16 (alloced 16 sample_rbb))))))"

lemma sample_rbb_val: "sample_rbb = \<lparr>rb_buf = 0x20000000, rb_size = 128,
   rb_set = replicate 4 \<lparr>bk_status = RT_RBB_BLK_UNUSED, bk_size = 7, bk_buf = 0\<rparr>, rb_max = 4, rb_list = []\<rparr>"
  by (simp add: sample_rbb_def rt_rbb_init_def)

lemma sample_reach: "rbb_reach qs sample_rbb"
proof -
  have "rt_rbb_init 0x20000000 128 (replicate 4 \<lparr>bk_status = RT_RBB_BLK_GET, bk_size = 7, bk_buf = 0\<rparr>) 4 = Some sample_rbb"
    by (simp add: sample_rbb_val rt_rbb_init_def)
  then show ?thesis by (rule rbb_reach.init) simp
qed

lemma turned_free:
  "rt_rbb_blk_free 0 (alloced 16 (alloced 16 (alloced 16 sample_rbb))) = Some \<lparr>rb_buf = 0x20000000, rb_size = 128,
     rb_set = [\<lparr>bk_status = RT_RBB_BLK_UNUSED, bk_size = 16, bk_buf = 0x20000000\<rparr>, \<lparr>bk_status = RT_RBB_BLK_INITED, bk_size = 16, bk_buf = 0x20000010\<rparr>,
       \<lparr>bk_status = RT_RBB_BLK_INITED, bk_size = 16, bk_buf = 0x20000020\<rparr>, \<lparr>bk_status = RT_RBB_BLK_UNUSED, bk_size = 7, bk_buf = 0\<rparr>],
     rb_max = 4, rb_list = [1, 2]\<rparr>"
  by code_simp

lemma turned_val: "turned = \<lparr>rb_buf = 0x20000000, rb_size = 128,
     rb_set = [\<lparr>bk_status = RT_RBB_BLK_INITED, bk_size = 16, bk_buf = 0x20000030\<rparr>, \<lparr>bk_status = RT_RBB_BLK_INITED, bk_size = 16, bk_buf = 0x20000010\<rparr>,
       \<lparr>bk_status = RT_RBB_BLK_INITED, bk_size = 16, bk_buf = 0x20000020\<rparr>, \<lparr>bk_status = RT_RBB_BLK_INITED, bk_size = 8, bk_buf = 0x20000040\<rparr>],
     rb_max = 4, rb_list = [1, 2, 0, 3]\<rparr>"
  unfolding turned_def turned_free by code_simp

lemma turned_reach: "rbb_reach qs turned"
proof -
  have "rbb_reach qs (alloced 16 (alloced 16 (alloced 16 sample_rbb)))"
    by (intro alloced_reach sample_reach) (simp_all add: sample_rbb_val alloced_size)
  moreover have "0 < unat (rb_max (alloced 16 (alloced 16 (alloced 16 sample_rbb))))" by code_simp
  ultimately have "rbb_reach qs (the (rt_rbb_blk_free 0 (alloced 16 (alloced 16 (alloced 16 sample_rbb)))))"
    unfolding turned_free option.sel by (rule rbb_reach.free[OF _ _ turned_free])
  then show ?thesis
    unfolding turned_def turned_free option.sel
    by (intro alloced_reach) (simp_all add: sample_rbb_val alloced_size)
qed

lemma rbb_blocks_apart_witness:
  "apart (area turned 2) (area turned 3) \<and> area turned 3 = (0x20000040, 8)"
proof -
  have "used turned 2" "used turned 3" by (simp_all add: used_def turned_val)
  then have "apart (area turned 2) (area turned 3)" using rbb_blocks_apart[OF turned_reach, of 2] by simp
  moreover have "area turned 3 = (0x20000040, 8)" by (simp add: area_def turned_val bytes_def)
  ultimately show ?thesis ..
qed

section \<open>Block queues\<close>

lemma empty_unused:
  assumes "rbb_reach False r" "rb_list r = []" "i < unat (rb_max r)"
  shows "bk_status (blk r i) = RT_RBB_BLK_UNUSED"
  using reach_inv[OF assms(1)] assms(2,3) by (auto simp: all_listed_def used_def)

text \<open>The first allocation takes the first entry, without a look at the size of the buffer.\<close>

lemma first_alloc:
  assumes "rbb_reach False r" "rb_list r = []" "0 < unat (rb_max r)" "n < 0x1000000"
  shows "rt_rbb_blk_alloc n r = Some (Some 0, place 0 (rb_buf r) n r)"
proof -
  have "[0 ..< unat (rb_max r)] = 0 # [1 ..< unat (rb_max r)]" using assms(3) by (simp add: upt_conv_Cons)
  then have "find_empty_blk_in_set r = Some 0" using empty_unused[OF assms(1-3)] by (simp add: find_empty_blk_in_set_def)
  then show ?thesis using assms by (simp add: rt_rbb_blk_alloc_def not_le word_less_nat_alt)
qed

text \<open>C40: A block that was taken with a block queue is not protected: \<open>rt_rbb_blk_queue_get\<close> removes the blocks from the list, in which the
  next allocation looks for room. In an empty ring buffer a block of any size \<open>n\<close> is allocated, put and taken with a queue; the next
  allocation of any size \<open>m\<close> then answers with another block at the same address, while the first is still being read.\<close>

theorem rbb_queue_overlap:
  assumes "rbb_reach False r" "rb_list r = []" "1 < unat (rb_max r)" "0 < n" "n < 0x1000000" "m < 0x1000000"
  shows "\<exists>i k r1 r2 r3 r4. rt_rbb_blk_alloc n r = Some (Some i, r1) \<and> rt_rbb_blk_put i r1 = Some r2 \<and>
    rt_rbb_blk_queue_get len q r2 = (n, \<lparr>bq_blocks = i, bq_num = 1\<rparr>, r3) \<and> rt_rbb_blk_alloc m r3 = Some (Some k, r4) \<and>
    k \<noteq> i \<and> bk_status (blk r4 i) = RT_RBB_BLK_GET \<and> area r4 i = (low r, unat n) \<and> area r4 k = (low r, unat m)"
proof -
  let ?r1 = "place 0 (rb_buf r) n r"
  let ?r2 = "upd_blk 0 (\<lambda>b. b\<lparr>bk_status := RT_RBB_BLK_PUT\<rparr>) ?r1"
  let ?r3 = "queue_take 0 ?r2"
  let ?r4 = "place 1 (rb_buf r) m ?r3"
  have len: "1 < length (rb_set r)" using reach_inv[OF assms(1)] assms(3) by (simp add: rbb_inv_def)
  then have l0: "rb_set r \<noteq> []" by auto
  note ev = place_def queue_take_def assms(2) l0 len[simplified]
  have b: "blk ?r1 0 = \<lparr>bk_status = RT_RBB_BLK_INITED, bk_size = ucast n, bk_buf = rb_buf r\<rparr>" by (simp add: ev)
  have "rt_rbb_blk_alloc n r = Some (Some 0, ?r1)" using first_alloc[OF assms(1,2) _ assms(5)] assms(3) by simp
  moreover have "rt_rbb_blk_put 0 ?r1 = Some ?r2" by (simp add: rt_rbb_blk_put_def b)
  moreover have "rt_rbb_blk_queue_get len q ?r2 = (n, \<lparr>bq_blocks = 0, bq_num = 1\<rparr>, ?r3)"
    using bytes_small[OF assms(5)] by (simp add: rt_rbb_blk_queue_get_def ev)
  moreover have "rt_rbb_blk_alloc m ?r3 = Some (Some 1, ?r4)"
  proof -
    have u: "bk_status (blk ?r3 1) = RT_RBB_BLK_UNUSED" "bk_status (blk ?r3 0) = RT_RBB_BLK_GET"
      using empty_unused[OF assms(1,2), of 1] assms(3) by (simp_all add: ev)
    have "[0 ..< unat (rb_max r)] = 0 # 1 # [2 ..< unat (rb_max r)]" using assms(3) by (simp add: upt_conv_Cons numeral_2_eq_2)
    then have "find_empty_blk_in_set ?r3 = Some 1" using u by (simp add: find_empty_blk_in_set_def queue_take_def place_def)
    then show ?thesis using assms(3,6) by (simp add: rt_rbb_blk_alloc_def not_le ev word_less_nat_alt)
  qed
  moreover have "bk_status (blk ?r4 0) = RT_RBB_BLK_GET" by (simp add: ev)
  moreover have "area ?r4 0 = (low r, unat n)" "area ?r4 1 = (low r, unat m)"
    using bytes_small[OF assms(5)] bytes_small[OF assms(6)] by (simp_all add: area_def ev low_def bytes_def)
  ultimately show ?thesis by (intro exI conjI) (assumption | simp)+
qed

lemma rbb_queue_overlap_witness:
  "\<exists>i k r4. k \<noteq> i \<and> bk_status (blk r4 i) = RT_RBB_BLK_GET \<and> area r4 i = (0x20000000, 100) \<and> area r4 k = (0x20000000, 60)"
  using rbb_queue_overlap[OF sample_reach, of 100 60 0 "\<lparr>bq_blocks = 0, bq_num = 0\<rparr>"] by (auto simp: sample_rbb_val low_def)

text \<open>A block larger than the whole buffer is handed out when the list is empty.\<close>

lemma rbb_oversize:
  assumes "rbb_reach False r" "rb_list r = []" "0 < unat (rb_max r)" "n < 0x1000000" "rb_size r < n"
  shows "\<exists>r'. rt_rbb_blk_alloc n r = Some (Some 0, r') \<and> high r' < fst (area r' 0) + snd (area r' 0)"
proof -
  have "rb_set r \<noteq> []" using reach_inv[OF assms(1)] assms(3) by (auto simp: rbb_inv_def)
  then have "area (place 0 (rb_buf r) n r) 0 = (unat (rb_buf r), unat n)" "high (place 0 (rb_buf r) n r) = high r"
    using bytes_small[OF assms(4)] by (simp_all add: area_def place_def high_def bytes_def)
  then show ?thesis using first_alloc[OF assms(1-4)] assms(5) by (simp add: high_def word_less_nat_alt)
qed

text \<open>The functions on a queue take its blocks for neighbours in the array \<^verbatim>\<open>blk_set\<close>, but the queue holds neighbours in the list. Here
  the blocks 2 and 0 are taken; the length is computed from 2 and 3; freeing the queue frees block 3, which its owner is still
  writing, and not block 0.\<close>

lemma rbb_queue_wrong_blocks:
  "\<exists>r r' r'' q. rbb_reach False r \<and> rt_rbb_blk_queue_get 100 \<lparr>bq_blocks = 0, bq_num = 0\<rparr> r = (32, q, r') \<and> rt_rbb_blk_queue_len q r' = Some 24 \<and>
    bk_status (blk r' 3) = RT_RBB_BLK_INITED \<and> rt_rbb_blk_queue_free q r' = Some r'' \<and> bk_status (blk r'' 3) = RT_RBB_BLK_UNUSED \<and>
    bk_status (blk r'' 0) = RT_RBB_BLK_GET"
proof -
  let ?r1 = "the (rt_rbb_blk_put 2 turned)"
  let ?r2 = "the (rt_rbb_blk_put 0 ?r1)"
  let ?g = "rt_rbb_blk_queue_get 100 \<lparr>bq_blocks = 0, bq_num = 0\<rparr> ?r2"
  have p: "rt_rbb_blk_put 2 turned = Some ?r1" "rt_rbb_blk_put 0 ?r1 = Some ?r2" "2 < unat (rb_max turned)" "0 < unat (rb_max ?r1)"
    by (simp_all add: turned_val rt_rbb_blk_put_def upd_blk_def)
  have "rbb_reach False ?r1" by (rule rbb_reach.put[OF turned_reach p(3,1)])
  then have "rbb_reach False ?r2" by (rule rbb_reach.put[OF _ p(4,2)])
  moreover have "fst ?g = 32" "rt_rbb_blk_queue_len (fst (snd ?g)) (snd (snd ?g)) = Some 24"
    "bk_status (blk (snd (snd ?g)) 3) = RT_RBB_BLK_INITED"
    "map_option (\<lambda>r. bk_status (blk r 3)) (rt_rbb_blk_queue_free (fst (snd ?g)) (snd (snd ?g))) = Some RT_RBB_BLK_UNUSED"
    "map_option (\<lambda>r. bk_status (blk r 0)) (rt_rbb_blk_queue_free (fst (snd ?g)) (snd (snd ?g))) = Some RT_RBB_BLK_GET"
    unfolding turned_val by code_simp+
  ultimately show ?thesis by (cases ?g) (fastforce simp: map_option_case split: option.splits)
qed

end
