(* ===== verification/Completion.thy ===== *)
theory Completion
  imports Timeout Sample
begin

text \<open>
  Completions, \<^verbatim>\<open>components/drivers/src/completion.c\<close>: a flag, and the one thread that waits for it. The kernel knows the waiting list of the
  completion \<open>n\<close> as \<open>CplL n\<close>; the flag is a record of its own beside the kernel.
\<close>

record rt_completion =
  cp_flag :: u32

abbreviation (input) RT_COMPLETED :: u32 where "RT_COMPLETED \<equiv> 1"
abbreviation (input) RT_UNCOMPLETED :: u32 where "RT_UNCOMPLETED \<equiv> 0"

section \<open>Operations\<close>

definition rt_completion_init :: "nat \<Rightarrow> kernel \<Rightarrow> rt_completion \<times> kernel" where
  "rt_completion_init n s = (\<lparr>cp_flag = RT_UNCOMPLETED\<rparr>, rt_ipc_object_init (CplL n) s)"

definition rt_completion_wait :: "nat \<Rightarrow> u32 \<Rightarrow> rt_completion \<times> kernel \<Rightarrow> outcome \<times> rt_completion \<times> kernel" where
  "rt_completion_wait n timeout = (\<lambda>(x, s).
     if cp_flag x \<noteq> RT_COMPLETED then
       if lists s (CplL n) \<noteq> [] then (Ret RT_EOK, x, fail s)
       else if timeout = 0 then (Ret (-RT_ETIMEOUT), x, s)
       else if \<not> in_thread_context s then (Ret RT_EOK, x, fail s)
       else case rt_thread_self s of
         None \<Rightarrow> (Ret RT_EOK, x, fail s)
       | Some t \<Rightarrow> (Blocked, x, block_on (CplL n) t RT_IPC_FLAG_FIFO timeout (upd_thr t (\<lambda>th. th\<lparr>t_error := RT_EOK\<rparr>) s))
     else (Ret RT_EOK, x\<lparr>cp_flag := RT_UNCOMPLETED\<rparr>, s))"

text \<open>What the blocked call does when its thread runs again.\<close>

definition rt_completion_wait_return :: "tid \<Rightarrow> rt_completion \<times> kernel \<Rightarrow> int \<times> rt_completion \<times> kernel" where
  "rt_completion_wait_return t = (\<lambda>(x, s). (t_error (thr s t), x\<lparr>cp_flag := RT_UNCOMPLETED\<rparr>, s))"

definition rt_completion_done :: "nat \<Rightarrow> rt_completion \<times> kernel \<Rightarrow> rt_completion \<times> kernel" where
  "rt_completion_done n = (\<lambda>(x, s).
     if cp_flag x = RT_COMPLETED then (x, s)
     else (x\<lparr>cp_flag := RT_COMPLETED\<rparr>, wake_first (CplL n) s))"

section \<open>Waiting and completing\<close>

definition calls :: "kernel \<Rightarrow> tid \<Rightarrow> bool" where
  "calls s c \<longleftrightarrow> kinv s \<and> cur s = Some c \<and> statm s c = RT_THREAD_RUNNING \<and> int_nest s = 0"

lemma block_fifo:
  fixes time :: u32
  assumes "calls s c" "wait_list l"
  defines "s' \<equiv> block_on l c RT_IPC_FLAG_FIFO time (upd_thr c (\<lambda>th. th\<lparr>t_error := RT_EOK\<rparr>) s)"
  shows "kinv s'" "cur s' \<noteq> None" "statm s' c = RT_THREAD_SUSPEND" "lists s' l = lists s l @ [c]"
    "wait_list l' \<Longrightarrow> l' \<noteq> l \<Longrightarrow> lists s' l' = lists s l'" "t_error (thr s' c) = RT_EOK" "u \<noteq> c \<Longrightarrow> t_error (thr s' u) = t_error (thr s u)"
    "sint time < 2147483647 \<Longrightarrow> stuck s' = stuck s"
proof -
  let ?e = "upd_thr c (\<lambda>th. th\<lparr>t_error := RT_EOK\<rparr>) s"
  have e: "kinv ?e" "cur ?e = Some c" "statm ?e c = RT_THREAD_RUNNING" "stuck ?e = stuck s"
    using assms(1) by (simp_all add: calls_def kinv_upd_thr kframe)
  note b = block_on_effect[OF e(1-3) assms(2), where flag = RT_IPC_FLAG_FIFO and time = time, folded s'_def]
  show "kinv s'" "cur s' \<noteq> None" "statm s' c = RT_THREAD_SUSPEND" by (rule b)+
  show "lists s' l = lists s l @ [c]" "wait_list l' \<Longrightarrow> l' \<noteq> l \<Longrightarrow> lists s' l' = lists s l'"
    using b(4)[OF assms(2)] b(4)[where l' = l'] by (simp_all add: wait_insert_def kframe)
  show "t_error (thr s' c) = RT_EOK" "u \<noteq> c \<Longrightarrow> t_error (thr s' u) = t_error (thr s u)"
    using b(7)[where u = c] b(7)[where u = u] by (simp_all add: upd_thr_def)
  show "sint time < 2147483647 \<Longrightarrow> stuck s' = stuck s" using b(16) e(4) by simp
qed

lemma wait_blocks:
  assumes "calls s c" "lists s (CplL n) = []" "cp_flag x \<noteq> RT_COMPLETED" "timeout \<noteq> 0"
  shows "rt_completion_wait n timeout (x, s) =
    (Blocked, x, block_on (CplL n) c RT_IPC_FLAG_FIFO timeout (upd_thr c (\<lambda>th. th\<lparr>t_error := RT_EOK\<rparr>) s))"
  using assms by (simp add: rt_completion_wait_def calls_def in_thread_context_def rt_thread_self_def)

text \<open>A completion hands over: a thread that waits for a completion which is not done is suspended; whatever the kernel does meanwhile,
  as long as the thread still waits, \<open>rt_completion_done\<close> makes it ready, and its call then returns \<open>RT_EOK\<close> and clears the flag,
  so that the next wait waits again. A completion done before the wait lets the wait return at once.\<close>

theorem completion_hands_over:
  assumes "calls s c" "lists s (CplL n) = []" "cp_flag x \<noteq> RT_COMPLETED" "timeout \<noteq> 0"
  shows "\<exists>s1. rt_completion_wait n timeout (x, s) = (Blocked, x, s1) \<and> kinv s1 \<and> statm s1 c = RT_THREAD_SUSPEND \<and>
      lists s1 (CplL n) = [c] \<and> t_error (thr s1 c) = RT_EOK \<and>
      (\<forall>s2. kinv s2 \<longrightarrow> cur s2 \<noteq> None \<longrightarrow> lists s2 (CplL n) = [c] \<longrightarrow> t_error (thr s2 c) = RT_EOK \<longrightarrow>
        (\<exists>s3. rt_completion_done n (x, s2) = (\<lparr>cp_flag = RT_COMPLETED\<rparr>, s3) \<and> kinv s3 \<and> awake s3 c \<and> lists s3 (CplL n) = [] \<and>
          rt_completion_wait_return c (\<lparr>cp_flag = RT_COMPLETED\<rparr>, s3) = (RT_EOK, \<lparr>cp_flag = RT_UNCOMPLETED\<rparr>, s3))) \<and>
    rt_completion_wait n timeout (rt_completion_done n (x, s)) = (Ret RT_EOK, \<lparr>cp_flag = RT_UNCOMPLETED\<rparr>, s)"
proof -
  let ?s1 = "block_on (CplL n) c RT_IPC_FLAG_FIFO timeout (upd_thr c (\<lambda>th. th\<lparr>t_error := RT_EOK\<rparr>) s)"
  have "wait_list (CplL n)" by simp
  note b = block_fifo[OF assms(1) this, where time = timeout]
  have "\<exists>s3. rt_completion_done n (x, s2) = (\<lparr>cp_flag = RT_COMPLETED\<rparr>, s3) \<and> kinv s3 \<and> awake s3 c \<and> lists s3 (CplL n) = [] \<and>
          rt_completion_wait_return c (\<lparr>cp_flag = RT_COMPLETED\<rparr>, s3) = (RT_EOK, \<lparr>cp_flag = RT_UNCOMPLETED\<rparr>, s3)"
    if h: "kinv s2" "cur s2 \<noteq> None" "lists s2 (CplL n) = [c]" "t_error (thr s2 c) = RT_EOK" for s2
  proof -
    obtain d where d: "cur s2 = Some d" using h(2) by auto
    have "wait_list (CplL n)" by simp
    note w = wake_first_effect[OF h(1) d this]
    show ?thesis using w(1,3,5) w(6)[where u = c] h(3,4) assms(3)
      by (intro exI[of _ "wake_first (CplL n) s2"]) (simp add: rt_completion_done_def rt_completion_wait_return_def)
  qed
  then have "\<exists>s1. rt_completion_wait n timeout (x, s) = (Blocked, x, s1) \<and> kinv s1 \<and> statm s1 c = RT_THREAD_SUSPEND \<and>
      lists s1 (CplL n) = [c] \<and> t_error (thr s1 c) = RT_EOK \<and>
      (\<forall>s2. kinv s2 \<longrightarrow> cur s2 \<noteq> None \<longrightarrow> lists s2 (CplL n) = [c] \<longrightarrow> t_error (thr s2 c) = RT_EOK \<longrightarrow>
        (\<exists>s3. rt_completion_done n (x, s2) = (\<lparr>cp_flag = RT_COMPLETED\<rparr>, s3) \<and> kinv s3 \<and> awake s3 c \<and> lists s3 (CplL n) = [] \<and>
          rt_completion_wait_return c (\<lparr>cp_flag = RT_COMPLETED\<rparr>, s3) = (RT_EOK, \<lparr>cp_flag = RT_UNCOMPLETED\<rparr>, s3)))"
    using wait_blocks[OF assms] b(1,3,4,6) assms(2) by auto
  moreover have "rt_completion_wait n timeout (rt_completion_done n (x, s)) = (Ret RT_EOK, \<lparr>cp_flag = RT_UNCOMPLETED\<rparr>, s)"
    using assms(2,3) by (simp add: rt_completion_wait_def rt_completion_done_def wake_first_def)
  ultimately show ?thesis by blast
qed

lemma sample_calls: "calls sample 0"
  by (simp add: calls_def sample_kinv sample_sel sample_stat)

lemma sample_no_cpl: "lists sample (CplL n) = []"
  by (simp add: sample_def sample_lists_def)

lemma completion_hands_over_witness:
  "\<exists>s1. rt_completion_wait 5 100 (\<lparr>cp_flag = 0\<rparr>, sample) = (Blocked, \<lparr>cp_flag = 0\<rparr>, s1) \<and> lists s1 (CplL 5) = [0]"
  using completion_hands_over[OF sample_calls sample_no_cpl, of "\<lparr>cp_flag = 0\<rparr>" 100 5] by auto

section \<open>A completion that comes too late\<close>

text \<open>A completion can be lost: when the wait of a thread has just timed out and \<open>rt_completion_done\<close> comes before the thread
  runs, the flag is set; but the thread, when it runs, answers \<open>-RT_ETIMEOUT\<close> and clears the flag all the same, so that the next wait does
  not see the completion and waits again.\<close>

theorem completion_lost:
  assumes "kinv s" "cur s = Some d" "lists s (CplL n) = [c]" "cp_flag x \<noteq> RT_COMPLETED" "timeout \<noteq> 0"
  shows "\<exists>s1. rt_thread_timeout c (timer_unlink (ThreadTimer c) s) = s1 \<and> awake s1 c \<and>
    rt_completion_done n (x, s1) = (\<lparr>cp_flag = RT_COMPLETED\<rparr>, s1) \<and>
    rt_completion_wait_return c (\<lparr>cp_flag = RT_COMPLETED\<rparr>, s1) = (-RT_ETIMEOUT, \<lparr>cp_flag = RT_UNCOMPLETED\<rparr>, s1) \<and>
    (\<forall>u. calls s1 u \<longrightarrow> fst (rt_completion_wait n timeout (\<lparr>cp_flag = RT_UNCOMPLETED\<rparr>, s1)) = Blocked)"
proof -
  let ?s = "timer_unlink (ThreadTimer c) s"
  let ?s1 = "rt_thread_timeout c ?s"
  have k: "kinv ?s" by (rule kinv_timer_unlink[OF assms(1)])
  have d: "cur ?s = Some d" "lists ?s (CplL n) = [c]" "ThreadTimer c \<notin> set (timer_list ?s)"
    using assms(2,3) by (simp_all add: timer_unlink_def)
  have st: "statm ?s c = RT_THREAD_SUSPEND" using wait_list_member(1)[OF k, of "CplL n" c] d(2) by simp
  have ok: "thread_ok ?s c" using kbaseD(7)[OF kinv_partsD(1)[OF k]] st by (simp add: live_def)
  note u = timeout_unfold[OF st ok]
  have i: "kinv (timeout_wake c ?s)" by (rule timeout_wake_kinv[OF k st d(3)])
  have cw: "cur (timeout_wake c ?s) = Some d" using d(1) by (simp add: timeout_wake_cur)
  note o = rt_schedule_others[OF i cw]
  have "awake ?s1 c" using o(2)[of c] unfolding u awake_def by (simp add: timeout_wake_sel(1))
  moreover have e: "t_error (thr ?s1 c) = -RT_ETIMEOUT" unfolding u by (simp add: kframe timeout_wake_sel(7))
  moreover have l: "lists ?s1 (CplL n) = []" unfolding u using o(3)[of "CplL n"] d(2) by (simp add: timeout_wake_sel(6))
  moreover have "\<forall>v. calls ?s1 v \<longrightarrow> fst (rt_completion_wait n timeout (\<lparr>cp_flag = RT_UNCOMPLETED\<rparr>, ?s1)) = Blocked"
    using wait_blocks[OF _ l, of _ "\<lparr>cp_flag = RT_UNCOMPLETED\<rparr>" timeout] assms(5) by simp
  ultimately show ?thesis using assms(4)
    by (intro exI[of _ ?s1] conjI) (simp_all add: rt_completion_done_def rt_completion_wait_return_def wake_first_def)
qed

text \<open>The sample after its running thread has started to wait.\<close>

definition sample_waits :: kernel where
  "sample_waits = block_on (CplL 5) 0 RT_IPC_FLAG_FIFO 100 (upd_thr 0 (\<lambda>th. th\<lparr>t_error := RT_EOK\<rparr>) sample)"

lemma completion_lost_witness:
  "\<exists>s1. awake s1 0 \<and> rt_completion_wait_return 0 (rt_completion_done 5 (\<lparr>cp_flag = 0\<rparr>, s1)) = (-RT_ETIMEOUT, \<lparr>cp_flag = 0\<rparr>, s1)"
proof -
  have w: "wait_list (CplL 5)" by simp
  note b = block_fifo[OF sample_calls w, where time = 100, folded sample_waits_def]
  obtain d where d: "cur sample_waits = Some d" using b(2) by auto
  have "lists sample_waits (CplL 5) = [0]" using b(4) by (simp add: sample_no_cpl)
  from completion_lost[OF b(1) d this, of "\<lparr>cp_flag = 0\<rparr>" 1] show ?thesis by auto
qed

end
