(* ===== verification/DataQueue.thy ===== *)
theory DataQueue
  imports Completion
begin

text \<open>
  Data queues of device drivers, \<^verbatim>\<open>components/drivers/src/dataqueue.c\<close>: a ring of items (pointer and size) with two 16-bit counters that are
  never set back, and one list of threads that wait for room (\<open>DqPushL n\<close>) and one of threads that wait for an item (\<open>DqPopL n\<close>).
  The function \<^verbatim>\<open>evt_notify\<close> is the argument \<open>ev\<close>; it sees the queue and the kernel. The C expressions over the counters are computed in
  \<^verbatim>\<open>int\<close>, where a difference of two counters can be negative.
\<close>

type_synonym item = "u32 \<times> u32"

record rt_data_queue =
  dq_size :: u16
  dq_lwm :: u16
  dq_get :: u16
  dq_put :: u16
  dq_items :: "item list option"

type_synonym dq = "rt_data_queue \<times> kernel"

abbreviation (input) RT_DATAQUEUE_EVENT_POP :: u32 where "RT_DATAQUEUE_EVENT_POP \<equiv> 1"
abbreviation (input) RT_DATAQUEUE_EVENT_PUSH :: u32 where "RT_DATAQUEUE_EVENT_PUSH \<equiv> 2"
abbreviation (input) RT_DATAQUEUE_EVENT_LWM :: u32 where "RT_DATAQUEUE_EVENT_LWM \<equiv> 3"

section \<open>Operations\<close>

text \<open>\<open>mem\<close> is the array from the heap.\<close>

definition rt_data_queue_init :: "nat \<Rightarrow> u16 \<Rightarrow> u16 \<Rightarrow> item list option \<Rightarrow> kernel \<Rightarrow> int \<times> dq" where
  "rt_data_queue_init n sz lwm mem s =
     (if mem = None then -RT_ENOMEM else RT_EOK,
      \<lparr>dq_size = sz, dq_lwm = lwm, dq_get = 0, dq_put = 0, dq_items = mem\<rparr>,
      rt_ipc_object_init (DqPopL n) (rt_ipc_object_init (DqPushL n) s))"

definition notify :: "(u32 \<Rightarrow> dq \<Rightarrow> dq) option \<Rightarrow> u32 \<Rightarrow> dq \<Rightarrow> dq" where
  "notify ev e d = (case ev of None \<Rightarrow> d | Some f \<Rightarrow> f e d)"

definition dq_full :: "rt_data_queue \<Rightarrow> bool" where
  "dq_full q \<longleftrightarrow> uint (dq_put q) - uint (dq_get q) = uint (dq_size q)"

definition slot :: "u16 \<Rightarrow> rt_data_queue \<Rightarrow> nat" where
  "slot i q = unat i mod unat (dq_size q)"

definition dq_store :: "item \<Rightarrow> rt_data_queue \<Rightarrow> rt_data_queue option" where
  "dq_store it q =
     (case dq_items q of
        None \<Rightarrow> None
      | Some xs \<Rightarrow> if length xs \<le> slot (dq_put q) q then None
                   else Some (q\<lparr>dq_items := Some (xs[slot (dq_put q) q := it]), dq_put := dq_put q + 1\<rparr>))"

definition dq_fetch :: "rt_data_queue \<Rightarrow> item option" where
  "dq_fetch q =
     (case dq_items q of
        None \<Rightarrow> None
      | Some xs \<Rightarrow> if length xs \<le> slot (dq_get q) q then None else Some (xs ! slot (dq_get q) q))"

definition dq_wait :: "listid \<Rightarrow> u32 \<Rightarrow> dq \<Rightarrow> outcome \<times> dq" where
  "dq_wait l timeout = (\<lambda>(q, s).
     if timeout = 0 then (Ret (-RT_ETIMEOUT), q, s)
     else if \<not> in_thread_context s then (Ret (-RT_ERROR), q, fail s)
     else case rt_thread_self s of
       None \<Rightarrow> (Ret (-RT_ERROR), q, fail s)
     | Some t \<Rightarrow> (Blocked, q, block_on l t RT_IPC_FLAG_FIFO timeout (upd_thr t (\<lambda>th. th\<lparr>t_error := RT_EOK\<rparr>) s)))"

definition rt_data_queue_push :: "(u32 \<Rightarrow> dq \<Rightarrow> dq) option \<Rightarrow> nat \<Rightarrow> item \<Rightarrow> u32 \<Rightarrow> dq \<Rightarrow> outcome \<times> dq" where
  "rt_data_queue_push ev n it timeout = (\<lambda>(q, s).
     if dq_full q then dq_wait (DqPushL n) timeout (q, s)
     else case dq_store it q of
       None \<Rightarrow> (Ret (-RT_ERROR), q, fail s)
     | Some q1 \<Rightarrow> (Ret RT_EOK,
         if lists s (DqPopL n) \<noteq> [] then (q1, wake_first (DqPopL n) s)
         else notify ev RT_DATAQUEUE_EVENT_PUSH (q1, s)))"

definition rt_data_queue_pop :: "(u32 \<Rightarrow> dq \<Rightarrow> dq) option \<Rightarrow> nat \<Rightarrow> u32 \<Rightarrow> dq \<Rightarrow> outcome \<times> item option \<times> dq" where
  "rt_data_queue_pop ev n timeout = (\<lambda>(q, s).
     if dq_get q = dq_put q then (case dq_wait (DqPopL n) timeout (q, s) of (r, d) \<Rightarrow> (r, None, d))
     else case dq_fetch q of
       None \<Rightarrow> (Ret (-RT_ERROR), None, q, fail s)
     | Some it \<Rightarrow>
         let q1 = q\<lparr>dq_get := dq_get q + 1\<rparr>
         in (Ret RT_EOK, Some it,
             if uint (dq_put q1) - uint (dq_get q1) \<le> uint (dq_lwm q1)
             then notify ev RT_DATAQUEUE_EVENT_LWM (q1, wake_first (DqPushL n) s)
             else notify ev RT_DATAQUEUE_EVENT_POP (q1, s)))"

text \<open>When the thread \<open>t\<close> runs again after a wait: it leaves with the error, or goes through its loop once more.\<close>

definition rt_data_queue_push_return :: "tid \<Rightarrow> (u32 \<Rightarrow> dq \<Rightarrow> dq) option \<Rightarrow> nat \<Rightarrow> item \<Rightarrow> u32 \<Rightarrow> dq \<Rightarrow> outcome \<times> dq" where
  "rt_data_queue_push_return t ev n it timeout d =
     (if t_error (thr (snd d) t) \<noteq> RT_EOK then (Ret (t_error (thr (snd d) t)), d) else rt_data_queue_push ev n it timeout d)"

definition rt_data_queue_pop_return :: "tid \<Rightarrow> (u32 \<Rightarrow> dq \<Rightarrow> dq) option \<Rightarrow> nat \<Rightarrow> u32 \<Rightarrow> dq \<Rightarrow> outcome \<times> item option \<times> dq" where
  "rt_data_queue_pop_return t ev n timeout d =
     (if t_error (thr (snd d) t) \<noteq> RT_EOK then (Ret (t_error (thr (snd d) t)), None, d) else rt_data_queue_pop ev n timeout d)"

definition rt_data_queue_peak :: "rt_data_queue \<Rightarrow> int \<times> item option" where
  "rt_data_queue_peak q = (if dq_get q = dq_put q then (-RT_EEMPTY, None) else (RT_EOK, dq_fetch q))"

definition rt_data_queue_reset :: "nat \<Rightarrow> kernel \<Rightarrow> kernel" where
  "rt_data_queue_reset n s =
     rt_schedule (rt_exit_critical (rt_ipc_list_resume_all (DqPushL n) (rt_ipc_list_resume_all (DqPopL n) (rt_enter_critical s))))"

section \<open>The queue while its counters have not wrapped\<close>

definition dq_ok :: "rt_data_queue \<Rightarrow> bool" where
  "dq_ok q \<longleftrightarrow> 0 < unat (dq_size q) \<and> unat (dq_get q) \<le> unat (dq_put q) \<and> unat (dq_put q) - unat (dq_get q) \<le> unat (dq_size q) \<and>
     (\<exists>xs. dq_items q = Some xs \<and> length xs = unat (dq_size q))"

definition dq_abs :: "rt_data_queue \<Rightarrow> item list" where
  "dq_abs q = map (\<lambda>i. the (dq_items q) ! (i mod unat (dq_size q))) [unat (dq_get q) ..< unat (dq_put q)]"

lemma length_dq_abs: "length (dq_abs q) = unat (dq_put q) - unat (dq_get q)"
  by (simp add: dq_abs_def)

lemma uint_unat: "uint (x :: u16) = int (unat x)"
  by simp

lemma full_iff: "dq_ok q \<Longrightarrow> dq_full q \<longleftrightarrow> length (dq_abs q) = unat (dq_size q)"
proof -
  assume "dq_ok q"
  then have "unat (dq_get q) \<le> unat (dq_put q)" by (simp add: dq_ok_def)
  then show ?thesis unfolding dq_full_def length_dq_abs uint_unat by linarith
qed

lemma mod_apart:
  assumes "i < j" "j - i < (n :: nat)"
  shows "i mod n \<noteq> j mod n"
proof
  assume "i mod n = j mod n"
  then have "n dvd j - i" using assms(1) by (metis less_imp_le mod_eq_dvd_iff_nat)
  then show False using assms by (meson dvd_imp_le not_less zero_less_diff)
qed

lemma store_ok:
  assumes "dq_ok q" "\<not> dq_full q" "unat (dq_put q) < 65535"
  obtains q1 where "dq_store it q = Some q1" "dq_ok q1" "dq_abs q1 = dq_abs q @ [it]" "dq_size q1 = dq_size q"
    "unat (dq_put q1) = Suc (unat (dq_put q))" "dq_get q1 = dq_get q" "dq_lwm q1 = dq_lwm q"
proof -
  obtain xs where xs: "dq_items q = Some xs" "length xs = unat (dq_size q)" using assms(1) by (auto simp: dq_ok_def)
  let ?p = "unat (dq_put q)" and ?g = "unat (dq_get q)" and ?n = "unat (dq_size q)"
  have d: "0 < ?n" "?g \<le> ?p" "?p - ?g < ?n"
    using assms(1,2) full_iff[OF assms(1)] by (auto simp: dq_ok_def length_dq_abs)
  let ?q = "q\<lparr>dq_items := Some (xs[?p mod ?n := it]), dq_put := dq_put q + 1\<rparr>"
  have put: "unat (dq_put q + 1) = Suc ?p" using assms(3) by (simp add: unat_Suc_word)
  have m: "?p mod ?n < length xs" using d(1) xs(2) by simp
  have st: "dq_store it q = Some ?q" using m by (simp add: dq_store_def xs(1) slot_def)
  have ok: "dq_ok ?q" using d xs(2) by (simp add: dq_ok_def put)
  have ab: "dq_abs ?q = dq_abs q @ [it]"
  proof -
    have "xs[?p mod ?n := it] ! (i mod ?n) = xs ! (i mod ?n)" if "i \<in> set [?g ..< ?p]" for i
    proof -
      have "i < ?p" "?p - i < ?n" using that d by auto
      then have "?p mod ?n \<noteq> i mod ?n" using mod_apart by metis
      then show ?thesis by (rule nth_list_update_neq)
    qed
    then show ?thesis using d m by (simp add: dq_abs_def put xs(1))
  qed
  show thesis by (rule that[OF st ok ab]) (simp_all add: put)
qed

lemma fetch_ok:
  assumes "dq_ok q" "dq_get q \<noteq> dq_put q"
  shows "dq_fetch q = Some (hd (dq_abs q))" "dq_ok (q\<lparr>dq_get := dq_get q + 1\<rparr>)" "dq_abs (q\<lparr>dq_get := dq_get q + 1\<rparr>) = tl (dq_abs q)"
    "dq_abs q \<noteq> []"
proof -
  obtain xs where xs: "dq_items q = Some xs" "length xs = unat (dq_size q)" using assms(1) by (auto simp: dq_ok_def)
  have ne: "unat (dq_get q) \<noteq> unat (dq_put q)" using assms(2) by (simp add: word_unat_eq_iff)
  then have d: "0 < unat (dq_size q)" "unat (dq_get q) < unat (dq_put q)" "unat (dq_put q) - unat (dq_get q) \<le> unat (dq_size q)"
    using assms(1) by (auto simp: dq_ok_def)
  have "unat (dq_put q) < 65536" using unsigned_less[of "dq_put q", where ?'a = nat] by simp
  then have g: "unat (dq_get q + 1) = Suc (unat (dq_get q))" using d(2) by (simp add: unat_Suc_word)
  show "dq_ok (q\<lparr>dq_get := dq_get q + 1\<rparr>)" using d xs by (simp add: dq_ok_def g)
  have u: "[unat (dq_get q) ..< unat (dq_put q)] = unat (dq_get q) # [Suc (unat (dq_get q)) ..< unat (dq_put q)]"
    using d(2) by (simp add: upt_conv_Cons)
  have "\<not> unat (dq_size q) \<le> unat (dq_get q) mod unat (dq_size q)" using d(1) by (simp add: not_le)
  then show "dq_fetch q = Some (hd (dq_abs q))" using d xs u by (simp add: dq_fetch_def slot_def dq_abs_def)
  show "dq_abs (q\<lparr>dq_get := dq_get q + 1\<rparr>) = tl (dq_abs q)" "dq_abs q \<noteq> []" using u g by (simp_all add: dq_abs_def)
qed

lemma empty_iff: "dq_ok q \<Longrightarrow> dq_get q = dq_put q \<longleftrightarrow> dq_abs q = []"
proof
  assume "dq_ok q" "dq_get q = dq_put q"
  then show "dq_abs q = []" by (simp add: dq_abs_def)
next
  assume "dq_ok q" "dq_abs q = []"
  then show "dq_get q = dq_put q" using fetch_ok(4)[of q] by blast
qed

section \<open>Runs without waiting\<close>

text \<open>The replies to a sequence of pushes and pops with the timeout 0, and the replies of a bounded queue of \<open>cap\<close> items.\<close>

fun dq_run :: "nat \<Rightarrow> item fifo_op list \<Rightarrow> dq \<Rightarrow> (outcome \<times> item option) list \<times> dq" where
  "dq_run n [] d = ([], d)"
| "dq_run n (FPut x # ops) d =
     (case rt_data_queue_push None n x 0 d of (r, d1) \<Rightarrow> (case dq_run n ops d1 of (rs, d2) \<Rightarrow> ((r, None) # rs, d2)))"
| "dq_run n (FGet # ops) d =
     (case rt_data_queue_pop None n 0 d of (r, it, d1) \<Rightarrow> (case dq_run n ops d1 of (rs, d2) \<Rightarrow> ((r, it) # rs, d2)))"

fun bounded_run :: "nat \<Rightarrow> item fifo_op list \<Rightarrow> item list \<Rightarrow> (outcome \<times> item option) list \<times> item list" where
  "bounded_run cap [] xs = ([], xs)"
| "bounded_run cap (FPut x # ops) xs =
     (if length xs = cap then (case bounded_run cap ops xs of (rs, ys) \<Rightarrow> ((Ret (-RT_ETIMEOUT), None) # rs, ys))
      else (case bounded_run cap ops (xs @ [x]) of (rs, ys) \<Rightarrow> ((Ret RT_EOK, None) # rs, ys)))"
| "bounded_run cap (FGet # ops) xs =
     (case xs of
        [] \<Rightarrow> (case bounded_run cap ops [] of (rs, ys) \<Rightarrow> ((Ret (-RT_ETIMEOUT), None) # rs, ys))
      | x # xs' \<Rightarrow> (case bounded_run cap ops xs' of (rs, ys) \<Rightarrow> ((Ret RT_EOK, Some x) # rs, ys)))"

definition puts :: "item fifo_op list \<Rightarrow> nat" where
  "puts ops = length (filter (\<lambda>x. x \<noteq> FGet) ops)"

lemma puts_simps [simp]: "puts [] = 0" "puts (FPut x # ops) = Suc (puts ops)" "puts (FGet # ops) = puts ops"
  by (simp_all add: puts_def)

definition nobody :: "nat \<Rightarrow> kernel \<Rightarrow> bool" where
  "nobody n s \<longleftrightarrow> lists s (DqPopL n) = [] \<and> lists s (DqPushL n) = []"

lemma run_refines:
  assumes "dq_ok q" "nobody n s" "unat (dq_put q) + puts ops < 65536"
  shows "\<exists>q'. dq_run n ops (q, s) = (fst (bounded_run (unat (dq_size q)) ops (dq_abs q)), q', s) \<and> dq_ok q' \<and> dq_size q' = dq_size q \<and>
    dq_abs q' = snd (bounded_run (unat (dq_size q)) ops (dq_abs q)) \<and> unat (dq_put q') \<le> unat (dq_put q) + puts ops"
  using assms(1,3)
proof (induction ops arbitrary: q)
  case (Cons x ops)
  show ?case
  proof (cases x)
    case (FPut it)
    show ?thesis
    proof (cases "dq_full q")
      case True
      then have "rt_data_queue_push None n it 0 (q, s) = (Ret (-RT_ETIMEOUT), q, s)" by (simp add: rt_data_queue_push_def dq_wait_def)
      with Cons.IH[OF Cons.prems(1)] Cons.prems(2) full_iff[OF Cons.prems(1)] True show ?thesis
        unfolding FPut by (auto split: prod.splits)
    next
      case False
      obtain q1 where q1: "dq_store it q = Some q1" "dq_ok q1" "dq_abs q1 = dq_abs q @ [it]" "dq_size q1 = dq_size q"
        "unat (dq_put q1) = Suc (unat (dq_put q))"
        using store_ok[OF Cons.prems(1) False, of it] Cons.prems(2) FPut by auto
      have "rt_data_queue_push None n it 0 (q, s) = (Ret RT_EOK, q1, s)"
        using False q1(1) assms(2) by (simp add: rt_data_queue_push_def nobody_def notify_def)
      with Cons.IH[OF q1(2)] Cons.prems(2) full_iff[OF Cons.prems(1)] False q1(3-5) show ?thesis
        unfolding FPut by (auto split: prod.splits)
    qed
  next
    case FGet
    show ?thesis
    proof (cases "dq_get q = dq_put q")
      case True
      then have "rt_data_queue_pop None n 0 (q, s) = (Ret (-RT_ETIMEOUT), None, q, s)" by (simp add: rt_data_queue_pop_def dq_wait_def)
      with Cons.IH[OF Cons.prems(1)] Cons.prems(2) empty_iff[OF Cons.prems(1)] True show ?thesis
        unfolding FGet by (auto split: prod.splits)
    next
      case False
      note f = fetch_ok[OF Cons.prems(1) False]
      let ?q = "q\<lparr>dq_get := dq_get q + 1\<rparr>"
      have "rt_data_queue_pop None n 0 (q, s) = (Ret RT_EOK, Some (hd (dq_abs q)), ?q, s)"
        using False f(1) assms(2) by (simp add: rt_data_queue_pop_def nobody_def notify_def wake_first_def Let_def)
      moreover have "dq_abs q = hd (dq_abs q) # tl (dq_abs q)" using f(4) by simp
      ultimately show ?thesis
        using Cons.IH[OF f(2)] Cons.prems(2) f(3) unfolding FGet
        by (cases "dq_abs q") (auto split: prod.splits)
    qed
  qed
qed simp

lemma init_ok:
  fixes n :: nat and lwm :: u16 and s :: kernel
  assumes "length mem = unat sz" "0 < sz"
  defines "d \<equiv> snd (rt_data_queue_init n sz lwm (Some mem) s)"
  shows "dq_ok (fst d)" "dq_abs (fst d) = []" "nobody n (snd d)" "dq_put (fst d) = 0" "dq_size (fst d) = sz"
  using assms(1,2)
  by (simp_all add: d_def rt_data_queue_init_def dq_ok_def dq_abs_def nobody_def rt_ipc_object_init_def word_less_nat_alt)

text \<open>C21: A data queue is a bounded queue for the first 65535 items: from its initialisation on, every sequence of pushes and pops that do not
  wait and of which less than 65536 are pushes is answered as by a queue that keeps at most \<open>sz\<close> items in order, refuses a push
  exactly when it is full and a pop exactly when it is empty.\<close>

theorem dq_refines:
  assumes "length mem = unat sz" "0 < sz" "puts ops < 65536"
  shows "\<exists>q s'. dq_run n ops (snd (rt_data_queue_init n sz lwm (Some mem) s)) = (fst (bounded_run (unat sz) ops []), q, s') \<and>
    dq_abs q = snd (bounded_run (unat sz) ops [])"
proof -
  let ?d = "snd (rt_data_queue_init n sz lwm (Some mem) s)"
  note i = init_ok[OF assms(1,2), of n lwm s]
  obtain q s1 where d: "?d = (q, s1)" by (cases ?d)
  show ?thesis using run_refines[of q n s1 ops] i assms(3) unfolding d by auto
qed

lemma dq_refines_witness:
  "\<exists>q s'. dq_run 0 [FPut (1, 4), FPut (2, 8), FPut (3, 8), FGet, FGet, FGet] (snd (rt_data_queue_init 0 2 1 (Some [(0, 0), (0, 0)]) sample)) =
     ([(Ret 0, None), (Ret 0, None), (Ret (-2), None), (Ret 0, Some (1, 4)), (Ret 0, Some (2, 8)), (Ret (-2), None)], q, s')"
  using dq_refines[of "[(0, 0), (0, 0)]" 2 "[FPut (1, 4), FPut (2, 8), FPut (3, 8), FGet, FGet, FGet]" 0 1 sample]
  by auto

section \<open>The queue after its counters have wrapped\<close>

lemma dq_run_append:
  "dq_run n (as @ bs) d = (case dq_run n as d of (rs, d1) \<Rightarrow> (case dq_run n bs d1 of (rs', d2) \<Rightarrow> (rs @ rs', d2)))"
proof (induction as arbitrary: d)
  case (Cons a as)
  then show ?case by (cases a) (simp_all split: prod.splits)
qed simp

lemma bounded_run_append:
  "bounded_run cap (as @ bs) xs = (case bounded_run cap as xs of (rs, ys) \<Rightarrow> (case bounded_run cap bs ys of (rs', zs) \<Rightarrow> (rs @ rs', zs)))"
proof (induction as arbitrary: xs)
  case (Cons a as)
  then show ?case by (cases a) (simp_all split: prod.splits list.splits)
qed simp

text \<open>\<open>k\<close> rounds of one push and one pop.\<close>

fun rounds :: "item \<Rightarrow> nat \<Rightarrow> item fifo_op list" where
  "rounds a 0 = []"
| "rounds a (Suc k) = FPut a # FGet # rounds a k"

fun round_replies :: "item \<Rightarrow> nat \<Rightarrow> (outcome \<times> item option) list" where
  "round_replies a 0 = []"
| "round_replies a (Suc k) = (Ret RT_EOK, None) # (Ret RT_EOK, Some a) # round_replies a k"

lemma puts_rounds: "puts (rounds a k) = k"
  by (induction k) simp_all

lemma bounded_rounds: "0 < cap \<Longrightarrow> bounded_run cap (rounds a k) [] = (round_replies a k, [])"
  by (induction k) simp_all

lemma bounded_puts: "length xs + length ys \<le> cap \<Longrightarrow> bounded_run cap (map FPut ys) xs = (replicate (length ys) (Ret RT_EOK, None), xs @ ys)"
  by (induction ys arbitrary: xs) auto

lemma rounds_run:
  assumes "dq_ok q" "dq_abs q = []" "nobody n s" "unat (dq_put q) + k < 65536"
  shows "\<exists>q'. dq_run n (rounds a k) (q, s) = (round_replies a k, q', s) \<and> dq_ok q' \<and> dq_abs q' = [] \<and> dq_size q' = dq_size q \<and>
    unat (dq_put q') = unat (dq_put q) + k"
  using assms(1,2,4)
proof (induction k arbitrary: q)
  case (Suc k)
  have nf: "\<not> dq_full q" using full_iff[OF Suc.prems(1)] Suc.prems(1,2) by (auto simp: dq_ok_def)
  obtain q1 where q1: "dq_store a q = Some q1" "dq_ok q1" "dq_abs q1 = [a]" "dq_size q1 = dq_size q" "unat (dq_put q1) = Suc (unat (dq_put q))"
    using store_ok[OF Suc.prems(1) nf, of a] Suc.prems(2,3) by auto
  have ne: "dq_get q1 \<noteq> dq_put q1" using empty_iff[OF q1(2)] q1(3) by simp
  note f = fetch_ok[OF q1(2) ne]
  let ?q = "q1\<lparr>dq_get := dq_get q1 + 1\<rparr>"
  have "rt_data_queue_push None n a 0 (q, s) = (Ret RT_EOK, q1, s)" "rt_data_queue_pop None n 0 (q1, s) = (Ret RT_EOK, Some a, ?q, s)"
    using nf q1(1,3) ne f(1) assms(3) by (simp_all add: rt_data_queue_push_def rt_data_queue_pop_def nobody_def notify_def wake_first_def Let_def)
  with Suc.IH[OF f(2)] f(3) q1(3-5) Suc.prems(3) show ?case by auto
qed simp

text \<open>With \<open>dq_get\<close> at its highest value no push is refused.\<close>

definition worn :: "nat \<Rightarrow> rt_data_queue \<Rightarrow> bool" where
  "worn k q \<longleftrightarrow> dq_get q = 0xffff \<and> dq_put q = 0xffff + of_nat k \<and> 0 < unat (dq_size q) \<and> k \<le> unat (dq_size q) \<and>
     (\<exists>xs. dq_items q = Some xs \<and> length xs = unat (dq_size q))"

lemma worn_not_full: "worn k q \<Longrightarrow> \<not> dq_full q"
proof -
  assume w: "worn k q"
  then have k: "k \<le> 65535" using unsigned_less[of "dq_size q", where ?'a = nat] by (simp add: worn_def)
  have "uint (dq_put q) \<le> 65535" using uint_bounded[of "dq_put q"] by simp
  moreover have "uint (dq_get q) = 65535" "0 < uint (dq_size q)"
    using w uint_unat[of "dq_size q"] by (simp_all add: worn_def unat_gt_0 flip: word_greater_zero_iff) (simp_all add: word_less_def)
  ultimately show ?thesis unfolding dq_full_def by linarith
qed

lemma worn_store:
  assumes "worn k q"
  shows "\<exists>q1. dq_store it q = Some q1 \<and> dq_size q1 = dq_size q \<and> dq_get q1 = 0xffff \<and> dq_put q1 = 0xffff + of_nat (Suc k) \<and>
    (\<exists>xs. dq_items q1 = Some xs \<and> length xs = unat (dq_size q) \<and> xs ! slot (dq_put q) q = it) \<and> (k < unat (dq_size q) \<longrightarrow> worn (Suc k) q1)"
proof -
  obtain xs where xs: "dq_items q = Some xs" "length xs = unat (dq_size q)" using assms by (auto simp: worn_def)
  have m: "slot (dq_put q) q < length xs" using assms xs(2) by (simp add: worn_def slot_def)
  then show ?thesis using assms xs by (simp add: dq_store_def worn_def add.commute add.left_commute)
qed

lemma worn_run:
  assumes "worn k q" "nobody n s" "k + length ys \<le> unat (dq_size q)"
  shows "\<exists>q'. dq_run n (map FPut ys) (q, s) = (replicate (length ys) (Ret RT_EOK, None), q', s) \<and> worn (k + length ys) q' \<and> dq_size q' = dq_size q"
  using assms(1,3)
proof (induction ys arbitrary: k q)
  case (Cons y ys)
  obtain q1 where q1: "dq_store y q = Some q1" "dq_size q1 = dq_size q" "k < unat (dq_size q) \<longrightarrow> worn (Suc k) q1"
    using worn_store[OF Cons.prems(1), of y] by auto
  have "rt_data_queue_push None n y 0 (q, s) = (Ret RT_EOK, q1, s)"
    using worn_not_full[OF Cons.prems(1)] q1(1) assms(2) by (simp add: rt_data_queue_push_def nobody_def notify_def)
  with Cons.IH[of "Suc k" q1] Cons.prems(2) q1(2,3) show ?case by auto
qed simp

text \<open>The push that a full queue does not refuse overwrites its oldest item.\<close>

lemma worn_overflow:
  assumes "worn (unat (dq_size q)) q" "nobody n s" "unat (dq_size q) dvd 65536"
  shows "fst (dq_run n [FPut z, FGet] (q, s)) = [(Ret RT_EOK, None), (Ret RT_EOK, Some z)]"
proof -
  let ?k = "unat (dq_size q)"
  obtain q1 xs where q1: "dq_store z q = Some q1" "dq_size q1 = dq_size q" "dq_get q1 = 0xffff" "dq_put q1 = 0xffff + of_nat (Suc ?k)"
    "dq_items q1 = Some xs" "length xs = ?k" "xs ! slot (dq_put q) q = z"
    using worn_store[OF assms(1), of z] by auto
  have w: "0 < ?k" "dq_put q = 0xffff + of_nat ?k" using assms(1) by (simp_all add: worn_def)
  have k: "?k \<le> 32768"
  proof -
    obtain m where m: "65536 = ?k * m" using assms(3) by (elim dvdE)
    have "?k < 65536" using unsigned_less[of "dq_size q", where ?'a = nat] by simp
    then have "m \<noteq> 0" "m \<noteq> 1" using m by (auto intro!: notI)
    then have "2 \<le> m" by linarith
    then have "?k * 2 \<le> 65536" using m by (metis mult_le_mono2)
    then show ?thesis by simp
  qed
  have "65535 + ?k = ?k - 1 + 65536" using w(1) by linarith
  then have "(65535 + ?k) mod 65536 = (?k - 1) mod 65536" by (simp only: mod_add_self2)
  also have "\<dots> = ?k - 1" using k by simp
  finally have m: "(65535 + ?k) mod 65536 = ?k - 1" .
  have put: "unat (dq_put q) = ?k - 1" "unat (dq_put q1) = ?k"
    using w k q1(4) m by (simp_all add: unat_word_ariths unat_of_nat)
  have "65535 mod ?k = ?k - 1"
  proof -
    obtain m where m: "65536 = ?k * m" using assms(3) by (elim dvdE)
    then have "65535 = ?k - 1 + ?k * (m - 1)" using w(1) by (cases m) (auto simp: algebra_simps)
    then show ?thesis using w(1) by (metis mod_mult_self2 mod_less diff_less zero_less_one)
  qed
  then have sl: "slot (dq_get q1) q1 = slot (dq_put q) q" using put(1) w(1) by (simp add: slot_def q1(2,3))
  have "slot (dq_put q) q < length xs" using w(1) by (simp add: slot_def q1(6))
  then have f: "dq_fetch q1 = Some z" using q1(5,7) sl by (simp add: dq_fetch_def)
  have "unat (dq_get q1) = 65535" by (simp add: q1(3))
  then have ne: "dq_get q1 \<noteq> dq_put q1" using put(2) k by auto
  have "rt_data_queue_push None n z 0 (q, s) = (Ret RT_EOK, q1, s)"
    using worn_not_full[OF assms(1)] q1(1) assms(2) by (simp add: rt_data_queue_push_def nobody_def notify_def)
  then show ?thesis using f ne assms(2) by (simp add: rt_data_queue_pop_def nobody_def notify_def wake_first_def Let_def)
qed

text \<open>A data queue loses items once its 16-bit counter has wrapped: the test for a full queue compares the difference of the counters, which
  C computes in \<^verbatim>\<open>int\<close>, with the size. After 65535 pushes and pops the queue is empty; it is filled with \<open>ys\<close>; the next push is
  accepted although the queue is full, and the next pop answers with the new item, where a bounded queue refuses the push and
  answers with the oldest item.\<close>

theorem dq_overflow:
  fixes a z :: item
  assumes "length mem = unat sz" "unat sz dvd 65536" "length ys = unat sz"
  defines "ops \<equiv> rounds a 65535 @ map FPut ys @ [FPut z, FGet]"
  shows "fst (dq_run n ops (snd (rt_data_queue_init n sz lwm (Some mem) s))) =
      round_replies a 65535 @ replicate (unat sz) (Ret RT_EOK, None) @ [(Ret RT_EOK, None), (Ret RT_EOK, Some z)] \<and>
    fst (bounded_run (unat sz) ops []) =
      round_replies a 65535 @ replicate (unat sz) (Ret RT_EOK, None) @ [(Ret (-RT_ETIMEOUT), None), (Ret RT_EOK, Some (hd ys))]"
proof
  have "unat sz \<noteq> 0"
  proof
    assume "unat sz = 0"
    then show False using assms(2) by simp
  qed
  then have p: "0 < unat sz" "0 < sz" by (simp_all add: word_less_nat_alt)
  let ?d = "snd (rt_data_queue_init n sz lwm (Some mem) s)"
  note i = init_ok[OF assms(1) p(2), of n lwm s]
  obtain q s1 where d: "?d = (q, s1)" by (cases ?d)
  have q: "dq_ok q" "dq_abs q = []" "nobody n s1" "dq_put q = 0" "dq_size q = sz" using i by (simp_all add: d)
  obtain q' where g: "dq_run n (rounds a 65535) (q, s1) = (round_replies a 65535, q', s1)" "dq_ok q'" "dq_abs q' = []" "dq_size q' = sz"
    "unat (dq_put q') = 65535"
    using rounds_run[OF q(1,2,3), of 65535 a] q(4,5) by auto
  have "dq_put q' = 0xffff" using g(5) by (simp add: word_unat_eq_iff)
  then have w0: "worn 0 q'" using g(2-4) empty_iff[OF g(2)] by (simp add: worn_def dq_ok_def)
  obtain q2 where q2: "dq_run n (map FPut ys) (q', s1) = (replicate (length ys) (Ret RT_EOK, None), q2, s1)" "worn (length ys) q2" "dq_size q2 = sz"
    using worn_run[OF w0 q(3), of ys] g(4) assms(3) by auto
  have w: "worn (unat (dq_size q2)) q2" using q2(2,3) assms(3) by simp
  have l: "fst (dq_run n [FPut z, FGet] (q2, s1)) = [(Ret RT_EOK, None), (Ret RT_EOK, Some z)]"
    by (rule worn_overflow[OF w q(3)]) (simp add: q2(3) assms(2))
  obtain d3 where d3: "dq_run n [FPut z, FGet] (q2, s1) = ([(Ret RT_EOK, None), (Ret RT_EOK, Some z)], d3)" using l by (metis prod.collapse)
  show "fst (dq_run n ops ?d) = round_replies a 65535 @ replicate (unat sz) (Ret RT_EOK, None) @ [(Ret RT_EOK, None), (Ret RT_EOK, Some z)]"
    using g(1) q2(1) d3 assms(3) unfolding ops_def d dq_run_append by (simp del: dq_run.simps rounds.simps round_replies.simps)
  have "bounded_run (unat sz) [FPut z, FGet] ys = ([(Ret (-RT_ETIMEOUT), None), (Ret RT_EOK, Some (hd ys))], tl ys)"
    using assms(3) p(1) by (cases ys) auto
  then show "fst (bounded_run (unat sz) ops []) =
      round_replies a 65535 @ replicate (unat sz) (Ret RT_EOK, None) @ [(Ret (-RT_ETIMEOUT), None), (Ret RT_EOK, Some (hd ys))]"
    using bounded_rounds[OF p(1), of a 65535] bounded_puts[of "[]" ys "unat sz"] assms(3)
    unfolding ops_def bounded_run_append by (simp del: rounds.simps round_replies.simps bounded_run.simps)
qed

lemma dq_overflow_witness:
  "\<exists>rs. fst (dq_run 0 (rounds (0, 0) 65535 @ map FPut [(1, 4), (2, 4)] @ [FPut (3, 4), FGet])
       (snd (rt_data_queue_init 0 2 1 (Some [(0, 0), (0, 0)]) sample))) = rs @ [(Ret 0, None), (Ret 0, Some (3, 4))]"
proof -
  have "unat (2 :: u16) dvd 65536" by simp
  from dq_overflow[of "[(0, 0), (0, 0)]" 2 "[(1, 4), (2, 4)]" 0 "(0, 0)" "(3, 4)" 1 sample, OF _ this]
  show ?thesis by (auto simp del: rounds.simps round_replies.simps dq_run.simps)
qed

section \<open>Waiting\<close>

text \<open>A data queue delivers to a waiting thread: a thread that pops from an empty queue is suspended; whatever the kernel does
  meanwhile, as long as the thread still waits, a push makes it ready, and its call then answers with the item that was pushed.\<close>

theorem dq_delivers:
  assumes "calls s c" "dq_ok q" "dq_abs q = []" "lists s (DqPopL n) = []" "timeout \<noteq> 0" "unat (dq_put q) < 65535"
  shows "\<exists>s1. rt_data_queue_pop ev n timeout (q, s) = (Blocked, None, q, s1) \<and> kinv s1 \<and> statm s1 c = RT_THREAD_SUSPEND \<and>
      lists s1 (DqPopL n) = [c] \<and> t_error (thr s1 c) = RT_EOK \<and>
      (\<forall>s2. kinv s2 \<longrightarrow> cur s2 \<noteq> None \<longrightarrow> lists s2 (DqPopL n) = [c] \<longrightarrow> t_error (thr s2 c) = RT_EOK \<longrightarrow>
        (\<exists>q1 s3. rt_data_queue_push ev n it time (q, s2) = (Ret RT_EOK, q1, s3) \<and> kinv s3 \<and> awake s3 c \<and> lists s3 (DqPopL n) = [] \<and>
          (\<exists>d. rt_data_queue_pop_return c ev n timeout (q1, s3) = (Ret RT_EOK, Some it, d))))"
proof -
  let ?s1 = "block_on (DqPopL n) c RT_IPC_FLAG_FIFO timeout (upd_thr c (\<lambda>th. th\<lparr>t_error := RT_EOK\<rparr>) s)"
  have w: "wait_list (DqPopL n)" by simp
  note b = block_fifo[OF assms(1) w, where time = timeout]
  have e: "rt_data_queue_pop ev n timeout (q, s) = (Blocked, None, q, ?s1)"
    using assms(1,5) empty_iff[OF assms(2)] assms(3)
    by (simp add: rt_data_queue_pop_def dq_wait_def calls_def in_thread_context_def rt_thread_self_def)
  have nf: "\<not> dq_full q" using full_iff[OF assms(2)] assms(2,3) by (auto simp: dq_ok_def)
  obtain q1 where q1: "dq_store it q = Some q1" "dq_ok q1" "dq_abs q1 = [it]"
    using store_ok[OF assms(2) nf assms(6), of it] assms(3) by auto
  have ne: "dq_get q1 \<noteq> dq_put q1" using empty_iff[OF q1(2)] q1(3) by simp
  have "\<exists>q1 s3. rt_data_queue_push ev n it time (q, s2) = (Ret RT_EOK, q1, s3) \<and> kinv s3 \<and> awake s3 c \<and> lists s3 (DqPopL n) = [] \<and>
      (\<exists>d. rt_data_queue_pop_return c ev n timeout (q1, s3) = (Ret RT_EOK, Some it, d))"
    if h: "kinv s2" "cur s2 \<noteq> None" "lists s2 (DqPopL n) = [c]" "t_error (thr s2 c) = RT_EOK" for s2
  proof -
    obtain d where d: "cur s2 = Some d" using h(2) by auto
    note f = wake_first_effect[OF h(1) d w]
    have "rt_data_queue_push ev n it time (q, s2) = (Ret RT_EOK, q1, wake_first (DqPopL n) s2)"
      using nf q1(1) h(3) by (simp add: rt_data_queue_push_def)
    moreover have "\<exists>d. rt_data_queue_pop_return c ev n timeout (q1, wake_first (DqPopL n) s2) = (Ret RT_EOK, Some it, d)"
      using fetch_ok(1)[OF q1(2) ne] q1(3) ne f(6)[where u = c] h(4) by (simp add: rt_data_queue_pop_return_def rt_data_queue_pop_def Let_def)
    ultimately show ?thesis using f(1,3,5) h(3) by auto
  qed
  then show ?thesis using e b(1,3,4,6) assms(4) by auto
qed

lemma dq_delivers_witness:
  "\<exists>s1. rt_data_queue_pop None 0 50 (fst (snd (rt_data_queue_init 0 2 1 (Some [(0, 0), (0, 0)]) sample)), sample) =
     (Blocked, None, fst (snd (rt_data_queue_init 0 2 1 (Some [(0, 0), (0, 0)]) sample)), s1) \<and> lists s1 (DqPopL 0) = [0]"
proof -
  note i = init_ok[of "[(0, 0), (0, 0)]" 2 0 1 sample, simplified]
  have "lists sample (DqPopL 0) = []" by (simp add: sample_def sample_lists_def)
  from dq_delivers[OF sample_calls i(1,2) this, where timeout = 50 and ev = None and it = "(1, 1)" and time = 0] i(4)
  show ?thesis by force
qed

section \<open>Reset\<close>

lemma kinv_lock: "kinv (s\<lparr>lock_nest := v\<rparr>) = kinv s"
proof -
  have "statm (s\<lparr>lock_nest := v\<rparr>) = statm s" "prio (s\<lparr>lock_nest := v\<rparr>) = prio s" "thread_ok (s\<lparr>lock_nest := v\<rparr>) = thread_ok s"
    by (simp_all add: statm_def prio_def thread_ok_def fun_eq_iff)
  then show ?thesis by (intro kinv_frame) simp_all
qed

lemma exit_critical_effect:
  assumes "kinv s" "cur s = Some c"
  shows "kinv (rt_exit_critical s)" "cur (rt_exit_critical s) \<noteq> None" "wait_list l \<Longrightarrow> lists (rt_exit_critical s) l = lists s l"
    "t_error (thr (rt_exit_critical s) t) = t_error (thr s t)" "awake s t \<Longrightarrow> awake (rt_exit_critical s) t"
proof -
  have k: "kinv (s\<lparr>lock_nest := v\<rparr>)" for v using assms(1) kinv_lock by simp
  let ?s = "s\<lparr>lock_nest := 0\<rparr>"
  have c: "cur ?s = Some c" using assms(2) by simp
  note sel = rt_schedule_sel[OF k c] and o = rt_schedule_others[OF k c]
  show "kinv (rt_exit_critical s)" "cur (rt_exit_critical s) \<noteq> None" "wait_list l \<Longrightarrow> lists (rt_exit_critical s) l = lists s l"
    "t_error (thr (rt_exit_critical s) t) = t_error (thr s t)" "awake s t \<Longrightarrow> awake (rt_exit_critical s) t"
    using assms k rt_schedule_kinv[OF k c] sel(2) o(2)[of t] o(3)[of l] by (auto simp: rt_exit_critical_def Let_def kframe awake_def statm_def)
qed

text \<open>A reset sends every waiting thread away with \<open>-RT_ERROR\<close>; the items stay.\<close>

lemma reset_wakes:
  fixes n :: nat
  assumes "kinv s" "cur s = Some c"
  defines "s' \<equiv> rt_data_queue_reset n s"
  shows "kinv s'" "nobody n s'"
    "t \<in> set (lists s (DqPopL n)) \<union> set (lists s (DqPushL n)) \<Longrightarrow> awake s' t \<and> t_error (thr s' t) = -RT_ERROR"
proof -
  let ?e = "rt_enter_critical s"
  let ?a = "rt_ipc_list_resume_all (DqPopL n) ?e"
  let ?b = "rt_ipc_list_resume_all (DqPushL n) ?a"
  let ?x = "rt_exit_critical ?b"
  have e: "kinv ?e" "cur ?e = Some c" "lists ?e = lists s" using assms(1,2) by (simp_all add: rt_enter_critical_def kinv_lock)
  note a = resume_all_effect[OF e(1), of "DqPopL n", simplified, unfolded all_resumed_def e]
  then have ka: "kinv ?a" by simp
  note b = resume_all_effect[OF ka, of "DqPushL n", simplified, unfolded all_resumed_def]
  have kb: "kinv ?b" "cur ?b = Some c" using a b by simp_all
  have lb: "lists ?b (DqPopL n) = []" "lists ?b (DqPushL n) = []" using a b by simp_all
  note x = exit_critical_effect[OF kb]
  obtain d where d: "cur ?x = Some d" using x(2) by auto
  note o = rt_schedule_others[OF x(1) d]
  have s': "s' = rt_schedule ?x" by (simp add: s'_def rt_data_queue_reset_def)
  show "kinv s'" unfolding s' by (rule rt_schedule_kinv[OF x(1) d])
  show "nobody n s'" unfolding s' nobody_def using o(3)[of "DqPopL n"] o(3)[of "DqPushL n"] x(3)[of "DqPopL n"] x(3)[of "DqPushL n"] lb by simp
  show "awake s' t \<and> t_error (thr s' t) = -RT_ERROR" if t: "t \<in> set (lists s (DqPopL n)) \<union> set (lists s (DqPushL n))"
  proof -
    have "awake ?b t \<and> t_error (thr ?b t) = -RT_ERROR"
    proof (cases "t \<in> set (lists s (DqPushL n))")
      case True
      then have "t \<in> set (lists ?a (DqPushL n))" using a by simp
      then show ?thesis using b by blast
    next
      case False
      then have "t \<notin> set (lists ?a (DqPushL n))" using a by simp
      moreover have "awake ?a t" "t_error (thr ?a t) = -RT_ERROR" using a t False by auto
      ultimately show ?thesis using b by (auto simp: awake_def)
    qed
    then show ?thesis unfolding s' using x(4)[of t] x(5)[of t] o(2)[of t] by (simp add: kframe awake_def)
  qed
qed

end
