(* ===== verification/Spi.thy ===== *)
theory Spi
  imports Completion MemPool Device Led
begin

text \<open>
  The SPI bus: \<^verbatim>\<open>components/drivers/spi/spi_core.c\<close> over the driver of the board, \<^verbatim>\<open>drivers/drv_spi.c\<close>. The state \<open>spi_sys\<close> is one bus with its devices (by
  number), the kernel with the mutex \<open>sp_lock\<close> of the bus, and the peripheral. \<open>si_cfg\<close> is the pointer \<^verbatim>\<open>hspi->cfg\<close>, which points to the configuration
  of a device; \<open>si_wire\<close> is what the board sees: frames that were shifted out, levels written to pins, delays. The vendor library is the
  argument \<open>hal\<close> (whether \<^verbatim>\<open>HAL_SPI_Init\<close> accepts the settings) and \<open>pclk\<close> (the frequency of the bus clock); its waiting for the flags of the
  peripheral is left out. The buffers of one transfer do not overlap, and the \<^verbatim>\<open>rt_malloc\<close> of a new device succeeds (it is asserted). \<open>None\<close> is an access outside a buffer or through a null pointer.
\<close>

section \<open>Data\<close>

record spi_configuration =
  sc_mode :: u8
  sc_width :: u8
  sc_hz :: u32

record spi_message =
  sm_send :: "u8 list option"
  sm_recv :: "u8 list option"
  sm_length :: u32
  sm_take :: bool
  sm_release :: bool

datatype spi_wire = Level nat nat | Frame8 u8 | Frame16 u16 | Wait nat

record hal_spi_init =
  hi_slave :: bool
  hi_1line :: bool
  hi_16bit :: bool
  hi_2edge :: bool
  hi_high :: bool
  hi_prescaler :: nat
  hi_msb :: bool

record stm32_spi =
  si_cfg :: "nat option"
  si_regs :: "hal_spi_init option"
  si_wire :: "spi_wire list"
  si_in :: "nat \<Rightarrow> u16"
  si_count :: nat

record spi_sys =
  sp_kern :: kernel
  sp_lock :: nat
  sp_owner :: "nat option"
  sp_conf :: "nat \<Rightarrow> spi_configuration"
  sp_cs :: "nat \<Rightarrow> nat"
  sp_hw :: stm32_spi

abbreviation (input) RT_SPI_CPHA :: u8 where "RT_SPI_CPHA \<equiv> 1"
abbreviation (input) RT_SPI_CPOL :: u8 where "RT_SPI_CPOL \<equiv> 2"
abbreviation (input) RT_SPI_MSB :: u8 where "RT_SPI_MSB \<equiv> 4"
abbreviation (input) RT_SPI_SLAVE :: u8 where "RT_SPI_SLAVE \<equiv> 8"
abbreviation (input) RT_SPI_3WIRE :: u8 where "RT_SPI_3WIRE \<equiv> 64"
abbreviation (input) RT_SPI_MODE_MASK :: u8 where "RT_SPI_MODE_MASK \<equiv> 7"
abbreviation (input) RT_WAITING_FOREVER :: u32 where "RT_WAITING_FOREVER \<equiv> 0xFFFFFFFF"

definition on_hw :: "(stm32_spi \<Rightarrow> stm32_spi) \<Rightarrow> spi_sys \<Rightarrow> spi_sys" where
  "on_hw f S = S\<lparr>sp_hw := f (sp_hw S)\<rparr>"

definition wire :: "spi_wire list \<Rightarrow> stm32_spi \<Rightarrow> stm32_spi" where
  "wire ws h = h\<lparr>si_wire := si_wire h @ ws\<rparr>"

section \<open>The driver of the board\<close>

definition prescaler :: "u32 \<Rightarrow> u32 \<Rightarrow> nat" where
  "prescaler pclk hz =
     (if pclk div 2 \<le> hz then 2 else if pclk div 4 \<le> hz then 4 else if pclk div 8 \<le> hz then 8
      else if pclk div 16 \<le> hz then 16 else if pclk div 32 \<le> hz then 32 else if pclk div 64 \<le> hz then 64
      else if pclk div 128 \<le> hz then 128 else 256)"

definition stm32_spi_init :: "(hal_spi_init \<Rightarrow> bool) \<Rightarrow> u32 \<Rightarrow> spi_configuration \<Rightarrow> stm32_spi \<Rightarrow> int \<times> stm32_spi" where
  "stm32_spi_init hal pclk cfg h =
     (if sc_width cfg \<noteq> 8 \<and> sc_width cfg \<noteq> 16 then (RT_EIO, h)
      else
        let i = \<lparr>hi_slave = (sc_mode cfg AND RT_SPI_SLAVE \<noteq> 0), hi_1line = (sc_mode cfg AND RT_SPI_3WIRE \<noteq> 0),
                 hi_16bit = (sc_width cfg \<noteq> 8), hi_2edge = (sc_mode cfg AND RT_SPI_CPHA \<noteq> 0),
                 hi_high = (sc_mode cfg AND RT_SPI_CPOL \<noteq> 0), hi_prescaler = prescaler pclk (sc_hz cfg),
                 hi_msb = (sc_mode cfg AND RT_SPI_MSB \<noteq> 0)\<rparr>
        in if \<not> hal i then (RT_EIO, h) else (RT_EOK, h\<lparr>si_regs := Some i\<rparr>))"

definition spi_configure :: "(hal_spi_init \<Rightarrow> bool) \<Rightarrow> u32 \<Rightarrow> nat \<Rightarrow> spi_sys \<Rightarrow> int \<times> spi_sys" where
  "spi_configure hal pclk dev S =
     (case stm32_spi_init hal pclk (sp_conf S dev) ((sp_hw S)\<lparr>si_cfg := Some dev\<rparr>) of
        (r, h) \<Rightarrow> (r, S\<lparr>sp_hw := h\<rparr>))"

text \<open>The value written to the data register, from place \<open>i\<close> of the buffer, and what happens to the value read.\<close>

definition spi_send_1 :: "u8 \<Rightarrow> u8 list option \<Rightarrow> nat \<Rightarrow> u16 option" where
  "spi_send_1 w sb i =
     (case sb of
        None \<Rightarrow> Some 0xFF
      | Some bs \<Rightarrow>
          if w = 8 then if i < length bs then Some (ucast (bs ! i)) else None
          else if i + 1 < length bs then Some (ucast (bs ! i) OR push_bit 8 (ucast (bs ! (i + 1)))) else None)"

definition spi_recv_1 :: "u8 \<Rightarrow> u8 list option \<Rightarrow> nat \<Rightarrow> u16 \<Rightarrow> u8 list option option" where
  "spi_recv_1 w rcv i x =
     (case rcv of
        None \<Rightarrow> Some None
      | Some bs \<Rightarrow>
          if w = 8 then if i < length bs then Some (Some (bs[i := ucast x])) else None
          else if i + 1 < length bs then Some (Some (bs[i := ucast x, i + 1 := ucast (drop_bit 8 x)])) else None)"

definition spitxrx1b :: "u8 option \<Rightarrow> u8 list option \<Rightarrow> u8 list option \<Rightarrow> nat \<Rightarrow> stm32_spi \<Rightarrow> (int \<times> u8 list option \<times> stm32_spi) option" where
  "spitxrx1b width rcv sb i h =
     (if rcv = None \<and> sb = None then Some (RT_ERROR, rcv, h)
      else case width of
        None \<Rightarrow> None
      | Some w \<Rightarrow>
          (case spi_send_1 w sb i of
             None \<Rightarrow> None
           | Some v \<Rightarrow>
               let h1 = wire [if w = 8 then Frame8 (ucast v) else Frame16 v] h
               in (case spi_recv_1 w rcv i (si_in h1 (si_count h1)) of
                     None \<Rightarrow> None
                   | Some rcv' \<Rightarrow> Some (RT_EOK, rcv', h1\<lparr>si_count := si_count h1 + 1\<rparr>))))"

fun spi_loop :: "u8 option \<Rightarrow> nat \<Rightarrow> nat \<Rightarrow> u8 list option \<Rightarrow> u8 list option \<Rightarrow> stm32_spi \<Rightarrow> (nat \<times> u8 list option \<times> stm32_spi) option" where
  "spi_loop width 0 i rcv sb h = Some (0, rcv, h)"
| "spi_loop width (Suc n) i rcv sb h =
     (case spitxrx1b width rcv sb i h of
        None \<Rightarrow> None
      | Some (r, rcv', h') \<Rightarrow>
          if r \<noteq> RT_EOK then Some (Suc n, rcv', h')
          else spi_loop width n (i + (if width = Some 8 then 1 else 2)) rcv' sb h')"

definition spixfer :: "nat \<Rightarrow> spi_message \<Rightarrow> spi_sys \<Rightarrow> (u32 \<times> u8 list option \<times> spi_sys) option" where
  "spixfer dev m S =
     (let h0 = (if sm_take m then wire [Level (sp_cs S dev) 0] (sp_hw S) else sp_hw S)
      in case spi_loop (map_option (\<lambda>d. sc_width (sp_conf S d)) (si_cfg h0)) (unat (sm_length m)) 0 (sm_recv m) (sm_send m) h0 of
           None \<Rightarrow> None
         | Some (n, rcv, h1) \<Rightarrow>
             Some (sm_length m - of_nat n, rcv, S\<lparr>sp_hw := (if sm_release m then wire [Level (sp_cs S dev) 1] h1 else h1)\<rparr>))"

section \<open>The bus\<close>

definition rt_spi_bus_register :: "spi_sys \<Rightarrow> int \<Rightarrow> int \<times> spi_sys" where
  "rt_spi_bus_register S reg =
     (if reg \<noteq> RT_EOK then (reg, S)
      else (RT_EOK, S\<lparr>sp_kern := snd (rt_mutex_init (sp_lock S) RT_IPC_FLAG_FIFO (sp_kern S)), sp_owner := None\<rparr>))"

text \<open>\<open>found\<close>: the container knows the bus by its name; \<open>reg\<close>: the result of the registration of the device.\<close>

definition rt_spi_bus_attach_device :: "nat \<Rightarrow> bool \<Rightarrow> int \<Rightarrow> nat \<Rightarrow> spi_sys \<Rightarrow> int \<times> spi_sys" where
  "rt_spi_bus_attach_device dev found reg pin S =
     (if \<not> found then (-RT_ERROR, S)
      else if reg \<noteq> RT_EOK then (reg, S)
      else (RT_EOK, S\<lparr>sp_conf := (sp_conf S)(dev := \<lparr>sc_mode = 0, sc_width = 0, sc_hz = 0\<rparr>), sp_cs := (sp_cs S)(dev := pin)\<rparr>))"

definition stm32_spi_bus_attach_device :: "nat \<Rightarrow> bool \<Rightarrow> int \<Rightarrow> nat \<Rightarrow> spi_sys \<Rightarrow> int \<times> spi_sys" where
  "stm32_spi_bus_attach_device dev found reg pin S =
     rt_spi_bus_attach_device dev found reg pin (on_hw (wire [Level pin 1]) S)"

text \<open>A call takes the lock of the bus first: it parks when another thread holds it, and goes on when its thread runs again.\<close>

datatype ('a, 's) bus_call = Parked 's | Finished 'a 's

definition bus_enter :: "outcome \<times> kernel \<Rightarrow> (int \<Rightarrow> spi_sys \<Rightarrow> ('a \<times> spi_sys) option) \<Rightarrow> spi_sys \<Rightarrow> ('a, spi_sys) bus_call option" where
  "bus_enter taken body S =
     (case taken of
        (Blocked, k) \<Rightarrow> Some (Parked (S\<lparr>sp_kern := k\<rparr>))
      | (Ret r, k) \<Rightarrow> map_option (\<lambda>(a, S'). Finished a S') (body r (S\<lparr>sp_kern := k\<rparr>)))"

definition with_bus :: "(int \<Rightarrow> spi_sys \<Rightarrow> ('a \<times> spi_sys) option) \<Rightarrow> spi_sys \<Rightarrow> ('a, spi_sys) bus_call option" where
  "with_bus body S = bus_enter (rt_mutex_take (sp_lock S) RT_WAITING_FOREVER (sp_kern S)) body S"

definition resume_bus :: "tid \<Rightarrow> (int \<Rightarrow> spi_sys \<Rightarrow> ('a \<times> spi_sys) option) \<Rightarrow> spi_sys \<Rightarrow> ('a, spi_sys) bus_call option" where
  "resume_bus t body S = bus_enter (rt_mutex_take_return (sp_lock S) RT_WAITING_FOREVER t (sp_kern S)) body S"

definition unlock :: "spi_sys \<Rightarrow> spi_sys" where
  "unlock S = S\<lparr>sp_kern := snd (rt_mutex_release (sp_lock S) (sp_kern S))\<rparr>"

definition spi_errno :: "int \<Rightarrow> spi_sys \<Rightarrow> spi_sys" where
  "spi_errno e S = S\<lparr>sp_kern := rt_set_errno e (sp_kern S)\<rparr>"

text \<open>The start of every transfer: the bus is configured for the device unless the device is its owner.\<close>

definition bus_own :: "(hal_spi_init \<Rightarrow> bool) \<Rightarrow> u32 \<Rightarrow> nat \<Rightarrow> spi_sys \<Rightarrow> bool \<times> spi_sys" where
  "bus_own hal pclk dev S =
     (if sp_owner S = Some dev then (True, S)
      else case spi_configure hal pclk dev S of
        (r, S1) \<Rightarrow> if r = RT_EOK then (True, S1\<lparr>sp_owner := Some dev\<rparr>) else (False, S1))"

definition configure_body :: "(hal_spi_init \<Rightarrow> bool) \<Rightarrow> u32 \<Rightarrow> nat \<Rightarrow> int \<Rightarrow> spi_sys \<Rightarrow> (int \<times> spi_sys) option" where
  "configure_body hal pclk dev r S =
     Some (RT_EOK, if r \<noteq> RT_EOK then S
                   else unlock (if sp_owner S = Some dev then snd (spi_configure hal pclk dev S) else S))"

definition set_config :: "nat \<Rightarrow> spi_configuration \<Rightarrow> spi_sys \<Rightarrow> spi_sys" where
  "set_config dev cfg S =
     S\<lparr>sp_conf := (sp_conf S)(dev := \<lparr>sc_mode = sc_mode cfg AND RT_SPI_MODE_MASK, sc_width = sc_width cfg, sc_hz = sc_hz cfg\<rparr>)\<rparr>"

definition rt_spi_configure :: "(hal_spi_init \<Rightarrow> bool) \<Rightarrow> u32 \<Rightarrow> nat \<Rightarrow> spi_configuration \<Rightarrow> spi_sys \<Rightarrow> (int, spi_sys) bus_call option" where
  "rt_spi_configure hal pclk dev cfg S = with_bus (configure_body hal pclk dev) (set_config dev cfg S)"

definition then_body :: "(hal_spi_init \<Rightarrow> bool) \<Rightarrow> u32 \<Rightarrow> nat \<Rightarrow> spi_message \<Rightarrow> spi_message \<Rightarrow> int \<Rightarrow> spi_sys
    \<Rightarrow> ((int \<times> u8 list option) \<times> spi_sys) option" where
  "then_body hal pclk dev m1 m2 r S =
     (if r \<noteq> RT_EOK then Some ((-RT_EIO, sm_recv m2), S)
      else case bus_own hal pclk dev S of
        (False, S1) \<Rightarrow> Some ((-RT_EIO, sm_recv m2), unlock S1)
      | (True, S1) \<Rightarrow>
          (case spixfer dev m1 S1 of
             None \<Rightarrow> None
           | Some (n1, _, S2) \<Rightarrow>
               if n1 = 0 then Some ((-RT_EIO, sm_recv m2), unlock S2)
               else (case spixfer dev m2 S2 of
                       None \<Rightarrow> None
                     | Some (n2, rcv, S3) \<Rightarrow> Some ((if n2 = 0 then -RT_EIO else RT_EOK, rcv), unlock S3))))"

definition rt_spi_send_then_send :: "(hal_spi_init \<Rightarrow> bool) \<Rightarrow> u32 \<Rightarrow> nat \<Rightarrow> u8 list option \<Rightarrow> u32 \<Rightarrow> u8 list option \<Rightarrow> u32 \<Rightarrow> spi_sys
    \<Rightarrow> (int \<times> u8 list option, spi_sys) bus_call option" where
  "rt_spi_send_then_send hal pclk dev b1 n1 b2 n2 =
     with_bus (then_body hal pclk dev
       \<lparr>sm_send = b1, sm_recv = None, sm_length = n1, sm_take = True, sm_release = False\<rparr>
       \<lparr>sm_send = b2, sm_recv = None, sm_length = n2, sm_take = False, sm_release = True\<rparr>)"

definition rt_spi_send_then_recv :: "(hal_spi_init \<Rightarrow> bool) \<Rightarrow> u32 \<Rightarrow> nat \<Rightarrow> u8 list option \<Rightarrow> u32 \<Rightarrow> u8 list option \<Rightarrow> u32 \<Rightarrow> spi_sys
    \<Rightarrow> (int \<times> u8 list option, spi_sys) bus_call option" where
  "rt_spi_send_then_recv hal pclk dev b1 n1 b2 n2 =
     with_bus (then_body hal pclk dev
       \<lparr>sm_send = b1, sm_recv = None, sm_length = n1, sm_take = True, sm_release = False\<rparr>
       \<lparr>sm_send = None, sm_recv = b2, sm_length = n2, sm_take = False, sm_release = True\<rparr>)"

definition transfer_body :: "(hal_spi_init \<Rightarrow> bool) \<Rightarrow> u32 \<Rightarrow> nat \<Rightarrow> spi_message \<Rightarrow> int \<Rightarrow> spi_sys \<Rightarrow> ((u32 \<times> u8 list option) \<times> spi_sys) option" where
  "transfer_body hal pclk dev m r S =
     (if r \<noteq> RT_EOK then Some ((0, sm_recv m), spi_errno (-RT_EIO) S)
      else case bus_own hal pclk dev S of
        (False, S1) \<Rightarrow> Some ((0, sm_recv m), unlock (spi_errno (-RT_EIO) S1))
      | (True, S1) \<Rightarrow>
          (case spixfer dev m S1 of
             None \<Rightarrow> None
           | Some (n, rcv, S2) \<Rightarrow> Some ((n, rcv), unlock (if n = 0 then spi_errno (-RT_EIO) S2 else S2))))"

definition rt_spi_transfer :: "(hal_spi_init \<Rightarrow> bool) \<Rightarrow> u32 \<Rightarrow> nat \<Rightarrow> u8 list option \<Rightarrow> u8 list option \<Rightarrow> u32 \<Rightarrow> spi_sys
    \<Rightarrow> (u32 \<times> u8 list option, spi_sys) bus_call option" where
  "rt_spi_transfer hal pclk dev sb rcv len =
     with_bus (transfer_body hal pclk dev \<lparr>sm_send = sb, sm_recv = rcv, sm_length = len, sm_take = True, sm_release = True\<rparr>)"

definition rt_spi_send :: "(hal_spi_init \<Rightarrow> bool) \<Rightarrow> u32 \<Rightarrow> nat \<Rightarrow> u8 list option \<Rightarrow> u32 \<Rightarrow> spi_sys
    \<Rightarrow> (u32 \<times> u8 list option, spi_sys) bus_call option" where
  "rt_spi_send hal pclk dev buf len = rt_spi_transfer hal pclk dev buf None len"

definition rt_spi_recv :: "(hal_spi_init \<Rightarrow> bool) \<Rightarrow> u32 \<Rightarrow> nat \<Rightarrow> u8 list option \<Rightarrow> u32 \<Rightarrow> spi_sys
    \<Rightarrow> (u32 \<times> u8 list option, spi_sys) bus_call option" where
  "rt_spi_recv hal pclk dev buf len = rt_spi_transfer hal pclk dev None buf len"

text \<open>A chain of messages; the result is the rest from the message that failed on, with the buffers received before it.\<close>

fun messages_loop :: "nat \<Rightarrow> spi_message list \<Rightarrow> spi_sys \<Rightarrow> ((spi_message list \<times> u8 list option list) \<times> spi_sys) option" where
  "messages_loop dev [] S = Some (([], []), S)"
| "messages_loop dev (m # ms) S =
     (case spixfer dev m S of
        None \<Rightarrow> None
      | Some (n, rcv, S1) \<Rightarrow>
          if n = 0 then Some ((m # ms, []), spi_errno (-RT_EIO) S1)
          else map_option (\<lambda>((rest, rs), S2). ((rest, rcv # rs), S2)) (messages_loop dev ms S1))"

definition messages_body :: "(hal_spi_init \<Rightarrow> bool) \<Rightarrow> u32 \<Rightarrow> nat \<Rightarrow> spi_message list \<Rightarrow> int \<Rightarrow> spi_sys
    \<Rightarrow> ((spi_message list \<times> u8 list option list) \<times> spi_sys) option" where
  "messages_body hal pclk dev ms r S =
     (if r \<noteq> RT_EOK then Some ((ms, []), spi_errno (-RT_EBUSY) S)
      else case bus_own hal pclk dev (spi_errno RT_EOK S) of
        (False, S1) \<Rightarrow> Some ((ms, []), unlock (spi_errno (-RT_EIO) S1))
      | (True, S1) \<Rightarrow> map_option (\<lambda>(x, S2). (x, unlock S2)) (messages_loop dev ms S1))"

definition rt_spi_transfer_message :: "(hal_spi_init \<Rightarrow> bool) \<Rightarrow> u32 \<Rightarrow> nat \<Rightarrow> spi_message list \<Rightarrow> spi_sys
    \<Rightarrow> (spi_message list \<times> u8 list option list, spi_sys) bus_call option" where
  "rt_spi_transfer_message hal pclk dev ms S =
     (if ms = [] then Some (Finished ([], []) S) else with_bus (messages_body hal pclk dev ms) S)"

definition take_bus_body :: "(hal_spi_init \<Rightarrow> bool) \<Rightarrow> u32 \<Rightarrow> nat \<Rightarrow> int \<Rightarrow> spi_sys \<Rightarrow> (int \<times> spi_sys) option" where
  "take_bus_body hal pclk dev r S =
     (if r \<noteq> RT_EOK then Some (-RT_EBUSY, spi_errno (-RT_EBUSY) S)
      else case bus_own hal pclk dev (spi_errno RT_EOK S) of
        (False, S1) \<Rightarrow> Some (-RT_EIO, unlock (spi_errno (-RT_EIO) S1))
      | (True, S1) \<Rightarrow> Some (RT_EOK, S1))"

definition rt_spi_take_bus :: "(hal_spi_init \<Rightarrow> bool) \<Rightarrow> u32 \<Rightarrow> nat \<Rightarrow> spi_sys \<Rightarrow> (int, spi_sys) bus_call option" where
  "rt_spi_take_bus hal pclk dev = with_bus (take_bus_body hal pclk dev)"

definition rt_spi_release_bus :: "nat \<Rightarrow> spi_sys \<Rightarrow> int \<times> spi_sys" where
  "rt_spi_release_bus dev S =
     (if sp_owner S \<noteq> Some dev then (RT_EOK, S\<lparr>sp_kern := fail (sp_kern S)\<rparr>) else (RT_EOK, unlock S))"

definition rt_spi_take :: "nat \<Rightarrow> spi_sys \<Rightarrow> (u32 \<times> u8 list option \<times> spi_sys) option" where
  "rt_spi_take dev = spixfer dev \<lparr>sm_send = None, sm_recv = None, sm_length = 0, sm_take = True, sm_release = False\<rparr>"

definition rt_spi_release :: "nat \<Rightarrow> spi_sys \<Rightarrow> (u32 \<times> u8 list option \<times> spi_sys) option" where
  "rt_spi_release dev = spixfer dev \<lparr>sm_send = None, sm_recv = None, sm_length = 0, sm_take = False, sm_release = True\<rparr>"

section \<open>The LED wall on the bus\<close>

text \<open>The operations of the LED driver carried out: \<^verbatim>\<open>LED_DATA\<close> rows are sent with length 48; \<open>dev\<close> is the device \<^verbatim>\<open>spi10\<close>, whose chip select
  is pin 40; \<open>found\<close> and \<open>reg\<close> are as in \<open>rt_spi_bus_attach_device\<close>. A call that parks, or a device that was not attached, is \<open>None\<close>.\<close>

definition bus_done :: "('a, 's) bus_call option \<Rightarrow> 's option" where
  "bus_done r = (case r of Some (Finished a S) \<Rightarrow> Some S | _ \<Rightarrow> None)"

fun led_do :: "(hal_spi_init \<Rightarrow> bool) \<Rightarrow> u32 \<Rightarrow> bool \<Rightarrow> int \<Rightarrow> nat \<Rightarrow> led_op \<Rightarrow> spi_sys \<Rightarrow> spi_sys option" where
  "led_do hal pclk found reg dev (PinOutput p) S = Some S"
| "led_do hal pclk found reg dev (PinWrite p v) S = Some (on_hw (wire [Level p v]) S)"
| "led_do hal pclk found reg dev SpiAttach S = Some (snd (stm32_spi_bus_attach_device dev found reg 40 S))"
| "led_do hal pclk found reg dev SpiFind S = (if found \<and> reg = RT_EOK then Some S else None)"
| "led_do hal pclk found reg dev SpiConfigure S =
     bus_done (rt_spi_configure hal pclk dev \<lparr>sc_mode = RT_SPI_MSB, sc_width = 8, sc_hz = 1000000\<rparr> S)"
| "led_do hal pclk found reg dev (SpiSend bs) S = bus_done (rt_spi_send hal pclk dev (Some bs) 48 S)"
| "led_do hal pclk found reg dev (UsDelay n) S = Some (on_hw (wire [Wait n]) S)"

definition led_run :: "(hal_spi_init \<Rightarrow> bool) \<Rightarrow> u32 \<Rightarrow> bool \<Rightarrow> int \<Rightarrow> nat \<Rightarrow> led_op list \<Rightarrow> spi_sys \<Rightarrow> spi_sys option" where
  "led_run hal pclk found reg dev ops S = for_loop ops (led_do hal pclk found reg dev) S"

end
