(* ===== verification/SpiProps.thy ===== *)
theory SpiProps
  imports Spi
begin

text \<open>
  Transfers on the bus: a transfer on a free bus puts its bytes on the wire between the levels of the chip select and leaves the bus free; the LED
  wall over the bus; the clock; and what a device with a bad configuration does to the others.
\<close>

section \<open>The lock\<close>

definition bus_idle :: "tid \<Rightarrow> spi_sys \<Rightarrow> bool" where
  "bus_idle c S \<longleftrightarrow> calls (sp_kern S) c \<and> mutex_inv (sp_lock S) (sp_kern S) \<and> m_owner (mutexes (sp_kern S) (sp_lock S)) = None"

text \<open>The kernel between taking and releasing the lock, and after it, for a body that does not touch it.\<close>

definition held :: "int \<Rightarrow> tid \<Rightarrow> nat \<Rightarrow> kernel \<Rightarrow> kernel" where
  "held e c n k = upd_mutex n (\<lambda>x. x\<lparr>m_value := 0, m_owner := Some c, m_original_priority := t_current_priority (thr k c), m_hold := 1\<rparr>)
     (upd_thr c (\<lambda>th. th\<lparr>t_error := e\<rparr>) k)"

lemma take_idle:
  assumes "calls k c" "mutex_inv n k" "m_owner (mutexes k n) = None"
  shows "rt_mutex_take n time k = (Ret RT_EOK, held RT_EOK c n k)"
proof -
  have m: "is_mutex n k" "m_value (mutexes k n) = 1" "m_hold (mutexes k n) = 0" using assms(2,3) by (auto simp: mutex_inv_def)
  have c: "cur k = Some c" "int_nest k = 0" using assms(1) by (simp_all add: calls_def)
  have p: "t_current_priority (thr (upd_thr c (\<lambda>th. th\<lparr>t_error := RT_EOK\<rparr>) k) u) = t_current_priority (thr k u)" for u
    by (simp add: upd_thr_def)
  show ?thesis using mutex_take_now(2)[OF c m(1)] assms(3) m(2,3) by (simp add: mutex_again_def kframe p held_def upd_mutex_def)
qed

lemma release_held:
  fixes e :: int
  assumes "calls k c" "mutex_inv n k" "m_owner (mutexes k n) = None"
  defines "k' \<equiv> snd (rt_mutex_release n (held e c n k))"
  shows "calls k' c" "mutex_inv n k'" "m_owner (mutexes k' n) = None"
proof -
  let ?h = "held e c n k"
  have m: "is_mutex n k" "lists k (MutexL n) = []" using assms(2,3) by (auto simp: mutex_inv_def)
  have h: "cur ?h = Some c" "int_nest ?h = 0" "is_mutex n ?h" "m_owner (mutexes ?h n) = Some c" "m_hold (mutexes ?h n) = 1" "lists ?h = lists k"
    "statm ?h c = RT_THREAD_RUNNING" "m_value (mutexes ?h n) = 0"
    using assms(1) m by (simp_all add: calls_def held_def kframe upd_mutex_def upd_thr_def is_mutex_def statm_def)
  have kh: "kinv ?h" using assms(1) by (simp add: calls_def held_def kinv_upd_thr)
  let ?s1 = "upd_mutex n (\<lambda>x. x\<lparr>m_hold := m_hold x - 1\<rparr>) ?h"
  have r: "restore_prio n c ?s1 = ?s1" by (simp add: restore_prio_def held_def kframe upd_thr_def upd_mutex_def)
  have k': "k' = upd_mutex n (\<lambda>x. x\<lparr>m_value := m_value x + 1, m_owner := None, m_original_priority := 0xff\<rparr>) ?s1"
    using mutex_release_unfold[OF h(1-4)] h(5,6) m(2) unfolding k'_def by (simp add: Let_def r kframe)
  show "calls k' c" using h(1,2,7) kh by (simp add: calls_def k' kframe) (simp add: upd_mutex_def)
  show "m_owner (mutexes k' n) = None" by (simp add: k' kframe)
  then show "mutex_inv n k'" using h(3,5,6,8) m(2) by (simp add: mutex_inv_def k' kframe is_mutex_def)
qed

lemma errno_held:
  assumes "calls k c"
  shows "rt_set_errno e' (held e c n k) = held e' c n k"
  using assms by (simp add: rt_set_errno_def held_def calls_def rt_thread_self_def upd_thr_def upd_mutex_def)

text \<open>A body that leaves the kernel, apart from the error number, to the lock.\<close>

definition keeps :: "tid \<Rightarrow> spi_sys \<Rightarrow> spi_sys \<Rightarrow> bool" where
  "keeps c S S' \<longleftrightarrow> sp_lock S' = sp_lock S \<and> (\<exists>e. sp_kern S' = held e c (sp_lock S) (sp_kern S))"

lemma with_bus_idle:
  assumes "bus_idle c S"
  shows "with_bus body S = map_option (\<lambda>(a, S'). Finished a S') (body RT_EOK (S\<lparr>sp_kern := held RT_EOK c (sp_lock S) (sp_kern S)\<rparr>))"
  using take_idle[of "sp_kern S" c "sp_lock S"] assms by (simp add: with_bus_def bus_enter_def bus_idle_def)

lemma unlock_sel [simp]:
  "sp_hw (unlock S) = sp_hw S" "sp_owner (unlock S) = sp_owner S" "sp_conf (unlock S) = sp_conf S" "sp_cs (unlock S) = sp_cs S"
  "sp_lock (unlock S) = sp_lock S"
  by (simp_all add: unlock_def)

lemma unlock_idle:
  assumes "bus_idle c S" "keeps c S S'"
  shows "bus_idle c (unlock S')"
  using assms release_held[of "sp_kern S" c "sp_lock S"] by (auto simp: bus_idle_def keeps_def unlock_def)

section \<open>Transfers of bytes\<close>

definition settings :: "u32 \<Rightarrow> spi_configuration \<Rightarrow> hal_spi_init" where
  "settings pclk cfg =
     \<lparr>hi_slave = (sc_mode cfg AND RT_SPI_SLAVE \<noteq> 0), hi_1line = (sc_mode cfg AND RT_SPI_3WIRE \<noteq> 0), hi_16bit = (sc_width cfg \<noteq> 8),
      hi_2edge = (sc_mode cfg AND RT_SPI_CPHA \<noteq> 0), hi_high = (sc_mode cfg AND RT_SPI_CPOL \<noteq> 0),
      hi_prescaler = prescaler pclk (sc_hz cfg), hi_msb = (sc_mode cfg AND RT_SPI_MSB \<noteq> 0)\<rparr>"

text \<open>The peripheral is set up for the owner of the bus.\<close>

definition bus_ok :: "u32 \<Rightarrow> spi_sys \<Rightarrow> bool" where
  "bus_ok pclk S \<longleftrightarrow> (\<forall>d. sp_owner S = Some d \<longrightarrow> si_cfg (sp_hw S) = Some d \<and> si_regs (sp_hw S) = Some (settings pclk (sp_conf S d)))"

lemma own_ok:
  assumes "bus_ok pclk S" "sc_width (sp_conf S dev) = 8" "hal (settings pclk (sp_conf S dev))"
  shows "bus_own hal pclk dev S = (True, S\<lparr>sp_owner := Some dev,
    sp_hw := (sp_hw S)\<lparr>si_cfg := Some dev, si_regs := Some (settings pclk (sp_conf S dev))\<rparr>\<rparr>)"
proof (cases "sp_owner S = Some dev")
  case True
  then have "si_cfg (sp_hw S) = Some dev" "si_regs (sp_hw S) = Some (settings pclk (sp_conf S dev))" using assms(1) by (auto simp: bus_ok_def)
  with True show ?thesis by (cases S, cases "sp_hw S") (auto simp: bus_own_def)
next
  case False
  then show ?thesis using assms(2,3) by (simp add: bus_own_def spi_configure_def stm32_spi_init_def settings_def)
qed

lemma loop8:
  "i + n \<le> length bs \<Longrightarrow> spi_loop (Some 8) n i None (Some bs) h =
    Some (0, None, h\<lparr>si_wire := si_wire h @ map Frame8 (take n (drop i bs)), si_count := si_count h + n\<rparr>)"
proof (induction n arbitrary: i h)
  case (Suc n)
  have d: "take (Suc n) (drop i bs) = bs ! i # take n (drop (i + 1) bs)" using Suc.prems by (simp add: take_Suc_drop_nth)
  have u: "ucast (ucast x :: u16) = (x :: u8)" for x by (simp add: ucast_up_ucast_id is_up.rep_eq)
  show ?case using Suc d by (simp add: spitxrx1b_def spi_send_1_def spi_recv_1_def wire_def u Let_def)
qed simp

text \<open>What a finished transfer of bytes leaves behind.\<close>

definition sent :: "u32 \<Rightarrow> nat \<Rightarrow> u8 list \<Rightarrow> spi_sys \<Rightarrow> spi_sys \<Rightarrow> bool" where
  "sent pclk dev bs S S' \<longleftrightarrow> sp_owner S' = Some dev \<and> sp_conf S' = sp_conf S \<and> sp_cs S' = sp_cs S \<and> sp_lock S' = sp_lock S \<and> bus_ok pclk S' \<and>
     si_wire (sp_hw S') = si_wire (sp_hw S) @ Level (sp_cs S dev) 0 # map Frame8 bs @ [Level (sp_cs S dev) 1]"

lemma send_bytes:
  assumes "bus_idle c S" "bus_ok pclk S" "sc_width (sp_conf S dev) = 8" "hal (settings pclk (sp_conf S dev))" "0 < len" "unat len \<le> length bs"
  shows "\<exists>S'. rt_spi_send hal pclk dev (Some bs) len S = Some (Finished (len, None) S') \<and> bus_idle c S' \<and> sent pclk dev (take (unat len) bs) S S'"
proof -
  let ?S1 = "S\<lparr>sp_kern := held RT_EOK c (sp_lock S) (sp_kern S)\<rparr>"
  let ?h = "(sp_hw S)\<lparr>si_cfg := Some dev, si_regs := Some (settings pclk (sp_conf S dev))\<rparr>"
  let ?S2 = "?S1\<lparr>sp_owner := Some dev, sp_hw := ?h\<rparr>"
  let ?h3 = "wire [Level (sp_cs S dev) 1] (?h\<lparr>si_wire := (si_wire (sp_hw S) @ [Level (sp_cs S dev) 0]) @ map Frame8 (take (unat len) bs),
     si_count := si_count (sp_hw S) + unat len\<rparr>)"
  let ?S3 = "?S2\<lparr>sp_hw := ?h3\<rparr>"
  let ?m = "\<lparr>sm_send = Some bs, sm_recv = None, sm_length = len, sm_take = True, sm_release = True\<rparr>"
  have "bus_ok pclk ?S1" using assms(2) by (simp add: bus_ok_def)
  then have own: "bus_own hal pclk dev ?S1 = (True, ?S2)" using own_ok[of pclk ?S1 dev hal] assms(3,4) by simp
  have x: "spixfer dev ?m ?S2 = Some (len, None, ?S3)"
    using loop8[of 0 "unat len" bs] assms(3,6) by (simp add: spixfer_def wire_def)
  have "len \<noteq> 0" using assms(5) by simp
  then have b: "transfer_body hal pclk dev ?m RT_EOK ?S1 = Some ((len, None), unlock ?S3)" using own x by (simp add: transfer_body_def)
  have k: "keeps c S ?S3" by (auto simp: keeps_def)
  note u = unlock_idle[OF assms(1) k]
  have "sent pclk dev (take (unat len) bs) S (unlock ?S3)" by (simp add: sent_def bus_ok_def wire_def)
  moreover have "rt_spi_send hal pclk dev (Some bs) len S = Some (Finished (len, None) (unlock ?S3))"
    by (simp add: rt_spi_send_def rt_spi_transfer_def with_bus_idle[OF assms(1)] b)
  ultimately show ?thesis using u by blast
qed

lemma loop_recv8:
  "i + n \<le> length bs \<Longrightarrow> spi_loop (Some 8) n i (Some bs) None h =
    Some (0, Some (take i bs @ map (\<lambda>j. ucast (si_in h (si_count h + j))) [0..<n] @ drop (i + n) bs),
      h\<lparr>si_wire := si_wire h @ replicate n (Frame8 0xFF), si_count := si_count h + n\<rparr>)"
proof (induction n arbitrary: i bs h)
  case 0
  then show ?case by simp
next
  case (Suc n)
  let ?x = "ucast (si_in h (si_count h)) :: u8"
  have t: "take (Suc i) (bs[i := ?x]) = take i bs @ [?x]" using Suc.prems by (simp add: take_Suc_conv_app_nth)
  have u: "[0..<Suc n] = 0 # map Suc [0..<n]" by (simp add: upt_conv_Cons map_Suc_upt)
  show ?case using Suc t by (simp add: spitxrx1b_def spi_send_1_def spi_recv_1_def wire_def Let_def u comp_def del: upt_Suc)
qed

text \<open>C22: A command followed by an answer is one transaction: on a free bus, whoever owned it last, \<open>rt_spi_send_then_recv\<close> sets the
  peripheral up for the device, sends the bytes of the command and then fills the buffer with the bytes the device shifts in during the next
  frames, with the chip select low from the first byte to the last; the rest of the buffer is kept and the bus is free again.\<close>

theorem spi_send_then_recv:
  assumes "bus_idle c S" "bus_ok pclk S" "sc_width (sp_conf S dev) = 8" "hal (settings pclk (sp_conf S dev))"
    and "0 < n1" "unat n1 \<le> length bs" "0 < n2" "unat n2 \<le> length rb"
  shows "\<exists>S'. rt_spi_send_then_recv hal pclk dev (Some bs) n1 (Some rb) n2 S =
      Some (Finished (RT_EOK, Some (map (\<lambda>j. ucast (si_in (sp_hw S) (si_count (sp_hw S) + unat n1 + j))) [0..<unat n2] @ drop (unat n2) rb)) S') \<and>
    bus_idle c S' \<and> bus_ok pclk S' \<and> sp_owner S' = Some dev \<and> si_regs (sp_hw S') = Some (settings pclk (sp_conf S dev)) \<and>
    si_wire (sp_hw S') = si_wire (sp_hw S) @ Level (sp_cs S dev) 0 # map Frame8 (take (unat n1) bs) @
      replicate (unat n2) (Frame8 0xFF) @ [Level (sp_cs S dev) 1]"
proof -
  let ?S1 = "S\<lparr>sp_kern := held RT_EOK c (sp_lock S) (sp_kern S)\<rparr>"
  let ?h = "(sp_hw S)\<lparr>si_cfg := Some dev, si_regs := Some (settings pclk (sp_conf S dev))\<rparr>"
  let ?S2 = "?S1\<lparr>sp_owner := Some dev, sp_hw := ?h\<rparr>"
  let ?h3 = "?h\<lparr>si_wire := (si_wire (sp_hw S) @ [Level (sp_cs S dev) 0]) @ map Frame8 (take (unat n1) bs),
     si_count := si_count (sp_hw S) + unat n1\<rparr>"
  let ?h4 = "wire [Level (sp_cs S dev) 1] (?h3\<lparr>si_wire := si_wire ?h3 @ replicate (unat n2) (Frame8 0xFF), si_count := si_count ?h3 + unat n2\<rparr>)"
  let ?m1 = "\<lparr>sm_send = Some bs, sm_recv = None, sm_length = n1, sm_take = True, sm_release = False\<rparr>"
  let ?m2 = "\<lparr>sm_send = None, sm_recv = Some rb, sm_length = n2, sm_take = False, sm_release = True\<rparr>"
  let ?got = "map (\<lambda>j. ucast (si_in (sp_hw S) (si_count (sp_hw S) + unat n1 + j))) [0..<unat n2] @ drop (unat n2) rb"
  have "bus_ok pclk ?S1" using assms(2) by (simp add: bus_ok_def)
  then have own: "bus_own hal pclk dev ?S1 = (True, ?S2)" using own_ok[of pclk ?S1 dev hal] assms(3,4) by simp
  have x1: "spixfer dev ?m1 ?S2 = Some (n1, None, ?S2\<lparr>sp_hw := ?h3\<rparr>)"
    using loop8[of 0 "unat n1" bs] assms(3,6) by (simp add: spixfer_def wire_def)
  have x2: "spixfer dev ?m2 (?S2\<lparr>sp_hw := ?h3\<rparr>) = Some (n2, Some ?got, ?S2\<lparr>sp_hw := ?h4\<rparr>)"
    using loop_recv8[of 0 "unat n2" rb] assms(3,8) by (simp add: spixfer_def wire_def)
  have "n1 \<noteq> 0" "n2 \<noteq> 0" using assms(5,7) by auto
  then have b: "then_body hal pclk dev ?m1 ?m2 RT_EOK ?S1 = Some ((RT_EOK, Some ?got), unlock (?S2\<lparr>sp_hw := ?h4\<rparr>))"
    using own x1 x2 by (simp add: then_body_def)
  have k: "keeps c S (?S2\<lparr>sp_hw := ?h4\<rparr>)" by (auto simp: keeps_def)
  note u = unlock_idle[OF assms(1) k]
  have "rt_spi_send_then_recv hal pclk dev (Some bs) n1 (Some rb) n2 S =
      Some (Finished (RT_EOK, Some ?got) (unlock (?S2\<lparr>sp_hw := ?h4\<rparr>)))"
    by (simp add: rt_spi_send_then_recv_def with_bus_idle[OF assms(1)] b)
  moreover have "si_wire ?h4 = si_wire (sp_hw S) @ Level (sp_cs S dev) 0 # map Frame8 (take (unat n1) bs) @
      replicate (unat n2) (Frame8 0xFF) @ [Level (sp_cs S dev) 1]" "bus_ok pclk (unlock (?S2\<lparr>sp_hw := ?h4\<rparr>))"
    by (simp_all add: wire_def bus_ok_def)
  ultimately show ?thesis using u by (intro exI[of _ "unlock (?S2\<lparr>sp_hw := ?h4\<rparr>)"]) (simp add: wire_def)
qed

abbreviation led_cfg :: spi_configuration where
  "led_cfg \<equiv> \<lparr>sc_mode = RT_SPI_MSB, sc_width = 8, sc_hz = 1000000\<rparr>"

text \<open>A bus that device 1 owns, with a free lock; device 2 was attached but not configured.\<close>

definition sample_bus :: spi_sys where
  "sample_bus = \<lparr>sp_kern = sample, sp_lock = 2, sp_owner = Some 1,
     sp_conf = (\<lambda>d. if d = 2 then \<lparr>sc_mode = 0, sc_width = 0, sc_hz = 0\<rparr> else \<lparr>sc_mode = 4, sc_width = 8, sc_hz = 1000000\<rparr>),
     sp_cs = (\<lambda>d. 20 + d),
     sp_hw = \<lparr>si_cfg = Some 1, si_regs = Some (settings 72000000 \<lparr>sc_mode = 4, sc_width = 8, sc_hz = 1000000\<rparr>), si_wire = [],
              si_in = (\<lambda>j. of_nat j + 5), si_count = 0\<rparr>\<rparr>"

lemma sample_bus_idle: "bus_idle 0 sample_bus" "bus_ok 72000000 sample_bus"
  using sample_mutex_inv[of 2] sample_calls
  by (simp_all add: bus_idle_def bus_ok_def sample_bus_def sample_sel sample_mutex_def)

lemma spi_send_then_recv_witness:
  "\<exists>S'. rt_spi_send_then_recv (\<lambda>_. True) 72000000 3 (Some [0x9F]) 1 (Some [0, 0, 7]) 2 sample_bus =
      Some (Finished (RT_EOK, Some [6, 7, 7]) S') \<and> bus_idle 0 S' \<and> sp_owner S' = Some 3 \<and>
    si_wire (sp_hw S') = [Level 23 0, Frame8 0x9F, Frame8 0xFF, Frame8 0xFF, Level 23 1]"
proof -
  have s: "sp_conf sample_bus 3 = led_cfg" "sp_cs sample_bus 3 = 23" "si_wire (sp_hw sample_bus) = []" "si_count (sp_hw sample_bus) = 0"
    "si_in (sp_hw sample_bus) j = of_nat j + 5" for j
    by (simp_all add: sample_bus_def)
  have n: "[0..<2] = [0, 1 :: nat]" by (simp add: upt_rec)
  show ?thesis
    using spi_send_then_recv[OF sample_bus_idle, where dev = 3 and hal = "\<lambda>_. True" and ?n1.0 = 1 and bs = "[0x9F]" and ?n2.0 = 2 and rb = "[0, 0, 7]"]
    unfolding s by (simp add: n) (auto simp: numeral_2_eq_2)
qed

section \<open>The LED wall over the bus\<close>

text \<open>
  What the wall makes of the wire: the panels shift every frame in and hold the last 48 bytes; a panel whose enable is low during a delay
  shows them on the selected scan line. \<open>wall_step\<close> reads the levels and frames of the wire as \<open>scan_step\<close> reads the operations of the
  driver.
\<close>

fun wall_step :: "spi_wire \<Rightarrow> scan \<Rightarrow> scan" where
  "wall_step (Level p v) s = scan_step (PinWrite p v) s"
| "wall_step (Frame8 b) s = s\<lparr>shifted := drop (length (shifted s) - 47) (shifted s) @ [b], glitch := (glitch s \<or> lit s)\<rparr>"
| "wall_step (Frame16 b) s = s\<lparr>glitch := True\<rparr>"
| "wall_step (Wait n) s = scan_step (UsDelay n) s"

definition wall_run :: "spi_wire list \<Rightarrow> scan \<Rightarrow> scan" where
  "wall_run ws s = fold wall_step ws s"

text \<open>What an operation of the driver puts on the wire.\<close>

fun op_wire :: "led_op \<Rightarrow> spi_wire list" where
  "op_wire (PinWrite p v) = [Level p v]"
| "op_wire SpiAttach = [Level 40 1]"
| "op_wire (SpiSend bs) = Level 40 0 # map Frame8 bs @ [Level 40 1]"
| "op_wire (UsDelay n) = [Wait n]"
| "op_wire _ = []"

text \<open>The bus after the device of the wall was attached and configured.\<close>

definition wall_ready :: "tid \<Rightarrow> u32 \<Rightarrow> nat \<Rightarrow> spi_sys \<Rightarrow> bool" where
  "wall_ready c pclk dev S \<longleftrightarrow> bus_idle c S \<and> bus_ok pclk S \<and> sp_conf S dev = led_cfg \<and> sp_cs S dev = 40"

lemma wire_idle: "bus_idle c (on_hw (wire ws) S) = bus_idle c S" "bus_ok pclk (on_hw (wire ws) S) = bus_ok pclk S"
  "sp_conf (on_hw (wire ws) S) = sp_conf S" "sp_cs (on_hw (wire ws) S) = sp_cs S" "sp_owner (on_hw (wire ws) S) = sp_owner S"
  "si_wire (sp_hw (on_hw (wire ws) S)) = si_wire (sp_hw S) @ ws"
  by (simp_all add: bus_idle_def bus_ok_def on_hw_def wire_def)

fun scan_op :: "led_op \<Rightarrow> bool" where
  "scan_op (PinWrite p v) = True" | "scan_op (UsDelay n) = True" | "scan_op (SpiSend bs) = (length bs = 48)" | "scan_op _ = False"

lemma led_do_wire:
  assumes "wall_ready c pclk dev S" "hal (settings pclk led_cfg)" "scan_op x"
  shows "\<exists>S'. led_do hal pclk found reg dev x S = Some S' \<and> wall_ready c pclk dev S' \<and> si_wire (sp_hw S') = si_wire (sp_hw S) @ op_wire x"
proof (cases x)
  case (SpiSend bs)
  have r: "bus_idle c S" "bus_ok pclk S" "sp_conf S dev = led_cfg" "sp_cs S dev = 40" using assms(1) by (simp_all add: wall_ready_def)
  obtain S' where "rt_spi_send hal pclk dev (Some bs) 48 S = Some (Finished (48, None) S')" "bus_idle c S'" "sent pclk dev (take 48 bs) S S'"
    using send_bytes[OF r(1,2), of dev hal 48 bs] r(3) assms(2,3) SpiSend by auto
  then show ?thesis using SpiSend assms(3) r by (simp add: bus_done_def wall_ready_def sent_def)
qed (use assms in \<open>simp_all add: wall_ready_def wire_idle\<close>)

lemma led_run_wire:
  assumes "wall_ready c pclk dev S" "hal (settings pclk led_cfg)" "list_all scan_op ops"
  shows "\<exists>S'. led_run hal pclk found reg dev ops S = Some S' \<and> wall_ready c pclk dev S' \<and>
    si_wire (sp_hw S') = si_wire (sp_hw S) @ concat (map op_wire ops)"
  using assms(1,3)
proof (induction ops arbitrary: S)
  case Nil
  then show ?case by (simp add: led_run_def)
next
  case (Cons x ops)
  obtain S1 where 1: "led_do hal pclk found reg dev x S = Some S1" "wall_ready c pclk dev S1" "si_wire (sp_hw S1) = si_wire (sp_hw S) @ op_wire x"
    using led_do_wire[where hal = hal, OF Cons.prems(1) assms(2), of x] Cons.prems(2) by auto
  show ?case using Cons.IH[OF 1(2)] Cons.prems(2) 1(1,3) by (auto simp: led_run_def)
qed

lemma led_init_wire:
  assumes "bus_idle c S" "bus_ok pclk S" "sp_owner S \<noteq> Some dev"
  shows "\<exists>S'. led_run hal pclk True RT_EOK dev LED_12_Init S = Some S' \<and> wall_ready c pclk dev S' \<and>
    si_wire (sp_hw S') = si_wire (sp_hw S) @ concat (map op_wire LED_12_Init)"
proof -
  let ?ws = "[Level 11 0, Level 12 0, Level 13 1, Level 14 1, Level 15 1, Level 40 1]"
  let ?A = "(on_hw (wire ?ws) S)\<lparr>sp_cs := (sp_cs S)(dev := 40), sp_conf := (sp_conf S)(dev := led_cfg)\<rparr>"
  have A: "bus_idle c ?A" "bus_ok pclk ?A" using assms by (auto simp: bus_idle_def bus_ok_def on_hw_def wire_def)
  have o: "sp_owner (on_hw (wire ?ws) S) \<noteq> Some dev" using assms(3) by (simp add: wire_idle)
  let ?B = "?A\<lparr>sp_kern := held RT_EOK c (sp_lock S) (sp_kern S)\<rparr>"
  have k: "keeps c ?A ?B" by (auto simp: keeps_def on_hw_def)
  have B: "wall_ready c pclk dev (unlock ?B)" using unlock_idle[OF A(1) k] A(2) by (simp add: wall_ready_def bus_ok_def)
  have "led_run hal pclk True RT_EOK dev LED_12_Init S = bus_done (with_bus (configure_body hal pclk dev) ?A)"
    by (simp add: led_run_def LED_12_Init_def stm32_spi_bus_attach_device_def rt_spi_bus_attach_device_def on_hw_def wire_def
      rt_spi_configure_def set_config_def split: option.splits)
  also have "\<dots> = Some (unlock ?B)"
  proof -
    have "with_bus (configure_body hal pclk dev) ?A = Some (Finished RT_EOK (unlock ?B))"
      using assms(3) unfolding with_bus_idle[OF A(1)] by (simp add: configure_body_def on_hw_def)
    then show ?thesis by (simp only: bus_done_def option.case bus_call.case)
  qed
  finally have r: "led_run hal pclk True RT_EOK dev LED_12_Init S = Some (unlock ?B)" .
  have "si_wire (sp_hw (unlock ?B)) = si_wire (sp_hw S) @ concat (map op_wire LED_12_Init)"
    by (simp add: on_hw_def wire_def LED_12_Init_def)
  with r B show ?thesis by blast
qed

lemma wall_frames:
  "wall_run (map Frame8 bs) s = s\<lparr>shifted := (if bs = [] then shifted s else drop (length (shifted s) + length bs - 48) (shifted s @ bs)),
     glitch := (glitch s \<or> (bs \<noteq> [] \<and> lit s))\<rparr>"
proof (induction bs rule: rev_induct)
  case Nil
  then show ?case by (simp add: wall_run_def)
next
  case (snoc b bs)
  have "lit (s\<lparr>shifted := x, glitch := y\<rparr>) = lit s" for x y by (simp add: lit_def)
  moreover have "drop (length ys - 47) ys = drop (length zs - 47) zs" if "ys = drop (length zs - 48) zs" for ys zs :: "u8 list"
  proof -
    have "length zs - (length zs - 48 + 47) + (length zs - 48) = length zs - 47" by arith
    then show ?thesis using that by simp
  qed
  from this[of "drop (length (shifted s) + length bs - 48) (shifted s @ bs)" "shifted s @ bs"]
  have "drop (length (drop (length (shifted s) + length bs - 48) (shifted s @ bs)) - 47) (drop (length (shifted s) + length bs - 48) (shifted s @ bs))
    = drop (length (shifted s) + length bs - 47) (shifted s @ bs)" by simp
  moreover have "drop (length zs - 47) zs @ [b] = drop (length zs - 47) (zs @ [b])" for zs :: "u8 list" by simp
  from this[of "shifted s @ bs"] have "drop (length (shifted s) + length bs - 47) (shifted s @ bs) @ [b]
    = drop (length (shifted s) + length bs - 47) (shifted s @ bs @ [b])" by simp
  ultimately show ?case using snoc by (cases "bs = []") (simp_all add: wall_run_def del: drop_append length_drop drop_drop)
qed

text \<open>Up to the chip select, which the panels do not see, the wall sees of the wire what the driver meant.\<close>

definition wall_view :: "scan \<Rightarrow> scan" where
  "wall_view s = s\<lparr>pins := (pins s)(40 := 0)\<rparr>"

fun wall_op :: "led_op \<Rightarrow> bool" where
  "wall_op (PinWrite p v) = (p \<noteq> 40)" | "wall_op (SpiSend bs) = (length bs = 48)" | "wall_op _ = True"

lemma lit_view [simp]: "lit (wall_view s) = lit s" "shown (wall_view s) = shown s" "glitch (wall_view s) = glitch s"
  by (simp_all add: lit_def wall_view_def)

lemma wall_run_append: "wall_run (xs @ ys) s = wall_run ys (wall_run xs s)"
  by (simp add: wall_run_def)

lemma wall_op_view:
  assumes "wall_op x"
  shows "wall_view (wall_run (op_wire x) s) = scan_step x (wall_view s)"
proof (cases x)
  case (PinWrite p v)
  then show ?thesis using assms by (simp add: wall_run_def wall_view_def lit_def fun_upd_twist)
next
  case (SpiSend bs)
  have f: "wall_run (op_wire x) s = wall_run [Level 40 1] (wall_run (map Frame8 bs) (wall_run [Level 40 0] s))"
    using SpiSend by (simp add: wall_run_def)
  have "bs \<noteq> []" "length bs = 48" using assms SpiSend by auto
  then show ?thesis unfolding f wall_frames by (simp add: wall_run_def SpiSend wall_view_def lit_def)
qed (simp_all add: wall_run_def wall_view_def)

lemma wall_run_view:
  "list_all wall_op ops \<Longrightarrow> wall_view (wall_run (concat (map op_wire ops)) s) = scan_run ops (wall_view s)"
  by (induction ops arbitrary: s) (simp_all add: wall_run_append wall_op_view scan_run_def, simp add: wall_run_def)

definition wall_rows :: "led \<Rightarrow> (nat \<times> nat \<times> u8 list) list" where
  "wall_rows d = concat (map (\<lambda>row. [(13, row, d ! row), (14, row, d ! (row + 4)), (15, row, d ! (row + 8))]) [0..<4])"

lemma send_data_ops:
  assumes "LED_wf d"
  shows "list_all scan_op (LED_SendData d)" "list_all wall_op (LED_SendData d)"
proof -
  have "[0..<4] = [0, 1, 2, 3 :: nat]" by (simp add: upt_rec)
  then show "list_all scan_op (LED_SendData d)" "list_all wall_op (LED_SendData d)"
    using LED_wf_nth[OF assms] by (simp_all add: LED_SendData_def LED_SelectLine_def)
qed

lemma refreshes_show:
  "\<not> lit s \<Longrightarrow> shown (scan_run (concat (map LED_SendData ds)) s) = shown s @ concat (map wall_rows ds) \<and>
     \<not> lit (scan_run (concat (map LED_SendData ds)) s) \<and> glitch (scan_run (concat (map LED_SendData ds)) s) = glitch s"
proof (induction ds arbitrary: s)
  case (Cons d ds)
  have a: "scan_run (xs @ ys) s = scan_run ys (scan_run xs s)" for xs ys by (simp add: scan_run_def)
  show ?case using Cons.IH[of "scan_run (LED_SendData d) s"] LED_SendData_shows[OF Cons.prems, of d] by (simp add: a wall_rows_def)
qed (simp add: scan_run_def)

text \<open>C14: The LED wall over the bus: the driver of the wall attaches its device, configures it and refreshes the wall any number of times, each
  call through the lock and the transfers of the bus; every call succeeds, the bus is free at the end, and on the wire there are exactly the
  levels and frames by which the panels show the twelve rows of each frame buffer in turn, on the right scan lines, none while a panel is lit.\<close>

theorem led_over_spi:
  assumes "bus_idle c S" "bus_ok pclk S" "sp_owner S \<noteq> Some dev" "hal (settings pclk led_cfg)" "list_all LED_wf ds" "\<not> lit s"
  shows "\<exists>S' ws. led_run hal pclk True RT_EOK dev (LED_12_Init @ concat (map LED_SendData ds)) S = Some S' \<and>
    bus_idle c S' \<and> bus_ok pclk S' \<and> si_wire (sp_hw S') = si_wire (sp_hw S) @ ws \<and>
    shown (wall_run ws s) = shown s @ concat (map wall_rows ds) \<and> \<not> lit (wall_run ws s) \<and> glitch (wall_run ws s) = glitch s"
proof -
  let ?ds = "concat (map LED_SendData ds)"
  let ?ws = "concat (map op_wire (LED_12_Init @ ?ds))"
  have ops: "list_all scan_op ?ds" "list_all wall_op ?ds" using assms(5) send_data_ops by (auto simp: list_all_iff)
  obtain S1 where 1: "led_run hal pclk True RT_EOK dev LED_12_Init S = Some S1" "wall_ready c pclk dev S1"
    "si_wire (sp_hw S1) = si_wire (sp_hw S) @ concat (map op_wire LED_12_Init)"
    using led_init_wire[OF assms(1-3), of hal] by blast
  obtain S2 where 2: "led_run hal pclk True RT_EOK dev ?ds S1 = Some S2" "wall_ready c pclk dev S2"
    "si_wire (sp_hw S2) = si_wire (sp_hw S1) @ concat (map op_wire ?ds)"
    using led_run_wire[where hal = hal, OF 1(2) assms(4) ops(1)] by blast
  have r: "led_run hal pclk True RT_EOK dev (LED_12_Init @ ?ds) S = Some S2" using 1(1) 2(1) by (simp add: led_run_def for_loop_append)
  have i: "list_all wall_op LED_12_Init" by (simp add: LED_12_Init_def)
  have v: "wall_view (wall_run ?ws s) = scan_run ?ds (scan_run LED_12_Init (wall_view s))"
    using wall_run_view[of "LED_12_Init @ ?ds" s] i ops(2) by (simp add: scan_run_def)
  have d: "\<not> lit (scan_run LED_12_Init (wall_view s))" "shown (scan_run LED_12_Init (wall_view s)) = shown s"
    "glitch (scan_run LED_12_Init (wall_view s)) = glitch s"
    using assms(6) LED_Init_dark by (simp_all add: scan_run_def LED_12_Init_def lit_def wall_view_def)
  note w = refreshes_show[OF d(1), of ds, folded v, simplified]
  show ?thesis using r 1(3) 2(2,3) w d(2,3) by (intro exI[of _ S2] exI[of _ ?ws]) (simp add: wall_ready_def)
qed

lemma led_over_spi_witness:
  "\<exists>S'. led_run (\<lambda>_. True) 72000000 True RT_EOK 5 (LED_12_Init @ LED_SendData (LED_Clear [])) sample_bus = Some S' \<and> bus_idle 0 S'"
  using led_over_spi[OF sample_bus_idle, where dev = 5 and hal = "\<lambda>_. True" and ds = "[LED_Clear []]"
      and s = "\<lparr>pins = (\<lambda>_. 1), shifted = [], shown = [], glitch = False\<rparr>"] LED_Clear_pix
  by (auto simp: sample_bus_def lit_def)

section \<open>A device with a bad configuration\<close>

text \<open>A device whose configuration has a width other than 8 or 16 (such as one that was attached but not configured) fails its transfer with 0,
  but the driver has by then pointed \<^verbatim>\<open>hspi->cfg\<close> to its configuration, while the owner of the bus stays: the next transfer of the owner, with
  bytes, is not configured again, and reads its buffer two bytes at a time past its end.\<close>

theorem spi_stale_width:
  assumes "bus_idle c S" "sp_owner S = Some a" "a \<noteq> b" "sc_width (sp_conf S b) \<noteq> 8" "sc_width (sp_conf S b) \<noteq> 16"
    and "0 < len" "unat len = length bs"
  shows "\<exists>S1. rt_spi_send hal pclk b buf n S = Some (Finished (0, None) S1) \<and> bus_idle c S1 \<and> sp_owner S1 = Some a \<and>
    rt_spi_send hal pclk a (Some bs) len S1 = None"
proof -
  let ?h = "(sp_hw S)\<lparr>si_cfg := Some b\<rparr>"
  let ?S1 = "S\<lparr>sp_hw := ?h, sp_kern := held (-RT_EIO) c (sp_lock S) (sp_kern S)\<rparr>"
  let ?m = "\<lparr>sm_send = buf, sm_recv = None, sm_length = n, sm_take = True, sm_release = True\<rparr>"
  have k: "keeps c S ?S1" by (auto simp: keeps_def)
  note u = unlock_idle[OF assms(1) k]
  have e: "rt_set_errno (-RT_EIO) (held RT_EOK c (sp_lock S) (sp_kern S)) = held (-RT_EIO) c (sp_lock S) (sp_kern S)"
    using errno_held assms(1) by (simp add: bus_idle_def)
  have "transfer_body hal pclk b ?m RT_EOK (S\<lparr>sp_kern := held RT_EOK c (sp_lock S) (sp_kern S)\<rparr>) = Some ((0, None), unlock ?S1)"
    using assms(2-5) e by (simp add: transfer_body_def bus_own_def spi_configure_def stm32_spi_init_def spi_errno_def)
  then have 1: "rt_spi_send hal pclk b buf n S = Some (Finished (0, None) (unlock ?S1))"
    by (simp add: rt_spi_send_def rt_spi_transfer_def with_bus_idle[OF assms(1)])
  let ?S2 = "(unlock ?S1)\<lparr>sp_kern := held RT_EOK c (sp_lock S) (sp_kern (unlock ?S1))\<rparr>"
  have over: "spi_loop (Some w) n i None (Some bs) h = None" if "w \<noteq> 8" "i \<le> length bs" "length bs < i + 2 * n" for w n i h
    using that(2,3)
  proof (induction n arbitrary: i h)
    case (Suc n)
    then show ?case using that(1)
      by (cases "i + 1 < length bs") (simp_all add: spitxrx1b_def spi_send_1_def spi_recv_1_def wire_def Let_def)
  qed simp
  have "length bs < 2 * unat len" using assms(6,7) by (simp add: word_less_nat_alt)
  then have o: "spi_loop (Some (sc_width (sp_conf S b))) (unat len) 0 None (Some bs) h = None" for h using over assms(4) by simp
  have "rt_spi_send hal pclk a (Some bs) len (unlock ?S1) = None"
    using assms(2) o by (simp add: rt_spi_send_def rt_spi_transfer_def with_bus_idle[OF u] transfer_body_def bus_own_def spixfer_def wire_def)
  with 1 u assms(2) show ?thesis by (intro exI[of _ "unlock ?S1"]) simp
qed

lemma spi_stale_width_witness:
  "\<exists>S1. rt_spi_send (\<lambda>_. True) 72000000 2 (Some [1]) 1 sample_bus = Some (Finished (0, None) S1) \<and> bus_idle 0 S1 \<and>
    rt_spi_send (\<lambda>_. True) 72000000 1 (Some [1, 2]) 2 S1 = None"
  using spi_stale_width[OF sample_bus_idle(1), where a = 1 and b = 2 and len = 2 and bs = "[1, 2]" and hal = "\<lambda>_. True" and pclk = 72000000
      and buf = "Some [1]" and n = 1] by (auto simp: sample_bus_def)

end
