(* ===== verification/Spec2Isabelle.thy ===== *)
theory Spec2Isabelle
  imports Kworld SchedProps UserTimer IpcProps QueueProps LibProps MemProps ObjProps AppProps StationProps StationBoot IdleProps ShellPort RingBlk DataQueue SpiProps
begin

text \<open>
  Verification library of an environment monitoring station: a program for an STM32F103 on the real-time kernel
  RT-Thread 4.0.2, which measures temperature, humidity, noise and dust, posts the values over a narrow-band modem,
  and shows them on an LED wall.

  \<^bold>\<open>The program and its parts.\<close> \<^verbatim>\<open>applications/enviroment.c\<close> starts three threads. The sensor thread queries the sensor
  (\<^verbatim>\<open>Mydevice/BYH_M.c\<close>), mails five readings to each of two mailboxes, and releases two semaphores. The modem thread
  takes the first semaphore, receives the five values and posts them with four AT commands (\<^verbatim>\<open>Mydevice/NB_IOT.c\<close>),
  which run through the AT client of the system (\<^verbatim>\<open>components/net/at/src/at_client.c\<close>): its parser thread fills the
  response object that the modem thread waits for. The display thread takes the second semaphore, formats the
  values and draws them (\<^verbatim>\<open>Mydevice/LED_12.c\<close>). All of them call the kernel (\<^verbatim>\<open>rt-thread/src\<close>): threads, scheduler, timers,
  semaphores, mutexes, events, mailboxes, message queues, memory pools, and its small C library.

  \<^bold>\<open>The kernel model.\<close> The state \<open>kernel\<close> (theory \<open>Kernel\<close>) has one record field for each global of the sources: the thread
  control blocks, the lists a thread can be linked in (ready queues and waiting lists, one of each object), the
  bitmap of priorities, the current thread, the nesting counters, the timers and their list, the tick, and the
  objects by number. An operation takes and returns the state. \<open>stuck\<close> records a failed \<^verbatim>\<open>RT_ASSERT\<close> or a corrupted
  stack. An operation that blocks ends in the outcome \<open>Blocked\<close>, after the scheduler has chosen another thread; what it
  does when its thread runs again is a definition of its own (\<open>rt_sem_take_return\<close>, \<open>mb_recv_return\<close>, and so on).
  One theory per source file or object: \<open>DList\<close> (lists on a store of nodes), \<open>RingBuffer\<close>, \<open>Timer\<close>, \<open>Scheduler\<close>, \<open>Thread\<close>,
  \<open>Clock\<close>, \<open>Ipc\<close> (waiting lists), \<open>Semaphore\<close>, \<open>Mutex\<close>, \<open>Event\<close>, \<open>Mailbox\<close>, \<open>MsgQueue\<close>, \<open>MemPool\<close>. Words have their width: \<open>u8\<close>,
  \<open>u16\<close>, \<open>u32\<close>; counters and ticks wrap. \<open>kinv\<close> is the invariant of the lists, statuses, bitmap and timers, and every
  operation is shown to keep it. \<open>Kstep\<close> and \<open>Kworld\<close> make the calls and the tick one transition system; \<open>Timeout\<close> follows a
  sleeping or waiting thread over the ticks to its wake-up, \<open>UserTimer\<close> follows a timer of the application. \<open>Startup\<close> is the start of the kernel (\<^verbatim>\<open>src/components.c\<close>, \<^verbatim>\<open>rt_thread_idle_init\<close>)
  from a \<open>cold\<close> memory and shows that it establishes the invariant; \<open>Ksystem\<close> adds creation, deletion and control of all objects to the
  calls, so that \<open>sreach\<close> are the states a system reaches from power-up; the premises of its rules are the conditions of use of the calls.
  \<open>mutex_usable\<close> of \<open>Mutex\<close> is the one of \<^verbatim>\<open>rt_mutex_take\<close>, and \<open>mutex_take_unusable\<close> says what happens without it. \<open>queued\<close> of \<open>Ipc\<close> is the order
  of a waiting list, stated without the insertion of the code; \<open>StationBoot\<close> runs \<open>Enviroment\<close> after the start. \<open>Idle\<close> is
  \<^verbatim>\<open>src/idle.c\<close>: the cleanup of threads that have ended, on the kernel, the object container and the heap together (\<open>IdleProps\<close>).

  \<^bold>\<open>The C library.\<close> \<open>Kservice\<close> (memory and strings) has a memory of bytes and strings as lists of bytes, \<open>Kprintf\<close> the
  formatter; both are parts of \<^verbatim>\<open>src/kservice.c\<close>.

  \<^bold>\<open>The heap.\<close> \<open>Mem\<close> is \<^verbatim>\<open>src/mem.c\<close>: the headers of the blocks as a function of the offset, the data as a memory of bytes.
  \<open>heap_inv\<close> says that the blocks follow each other without a gap, linked in both directions, that no two neighbours are free,
  and that \<^verbatim>\<open>used_mem\<close> counts the blocks in use; \<open>layout_unique\<close> that the areas in use determine the blocks.
  \<open>heap_reach\<close> is what a program that frees only its own blocks can reach, from a region of at least 36 bytes; \<open>MemProps\<close> has the properties.
  The state has no interrupt counter: that \<^verbatim>\<open>rt_malloc\<close>, \<^verbatim>\<open>rt_realloc\<close> and \<^verbatim>\<open>rt_free\<close> are not called in an interrupt, which they assert, is a condition of use. The kernel objects
  are not placed in this heap: where the kernel allocates, the result is an argument.

  \<^bold>\<open>The object container.\<close> \<open>Object\<close> is \<^verbatim>\<open>src/object.c\<close>: a list of objects for each class, on the pointers of \<open>DList\<close>, with names of eight
  characters; dynamic objects come from the heap of \<open>Mem\<close>, searches take the scheduler lock of \<open>Scheduler\<close>. \<open>obj_inv\<close> says what is
  in the lists, \<open>obj_reach\<close> what a running system makes of them; \<open>ObjProps\<close> has the properties. The other kernel theories
  know an object by its number and carry its class where the code reads it.

  \<^bold>\<open>Devices and serial ports.\<close> \<open>Device\<close> is \<^verbatim>\<open>src/device.c\<close>: the operations on a device, generic in the record of its driver, which extends the
  common fields. \<open>Serial\<close> is \<^verbatim>\<open>components/drivers/serial/serial.c\<close> with the ports of \<^verbatim>\<open>drivers/drv_usart.c\<close>; the FIFO of a port lies in the heap
  of \<open>Mem\<close>, \<open>s_line\<close> holds the bytes that have reached the port, \<open>s_port\<close> what was asked of it. \<open>SerialFifo\<close> shows that the FIFO is the
  queue of the last bytes, \<open>SerialPort\<close> has the invariant \<open>serial_ok\<close> of a port and the port as a queue, \<open>SerialProps\<close> the properties.
  \<open>PortClients\<close> carries out the bus operations of the sensor's driver on a port, \<open>AtPort\<close> composes the port, its interrupt and the semaphore of
  the kernel with which the AT client waits.

  \<^bold>\<open>The helpers of drivers.\<close> \<open>RingBlk\<close> is \<^verbatim>\<open>components/drivers/src/ringblk_buf.c\<close>: blocks by their index in the array, the list of blocks as a list of
  indices; \<open>ring_ok\<close> says that the areas of the listed blocks go once round the buffer, \<open>rbb_reach\<close> what a user makes of a buffer. \<open>Completion\<close> and \<open>DataQueue\<close>
  are \<^verbatim>\<open>completion.c\<close> and \<^verbatim>\<open>dataqueue.c\<close> of the same directory, with their waiting lists in the kernel; the data queue is compared with a bounded queue, before
  and after its counters wrap. They have their properties with them. \<open>Spi\<close> is the SPI bus \<^verbatim>\<open>components/drivers/spi/spi_core.c\<close> with its mutex in the kernel, over the
  driver \<^verbatim>\<open>drivers/drv_spi.c\<close>; what leaves the peripheral is the list \<open>si_wire\<close>. \<open>SpiProps\<close> has the transfers and carries the LED driver's operations out
  on the bus: the panels, read from the wire, show the frame buffer.

  \<^bold>\<open>The drivers and the application.\<close> \<open>Byhm\<close>, \<open>Font\<close> and \<open>Led\<close>, \<open>AtClient\<close>, \<open>NbIot\<close>, \<open>Enviroment\<close>. \<open>None\<close> is a crash there (a null or
  dangling pointer, an access outside an array). What a device delivers is an argument: the bytes of the sensor, the
  bytes of the modem up to the timeout; what the program does to a device is a list of operations. The loop of the display thread
  (\<open>led_turn\<close>) has, besides, a list of what the other threads do at each point where it can be preempted or is parked.

  \<^bold>\<open>The shell.\<close> \<open>Msh\<close> is \<^verbatim>\<open>components/finsh/msh.c\<close>: a line is a buffer of bytes that is split in place, an argument a place in it, the table
  of commands an argument; \<open>MshSpec\<close> shows what is made of a line written down from words and that completion is the longest common
  prefix, \<open>MshLines\<close> that every line is handled. \<open>Shell\<close> is the loop of \<^verbatim>\<open>components/finsh/shell.c\<close> byte by byte; \<open>holds_text\<close> relates the buffer
  to the text before and behind the cursor (\<open>ShellSpec\<close>), \<open>shell_ok\<close> is the invariant of line and history. \<open>Console\<close> is the console of \<^verbatim>\<open>kservice.c\<close> on the ports, with the heap and the objects of the
  system; \<open>ShellPort\<close> puts the shell on its device, with the semaphore it waits for. \<open>ShellProps\<close> and \<open>ShellPort\<close> have the properties.

  \<^bold>\<open>The interface.\<close> The locale \<open>fifo\<close> of \<open>Prelude\<close> states what a bounded queue promises of its put and get; it is interpreted on
  the mailbox, the message queue and the ring buffer, and their refinement lemmas rest on it. The locale \<open>driver\<close> of \<open>Device\<close>
  states what the device layer needs of a driver: that its functions keep its invariant and leave the count of users alone. It is
  interpreted on the ports of the board (\<open>SerialPort\<close>).

  \<^bold>\<open>The properties.\<close> \<open>SchedProps\<close> (scheduling, time slices, expiry of timers, sleeping), \<open>IpcProps\<close> (semaphores and mutexes
  against an abstract counter and lock, inheritance, events), \<open>QueueProps\<close> (mailboxes, queues, pools, ring buffer, lists),
  \<open>LibProps\<close> (memory, strings, formatting against reference definitions), \<open>AppProps\<close> (sensor and LED wall),
  \<open>StationProps\<close> (AT client, a measurement from the sensor to the server and to the wall), and the safety of the
  kernel below. Properties about faults of the code state what it does. \<open>Sample\<close> and \<open>station_state\<close> are
  the concrete states at which the properties are applied.

  \<^bold>\<open>Fuel.\<close> \<open>rt_timer_check_loop\<close> has a fuel, as a handler can arm a timer anew with period zero; \<open>length (timer_list s) + 1\<close> is
  shown to be enough for the one-shot timers of threads. \<open>resume_all_loop\<close> runs once for each waiting thread. The searches along the heap
  have \<open>heap_fuel\<close>, more than the offsets of the heap, and are shown to end with it (\<open>heap_returns\<close>). All
  other loops are structural or have a termination proof.

  \<^bold>\<open>Not modelled.\<close> The other allocators (\<^verbatim>\<open>memheap.c\<close>, \<^verbatim>\<open>slab.c\<close>), the
  initialisation of the board and the table of initialisation functions that the linker builds, work queues and pipes (nothing creates one), signals, several processors and soft timers (off in this configuration), the pin and clock
  drivers, transmission of a serial port with interrupts or DMA (an argument, which the board never uses), what the commands of the shell do and what it echoes, file systems, network stacks, assembly and vendor code. Memory
  pools are not part of the transition system, because a timeout there corrupts the pool (a property below).
\<close>

section \<open>The kernel as a whole\<close>

lemma sample_wsys: "wsys sample"
  by (simp add: wsys_def sample_ksys objects_ok_def sample_mutex_inv sample_mb sample_mq)

text \<open>C1: From power-up, no sequence of ticks, calls, creations and deletions of threads, semaphores, mutexes, events, mailboxes and
  message queues, and of threads that resume a blocked call, fails an assertion or corrupts lists, bitmap, timers or objects, if the
  callers keep the conditions of the transitions: an object is of its class, static objects are detached and dynamic ones deleted, neither
  an object with waiters nor a linked thread is initialised; what may block or allocates is called by a running thread, outside
  interrupts; time limits are below half the range of the clock, priorities below 32, counts 16 bits, mailboxes and messages not empty,
  stacks hold a frame; an event's option says AND or OR; no other running thread is suspended, only a new one started; a mutex
  is taken only when usable. The last is necessary: in every reachable state an unusable take either wraps the owner's counter, at the
  256th nested take, or fails an assertion, raising an owner that exited with the mutex.\<close>

theorem system_safe:
  assumes "sreach tf s"
  shows "kinv s \<and> \<not> stuck s \<and> tm_ok s \<and> (\<forall>n. is_sem n s \<longrightarrow> sem_inv n s) \<and>
    (\<forall>n. is_mutex n s \<longrightarrow> mutex_inv n s) \<and> (\<forall>n. is_mb n s \<longrightarrow> mb_inv (mboxes s n)) \<and>
    (\<forall>n. is_mq n s \<longrightarrow> mq_inv (mqs s n)) \<and>
    (\<forall>c n time. running s c \<longrightarrow> int_nest s = 0 \<longrightarrow> is_mutex n s \<longrightarrow> sint time < 2147483647 \<longrightarrow> \<not> mutex_usable c n time s \<longrightarrow>
       (if m_owner (mutexes s n) = Some c then m_hold (mutexes (snd (rt_mutex_take n time s)) n) = 0
        else stuck (snd (rt_mutex_take n time s))))"
proof -
  have w: "kinv s" "\<not> stuck s" "tm_ok s" "\<forall>n. is_sem n s \<longrightarrow> sem_inv n s" "\<forall>n. is_mutex n s \<longrightarrow> mutex_inv n s"
    "\<forall>n. is_mb n s \<longrightarrow> mb_inv (mboxes s n)" "\<forall>n. is_mq n s \<longrightarrow> mq_inv (mqs s n)"
    using sreach_wsys[OF assms] by (simp_all add: wsys_def objects_ok_def ksys_def sems_ok_def)
  have "if m_owner (mutexes s n) = Some c then m_hold (mutexes (snd (rt_mutex_take n time s)) n) = 0 else stuck (snd (rt_mutex_take n time s))"
    if "running s c" "int_nest s = 0" "is_mutex n s" "sint time < 2147483647" "\<not> mutex_usable c n time s" for c n time
    using mutex_take_unusable[OF w(1) _ _ that(2,3) _ that(5,4)] w(5) that(1,3) by (auto simp: running_def split: if_splits)
  with w show ?thesis by blast
qed

lemma system_safe_witness:
  "\<not> stuck (snd (rt_mutex_create (Some 1) 0 (snd (rt_sem_init 0 5 1 (rtthread_startup (Some 1) (Some 0x20000400) 2 0x20001000 reset_kernel)))))"
proof -
  let ?k = "rtthread_startup (Some 1) (Some 0x20000400) 2 0x20001000 reset_kernel"
  note b = boot_runs[OF reset_cold _ stack_sample(1,2), of 1 2, simplified]
  have k: "sreach (\<lambda>_ s. s) ?k" by (rule sreach.boot[OF reset_cold _ stack_sample(1,2)]) simp
  let ?s = "snd (rt_sem_init 0 5 1 ?k)"
  have s: "sstep (\<lambda>_ s. s) ?k ?s" by (rule sstep.sem_init) (simp_all add: b(6))
  have "int_nest ?s = 0" using b(9) by (simp add: rt_sem_init_def upd_sem_def rt_ipc_object_init_def reset_kernel_def sample_sel)
  moreover have "lists ?s (MutexL 1) = []" by (simp add: rt_sem_init_def upd_sem_def rt_ipc_object_init_def b(6))
  ultimately have "sstep (\<lambda>_ s. s) ?s (snd (rt_mutex_create (Some 1) 0 ?s))" by (intro sstep.mutex_create) simp_all
  from system_safe[OF sreach.step[OF sreach.step[OF k s] this]] show ?thesis by blast
qed

text \<open>The same from any consistent state, for the calls alone: from a consistent state no sequence of calls of the running thread (threads, semaphores,
  mutexes, events, mailboxes, message queues), of threads that resume such a call, and of ticks fails an assertion
  or corrupts the lists, the bitmap, the timers, a semaphore, a mutex, a mailbox or a message queue.\<close>

theorem kernel_safety:
  assumes "wreach tf s s'" "wsys s"
  shows "kinv s' \<and> \<not> stuck s' \<and> tm_ok s' \<and> (\<forall>n. is_sem n s' \<longrightarrow> sem_inv n s') \<and>
    (\<forall>n. is_mutex n s' \<longrightarrow> mutex_inv n s') \<and> (\<forall>n. is_mb n s' \<longrightarrow> mb_inv (mboxes s' n)) \<and>
    (\<forall>n. is_mq n s' \<longrightarrow> mq_inv (mqs s' n))"
  using wreach_wsys[OF assms] by (simp add: wsys_def objects_ok_def ksys_def sems_ok_def)

lemma kernel_safety_witness:
  "\<not> stuck (snd (rt_mq_send 0 [1, 2] 2 (snd (rt_mutex_take 4 (-1) sample))))"
proof -
  let ?s = "snd (rt_mutex_take 4 (-1) sample)"
  have s: "wstep (\<lambda>_ s. s) sample ?s"
    by (rule wstep.mutex_take[OF sample_run sample_sel(2) sample_is(2)])
      (simp_all add: mutex_usable_def sample_sel sample_mutex_def)
  have "wsys ?s" by (rule wreach_wsys[OF wreach.step[OF wreach.start s] sample_wsys])
  have "is_mq 0 ?s"
    using mutex_take_now(1)[OF sample_sel(1,2) sample_is(2), of 4 "-1"] sample_is(5)[of 0]
    by (simp add: sample_sel sample_mutex_def is_mq_def kframe upd_thr_def)
  have "wreach (\<lambda>_ s. s) sample (snd (rt_mq_send 0 [1, 2] 2 ?s))"
    by (rule wreach.step[OF wreach.step[OF wreach.start s] wstep.mq_send[OF \<open>is_mq 0 ?s\<close>]]) simp
  from kernel_safety[OF this sample_wsys] show ?thesis by simp
qed

end
